(* ===== verification/Prelude.thy ===== *)
theory Prelude
  imports Main "HOL-Library.AList" "HOL-Library.List_Lexorder" "HOL-Library.Char_ord"
    "HOL-Library.Multiset"
begin

text \<open>
  Shared vocabulary of the development.

  \<^item> Go strings are byte sequences: \<open>gostring\<close> is the HOL type of character lists and
    \<open>of_char\<close> reads a byte. The helpers below are the parts of the Go packages
    \<open>strings\<close>, \<open>strconv\<close> and \<open>unicode/utf8\<close> the sources use.
  \<^item> A Go map is an association list (\<open>gomap\<close>) with \<open>gm_get\<close>, \<open>gm_set\<close> and \<open>gm_del\<close>;
    the order of the list is the (arbitrary) iteration order of \<open>range\<close>. The locale
    \<open>go_map\<close> states the contract the components rely on.
  \<^item> A pointer is a natural number, \<open>nil\<close> is \<open>None\<close>, and an object store is a total function
    from pointers to objects that starts with Go's zero values.
  \<^item> The locale \<open>transition_system\<close> is the induction every component invariant uses: an
    invariant of the initial states that every step keeps holds in every reachable state.
\<close>

named_theorems gomap_simps \<open>rewriting of lookups after updates of Go maps\<close>
named_theorems step_defs \<open>definitions unfolded when a step of a component is analysed\<close>

type_synonym gostring = string
type_synonym ptr = nat
type_synonym ('k, 'v) gomap = "('k \<times> 'v) list"

section \<open>Go maps\<close>

definition gm_get :: "('k, 'v) gomap \<Rightarrow> 'k \<Rightarrow> 'v option" where
  "gm_get m k = map_of m k"

definition gm_set :: "'k \<Rightarrow> 'v \<Rightarrow> ('k, 'v) gomap \<Rightarrow> ('k, 'v) gomap" where
  "gm_set k v m = AList.update k v m"

definition gm_del :: "'k \<Rightarrow> ('k, 'v) gomap \<Rightarrow> ('k, 'v) gomap" where
  "gm_del k m = AList.delete k m"

definition gm_ok :: "('k, 'v) gomap \<Rightarrow> bool" where
  "gm_ok m \<longleftrightarrow> distinct (map fst m)"

text \<open>The contract of a Go map: reading after writing and after deleting.\<close>

locale go_map =
  fixes get :: "'m \<Rightarrow> 'k \<Rightarrow> 'v option"
    and put :: "'k \<Rightarrow> 'v \<Rightarrow> 'm \<Rightarrow> 'm"
    and del :: "'k \<Rightarrow> 'm \<Rightarrow> 'm"
    and invar :: "'m \<Rightarrow> bool"
  assumes get_put: "get (put k v m) k' = (if k' = k then Some v else get m k')"
    and get_del: "get (del k m) k' = (if k' = k then None else get m k')"
    and invar_put: "invar m \<Longrightarrow> invar (put k v m)"
    and invar_del: "invar m \<Longrightarrow> invar (del k m)"
begin

lemma get_put_same: "get (put k v m) k = Some v"
  by (simp add: get_put)

lemma get_put_other: "k' \<noteq> k \<Longrightarrow> get (put k v m) k' = get m k'"
  by (simp add: get_put)

lemma get_del_same: "get (del k m) k = None"
  by (simp add: get_del)

lemma get_del_other: "k' \<noteq> k \<Longrightarrow> get (del k m) k' = get m k'"
  by (simp add: get_del)

lemma get_delD: "get (del k m) k' = Some v \<Longrightarrow> k' \<noteq> k \<and> get m k' = Some v"
  by (simp add: get_del split: if_splits)

lemma put_put_get: "get (put k v (put k w m)) k' = get (put k v m) k'"
  by (simp add: get_put)

end

interpretation gm: go_map gm_get gm_set gm_del gm_ok
proof unfold_locales
  show "gm_get (gm_set k v m) k' = (if k' = k then Some v else gm_get m k')"
    for k :: 'a and v :: 'b and m k'
    by (simp add: gm_get_def gm_set_def update_conv)
  show "gm_get (gm_del k m) k' = (if k' = k then None else gm_get m k')"
    for k :: 'a and m :: "('a, 'b) gomap" and k'
    by (simp add: gm_get_def gm_del_def delete_conv)
  show "gm_ok m \<Longrightarrow> gm_ok (gm_set k v m)" for m :: "('a, 'b) gomap" and k v
    by (simp add: gm_ok_def gm_set_def distinct_update)
  show "gm_ok m \<Longrightarrow> gm_ok (gm_del k m)" for m :: "('a, 'b) gomap" and k
    by (simp add: gm_ok_def gm_del_def distinct_delete)
qed

lemmas [simp, gomap_simps] = gm.get_put gm.get_del
lemmas [simp, intro] = gm.invar_put gm.invar_del

lemma gm_get_empty [simp]: "gm_get [] k = None"
  by (simp add: gm_get_def)

lemma gm_ok_empty [simp]: "gm_ok []"
  by (simp add: gm_ok_def)

text \<open>What \<open>range\<close> visits: every binding once.\<close>

lemma gm_get_in_set: "gm_get m k = Some v \<Longrightarrow> (k, v) \<in> set m"
  by (simp add: gm_get_def map_of_SomeD)

lemma gm_set_get: "gm_ok m \<Longrightarrow> (k, v) \<in> set m \<longleftrightarrow> gm_get m k = Some v"
  by (simp add: gm_get_def gm_ok_def)

lemma gm_values: "gm_ok m \<Longrightarrow> v \<in> snd ` set m \<longleftrightarrow> (\<exists>k. gm_get m k = Some v)"
  using gm_set_get[of m] by force

text \<open>The bindings as a multiset, for accounting over a map.\<close>

lemma gm_del_none: "gm_get m k = None \<Longrightarrow> gm_del k m = m"
  by (simp add: gm_get_def gm_del_def delete_id map_of_eq_None_iff)

lemma gm_set_none: "gm_get m k = None \<Longrightarrow> gm_set k v m = m @ [(k, v)]"
  unfolding gm_get_def gm_set_def by (induction m) (auto split: if_splits)

lemma mset_gm_del: "gm_ok m \<Longrightarrow> gm_get m k = Some v \<Longrightarrow> mset m = add_mset (k, v) (mset (gm_del k m))"
proof (induction m)
  case (Cons x m)
  obtain a b where x: "x = (a, b)" by (cases x)
  show ?case
  proof (cases "a = k")
    case True
    with Cons.prems(1) x have "gm_get m k = None" by (simp add: gm_ok_def gm_get_def map_of_eq_None_iff)
    with True x Cons.prems(2) gm_del_none[of m k] show ?thesis by (simp add: gm_del_def gm_get_def)
  next
    case False
    with Cons x show ?thesis by (simp add: gm_ok_def gm_get_def gm_del_def)
  qed
qed simp

lemma mset_gm_set: "gm_ok m \<Longrightarrow> mset (gm_set k v m) = add_mset (k, v) (mset (gm_del k m))"
proof (cases "gm_get m k")
  case None
  then show ?thesis by (simp add: gm_set_none gm_del_none)
next
  case (Some w)
  assume ok: "gm_ok m"
  have "gm_del k (gm_set k v m) = gm_del k m"
    unfolding gm_del_def gm_set_def by (induction m) auto
  with mset_gm_del[OF gm.invar_put[OF ok], of k v k v] show ?thesis by simp
qed

lemma distinct_sub_mset:
  assumes "mset xs \<subseteq># mset ys" "distinct ys"
  shows "distinct xs"
proof -
  obtain M where "mset ys = mset xs + M" using assms(1) by (auto simp: mset_subset_eq_exists_conv)
  moreover obtain zs where "mset zs = M" using ex_mset by blast
  ultimately have "mset ys = mset (xs @ zs)" by simp
  then have "distinct (xs @ zs)" using assms(2) mset_eq_imp_distinct_iff by blast
  then show ?thesis by simp
qed

section \<open>Object stores\<close>

text \<open>\<open>heap_upd p f h\<close> applies the field updates \<open>f\<close> to the object at \<open>p\<close>.\<close>

definition heap_upd :: "ptr \<Rightarrow> ('o \<Rightarrow> 'o) \<Rightarrow> (ptr \<Rightarrow> 'o) \<Rightarrow> (ptr \<Rightarrow> 'o)" where
  "heap_upd p f h = h(p := f (h p))"

lemma heap_upd_apply [simp]: "heap_upd p f h q = (if q = p then f (h q) else h q)"
  by (simp add: heap_upd_def)

section \<open>Reachable states\<close>

inductive reach :: "('s \<Rightarrow> bool) \<Rightarrow> ('s \<Rightarrow> 's \<Rightarrow> bool) \<Rightarrow> 's \<Rightarrow> bool"
  for init :: "'s \<Rightarrow> bool" and step :: "'s \<Rightarrow> 's \<Rightarrow> bool" where
  reach_init: "init s \<Longrightarrow> reach init step s"
| reach_step: "reach init step s \<Longrightarrow> step s t \<Longrightarrow> reach init step t"

locale transition_system =
  fixes init :: "'s \<Rightarrow> bool"
    and step :: "'s \<Rightarrow> 's \<Rightarrow> bool"
    and inv :: "'s \<Rightarrow> bool"
  assumes inv_init: "init s \<Longrightarrow> inv s"
    and inv_step: "inv s \<Longrightarrow> step s t \<Longrightarrow> inv t"
begin

lemma reach_inv: "reach init step s \<Longrightarrow> inv s"
  by (induction rule: reach.induct) (auto intro: inv_init inv_step)

lemma steps_inv: "step\<^sup>*\<^sup>* s t \<Longrightarrow> inv s \<Longrightarrow> inv t"
  by (induction rule: rtranclp_induct) (auto intro: inv_step)

lemma reach_step_inv: "reach init step s \<Longrightarrow> step s t \<Longrightarrow> inv s \<and> inv t"
  using reach_inv inv_step by blast

end

section \<open>Strings\<close>

text \<open>\<open>strings.LastIndexByte\<close>: the last position of a byte, \<open>None\<close> for Go's \<open>-1\<close>.\<close>

fun lastIndexByte :: "gostring \<Rightarrow> char \<Rightarrow> nat option" where
  "lastIndexByte [] c = None"
| "lastIndexByte (x # xs) c =
     (case lastIndexByte xs c of
        Some i \<Rightarrow> Some (Suc i)
      | None \<Rightarrow> if x = c then Some 0 else None)"

lemma lastIndexByte_None: "lastIndexByte s c = None \<longleftrightarrow> c \<notin> set s"
  by (induction s) (auto split: option.splits)

lemma lastIndexByte_Some:
  "lastIndexByte s c = Some i \<longleftrightarrow> (i < length s \<and> s ! i = c \<and> c \<notin> set (drop (Suc i) s))"
proof (induction s arbitrary: i)
  case Nil
  then show ?case by simp
next
  case (Cons x xs)
  show ?case
  proof (cases i)
    case 0
    then show ?thesis
      by (cases "lastIndexByte xs c") (auto simp: lastIndexByte_None[symmetric])
  next
    case (Suc j)
    show ?thesis
    proof (cases "lastIndexByte xs c")
      case None
      with Cons.IH[of j] Suc show ?thesis by simp
    next
      case (Some k)
      with Cons.IH[of j] Suc show ?thesis by simp
    qed
  qed
qed

lemma lastIndexByte_append:
  "c \<notin> set t \<Longrightarrow> lastIndexByte (s @ c # t) c = Some (length s)"
  by (simp add: lastIndexByte_Some)

lemma lastIndexByte_split:
  "lastIndexByte s c = Some i \<Longrightarrow> s = take i s @ c # drop (Suc i) s \<and> c \<notin> set (drop (Suc i) s)"
  using id_take_nth_drop[of i s] by (simp add: lastIndexByte_Some)

text \<open>\<open>strings.Cut\<close> with a one byte separator: before, after, found.\<close>

definition cut :: "gostring \<Rightarrow> char \<Rightarrow> gostring \<times> gostring \<times> bool" where
  "cut s c = (takeWhile (\<lambda>x. x \<noteq> c) s, tl (dropWhile (\<lambda>x. x \<noteq> c) s), c \<in> set s)"

lemma cut_append: "c \<notin> set a \<Longrightarrow> cut (a @ c # b) c = (a, b, True)"
proof -
  assume "c \<notin> set a"
  then have "\<forall>x \<in> set a. x \<noteq> c" by auto
  then show ?thesis by (simp add: cut_def takeWhile_append2 dropWhile_append2)
qed

text \<open>\<open>strconv.FormatUint(n, 10)\<close> and \<open>strconv.ParseUint(s, 10, 64)\<close>.\<close>

definition digit_char :: "nat \<Rightarrow> char" where
  "digit_char d = char_of (48 + d)"

definition char_digit :: "char \<Rightarrow> nat option" where
  "char_digit c = (let n = of_char c in if 48 \<le> n \<and> n \<le> 57 then Some (n - 48) else None)"

lemma char_digit_digit_char [simp]: "d < 10 \<Longrightarrow> char_digit (digit_char d) = Some d"
  by (simp add: char_digit_def digit_char_def)

fun formatUint :: "nat \<Rightarrow> gostring" where
  "formatUint n = (if n < 10 then [digit_char n] else formatUint (n div 10) @ [digit_char (n mod 10)])"

declare formatUint.simps [simp del]

fun digits_value :: "nat \<Rightarrow> gostring \<Rightarrow> nat option" where
  "digits_value acc [] = Some acc"
| "digits_value acc (c # cs) =
     (case char_digit c of None \<Rightarrow> None | Some d \<Rightarrow> digits_value (10 * acc + d) cs)"

definition parseUint :: "gostring \<Rightarrow> nat option" where
  "parseUint s =
     (if s = [] then None
      else case digits_value 0 s of
             None \<Rightarrow> None
           | Some n \<Rightarrow> if n < 2 ^ 64 then Some n else None)"

lemma digits_value_append:
  "digits_value acc (xs @ ys) =
     (case digits_value acc xs of None \<Rightarrow> None | Some v \<Rightarrow> digits_value v ys)"
  by (induction xs arbitrary: acc) (auto split: option.splits)

lemma formatUint_nonempty [simp]: "formatUint n \<noteq> []"
  by (subst formatUint.simps) simp

lemma digits_value_formatUint: "digits_value 0 (formatUint n) = Some n"
proof (induction n rule: formatUint.induct)
  case (1 n)
  show ?case
  proof (cases "n < 10")
    case True
    then show ?thesis by (subst formatUint.simps) simp
  next
    case False
    with "1.IH" have "digits_value 0 (formatUint (n div 10)) = Some (n div 10)" by simp
    with False show ?thesis
      by (subst formatUint.simps) (simp add: digits_value_append)
  qed
qed

lemma parseUint_formatUint: "n < 2 ^ 64 \<Longrightarrow> parseUint (formatUint n) = Some n"
  by (simp add: parseUint_def digits_value_formatUint)

lemma formatUint_inj: "formatUint m = formatUint n \<longleftrightarrow> m = n"
  by (metis digits_value_formatUint option.inject)

section \<open>UTF-8\<close>

text \<open>
  The runes \<open>for range\<close> yields for a Go string: \<open>utf8.DecodeRune\<close> on the remaining bytes,
  which reads one byte as U+FFFD when they do not start a valid encoding.
\<close>

definition cont :: "nat \<Rightarrow> nat \<Rightarrow> nat \<Rightarrow> bool" where
  "cont lo hi b \<longleftrightarrow> lo \<le> b \<and> b \<le> hi"

definition decodeRune :: "nat \<Rightarrow> nat list \<Rightarrow> nat \<times> nat" where
  "decodeRune b bs =
     (let bad = (65533, 0) in
      if b < 128 then (b, 0)
      else if 194 \<le> b \<and> b \<le> 223 then
        (case bs of c # _ \<Rightarrow> if cont 128 191 c then ((b - 192) * 64 + (c - 128), 1) else bad | [] \<Rightarrow> bad)
      else if 224 \<le> b \<and> b \<le> 239 then
        (case bs of c # d # _ \<Rightarrow>
           if cont (if b = 224 then 160 else 128) (if b = 237 then 159 else 191) c \<and> cont 128 191 d
           then ((b - 224) * 4096 + (c - 128) * 64 + (d - 128), 2) else bad
         | _ \<Rightarrow> bad)
      else if 240 \<le> b \<and> b \<le> 244 then
        (case bs of c # d # e # _ \<Rightarrow>
           if cont (if b = 240 then 144 else 128) (if b = 244 then 143 else 191) c
              \<and> cont 128 191 d \<and> cont 128 191 e
           then ((b - 240) * 262144 + (c - 128) * 4096 + (d - 128) * 64 + (e - 128), 3) else bad
         | _ \<Rightarrow> bad)
      else bad)"

fun runes_bytes :: "nat list \<Rightarrow> nat list" where
  "runes_bytes [] = []"
| "runes_bytes (b # bs) = (let (r, k) = decodeRune b bs in r # runes_bytes (drop k bs))"

definition runes :: "gostring \<Rightarrow> nat list" where
  "runes s = runes_bytes (map of_char s)"

definition runeCount :: "gostring \<Rightarrow> nat" where
  "runeCount s = length (runes s)"

lemma runes_bytes_ascii: "list_all (\<lambda>b. b < 128) bs \<Longrightarrow> runes_bytes bs = bs"
  by (induction bs) (auto simp: decodeRune_def)

lemma runes_Nil [simp]: "runes [] = []"
  by (simp add: runes_def)

lemma runeCount_bounds: "runeCount s \<le> length s" "runeCount s = 0 \<longleftrightarrow> s = []"
proof -
  have "length (runes_bytes bs) \<le> length bs" for bs
  proof (induction bs rule: runes_bytes.induct)
    case (2 b bs)
    obtain r k where rk: "decodeRune b bs = (r, k)" by (cases "decodeRune b bs")
    from "2.IH"[OF rk[symmetric] refl] rk show ?case by simp
  qed simp
  from this[of "map of_char s"] show "runeCount s \<le> length s"
    by (simp add: runeCount_def runes_def)
  show "runeCount s = 0 \<longleftrightarrow> s = []"
    by (cases s) (auto simp: runeCount_def runes_def split: prod.splits)
qed

end
