(* ===== verification/Json.thy ===== *)
theory Json
  imports Prelude
begin

text \<open>
  The encoder of Go's \<open>encoding/json\<close> as far as the sources use it: booleans, integers,
  strings, arrays and objects (structs with their fields in declaration order, maps already
  in key order). Strings are escaped the way \<open>json.Marshal\<close> escapes them, HTML characters and
  the two line separators included; bytes that are not valid UTF-8 become the escape of
  U+FFFD.
\<close>

datatype json =
    JNull
  | JBool bool
  | JInt int
  | JStr gostring
  | JArr "json list"
  | JObj "(gostring \<times> json) list"

definition hex_char :: "nat \<Rightarrow> char" where
  "hex_char d = (if d < 10 then char_of (48 + d) else char_of (87 + d))"

definition u00 :: "nat \<Rightarrow> gostring" where
  "u00 b = (CHR 0x5C # ''u00'') @ [hex_char (b div 16), hex_char (b mod 16)]"

definition escape_ascii :: "nat \<Rightarrow> gostring" where
  "escape_ascii b =
     (if b = 34 \<or> b = 92 then [CHR 0x5C, char_of b]
      else if b = 8 then (CHR 0x5C # ''b'')
      else if b = 12 then (CHR 0x5C # ''f'')
      else if b = 10 then (CHR 0x5C # ''n'')
      else if b = 13 then (CHR 0x5C # ''r'')
      else if b = 9 then (CHR 0x5C # ''t'')
      else if b < 32 \<or> b = 60 \<or> b = 62 \<or> b = 38 then u00 b
      else [char_of b])"

fun escape_bytes :: "nat list \<Rightarrow> gostring" where
  "escape_bytes [] = []"
| "escape_bytes (b # bs) =
     (if b < 128 then escape_ascii b @ escape_bytes bs
      else let (r, k) = decodeRune b bs in
           (if r = 65533 \<and> k = 0 then (CHR 0x5C # ''ufffd'')
            else if r = 8232 then (CHR 0x5C # ''u2028'')
            else if r = 8233 then (CHR 0x5C # ''u2029'')
            else map char_of (b # take k bs))
           @ escape_bytes (drop k bs))"

definition quote_json :: "gostring \<Rightarrow> gostring" where
  "quote_json s = [CHR 0x22] @ escape_bytes (map of_char s) @ [CHR 0x22]"

definition formatInt :: "int \<Rightarrow> gostring" where
  "formatInt i = (if i < 0 then CHR ''-'' # formatUint (nat (- i)) else formatUint (nat i))"

fun intersperse :: "gostring list \<Rightarrow> gostring" where
  "intersperse [] = []"
| "intersperse [x] = x"
| "intersperse (x # y # ys) = x @ CHR '','' # intersperse (y # ys)"

fun marshal :: "json \<Rightarrow> gostring" where
  "marshal JNull = ''null''"
| "marshal (JBool b) = (if b then ''true'' else ''false'')"
| "marshal (JInt i) = formatInt i"
| "marshal (JStr s) = quote_json s"
| "marshal (JArr vs) = CHR ''['' # intersperse (map marshal vs) @ '']''"
| "marshal (JObj fs) =
     CHR ''{'' # intersperse (map (\<lambda>(k, v). quote_json k @ CHR '':'' # marshal v) fs) @ ''}''"

text \<open>Struct fields tagged \<open>omitempty\<close> are left out when they hold the empty value.\<close>

definition fld :: "gostring \<Rightarrow> json \<Rightarrow> (gostring \<times> json) list" where
  "fld name v = [(name, v)]"

definition fld_str :: "gostring \<Rightarrow> gostring \<Rightarrow> (gostring \<times> json) list" where
  "fld_str name s = (if s = [] then [] else [(name, JStr s)])"

definition fld_strs :: "gostring \<Rightarrow> gostring list \<Rightarrow> (gostring \<times> json) list" where
  "fld_strs name ss = (if ss = [] then [] else [(name, JArr (map JStr ss))])"

definition fld_int :: "gostring \<Rightarrow> int \<Rightarrow> (gostring \<times> json) list" where
  "fld_int name i = (if i = 0 then [] else [(name, JInt i)])"

definition fld_bool :: "gostring \<Rightarrow> bool \<Rightarrow> (gostring \<times> json) list" where
  "fld_bool name b = (if b then [(name, JBool True)] else [])"

definition fld_opt :: "gostring \<Rightarrow> ('a \<Rightarrow> json) \<Rightarrow> 'a option \<Rightarrow> (gostring \<times> json) list" where
  "fld_opt name enc v = (case v of None \<Rightarrow> [] | Some x \<Rightarrow> [(name, enc x)])"

lemma marshal_nonempty [simp]: "marshal j \<noteq> []"
  by (cases j) (auto simp: formatInt_def quote_json_def)

section \<open>One value is one line\<close>

text \<open>
  Escaping leaves no raw line feed in the output, so a frame or a log record is exactly the
  line that ends with the line feed appended to it.
\<close>

lemma newline_char_of: "CHR 0x0A = char_of n \<longleftrightarrow> n mod 256 = (10::nat)"
  using char_of_eq_iff[of n "CHR 0x0A"] by (auto simp: take_bit_eq_mod)

lemma formatUint_no_newline: "CHR 0x0A \<notin> set (formatUint n)"
proof (induction n rule: formatUint.induct)
  case (1 n)
  have "CHR 0x0A \<noteq> digit_char d" if "d < 10" for d
    using that by (simp add: digit_char_def newline_char_of)
  from this[of n] this[of "n mod 10"] "1.IH" show ?case by (subst formatUint.simps) simp
qed

lemma escape_ascii_no_newline: "b < 128 \<Longrightarrow> CHR 0x0A \<notin> set (escape_ascii b)"
  by (auto simp: escape_ascii_def u00_def hex_char_def newline_char_of)

lemma decodeRune_continuation:
  "decodeRune b bs = (r, k) \<Longrightarrow> x \<in> set (take k bs) \<Longrightarrow> 128 \<le> x \<and> x \<le> 191"
  by (auto simp: decodeRune_def Let_def cont_def split: if_splits list.splits)

lemma escape_bytes_no_newline:
  "(\<forall>b \<in> set bs. b < 256) \<Longrightarrow> CHR 0x0A \<notin> set (escape_bytes bs)"
proof (induction bs rule: escape_bytes.induct)
  case 1
  then show ?case by simp
next
  case (2 b bs)
  show ?case
  proof (cases "b < 128")
    case True
    with 2 show ?thesis by (simp add: escape_ascii_no_newline)
  next
    case False
    obtain r k where rk: "decodeRune b bs = (r, k)" by (cases "decodeRune b bs")
    have rest: "CHR 0x0A \<notin> set (escape_bytes (drop k bs))"
      using "2.IH"(2)[OF False rk[symmetric] refl] "2.prems" by (auto dest: in_set_dropD)
    have "CHR 0x0A \<noteq> char_of x" if "x \<in> set (b # take k bs)" for x
    proof -
      have "128 \<le> x \<and> x < 256"
        using that False "2.prems" decodeRune_continuation[OF rk, of x] by auto
      then show ?thesis by (simp add: newline_char_of)
    qed
    then have "CHR 0x0A \<notin> set (map char_of (b # take k bs))" by auto
    with rest rk False show ?thesis by (simp del: list.map)
  qed
qed

lemma quote_json_no_newline: "CHR 0x0A \<notin> set (quote_json s)"
proof -
  have "CHR 0x0A \<notin> set (escape_bytes (map of_char s))"
    by (rule escape_bytes_no_newline) auto
  then show ?thesis by (simp add: quote_json_def)
qed

lemma intersperse_set: "set (intersperse xs) \<subseteq> insert CHR '','' (\<Union> (set ` set xs))"
  by (induction xs rule: intersperse.induct) auto

lemma marshal_no_newline: "CHR 0x0A \<notin> set (marshal j)"
proof (induction j)
  case (JInt i)
  then show ?case by (simp add: formatInt_def formatUint_no_newline)
next
  case (JStr s)
  then show ?case by (simp add: quote_json_no_newline)
next
  case (JArr vs)
  with intersperse_set[of "map marshal vs"] show ?case by auto
next
  case (JObj fs)
  have "CHR 0x0A \<notin> set (quote_json k @ CHR '':'' # marshal v)" if "(k, v) \<in> set fs" for k v
    using JObj[OF that] by (simp add: quote_json_no_newline)
  with intersperse_set[of "map (\<lambda>(k, v). quote_json k @ CHR '':'' # marshal v) fs"] show ?case
    by fastforce
qed simp_all

end
