(* ===== verification/LogEvent.thy ===== *)
theory LogEvent
  imports Prelude
begin

text \<open>
  The typed events of the communication log (\<open>bus/internal/commslog/commslog.go\<close>): what the
  daemon hands to the logger. \<open>Commslog\<close> models the logger itself.
\<close>

record Endpoint =
  ep_SessionID :: gostring
  ep_Host :: gostring
  ep_Target :: gostring
  ep_Targets :: "gostring list"
  ep_Product :: gostring
  ep_Name :: gostring
  ep_Groups :: "gostring list"

record LogReceipt =
  lc_DeliveryID :: gostring
  lc_Disposition :: gostring
  lc_Reason :: gostring

record Event =
  ev_Type :: gostring
  ev_Method :: gostring
  ev_MessageID :: gostring
  ev_DeliveryID :: gostring
  ev_RunID :: gostring
  ev_ErrorCode :: int
  ev_State :: gostring
  ev_Outcome :: gostring
  ev_From :: "Endpoint option"
  ev_To :: "Endpoint option"
  ev_Receipt :: "LogReceipt option"
  ev_Body :: gostring

end
