(* ===== verification/Commslog.thy ===== *)
theory Commslog
  imports Json LogEvent
begin

text \<open>
  The operator's communication log (\<open>bus/internal/commslog/commslog.go\<close>): typed events, their
  validation and redaction, the byte-bounded queue with its overflow gap, and the writer
  goroutine. \<open>Emit\<close> runs under the logger's mutex and is one function; the writer loop takes
  and releases the mutex between its steps, so it is a program counter (\<open>writer_pc\<close>) and a
  step per critical section, interleaved with \<open>Emit\<close> and \<open>Close\<close> by \<open>log_step\<close>.

  Counters are natural numbers: they are 64 bits wide in the source and count events, so
  they do not wrap in any run that can be observed. \<open>queueBytes\<close> is an \<open>int\<close>, as in the
  source, because the final gap record is subtracted without having been added.
  An instant is its RFC 3339 text, or \<open>None\<close> for a year \<open>MarshalJSON\<close> refuses.
  The sink is the interface \<open>recordSink\<close>, a parameter here; \<open>Logfile\<close> provides it.
\<close>

section \<open>Data\<close>

abbreviation minimumFileBytes :: int where "minimumFileBytes \<equiv> 4096"
abbreviation minimumQueueBytes :: int where "minimumQueueBytes \<equiv> 4096"
abbreviation maximumLabelBytes :: nat where "maximumLabelBytes \<equiv> 1024"
abbreviation maximumFilters :: nat where "maximumFilters \<equiv> 4096"
abbreviation maximumGroups :: nat where "maximumGroups \<equiv> 4096"

type_synonym instant = "gostring option"

record Options =
  op_Mode :: gostring
  op_Path :: gostring
  op_Host :: gostring
  op_Incarnation :: gostring
  op_MaxFileBytes :: int
  op_MaxFiles :: int
  op_QueueBytes :: int
  op_Sessions :: "gostring list"
  op_Groups :: "gostring list"

record Stats =
  st_LastSequence :: nat
  st_Written :: nat
  st_GapRecords :: nat
  st_LostInvalid :: nat
  st_LostOverflow :: nat
  st_LostWrite :: nat
  st_WriteErrors :: nat

record gapRecord =
  gr_FirstSequence :: nat
  gr_LastSequence :: nat
  gr_Count :: nat
  gr_Cause :: gostring

record diskRecord =
  di_Schema :: gostring
  di_Host :: gostring
  di_Incarnation :: gostring
  di_Sequence :: nat
  di_UTC :: instant
  di_Type :: gostring
  di_Method :: gostring
  di_MessageID :: gostring
  di_DeliveryID :: gostring
  di_RunID :: gostring
  di_ErrorCode :: int
  di_State :: gostring
  di_Outcome :: gostring
  di_From :: "Endpoint option"
  di_To :: "Endpoint option"
  di_Receipt :: "LogReceipt option"
  di_Body :: gostring
  di_Gap :: "gapRecord option"

record pendingGap =
  pg_first :: nat
  pg_last :: nat
  pg_count :: nat
  pg_at :: instant

text \<open>A nil \<open>raw\<close> is the empty list: a marshalled line is never empty.\<close>

record queuedRecord =
  qr_raw :: gostring
  qr_events :: nat
  qr_isGap :: bool

record Logger =
  lg_mode :: gostring
  lg_host :: gostring
  lg_incarnation :: gostring
  lg_maxFileBytes :: int
  lg_maxQueueBytes :: int
  lg_sessions :: "gostring list"
  lg_groups :: "gostring list"
  lg_notify :: bool
  lg_done :: bool
  lg_queue :: "queuedRecord list"
  lg_queueBytes :: int
  lg_gap :: "pendingGap option"
  lg_closing :: bool
  lg_err :: "gostring option"
  lg_stats :: Stats

section \<open>Validation\<close>

definition validReceipt :: "LogReceipt option \<Rightarrow> bool" where
  "validReceipt receipt =
     (case receipt of
        None \<Rightarrow> False
      | Some r \<Rightarrow>
          if lc_Disposition r \<in> {''written'', ''injected'', ''queued_for_next_turn''} then lc_Reason r = []
          else if lc_Disposition r = ''rejected'' then lc_Reason r \<noteq> []
          else False)"

definition validEndpoint :: "Endpoint option \<Rightarrow> bool" where
  "validEndpoint endpoint =
     (case endpoint of
        None \<Rightarrow> True
      | Some e \<Rightarrow>
          if length (ep_Targets e) > 256 \<or> length (ep_Groups e) > maximumGroups then False
          else list_all (\<lambda>target. target \<noteq> []) (ep_Targets e))"

definition validMethod :: "gostring \<Rightarrow> bool" where
  "validMethod method \<longleftrightarrow> method \<noteq> [] \<and> length method \<le> maximumLabelBytes"

definition validState :: "gostring \<Rightarrow> bool" where
  "validState state \<longleftrightarrow> state \<in>
     {'''', ''starting'', ''ready'', ''connected'', ''running'', ''idle'', ''settled'', ''closing'',
      ''closed'', ''disconnected'', ''superseded''}"

definition validOutcome :: "gostring \<Rightarrow> bool" where
  "validOutcome outcome \<longleftrightarrow> outcome \<in>
     {'''', ''accepted'', ''rejected'', ''completed'', ''failed'', ''canceled'', ''unavailable'',
      ''no_agent'', ''interrupted'', ''no_receipt'', ''not_submitted''}"

definition validEvent :: "Event \<Rightarrow> bool" where
  "validEvent event =
     (if \<not> validMethod (ev_Method event) then False
      else if \<not> validState (ev_State event) \<or> \<not> validOutcome (ev_Outcome event) then False
      else if \<not> validEndpoint (ev_From event) \<or> \<not> validEndpoint (ev_To event) then False
      else if ev_Body event \<noteq> [] \<and> (ev_Type event \<noteq> ''request'' \<or> ev_Method event \<noteq> ''message.send'')
      then False
      else if ev_Type event = ''lifecycle'' \<or> ev_Type event = ''request'' then ev_Receipt event = None
      else if ev_Type event = ''receipt'' then validReceipt (ev_Receipt event)
      else False)"

definition validFilters :: "gostring list \<Rightarrow> bool" where
  "validFilters values =
     (if length values > maximumFilters then False
      else list_all (\<lambda>value. \<not> (value = [] \<or> length value > maximumLabelBytes)) values)"

definition validateOptions :: "Options \<Rightarrow> gostring option" where
  "validateOptions options =
     (if op_Mode options \<noteq> ''metadata'' \<and> op_Mode options \<noteq> ''content''
      then Some ''invalid communication log mode''
      else if op_Path options = [] \<or> op_Host options = [] \<or> op_Incarnation options = []
      then Some ''communication log path, host, and incarnation are required''
      else if length (op_Host options) > maximumLabelBytes
              \<or> length (op_Incarnation options) > maximumLabelBytes
      then Some ''communication log host or incarnation is too long''
      else if op_MaxFileBytes options < minimumFileBytes \<or> op_QueueBytes options < minimumQueueBytes
              \<or> op_MaxFiles options < 1
      then Some ''invalid communication log bounds''
      else if \<not> validFilters (op_Sessions options) \<or> \<not> validFilters (op_Groups options)
      then Some ''invalid communication log filter''
      else None)"

section \<open>Filters\<close>

definition stringSet :: "gostring list \<Rightarrow> gostring list" where
  "stringSet values = (if length values = 0 then [] else remdups (filter (\<lambda>value. value \<noteq> []) values))"

definition matchesEndpoint :: "Logger \<Rightarrow> Endpoint option \<Rightarrow> bool" where
  "matchesEndpoint l endpoint =
     (case endpoint of
        None \<Rightarrow> False
      | Some e \<Rightarrow>
          if ep_SessionID e \<in> set (lg_sessions l) then True
          else list_ex (\<lambda>group. group \<in> set (lg_groups l)) (ep_Groups e))"

definition matches :: "Logger \<Rightarrow> Event \<Rightarrow> bool" where
  "matches l event =
     (if length (lg_sessions l) = 0 \<and> length (lg_groups l) = 0 then True
      else matchesEndpoint l (ev_From event) \<or> matchesEndpoint l (ev_To event))"

section \<open>Lines\<close>

definition json_endpoint :: "Endpoint \<Rightarrow> json" where
  "json_endpoint e = JObj
     (fld_str ''session_id'' (ep_SessionID e) @ fld_str ''host'' (ep_Host e)
      @ fld_str ''target'' (ep_Target e) @ fld_strs ''targets'' (ep_Targets e)
      @ fld_str ''product'' (ep_Product e) @ fld_str ''name'' (ep_Name e)
      @ fld_strs ''groups'' (ep_Groups e))"

definition json_receipt :: "LogReceipt \<Rightarrow> json" where
  "json_receipt r = JObj
     (fld_str ''delivery_id'' (lc_DeliveryID r) @ fld ''disposition'' (JStr (lc_Disposition r))
      @ fld_str ''reason'' (lc_Reason r))"

definition json_gap :: "gapRecord \<Rightarrow> json" where
  "json_gap g = JObj
     (fld ''first_seq'' (JInt (int (gr_FirstSequence g))) @ fld ''last_seq'' (JInt (int (gr_LastSequence g)))
      @ fld ''count'' (JInt (int (gr_Count g))) @ fld ''cause'' (JStr (gr_Cause g)))"

definition json_record :: "gostring \<Rightarrow> diskRecord \<Rightarrow> json" where
  "json_record utc r = JObj
     (fld ''schema'' (JStr (di_Schema r)) @ fld ''host'' (JStr (di_Host r))
      @ fld ''incarnation'' (JStr (di_Incarnation r)) @ fld ''seq'' (JInt (int (di_Sequence r)))
      @ fld ''utc'' (JStr utc) @ fld ''type'' (JStr (di_Type r))
      @ fld_str ''method'' (di_Method r) @ fld_str ''message_id'' (di_MessageID r)
      @ fld_str ''delivery_id'' (di_DeliveryID r) @ fld_str ''run_id'' (di_RunID r)
      @ fld_int ''error_code'' (di_ErrorCode r) @ fld_str ''state'' (di_State r)
      @ fld_str ''outcome'' (di_Outcome r) @ fld_opt ''from'' json_endpoint (di_From r)
      @ fld_opt ''to'' json_endpoint (di_To r) @ fld_opt ''receipt'' json_receipt (di_Receipt r)
      @ fld_str ''body'' (di_Body r) @ fld_opt ''gap'' json_gap (di_Gap r))"

definition marshalLine :: "diskRecord \<Rightarrow> gostring option" where
  "marshalLine r =
     (case di_UTC r of
        None \<Rightarrow> None
      | Some utc \<Rightarrow> Some (marshal (json_record utc r) @ [CHR 0x0A]))"

section \<open>The queue\<close>

definition addGap :: "nat \<Rightarrow> instant \<Rightarrow> Logger \<Rightarrow> Logger" where
  "addGap sequence at l =
     (case lg_gap l of
        None \<Rightarrow> l\<lparr>lg_gap := Some \<lparr>pg_first = sequence, pg_last = sequence, pg_count = 1, pg_at = at\<rparr>\<rparr>
      | Some g \<Rightarrow> l\<lparr>lg_gap := Some (g\<lparr>pg_last := sequence, pg_count := pg_count g + 1\<rparr>)\<rparr>)"

definition gap_disk :: "Logger \<Rightarrow> pendingGap \<Rightarrow> diskRecord" where
  "gap_disk l g =
     \<lparr>di_Schema = ''sessionbus.comms.v1'', di_Host = lg_host l, di_Incarnation = lg_incarnation l,
      di_Sequence = pg_last g, di_UTC = pg_at g, di_Type = ''gap'', di_Method = [], di_MessageID = [],
      di_DeliveryID = [], di_RunID = [], di_ErrorCode = 0, di_State = [], di_Outcome = [],
      di_From = None, di_To = None, di_Receipt = None, di_Body = [],
      di_Gap = Some \<lparr>gr_FirstSequence = pg_first g, gr_LastSequence = pg_last g,
                     gr_Count = pg_count g, gr_Cause = ''queue_overflow''\<rparr>\<rparr>"

definition gapLine :: "Logger \<Rightarrow> pendingGap \<Rightarrow> queuedRecord" where
  "gapLine l g =
     \<lparr>qr_raw = (case marshalLine (gap_disk l g) of Some raw \<Rightarrow> raw | None \<Rightarrow> []),
      qr_events = 0, qr_isGap = True\<rparr>"

definition event_disk :: "Logger \<Rightarrow> nat \<Rightarrow> instant \<Rightarrow> Event \<Rightarrow> diskRecord" where
  "event_disk l sequence at event =
     \<lparr>di_Schema = ''sessionbus.comms.v1'', di_Host = lg_host l, di_Incarnation = lg_incarnation l,
      di_Sequence = sequence, di_UTC = at, di_Type = ev_Type event, di_Method = ev_Method event,
      di_MessageID = ev_MessageID event, di_DeliveryID = ev_DeliveryID event,
      di_RunID = ev_RunID event, di_ErrorCode = ev_ErrorCode event, di_State = ev_State event,
      di_Outcome = ev_Outcome event, di_From = ev_From event,
      di_To = ev_To event, di_Receipt = ev_Receipt event, di_Body = ev_Body event,
      di_Gap = None\<rparr>"

definition recordInvalid :: "Logger \<Rightarrow> Logger" where
  "recordInvalid l =
     (if \<not> lg_closing l \<and> lg_err l = None
      then l\<lparr>lg_stats := (lg_stats l)\<lparr>st_LostInvalid := st_LostInvalid (lg_stats l) + 1\<rparr>\<rparr>
      else l)"

text \<open>The branch every refused record of \<open>Emit\<close> takes.\<close>

definition loseOverflow :: "nat \<Rightarrow> instant \<Rightarrow> Logger \<Rightarrow> Logger \<times> bool" where
  "loseOverflow sequence at l =
     (let l1 = addGap sequence at l
      in (l1\<lparr>lg_stats := (lg_stats l1)\<lparr>st_LostOverflow := st_LostOverflow (lg_stats l1) + 1\<rparr>\<rparr>, False))"

text \<open>The critical section of \<open>Emit\<close>, for a redacted and valid event.\<close>

definition admitEvent :: "Logger \<Rightarrow> Event \<Rightarrow> instant \<Rightarrow> Logger \<times> bool" where
  "admitEvent l0 event at =
     (if lg_closing l0 \<or> lg_err l0 \<noteq> None then (l0, False)
      else
        let l = l0\<lparr>lg_stats := (lg_stats l0)\<lparr>st_LastSequence := st_LastSequence (lg_stats l0) + 1\<rparr>\<rparr>;
            sequence = st_LastSequence (lg_stats l)
        in case marshalLine (event_disk l sequence at event) of
             None \<Rightarrow> loseOverflow sequence at l
           | Some raw \<Rightarrow>
               if int (length raw) > lg_maxQueueBytes l \<or> int (length raw) > lg_maxFileBytes l
               then loseOverflow sequence at l
               else
                 let gap = (case lg_gap l of
                              None \<Rightarrow> \<lparr>qr_raw = [], qr_events = 0, qr_isGap = False\<rparr>
                            | Some g \<Rightarrow> gapLine l g);
                     needed = int (length raw) + int (length (qr_raw gap))
                 in if lg_queueBytes l + needed > lg_maxQueueBytes l
                       \<or> int (length (qr_raw gap)) > lg_maxFileBytes l
                    then loseOverflow sequence at l
                    else
                      let l1 = (if qr_raw gap \<noteq> []
                                then l\<lparr>lg_queue := lg_queue l @ [gap],
                                       lg_queueBytes := lg_queueBytes l + int (length (qr_raw gap)),
                                       lg_gap := None\<rparr>
                                else l);
                          l2 = l1\<lparr>lg_queue := lg_queue l1 @ [\<lparr>qr_raw = raw, qr_events = 1, qr_isGap = False\<rparr>],
                                  lg_queueBytes := lg_queueBytes l1 + int (length raw),
                                  lg_notify := True\<rparr>
                      in (l2, True))"

definition redact :: "Logger \<Rightarrow> Event \<Rightarrow> Event" where
  "redact l event = (if lg_mode l \<noteq> ''content'' then event\<lparr>ev_Body := []\<rparr> else event)"

definition Emit :: "Logger \<Rightarrow> Event \<Rightarrow> instant \<Rightarrow> Logger \<times> bool" where
  "Emit l event at =
     (if lg_mode l \<noteq> ''metadata'' \<and> lg_mode l \<noteq> ''content'' then (l, False)
      else if \<not> matches l event then (l, False)
      else if \<not> validEndpoint (ev_From event) \<or> \<not> validEndpoint (ev_To event)
      then (recordInvalid l, False)
      else if \<not> validEvent (redact l event) then (recordInvalid l, False)
      else admitEvent l (redact l event) at)"

section \<open>The writer\<close>

text \<open>\<open>take\<close> of the source: the next record (nil for none) and whether the writer is done.\<close>

definition takeRecord :: "Logger \<Rightarrow> queuedRecord \<times> bool \<times> Logger" where
  "takeRecord l =
     (let nothing = \<lparr>qr_raw = [], qr_events = 0, qr_isGap = False\<rparr> in
      case lg_queue l of
        record # rest \<Rightarrow> (record, False, l\<lparr>lg_queue := rest\<rparr>)
      | [] \<Rightarrow>
          if \<not> lg_closing l then (nothing, False, l)
          else case lg_gap l of
                 Some g \<Rightarrow> (gapLine l g, False, l\<lparr>lg_gap := None\<rparr>)
               | None \<Rightarrow> (nothing, True, l))"

definition failLog :: "Logger \<Rightarrow> gostring option \<Rightarrow> nat \<Rightarrow> Logger" where
  "failLog l err current =
     (case err of
        None \<Rightarrow> l
      | Some e \<Rightarrow>
          if lg_err l \<noteq> None then l
          else l\<lparr>lg_err := Some e, lg_closing := True,
                 lg_stats := (lg_stats l)\<lparr>st_WriteErrors := st_WriteErrors (lg_stats l) + 1,
                    st_LostWrite := st_LostWrite (lg_stats l) + current + sum_list (map qr_events (lg_queue l))\<rparr>,
                 lg_queue := [], lg_queueBytes := 0, lg_gap := None\<rparr>)"

definition joinErr :: "gostring option \<Rightarrow> gostring option \<Rightarrow> gostring option" where
  "joinErr first second =
     (case first of
        None \<Rightarrow> second
      | Some x \<Rightarrow> Some (case second of None \<Rightarrow> x | Some y \<Rightarrow> x @ CHR 0x0A # y))"

datatype writer_pc = WTake | WWait | WWrite queuedRecord | WDone

text \<open>
  One step of \<open>writeLoop\<close> over a sink with operations \<open>wr\<close> (\<open>WriteRecord\<close>) and \<open>cl\<close>
  (\<open>Close\<close>). \<open>None\<close>: the writer is blocked on \<open>notify\<close> or has returned.
\<close>

fun writeLoop ::
    "('k \<Rightarrow> gostring \<Rightarrow> gostring option \<times> 'k) \<Rightarrow> ('k \<Rightarrow> gostring option \<times> 'k)
     \<Rightarrow> Logger \<Rightarrow> writer_pc \<Rightarrow> 'k \<Rightarrow> (Logger \<times> writer_pc \<times> 'k) option" where
  "writeLoop wr cl l WTake k =
     (let (record, done, l1) = takeRecord l in
      if done then (let (err, k1) = cl k in Some ((failLog l1 err 0)\<lparr>lg_done := True\<rparr>, WDone, k1))
      else if qr_raw record = [] then Some (l1, WWait, k)
      else Some (l1, WWrite record, k))"
| "writeLoop wr cl l WWait k =
     (if lg_notify l then Some (l\<lparr>lg_notify := False\<rparr>, WTake, k) else None)"
| "writeLoop wr cl l (WWrite record) k =
     (let (err, k1) = wr k (qr_raw record) in
      if err \<noteq> None then
        (let (closeErr, k2) = cl k1
         in Some ((failLog l (joinErr err closeErr) (qr_events record))\<lparr>lg_done := True\<rparr>, WDone, k2))
      else
        let s = lg_stats l;
            s1 = (if qr_isGap record then s\<lparr>st_GapRecords := st_GapRecords s + 1\<rparr>
                  else s\<lparr>st_Written := st_Written s + qr_events record\<rparr>)
        in Some (l\<lparr>lg_stats := s1, lg_queueBytes := lg_queueBytes l - int (length (qr_raw record))\<rparr>,
                 WTake, k1))"
| "writeLoop wr cl l WDone k = None"

text \<open>The critical section of \<open>Close\<close>; the caller then waits for \<open>done\<close>.\<close>

definition CloseLog :: "Logger \<Rightarrow> Logger" where
  "CloseLog l =
     (if lg_mode l \<noteq> ''metadata'' \<and> lg_mode l \<noteq> ''content'' then l
      else if \<not> lg_closing l then l\<lparr>lg_closing := True, lg_notify := True\<rparr> else l)"

definition zeroStats :: Stats where
  "zeroStats = \<lparr>st_LastSequence = 0, st_Written = 0, st_GapRecords = 0, st_LostInvalid = 0,
                st_LostOverflow = 0, st_LostWrite = 0, st_WriteErrors = 0\<rparr>"

definition newLogger :: "Options \<Rightarrow> Logger" where
  "newLogger options =
     \<lparr>lg_mode = op_Mode options, lg_host = op_Host options, lg_incarnation = op_Incarnation options,
      lg_maxFileBytes = op_MaxFileBytes options, lg_maxQueueBytes = op_QueueBytes options,
      lg_sessions = stringSet (op_Sessions options), lg_groups = stringSet (op_Groups options),
      lg_notify = False, lg_done = False, lg_queue = [], lg_queueBytes = 0, lg_gap = None,
      lg_closing = False, lg_err = None, lg_stats = zeroStats\<rparr>"

definition newOffLogger :: Logger where
  "newOffLogger =
     \<lparr>lg_mode = ''off'', lg_host = [], lg_incarnation = [], lg_maxFileBytes = 0, lg_maxQueueBytes = 0,
      lg_sessions = [], lg_groups = [], lg_notify = False, lg_done = True, lg_queue = [],
      lg_queueBytes = 0, lg_gap = None, lg_closing = False, lg_err = None, lg_stats = zeroStats\<rparr>"

section \<open>The running log\<close>

text \<open>
  A running log: the logger, the writer's position, the sink, and the lines the sink has
  accepted so far. Steps: \<open>Emit\<close> of any event by any goroutine, \<open>Close\<close>, and a step of the
  writer. The instant of an \<open>Emit\<close> is that of \<open>time.Now\<close>, so it is never \<open>None\<close>.
\<close>

record 'k log_state =
  y_log :: Logger
  y_pc :: writer_pc
  y_sink :: 'k
  y_out :: "gostring list"

definition accepted ::
    "('k \<Rightarrow> gostring \<Rightarrow> gostring option \<times> 'k) \<Rightarrow> writer_pc \<Rightarrow> 'k \<Rightarrow> gostring list" where
  "accepted wr pc k =
     (case pc of WWrite r \<Rightarrow> if fst (wr k (qr_raw r)) = None then [qr_raw r] else [] | _ \<Rightarrow> [])"

inductive log_step ::
    "('k \<Rightarrow> gostring \<Rightarrow> gostring option \<times> 'k) \<Rightarrow> ('k \<Rightarrow> gostring option \<times> 'k)
     \<Rightarrow> 'k log_state \<Rightarrow> 'k log_state \<Rightarrow> bool"
  for wr :: "'k \<Rightarrow> gostring \<Rightarrow> gostring option \<times> 'k" and cl :: "'k \<Rightarrow> gostring option \<times> 'k" where
  emit_step: "at \<noteq> None \<Longrightarrow> log_step wr cl s (s\<lparr>y_log := fst (Emit (y_log s) e at)\<rparr>)"
| close_step: "log_step wr cl s (s\<lparr>y_log := CloseLog (y_log s)\<rparr>)"
| write_step: "writeLoop wr cl (y_log s) (y_pc s) (y_sink s) = Some (l, pc, k) \<Longrightarrow>
     log_step wr cl s \<lparr>y_log = l, y_pc = pc, y_sink = k,
                       y_out = y_out s @ accepted wr (y_pc s) (y_sink s)\<rparr>"

inductive_cases log_stepE: "log_step wr cl s t"

definition log_init :: "'k log_state \<Rightarrow> bool" where
  "log_init s \<longleftrightarrow> (\<exists>options. validateOptions options = None \<and> y_log s = newLogger options)
     \<and> y_pc s = WTake \<and> y_out s = []"

section \<open>Invariants\<close>

definition inflight :: "writer_pc \<Rightarrow> queuedRecord list" where
  "inflight pc = (case pc of WWrite r \<Rightarrow> [r] | _ \<Rightarrow> [])"

definition bytes_of :: "queuedRecord list \<Rightarrow> int" where
  "bytes_of rs = sum_list (map (\<lambda>r. int (length (qr_raw r))) rs)"

definition events_of :: "queuedRecord list \<Rightarrow> nat" where
  "events_of rs = sum_list (map qr_events rs)"

text \<open>Queued records are real lines, and gap records carry no event.\<close>

definition shape_ok :: "Logger \<Rightarrow> writer_pc \<Rightarrow> bool" where
  "shape_ok l pc \<longleftrightarrow>
     (\<forall>r \<in> set (inflight pc @ lg_queue l). qr_raw r \<noteq> [] \<and> (qr_isGap r \<longrightarrow> qr_events r = 0))
     \<and> (lg_err l \<noteq> None \<longrightarrow> pc = WDone \<and> lg_queue l = [] \<and> lg_closing l)
     \<and> (pc = WDone \<longrightarrow> lg_closing l \<and> lg_queue l = [] \<and> lg_gap l = None)
     \<and> 0 \<le> lg_maxQueueBytes l"

text \<open>
  The byte count is exact until the final gap record, which is written without having been
  counted; the queue itself never exceeds its bound.
\<close>

definition bytes_ok :: "Logger \<Rightarrow> writer_pc \<Rightarrow> bool" where
  "bytes_ok l pc \<longleftrightarrow>
     (lg_queueBytes l = bytes_of (inflight pc @ lg_queue l) \<and> lg_queueBytes l \<le> lg_maxQueueBytes l)
     \<or> (lg_closing l \<and> lg_queue l = [] \<and> lg_gap l = None)"

definition acct_ok :: "Logger \<Rightarrow> writer_pc \<Rightarrow> bool" where
  "acct_ok l pc \<longleftrightarrow>
     st_Written (lg_stats l) + events_of (inflight pc @ lg_queue l)
       + st_LostOverflow (lg_stats l) + st_LostWrite (lg_stats l)
     = st_LastSequence (lg_stats l)"

text \<open>No lost wakeup: a waiting writer with work to do has a token in \<open>notify\<close>.\<close>

definition wake_ok :: "Logger \<Rightarrow> writer_pc \<Rightarrow> bool" where
  "wake_ok l pc \<longleftrightarrow> (pc = WWait \<and> (lg_queue l \<noteq> [] \<or> lg_closing l) \<longrightarrow> lg_notify l)"

definition gap_ok :: "Logger \<Rightarrow> bool" where
  "gap_ok l \<longleftrightarrow>
     (\<forall>g. lg_gap l = Some g \<longrightarrow>
        pg_at g \<noteq> None \<and> 1 \<le> pg_first g \<and> pg_first g \<le> pg_last g
        \<and> pg_last g = st_LastSequence (lg_stats l) \<and> pg_count g = pg_last g + 1 - pg_first g)"

text \<open>
  The sequence numbers a record stands for: its own, or the range of a gap. The stream
  invariant says that the accepted, in-flight and queued lines are the encodings of records
  that stand, together with the pending gap, for exactly the numbers 1, 2, ... in order.
\<close>

definition span :: "nat \<Rightarrow> nat \<Rightarrow> nat list" where
  "span m n = [m..<Suc n]"

definition covers :: "diskRecord \<Rightarrow> nat list" where
  "covers r = (case di_Gap r of None \<Rightarrow> [di_Sequence r]
               | Some g \<Rightarrow> span (gr_FirstSequence g) (gr_LastSequence g))"

definition pending_covers :: "Logger \<Rightarrow> nat list" where
  "pending_covers l = (case lg_gap l of None \<Rightarrow> [] | Some g \<Rightarrow> span (pg_first g) (pg_last g))"

definition stream_of :: "diskRecord list \<Rightarrow> gostring list \<Rightarrow> bool" where
  "stream_of rs lines \<longleftrightarrow> map marshalLine rs = map Some lines"

definition stream_ok :: "Logger \<Rightarrow> writer_pc \<Rightarrow> gostring list \<Rightarrow> bool" where
  "stream_ok l pc out \<longleftrightarrow>
     (lg_err l = None \<longrightarrow>
       (\<exists>rs. stream_of rs (out @ map qr_raw (inflight pc @ lg_queue l))
          \<and> concat (map covers rs) @ pending_covers l = span 1 (st_LastSequence (lg_stats l))))"

definition log_inv :: "'k log_state \<Rightarrow> bool" where
  "log_inv s \<longleftrightarrow>
     shape_ok (y_log s) (y_pc s) \<and> bytes_ok (y_log s) (y_pc s) \<and> acct_ok (y_log s) (y_pc s)
     \<and> wake_ok (y_log s) (y_pc s) \<and> gap_ok (y_log s) \<and> stream_ok (y_log s) (y_pc s) (y_out s)"

lemmas log_inv_defs = shape_ok_def bytes_ok_def acct_ok_def wake_ok_def gap_ok_def stream_ok_def

lemma span_single [simp]: "span n n = [n]"
  by (simp add: span_def)

lemma span_snoc: "m \<le> Suc n \<Longrightarrow> span m (Suc n) = span m n @ [Suc n]"
  by (simp add: span_def)

lemma span_empty [simp]: "span (Suc n) n = []"
  by (simp add: span_def)

lemma bytes_of_simps [simp]:
  "bytes_of [] = 0" "bytes_of (r # rs) = int (length (qr_raw r)) + bytes_of rs"
  "bytes_of (rs @ ss) = bytes_of rs + bytes_of ss"
  by (simp_all add: bytes_of_def)

lemma events_of_simps [simp]:
  "events_of [] = 0" "events_of (r # rs) = qr_events r + events_of rs"
  "events_of (rs @ ss) = events_of rs + events_of ss"
  by (simp_all add: events_of_def)

lemma inflight_simps [simp]:
  "inflight WTake = []" "inflight WWait = []" "inflight (WWrite r) = [r]" "inflight WDone = []"
  by (simp_all add: inflight_def)

lemma bytes_of_nonneg: "0 \<le> bytes_of rs"
  by (induction rs) auto

lemma stream_of_append:
  "stream_of rs ls \<Longrightarrow> map marshalLine ss = map Some ms \<Longrightarrow> stream_of (rs @ ss) (ls @ ms)"
  by (simp add: stream_of_def)

lemma marshalLine_Some: "marshalLine r = Some raw \<Longrightarrow> raw \<noteq> []"
  by (auto simp: marshalLine_def split: option.splits)

lemma gapLine_marshal:
  assumes "pg_at g \<noteq> None"
  shows "marshalLine (gap_disk l g) = Some (qr_raw (gapLine l g))" "qr_raw (gapLine l g) \<noteq> []"
  using assms by (auto simp: gapLine_def marshalLine_def gap_disk_def)

lemma gapLine_simps [simp]: "qr_isGap (gapLine l g)" "qr_events (gapLine l g) = 0"
  by (simp_all add: gapLine_def)

lemma covers_gap_disk: "covers (gap_disk l g) = span (pg_first g) (pg_last g)"
  by (simp add: covers_def gap_disk_def)

lemma covers_event_disk: "covers (event_disk l n at e) = [n]"
  by (simp add: covers_def event_disk_def)

subsection \<open>\<open>Emit\<close>\<close>

abbreviation bump :: "Logger \<Rightarrow> Logger" where
  "bump l \<equiv> l\<lparr>lg_stats := (lg_stats l)\<lparr>st_LastSequence := st_LastSequence (lg_stats l) + 1\<rparr>\<rparr>"

abbreviation nextSeq :: "Logger \<Rightarrow> nat" where
  "nextSeq l \<equiv> st_LastSequence (lg_stats l) + 1"

text \<open>The state after an admitted event.\<close>

definition enqueued :: "Logger \<Rightarrow> gostring \<Rightarrow> Logger" where
  "enqueued l raw =
     (let gs = (case lg_gap l of None \<Rightarrow> [] | Some g \<Rightarrow> [gapLine l g]);
          new = gs @ [\<lparr>qr_raw = raw, qr_events = 1, qr_isGap = False\<rparr>]
      in (bump l)\<lparr>lg_queue := lg_queue l @ new, lg_queueBytes := lg_queueBytes l + bytes_of new,
                  lg_gap := None, lg_notify := True\<rparr>)"

lemma gapLine_stats [simp]: "gapLine (l\<lparr>lg_stats := x\<rparr>) g = gapLine l g"
  by (simp add: gapLine_def gap_disk_def marshalLine_def json_record_def)

lemma admitEvent_cases:
  assumes "at \<noteq> None" "gap_ok l"
  obtains
    (refused) "lg_closing l \<or> lg_err l \<noteq> None" "admitEvent l e at = (l, False)"
  | (lost) "\<not> lg_closing l" "lg_err l = None" "admitEvent l e at = loseOverflow (nextSeq l) at (bump l)"
  | (queued) raw where "\<not> lg_closing l" "lg_err l = None"
      "marshalLine (event_disk (bump l) (nextSeq l) at e) = Some raw"
      "admitEvent l e at = (enqueued l raw, True)"
      "lg_queueBytes (enqueued l raw) \<le> lg_maxQueueBytes l"
proof -
  obtain raw where raw: "marshalLine (event_disk (bump l) (nextSeq l) at e) = Some raw"
    using assms(1) by (cases at) (auto simp: marshalLine_def event_disk_def)
  consider (a) "lg_closing l \<or> lg_err l \<noteq> None" | (b) "\<not> lg_closing l" "lg_err l = None" by blast
  then show ?thesis
  proof cases
    case a
    then show ?thesis using refused by (simp add: admitEvent_def)
  next
    case b
    show ?thesis
    proof (cases "lg_gap l")
      case None
      show ?thesis
      proof (cases "int (length raw) > lg_maxQueueBytes l \<or> int (length raw) > lg_maxFileBytes l
                    \<or> lg_queueBytes l + int (length raw) > lg_maxQueueBytes l \<or> 0 > lg_maxFileBytes l")
        case True
        then show ?thesis using lost b raw None by (auto simp: admitEvent_def Let_def)
      next
        case False
        then show ?thesis
          using queued[OF b raw] b raw None
          by (simp add: admitEvent_def Let_def enqueued_def)
      qed
    next
      case (Some g)
      then have g: "qr_raw (gapLine l g) \<noteq> []" using assms(2) by (auto simp: gap_ok_def gapLine_marshal)
      show ?thesis
      proof (cases "int (length raw) > lg_maxQueueBytes l \<or> int (length raw) > lg_maxFileBytes l
                    \<or> lg_queueBytes l + (int (length raw) + int (length (qr_raw (gapLine l g)))) > lg_maxQueueBytes l
                    \<or> int (length (qr_raw (gapLine l g))) > lg_maxFileBytes l")
        case True
        then show ?thesis using lost b raw Some by (auto simp: admitEvent_def Let_def)
      next
        case False
        then show ?thesis
          using queued[OF b raw] b raw Some g
          by (simp add: admitEvent_def Let_def enqueued_def algebra_simps)
      qed
    qed
  qed
qed

text \<open>The invariant over a logger, a writer position and the accepted lines.\<close>

definition inv3 :: "Logger \<Rightarrow> writer_pc \<Rightarrow> gostring list \<Rightarrow> bool" where
  "inv3 l pc out \<longleftrightarrow>
     shape_ok l pc \<and> bytes_ok l pc \<and> acct_ok l pc \<and> wake_ok l pc \<and> gap_ok l \<and> stream_ok l pc out"

lemma log_inv_inv3: "log_inv s \<longleftrightarrow> inv3 (y_log s) (y_pc s) (y_out s)"
  by (simp add: log_inv_def inv3_def)

lemma recordInvalid_inv3: "inv3 l pc out \<Longrightarrow> inv3 (recordInvalid l) pc out"
  by (auto simp: inv3_def log_inv_defs pending_covers_def recordInvalid_def)

lemma loseOverflow_fields:
  assumes "gap_ok l" "at \<noteq> None"
  obtains g where
    "fst (loseOverflow (nextSeq l) at (bump l)) =
       (bump l)\<lparr>lg_gap := Some g,
                lg_stats := (lg_stats (bump l))\<lparr>st_LostOverflow := st_LostOverflow (lg_stats l) + 1\<rparr>\<rparr>"
    "pg_at g \<noteq> None" "1 \<le> pg_first g" "pg_first g \<le> pg_last g" "pg_last g = nextSeq l"
    "pg_count g = pg_last g + 1 - pg_first g"
    "span (pg_first g) (pg_last g) = pending_covers l @ [nextSeq l]"
proof (cases "lg_gap l")
  case None
  then show ?thesis
    using assms that[of "\<lparr>pg_first = nextSeq l, pg_last = nextSeq l, pg_count = 1, pg_at = at\<rparr>"]
    by (simp add: loseOverflow_def addGap_def pending_covers_def)
next
  case (Some g)
  with assms(1) show ?thesis
    using that[of "g\<lparr>pg_last := nextSeq l, pg_count := pg_count g + 1\<rparr>"]
    by (simp add: loseOverflow_def addGap_def pending_covers_def gap_ok_def Suc_diff_le span_snoc)
qed

lemma loseOverflow_inv3:
  assumes "inv3 l pc out" "\<not> lg_closing l" "lg_err l = None" "at \<noteq> None"
  shows "inv3 (fst (loseOverflow (nextSeq l) at (bump l))) pc out"
proof -
  from assms(1) have "gap_ok l" by (simp add: inv3_def)
  from loseOverflow_fields[OF this assms(4)] obtain g where g:
    "fst (loseOverflow (nextSeq l) at (bump l)) =
       (bump l)\<lparr>lg_gap := Some g,
                lg_stats := (lg_stats (bump l))\<lparr>st_LostOverflow := st_LostOverflow (lg_stats l) + 1\<rparr>\<rparr>"
    "pg_at g \<noteq> None" "1 \<le> pg_first g" "pg_first g \<le> pg_last g" "pg_last g = nextSeq l"
    "pg_count g = pg_last g + 1 - pg_first g"
    "span (pg_first g) (pg_last g) = pending_covers l @ [nextSeq l]" .
  from assms(1) obtain rs where rs: "stream_of rs (out @ map qr_raw (inflight pc @ lg_queue l))"
    "concat (map covers rs) @ pending_covers l = span 1 (st_LastSequence (lg_stats l))"
    using assms(3) by (auto simp: inv3_def stream_ok_def)
  have "concat (map covers rs) @ span (pg_first g) (pg_last g) = span 1 (nextSeq l)"
    unfolding g(7) append_assoc[symmetric] rs(2) by (simp add: span_snoc)
  then have "stream_ok (fst (loseOverflow (nextSeq l) at (bump l))) pc out"
    using rs(1) unfolding g(1) stream_ok_def pending_covers_def by auto
  moreover have "gap_ok (fst (loseOverflow (nextSeq l) at (bump l)))"
    using g(2-6) unfolding g(1) by (simp add: gap_ok_def)
  ultimately show ?thesis
    using assms(1-3) unfolding g(1)
    by (auto simp: inv3_def shape_ok_def bytes_ok_def acct_ok_def wake_ok_def)
qed

lemma enqueued_queue:
  "lg_queue (enqueued l raw) = lg_queue l @ (case lg_gap l of None \<Rightarrow> [] | Some g \<Rightarrow> [gapLine l g])
     @ [\<lparr>qr_raw = raw, qr_events = 1, qr_isGap = False\<rparr>]"
  by (simp add: enqueued_def Let_def)

lemma enqueued_inv3:
  assumes "inv3 l pc out" "\<not> lg_closing l" "lg_err l = None"
    and raw: "marshalLine (event_disk (bump l) (nextSeq l) at e) = Some raw"
    and fits: "lg_queueBytes (enqueued l raw) \<le> lg_maxQueueBytes l"
  shows "inv3 (enqueued l raw) pc out"
proof -
  let ?gs = "case lg_gap l of None \<Rightarrow> [] | Some g \<Rightarrow> [gapLine l g]"
  let ?gd = "case lg_gap l of None \<Rightarrow> [] | Some g \<Rightarrow> [gap_disk l g]"
  from assms(1) obtain rs where rs: "stream_of rs (out @ map qr_raw (inflight pc @ lg_queue l))"
    "concat (map covers rs) @ pending_covers l = span 1 (st_LastSequence (lg_stats l))"
    using assms(3) by (auto simp: inv3_def stream_ok_def)
  have gap: "gap_ok l" using assms(1) by (simp add: inv3_def)
  have gd: "map marshalLine ?gd = map Some (map qr_raw ?gs)" "concat (map covers ?gd) = pending_covers l"
    "\<forall>r \<in> set ?gs. qr_raw r \<noteq> [] \<and> qr_isGap r \<and> qr_events r = 0"
    using gap by (auto simp: gap_ok_def gapLine_marshal covers_gap_disk pending_covers_def
        split: option.splits)
  let ?rs = "rs @ ?gd @ [event_disk (bump l) (nextSeq l) at e]"
  have "stream_of ?rs (out @ map qr_raw (inflight pc @ lg_queue (enqueued l raw)))"
    using rs(1) gd(1) raw by (simp add: stream_of_def enqueued_queue)
  moreover have "concat (map covers ?rs) = span 1 (nextSeq l)"
    using rs(2) gd(2) by (simp add: covers_event_disk span_snoc)
  ultimately have "stream_ok (enqueued l raw) pc out"
    unfolding stream_ok_def pending_covers_def
    by (intro impI exI[of _ ?rs]) (simp add: enqueued_def Let_def)
  moreover have "bytes_ok (enqueued l raw) pc"
    using assms(1,2) fits by (auto simp: inv3_def bytes_ok_def enqueued_def Let_def)
  moreover have "acct_ok (enqueued l raw) pc"
    using assms(1) gd(3) by (auto simp: inv3_def acct_ok_def enqueued_def Let_def split: option.splits)
  moreover have "shape_ok (enqueued l raw) pc"
    using assms(1-3) gd(3) marshalLine_Some[OF raw]
    by (auto simp: inv3_def shape_ok_def enqueued_def Let_def split: option.splits)
  moreover have "wake_ok (enqueued l raw) pc" "gap_ok (enqueued l raw)"
    by (simp_all add: wake_ok_def gap_ok_def enqueued_def Let_def)
  ultimately show ?thesis by (simp add: inv3_def)
qed

lemma Emit_inv3:
  assumes "inv3 l pc out" "at \<noteq> None"
  shows "inv3 (fst (Emit l e at)) pc out"
proof -
  have "inv3 (fst (admitEvent l e' at)) pc out" for e'
  proof -
    have "gap_ok l" using assms(1) by (simp add: inv3_def)
    from assms(2) this show ?thesis
    proof (cases rule: admitEvent_cases[of at l e'])
      case lost
      with assms show ?thesis using loseOverflow_inv3 by simp
    next
      case (queued raw)
      with assms show ?thesis using enqueued_inv3 by simp
    qed (use assms in simp)
  qed
  then show ?thesis using assms(1) by (simp add: Emit_def recordInvalid_inv3)
qed

subsection \<open>\<open>Close\<close> and the writer\<close>

lemma CloseLog_inv3: "inv3 l pc out \<Longrightarrow> inv3 (CloseLog l) pc out"
  by (auto simp: inv3_def log_inv_defs pending_covers_def CloseLog_def)

lemma take_inv3:
  assumes "inv3 l WTake out" "takeRecord l = (r, False, l1)"
  shows "if qr_raw r = [] then inv3 l1 WWait out else inv3 l1 (WWrite r) out"
proof (cases "lg_queue l")
  case (Cons q qs)
  with assms show ?thesis
    by (auto simp: takeRecord_def inv3_def log_inv_defs pending_covers_def)
next
  case Nil
  show ?thesis
  proof (cases "lg_closing l")
    case False
    with Nil assms show ?thesis
      by (auto simp: takeRecord_def inv3_def log_inv_defs pending_covers_def)
  next
    case True
    with Nil assms(2) obtain g where g: "lg_gap l = Some g" "r = gapLine l g" "l1 = l\<lparr>lg_gap := None\<rparr>"
      by (auto simp: takeRecord_def split: option.splits)
    have at: "pg_at g \<noteq> None" using assms(1) g(1) by (simp add: inv3_def gap_ok_def)
    have err: "lg_err l = None" using assms(1) by (auto simp: inv3_def shape_ok_def)
    obtain rs where rs: "stream_of rs out"
      "concat (map covers rs) @ pending_covers l = span 1 (st_LastSequence (lg_stats l))"
      using assms(1) Nil err by (auto simp: inv3_def stream_ok_def)
    have "stream_of (rs @ [gap_disk l g]) (out @ [qr_raw r])"
      using rs(1) gapLine_marshal(1)[OF at, of l] g(2) by (simp add: stream_of_def)
    moreover have "concat (map covers (rs @ [gap_disk l g])) = span 1 (st_LastSequence (lg_stats l))"
      using rs(2) g(1) by (simp add: covers_gap_disk pending_covers_def)
    ultimately have "stream_ok l1 (WWrite r) out"
      unfolding stream_ok_def pending_covers_def g(3)
      by (intro impI exI[of _ "rs @ [gap_disk l g]"]) (simp add: Nil)
    moreover have "qr_raw r \<noteq> []" "qr_isGap r" "qr_events r = 0"
      using gapLine_marshal(2)[OF at, of l] g(2) by simp_all
    ultimately show ?thesis
      using assms(1) Nil True g(3)
      by (simp add: inv3_def shape_ok_def bytes_ok_def acct_ok_def wake_ok_def gap_ok_def)
  qed
qed

lemma failLog_inv3:
  assumes "shape_ok l pc" "acct_ok l pc" "events_of (inflight pc) = n" "err \<noteq> None" "pc \<noteq> WDone"
  shows "inv3 ((failLog l err n)\<lparr>lg_done := True\<rparr>) WDone out"
proof -
  have "lg_err l = None" using assms(1,5) by (auto simp: shape_ok_def)
  then show ?thesis
    using assms by (auto simp: inv3_def log_inv_defs failLog_def events_of_def)
qed

lemma take_done_inv3:
  assumes "inv3 l WTake out" "takeRecord l = (r, True, l1)"
  shows "inv3 ((failLog l1 err 0)\<lparr>lg_done := True\<rparr>) WDone out"
proof -
  have l1: "l1 = l" "lg_queue l = []" "lg_closing l" "lg_gap l = None"
    using assms(2) by (auto simp: takeRecord_def Let_def split: list.splits if_splits option.splits)
  show ?thesis
  proof (cases err)
    case None
    with assms(1) l1 show ?thesis
      by (auto simp: failLog_def inv3_def log_inv_defs pending_covers_def)
  next
    case (Some x)
    then show ?thesis
      using assms(1) l1 failLog_inv3[of l WTake 0 err out] by (simp add: inv3_def)
  qed
qed

lemma write_ok_inv3:
  assumes "inv3 l (WWrite r) out"
  shows "inv3 (l\<lparr>lg_stats :=
                 (if qr_isGap r then (lg_stats l)\<lparr>st_GapRecords := st_GapRecords (lg_stats l) + 1\<rparr>
                  else (lg_stats l)\<lparr>st_Written := st_Written (lg_stats l) + qr_events r\<rparr>),
               lg_queueBytes := lg_queueBytes l - int (length (qr_raw r))\<rparr>) WTake (out @ [qr_raw r])"
  using assms by (auto simp: inv3_def log_inv_defs pending_covers_def)

lemma writeLoop_inv3:
  assumes "inv3 l pc out" "writeLoop wr cl l pc k = Some (l', pc', k')"
  shows "inv3 l' pc' (out @ accepted wr pc k)"
proof (cases pc)
  case WTake
  obtain r d l1 where t: "takeRecord l = (r, d, l1)" by (cases "takeRecord l") auto
  show ?thesis
  proof (cases d)
    case True
    then show ?thesis
      using assms WTake t take_done_inv3[of l out r l1]
      by (auto simp: accepted_def split: prod.splits)
  next
    case False
    then show ?thesis
      using assms WTake t take_inv3[of l out r l1] by (auto simp: accepted_def split: if_splits)
  qed
next
  case WWait
  then show ?thesis
    using assms by (auto simp: accepted_def inv3_def log_inv_defs pending_covers_def split: if_splits)
next
  case (WWrite r)
  obtain err k1 where w: "wr k (qr_raw r) = (err, k1)" by (cases "wr k (qr_raw r)")
  show ?thesis
  proof (cases err)
    case None
    then show ?thesis
      using assms WWrite w write_ok_inv3[of l r out] by (auto simp: accepted_def Let_def)
  next
    case (Some x)
    obtain ce k2 where c: "cl k1 = (ce, k2)" by (cases "cl k1")
    have "joinErr err ce \<noteq> None" using Some by (auto simp: joinErr_def split: option.splits)
    then have "inv3 ((failLog l (joinErr err ce) (qr_events r))\<lparr>lg_done := True\<rparr>) WDone out"
      using assms(1) WWrite failLog_inv3[of l pc "qr_events r" "joinErr err ce" out]
      by (simp add: inv3_def)
    then show ?thesis using assms(2) WWrite w Some c by (auto simp: accepted_def)
  qed
next
  case WDone
  then show ?thesis using assms(2) by simp
qed

lemma log_inv_init: "log_init s \<Longrightarrow> log_inv s"
proof -
  assume "log_init s"
  then obtain o' where o': "validateOptions o' = None" "y_log s = newLogger o'" "y_pc s = WTake" "y_out s = []"
    by (auto simp: log_init_def)
  then have "0 \<le> op_QueueBytes o'" by (auto simp: validateOptions_def split: if_splits)
  then show ?thesis
    using o'(2-4)
    by (auto simp: log_inv_inv3 inv3_def log_inv_defs newLogger_def zeroStats_def pending_covers_def
        stream_of_def)
qed

lemma log_inv_step: "log_inv s \<Longrightarrow> log_step wr cl s t \<Longrightarrow> log_inv t"
  by (erule log_stepE) (auto simp: log_inv_inv3 intro: Emit_inv3 CloseLog_inv3 writeLoop_inv3)

interpretation commslog: transition_system log_init "log_step wr cl" log_inv for wr cl
  by unfold_locales (rule log_inv_init, assumption, rule log_inv_step)

section \<open>What the log guarantees\<close>

lemma length_span [simp]: "length (span 1 n) = n"
  by (simp add: span_def del: upt_Suc)

lemma prefix_span: "xs @ ys = span 1 n \<Longrightarrow> xs = span 1 (length xs)"
proof -
  assume e: "xs @ ys = span 1 n"
  then have "length xs + length ys = n" by (metis length_append length_span)
  moreover have "xs = take (length xs) (span 1 n)" using e by (metis append_eq_conv_conj)
  ultimately show ?thesis by (simp add: span_def take_upt del: upt_Suc)
qed

lemma stream_of_split:
  assumes "stream_of rs (ls @ ms)"
  obtains rs1 rs2 where "rs = rs1 @ rs2" "stream_of rs1 ls" "stream_of rs2 ms"
proof
  show "rs = take (length ls) rs @ drop (length ls) rs" by simp
  show "stream_of (take (length ls) rs) ls"
    using assms by (simp add: stream_of_def take_map[symmetric])
  show "stream_of (drop (length ls) rs) ms"
    using assms by (simp add: stream_of_def drop_map[symmetric])
qed

lemma stream_ok_prefix:
  assumes "stream_ok l pc out" "lg_err l = None"
  shows "\<exists>rs n. map marshalLine rs = map Some out \<and> concat (map covers rs) = [1..<Suc n]
           \<and> n \<le> st_LastSequence (lg_stats l)"
proof -
  obtain rs where rs: "stream_of rs (out @ map qr_raw (inflight pc @ lg_queue l))"
    "concat (map covers rs) @ pending_covers l = span 1 (st_LastSequence (lg_stats l))"
    using assms by (auto simp: stream_ok_def)
  from stream_of_split[OF rs(1)] obtain r1 r2 where r: "rs = r1 @ r2" "stream_of r1 out" by metis
  let ?n = "length (concat (map covers r1))"
  have eq: "concat (map covers r1) @ (concat (map covers r2) @ pending_covers l)
              = span 1 (st_LastSequence (lg_stats l))"
    using rs(2) r(1) by simp
  from prefix_span[OF eq] have "concat (map covers r1) = [1..<Suc ?n]" by (simp only: span_def)
  moreover have "?n \<le> st_LastSequence (lg_stats l)"
    using arg_cong[OF eq, of length] by (simp del: One_nat_def)
  ultimately show ?thesis using r(2) unfolding stream_of_def by blast
qed

text \<open>
  C32: as long as the sink has not failed, the lines it has accepted are the encodings of
  records that stand, in order and without repetition, for the sequence numbers 1 to n: every
  event number up to n is either a record of its own or inside a declared gap record. (The clock
  gives years JSON can hold, 0 to 9999, and the 64 bit counters do not wrap.)
\<close>

theorem log_lines_gap_free:
  assumes "reach log_init (log_step wr cl) s" and "lg_err (y_log s) = None"
  shows "\<exists>rs n. map marshalLine rs = map Some (y_out s) \<and> concat (map covers rs) = [1..<Suc n]
           \<and> n \<le> st_LastSequence (lg_stats (y_log s))"
  using commslog.reach_inv[OF assms(1)] assms(2) stream_ok_prefix[of "y_log s" "y_pc s" "y_out s"]
  by (simp only: log_inv_def)

text \<open>
  every sequence number given out is accounted for: it was written, is queued or being
  written, was lost to overflow (and then lies in a gap), or was lost to a write error; and the
  bytes the queue holds never exceed the configured bound.
\<close>

theorem log_accounting:
  assumes "reach log_init (log_step wr cl) s"
  shows "st_LastSequence (lg_stats (y_log s)) =
           st_Written (lg_stats (y_log s)) + events_of (inflight (y_pc s) @ lg_queue (y_log s))
           + st_LostOverflow (lg_stats (y_log s)) + st_LostWrite (lg_stats (y_log s))
         \<and> bytes_of (lg_queue (y_log s)) \<le> lg_maxQueueBytes (y_log s)"
proof -
  from assms have i: "log_inv s" by (rule commslog.reach_inv)
  then have "bytes_of (lg_queue (y_log s)) \<le> lg_maxQueueBytes (y_log s)"
    using bytes_of_nonneg[of "inflight (y_pc s)"]
    by (auto simp: log_inv_def bytes_ok_def shape_ok_def)
  with i show ?thesis by (simp add: log_inv_def acct_ok_def)
qed

text \<open>
  no wakeup is lost: the writer goroutine is blocked only when the queue is empty and the
  log is not closing, or when it has returned.
\<close>

theorem writer_blocked_only_when_idle:
  assumes "reach log_init (log_step wr cl) s"
    and "writeLoop wr cl (y_log s) (y_pc s) (y_sink s) = None"
  shows "y_pc s = WDone \<or> (y_pc s = WWait \<and> lg_queue (y_log s) = [] \<and> \<not> lg_closing (y_log s))"
proof -
  from assms(1) have "wake_ok (y_log s) (y_pc s)"
    using commslog.reach_inv log_inv_def by blast
  with assms(2) show ?thesis
    by (cases "y_pc s") (auto simp: wake_ok_def Let_def split: prod.splits if_splits)
qed

subsection \<open>Closing\<close>

text \<open>The writer alone, \<open>n\<close> steps.\<close>

fun runWriter ::
    "('k \<Rightarrow> gostring \<Rightarrow> gostring option \<times> 'k) \<Rightarrow> ('k \<Rightarrow> gostring option \<times> 'k)
     \<Rightarrow> nat \<Rightarrow> Logger \<times> writer_pc \<times> 'k \<Rightarrow> Logger \<times> writer_pc \<times> 'k" where
  "runWriter wr cl 0 s = s"
| "runWriter wr cl (Suc n) (l, pc, k) =
     (case writeLoop wr cl l pc k of None \<Rightarrow> (l, pc, k) | Some s \<Rightarrow> runWriter wr cl n s)"

definition work :: "Logger \<Rightarrow> writer_pc \<Rightarrow> nat" where
  "work l pc =
     (let q = length (lg_queue l) + (if lg_gap l = None then 0 else 1) in
      case pc of WTake \<Rightarrow> 2 * q + 1 | WWait \<Rightarrow> 2 * q + 2 | WWrite _ \<Rightarrow> 2 * q + 2 | WDone \<Rightarrow> 0)"

lemma writeLoop_work:
  assumes "inv3 l pc out" "lg_closing l" "writeLoop wr cl l pc k = Some (l', pc', k')"
  shows "work l' pc' < work l pc" "lg_closing l'"
proof -
  have "work l' pc' < work l pc \<and> lg_closing l'"
  proof (cases pc)
    case WTake
    with assms show ?thesis
      by (auto simp: takeRecord_def work_def Let_def failLog_def inv3_def shape_ok_def gap_ok_def
          gapLine_marshal split: prod.splits if_splits list.splits option.splits)
  next
    case WWait
    with assms show ?thesis by (auto simp: work_def split: if_splits)
  next
    case (WWrite r)
    with assms(2,3) show ?thesis
      by (auto simp: work_def Let_def failLog_def split: prod.splits if_splits option.splits)
  qed (use assms(3) in simp)
  then show "work l' pc' < work l pc" "lg_closing l'" by auto
qed

lemma runWriter_done:
  assumes "inv3 l pc out" "lg_closing l" "work l pc \<le> n"
  shows "fst (snd (runWriter wr cl n (l, pc, k))) = WDone"
  using assms
proof (induction n arbitrary: l pc k out)
  case 0
  then show ?case by (cases pc) (auto simp: work_def Let_def)
next
  case (Suc n)
  show ?case
  proof (cases "writeLoop wr cl l pc k")
    case None
    then have "pc = WDone"
      using Suc.prems(1,2)
      by (cases pc) (auto simp: inv3_def wake_ok_def Let_def split: prod.splits if_splits)
    with None show ?thesis by simp
  next
    case (Some t)
    obtain l' pc' k' where t: "t = (l', pc', k')" by (cases t)
    with Some have s: "writeLoop wr cl l pc k = Some (l', pc', k')" by simp
    have "work l' pc' \<le> n" "lg_closing l'"
      using writeLoop_work[OF Suc.prems(1,2) s] Suc.prems(3) by auto
    with Suc.IH[OF writeLoop_inv3[OF Suc.prems(1) s]] s show ?thesis by simp
  qed
qed

text \<open>
  C38: \<open>Close\<close> returns: from any state the log can reach, once closing, the writer finishes
  after a number of its own steps bounded by twice the queue length plus four, whatever the
  sink answers. (The clock gives years JSON can hold, 0 to 9999.)
\<close>

theorem close_terminates:
  assumes "reach log_init (log_step wr cl) s" and "lg_closing (y_log s)"
  shows "fst (snd (runWriter wr cl (2 * length (lg_queue (y_log s)) + 4)
                     (y_log s, y_pc s, y_sink s))) = WDone"
proof -
  have "inv3 (y_log s) (y_pc s) (y_out s)"
    using commslog.reach_inv[OF assms(1)] by (simp add: log_inv_inv3)
  moreover have "work (y_log s) (y_pc s) \<le> 2 * length (lg_queue (y_log s)) + 4"
    by (auto simp: work_def Let_def split: writer_pc.splits)
  ultimately show ?thesis using assms(2) by (intro runWriter_done)
qed

subsection \<open>Privacy and framing\<close>

text \<open>
  in every mode but \<open>content\<close> the message body has no influence on the log at all:
  emitting an event and emitting it without its body have the same effect and result.
\<close>

theorem metadata_mode_ignores_body:
  "lg_mode l \<noteq> ''content'' \<Longrightarrow> Emit l (e\<lparr>ev_Body := b\<rparr>) at = Emit l e at"
  by (simp add: Emit_def matches_def redact_def)

text \<open>
  a record is exactly one line: the line feed at its end is the only one, so no field of
  an event, the message body included, can forge a second record.
\<close>

theorem record_is_one_line:
  "marshalLine r = Some raw \<Longrightarrow> \<exists>body. raw = body @ [CHR 0x0A] \<and> CHR 0x0A \<notin> set body"
  using marshal_no_newline by (auto simp: marshalLine_def split: option.splits)

section \<open>A concrete run\<close>

text \<open>
  A content log with a sink that accepts every record: one message is emitted, taken, and
  written, and the log is closed. The theorems above apply to these states.
\<close>

definition demo_options :: Options where
  "demo_options = \<lparr>op_Mode = ''content'', op_Path = ''/log'', op_Host = ''h'', op_Incarnation = ''i'',
     op_MaxFileBytes = 4096, op_MaxFiles = 2, op_QueueBytes = 4096, op_Sessions = [], op_Groups = []\<rparr>"

definition demo_event :: Event where
  "demo_event = \<lparr>ev_Type = ''request'', ev_Method = ''message.send'', ev_MessageID = ''m'',
     ev_DeliveryID = [], ev_RunID = [], ev_ErrorCode = 0, ev_State = [], ev_Outcome = [],
     ev_From = None, ev_To = None, ev_Receipt = None, ev_Body = ''hi''\<rparr>"

definition demo_wr :: "nat \<Rightarrow> gostring \<Rightarrow> gostring option \<times> nat" where
  "demo_wr k raw = (None, k + 1)"

definition demo_cl :: "nat \<Rightarrow> gostring option \<times> nat" where
  "demo_cl k = (None, k)"

definition demo_start :: "nat log_state" where
  "demo_start = \<lparr>y_log = newLogger demo_options, y_pc = WTake, y_sink = 0, y_out = []\<rparr>"

definition demo_emitted :: "nat log_state" where
  "demo_emitted = demo_start\<lparr>y_log := fst (Emit (y_log demo_start) demo_event (Some ''t''))\<rparr>"

definition demo_write :: "nat log_state \<Rightarrow> nat log_state" where
  "demo_write s =
     (case writeLoop demo_wr demo_cl (y_log s) (y_pc s) (y_sink s) of
        None \<Rightarrow> s
      | Some (l, pc, k) \<Rightarrow> \<lparr>y_log = l, y_pc = pc, y_sink = k,
                           y_out = y_out s @ accepted demo_wr (y_pc s) (y_sink s)\<rparr>)"

definition demo_written :: "nat log_state" where
  "demo_written = demo_write (demo_write demo_emitted)"

definition demo_closing :: "nat log_state" where
  "demo_closing = demo_written\<lparr>y_log := CloseLog (y_log demo_written)\<rparr>"

definition demo_idle :: "nat log_state" where
  "demo_idle = demo_write (demo_write (demo_write demo_written))"

lemma demo_write_reach:
  assumes "reach log_init (log_step demo_wr demo_cl) s"
  shows "reach log_init (log_step demo_wr demo_cl) (demo_write s)"
  using assms by (auto simp: demo_write_def intro: reach_step log_step.write_step split: option.splits)

lemma demo_reach:
  "reach log_init (log_step demo_wr demo_cl) demo_written"
  "reach log_init (log_step demo_wr demo_cl) demo_closing"
proof -
  have "validateOptions demo_options = None" by code_simp
  then have "log_init demo_start" by (auto simp: log_init_def demo_start_def)
  then have "reach log_init (log_step demo_wr demo_cl) demo_start" by (rule reach_init)
  then have "reach log_init (log_step demo_wr demo_cl) demo_emitted"
    unfolding demo_emitted_def by (rule reach_step) (rule log_step.emit_step, simp)
  then show w: "reach log_init (log_step demo_wr demo_cl) demo_written"
    unfolding demo_written_def by (intro demo_write_reach)
  show "reach log_init (log_step demo_wr demo_cl) demo_closing"
    unfolding demo_closing_def by (rule reach_step[OF w]) (rule log_step.close_step)
qed

theorem log_lines_gap_free_witness:
  "length (y_out demo_written) = 1 \<and>
   (\<exists>rs n. map marshalLine rs = map Some (y_out demo_written) \<and> concat (map covers rs) = [1..<Suc n]
      \<and> n \<le> st_LastSequence (lg_stats (y_log demo_written)))"
proof -
  have "lg_err (y_log demo_written) = None" by code_simp
  moreover have "length (y_out demo_written) = 1" by code_simp
  ultimately show ?thesis using log_lines_gap_free[OF demo_reach(1)] by blast
qed

theorem log_accounting_witness:
  "st_LastSequence (lg_stats (y_log demo_written)) = 1 \<and>
   st_LastSequence (lg_stats (y_log demo_written)) =
     st_Written (lg_stats (y_log demo_written))
     + events_of (inflight (y_pc demo_written) @ lg_queue (y_log demo_written))
     + st_LostOverflow (lg_stats (y_log demo_written)) + st_LostWrite (lg_stats (y_log demo_written))"
proof -
  have "st_LastSequence (lg_stats (y_log demo_written)) = 1" by code_simp
  then show ?thesis using log_accounting[OF demo_reach(1)] by auto
qed

theorem writer_blocked_only_when_idle_witness:
  "y_pc demo_idle = WDone
   \<or> (y_pc demo_idle = WWait \<and> lg_queue (y_log demo_idle) = [] \<and> \<not> lg_closing (y_log demo_idle))"
proof -
  have r: "reach log_init (log_step demo_wr demo_cl) demo_idle"
    unfolding demo_idle_def by (intro demo_write_reach demo_reach)
  have b: "writeLoop demo_wr demo_cl (y_log demo_idle) (y_pc demo_idle) (y_sink demo_idle) = None"
    by code_simp
  show ?thesis by (rule writer_blocked_only_when_idle[OF r b])
qed

theorem close_terminates_witness:
  "lg_closing (y_log demo_closing) \<and>
   fst (snd (runWriter demo_wr demo_cl (2 * length (lg_queue (y_log demo_closing)) + 4)
               (y_log demo_closing, y_pc demo_closing, y_sink demo_closing))) = WDone"
proof -
  have c: "lg_closing (y_log demo_closing)" by code_simp
  show ?thesis using c close_terminates[OF demo_reach(2) c] by simp
qed

theorem metadata_mode_ignores_body_witness:
  "lg_mode newOffLogger \<noteq> ''content'' \<and>
   Emit newOffLogger (demo_event\<lparr>ev_Body := ''secret''\<rparr>) (Some ''t'') = Emit newOffLogger demo_event (Some ''t'')"
proof -
  have m: "lg_mode newOffLogger \<noteq> ''content''" by (simp add: newOffLogger_def)
  show ?thesis using m metadata_mode_ignores_body[OF m] by blast
qed

theorem record_is_one_line_witness:
  "\<exists>raw. marshalLine (event_disk newOffLogger 1 (Some ''t'') demo_event) = Some raw
     \<and> (\<exists>body. raw = body @ [CHR 0x0A] \<and> CHR 0x0A \<notin> set body)"
proof -
  obtain raw where r: "marshalLine (event_disk newOffLogger 1 (Some ''t'') demo_event) = Some raw"
    by (simp add: marshalLine_def event_disk_def)
  show ?thesis using r record_is_one_line[OF r] by blast
qed

end
