(* ===== verification/Logfile.thy ===== *)
theory Logfile
  imports Commslog
begin

text \<open>
  The rotating log file (\<open>bus/internal/commslog/file.go\<close>), the only \<open>recordSink\<close> of the program.
  The file system is a map from the rotation index to the content of \<open>path\<close>, \<open>path.1\<close>, ...;
  every system call can fail, and which ones fail is the argument \<open>faults\<close> of the operation.
  The locale \<open>record_sink\<close> is the interface the logger's writer relies on; it is
  interpreted here on \<open>WriteRecord\<close> and \<open>CloseFile\<close>.
\<close>

section \<open>The sink interface\<close>

text \<open>
  \<open>holds k out\<close> says what the sink holds after it has accepted the records \<open>out\<close>, \<open>ok k\<close> that it can
  be written to. A successful write adds the record; closing loses nothing.
\<close>

locale record_sink =
  fixes wr :: "'k \<Rightarrow> gostring \<Rightarrow> gostring option \<times> 'k"
    and cl :: "'k \<Rightarrow> gostring option \<times> 'k"
    and holds :: "'k \<Rightarrow> gostring list \<Rightarrow> bool"
    and ok :: "'k \<Rightarrow> bool"
  assumes wr_ok: "ok k \<Longrightarrow> holds k out \<Longrightarrow> wr k raw = (None, k') \<Longrightarrow> ok k' \<and> holds k' (out @ [raw])"
    and cl_holds: "holds k out \<Longrightarrow> cl k = (e, k') \<Longrightarrow> holds k' out"
begin

definition sink_inv :: "'k log_state \<Rightarrow> bool" where
  "sink_inv s \<longleftrightarrow>
     log_inv s \<and>
     (lg_err (y_log s) = None \<longrightarrow> holds (y_sink s) (y_out s) \<and> (y_pc s \<noteq> WDone \<longrightarrow> ok (y_sink s)))"

lemma Emit_err: "lg_err (fst (Emit l e at)) = lg_err l"
  by (auto simp: Emit_def recordInvalid_def admitEvent_def loseOverflow_def addGap_def Let_def
      split: option.splits)

lemma sink_inv_step:
  assumes "sink_inv s" "log_step wr cl s t"
  shows "sink_inv t"
proof -
  have i: "log_inv s" "log_inv t" using assms log_inv_step by (auto simp: sink_inv_def)
  show ?thesis
    using assms(2)
  proof (cases rule: log_step.cases)
    case (emit_step at e)
    then show ?thesis using assms(1) i by (simp add: sink_inv_def Emit_err)
  next
    case close_step
    then show ?thesis using assms(1) i by (auto simp: sink_inv_def CloseLog_def)
  next
    case (write_step l pc k)
    have err: "lg_err (y_log s) = None"
      using i(1) write_step(2) by (auto simp: log_inv_def shape_ok_def)
    show ?thesis
    proof (cases "y_pc s")
      case WTake
      obtain r d l1 where t: "takeRecord (y_log s) = (r, d, l1)" by (cases "takeRecord (y_log s)") auto
      obtain ce k2 where c: "cl (y_sink s) = (ce, k2)" by (cases "cl (y_sink s)")
      show ?thesis
        using assms(1) i write_step WTake t c err cl_holds[OF _ c]
        by (auto simp: sink_inv_def accepted_def split: if_splits)
    next
      case WWait
      then show ?thesis
        using assms(1) i write_step err by (auto simp: sink_inv_def accepted_def split: if_splits)
    next
      case (WWrite r)
      obtain e k1 where w: "wr (y_sink s) (qr_raw r) = (e, k1)" by (cases "wr (y_sink s) (qr_raw r)")
      show ?thesis
      proof (cases e)
        case None
        have "holds (y_sink s) (y_out s)" "ok (y_sink s)"
          using assms(1) err WWrite by (auto simp: sink_inv_def)
        from wr_ok[OF this(2,1)] w None have "ok k1" "holds k1 (y_out s @ [qr_raw r])" by blast+
        with i write_step WWrite w None show ?thesis
          by (auto simp: sink_inv_def accepted_def Let_def)
      next
        case (Some x)
        then have "lg_err (y_log t) \<noteq> None"
          using write_step WWrite w err
          by (auto simp: failLog_def joinErr_def split: prod.splits option.splits)
        with i show ?thesis unfolding sink_inv_def by blast
      qed
    next
      case WDone
      then show ?thesis using write_step by simp
    qed
  qed
qed

lemma sink_holds:
  assumes "reach (\<lambda>s. log_init s \<and> y_sink s = k0) (log_step wr cl) s" "ok k0" "holds k0 []"
    "lg_err (y_log s) = None"
  shows "holds (y_sink s) (y_out s)"
proof -
  have "sink_inv s"
    using assms(1)
  proof (induction rule: reach.induct)
    case (reach_init s)
    with assms(2,3) show ?case
      using log_inv_init[of s] by (simp add: sink_inv_def) (simp add: log_init_def)
  next
    case (reach_step s t)
    then show ?case using sink_inv_step by blast
  qed
  with assms(4) show ?thesis by (simp add: sink_inv_def)
qed

end

section \<open>The file\<close>

record rotatingFile =
  rf_maxBytes :: int
  rf_maxFiles :: nat
  rf_file :: bool
  rf_lock :: bool
  rf_size :: int
  rf_disk :: "nat \<Rightarrow> gostring option"

text \<open>
  Which calls of one operation fail: \<open>Sync\<close> or \<open>Close\<close> of the current file, \<open>Remove\<close> of the
  oldest file, \<open>validateLogPath\<close>, \<open>Lstat\<close> and \<open>Rename\<close> at an index, opening the new file, and
  how many bytes a \<open>Write\<close> accepts (with or without an error).
\<close>

record faults =
  io_close :: bool
  io_remove :: bool
  io_validate :: "nat \<Rightarrow> bool"
  io_lstat :: "nat \<Rightarrow> bool"
  io_rename :: "nat \<Rightarrow> bool"
  io_open :: bool
  io_write :: "gostring \<Rightarrow> nat \<times> bool"
  io_unlock :: bool

text \<open>The loop of \<open>rotate\<close>: \<open>shift io (Suc index)\<close> moves \<open>index\<close>, then the smaller indices.\<close>

fun shift :: "faults \<Rightarrow> nat \<Rightarrow> (nat \<Rightarrow> gostring option) \<Rightarrow> gostring option \<times> (nat \<Rightarrow> gostring option)" where
  "shift io 0 disk = (None, disk)"
| "shift io (Suc index) disk =
     (if io_validate io index then (Some ''invalid log path'', disk)
      else if disk index = None then shift io index disk
      else if io_lstat io index then (Some ''lstat'', disk)
      else if io_rename io index then (Some ''rename'', disk)
      else shift io index (disk(Suc index := disk index, index := None)))"

definition openTruncated :: "faults \<Rightarrow> rotatingFile \<Rightarrow> gostring option \<times> rotatingFile" where
  "openTruncated io f =
     (if io_open io then (Some ''open'', f)
      else (None, f\<lparr>rf_file := True, rf_size := 0, rf_disk := (rf_disk f)(0 := Some [])\<rparr>))"

definition rotate :: "faults \<Rightarrow> rotatingFile \<Rightarrow> gostring option \<times> rotatingFile" where
  "rotate io f0 =
     (if io_close io then (Some ''close'', f0)
      else
        let f = f0\<lparr>rf_file := False\<rparr> in
        if rf_maxFiles f = 1 then openTruncated io f
        else if rf_disk f (rf_maxFiles f - 1) \<noteq> None \<and> io_remove io then (Some ''remove'', f)
        else
          let (err, disk) = shift io (rf_maxFiles f - 1) ((rf_disk f)(rf_maxFiles f - 1 := None));
              f1 = f\<lparr>rf_disk := disk\<rparr>
          in if err \<noteq> None then (err, f1) else openTruncated io f1)"

definition appendFile :: "gostring \<Rightarrow> rotatingFile \<Rightarrow> rotatingFile" where
  "appendFile bytes f =
     f\<lparr>rf_disk := (rf_disk f)(0 := Some ((case rf_disk f 0 of None \<Rightarrow> [] | Some c \<Rightarrow> c) @ bytes))\<rparr>"

definition WriteRecord :: "faults \<Rightarrow> rotatingFile \<Rightarrow> gostring \<Rightarrow> gostring option \<times> rotatingFile" where
  "WriteRecord io f0 raw =
     (if int (length raw) > rf_maxBytes f0
      then (Some ''communication log record exceeds file limit'', f0)
      else
        let (err, f) = (if rf_size f0 \<noteq> 0 \<and> rf_size f0 + int (length raw) > rf_maxBytes f0
                        then rotate io f0 else (None, f0))
        in if err \<noteq> None then (err, f)
           else if \<not> rf_file f then (Some ''invalid argument'', f)
           else
             let (n, failed) = io_write io raw; written = min n (length raw);
                 f1 = (appendFile (take written raw) f)\<lparr>rf_size := rf_size f + int written\<rparr>
             in if failed then (Some ''write'', f1)
                else if written \<noteq> length raw then (Some ''short write'', f1)
                else (None, f1))"

definition CloseFile :: "faults \<Rightarrow> rotatingFile \<Rightarrow> gostring option \<times> rotatingFile" where
  "CloseFile io f =
     (let err = (if rf_file f \<and> io_close io then Some ''close'' else None);
          err1 = (if rf_lock f \<and> io_unlock io then joinErr err (Some ''unlock'') else err)
      in (err1, f\<lparr>rf_file := False, rf_lock := False\<rparr>))"

text \<open>
  \<open>openRotatingFile\<close> after the directory checks and the lock: validate every path, open the
  current file for appending, and rotate a non-empty one away.
\<close>

definition openRotatingFile ::
    "faults \<Rightarrow> int \<Rightarrow> nat \<Rightarrow> bool \<Rightarrow> (nat \<Rightarrow> gostring option) \<Rightarrow> gostring + rotatingFile" where
  "openRotatingFile io maxBytes maxFiles locked disk =
     (if \<not> locked then Inl ''communication log is already owned''
      else if list_ex (io_validate io) [0..<maxFiles] then Inl ''invalid log path''
      else if io_open io then Inl ''open''
      else
        let content = (case disk 0 of None \<Rightarrow> [] | Some c \<Rightarrow> c);
            f = \<lparr>rf_maxBytes = maxBytes, rf_maxFiles = maxFiles, rf_file = True, rf_lock = True,
                 rf_size = int (length content), rf_disk = disk(0 := Some content)\<rparr>
        in if rf_size f \<noteq> 0
           then (case rotate io f of (Some e, _) \<Rightarrow> Inl e | (None, f1) \<Rightarrow> Inr f1)
           else Inr f)"

section \<open>Correctness of rotation\<close>

definition content :: "(nat \<Rightarrow> gostring option) \<Rightarrow> nat \<Rightarrow> gostring" where
  "content disk i = (case disk i of None \<Rightarrow> [] | Some c \<Rightarrow> c)"

text \<open>The files of the log, oldest first.\<close>

definition disk_files :: "nat \<Rightarrow> (nat \<Rightarrow> gostring option) \<Rightarrow> gostring list" where
  "disk_files n disk = map (content disk) (rev [0..<n])"

text \<open>The current file is open, its recorded size is its length, and no file is over the bound.\<close>

definition file_ok :: "rotatingFile \<Rightarrow> bool" where
  "file_ok f \<longleftrightarrow>
     1 \<le> rf_maxFiles f \<and> rf_file f \<and> rf_size f = int (length (content (rf_disk f) 0))
     \<and> rf_size f \<le> max 0 (rf_maxBytes f)"

lemma shift_ok:
  assumes "shift io n disk = (None, disk')" "disk n = None"
  shows "disk' = (\<lambda>i. if i = 0 then (if n = 0 then disk 0 else None)
                       else if i \<le> n then disk (i - 1) else disk i)"
  using assms
proof (induction n arbitrary: disk)
  case 0
  then show ?case by auto
next
  case (Suc n)
  show ?case
  proof (cases "disk n")
    case None
    with Suc.prems have "shift io n disk = (None, disk')" by (simp split: if_splits)
    from Suc.IH[OF this None] show ?thesis
      using None Suc.prems(2) by (auto simp: fun_eq_iff le_Suc_eq)
  next
    case (Some c)
    with Suc.prems have s: "shift io n (disk(Suc n := disk n, n := None)) = (None, disk')"
      by (simp split: if_splits)
    from Suc.IH[OF s] show ?thesis by (auto simp: fun_eq_iff le_Suc_eq)
  qed
qed

lemma disk_files_length [simp]: "length (disk_files n disk) = n"
  by (simp add: disk_files_def)

lemma disk_files_nth: "j < n \<Longrightarrow> disk_files n disk ! j = content disk (n - Suc j)"
  by (simp add: disk_files_def rev_nth)

lemma disk_files_last: "1 \<le> n \<Longrightarrow> last (disk_files n disk) = content disk 0"
  by (simp add: last_conv_nth disk_files_nth flip: length_greater_0_conv)

text \<open>The files after a change of the current one, and after a rotation.\<close>

lemma disk_files_current:
  assumes "1 \<le> n" "\<And>i. 0 < i \<Longrightarrow> d' i = d i"
  shows "disk_files n d' = butlast (disk_files n d) @ [content d' 0]"
proof (rule nth_equalityI)
  fix j assume "j < length (disk_files n d')"
  then have j: "j < n" by simp
  show "disk_files n d' ! j = (butlast (disk_files n d) @ [content d' 0]) ! j"
  proof (cases "Suc j = n")
    case True
    then show ?thesis using j by (auto simp: disk_files_nth nth_append)
  next
    case False
    then have "j < n - Suc 0" using j by simp
    then show ?thesis using assms(2)[of "n - Suc j"] by (simp add: disk_files_nth nth_append nth_butlast content_def)
  qed
qed (use assms(1) in simp)

lemma disk_files_shifted:
  assumes "1 \<le> n" "\<And>i. 0 < i \<Longrightarrow> i < n \<Longrightarrow> d' i = d (i - 1)"
  shows "disk_files n d' = tl (disk_files n d) @ [content d' 0]"
proof (rule nth_equalityI)
  fix j assume "j < length (disk_files n d')"
  then have j: "j < n" by simp
  show "disk_files n d' ! j = (tl (disk_files n d) @ [content d' 0]) ! j"
  proof (cases "Suc j = n")
    case True
    then show ?thesis using j by (auto simp: disk_files_nth nth_append)
  next
    case False
    then have "n - Suc j = Suc (n - Suc (Suc j))" "j < n - Suc 0" using j by simp_all
    then show ?thesis using assms(2)[of "n - Suc j"]
      by (simp add: disk_files_nth nth_append nth_tl content_def)
  qed
qed (use assms(1) in simp)

lemma openTruncated_ok:
  "openTruncated io f = (None, f') \<Longrightarrow>
     f' = f\<lparr>rf_file := True, rf_size := 0, rf_disk := (rf_disk f)(0 := Some [])\<rparr>"
  by (simp add: openTruncated_def split: if_splits)

text \<open>A successful rotation drops exactly the oldest file and starts an empty current one.\<close>

lemma rotate_ok:
  assumes "rotate io f = (None, f')" "1 \<le> rf_maxFiles f"
  shows "rf_maxFiles f' = rf_maxFiles f \<and> rf_maxBytes f' = rf_maxBytes f \<and> rf_file f' \<and> rf_size f' = 0
     \<and> rf_lock f' = rf_lock f \<and> rf_disk f' 0 = Some []
     \<and> (\<forall>i. 0 < i \<and> i < rf_maxFiles f \<longrightarrow> rf_disk f' i = rf_disk f (i - 1))"
proof (cases "rf_maxFiles f = 1")
  case True
  then have "openTruncated io (f\<lparr>rf_file := False\<rparr>) = (None, f')"
    using assms(1) by (simp add: rotate_def split: if_splits)
  from openTruncated_ok[OF this] True show ?thesis by simp
next
  case False
  define n where "n = rf_maxFiles f - 2"
  have n: "rf_maxFiles f = Suc (Suc n)" using False assms(2) by (simp add: n_def)
  obtain e d where s: "shift io (Suc n) ((rf_disk f)(Suc n := None)) = (e, d)"
    by (cases "shift io (Suc n) ((rf_disk f)(Suc n := None))")
  have "e = None" "openTruncated io (f\<lparr>rf_file := False, rf_disk := d\<rparr>) = (None, f')"
    using assms(1) n s by (auto simp: rotate_def Let_def split: if_splits prod.splits)
  with openTruncated_ok have f': "f' = f\<lparr>rf_file := True, rf_size := 0, rf_disk := d(0 := Some [])\<rparr>"
    by fastforce
  have d: "d = (\<lambda>i. if i = 0 then None else if i \<le> Suc n then rf_disk f (i - 1) else rf_disk f i)"
    using shift_ok[of io "Suc n" "(rf_disk f)(Suc n := None)" d] s \<open>e = None\<close> by (auto simp: fun_eq_iff)
  show ?thesis using f' n d by simp
qed

text \<open>A successful write: the record goes to the end of the current file, or to a new one if it does not fit.\<close>

definition fits :: "rotatingFile \<Rightarrow> gostring \<Rightarrow> bool" where
  "fits f raw \<longleftrightarrow> rf_size f = 0 \<or> rf_size f + int (length raw) \<le> rf_maxBytes f"

lemma WriteRecord_ok:
  assumes "WriteRecord io f raw = (None, f')" "file_ok f"
  shows "file_ok f' \<and> rf_maxFiles f' = rf_maxFiles f \<and> rf_maxBytes f' = rf_maxBytes f
     \<and> int (length raw) \<le> rf_maxBytes f
     \<and> disk_files (rf_maxFiles f) (rf_disk f') =
         (if fits f raw then butlast (disk_files (rf_maxFiles f) (rf_disk f)) @ [content (rf_disk f) 0 @ raw]
          else tl (disk_files (rf_maxFiles f) (rf_disk f)) @ [raw])"
proof -
  have len: "int (length raw) \<le> rf_maxBytes f"
    using assms(1) by (auto simp: WriteRecord_def split: if_splits)
  obtain e g where g: "(if rf_size f \<noteq> 0 \<and> rf_size f + int (length raw) > rf_maxBytes f
                        then rotate io f else (None, f)) = (e, g)"
    by (cases "if rf_size f \<noteq> 0 \<and> rf_size f + int (length raw) > rf_maxBytes f
                        then rotate io f else (None, f)")
  obtain n x where w: "io_write io raw = (n, x)" by (cases "io_write io raw")
  have *: "e = None" "rf_file g" "\<not> x" "min n (length raw) = length raw"
     "f' = (appendFile raw g)\<lparr>rf_size := rf_size g + int (length raw)\<rparr>"
    using assms(1) len g w by (auto simp: WriteRecord_def Let_def split: if_splits)
  have keep: "rf_maxFiles g = rf_maxFiles f \<and> rf_maxBytes g = rf_maxBytes f
      \<and> rf_size g = int (length (content (rf_disk g) 0)) \<and> rf_size g + int (length raw) \<le> rf_maxBytes f
      \<and> disk_files (rf_maxFiles f) (rf_disk g) = (if fits f raw then disk_files (rf_maxFiles f) (rf_disk f)
          else tl (disk_files (rf_maxFiles f) (rf_disk f)) @ [[]])
      \<and> content (rf_disk g) 0 = (if fits f raw then content (rf_disk f) 0 else [])"
  proof (cases "fits f raw")
    case False
    with g *(1) have r: "rotate io f = (None, g)" by (auto simp: fits_def split: if_splits)
    have one: "1 \<le> rf_maxFiles f" using assms(2) by (simp add: file_ok_def)
    note ro = rotate_ok[OF r one]
    then have "disk_files (rf_maxFiles f) (rf_disk g) = tl (disk_files (rf_maxFiles f) (rf_disk f)) @ [content (rf_disk g) 0]"
      by (intro disk_files_shifted[OF one]) simp
    with ro False len show ?thesis by (simp add: content_def)
  next
    case True
    with g have "g = f" by (auto simp: fits_def split: if_splits)
    then show ?thesis using True assms(2) len by (auto simp: file_ok_def fits_def)
  qed
  have one: "1 \<le> rf_maxFiles f" using assms(2) by (simp add: file_ok_def)
  have "disk_files (rf_maxFiles f) (rf_disk f') = butlast (disk_files (rf_maxFiles f) (rf_disk g)) @ [content (rf_disk f') 0]"
    by (rule disk_files_current[OF one]) (simp add: *(5) appendFile_def)
  moreover have "content (rf_disk f') 0 = content (rf_disk g) 0 @ raw"
    by (simp add: *(5) appendFile_def content_def)
  moreover have "file_ok f'" "rf_maxFiles f' = rf_maxFiles f" "rf_maxBytes f' = rf_maxBytes f"
    using *(2,5) keep assms(2) by (auto simp: file_ok_def content_def appendFile_def split: option.splits)
  ultimately show ?thesis using keep len by simp
qed

section \<open>The file as a sink\<close>

text \<open>The sink state: the file and the failures of the calls still to come.\<close>

type_synonym sink = "rotatingFile \<times> faults list"

definition noFaults :: faults where
  "noFaults = \<lparr>io_close = False, io_remove = False, io_validate = (\<lambda>_. False), io_lstat = (\<lambda>_. False),
               io_rename = (\<lambda>_. False), io_open = False, io_write = (\<lambda>b. (length b, False)),
               io_unlock = False\<rparr>"

definition nextFaults :: "faults list \<Rightarrow> faults" where
  "nextFaults fs = (case fs of [] \<Rightarrow> noFaults | f # _ \<Rightarrow> f)"

definition sinkWrite :: "sink \<Rightarrow> gostring \<Rightarrow> gostring option \<times> sink" where
  "sinkWrite k raw =
     (let (err, f) = WriteRecord (nextFaults (snd k)) (fst k) raw in (err, (f, tl (snd k))))"

definition sinkClose :: "sink \<Rightarrow> gostring option \<times> sink" where
  "sinkClose k = (let (err, f) = CloseFile (nextFaults (snd k)) (fst k) in (err, (f, tl (snd k))))"

text \<open>
  \<open>latestFiles old b f out\<close>: the files on disk are the last ones of the sequence that starts with the older
  files \<open>old\<close> and goes on with one file per group of consecutive records of \<open>out\<close>. A group with records is within
  the bound \<open>b\<close>, and the next group starts with a record that did not fit.
\<close>

definition latestFiles :: "gostring list \<Rightarrow> int \<Rightarrow> rotatingFile \<Rightarrow> gostring list \<Rightarrow> bool" where
  "latestFiles old b f out \<longleftrightarrow>
     rf_maxBytes f = b \<and> rf_maxFiles f = Suc (length old)
     \<and> (\<exists>groups. groups \<noteq> [] \<and> concat groups = out
          \<and> (\<forall>g \<in> set groups. g \<noteq> [] \<longrightarrow> int (length (concat g)) \<le> b)
          \<and> successively (\<lambda>g h. h \<noteq> [] \<and> int (length (concat g)) + int (length (hd h)) > b) groups
          \<and> disk_files (rf_maxFiles f) (rf_disk f) = drop (length groups - 1) (old @ map concat groups))"

lemma successively_last:
  "successively P (gs @ [g]) \<Longrightarrow> (\<And>x. P x g \<Longrightarrow> P x g') \<Longrightarrow> successively P (gs @ [g'])"
  by (auto simp: successively_append_iff)

lemma latestFiles_write:
  assumes "latestFiles old b f out" "file_ok f" "WriteRecord io f raw = (None, f')"
  shows "latestFiles old b f' (out @ [raw])"
proof -
  note w = WriteRecord_ok[OF assms(3,2)]
  from assms(1) obtain groups where gr: "groups \<noteq> []" "concat groups = out" "\<forall>g \<in> set groups. g \<noteq> [] \<longrightarrow> int (length (concat g)) \<le> b"
    "successively (\<lambda>g h. h \<noteq> [] \<and> int (length (concat g)) + int (length (hd h)) > b) groups"
    "disk_files (rf_maxFiles f) (rf_disk f) = drop (length groups - 1) (old @ map concat groups)"
    and b: "rf_maxBytes f = b" "rf_maxFiles f = Suc (length old)" by (auto simp: latestFiles_def)
  obtain gs g where g: "groups = gs @ [g]" using gr(1) by (cases groups rule: rev_cases) auto
  have df: "disk_files (rf_maxFiles f) (rf_disk f) = drop (length gs) (old @ map concat gs) @ [concat g]"
    using gr(5) by (simp add: g)
  have cur: "content (rf_disk f) 0 = concat g" using disk_files_last[of "rf_maxFiles f" "rf_disk f"] b(2) unfolding df by simp
  have size: "rf_size f = int (length (concat g))" using assms(2) cur by (simp add: file_ok_def)
  show ?thesis
  proof (cases "fits f raw")
    case True
    let ?n = "gs @ [g @ [raw]]"
    have "int (length (concat g)) + int (length raw) \<le> b"
      using True w unfolding fits_def b(1) size by linarith
    then have "int (length (concat (g @ [raw]))) \<le> b" by simp
    moreover have "successively (\<lambda>g h. h \<noteq> [] \<and> int (length (concat g)) + int (length (hd h)) > b) ?n"
      using gr(4) unfolding g by (rule successively_last) (auto simp: hd_append)
    moreover have "disk_files (rf_maxFiles f) (rf_disk f') = drop (length ?n - 1) (old @ map concat ?n)"
      using w True cur by (simp add: df butlast_append)
    ultimately show ?thesis using gr(2,3) w b unfolding latestFiles_def g by (intro conjI exI[of _ ?n]) auto
  next
    case False
    let ?n = "groups @ [[raw]]"
    have "successively (\<lambda>g h. h \<noteq> [] \<and> int (length (concat g)) + int (length (hd h)) > b) ?n"
      using gr(1,4) False size b by (auto simp: successively_append_iff g fits_def)
    moreover have "disk_files (rf_maxFiles f) (rf_disk f') = drop (length ?n - 1) (old @ map concat ?n)"
    proof -
      let ?x = "old @ map concat gs"
      have "drop (length gs) ?x @ [concat g] = drop (length gs) (?x @ [concat g])" by simp
      then have "tl (drop (length gs) ?x @ [concat g]) = drop (Suc (length gs)) (?x @ [concat g])"
        by (simp only: drop_Suc tl_drop)
      then have "disk_files (rf_maxFiles f) (rf_disk f') = drop (Suc (length gs)) (?x @ [concat g]) @ [raw]"
        using w False unfolding df by (simp del: drop_append)
      also have "\<dots> = drop (Suc (length gs)) ((?x @ [concat g]) @ [raw])"
        by (subst drop_append[of _ "?x @ [concat g]" "[raw]"]) simp
      finally show ?thesis by (simp add: g del: drop_append)
    qed
    ultimately show ?thesis using gr(1-3) w b unfolding latestFiles_def by (intro conjI exI[of _ ?n]) auto
  qed
qed

interpretation logfile: record_sink sinkWrite sinkClose "\<lambda>k. latestFiles old b (fst k)" "\<lambda>k. file_ok (fst k)" for old b
proof unfold_locales
  fix k out raw k'
  assume "file_ok (fst k)" "latestFiles old b (fst k) out" "sinkWrite k raw = (None, k')"
  then show "file_ok (fst k') \<and> latestFiles old b (fst k') (out @ [raw])"
    using WriteRecord_ok[of "nextFaults (snd k)" "fst k" raw "fst k'"]
      latestFiles_write[of old b "fst k" out "nextFaults (snd k)" raw "fst k'"]
    by (auto simp: sinkWrite_def split: prod.splits)
next
  fix k out e k'
  assume "latestFiles old b (fst k) out" "sinkClose k = (e, k')"
  then show "latestFiles old b (fst k') out"
    by (auto simp: sinkClose_def latestFiles_def CloseFile_def Let_def split: prod.splits)
qed

lemma openRotatingFile_ok:
  assumes "openRotatingFile io maxBytes maxFiles locked disk = Inr f" "1 \<le> maxFiles"
  shows "file_ok f \<and> rf_size f = 0 \<and> rf_maxFiles f = maxFiles \<and> rf_maxBytes f = maxBytes"
proof -
  let ?c = "case disk 0 of None \<Rightarrow> [] | Some c \<Rightarrow> c"
  let ?f = "\<lparr>rf_maxBytes = maxBytes, rf_maxFiles = maxFiles, rf_file = True, rf_lock = True,
             rf_size = int (length ?c), rf_disk = disk(0 := Some ?c)\<rparr>"
  show ?thesis
  proof (cases "length ?c = 0")
    case True
    with assms have "f = ?f" by (auto simp: openRotatingFile_def Let_def split: if_splits)
    with True assms(2) show ?thesis by (auto simp: file_ok_def content_def)
  next
    case False
    then have "rotate io ?f = (None, f)"
      using assms(1)
      by (auto simp: openRotatingFile_def Let_def split: if_splits prod.splits option.splits)
    from rotate_ok[OF this] assms(2) show ?thesis by (auto simp: file_ok_def content_def)
  qed
qed

text \<open>
  C33: what is on disk. Start the logger on a file opened by \<open>openRotatingFile\<close>; in every
  reachable state without a write error the records accepted since form groups of consecutive records, one
  file per group, and the files on disk, oldest first, are exactly the last \<open>maxFiles\<close> of the older files found
  at the start followed by the groups: every record on disk is whole and in order, only the oldest files
  are given up, each as a whole, and the newest group is in the current file. No group is over the file size, and a new
  file is begun only when the next record does not fit. What is written counts as kept; \<open>Sync\<close> and power loss are not modelled.
\<close>

theorem log_files_hold_latest_records:
  assumes "openRotatingFile io maxBytes maxFiles True disk = Inr f" and "1 \<le> maxFiles"
    and "reach (\<lambda>s. log_init s \<and> y_sink s = (f, fs)) (log_step sinkWrite sinkClose) s"
    and "lg_err (y_log s) = None"
  shows "\<exists>groups. groups \<noteq> [] \<and> concat groups = y_out s
    \<and> (\<forall>g \<in> set groups. g \<noteq> [] \<longrightarrow> int (length (concat g)) \<le> maxBytes)
    \<and> successively (\<lambda>g h. h \<noteq> [] \<and> int (length (concat g)) + int (length (hd h)) > maxBytes) groups
    \<and> disk_files maxFiles (rf_disk (fst (y_sink s)))
        = drop (length groups - 1) (butlast (disk_files maxFiles (rf_disk f)) @ map concat groups)"
proof -
  have f: "file_ok f" "rf_size f = 0" "rf_maxFiles f = maxFiles" "rf_maxBytes f = maxBytes"
    using openRotatingFile_ok[OF assms(1,2)] by simp_all
  let ?old = "butlast (disk_files maxFiles (rf_disk f))"
  have "content (rf_disk f) 0 = []" using f(1,2) by (simp add: file_ok_def)
  then have "disk_files maxFiles (rf_disk f) = ?old @ [[]]"
    using disk_files_last[OF assms(2), of "rf_disk f"] assms(2)
    by (metis append_butlast_last_id disk_files_length list.size(3) not_one_le_zero)
  moreover have len: "Suc (length ?old) = maxFiles" using assms(2) by simp
  ultimately have "latestFiles ?old maxBytes f []"
    unfolding latestFiles_def using f by (intro conjI exI[of _ "[[]]"]) auto
  then have "latestFiles ?old maxBytes (fst (y_sink s)) (y_out s)"
    using logfile.sink_holds[OF assms(3) _ _ assms(4), of ?old maxBytes] f(1) by simp
  then show ?thesis unfolding latestFiles_def using len by auto
qed


section \<open>Concrete files\<close>


definition demo_opened :: rotatingFile where
  "demo_opened = \<lparr>rf_maxBytes = 4096, rf_maxFiles = 2, rf_file = True, rf_lock = True, rf_size = 0,
                  rf_disk = (\<lambda>i. None)(1 := Some ''old'', 0 := Some [])\<rparr>"



lemma demo_openRotatingFile:
  "openRotatingFile noFaults 4096 2 True ((\<lambda>i. None)(0 := Some ''old'')) = Inr demo_opened"
  by (auto simp: openRotatingFile_def demo_opened_def rotate_def openTruncated_def noFaults_def
      fun_eq_iff numeral_eq_Suc)

definition file_started :: "sink log_state" where
  "file_started = \<lparr>y_log = fst (Emit (newLogger demo_options) demo_event (Some ''t'')), y_pc = WTake, y_sink = (demo_opened, []), y_out = []\<rparr>"

definition file_write :: "sink log_state \<Rightarrow> sink log_state" where
  "file_write s =
     (case writeLoop sinkWrite sinkClose (y_log s) (y_pc s) (y_sink s) of
        None \<Rightarrow> s
      | Some (l, pc, k) \<Rightarrow> \<lparr>y_log = l, y_pc = pc, y_sink = k, y_out = y_out s @ accepted sinkWrite (y_pc s) (y_sink s)\<rparr>)"

definition file_written :: "sink log_state" where
  "file_written = file_write (file_write file_started)"

lemma file_write_reach:
  "reach init (log_step sinkWrite sinkClose) s \<Longrightarrow> reach init (log_step sinkWrite sinkClose) (file_write s)"
  by (auto simp: file_write_def intro: reach_step log_step.write_step split: option.splits)

lemma file_written_reach: "reach (\<lambda>s. log_init s \<and> y_sink s = (demo_opened, [])) (log_step sinkWrite sinkClose) file_written"
proof -
  let ?s = "\<lparr>y_log = newLogger demo_options, y_pc = WTake, y_sink = (demo_opened, [] :: faults list), y_out = []\<rparr>"
  have "validateOptions demo_options = None" by code_simp
  then have "log_init ?s" by (auto simp: log_init_def)
  then have "reach (\<lambda>s. log_init s \<and> y_sink s = (demo_opened, [])) (log_step sinkWrite sinkClose) ?s"
    by (intro reach_init) simp
  moreover have "log_step sinkWrite sinkClose ?s file_started"
    using log_step.emit_step[of "Some ''t''" sinkWrite sinkClose ?s demo_event] by (simp add: file_started_def)
  ultimately show ?thesis unfolding file_written_def by (intro file_write_reach) (rule reach_step)
qed

theorem log_files_hold_latest_records_witness:
  "length (y_out file_written) = 1 \<and> (\<exists>groups. groups \<noteq> [] \<and> concat groups = y_out file_written
     \<and> disk_files 2 (rf_disk (fst (y_sink file_written))) = drop (length groups - 1) (''old'' # map concat groups))"
proof -
  have e: "lg_err (y_log file_written) = None" by code_simp
  have "length (y_out file_written) = 1" by code_simp
  moreover have "butlast (disk_files 2 (rf_disk demo_opened)) = [''old'']" by code_simp
  moreover have "1 \<le> (2::nat)" by simp
  ultimately show ?thesis
    using log_files_hold_latest_records[OF demo_openRotatingFile _ file_written_reach e] by fastforce
qed

end
