(* ===== verification/Roster.thy ===== *)
theory Roster
  imports Prelude
begin

text \<open>
  The operator's roster (\<open>bus/internal/roster/roster.go\<close>): the rows a host reports about its
  sessions, and the checks a receiver makes on the report of another host. A nil slice is \<open>None\<close>;
  the length of the JSON text is an argument of the functions that compare it with the limit.
\<close>

definition MaxRows :: nat where "MaxRows = 4096"
definition MaxBytes :: nat where "MaxBytes = 1048576 - 1024"

record Row =
  rw_PermissionMode :: gostring
  rw_SessionID :: gostring
  rw_Name :: gostring
  rw_Kind :: gostring
  rw_Product :: gostring
  rw_Groups :: "gostring list option"
  rw_Connected :: bool
  rw_Running :: bool
  rw_Owner :: gostring
  rw_Persistent :: bool

record Host =
  ho_Host :: gostring
  ho_Products :: "gostring list option"
  ho_Sessions :: "Row list option"
  ho_Error :: gostring

record Remote =
  re_Hosts :: "Host list option"

text \<open>The rows of one host: identifiers present and distinct, groups present, a known kind.\<close>

fun validRows :: "gostring set \<Rightarrow> Row list \<Rightarrow> bool" where
  "validRows ids [] = True"
| "validRows ids (row # rows) =
     (if rw_SessionID row = [] \<or> rw_SessionID row \<in> ids \<or> rw_Groups row = None
         \<or> (rw_Kind row \<noteq> ''peer'' \<and> rw_Kind row \<noteq> ''lane'')
      then False
      else validRows (insert (rw_SessionID row) ids) rows)"

fun validHosts :: "gostring set \<Rightarrow> Host list \<Rightarrow> bool" where
  "validHosts seen [] = True"
| "validHosts seen (host # hosts) =
     (case ho_Sessions host of
        None \<Rightarrow> False
      | Some rows \<Rightarrow>
          if ho_Host host = [] \<or> ho_Host host \<in> seen \<or> ho_Products host = None \<or> length rows > MaxRows then False
          else validRows {} rows \<and> validHosts (insert (ho_Host host) seen) hosts)"

text \<open>\<open>DecodeRemote\<close> on a text of \<open>len\<close> bytes; the first argument is what its JSON decodes to.\<close>

definition DecodeRemote :: "Remote option \<Rightarrow> nat \<Rightarrow> Remote option" where
  "DecodeRemote decoded len =
     (case decoded of
        None \<Rightarrow> None
      | Some remote \<Rightarrow>
          (case re_Hosts remote of
             None \<Rightarrow> None
           | Some hosts \<Rightarrow>
               if len > MaxBytes \<or> length hosts > MaxRows \<or> \<not> validHosts {} hosts then None else Some remote))"

text \<open>\<open>Encode\<close> of a value whose JSON text has \<open>len\<close> bytes.\<close>

definition Encode :: "'a \<Rightarrow> nat \<Rightarrow> 'a option" where
  "Encode x len = (if len > MaxBytes then None else Some x)"

section \<open>What a decoded roster satisfies\<close>

lemma validRows_iff:
  "validRows ids rows \<longleftrightarrow> distinct (map rw_SessionID rows) \<and> set (map rw_SessionID rows) \<inter> ids = {}
     \<and> (\<forall>r \<in> set rows. rw_SessionID r \<noteq> [] \<and> rw_Groups r \<noteq> None \<and> rw_Kind r \<in> {''peer'', ''lane''})"
  by (induction rows arbitrary: ids) auto

lemma validHosts_iff:
  "validHosts seen hosts \<longleftrightarrow> distinct (map ho_Host hosts) \<and> set (map ho_Host hosts) \<inter> seen = {}
     \<and> (\<forall>h \<in> set hosts. ho_Host h \<noteq> [] \<and> ho_Products h \<noteq> None
          \<and> (\<exists>rows. ho_Sessions h = Some rows \<and> length rows \<le> MaxRows \<and> validRows {} rows))"
  by (induction hosts arbitrary: seen) (auto split: option.splits)

end
