(* ===== verification/Protocol.thy ===== *)
theory Protocol
  imports Prelude Roster
begin

text \<open>
  The protocol's constants and data (\<open>bus/sdk/go/protocol/types.go\<close>). A Go struct is a
  record with the same fields in the same order, prefixed by the struct's initials; an
  optional pointer field is an \<open>option\<close>; an empty string is \<open>omitempty\<close>'s absent value.
  Error codes are integers and 0 means success, as in the sources.
\<close>

section \<open>Limits and error codes\<close>

abbreviation MaxFrameBytes :: nat where "MaxFrameBytes \<equiv> 1048576"
abbreviation MaxTextRunes :: nat where "MaxTextRunes \<equiv> 262144"
abbreviation MaxRequestID :: int where "MaxRequestID \<equiv> 9007199254740991"
abbreviation MaxOperations :: nat where "MaxOperations \<equiv> 256"

abbreviation InvalidFrame :: int where "InvalidFrame \<equiv> - 32600"
abbreviation InvalidHello :: int where "InvalidHello \<equiv> - 32602"
abbreviation Internal :: int where "Internal \<equiv> - 32603"
abbreviation UnknownSession :: int where "UnknownSession \<equiv> - 32001"
abbreviation NotConnected :: int where "NotConnected \<equiv> - 32002"
abbreviation Busy :: int where "Busy \<equiv> - 32003"
abbreviation NotRunning :: int where "NotRunning \<equiv> - 32004"
abbreviation AlreadyConnected :: int where "AlreadyConnected \<equiv> - 32005"
abbreviation UnknownProduct :: int where "UnknownProduct \<equiv> - 32007"
abbreviation UnsupportedOpen :: int where "UnsupportedOpen \<equiv> - 32008"
abbreviation SpawnFailed :: int where "SpawnFailed \<equiv> - 32009"
abbreviation Timeout :: int where "Timeout \<equiv> - 32010"
abbreviation NotCommitted :: int where "NotCommitted \<equiv> - 32011"
abbreviation Superseded :: int where "Superseded \<equiv> - 32012"
abbreviation NameTaken :: int where "NameTaken \<equiv> - 32013"
abbreviation UnknownHost :: int where "UnknownHost \<equiv> - 32014"
abbreviation ForwardLost :: int where "ForwardLost \<equiv> - 32015"
abbreviation UnsupportedTrace :: int where "UnsupportedTrace \<equiv> - 32016"

section \<open>Values\<close>

record ExtraArgument =
  xa_Name :: gostring
  xa_Description :: gostring
  xa_TakesValue :: bool

record HelloDescription =
  hd_SupportsMessageRun :: bool
  hd_Product :: gostring
  hd_Version :: gostring
  hd_SupportedOpenFields :: "gostring list"
  hd_ExtraArguments :: "ExtraArgument list"

record WorkerHello =
  wh_Protocol :: int
  wh_LaunchToken :: gostring
  wh_HelloDescription :: HelloDescription

record PeerHello =
  ph_Protocol :: int
  ph_Product :: gostring
  ph_SessionID :: gostring
  ph_Name :: gostring
  ph_Groups :: "gostring list"
  ph_Info :: "(gostring \<times> gostring) list"

record OpenOptions =
  oo_Cwd :: gostring
  oo_PermissionMode :: gostring
  oo_Model :: gostring
  oo_ReasoningEffort :: gostring
  oo_Arguments :: "gostring list"

record LanePolicy =
  lp_Persistent :: bool
  lp_AutoCloseMS :: int
  lp_IdleMessage :: gostring
  lp_Notify :: bool
  lp_NotifyTarget :: gostring
  lp_OwnerSessionID :: gostring
  lp_Trace :: gostring

record RunRef =
  rr_SessionID :: gostring
  rr_RunID :: gostring

record ReadRequest =
  rq_SessionID :: gostring
  rq_RunID :: gostring

record WaitRequest =
  wq_SessionID :: gostring
  wq_RunID :: gostring
  wq_TimeoutMS :: "int option"

record TurnResult =
  tr_Outcome :: gostring
  tr_Result :: gostring
  tr_Truncated :: bool
  tr_NativeStopReason :: gostring

record RunStatus =
  rs_SessionID :: gostring
  rs_RunID :: gostring
  rs_State :: gostring
  rs_Result :: "TurnResult option"
  rs_Reason :: gostring

record ExecuteRequest =
  ex_SessionID :: gostring
  ex_RunID :: gostring
  ex_Input :: gostring

record TurnReady =
  ty_SessionID :: gostring
  ty_RunID :: gostring
  ty_State :: gostring
  ty_Outcome :: gostring
  ty_Reason :: gostring

record OpenRequest =
  oq_Policy :: "LanePolicy option"
  oq_Name :: gostring
  oq_Groups :: "gostring list"
  oq_ResumeSessionID :: gostring
  oq_Open :: OpenOptions

record OpenResult =
  or_SessionID :: gostring

record TurnRunRequest =
  tq_SessionID :: gostring
  tq_Input :: gostring

record DeliverySource =
  ds_SessionID :: gostring
  ds_Name :: gostring
  ds_Product :: gostring
  ds_Groups :: "gostring list"

record DeliveryRequest =
  dq_RunID :: gostring
  dq_MessageID :: gostring
  dq_From :: DeliverySource
  dq_Body :: gostring

record DeliveryReceipt =
  dr_Disposition :: gostring
  dr_Reason :: gostring

record HostProducts =
  hp_Host :: gostring
  hp_Products :: "gostring list"

record SessionSummary =
  ss_Policy :: "LanePolicy option"
  ss_SessionID :: gostring
  ss_Kind :: gostring
  ss_Product :: gostring
  ss_Name :: gostring
  ss_Groups :: "gostring list"
  ss_Connected :: bool
  ss_Running :: bool
  ss_Info :: "(gostring \<times> gostring) list"

record SessionListRequest =
  sl_SessionID :: gostring
  sl_Host :: gostring

type_synonym SessionSelfInfo = DeliverySource

record SessionListResult =
  sr_SelfInfo :: "SessionSelfInfo option"
  sr_Sessions :: "SessionSummary list"
  sr_Hosts :: "HostProducts list"

record MessageSendRequest =
  ms_Target :: gostring
  ms_Targets :: "gostring list"
  ms_Group :: gostring
  ms_Host :: gostring
  ms_Message :: gostring

record MessageSendDelivery =
  md_Target :: gostring
  md_SessionID :: gostring
  md_DeliveryID :: gostring
  md_Disposition :: gostring
  md_Reason :: gostring

record MessageSendResult =
  mr_MessageID :: gostring
  mr_Deliveries :: "MessageSendDelivery list"

record LaneDescribeRequest =
  ld_Product :: gostring
  ld_Host :: gostring

record LaneSpawnRequest =
  ls_Persistent :: "bool option"
  ls_AutoCloseMS :: "int option"
  ls_IdleMessage :: gostring
  ls_Notify :: "bool option"
  ls_NotifyTarget :: gostring
  ls_Name :: gostring
  ls_Product :: gostring
  ls_Host :: gostring
  ls_ResumeSessionID :: gostring
  ls_ExtraGroups :: "gostring list"
  ls_Open :: "OpenOptions option"
  ls_Trace :: gostring

record LaneSpawnResult =
  lr_Policy :: "LanePolicy option"
  lr_SessionID :: gostring

record TraceConfigureRequest =
  tc_SessionID :: gostring
  tc_Mode :: gostring

record TraceConfigureResult =
  tg_SessionID :: gostring
  tg_Mode :: gostring

record SessionTarget =
  st_SessionID :: gostring

record SessionCloseRequest =
  sc_SessionID :: gostring
  sc_Forget :: bool

record SpawnFailedData =
  sf_ExitCode :: "int option"
  sf_StderrTail :: "gostring list"

text \<open>
  The \<open>data\<close> of an error: the Go values the daemon builds, or the text of a received JSON value.
\<close>

datatype errdata = DText gostring | DSpawnFailed SpawnFailedData | DRaw gostring

record RPCError =
  er_Code :: int
  er_Message :: gostring
  er_Data :: "errdata option"

section \<open>Methods and the types of their parameters and results\<close>

text \<open>
  A decoded value carries its Go type in its constructor, as an \<open>any\<close> does: \<open>params\<close> are the
  values \<open>DecodeParams\<close> can return, \<open>result\<close> those \<open>DecodeResult\<close> can return, with the hosts and
  the roster the federation's own methods return.
\<close>

datatype params =
    PHello PeerHello
  | PWorker WorkerHello
  | PEmpty
  | PList SessionListRequest
  | PSend MessageSendRequest
  | PDeliver DeliveryRequest
  | PDescribe LaneDescribeRequest
  | PSpawn LaneSpawnRequest
  | PTrace TraceConfigureRequest
  | POpen OpenRequest
  | PRun TurnRunRequest
  | PExecute ExecuteRequest
  | PRead ReadRequest
  | PWait WaitRequest
  | PRunRef RunRef
  | PReady TurnReady
  | PTarget SessionTarget
  | PClose SessionCloseRequest

datatype result =
    VEmpty
  | VList SessionListResult
  | VSend MessageSendResult
  | VReceipt DeliveryReceipt
  | VHello HelloDescription
  | VSpawn LaneSpawnResult
  | VTrace TraceConfigureResult
  | VOpened OpenResult
  | VStatus RunStatus
  | VRunRef RunRef
  | VHosts "gostring list option"
  | VRoster Remote

datatype ptype = TpHello | TpEmpty | TpList | TpSend | TpDeliver | TpDescribe | TpSpawn | TpTrace | TpOpen
  | TpRun | TpExecute | TpRead | TpWait | TpRunRef | TpReady | TpTarget | TpClose

datatype rtype = TrEmpty | TrList | TrSend | TrReceipt | TrHello | TrSpawn | TrTrace | TrOpened | TrStatus | TrRunRef | TrHosts | TrRoster

fun ptype_of :: "params \<Rightarrow> ptype" where
  "ptype_of (PHello x) = TpHello"
| "ptype_of (PWorker x) = TpHello"
| "ptype_of PEmpty = TpEmpty"
| "ptype_of (PList x) = TpList"
| "ptype_of (PSend x) = TpSend"
| "ptype_of (PDeliver x) = TpDeliver"
| "ptype_of (PDescribe x) = TpDescribe"
| "ptype_of (PSpawn x) = TpSpawn"
| "ptype_of (PTrace x) = TpTrace"
| "ptype_of (POpen x) = TpOpen"
| "ptype_of (PRun x) = TpRun"
| "ptype_of (PExecute x) = TpExecute"
| "ptype_of (PRead x) = TpRead"
| "ptype_of (PWait x) = TpWait"
| "ptype_of (PRunRef x) = TpRunRef"
| "ptype_of (PReady x) = TpReady"
| "ptype_of (PTarget x) = TpTarget"
| "ptype_of (PClose x) = TpClose"

fun rtype_of :: "result \<Rightarrow> rtype" where
  "rtype_of VEmpty = TrEmpty"
| "rtype_of (VList x) = TrList"
| "rtype_of (VSend x) = TrSend"
| "rtype_of (VReceipt x) = TrReceipt"
| "rtype_of (VHello x) = TrHello"
| "rtype_of (VSpawn x) = TrSpawn"
| "rtype_of (VTrace x) = TrTrace"
| "rtype_of (VOpened x) = TrOpened"
| "rtype_of (VStatus x) = TrStatus"
| "rtype_of (VRunRef x) = TrRunRef"
| "rtype_of (VHosts x) = TrHosts"
| "rtype_of (VRoster x) = TrRoster"

text \<open>
  \<open>methodCodecs\<close> (\<open>validate.go\<close>): per method the parameter and result type and who may send it.
\<close>

record methodCodec =
  mc_params :: ptype
  mc_result :: rtype
  mc_client :: bool
  mc_daemon :: bool

definition codec :: "ptype \<Rightarrow> rtype \<Rightarrow> bool \<Rightarrow> bool \<Rightarrow> methodCodec" where
  "codec p r client daemon = \<lparr>mc_params = p, mc_result = r, mc_client = client, mc_daemon = daemon\<rparr>"

definition methodCodecs :: "(gostring \<times> methodCodec) list" where
  "methodCodecs =
    [(''session.hello'', codec TpHello TrEmpty True False),
     (''session.superseded'', codec TpEmpty TrEmpty False True),
     (''session.list'', codec TpList TrList True False),
     (''message.send'', codec TpSend TrSend True False),
     (''message.deliver'', codec TpDeliver TrReceipt False True),
     (''lane.describe'', codec TpDescribe TrHello True False),
     (''lane.spawn'', codec TpSpawn TrSpawn True False),
     (''trace.configure'', codec TpTrace TrTrace True False),
     (''session.open'', codec TpOpen TrOpened False True),
     (''turn.run'', codec TpRun TrStatus True False),
     (''turn.start'', codec TpRun TrRunRef True False),
     (''turn.execute'', codec TpExecute TrRunRef False True),
     (''turn.status'', codec TpRead TrStatus True True),
     (''turn.wait'', codec TpWait TrStatus True True),
     (''turn.ack'', codec TpRunRef TrEmpty True True),
     (''turn.ready'', codec TpReady TrEmpty True False),
     (''turn.interrupt'', codec TpTarget TrEmpty True True),
     (''session.close'', codec TpClose TrEmpty True True)]"

definition Allows :: "gostring \<Rightarrow> bool \<Rightarrow> bool" where
  "Allows method client =
     (case map_of methodCodecs method of
        None \<Rightarrow> False
      | Some spec \<Rightarrow> client \<and> mc_client spec \<or> \<not> client \<and> mc_daemon spec)"

text \<open>
  A frame after \<open>DecodeFrame\<close>. Its \<open>Params\<close> and \<open>Result\<close> hold the value the raw JSON stands for
  when it satisfies the schema of its type, and \<open>None\<close> when it satisfies none; \<open>DecodeParams\<close> and
  \<open>DecodeResult\<close> then accept exactly the type the method's codec names.
\<close>

record Frame =
  fr_ID :: int
  fr_Method :: gostring
  fr_Params :: "params option"
  fr_Result :: "result option"
  fr_Error :: "RPCError option"
  fr_Request :: bool

definition DecodeParams :: "gostring \<Rightarrow> params option \<Rightarrow> params option" where
  "DecodeParams method raw =
     (case map_of methodCodecs method of
        None \<Rightarrow> None
      | Some spec \<Rightarrow>
          (case raw of None \<Rightarrow> None | Some p \<Rightarrow> if ptype_of p = mc_params spec then Some p else None))"

definition DecodeResult :: "gostring \<Rightarrow> result option \<Rightarrow> result option" where
  "DecodeResult method raw =
     (case map_of methodCodecs method of
        None \<Rightarrow> None
      | Some spec \<Rightarrow>
          (case raw of None \<Rightarrow> None | Some v \<Rightarrow> if rtype_of v = mc_result spec then Some v else None))"

lemma DecodeParams_type:
  "DecodeParams method raw = Some p \<Longrightarrow>
     raw = Some p \<and> (\<exists>spec. map_of methodCodecs method = Some spec \<and> ptype_of p = mc_params spec)"
  by (auto simp: DecodeParams_def split: option.splits if_splits)

lemma DecodeResult_type:
  "DecodeResult method raw = Some v \<Longrightarrow>
     raw = Some v \<and> (\<exists>spec. map_of methodCodecs method = Some spec \<and> rtype_of v = mc_result spec)"
  by (auto simp: DecodeResult_def split: option.splits if_splits)

end
