(* ===== verification/FedTypes.thy ===== *)
theory FedTypes
  imports Protocol
begin

text \<open>
  The values daemons exchange through the hub: callers, forwarded requests, replies, trace
  recipients and lifetime events (types of \<open>bus/internal/federation\<close>).
\<close>

record Caller =
  fc_OwnerLifetime :: gostring
  fc_SourceAttachment :: gostring
  fc_SessionID :: gostring
  fc_Name :: gostring
  fc_Product :: gostring
  fc_PrivateGroup :: gostring
  fc_Groups :: "gostring list"

record TraceDestination =
  td_SessionID :: gostring
  td_Lifetime :: gostring

record TraceRecipient =
  tt_Child :: gostring
  tt_Target :: gostring
  tt_Mode :: gostring
  tt_Version :: gostring
  tt_Owner :: Caller

record PublicRequest =
  pr_Completion :: bool
  pr_Method :: gostring
  pr_Params :: "params option"
  pr_MessageID :: gostring
  pr_Trace :: bool
  pr_TraceCopy :: "TraceDestination option"

record Forward =
  fw_From :: Caller
  fw_Request :: PublicRequest

text \<open>A nil \<open>Trace\<close> differs from an empty one: only the latter is sent in a trace envelope.\<close>

record Reply =
  rp_Result :: "result option"
  rp_Error :: "RPCError option"
  rp_Trace :: "TraceRecipient list option"

record OwnerEnd =
  oe_Host :: gostring
  oe_SessionID :: gostring
  oe_Lifetime :: gostring
  oe_Source :: gostring
  oe_Attachment :: gostring

record HostEnd =
  he_Host :: gostring
  he_Attachment :: gostring

record LifetimeEvent =
  le_Owner :: "OwnerEnd option"
  le_Host :: "HostEnd option"

text \<open>The calls a daemon queues for its hub link, each with the channel of its reply.\<close>

datatype fedcall =
    OutgoingCall Forward ptr
  | OwnerEndCall OwnerEnd ptr
  | HostsCall ptr
  | RosterCall ptr

fun call_chan :: "fedcall \<Rightarrow> ptr" where
  "call_chan (OutgoingCall v c) = c"
| "call_chan (OwnerEndCall v c) = c"
| "call_chan (HostsCall c) = c"
| "call_chan (RosterCall c) = c"

definition errorMessages :: "(int \<times> gostring) list" where
  "errorMessages =
    [(InvalidFrame, ''invalid_frame''), (InvalidHello, ''invalid_hello''), (Internal, ''internal''),
     (UnknownSession, ''unknown_session''), (NotConnected, ''not_connected''), (Busy, ''busy''),
     (NotRunning, ''not_running''), (AlreadyConnected, ''already_connected''),
     (UnknownProduct, ''unknown_product''), (UnsupportedOpen, ''unsupported_open_field''),
     (SpawnFailed, ''spawn_failed''), (Timeout, ''timeout''), (NotCommitted, ''not_committed''),
     (Superseded, ''superseded''), (NameTaken, ''name_taken''), (UnknownHost, ''unknown_host''),
     (ForwardLost, ''forward_lost''), (UnsupportedTrace, ''unsupported_trace'')]"

text \<open>\<open>errorReply\<close> (\<open>frame.go\<close>) knows four messages; another code has the empty one.\<close>

definition errorReply :: "int \<Rightarrow> errdata option \<Rightarrow> Reply" where
  "errorReply code data =
     (let message = (if code \<in> {InvalidFrame, UnknownHost, ForwardLost, UnsupportedTrace}
                     then the (map_of errorMessages code) else [])
      in \<lparr>rp_Result = None,
          rp_Error = Some \<lparr>er_Code = code, er_Message = message, er_Data = data\<rparr>,
          rp_Trace = None\<rparr>)"

end
