(* ===== verification/Policy.thy ===== *)
theory Policy
  imports Protocol "HOL-Library.Word"
begin

text \<open>
  Lane policies (\<open>normalizePolicy\<close> of \<open>bus/internal/daemon/policy.go\<close>): the policy a lane gets
  from a spawn request and, on resume, from the policy it had. An error is the left value of the
  sum with the message of the source.
\<close>

abbreviation defaultAutoCloseMS :: int where "defaultAutoCloseMS \<equiv> 60000"

text \<open>
  What \<open>EncodeResult("lane.spawn", ...)\<close> checks of a policy: the constraints the schema's
  \<open>LanePolicy\<close> puts on the encoded fields (empty optional strings are not encoded).
\<close>

definition policyEncodes :: "LanePolicy \<Rightarrow> bool" where
  "policyEncodes value \<longleftrightarrow>
     0 \<le> lp_AutoCloseMS value \<and> lp_AutoCloseMS value \<le> 9223372036854
     \<and> lp_IdleMessage value \<in> {''stage'', ''run''}
     \<and> (lp_Trace value = [] \<or> lp_Trace value \<in> {''off'', ''events'', ''content''})"

definition policyStart :: "LanePolicy option \<Rightarrow> gostring \<Rightarrow> LanePolicy" where
  "policyStart previous ownerID =
     (case previous of
        None \<Rightarrow> \<lparr>lp_Persistent = False, lp_AutoCloseMS = defaultAutoCloseMS, lp_IdleMessage = ''run'',
                 lp_Notify = True, lp_NotifyTarget = [], lp_OwnerSessionID = ownerID, lp_Trace = []\<rparr>
      | Some p \<Rightarrow> p\<lparr>lp_AutoCloseMS := defaultAutoCloseMS, lp_OwnerSessionID := ownerID\<rparr>)"

text \<open>The branch for a persistent lane and the branch for a lane its parent owns.\<close>

definition persistentNotify ::
    "LaneSpawnRequest \<Rightarrow> LanePolicy option \<Rightarrow> LanePolicy \<Rightarrow> gostring + LanePolicy" where
  "persistentNotify input previous value0 =
     (let v1 = value0\<lparr>lp_OwnerSessionID := []\<rparr>;
          v2 = (if previous = None then v1\<lparr>lp_Notify := False\<rparr> else v1);
          v3 = (case previous of
                  Some p \<Rightarrow> if \<not> lp_Persistent p \<and> lp_Notify p
                            then v2\<lparr>lp_NotifyTarget := lp_OwnerSessionID p\<rparr> else v2
                | None \<Rightarrow> v2);
          v4 = (if ls_NotifyTarget input \<noteq> []
                then v3\<lparr>lp_NotifyTarget := ls_NotifyTarget input, lp_Notify := True\<rparr> else v3);
          v5 = (case ls_Notify input of Some b \<Rightarrow> v4\<lparr>lp_Notify := b\<rparr> | None \<Rightarrow> v4);
          v6 = (if \<not> lp_Notify v5 then v5\<lparr>lp_NotifyTarget := []\<rparr> else v5)
      in if lp_Notify v6 \<and> lp_NotifyTarget v6 = []
         then Inl ''persistent notification requires a target'' else Inr v6)"

definition ownedNotify ::
    "LaneSpawnRequest \<Rightarrow> gostring \<Rightarrow> LanePolicy \<Rightarrow> gostring + LanePolicy" where
  "ownedNotify input ownerID value0 =
     (if ls_NotifyTarget input \<noteq> [] \<and> ls_NotifyTarget input \<noteq> ownerID
      then Inl ''parent-owned lane notifies its owner''
      else
        let v1 = value0\<lparr>lp_Notify := True, lp_NotifyTarget := []\<rparr>
        in Inr (case ls_Notify input of Some b \<Rightarrow> v1\<lparr>lp_Notify := b\<rparr> | None \<Rightarrow> v1))"

definition normalizePolicy ::
    "LaneSpawnRequest \<Rightarrow> LanePolicy option \<Rightarrow> gostring \<Rightarrow> gostring + LanePolicy" where
  "normalizePolicy input previous ownerID =
     (let v0 = policyStart previous ownerID in
      if ls_Persistent input = Some False \<and> lp_Persistent v0
      then Inl ''persistent lifetime cannot be demoted''
      else
        let v1 = (case ls_Persistent input of Some b \<Rightarrow> v0\<lparr>lp_Persistent := b\<rparr> | None \<Rightarrow> v0);
            v2 = (case ls_AutoCloseMS input of Some n \<Rightarrow> v1\<lparr>lp_AutoCloseMS := n\<rparr> | None \<Rightarrow> v1);
            v3 = v2\<lparr>lp_IdleMessage := ''run''\<rparr>
        in case (if lp_Persistent v3 then persistentNotify input previous v3
                 else ownedNotify input ownerID v3) of
             Inl err \<Rightarrow> Inl err
           | Inr v4 \<Rightarrow>
               if ls_Notify input = Some False \<and> ls_NotifyTarget input \<noteq> []
               then Inl ''disabled notification cannot have a target''
               else if \<not> policyEncodes v4 then Inl ''LaneSpawnResult: invalid policy''
               else Inr v4)"

text \<open>What every policy of a lane satisfies.\<close>

definition policy_ok :: "LanePolicy \<Rightarrow> bool" where
  "policy_ok p \<longleftrightarrow>
     lp_IdleMessage p = ''run'' \<and> policyEncodes p
     \<and> (lp_Persistent p \<longrightarrow> lp_OwnerSessionID p = [] \<and> (lp_Notify p \<longleftrightarrow> lp_NotifyTarget p \<noteq> []))
     \<and> (\<not> lp_Persistent p \<longrightarrow> lp_NotifyTarget p = [])"

lemma persistentNotify_Inr:
  assumes "persistentNotify input previous v = Inr w"
  shows "lp_OwnerSessionID w = [] \<and> (lp_Notify w \<longleftrightarrow> lp_NotifyTarget w \<noteq> [])
    \<and> lp_Persistent w = lp_Persistent v \<and> lp_AutoCloseMS w = lp_AutoCloseMS v
    \<and> lp_IdleMessage w = lp_IdleMessage v \<and> lp_Trace w = lp_Trace v"
  using assms by (auto simp: persistentNotify_def Let_def split: if_splits option.splits)

lemma ownedNotify_Inr:
  assumes "ownedNotify input ownerID v = Inr w"
  shows "lp_NotifyTarget w = [] \<and> lp_Notify w = (case ls_Notify input of Some b \<Rightarrow> b | None \<Rightarrow> True)
    \<and> lp_Persistent w = lp_Persistent v \<and> lp_AutoCloseMS w = lp_AutoCloseMS v
    \<and> lp_OwnerSessionID w = lp_OwnerSessionID v
    \<and> lp_IdleMessage w = lp_IdleMessage v \<and> lp_Trace w = lp_Trace v"
  using assms by (auto simp: ownedNotify_def Let_def split: if_splits option.splits)

lemma normalizePolicy_Inr:
  assumes "normalizePolicy input previous ownerID = Inr w"
  shows "lp_IdleMessage w = ''run''" "policyEncodes w"
    "lp_AutoCloseMS w = (case ls_AutoCloseMS input of Some n \<Rightarrow> n | None \<Rightarrow> defaultAutoCloseMS)"
    "lp_Persistent w = (case ls_Persistent input of Some b \<Rightarrow> b
                        | None \<Rightarrow> (case previous of Some p \<Rightarrow> lp_Persistent p | None \<Rightarrow> False))"
    "(case previous of Some p \<Rightarrow> lp_Persistent p | None \<Rightarrow> False) \<Longrightarrow> lp_Persistent w"
    "lp_Persistent w \<Longrightarrow> lp_OwnerSessionID w = [] \<and> (lp_Notify w \<longleftrightarrow> lp_NotifyTarget w \<noteq> [])"
    "\<not> lp_Persistent w \<Longrightarrow> lp_OwnerSessionID w = ownerID \<and> lp_NotifyTarget w = []"
  using assms
  by (auto simp: normalizePolicy_def policyStart_def Let_def
      dest!: persistentNotify_Inr ownedNotify_Inr
      split: if_splits option.splits sum.splits)

text \<open>
  a policy \<open>normalizePolicy\<close> accepts satisfies the policy invariant: delivery requests work
  (\<open>run\<close>), a persistent lane has no owner and notifies exactly when it has a target, a lane owned
  by its parent has the parent as owner and no other target, and a persistent lane is never
  demoted.
\<close>

theorem normalized_policy_ok:
  assumes "normalizePolicy input previous ownerID = Inr w"
  shows "policy_ok w
    \<and> (lp_Persistent w \<or> lp_OwnerSessionID w = ownerID)
    \<and> (case previous of Some p \<Rightarrow> lp_Persistent p \<longrightarrow> lp_Persistent w | None \<Rightarrow> True)"
  using normalizePolicy_Inr[OF assms] by (auto simp: policy_ok_def split: option.splits)

definition demo_spawn :: LaneSpawnRequest where
  "demo_spawn = \<lparr>ls_Persistent = Some True, ls_AutoCloseMS = Some 5000, ls_IdleMessage = ''stage'',
     ls_Notify = None, ls_NotifyTarget = ''boss@h'', ls_Name = ''w'', ls_Product = ''p'', ls_Host = [],
     ls_ResumeSessionID = [], ls_ExtraGroups = [], ls_Open = None, ls_Trace = []\<rparr>"

definition demo_policy :: LanePolicy where
  "demo_policy = \<lparr>lp_Persistent = True, lp_AutoCloseMS = 5000, lp_IdleMessage = ''run'', lp_Notify = True,
     lp_NotifyTarget = ''boss@h'', lp_OwnerSessionID = [], lp_Trace = []\<rparr>"

lemma demo_normalized: "normalizePolicy demo_spawn None ''me@h'' = Inr demo_policy"
  by (simp add: normalizePolicy_def policyStart_def persistentNotify_def demo_spawn_def demo_policy_def
      policyEncodes_def Let_def)

theorem normalized_policy_ok_witness:
  "normalizePolicy demo_spawn None ''me@h'' = Inr demo_policy \<and> policy_ok demo_policy"
  using demo_normalized normalized_policy_ok[OF demo_normalized] by simp

text \<open>
  the automatic close delay \<open>time.Duration(policy.AutoCloseMS) * time.Millisecond\<close> of a
  normalized policy never wraps around: read as a signed 64 bit product it is the mathematical
  product, and it is not negative.
\<close>

theorem auto_close_delay_exact:
  assumes "normalizePolicy input previous ownerID = Inr w"
  shows "sint ((word_of_int (lp_AutoCloseMS w) :: 64 word) * word_of_int 1000000)
           = lp_AutoCloseMS w * 1000000
         \<and> 0 \<le> lp_AutoCloseMS w"
proof -
  from normalizePolicy_Inr(2)[OF assms] have b: "0 \<le> lp_AutoCloseMS w" "lp_AutoCloseMS w \<le> 9223372036854"
    by (auto simp: policyEncodes_def)
  have wrapped: "sint (word_of_int (lp_AutoCloseMS w * 1000000) :: 64 word) = lp_AutoCloseMS w * 1000000"
    using b by (simp only: signed_of_int of_int_eq_id id_apply) (rule signed_take_bit_int_eq_self, simp_all)
  have "(word_of_int (lp_AutoCloseMS w) :: 64 word) * word_of_int 1000000
      = word_of_int (lp_AutoCloseMS w * 1000000)" by (rule wi_hom_mult)
  with wrapped b(1) show ?thesis by presburger
qed

theorem auto_close_delay_exact_witness:
  "sint ((word_of_int (lp_AutoCloseMS demo_policy) :: 64 word) * word_of_int 1000000)
     = lp_AutoCloseMS demo_policy * 1000000 \<and> 0 \<le> lp_AutoCloseMS demo_policy"
  by (rule auto_close_delay_exact[OF demo_normalized])

end
