(* ===== verification/Table.thy ===== *)
theory Table
  imports Policy
begin

text \<open>
  The durable rows of lanes (\<open>bus/internal/daemon/table.go\<close>): one file per lane in a directory,
  written to a temporary file first and renamed into place.

  The file system is modelled at the level of the calls the source makes: a directory is an
  association list from file names to contents, every call may fail (\<open>faults\<close>), and
  \<open>writeStates\<close> lists the directory after each call, so that a crash between two calls leaves
  one of its elements. A stored row is what the JSON decoder sees in the file: the number of
  top level fields, the decoded row, and the shape of the \<open>policy\<close> field. The digest SHA-256 is
  the parameter \<open>sha\<close>.
\<close>

text \<open>\<open>time.Time\<close> is the number of nanoseconds since the epoch, 0 for the zero time.\<close>

record row =
  r_Policy :: "LanePolicy option"
  r_SessionID :: gostring
  r_Product :: gostring
  r_Name :: gostring
  r_Groups :: "gostring list"
  r_Open :: OpenOptions
  r_CreatedAt :: nat

record stored =
  sd_fields :: nat
  sd_row :: row
  sd_hasPolicy :: bool
  sd_policyObject :: bool
  sd_policyTrace :: bool

text \<open>\<open>Raw None\<close> is a file that cannot be read or does not decode.\<close>

datatype content = Subdir | Raw "stored option"

datatype tabledir = NoDir | DirError | Dir "(gostring, content) gomap"

section \<open>Reading\<close>

definition rowFile :: "(gostring \<Rightarrow> gostring) \<Rightarrow> gostring \<Rightarrow> gostring" where
  "rowFile sha key = sha key @ ''.json''"

text \<open>\<open>filepath.Ext\<close> of a file name.\<close>

definition fileExt :: "gostring \<Rightarrow> gostring" where
  "fileExt name = (case lastIndexByte name CHR ''.'' of None \<Rightarrow> [] | Some i \<Rightarrow> drop i name)"

text \<open>A copy with its own policy and slices; values are not shared in HOL.\<close>

definition cloneRow :: "row \<Rightarrow> row" where
  "cloneRow value =
     value\<lparr>r_Policy := (case r_Policy value of None \<Rightarrow> None | Some p \<Rightarrow> Some p),
           r_Groups := [] @ r_Groups value,
           r_Open := (r_Open value)\<lparr>oo_Arguments := [] @ oo_Arguments (r_Open value)\<rparr>\<rparr>"

lemma cloneRow_id [simp]: "cloneRow value = value"
  by (simp add: cloneRow_def split: option.splits)

definition legacyPolicy :: LanePolicy where
  "legacyPolicy = \<lparr>lp_Persistent = True, lp_AutoCloseMS = 0, lp_IdleMessage = ''run'', lp_Notify = False,
                   lp_NotifyTarget = [], lp_OwnerSessionID = [], lp_Trace = []\<rparr>"

text \<open>The checks of one file's policy; the row with its upgraded policy, or an error.\<close>

definition loadPolicy :: "stored \<Rightarrow> row \<Rightarrow> row option" where
  "loadPolicy st value =
     (case r_Policy value of
        None \<Rightarrow> Some value
      | Some p \<Rightarrow>
          if sd_hasPolicy st \<and> (\<not> sd_policyObject st \<or> sd_policyTrace st) then None
          else if r_SessionID value = [] \<or> \<not> policyEncodes p then None
          else Some (value\<lparr>r_Policy := Some (p\<lparr>lp_IdleMessage := ''run''\<rparr>)\<rparr>))"

text \<open>
  One file that is not skipped: \<open>seen\<close> and \<open>names\<close> are the session identifiers and names of the
  rows read before.
\<close>

definition loadRow ::
    "(gostring \<Rightarrow> gostring) \<Rightarrow> gostring list \<Rightarrow> gostring list \<Rightarrow> gostring \<Rightarrow> content \<Rightarrow> row option" where
  "loadRow sha seen names file c =
     (case c of
        Raw (Some st) \<Rightarrow>
          let value = sd_row st in
          if sd_fields st \<noteq> 6 \<and> sd_fields st \<noteq> 7 \<or> file \<noteq> rowFile sha (r_SessionID value)
             \<or> r_Name value = [] \<or> length (r_Groups value) < 2
             \<or> r_SessionID value \<in> set seen \<or> r_Name value \<in> set names
          then None
          else loadPolicy st (if sd_fields st = 6 then value\<lparr>r_Policy := Some legacyPolicy\<rparr> else value)
      | _ \<Rightarrow> None)"

fun loadRows ::
    "(gostring \<Rightarrow> gostring) \<Rightarrow> row list \<Rightarrow> (gostring, content) gomap \<Rightarrow> row list option" where
  "loadRows sha rows [] = Some rows"
| "loadRows sha rows ((file, c) # files) =
     (if fileExt file \<noteq> ''.json'' then loadRows sha rows files
      else case loadRow sha (map r_SessionID rows) (map r_Name rows) file c of
             None \<Rightarrow> None
           | Some value \<Rightarrow> loadRows sha (rows @ [cloneRow value]) files)"

text \<open>\<open>os.ReadDir\<close> returns the files sorted by name.\<close>

definition openTable :: "(gostring \<Rightarrow> gostring) \<Rightarrow> tabledir \<Rightarrow> row list option" where
  "openTable sha d =
     (case d of
        NoDir \<Rightarrow> Some []
      | DirError \<Rightarrow> None
      | Dir files \<Rightarrow> loadRows sha [] (sort_key fst files))"

section \<open>Writing and deleting\<close>

datatype fsop = FMarshal | FMkdir | FCreateTemp | FChmod | FWrite | FSync | FCloseFile | FRename
  | FOpenDir | FDirSync | FRemove

text \<open>The file \<open>json.Marshal\<close> produces for a row: \<open>policy\<close> is omitted when it is nil.\<close>

definition storedOf :: "row \<Rightarrow> stored" where
  "storedOf value =
     \<lparr>sd_fields = (if r_Policy value = None then 6 else 7), sd_row = value,
      sd_hasPolicy = (r_Policy value \<noteq> None), sd_policyObject = True,
      sd_policyTrace = (case r_Policy value of None \<Rightarrow> False | Some p \<Rightarrow> lp_Trace p \<noteq> [])\<rparr>"

definition mkdirAll :: "tabledir \<Rightarrow> tabledir" where
  "mkdirAll d = (case d of NoDir \<Rightarrow> Dir [] | _ \<Rightarrow> d)"

definition putFile :: "gostring \<Rightarrow> content \<Rightarrow> tabledir \<Rightarrow> tabledir" where
  "putFile name c d = (case d of Dir files \<Rightarrow> Dir (gm_set name c files) | _ \<Rightarrow> d)"

definition removeFile :: "gostring \<Rightarrow> tabledir \<Rightarrow> tabledir" where
  "removeFile name d = (case d of Dir files \<Rightarrow> Dir (gm_del name files) | _ \<Rightarrow> d)"

definition fileAt :: "tabledir \<Rightarrow> gostring \<Rightarrow> content option" where
  "fileAt d name = (case d of Dir files \<Rightarrow> gm_get files name | _ \<Rightarrow> None)"

definition renameFile :: "gostring \<Rightarrow> gostring \<Rightarrow> tabledir \<Rightarrow> tabledir" where
  "renameFile old new d =
     (case fileAt d old of None \<Rightarrow> d | Some c \<Rightarrow> putFile new c (removeFile old d))"

definition writeStates ::
    "(gostring \<Rightarrow> gostring) \<Rightarrow> (fsop \<Rightarrow> bool) \<Rightarrow> gostring \<Rightarrow> tabledir \<Rightarrow> row \<Rightarrow> tabledir list \<times> bool" where
  "writeStates sha faults tmp d value =
     (if (case r_Policy value of Some p \<Rightarrow> lp_Trace p \<noteq> [] | None \<Rightarrow> False) then ([d], False)
      else if faults FMarshal then ([d], False)
      else if faults FMkdir then ([d], False)
      else
        let d1 = mkdirAll d in
        if faults FCreateTemp then ([d, d1], False)
        else
          let d2 = putFile tmp (Raw None) d1;
              d3 = (if \<not> faults FChmod \<and> \<not> faults FWrite then putFile tmp (Raw (Some (storedOf value))) d2 else d2);
              ok1 = (\<not> faults FChmod \<and> \<not> faults FWrite \<and> \<not> faults FSync \<and> \<not> faults FCloseFile);
              ok2 = (ok1 \<and> \<not> faults FRename);
              d4 = (if ok2 then renameFile tmp (rowFile sha (r_SessionID value)) d3 else d3);
              d5 = (if faults FRemove then d4 else removeFile tmp d4)
          in ([d, d1, d2, d3, d4, d5], ok2 \<and> \<not> faults FOpenDir \<and> \<not> faults FDirSync))"

definition tableWrite ::
    "(gostring \<Rightarrow> gostring) \<Rightarrow> (fsop \<Rightarrow> bool) \<Rightarrow> gostring \<Rightarrow> tabledir \<Rightarrow> row \<Rightarrow> tabledir \<times> bool" where
  "tableWrite sha faults tmp d value =
     (let (states, ok) = writeStates sha faults tmp d value in (last states, ok))"

definition tableDelete :: "(gostring \<Rightarrow> gostring) \<Rightarrow> (fsop \<Rightarrow> bool) \<Rightarrow> tabledir \<Rightarrow> gostring \<Rightarrow> tabledir \<times> bool" where
  "tableDelete sha faults d key =
     (if faults FRemove then (d, False) else (removeFile (rowFile sha key) d, True))"

section \<open>Properties\<close>

lemma fileExt_rowFile: "fileExt (rowFile sha key) = ''.json''"
proof -
  have "lastIndexByte (sha key @ CHR ''.'' # ''json'') CHR ''.'' = Some (length (sha key))"
    by (rule lastIndexByte_append) simp
  then show ?thesis by (simp add: fileExt_def rowFile_def)
qed

lemma fileAt_simps [simp]:
  "fileAt (putFile n c (Dir fs)) m = (if m = n then Some c else fileAt (Dir fs) m)"
  "fileAt (removeFile n (Dir fs)) m = (if m = n then None else fileAt (Dir fs) m)"
  "fileAt (mkdirAll d) m = fileAt d m"
  by (auto simp: fileAt_def putFile_def removeFile_def mkdirAll_def split: tabledir.splits)

lemma fileAt_change:
  "fileAt (putFile n c d) m = (if m = n \<and> (\<exists>fs. d = Dir fs) then Some c else fileAt d m)"
  "fileAt (removeFile n d) m = (if m = n then None else fileAt d m)"
  by (auto simp: fileAt_def putFile_def removeFile_def split: tabledir.splits)

lemma putFile_Dir: "(\<exists>fs. putFile n c d = Dir fs) \<longleftrightarrow> (\<exists>fs. d = Dir fs)"
  "(\<exists>fs. removeFile n d = Dir fs) \<longleftrightarrow> (\<exists>fs. d = Dir fs)"
  by (auto simp: putFile_def removeFile_def split: tabledir.splits)

text \<open>What a directory may differ in during a write: the temporary file and the row's own file.\<close>

definition row_kept :: "(gostring \<Rightarrow> gostring) \<Rightarrow> tabledir \<Rightarrow> row \<Rightarrow> gostring \<Rightarrow> tabledir \<Rightarrow> bool" where
  "row_kept sha d value name d' \<longleftrightarrow>
     fileAt d' name = fileAt d name
     \<or> name = rowFile sha (r_SessionID value) \<and> fileAt d' name = Some (Raw (Some (storedOf value)))"

lemma row_kept_simps:
  assumes "name \<noteq> tmp"
  shows "row_kept sha d value name d"
    "row_kept sha d value name (mkdirAll d)"
    "row_kept sha d value name (putFile tmp c d') = row_kept sha d value name d'"
    "row_kept sha d value name (removeFile tmp d') = row_kept sha d value name d'"
  using assms by (simp_all add: row_kept_def fileAt_change)

lemma row_kept_rename:
  assumes "name \<noteq> tmp" "row_kept sha d value name d'" "fileAt d' tmp = Some (Raw (Some (storedOf value)))"
  shows "row_kept sha d value name (renameFile tmp (rowFile sha (r_SessionID value)) d')"
proof -
  from assms(3) obtain fs where "d' = Dir fs" by (cases d') (auto simp: fileAt_def)
  with assms show ?thesis
    by (auto simp: row_kept_def renameFile_def fileAt_change putFile_Dir)
qed

lemma row_kept_rename_missing:
  assumes "fileAt d' tmp = None" "row_kept sha d value name d'"
  shows "row_kept sha d value name (renameFile tmp f d')"
  using assms by (simp add: renameFile_def)

text \<open>
  C30: writing a row is atomic: after every system call of the write, so also after a crash
  between two of them and whichever calls fail, each row file of the directory is either what it
  was before or, for the file of the written row, the complete new row.
\<close>

theorem write_is_atomic:
  assumes "fileExt tmp \<noteq> ''.json''" and "d' \<in> set (fst (writeStates sha faults tmp d value))"
    and "fileExt name = ''.json''"
  shows "fileAt d' name = fileAt d name
    \<or> name = rowFile sha (r_SessionID value) \<and> fileAt d' name = Some (Raw (Some (storedOf value)))"
proof -
  have n: "name \<noteq> tmp" using assms by auto
  let ?d2 = "putFile tmp (Raw None) (mkdirAll d)"
  let ?d3 = "putFile tmp (Raw (Some (storedOf value))) ?d2"
  let ?d4 = "renameFile tmp (rowFile sha (r_SessionID value)) ?d3"
  have d3: "row_kept sha d value name ?d3" using n by (simp add: row_kept_simps)
  have "row_kept sha d value name ?d4"
  proof (cases "mkdirAll d")
    case (Dir fs)
    then have "fileAt ?d3 tmp = Some (Raw (Some (storedOf value)))" by (simp add: fileAt_change putFile_Dir)
    with n d3 show ?thesis by (rule row_kept_rename)
  next
    case DirError
    then have "fileAt ?d3 tmp = None" by (simp add: putFile_def fileAt_def)
    then show ?thesis using d3 by (rule row_kept_rename_missing)
  qed (simp add: mkdirAll_def split: tabledir.splits)
  with n have "\<forall>e \<in> set (fst (writeStates sha faults tmp d value)). row_kept sha d value name e"
    by (simp add: writeStates_def Let_def row_kept_simps)
  with assms(2) show ?thesis by (simp add: row_kept_def)
qed

definition demo_row :: row where
  "demo_row = \<lparr>r_Policy = Some demo_policy, r_SessionID = ''a@h'', r_Product = ''p'', r_Name = ''n@h'',
     r_Groups = [''g'', ''g/n''],
     r_Open = \<lparr>oo_Cwd = [], oo_PermissionMode = [], oo_Model = [], oo_ReasoningEffort = [], oo_Arguments = []\<rparr>,
     r_CreatedAt = 7\<rparr>"

theorem write_is_atomic_witness:
  "fileAt (last (fst (writeStates id (\<lambda>f. f = FDirSync) ''.row-1'' NoDir demo_row))) (rowFile id ''a@h'')
     = fileAt NoDir (rowFile id ''a@h'')
   \<or> rowFile id ''a@h'' = rowFile id (r_SessionID demo_row)
     \<and> fileAt (last (fst (writeStates id (\<lambda>f. f = FDirSync) ''.row-1'' NoDir demo_row))) (rowFile id ''a@h'')
       = Some (Raw (Some (storedOf demo_row)))"
proof (rule write_is_atomic)
  show "fileExt ''.row-1'' \<noteq> ''.json''" by (simp add: fileExt_def)
  show "last (fst (writeStates id (\<lambda>f. f = FDirSync) ''.row-1'' NoDir demo_row))
      \<in> set (fst (writeStates id (\<lambda>f. f = FDirSync) ''.row-1'' NoDir demo_row))"
    by (rule last_in_set) (simp add: writeStates_def demo_row_def demo_policy_def Let_def)
  show "fileExt (rowFile id ''a@h'') = ''.json''" by (rule fileExt_rowFile)
qed


section \<open>Reading back\<close>

text \<open>What one file contributes on its own, and what the whole directory then loads to.\<close>

abbreviation rowIn :: "(gostring \<Rightarrow> gostring) \<Rightarrow> gostring \<Rightarrow> content \<Rightarrow> row option" where
  "rowIn sha \<equiv> loadRow sha [] []"

lemma loadPolicy_keeps:
  "loadPolicy st v = Some w \<Longrightarrow> r_SessionID w = r_SessionID v \<and> r_Name w = r_Name v"
  by (auto simp: loadPolicy_def split: option.splits if_splits)

lemma loadRow_rowIn:
  "loadRow sha seen names file c =
     (case rowIn sha file c of
        None \<Rightarrow> None
      | Some v \<Rightarrow> if r_SessionID v \<in> set seen \<or> r_Name v \<in> set names then None else Some v)"
  by (auto simp: loadRow_def Let_def dest: loadPolicy_keeps
      split: content.splits option.splits if_splits)

lemma rowIn_file: "rowIn sha file c = Some v \<Longrightarrow> file = rowFile sha (r_SessionID v)"
  by (auto simp: loadRow_def Let_def dest!: loadPolicy_keeps split: content.splits option.splits if_splits)

lemma loadRows_Some:
  assumes "loadRows sha rows files = Some out"
  shows "set out = set rows \<union> {v. \<exists>f c. (f, c) \<in> set files \<and> fileExt f = ''.json'' \<and> rowIn sha f c = Some v}
    \<and> (\<forall>(f, c) \<in> set files. fileExt f = ''.json'' \<longrightarrow> rowIn sha f c \<noteq> None)
    \<and> (distinct (map r_Name rows) \<longrightarrow> distinct (map r_Name out))"
  using assms
proof (induction sha rows files arbitrary: out rule: loadRows.induct)
  case (2 sha rows fl c files)
  show ?case
  proof (cases "fileExt fl = ''.json''")
    case False
    with 2 show ?thesis by fastforce
  next
    case True
    with 2(3) obtain v where v: "rowIn sha fl c = Some v" "r_Name v \<notin> set (map r_Name rows)"
      and l: "loadRow sha (map r_SessionID rows) (map r_Name rows) fl c = Some v"
      and r: "loadRows sha (rows @ [cloneRow v]) files = Some out"
      by (auto simp: loadRow_rowIn[of _ "map r_SessionID rows"] split: option.splits if_splits)
    from 2(2)[OF _ l r] True v show ?thesis by auto
  qed
qed auto

lemma loadRows_exists:
  assumes "distinct (map fst files)"
    and "\<And>f c. (f, c) \<in> set files \<Longrightarrow> fileExt f = ''.json'' \<Longrightarrow> rowIn sha f c \<noteq> None"
    and "\<And>f c g e v w. (f, c) \<in> set files \<Longrightarrow> (g, e) \<in> set files \<Longrightarrow> rowIn sha f c = Some v
       \<Longrightarrow> rowIn sha g e = Some w \<Longrightarrow> r_Name v = r_Name w \<Longrightarrow> f = g"
    and "\<And>f c v. (f, c) \<in> set files \<Longrightarrow> rowIn sha f c = Some v \<Longrightarrow>
       r_Name v \<notin> r_Name ` set rows \<and> r_SessionID v \<notin> r_SessionID ` set rows"
  shows "\<exists>out. loadRows sha rows files = Some out"
  using assms
proof (induction sha rows files rule: loadRows.induct)
  case (2 sha rows fl c files)
  note keys = 2(3) and json = 2(4) and names = 2(5) and fresh = 2(6)
  show ?case
  proof (cases "fileExt fl = ''.json''")
    case False
    have "\<exists>out. loadRows sha rows files = Some out"
    proof (rule 2(1)[OF False])
      show "distinct (map fst files)" using keys by simp
      show "rowIn sha f e \<noteq> None" if "(f, e) \<in> set files" "fileExt f = ''.json''" for f e
        using json[of f e] that by simp
      show "f = g" if "(f, e) \<in> set files" "(g, e') \<in> set files" "rowIn sha f e = Some w"
        "rowIn sha g e' = Some w'" "r_Name w = r_Name w'" for f e g e' w w'
        using names[of f e g e' w w'] that by simp
      show "r_Name w \<notin> r_Name ` set rows \<and> r_SessionID w \<notin> r_SessionID ` set rows"
        if "(f, e) \<in> set files" "rowIn sha f e = Some w" for f e w
        using fresh[of f e w] that by simp
    qed
    with False show ?thesis by simp
  next
    case True
    with json[of fl c] obtain v where v: "rowIn sha fl c = Some v" by auto
    with fresh[of fl c v] have l: "loadRow sha (map r_SessionID rows) (map r_Name rows) fl c = Some v"
      by (simp add: loadRow_rowIn[of _ "map r_SessionID rows"])
    have other: "f \<noteq> fl" if "(f, e) \<in> set files" for f e using keys that by force
    have "\<exists>out. loadRows sha (rows @ [cloneRow v]) files = Some out"
    proof (rule 2(2)[OF _ l])
      show "\<not> fileExt fl \<noteq> ''.json''" using True by simp
      show "distinct (map fst files)" using keys by simp
      show "rowIn sha f e \<noteq> None" if "(f, e) \<in> set files" "fileExt f = ''.json''" for f e
        using json[of f e] that by simp
      show "f = g" if "(f, e) \<in> set files" "(g, e') \<in> set files" "rowIn sha f e = Some w"
        "rowIn sha g e' = Some w'" "r_Name w = r_Name w'" for f e g e' w w'
        using names[of f e g e' w w'] that by simp
      show "r_Name w \<notin> r_Name ` set (rows @ [cloneRow v]) \<and> r_SessionID w \<notin> r_SessionID ` set (rows @ [cloneRow v])"
        if "(f, e) \<in> set files" "rowIn sha f e = Some w" for f e w
        using fresh[of f e w] names[of f e fl c w v] other[OF that(1)] rowIn_file[OF that(2)] rowIn_file[OF v] that v
        by auto
    qed
    with True l show ?thesis by simp
  qed
qed simp

lemma openTable_Some:
  assumes "openTable sha (Dir files) = Some rows"
  shows "set rows = {v. \<exists>f c. (f, c) \<in> set files \<and> fileExt f = ''.json'' \<and> rowIn sha f c = Some v}"
    and "\<forall>(f, c) \<in> set files. fileExt f = ''.json'' \<longrightarrow> rowIn sha f c \<noteq> None"
    and "distinct (map r_Name rows)"
  using loadRows_Some[of sha "[]" "sort_key fst files" rows] assms by (auto simp: openTable_def)


lemma openTable_exists:
  assumes "gm_ok files"
    and "\<And>f c. gm_get files f = Some c \<Longrightarrow> fileExt f = ''.json'' \<Longrightarrow> rowIn sha f c \<noteq> None"
    and "\<And>f c g e v w. gm_get files f = Some c \<Longrightarrow> gm_get files g = Some e \<Longrightarrow> rowIn sha f c = Some v
       \<Longrightarrow> rowIn sha g e = Some w \<Longrightarrow> r_Name v = r_Name w \<Longrightarrow> f = g"
  shows "\<exists>rows. openTable sha (Dir files) = Some rows"
proof -
  have keys: "distinct (map fst (sort_key fst files))"
    using assms(1) by (simp add: gm_ok_def distinct_map)
  have in_files: "(f, c) \<in> set (sort_key fst files) \<longleftrightarrow> gm_get files f = Some c" for f c
    using gm_set_get[OF assms(1)] by simp
  have "\<exists>rows. loadRows sha [] (sort_key fst files) = Some rows"
  proof (rule loadRows_exists[OF keys])
    show "rowIn sha f c \<noteq> None" if "(f, c) \<in> set (sort_key fst files)" "fileExt f = ''.json''" for f c
      using assms(2)[of f c] that in_files[of f c] by blast
    show "f = g" if "(f, c) \<in> set (sort_key fst files)" "(g, e) \<in> set (sort_key fst files)"
      "rowIn sha f c = Some v" "rowIn sha g e = Some w" "r_Name v = r_Name w" for f c g e v w
      using assms(3)[of f c g e v w] that in_files[of f c] in_files[of g e] by blast
  qed simp
  then show ?thesis by (simp add: openTable_def)
qed

text \<open>A row the daemon may write: what \<open>finishOpen\<close> hands to \<open>write\<close>.\<close>

definition row_ok :: "row \<Rightarrow> bool" where
  "row_ok value \<longleftrightarrow> r_SessionID value \<noteq> [] \<and> r_Name value \<noteq> [] \<and> 2 \<le> length (r_Groups value)
     \<and> (\<exists>p. r_Policy value = Some p \<and> lp_Trace p = [] \<and> policyEncodes p \<and> lp_IdleMessage p = ''run'')"

lemma rowIn_storedOf: "row_ok v \<Longrightarrow> rowIn sha (rowFile sha (r_SessionID v)) (Raw (Some (storedOf v))) = Some v"
  by (auto simp: row_ok_def loadRow_def storedOf_def loadPolicy_def)

lemma tableWrite_ok:
  assumes "tableWrite sha faults tmp (Dir files) value = (d', True)" "fileExt tmp \<noteq> ''.json''" "gm_ok files"
  shows "\<exists>files'. d' = Dir files' \<and> gm_ok files'
    \<and> (\<forall>f. fileExt f = ''.json'' \<longrightarrow> gm_get files' f =
        (if f = rowFile sha (r_SessionID value) then Some (Raw (Some (storedOf value))) else gm_get files f))"
proof -
  have t: "rowFile sha (r_SessionID value) \<noteq> tmp" using assms(2) fileExt_rowFile by metis
  have "\<not> faults f" if "f \<noteq> FRemove" for f
    using assms(1) that
    by (cases f) (auto simp: tableWrite_def writeStates_def Let_def split: if_splits)
  then show ?thesis using assms t
    by (auto simp: tableWrite_def writeStates_def Let_def renameFile_def fileAt_def putFile_def
        removeFile_def mkdirAll_def split: if_splits)
qed

text \<open>
  C31: a successful write is found again: when a table that could be opened is written a well-formed row,
  whose name no other session of the table has, and the identifiers of the rows and of the new one have different digests,
  then opening the table afterwards succeeds and returns the rows it held before, with the written row in place of the row
  of the same session. (What the file system holds after \<open>rename\<close> counts as stored: \<open>Sync\<close> and power loss are not modelled.)
\<close>

theorem write_then_open:
  assumes opened: "openTable sha (Dir files) = Some rows"
    and written: "tableWrite sha faults tmp (Dir files) value = (d', True)"
    and "gm_ok files" "fileExt tmp \<noteq> ''.json''" "row_ok value"
    and digests: "inj_on sha (insert (r_SessionID value) (r_SessionID ` set rows))"
    and fresh: "\<forall>r \<in> set rows. r_Name r = r_Name value \<longrightarrow> r_SessionID r = r_SessionID value"
  shows "\<exists>rows'. openTable sha d' = Some rows'
    \<and> set rows' = {r \<in> set rows. r_SessionID r \<noteq> r_SessionID value} \<union> {value}"
proof -
  let ?own = "rowFile sha (r_SessionID value)"
  from tableWrite_ok[OF written assms(4,3)] obtain files' where d': "d' = Dir files'" "gm_ok files'"
    and get: "\<And>f. fileExt f = ''.json'' \<Longrightarrow> gm_get files' f =
        (if f = ?own then Some (Raw (Some (storedOf value))) else gm_get files f)" by blast
  have own: "rowIn sha ?own (Raw (Some (storedOf value))) = Some value"
    using assms(5) by (rule rowIn_storedOf)
  have inr: "v \<in> set rows \<longleftrightarrow> (\<exists>c. gm_get files (rowFile sha (r_SessionID v)) = Some c
      \<and> rowIn sha (rowFile sha (r_SessionID v)) c = Some v)" for v
    using openTable_Some(1)[OF opened] gm_set_get[OF assms(3)] rowIn_file fileExt_rowFile by blast
  have key: "rowFile sha (r_SessionID v) = ?own \<longleftrightarrow> r_SessionID v = r_SessionID value" if "v \<in> set rows" for v
    using inj_onD[OF digests, of "r_SessionID v" "r_SessionID value"] that by (auto simp: rowFile_def)
  have json: "fileExt f = ''.json''" if "rowIn sha f c = Some v" for f c v
    using rowIn_file[OF that] fileExt_rowFile by simp
  have old: "v \<in> set rows" if "gm_get files f = Some c" "rowIn sha f c = Some v" for f c v
    using that rowIn_file[OF that(2)] inr by metis
  have new_or_old: "v = value \<or> v \<in> set rows \<and> r_SessionID v \<noteq> r_SessionID value"
    if "gm_get files' f = Some c" "rowIn sha f c = Some v" for f c v
  proof (cases "f = ?own")
    case True
    with get[OF json[OF that(2)]] that own show ?thesis by simp
  next
    case False
    with get[OF json[OF that(2)]] that(1) have "gm_get files f = Some c" by simp
    from old[OF this that(2)] False rowIn_file[OF that(2)] show ?thesis by auto
  qed
  have names: "f = g" if "gm_get files' f = Some c" "gm_get files' g = Some e" "rowIn sha f c = Some v"
    "rowIn sha g e = Some w" "r_Name v = r_Name w" for f c g e v w
  proof -
    have "inj_on r_Name (set rows)"
      using openTable_Some(3)[OF opened] by (simp add: distinct_map)
    then have "r_SessionID v = r_SessionID w"
      using new_or_old[OF that(1,3)] new_or_old[OF that(2,4)] that(5) fresh by (metis inj_onD)
    then show ?thesis using rowIn_file[OF that(3)] rowIn_file[OF that(4)] by simp
  qed
  have "\<exists>rows'. openTable sha (Dir files') = Some rows'"
  proof (rule openTable_exists[OF d'(2) _ names])
    show "rowIn sha f c \<noteq> None" if "gm_get files' f = Some c" "fileExt f = ''.json''" for f c
      using that get[OF that(2)] own openTable_Some(2)[OF opened] gm_get_in_set[of files f c]
      by (auto split: if_splits)
  qed
  then obtain rows' where rows': "openTable sha (Dir files') = Some rows'" by blast
  have loaded: "v \<in> set rows' \<longleftrightarrow> (\<exists>f c. gm_get files' f = Some c \<and> rowIn sha f c = Some v)" for v
    using openTable_Some(1)[OF rows'] gm_set_get[OF d'(2)] json by blast
  have kept: "v \<in> set rows'" if "v \<in> set rows" "r_SessionID v \<noteq> r_SessionID value" for v
  proof -
    from inr[of v] that(1) obtain c where "gm_get files (rowFile sha (r_SessionID v)) = Some c"
      "rowIn sha (rowFile sha (r_SessionID v)) c = Some v" by blast
    moreover have "gm_get files' (rowFile sha (r_SessionID v)) = gm_get files (rowFile sha (r_SessionID v))"
      using get[OF fileExt_rowFile] key[OF that(1)] that(2) by simp
    ultimately show ?thesis using loaded[of v] by auto
  qed
  have "gm_get files' ?own = Some (Raw (Some (storedOf value)))" using get[OF fileExt_rowFile] by simp
  with own have "value \<in> set rows'" using loaded[of "value"] by blast
  with kept new_or_old loaded have "set rows' = {r \<in> set rows. r_SessionID r \<noteq> r_SessionID value} \<union> {value}"
    by blast
  with rows' d'(1) show ?thesis by blast
qed

definition demo_files :: "(gostring, content) gomap" where
  "demo_files = gm_set (rowFile (take 3) (r_SessionID demo_row)) (Raw (Some (storedOf demo_row))) []"

definition demo_second :: row where
  "demo_second = demo_row\<lparr>r_SessionID := ''b@h'', r_Name := ''boss/b@h''\<rparr>"

theorem write_then_open_witness:
  "\<exists>rows'. openTable (take 3) (fst (tableWrite (take 3) (\<lambda>f. False) ''.row-1'' (Dir demo_files) demo_second)) = Some rows'
    \<and> set rows' = {demo_row, demo_second}"
proof -
  have ok: "row_ok demo_row" "row_ok demo_second"
    by (simp_all add: row_ok_def demo_second_def demo_row_def demo_policy_def policyEncodes_def)
  have one: "openTable (take 3) (Dir demo_files) = Some [demo_row]"
    using rowIn_storedOf[OF ok(1), of "take 3"] fileExt_rowFile[of "take 3" "r_SessionID demo_row"]
    by (simp add: openTable_def demo_files_def gm_set_def)
  have "\<exists>rows'. openTable (take 3) (fst (tableWrite (take 3) (\<lambda>f. False) ''.row-1'' (Dir demo_files) demo_second)) = Some rows'
    \<and> set rows' = {r \<in> set [demo_row]. r_SessionID r \<noteq> r_SessionID demo_second} \<union> {demo_second}"
  proof (rule write_then_open[OF one])
    show "tableWrite (take 3) (\<lambda>f. False) ''.row-1'' (Dir demo_files) demo_second
        = (fst (tableWrite (take 3) (\<lambda>f. False) ''.row-1'' (Dir demo_files) demo_second), True)"
      by (simp add: tableWrite_def writeStates_def Let_def demo_second_def demo_row_def demo_policy_def)
    show "gm_ok demo_files" by (simp add: demo_files_def)
    show "fileExt ''.row-1'' \<noteq> ''.json''" by (simp add: fileExt_def)
    show "row_ok demo_second" by (rule ok(2))
    show "inj_on (take 3) (insert (r_SessionID demo_second) (r_SessionID ` set [demo_row]))"
      by (simp add: demo_second_def demo_row_def)
    show "\<forall>r \<in> set [demo_row]. r_Name r = r_Name demo_second \<longrightarrow> r_SessionID r = r_SessionID demo_second"
      by (simp add: demo_second_def demo_row_def)
  qed
  moreover have "{r \<in> set [demo_row]. r_SessionID r \<noteq> r_SessionID demo_second} \<union> {demo_second} = {demo_row, demo_second}"
    by (auto simp: demo_second_def demo_row_def)
  ultimately show ?thesis by simp
qed

end
