(* ===== verification/Conn.thy ===== *)
theory Conn
  imports Protocol
begin

text \<open>
  The connection of a session (\<open>bus/internal/conn/conn.go\<close>): a bounded inbox other goroutines
  post events to, a bounded outbox the writer drains, and line framing on the socket.

  The two channels are lists with the capacity \<open>OutboxSize\<close>; \<open>c_outClosed\<close> says that the outbox
  channel has been closed, \<open>c_done\<close> that the reader has returned, \<open>c_fdClosed\<close> that the socket is
  closed. A frame is of any type here: the daemon's connections carry its decoded frames, and the
  framing below works on bytes. Sending on or closing a closed Go channel panics: \<open>c_panic\<close> records that, and the
  invariant \<open>conn_ok\<close> says that it never happens.
\<close>

abbreviation OutboxSize :: nat where "OutboxSize \<equiv> 256"

record ('e, 'f) conn =
  c_inbox :: "'e list"
  c_outbox :: "'f list"
  c_done :: bool
  c_fdClosed :: bool
  c_finishing :: bool
  c_outClosed :: bool
  c_panic :: bool

section \<open>Operations\<close>

definition StartConn :: "('e, 'f) conn" where
  "StartConn = \<lparr>c_inbox = [], c_outbox = [], c_done = False, c_fdClosed = False, c_finishing = False,
                c_outClosed = False, c_panic = False\<rparr>"

definition Post :: "'e \<Rightarrow> ('e, 'f) conn \<Rightarrow> ('e, 'f) conn \<times> bool" where
  "Post event c =
     (if c_done c then (c, False)
      else if length (c_inbox c) < OutboxSize then (c\<lparr>c_inbox := c_inbox c @ [event]\<rparr>, True)
      else (c, False))"

definition CloseConn :: "('e, 'f) conn \<Rightarrow> ('e, 'f) conn" where
  "CloseConn c = c\<lparr>c_fdClosed := True\<rparr>"

text \<open>A send on the outbox channel: it panics on a closed channel.\<close>

definition outboxPut :: "'f \<Rightarrow> ('e, 'f) conn \<Rightarrow> ('e, 'f) conn" where
  "outboxPut frame c =
     (if c_outClosed c then c\<lparr>c_panic := True\<rparr> else c\<lparr>c_outbox := c_outbox c @ [frame]\<rparr>)"

definition outboxClose :: "('e, 'f) conn \<Rightarrow> ('e, 'f) conn" where
  "outboxClose c = (if c_outClosed c then c\<lparr>c_panic := True\<rparr> else c\<lparr>c_outClosed := True\<rparr>)"

definition Send :: "'f \<Rightarrow> ('e, 'f) conn \<Rightarrow> ('e, 'f) conn \<times> bool" where
  "Send frame c =
     (if c_finishing c then (c, False)
      else if c_done c then (c, False)
      else if length (c_outbox c) < OutboxSize \<or> c_outClosed c then (outboxPut frame c, True)
      else (CloseConn c, False))"

definition Finish :: "'f \<Rightarrow> ('e, 'f) conn \<Rightarrow> ('e, 'f) conn \<times> bool" where
  "Finish frame c0 =
     (if c_finishing c0 then (c0, False)
      else if c_done c0 then (c0, False)
      else
        let c = c0\<lparr>c_finishing := True\<rparr> in
        if length (c_outbox c) < OutboxSize \<or> c_outClosed c
        then (outboxClose (outboxPut frame c), True)
        else (CloseConn c, False))"

definition OwnerClosed :: "('e, 'f) conn \<Rightarrow> ('e, 'f) conn" where
  "OwnerClosed c =
     (if \<not> c_finishing c then outboxClose (c\<lparr>c_finishing := True\<rparr>) else c)"

text \<open>
  One step of the writer goroutine and of the reader goroutine. The writer's result says which
  frame it hands to \<open>writeFull\<close>; the reader posts a decoded line or, at the end, the closing
  event, blocking while the inbox is full.
\<close>

datatype 'f write_action = WriteFrame 'f | WriterStops | WriterWaits

definition writeStep :: "('e, 'f) conn \<Rightarrow> ('e, 'f) conn \<times> 'f write_action" where
  "writeStep c =
     (if c_done c then (c, WriterStops)
      else case c_outbox c of
             frame # rest \<Rightarrow> (c\<lparr>c_outbox := rest\<rparr>, WriteFrame frame)
           | [] \<Rightarrow> if c_outClosed c then (CloseConn c, WriterStops) else (c, WriterWaits))"

definition readFailed :: "('e, 'f) conn \<Rightarrow> ('e, 'f) conn" where
  "readFailed c = (CloseConn c)\<lparr>c_done := True\<rparr>"

text \<open>\<open>writeFull\<close> over a list of results of \<open>Write\<close>: bytes accepted, or an error.\<close>

datatype write_result = Wrote nat | WriteFailed

datatype write_end = WriteOk | WriteErr | ShortWrite | MoreWrites

fun writeFull :: "write_result list \<Rightarrow> gostring \<Rightarrow> gostring \<times> write_end" where
  "writeFull results [] = ([], WriteOk)"
| "writeFull [] body = ([], MoreWrites)"
| "writeFull (WriteFailed # _) body = ([], WriteErr)"
| "writeFull (Wrote n # results) body =
     (if n = 0 then ([], ShortWrite)
      else let (sent, e) = writeFull results (drop n body) in (take n body @ sent, e))"

text \<open>
  The reader's framing: \<open>ReadSlice\<close> on a buffer of \<open>MaxFrameBytes\<close> yields the bytes up to the
  first line feed, or an error when the buffer is full or the input ends first.
\<close>

datatype read_end = InputEnds | BufferFull

fun readLines :: "nat \<Rightarrow> gostring \<Rightarrow> gostring \<Rightarrow> gostring list \<times> read_end" where
  "readLines limit buf [] = ([], InputEnds)"
| "readLines limit buf (b # bs) =
     (if b = CHR 0x0A then (let (ls, e) = readLines limit [] bs in (buf # ls, e))
      else if length buf + 1 \<ge> limit then ([], BufferFull)
      else readLines limit (buf @ [b]) bs)"

definition readFrames :: "gostring \<Rightarrow> gostring list \<times> read_end" where
  "readFrames input = readLines MaxFrameBytes [] input"

section \<open>No panic, bounded queues\<close>

definition conn_ok :: "('e, 'f) conn \<Rightarrow> bool" where
  "conn_ok c \<longleftrightarrow> \<not> c_panic c \<and> (c_outClosed c \<longrightarrow> c_finishing c)
     \<and> length (c_outbox c) \<le> OutboxSize \<and> length (c_inbox c) \<le> OutboxSize"

lemmas conn_defs = Post_def CloseConn_def outboxPut_def outboxClose_def Send_def Finish_def
  OwnerClosed_def writeStep_def readFailed_def

text \<open>The contract of a connection: what its users rely on.\<close>

locale connection =
  fixes post :: "'e \<Rightarrow> 'c \<Rightarrow> 'c \<times> bool"
    and send :: "'f \<Rightarrow> 'c \<Rightarrow> 'c \<times> bool"
    and finish :: "'f \<Rightarrow> 'c \<Rightarrow> 'c \<times> bool"
    and inbox :: "'c \<Rightarrow> 'e list"
    and outbox :: "'c \<Rightarrow> 'f list"
    and finished :: "'c \<Rightarrow> bool"
    and invar :: "'c \<Rightarrow> bool"
  assumes post_inbox: "post e c = (c', b) \<Longrightarrow> inbox c' = (if b then inbox c @ [e] else inbox c) \<and> outbox c' = outbox c"
    and post_invar: "invar c \<Longrightarrow> post e c = (c', b) \<Longrightarrow> invar c'"
    and send_outbox: "invar c \<Longrightarrow> send f c = (c', b) \<Longrightarrow>
          invar c' \<and> inbox c' = inbox c \<and> outbox c' = (if b then outbox c @ [f] else outbox c)
          \<and> (b \<longrightarrow> \<not> finished c) \<and> (finished c' \<longleftrightarrow> finished c)"
    and finish_outbox: "invar c \<Longrightarrow> finish f c = (c', b) \<Longrightarrow>
          invar c' \<and> inbox c' = inbox c \<and> outbox c' = (if b then outbox c @ [f] else outbox c)
          \<and> (b \<longrightarrow> \<not> finished c \<and> finished c')"
begin

text \<open>A finished connection accepts nothing more.\<close>

lemma finished_refuses:
  assumes "invar c" "finished c"
  shows "\<not> snd (send g c) \<and> outbox (fst (send g c)) = outbox c \<and> \<not> snd (finish g c) \<and> outbox (fst (finish g c)) = outbox c"
proof -
  obtain c1 b c2 d where "send g c = (c1, b)" "finish g c = (c2, d)" by fastforce
  with send_outbox[OF assms(1), of g c1 b] finish_outbox[OF assms(1), of g c2 d] assms(2) show ?thesis by auto
qed

end

interpretation wire: connection Post Send Finish c_inbox c_outbox c_finishing conn_ok
  by unfold_locales
    (auto simp: conn_defs conn_ok_def Let_def split: if_splits)

lemma conn_ok_start: "conn_ok StartConn"
  by (simp add: conn_ok_def StartConn_def)

lemma conn_ok_ops:
  assumes "conn_ok c"
  shows "conn_ok (fst (Post e c))" "conn_ok (fst (Send f c))" "conn_ok (fst (Finish f c))"
    "conn_ok (OwnerClosed c)" "conn_ok (CloseConn c)" "conn_ok (fst (writeStep c))" "conn_ok (readFailed c)"
  using assms by (auto simp: conn_defs conn_ok_def Let_def split: list.splits)

text \<open>
  The steps of a connection: its owner's calls, posts, the end of the reader (\<open>conn_call\<close>), and the
  writer. A run \<open>conn_run c ws d\<close> leads from \<open>c\<close> to \<open>d\<close> by any steps, and \<open>ws\<close> are the frames the
  writer has handed to the socket meanwhile.
\<close>

inductive conn_call :: "('e, 'f) conn \<Rightarrow> ('e, 'f) conn \<Rightarrow> bool" where
  post: "conn_call c (fst (Post e c))"
| send: "conn_call c (fst (Send f c))"
| finish: "conn_call c (fst (Finish f c))"
| owner_closed: "conn_call c (OwnerClosed c)"
| close_fd: "conn_call c (CloseConn c)"
| reader_ends: "conn_call c (readFailed c)"
| owner_takes: "c_inbox c = e # es \<Longrightarrow> conn_call c (c\<lparr>c_inbox := es\<rparr>)"

inductive conn_step :: "('e, 'f) conn \<Rightarrow> ('e, 'f) conn \<Rightarrow> bool" where
  call: "conn_call c d \<Longrightarrow> conn_step c d"
| writer: "conn_step c (fst (writeStep c))"

definition handedOver :: "'f write_action \<Rightarrow> 'f list" where
  "handedOver a = (case a of WriteFrame f \<Rightarrow> [f] | _ \<Rightarrow> [])"

inductive conn_run :: "('e, 'f) conn \<Rightarrow> 'f list \<Rightarrow> ('e, 'f) conn \<Rightarrow> bool" for c where
  run_start: "conn_run c [] c"
| run_call: "conn_run c ws d \<Longrightarrow> conn_call d e \<Longrightarrow> conn_run c ws e"
| run_write: "conn_run c ws d \<Longrightarrow> conn_run c (ws @ handedOver (snd (writeStep d))) (fst (writeStep d))"

lemma conn_ok_call: "conn_ok c \<Longrightarrow> conn_call c d \<Longrightarrow> conn_ok d"
  by (erule conn_call.cases) (auto simp: conn_ok_ops, simp add: conn_ok_def)

interpretation conn_sys: transition_system "\<lambda>c. c = StartConn" conn_step conn_ok
proof unfold_locales
  show "c = StartConn \<Longrightarrow> conn_ok c" for c :: "('e, 'f) conn" by (simp add: conn_ok_start)
  show "conn_ok c \<Longrightarrow> conn_step c d \<Longrightarrow> conn_ok d" for c d :: "('e, 'f) conn"
    by (erule conn_step.cases) (auto simp: conn_ok_ops conn_ok_call)
qed

text \<open>
  C36: a connection never sends on a closed channel and never closes its outbox twice, whatever
  the order of its owner's calls, of posts and of the reader and writer; both queues stay within
  their capacity.
\<close>

theorem conn_never_panics:
  "reach (\<lambda>c. c = StartConn) conn_step c \<Longrightarrow>
     \<not> c_panic c \<and> length (c_inbox c) \<le> OutboxSize \<and> length (c_outbox c) \<le> OutboxSize"
  using conn_sys.reach_inv by (fastforce simp: conn_ok_def)

theorem conn_never_panics_witness:
  "\<not> c_panic (OwnerClosed (fst (Finish ''x'' (StartConn :: (nat, string) conn))))
   \<and> length (c_inbox (OwnerClosed (fst (Finish ''x'' (StartConn :: (nat, string) conn))))) \<le> OutboxSize
   \<and> length (c_outbox (OwnerClosed (fst (Finish ''x'' (StartConn :: (nat, string) conn))))) \<le> OutboxSize"
proof -
  have "reach (\<lambda>c. c = StartConn) conn_step (StartConn :: (nat, string) conn)" by (rule reach_init) simp
  then have "reach (\<lambda>c. c = StartConn) conn_step (fst (Finish ''x'' (StartConn :: (nat, string) conn)))"
    by (rule reach_step) (intro conn_step.call conn_call.finish)
  then have "reach (\<lambda>c. c = StartConn) conn_step (OwnerClosed (fst (Finish ''x'' (StartConn :: (nat, string) conn))))"
    by (rule reach_step) (intro conn_step.call conn_call.owner_closed)
  then show ?thesis by (rule conn_never_panics)
qed

lemma finished_call:
  assumes "conn_ok c" "c_finishing c" "conn_call c d"
  shows "c_finishing d \<and> c_outbox d = c_outbox c"
  using assms(3,1,2)
  by cases (auto simp: conn_defs Let_def)

lemma finished_run:
  assumes "conn_run c ws d" "conn_ok c" "c_finishing c"
  shows "conn_ok d \<and> c_finishing d \<and> ws @ c_outbox d = c_outbox c"
  using assms(1)
proof induction
  case (run_call ws d e)
  then show ?case using conn_ok_call[of d e] finished_call[of d e] by simp
next
  case (run_write ws d)
  moreover have "handedOver (snd (writeStep d)) @ c_outbox (fst (writeStep d)) = c_outbox d"
    "c_finishing (fst (writeStep d)) = c_finishing d"
    by (auto simp: writeStep_def CloseConn_def handedOver_def split: list.split)
  ultimately show ?case by (simp add: conn_ok_ops)
qed (use assms(2,3) in simp)

text \<open>
  C35: the frame of a successful \<open>Finish\<close> is the last one the peer can receive: in every later state of
  the connection, whatever its owner, its reader and its writer have done since, the frames handed to the socket
  and those still waiting are exactly the ones that were waiting before, in order, followed by the last frame,
  and no further \<open>Send\<close> or \<open>Finish\<close> is accepted.
\<close>

theorem finish_frame_is_last:
  assumes "reach (\<lambda>c. c = StartConn) conn_step c" "Finish f c = (c1, True)" "conn_run c1 ws c2"
  shows "ws @ c_outbox c2 = c_outbox c @ [f] \<and> \<not> snd (Send g c2) \<and> \<not> snd (Finish g c2)
     \<and> c_outbox (fst (Send g c2)) = c_outbox c2 \<and> c_outbox (fst (Finish g c2)) = c_outbox c2"
proof -
  have ok: "conn_ok c" using conn_sys.reach_inv[OF assms(1)] .
  have c1: "conn_ok c1" "c_finishing c1" "c_outbox c1 = c_outbox c @ [f]"
    using wire.finish_outbox[OF ok assms(2)] by simp_all
  note r = finished_run[OF assms(3) c1(1,2)]
  then show ?thesis using wire.finished_refuses[of c2 g] c1(3) by simp
qed

theorem finish_frame_is_last_witness:
  "\<not> snd (Send ''x'' (fst (writeStep (CloseConn (fst (Finish ''bye'' (StartConn :: (nat, string) conn)))))))
   \<and> handedOver (snd (writeStep (CloseConn (fst (Finish ''bye'' (StartConn :: (nat, string) conn)))))) = [''bye'']"
proof -
  let ?c1 = "fst (Finish ''bye'' (StartConn :: (nat, string) conn))"
  have r: "reach (\<lambda>c. c = StartConn) conn_step (StartConn :: (nat, string) conn)" by (rule reach_init) simp
  have f: "Finish ''bye'' (StartConn :: (nat, string) conn) = (?c1, True)"
    by (simp add: conn_defs StartConn_def)
  have run: "conn_run ?c1 ([] @ handedOver (snd (writeStep (CloseConn ?c1)))) (fst (writeStep (CloseConn ?c1)))"
    by (rule run_write) (rule run_call[OF run_start conn_call.close_fd])
  have "c_outbox (fst (writeStep (CloseConn ?c1))) = []" by (simp add: conn_defs StartConn_def)
  then show ?thesis using finish_frame_is_last[OF r f run, of "''x''"] by (simp add: StartConn_def)
qed

section \<open>Framing\<close>

lemma writeFull_prefix: "writeFull results body = (sent, e) \<Longrightarrow> \<exists>rest. body = sent @ rest \<and> (e = WriteOk \<longrightarrow> rest = [])"
proof (induction results body arbitrary: sent e rule: writeFull.induct)
  case (4 n results b bs)
  show ?case
  proof (cases "n = 0")
    case True
    with "4.prems" show ?thesis by auto
  next
    case False
    obtain s f where s: "writeFull results (drop n (b # bs)) = (s, f)"
      by (cases "writeFull results (drop n (b # bs))")
    from "4.IH"[OF False s] obtain rest where "drop n (b # bs) = s @ rest" "f = WriteOk \<longrightarrow> rest = []"
      by blast
    moreover have "sent = take n (b # bs) @ s" "e = f" using "4.prems" False s by auto
    ultimately show ?thesis using append_take_drop_id[of n "b # bs"] by (metis append.assoc)
  qed
qed auto

lemma readLines_line:
  assumes "CHR 0x0A \<notin> set l" "length buf + length l < limit"
  shows "readLines limit buf (l @ CHR 0x0A # rest) =
     (let (ls, e) = readLines limit [] rest in ((buf @ l) # ls, e))"
  using assms
proof (induction l arbitrary: buf)
  case Nil
  then show ?case by simp
next
  case (Cons b l)
  then show ?case using Cons.IH[of "buf @ [b]"] by (cases "b = CHR 0x0A") auto
qed

text \<open>
  framing round trip: if the frames sent are lines without an inner line feed and within the
  size limit, the reader of the other side splits the stream back into exactly these frames.
\<close>

theorem frames_round_trip:
  assumes "\<forall>f \<in> set frames. CHR 0x0A \<notin> set f \<and> length f + 1 \<le> MaxFrameBytes"
  shows "readFrames (concat (map (\<lambda>f. f @ [CHR 0x0A]) frames)) = (frames, InputEnds)"
proof -
  have "readLines MaxFrameBytes [] (concat (map (\<lambda>f. f @ [CHR 0x0A]) frames)) = (frames, InputEnds)"
    using assms
  proof (induction frames)
    case Nil
    then show ?case by simp
  next
    case (Cons f fs)
    then show ?case
      using readLines_line[of f "[]" MaxFrameBytes "concat (map (\<lambda>f. f @ [CHR 0x0A]) fs)"] by simp
  qed
  then show ?thesis by (simp add: readFrames_def)
qed

theorem frames_round_trip_witness:
  "readFrames (concat (map (\<lambda>f. f @ [CHR 0x0A]) [''ab'', [], ''c''])) = ([''ab'', [], ''c''], InputEnds)"
  by (rule frames_round_trip) simp

text \<open>
  \<open>writeFull\<close> writes a prefix of the frame, and the whole frame exactly when it reports
  success.
\<close>

theorem writeFull_complete:
  "\<exists>sent e rest. writeFull results body = (sent, e) \<and> body = sent @ rest
     \<and> (e = WriteOk \<longleftrightarrow> rest = [])"
proof -
  obtain sent e where w: "writeFull results body = (sent, e)" by (cases "writeFull results body")
  from writeFull_prefix[OF w] obtain rest where r: "body = sent @ rest" "e = WriteOk \<longrightarrow> rest = []"
    by blast
  have "sent = body \<Longrightarrow> e = WriteOk"
    using w
  proof (induction results body arbitrary: sent e rule: writeFull.induct)
    case (4 n results b bs)
    show ?case
    proof (cases "n = 0")
      case True
      with "4.prems" show ?thesis by auto
    next
      case False
      obtain s f where s: "writeFull results (drop n (b # bs)) = (s, f)"
        by (cases "writeFull results (drop n (b # bs))")
      then have "sent = take n (b # bs) @ s" "e = f" using "4.prems"(2) False by auto
      with "4.prems"(1) have "s = drop n (b # bs)"
        by (metis append_take_drop_id same_append_eq)
      with "4.IH"[OF False this s] \<open>e = f\<close> show ?thesis by simp
    qed
  qed auto
  with w r show ?thesis by (intro exI[of _ sent] exI[of _ e] exI[of _ rest]) auto
qed

end
