(* ===== verification/Naming.thy ===== *)
theory Naming
  imports Protocol
begin

text \<open>
  Names, hosts and groups: the helpers of the daemon (\<open>bus/internal/daemon/helpers.go\<close>, the
  small helpers of \<open>handlers.go\<close>) and of the federation package
  (\<open>bus/internal/federation/forward.go\<close>). Identifiers are \<open>part@host\<close>: the daemon qualifies
  what its own sessions declare and the hub checks what a host claims to own, so the two
  packages have to agree on where the host starts and on what a valid part is.

  The Unicode printability table beyond Latin-1 is data of the Unicode consortium, not of
  this program: it is the parameter \<open>hi\<close> of every validity predicate.
\<close>

section \<open>Characters\<close>

text \<open>\<open>unicode.IsPrint\<close>: Latin-1 by table, the rest by the parameter.\<close>

definition isPrint :: "(nat \<Rightarrow> bool) \<Rightarrow> nat \<Rightarrow> bool" where
  "isPrint hi r =
     (if r \<le> 255 then (32 \<le> r \<and> r \<le> 126) \<or> (161 \<le> r \<and> r \<noteq> 173) else hi r)"

text \<open>\<open>unicode.IsSpace\<close>.\<close>

definition isSpace :: "nat \<Rightarrow> bool" where
  "isSpace r \<longleftrightarrow>
     (9 \<le> r \<and> r \<le> 13) \<or> r = 32 \<or> r = 133 \<or> r = 160 \<or> r = 5760
     \<or> (8192 \<le> r \<and> r \<le> 8202) \<or> r = 8232 \<or> r = 8233 \<or> r = 8239 \<or> r = 8287 \<or> r = 12288"

definition lowerAlnum :: "char \<Rightarrow> bool" where
  "lowerAlnum c \<longleftrightarrow>
     (let n = of_char c :: nat in (97 \<le> n \<and> n \<le> 122) \<or> (48 \<le> n \<and> n \<le> 57))"

section \<open>The daemon's helpers (\<open>helpers.go\<close>)\<close>

text \<open>
  \<open>hostPattern\<close> is \<open>^[a-z0-9][a-z0-9-]{0,31}$\<close>: one class character, then between 0 and 31
  characters of the class with \<open>-\<close>.
\<close>

definition validHost :: "gostring \<Rightarrow> bool" where
  "validHost value =
     (case value of
        [] \<Rightarrow> False
      | c # cs \<Rightarrow> lowerAlnum c \<and> length cs \<le> 31 \<and> (\<forall>x \<in> set cs. lowerAlnum x \<or> x = CHR ''-''))"

definition validIDPart :: "(nat \<Rightarrow> bool) \<Rightarrow> gostring \<Rightarrow> bool" where
  "validIDPart hi value =
     (let len = runeCount value in
      len > 0 \<and> len \<le> 128 \<and> \<not> (\<exists>r \<in> set (runes value). \<not> isPrint hi r \<or> isSpace r))"

definition validNamePart :: "(nat \<Rightarrow> bool) \<Rightarrow> gostring \<Rightarrow> bool" where
  "validNamePart hi value =
     (let len = runeCount value in
      len > 0 \<and> len \<le> 128 \<and> \<not> (\<exists>r \<in> set (runes value). \<not> isPrint hi r))"

definition qualify :: "gostring \<Rightarrow> gostring \<Rightarrow> gostring" where
  "qualify value host = (if value = [] then [] else value @ ''@'' @ host)"

definition unqualify :: "gostring \<Rightarrow> gostring" where
  "unqualify value =
     (case lastIndexByte value CHR ''@'' of
        Some index \<Rightarrow> take index value
      | None \<Rightarrow> value)"

definition canonicalTarget ::
    "gostring \<Rightarrow> gostring \<Rightarrow> (gostring \<Rightarrow> bool) \<Rightarrow> gostring \<times> gostring \<times> int" where
  "canonicalTarget value local valid =
     (case lastIndexByte value CHR ''@'' of
        Some index \<Rightarrow>
          if \<not> valid (take index value) \<or> \<not> validHost (drop (index + 1) value)
          then ([], [], InvalidFrame)
          else (value, drop (index + 1) value, 0)
      | None \<Rightarrow>
          if \<not> valid value then ([], [], InvalidFrame)
          else (qualify value local, local, 0))"

definition canonical :: "gostring \<Rightarrow> gostring \<Rightarrow> (gostring \<Rightarrow> bool) \<Rightarrow> gostring \<times> int" where
  "canonical value host valid =
     (case lastIndexByte value CHR ''@'' of
        Some index \<Rightarrow>
          if \<not> valid (take index value) then ([], InvalidFrame)
          else if \<not> validHost (drop (index + 1) value) \<or> drop (index + 1) value \<noteq> host
          then ([], UnknownHost)
          else (value, 0)
      | None \<Rightarrow>
          if \<not> valid value then ([], InvalidFrame)
          else (qualify value host, 0))"

definition shares :: "gostring list \<Rightarrow> gostring list \<Rightarrow> bool" where
  "shares left right \<longleftrightarrow> (\<exists>value \<in> set left. value \<in> set right)"

definition orderedPeerGroups :: "gostring list \<Rightarrow> gostring \<Rightarrow> gostring list" where
  "orderedPeerGroups declared private =
     (if private \<notin> set declared then declared @ [private] else declared)"

text \<open>The first field set in the request that the worker does not support, or empty.\<close>

fun unsupported_from :: "(gostring \<times> bool) list \<Rightarrow> gostring list \<Rightarrow> gostring" where
  "unsupported_from [] supported = []"
| "unsupported_from ((name, isset) # more_fields) supported =
     (if isset \<and> name \<notin> set supported then name else unsupported_from more_fields supported)"

definition unsupported :: "OpenOptions \<Rightarrow> gostring list \<Rightarrow> gostring" where
  "unsupported opts supported =
     unsupported_from
       [(''cwd'', oo_Cwd opts \<noteq> []),
        (''permission_mode'', oo_PermissionMode opts \<noteq> []),
        (''model'', oo_Model opts \<noteq> []),
        (''reasoning_effort'', oo_ReasoningEffort opts \<noteq> []),
        (''arguments'', length (oo_Arguments opts) \<noteq> 0)]
       supported"

text \<open>
  \<open>randomID\<close>: twelve random bytes, each reduced to the 36 letter alphabet. The bytes of
  \<open>crypto/rand\<close> are an argument.
\<close>

definition alphabet :: gostring where
  "alphabet = ''abcdefghijklmnopqrstuvwxyz0123456789''"

definition randomID :: "gostring \<Rightarrow> nat list \<Rightarrow> gostring" where
  "randomID prefix bytes = prefix @ ''-'' @ map (\<lambda>b. alphabet ! (b mod length alphabet)) bytes"

section \<open>Small helpers of the request handlers (\<open>handlers.go\<close>)\<close>

fun unique_from :: "gostring list \<Rightarrow> gostring list \<Rightarrow> gostring list" where
  "unique_from result [] = result"
| "unique_from result (value # values) =
     unique_from (if value \<in> set result then result else result @ [value]) values"

definition unique :: "gostring list \<Rightarrow> gostring list" where
  "unique values = unique_from [] values"

definition reason :: "int \<Rightarrow> gostring \<Rightarrow> gostring" where
  "reason code fallback =
     (if code = UnknownHost then ''unknown_host''
      else if code = Busy then ''busy''
      else if code = NotConnected then ''no_receipt''
      else if code = UnknownSession then ''unknown_session''
      else fallback)"

definition internalData :: "int \<Rightarrow> gostring option" where
  "internalData code = (if code = Internal then Some ''daemon shutting down'' else None)"

section \<open>The federation's helpers (\<open>federation/forward.go\<close>)\<close>

definition validToken :: "gostring \<Rightarrow> bool" where
  "validToken value =
     (if length value = 0 \<or> length value > 32 \<or> \<not> lowerAlnum (value ! 0) then False
      else \<not> (\<exists>character \<in> set (drop 1 value).
                character \<noteq> CHR ''-'' \<and> \<not> lowerAlnum character))"

definition fedValidHost :: "gostring \<Rightarrow> bool" where
  "fedValidHost value \<longleftrightarrow> value \<noteq> ''local'' \<and> validToken value"

text \<open>\<open>suffix\<close> returns the host or an error (\<open>None\<close>).\<close>

definition suffix :: "gostring \<Rightarrow> gostring option" where
  "suffix value =
     (case lastIndexByte value CHR ''@'' of
        None \<Rightarrow> None
      | Some index \<Rightarrow>
          if index = 0 \<or> \<not> fedValidHost (drop (index + 1) value) then None
          else Some (drop (index + 1) value))"

definition ownedPart :: "(nat \<Rightarrow> bool) \<Rightarrow> gostring \<Rightarrow> gostring \<Rightarrow> bool \<Rightarrow> bool" where
  "ownedPart hi value host spaces =
     (case lastIndexByte value CHR ''@'' of
        None \<Rightarrow> False
      | Some index \<Rightarrow>
          if index = 0 \<or> drop (index + 1) value \<noteq> host then False
          else let part = take index value; len = runeCount part in
               len > 0 \<and> len \<le> 128
               \<and> \<not> (\<exists>r \<in> set (runes part). \<not> isPrint hi r \<or> \<not> spaces \<and> isSpace r))"

fun uniqueStrings_from :: "gostring set \<Rightarrow> gostring list \<Rightarrow> bool" where
  "uniqueStrings_from seen [] = True"
| "uniqueStrings_from seen (value # values) =
     (if value = [] \<or> value \<in> seen then False
      else uniqueStrings_from (insert value seen) values)"

definition uniqueStrings :: "gostring list \<Rightarrow> bool" where
  "uniqueStrings values = uniqueStrings_from {} values"

section \<open>Hosts and qualified names\<close>

lemma lowerAlnum_not_at: "\<not> lowerAlnum CHR ''@''"
  by (simp add: lowerAlnum_def)

lemma validHost_no_at: "validHost h \<Longrightarrow> CHR ''@'' \<notin> set h"
  using lowerAlnum_not_at by (auto simp: validHost_def split: list.splits)

lemma validHost_nonempty: "validHost h \<Longrightarrow> h \<noteq> []"
  by (auto simp: validHost_def)

lemma validHost_length: "validHost h \<Longrightarrow> length h \<le> 32"
  by (auto simp: validHost_def split: list.splits)

lemma validHost_validToken: "validHost h = validToken h"
  by (cases h) (auto simp: validHost_def validToken_def)

lemma lastIndexByte_qualified:
  "validHost h \<Longrightarrow> lastIndexByte (v @ CHR ''@'' # h) CHR ''@'' = Some (length v)"
  by (simp add: lastIndexByte_append validHost_no_at)

lemma unqualify_qualify: "validHost h \<Longrightarrow> unqualify (qualify v h) = v"
  by (simp add: unqualify_def qualify_def lastIndexByte_qualified)

lemma qualify_inj: "validHost h \<Longrightarrow> qualify v h = qualify w h \<longleftrightarrow> v = w"
  by (metis unqualify_qualify)

lemma qualify_eq_split:
  assumes "lastIndexByte s CHR ''@'' = Some i" "i \<noteq> 0"
  shows "s = qualify (take i s) (drop (Suc i) s)"
proof -
  from assms(1) have i: "i < length s" by (simp add: lastIndexByte_Some)
  with assms(2) have "take i s \<noteq> []" by auto
  moreover from assms(1) have "s = take i s @ CHR ''@'' # drop (Suc i) s"
    using lastIndexByte_split by blast
  ultimately show ?thesis by (simp add: qualify_def)
qed

section \<open>The contract of a part validator\<close>

text \<open>
  \<open>canonicalTarget\<close> and \<open>canonical\<close> take the validity predicate of the part as an argument. All
  they need of it is that the empty part is refused; what they return is then a qualified
  name with a valid part and a valid host, and applying them again changes nothing.
\<close>

locale part_validator =
  fixes valid :: "gostring \<Rightarrow> bool"
  assumes empty_invalid: "\<not> valid []"
begin

lemma canonicalTarget_ok:
  assumes "canonicalTarget v local valid = (c, h, 0)" and "validHost local"
  shows "\<exists>p. valid p \<and> validHost h \<and> c = qualify p h \<and> (v = c \<or> v = p \<and> h = local)"
proof (cases "lastIndexByte v CHR ''@''")
  case None
  with assms show ?thesis by (auto simp: canonicalTarget_def split: if_splits)
next
  case (Some i)
  with assms have *: "valid (take i v)" "validHost (drop (Suc i) v)" "c = v" "h = drop (Suc i) v"
    by (auto simp: canonicalTarget_def split: if_splits)
  then have "i \<noteq> 0" using empty_invalid by (metis take_0)
  with Some have "v = qualify (take i v) (drop (Suc i) v)" by (simp add: qualify_eq_split)
  with * show ?thesis by auto
qed

lemma canonicalTarget_qualified:
  assumes "valid p" "validHost h"
  shows "canonicalTarget (qualify p h) local valid = (qualify p h, h, 0)"
proof -
  from assms(1) have "p \<noteq> []" using empty_invalid by auto
  with assms show ?thesis
    by (simp add: canonicalTarget_def qualify_def lastIndexByte_qualified)
qed

lemma canonicalTarget_idem:
  assumes "canonicalTarget v local valid = (c, h, 0)" and "validHost local"
  shows "canonicalTarget c other valid = (c, h, 0)"
  using canonicalTarget_ok[OF assms] canonicalTarget_qualified by auto

lemma canonical_canonicalTarget:
  assumes "validHost local"
  shows "canonical v local valid = (c, 0) \<longleftrightarrow> canonicalTarget v local valid = (c, local, 0)"
  using assms by (auto simp: canonical_def canonicalTarget_def split: option.splits if_splits)

end

lemma validIDPart_empty: "\<not> validIDPart hi []"
  by (simp add: validIDPart_def runeCount_def)

lemma validNamePart_empty: "\<not> validNamePart hi []"
  by (simp add: validNamePart_def runeCount_def)

interpretation id_part: part_validator "validIDPart hi" for hi
  by unfold_locales (rule validIDPart_empty)

interpretation name_part: part_validator "validNamePart hi" for hi
  by unfold_locales (rule validNamePart_empty)

text \<open>An identifier part is a name part without white space.\<close>

lemma validIDPart_validNamePart: "validIDPart hi v \<Longrightarrow> validNamePart hi v"
  by (auto simp: validIDPart_def validNamePart_def Let_def)

section \<open>The hub accepts what the daemons produce\<close>

lemma ownedPart_iff:
  assumes "validHost h"
  shows "ownedPart hi v h spaces \<longleftrightarrow>
     (\<exists>p. v = qualify p h \<and> (if spaces then validNamePart hi p else validIDPart hi p))"
proof
  assume o: "ownedPart hi v h spaces"
  then obtain i where i: "lastIndexByte v CHR ''@'' = Some i" "i \<noteq> 0" "drop (Suc i) v = h"
    by (auto simp: ownedPart_def split: option.splits if_splits)
  then have "v = qualify (take i v) h" using qualify_eq_split by blast
  moreover have "if spaces then validNamePart hi (take i v) else validIDPart hi (take i v)"
    using o i by (auto simp: ownedPart_def validNamePart_def validIDPart_def Let_def)
  ultimately show "\<exists>p. v = qualify p h \<and> (if spaces then validNamePart hi p else validIDPart hi p)"
    by blast
next
  assume "\<exists>p. v = qualify p h \<and> (if spaces then validNamePart hi p else validIDPart hi p)"
  then obtain p where p: "v = qualify p h" "if spaces then validNamePart hi p else validIDPart hi p"
    by blast
  then have "p \<noteq> []" using validIDPart_empty validNamePart_empty by (metis (full_types))
  with p assms show "ownedPart hi v h spaces"
    by (cases spaces)
      (auto simp: ownedPart_def qualify_def lastIndexByte_qualified validNamePart_def
        validIDPart_def Let_def)
qed

lemma suffix_qualify:
  assumes "validHost h" "h \<noteq> ''local''" "p \<noteq> []"
  shows "suffix (qualify p h) = Some h"
  using assms
  by (simp add: suffix_def qualify_def lastIndexByte_qualified fedValidHost_def validHost_validToken)

lemma suffix_Some:
  assumes "suffix v = Some h"
  shows "h \<noteq> ''local'' \<and> validHost h \<and> (\<exists>p. p \<noteq> [] \<and> v = qualify p h)"
proof (cases "lastIndexByte v CHR ''@''")
  case None
  with assms show ?thesis by (simp add: suffix_def)
next
  case (Some i)
  with assms have i: "i \<noteq> 0" "fedValidHost (drop (Suc i) v)" and h: "h = drop (Suc i) v"
    by (simp_all add: suffix_def split: if_splits)
  from Some i(1) have "v = qualify (take i v) h" unfolding h by (rule qualify_eq_split)
  moreover have "i < length v" using Some by (simp add: lastIndexByte_Some)
  then have "take i v \<noteq> []" using i(1) by (metis length_0_conv length_take min.absorb4)
  moreover have "h \<noteq> ''local'' \<and> validHost h"
    using i(2) h by (simp add: fedValidHost_def validHost_validToken)
  ultimately show ?thesis by blast
qed

section \<open>Groups\<close>

lemma shares_commute: "shares a b = shares b a"
  by (auto simp: shares_def)

lemma orderedPeerGroups_set: "set (orderedPeerGroups d p) = insert p (set d)"
  by (auto simp: orderedPeerGroups_def)

lemma orderedPeerGroups_distinct: "distinct d \<Longrightarrow> distinct (orderedPeerGroups d p)"
  by (simp add: orderedPeerGroups_def)

lemma unique_from_props:
  "distinct r \<Longrightarrow> distinct (unique_from r vs) \<and> set (unique_from r vs) = set r \<union> set vs
     \<and> (\<exists>t. unique_from r vs = r @ t)"
proof (induction vs arbitrary: r)
  case Nil
  then show ?case by simp
next
  case (Cons v vs)
  let ?r = "if v \<in> set r then r else r @ [v]"
  from Cons.prems have "distinct ?r" by simp
  from Cons.IH[OF this] show ?case by (cases "v \<in> set r") auto
qed

lemma unique_correct: "distinct (unique vs)" "set (unique vs) = set vs"
  using unique_from_props[of "[]" vs] by (simp_all add: unique_def)

lemma unique_prefix: "v \<noteq> w \<Longrightarrow> \<exists>t. unique (v # w # vs) = v # w # t"
  using unique_from_props[of "[v, w]" vs] by (auto simp: unique_def)

lemma uniqueStrings_from_iff:
  "uniqueStrings_from seen vs \<longleftrightarrow> distinct vs \<and> [] \<notin> set vs \<and> set vs \<inter> seen = {}"
  by (induction vs arbitrary: seen) auto

lemma uniqueStrings_iff: "uniqueStrings vs \<longleftrightarrow> distinct vs \<and> [] \<notin> set vs"
  by (simp add: uniqueStrings_def uniqueStrings_from_iff)

section \<open>Open options\<close>

lemma unsupported_from_empty:
  "(\<forall>(n, s) \<in> set fs. n \<noteq> []) \<Longrightarrow>
   unsupported_from fs ok = [] \<longleftrightarrow> (\<forall>(n, s) \<in> set fs. s \<longrightarrow> n \<in> set ok)"
  by (induction fs) (auto split: if_splits)

end
