(* ===== verification/Daemon.thy ===== *)
theory Daemon
  imports FedTypes Table Conn Naming LogEvent
begin

text \<open>
  The state of a daemon (\<open>bus/internal/daemon\<close>): the records of its structs and one record
  \<open>daemon\<close> for everything its goroutines share, which is what \<open>directory.mu\<close> protects together
  with the connections, the durable table and the outputs.

  \<^item> Objects that are compared by pointer (entries, ownerships, launches, sessions, child
    processes) live in stores indexed by \<open>ptr\<close>; \<open>next\<close> counters allocate fresh pointers. A
    session's own fields are not in the store: only its goroutine uses them. What others reach
    of a session is its connection, in \<open>h_wire\<close>.
  \<^item> A channel is a number; \<open>d_answers\<close> and \<open>d_fedReplies\<close> list what was sent on the reply
    channels, in order.
  \<^item> \<open>d_log\<close> lists the events handed to the communication log, \<open>d_signals\<close> the signals sent to
    child processes, \<open>d_traces\<close> the trace copies handed to their delivery goroutine.
  \<^item> \<open>d_panic\<close> is set by a Go panic: closing a closed channel, a failed type assertion, an index
    out of range; also by a send on a nil channel, which blocks for ever.
  \<^item> The random source, the clock, the digest, the failures of the file system and the frame
    encoder's size and schema checks are fields that the operations only read: \<open>d_encodes\<close> says which
    frames \<open>RequestBytes\<close>, \<open>ResultBytes\<close> and \<open>ErrorBytes\<close> accept, \<open>d_valid\<close> which results \<open>EncodeResult\<close>
    accepts. The texts of errors of the file system and of the schema check are fixed strings.
\<close>

section \<open>Values and messages\<close>

record answer =
  an_trace :: "TraceRecipient list"
  an_value :: "result option"
  an_code :: int
  an_data :: "errdata option"
  an_remote :: "Reply option"

definition okAnswer :: "result \<Rightarrow> answer" where
  "okAnswer v = \<lparr>an_trace = [], an_value = Some v, an_code = 0, an_data = None, an_remote = None\<rparr>"

definition codeAnswer :: "int \<Rightarrow> answer" where
  "codeAnswer c = \<lparr>an_trace = [], an_value = None, an_code = c, an_data = None, an_remote = None\<rparr>"

definition dataAnswer :: "int \<Rightarrow> errdata \<Rightarrow> answer" where
  "dataAnswer c x = \<lparr>an_trace = [], an_value = None, an_code = c, an_data = Some x, an_remote = None\<rparr>"

record routedRequest =
  q_scheduled :: bool
  q_traceCopy :: bool
  q_completion :: bool
  q_traceLifetime :: gostring
  q_runID :: gostring
  q_collect :: bool
  q_destination :: "ptr option"
  q_method :: gostring
  q_params :: params
  q_reply :: "ptr option"

definition newRequest :: "gostring \<Rightarrow> params \<Rightarrow> ptr \<Rightarrow> routedRequest" where
  "newRequest method ps reply =
     \<lparr>q_scheduled = False, q_traceCopy = False, q_completion = False, q_traceLifetime = [], q_runID = [],
      q_collect = False, q_destination = None, q_method = method, q_params = ps, q_reply = Some reply\<rparr>"

text \<open>What reaches a session's inbox.\<close>

datatype event =
    EvFrame Frame bool
  | EvClosed
  | EvRouted routedRequest
  | EvReply int nat answer
  | EvSupersede
  | EvProcess ptr "ptr option" bool "gostring option"
  | EvSpawnTimeout ptr
  | EvOwnerEnd ptr

text \<open>What a session writes to its peer, before encoding.\<close>

datatype outframe =
    ORequest int gostring params
  | OResult int gostring result
  | OError int int "errdata option"
  | ORemote int Reply

datatype stop_signal = NoSignal | SIGTERM | SIGKILL

section \<open>The directory's objects\<close>

record entry =
  e_traceMode :: gostring
  e_traceVersion :: gostring
  e_lifetime :: "ptr option"
  e_parent :: "ptr option"
  e_row :: row
  e_peer :: bool
  e_info :: "(gostring \<times> gostring) list"
  e_declaredGroups :: "gostring list"
  e_claimed :: bool
  e_running :: bool
  e_attachment :: "ptr option"
  e_done :: bool

record ownership =
  ow_caller :: Caller
  ow_id :: gostring
  ow_token :: gostring
  ow_host :: gostring
  ow_attachment :: gostring
  ow_ended :: bool
  ow_destinations :: "(gostring, bool) gomap"

record launch =
  l_parent :: "ptr option"
  l_input :: "LaneSpawnRequest option"
  l_previous :: "ptr option"
  l_token :: gostring
  l_product :: gostring
  l_entry :: "ptr option"
  l_owner :: "ptr option"
  l_claimed :: bool
  l_timerStopped :: bool
  l_reply :: ptr
  l_describe :: bool
  l_fresh :: bool

text \<open>A child process: whether it has ended, and what \<open>Details\<close> then returns.\<close>

record Process =
  p_done :: bool
  p_stderr :: "gostring list"
  p_exit :: int

record federationLink =
  fl_roster :: bool
  fl_inbox :: "fedcall list"
  fl_cancelled :: bool

record daemon =
  d_host :: gostring
  d_hi :: "nat \<Rightarrow> bool"
  d_products :: "gostring list option"
  d_closing :: bool
  d_entries :: "(gostring, ptr) gomap"
  d_names :: "(gostring, ptr) gomap"
  d_tokens :: "(gostring, ptr) gomap"
  d_remoteOwners :: "(gostring, ptr) gomap"
  d_federation :: "federationLink option"
  d_table :: tabledir
  d_comms :: bool
  d_log :: "Event list"
  d_traceBytes :: int
  d_traceCount :: int
  d_traceDropped :: nat
  d_traces :: "(Caller \<times> gostring) list"
  d_traceSource :: gostring
  d_group :: int
  h_entry :: "ptr \<Rightarrow> entry"
  h_owner :: "ptr \<Rightarrow> ownership"
  h_launch :: "ptr \<Rightarrow> launch"
  h_wire :: "ptr \<Rightarrow> (event, outframe) conn"
  h_child :: "ptr \<Rightarrow> Process"
  n_entry :: ptr
  n_owner :: ptr
  n_launch :: ptr
  n_chan :: ptr
  n_session :: ptr
  d_answers :: "(ptr \<times> answer) list"
  d_fedReplies :: "(ptr \<times> Reply) list"
  d_signals :: "(ptr \<times> stop_signal) list"
  d_panic :: bool
  d_entropy :: "nat \<Rightarrow> nat list"
  d_drawn :: nat
  d_now :: nat
  d_sha :: "gostring \<Rightarrow> gostring"
  d_faults :: "fsop \<Rightarrow> bool"
  d_tempName :: gostring
  d_encodes :: "outframe \<Rightarrow> bool"
  d_valid :: "gostring \<Rightarrow> result option \<Rightarrow> bool"

section \<open>Allocation, channels, random identifiers\<close>

definition panic :: "daemon \<Rightarrow> daemon" where
  "panic d = d\<lparr>d_panic := True\<rparr>"

definition newEntry :: "entry \<Rightarrow> daemon \<Rightarrow> ptr \<times> daemon" where
  "newEntry e d = (n_entry d, d\<lparr>h_entry := (h_entry d)(n_entry d := e), n_entry := Suc (n_entry d)\<rparr>)"

definition newOwnership :: "ownership \<Rightarrow> daemon \<Rightarrow> ptr \<times> daemon" where
  "newOwnership w d = (n_owner d, d\<lparr>h_owner := (h_owner d)(n_owner d := w), n_owner := Suc (n_owner d)\<rparr>)"

definition allocLaunch :: "launch \<Rightarrow> daemon \<Rightarrow> ptr \<times> daemon" where
  "allocLaunch l d = (n_launch d, d\<lparr>h_launch := (h_launch d)(n_launch d := l), n_launch := Suc (n_launch d)\<rparr>)"

definition newChan :: "daemon \<Rightarrow> ptr \<times> daemon" where
  "newChan d = (n_chan d, d\<lparr>n_chan := Suc (n_chan d)\<rparr>)"

definition drawID :: "gostring \<Rightarrow> daemon \<Rightarrow> gostring \<times> daemon" where
  "drawID prefix d = (randomID prefix (d_entropy d (d_drawn d)), d\<lparr>d_drawn := Suc (d_drawn d)\<rparr>)"

definition upd_entry :: "ptr \<Rightarrow> (entry \<Rightarrow> entry) \<Rightarrow> daemon \<Rightarrow> daemon" where
  "upd_entry p f d = d\<lparr>h_entry := heap_upd p f (h_entry d)\<rparr>"

definition upd_owner :: "ptr \<Rightarrow> (ownership \<Rightarrow> ownership) \<Rightarrow> daemon \<Rightarrow> daemon" where
  "upd_owner p f d = d\<lparr>h_owner := heap_upd p f (h_owner d)\<rparr>"

definition upd_launch :: "ptr \<Rightarrow> (launch \<Rightarrow> launch) \<Rightarrow> daemon \<Rightarrow> daemon" where
  "upd_launch p f d = d\<lparr>h_launch := heap_upd p f (h_launch d)\<rparr>"

definition upd_wire :: "ptr \<Rightarrow> ((event, outframe) conn \<Rightarrow> (event, outframe) conn) \<Rightarrow> daemon \<Rightarrow> daemon" where
  "upd_wire p f d = d\<lparr>h_wire := heap_upd p f (h_wire d)\<rparr>"

definition sendAnswer :: "ptr option \<Rightarrow> answer \<Rightarrow> daemon \<Rightarrow> daemon" where
  "sendAnswer c a d = (case c of None \<Rightarrow> panic d | Some ch \<Rightarrow> d\<lparr>d_answers := d_answers d @ [(ch, a)]\<rparr>)"

text \<open>\<open>wire.Post\<close> and \<open>wire.Close\<close> of the session at \<open>p\<close>.\<close>

definition postWire :: "ptr \<Rightarrow> event \<Rightarrow> daemon \<Rightarrow> bool \<times> daemon" where
  "postWire p ev d = (snd (Post ev (h_wire d p)), upd_wire p (\<lambda>c. fst (Post ev c)) d)"

definition closeWire :: "ptr \<Rightarrow> daemon \<Rightarrow> daemon" where
  "closeWire p d = upd_wire p CloseConn d"

definition lanePrivate :: "row \<Rightarrow> gostring" where
  "lanePrivate r = (case r_Groups r of _ # g # _ \<Rightarrow> g | _ \<Rightarrow> [])"

definition privateGroup :: "entry \<Rightarrow> gostring" where
  "privateGroup item =
     (if e_peer item then ''session:'' @ r_SessionID (e_row item) else lanePrivate (e_row item))"

text \<open>\<open>table.write\<close> and \<open>table.delete\<close> on the daemon's table.\<close>

definition writeRow :: "row \<Rightarrow> daemon \<Rightarrow> bool \<times> daemon" where
  "writeRow r d =
     (let (t, ok) = tableWrite (d_sha d) (d_faults d) (d_tempName d) (d_table d) r
      in (ok, d\<lparr>d_table := t\<rparr>))"

definition deleteRow :: "gostring \<Rightarrow> daemon \<Rightarrow> bool \<times> daemon" where
  "deleteRow key d =
     (let (t, ok) = tableDelete (d_sha d) (d_faults d) (d_table d) key in (ok, d\<lparr>d_table := t\<rparr>))"

section \<open>An empty daemon\<close>

text \<open>The state \<open>Start\<close> builds for a host, with an empty table and no hub; used by the witnesses.\<close>

definition emptyDaemon :: "gostring \<Rightarrow> daemon" where
  "emptyDaemon host =
     \<lparr>d_host = host, d_hi = (\<lambda>r. False), d_products = None, d_closing = False, d_entries = [], d_names = [],
      d_tokens = [], d_remoteOwners = [], d_federation = None, d_table = NoDir, d_comms = False, d_log = [],
      d_traceBytes = 0, d_traceCount = 0, d_traceDropped = 0, d_traces = [], d_traceSource = ''trace@'' @ host, d_group = 0,
      h_entry = (\<lambda>p. undefined), h_owner = (\<lambda>p. undefined), h_launch = (\<lambda>p. undefined),
      h_wire = (\<lambda>p. StartConn), h_child = (\<lambda>p. \<lparr>p_done = False, p_stderr = [], p_exit = - 1\<rparr>),
      n_entry = 0, n_owner = 0, n_launch = 0, n_chan = 0, n_session = 0, d_answers = [], d_fedReplies = [], d_signals = [],
      d_panic = False, d_entropy = (\<lambda>k. [k]), d_drawn = 0, d_now = 1, d_sha = (\<lambda>s. s),
      d_faults = (\<lambda>f. False), d_tempName = ''.row-1'', d_encodes = (\<lambda>f. True), d_valid = (\<lambda>m v. True)\<rparr>"

end
