(* ===== verification/Directory.thy ===== *)
theory Directory
  imports Daemon "HOL-Library.Multiset"
begin

text \<open>
  The directory of sessions (\<open>directory.go\<close>, \<open>ownership.go\<close> and the owner functions of
  \<open>policy.go\<close> in \<open>bus/internal/daemon\<close>). Every function of the source takes \<open>directory.mu\<close> for its
  whole body, except \<open>selectEntries\<close> with \<open>finishOfflineClose\<close>, which release it around the
  deletion of the row: these are split at that point.
\<close>

section \<open>Owners\<close>

definition ownerKey :: "gostring \<Rightarrow> gostring \<Rightarrow> gostring \<Rightarrow> gostring" where
  "ownerKey sid token attachment = sid @ [CHR 0x00] @ token @ [CHR 0x00] @ attachment"

definition hostOf :: "gostring \<Rightarrow> gostring" where
  "hostOf sid = (case lastIndexByte sid CHR ''@'' of Some i \<Rightarrow> drop (i + 1) sid | None \<Rightarrow> sid)"

definition remoteOwnerLocked :: "Caller \<Rightarrow> daemon \<Rightarrow> ptr option \<times> daemon" where
  "remoteOwnerLocked caller d =
     (if fc_OwnerLifetime caller = [] \<or> fc_SourceAttachment caller = [] then (None, d)
      else
        let key = ownerKey (fc_SessionID caller) (fc_OwnerLifetime caller) (fc_SourceAttachment caller) in
        case gm_get (d_remoteOwners d) key of
          Some owner \<Rightarrow> (Some owner, d)
        | None \<Rightarrow>
            let (owner, d1) = newOwnership
                  \<lparr>ow_caller = caller, ow_id = fc_SessionID caller, ow_token = fc_OwnerLifetime caller,
                   ow_host = hostOf (fc_SessionID caller), ow_attachment = fc_SourceAttachment caller,
                   ow_ended = False, ow_destinations = []\<rparr> d
            in (Some owner, d1\<lparr>d_remoteOwners := gm_set key owner (d_remoteOwners d1)\<rparr>))"

text \<open>A send on the link's queue with a default branch that cancels the link.\<close>

definition offerFederation :: "fedcall \<Rightarrow> federationLink \<Rightarrow> federationLink \<times> bool" where
  "offerFederation call link =
     (if length (fl_inbox link) < OutboxSize then (link\<lparr>fl_inbox := fl_inbox link @ [call]\<rparr>, True)
      else (link\<lparr>fl_cancelled := True\<rparr>, False))"

definition ownerEndTo :: "ptr \<Rightarrow> gostring \<Rightarrow> daemon \<Rightarrow> daemon" where
  "ownerEndTo w host d =
     (case d_federation d of
        None \<Rightarrow> d
      | Some link \<Rightarrow>
          let (reply, d1) = newChan d;
              owner = h_owner d1 w;
              call = OwnerEndCall \<lparr>oe_Host = host, oe_SessionID = ow_id owner, oe_Lifetime = ow_token owner,
                                   oe_Source = [], oe_Attachment = []\<rparr> reply
          in d1\<lparr>d_federation := Some (fst (offerFederation call link))\<rparr>)"

definition forwardOwnerEnd :: "ptr \<Rightarrow> daemon \<Rightarrow> daemon" where
  "forwardOwnerEnd w d =
     (if ow_host (h_owner d w) \<noteq> [] \<or> d_federation d = None then d
      else fold (ownerEndTo w) (map fst (ow_destinations (h_owner d w))) d)"

text \<open>The body of \<open>endOwner\<close>'s loop for one entry.\<close>

definition notifyChild :: "ptr \<Rightarrow> ptr \<Rightarrow> daemon \<Rightarrow> daemon" where
  "notifyChild w p d =
     (if e_parent (h_entry d p) \<noteq> Some w then d
      else
        let d1 = upd_entry p (\<lambda>e. e\<lparr>e_traceMode := [], e_traceVersion := []\<rparr>) d in
        case (r_Policy (e_row (h_entry d p)), e_attachment (h_entry d p)) of
          (Some policy, Some s) \<Rightarrow>
            if lp_Persistent policy then d1
            else let (ok, d2) = postWire s (EvOwnerEnd w) d1 in if ok then d2 else closeWire s d2
        | _ \<Rightarrow> d1)"

definition endOwner :: "ptr option \<Rightarrow> daemon \<Rightarrow> daemon" where
  "endOwner owner d =
     (case owner of
        None \<Rightarrow> d
      | Some w \<Rightarrow>
          if ow_ended (h_owner d w) then d
          else
            let d1 = upd_owner w (\<lambda>x. x\<lparr>ow_ended := True\<rparr>) d;
                d2 = fold (notifyChild w) (map snd (d_entries d1)) d1
            in forwardOwnerEnd w d2)"

definition remoteMatches :: "LifetimeEvent \<Rightarrow> ownership \<Rightarrow> bool" where
  "remoteMatches ev owner =
     (case le_Host ev of
        Some h \<Rightarrow> ow_host owner = he_Host h \<and> ow_attachment owner = he_Attachment h
      | None \<Rightarrow>
          (case le_Owner ev of
             Some v \<Rightarrow> ow_id owner = oe_SessionID v \<and> ow_token owner = oe_Lifetime v
                       \<and> ow_attachment owner = oe_Attachment v
           | None \<Rightarrow> True))"

definition remoteEnded_one :: "LifetimeEvent \<Rightarrow> gostring \<times> ptr \<Rightarrow> daemon \<Rightarrow> daemon" where
  "remoteEnded_one ev kw d =
     (case kw of (key, w) \<Rightarrow>
        if remoteMatches ev (h_owner d w)
        then let d1 = endOwner (Some w) d in d1\<lparr>d_remoteOwners := gm_del key (d_remoteOwners d1)\<rparr>
        else d)"

definition remoteEnded :: "LifetimeEvent \<Rightarrow> daemon \<Rightarrow> daemon" where
  "remoteEnded ev d = fold (remoteEnded_one ev) (d_remoteOwners d) d"

text \<open>
  \<open>callerOwner\<close>: \<open>caller\<close> and \<open>identity\<close> are the fields of the calling session, \<open>self\<close> its pointer.
\<close>

definition callerOwner :: "Caller option \<Rightarrow> ptr option \<Rightarrow> ptr \<Rightarrow> daemon \<Rightarrow> ptr option \<times> daemon" where
  "callerOwner caller identity self d =
     (case caller of
        Some c \<Rightarrow> remoteOwnerLocked c d
      | None \<Rightarrow>
          (case identity of
             None \<Rightarrow> (None, d)
           | Some p \<Rightarrow> if e_attachment (h_entry d p) \<noteq> Some self then (None, d)
                       else (e_lifetime (h_entry d p), d)))"

section \<open>Entries\<close>

definition closeDone :: "ptr \<Rightarrow> daemon \<Rightarrow> daemon" where
  "closeDone p d = (if e_done (h_entry d p) then panic d else upd_entry p (\<lambda>e. e\<lparr>e_done := True\<rparr>) d)"

definition end_entry :: "ptr \<Rightarrow> daemon \<Rightarrow> daemon" where
  "end_entry p d =
     (let d1 = upd_entry p (\<lambda>e. e\<lparr>e_traceMode := [], e_traceVersion := []\<rparr>) d;
          d2 = endOwner (e_lifetime (h_entry d1 p)) d1;
          d3 = upd_entry p (\<lambda>e. e\<lparr>e_attachment := None, e_running := False\<rparr>) d2
      in closeDone p d3)"

definition zeroEntry :: entry where
  "zeroEntry = \<lparr>e_traceMode = [], e_traceVersion = [], e_lifetime = None, e_parent = None,
     e_row = \<lparr>r_Policy = None, r_SessionID = [], r_Product = [], r_Name = [], r_Groups = [],
              r_Open = \<lparr>oo_Cwd = [], oo_PermissionMode = [], oo_Model = [], oo_ReasoningEffort = [], oo_Arguments = []\<rparr>,
              r_CreatedAt = 0\<rparr>,
     e_peer = False, e_info = [], e_declaredGroups = [], e_claimed = False, e_running = False,
     e_attachment = None, e_done = False\<rparr>"

definition newRow :: "row \<Rightarrow> daemon \<Rightarrow> daemon" where
  "newRow value d =
     (let (item, d1) = newEntry (zeroEntry\<lparr>e_row := cloneRow value, e_done := True\<rparr>) d
      in d1\<lparr>d_entries := gm_set (r_SessionID value) item (d_entries d1),
            d_names := gm_set (r_Name value) item (d_names d1)\<rparr>)"

definition newDirectory :: "row list \<Rightarrow> daemon \<Rightarrow> daemon" where
  "newDirectory rows d =
     fold newRow rows (d\<lparr>d_entries := [], d_names := [], d_tokens := [], d_remoteOwners := []\<rparr>)"

definition freshOwnership :: "gostring \<Rightarrow> gostring \<Rightarrow> Caller \<Rightarrow> ownership" where
  "freshOwnership sid token zero =
     \<lparr>ow_caller = zero, ow_id = sid, ow_token = token, ow_host = [], ow_attachment = [], ow_ended = False,
      ow_destinations = []\<rparr>"

definition zeroCaller :: Caller where
  "zeroCaller = \<lparr>fc_OwnerLifetime = [], fc_SourceAttachment = [], fc_SessionID = [], fc_Name = [],
     fc_Product = [], fc_PrivateGroup = [], fc_Groups = []\<rparr>"

text \<open>
  \<open>installPeer\<close>: \<open>old\<close> is the calling session's identity. The result is the current entry, the
  session it displaces and the entry it ends.
\<close>

definition installNew ::
    "ptr \<Rightarrow> ptr option \<Rightarrow> PeerHello \<Rightarrow> gostring \<Rightarrow> gostring \<Rightarrow> daemon \<Rightarrow> (ptr \<times> ptr option \<times> ptr option) \<times> daemon" where
  "installNew owner old hello sid name d =
     (let (token, d1) = drawID ''owner'' d;
          (life, d2) = newOwnership (freshOwnership sid token zeroCaller) d1;
          (item, d3) = newEntry (zeroEntry\<lparr>e_lifetime := Some life, e_peer := True,
              e_declaredGroups := ph_Groups hello, e_attachment := Some owner,
              e_row := (e_row zeroEntry)\<lparr>r_SessionID := sid, r_Product := ph_Product hello, r_Name := name\<rparr>\<rparr>) d2;
          d4 = upd_entry item (\<lambda>e. e\<lparr>e_row := (e_row e)\<lparr>r_Groups :=
                 orderedPeerGroups (ph_Groups hello) (privateGroup e)\<rparr>, e_info := ph_Info hello\<rparr>) d3;
          d5 = (case old of
                  None \<Rightarrow> d4
                | Some o' \<Rightarrow> end_entry o' (d4\<lparr>d_entries := gm_del (r_SessionID (e_row (h_entry d4 o'))) (d_entries d4)\<rparr>));
          found = gm_get (d_entries d5) sid;
          displaced = (case found of None \<Rightarrow> None | Some f \<Rightarrow> e_attachment (h_entry d5 f));
          d6 = (case found of
                  None \<Rightarrow> d5
                | Some f \<Rightarrow>
                    end_entry f (upd_entry f (\<lambda>e. e\<lparr>e_lifetime := None\<rparr>)
                      (upd_entry item (\<lambda>e. e\<lparr>e_lifetime := e_lifetime (h_entry d5 f)\<rparr>) d5)))
      in ((item, displaced, old), d6\<lparr>d_entries := gm_set sid item (d_entries d6)\<rparr>))"

definition installPeer ::
    "ptr \<Rightarrow> ptr option \<Rightarrow> PeerHello \<Rightarrow> gostring \<Rightarrow> daemon \<Rightarrow> (ptr \<times> ptr option \<times> ptr option) option \<times> daemon" where
  "installPeer owner old hello host d =
     (let sid = qualify (ph_SessionID hello) host; name = qualify (ph_Name hello) host in
      if (case old of Some p \<Rightarrow> e_attachment (h_entry d p) \<noteq> Some owner | None \<Rightarrow> False) then (None, d)
      else if (case old of Some p \<Rightarrow> r_SessionID (e_row (h_entry d p)) = sid | None \<Rightarrow> False)
      then
        let p = the old in
        if r_Product (e_row (h_entry d p)) \<noteq> ph_Product hello
           \<or> e_declaredGroups (h_entry d p) \<noteq> ph_Groups hello
        then (None, d)
        else (Some (p, None, None),
              upd_entry p (\<lambda>e. e\<lparr>e_row := (e_row e)\<lparr>r_Name := name\<rparr>, e_info := ph_Info hello\<rparr>) d)
      else if (case gm_get (d_entries d) sid of Some f \<Rightarrow> \<not> e_peer (h_entry d f) | None \<Rightarrow> False) then (None, d)
      else let (r, d1) = installNew owner old hello sid name d in (Some r, d1))"

definition current :: "ptr option \<Rightarrow> ptr \<Rightarrow> daemon \<Rightarrow> bool" where
  "current item owner d =
     (case item of
        None \<Rightarrow> False
      | Some p \<Rightarrow> gm_get (d_entries d) (r_SessionID (e_row (h_entry d p))) = Some p
                  \<and> e_attachment (h_entry d p) = Some owner)"

definition finishRun :: "ptr option \<Rightarrow> ptr \<Rightarrow> daemon \<Rightarrow> daemon" where
  "finishRun item owner d =
     (case item of
        None \<Rightarrow> d
      | Some p \<Rightarrow> if e_attachment (h_entry d p) = Some owner
                  then upd_entry p (\<lambda>e. e\<lparr>e_running := False\<rparr>) d else d)"

definition admit :: "ptr \<Rightarrow> ptr \<Rightarrow> gostring \<Rightarrow> daemon \<Rightarrow> int" where
  "admit p owner method d =
     (let item = h_entry d p in
      if e_attachment item \<noteq> Some owner then NotConnected
      else if e_claimed item \<and> method \<noteq> ''message.deliver'' then Busy
      else if method = ''turn.execute'' \<and> e_running item then Busy
      else if method = ''turn.interrupt'' \<and> \<not> e_running item then NotRunning
      else 0)"

definition admitted :: "ptr \<Rightarrow> gostring \<Rightarrow> daemon \<Rightarrow> daemon" where
  "admitted p method d =
     upd_entry p (\<lambda>e. e\<lparr>e_running := (if method = ''turn.execute'' then True else e_running e),
                        e_claimed := (if method = ''session.close'' then True else e_claimed e)\<rparr>) d"

definition detach :: "ptr option \<Rightarrow> ptr \<Rightarrow> daemon \<Rightarrow> daemon" where
  "detach item owner d =
     (case item of
        None \<Rightarrow> d
      | Some p \<Rightarrow>
          if e_attachment (h_entry d p) \<noteq> Some owner then d
          else
            let d1 = end_entry p d in
            if e_peer (h_entry d1 p)
            then d1\<lparr>d_entries := gm_del (r_SessionID (e_row (h_entry d1 p))) (d_entries d1)\<rparr>
            else upd_entry p (\<lambda>e. e\<lparr>e_claimed := True\<rparr>) d1)"

definition offline :: "ptr \<Rightarrow> ptr \<Rightarrow> bool \<Rightarrow> daemon \<Rightarrow> daemon" where
  "offline p owner forget d =
     (let d1 = (if e_attachment (h_entry d p) = Some owner
                then upd_entry p (\<lambda>e. e\<lparr>e_attachment := None, e_running := False\<rparr>) d else d);
          d2 = upd_entry p (\<lambda>e. e\<lparr>e_claimed := False\<rparr>) d1;
          r = e_row (h_entry d2 p)
      in if forget \<and> gm_get (d_entries d2) (r_SessionID r) = Some p
         then d2\<lparr>d_entries := gm_del (r_SessionID r) (d_entries d2), d_names := gm_del (r_Name r) (d_names d2)\<rparr>
         else d2)"

section \<open>Launches\<close>

definition addLaunch :: "ptr \<Rightarrow> daemon \<Rightarrow> int \<times> daemon" where
  "addLaunch start d =
     (if d_closing d then (Internal, d)
      else (0, d\<lparr>d_tokens := gm_set (l_token (h_launch d start)) start (d_tokens d), d_group := d_group d + 1\<rparr>))"

definition ownerGone :: "ptr option \<Rightarrow> daemon \<Rightarrow> bool" where
  "ownerGone owner d = (case owner of None \<Rightarrow> True | Some w \<Rightarrow> ow_ended (h_owner d w))"

definition reserveFresh :: "row \<Rightarrow> ptr \<Rightarrow> daemon \<Rightarrow> (ptr option \<times> int) \<times> daemon" where
  "reserveFresh value start d =
     (if ownerGone (l_parent (h_launch d start)) d then ((None, NotConnected), d)
      else if gm_get (d_names d) (r_Name value) \<noteq> None then ((None, NameTaken), d)
      else
        let (code, d1) = addLaunch start d in
        if code \<noteq> 0 then ((None, code), d1)
        else
          let (item, d2) = newEntry (zeroEntry\<lparr>e_row := cloneRow value,
                 e_parent := l_parent (h_launch d1 start), e_claimed := True\<rparr>) d1;
              d3 = upd_launch start (\<lambda>l. l\<lparr>l_entry := Some item\<rparr>) d2
          in ((Some item, 0), d3\<lparr>d_names := gm_set (r_Name value) item (d_names d3)\<rparr>))"

definition parentID :: "ptr option \<Rightarrow> daemon \<Rightarrow> gostring" where
  "parentID owner d = (case owner of None \<Rightarrow> [] | Some w \<Rightarrow> ow_id (h_owner d w))"

definition reserveResume :: "gostring \<Rightarrow> gostring list \<Rightarrow> ptr \<Rightarrow> daemon \<Rightarrow> (ptr option \<times> int) \<times> daemon" where
  "reserveResume sid groups start d =
     (let l = h_launch d start in
      if ownerGone (l_parent l) d then ((None, NotConnected), d)
      else case gm_get (d_entries d) sid of
        None \<Rightarrow> ((None, UnknownSession), d)
      | Some prev \<Rightarrow>
          let previous = h_entry d prev in
          if e_peer previous \<or> \<not> shares groups (r_Groups (e_row previous)) then ((None, UnknownSession), d)
          else if e_claimed previous then ((None, Busy), d)
          else if e_attachment previous \<noteq> None then ((None, AlreadyConnected), d)
          else case l_input l of
            None \<Rightarrow> ((None, UnsupportedOpen), panic d)
          | Some input \<Rightarrow>
            (case normalizePolicy input (r_Policy (e_row previous)) (parentID (l_parent l) d) of
               Inl err \<Rightarrow> ((None, UnsupportedOpen), d)
             | Inr policy \<Rightarrow>
                 let (code, d1) = addLaunch start d in
                 if code \<noteq> 0 then ((None, code), d1)
                 else
                   let (item, d2) = newEntry (zeroEntry\<lparr>e_row := (cloneRow (e_row previous))\<lparr>r_Policy := Some policy\<rparr>,
                          e_parent := l_parent l, e_claimed := True\<rparr>) d1;
                       r = e_row (h_entry d2 item);
                       d3 = upd_launch start (\<lambda>x. x\<lparr>l_previous := Some prev, l_entry := Some item,
                              l_product := r_Product r\<rparr>) d2
                   in ((Some item, 0),
                       d3\<lparr>d_entries := gm_set sid item (d_entries d3),
                          d_names := gm_set (r_Name r) item (d_names d3)\<rparr>)))"

definition reserveDescribe :: "ptr \<Rightarrow> daemon \<Rightarrow> int \<times> daemon" where
  "reserveDescribe start d = addLaunch start d"

definition claimWorker :: "ptr \<Rightarrow> gostring \<Rightarrow> gostring \<Rightarrow> daemon \<Rightarrow> ptr option \<times> daemon" where
  "claimWorker owner token product d =
     (case gm_get (d_tokens d) token of
        None \<Rightarrow> (None, d)
      | Some start \<Rightarrow>
          if l_product (h_launch d start) \<noteq> product \<or> l_owner (h_launch d start) \<noteq> None then (None, d)
          else (Some start,
                upd_launch start (\<lambda>l. l\<lparr>l_owner := Some owner\<rparr>) (d\<lparr>d_tokens := gm_del token (d_tokens d)\<rparr>)))"

definition reserveID :: "ptr \<Rightarrow> gostring \<Rightarrow> daemon \<Rightarrow> bool \<times> daemon" where
  "reserveID p sid d =
     (if \<not> e_claimed (h_entry d p) \<or> gm_get (d_entries d) sid \<noteq> None then (False, d)
      else (True,
            (upd_entry p (\<lambda>e. e\<lparr>e_row := (e_row e)\<lparr>r_SessionID := sid\<rparr>\<rparr>) d)
              \<lparr>d_entries := gm_set sid p (d_entries d)\<rparr>))"

definition publishCommit :: "ptr \<Rightarrow> ptr \<Rightarrow> nat \<Rightarrow> ptr \<Rightarrow> bool \<Rightarrow> daemon \<Rightarrow> daemon" where
  "publishCommit start owner createdAt p parentEnded d =
     (let item = h_entry d p;
          (token, d1) = drawID ''owner'' d;
          (life, d2) = newOwnership (freshOwnership (r_SessionID (e_row item)) token zeroCaller) d1;
          d3 = upd_entry p (\<lambda>e. e\<lparr>e_claimed := False, e_attachment := Some owner, e_lifetime := Some life\<rparr>) d2;
          d4 = (case l_input (h_launch d start) of
                  Some input \<Rightarrow>
                    if e_parent item \<noteq> None \<and> \<not> parentEnded
                    then let (version, d') = drawID ''policy'' d3
                         in upd_entry p (\<lambda>e. e\<lparr>e_traceMode := ls_Trace input, e_traceVersion := version\<rparr>) d'
                    else d3
                | None \<Rightarrow> d3)
      in if createdAt \<noteq> 0
         then upd_entry p (\<lambda>e. e\<lparr>e_row := (e_row e)\<lparr>r_CreatedAt := createdAt\<rparr>\<rparr>) d4 else d4)"

definition publish :: "ptr \<Rightarrow> ptr \<Rightarrow> nat \<Rightarrow> daemon \<Rightarrow> bool \<times> daemon" where
  "publish start owner createdAt d =
     (case l_entry (h_launch d start) of
        None \<Rightarrow> (False, panic d)
      | Some p \<Rightarrow>
          let item = h_entry d p;
              parentEnded = (case e_parent item of None \<Rightarrow> False | Some w \<Rightarrow> ow_ended (h_owner d w))
          in if d_closing d \<or> gm_get (d_entries d) (r_SessionID (e_row item)) \<noteq> Some p \<or> \<not> e_claimed item
                \<or> e_attachment item \<noteq> None
             then (False, d)
             else if parentEnded
             then case r_Policy (e_row item) of
                    None \<Rightarrow> (False, panic d)
                  | Some policy \<Rightarrow>
                      if \<not> lp_Persistent policy then (False, d)
                      else (True, publishCommit start owner createdAt p parentEnded d)
             else (True, publishCommit start owner createdAt p parentEnded d))"

definition revokeLaunch :: "ptr \<Rightarrow> daemon \<Rightarrow> bool \<times> daemon" where
  "revokeLaunch start d =
     (let l = h_launch d start in
      if l_owner l \<noteq> None \<or> gm_get (d_tokens d) (l_token l) \<noteq> Some start then (False, d)
      else (True, d\<lparr>d_tokens := gm_del (l_token l) (d_tokens d)\<rparr>))"

text \<open>\<open>spawnResult\<close>; \<open>None\<close> when the launch has no entry, which the source dereferences.\<close>

definition spawnResult :: "ptr \<Rightarrow> ptr \<Rightarrow> daemon \<Rightarrow> LaneSpawnResult option" where
  "spawnResult start owner d =
     (let l = h_launch d start in
      case l_entry l of
        None \<Rightarrow> None
      | Some p \<Rightarrow>
          let item = h_entry d p;
              plain = \<lparr>lr_Policy = r_Policy (cloneRow (e_row item)), lr_SessionID = r_SessionID (e_row item)\<rparr>
          in Some (case (r_Policy (e_row item), l_parent l) of
               (Some policy, Some w) \<Rightarrow>
                 if d_closing d \<or> gm_get (d_entries d) (r_SessionID (e_row item)) \<noteq> Some p
                    \<or> e_attachment item \<noteq> Some owner \<or> e_claimed item \<or> e_parent item \<noteq> Some w
                    \<or> ow_ended (h_owner d w)
                 then plain
                 else if ow_host (h_owner d w) = []
                      \<and> (case gm_get (d_entries d) (ow_id (h_owner d w)) of
                           None \<Rightarrow> True
                         | Some c \<Rightarrow> e_lifetime (h_entry d c) \<noteq> Some w \<or> e_attachment (h_entry d c) = None)
                 then plain
                 else plain\<lparr>lr_Policy := Some (policy\<lparr>lp_Trace :=
                        (if e_traceMode item = [] then ''off'' else e_traceMode item)\<rparr>)\<rparr>
             | _ \<Rightarrow> plain))"

definition releaseLaunch :: "ptr \<Rightarrow> daemon \<Rightarrow> daemon" where
  "releaseLaunch start d =
     (let l = h_launch d start;
          d1 = (if gm_get (d_tokens d) (l_token l) = Some start
                then d\<lparr>d_tokens := gm_del (l_token l) (d_tokens d)\<rparr> else d)
      in case l_entry l of
           None \<Rightarrow> d1
         | Some p \<Rightarrow>
             if \<not> e_claimed (h_entry d1 p) then d1
             else
               let d2 = end_entry p (upd_entry p (\<lambda>e. e\<lparr>e_claimed := False\<rparr>) d1);
                   r = e_row (h_entry d2 p);
                   d3 = (case l_previous l of
                           None \<Rightarrow> d2
                         | Some q \<Rightarrow> d2\<lparr>d_entries := gm_set (r_SessionID r) q (d_entries d2),
                                        d_names := gm_set (r_Name r) q (d_names d2)\<rparr>)
               in if \<not> e_peer (h_entry d3 p) \<and> r_CreatedAt r = 0
                  then
                    let d4 = d3\<lparr>d_names := gm_del (r_Name r) (d_names d3)\<rparr>
                    in if gm_get (d_entries d4) (r_SessionID r) = Some p
                       then d4\<lparr>d_entries := gm_del (r_SessionID r) (d_entries d4)\<rparr> else d4
                  else d3)"

section \<open>Resolving, selecting and routing\<close>

definition visibleTo :: "entry \<Rightarrow> gostring list \<Rightarrow> bool" where
  "visibleTo item groups \<longleftrightarrow>
     (e_peer item \<or> r_CreatedAt (e_row item) \<noteq> 0) \<and> shares groups (r_Groups (e_row item))"

definition namedBy :: "daemon \<Rightarrow> gostring \<Rightarrow> gostring list \<Rightarrow> ptr \<Rightarrow> bool" where
  "namedBy d target groups p \<longleftrightarrow>
     r_Name (e_row (h_entry d p)) \<noteq> [] \<and> r_Name (e_row (h_entry d p)) = target
     \<and> visibleTo (h_entry d p) groups"

fun scanNames :: "daemon \<Rightarrow> gostring \<Rightarrow> gostring list \<Rightarrow> ptr option \<Rightarrow> ptr list \<Rightarrow> ptr option \<times> bool" where
  "scanNames d target groups found [] = (found, False)"
| "scanNames d target groups found (p # ps) =
     (if namedBy d target groups p
      then (case found of Some _ \<Rightarrow> (None, True) | None \<Rightarrow> scanNames d target groups (Some p) ps)
      else scanNames d target groups found ps)"

definition resolveLocked :: "gostring \<Rightarrow> gostring list \<Rightarrow> daemon \<Rightarrow> ptr option \<times> bool" where
  "resolveLocked target groups d =
     (case gm_get (d_entries d) target of
        Some p \<Rightarrow>
          if visibleTo (h_entry d p) groups then (Some p, False)
          else scanNames d target groups None (map snd (d_entries d))
      | None \<Rightarrow> scanNames d target groups None (map snd (d_entries d)))"

definition summarize :: "entry \<Rightarrow> SessionSummary" where
  "summarize item =
     \<lparr>ss_Policy = r_Policy (cloneRow (e_row item)), ss_SessionID = r_SessionID (e_row item),
      ss_Kind = (if e_peer item then ''peer'' else ''lane''), ss_Product = r_Product (e_row item),
      ss_Name = r_Name (e_row item), ss_Groups = r_Groups (e_row item),
      ss_Connected = (e_attachment item \<noteq> None), ss_Running = e_running item, ss_Info = e_info item\<rparr>"

record selected =
  sx_label :: gostring
  sx_item :: "ptr option"
  sx_summary :: "SessionSummary option"
  sx_code :: int
  sx_ambiguous :: bool

definition routeLocked :: "ptr option \<Rightarrow> gostring \<Rightarrow> routedRequest \<Rightarrow> daemon \<Rightarrow> int \<times> daemon" where
  "routeLocked item method request d =
     (case item of
        None \<Rightarrow> (NotConnected, d)
      | Some p \<Rightarrow>
          let e = h_entry d p in
          if gm_get (d_entries d) (r_SessionID (e_row e)) \<noteq> Some p then (NotConnected, d)
          else if e_claimed e \<and> method \<noteq> ''message.deliver'' then (Busy, d)
          else if q_traceCopy request
                  \<and> (case e_lifetime e of
                       None \<Rightarrow> True
                     | Some w \<Rightarrow> ow_ended (h_owner d w) \<or> ow_token (h_owner d w) \<noteq> q_traceLifetime request)
          then (NotConnected, d)
          else case e_attachment e of
                 None \<Rightarrow> (NotConnected, d)
               | Some s \<Rightarrow>
                   if e_peer e \<and> method \<noteq> ''message.deliver'' then (UnknownSession, d)
                   else
                     let (ok, d1) = postWire s (EvRouted (request\<lparr>q_destination := Some p\<rparr>)) d in
                     if ok then (0, d1)
                     else if c_done (h_wire d1 s) then (NotConnected, d1) else (Busy, d1))"

definition route_dir :: "ptr option \<Rightarrow> gostring \<Rightarrow> routedRequest \<Rightarrow> daemon \<Rightarrow> int \<times> daemon" where
  "route_dir item method request d = routeLocked item method request d"

text \<open>
  \<open>selectEntries\<close> without labels: the visible entries, of one group if one is named, sorted by
  session identifier. \<open>ids\<close> are distinct, so any sorting algorithm gives this list.
\<close>

definition selectAll :: "gostring list \<Rightarrow> gostring \<Rightarrow> ptr option \<Rightarrow> daemon \<Rightarrow> selected list" where
  "selectAll groups grp omit d =
     sort_key sx_label
       (map (\<lambda>p. \<lparr>sx_label = r_SessionID (e_row (h_entry d p)), sx_item = Some p,
                  sx_summary = Some (summarize (h_entry d p)), sx_code = 0, sx_ambiguous = False\<rparr>)
         (filter (\<lambda>p. visibleTo (h_entry d p) groups
                      \<and> \<not> (grp \<noteq> [] \<and> (Some p = omit \<or> grp \<notin> set (r_Groups (e_row (h_entry d p))))))
           (map snd (d_entries d))))"

fun selectLabels :: "(gostring \<Rightarrow> bool) \<Rightarrow> gostring list \<Rightarrow> daemon \<Rightarrow> gostring list \<Rightarrow> selected list option" where
  "selectLabels valid groups d [] = Some []"
| "selectLabels valid groups d (label # labels) =
     (let (target, code) = canonical label (d_host d) valid in
      if code = InvalidFrame then None
      else
        let (item, ambiguous) = resolveLocked target groups d;
            x = \<lparr>sx_label = label, sx_item = item,
                 sx_summary = (case item of None \<Rightarrow> None | Some p \<Rightarrow> Some (summarize (h_entry d p))),
                 sx_code = code, sx_ambiguous = ambiguous\<rparr>
        in case selectLabels valid groups d labels of
             None \<Rightarrow> None
           | Some xs \<Rightarrow> Some (x # xs))"

text \<open>
  The part of \<open>selectEntries\<close> under the mutex: the selection, its code, and the entry whose
  offline close the caller then has to finish.
\<close>

definition selectLocked ::
    "gostring list \<Rightarrow> gostring list option \<Rightarrow> gostring \<Rightarrow> bool \<Rightarrow> ptr option \<Rightarrow> routedRequest option \<Rightarrow> daemon
      \<Rightarrow> (selected list \<times> int \<times> ptr option) \<times> daemon" where
  "selectLocked groups labels grp names omit request d =
     (case labels of
        None \<Rightarrow> ((selectAll groups grp omit d, 0, None), d)
      | Some ls \<Rightarrow>
          (case selectLabels (if names then validNamePart (d_hi d) else validIDPart (d_hi d)) groups d ls of
             None \<Rightarrow> (([], InvalidFrame, None), d)
           | Some result \<Rightarrow>
               (case request of
                  None \<Rightarrow> ((result, 0, None), d)
                | Some rq \<Rightarrow>
                    (case result of
                       [] \<Rightarrow> (([], 0, None), panic d)
                     | x # xs \<Rightarrow>
                         (case sx_item x of
                            None \<Rightarrow> ((result, 0, None), d)
                          | Some p \<Rightarrow>
                              if sx_code x \<noteq> 0 \<or> sx_ambiguous x then ((result, 0, None), d)
                              else if q_method rq = ''session.close'' \<and> \<not> e_peer (h_entry d p)
                                      \<and> e_attachment (h_entry d p) = None \<and> \<not> e_claimed (h_entry d p)
                              then ((result, 0, Some p), upd_entry p (\<lambda>e. e\<lparr>e_claimed := True\<rparr>) d)
                              else
                                let (code, d1) = routeLocked (Some p) (q_method rq) rq d
                                in ((x\<lparr>sx_code := code\<rparr> # xs, 0, None), d1))))))"

text \<open>\<open>finishOfflineClose\<close>: deleting the row without the mutex, then releasing the claim with it.\<close>

definition offlineCommit :: "ptr \<Rightarrow> bool \<Rightarrow> bool \<Rightarrow> daemon \<Rightarrow> bool \<times> daemon" where
  "offlineCommit p forget deleted d =
     (let r = e_row (h_entry d p) in
      if gm_get (d_entries d) (r_SessionID r) = Some p \<and> e_attachment (h_entry d p) = None \<and> e_claimed (h_entry d p)
      then
        let d1 = upd_entry p (\<lambda>e. e\<lparr>e_claimed := False\<rparr>) d in
        (True,
         if forget \<and> deleted
         then let d2 = d1\<lparr>d_entries := gm_del (r_SessionID r) (d_entries d1)\<rparr>
              in if gm_get (d_names d2) (r_Name r) = Some p
                 then d2\<lparr>d_names := gm_del (r_Name r) (d_names d2)\<rparr> else d2
         else d1)
      else (False, d))"

definition offlineForget :: "routedRequest \<Rightarrow> bool option" where
  "offlineForget request = (case q_params request of PClose c \<Rightarrow> Some (sc_Forget c) | _ \<Rightarrow> None)"

definition offlineDelete :: "ptr \<Rightarrow> bool \<Rightarrow> daemon \<Rightarrow> bool \<times> daemon" where
  "offlineDelete p forget d =
     (if forget then deleteRow (r_SessionID (e_row (h_entry d p))) d else (True, d))"

definition offlineReply :: "routedRequest \<Rightarrow> bool \<Rightarrow> bool \<Rightarrow> daemon \<Rightarrow> daemon" where
  "offlineReply request completed deleted d =
     sendAnswer (q_reply request)
       (if \<not> completed then dataAnswer Internal (DText ''offline close claim lost'')
        else if \<not> deleted then dataAnswer Internal (DText ''remove failed'')
        else okAnswer VEmpty) d"

definition finishOfflineClose :: "ptr \<Rightarrow> routedRequest \<Rightarrow> daemon \<Rightarrow> daemon" where
  "finishOfflineClose p request d =
     (case offlineForget request of
        None \<Rightarrow> panic d
      | Some forget \<Rightarrow>
          let (deleted, d1) = offlineDelete p forget d;
              (completed, d2) = offlineCommit p forget deleted d1
          in offlineReply request completed deleted d2)"

definition selectEntries ::
    "gostring list \<Rightarrow> gostring list option \<Rightarrow> gostring \<Rightarrow> bool \<Rightarrow> ptr option \<Rightarrow> routedRequest option \<Rightarrow> daemon
      \<Rightarrow> (selected list \<times> int) \<times> daemon" where
  "selectEntries groups labels grp names omit request d =
     (let ((result, code, close), d1) = selectLocked groups labels grp names omit request d in
      case (close, request) of
        (Some p, Some rq) \<Rightarrow> ((result, code), finishOfflineClose p rq d1)
      | _ \<Rightarrow> ((result, code), d1))"

section \<open>What resolving and selecting return\<close>

lemma scanNames_filter:
  "scanNames d target groups found ps =
     (case (found, filter (namedBy d target groups) ps) of
        (None, []) \<Rightarrow> (None, False)
      | (None, [p]) \<Rightarrow> (Some p, False)
      | (Some q, []) \<Rightarrow> (Some q, False)
      | _ \<Rightarrow> (None, True))"
  by (induction ps arbitrary: found) (auto split: option.splits list.splits)

text \<open>The result depends on the candidates only as a collection.\<close>

definition pick :: "ptr list \<Rightarrow> ptr option \<times> bool" where
  "pick ps = (case ps of [] \<Rightarrow> (None, False) | [p] \<Rightarrow> (Some p, False) | _ \<Rightarrow> (None, True))"

lemma pick_mset: "mset ps = mset qs \<Longrightarrow> pick ps = pick qs"
proof (cases ps)
  case (Cons p ps')
  assume e: "mset ps = mset qs"
  then have len: "length ps = length qs" by (rule mset_eq_length)
  show ?thesis
  proof (cases ps')
    case Nil
    with Cons e have "mset qs = {#p#}" by simp
    then have "qs = [p]" by (simp add: mset_single_iff_right)
    with Cons Nil show ?thesis by simp
  next
    case (Cons p2 ps'')
    with \<open>ps = p # ps'\<close> len obtain q q2 qs'' where "qs = q # q2 # qs''"
      by (cases qs; cases "tl qs") auto
    with Cons \<open>ps = p # ps'\<close> show ?thesis by (simp add: pick_def)
  qed
qed (simp add: pick_def)

lemma resolveLocked_pick:
  "resolveLocked target groups d =
     (case gm_get (d_entries d) target of
        Some p \<Rightarrow> if visibleTo (h_entry d p) groups then (Some p, False)
                  else pick (filter (namedBy d target groups) (map snd (d_entries d)))
      | None \<Rightarrow> pick (filter (namedBy d target groups) (map snd (d_entries d))))"
  by (simp add: resolveLocked_def scanNames_filter pick_def split: option.splits list.splits)

lemma pick_Some: "pick ps = (Some p, b) \<Longrightarrow> ps = [p] \<and> \<not> b"
  by (auto simp: pick_def split: list.splits)

lemma gm_get_perm:
  assumes "mset m = mset m'" "gm_ok m" "gm_ok m'"
  shows "gm_get m' k = gm_get m k"
proof -
  have "set m' = set m" using mset_eq_setD[OF assms(1)] by simp
  with assms(2,3) show ?thesis
    by (metis gm_set_get not_None_eq)
qed

text \<open>
  resolving a label does not depend on the order in which Go iterates over the directory:
  any reordering of the entries gives the same entry or the same ambiguity.
\<close>

theorem resolve_order_independent:
  assumes "mset es = mset (d_entries d)" "gm_ok (d_entries d)" "gm_ok es"
  shows "resolveLocked target groups (d\<lparr>d_entries := es\<rparr>) = resolveLocked target groups d"
proof -
  have "namedBy (d\<lparr>d_entries := es\<rparr>) target groups = namedBy d target groups"
    by (rule ext) (simp add: namedBy_def)
  moreover have "mset (filter (namedBy d target groups) (map snd es))
      = mset (filter (namedBy d target groups) (map snd (d_entries d)))"
    using assms(1) by simp
  then have "pick (filter (namedBy d target groups) (map snd es))
      = pick (filter (namedBy d target groups) (map snd (d_entries d)))" by (rule pick_mset)
  ultimately show ?thesis
    using gm_get_perm[OF assms(1)[symmetric] assms(2,3)]
    by (cases "gm_get (d_entries d) target") (simp_all add: resolveLocked_pick)
qed

text \<open>What a resolved entry is: visible to the caller, and the label is its identifier or its name.\<close>

lemma resolveLocked_Some:
  assumes "resolveLocked target groups d = (Some p, b)"
  shows "visibleTo (h_entry d p) groups \<and> \<not> b
    \<and> (gm_get (d_entries d) target = Some p
       \<or> p \<in> snd ` set (d_entries d) \<and> r_Name (e_row (h_entry d p)) = target)"
proof -
  have "visibleTo (h_entry d p) groups \<and> \<not> b \<and> p \<in> snd ` set (d_entries d) \<and> r_Name (e_row (h_entry d p)) = target"
    if "pick (filter (namedBy d target groups) (map snd (d_entries d))) = (Some p, b)"
  proof -
    from pick_Some[OF that] have f: "filter (namedBy d target groups) (map snd (d_entries d)) = [p]" "\<not> b" by auto
    then have "p \<in> set (filter (namedBy d target groups) (map snd (d_entries d)))" by simp
    with f(2) show ?thesis by (auto simp: namedBy_def)
  qed
  with assms show ?thesis by (auto simp: resolveLocked_pick split: option.splits if_splits)
qed

lemma selectLabels_visible:
  assumes "selectLabels valid groups d labels = Some xs" "x \<in> set xs" "sx_item x = Some p"
  shows "visibleTo (h_entry d p) groups \<and> \<not> sx_ambiguous x \<and> sx_summary x = Some (summarize (h_entry d p))"
  using assms
proof (induction labels arbitrary: xs)
  case (Cons label labels)
  obtain target code where c: "canonical label (d_host d) valid = (target, code)"
    by (cases "canonical label (d_host d) valid")
  obtain item amb where r: "resolveLocked target groups d = (item, amb)"
    by (cases "resolveLocked target groups d")
  from Cons.prems c r show ?case
    using Cons.IH resolveLocked_Some[of target groups d p amb]
    by (auto simp: Let_def split: if_splits option.splits)
qed simp

lemma selectLabels_labels: "selectLabels valid groups d labels = Some xs \<Longrightarrow> map sx_label xs = labels"
  by (induction labels arbitrary: xs) (auto simp: Let_def split: prod.splits if_splits option.splits)

lemma selectAll_items:
  "sx_item ` set (selectAll groups grp omit d) =
     {Some p | p. p \<in> snd ` set (d_entries d) \<and> visibleTo (h_entry d p) groups
       \<and> (grp = [] \<or> Some p \<noteq> omit \<and> grp \<in> set (r_Groups (e_row (h_entry d p))))}"
proof -
  let ?P = "\<lambda>p. visibleTo (h_entry d p) groups
    \<and> \<not> (grp \<noteq> [] \<and> (Some p = omit \<or> grp \<notin> set (r_Groups (e_row (h_entry d p)))))"
  have "sx_item ` set (selectAll groups grp omit d) = Some ` {p \<in> snd ` set (d_entries d). ?P p}"
    unfolding selectAll_def set_sort set_map set_filter image_image by simp
  then show ?thesis by auto
qed

text \<open>
  a caller never sees a session it shares no group with, nor a lane that is not committed:
  every entry the directory selects, by label or by group, is visible to the caller's groups, and
  a selection by group is exactly the visible members of the group without the omitted entry,
  sorted by session identifier.
\<close>

theorem selection_only_visible:
  "(\<forall>x \<in> set (fst (fst (selectLocked groups labels grp names omit request d))).
      \<forall>p. sx_item x = Some p \<longrightarrow> visibleTo (h_entry d p) groups)
   \<and> sorted (map sx_label (selectAll groups grp omit d))
   \<and> sx_item ` set (selectAll groups grp omit d) =
     {Some p | p. p \<in> snd ` set (d_entries d) \<and> visibleTo (h_entry d p) groups
       \<and> (grp = [] \<or> Some p \<noteq> omit \<and> grp \<in> set (r_Groups (e_row (h_entry d p))))}"
proof (intro conjI)
  have all: "visibleTo (h_entry d p) groups" if "x \<in> set (selectAll groups grp omit d)" "sx_item x = Some p" for x p
    using selectAll_items[of groups grp omit d] that by force
  show "\<forall>x \<in> set (fst (fst (selectLocked groups labels grp names omit request d))).
      \<forall>p. sx_item x = Some p \<longrightarrow> visibleTo (h_entry d p) groups"
  proof (cases labels)
    case None
    with all show ?thesis by (simp add: selectLocked_def)
  next
    case (Some ls)
    let ?valid = "if names then validNamePart (d_hi d) else validIDPart (d_hi d)"
    show ?thesis
    proof (cases "selectLabels ?valid groups d ls")
      case None
      with Some show ?thesis by (simp add: selectLocked_def)
    next
      case (Some xs)
      have "\<forall>x \<in> set xs. \<forall>p. sx_item x = Some p \<longrightarrow> visibleTo (h_entry d p) groups"
        using selectLabels_visible[OF Some] by blast
      with Some \<open>labels = _\<close> show ?thesis
        by (cases xs) (auto simp: selectLocked_def split: option.splits prod.splits)
    qed
  qed
  show "sorted (map sx_label (selectAll groups grp omit d))" by (simp add: selectAll_def)
  show "sx_item ` set (selectAll groups grp omit d) =
     {Some p | p. p \<in> snd ` set (d_entries d) \<and> visibleTo (h_entry d p) groups
       \<and> (grp = [] \<or> Some p \<noteq> omit \<and> grp \<in> set (r_Groups (e_row (h_entry d p))))}"
    by (rule selectAll_items)
qed

text \<open>A directory with one committed lane for the witnesses.\<close>

definition demo_directory :: daemon where
  "demo_directory = newDirectory [demo_row] (emptyDaemon ''h'')"

lemma demo_select:
  "map sx_item (fst (fst (selectLocked [''g''] None ''g'' False None None demo_directory))) = [Some 0]"
  by (simp add: selectLocked_def selectAll_def demo_directory_def newDirectory_def newRow_def newEntry_def
      emptyDaemon_def demo_row_def gm_set_def visibleTo_def shares_def)

theorem selection_only_visible_witness:
  "map sx_item (fst (fst (selectLocked [''g''] None ''g'' False None None demo_directory))) = [Some 0]
   \<and> visibleTo (h_entry demo_directory 0) [''g'']"
proof (rule conjI[OF demo_select])
  let ?xs = "fst (fst (selectLocked [''g''] None ''g'' False None None demo_directory))"
  obtain x where "?xs = [x]" "sx_item x = Some 0" using demo_select by (cases ?xs) auto
  then show "visibleTo (h_entry demo_directory 0) [''g'']"
    using selection_only_visible[THEN conjunct1, of "[''g'']" None "''g''" False None None demo_directory] by simp
qed

theorem resolve_order_independent_witness:
  "resolveLocked ''b@h'' [''g''] (demo_directory\<lparr>d_entries := [(''a@h'', 0)]\<rparr>)
     = resolveLocked ''b@h'' [''g''] demo_directory"
proof (rule resolve_order_independent)
  show "mset [(''a@h'', 0)] = mset (d_entries demo_directory)"
    by (simp add: demo_directory_def newDirectory_def newRow_def newEntry_def emptyDaemon_def
        demo_row_def gm_set_def)
  show "gm_ok (d_entries demo_directory)"
    by (simp add: demo_directory_def newDirectory_def newRow_def newEntry_def emptyDaemon_def)
  show "gm_ok [(''a@h'', 0)]" by (simp add: gm_ok_def)
qed

section \<open>What routing does\<close>

text \<open>
  routing a request reports success exactly when it put the request, addressed to the entry,
  into the inbox of the session attached to the entry; then the entry is the current one, a
  claimed entry and a peer are only sent deliveries, and a trace copy only reaches the owner
  lifetime it names. When it fails no inbox has changed.
\<close>

theorem route_spec:
  assumes "routeLocked (Some p) method request d = (code, d')"
  shows "if code = 0
    then \<exists>s. e_attachment (h_entry d p) = Some s
      \<and> current (Some p) s d
      \<and> c_inbox (h_wire d' s) = c_inbox (h_wire d s) @ [EvRouted (request\<lparr>q_destination := Some p\<rparr>)]
      \<and> (\<forall>t. t \<noteq> s \<longrightarrow> h_wire d' t = h_wire d t)
      \<and> (e_claimed (h_entry d p) \<or> e_peer (h_entry d p) \<longrightarrow> method = ''message.deliver'')
      \<and> (q_traceCopy request \<longrightarrow> (\<exists>w. e_lifetime (h_entry d p) = Some w \<and> \<not> ow_ended (h_owner d w)
            \<and> ow_token (h_owner d w) = q_traceLifetime request))
    else \<forall>t. c_inbox (h_wire d' t) = c_inbox (h_wire d t)"
proof (cases "e_attachment (h_entry d p)")
  case None
  with assms show ?thesis by (auto simp: routeLocked_def Let_def split: if_splits)
next
  case (Some s)
  obtain c b where post: "Post (EvRouted (request\<lparr>q_destination := Some p\<rparr>)) (h_wire d s) = (c, b)"
    by (cases "Post (EvRouted (request\<lparr>q_destination := Some p\<rparr>)) (h_wire d s)")
  have inbox: "c_inbox c = (if b then c_inbox (h_wire d s) @ [EvRouted (request\<lparr>q_destination := Some p\<rparr>)]
      else c_inbox (h_wire d s))" using wire.post_inbox[OF post] by simp
  have wire: "h_wire (snd (postWire s (EvRouted (request\<lparr>q_destination := Some p\<rparr>)) d)) t
      = (if t = s then c else h_wire d t)" for t
    by (simp add: postWire_def upd_wire_def post)
  have "(code = 0 \<longrightarrow> b \<and> d' = snd (postWire s (EvRouted (request\<lparr>q_destination := Some p\<rparr>)) d)
      \<and> current (Some p) s d
      \<and> (e_claimed (h_entry d p) \<or> e_peer (h_entry d p) \<longrightarrow> method = ''message.deliver'')
      \<and> (q_traceCopy request \<longrightarrow> (\<exists>w. e_lifetime (h_entry d p) = Some w \<and> \<not> ow_ended (h_owner d w)
            \<and> ow_token (h_owner d w) = q_traceLifetime request)))
    \<and> (code \<noteq> 0 \<longrightarrow> d' = d \<or> \<not> b \<and> d' = snd (postWire s (EvRouted (request\<lparr>q_destination := Some p\<rparr>)) d))"
    using assms Some post
    by (auto simp: routeLocked_def Let_def postWire_def current_def split: if_splits option.splits)
  then show ?thesis using inbox wire Some by auto
qed

definition demo_live :: daemon where
  "demo_live = upd_entry 0 (\<lambda>e. e\<lparr>e_attachment := Some 7, e_done := False\<rparr>) demo_directory"

definition demo_request :: routedRequest where
  "demo_request = newRequest ''turn.interrupt'' (PTarget \<lparr>st_SessionID = ''a@h''\<rparr>) 3"

lemma demo_route_ok: "fst (routeLocked (Some 0) ''turn.interrupt'' demo_request demo_live) = 0"
  by (simp add: routeLocked_def demo_live_def demo_directory_def newDirectory_def newRow_def newEntry_def
      emptyDaemon_def zeroEntry_def upd_entry_def demo_row_def gm_get_def gm_set_def demo_request_def newRequest_def
      postWire_def Post_def StartConn_def upd_wire_def)

theorem route_spec_witness:
  "\<exists>s. e_attachment (h_entry demo_live 0) = Some s
     \<and> c_inbox (h_wire (snd (routeLocked (Some 0) ''turn.interrupt'' demo_request demo_live)) s)
       = c_inbox (h_wire demo_live s) @ [EvRouted (demo_request\<lparr>q_destination := Some 0\<rparr>)]"
proof -
  have e: "routeLocked (Some 0) ''turn.interrupt'' demo_request demo_live
      = (0, snd (routeLocked (Some 0) ''turn.interrupt'' demo_request demo_live))"
    using demo_route_ok by (metis prod.collapse)
  show ?thesis using route_spec[OF e] by auto
qed

section \<open>The end of an owner\<close>

text \<open>
  What \<open>endOwner\<close> leaves alone: the directory's maps, the launches, and every field of an entry
  except its trace settings.
\<close>

definition strip :: "entry \<Rightarrow> entry" where
  "strip e = e\<lparr>e_traceMode := [], e_traceVersion := []\<rparr>"

lemma strip_eqD:
  assumes "strip e = strip f"
  shows "e_row e = e_row f" "e_peer e = e_peer f" "e_claimed e = e_claimed f" "e_attachment e = e_attachment f"
    "e_done e = e_done f" "e_lifetime e = e_lifetime f" "e_parent e = e_parent f" "e_running e = e_running f"
    "e_info e = e_info f" "e_declaredGroups e = e_declaredGroups f"
  using assms by (cases e; cases f; simp add: strip_def)+

definition same_core :: "daemon \<Rightarrow> daemon \<Rightarrow> bool" where
  "same_core d d' \<longleftrightarrow>
     d_entries d' = d_entries d \<and> d_names d' = d_names d \<and> d_tokens d' = d_tokens d
     \<and> h_launch d' = h_launch d \<and> n_entry d' = n_entry d \<and> n_launch d' = n_launch d
     \<and> d_panic d' = d_panic d \<and> d_closing d' = d_closing d \<and> d_table d' = d_table d
     \<and> (\<forall>p. strip (h_entry d' p) = strip (h_entry d p))"

lemma same_core_refl [simp]: "same_core d d"
  by (simp add: same_core_def)

lemma same_core_trans: "same_core d d1 \<Longrightarrow> same_core d1 d2 \<Longrightarrow> same_core d d2"
  by (simp add: same_core_def)

lemma same_core_fold: "(\<And>x d. same_core d (f x d)) \<Longrightarrow> same_core d (fold f xs d)"
proof (induction xs arbitrary: d)
  case (Cons x xs)
  from Cons.IH[OF Cons.prems, of "f x d"] Cons.prems show ?case
    using same_core_trans by (metis fold_simps(2))
qed simp

lemma same_core_entry:
  assumes "same_core d d'"
  shows "e_row (h_entry d' p) = e_row (h_entry d p)" "e_peer (h_entry d' p) = e_peer (h_entry d p)"
    "e_claimed (h_entry d' p) = e_claimed (h_entry d p)" "e_attachment (h_entry d' p) = e_attachment (h_entry d p)"
    "e_done (h_entry d' p) = e_done (h_entry d p)" "e_parent (h_entry d' p) = e_parent (h_entry d p)"
    "e_lifetime (h_entry d' p) = e_lifetime (h_entry d p)"
  using assms strip_eqD[of "h_entry d' p" "h_entry d p"] by (simp_all add: same_core_def)

lemma ownerEndTo_core: "same_core d (ownerEndTo w host d)"
  by (simp add: ownerEndTo_def newChan_def same_core_def Let_def split: option.splits)

lemma forwardOwnerEnd_core: "same_core d (forwardOwnerEnd w d)"
  by (simp add: forwardOwnerEnd_def same_core_fold ownerEndTo_core)

lemma postWire_core: "same_core d (snd (postWire s ev d))" "same_core d (closeWire s d)"
  by (simp_all add: postWire_def closeWire_def upd_wire_def same_core_def)

lemma clear_trace_core: "same_core d (upd_entry p (\<lambda>e. e\<lparr>e_traceMode := [], e_traceVersion := []\<rparr>) d)"
  by (simp add: same_core_def upd_entry_def strip_def)

lemma notifyChild_core: "same_core d (notifyChild w p d)"
proof -
  let ?d1 = "upd_entry p (\<lambda>e. e\<lparr>e_traceMode := [], e_traceVersion := []\<rparr>) d"
  have "same_core d (snd (postWire s ev ?d1))" "same_core d (closeWire s (snd (postWire s ev ?d1)))" for s ev
    using clear_trace_core postWire_core same_core_trans by metis+
  then show ?thesis
    using clear_trace_core[of d p]
    by (simp add: notifyChild_def Let_def split: option.splits prod.splits) (metis snd_conv)
qed

lemma endOwner_core: "same_core d (endOwner owner d)"
proof (cases owner)
  case (Some w)
  let ?d1 = "upd_owner w (\<lambda>x. x\<lparr>ow_ended := True\<rparr>) d"
  have "same_core d ?d1" by (simp add: same_core_def upd_owner_def)
  moreover have "same_core ?d1 (fold (notifyChild w) (map snd (d_entries ?d1)) ?d1)"
    by (rule same_core_fold) (rule notifyChild_core)
  ultimately have "same_core d (forwardOwnerEnd w (fold (notifyChild w) (map snd (d_entries ?d1)) ?d1))"
    by (rule same_core_trans[OF same_core_trans forwardOwnerEnd_core])
  with Some show ?thesis by (simp add: endOwner_def Let_def)
qed (simp add: endOwner_def)

text \<open>A child is told: the event is in its inbox, or its connection is closed.\<close>

definition told :: "ptr \<Rightarrow> ptr \<Rightarrow> daemon \<Rightarrow> bool" where
  "told w s d \<longleftrightarrow> EvOwnerEnd w \<in> set (c_inbox (h_wire d s)) \<or> c_fdClosed (h_wire d s)"

lemma told_postWire:
  "told w s d \<Longrightarrow> told w s (snd (postWire t ev d))"
  "told w s d \<Longrightarrow> told w s (closeWire t d)"
  "fst (postWire s (EvOwnerEnd w) d) \<Longrightarrow> told w s (snd (postWire s (EvOwnerEnd w) d))"
  "told w s (closeWire s d)"
  by (auto simp: told_def postWire_def closeWire_def upd_wire_def Post_def CloseConn_def split: if_splits)

lemma told_notifyChild: "told w s d \<Longrightarrow> told w s (notifyChild v p d)"
proof -
  assume "told w s d"
  then have t: "told w s (upd_entry p f d)" for f by (simp add: told_def upd_entry_def)
  show ?thesis
    using \<open>told w s d\<close> t told_postWire(1,2)
    by (auto simp: notifyChild_def Let_def split: option.splits prod.splits) (metis snd_conv)+
qed

lemma told_fold: "told w s d \<Longrightarrow> told w s (fold (notifyChild v) ps d)"
  by (induction ps arbitrary: d) (simp_all add: told_notifyChild)

lemma told_forward: "told w s d \<Longrightarrow> told w s (forwardOwnerEnd v d)"
proof -
  have step: "told w s e \<Longrightarrow> told w s (ownerEndTo v h e)" for e h
    by (simp add: told_def ownerEndTo_def newChan_def Let_def split: option.splits)
  have "told w s e \<Longrightarrow> told w s (fold (ownerEndTo v) hs e)" for hs e
    by (induction hs arbitrary: e) (simp_all add: step)
  then show "told w s d \<Longrightarrow> ?thesis" by (simp add: forwardOwnerEnd_def)
qed

definition owned_child :: "ptr \<Rightarrow> ptr \<Rightarrow> ptr \<Rightarrow> daemon \<Rightarrow> bool" where
  "owned_child w p s d \<longleftrightarrow>
     e_parent (h_entry d p) = Some w \<and> e_attachment (h_entry d p) = Some s
     \<and> (\<exists>pol. r_Policy (e_row (h_entry d p)) = Some pol \<and> \<not> lp_Persistent pol)"

lemma told_child: "owned_child w p s d \<Longrightarrow> told w s (notifyChild w p d)"
  by (auto simp: notifyChild_def owned_child_def Let_def told_postWire split: prod.splits)
    (metis told_postWire(3) fst_conv snd_conv)

lemma told_children:
  "owned_child w p s d \<Longrightarrow> p \<in> set ps \<Longrightarrow> told w s (fold (notifyChild w) ps d)"
proof (induction ps arbitrary: d)
  case (Cons q ps)
  have "owned_child w p s (notifyChild w q d)"
    using Cons.prems(1) same_core_entry[OF notifyChild_core] by (simp add: owned_child_def)
  with Cons show ?case by (cases "p = q") (auto intro: told_fold told_child)
qed simp

text \<open>
  C37: ending an owner reaches every lane it owns: each connected, non-persistent lane of the
  directory whose parent is the owner has the end event in its inbox, or its connection is
  closed. Nothing else of the directory changes: entries keep every field but their trace
  settings, and no name, token or launch is touched.
\<close>

theorem end_owner_reaches_lanes:
  assumes "gm_get (d_entries d) key = Some p" and "owned_child w p s d" and "\<not> ow_ended (h_owner d w)"
  shows "told w s (endOwner (Some w) d) \<and> same_core d (endOwner (Some w) d)"
proof -
  let ?d1 = "upd_owner w (\<lambda>x. x\<lparr>ow_ended := True\<rparr>) d"
  have "p \<in> set (map snd (d_entries ?d1))"
    using gm_get_in_set[OF assms(1)] by (force simp: upd_owner_def)
  moreover have "owned_child w p s ?d1" using assms(2) by (simp add: owned_child_def upd_owner_def)
  ultimately have "told w s (fold (notifyChild w) (map snd (d_entries ?d1)) ?d1)"
    by (intro told_children)
  then have "told w s (endOwner (Some w) d)"
    using assms(3) by (simp add: endOwner_def Let_def told_forward)
  then show ?thesis using endOwner_core by blast
qed

definition demo_family :: daemon where
  "demo_family = upd_entry 0 (\<lambda>e. e\<lparr>e_parent := Some 5, e_row := (e_row e)\<lparr>r_Policy :=
     Some (demo_policy\<lparr>lp_Persistent := False\<rparr>)\<rparr>\<rparr>)
     (upd_owner 5 (\<lambda>x. freshOwnership ''boss@h'' ''t'' zeroCaller) demo_live)"

theorem end_owner_reaches_lanes_witness:
  "told 5 7 (endOwner (Some 5) demo_family) \<and> same_core demo_family (endOwner (Some 5) demo_family)"
proof (rule end_owner_reaches_lanes)
  show "gm_get (d_entries demo_family) ''a@h'' = Some 0"
    by (simp add: demo_family_def demo_live_def demo_directory_def newDirectory_def newRow_def newEntry_def
        emptyDaemon_def upd_entry_def upd_owner_def demo_row_def)
  show "owned_child 5 0 7 demo_family" "\<not> ow_ended (h_owner demo_family 5)"
    by (simp_all add: owned_child_def demo_family_def demo_live_def demo_directory_def newDirectory_def newRow_def newEntry_def
        emptyDaemon_def upd_entry_def upd_owner_def freshOwnership_def)
qed

end
