(* ===== verification/Lifecycle.thy ===== *)
theory Lifecycle
  imports Directory
begin

text \<open>
  The life cycle of directory entries: which goroutine holds the claim on an entry, as a step
  relation over the directory's operations.

  Several goroutines work on an entry one after the other: a spawn reserves it, the worker's
  session publishes it, detaches it and takes it offline, a close request of an offline lane
  claims its row. None of them holds the mutex throughout. The system state \<open>dsys\<close> adds to the
  daemon, for every entry, the phase its owning goroutine is in (\<open>sy_phase\<close>), and for every
  session the entry its field \<open>identity\<close> points to (\<open>sy_ident\<close>). The guards of a step are the
  conditions under which the goroutine reaches the call and what the caller passes; the effect on
  the daemon is the model's operation itself. Every outcome of a call is a step: an operation that
  can refuse has a rule for each result, and the results in which the model panics are among them.
\<close>

datatype phase =
    Gone
  | Reserved ptr
  | Live ptr
  | Ending ptr
  | Closing
  | Offline
  | Shadow ptr

record dsys =
  sy_d :: daemon
  sy_phase :: "ptr \<Rightarrow> phase"
  sy_ident :: "ptr \<Rightarrow> ptr option"

abbreviation eid :: "daemon \<Rightarrow> ptr \<Rightarrow> gostring" where "eid d p \<equiv> r_SessionID (e_row (h_entry d p))"
abbreviation ename :: "daemon \<Rightarrow> ptr \<Rightarrow> gostring" where "ename d p \<equiv> r_Name (e_row (h_entry d p))"
abbreviation ecreated :: "daemon \<Rightarrow> ptr \<Rightarrow> nat" where "ecreated d p \<equiv> r_CreatedAt (e_row (h_entry d p))"
abbreviation epeer :: "daemon \<Rightarrow> ptr \<Rightarrow> bool" where "epeer d p \<equiv> e_peer (h_entry d p)"
abbreviation eclaimed :: "daemon \<Rightarrow> ptr \<Rightarrow> bool" where "eclaimed d p \<equiv> e_claimed (h_entry d p)"
abbreviation eattached :: "daemon \<Rightarrow> ptr \<Rightarrow> ptr option" where "eattached d p \<equiv> e_attachment (h_entry d p)"
abbreviation edone :: "daemon \<Rightarrow> ptr \<Rightarrow> bool" where "edone d p \<equiv> e_done (h_entry d p)"

abbreviation entryAt :: "daemon \<Rightarrow> gostring \<Rightarrow> ptr option" where "entryAt d \<equiv> gm_get (d_entries d)"
abbreviation nameAt :: "daemon \<Rightarrow> gostring \<Rightarrow> ptr option" where "nameAt d \<equiv> gm_get (d_names d)"
abbreviation tokenAt :: "daemon \<Rightarrow> gostring \<Rightarrow> ptr option" where "tokenAt d \<equiv> gm_get (d_tokens d)"

section \<open>The invariant\<close>

text \<open>A lane in the directory under its identifier and its name.\<close>

definition listed :: "daemon \<Rightarrow> ptr \<Rightarrow> bool" where
  "listed d p \<longleftrightarrow> \<not> epeer d p \<and> entryAt d (eid d p) = Some p \<and> nameAt d (ename d p) = Some p \<and> ecreated d p \<noteq> 0"

definition reserved_ok :: "dsys \<Rightarrow> ptr \<Rightarrow> ptr \<Rightarrow> bool" where
  "reserved_ok S p l \<longleftrightarrow>
     (let d = sy_d S in
      eclaimed d p \<and> \<not> edone d p \<and> eattached d p = None \<and> \<not> epeer d p
      \<and> l < n_launch d \<and> l_entry (h_launch d l) = Some p
      \<and> (\<forall>s. l_owner (h_launch d l) = Some s \<longrightarrow> sy_ident S s = Some p)
      \<and> (ename d p \<noteq> [] \<longrightarrow> r_Policy (e_row (h_entry d p)) \<noteq> None)
      \<and> (case l_previous (h_launch d l) of
           None \<Rightarrow> ecreated d p = 0 \<and> (ename d p \<noteq> [] \<longrightarrow> nameAt d (ename d p) = Some p)
         | Some q \<Rightarrow> listed d p \<and> sy_phase S q = Shadow l \<and> eid d q = eid d p \<and> ename d q = ename d p))"

definition phase_ok :: "dsys \<Rightarrow> ptr \<Rightarrow> bool" where
  "phase_ok S p \<longleftrightarrow>
     (let d = sy_d S in
      case sy_phase S p of
        Gone \<Rightarrow> p < n_entry d \<longrightarrow> eattached d p = None
      | Reserved l \<Rightarrow> reserved_ok S p l
      | Live s \<Rightarrow> eattached d p = Some s \<and> \<not> edone d p \<and> entryAt d (eid d p) = Some p
                  \<and> sy_ident S s = Some p \<and> (\<not> epeer d p \<longrightarrow> listed d p)
      | Ending s \<Rightarrow> eclaimed d p \<and> eattached d p = None \<and> listed d p \<and> sy_ident S s = Some p
      | Closing \<Rightarrow> eclaimed d p \<and> eattached d p = None \<and> listed d p
      | Offline \<Rightarrow> \<not> eclaimed d p \<and> eattached d p = None \<and> listed d p
      | Shadow l \<Rightarrow> \<not> eclaimed d p \<and> eattached d p = None \<and> \<not> epeer d p \<and> ecreated d p \<noteq> 0
                    \<and> l_previous (h_launch d l) = Some p
                    \<and> (\<exists>p'. l_entry (h_launch d l) = Some p' \<and> sy_phase S p' = Reserved l))"

definition placed :: "phase \<Rightarrow> bool" where
  "placed ph = (case ph of Gone \<Rightarrow> False | Shadow l \<Rightarrow> False | _ \<Rightarrow> True)"

definition maps_ok :: "dsys \<Rightarrow> bool" where
  "maps_ok S \<longleftrightarrow>
     (let d = sy_d S in
      (\<forall>k p. entryAt d k = Some p \<longrightarrow> eid d p = k \<and> k \<noteq> [] \<and> placed (sy_phase S p))
      \<and> (\<forall>n p. nameAt d n = Some p \<longrightarrow> ename d p = n \<and> n \<noteq> [] \<and> \<not> epeer d p \<and> placed (sy_phase S p))
      \<and> (\<forall>t l. tokenAt d t = Some l \<longrightarrow>
           l_token (h_launch d l) = t \<and> l_owner (h_launch d l) = None \<and> l < n_launch d
           \<and> (\<exists>p. sy_phase S p = Reserved l)))"

definition life_ok :: "dsys \<Rightarrow> bool" where
  "life_ok S \<longleftrightarrow>
     \<not> d_panic (sy_d S) \<and> maps_ok S \<and> (\<forall>p. phase_ok S p)
     \<and> (\<forall>p. n_entry (sy_d S) \<le> p \<longrightarrow> sy_phase S p = Gone)
     \<and> (\<forall>s p. sy_ident S s = Some p \<longrightarrow> p < n_entry (sy_d S)) \<and> gm_ok (d_entries (sy_d S))"

section \<open>Steps\<close>

text \<open>Changes that touch nothing the life cycle depends on: posts, runs, owners, traces, the log.\<close>

definition same_life :: "daemon \<Rightarrow> daemon \<Rightarrow> bool" where
  "same_life d d' \<longleftrightarrow>
     d_entries d' = d_entries d \<and> d_names d' = d_names d \<and> d_tokens d' = d_tokens d
     \<and> n_entry d' = n_entry d \<and> d_panic d' = d_panic d
     \<and> n_launch d \<le> n_launch d' \<and> (\<forall>l < n_launch d. h_launch d' l = h_launch d l)
     \<and> (\<forall>p. e_row (h_entry d' p) = e_row (h_entry d p) \<and> epeer d' p = epeer d p
          \<and> eclaimed d' p = eclaimed d p \<and> eattached d' p = eattached d p \<and> edone d' p = edone d p)"

inductive dir_step :: "dsys \<Rightarrow> dsys \<Rightarrow> bool" where
  other: "same_life (sy_d S) d' \<Longrightarrow> dir_step S (S\<lparr>sy_d := d'\<rparr>)"
| install:
    "installPeer s (sy_ident S s) hello host (sy_d S) = (Some (p, displaced, ended), d')
     \<Longrightarrow> (\<forall>q. sy_ident S s = Some q \<longrightarrow> epeer (sy_d S) q) \<Longrightarrow> ph_SessionID hello \<noteq> []
     \<Longrightarrow> dir_step S (S\<lparr>sy_d := d', sy_ident := (sy_ident S)(s := Some p),
           sy_phase := (\<lambda>q. if q = p then Live s
                            else if ended = Some q \<or> entryAt (sy_d S) (qualify (ph_SessionID hello) host) = Some q
                            then Gone else sy_phase S q)\<rparr>)"
| install_refused:
    "installPeer s (sy_ident S s) hello host (sy_d S) = (None, d')
     \<Longrightarrow> (\<forall>q. sy_ident S s = Some q \<longrightarrow> epeer (sy_d S) q) \<Longrightarrow> ph_SessionID hello \<noteq> []
     \<Longrightarrow> dir_step S (S\<lparr>sy_d := d'\<rparr>)"
| detach_step:
    "dir_step S (S\<lparr>sy_d := detach (sy_ident S s) s (sy_d S),
       sy_phase := (\<lambda>q. if sy_phase S q = Live s then (if epeer (sy_d S) q then Gone else Ending s)
                        else sy_phase S q)\<rparr>)"
| offline_step:
    "sy_phase S p = Ending s
     \<Longrightarrow> dir_step S (S\<lparr>sy_d := offline p s forget (sy_d S),
           sy_phase := (sy_phase S)(p := if forget then Gone else Offline)\<rparr>)"
| admitted_step:
    "sy_phase S p = Live s \<Longrightarrow> dir_step S (S\<lparr>sy_d := admitted p method (sy_d S)\<rparr>)"
| fresh:
    "allocLaunch l (sy_d S) = (start, d1) \<Longrightarrow> l_entry l = None \<Longrightarrow> l_previous l = None \<Longrightarrow> l_owner l = None
     \<Longrightarrow> reserveFresh r start d1 = ((Some p, code), d')
     \<Longrightarrow> r_SessionID r = [] \<Longrightarrow> r_CreatedAt r = 0 \<Longrightarrow> r_Name r \<noteq> [] \<Longrightarrow> r_Policy r = Some policy
     \<Longrightarrow> dir_step S (S\<lparr>sy_d := d', sy_phase := (sy_phase S)(p := Reserved start)\<rparr>)"
| fresh_refused:
    "allocLaunch l (sy_d S) = (start, d1) \<Longrightarrow> reserveFresh r start d1 = ((None, code), d')
     \<Longrightarrow> dir_step S (S\<lparr>sy_d := d'\<rparr>)"
| resume:
    "allocLaunch l (sy_d S) = (start, d1) \<Longrightarrow> l_entry l = None \<Longrightarrow> l_previous l = None \<Longrightarrow> l_owner l = None
     \<Longrightarrow> l_input l = Some input \<Longrightarrow> reserveResume sid groups start d1 = ((Some p, code), d')
     \<Longrightarrow> entryAt (sy_d S) sid = Some q
     \<Longrightarrow> dir_step S (S\<lparr>sy_d := d', sy_phase := (sy_phase S)(p := Reserved start, q := Shadow start)\<rparr>)"
| resume_refused:
    "allocLaunch l (sy_d S) = (start, d1) \<Longrightarrow> l_input l = Some input
     \<Longrightarrow> reserveResume sid groups start d1 = ((None, code), d') \<Longrightarrow> dir_step S (S\<lparr>sy_d := d'\<rparr>)"
| describe_step:
    "newEntry (zeroEntry\<lparr>e_row := (e_row zeroEntry)\<lparr>r_Product := product\<rparr>, e_claimed := True\<rparr>) (sy_d S) = (p, d1)
     \<Longrightarrow> allocLaunch (l\<lparr>l_entry := Some p\<rparr>) d1 = (start, d2) \<Longrightarrow> l_previous l = None \<Longrightarrow> l_owner l = None
     \<Longrightarrow> reserveDescribe start d2 = (code, d')
     \<Longrightarrow> dir_step S (S\<lparr>sy_d := d', sy_phase := (if code = 0 then (sy_phase S)(p := Reserved start) else sy_phase S)\<rparr>)"
| claim:
    "claimWorker s token product (sy_d S) = (Some start, d') \<Longrightarrow> sy_ident S s = None
     \<Longrightarrow> dir_step S (S\<lparr>sy_d := d', sy_ident := (sy_ident S)(s := l_entry (h_launch (sy_d S) start))\<rparr>)"
| claim_refused: "claimWorker s token product (sy_d S) = (None, d') \<Longrightarrow> dir_step S (S\<lparr>sy_d := d'\<rparr>)"
| open_id:
    "sy_phase S p = Reserved start \<Longrightarrow> l_previous (h_launch (sy_d S) start) = None \<Longrightarrow> ename (sy_d S) p \<noteq> []
     \<Longrightarrow> (\<forall>k. entryAt (sy_d S) k \<noteq> Some p) \<Longrightarrow> sid \<noteq> []
     \<Longrightarrow> reserveID p sid (upd_entry p (\<lambda>e. e\<lparr>e_row := (e_row e)\<lparr>r_SessionID := sid\<rparr>\<rparr>) (sy_d S)) = (ok, d')
     \<Longrightarrow> dir_step S (S\<lparr>sy_d := d'\<rparr>)"
| publish_step:
    "sy_phase S p = Reserved start \<Longrightarrow> l_owner (h_launch (sy_d S) start) = Some s \<Longrightarrow> ename (sy_d S) p \<noteq> []
     \<Longrightarrow> publish start s createdAt (sy_d S) = (True, d')
     \<Longrightarrow> (l_previous (h_launch (sy_d S) start) = None \<Longrightarrow> createdAt \<noteq> 0)
     \<Longrightarrow> dir_step S (S\<lparr>sy_d := d',
           sy_phase := (\<lambda>q. if q = p then Live s
                            else if l_previous (h_launch (sy_d S) start) = Some q then Gone else sy_phase S q)\<rparr>)"
| publish_refused:
    "sy_phase S p = Reserved start \<Longrightarrow> l_owner (h_launch (sy_d S) start) = Some s \<Longrightarrow> ename (sy_d S) p \<noteq> []
     \<Longrightarrow> publish start s createdAt (sy_d S) = (False, d') \<Longrightarrow> dir_step S (S\<lparr>sy_d := d'\<rparr>)"
| revoke: "revokeLaunch start (sy_d S) = (ok, d') \<Longrightarrow> dir_step S (S\<lparr>sy_d := d'\<rparr>)"
| release:
    "sy_phase S p = Reserved start
     \<Longrightarrow> dir_step S (S\<lparr>sy_d := releaseLaunch start (sy_d S),
           sy_phase := (\<lambda>q. if q = p then Gone
                            else if l_previous (h_launch (sy_d S) start) = Some q then Offline else sy_phase S q)\<rparr>)"
| close_claim:
    "selectLocked groups labels grp names omit request (sy_d S) = ((xs, code, Some p), d')
     \<Longrightarrow> dir_step S (S\<lparr>sy_d := d', sy_phase := (sy_phase S)(p := Closing)\<rparr>)"
| select_step:
    "selectLocked groups labels grp names omit request (sy_d S) = ((xs, code, None), d')
     \<Longrightarrow> (request \<noteq> None \<longrightarrow> labels = Some [label]) \<Longrightarrow> dir_step S (S\<lparr>sy_d := d'\<rparr>)"
| close_finish:
    "sy_phase S p = Closing \<Longrightarrow> request = newRequest ''session.close'' (PClose c) reply
     \<Longrightarrow> offlineDelete p (sc_Forget c) (sy_d S) = (deleted, d1)
     \<Longrightarrow> dir_step S (S\<lparr>sy_d := finishOfflineClose p request (sy_d S),
           sy_phase := (sy_phase S)(p := if sc_Forget c \<and> deleted then Gone else Offline)\<rparr>)"
| close_commit:
    "sy_phase S p = Closing \<Longrightarrow> offlineCommit p forget deleted (sy_d S) = (ok, d')
     \<Longrightarrow> dir_step S (S\<lparr>sy_d := d',
           sy_phase := (sy_phase S)(p := if forget \<and> deleted then Gone else Offline)\<rparr>)"

text \<open>
  The callers' guarantees: a spawn passes its request to \<open>reserveResume\<close> and the policy it has
  normalised to \<open>reserveFresh\<close>; a routed request is selected with the one label it names; the
  request of an offline close is the routed one, with its decoded parameters and a reply channel.
  \<open>close_finish\<close> is \<open>finishOfflineClose\<close> run without interference; \<open>close_commit\<close> is its critical
  section alone, because the mutex is dropped while the row is deleted: the deletion before it and
  the answer after it are steps \<open>other\<close>.

  A daemon that has just loaded its table:
\<close>

definition rows_ok :: "row list \<Rightarrow> bool" where
  "rows_ok rows \<longleftrightarrow> distinct (map r_SessionID rows) \<and> distinct (map r_Name rows)
     \<and> (\<forall>r \<in> set rows. r_SessionID r \<noteq> [] \<and> r_Name r \<noteq> [] \<and> r_CreatedAt r \<noteq> 0)"

definition dir_init :: "dsys \<Rightarrow> bool" where
  "dir_init S \<longleftrightarrow>
     (\<exists>rows d. rows_ok rows \<and> n_entry d = 0 \<and> \<not> d_panic d \<and> sy_d S = newDirectory rows d
        \<and> sy_phase S = (\<lambda>p. if p < length rows then Offline else Gone) \<and> sy_ident S = (\<lambda>s. None))"

section \<open>Effects of the operations on what the life cycle depends on\<close>

lemma phase_alloc: "life_ok S \<Longrightarrow> sy_phase S p \<noteq> Gone \<Longrightarrow> p < n_entry (sy_d S)"
  unfolding life_ok_def by (meson not_le)

lemma life_okD:
  assumes "life_ok S"
  shows "\<not> d_panic (sy_d S)" "maps_ok S" "phase_ok S p" "n_entry (sy_d S) \<le> p \<Longrightarrow> sy_phase S p = Gone"
    "sy_ident S s = Some p \<Longrightarrow> p < n_entry (sy_d S)" "gm_ok (d_entries (sy_d S))"
  using assms by (simp_all add: life_ok_def)

lemma entryAtD:
  assumes "life_ok S" "entryAt (sy_d S) k = Some p"
  shows "eid (sy_d S) p = k" "k \<noteq> []" "placed (sy_phase S p)" "p < n_entry (sy_d S)"
proof -
  show "eid (sy_d S) p = k" "k \<noteq> []" and pl: "placed (sy_phase S p)"
    using assms by (simp_all add: life_ok_def maps_ok_def Let_def)
  then have "sy_phase S p \<noteq> Gone" by (auto simp: placed_def)
  then show "p < n_entry (sy_d S)" using assms(1) by (rule phase_alloc[rotated])
qed

lemma nameAtD:
  assumes "life_ok S" "nameAt (sy_d S) k = Some p"
  shows "ename (sy_d S) p = k" "k \<noteq> []" "\<not> epeer (sy_d S) p" "placed (sy_phase S p)" "p < n_entry (sy_d S)"
proof -
  show "ename (sy_d S) p = k" "k \<noteq> []" "\<not> epeer (sy_d S) p" and pl: "placed (sy_phase S p)"
    using assms by (simp_all add: life_ok_def maps_ok_def Let_def)
  then have "sy_phase S p \<noteq> Gone" by (auto simp: placed_def)
  then show "p < n_entry (sy_d S)" using assms(1) by (rule phase_alloc[rotated])
qed

lemma tokenAtD:
  assumes "life_ok S" "tokenAt (sy_d S) t = Some l"
  shows "l_token (h_launch (sy_d S) l) = t" "l_owner (h_launch (sy_d S) l) = None" "l < n_launch (sy_d S)"
    "\<exists>p. sy_phase S p = Reserved l"
  using assms by (simp_all add: life_ok_def maps_ok_def Let_def)

lemma phaseD:
  assumes "life_ok S"
  shows "sy_phase S p = Live s \<Longrightarrow> eattached (sy_d S) p = Some s \<and> \<not> edone (sy_d S) p
        \<and> entryAt (sy_d S) (eid (sy_d S) p) = Some p \<and> sy_ident S s = Some p
        \<and> (\<not> epeer (sy_d S) p \<longrightarrow> listed (sy_d S) p)"
    "sy_phase S p = Reserved l \<Longrightarrow> reserved_ok S p l"
    "sy_phase S p = Ending s \<Longrightarrow> eclaimed (sy_d S) p \<and> eattached (sy_d S) p = None \<and> listed (sy_d S) p
        \<and> sy_ident S s = Some p"
    "sy_phase S p = Closing \<Longrightarrow> eclaimed (sy_d S) p \<and> eattached (sy_d S) p = None \<and> listed (sy_d S) p"
    "sy_phase S p = Offline \<Longrightarrow> \<not> eclaimed (sy_d S) p \<and> eattached (sy_d S) p = None \<and> listed (sy_d S) p"
  using life_okD(3)[OF assms, of p] by (simp_all add: phase_ok_def Let_def)

text \<open>An attached entry is live; an entry of the directory that is neither claimed nor attached is offline.\<close>

lemma attached_live:
  assumes "life_ok S" "eattached (sy_d S) p = Some s" "p < n_entry (sy_d S)"
  shows "sy_phase S p = Live s"
  using life_okD(3)[OF assms(1), of p] assms(2,3)
  by (auto simp: phase_ok_def reserved_ok_def Let_def split: phase.splits)

lemma idle_offline:
  assumes "life_ok S" "entryAt (sy_d S) k = Some p" "eattached (sy_d S) p = None" "\<not> eclaimed (sy_d S) p"
  shows "sy_phase S p = Offline"
  using life_okD(3)[OF assms(1), of p] entryAtD(3)[OF assms(1,2)] assms(3,4)
  by (auto simp: phase_ok_def reserved_ok_def placed_def Let_def split: phase.splits)

lemma peer_live:
  assumes "life_ok S" "entryAt (sy_d S) k = Some p" "epeer (sy_d S) p"
  shows "\<exists>s. sy_phase S p = Live s"
  using life_okD(3)[OF assms(1), of p] entryAtD(3)[OF assms(1,2)] assms(3)
  by (auto simp: phase_ok_def reserved_ok_def listed_def placed_def Let_def split: phase.splits)

lemma same_life_ok:
  assumes "life_ok S" "same_life (sy_d S) d'"
  shows "life_ok (S\<lparr>sy_d := d'\<rparr>)"
proof -
  have f: "d_entries d' = d_entries (sy_d S)" "d_names d' = d_names (sy_d S)" "d_tokens d' = d_tokens (sy_d S)"
    "n_entry d' = n_entry (sy_d S)" "d_panic d' = d_panic (sy_d S)" "n_launch (sy_d S) \<le> n_launch d'"
    "\<And>l. l < n_launch (sy_d S) \<Longrightarrow> h_launch d' l = h_launch (sy_d S) l"
    "\<And>p. e_row (h_entry d' p) = e_row (h_entry (sy_d S) p)" "\<And>p. epeer d' p = epeer (sy_d S) p"
    "\<And>p. eclaimed d' p = eclaimed (sy_d S) p" "\<And>p. eattached d' p = eattached (sy_d S) p"
    "\<And>p. edone d' p = edone (sy_d S) p"
    using assms(2) by (simp_all add: same_life_def)
  have listed: "listed d' p = listed (sy_d S) p" for p by (simp add: listed_def f)
  have "l < n_launch (sy_d S)" if "sy_phase S p = Reserved l" for p l
    using phaseD(2)[OF assms(1) that] by (simp add: reserved_ok_def Let_def)
  moreover have "phase_ok (S\<lparr>sy_d := d'\<rparr>) p" for p
  proof (cases "sy_phase S p")
    case (Reserved l)
    with life_okD(3)[OF assms(1), of p] show ?thesis
      by (auto simp: phase_ok_def reserved_ok_def Let_def f listed
          intro: less_le_trans[OF _ f(6)] split: option.splits)
  next
    case (Shadow l)
    with life_okD(3)[OF assms(1), of p] calculation show ?thesis
      by (auto simp: phase_ok_def Let_def f)
  qed (use life_okD(3)[OF assms(1), of p] in \<open>auto simp: phase_ok_def Let_def f listed\<close>)
  moreover have "maps_ok (S\<lparr>sy_d := d'\<rparr>)"
    using life_okD(2)[OF assms(1)] by (auto simp: maps_ok_def Let_def f intro: less_le_trans[OF _ f(6)])
  ultimately show ?thesis using life_okD(1,4,5,6)[OF assms(1)] by (simp add: life_ok_def f)
qed

lemma end_entry_effect:
  assumes "\<not> edone d p"
  shows "d_entries (end_entry p d) = d_entries d" "d_names (end_entry p d) = d_names d"
    "d_tokens (end_entry p d) = d_tokens d" "h_launch (end_entry p d) = h_launch d"
    "n_entry (end_entry p d) = n_entry d" "n_launch (end_entry p d) = n_launch d"
    "d_panic (end_entry p d) = d_panic d"
    "e_row (h_entry (end_entry p d) q) = e_row (h_entry d q)"
    "epeer (end_entry p d) q = epeer d q" "eclaimed (end_entry p d) q = eclaimed d q"
    "eattached (end_entry p d) q = (if q = p then None else eattached d q)"
    "edone (end_entry p d) q = (q = p \<or> edone d q)"
proof -
  let ?d1 = "upd_entry p (\<lambda>e. e\<lparr>e_traceMode := [], e_traceVersion := []\<rparr>) d"
  define d2 where "d2 = endOwner (e_lifetime (h_entry ?d1 p)) ?d1"
  have "same_core d d2" unfolding d2_def by (rule same_core_trans[OF clear_trace_core endOwner_core])
  note c = this same_core_entry[OF this]
  have e: "end_entry p d = upd_entry p (\<lambda>e. e\<lparr>e_attachment := None, e_running := False, e_done := True\<rparr>) d2"
    using assms c by (simp add: end_entry_def d2_def closeDone_def upd_entry_def Let_def heap_upd_def)
  show "d_entries (end_entry p d) = d_entries d" "d_names (end_entry p d) = d_names d"
    "d_tokens (end_entry p d) = d_tokens d" "h_launch (end_entry p d) = h_launch d"
    "n_entry (end_entry p d) = n_entry d" "n_launch (end_entry p d) = n_launch d"
    "d_panic (end_entry p d) = d_panic d"
    "e_row (h_entry (end_entry p d) q) = e_row (h_entry d q)"
    "epeer (end_entry p d) q = epeer d q" "eclaimed (end_entry p d) q = eclaimed d q"
    "eattached (end_entry p d) q = (if q = p then None else eattached d q)"
    "edone (end_entry p d) q = (q = p \<or> edone d q)"
    using c by (simp_all add: e upd_entry_def same_core_def)
qed

section \<open>Entries a step does not touch\<close>

text \<open>
  An entry keeps its phase when its own fields, its places in the maps, its launch and the entry
  it shares that launch with are kept.
\<close>

definition kept :: "dsys \<Rightarrow> dsys \<Rightarrow> ptr \<Rightarrow> bool" where
  "kept S S' q \<longleftrightarrow>
     (let d = sy_d S; d' = sy_d S' in
      sy_phase S' q = sy_phase S q
      \<and> e_row (h_entry d' q) = e_row (h_entry d q) \<and> epeer d' q = epeer d q \<and> eclaimed d' q = eclaimed d q
      \<and> eattached d' q = eattached d q \<and> edone d' q = edone d q
      \<and> (entryAt d (eid d q) = Some q \<longrightarrow> entryAt d' (eid d q) = Some q)
      \<and> (nameAt d (ename d q) = Some q \<longrightarrow> nameAt d' (ename d q) = Some q)
      \<and> (\<forall>s. sy_ident S s = Some q \<longrightarrow> sy_ident S' s = Some q)
      \<and> n_launch d \<le> n_launch d'
      \<and> (\<forall>l. sy_phase S q = Reserved l \<or> sy_phase S q = Shadow l \<longrightarrow>
           l_entry (h_launch d' l) = l_entry (h_launch d l)
           \<and> l_previous (h_launch d' l) = l_previous (h_launch d l)
           \<and> (l_owner (h_launch d' l) = l_owner (h_launch d l)
              \<or> (\<forall>s. l_owner (h_launch d' l) = Some s \<longrightarrow> sy_ident S' s = l_entry (h_launch d l)))
           \<and> (\<forall>r. sy_phase S r = Shadow l \<longrightarrow> sy_phase S' r = Shadow l \<and> e_row (h_entry d' r) = e_row (h_entry d r))
           \<and> (\<forall>r. sy_phase S r = Reserved l \<longrightarrow> sy_phase S' r = Reserved l)))"

lemma kept_ok:
  assumes "life_ok S" "kept S S' q" "sy_phase S q \<noteq> Gone"
  shows "phase_ok S' q"
proof -
  note k = assms(2)[unfolded kept_def Let_def]
  have listed: "listed (sy_d S) q \<Longrightarrow> listed (sy_d S') q" using k by (simp add: listed_def)
  have ok: "phase_ok S q" using life_okD(3)[OF assms(1)] .
  show ?thesis
  proof (cases "sy_phase S q")
    case (Reserved l)
    with ok have r: "reserved_ok S q l" by (simp add: phase_ok_def Let_def)
    have l: "l_entry (h_launch (sy_d S') l) = Some q" "l_previous (h_launch (sy_d S') l) = l_previous (h_launch (sy_d S) l)"
      using k Reserved r by (simp_all add: reserved_ok_def Let_def)
    have "\<forall>s. l_owner (h_launch (sy_d S') l) = Some s \<longrightarrow> sy_ident S' s = Some q"
    proof (intro allI impI)
      fix s assume "l_owner (h_launch (sy_d S') l) = Some s"
      with k Reserved r show "sy_ident S' s = Some q" by (auto simp: reserved_ok_def Let_def)
    qed
    moreover have "l < n_launch (sy_d S')" using k r by (auto simp: reserved_ok_def Let_def)
    ultimately have "reserved_ok S' q l"
      using r l k Reserved listed by (auto simp: reserved_ok_def Let_def split: option.splits)
    with k Reserved show ?thesis by (simp add: phase_ok_def Let_def)
  next
    case (Shadow l)
    with ok k show ?thesis by (auto simp: phase_ok_def Let_def)
  qed (use ok k listed assms(3) in \<open>auto simp: phase_ok_def Let_def\<close>)
qed

text \<open>The invariant from its parts, after a step that touches the entries in \<open>T\<close>.\<close>

lemma life_okI:
  assumes "life_ok S" "\<not> d_panic (sy_d S')" "maps_ok S'"
    and "\<And>q. q \<in> T \<Longrightarrow> phase_ok S' q"
    and "\<And>q. q \<notin> T \<Longrightarrow> sy_phase S q \<noteq> Gone \<Longrightarrow> kept S S' q"
    and "\<And>q. q \<notin> T \<Longrightarrow> sy_phase S q = Gone \<Longrightarrow>
           sy_phase S' q = Gone \<and> (q < n_entry (sy_d S') \<longrightarrow> q < n_entry (sy_d S) \<and> eattached (sy_d S') q = eattached (sy_d S) q)"
    and "\<And>q. n_entry (sy_d S') \<le> q \<Longrightarrow> sy_phase S' q = Gone"
    and "\<And>s q. sy_ident S' s = Some q \<Longrightarrow> q < n_entry (sy_d S')"
    and "gm_ok (d_entries (sy_d S'))"
  shows "life_ok S'"
proof -
  have "phase_ok S' q" for q
  proof (cases "q \<in> T \<or> sy_phase S q \<noteq> Gone")
    case True
    with assms(4,5) kept_ok[OF assms(1)] show ?thesis by blast
  next
    case False
    with assms(6)[of q] life_okD(3)[OF assms(1), of q] show ?thesis
      by (auto simp: phase_ok_def Let_def)
  qed
  with assms(2,3,7,8,9) show ?thesis by (simp add: life_ok_def)
qed

text \<open>The maps after a step: each binding is an old one or a new one with the right key.\<close>

abbreviation entry_bound :: "dsys \<Rightarrow> dsys \<Rightarrow> gostring \<Rightarrow> ptr \<Rightarrow> bool" where
  "entry_bound S S' k q \<equiv>
     (entryAt (sy_d S) k = Some q \<and> eid (sy_d S') q = eid (sy_d S) q \<or> eid (sy_d S') q = k \<and> k \<noteq> [])
     \<and> placed (sy_phase S' q)"

abbreviation name_bound :: "dsys \<Rightarrow> dsys \<Rightarrow> gostring \<Rightarrow> ptr \<Rightarrow> bool" where
  "name_bound S S' k q \<equiv>
     (nameAt (sy_d S) k = Some q \<and> ename (sy_d S') q = ename (sy_d S) q \<or> ename (sy_d S') q = k \<and> k \<noteq> [])
     \<and> \<not> epeer (sy_d S') q \<and> placed (sy_phase S' q)"

abbreviation token_bound :: "dsys \<Rightarrow> dsys \<Rightarrow> gostring \<Rightarrow> ptr \<Rightarrow> bool" where
  "token_bound S S' t l \<equiv>
     tokenAt (sy_d S) t = Some l \<and> l_token (h_launch (sy_d S') l) = l_token (h_launch (sy_d S) l)
       \<and> l_owner (h_launch (sy_d S') l) = l_owner (h_launch (sy_d S) l) \<and> n_launch (sy_d S) \<le> n_launch (sy_d S')
       \<and> (\<forall>p. sy_phase S p = Reserved l \<longrightarrow> sy_phase S' p = Reserved l)
     \<or> l_token (h_launch (sy_d S') l) = t \<and> l_owner (h_launch (sy_d S') l) = None \<and> l < n_launch (sy_d S')
       \<and> (\<exists>p. sy_phase S' p = Reserved l)"

lemma maps_okI:
  assumes "life_ok S"
    and "\<And>k q. entryAt (sy_d S') k = Some q \<Longrightarrow> entry_bound S S' k q"
    and "\<And>k q. nameAt (sy_d S') k = Some q \<Longrightarrow> name_bound S S' k q"
    and "\<And>t l. tokenAt (sy_d S') t = Some l \<Longrightarrow> token_bound S S' t l"
  shows "maps_ok S'"
  unfolding maps_ok_def Let_def
proof (intro conjI allI impI)
  show "eid (sy_d S') p = k" "k \<noteq> []" "placed (sy_phase S' p)" if "entryAt (sy_d S') k = Some p" for k p
    using assms(2)[OF that] entryAtD[OF assms(1), of k p] by auto
  show "ename (sy_d S') p = k" "k \<noteq> []" "\<not> epeer (sy_d S') p" "placed (sy_phase S' p)"
    if "nameAt (sy_d S') k = Some p" for k p
    using assms(3)[OF that] nameAtD[OF assms(1), of k p] by auto
  show "l_token (h_launch (sy_d S') l) = t" "l_owner (h_launch (sy_d S') l) = None" "l < n_launch (sy_d S')"
    "\<exists>p. sy_phase S' p = Reserved l" if "tokenAt (sy_d S') t = Some l" for t l
    using assms(4)[OF that] tokenAtD[OF assms(1), of t l] by auto
qed

section \<open>The steps keep the invariant\<close>

lemma admitted_ok:
  assumes "life_ok S" "sy_phase S p = Live s"
  shows "life_ok (S\<lparr>sy_d := admitted p method (sy_d S)\<rparr>)"
proof (rule life_okI[OF assms(1), where T = "{p}"])
  let ?S = "S\<lparr>sy_d := admitted p method (sy_d S)\<rparr>"
  show "\<not> d_panic (sy_d ?S)" using life_okD(1)[OF assms(1)] by (simp add: admitted_def upd_entry_def)
  show "maps_ok ?S" using life_okD(2)[OF assms(1)]
    by (auto simp: maps_ok_def Let_def admitted_def upd_entry_def)
  show "phase_ok ?S q" if "q \<in> {p}" for q
    using phaseD(1)[OF assms] assms(2) that
    by (auto simp: phase_ok_def Let_def admitted_def upd_entry_def listed_def)
  show "kept S ?S q" if "q \<notin> {p}" for q
    using that assms(2) by (auto simp: kept_def Let_def admitted_def upd_entry_def)
qed (use life_okD(4,5,6)[OF assms(1)] in \<open>auto simp: admitted_def upd_entry_def\<close>)

lemma live_unique: "life_ok S \<Longrightarrow> sy_phase S p = Live s \<Longrightarrow> sy_phase S q = Live s \<Longrightarrow> q = p"
  using phaseD(1)[of S p s] phaseD(1)[of S q s] by simp

lemma detach_idle:
  assumes "life_ok S" "\<And>q. sy_phase S q \<noteq> Live s"
  shows "detach (sy_ident S s) s (sy_d S) = sy_d S"
proof (cases "sy_ident S s")
  case (Some q)
  then have "eattached (sy_d S) q \<noteq> Some s"
    using attached_live[OF assms(1), of q s] life_okD(5)[OF assms(1) Some] assms(2) by blast
  with Some show ?thesis by (simp add: detach_def)
qed (simp add: detach_def)

lemma detach_effect:
  assumes "life_ok S" "sy_phase S p = Live s"
  defines "d \<equiv> sy_d S" and "d' \<equiv> detach (sy_ident S s) s (sy_d S)"
  shows "d_entries d' = (if epeer d p then gm_del (eid d p) (d_entries d) else d_entries d)"
    "d_names d' = d_names d" "d_tokens d' = d_tokens d" "h_launch d' = h_launch d"
    "n_entry d' = n_entry d" "n_launch d' = n_launch d" "d_panic d' = d_panic d"
    "e_row (h_entry d' q) = e_row (h_entry d q)" "epeer d' q = epeer d q"
    "eclaimed d' q = (if q = p \<and> \<not> epeer d p then True else eclaimed d q)"
    "eattached d' q = (if q = p then None else eattached d q)"
    "edone d' q = (q = p \<or> edone d q)"
proof -
  have l: "sy_ident S s = Some p" "eattached d p = Some s" "\<not> edone d p"
    using phaseD(1)[OF assms(1,2)] by (simp_all add: d_def)
  have e: "d' = (if epeer d p then (end_entry p d)\<lparr>d_entries := gm_del (eid d p) (d_entries d)\<rparr>
      else upd_entry p (\<lambda>e. e\<lparr>e_claimed := True\<rparr>) (end_entry p d))"
    using l by (simp add: d'_def detach_def d_def[symmetric] end_entry_effect Let_def)
  show "d_entries d' = (if epeer d p then gm_del (eid d p) (d_entries d) else d_entries d)"
    "d_names d' = d_names d" "d_tokens d' = d_tokens d" "h_launch d' = h_launch d"
    "n_entry d' = n_entry d" "n_launch d' = n_launch d" "d_panic d' = d_panic d"
    "e_row (h_entry d' q) = e_row (h_entry d q)" "epeer d' q = epeer d q"
    "eclaimed d' q = (if q = p \<and> \<not> epeer d p then True else eclaimed d q)"
    "eattached d' q = (if q = p then None else eattached d q)"
    "edone d' q = (q = p \<or> edone d q)"
    using l by (simp_all add: e end_entry_effect upd_entry_def)
qed

lemma detach_ok:
  assumes "life_ok S"
  shows "life_ok (S\<lparr>sy_d := detach (sy_ident S s) s (sy_d S),
       sy_phase := (\<lambda>q. if sy_phase S q = Live s then (if epeer (sy_d S) q then Gone else Ending s)
                        else sy_phase S q)\<rparr>)"
    (is "life_ok ?S")
proof (cases "\<exists>p. sy_phase S p = Live s")
  case False
  then have nl: "\<And>q. sy_phase S q \<noteq> Live s" by blast
  with detach_idle[OF assms nl] assms show ?thesis by simp
next
  case True
  then obtain p where p: "sy_phase S p = Live s" by blast
  define S' where "S' = ?S"
  define d' where "d' = detach (sy_ident S s) s (sy_d S)"
  note e = detach_effect[OF assms p, folded d'_def] and l = phaseD(1)[OF assms p]
  have ph: "sy_phase S' q = (if q = p then if epeer (sy_d S) p then Gone else Ending s else sy_phase S q)" for q
    using live_unique[OF assms p, of q] p by (cases "q = p") (auto simp: S'_def)
  have sd: "sy_d S' = d'" "sy_ident S' = sy_ident S" by (simp_all add: S'_def d'_def)
  have alloc: "p < n_entry (sy_d S)" using phase_alloc[OF assms, of p] p by simp
  have "life_ok S'"
  proof (rule life_okI[OF assms, where T = "{p}"])
    show "\<not> d_panic (sy_d S')" using life_okD(1)[OF assms] by (simp add: e sd)
    show "maps_ok S'"
    proof (rule maps_okI[OF assms])
      fix k q assume "entryAt (sy_d S') k = Some q"
      then have "entryAt (sy_d S) k = Some q" "\<not> (epeer (sy_d S) p \<and> q = p)"
        using l entryAtD(1)[OF assms, of k q] by (auto simp: e sd split: if_splits)
      then show "entry_bound S S' k q"
        using entryAtD(3)[OF assms, of k q] ph[of q] by (auto simp: e sd placed_def)
    next
      fix k q assume "nameAt (sy_d S') k = Some q"
      then show "name_bound S S' k q"
        using nameAtD(3,4)[OF assms, of k q] ph[of q] by (auto simp: e sd placed_def)
    next
      fix t k assume "tokenAt (sy_d S') t = Some k"
      then show "token_bound S S' t k" using p by (auto simp: e sd ph)
    qed
    show "phase_ok S' q" if "q \<in> {p}" for q
      using that l by (auto simp: phase_ok_def Let_def e ph sd listed_def)
    show "kept S S' q" if "q \<notin> {p}" "sy_phase S q \<noteq> Gone" for q
      using that l p by (auto simp: kept_def Let_def e ph sd)
  qed (use life_okD(4,5,6)[OF assms] alloc in \<open>auto simp: e ph sd\<close>)
  then show ?thesis by (simp add: S'_def)
qed

text \<open>Leaving a claim on a listed lane: the entry goes offline or is removed.\<close>

lemma unclaim_ok:
  assumes "life_ok S" "sy_phase S p = Ending s \<or> sy_phase S p = Closing"
    and "sy_d S' = (upd_entry p (\<lambda>e. e\<lparr>e_claimed := False\<rparr>) (sy_d S))
           \<lparr>d_entries := (if gone then gm_del (eid (sy_d S) p) (d_entries (sy_d S)) else d_entries (sy_d S)),
            d_names := (if gone then gm_del (ename (sy_d S) p) (d_names (sy_d S)) else d_names (sy_d S))\<rparr>"
    and "sy_phase S' = (sy_phase S)(p := if gone then Gone else Offline)" and "sy_ident S' = sy_ident S"
  shows "life_ok S'"
proof -
  have l: "eattached (sy_d S) p = None" "listed (sy_d S) p"
    using assms(2) phaseD(3,4)[OF assms(1), of p] by auto
  have alloc: "p < n_entry (sy_d S)" using phase_alloc[OF assms(1), of p] assms(2) by auto
  note s' = assms(3-5)
  show ?thesis
  proof (rule life_okI[OF assms(1), where T = "{p}"])
    show "\<not> d_panic (sy_d S')" using life_okD(1)[OF assms(1)] by (simp add: s' upd_entry_def)
    show "maps_ok S'"
    proof (rule maps_okI[OF assms(1)])
      fix k q assume "entryAt (sy_d S') k = Some q"
      then have "entryAt (sy_d S) k = Some q" "\<not> (gone \<and> q = p)"
        using l entryAtD(1)[OF assms(1), of k q] by (auto simp: s' upd_entry_def split: if_splits)
      then show "entry_bound S S' k q"
        using entryAtD(3)[OF assms(1), of k q] by (auto simp: s' upd_entry_def placed_def)
    next
      fix k q assume "nameAt (sy_d S') k = Some q"
      then have "nameAt (sy_d S) k = Some q" "\<not> (gone \<and> q = p)"
        using l nameAtD(1)[OF assms(1), of k q] by (auto simp: s' upd_entry_def split: if_splits)
      then show "name_bound S S' k q"
        using nameAtD(3,4)[OF assms(1), of k q] by (auto simp: s' upd_entry_def placed_def)
    next
      fix t k assume "tokenAt (sy_d S') t = Some k"
      then show "token_bound S S' t k" using assms(2) by (auto simp: s' upd_entry_def)
    qed
    show "phase_ok S' q" if "q \<in> {p}" for q
      using that l by (auto simp: phase_ok_def Let_def s' upd_entry_def listed_def)
    show "kept S S' q" if "q \<notin> {p}" "sy_phase S q \<noteq> Gone" for q
      using that l assms(2) by (auto simp: kept_def Let_def s' upd_entry_def listed_def)
  qed (use life_okD(4,5,6)[OF assms(1)] alloc in \<open>auto simp: s' upd_entry_def\<close>)
qed

lemma offline_ok:
  assumes "life_ok S" "sy_phase S p = Ending s"
  shows "life_ok (S\<lparr>sy_d := offline p s forget (sy_d S),
           sy_phase := (sy_phase S)(p := if forget then Gone else Offline)\<rparr>)"
proof (rule unclaim_ok[OF assms(1), where gone = forget])
  show "sy_phase S p = Ending s \<or> sy_phase S p = Closing" using assms(2) by simp
  have "eattached (sy_d S) p = None" "listed (sy_d S) p" using phaseD(3)[OF assms] by auto
  then show "sy_d (S\<lparr>sy_d := offline p s forget (sy_d S), sy_phase := (sy_phase S)(p := if forget then Gone else Offline)\<rparr>)
    = (upd_entry p (\<lambda>e. e\<lparr>e_claimed := False\<rparr>) (sy_d S))
           \<lparr>d_entries := (if forget then gm_del (eid (sy_d S) p) (d_entries (sy_d S)) else d_entries (sy_d S)),
            d_names := (if forget then gm_del (ename (sy_d S) p) (d_names (sy_d S)) else d_names (sy_d S))\<rparr>"
    by (simp add: offline_def listed_def Let_def upd_entry_def)
qed simp_all

lemma offlineCommit_effect:
  assumes "life_ok S" "sy_phase S p = Closing"
  shows "offlineCommit p forget deleted (sy_d S) =
    (True, (upd_entry p (\<lambda>e. e\<lparr>e_claimed := False\<rparr>) (sy_d S))
       \<lparr>d_entries := (if forget \<and> deleted then gm_del (eid (sy_d S) p) (d_entries (sy_d S)) else d_entries (sy_d S)),
        d_names := (if forget \<and> deleted then gm_del (ename (sy_d S) p) (d_names (sy_d S)) else d_names (sy_d S))\<rparr>)"
  using phaseD(4)[OF assms] by (simp add: offlineCommit_def listed_def Let_def upd_entry_def)

lemma close_commit_ok:
  assumes "life_ok S" "sy_phase S p = Closing" "offlineCommit p forget deleted (sy_d S) = (ok, d')"
  shows "life_ok (S\<lparr>sy_d := d', sy_phase := (sy_phase S)(p := if forget \<and> deleted then Gone else Offline)\<rparr>)"
proof (rule unclaim_ok[OF assms(1), where gone = "forget \<and> deleted"])
  show "sy_phase S p = Ending 0 \<or> sy_phase S p = Closing" using assms(2) by simp
qed (use offlineCommit_effect[OF assms(1,2)] assms(3) in simp_all)

text \<open>Claiming an offline lane for a close.\<close>

lemma selectLocked_claim:
  assumes "selectLocked groups labels grp names omit request d = ((xs, code, Some p), d')"
  shows "d' = upd_entry p (\<lambda>e. e\<lparr>e_claimed := True\<rparr>) d \<and> \<not> epeer d p \<and> eattached d p = None \<and> \<not> eclaimed d p
    \<and> p \<in> snd ` set (d_entries d)"
proof -
  from assms obtain ls where ls: "labels = Some ls" by (cases labels) (auto simp: selectLocked_def)
  obtain ys where ys: "selectLabels (if names then validNamePart (d_hi d) else validIDPart (d_hi d)) groups d ls = Some ys"
    using assms ls by (cases "selectLabels (if names then validNamePart (d_hi d) else validIDPart (d_hi d)) groups d ls")
      (auto simp: selectLocked_def)
  from assms ls ys obtain rq x zs where x: "request = Some rq" "ys = x # zs" "sx_item x = Some p"
    "d' = upd_entry p (\<lambda>e. e\<lparr>e_claimed := True\<rparr>) d" "\<not> epeer d p" "eattached d p = None" "\<not> eclaimed d p"
    by (auto simp: selectLocked_def split: option.splits list.splits if_splits prod.splits)
  from ys x(2) obtain label rest where lr: "ls = label # rest" by (cases ls) auto
  obtain target c where c: "canonical label (d_host d) (if names then validNamePart (d_hi d) else validIDPart (d_hi d)) = (target, c)"
    by (cases "canonical label (d_host d) (if names then validNamePart (d_hi d) else validIDPart (d_hi d))")
  obtain amb where "resolveLocked target groups d = (Some p, amb)"
    using ys x(2,3) lr c by (cases "resolveLocked target groups d") (auto simp: Let_def split: if_splits option.splits)
  from resolveLocked_Some[OF this] have "p \<in> snd ` set (d_entries d)"
    using gm_get_in_set[of "d_entries d" target p] by force
  with x(4-) show ?thesis by blast
qed

lemma close_claim_ok:
  assumes "life_ok S" "selectLocked groups labels grp names omit request (sy_d S) = ((xs, code, Some p), d')"
  shows "life_ok (S\<lparr>sy_d := d', sy_phase := (sy_phase S)(p := Closing)\<rparr>)" (is "life_ok ?S")
proof -
  note c = selectLocked_claim[OF assms(2)]
  obtain k where "entryAt (sy_d S) k = Some p"
    using c life_okD(6)[OF assms(1)] gm_values[of "d_entries (sy_d S)" p] by blast
  with c assms(1) have p: "sy_phase S p = Offline" using idle_offline by blast
  note l = phaseD(5)[OF assms(1) p]
  have alloc: "p < n_entry (sy_d S)" using phase_alloc[OF assms(1), of p] p by simp
  define S' where "S' = ?S"
  have s': "sy_d S' = upd_entry p (\<lambda>e. e\<lparr>e_claimed := True\<rparr>) (sy_d S)" "sy_ident S' = sy_ident S"
    "sy_phase S' = (sy_phase S)(p := Closing)" using c by (simp_all add: S'_def)
  have "life_ok S'"
  proof (rule life_okI[OF assms(1), where T = "{p}"])
    show "\<not> d_panic (sy_d S')" using life_okD(1)[OF assms(1)] by (simp add: s' upd_entry_def)
    show "maps_ok S'"
    proof (rule maps_okI[OF assms(1)])
      fix k q assume "entryAt (sy_d S') k = Some q"
      then show "entry_bound S S' k q"
        using entryAtD(3)[OF assms(1), of k q] by (auto simp: s' upd_entry_def placed_def)
    next
      fix k q assume "nameAt (sy_d S') k = Some q"
      then show "name_bound S S' k q"
        using nameAtD(3,4)[OF assms(1), of k q] by (auto simp: s' upd_entry_def placed_def)
    next
      fix t k assume "tokenAt (sy_d S') t = Some k"
      then show "token_bound S S' t k" using p by (auto simp: s' upd_entry_def)
    qed
    show "phase_ok S' q" if "q \<in> {p}" for q
      using that l by (auto simp: phase_ok_def Let_def s' upd_entry_def listed_def)
    show "kept S S' q" if "q \<notin> {p}" "sy_phase S q \<noteq> Gone" for q
      using that p by (auto simp: kept_def Let_def s' upd_entry_def)
  qed (use life_okD(4,5,6)[OF assms(1)] alloc in \<open>auto simp: s' upd_entry_def\<close>)
  then show ?thesis by (simp add: S'_def)
qed

section \<open>Launches\<close>

lemma revoke_ok:
  assumes "life_ok S" "revokeLaunch start (sy_d S) = (ok, d')"
  shows "life_ok (S\<lparr>sy_d := d'\<rparr>)"
proof (cases ok)
  case False
  with assms show ?thesis by (auto simp: revokeLaunch_def Let_def split: if_splits)
next
  case True
  define S' where "S' = S\<lparr>sy_d := d'\<rparr>"
  have s': "sy_d S' = (sy_d S)\<lparr>d_tokens := gm_del (l_token (h_launch (sy_d S) start)) (d_tokens (sy_d S))\<rparr>"
    "sy_ident S' = sy_ident S" "sy_phase S' = sy_phase S"
    using assms(2) True by (auto simp: S'_def revokeLaunch_def Let_def split: if_splits)
  have "life_ok S'"
  proof (rule life_okI[OF assms(1), where T = "{}"])
    show "maps_ok S'"
      by (rule maps_okI[OF assms(1)])
        (use entryAtD(3)[OF assms(1)] nameAtD(3,4)[OF assms(1)] in \<open>auto simp: s' split: if_splits\<close>)
  qed (use life_okD[OF assms(1)] in \<open>auto simp: s' kept_def Let_def\<close>)
  then show ?thesis by (simp add: S'_def)
qed

lemma claim_effect:
  assumes "claimWorker s token product d = (Some start, d')"
  shows "d' = upd_launch start (\<lambda>l. l\<lparr>l_owner := Some s\<rparr>) (d\<lparr>d_tokens := gm_del token (d_tokens d)\<rparr>)
    \<and> tokenAt d token = Some start \<and> l_owner (h_launch d start) = None \<and> l_product (h_launch d start) = product"
  using assms by (auto simp: claimWorker_def split: option.splits if_splits)

lemma reserved_launch_unique:
  "life_ok S \<Longrightarrow> sy_phase S p = Reserved l \<Longrightarrow> sy_phase S q = Reserved l \<Longrightarrow> q = p"
  using phaseD(2)[of S p l] phaseD(2)[of S q l] by (simp add: reserved_ok_def Let_def)

lemma claim_ok:
  assumes "life_ok S" "claimWorker s token product (sy_d S) = (Some start, d')" "sy_ident S s = None"
  shows "life_ok (S\<lparr>sy_d := d', sy_ident := (sy_ident S)(s := l_entry (h_launch (sy_d S) start))\<rparr>)" (is "life_ok ?S")
proof -
  note c = claim_effect[OF assms(2)]
  obtain p where p: "sy_phase S p = Reserved start" using tokenAtD(4)[OF assms(1), of token start] c by blast
  have r: "reserved_ok S p start" using phaseD(2)[OF assms(1) p] .
  have alloc: "p < n_entry (sy_d S)" using phase_alloc[OF assms(1), of p] p by simp
  define S' where "S' = ?S"
  have s': "sy_d S' = upd_launch start (\<lambda>l. l\<lparr>l_owner := Some s\<rparr>)
      ((sy_d S)\<lparr>d_tokens := gm_del token (d_tokens (sy_d S))\<rparr>)"
    "sy_ident S' = (sy_ident S)(s := Some p)" "sy_phase S' = sy_phase S"
    using c r by (simp_all add: S'_def reserved_ok_def Let_def)
  have "life_ok S'"
  proof (rule life_okI[OF assms(1), where T = "{}"])
    show "\<not> d_panic (sy_d S')" using life_okD(1)[OF assms(1)] by (simp add: s' upd_launch_def)
    show "maps_ok S'"
    proof (rule maps_okI[OF assms(1)])
      fix t l assume "tokenAt (sy_d S') t = Some l"
      then have t: "tokenAt (sy_d S) t = Some l" "t \<noteq> token" by (auto simp: s' upd_launch_def split: if_splits)
      then have "l \<noteq> start" using c tokenAtD(1)[OF assms(1)] by metis
      with t show "token_bound S S' t l" by (simp add: s' upd_launch_def)
    qed (use entryAtD(3)[OF assms(1)] nameAtD(3,4)[OF assms(1)] in \<open>auto simp: s' upd_launch_def\<close>)
    show "kept S S' q" if "q \<notin> {}" "sy_phase S q \<noteq> Gone" for q
      using assms(3) r by (auto simp: kept_def Let_def s' upd_launch_def reserved_ok_def)
  qed (use life_okD(4,5,6)[OF assms(1)] alloc in \<open>auto simp: s' upd_launch_def split: if_splits\<close>)
  then show ?thesis by (simp add: S'_def)
qed

text \<open>
  A reservation allocates an entry \<open>p\<close> and a launch \<open>l\<close>; \<open>name\<close> is the name it takes, if any.
\<close>

lemma new_reserved_ok:
  assumes "life_ok S"
    and d': "d_entries (sy_d S') = d_entries (sy_d S)" "d_panic (sy_d S') = d_panic (sy_d S)"
      "d_names (sy_d S') = (if named then gm_set (r_Name (e_row e)) p (d_names (sy_d S)) else d_names (sy_d S))"
      "d_tokens (sy_d S') = gm_set (l_token la) l (d_tokens (sy_d S))"
      "h_entry (sy_d S') = (h_entry (sy_d S))(p := e)" "n_entry (sy_d S') = Suc (n_entry (sy_d S))"
      "h_launch (sy_d S') = (h_launch (sy_d S))(l := la)" "n_launch (sy_d S') = Suc (n_launch (sy_d S))"
      "sy_phase S' = (sy_phase S)(p := Reserved l)" "sy_ident S' = sy_ident S"
    and pl: "p = n_entry (sy_d S)" "l = n_launch (sy_d S)"
    and e: "e_claimed e" "\<not> e_done e" "e_attachment e = None" "\<not> e_peer e" "r_CreatedAt (e_row e) = 0"
    and la: "l_entry la = Some p" "l_owner la = None" "l_previous la = None"
    and name: "named \<longleftrightarrow> r_Name (e_row e) \<noteq> []" "named \<Longrightarrow> nameAt (sy_d S) (r_Name (e_row e)) = None"
      "named \<Longrightarrow> r_Policy (e_row e) \<noteq> None"
  shows "life_ok S'"
proof -
  have gone: "sy_phase S p = Gone" using life_okD(4)[OF assms(1), of p] pl by simp
  have old: "q \<noteq> p" if "sy_phase S q \<noteq> Gone" for q using that gone by auto
  have oldl: "k \<noteq> l" if "sy_phase S q = Reserved k" for q k
    using phaseD(2)[OF assms(1) that] pl by (auto simp: reserved_ok_def Let_def)
  have oldsh: "k \<noteq> l" if "sy_phase S q = Shadow k" for q k
    using life_okD(3)[OF assms(1), of q] that oldl by (auto simp: phase_ok_def Let_def)
  show ?thesis
  proof (rule life_okI[OF assms(1), where T = "{p}"])
    show "maps_ok S'"
    proof (rule maps_okI[OF assms(1)])
      fix k q assume a: "entryAt (sy_d S') k = Some q"
      then have "placed (sy_phase S q)" "q < n_entry (sy_d S)" using entryAtD(3,4)[OF assms(1)] by (auto simp: d')
      then show "entry_bound S S' k q" using a pl by (simp add: d')
    next
      fix k q assume a: "nameAt (sy_d S') k = Some q"
      show "name_bound S S' k q"
      proof (cases "named \<and> k = r_Name (e_row e)")
        case True
        with a name e show ?thesis by (simp add: d' placed_def)
      next
        case False
        with a have n: "nameAt (sy_d S) k = Some q" by (auto simp: d' split: if_splits)
        from nameAtD(3-5)[OF assms(1) n] n pl show ?thesis by (simp add: d')
      qed
    next
      fix t k assume a: "tokenAt (sy_d S') t = Some k"
      show "token_bound S S' t k"
      proof (cases "t = l_token la")
        case True
        with a la pl show ?thesis by (auto simp: d')
      next
        case False
        with a have "tokenAt (sy_d S) t = Some k" by (simp add: d')
        with tokenAtD(3)[OF assms(1) this] gone pl show ?thesis by (auto simp: d')
      qed
    qed
    show "phase_ok S' q" if "q \<in> {p}" for q
      using that e la name pl by (auto simp: phase_ok_def reserved_ok_def Let_def d')
    show "kept S S' q" if "q \<notin> {p}" "sy_phase S q \<noteq> Gone" for q
    proof -
      have r: "r \<noteq> p" if "sy_phase S r = Shadow k \<or> sy_phase S r = Reserved k" for r k
        using that gone by auto
      have "nameAt (sy_d S') (ename (sy_d S) q) = Some q" if "nameAt (sy_d S) (ename (sy_d S) q) = Some q"
        using that name(2) by (auto simp: d')
      with that oldl oldsh r show ?thesis by (auto simp: kept_def Let_def d')
    qed
  qed (use life_okD(1,4,5,6)[OF assms(1)] pl in \<open>auto simp: d' less_Suc_eq\<close>)
qed

lemma fresh_ok:
  assumes "life_ok S" "allocLaunch l (sy_d S) = (start, d1)" "l_entry l = None" "l_previous l = None" "l_owner l = None"
    and res: "reserveFresh r start d1 = ((Some p, code), d')"
    and r: "r_SessionID r = []" "r_CreatedAt r = 0" "r_Name r \<noteq> []" "r_Policy r = Some policy"
  shows "life_ok (S\<lparr>sy_d := d', sy_phase := (sy_phase S)(p := Reserved start)\<rparr>)"
proof -
  let ?e = "zeroEntry\<lparr>e_row := r, e_parent := l_parent l, e_claimed := True\<rparr>"
  have a: "start = n_launch (sy_d S)" "d1 = (sy_d S)\<lparr>h_launch := (h_launch (sy_d S))(start := l), n_launch := Suc start\<rparr>"
    using assms(2) by (auto simp: allocLaunch_def)
  have n: "nameAt (sy_d S) (r_Name r) = None" "\<not> d_closing d1"
    using res by (auto simp: a(2) reserveFresh_def addLaunch_def Let_def split: if_splits)
  have p: "p = n_entry (sy_d S)"
    and d: "d' = d1\<lparr>d_tokens := gm_set (l_token l) start (d_tokens d1), d_group := d_group d1 + 1,
       h_entry := (h_entry d1)(p := ?e), n_entry := Suc p,
       h_launch := (h_launch d1)(start := l\<lparr>l_entry := Some p\<rparr>), d_names := gm_set (r_Name r) p (d_names d1)\<rparr>"
    using res n a by (auto simp: reserveFresh_def addLaunch_def newEntry_def upd_launch_def heap_upd_def Let_def split: if_splits)
  show ?thesis
    by (rule new_reserved_ok[OF assms(1), where e = ?e and la = "l\<lparr>l_entry := Some p\<rparr>" and named = True and p = p and l = start])
      (use assms r n in \<open>simp_all add: d a p zeroEntry_def\<close>)
qed

text \<open>An entry and a launch that a refused call leaves behind are in no map.\<close>

lemma new_entry_ok:
  assumes "life_ok S" "e_attachment e = None"
  shows "life_ok (S\<lparr>sy_d := (sy_d S)\<lparr>h_entry := (h_entry (sy_d S))(n_entry (sy_d S) := e), n_entry := Suc (n_entry (sy_d S)),
    h_launch := (h_launch (sy_d S))(n_launch (sy_d S) := la), n_launch := Suc (n_launch (sy_d S))\<rparr>\<rparr>)" (is "life_ok ?S")
proof -
  have gone: "sy_phase S (n_entry (sy_d S)) = Gone" using life_okD(4)[OF assms(1)] by simp
  have old: "k < n_launch (sy_d S)" if "sy_phase S q = Reserved k" for q k
    using phaseD(2)[OF assms(1) that] by (simp add: reserved_ok_def Let_def)
  have oldsh: "k < n_launch (sy_d S)" if "sy_phase S q = Shadow k" for q k
    using life_okD(3)[OF assms(1), of q] that old by (auto simp: phase_ok_def Let_def)
  show ?thesis
  proof (rule life_okI[OF assms(1), where T = "{n_entry (sy_d S)}"])
    show "maps_ok ?S"
    proof (rule maps_okI[OF assms(1)])
      fix k q assume "entryAt (sy_d ?S) k = Some q"
      then show "entry_bound S ?S k q" using entryAtD(3,4)[OF assms(1), of k q] by auto
    next
      fix k q assume "nameAt (sy_d ?S) k = Some q"
      then show "name_bound S ?S k q" using nameAtD(3-5)[OF assms(1), of k q] by auto
    next
      fix t k assume "tokenAt (sy_d ?S) t = Some k"
      then show "token_bound S ?S t k" using tokenAtD(3)[OF assms(1), of t k] by auto
    qed
    show "phase_ok ?S q" if "q \<in> {n_entry (sy_d S)}" for q
      using that gone assms(2) by (simp add: phase_ok_def Let_def)
    show "kept S ?S q" if "q \<notin> {n_entry (sy_d S)}" "sy_phase S q \<noteq> Gone" for q
    proof -
      have "r \<noteq> n_entry (sy_d S)" if "sy_phase S r = Shadow k" for r k using that gone by auto
      then show ?thesis using that old[of q] oldsh[of q] by (auto simp: kept_def Let_def)
    qed
  qed (use life_okD(1,4,5,6)[OF assms(1)] in \<open>auto simp: less_Suc_eq\<close>)
qed

lemma describe_ok:
  assumes "life_ok S"
    and "newEntry (zeroEntry\<lparr>e_row := (e_row zeroEntry)\<lparr>r_Product := product\<rparr>, e_claimed := True\<rparr>) (sy_d S) = (p, d1)"
    and "allocLaunch (l\<lparr>l_entry := Some p\<rparr>) d1 = (start, d2)" "l_previous l = None" "l_owner l = None"
    and res: "reserveDescribe start d2 = (code, d')"
  shows "life_ok (S\<lparr>sy_d := d', sy_phase := (if code = 0 then (sy_phase S)(p := Reserved start) else sy_phase S)\<rparr>)"
proof -
  let ?e = "zeroEntry\<lparr>e_row := (e_row zeroEntry)\<lparr>r_Product := product\<rparr>, e_claimed := True\<rparr>"
  have a: "p = n_entry (sy_d S)" "start = n_launch (sy_d S)"
    "d2 = (sy_d S)\<lparr>h_entry := (h_entry (sy_d S))(p := ?e), n_entry := Suc p,
       h_launch := (h_launch (sy_d S))(start := l\<lparr>l_entry := Some p\<rparr>), n_launch := Suc start\<rparr>"
    using assms(2,3) by (auto simp: newEntry_def allocLaunch_def)
  show ?thesis
  proof (cases "d_closing d2")
    case True
    then have "code \<noteq> 0" "d' = d2"
      using res by (auto simp: reserveDescribe_def addLaunch_def)
    then show ?thesis using new_entry_ok[OF assms(1), of ?e "l\<lparr>l_entry := Some p\<rparr>"] by (simp add: a zeroEntry_def)
  next
    case False
    then have d: "d' = d2\<lparr>d_tokens := gm_set (l_token l) start (d_tokens d2), d_group := d_group d2 + 1\<rparr>" "code = 0"
      using res a by (auto simp: reserveDescribe_def addLaunch_def split: if_splits)
    show ?thesis unfolding d(2)
      by (rule new_reserved_ok[OF assms(1), where e = ?e and la = "l\<lparr>l_entry := Some p\<rparr>" and named = False and p = p and l = start])
        (use assms in \<open>simp_all add: d a zeroEntry_def\<close>)
  qed
qed

lemma resume_effect:
  assumes "reserveResume sid groups start d = ((Some p, code), d')" "entryAt d sid = Some q"
  shows "\<exists>policy. \<not> epeer d q \<and> \<not> eclaimed d q \<and> eattached d q = None \<and> p = n_entry d
    \<and> d' = d\<lparr>d_tokens := gm_set (l_token (h_launch d start)) start (d_tokens d), d_group := d_group d + 1,
        h_entry := (h_entry d)(p := zeroEntry\<lparr>e_row := (e_row (h_entry d q))\<lparr>r_Policy := Some policy\<rparr>,
                          e_parent := l_parent (h_launch d start), e_claimed := True\<rparr>),
        n_entry := Suc p,
        h_launch := (h_launch d)(start := (h_launch d start)\<lparr>l_previous := Some q, l_entry := Some p,
             l_product := r_Product (e_row (h_entry d q))\<rparr>),
        d_entries := gm_set sid p (d_entries d), d_names := gm_set (ename d q) p (d_names d)\<rparr>"
  using assms
  by (auto simp: reserveResume_def addLaunch_def newEntry_def upd_launch_def heap_upd_def Let_def
      split: if_splits option.splits sum.splits)

lemma resume_ok:
  assumes "life_ok S" "allocLaunch l (sy_d S) = (start, d1)" "l_owner l = None"
    and res: "reserveResume sid groups start d1 = ((Some p, code), d')" and q: "entryAt (sy_d S) sid = Some q"
  shows "life_ok (S\<lparr>sy_d := d', sy_phase := (sy_phase S)(p := Reserved start, q := Shadow start)\<rparr>)" (is "life_ok ?S")
proof -
  define d where "d = sy_d S"
  have a: "start = n_launch d" "d1 = d\<lparr>h_launch := (h_launch d)(start := l), n_launch := Suc start\<rparr>"
    using assms(2) by (auto simp: allocLaunch_def d_def)
  have "entryAt d1 sid = Some q" using q a by (simp add: d_def)
  from resume_effect[OF res this] obtain policy where
    c: "\<not> eclaimed d q" "eattached d q = None" "\<not> epeer d q" and p: "p = n_entry d"
    and d': "d' = d1\<lparr>d_tokens := gm_set (l_token l) start (d_tokens d), d_group := d_group d + 1,
        h_entry := (h_entry d)(p := zeroEntry\<lparr>e_row := (e_row (h_entry d q))\<lparr>r_Policy := Some policy\<rparr>,
                          e_parent := l_parent l, e_claimed := True\<rparr>), n_entry := Suc p,
        h_launch := (h_launch d1)(start := l\<lparr>l_previous := Some q, l_entry := Some p,
             l_product := r_Product (e_row (h_entry d q))\<rparr>),
        d_entries := gm_set sid p (d_entries d), d_names := gm_set (ename d q) p (d_names d)\<rparr>"
    by (auto simp: a(2))
  have off: "sy_phase S q = Offline" using idle_offline[OF assms(1) q] c by (simp add: d_def)
  note lq = phaseD(5)[OF assms(1) off, folded d_def] and idq = entryAtD(1,2,4)[OF assms(1) q, folded d_def]
  have gone: "sy_phase S p = Gone" using life_okD(4)[OF assms(1), of p] p by (simp add: d_def)
  have pq: "p \<noteq> q" using gone off by auto
  have oldl: "k \<noteq> start" if "sy_phase S r = Reserved k" for r k
    using phaseD(2)[OF assms(1) that] a by (auto simp: reserved_ok_def Let_def d_def)
  have oldsh: "k \<noteq> start" if "sy_phase S r = Shadow k" for r k
    using life_okD(3)[OF assms(1), of r] that oldl by (auto simp: phase_ok_def Let_def)
  have nq: "ename d q \<noteq> []" using lq nameAtD(2)[OF assms(1)] by (auto simp: listed_def d_def)
  define S' where "S' = ?S"
  have s': "sy_d S' = d'" "sy_ident S' = sy_ident S" "sy_phase S' = (sy_phase S)(p := Reserved start, q := Shadow start)"
    by (simp_all add: S'_def)
  have f: "entryAt d' k = (if k = sid then Some p else entryAt d k)"
    "nameAt d' k = (if k = ename d q then Some p else nameAt d k)"
    "tokenAt d' k = (if k = l_token l then Some start else tokenAt d k)" for k
    by (simp_all add: d')
  have h: "h_entry d' r = (if r = p then zeroEntry\<lparr>e_row := (e_row (h_entry d q))\<lparr>r_Policy := Some policy\<rparr>,
                          e_parent := l_parent l, e_claimed := True\<rparr> else h_entry d r)"
    "h_launch d' k = (if k = start then l\<lparr>l_previous := Some q, l_entry := Some p,
             l_product := r_Product (e_row (h_entry d q))\<rparr> else h_launch d k)"
    "n_launch d' = Suc start" "n_entry d' = Suc p" "d_panic d' = d_panic d" for r k
    by (simp_all add: d' a(2))
  have "life_ok S'"
  proof (rule life_okI[OF assms(1), where T = "{p, q}"])
    show "\<not> d_panic (sy_d S')" using life_okD(1)[OF assms(1)] by (simp add: s' h d_def)
    show "maps_ok S'"
    proof (rule maps_okI[OF assms(1)])
      fix k r assume b: "entryAt (sy_d S') k = Some r"
      show "entry_bound S S' k r"
      proof (cases "k = sid")
        case True
        with b idq pq show ?thesis by (simp add: s' f h zeroEntry_def placed_def)
      next
        case False
        with b have "entryAt (sy_d S) k = Some r" by (simp add: s' f d_def)
        moreover from entryAtD(1,3,4)[OF assms(1) this] False idq p have "r \<noteq> q" "r \<noteq> p" "placed (sy_phase S r)"
          by (auto simp: d_def)
        ultimately show ?thesis by (simp add: s' h d_def)
      qed
    next
      fix k r assume b: "nameAt (sy_d S') k = Some r"
      show "name_bound S S' k r"
      proof (cases "k = ename d q")
        case True
        with b nq pq show ?thesis by (simp add: s' f h zeroEntry_def placed_def)
      next
        case False
        with b have "nameAt (sy_d S) k = Some r" by (simp add: s' f d_def)
        moreover from nameAtD[OF assms(1) this] False p have "r \<noteq> q" "r \<noteq> p" "placed (sy_phase S r)" "\<not> epeer d r"
          by (auto simp: d_def)
        ultimately show ?thesis by (simp add: s' h d_def)
      qed
    next
      fix t k assume b: "tokenAt (sy_d S') t = Some k"
      show "token_bound S S' t k"
      proof (cases "t = l_token l")
        case True
        with b assms(3) pq show ?thesis by (auto simp: s' f h)
      next
        case False
        with b have "tokenAt (sy_d S) t = Some k" by (simp add: s' f d_def)
        with tokenAtD(3)[OF assms(1) this] gone off a(1) show ?thesis by (auto simp: s' h d_def)
      qed
    qed
    show "phase_ok S' r" if "r \<in> {p, q}" for r
      using that pq lq idq c assms(3)
      by (auto simp: phase_ok_def reserved_ok_def listed_def Let_def s' f h a(1) zeroEntry_def)
    show "kept S S' r" if "r \<notin> {p, q}" "sy_phase S r \<noteq> Gone" for r
    proof -
      have "entryAt d' (eid d r) = Some r" if "entryAt d (eid d r) = Some r"
        using that q \<open>r \<notin> {p, q}\<close> by (auto simp: f d_def)
      moreover have "nameAt d' (ename d r) = Some r" if "nameAt d (ename d r) = Some r"
        using that lq \<open>r \<notin> {p, q}\<close> by (auto simp: f listed_def)
      moreover have "k \<noteq> p" "k \<noteq> q" if "sy_phase S k = Shadow j \<or> sy_phase S k = Reserved j" for k j
        using that gone off by auto
      ultimately show ?thesis using that oldl oldsh a(1)
        by (auto simp: kept_def Let_def s' h d_def)
    qed
  qed (use life_okD(4,5,6)[OF assms(1)] idq p in \<open>auto simp: s' h d_def less_Suc_eq d'\<close>)
  then show ?thesis by (simp add: S'_def)
qed

lemma open_id_ok:
  assumes "life_ok S" "sy_phase S p = Reserved start" "l_previous (h_launch (sy_d S) start) = None"
    "\<forall>k. entryAt (sy_d S) k \<noteq> Some p" "sid \<noteq> []"
    and res: "reserveID p sid (upd_entry p (\<lambda>e. e\<lparr>e_row := (e_row e)\<lparr>r_SessionID := sid\<rparr>\<rparr>) (sy_d S)) = (ok, d')"
  shows "life_ok (S\<lparr>sy_d := d'\<rparr>)"
proof -
  define d where "d = sy_d S"
  have r: "reserved_ok S p start" using phaseD(2)[OF assms(1,2)] .
  have alloc: "p < n_entry d" using phase_alloc[OF assms(1), of p] assms(2) by (simp add: d_def)
  have f: "h_entry d' q = (if q = p then (h_entry d p)\<lparr>e_row := (e_row (h_entry d p))\<lparr>r_SessionID := sid\<rparr>\<rparr> else h_entry d q)"
    "d_names d' = d_names d" "d_tokens d' = d_tokens d" "h_launch d' = h_launch d" "n_launch d' = n_launch d"
    "n_entry d' = n_entry d" "d_panic d' = d_panic d" for q
    using res by (auto simp: reserveID_def upd_entry_def d_def split: if_splits)
  have e: "d_entries d' = (if ok then gm_set sid p (d_entries d) else d_entries d)" "ok \<longrightarrow> entryAt d sid = None"
    using res by (auto simp: reserveID_def upd_entry_def d_def split: if_splits)
  define S' where "S' = S\<lparr>sy_d := d'\<rparr>"
  have s': "sy_d S' = d'" "sy_ident S' = sy_ident S" "sy_phase S' = sy_phase S" by (simp_all add: S'_def)
  have "life_ok S'"
  proof (rule life_okI[OF assms(1), where T = "{p}"])
    show "\<not> d_panic (sy_d S')" using life_okD(1)[OF assms(1)] by (simp add: s' f d_def)
    show "maps_ok S'"
    proof (rule maps_okI[OF assms(1)])
      fix k q assume b: "entryAt (sy_d S') k = Some q"
      show "entry_bound S S' k q"
      proof (cases "ok \<and> k = sid")
        case True
        with b assms(2,5) show ?thesis by (simp add: s' e f placed_def)
      next
        case False
        with b have k: "entryAt (sy_d S) k = Some q" by (auto simp: s' e d_def split: if_splits)
        with entryAtD(3)[OF assms(1) k] assms(4) show ?thesis by (auto simp: s' f d_def)
      qed
    next
      fix k q assume "nameAt (sy_d S') k = Some q"
      then show "name_bound S S' k q" using nameAtD(3,4)[OF assms(1), of k q] by (auto simp: s' f d_def)
    qed (simp add: s' f d_def)
    show "phase_ok S' q" if "q \<in> {p}" for q
      using that r assms(2,3) by (auto simp: phase_ok_def reserved_ok_def Let_def s' f d_def)
    show "kept S S' q" if "q \<notin> {p}" "sy_phase S q \<noteq> Gone" for q
    proof -
      have "q \<noteq> p" "\<not> (sy_phase S p = Shadow k)" for k using that assms(2) by auto
      moreover have "entryAt d' (eid d q) = Some q" if "entryAt d (eid d q) = Some q" using that e by auto
      ultimately show ?thesis by (auto simp: kept_def Let_def s' f d_def)
    qed
  qed (use life_okD(4,5,6)[OF assms(1)] alloc in \<open>auto simp: s' f e d_def\<close>)
  then show ?thesis by (simp add: S'_def)
qed

lemma publishCommit_effect:
  "d_entries (publishCommit start s createdAt p pe d) = d_entries d"
  "d_names (publishCommit start s createdAt p pe d) = d_names d"
  "d_tokens (publishCommit start s createdAt p pe d) = d_tokens d"
  "h_launch (publishCommit start s createdAt p pe d) = h_launch d"
  "n_launch (publishCommit start s createdAt p pe d) = n_launch d"
  "n_entry (publishCommit start s createdAt p pe d) = n_entry d"
  "d_panic (publishCommit start s createdAt p pe d) = d_panic d"
  "eid (publishCommit start s createdAt p pe d) q = eid d q"
  "ename (publishCommit start s createdAt p pe d) q = ename d q"
  "ecreated (publishCommit start s createdAt p pe d) q = (if q = p \<and> createdAt \<noteq> 0 then createdAt else ecreated d q)"
  "q \<noteq> p \<Longrightarrow> e_row (h_entry (publishCommit start s createdAt p pe d) q) = e_row (h_entry d q)"
  "epeer (publishCommit start s createdAt p pe d) q = epeer d q"
  "edone (publishCommit start s createdAt p pe d) q = edone d q"
  "eclaimed (publishCommit start s createdAt p pe d) q = (q \<noteq> p \<and> eclaimed d q)"
  "eattached (publishCommit start s createdAt p pe d) q = (if q = p then Some s else eattached d q)"
  by (simp_all add: publishCommit_def drawID_def newOwnership_def upd_entry_def Let_def split: option.splits)

lemma publish_True:
  assumes "publish start s createdAt d = (True, d')"
  shows "\<exists>p pe. l_entry (h_launch d start) = Some p \<and> entryAt d (eid d p) = Some p
    \<and> d' = publishCommit start s createdAt p pe d"
  using assms by (auto simp: publish_def Let_def split: option.splits if_splits)

lemma publish_ok:
  assumes "life_ok S" "sy_phase S p = Reserved start" "l_owner (h_launch (sy_d S) start) = Some s" "ename (sy_d S) p \<noteq> []"
    and pub: "publish start s createdAt (sy_d S) = (True, d')"
    and new: "l_previous (h_launch (sy_d S) start) = None \<Longrightarrow> createdAt \<noteq> 0"
  shows "life_ok (S\<lparr>sy_d := d',
           sy_phase := (\<lambda>q. if q = p then Live s
                            else if l_previous (h_launch (sy_d S) start) = Some q then Gone else sy_phase S q)\<rparr>)" (is "life_ok ?S")
proof -
  define d where "d = sy_d S"
  have r: "reserved_ok S p start" using phaseD(2)[OF assms(1,2)] .
  have alloc: "p < n_entry d" using phase_alloc[OF assms(1), of p] assms(2) by (simp add: d_def)
  from publish_True[OF pub] r obtain pe where e: "entryAt d (eid d p) = Some p"
    and d': "d' = publishCommit start s createdAt p pe d"
    by (auto simp: reserved_ok_def Let_def d_def)
  note f = publishCommit_effect[where start = start and s = s and createdAt = createdAt and p = p and pe = pe and d = d, folded d']
  have prev: "sy_phase S q = Shadow start" "q \<noteq> p" "eattached d q = None" "q < n_entry d"
    if "l_previous (h_launch d start) = Some q" for q
  proof -
    show sh: "sy_phase S q = Shadow start" using r that by (simp add: reserved_ok_def Let_def d_def)
    then show "q \<noteq> p" using assms(2) by auto
    show "eattached d q = None" using life_okD(3)[OF assms(1), of q] sh by (simp add: phase_ok_def Let_def d_def)
    show "q < n_entry d" using phase_alloc[OF assms(1), of q] sh by (simp add: d_def)
  qed
  have lp: "listed d' p"
    using r new e assms(4) by (auto simp: reserved_ok_def listed_def Let_def f d_def split: option.splits)
  define S' where "S' = ?S"
  have s': "sy_d S' = d'" "sy_ident S' = sy_ident S"
    "sy_phase S' q = (if q = p then Live s else if l_previous (h_launch d start) = Some q then Gone else sy_phase S q)" for q
    by (simp_all add: S'_def d_def)
  have res: "sy_phase S q = Reserved k \<longrightarrow> q = p \<or> k \<noteq> start" for q k
    using reserved_launch_unique[OF assms(1,2), of q] by auto
  have "life_ok S'"
  proof (rule life_okI[OF assms(1), where T = "{q. q = p \<or> l_previous (h_launch d start) = Some q}"])
    show "\<not> d_panic (sy_d S')" using life_okD(1)[OF assms(1)] by (simp add: s' f d_def)
    show "maps_ok S'"
    proof (rule maps_okI[OF assms(1)])
      fix k q assume "entryAt (sy_d S') k = Some q"
      then show "entry_bound S S' k q"
        using entryAtD(3)[OF assms(1), of k q] prev(1)[of q] by (auto simp: s' f d_def placed_def)
    next
      fix k q assume "nameAt (sy_d S') k = Some q"
      then show "name_bound S S' k q"
        using nameAtD(3,4)[OF assms(1), of k q] prev(1)[of q] by (auto simp: s' f d_def placed_def)
    next
      fix t k assume "tokenAt (sy_d S') t = Some k"
      then show "token_bound S S' t k"
        using tokenAtD(2)[OF assms(1), of t k] assms(2,3) prev(1) by (auto simp: s' f d_def)
    qed
    show "phase_ok S' q" if "q \<in> {q. q = p \<or> l_previous (h_launch d start) = Some q}" for q
      using that r assms(3) lp e prev(2,3) by (auto simp: phase_ok_def reserved_ok_def Let_def s' f d_def)
    show "kept S S' q" if "q \<notin> {q. q = p \<or> l_previous (h_launch d start) = Some q}" "sy_phase S q \<noteq> Gone" for q
    proof -
      have k: "k \<noteq> start" if "sy_phase S q = Reserved k \<or> sy_phase S q = Shadow k" for k
      proof
        assume "k = start"
        with that \<open>q \<notin> _\<close> res[of q start] have "sy_phase S q = Shadow start" by auto
        then have "l_previous (h_launch d start) = Some q"
          using life_okD(3)[OF assms(1), of q] by (simp add: phase_ok_def Let_def d_def)
        with \<open>q \<notin> _\<close> show False by simp
      qed
      have r1: "r' \<noteq> p" "l_previous (h_launch d start) \<noteq> Some r'"
        if "sy_phase S r' = Shadow k \<or> sy_phase S r' = Reserved k" "k \<noteq> start" for r' k
        using that assms(2) prev(1)[of r'] by auto
      show ?thesis
        using that k r1 by (auto simp: kept_def Let_def s' f d_def)
    qed
  qed (use life_okD(4,5,6)[OF assms(1)] alloc prev(4) in \<open>auto simp: s' f d_def\<close>)
  then show ?thesis by (simp add: S'_def)
qed

lemma release_effect:
  assumes "life_ok S" "sy_phase S p = Reserved start"
  defines "d \<equiv> sy_d S" and "d' \<equiv> releaseLaunch start (sy_d S)"
  shows "d_entries d' = (case l_previous (h_launch d start) of
           Some q \<Rightarrow> gm_set (eid d p) q (d_entries d)
         | None \<Rightarrow> if entryAt d (eid d p) = Some p then gm_del (eid d p) (d_entries d) else d_entries d)"
    "d_names d' = (case l_previous (h_launch d start) of
           Some q \<Rightarrow> gm_set (ename d p) q (d_names d) | None \<Rightarrow> gm_del (ename d p) (d_names d))"
    "tokenAt d' t = (if tokenAt d t = Some start then None else tokenAt d t)"
    "h_launch d' = h_launch d" "n_entry d' = n_entry d" "n_launch d' = n_launch d" "d_panic d' = d_panic d"
    "e_row (h_entry d' q) = e_row (h_entry d q)" "epeer d' q = epeer d q"
    "eclaimed d' q = (q \<noteq> p \<and> eclaimed d q)" "eattached d' q = eattached d q" "edone d' q = (q = p \<or> edone d q)"
proof -
  have r: "eclaimed d p" "\<not> edone d p" "eattached d p = None" "\<not> epeer d p" "l_entry (h_launch d start) = Some p"
    "case l_previous (h_launch d start) of None \<Rightarrow> ecreated d p = 0 | Some q \<Rightarrow> ecreated d p \<noteq> 0"
    using phaseD(2)[OF assms(1,2)] by (auto simp: reserved_ok_def listed_def Let_def d_def split: option.splits)
  define d1 where "d1 = (if tokenAt d (l_token (h_launch d start)) = Some start
      then d\<lparr>d_tokens := gm_del (l_token (h_launch d start)) (d_tokens d)\<rparr> else d)"
  have d1: "h_entry d1 = h_entry d" "d_entries d1 = d_entries d" "d_names d1 = d_names d" "h_launch d1 = h_launch d"
    "n_entry d1 = n_entry d" "n_launch d1 = n_launch d" "d_panic d1 = d_panic d"
    by (simp_all add: d1_def)
  have tok: "tokenAt d1 t = (if tokenAt d t = Some start then None else tokenAt d t)" for t
  proof (cases "tokenAt d t = Some start")
    case True
    with tokenAtD(1)[OF assms(1), of t start] have "l_token (h_launch d start) = t" by (simp add: d_def)
    with True show ?thesis by (simp add: d1_def)
  next
    case False
    then show ?thesis by (auto simp: d1_def)
  qed
  define d2 where "d2 = end_entry p (upd_entry p (\<lambda>e. e\<lparr>e_claimed := False\<rparr>) d1)"
  have nd: "\<not> edone (upd_entry p (\<lambda>e. e\<lparr>e_claimed := False\<rparr>) d1) p" using r by (simp add: upd_entry_def d1)
  note f = end_entry_effect[OF nd, folded d2_def]
  have d2: "d_entries d2 = d_entries d" "d_names d2 = d_names d" "tokenAt d2 = tokenAt d1" "h_launch d2 = h_launch d"
    "n_entry d2 = n_entry d" "n_launch d2 = n_launch d" "d_panic d2 = d_panic d"
    "\<And>q. e_row (h_entry d2 q) = e_row (h_entry d q)" "\<And>q. epeer d2 q = epeer d q"
    "\<And>q. eclaimed d2 q = (q \<noteq> p \<and> eclaimed d q)" "\<And>q. eattached d2 q = eattached d q"
    "\<And>q. edone d2 q = (q = p \<or> edone d q)"
    using r by (auto simp: f upd_entry_def d1)
  have e: "d' = (case l_previous (h_launch d start) of
      None \<Rightarrow> d2\<lparr>d_names := gm_del (ename d p) (d_names d),
             d_entries := (if entryAt d (eid d p) = Some p then gm_del (eid d p) (d_entries d) else d_entries d)\<rparr>
    | Some q \<Rightarrow> d2\<lparr>d_entries := gm_set (eid d p) q (d_entries d), d_names := gm_set (ename d p) q (d_names d)\<rparr>)"
    unfolding d'_def releaseLaunch_def Let_def d_def[symmetric] d1_def[symmetric]
    using r by (simp add: d2_def[symmetric] d2 d1 split: option.splits)
  show "d_entries d' = (case l_previous (h_launch d start) of
           Some q \<Rightarrow> gm_set (eid d p) q (d_entries d)
         | None \<Rightarrow> if entryAt d (eid d p) = Some p then gm_del (eid d p) (d_entries d) else d_entries d)"
    "d_names d' = (case l_previous (h_launch d start) of
           Some q \<Rightarrow> gm_set (ename d p) q (d_names d) | None \<Rightarrow> gm_del (ename d p) (d_names d))"
    "tokenAt d' t = (if tokenAt d t = Some start then None else tokenAt d t)"
    "h_launch d' = h_launch d" "n_entry d' = n_entry d" "n_launch d' = n_launch d" "d_panic d' = d_panic d"
    "e_row (h_entry d' q) = e_row (h_entry d q)" "epeer d' q = epeer d q"
    "eclaimed d' q = (q \<noteq> p \<and> eclaimed d q)" "eattached d' q = eattached d q" "edone d' q = (q = p \<or> edone d q)"
    by (simp_all add: e d2 tok split: option.splits)
qed

lemma release_ok:
  assumes "life_ok S" "sy_phase S p = Reserved start"
  shows "life_ok (S\<lparr>sy_d := releaseLaunch start (sy_d S),
           sy_phase := (\<lambda>q. if q = p then Gone
                            else if l_previous (h_launch (sy_d S) start) = Some q then Offline else sy_phase S q)\<rparr>)" (is "life_ok ?S")
proof -
  define d where "d = sy_d S"
  define d' where "d' = releaseLaunch start (sy_d S)"
  have r: "reserved_ok S p start" using phaseD(2)[OF assms(1,2)] .
  have alloc: "p < n_entry d" using phase_alloc[OF assms(1), of p] assms(2) by (simp add: d_def)
  note f = release_effect[OF assms(1,2), folded d_def d'_def]
  have prev: "sy_phase S q = Shadow start" "q \<noteq> p" "eid d q = eid d p" "ename d q = ename d p" "listed d p"
    "q < n_entry d" "\<not> eclaimed d q" "eattached d q = None" "\<not> epeer d q" "ecreated d q \<noteq> 0"
    if "l_previous (h_launch d start) = Some q" for q
  proof -
    show sh: "sy_phase S q = Shadow start" and "eid d q = eid d p" "ename d q = ename d p" "listed d p"
      using r that by (simp_all add: reserved_ok_def Let_def d_def)
    from sh show "q \<noteq> p" using assms(2) by auto
    show "q < n_entry d" using phase_alloc[OF assms(1), of q] sh by (simp add: d_def)
    show "\<not> eclaimed d q" "eattached d q = None" "\<not> epeer d q" "ecreated d q \<noteq> 0"
      using life_okD(3)[OF assms(1), of q] sh by (simp_all add: phase_ok_def Let_def d_def)
  qed
  have mine: "k \<noteq> ename d p \<Longrightarrow> nameAt d k \<noteq> Some p" "k \<noteq> eid d p \<Longrightarrow> entryAt d k \<noteq> Some p" for k
    using nameAtD(1)[OF assms(1), of k p] entryAtD(1)[OF assms(1), of k p] unfolding d_def by auto
  have fresh_name: "nameAt d (ename d p) = Some q \<longrightarrow> q = p" for q
    using r nameAtD(2)[OF assms(1), of "ename d p" q]
    by (auto simp: reserved_ok_def listed_def Let_def d_def split: option.splits)
  have E: "entryAt d' k = (if k = eid d p \<and> (l_previous (h_launch d start) \<noteq> None \<or> entryAt d k = Some p)
      then l_previous (h_launch d start) else entryAt d k)" for k
    by (auto simp: f split: option.splits)
  have N: "nameAt d' k = (if k = ename d p then l_previous (h_launch d start) else nameAt d k)" for k
    by (auto simp: f split: option.splits)
  define S' where "S' = ?S"
  have s': "sy_d S' = d'" "sy_ident S' = sy_ident S"
    "sy_phase S' q = (if q = p then Gone else if l_previous (h_launch d start) = Some q then Offline else sy_phase S q)" for q
    by (simp_all add: S'_def d_def d'_def)
  have "life_ok S'"
  proof (rule life_okI[OF assms(1), where T = "{q. q = p \<or> l_previous (h_launch d start) = Some q}"])
    show "\<not> d_panic (sy_d S')" using life_okD(1)[OF assms(1)] by (simp add: s' f d_def)
    show "maps_ok S'"
    proof (rule maps_okI[OF assms(1)])
      fix k q assume b: "entryAt (sy_d S') k = Some q"
      show "entry_bound S S' k q"
      proof (cases "l_previous (h_launch d start) = Some q \<and> k = eid d p")
        case True
        with prev(5)[of q] have "entryAt (sy_d S) k = Some p" by (simp add: listed_def d_def)
        then have "k \<noteq> []" by (rule entryAtD(2)[OF assms(1)])
        with True prev(2,3)[of q] show ?thesis by (simp add: s' f(8) placed_def)
      next
        case False
        with b have k: "entryAt d k = Some q" "\<not> (k = eid d p \<and> entryAt d k = Some p)"
          unfolding s' E by (auto split: if_splits)
        then have "q \<noteq> p" using mine(2)[of k] by blast
        with k(1) show ?thesis using entryAtD(3)[OF assms(1), of k q] prev(1)[of q]
          by (auto simp: s' f(8) d_def placed_def)
      qed
    next
      fix k q assume b: "nameAt (sy_d S') k = Some q"
      show "name_bound S S' k q"
      proof (cases "k = ename d p")
        case True
        with b have "l_previous (h_launch d start) = Some q" by (simp add: s' N)
        moreover from this True prev(5)[of q] have "nameAt (sy_d S) k = Some p" by (simp add: listed_def d_def)
        then have "k \<noteq> []" by (rule nameAtD(2)[OF assms(1)])
        ultimately show ?thesis using True prev(2,4,9)[of q] by (simp add: s' f(8,9) placed_def)
      next
        case False
        with b have k: "nameAt d k = Some q" unfolding s' N by simp
        with False have "q \<noteq> p" using mine(1)[of k] by blast
        with k show ?thesis using nameAtD(3,4)[OF assms(1), of k q] prev(1)[of q]
          by (auto simp: s' f(8,9) d_def placed_def)
      qed
    next
      fix t k assume "tokenAt (sy_d S') t = Some k"
      then have "tokenAt (sy_d S) t = Some k" "k \<noteq> start" by (auto simp: s' f d_def split: if_splits)
      then show "token_bound S S' t k" using assms(2) prev(1) by (auto simp: s' f d_def)
    qed
    show "phase_ok S' q" if "q \<in> {q. q = p \<or> l_previous (h_launch d start) = Some q}" for q
      using that r prev[of q]
      by (auto simp: phase_ok_def reserved_ok_def listed_def Let_def s' f(4-) E N d_def)
    show "kept S S' q" if q: "q \<notin> {q. q = p \<or> l_previous (h_launch d start) = Some q}" "sy_phase S q \<noteq> Gone" for q
    proof -
      have k: "k \<noteq> start" if "sy_phase S q = Reserved k \<or> sy_phase S q = Shadow k" for k
      proof
        assume "k = start"
        with that q reserved_launch_unique[OF assms(1,2), of q] have "sy_phase S q = Shadow start" by auto
        then have "l_previous (h_launch d start) = Some q"
          using life_okD(3)[OF assms(1), of q] by (simp add: phase_ok_def Let_def d_def)
        with q show False by simp
      qed
      have r1: "r' \<noteq> p" "l_previous (h_launch d start) \<noteq> Some r'"
        if "sy_phase S r' = Shadow k \<or> sy_phase S r' = Reserved k" "k \<noteq> start" for r' k
        using that assms(2) prev(1)[of r'] by auto
      have "entryAt d' (eid d q) = Some q" if "entryAt d (eid d q) = Some q"
        using that q prev(5) by (cases "l_previous (h_launch d start)") (auto simp: E listed_def)
      moreover have "nameAt d' (ename d q) = Some q" if "nameAt d (ename d q) = Some q"
        using that q fresh_name[of q] by (auto simp: N)
      ultimately show ?thesis
        using q k r1 by (auto simp: kept_def Let_def s' f(4-) d_def)
    qed
    show "gm_ok (d_entries (sy_d S'))"
      using life_okD(6)[OF assms(1)] by (auto simp: s' f d_def split: option.splits)
  qed (use life_okD(4,5)[OF assms(1)] alloc prev(6) in \<open>auto simp: s' f d_def\<close>)
  then show ?thesis by (simp add: S'_def)
qed

section \<open>Installing a peer\<close>

lemma installNew_effect:
  assumes new: "installNew owner old hello sid name d = ((p, displaced, ended), d')"
    and o: "\<forall>o'. old = Some o' \<longrightarrow> o' < n_entry d \<and> \<not> edone d o' \<and> eid d o' \<noteq> sid \<and> entryAt d sid \<noteq> Some o'"
    and f: "\<forall>f'. entryAt d sid = Some f' \<longrightarrow> f' < n_entry d \<and> \<not> edone d f'"
  shows "p = n_entry d" "ended = old"
    "displaced = (case entryAt d sid of None \<Rightarrow> None | Some f' \<Rightarrow> eattached d f')"
    "d_entries d' = gm_set sid p (case old of None \<Rightarrow> d_entries d | Some o' \<Rightarrow> gm_del (eid d o') (d_entries d))"
    "d_names d' = d_names d" "d_tokens d' = d_tokens d" "h_launch d' = h_launch d" "n_launch d' = n_launch d"
    "n_entry d' = Suc p" "d_panic d' = d_panic d"
    "q \<noteq> p \<Longrightarrow> e_row (h_entry d' q) = e_row (h_entry d q)" "eid d' p = sid" "ename d' p = name"
    "epeer d' q = (q = p \<or> epeer d q)" "eclaimed d' q = (q \<noteq> p \<and> eclaimed d q)"
    "eattached d' q = (if q = p then Some owner else if old = Some q \<or> entryAt d sid = Some q then None else eattached d q)"
    "edone d' q = (q \<noteq> p \<and> (old = Some q \<or> entryAt d sid = Some q \<or> edone d q))"
proof -
  let ?e = "\<lambda>life. zeroEntry\<lparr>e_lifetime := Some life, e_peer := True, e_declaredGroups := ph_Groups hello,
     e_attachment := Some owner, e_row := (e_row zeroEntry)\<lparr>r_SessionID := sid, r_Product := ph_Product hello, r_Name := name\<rparr>\<rparr>"
  obtain tok da where draw: "drawID ''owner'' d = (tok, da)" by (cases "drawID ''owner'' d")
  then have da: "da = d\<lparr>d_drawn := Suc (d_drawn d)\<rparr>" by (auto simp: drawID_def)
  define d2 where "d2 = da\<lparr>h_owner := (h_owner da)(n_owner da := freshOwnership sid tok zeroCaller), n_owner := Suc (n_owner da)\<rparr>"
  define item where "item = n_entry d"
  define d3 where "d3 = d2\<lparr>h_entry := (h_entry d2)(item := ?e (n_owner da)), n_entry := Suc item\<rparr>"
  define d4 where "d4 = upd_entry item (\<lambda>e. e\<lparr>e_row := (e_row e)\<lparr>r_Groups :=
      orderedPeerGroups (ph_Groups hello) (privateGroup e)\<rparr>, e_info := ph_Info hello\<rparr>) d3"
  have d4: "d_entries d4 = d_entries d" "d_names d4 = d_names d" "d_tokens d4 = d_tokens d" "h_launch d4 = h_launch d"
    "n_launch d4 = n_launch d" "n_entry d4 = Suc item" "d_panic d4 = d_panic d"
    "\<And>q. q \<noteq> item \<Longrightarrow> h_entry d4 q = h_entry d q" "eid d4 item = sid" "ename d4 item = name" "epeer d4 item"
    "\<not> eclaimed d4 item" "eattached d4 item = Some owner" "\<not> edone d4 item"
    by (simp_all add: d4_def d3_def d2_def da item_def upd_entry_def zeroEntry_def)
  define d5 where "d5 = (case old of None \<Rightarrow> d4
     | Some o' \<Rightarrow> end_entry o' (d4\<lparr>d_entries := gm_del (r_SessionID (e_row (h_entry d4 o'))) (d_entries d4)\<rparr>))"
  have oi: "\<And>o'. old = Some o' \<Longrightarrow> o' \<noteq> item" using o by (auto simp: item_def)
  have d5: "d_entries d5 = (case old of None \<Rightarrow> d_entries d | Some o' \<Rightarrow> gm_del (eid d o') (d_entries d))"
    "d_names d5 = d_names d" "d_tokens d5 = d_tokens d" "h_launch d5 = h_launch d" "n_launch d5 = n_launch d"
    "n_entry d5 = Suc item" "d_panic d5 = d_panic d"
    "\<And>q. e_row (h_entry d5 q) = e_row (h_entry d4 q)" "\<And>q. epeer d5 q = epeer d4 q" "\<And>q. eclaimed d5 q = eclaimed d4 q"
    "\<And>q. eattached d5 q = (if old = Some q then None else eattached d4 q)"
    "\<And>q. edone d5 q = (old = Some q \<or> edone d4 q)"
    using oi o by (cases old; auto simp: d5_def d4 end_entry_effect)+
  have found: "gm_get (d_entries d5) sid = entryAt d sid"
    using o by (auto simp: d5(1) split: option.splits)
  have fi: "\<And>f'. entryAt d sid = Some f' \<Longrightarrow> f' \<noteq> item \<and> old \<noteq> Some f'" using f o by (auto simp: item_def)
  define d6 where "d6 = (case entryAt d sid of None \<Rightarrow> d5
     | Some f' \<Rightarrow> end_entry f' (upd_entry f' (\<lambda>e. e\<lparr>e_lifetime := None\<rparr>)
         (upd_entry item (\<lambda>e. e\<lparr>e_lifetime := e_lifetime (h_entry d5 f')\<rparr>) d5)))"
  have nf: "\<And>f'. entryAt d sid = Some f' \<Longrightarrow> \<not> edone (upd_entry f' (\<lambda>e. e\<lparr>e_lifetime := None\<rparr>)
         (upd_entry item (\<lambda>e. e\<lparr>e_lifetime := e_lifetime (h_entry d5 f')\<rparr>) d5)) f'"
    using f fi by (simp add: upd_entry_def d5 d4(8))
  have d6: "d_entries d6 = d_entries d5" "d_names d6 = d_names d" "d_tokens d6 = d_tokens d" "h_launch d6 = h_launch d"
    "n_launch d6 = n_launch d" "n_entry d6 = Suc item" "d_panic d6 = d_panic d"
    "\<And>q. e_row (h_entry d6 q) = e_row (h_entry d5 q)" "\<And>q. epeer d6 q = epeer d5 q" "\<And>q. eclaimed d6 q = eclaimed d5 q"
    "\<And>q. eattached d6 q = (if entryAt d sid = Some q then None else eattached d5 q)"
    "\<And>q. edone d6 q = (entryAt d sid = Some q \<or> edone d5 q)"
    using nf by (cases "entryAt d sid"; auto simp: d6_def d5 end_entry_effect upd_entry_def)+
  have own: "newOwnership (freshOwnership sid tok zeroCaller) da = (n_owner da, d2)"
    by (simp add: d2_def newOwnership_def)
  have it: "newEntry (?e (n_owner da)) d2 = (item, d3)"
    by (simp add: newEntry_def item_def d3_def d2_def da)
  have res: "installNew owner old hello sid name d =
     ((item, case entryAt d sid of None \<Rightarrow> None | Some f' \<Rightarrow> eattached d5 f', old),
      d6\<lparr>d_entries := gm_set sid item (d_entries d6)\<rparr>)"
    unfolding installNew_def Let_def
    by (simp only: draw case_prod_conv own it d4_def[symmetric] d5_def[symmetric] found d6_def[symmetric])
  show "p = n_entry d" "ended = old" using new unfolding res by (auto simp: item_def)
  have r: "p = item" "d' = d6\<lparr>d_entries := gm_set sid item (d_entries d6)\<rparr>"
    "displaced = (case entryAt d sid of None \<Rightarrow> None | Some f' \<Rightarrow> eattached d5 f')"
    using new unfolding res by auto
  show "displaced = (case entryAt d sid of None \<Rightarrow> None | Some f' \<Rightarrow> eattached d f')"
    using fi by (auto simp: r(3) d5 d4(8) split: option.splits)
  show "d_entries d' = gm_set sid p (case old of None \<Rightarrow> d_entries d | Some o' \<Rightarrow> gm_del (eid d o') (d_entries d))"
    "d_names d' = d_names d" "d_tokens d' = d_tokens d" "h_launch d' = h_launch d" "n_launch d' = n_launch d"
    "n_entry d' = Suc p" "d_panic d' = d_panic d" "eid d' p = sid" "ename d' p = name"
    by (simp_all add: r d6 d5 d4)
  show "q \<noteq> p \<Longrightarrow> e_row (h_entry d' q) = e_row (h_entry d q)" by (simp add: r d6 d5 d4(8))
  show "epeer d' q = (q = p \<or> epeer d q)" "eclaimed d' q = (q \<noteq> p \<and> eclaimed d q)"
    "eattached d' q = (if q = p then Some owner else if old = Some q \<or> entryAt d sid = Some q then None else eattached d q)"
    "edone d' q = (q \<noteq> p \<and> (old = Some q \<or> entryAt d sid = Some q \<or> edone d q))"
    using oi fi by (cases "q = item"; auto simp: r d6 d5 d4)+
qed

lemma install_new_ok:
  assumes "life_ok S" and sid: "sid \<noteq> []"
    and new: "installNew s (sy_ident S s) hello sid name (sy_d S) = ((p, displaced, ended), d')"
    and old: "\<And>o'. sy_ident S s = Some o' \<Longrightarrow> eattached (sy_d S) o' = Some s \<and> eid (sy_d S) o' \<noteq> sid \<and> epeer (sy_d S) o'"
    and found: "\<And>f. entryAt (sy_d S) sid = Some f \<Longrightarrow> epeer (sy_d S) f"
  shows "life_ok (S\<lparr>sy_d := d', sy_ident := (sy_ident S)(s := Some p),
           sy_phase := (\<lambda>q. if q = p then Live s
                            else if ended = Some q \<or> entryAt (sy_d S) sid = Some q then Gone else sy_phase S q)\<rparr>)" (is "life_ok ?S")
proof -
  define d where "d = sy_d S"
  have live: "sy_phase S o' = Live s" "o' < n_entry d" if "sy_ident S s = Some o'" for o'
    using attached_live[OF assms(1), of o' s] life_okD(5)[OF assms(1) that] old[OF that] by (simp_all add: d_def)
  have o: "\<forall>o'. sy_ident S s = Some o' \<longrightarrow> o' < n_entry d \<and> \<not> edone d o' \<and> eid d o' \<noteq> sid \<and> entryAt d sid \<noteq> Some o'"
    using phaseD(1)[OF assms(1) live(1)] live(2) old entryAtD(1)[OF assms(1), of sid]
    unfolding d_def by blast
  have flive: "\<exists>t. sy_phase S f = Live t" if "entryAt d sid = Some f" for f
    using peer_live[OF assms(1), of sid f] found[of f] that by (simp add: d_def)
  have f: "\<forall>f. entryAt d sid = Some f \<longrightarrow> f < n_entry d \<and> \<not> edone d f"
  proof (intro allI impI)
    fix f assume "entryAt d sid = Some f"
    from flive[OF this] show "f < n_entry d \<and> \<not> edone d f"
      using phaseD(1)[OF assms(1), of f] phase_alloc[OF assms(1), of f] by (auto simp: d_def)
  qed
  note e = installNew_effect[OF new[folded d_def] o f]
  have gone: "sy_phase S p = Gone" using life_okD(4)[OF assms(1), of p] e(1) by (simp add: d_def)
  define S' where "S' = ?S"
  have s': "sy_d S' = d'" "sy_ident S' = (sy_ident S)(s := Some p)"
    "sy_phase S' q = (if q = p then Live s else if sy_ident S s = Some q \<or> entryAt d sid = Some q then Gone else sy_phase S q)" for q
    using e(2) by (simp_all add: S'_def d_def)
  let ?T = "{q. q = p \<or> sy_ident S s = Some q \<or> entryAt d sid = Some q}"
  have lp: "\<exists>t. sy_phase S q = Live t" "eattached d' q = None" if "q \<in> ?T" "q \<noteq> p" for q
    using that live(1)[of q] flive[of q] e(16)[of q] by auto
  have E: "entryAt d' k = Some q \<longleftrightarrow> (k = sid \<and> q = p \<or> k \<noteq> sid \<and> sy_ident S s \<noteq> Some q \<and> entryAt d k = Some q)" for k q
  proof (cases "sy_ident S s")
    case (Some o')
    have "entryAt d (eid d o') = Some o'" using phaseD(1)[OF assms(1) live(1)[OF Some]] by (simp add: d_def)
    moreover have "k \<noteq> eid d o' \<longrightarrow> entryAt d k \<noteq> Some o'" using entryAtD(1)[OF assms(1), of k o'] unfolding d_def by blast
    ultimately show ?thesis using Some o by (cases "k = eid d o'") (auto simp: e(4))
  qed (auto simp: e(4))
  have "life_ok S'"
  proof (rule life_okI[OF assms(1), where T = ?T])
    show "\<not> d_panic (sy_d S')" using life_okD(1)[OF assms(1)] by (simp add: s' e(10) d_def)
    show "maps_ok S'"
    proof (rule maps_okI[OF assms(1)])
      fix k q assume b: "entryAt (sy_d S') k = Some q"
      show "entry_bound S S' k q"
      proof (cases "q = p")
        case True
        with b entryAtD(4)[OF assms(1), of k q] e(1) have "k = sid" by (auto simp: s' E d_def)
        with True sid show ?thesis by (simp add: s' e(12) placed_def)
      next
        case False
        with b have k: "entryAt d k = Some q" "k \<noteq> sid" "sy_ident S s \<noteq> Some q" by (auto simp: s' E)
        then have "entryAt d sid \<noteq> Some q" using entryAtD(1)[OF assms(1), of k q] entryAtD(1)[OF assms(1), of sid q]
          unfolding d_def by blast
        with k False entryAtD(3)[OF assms(1), of k q] show ?thesis by (simp add: s' e(11) d_def)
      qed
    next
      fix k q assume "nameAt (sy_d S') k = Some q"
      then have n: "nameAt (sy_d S) k = Some q" by (simp add: s' e(5) d_def)
      note nn = nameAtD(3-5)[OF assms(1) n]
      have "q \<noteq> p" using nn(3) e(1) by (auto simp: d_def)
      moreover have "sy_ident S s \<noteq> Some q" "entryAt d sid \<noteq> Some q" using nn(1) old[of q] found[of q] by (auto simp: d_def)
      ultimately show "name_bound S S' k q" using n nn by (simp add: s' e(11,14) d_def)
    next
      fix t k assume "tokenAt (sy_d S') t = Some k"
      then show "token_bound S S' t k" using gone live(1) flive by (auto simp: s' e(6-8) d_def)
    qed
    show "phase_ok S' q" if "q \<in> ?T" for q
    proof (cases "q = p")
      case True
      then show ?thesis by (simp add: phase_ok_def Let_def s' e(12,14,16,17) E)
    next
      case False
      with that lp[OF that] show ?thesis by (auto simp: phase_ok_def Let_def s')
    qed
    show "kept S S' q" if q: "q \<notin> ?T" "sy_phase S q \<noteq> Gone" for q
    proof -
      have "entryAt d' (eid d q) = Some q" if "entryAt d (eid d q) = Some q" using that q by (auto simp: E)
      moreover have "r \<noteq> p" "sy_ident S s \<noteq> Some r" "entryAt d sid \<noteq> Some r"
        if "sy_phase S r = Shadow k \<or> sy_phase S r = Reserved k" for r k
        using that gone live(1)[of r] flive[of r] by auto
      ultimately show ?thesis using q e(5,7,8) by (auto simp: kept_def Let_def s' e(11,14-17) d_def)
    qed
    show "gm_ok (d_entries (sy_d S'))"
      using life_okD(6)[OF assms(1)] by (auto simp: s' e(4) d_def split: option.splits)
  qed (use life_okD(4,5)[OF assms(1)] e(1,9,16) in \<open>auto simp: s' d_def less_Suc_eq split: if_splits\<close>)
  then show ?thesis by (simp add: S'_def d_def)
qed

lemma install_ok:
  assumes "life_ok S" "ph_SessionID hello \<noteq> []" "\<forall>q. sy_ident S s = Some q \<longrightarrow> epeer (sy_d S) q"
    and inst: "installPeer s (sy_ident S s) hello host (sy_d S) = (Some (p, displaced, ended), d')"
  shows "life_ok (S\<lparr>sy_d := d', sy_ident := (sy_ident S)(s := Some p),
           sy_phase := (\<lambda>q. if q = p then Live s
                            else if ended = Some q \<or> entryAt (sy_d S) (qualify (ph_SessionID hello) host) = Some q
                            then Gone else sy_phase S q)\<rparr>)" (is "life_ok ?S")
proof -
  let ?sid = "qualify (ph_SessionID hello) host" and ?name = "qualify (ph_Name hello) host"
  have sid: "?sid \<noteq> []" using assms(2) by (simp add: qualify_def)
  have att: "eattached (sy_d S) q = Some s" if "sy_ident S s = Some q" for q
    using inst that by (auto simp: installPeer_def Let_def split: if_splits)
  show ?thesis
  proof (cases "\<exists>o'. sy_ident S s = Some o' \<and> eid (sy_d S) o' = ?sid")
    case False
    then have "installNew s (sy_ident S s) hello ?sid ?name (sy_d S) = ((p, displaced, ended), d')"
      and "\<And>f. entryAt (sy_d S) ?sid = Some f \<Longrightarrow> epeer (sy_d S) f"
      using inst att by (auto simp: installPeer_def Let_def split: if_splits option.splits prod.splits)
    then show ?thesis using install_new_ok[OF assms(1) sid] att assms(3) False by blast
  next
    case True
    then obtain o' where o': "sy_ident S s = Some o'" "eid (sy_d S) o' = ?sid" by blast
    have live: "sy_phase S o' = Live s" using attached_live[OF assms(1) att[OF o'(1)]] life_okD(5)[OF assms(1) o'(1)] .
    note l = phaseD(1)[OF assms(1) live]
    have c: "p = o'" "ended = None" "d' = upd_entry p (\<lambda>e. e\<lparr>e_row := (e_row e)\<lparr>r_Name := ?name\<rparr>, e_info := ph_Info hello\<rparr>) (sy_d S)"
      using inst o' att[OF o'(1)] by (auto simp: installPeer_def Let_def split: if_splits)
    have peer: "epeer (sy_d S) p" using assms(3) o'(1) c(1) by simp
    define S' where "S' = ?S"
    have ph: "sy_phase S' = sy_phase S" using live l o'(2) c(1,2) by (auto simp: S'_def)
    have s': "sy_d S' = d'" "sy_ident S' = sy_ident S" using o'(1) c(1) by (auto simp: S'_def)
    have "life_ok S'"
    proof (rule life_okI[OF assms(1), where T = "{p}"])
      show "\<not> d_panic (sy_d S')" using life_okD(1)[OF assms(1)] by (simp add: s' c(3) upd_entry_def)
      show "maps_ok S'"
      proof (rule maps_okI[OF assms(1)])
        fix k q assume "entryAt (sy_d S') k = Some q"
        then show "entry_bound S S' k q" using entryAtD(3)[OF assms(1), of k q] by (simp add: s' ph c(3) upd_entry_def)
      next
        fix k q assume "nameAt (sy_d S') k = Some q"
        then have n: "nameAt (sy_d S) k = Some q" by (simp add: s' c(3) upd_entry_def)
        from nameAtD(3,4)[OF assms(1) n] peer n show "name_bound S S' k q" by (auto simp: s' ph c(3) upd_entry_def)
      qed (simp add: s' ph c(3) upd_entry_def)
      show "phase_ok S' q" if "q \<in> {p}" for q
        using that live l peer c(1) by (simp add: phase_ok_def Let_def s' ph c(3) upd_entry_def)
      show "kept S S' q" if "q \<notin> {p}" "sy_phase S q \<noteq> Gone" for q
        using that live c(1) by (auto simp: kept_def Let_def s' ph c(3) upd_entry_def)
    qed (use life_okD(4,5,6)[OF assms(1)] in \<open>auto simp: s' ph c(3) upd_entry_def\<close>)
    then show ?thesis by (simp add: S'_def)
  qed
qed

section \<open>Reachable directories\<close>

lemma newDirectory_effect:
  assumes "n_entry d = 0" "distinct (map r_SessionID rows)" "distinct (map r_Name rows)"
  shows "n_entry (newDirectory rows d) = length rows \<and> d_panic (newDirectory rows d) = d_panic d
    \<and> d_tokens (newDirectory rows d) = [] \<and> gm_ok (d_entries (newDirectory rows d))
    \<and> (\<forall>p < length rows. h_entry (newDirectory rows d) p = zeroEntry\<lparr>e_row := rows ! p, e_done := True\<rparr>)
    \<and> (\<forall>k p. entryAt (newDirectory rows d) k = Some p \<longleftrightarrow> p < length rows \<and> r_SessionID (rows ! p) = k)
    \<and> (\<forall>k p. nameAt (newDirectory rows d) k = Some p \<longleftrightarrow> p < length rows \<and> r_Name (rows ! p) = k)"
  using assms(2,3)
proof (induction rows rule: rev_induct)
  case Nil
  with assms(1) show ?case by (simp add: newDirectory_def)
next
  case (snoc r rows)
  let ?d = "newDirectory rows d"
  have step: "newDirectory (rows @ [r]) d = newRow r ?d" by (simp add: newDirectory_def)
  have IH: "n_entry ?d = length rows" "d_panic ?d = d_panic d" "d_tokens ?d = []" "gm_ok (d_entries ?d)"
    "\<And>p. p < length rows \<Longrightarrow> h_entry ?d p = zeroEntry\<lparr>e_row := rows ! p, e_done := True\<rparr>"
    "\<And>k p. entryAt ?d k = Some p \<longleftrightarrow> p < length rows \<and> r_SessionID (rows ! p) = k"
    "\<And>k p. nameAt ?d k = Some p \<longleftrightarrow> p < length rows \<and> r_Name (rows ! p) = k"
    using snoc by auto
  have new: "r_SessionID (rows ! p) \<noteq> r_SessionID r" "r_Name (rows ! p) \<noteq> r_Name r" if "p < length rows" for p
    using snoc.prems nth_mem[OF that] by (auto simp: image_iff)
  show ?case unfolding step
    using IH new by (auto simp: newRow_def newEntry_def Let_def nth_append less_Suc_eq)
qed

lemma init_ok:
  assumes "dir_init S"
  shows "life_ok S"
proof -
  from assms obtain rows d where i: "rows_ok rows" "n_entry d = 0" "\<not> d_panic d" "sy_d S = newDirectory rows d"
    "sy_phase S = (\<lambda>p. if p < length rows then Offline else Gone)" "sy_ident S = (\<lambda>s. None)"
    by (auto simp: dir_init_def)
  have e: "n_entry (sy_d S) = length rows" "d_panic (sy_d S) = d_panic d" "d_tokens (sy_d S) = []" "gm_ok (d_entries (sy_d S))"
    "\<And>p. p < length rows \<Longrightarrow> h_entry (sy_d S) p = zeroEntry\<lparr>e_row := rows ! p, e_done := True\<rparr>"
    "\<And>k p. entryAt (sy_d S) k = Some p \<longleftrightarrow> p < length rows \<and> r_SessionID (rows ! p) = k"
    "\<And>k p. nameAt (sy_d S) k = Some p \<longleftrightarrow> p < length rows \<and> r_Name (rows ! p) = k"
    using newDirectory_effect[OF i(2), of rows] i(1,4) by (auto simp: rows_ok_def)
  have r: "r_SessionID (rows ! p) \<noteq> []" "r_Name (rows ! p) \<noteq> []" "r_CreatedAt (rows ! p) \<noteq> 0" if "p < length rows" for p
    using i(1) nth_mem[OF that] by (auto simp: rows_ok_def)
  have "phase_ok S p" for p
    using r by (simp add: phase_ok_def Let_def i(5) e listed_def zeroEntry_def)
  moreover have "maps_ok S"
    using r by (auto simp: maps_ok_def Let_def i(5) e zeroEntry_def placed_def)
  ultimately show ?thesis using i(3) e by (simp add: life_ok_def i(5,6))
qed

text \<open>What the operations outside the life cycle do, and that they are the step \<open>other\<close>.\<close>

lemma same_core_life: "same_core d d' \<Longrightarrow> same_life d d'"
  using same_core_entry by (auto simp: same_life_def same_core_def)

lemma same_life_trans: "same_life d d1 \<Longrightarrow> same_life d1 d2 \<Longrightarrow> same_life d d2"
  by (auto simp: same_life_def)

lemma same_life_ops:
  "same_life d (endOwner owner d)" "same_life d (snd (routeLocked item method request d))"
  "same_life d (finishRun item s d)" "same_life d (snd (remoteOwnerLocked caller d))"
  "same_life d (snd (allocLaunch l d))"
proof -
  show "same_life d (endOwner owner d)" by (rule same_core_life) (rule endOwner_core)
  show "same_life d (snd (routeLocked item method request d))"
    by (auto simp: routeLocked_def Let_def postWire_def upd_wire_def same_life_def split: option.splits)
  show "same_life d (finishRun item s d)"
    by (auto simp: finishRun_def upd_entry_def same_life_def split: option.splits)
  show "same_life d (snd (remoteOwnerLocked caller d))"
    by (auto simp: remoteOwnerLocked_def newOwnership_def Let_def same_life_def split: option.splits)
  show "same_life d (snd (allocLaunch l d))"
    by (auto simp: allocLaunch_def same_life_def)
qed

lemma remoteEnded_life: "same_life d (remoteEnded ev d)"
proof -
  have one: "same_life d (remoteEnded_one ev kw d)" for kw d
    using same_life_ops(1)[of d "Some (snd kw)"]
    by (auto simp: remoteEnded_one_def same_life_def Let_def split: prod.splits)
  have "same_life d (fold (remoteEnded_one ev) kws d)" for kws d
  proof (induction kws arbitrary: d)
    case (Cons kw kws)
    show ?case using same_life_trans[OF one Cons.IH] by simp
  qed (simp add: same_life_def)
  then show ?thesis by (simp add: remoteEnded_def)
qed

section \<open>The outcomes in which a call refuses\<close>

lemma refused_life:
  "installPeer s old hello host d = (None, d') \<Longrightarrow> d' = d"
  "claimWorker s token product d = (None, d') \<Longrightarrow> d' = d"
  "allocLaunch l d = (start, d1) \<Longrightarrow> reserveFresh r start d1 = ((None, code), d') \<Longrightarrow> same_life d d'"
  "allocLaunch l d = (start, d1) \<Longrightarrow> l_input l = Some input \<Longrightarrow> reserveResume sid groups start d1 = ((None, code), d')
   \<Longrightarrow> same_life d d'"
proof -
  show "installPeer s old hello host d = (None, d') \<Longrightarrow> d' = d"
    by (auto simp: installPeer_def Let_def split: if_splits prod.splits)
  show "claimWorker s token product d = (None, d') \<Longrightarrow> d' = d"
    by (auto simp: claimWorker_def split: option.splits if_splits)
  show "same_life d d'" if a: "allocLaunch l d = (start, d1)" and r: "reserveFresh r start d1 = ((None, code), d')"
  proof -
    have "d' = d1" using r by (auto simp: reserveFresh_def addLaunch_def Let_def split: if_splits prod.splits)
    then show ?thesis using same_life_ops(5)[of d l] a by simp
  qed
  show "same_life d d'" if a: "allocLaunch l d = (start, d1)" and i: "l_input l = Some input"
    and r: "reserveResume sid groups start d1 = ((None, code), d')"
  proof -
    have "l_input (h_launch d1 start) = Some input" using a i by (auto simp: allocLaunch_def)
    then have "d' = d1" using r
      by (auto simp: reserveResume_def addLaunch_def Let_def split: if_splits prod.splits option.splits sum.splits)
    then show ?thesis using same_life_ops(5)[of d l] a by simp
  qed
qed

lemma publish_refused_same:
  assumes "life_ok S" "sy_phase S p = Reserved start" "ename (sy_d S) p \<noteq> []"
    "publish start s createdAt (sy_d S) = (False, d')"
  shows "d' = sy_d S"
proof -
  have "l_entry (h_launch (sy_d S) start) = Some p" "r_Policy (e_row (h_entry (sy_d S) p)) \<noteq> None"
    using phaseD(2)[OF assms(1,2)] assms(3) by (simp_all add: reserved_ok_def Let_def)
  then show ?thesis using assms(4) by (auto simp: publish_def Let_def split: if_splits option.splits)
qed

lemma selectLabels_length: "selectLabels valid groups d ls = Some xs \<Longrightarrow> length xs = length ls"
  by (induction ls arbitrary: xs) (auto simp: Let_def split: prod.splits if_splits option.splits)

lemma select_life:
  assumes "selectLocked groups labels grp names omit request d = ((xs, code, None), d')"
    "request \<noteq> None \<longrightarrow> labels = Some [label]"
  shows "same_life d d'"
proof (cases "d' = d")
  case False
  obtain rq where rq: "request = Some rq" "labels = Some [label]"
    using assms False by (cases request) (auto simp: selectLocked_def split: option.splits)
  let ?valid = "if names then validNamePart (d_hi d) else validIDPart (d_hi d)"
  obtain x where x: "selectLabels ?valid groups d [label] = Some [x]"
  proof (cases "selectLabels ?valid groups d [label]")
    case None
    with assms(1) rq False show ?thesis by (simp add: selectLocked_def del: selectLabels.simps)
  next
    case (Some ys)
    with selectLabels_length[OF Some] that show ?thesis by (cases ys) auto
  qed
  obtain p c where "routeLocked (Some p) (q_method rq) rq d = (c, d')"
    using assms(1) False x
    by (auto simp: selectLocked_def rq Let_def simp del: selectLabels.simps split: option.splits if_splits prod.splits)
  then show ?thesis using same_life_ops(2)[of d "Some p" "q_method rq" rq] by simp
qed (simp add: same_life_def)

lemma close_finish_ok:
  assumes "life_ok S" "sy_phase S p = Closing" "request = newRequest ''session.close'' (PClose c) reply"
    "offlineDelete p (sc_Forget c) (sy_d S) = (deleted, d1)"
  shows "life_ok (S\<lparr>sy_d := finishOfflineClose p request (sy_d S),
           sy_phase := (sy_phase S)(p := if sc_Forget c \<and> deleted then Gone else Offline)\<rparr>)"
proof -
  have "same_life (sy_d S) d1"
    using assms(4) by (auto simp: offlineDelete_def deleteRow_def same_life_def Let_def split: if_splits prod.splits)
  from same_life_ok[OF assms(1) this] have S1: "life_ok (S\<lparr>sy_d := d1\<rparr>)" .
  obtain completed d2 where c: "offlineCommit p (sc_Forget c) deleted d1 = (completed, d2)" by fastforce
  let ?S2 = "(S\<lparr>sy_d := d1\<rparr>)\<lparr>sy_d := d2, sy_phase := (sy_phase S)(p := if sc_Forget c \<and> deleted then Gone else Offline)\<rparr>"
  have S2: "life_ok ?S2" using close_commit_ok[OF S1, of p "sc_Forget c" deleted completed d2] assms(2) c by simp
  have f: "finishOfflineClose p request (sy_d S) = offlineReply request completed deleted d2"
    using assms(3,4) c by (simp add: finishOfflineClose_def offlineForget_def newRequest_def)
  have "same_life d2 (offlineReply request completed deleted d2)"
    by (simp add: offlineReply_def sendAnswer_def assms(3) newRequest_def same_life_def)
  with same_life_ok[OF S2, of "offlineReply request completed deleted d2"]
  have "life_ok (?S2\<lparr>sy_d := finishOfflineClose p request (sy_d S)\<rparr>)" by (simp add: f)
  moreover have "?S2\<lparr>sy_d := finishOfflineClose p request (sy_d S)\<rparr> = S\<lparr>sy_d := finishOfflineClose p request (sy_d S),
      sy_phase := (sy_phase S)(p := if sc_Forget c \<and> deleted then Gone else Offline)\<rparr>" by (cases S) simp
  ultimately show ?thesis by (simp only:)
qed

lemma refused_ok:
  assumes "life_ok S"
  shows "installPeer s (sy_ident S s) hello host (sy_d S) = (None, d') \<Longrightarrow> life_ok (S\<lparr>sy_d := d'\<rparr>)"
    "claimWorker s token product (sy_d S) = (None, d') \<Longrightarrow> life_ok (S\<lparr>sy_d := d'\<rparr>)"
    "sy_phase S p = Reserved start \<Longrightarrow> ename (sy_d S) p \<noteq> [] \<Longrightarrow> publish start s createdAt (sy_d S) = (False, d')
     \<Longrightarrow> life_ok (S\<lparr>sy_d := d'\<rparr>)"
  using assms refused_life(1)[of s "sy_ident S s" hello host "sy_d S" d'] refused_life(2)[of s token product "sy_d S" d']
    publish_refused_same[OF assms, of p start s createdAt d'] by auto

lemma step_ok: "dir_step S S' \<Longrightarrow> life_ok S \<Longrightarrow> life_ok S'"
proof (induction rule: dir_step.induct)
  case (fresh_refused l S start d1 r code d')
  then show ?case using same_life_ok refused_life(3) by blast
next
  case (resume_refused l S start d1 input sid groups code d')
  then show ?case using same_life_ok refused_life(4) by blast
next
  case (select_step groups labels grp names omit request S xs code d' label)
  then show ?case using same_life_ok select_life by blast
next
  case (close_finish S p request c reply deleted d1)
  then show ?case using close_finish_ok by blast
qed (erule same_life_ok install_ok detach_ok offline_ok admitted_ok fresh_ok resume_ok describe_ok claim_ok
       open_id_ok publish_ok revoke_ok release_ok close_claim_ok close_commit_ok refused_ok; assumption)+

interpretation directory: transition_system dir_init dir_step life_ok
  by unfold_locales (simp_all add: init_ok step_ok)

section \<open>A concrete run for the witnesses\<close>

definition demo_sys :: dsys where
  "demo_sys = \<lparr>sy_d = demo_directory, sy_phase = (\<lambda>p. if p < 1 then Offline else Gone), sy_ident = (\<lambda>s. None)\<rparr>"

lemma demo_sys_reach: "reach dir_init dir_step demo_sys"
proof (rule reach_init)
  show "dir_init demo_sys"
    unfolding dir_init_def
    by (rule exI[of _ "[demo_row]"], rule exI[of _ "emptyDaemon ''h''"])
      (simp add: demo_sys_def demo_directory_def rows_ok_def demo_row_def emptyDaemon_def)
qed

definition demo_hello :: PeerHello where
  "demo_hello = \<lparr>ph_Protocol = 1, ph_Product = ''p'', ph_SessionID = ''me'', ph_Name = ''boss'',
     ph_Groups = [''g''], ph_Info = []\<rparr>"

definition demo_install :: "(ptr \<times> ptr option \<times> ptr option) option \<times> daemon" where
  "demo_install = installPeer 4 None demo_hello ''h'' demo_directory"

lemmas demo_directory_simps = demo_directory_def newDirectory_def newRow_def newEntry_def emptyDaemon_def
  demo_row_def gm_get_def gm_set_def zeroEntry_def

lemma demo_install: "demo_install = (Some (1, None, None), snd demo_install)" "e_attachment (h_entry (snd demo_install) 1) = Some 4"
  by (simp_all add: demo_install_def installPeer_def installNew_def demo_hello_def qualify_def demo_directory_simps
      drawID_def newOwnership_def upd_entry_def Let_def)

definition demo_peer :: dsys where
  "demo_peer = demo_sys\<lparr>sy_d := snd demo_install, sy_ident := (sy_ident demo_sys)(4 := Some 1),
     sy_phase := (\<lambda>q. if q = 1 then Live 4
                      else if None = Some q \<or> entryAt (sy_d demo_sys) (qualify (ph_SessionID demo_hello) ''h'') = Some q
                      then Gone else sy_phase demo_sys q)\<rparr>"

lemma demo_peer_reach: "reach dir_init dir_step demo_peer"
  unfolding demo_peer_def
proof (rule reach_step[OF demo_sys_reach], rule dir_step.install)
  show "installPeer 4 (sy_ident demo_sys 4) demo_hello ''h'' (sy_d demo_sys) = (Some (1, None, None), snd demo_install)"
    using demo_install(1) by (simp add: demo_sys_def demo_install_def)
qed (simp_all add: demo_sys_def demo_hello_def)

section \<open>Consequences\<close>

text \<open>
  C2: whatever the interleaving of connections, spawns, resumes, describes, selections, closes and
  shutdowns, and whatever each call returns, no operation of the directory panics: no entry's
  \<open>done\<close> channel is closed twice, \<open>publish\<close> finds the launch's entry and the policy of its row,
  \<open>reserveResume\<close> the request it resumes for, \<open>selectEntries\<close> the first selected entry and
  \<open>finishOfflineClose\<close> the parameters and the reply channel of the request.
\<close>

theorem directory_never_panics:
  "reach dir_init dir_step S \<Longrightarrow> \<not> d_panic (sy_d S)"
  using directory.reach_inv life_okD(1) by blast

theorem directory_never_panics_witness: "\<not> d_panic (sy_d demo_peer)"
  by (rule directory_never_panics[OF demo_peer_reach])

text \<open>
  C28: an entry a session is attached to is the one the directory holds under its identifier, and
  a session is attached to at most one entry.
\<close>

theorem attachment_is_current:
  assumes "reach dir_init dir_step S" "p < n_entry (sy_d S)" "eattached (sy_d S) p = Some s"
  shows "current (Some p) s (sy_d S)
    \<and> (\<forall>q < n_entry (sy_d S). eattached (sy_d S) q = Some s \<longrightarrow> q = p)"
proof -
  have ok: "life_ok S" using directory.reach_inv[OF assms(1)] .
  have p: "sy_phase S p = Live s" using attached_live[OF ok assms(3,2)] .
  have "q = p" if "q < n_entry (sy_d S)" "eattached (sy_d S) q = Some s" for q
    using live_unique[OF ok p attached_live[OF ok that(2,1)]] .
  then show ?thesis using phaseD(1)[OF ok p] by (simp add: current_def)
qed

theorem attachment_is_current_witness: "current (Some 1) 4 (sy_d demo_peer)"
proof -
  have "1 < n_entry (sy_d demo_peer)"
    using phase_alloc[OF directory.reach_inv[OF demo_peer_reach], of 1] by (simp add: demo_peer_def)
  moreover have "eattached (sy_d demo_peer) 1 = Some 4" using demo_install(2) by (simp add: demo_peer_def)
  ultimately show ?thesis using attachment_is_current[OF demo_peer_reach] by blast
qed

text \<open>
  C29: identifiers and lane names are unique: the directory holds every entry, peer or lane,
  under its own identifier, which is not empty; its name table leads from a name to the lane of
  that name and never to a peer; and two lanes of the directory that have the same name (an entry
  reserved for a describe has none) are the same entry.
\<close>

theorem lane_names_unique:
  assumes "reach dir_init dir_step S"
  shows "(\<forall>k p. entryAt (sy_d S) k = Some p \<longrightarrow> eid (sy_d S) p = k \<and> k \<noteq> [])
    \<and> (\<forall>n p. nameAt (sy_d S) n = Some p \<longrightarrow> ename (sy_d S) p = n \<and> n \<noteq> [] \<and> \<not> epeer (sy_d S) p)
    \<and> (\<forall>k1 k2 p1 p2. entryAt (sy_d S) k1 = Some p1 \<and> entryAt (sy_d S) k2 = Some p2
         \<and> \<not> epeer (sy_d S) p1 \<and> \<not> epeer (sy_d S) p2
         \<and> ename (sy_d S) p1 = ename (sy_d S) p2 \<and> ename (sy_d S) p1 \<noteq> [] \<longrightarrow> k1 = k2 \<and> p1 = p2)"
proof -
  have ok: "life_ok S" using directory.reach_inv[OF assms(1)] .
  have named: "nameAt (sy_d S) (ename (sy_d S) p) = Some p"
    if "entryAt (sy_d S) k = Some p" "\<not> epeer (sy_d S) p" "ename (sy_d S) p \<noteq> []" for k p
    using life_okD(3)[OF ok, of p] entryAtD(3)[OF ok that(1)] that(2,3)
    by (auto simp: phase_ok_def reserved_ok_def listed_def placed_def Let_def split: phase.splits option.splits)
  have "k1 = k2 \<and> p1 = p2"
    if a: "entryAt (sy_d S) k1 = Some p1" "entryAt (sy_d S) k2 = Some p2" "\<not> epeer (sy_d S) p1" "\<not> epeer (sy_d S) p2"
      "ename (sy_d S) p1 = ename (sy_d S) p2" "ename (sy_d S) p1 \<noteq> []" for k1 k2 p1 p2
  proof -
    have "Some p1 = Some p2" using named[OF a(1,3,6)] named[OF a(2,4)] a(5,6) by metis
    then show ?thesis using entryAtD(1)[OF ok a(1)] entryAtD(1)[OF ok a(2)] by simp
  qed
  moreover have "eid (sy_d S) p = k \<and> k \<noteq> []" if "entryAt (sy_d S) k = Some p" for k p
    using entryAtD(1,2)[OF ok that] by (rule conjI)
  moreover have "ename (sy_d S) p = n \<and> n \<noteq> [] \<and> \<not> epeer (sy_d S) p" if "nameAt (sy_d S) n = Some p" for n p
    using nameAtD(1-3)[OF ok that] by (intro conjI)
  ultimately show ?thesis by blast
qed

definition demo_rows :: "row list" where
  "demo_rows = [demo_row, demo_row\<lparr>r_SessionID := ''b@h'', r_Name := ''boss/b@h''\<rparr>]"

definition demo_two :: dsys where
  "demo_two = \<lparr>sy_d = newDirectory demo_rows (emptyDaemon ''h''), sy_phase = (\<lambda>p. if p < length demo_rows then Offline else Gone),
     sy_ident = (\<lambda>s. None)\<rparr>"

theorem lane_names_unique_witness:
  "entryAt (sy_d demo_two) ''a@h'' = Some 0 \<and> entryAt (sy_d demo_two) ''b@h'' = Some 1
   \<and> eid (sy_d demo_two) 0 = ''a@h'' \<and> eid (sy_d demo_two) 1 = ''b@h'' \<and> ename (sy_d demo_two) 0 \<noteq> ename (sy_d demo_two) 1"
proof -
  have "dir_init demo_two"
    unfolding dir_init_def
    by (rule exI[of _ demo_rows], rule exI[of _ "emptyDaemon ''h''"])
      (simp add: demo_two_def demo_rows_def rows_ok_def demo_row_def emptyDaemon_def)
  note u = lane_names_unique[OF reach_init[of dir_init, OF this, of dir_step]]
  have e: "entryAt (sy_d demo_two) ''a@h'' = Some 0" "entryAt (sy_d demo_two) ''b@h'' = Some 1"
    "\<not> epeer (sy_d demo_two) 0" "\<not> epeer (sy_d demo_two) 1" "ename (sy_d demo_two) 0 \<noteq> []"
    by (simp_all add: demo_two_def demo_rows_def demo_directory_simps)
  then have "ename (sy_d demo_two) 0 \<noteq> ename (sy_d demo_two) 1"
    using u by (metis zero_neq_one)
  with e u show ?thesis by blast
qed

text \<open>
  the branch \<open>offline close claim lost\<close> of \<open>finishOfflineClose\<close> is never taken: the claim a
  close request takes on an offline lane survives until the request releases it, although the
  mutex is dropped while the row is deleted.
\<close>

theorem offline_claim_never_lost:
  assumes "reach dir_init dir_step S" "sy_phase S p = Closing"
  shows "fst (offlineCommit p forget deleted (sy_d S)) = True"
  using offlineCommit_effect[OF directory.reach_inv[OF assms(1)] assms(2)] by simp

definition demo_close :: routedRequest where
  "demo_close = newRequest ''session.close'' (PClose \<lparr>sc_SessionID = ''a'', sc_Forget = True\<rparr>) 9"

definition demo_claimed :: daemon where
  "demo_claimed = snd (selectLocked [''g''] (Some [''a'']) [] False None (Some demo_close) demo_directory)"

lemma demo_claim:
  "\<exists>xs code. selectLocked [''g''] (Some [''a'']) [] False None (Some demo_close) demo_directory
     = ((xs, code, Some 0), demo_claimed)"
  by (simp add: demo_claimed_def selectLocked_def canonical_def validIDPart_def runeCount_def runes_def decodeRune_def
      isPrint_def isSpace_def qualify_def resolveLocked_def visibleTo_def shares_def demo_directory_simps
      demo_close_def newRequest_def Let_def)

theorem offline_claim_never_lost_witness:
  "fst (offlineCommit 0 True True demo_claimed) = True"
proof -
  obtain xs code where c: "selectLocked [''g''] (Some [''a'']) [] False None (Some demo_close) (sy_d demo_sys)
     = ((xs, code, Some 0), demo_claimed)" using demo_claim by (auto simp: demo_sys_def)
  have "reach dir_init dir_step (demo_sys\<lparr>sy_d := demo_claimed, sy_phase := (sy_phase demo_sys)(0 := Closing)\<rparr>)"
    by (rule reach_step[OF demo_sys_reach], rule dir_step.close_claim[OF c])
  from offline_claim_never_lost[OF this, of 0 True True] show ?thesis by simp
qed

text \<open>
  A launch no token leads to. No step gives such a launch a token again: only launches just
  allocated get one.
\<close>

definition spent :: "dsys \<Rightarrow> ptr \<Rightarrow> bool" where
  "spent S l \<longleftrightarrow> l < n_launch (sy_d S) \<and> (\<forall>t. tokenAt (sy_d S) t \<noteq> Some l)"

lemma spent_unusable:
  assumes "spent S l"
  shows "fst (claimWorker s token product (sy_d S)) \<noteq> Some l" "\<not> fst (revokeLaunch l (sy_d S))"
  using assms by (auto simp: spent_def claimWorker_def revokeLaunch_def Let_def split: option.splits)

lemma spent_same_life: "same_life (sy_d S) d' \<Longrightarrow> spent S l \<Longrightarrow> spent (S\<lparr>sy_d := d'\<rparr>) l"
  by (auto simp: spent_def same_life_def)

text \<open>The operations that touch neither the tokens nor the launches.\<close>

definition same_tokens :: "daemon \<Rightarrow> daemon \<Rightarrow> bool" where
  "same_tokens d d' \<longleftrightarrow> d_tokens d' = d_tokens d \<and> n_launch d' = n_launch d"

lemma same_tokens_trans: "same_tokens d d1 \<Longrightarrow> same_tokens d1 d2 \<Longrightarrow> same_tokens d d2"
  by (simp add: same_tokens_def)

lemma spent_same_tokens:
  "same_tokens (sy_d S) (sy_d S') \<Longrightarrow> spent S l \<Longrightarrow> spent S' l"
  by (simp add: spent_def same_tokens_def)

lemma end_entry_tokens: "same_tokens d (end_entry p d)"
proof -
  let ?d1 = "upd_entry p (\<lambda>e. e\<lparr>e_traceMode := [], e_traceVersion := []\<rparr>) d"
  have "same_core d (endOwner (e_lifetime (h_entry ?d1 p)) ?d1)"
    by (rule same_core_trans[OF clear_trace_core endOwner_core])
  then show ?thesis
    by (simp add: end_entry_def Let_def closeDone_def same_tokens_def same_core_def upd_entry_def panic_def)
qed

lemma installNew_tokens: "same_tokens d (snd (installNew owner old hello sid name d))"
  using end_entry_tokens
  by (auto simp: installNew_def Let_def drawID_def newOwnership_def newEntry_def upd_entry_def same_tokens_def
      split: option.splits)

lemma quiet_tokens:
  "same_tokens d (snd (installPeer owner old hello host d))" "same_tokens d (detach old s d)"
  "same_tokens d (offline p s forget d)" "same_tokens d (admitted p m d)"
  "same_tokens d (snd (reserveID p sid d))" "same_tokens d (snd (publish start s createdAt d))"
  "same_tokens d (snd (selectLocked groups labels grp names omit request d))"
  "same_tokens d (snd (offlineCommit p forget deleted d))" "same_tokens d (finishOfflineClose p rq d)"
proof -
  show "same_tokens d (snd (installPeer owner old hello host d))"
    using installNew_tokens[of d owner old hello "qualify (ph_SessionID hello) host" "qualify (ph_Name hello) host"]
    by (auto simp: installPeer_def Let_def same_tokens_def upd_entry_def split: prod.splits)
  show "same_tokens d (detach old s d)"
    using end_entry_tokens by (auto simp: detach_def Let_def same_tokens_def upd_entry_def split: option.splits)
  show "same_tokens d (offline p s forget d)" "same_tokens d (admitted p m d)"
    "same_tokens d (snd (reserveID p sid d))"
    by (auto simp: offline_def admitted_def reserveID_def Let_def same_tokens_def upd_entry_def)
  show "same_tokens d (snd (publish start s createdAt d))"
    using publishCommit_effect(3,5) by (auto simp: publish_def Let_def same_tokens_def panic_def split: option.splits)
  have route: "same_tokens d (snd (routeLocked item m rq d))" for item m rq
    by (simp add: routeLocked_def postWire_def upd_wire_def Let_def same_tokens_def split: option.split)
  show "same_tokens d (snd (selectLocked groups labels grp names omit request d))"
    using route
    by (simp add: selectLocked_def upd_entry_def Let_def same_tokens_def panic_def split_beta split: option.split list.split)
  show c: "same_tokens d (snd (offlineCommit p forget deleted d))" for d forget deleted
    by (auto simp: offlineCommit_def Let_def same_tokens_def upd_entry_def)
  have del: "same_tokens d (snd (offlineDelete p forget d))" for d forget
    by (auto simp: offlineDelete_def deleteRow_def Let_def same_tokens_def split: prod.splits)
  have rep: "same_tokens d (offlineReply rq completed deleted d)" for d completed deleted
    by (simp add: offlineReply_def sendAnswer_def same_tokens_def panic_def split: option.split)
  show "same_tokens d (finishOfflineClose p rq d)"
  proof (cases "offlineForget rq")
    case (Some forget)
    obtain deleted d1 completed d2 where o: "offlineDelete p forget d = (deleted, d1)"
      "offlineCommit p forget deleted d1 = (completed, d2)" by fastforce
    have "same_tokens d d1" "same_tokens d1 d2" using del[of d forget] c[of d1 forget deleted] o by simp_all
    with Some o rep[of d2 completed deleted] show ?thesis
      by (simp add: finishOfflineClose_def same_tokens_def)
  qed (simp add: finishOfflineClose_def panic_def same_tokens_def)
qed

lemma spent_new:
  assumes "spent S l" "n_launch (sy_d S') = Suc (n_launch (sy_d S))"
    "\<And>t k. tokenAt (sy_d S') t = Some k \<Longrightarrow> tokenAt (sy_d S) t = Some k \<or> k = n_launch (sy_d S)"
  shows "spent S' l"
  using assms by (fastforce simp: spent_def)

lemma reserve_tokens:
  "allocLaunch l d = (start, d1) \<Longrightarrow> reserveFresh r start d1 = (res, d')
   \<Longrightarrow> n_launch d' = Suc (n_launch d) \<and> (tokenAt d' t = Some k \<longrightarrow> tokenAt d t = Some k \<or> k = n_launch d)"
  "allocLaunch l d = (start, d1) \<Longrightarrow> reserveResume sid groups start d1 = (res, d')
   \<Longrightarrow> n_launch d' = Suc (n_launch d) \<and> (tokenAt d' t = Some k \<longrightarrow> tokenAt d t = Some k \<or> k = n_launch d)"
  "newEntry e d = (p, d0) \<Longrightarrow> allocLaunch l d0 = (start, d1) \<Longrightarrow> reserveDescribe start d1 = (code, d')
   \<Longrightarrow> n_launch d' = Suc (n_launch d) \<and> (tokenAt d' t = Some k \<longrightarrow> tokenAt d t = Some k \<or> k = n_launch d)"
  by (auto simp: allocLaunch_def reserveFresh_def reserveResume_def reserveDescribe_def addLaunch_def newEntry_def
      upd_launch_def panic_def Let_def split: if_splits option.splits sum.splits)

lemma spent_step:
  assumes "dir_step S S'" "life_ok S" "spent S l"
  shows "spent S' l"
  using assms
proof (induction rule: dir_step.induct)
  case (other S d')
  then show ?case using spent_same_life by blast
next
  case (fresh la S start d1 r p code d' policy)
  show ?case by (rule spent_new[OF \<open>spent S l\<close>]) (use reserve_tokens(1)[OF fresh(1,5)] in auto)
next
  case (fresh_refused la S start d1 r code d')
  show ?case by (rule spent_new[OF \<open>spent S l\<close>]) (use reserve_tokens(1)[OF fresh_refused(1,2)] in auto)
next
  case (resume la S start d1 input sid groups p code d' q)
  show ?case by (rule spent_new[OF \<open>spent S l\<close>]) (use reserve_tokens(2)[OF resume(1,6)] in auto)
next
  case (resume_refused la S start d1 input sid groups code d')
  show ?case by (rule spent_new[OF \<open>spent S l\<close>]) (use reserve_tokens(2)[OF resume_refused(1,3)] in auto)
next
  case (describe_step product S p d1 la start d2 code d')
  show ?case by (rule spent_new[OF \<open>spent S l\<close>]) (use reserve_tokens(3)[OF describe_step(1,2,5)] in auto)
next
  case (claim s token product S start d')
  then show ?case using claim_effect[OF claim(1)] by (auto simp: spent_def upd_launch_def)
next
  case (claim_refused s token product S d')
  then show ?case using refused_life(2)[OF claim_refused(1)] by (simp add: spent_def)
next
  case (revoke start S ok d')
  then show ?case by (auto simp: spent_def revokeLaunch_def Let_def split: if_splits)
next
  case (release S p start)
  then show ?case using release_effect(3,6)[OF release(2,1)] by (auto simp: spent_def)
next
  case (open_id S p start sid ok d')
  then show ?case
    using quiet_tokens(5)[of "upd_entry p (\<lambda>e. e\<lparr>e_row := (e_row e)\<lparr>r_SessionID := sid\<rparr>\<rparr>) (sy_d S)" p sid]
    by (simp add: spent_def same_tokens_def upd_entry_def)
next
  case (install s S hello host p displaced ended d')
  show ?case by (rule spent_same_tokens[OF _ \<open>spent S l\<close>]) (use quiet_tokens(1)[of "sy_d S" s "sy_ident S s" hello host] install.hyps in simp)
next
  case (install_refused s S hello host d')
  show ?case by (rule spent_same_tokens[OF _ \<open>spent S l\<close>]) (use quiet_tokens(1)[of "sy_d S" s "sy_ident S s" hello host] install_refused.hyps in simp)
next
  case (detach_step S s)
  show ?case by (rule spent_same_tokens[OF _ \<open>spent S l\<close>]) (use quiet_tokens(2) in simp)
next
  case (offline_step S p s forget)
  show ?case by (rule spent_same_tokens[OF _ \<open>spent S l\<close>]) (use quiet_tokens(3) in simp)
next
  case (admitted_step S p s m)
  show ?case by (rule spent_same_tokens[OF _ \<open>spent S l\<close>]) (use quiet_tokens(4) in simp)
next
  case (publish_step S p start s createdAt d')
  show ?case by (rule spent_same_tokens[OF _ \<open>spent S l\<close>]) (use quiet_tokens(6)[of "sy_d S" start s createdAt] publish_step.hyps in simp)
next
  case (publish_refused S p start s createdAt d')
  show ?case by (rule spent_same_tokens[OF _ \<open>spent S l\<close>]) (use quiet_tokens(6)[of "sy_d S" start s createdAt] publish_refused.hyps in simp)
next
  case (close_claim groups labels grp names omit request S xs code p d')
  show ?case by (rule spent_same_tokens[OF _ \<open>spent S l\<close>]) (use quiet_tokens(7)[of "sy_d S" groups labels grp names omit request] close_claim.hyps in simp)
next
  case (select_step groups labels grp names omit request S xs code d' label)
  show ?case by (rule spent_same_tokens[OF _ \<open>spent S l\<close>]) (use quiet_tokens(7)[of "sy_d S" groups labels grp names omit request] select_step.hyps in simp)
next
  case (close_finish S p request c reply deleted d1)
  show ?case by (rule spent_same_tokens[OF _ \<open>spent S l\<close>]) (use quiet_tokens(9) in simp)
next
  case (close_commit S p forget deleted ok d')
  show ?case by (rule spent_same_tokens[OF _ \<open>spent S l\<close>]) (use quiet_tokens(8)[of "sy_d S" p forget deleted] close_commit.hyps in simp)
qed

lemma claim_spends:
  assumes "life_ok S" "life_ok S1" "fst (claimWorker s token product (sy_d S)) = Some start"
    "sy_d S1 = snd (claimWorker s token product (sy_d S))"
  shows "spent S1 start"
proof -
  have "claimWorker s token product (sy_d S) = (Some start, sy_d S1)" using assms(3,4) by (metis prod.collapse)
  note c = claim_effect[OF this]
  then have "start < n_launch (sy_d S1)" "l_owner (h_launch (sy_d S1) start) \<noteq> None"
    using tokenAtD(3)[OF assms(1), of token start] by (simp_all add: upd_launch_def)
  then show ?thesis using tokenAtD(2)[OF assms(2), of _ start] by (auto simp: spent_def)
qed

lemma revoke_spends:
  assumes "life_ok S" "fst (revokeLaunch start (sy_d S))" "sy_d S1 = snd (revokeLaunch start (sy_d S))"
  shows "spent S1 start"
proof -
  have d: "sy_d S1 = (sy_d S)\<lparr>d_tokens := gm_del (l_token (h_launch (sy_d S) start)) (d_tokens (sy_d S))\<rparr>"
    and t: "tokenAt (sy_d S) (l_token (h_launch (sy_d S) start)) = Some start"
    using assms(2,3) by (auto simp: revokeLaunch_def Let_def split: if_splits)
  have "tokenAt (sy_d S1) u \<noteq> Some start" for u
    using tokenAtD(1)[OF assms(1), of u start] by (auto simp: d)
  then show ?thesis using tokenAtD(3)[OF assms(1) t] by (simp add: spent_def d)
qed

lemma release_spends:
  assumes "life_ok S" "sy_phase S p = Reserved start" "sy_d S1 = releaseLaunch start (sy_d S)"
  shows "spent S1 start"
proof -
  have "start < n_launch (sy_d S)" using phaseD(2)[OF assms(1,2)] by (simp add: reserved_ok_def Let_def)
  then show ?thesis using release_effect(3,6)[OF assms(1,2)] by (simp add: spent_def assms(3))
qed

lemma spent_steps:
  assumes "dir_step\<^sup>*\<^sup>* S S'" "life_ok S" "spent S l"
  shows "life_ok S' \<and> spent S' l"
  using assms by (induction rule: rtranclp_induct) (auto intro: step_ok spent_step)

text \<open>
  C4: a launch token is used at most once: when a worker has claimed a launch, or its token has
  been revoked, or its reservation has been released, then in no later state of the directory,
  whatever operations come in between, does a claim with any token give that launch to a worker,
  and no later revocation of it succeeds.
\<close>

theorem launch_claimed_once:
  assumes "reach dir_init dir_step S" "dir_step S S1"
    "(fst (claimWorker s token product (sy_d S)) = Some start \<and> sy_d S1 = snd (claimWorker s token product (sy_d S)))
     \<or> (fst (revokeLaunch start (sy_d S)) \<and> sy_d S1 = snd (revokeLaunch start (sy_d S)))
     \<or> (sy_phase S p = Reserved start \<and> sy_d S1 = releaseLaunch start (sy_d S))"
    "dir_step\<^sup>*\<^sup>* S1 S2"
  shows "fst (claimWorker s2 token2 product2 (sy_d S2)) \<noteq> Some start \<and> \<not> fst (revokeLaunch start (sy_d S2))"
proof -
  have ok: "life_ok S" using directory.reach_inv[OF assms(1)] .
  have ok1: "life_ok S1" using step_ok[OF assms(2) ok] .
  have "spent S1 start"
    using assms(3) by (elim disjE conjE) (auto intro: claim_spends[OF ok ok1] revoke_spends[OF ok] release_spends[OF ok])
  then have "spent S2 start" using spent_steps[OF assms(4) ok1] by blast
  then show ?thesis using spent_unusable by blast
qed

definition demo_launch :: launch where
  "demo_launch = \<lparr>l_parent = Some 0, l_input = None, l_previous = None, l_token = ''tok'', l_product = ''p'',
     l_entry = None, l_owner = None, l_claimed = False, l_timerStopped = False, l_reply = 0, l_describe = False,
     l_fresh = True\<rparr>"

definition demo_fresh_row :: row where
  "demo_fresh_row = demo_row\<lparr>r_SessionID := [], r_Name := ''boss/w@h'', r_CreatedAt := 0\<rparr>"

definition demo_reserve :: "(ptr option \<times> int) \<times> daemon" where
  "demo_reserve = reserveFresh demo_fresh_row 0 (snd (allocLaunch demo_launch (snd demo_install)))"

lemmas demo_install_simps = demo_install_def installPeer_def installNew_def demo_hello_def qualify_def demo_directory_simps
  drawID_def newOwnership_def upd_entry_def Let_def

lemma demo_reserve: "demo_reserve = ((Some 2, 0), snd demo_reserve)"
  by (simp add: demo_reserve_def demo_install_simps reserveFresh_def allocLaunch_def demo_launch_def addLaunch_def
      ownerGone_def freshOwnership_def demo_fresh_row_def upd_launch_def)

definition demo_reserved :: dsys where
  "demo_reserved = demo_peer\<lparr>sy_d := snd demo_reserve, sy_phase := (sy_phase demo_peer)(2 := Reserved 0)\<rparr>"

lemma demo_reserved_reach: "reach dir_init dir_step demo_reserved"
proof -
  have a: "allocLaunch demo_launch (sy_d demo_peer) = (0, snd (allocLaunch demo_launch (snd demo_install)))"
    by (simp add: allocLaunch_def demo_peer_def demo_install_simps)
  have b: "reserveFresh demo_fresh_row 0 (snd (allocLaunch demo_launch (snd demo_install))) = ((Some 2, 0), snd demo_reserve)"
    using demo_reserve by (simp add: demo_reserve_def)
  have "dir_step demo_peer demo_reserved"
    unfolding demo_reserved_def
    by (rule dir_step.fresh[OF a _ _ _ b]) (simp_all add: demo_launch_def demo_fresh_row_def demo_row_def demo_policy_def)
  with demo_peer_reach show ?thesis by (rule reach_step)
qed

lemma demo_claim_ok: "claimWorker 5 ''tok'' ''p'' (sy_d demo_reserved) = (Some 0, snd (claimWorker 5 ''tok'' ''p'' (sy_d demo_reserved)))"
  by (simp add: claimWorker_def demo_reserved_def demo_reserve_def demo_install_simps reserveFresh_def allocLaunch_def
      demo_launch_def addLaunch_def ownerGone_def freshOwnership_def demo_fresh_row_def upd_launch_def)

definition demo_taken :: dsys where
  "demo_taken = demo_reserved\<lparr>sy_d := snd (claimWorker 5 ''tok'' ''p'' (sy_d demo_reserved)),
     sy_ident := (sy_ident demo_reserved)(5 := l_entry (h_launch (sy_d demo_reserved) 0))\<rparr>"

definition demo_later :: dsys where
  "demo_later = demo_taken\<lparr>sy_d := releaseLaunch 0 (sy_d demo_taken),
     sy_phase := (\<lambda>q. if q = 2 then Gone else if l_previous (h_launch (sy_d demo_taken) 0) = Some q then Offline
                      else sy_phase demo_taken q)\<rparr>"

theorem launch_claimed_once_witness:
  "fst (claimWorker 5 ''tok'' ''p'' (sy_d demo_reserved)) = Some 0
   \<and> fst (claimWorker 6 ''tok'' ''p'' (sy_d demo_later)) \<noteq> Some 0 \<and> \<not> fst (revokeLaunch 0 (sy_d demo_later))"
proof -
  have c: "claimWorker 5 ''tok'' ''p'' (sy_d demo_reserved) = (Some 0, sy_d demo_taken)"
    using demo_claim_ok by (simp add: demo_taken_def)
  have "sy_ident demo_reserved 5 = None" by (simp add: demo_reserved_def demo_peer_def demo_sys_def)
  from dir_step.claim[OF c this] have 1: "dir_step demo_reserved demo_taken" by (simp add: demo_taken_def)
  have "sy_phase demo_taken 2 = Reserved 0" by (simp add: demo_taken_def demo_reserved_def)
  from dir_step.release[OF this] have 2: "dir_step demo_taken demo_later" by (simp add: demo_later_def)
  show ?thesis
    using launch_claimed_once[OF demo_reserved_reach 1, of 5 "''tok''" "''p''" 0, OF _ r_into_rtranclp[of dir_step, OF 2]] c by simp
qed

text \<open>
  C3: a launch that fails leaves the directory as it was: when the reservation of a resume is
  released the previous entry is back under its identifier and its name, unclaimed and offline,
  so that it can be resumed again; when the reservation of a new lane is released its name is
  free again and no identifier leads to the entry.
\<close>

theorem failed_launch_rolls_back:
  assumes "reach dir_init dir_step S" "sy_phase S p = Reserved start"
  shows "(case l_previous (h_launch (sy_d S) start) of
      Some q \<Rightarrow> entryAt (releaseLaunch start (sy_d S)) (eid (sy_d S) q) = Some q
        \<and> nameAt (releaseLaunch start (sy_d S)) (ename (sy_d S) q) = Some q
        \<and> \<not> eclaimed (releaseLaunch start (sy_d S)) q \<and> eattached (releaseLaunch start (sy_d S)) q = None
    | None \<Rightarrow> nameAt (releaseLaunch start (sy_d S)) (ename (sy_d S) p) = None
        \<and> (\<forall>k. entryAt (releaseLaunch start (sy_d S)) k \<noteq> Some p))
    \<and> (\<forall>t. tokenAt (releaseLaunch start (sy_d S)) t \<noteq> Some start)"
proof -
  have ok: "life_ok S" using directory.reach_inv[OF assms(1)] .
  have r: "reserved_ok S p start" using phaseD(2)[OF ok assms(2)] .
  note f = release_effect[OF ok assms(2)]
  have mine: "entryAt (sy_d S) k = Some p \<Longrightarrow> eid (sy_d S) p = k" for k using entryAtD(1)[OF ok] .
  show ?thesis
  proof (cases "l_previous (h_launch (sy_d S) start)")
    case None
    have "entryAt (releaseLaunch start (sy_d S)) k \<noteq> Some p" for k
      using mine[of k] by (auto simp: f None)
    then show ?thesis by (simp add: f None)
  next
    case (Some q)
    then have q: "sy_phase S q = Shadow start" "eid (sy_d S) q = eid (sy_d S) p" "ename (sy_d S) q = ename (sy_d S) p"
      using r by (simp_all add: reserved_ok_def Let_def)
    have "\<not> eclaimed (sy_d S) q" "eattached (sy_d S) q = None"
      using life_okD(3)[OF ok, of q] q(1) by (simp_all add: phase_ok_def Let_def)
    with q show ?thesis by (simp add: f Some)
  qed
qed

theorem failed_launch_rolls_back_witness:
  "nameAt (releaseLaunch 0 (sy_d demo_reserved)) ''boss/w@h'' = None"
proof -
  have "sy_phase demo_reserved 2 = Reserved 0" by (simp add: demo_reserved_def)
  from failed_launch_rolls_back[OF demo_reserved_reach this] show ?thesis
    by (simp add: demo_reserved_def demo_reserve_def demo_install_simps reserveFresh_def allocLaunch_def
        demo_launch_def addLaunch_def ownerGone_def freshOwnership_def demo_fresh_row_def upd_launch_def)
qed

end
