(* ===== verification/SessionState.thy ===== *)
theory SessionState
  imports Directory
begin

text \<open>
  The state of one session (\<open>type session\<close> of \<open>bus/internal/daemon/session.go\<close>) with the records
  it holds per request, and the identity a session acts under (\<open>federationCaller\<close>).

  A session's fields are only used by its own goroutine: an operation takes the session and the
  daemon and returns both. \<open>s_self\<close> is the session's pointer; its connection is \<open>h_wire d (s_self s)\<close>.
  The counters of runs are unsigned 64 bit words, as in the source; message identifiers are
  \<open>int\<close>: they are bounded by the protocol. Timers are the flag whether they are armed, and for
  the automatic close its delay.
\<close>

record traceRequest =
  tb_messageID :: gostring
  tb_from :: DeliverySource
  tb_input :: MessageSendRequest
  tb_refs :: "TraceRecipient list"
  tb_bytes :: int

record commsRequest =
  cr_from :: "Endpoint option"
  cr_to :: "Endpoint option"
  cr_messageID :: gostring
  cr_runID :: gostring

record requestState =
  rt_frame :: Frame
  rt_target :: "ptr option"
  rt_targetID :: gostring
  rt_held :: "answer option"
  rt_pending :: int
  rt_deliveries :: "MessageSendDelivery list"
  rt_messageID :: gostring
  rt_aggregate :: bool
  rt_selfInfo :: "SessionSelfInfo option"

text \<open>
  A leg of a message that spans hosts: its targets and what the collector waits for, a local
  forwarded request (the session that runs it) or the channel of a remote reply.
\<close>

record messageLeg =
  lg_labels :: "gostring list"
  lg_wait :: "ptr option"
  lg_reply :: "ptr option"
  lg_code :: int

text \<open>
  The goroutines a session starts; each ends with a \<open>replyEvent\<close> for the session. The last argument
  is the entry whose \<open>done\<close> channel ends the wait early: \<open>await\<close> and \<open>awaitRemote\<close>, the collectors
  of messages to targets, of messages to a group and of lists, and the wait of a completion notice.
\<close>

datatype task =
    TAwait int nat ptr "ptr option"
  | TAwaitRemote int nat gostring ptr "ptr option"
  | TCollect int gostring "messageLeg list" "gostring list option" int "ptr option"
  | TGroup int Caller MessageSendRequest gostring ptr ptr "ptr option"
  | TList int Caller ptr ptr "ptr option"
  | TNotify ptr "ptr option"

record session =
  s_self :: ptr
  s_traceRequests :: "(int, traceRequest) gomap"
  s_traceCollect :: bool
  s_traceCopy :: "TraceDestination option"
  s_traceTargets :: "TraceRecipient list"
  s_traceTargetsBytes :: int
  s_runFromTrace :: bool
  s_runFromCompletion :: bool
  s_completion :: bool
  s_commsRequests :: "(int, commsRequest) gomap"
  s_runID :: gostring
  s_runGeneration :: gostring
  s_runSequence :: "64 word"
  s_acknowledgedSequence :: "64 word"
  s_deadline :: nat
  s_previousDeadline :: nat
  s_autoClose :: "int option"
  s_stopAuto :: bool
  s_identity :: "ptr option"
  s_lastIn :: int
  s_nextOut :: int
  s_pending :: "(int, routedRequest) gomap"
  s_deferredDeliveries :: "routedRequest list"
  s_requests :: "(int, requestState) gomap"
  s_owned :: int
  s_stopping :: bool
  s_closed :: bool
  s_child :: "ptr option"
  s_launch :: "ptr option"
  s_committed :: bool
  s_openID :: int
  s_closeCall :: "routedRequest option"
  s_closeAnswer :: answer
  s_closeTimer :: bool
  s_forget :: bool
  s_launchResult :: "answer option"
  s_processExited :: bool
  s_stopSignal :: stop_signal
  s_forwarded :: "ptr option"
  s_caller :: "Caller option"
  s_omit :: "ptr option"
  s_messageID :: gostring
  s_tasks :: "task list"

definition newSession :: "ptr \<Rightarrow> session" where
  "newSession self =
     \<lparr>s_self = self, s_traceRequests = [], s_traceCollect = False, s_traceCopy = None, s_traceTargets = [],
      s_traceTargetsBytes = 0, s_runFromTrace = False, s_runFromCompletion = False, s_completion = False,
      s_commsRequests = [], s_runID = [], s_runGeneration = [], s_runSequence = 0, s_acknowledgedSequence = 0,
      s_deadline = 0, s_previousDeadline = 0, s_autoClose = None, s_stopAuto = False, s_identity = None,
      s_lastIn = 0, s_nextOut = 0, s_pending = [], s_deferredDeliveries = [], s_requests = [], s_owned = 0,
      s_stopping = False, s_closed = False, s_child = None, s_launch = None, s_committed = False, s_openID = 0,
      s_closeCall = None, s_closeAnswer = codeAnswer 0, s_closeTimer = False, s_forget = False,
      s_launchResult = None, s_processExited = False, s_stopSignal = NoSignal, s_forwarded = None,
      s_caller = None, s_omit = None, s_messageID = [], s_tasks = []\<rparr>"

text \<open>
  The identity of the calling session. A session without a caller and without an identity would
  be a nil dereference; the source only gets here after the hello.
\<close>

definition federationCaller :: "session \<Rightarrow> daemon \<Rightarrow> Caller" where
  "federationCaller s d =
     (case s_caller s of
        Some c \<Rightarrow> c
      | None \<Rightarrow>
          (case s_identity s of
             None \<Rightarrow> zeroCaller
           | Some p \<Rightarrow>
               let item = h_entry d p in
               \<lparr>fc_OwnerLifetime = (case e_lifetime item of None \<Rightarrow> [] | Some w \<Rightarrow> ow_token (h_owner d w)),
                fc_SourceAttachment = [], fc_SessionID = r_SessionID (e_row item), fc_Name = r_Name (e_row item),
                fc_Product = r_Product (e_row item), fc_PrivateGroup = privateGroup item,
                fc_Groups = r_Groups (e_row item)\<rparr>))"

definition deliveryOmit :: "session \<Rightarrow> ptr option" where
  "deliveryOmit s = (case s_omit s of Some p \<Rightarrow> Some p | None \<Rightarrow> s_identity s)"

definition listSelfInfo :: "Caller \<Rightarrow> SessionSelfInfo" where
  "listSelfInfo caller =
     \<lparr>ds_SessionID = fc_SessionID caller, ds_Name = fc_Name caller, ds_Product = fc_Product caller,
      ds_Groups = fc_Groups caller\<rparr>"

text \<open>Sending on and closing the session's own connection.\<close>

definition sendWire :: "session \<Rightarrow> outframe \<Rightarrow> daemon \<Rightarrow> bool \<times> daemon" where
  "sendWire s f d = (snd (Send f (h_wire d (s_self s))), upd_wire (s_self s) (\<lambda>c. fst (Send f c)) d)"

definition finishWire :: "session \<Rightarrow> outframe \<Rightarrow> daemon \<Rightarrow> bool \<times> daemon" where
  "finishWire s f d = (snd (Finish f (h_wire d (s_self s))), upd_wire (s_self s) (\<lambda>c. fst (Finish f c)) d)"

end
