(* ===== verification/Comms.thy ===== *)
theory Comms
  imports SessionState
begin

text \<open>
  What the daemon reports to the communication log (\<open>bus/internal/daemon/comms.go\<close>).
  \<open>d_comms\<close> says that a logger is configured; its input is the list \<open>d_log\<close>.
\<close>

definition zeroEndpoint :: Endpoint where
  "zeroEndpoint = \<lparr>ep_SessionID = [], ep_Host = [], ep_Target = [], ep_Targets = [], ep_Product = [],
     ep_Name = [], ep_Groups = []\<rparr>"

definition zeroEvent :: Event where
  "zeroEvent = \<lparr>ev_Type = [], ev_Method = [], ev_MessageID = [], ev_DeliveryID = [], ev_RunID = [],
     ev_ErrorCode = 0, ev_State = [], ev_Outcome = [], ev_From = None, ev_To = None, ev_Receipt = None,
     ev_Body = []\<rparr>"

definition endpoint :: "gostring \<Rightarrow> gostring \<Rightarrow> gostring \<Rightarrow> gostring list \<Rightarrow> Endpoint" where
  "endpoint sid name product groups =
     (let (before, suf, ok) = cut sid CHR ''@'' in
      zeroEndpoint\<lparr>ep_SessionID := sid, ep_Host := (if ok then suf else []), ep_Name := name,
                   ep_Product := product, ep_Groups := groups\<rparr>)"

definition logEvent :: "Event \<Rightarrow> daemon \<Rightarrow> daemon" where
  "logEvent ev d = (if d_comms d then d\<lparr>d_log := d_log d @ [ev]\<rparr> else d)"

definition logCaller :: "session \<Rightarrow> daemon \<Rightarrow> Endpoint" where
  "logCaller s d =
     (let c = federationCaller s d in endpoint (fc_SessionID c) (fc_Name c) (fc_Product c) (fc_Groups c))"

definition logTarget :: "gostring \<Rightarrow> daemon \<Rightarrow> Endpoint" where
  "logTarget target d =
     (case gm_get (d_entries d) target of
        Some p \<Rightarrow>
          let r = e_row (h_entry d p)
          in (endpoint (r_SessionID r) (r_Name r) (r_Product r) (r_Groups r))\<lparr>ep_Target := target\<rparr>
      | None \<Rightarrow>
          let (before, host, ok) = cut target CHR ''@''
          in zeroEndpoint\<lparr>ep_Target := target, ep_Host := (if ok then host else [])\<rparr>)"

definition logResolvedTarget :: "gostring \<Rightarrow> daemon \<Rightarrow> Endpoint" where
  "logResolvedTarget sid d = (logTarget sid d)\<lparr>ep_SessionID := sid\<rparr>"

text \<open>The recipient and the run a request is logged with; \<open>None\<close> for a method that is not logged.\<close>

definition requestTo :: "params \<Rightarrow> daemon \<Rightarrow> (Endpoint \<times> gostring \<times> gostring) option" where
  "requestTo ps d =
     (case ps of
        PSend i \<Rightarrow> Some (zeroEndpoint\<lparr>ep_Target := ms_Target i, ep_Host := ms_Host i,
                           ep_Groups := (if ms_Group i \<noteq> [] then [ms_Group i] else []),
                           ep_Targets := ms_Targets i\<rparr>, [], ms_Message i)
      | PRun i \<Rightarrow> Some (logTarget (tq_SessionID i) d, [], [])
      | PRead i \<Rightarrow> Some (logTarget (rq_SessionID i) d, rq_RunID i, [])
      | PWait i \<Rightarrow> Some (logTarget (wq_SessionID i) d, wq_RunID i, [])
      | PRunRef i \<Rightarrow> Some (logTarget (rr_SessionID i) d, rr_RunID i, [])
      | PTarget i \<Rightarrow> Some (logTarget (st_SessionID i) d, [], [])
      | PClose i \<Rightarrow> Some (logTarget (sc_SessionID i) d, [], [])
      | PSpawn i \<Rightarrow> Some (zeroEndpoint\<lparr>ep_Host := ls_Host i, ep_Target := ls_ResumeSessionID i,
                           ep_Name := ls_Name i, ep_Product := ls_Product i\<rparr>, [], [])
      | _ \<Rightarrow> None)"

definition logRequest :: "Frame \<Rightarrow> params \<Rightarrow> gostring \<Rightarrow> session \<Rightarrow> daemon \<Rightarrow> session \<times> daemon" where
  "logRequest frame ps messageID s d =
     (if \<not> d_comms d \<or> s_omit s \<noteq> None \<and> s_messageID s \<noteq> [] then (s, d)
      else case requestTo ps d of
             None \<Rightarrow> (s, d)
           | Some (to, runID, body) \<Rightarrow>
               let from = logCaller s d;
                   mid = (case ps of PSend i \<Rightarrow> messageID | _ \<Rightarrow> []);
                   ev = zeroEvent\<lparr>ev_Type := ''request'', ev_Method := fr_Method frame, ev_From := Some from,
                                  ev_To := Some to, ev_MessageID := mid, ev_RunID := runID, ev_Body := body\<rparr>
               in (s\<lparr>s_commsRequests := gm_set (fr_ID frame)
                       \<lparr>cr_from = Some from, cr_to = Some to, cr_messageID = messageID, cr_runID = runID\<rparr>
                       (s_commsRequests s)\<rparr>,
                   logEvent ev d))"

text \<open>The receipts of a message: one event per delivery.\<close>

definition receiptEvent :: "Event \<Rightarrow> gostring \<Rightarrow> MessageSendDelivery \<Rightarrow> daemon \<Rightarrow> Event" where
  "receiptEvent base messageID x d =
     base\<lparr>ev_Type := ''receipt'', ev_MessageID := messageID,
          ev_To := Some ((logResolvedTarget (md_SessionID x) d)\<lparr>ep_Target := md_Target x\<rparr>),
          ev_DeliveryID := md_DeliveryID x,
          ev_Receipt := Some \<lparr>lc_DeliveryID = md_DeliveryID x, lc_Disposition = md_Disposition x, lc_Reason = md_Reason x\<rparr>\<rparr>"

definition resultEvents :: "Event \<Rightarrow> result option \<Rightarrow> daemon \<Rightarrow> Event list" where
  "resultEvents base val d =
     (case val of
        Some (VSend r) \<Rightarrow>
          if mr_Deliveries r = [] then [base\<lparr>ev_Outcome := ''accepted''\<rparr>]
          else map (\<lambda>x. receiptEvent base (mr_MessageID r) x d) (mr_Deliveries r)
      | Some (VRunRef r) \<Rightarrow> [base\<lparr>ev_RunID := rr_RunID r, ev_To := Some (logResolvedTarget (rr_SessionID r) d)\<rparr>]
      | Some (VStatus r) \<Rightarrow>
          [base\<lparr>ev_RunID := rs_RunID r,
                ev_State := (if rs_State r \<noteq> ''running'' then ''settled'' else ''running''),
                ev_Outcome := (case rs_Result r of
                     Some t \<Rightarrow> tr_Outcome t
                   | None \<Rightarrow> if rs_State r = ''unavailable'' then ''unavailable'' else [])\<rparr>]
      | Some (VSpawn r) \<Rightarrow> [base\<lparr>ev_To := Some (logResolvedTarget (lr_SessionID r) d)\<rparr>]
      | _ \<Rightarrow> [base])"

definition logResult :: "Frame \<Rightarrow> result option \<Rightarrow> int \<Rightarrow> session \<Rightarrow> daemon \<Rightarrow> session \<times> daemon" where
  "logResult frame val code s d =
     (case gm_get (s_commsRequests s) (fr_ID frame) of
        None \<Rightarrow> (s, d)
      | Some c \<Rightarrow>
          let s1 = s\<lparr>s_commsRequests := gm_del (fr_ID frame) (s_commsRequests s)\<rparr>;
              base = zeroEvent\<lparr>ev_Type := ''lifecycle'', ev_State := ''settled'', ev_Method := fr_Method frame,
                               ev_From := cr_from c, ev_To := cr_to c, ev_MessageID := cr_messageID c,
                               ev_RunID := cr_runID c\<rparr>
          in if code \<noteq> 0
             then (s1, logEvent (base\<lparr>ev_Outcome := ''failed'', ev_ErrorCode := code\<rparr>) d)
             else (s1, fold logEvent (resultEvents base val d) d))"

definition logDispatch :: "gostring \<Rightarrow> gostring \<Rightarrow> gostring \<Rightarrow> gostring \<Rightarrow> session \<Rightarrow> daemon \<Rightarrow> daemon" where
  "logDispatch messageID deliveryID target recipient s d =
     (if \<not> d_comms d then d
      else logEvent (zeroEvent\<lparr>ev_Type := ''request'', ev_Method := ''message.deliver'', ev_MessageID := messageID,
             ev_DeliveryID := deliveryID, ev_From := Some (logCaller s d),
             ev_To := Some ((logResolvedTarget recipient d)\<lparr>ep_Target := target\<rparr>), ev_Outcome := ''accepted''\<rparr>) d)"

definition logSession :: "gostring \<Rightarrow> session \<Rightarrow> daemon \<Rightarrow> daemon" where
  "logSession state s d =
     (if \<not> d_comms d \<or> s_identity s = None then d
      else logEvent (zeroEvent\<lparr>ev_Type := ''lifecycle'', ev_Method := ''session.connection'',
             ev_From := Some (logCaller s d), ev_State := state\<rparr>) d)"

definition logRun :: "gostring \<Rightarrow> gostring \<Rightarrow> gostring \<Rightarrow> gostring \<Rightarrow> session \<Rightarrow> daemon \<Rightarrow> daemon" where
  "logRun method runID state outcome s d =
     (if \<not> d_comms d then d
      else logEvent (zeroEvent\<lparr>ev_Type := ''lifecycle'', ev_Method := method, ev_From := Some (logCaller s d),
             ev_RunID := runID, ev_State := state, ev_Outcome := outcome\<rparr>) d)"

section \<open>Logging changes nothing but the log\<close>

lemma logEvent_d: "\<exists>evs. logEvent ev d = d\<lparr>d_log := d_log d @ evs\<rparr>"
  by (cases "d_comms d") (auto simp: logEvent_def intro: exI[of _ "[]"])

lemma fold_logEvent_d: "\<exists>evs. fold logEvent es d = d\<lparr>d_log := d_log d @ evs\<rparr>"
proof (induction es arbitrary: d)
  case Nil
  show ?case by (rule exI[of _ "[]"]) simp
next
  case (Cons e es)
  obtain a where a: "logEvent e d = d\<lparr>d_log := d_log d @ a\<rparr>" using logEvent_d by blast
  obtain b where b: "fold logEvent es (d\<lparr>d_log := d_log d @ a\<rparr>)
      = (d\<lparr>d_log := d_log d @ a\<rparr>)\<lparr>d_log := d_log (d\<lparr>d_log := d_log d @ a\<rparr>) @ b\<rparr>"
    using Cons.IH by blast
  show ?case using a b by (intro exI[of _ "a @ b"]) simp
qed

lemma logResult_effect:
  "\<exists>evs cs. logResult frame val code s d = (s\<lparr>s_commsRequests := cs\<rparr>, d\<lparr>d_log := d_log d @ evs\<rparr>)"
proof (cases "gm_get (s_commsRequests s) (fr_ID frame)")
  case None
  then show ?thesis by (intro exI[of _ "[]"] exI[of _ "s_commsRequests s"]) (simp add: logResult_def)
next
  case (Some c)
  then show ?thesis using fold_logEvent_d logEvent_d
    by (cases "code = 0") (simp_all add: logResult_def Let_def, blast+)
qed

lemma log_effects:
  "\<exists>evs. logSession state s d = d\<lparr>d_log := d_log d @ evs\<rparr>"
  "\<exists>evs. logRun method runID state outcome s d = d\<lparr>d_log := d_log d @ evs\<rparr>"
  "\<exists>evs. logDispatch m i t r s d = d\<lparr>d_log := d_log d @ evs\<rparr>"
proof -
  have none: "\<exists>evs. d = d\<lparr>d_log := d_log d @ evs\<rparr>" by (rule exI[of _ "[]"]) simp
  show "\<exists>evs. logSession state s d = d\<lparr>d_log := d_log d @ evs\<rparr>"
    "\<exists>evs. logRun method runID state outcome s d = d\<lparr>d_log := d_log d @ evs\<rparr>"
    "\<exists>evs. logDispatch m i t r s d = d\<lparr>d_log := d_log d @ evs\<rparr>"
    using none logEvent_d by (simp_all add: logSession_def logRun_def logDispatch_def)
qed

end
