(* ===== verification/Trace.thy ===== *)
theory Trace
  imports Comms Json
begin

text \<open>
  Trace copies (\<open>bus/internal/daemon/trace.go\<close>): a lane's parent may ask for a copy of the messages
  its lane sends and receives. A send captures its request and the eligible parents within a
  budget of bytes and operations shared by the whole daemon (\<open>d_traceBytes\<close>, \<open>d_traceCount\<close>); when the
  send settles, one copy per parent is queued for its own delivery (\<open>d_traces\<close>).

  Each function of the source takes \<open>directory.mu\<close> for its critical sections; a call here runs
  them without interleaving, except that the delivery of a queued copy is a step of its own
  (\<open>traceDelivered\<close> is the end of its goroutine).
\<close>

section \<open>JSON of the values a copy carries\<close>

text \<open>A nil slice is encoded as \<open>null\<close>; the copies of an empty slice the sources make are nil.\<close>

definition nilStrs :: "gostring list \<Rightarrow> json" where
  "nilStrs ss = (if ss = [] then JNull else JArr (map JStr ss))"

definition sendRequest_json :: "MessageSendRequest \<Rightarrow> json" where
  "sendRequest_json m =
     JObj (fld_str ''target'' (ms_Target m) @ fld_strs ''targets'' (ms_Targets m) @ fld_str ''group'' (ms_Group m)
       @ fld_str ''host'' (ms_Host m) @ fld ''message'' (JStr (ms_Message m)))"

definition caller_json :: "Caller \<Rightarrow> json" where
  "caller_json c =
     JObj (fld_str ''owner_lifetime'' (fc_OwnerLifetime c) @ fld_str ''source_attachment'' (fc_SourceAttachment c)
       @ fld ''session_id'' (JStr (fc_SessionID c)) @ fld_str ''name'' (fc_Name c)
       @ fld ''product'' (JStr (fc_Product c)) @ fld ''private_group'' (JStr (fc_PrivateGroup c))
       @ fld ''groups'' (nilStrs (fc_Groups c)))"

definition recipient_json :: "TraceRecipient \<Rightarrow> json" where
  "recipient_json r =
     JObj (fld ''child'' (JStr (tt_Child r)) @ fld_str ''target'' (tt_Target r) @ fld ''mode'' (JStr (tt_Mode r))
       @ fld ''version'' (JStr (tt_Version r)) @ fld ''owner'' (caller_json (tt_Owner r)))"

definition source_json :: "DeliverySource \<Rightarrow> json" where
  "source_json x =
     JObj (fld ''session_id'' (JStr (ds_SessionID x)) @ fld_str ''name'' (ds_Name x)
       @ fld ''product'' (JStr (ds_Product x)) @ fld ''groups'' (JArr (map JStr (ds_Groups x))))"

definition delivery_json :: "MessageSendDelivery \<Rightarrow> json" where
  "delivery_json x =
     JObj (fld ''target'' (JStr (md_Target x)) @ fld_str ''session_id'' (md_SessionID x)
       @ fld_str ''delivery_id'' (md_DeliveryID x) @ fld ''disposition'' (JStr (md_Disposition x))
       @ fld_str ''reason'' (md_Reason x))"

record traceEnvelope =
  te_Kind :: gostring
  te_MessageID :: gostring
  te_From :: DeliverySource
  te_Targets :: "gostring list"
  te_Group :: gostring
  te_Host :: gostring
  te_MatchedChildren :: "gostring list"
  te_Body :: "gostring option"
  te_Deliveries :: "MessageSendDelivery list"
  te_ErrorCode :: int

definition envelope_json :: "traceEnvelope \<Rightarrow> json" where
  "envelope_json e =
     JObj (fld ''kind'' (JStr (te_Kind e)) @ fld ''message_id'' (JStr (te_MessageID e))
       @ fld ''from'' (source_json (te_From e)) @ fld_strs ''targets'' (te_Targets e)
       @ fld_str ''group'' (te_Group e) @ fld_str ''host'' (te_Host e)
       @ fld ''matched_children'' (nilStrs (te_MatchedChildren e)) @ fld_opt ''body'' JStr (te_Body e)
       @ fld ''deliveries'' (JArr (map delivery_json (te_Deliveries e)))
       @ fld_int ''error_code'' (te_ErrorCode e))"

section \<open>The budget\<close>

abbreviation maxTraceBytes :: int where "maxTraceBytes \<equiv> 4194304"
abbreviation maxTraceWork :: int where "maxTraceWork \<equiv> 256"
abbreviation maxTraceRecipients :: nat where "maxTraceRecipients \<equiv> 256"

definition reserveTrace :: "int \<Rightarrow> daemon \<Rightarrow> bool \<times> daemon" where
  "reserveTrace sz d =
     (if d_closing d \<or> sz > maxTraceBytes - d_traceBytes d \<or> d_traceCount d \<ge> maxTraceWork
      then (False, d\<lparr>d_traceDropped := d_traceDropped d + 1\<rparr>)
      else (True, d\<lparr>d_traceCount := d_traceCount d + 1, d_traceBytes := d_traceBytes d + sz\<rparr>))"

definition releaseTrace :: "int \<Rightarrow> daemon \<Rightarrow> daemon" where
  "releaseTrace sz d = d\<lparr>d_traceCount := d_traceCount d - 1, d_traceBytes := d_traceBytes d - sz\<rparr>"

definition dropTrace :: "daemon \<Rightarrow> daemon" where
  "dropTrace d = d\<lparr>d_traceDropped := d_traceDropped d + 1\<rparr>"

section \<open>Capturing\<close>

definition traceMode :: "gostring \<Rightarrow> bool" where
  "traceMode mode \<longleftrightarrow> mode = ''events'' \<or> mode = ''content''"

definition snapshotTrace :: "ptr option \<Rightarrow> daemon \<Rightarrow> TraceRecipient option" where
  "snapshotTrace item d =
     (case item of
        None \<Rightarrow> None
      | Some p \<Rightarrow>
          let e = h_entry d p in
          if e_peer e \<or> \<not> traceMode (e_traceMode e) then None
          else case e_parent e of
            None \<Rightarrow> None
          | Some w \<Rightarrow>
              let owner = h_owner d w;
                  ref = \<lambda>caller. \<lparr>tt_Child = r_SessionID (e_row e), tt_Target = [], tt_Mode = e_traceMode e,
                                  tt_Version = e_traceVersion e, tt_Owner = caller\<rparr>
              in if ow_ended owner then None
                 else if ow_host owner = []
                 then case gm_get (d_entries d) (ow_id owner) of
                        None \<Rightarrow> None
                      | Some q \<Rightarrow>
                          let parent = h_entry d q in
                          if e_lifetime parent \<noteq> Some w \<or> e_attachment parent = None then None
                          else Some (ref \<lparr>fc_OwnerLifetime = ow_token owner, fc_SourceAttachment = [],
                                 fc_SessionID = ow_id owner, fc_Name = r_Name (e_row parent),
                                 fc_Product = r_Product (e_row parent), fc_PrivateGroup = privateGroup parent,
                                 fc_Groups = r_Groups (e_row parent)\<rparr>)
                 else Some (ref (ow_caller owner)))"

definition refSize :: "TraceRecipient \<Rightarrow> int" where
  "refSize ref = int (length (marshal (recipient_json ref)))"

definition addTraceRef :: "int \<Rightarrow> TraceRecipient \<Rightarrow> session \<Rightarrow> daemon \<Rightarrow> session \<times> daemon" where
  "addTraceRef k ref s d =
     (let captured = gm_get (s_traceRequests s) k;
          refs = (case captured of None \<Rightarrow> s_traceTargets s | Some c \<Rightarrow> tb_refs c);
          sz = refSize ref
      in if list_ex (\<lambda>previous. tt_Child previous = tt_Child ref) refs then (s, d)
         else if length refs \<ge> maxTraceRecipients then (s, dropTrace d)
         else if sz > 16384 then (s, dropTrace d)
         else case captured of
           None \<Rightarrow>
             let s1 = s\<lparr>s_traceTargets := refs @ [ref], s_traceTargetsBytes := s_traceTargetsBytes s + sz\<rparr> in
             if s_traceTargetsBytes s + sz > 65536 then (s, dropTrace d)
             else if s_traceTargetsBytes s = 0
             then let (ok, d1) = reserveTrace sz d in (if ok then s1 else s, d1)
             else if sz > maxTraceBytes - d_traceBytes d then (s, dropTrace d)
             else (s1, d\<lparr>d_traceBytes := d_traceBytes d + sz\<rparr>)
         | Some c \<Rightarrow>
             if sz > maxTraceBytes - d_traceBytes d then (s, dropTrace d)
             else (s\<lparr>s_traceRequests := gm_set k (c\<lparr>tb_refs := refs @ [ref], tb_bytes := tb_bytes c + sz\<rparr>)
                       (s_traceRequests s)\<rparr>,
                   d\<lparr>d_traceBytes := d_traceBytes d + sz\<rparr>))"

text \<open>\<open>beginTrace\<close> for parameters that are a message; other parameters are not traced.\<close>

definition captureTrace :: "MessageSendRequest \<Rightarrow> gostring \<Rightarrow> Caller \<Rightarrow> traceRequest" where
  "captureTrace input messageID from =
     \<lparr>tb_messageID = messageID,
      tb_from = \<lparr>ds_SessionID = fc_SessionID from, ds_Name = fc_Name from, ds_Product = fc_Product from,
                 ds_Groups = fc_Groups from\<rparr>,
      tb_input = input, tb_refs = [],
      tb_bytes = int (length (marshal (sendRequest_json input))) + int (length (fc_SessionID from))
                 + int (length (fc_Name from)) + 4096\<rparr>"

definition beginTrace :: "Frame \<Rightarrow> params \<Rightarrow> gostring \<Rightarrow> session \<Rightarrow> daemon \<Rightarrow> session \<times> daemon" where
  "beginTrace frame ps messageID s d =
     (case ps of
        PSend input \<Rightarrow>
          if s_traceCopy s \<noteq> None \<or> s_forwarded s \<noteq> None \<and> (s_messageID s \<noteq> [] \<or> \<not> s_traceCollect s) then (s, d)
          else
            let from = federationCaller s d;
                captured = captureTrace input messageID from;
                (ok, d1) = reserveTrace (tb_bytes captured) d
            in if \<not> ok then (s, d1)
               else
                 let s1 = s\<lparr>s_traceRequests := gm_set (fr_ID frame) captured (s_traceRequests s)\<rparr> in
                 case snapshotTrace (gm_get (d_entries d1) (fc_SessionID from)) d1 of
                   None \<Rightarrow> (s1, d1)
                 | Some ref \<Rightarrow> addTraceRef (fr_ID frame) ref s1 d1
      | _ \<Rightarrow> (s, d))"

definition traceTarget :: "int \<Rightarrow> ptr option \<Rightarrow> gostring \<Rightarrow> session \<Rightarrow> daemon \<Rightarrow> session \<times> daemon" where
  "traceTarget k item target s d =
     (if s_traceCopy s \<noteq> None \<or> gm_get (s_traceRequests s) k = None \<and> \<not> s_traceCollect s then (s, d)
      else case snapshotTrace item d of
             None \<Rightarrow> (s, d)
           | Some ref \<Rightarrow> addTraceRef k (ref\<lparr>tt_Target := target\<rparr>) s d)"

definition releaseTraceTargets :: "session \<Rightarrow> daemon \<Rightarrow> session \<times> daemon" where
  "releaseTraceTargets s d =
     (if s_traceTargetsBytes s \<noteq> 0
      then (s\<lparr>s_traceTargetsBytes := 0\<rparr>, releaseTrace (s_traceTargetsBytes s) d) else (s, d))"

definition validTraceCopy :: "MessageSendRequest \<Rightarrow> session \<Rightarrow> bool" where
  "validTraceCopy input s =
     (case s_traceCopy s of
        None \<Rightarrow> True
      | Some c \<Rightarrow> ms_Target input = td_SessionID c \<and> ms_Targets input = [] \<and> ms_Group input = []
                  \<and> td_Lifetime c \<noteq> [])"

section \<open>Settling\<close>

definition hasSuffix :: "gostring \<Rightarrow> gostring \<Rightarrow> bool" where
  "hasSuffix s t \<longleftrightarrow> length t \<le> length s \<and> drop (length s - length t) s = t"

text \<open>The condition under which \<open>finishTrace\<close> keeps a captured recipient.\<close>

definition traceEligible :: "daemon \<Rightarrow> TraceRecipient \<Rightarrow> bool" where
  "traceEligible d ref =
     (traceMode (tt_Mode ref) \<and> fc_SessionID (tt_Owner ref) \<noteq> [] \<and> fc_OwnerLifetime (tt_Owner ref) \<noteq> []
      \<and> (\<not> hasSuffix (tt_Child ref) (CHR ''@'' # d_host d)
         \<or> (case snapshotTrace (gm_get (d_entries d) (tt_Child ref)) d of
              None \<Rightarrow> False
            | Some cur \<Rightarrow> tt_Version cur = tt_Version ref
                \<and> fc_OwnerLifetime (tt_Owner cur) = fc_OwnerLifetime (tt_Owner ref))))"

definition parentKey :: "TraceRecipient \<Rightarrow> gostring" where
  "parentKey ref = fc_SessionID (tt_Owner ref) @ CHR 0x00 # fc_OwnerLifetime (tt_Owner ref)"

definition groupByParent :: "TraceRecipient list \<Rightarrow> (gostring, TraceRecipient list) gomap" where
  "groupByParent refs =
     fold (\<lambda>ref m. gm_set (parentKey ref)
             ((case gm_get m (parentKey ref) of None \<Rightarrow> [] | Some rs \<Rightarrow> rs) @ [ref]) m) refs []"

definition fillSession :: "TraceRecipient list \<Rightarrow> MessageSendDelivery \<Rightarrow> MessageSendDelivery" where
  "fillSession refs x =
     (if md_SessionID x \<noteq> [] then x
      else case find (\<lambda>ref. tt_Target ref \<noteq> [] \<and> tt_Target ref = md_Target x) refs of
             None \<Rightarrow> x
           | Some ref \<Rightarrow> x\<lparr>md_SessionID := tt_Child ref\<rparr>)"

definition traceBody :: "traceRequest \<Rightarrow> MessageSendDelivery list \<Rightarrow> int \<Rightarrow> TraceRecipient list \<Rightarrow> traceEnvelope" where
  "traceBody captured deliveries code refs =
     (let source = list_ex (\<lambda>ref. tt_Child ref = ds_SessionID (tb_from captured)) refs;
          input = tb_input captured;
          children = map tt_Child refs
      in \<lparr>te_Kind = ''sessionbus.trace'', te_MessageID = tb_messageID captured, te_From = tb_from captured,
          te_Targets = (if \<not> source then []
                        else if ms_Target input \<noteq> [] then [ms_Target input] else ms_Targets input),
          te_Group = (if source then ms_Group input else []),
          te_Host = (if source then ms_Host input else []),
          te_MatchedChildren = sort (remdups children),
          te_Body = (if list_ex (\<lambda>ref. tt_Mode ref = ''content'') refs then Some (ms_Message input) else None),
          te_Deliveries = filter (\<lambda>x. source \<or> md_SessionID x \<in> set children) (map (fillSession refs) deliveries),
          te_ErrorCode = code\<rparr>)"

definition traceSize :: "gostring \<Rightarrow> int" where
  "traceSize body = int (length body) + 4096"

definition enqueueTrace :: "Caller \<Rightarrow> gostring \<Rightarrow> daemon \<Rightarrow> daemon" where
  "enqueueTrace parent body d =
     (let sz = traceSize body; (ok, d1) = reserveTrace sz d in
      if \<not> ok then d1
      else if d_closing d1 then releaseTrace sz d1
      else d1\<lparr>d_group := d_group d1 + 1, d_traces := d_traces d1 @ [(parent, body)]\<rparr>)"

text \<open>One round of the loop over \<open>byParent\<close>.\<close>

definition copyToParent ::
    "traceRequest \<Rightarrow> MessageSendDelivery list \<Rightarrow> int \<Rightarrow> TraceRecipient list \<Rightarrow> daemon \<Rightarrow> daemon" where
  "copyToParent captured deliveries code refs d =
     (case refs of
        [] \<Rightarrow> panic d
      | first # rest \<Rightarrow>
          if ds_SessionID (tb_from captured) = fc_SessionID (tt_Owner first) then d
          else if map md_SessionID deliveries = [fc_SessionID (tt_Owner first)] then d
          else
            let raw = marshal (envelope_json (traceBody captured deliveries code refs)) in
            if runeCount raw > MaxTextRunes then dropTrace d
            else enqueueTrace (tt_Owner first) raw d)"

definition settledDeliveries :: "result option \<Rightarrow> MessageSendDelivery list" where
  "settledDeliveries val = (case val of Some (VSend r) \<Rightarrow> mr_Deliveries r | _ \<Rightarrow> [])"

definition addTraceRefs :: "int \<Rightarrow> TraceRecipient list \<Rightarrow> session \<Rightarrow> daemon \<Rightarrow> session \<times> daemon" where
  "addTraceRefs k refs s d = fold (\<lambda>ref (s, d). addTraceRef k ref s d) refs (s, d)"

definition finishTrace ::
    "Frame \<Rightarrow> result option \<Rightarrow> int \<Rightarrow> TraceRecipient list \<Rightarrow> session \<Rightarrow> daemon \<Rightarrow> session \<times> daemon" where
  "finishTrace frame val code extra s d =
     (case gm_get (s_traceRequests s) (fr_ID frame) of
        None \<Rightarrow> (s, d)
      | Some _ \<Rightarrow>
          let (s1, d1) = addTraceRefs (fr_ID frame) extra s d in
          case gm_get (s_traceRequests s1) (fr_ID frame) of
            None \<Rightarrow> (s1, panic d1)
          | Some captured \<Rightarrow>
              let s2 = s1\<lparr>s_traceRequests := gm_del (fr_ID frame) (s_traceRequests s1)\<rparr>;
                  parents = groupByParent (filter (traceEligible d1) (tb_refs captured));
                  d2 = fold (\<lambda>(key, refs). copyToParent captured (settledDeliveries val) code refs) parents d1
              in (s2, releaseTrace (tb_bytes captured) d2))"

text \<open>The deferred calls at the end of a copy's delivery goroutine.\<close>

definition traceDelivered :: "Caller \<times> gostring \<Rightarrow> daemon \<Rightarrow> daemon" where
  "traceDelivered t d =
     (releaseTrace (traceSize (snd t)) d)\<lparr>d_group := d_group d - 1, d_traces := remove1 t (d_traces d)\<rparr>"

section \<open>The budget is exact\<close>

text \<open>What a session has reserved, in bytes and in operations, and what the queued copies have.\<close>

definition charge :: "session \<Rightarrow> int" where
  "charge s = (\<Sum>(k, c) \<in># mset (s_traceRequests s). tb_bytes c) + s_traceTargetsBytes s"

definition jobs :: "session \<Rightarrow> int" where
  "jobs s = (\<Sum>(k, c) \<in># mset (s_traceRequests s). 1) + (if s_traceTargetsBytes s = 0 then 0 else 1)"

definition queuedBytes :: "daemon \<Rightarrow> int" where
  "queuedBytes d = (\<Sum>t \<leftarrow> d_traces d. traceSize (snd t))"

definition trace_ok :: "session \<Rightarrow> bool" where
  "trace_ok s \<longleftrightarrow> gm_ok (s_traceRequests s) \<and> (\<forall>(k, c) \<in> set (s_traceRequests s). 0 < tb_bytes c)
     \<and> 0 \<le> s_traceTargetsBytes s"

definition within_budget :: "daemon \<Rightarrow> bool" where
  "within_budget d \<longleftrightarrow> d_traceBytes d \<le> maxTraceBytes \<and> d_traceCount d \<le> maxTraceWork"

text \<open>
  An operation of a session that keeps the books: what it reserves or releases of the shared
  budget is what the session or the queue of copies holds more or less, and it does not exceed
  the budget.
\<close>

definition balanced :: "session \<times> daemon \<Rightarrow> session \<times> daemon \<Rightarrow> bool" where
  "balanced = (\<lambda>(s, d) (s', d').
     trace_ok s \<longrightarrow> trace_ok s'
       \<and> d_traceBytes d' - charge s' - queuedBytes d' = d_traceBytes d - charge s - queuedBytes d
       \<and> d_traceCount d' - jobs s' - int (length (d_traces d'))
         = d_traceCount d - jobs s - int (length (d_traces d))
       \<and> (within_budget d \<longrightarrow> within_budget d'))"

lemma balanced_refl [simp]: "balanced x x"
  by (auto simp: balanced_def)

lemma balanced_trans: "balanced x y \<Longrightarrow> balanced y z \<Longrightarrow> balanced x z"
  by (auto simp: balanced_def)

lemma traceSize_pos [simp]: "0 < traceSize b"
  by (simp add: traceSize_def)

lemma refSize_pos [simp]: "0 < refSize r"
proof -
  have "marshal (recipient_json r) \<noteq> []" by simp
  then show ?thesis by (simp add: refSize_def)
qed

lemma balanced_drop [simp]: "balanced (s, d) (s, dropTrace d)"
  by (simp add: balanced_def dropTrace_def queuedBytes_def within_budget_def)

lemma mset_traceRequests_set:
  assumes "trace_ok s"
  shows "(\<Sum>(i, c) \<in># mset (gm_set k v (s_traceRequests s)). f c)
    = (\<Sum>(i, c) \<in># mset (s_traceRequests s). f c) + f v
      - (case gm_get (s_traceRequests s) k of None \<Rightarrow> 0 | Some w \<Rightarrow> (f w :: int))"
proof (cases "gm_get (s_traceRequests s) k")
  case None
  with assms show ?thesis by (simp add: trace_ok_def mset_gm_set gm_del_none)
next
  case (Some w)
  with assms mset_gm_del[of "s_traceRequests s" k w] show ?thesis by (simp add: trace_ok_def mset_gm_set)
qed

lemma mset_traceRequests_del:
  assumes "trace_ok s" "gm_get (s_traceRequests s) k = Some w"
  shows "(\<Sum>(i, c) \<in># mset (gm_del k (s_traceRequests s)). f c)
    = (\<Sum>(i, c) \<in># mset (s_traceRequests s). f c) - (f w :: int)"
  using assms mset_gm_del[of "s_traceRequests s" k w] by (simp add: trace_ok_def)

lemma trace_ok_set: "trace_ok s \<Longrightarrow> 0 < tb_bytes c \<Longrightarrow> trace_ok (s\<lparr>s_traceRequests := gm_set k c (s_traceRequests s)\<rparr>)"
  by (auto simp: trace_ok_def gm_set_get gm.get_put split: if_splits)

lemma trace_ok_del: "trace_ok s \<Longrightarrow> trace_ok (s\<lparr>s_traceRequests := gm_del k (s_traceRequests s)\<rparr>)"
  by (auto simp: trace_ok_def gm_set_get split: if_splits)

lemma trace_ok_bytes: "trace_ok s \<Longrightarrow> gm_get (s_traceRequests s) k = Some c \<Longrightarrow> 0 < tb_bytes c"
  by (auto simp: trace_ok_def dest: gm_get_in_set)

lemma balanced_capture:
  assumes "gm_get (s_traceRequests s) k = None" "0 < tb_bytes c" "reserveTrace (tb_bytes c) d = (True, d1)"
  shows "balanced (s, d) (s\<lparr>s_traceRequests := gm_set k c (s_traceRequests s)\<rparr>, d1)"
  unfolding balanced_def split_beta fst_conv snd_conv
proof (intro impI)
  assume ok: "trace_ok s"
  from assms(3) have d1: "d1 = d\<lparr>d_traceCount := d_traceCount d + 1, d_traceBytes := d_traceBytes d + tb_bytes c\<rparr>"
    and b: "tb_bytes c \<le> maxTraceBytes - d_traceBytes d" "d_traceCount d < maxTraceWork"
    by (auto simp: reserveTrace_def split: if_splits)
  show "trace_ok (s\<lparr>s_traceRequests := gm_set k c (s_traceRequests s)\<rparr>)
    \<and> d_traceBytes d1 - charge (s\<lparr>s_traceRequests := gm_set k c (s_traceRequests s)\<rparr>) - queuedBytes d1
      = d_traceBytes d - charge s - queuedBytes d
    \<and> d_traceCount d1 - jobs (s\<lparr>s_traceRequests := gm_set k c (s_traceRequests s)\<rparr>) - int (length (d_traces d1))
      = d_traceCount d - jobs s - int (length (d_traces d))
    \<and> (within_budget d \<longrightarrow> within_budget d1)"
    using b assms(1,2) trace_ok_set[OF ok] mset_traceRequests_set[OF ok, of tb_bytes k c]
      mset_traceRequests_set[OF ok, of "\<lambda>_. 1" k c]
    by (simp add: d1 charge_def jobs_def queuedBytes_def within_budget_def)
qed

lemma balanced_addTraceRef: "balanced (s, d) (addTraceRef k ref s d)"
proof (cases "gm_get (s_traceRequests s) k")
  case None
  note cap = None
  show ?thesis
  proof (cases "s_traceTargetsBytes s = 0")
    case True
    obtain ok d1 where r: "reserveTrace (refSize ref) d = (ok, d1)" by (cases "reserveTrace (refSize ref) d")
    have "balanced (s, d) (if ok then s\<lparr>s_traceTargets := ts, s_traceTargetsBytes := refSize ref\<rparr> else s, d1)" for ts
      using r True refSize_pos[of ref]
      by (cases ok) (auto simp: reserveTrace_def balanced_def trace_ok_def charge_def jobs_def queuedBytes_def
          within_budget_def simp del: refSize_pos split: if_splits)
    with cap True r show ?thesis by (simp add: addTraceRef_def Let_def)
  next
    case False
    have "balanced (s, d) (s\<lparr>s_traceTargets := ts, s_traceTargetsBytes := s_traceTargetsBytes s + refSize ref\<rparr>,
        d\<lparr>d_traceBytes := d_traceBytes d + refSize ref\<rparr>)"
      if "\<not> refSize ref > maxTraceBytes - d_traceBytes d" for ts
      using that False refSize_pos[of ref]
      by (auto simp: balanced_def trace_ok_def charge_def jobs_def queuedBytes_def within_budget_def
          simp del: refSize_pos)
    with cap False show ?thesis by (simp add: addTraceRef_def Let_def)
  qed
next
  case (Some c)
  have "balanced (s, d) (s\<lparr>s_traceRequests := gm_set k (c\<lparr>tb_refs := rs, tb_bytes := tb_bytes c + refSize ref\<rparr>) (s_traceRequests s)\<rparr>,
      d\<lparr>d_traceBytes := d_traceBytes d + refSize ref\<rparr>)" (is "balanced _ (?s, ?d)")
    if "\<not> refSize ref > maxTraceBytes - d_traceBytes d" for rs
    unfolding balanced_def split_beta fst_conv snd_conv
  proof (intro impI)
    let ?c = "c\<lparr>tb_refs := rs, tb_bytes := tb_bytes c + refSize ref\<rparr>"
    assume ok: "trace_ok s"
    have "0 < tb_bytes ?c" using trace_ok_bytes[OF ok Some] by (simp add: add_pos_pos)
    from trace_ok_set[OF ok this] that Some mset_traceRequests_set[OF ok, of tb_bytes k ?c]
      mset_traceRequests_set[OF ok, of "\<lambda>_. 1" k ?c]
    show "trace_ok ?s \<and> d_traceBytes ?d - charge ?s - queuedBytes ?d = d_traceBytes d - charge s - queuedBytes d
      \<and> d_traceCount ?d - jobs ?s - int (length (d_traces ?d)) = d_traceCount d - jobs s - int (length (d_traces d))
      \<and> (within_budget d \<longrightarrow> within_budget ?d)"
      by (simp add: charge_def jobs_def queuedBytes_def within_budget_def)
  qed
  with Some show ?thesis by (simp add: addTraceRef_def Let_def)
qed

lemma balanced_addTraceRefs: "balanced (s, d) (addTraceRefs k refs s d)"
proof -
  have "balanced x (fold (\<lambda>ref (s, d). addTraceRef k ref s d) refs x)" for x
  proof (induction refs arbitrary: x)
    case (Cons r refs)
    obtain s d where x: "x = (s, d)" by (cases x)
    show ?case using balanced_trans[OF balanced_addTraceRef[of s d k r] Cons.IH] x by simp
  qed simp
  then show ?thesis by (simp add: addTraceRefs_def)
qed

lemma captureTrace_pos [simp]: "0 < tb_bytes (captureTrace input messageID from)"
  by (simp add: captureTrace_def)

lemma balanced_beginTrace:
  assumes "gm_get (s_traceRequests s) (fr_ID frame) = None"
  shows "balanced (s, d) (beginTrace frame ps messageID s d)"
proof (cases ps)
  case (PSend input)
  let ?c = "captureTrace input messageID (federationCaller s d)"
  let ?s1 = "s\<lparr>s_traceRequests := gm_set (fr_ID frame) ?c (s_traceRequests s)\<rparr>"
  show ?thesis
  proof (cases "reserveTrace (tb_bytes ?c) d")
    case (Pair ok d1)
    show ?thesis
    proof (cases ok)
      case True
      with Pair have b: "balanced (s, d) (?s1, d1)" using balanced_capture[OF assms] by simp
      have "balanced (s, d) (addTraceRef (fr_ID frame) ref ?s1 d1)" for ref
        by (rule balanced_trans[OF b balanced_addTraceRef])
      with b Pair True PSend show ?thesis by (simp add: beginTrace_def Let_def split: option.split)
    next
      case False
      with Pair have "balanced (s, d) (s, d1)"
        by (auto simp: reserveTrace_def balanced_def queuedBytes_def within_budget_def split: if_splits)
      with Pair False PSend show ?thesis by (simp add: beginTrace_def Let_def)
    qed
  qed
qed (simp_all add: beginTrace_def)

lemma balanced_traceTarget: "balanced (s, d) (traceTarget k item target s d)"
  using balanced_addTraceRef by (simp add: traceTarget_def split: option.split)

lemma balanced_releaseTraceTargets: "balanced (s, d) (releaseTraceTargets s d)"
  by (auto simp: releaseTraceTargets_def releaseTrace_def balanced_def trace_ok_def charge_def jobs_def
      queuedBytes_def within_budget_def)

lemma balanced_enqueueTrace: "balanced (s, d) (s, enqueueTrace parent body d)"
  by (auto simp: enqueueTrace_def reserveTrace_def releaseTrace_def Let_def balanced_def queuedBytes_def within_budget_def)

lemma balanced_copyToParent: "balanced (s, d) (s, copyToParent captured deliveries code refs d)"
proof (cases refs)
  case Nil
  then show ?thesis by (simp add: copyToParent_def panic_def balanced_def queuedBytes_def within_budget_def)
next
  case (Cons r rs)
  then show ?thesis by (simp add: copyToParent_def Let_def balanced_enqueueTrace)
qed

lemma balanced_copies:
  "balanced (s, d) (s, fold (\<lambda>(key, refs). copyToParent captured deliveries code refs) parents d)"
proof (induction parents arbitrary: d)
  case (Cons p parents)
  show ?case using balanced_trans[OF balanced_copyToParent Cons.IH] by (cases p) simp
qed simp

lemma balanced_settle:
  assumes "gm_get (s_traceRequests s) k = Some c"
  shows "balanced (s, d) (s\<lparr>s_traceRequests := gm_del k (s_traceRequests s)\<rparr>, releaseTrace (tb_bytes c) d)"
  unfolding balanced_def split_beta fst_conv snd_conv
proof (intro impI)
  assume ok: "trace_ok s"
  from trace_ok_del[OF ok, of k] trace_ok_bytes[OF ok assms] mset_traceRequests_del[OF ok assms, of tb_bytes]
    mset_traceRequests_del[OF ok assms, of "\<lambda>_. 1"]
  show "trace_ok (s\<lparr>s_traceRequests := gm_del k (s_traceRequests s)\<rparr>)
    \<and> d_traceBytes (releaseTrace (tb_bytes c) d) - charge (s\<lparr>s_traceRequests := gm_del k (s_traceRequests s)\<rparr>)
       - queuedBytes (releaseTrace (tb_bytes c) d) = d_traceBytes d - charge s - queuedBytes d
    \<and> d_traceCount (releaseTrace (tb_bytes c) d) - jobs (s\<lparr>s_traceRequests := gm_del k (s_traceRequests s)\<rparr>)
       - int (length (d_traces (releaseTrace (tb_bytes c) d))) = d_traceCount d - jobs s - int (length (d_traces d))
    \<and> (within_budget d \<longrightarrow> within_budget (releaseTrace (tb_bytes c) d))"
    by (simp add: releaseTrace_def charge_def jobs_def queuedBytes_def within_budget_def)
qed

lemma balanced_finishTrace: "balanced (s, d) (finishTrace frame val code extra s d)"
proof (cases "gm_get (s_traceRequests s) (fr_ID frame)")
  case (Some c0)
  obtain s1 d1 where a: "addTraceRefs (fr_ID frame) extra s d = (s1, d1)"
    by (cases "addTraceRefs (fr_ID frame) extra s d")
  have b: "balanced (s, d) (s1, d1)" using balanced_addTraceRefs[of s d "fr_ID frame" extra] a by simp
  show ?thesis
  proof (cases "gm_get (s_traceRequests s1) (fr_ID frame)")
    case None
    have "balanced (s1, d1) (s1, panic d1)" by (simp add: panic_def balanced_def queuedBytes_def within_budget_def)
    from balanced_trans[OF b this] Some None a show ?thesis by (simp add: finishTrace_def Let_def)
  next
    case (Some captured)
    from balanced_trans[OF balanced_trans[OF b balanced_copies] balanced_settle[OF Some]]
      \<open>gm_get (s_traceRequests s) (fr_ID frame) = Some c0\<close> Some a
    show ?thesis by (simp add: finishTrace_def Let_def)
  qed
qed (simp add: finishTrace_def)

lemma traceDelivered_books:
  assumes "t \<in> set (d_traces d)"
  shows "d_traceBytes (traceDelivered t d) - queuedBytes (traceDelivered t d) = d_traceBytes d - queuedBytes d"
    and "d_traceCount (traceDelivered t d) - int (length (d_traces (traceDelivered t d)))
      = d_traceCount d - int (length (d_traces d))"
    and "within_budget d \<Longrightarrow> within_budget (traceDelivered t d)"
proof -
  have "(\<Sum>x \<leftarrow> d_traces d. traceSize (snd x)) = traceSize (snd t) + (\<Sum>x \<leftarrow> remove1 t (d_traces d). traceSize (snd x))"
    using sum_list_map_remove1[OF assms, of "\<lambda>x. traceSize (snd x)"] by simp
  then show "d_traceBytes (traceDelivered t d) - queuedBytes (traceDelivered t d) = d_traceBytes d - queuedBytes d"
    by (simp add: traceDelivered_def releaseTrace_def queuedBytes_def)
  have "length (d_traces d) > 0" using assms by auto
  then show "d_traceCount (traceDelivered t d) - int (length (d_traces (traceDelivered t d)))
      = d_traceCount d - int (length (d_traces d))"
    using assms by (simp add: traceDelivered_def releaseTrace_def length_remove1 of_nat_diff Suc_leI)
  show "within_budget d \<Longrightarrow> within_budget (traceDelivered t d)"
    using traceSize_pos[of "snd t"]
    by (simp add: traceDelivered_def releaseTrace_def within_budget_def del: traceSize_pos)
qed

section \<open>All sessions together\<close>

text \<open>
  The sessions of a daemon and the state they share. A step is a trace operation of one session,
  the start of a session, the end of a copy's delivery, or anything else: a change of a
  session and of the shared state that leaves the trace fields alone. A request identifier is
  captured once: \<open>handleFrame\<close> only accepts increasing identifiers.
\<close>

record tsys =
  ts_sessions :: "session list"
  ts_d :: daemon

definition same_books :: "daemon \<Rightarrow> daemon \<Rightarrow> bool" where
  "same_books d d' \<longleftrightarrow> d_traceBytes d' = d_traceBytes d \<and> d_traceCount d' = d_traceCount d \<and> d_traces d' = d_traces d"

definition same_capture :: "session \<Rightarrow> session \<Rightarrow> bool" where
  "same_capture s s' \<longleftrightarrow> s_traceRequests s' = s_traceRequests s \<and> s_traceTargetsBytes s' = s_traceTargetsBytes s"

inductive trace_op :: "session \<times> daemon \<Rightarrow> session \<times> daemon \<Rightarrow> bool" where
  top_begin: "gm_get (s_traceRequests s) (fr_ID frame) = None \<Longrightarrow> trace_op (s, d) (beginTrace frame ps messageID s d)"
| top_target: "trace_op (s, d) (traceTarget k item target s d)"
| top_finish: "trace_op (s, d) (finishTrace frame val code extra s d)"
| top_release: "trace_op (s, d) (releaseTraceTargets s d)"

inductive trace_step :: "tsys \<Rightarrow> tsys \<Rightarrow> bool" where
  ts_op: "i < length (ts_sessions t) \<Longrightarrow> trace_op (ts_sessions t ! i, ts_d t) (s', d') \<Longrightarrow>
     trace_step t (t\<lparr>ts_sessions := (ts_sessions t)[i := s'], ts_d := d'\<rparr>)"
| ts_start: "trace_step t (t\<lparr>ts_sessions := ts_sessions t @ [newSession p]\<rparr>)"
| ts_delivered: "c \<in> set (d_traces (ts_d t)) \<Longrightarrow> trace_step t (t\<lparr>ts_d := traceDelivered c (ts_d t)\<rparr>)"
| ts_other: "i < length (ts_sessions t) \<Longrightarrow> same_capture (ts_sessions t ! i) s' \<Longrightarrow> same_books (ts_d t) d' \<Longrightarrow>
     trace_step t (t\<lparr>ts_sessions := (ts_sessions t)[i := s'], ts_d := d'\<rparr>)"

definition trace_init :: "tsys \<Rightarrow> bool" where
  "trace_init t \<longleftrightarrow> ts_sessions t = [] \<and> d_traceBytes (ts_d t) = 0 \<and> d_traceCount (ts_d t) = 0 \<and> d_traces (ts_d t) = []"

definition books_ok :: "tsys \<Rightarrow> bool" where
  "books_ok t \<longleftrightarrow> (\<forall>s \<in> set (ts_sessions t). trace_ok s) \<and> within_budget (ts_d t)
     \<and> d_traceBytes (ts_d t) = (\<Sum>s \<leftarrow> ts_sessions t. charge s) + queuedBytes (ts_d t)
     \<and> d_traceCount (ts_d t) = (\<Sum>s \<leftarrow> ts_sessions t. jobs s) + int (length (d_traces (ts_d t)))"

lemma sum_list_map_update:
  "i < length xs \<Longrightarrow> (\<Sum>x \<leftarrow> xs[i := y]. f x) = (\<Sum>x \<leftarrow> xs. f x) + f y - (f (xs ! i) :: int)"
proof (induction xs arbitrary: i)
  case (Cons a xs)
  then show ?case by (cases i) simp_all
qed simp

lemma trace_op_balanced: "trace_op x y \<Longrightarrow> balanced x y"
  by (induction rule: trace_op.induct)
    (simp_all add: balanced_beginTrace balanced_traceTarget balanced_finishTrace balanced_releaseTraceTargets)

lemma same_capture_books: "same_capture s s' \<Longrightarrow> same_books d d' \<Longrightarrow> balanced (s, d) (s', d')"
  by (simp add: balanced_def same_capture_def same_books_def trace_ok_def charge_def jobs_def queuedBytes_def
      within_budget_def)

lemma books_update:
  assumes "books_ok t" "i < length (ts_sessions t)" "balanced (ts_sessions t ! i, ts_d t) (s', d')"
  shows "books_ok (t\<lparr>ts_sessions := (ts_sessions t)[i := s'], ts_d := d'\<rparr>)"
proof -
  have "trace_ok (ts_sessions t ! i)" using assms(1,2) by (simp add: books_ok_def)
  with assms(3) have b: "trace_ok s'"
    "d_traceBytes d' - charge s' - queuedBytes d' = d_traceBytes (ts_d t) - charge (ts_sessions t ! i) - queuedBytes (ts_d t)"
    "d_traceCount d' - jobs s' - int (length (d_traces d'))
      = d_traceCount (ts_d t) - jobs (ts_sessions t ! i) - int (length (d_traces (ts_d t)))"
    "within_budget d'"
    using assms(1) by (auto simp: balanced_def books_ok_def)
  have "\<forall>s \<in> set ((ts_sessions t)[i := s']). trace_ok s"
    using assms(1) b(1) set_update_subset_insert[of "ts_sessions t" i s'] by (auto simp: books_ok_def)
  with b(2-4) assms(1) show ?thesis
    by (simp add: books_ok_def sum_list_map_update[OF assms(2)])
qed

lemma books_step: "books_ok t \<Longrightarrow> trace_step t t' \<Longrightarrow> books_ok t'"
proof (erule trace_step.cases)
  fix u c
  assume "books_ok t" "t = u" "t' = u\<lparr>ts_d := traceDelivered c (ts_d u)\<rparr>" "c \<in> set (d_traces (ts_d u))"
  then show "books_ok t'" using traceDelivered_books[of c "ts_d u"] by (auto simp: books_ok_def)
next
  fix u p
  assume "books_ok t" "t = u" "t' = u\<lparr>ts_sessions := ts_sessions u @ [newSession p]\<rparr>"
  then show "books_ok t'"
    by (auto simp: books_ok_def trace_ok_def charge_def jobs_def newSession_def)
qed (auto intro: books_update trace_op_balanced same_capture_books)

interpretation traces: transition_system trace_init trace_step books_ok
proof unfold_locales
  show "trace_init s \<Longrightarrow> books_ok s" for s
    by (simp add: trace_init_def books_ok_def within_budget_def queuedBytes_def)
  show "books_ok s \<Longrightarrow> trace_step s t \<Longrightarrow> books_ok t" for s t by (rule books_step)
qed

lemma charge_nonneg:
  assumes "trace_ok s" shows "0 \<le> charge s" "0 \<le> jobs s"
proof -
  have n: "0 \<le> (\<Sum>(k, c) \<in># M. f c)" if "\<forall>x \<in># M. 0 \<le> f (snd x)" for M and f :: "traceRequest \<Rightarrow> int"
    using that by (induction M) auto
  have "\<forall>x \<in> set (s_traceRequests s). 0 \<le> tb_bytes (snd x)" using assms by (fastforce simp: trace_ok_def)
  then show "0 \<le> charge s" using n[of "mset (s_traceRequests s)" tb_bytes] assms
    by (simp add: charge_def trace_ok_def)
  show "0 \<le> jobs s" using n[of "mset (s_traceRequests s)" "\<lambda>_. 1"] by (simp add: jobs_def)
qed

text \<open>
  C39: the trace budget is exact and bounded. However the sessions of a daemon interleave, the bytes
  and operations reserved are those of the sends being captured, of the recipients collected for
  remote senders and of the queued copies; neither is ever negative or above its limit, and when
  nothing is captured or queued everything has been returned.
\<close>

theorem trace_budget_exact:
  assumes "reach trace_init trace_step t"
  shows "d_traceBytes (ts_d t) = (\<Sum>s \<leftarrow> ts_sessions t. charge s) + queuedBytes (ts_d t)
    \<and> d_traceCount (ts_d t) = (\<Sum>s \<leftarrow> ts_sessions t. jobs s) + int (length (d_traces (ts_d t)))
    \<and> 0 \<le> d_traceBytes (ts_d t) \<and> d_traceBytes (ts_d t) \<le> maxTraceBytes
    \<and> 0 \<le> d_traceCount (ts_d t) \<and> d_traceCount (ts_d t) \<le> maxTraceWork"
proof -
  have ok: "books_ok t" by (rule traces.reach_inv[OF assms])
  have "0 \<le> (\<Sum>s \<leftarrow> ts_sessions t. charge s)" "0 \<le> (\<Sum>s \<leftarrow> ts_sessions t. jobs s)"
    using ok by (auto simp: books_ok_def intro!: sum_list_nonneg charge_nonneg)
  moreover have "0 \<le> queuedBytes (ts_d t)"
    by (auto simp: queuedBytes_def traceSize_def intro!: sum_list_nonneg)
  ultimately show ?thesis using ok by (auto simp: books_ok_def within_budget_def)
qed

text \<open>A daemon with one session that has captured one message.\<close>

definition demo_frame :: Frame where
  "demo_frame = \<lparr>fr_ID = 1, fr_Method = ''message.send'', fr_Params = None, fr_Result = None, fr_Error = None,
     fr_Request = True\<rparr>"

definition demo_message :: MessageSendRequest where
  "demo_message = \<lparr>ms_Target = ''a'', ms_Targets = [], ms_Group = [], ms_Host = [], ms_Message = ''hi''\<rparr>"

definition demo_captured :: "session \<times> daemon" where
  "demo_captured = beginTrace demo_frame (PSend demo_message) ''m'' (newSession 0) (emptyDaemon ''h'')"

definition demo_tsys :: tsys where
  "demo_tsys = \<lparr>ts_sessions = [fst demo_captured], ts_d = snd demo_captured\<rparr>"

lemma demo_tsys_reach: "reach trace_init trace_step demo_tsys"
proof -
  let ?t0 = "\<lparr>ts_sessions = [], ts_d = emptyDaemon ''h''\<rparr>"
  let ?t1 = "?t0\<lparr>ts_sessions := [newSession 0]\<rparr>"
  have "reach trace_init trace_step ?t0"
    by (rule reach_init) (simp add: trace_init_def emptyDaemon_def)
  moreover have "trace_step ?t0 ?t1" using ts_start[of ?t0 0] by simp
  ultimately have r: "reach trace_init trace_step ?t1" by (rule reach_step)
  have "trace_op (newSession 0, emptyDaemon ''h'') (fst demo_captured, snd demo_captured)"
    unfolding demo_captured_def prod.collapse by (rule top_begin) (simp add: newSession_def)
  then have "trace_step ?t1 demo_tsys"
    using ts_op[of 0 ?t1 "fst demo_captured" "snd demo_captured"] by (simp add: demo_tsys_def)
  with r show ?thesis by (rule reach_step)
qed

theorem trace_budget_exact_witness:
  "d_traceCount (snd demo_captured) = 1 \<and> d_traceBytes (snd demo_captured) = charge (fst demo_captured)"
proof -
  have n: "d_traces (snd demo_captured) = [] \<and> jobs (fst demo_captured) = 1"
    by (simp add: demo_captured_def beginTrace_def demo_message_def demo_frame_def captureTrace_def Let_def
        reserveTrace_def sendRequest_json_def fld_def fld_str_def fld_strs_def quote_json_def escape_ascii_def
        newSession_def emptyDaemon_def federationCaller_def zeroCaller_def snapshotTrace_def jobs_def gm_set_def)
  with trace_budget_exact[OF demo_tsys_reach] show ?thesis by (simp add: demo_tsys_def queuedBytes_def)
qed

section \<open>Who receives a copy\<close>

text \<open>
  Logging and tracing are \<open>quiet\<close>: nothing of the daemon changes but the log, the trace budget and the
  queue of copies; and nothing of the session but what it has captured.
\<close>

definition mute :: "daemon \<Rightarrow> daemon" where
  "mute d = d\<lparr>d_log := [], d_traceBytes := 0, d_traceCount := 0, d_traceDropped := 0, d_group := 0, d_traces := []\<rparr>"

definition quiet :: "daemon \<Rightarrow> daemon \<Rightarrow> bool" where
  "quiet d d' \<longleftrightarrow> mute d' = mute d"

definition muteS :: "session \<Rightarrow> session" where
  "muteS s = s\<lparr>s_traceRequests := [], s_traceTargets := [], s_traceTargetsBytes := 0, s_commsRequests := []\<rparr>"

definition quietS :: "session \<Rightarrow> session \<Rightarrow> bool" where
  "quietS s s' \<longleftrightarrow> muteS s' = muteS s"

lemma quiet_refl [simp]: "quiet d d" "quietS s s"
  by (simp_all add: quiet_def quietS_def)

lemma quiet_trans: "quiet a b \<Longrightarrow> quiet b c \<Longrightarrow> quiet a c"
  by (simp add: quiet_def)

lemma quietS_trans: "quietS a b \<Longrightarrow> quietS b c \<Longrightarrow> quietS a c"
  by (simp add: quietS_def)

lemma quiet_budget [simp]:
  "quiet d (d\<lparr>d_traceBytes := b\<rparr>)" "quiet d (dropTrace d)" "quiet d (releaseTrace k d)"
  "quiet d (snd (reserveTrace k d))" "quiet d (d\<lparr>d_log := l\<rparr>)"
  by (simp_all add: quiet_def mute_def dropTrace_def releaseTrace_def reserveTrace_def)

lemma quiet_enqueueTrace [simp]: "quiet d (enqueueTrace parent body d)"
  by (simp add: enqueueTrace_def Let_def reserveTrace_def releaseTrace_def quiet_def mute_def)

lemma quietS_capture [simp]:
  "quietS s (s\<lparr>s_traceRequests := m\<rparr>)" "quietS s (s\<lparr>s_traceTargetsBytes := b\<rparr>)" "quietS s (s\<lparr>s_commsRequests := c\<rparr>)"
  "quietS s (s\<lparr>s_traceTargets := ts, s_traceTargetsBytes := b\<rparr>)"
  by (simp_all add: quietS_def muteS_def)

lemma quiet_fields:
  assumes "quiet d d'"
  shows
  "d_host d' = d_host d" "d_hi d' = d_hi d" "d_products d' = d_products d" "d_closing d' = d_closing d"
  "d_entries d' = d_entries d" "d_names d' = d_names d" "d_tokens d' = d_tokens d"
  "d_remoteOwners d' = d_remoteOwners d" "d_federation d' = d_federation d" "d_table d' = d_table d"
  "d_comms d' = d_comms d" "h_entry d' = h_entry d" "h_owner d' = h_owner d" "h_launch d' = h_launch d"
  "h_wire d' = h_wire d" "h_child d' = h_child d" "n_entry d' = n_entry d" "n_owner d' = n_owner d"
  "n_launch d' = n_launch d" "n_chan d' = n_chan d" "d_answers d' = d_answers d"
  "d_fedReplies d' = d_fedReplies d" "d_signals d' = d_signals d" "d_panic d' = d_panic d"
  "d_entropy d' = d_entropy d" "d_drawn d' = d_drawn d" "d_now d' = d_now d" "d_sha d' = d_sha d"
  "d_faults d' = d_faults d" "d_tempName d' = d_tempName d" "d_encodes d' = d_encodes d"
  using assms unfolding quiet_def mute_def by ((cases d; cases d'), simp)+

lemma quietS_fields:
  assumes "quietS s s'"
  shows
  "s_self s' = s_self s" "s_traceCollect s' = s_traceCollect s" "s_traceCopy s' = s_traceCopy s"
  "s_runFromTrace s' = s_runFromTrace s" "s_runFromCompletion s' = s_runFromCompletion s"
  "s_completion s' = s_completion s" "s_runID s' = s_runID s" "s_runGeneration s' = s_runGeneration s"
  "s_runSequence s' = s_runSequence s" "s_acknowledgedSequence s' = s_acknowledgedSequence s"
  "s_deadline s' = s_deadline s" "s_previousDeadline s' = s_previousDeadline s"
  "s_autoClose s' = s_autoClose s" "s_stopAuto s' = s_stopAuto s" "s_identity s' = s_identity s"
  "s_lastIn s' = s_lastIn s" "s_nextOut s' = s_nextOut s" "s_pending s' = s_pending s"
  "s_deferredDeliveries s' = s_deferredDeliveries s" "s_requests s' = s_requests s"
  "s_owned s' = s_owned s" "s_stopping s' = s_stopping s" "s_closed s' = s_closed s"
  "s_child s' = s_child s" "s_launch s' = s_launch s" "s_committed s' = s_committed s"
  "s_openID s' = s_openID s" "s_closeCall s' = s_closeCall s" "s_closeAnswer s' = s_closeAnswer s"
  "s_closeTimer s' = s_closeTimer s" "s_forget s' = s_forget s" "s_launchResult s' = s_launchResult s"
  "s_processExited s' = s_processExited s" "s_stopSignal s' = s_stopSignal s"
  "s_forwarded s' = s_forwarded s" "s_caller s' = s_caller s" "s_omit s' = s_omit s"
  "s_messageID s' = s_messageID s"
  using assms unfolding quietS_def muteS_def by ((cases s; cases s'), simp)+

lemma quiet_snapshot: "quiet d d' \<Longrightarrow> snapshotTrace item d' = snapshotTrace item d"
  unfolding snapshotTrace_def by (simp only: quiet_fields)

text \<open>Both components of a session's operation are quiet.\<close>

definition hushed :: "session \<times> daemon \<Rightarrow> session \<times> daemon \<Rightarrow> bool" where
  "hushed x y \<longleftrightarrow> quietS (fst x) (fst y) \<and> quiet (snd x) (snd y)"

lemma hushed_refl [simp]: "hushed x x"
  by (simp add: hushed_def)

lemma hushed_trans: "hushed x y \<Longrightarrow> hushed y z \<Longrightarrow> hushed x z"
  by (auto simp: hushed_def intro: quiet_trans quietS_trans)

lemma hushed_addTraceRef: "hushed (s, d) (addTraceRef k ref s d)"
proof (cases "gm_get (s_traceRequests s) k")
  case None
  have "quiet d (snd (reserveTrace (refSize ref) d))" by simp
  with None show ?thesis
    by (cases "reserveTrace (refSize ref) d") (simp add: addTraceRef_def Let_def hushed_def)
next
  case (Some c)
  then show ?thesis by (simp add: addTraceRef_def Let_def hushed_def)
qed

lemma hushed_addTraceRefs: "hushed (s, d) (addTraceRefs k refs s d)"
proof -
  have "hushed x (fold (\<lambda>ref (s, d). addTraceRef k ref s d) refs x)" for x
  proof (induction refs arbitrary: x)
    case (Cons r refs)
    obtain s d where x: "x = (s, d)" by (cases x)
    show ?case using hushed_trans[OF hushed_addTraceRef[of s d k r] Cons.IH] x by simp
  qed simp
  then show ?thesis by (simp add: addTraceRefs_def)
qed

lemma addTraceRefs_captured:
  "gm_get (s_traceRequests s) k \<noteq> None \<Longrightarrow> gm_get (s_traceRequests (fst (addTraceRefs k refs s d))) k \<noteq> None"
proof -
  have one: "gm_get (s_traceRequests (fst (addTraceRef k ref s d))) k \<noteq> None"
    if "gm_get (s_traceRequests s) k \<noteq> None" for ref s d
    using that by (auto simp: addTraceRef_def Let_def)
  have "gm_get (s_traceRequests (fst (fold (\<lambda>ref (s, d). addTraceRef k ref s d) refs x))) k \<noteq> None"
    if "gm_get (s_traceRequests (fst x)) k \<noteq> None" for x
    using that
  proof (induction refs arbitrary: x)
    case (Cons r refs)
    then show ?case using one[of "fst x" r "snd x"] by (cases x) simp
  qed simp
  from this[of "(s, d)"] show "gm_get (s_traceRequests s) k \<noteq> None \<Longrightarrow> ?thesis" by (simp add: addTraceRefs_def)
qed

lemma groupByParent_fold:
  assumes "\<forall>(key, rs) \<in> set m. rs \<noteq> [] \<and> set rs \<subseteq> A \<and> (\<forall>r \<in> set rs. parentKey r = key)" "set refs \<subseteq> A" "gm_ok m"
  shows "\<forall>(key, rs) \<in> set (fold (\<lambda>ref m. gm_set (parentKey ref)
      ((case gm_get m (parentKey ref) of None \<Rightarrow> [] | Some rs \<Rightarrow> rs) @ [ref]) m) refs m).
    rs \<noteq> [] \<and> set rs \<subseteq> A \<and> (\<forall>r \<in> set rs. parentKey r = key)"
  using assms
proof (induction refs arbitrary: m)
  case (Cons r refs)
  let ?rs = "(case gm_get m (parentKey r) of None \<Rightarrow> [] | Some rs \<Rightarrow> rs) @ [r]"
  have new: "set ?rs \<subseteq> A" "\<forall>x \<in> set ?rs. parentKey x = parentKey r"
    using Cons.prems(1,2) gm_get_in_set[of m "parentKey r"] by (cases "gm_get m (parentKey r)"; fastforce)+
  have "\<forall>(key, rs) \<in> set (gm_set (parentKey r) ?rs m). rs \<noteq> [] \<and> set rs \<subseteq> A \<and> (\<forall>x \<in> set rs. parentKey x = key)"
  proof (clarify, goal_cases)
    case (1 key rs)
    then have "gm_get (gm_set (parentKey r) ?rs m) key = Some rs" using Cons.prems(3) by (simp add: gm_set_get)
    then consider "key = parentKey r" "rs = ?rs" | "(key, rs) \<in> set m"
      using gm_get_in_set[of m key rs] by (auto split: if_splits)
    then show ?case
    proof cases
      case 1
      have "?rs \<noteq> []" by simp
      with new show ?thesis unfolding 1 by blast
    next
      case 2
      with Cons.prems(1) show ?thesis by blast
    qed
  qed
  from Cons.IH[OF this] Cons.prems show ?case by simp
qed simp

lemma groupByParent_spec:
  "(key, rs) \<in> set (groupByParent refs) \<Longrightarrow> rs \<noteq> [] \<and> set rs \<subseteq> set refs \<and> (\<forall>r \<in> set rs. parentKey r = key)"
  using groupByParent_fold[of "[]" "set refs" refs] unfolding groupByParent_def by fastforce

lemma groupByParent_keys:
  assumes "gm_ok m"
  shows "gm_ok (fold (\<lambda>ref m. gm_set (parentKey ref)
      ((case gm_get m (parentKey ref) of None \<Rightarrow> [] | Some rs \<Rightarrow> rs) @ [ref]) m) refs m)
    \<and> (\<forall>key \<in> fst ` set m \<union> parentKey ` set refs. key \<in> fst ` set (fold (\<lambda>ref m. gm_set (parentKey ref)
      ((case gm_get m (parentKey ref) of None \<Rightarrow> [] | Some rs \<Rightarrow> rs) @ [ref]) m) refs m))"
  using assms
proof (induction refs arbitrary: m)
  case (Cons r refs)
  let ?m = "gm_set (parentKey r) ((case gm_get m (parentKey r) of None \<Rightarrow> [] | Some rs \<Rightarrow> rs) @ [r]) m"
  have ok: "gm_ok ?m" using Cons.prems by simp
  have keys: "key \<in> fst ` set ?m" if "key \<in> fst ` set m \<or> key = parentKey r" for key
  proof -
    have "gm_get ?m key \<noteq> None" using that Cons.prems gm_set_get[OF Cons.prems, of key] by (auto simp: image_iff)
    then show ?thesis using gm_get_in_set[of ?m key] by force
  qed
  from Cons.IH[OF ok] show ?case using keys by auto
qed simp

text \<open>The copies a settled send queues.\<close>

definition callerKey :: "Caller \<Rightarrow> gostring" where
  "callerKey c = fc_SessionID c @ CHR 0x00 # fc_OwnerLifetime c"

definition copy_for :: "daemon \<Rightarrow> traceRequest \<Rightarrow> result option \<Rightarrow> int \<Rightarrow> Caller \<times> gostring \<Rightarrow> bool" where
  "copy_for d captured val code = (\<lambda>(parent, body).
     \<exists>refs. refs \<noteq> [] \<and> tt_Owner (hd refs) = parent
       \<and> (\<forall>r \<in> set refs. r \<in> set (tb_refs captured) \<and> traceEligible d r \<and> parentKey r = parentKey (hd refs))
       \<and> body = marshal (envelope_json (traceBody captured (settledDeliveries val) code refs))
       \<and> runeCount body \<le> MaxTextRunes
       \<and> fc_SessionID parent \<noteq> ds_SessionID (tb_from captured)
       \<and> map md_SessionID (settledDeliveries val) \<noteq> [fc_SessionID parent])"

text \<open>A parent that has the message already: it sent it, or it is its only receiver.\<close>

definition hasMessage :: "traceRequest \<Rightarrow> result option \<Rightarrow> Caller \<Rightarrow> bool" where
  "hasMessage captured val parent \<longleftrightarrow> fc_SessionID parent = ds_SessionID (tb_from captured)
     \<or> map md_SessionID (settledDeliveries val) = [fc_SessionID parent]"

definition copied :: "daemon \<Rightarrow> traceRequest \<Rightarrow> result option \<Rightarrow> (Caller \<times> gostring) list \<Rightarrow> nat \<Rightarrow> gostring \<Rightarrow> bool" where
  "copied d captured val new dropped key \<longleftrightarrow>
     (\<exists>t \<in> set new. callerKey (fst t) = key) \<or> 0 < dropped
     \<or> (\<exists>q. q \<in> set (tb_refs captured) \<and> traceEligible d q \<and> parentKey q = key \<and> hasMessage captured val (tt_Owner q))"

lemma enqueueTrace_traces:
  "d_traces (enqueueTrace parent body d) = d_traces d \<and> d_traceDropped (enqueueTrace parent body d) = d_traceDropped d + 1
   \<or> d_traces (enqueueTrace parent body d) = d_traces d @ [(parent, body)]
     \<and> d_traceDropped (enqueueTrace parent body d) = d_traceDropped d \<and> \<not> d_closing d"
  by (auto simp: enqueueTrace_def reserveTrace_def releaseTrace_def Let_def)

lemma quiet_copyToParent: "refs \<noteq> [] \<Longrightarrow> quiet d (copyToParent captured ds code refs d)"
  by (cases refs) (simp_all add: copyToParent_def Let_def)

lemma traceEligible_quiet: "quiet d d' \<Longrightarrow> traceEligible d' = traceEligible d"
  by (rule ext) (simp add: traceEligible_def quiet_snapshot quiet_fields)

lemma copyToParent_traces:
  assumes "refs \<noteq> []" "\<forall>r \<in> set refs. r \<in> set (tb_refs captured) \<and> traceEligible d0 r \<and> parentKey r = key"
    and d'_def: "d' = copyToParent captured (settledDeliveries val) code refs d"
  shows "\<exists>new. d_traces d' = d_traces d @ new \<and> (\<forall>t \<in> set new. copy_for d0 captured val code t)
    \<and> (new = [] \<or> (\<exists>t. new = [t] \<and> callerKey (fst t) = key)) \<and> d_traceDropped d \<le> d_traceDropped d'
    \<and> copied d0 captured val new (d_traceDropped d' - d_traceDropped d) key"
proof -
  obtain r rs where refs: "refs = r # rs" using assms(1) by (cases refs) auto
  have r: "r \<in> set (tb_refs captured)" "traceEligible d0 r" "parentKey r = key" using assms(2) refs by auto
  let ?raw = "marshal (envelope_json (traceBody captured (settledDeliveries val) code refs))"
  consider "hasMessage captured val (tt_Owner r)" | "\<not> hasMessage captured val (tt_Owner r)" "runeCount ?raw > MaxTextRunes"
    | "\<not> hasMessage captured val (tt_Owner r)" "runeCount ?raw \<le> MaxTextRunes" by linarith
  then show ?thesis
  proof cases
    case 1
    then have "d' = d" unfolding d'_def refs by (auto simp: copyToParent_def hasMessage_def)
    with 1 r show ?thesis by (intro exI[of _ "[]"]) (auto simp: copied_def)
  next
    case 2
    then have "d' = dropTrace d" unfolding d'_def refs by (auto simp: copyToParent_def hasMessage_def)
    then show ?thesis by (intro exI[of _ "[]"]) (simp add: dropTrace_def copied_def)
  next
    case 3
    then have e: "d' = enqueueTrace (tt_Owner r) ?raw d"
      unfolding d'_def by (auto simp: refs copyToParent_def hasMessage_def)
    have "copy_for d0 captured val code (tt_Owner r, ?raw)"
      unfolding copy_for_def prod.case
      by (rule exI[of _ refs]) (use assms(2) 3 in \<open>auto simp: refs hasMessage_def\<close>)
    moreover have "callerKey (tt_Owner r) = key" using r(3) by (simp add: callerKey_def parentKey_def)
    ultimately show ?thesis using e enqueueTrace_traces[of "tt_Owner r" ?raw d]
      by (elim disjE) (auto simp: copied_def intro: exI[of _ "[]"])
  qed
qed

lemma copied_mono: "copied d c val new n key \<Longrightarrow> set new \<subseteq> set new' \<Longrightarrow> n \<le> n' \<Longrightarrow> copied d c val new' n' key"
  unfolding copied_def by (meson less_le_trans subsetD)

lemma copies_traces:
  assumes "\<forall>(key, refs) \<in> set parents. refs \<noteq> []
    \<and> (\<forall>r \<in> set refs. r \<in> set (tb_refs captured) \<and> traceEligible d0 r \<and> parentKey r = key)"
    and "distinct (map fst parents)"
    and F_def: "F = fold (\<lambda>(key, refs). copyToParent captured (settledDeliveries val) code refs) parents"
  shows "quiet d (F d) \<and> d_traceDropped d \<le> d_traceDropped (F d)
   \<and> (\<exists>new. d_traces (F d) = d_traces d @ new \<and> (\<forall>t \<in> set new. copy_for d0 captured val code t)
       \<and> distinct (map (callerKey \<circ> fst) new) \<and> (callerKey \<circ> fst) ` set new \<subseteq> fst ` set parents
       \<and> (\<forall>key \<in> fst ` set parents. copied d0 captured val new (d_traceDropped (F d) - d_traceDropped d) key))"
  unfolding F_def using assms(1,2)
proof (induction parents arbitrary: d)
  case (Cons p parents)
  obtain key refs where p: "p = (key, refs)" by (cases p)
  with Cons.prems have refs: "refs \<noteq> []"
    "\<forall>r \<in> set refs. r \<in> set (tb_refs captured) \<and> traceEligible d0 r \<and> parentKey r = key" by auto
  let ?d1 = "copyToParent captured (settledDeliveries val) code refs d"
  let ?d2 = "fold (\<lambda>(key, refs). copyToParent captured (settledDeliveries val) code refs) parents ?d1"
  obtain a where a: "d_traces ?d1 = d_traces d @ a" "\<forall>t \<in> set a. copy_for d0 captured val code t"
    "a = [] \<or> (\<exists>t. a = [t] \<and> callerKey (fst t) = key)" "d_traceDropped d \<le> d_traceDropped ?d1"
    "copied d0 captured val a (d_traceDropped ?d1 - d_traceDropped d) key"
    using copyToParent_traces[OF refs refl] by blast
  have "\<forall>(key, refs) \<in> set parents. refs \<noteq> []
      \<and> (\<forall>r \<in> set refs. r \<in> set (tb_refs captured) \<and> traceEligible d0 r \<and> parentKey r = key)" "distinct (map fst parents)"
    using Cons.prems by auto
  from Cons.IH[OF this, of ?d1] obtain b where b: "quiet ?d1 ?d2" "d_traceDropped ?d1 \<le> d_traceDropped ?d2"
    "d_traces ?d2 = d_traces ?d1 @ b" "\<forall>t \<in> set b. copy_for d0 captured val code t"
    "distinct (map (callerKey \<circ> fst) b)" "(callerKey \<circ> fst) ` set b \<subseteq> fst ` set parents"
    "\<forall>key \<in> fst ` set parents. copied d0 captured val b (d_traceDropped ?d2 - d_traceDropped ?d1) key" by blast
  have "key \<notin> fst ` set parents" using Cons.prems(2) p by simp
  then have "key \<notin> (callerKey \<circ> fst) ` set b" using b(6) by blast
  then have "distinct (map (callerKey \<circ> fst) (a @ b))" "(callerKey \<circ> fst) ` set (a @ b) \<subseteq> insert key (fst ` set parents)"
    using a(3) b(5,6) by (auto simp: image_iff)
  moreover have "copied d0 captured val (a @ b) (d_traceDropped ?d2 - d_traceDropped d) k" if "k \<in> insert key (fst ` set parents)" for k
    using that a(4,5) b(2,7) by (auto intro: copied_mono)
  moreover have "quiet d ?d2" using quiet_trans[OF quiet_copyToParent[OF refs(1)] b(1)] .
  moreover have "d_traceDropped d \<le> d_traceDropped ?d2" using a(4) b(2) by simp
  moreover have "fold (\<lambda>(key, refs). copyToParent captured (settledDeliveries val) code refs) (p # parents) d = ?d2"
    "fst ` set (p # parents) = insert key (fst ` set parents)" by (simp_all add: p)
  moreover have "d_traces ?d2 = d_traces d @ a @ b" "\<forall>t \<in> set (a @ b). copy_for d0 captured val code t" using a(1,2) b(3,4) by auto
  ultimately show ?case by (simp only:) blast
qed (simp add: exI[of _ "[]"])

lemma finishTrace_captured:
  assumes "gm_get (s_traceRequests s) (fr_ID frame) = Some c0"
  obtains s1 d1 captured new d2 where
    "addTraceRefs (fr_ID frame) extra s d = (s1, d1)" "gm_get (s_traceRequests s1) (fr_ID frame) = Some captured"
    "quietS s s1" "quiet d d1" "quiet d1 d2" "d_traces d2 = d_traces d1 @ new"
    "\<forall>t \<in> set new. copy_for d captured val code t" "distinct (map (callerKey \<circ> fst) new)"
    "\<forall>r \<in> set (tb_refs captured). traceEligible d r \<longrightarrow> copied d captured val new (d_traceDropped d2 - d_traceDropped d1) (parentKey r)"
    "d_traceDropped d1 \<le> d_traceDropped d2"
    "finishTrace frame val code extra s d
      = (s1\<lparr>s_traceRequests := gm_del (fr_ID frame) (s_traceRequests s1)\<rparr>, releaseTrace (tb_bytes captured) d2)"
proof -
  obtain s1 d1 where a: "addTraceRefs (fr_ID frame) extra s d = (s1, d1)"
    by (cases "addTraceRefs (fr_ID frame) extra s d")
  obtain captured where c: "gm_get (s_traceRequests s1) (fr_ID frame) = Some captured"
    using addTraceRefs_captured[of s "fr_ID frame" extra d] assms a by auto
  have q: "quietS s s1" "quiet d d1" using hushed_addTraceRefs[of s d "fr_ID frame" extra] a by (simp_all add: hushed_def)
  let ?parents = "groupByParent (filter (traceEligible d1) (tb_refs captured))"
  let ?d2 = "fold (\<lambda>(key, refs). copyToParent captured (settledDeliveries val) code refs) ?parents d1"
  have pr: "\<forall>(key, refs) \<in> set ?parents. refs \<noteq> []
      \<and> (\<forall>r \<in> set refs. r \<in> set (tb_refs captured) \<and> traceEligible d r \<and> parentKey r = key)"
    using groupByParent_spec traceEligible_quiet[OF q(2)] by fastforce
  have keys: "gm_ok ?parents" "\<And>r. r \<in> set (tb_refs captured) \<Longrightarrow> traceEligible d r \<Longrightarrow> parentKey r \<in> fst ` set ?parents"
    using groupByParent_keys[of "[]" "filter (traceEligible d1) (tb_refs captured)"] traceEligible_quiet[OF q(2)]
    by (auto simp: groupByParent_def)
  have "distinct (map fst ?parents)" using keys(1) by (simp add: gm_ok_def)
  note ct = copies_traces[OF pr this refl, of d1 val code]
  from ct have n16: "quiet d1 ?d2" "d_traceDropped d1 \<le> d_traceDropped ?d2" by (rule conjunct1, rule conjunct1[OF conjunct2])
  from conjunct2[OF conjunct2[OF ct]] obtain new where n: "d_traces ?d2 = d_traces d1 @ new"
    "\<forall>t \<in> set new. copy_for d captured val code t" "distinct (map (callerKey \<circ> fst) new)"
    "\<forall>key \<in> fst ` set ?parents. copied d captured val new (d_traceDropped ?d2 - d_traceDropped d1) key"
    by (elim exE conjE)
  have n5: "\<forall>r \<in> set (tb_refs captured). traceEligible d r \<longrightarrow> copied d captured val new (d_traceDropped ?d2 - d_traceDropped d1) (parentKey r)"
    using n(4) keys(2) by blast
  show thesis by (rule that[OF a c q n16(1) n(1-3) n5 n16(2)]) (simp add: finishTrace_def assms a c)
qed

lemma hushed_finishTrace: "hushed (s, d) (finishTrace frame val code extra s d)"
proof (cases "gm_get (s_traceRequests s) (fr_ID frame)")
  case None
  then show ?thesis by (simp add: finishTrace_def)
next
  case (Some c0)
  then show ?thesis
  proof (rule finishTrace_captured[where extra = extra and d = d and val = val and code = code])
    fix s1 d1 captured new d2
    assume q: "quietS s s1" "quiet d d1" "quiet d1 d2" and e: "finishTrace frame val code extra s d
      = (s1\<lparr>s_traceRequests := gm_del (fr_ID frame) (s_traceRequests s1)\<rparr>, releaseTrace (tb_bytes captured) d2)"
    have "quiet d (releaseTrace (tb_bytes captured) d2)" by (rule quiet_trans[OF quiet_trans[OF q(2,3)]]) simp
    with quietS_trans[OF q(1)] show ?thesis unfolding e hushed_def by simp
  qed
qed



















end
