(* ===== verification/Session.thy ===== *)
theory Session
  imports Trace
begin

text \<open>
  One session of the daemon: replying to its peer, the runs of a lane, the requests routed to it and
  its end (\<open>session.go\<close>, \<open>lane.go\<close>, \<open>delivery_queue.go\<close> and the session functions of \<open>policy.go\<close>,
  \<open>launch.go\<close> and \<open>federation.go\<close> in \<open>bus/internal/daemon\<close>).

  An operation takes the session and the daemon and returns both. \<open>d_answers\<close> collects what is
  sent on reply channels, \<open>d_fedReplies\<close> what a forwarded request answers, the session's connection
  \<open>h_wire d (s_self s)\<close> what it writes. A nil dereference, a failed type assertion or a send on a nil
  channel sets \<open>d_panic\<close>.
\<close>

section \<open>Replies\<close>

definition errorAnswer :: "RPCError \<Rightarrow> answer" where
  "errorAnswer e = (codeAnswer (er_Code e))\<lparr>an_data := er_Data e\<rparr>"

text \<open>
  \<open>rpcReply\<close>: \<open>ErrorBytes\<close> and the slice of its result. When the error cannot be encoded the slice
  \<open>body[:len(body)-1]\<close> of the nil body panics.
\<close>

definition errorValue :: "int \<Rightarrow> errdata option \<Rightarrow> RPCError" where
  "errorValue code data =
     \<lparr>er_Code = code, er_Message = (case map_of errorMessages code of None \<Rightarrow> [] | Some m \<Rightarrow> m), er_Data = data\<rparr>"

definition rpcError :: "int \<Rightarrow> errdata option \<Rightarrow> daemon \<Rightarrow> Reply \<times> daemon" where
  "rpcError code data d =
     (let reply = \<lparr>rp_Result = None, rp_Error = Some (errorValue code data), rp_Trace = None\<rparr> in
      if d_encodes d (OError 1 code data) then (reply, d) else (reply, panic d))"

definition rpcReply :: "gostring \<Rightarrow> answer \<Rightarrow> daemon \<Rightarrow> Reply \<times> daemon" where
  "rpcReply method val d =
     (if an_code val \<noteq> 0 then rpcError (an_code val) (an_data val) d
      else if \<not> d_valid d method (an_value val) then rpcError Internal (Some (DText ''invalid result'')) d
      else (\<lparr>rp_Result = an_value val, rp_Error = None, rp_Trace = None\<rparr>, d))"

definition traceReply :: "gostring \<Rightarrow> answer \<Rightarrow> session \<Rightarrow> daemon \<Rightarrow> Reply \<times> session \<times> daemon" where
  "traceReply method val s d =
     (let (reply, d1) = rpcReply method val d;
          reply' = (if s_traceCollect s \<and> s_traceCopy s = None \<and> method = ''message.send''
                    then reply\<lparr>rp_Trace := Some (s_traceTargets s)\<rparr> else reply);
          (s2, d2) = releaseTraceTargets s d1
      in (reply', s2, d2))"

definition sendForwarded :: "ptr \<Rightarrow> gostring \<Rightarrow> answer \<Rightarrow> session \<Rightarrow> daemon \<Rightarrow> session \<times> daemon" where
  "sendForwarded ch method val s d =
     (let (reply, s1, d1) = traceReply method val s d
      in (s1, d1\<lparr>d_fedReplies := d_fedReplies d1 @ [(ch, reply)]\<rparr>))"

text \<open>What \<open>reject\<close>, \<open>result\<close> and \<open>error\<close> start with.\<close>

definition settleFrame :: "Frame \<Rightarrow> result option \<Rightarrow> int \<Rightarrow> session \<Rightarrow> daemon \<Rightarrow> session \<times> daemon" where
  "settleFrame frame val code s d =
     (let (s1, d1) = logResult frame val code s d in finishTrace frame val code [] s1 d1)"

definition reject :: "Frame \<Rightarrow> int \<Rightarrow> session \<Rightarrow> daemon \<Rightarrow> session \<times> daemon" where
  "reject frame code s d =
     (let (s1, d1) = settleFrame frame None code s d in
      case s_forwarded s1 of
        Some ch \<Rightarrow> sendForwarded ch (fr_Method frame) (codeAnswer code) s1 d1
      | None \<Rightarrow>
          let s2 = s1\<lparr>s_stopping := True\<rparr> in
          if fr_Request frame \<and> fr_ID frame > 0
          then let (ok, d2) = finishWire s2 (OError (fr_ID frame) code None) d1
               in if ok then (s2, d2) else (s2, closeWire (s_self s2) d2)
          else (s2, closeWire (s_self s2) d1))"

definition writeFrame :: "outframe \<Rightarrow> session \<Rightarrow> daemon \<Rightarrow> bool \<times> daemon" where
  "writeFrame f s d = (if d_encodes d f then sendWire s f d else (False, d))"

definition writeOrClose :: "outframe \<Rightarrow> session \<Rightarrow> daemon \<Rightarrow> daemon" where
  "writeOrClose f s d = (let (ok, d1) = writeFrame f s d in if ok then d1 else closeWire (s_self s) d1)"

definition result_reply :: "Frame \<Rightarrow> result \<Rightarrow> session \<Rightarrow> daemon \<Rightarrow> session \<times> daemon" where
  "result_reply frame val s d =
     (let (s1, d1) = settleFrame frame (Some val) 0 s d in
      case s_forwarded s1 of
        Some ch \<Rightarrow> sendForwarded ch (fr_Method frame) (okAnswer val) s1 d1
      | None \<Rightarrow> (s1, writeOrClose (OResult (fr_ID frame) (fr_Method frame) val) s1 d1))"

definition error_reply :: "Frame \<Rightarrow> int \<Rightarrow> errdata option \<Rightarrow> session \<Rightarrow> daemon \<Rightarrow> session \<times> daemon" where
  "error_reply frame code data s d =
     (let (s1, d1) = settleFrame frame None code s d in
      case s_forwarded s1 of
        Some ch \<Rightarrow> sendForwarded ch (fr_Method frame) ((codeAnswer code)\<lparr>an_data := data\<rparr>) s1 d1
      | None \<Rightarrow> (s1, writeOrClose (OError (fr_ID frame) code data) s1 d1))"

section \<open>Runs and their deadline\<close>

definition stopAutoClose :: "session \<Rightarrow> session" where
  "stopAutoClose s = s\<lparr>s_stopAuto := False, s_autoClose := None\<rparr>"

text \<open>A time is a number of nanoseconds, 0 the zero time.\<close>

definition setDeadline :: "nat \<Rightarrow> session \<Rightarrow> daemon \<Rightarrow> session" where
  "setDeadline at s d =
     (let s1 = (stopAutoClose s)\<lparr>s_deadline := at\<rparr> in
      if at = 0 then s1 else s1\<lparr>s_autoClose := Some (int at - int (d_now d)), s_stopAuto := True\<rparr>)"

definition reserveRun :: "session \<Rightarrow> daemon \<Rightarrow> gostring \<times> session \<times> daemon" where
  "reserveRun s d =
     (let s1 = setDeadline 0 (s\<lparr>s_runFromTrace := False, s_runFromCompletion := False,
                               s_previousDeadline := s_deadline s\<rparr>) d;
          (gen, d1) = (if s_runGeneration s1 = [] then drawID ''run'' d else (s_runGeneration s1, d));
          seq = s_runSequence s1 + 1;
          runID = gen @ CHR ''/'' # formatUint (unat seq)
      in (runID, s1\<lparr>s_runGeneration := gen, s_runSequence := seq, s_runID := runID\<rparr>, d1))"

definition refuseRun :: "gostring \<Rightarrow> session \<Rightarrow> daemon \<Rightarrow> session \<times> daemon" where
  "refuseRun runID s d =
     (if s_runID s \<noteq> runID then (s, d)
      else
        let s1 = s\<lparr>s_runID := [], s_runFromTrace := False, s_runFromCompletion := False,
                   s_runSequence := s_runSequence s - 1\<rparr>;
            d1 = finishRun (s_identity s) (s_self s) d
        in (setDeadline (s_previousDeadline s1) s1 d1, d1))"

definition hasRunCapacity :: "session \<Rightarrow> bool" where
  "hasRunCapacity s \<longleftrightarrow>
     s_runSequence s - s_acknowledgedSequence s + word_of_nat (length (s_deferredDeliveries s)) < 256"

definition identityRow :: "session \<Rightarrow> daemon \<Rightarrow> row" where
  "identityRow s d = (case s_identity s of None \<Rightarrow> e_row zeroEntry | Some p \<Rightarrow> e_row (h_entry d p))"

definition recordAcknowledgment :: "RunRef \<Rightarrow> session \<Rightarrow> daemon \<Rightarrow> session" where
  "recordAcknowledgment ref s d =
     (let (generation, suf, ok) = cut (rr_RunID ref) CHR ''/'' in
      case parseUint suf of
        None \<Rightarrow> s
      | Some n \<Rightarrow>
          let sequence = word_of_nat n in
          if ok \<and> generation = s_runGeneration s \<and> rr_SessionID ref = r_SessionID (identityRow s d)
             \<and> sequence \<le> s_runSequence s \<and> s_acknowledgedSequence s < sequence
          then s\<lparr>s_acknowledgedSequence := sequence\<rparr> else s)"

section \<open>Stopping\<close>

definition signalChild :: "ptr option \<Rightarrow> stop_signal \<Rightarrow> daemon \<Rightarrow> daemon" where
  "signalChild child signal d = (case child of None \<Rightarrow> d | Some p \<Rightarrow> d\<lparr>d_signals := d_signals d @ [(p, signal)]\<rparr>)"

definition recordStop :: "stop_signal \<Rightarrow> session \<Rightarrow> daemon \<Rightarrow> session \<times> daemon" where
  "recordStop signal s d =
     (let s1 = s\<lparr>s_stopping := True,
                 s_stopSignal := (if s_stopSignal s = NoSignal \<or> signal = SIGKILL then signal else s_stopSignal s)\<rparr>;
          d1 = closeWire (s_self s) d
      in (s1, signalChild (s_child s1) (s_stopSignal s1) d1))"

definition orderlyStop :: "session \<Rightarrow> daemon \<Rightarrow> session \<times> daemon" where
  "orderlyStop s d =
     (let (s1, d1) = recordStop SIGTERM s d
      in (if \<not> s_processExited s1 \<and> \<not> s_closeTimer s1 then s1\<lparr>s_closeTimer := True\<rparr> else s1, d1))"

definition hardStop :: "session \<Rightarrow> daemon \<Rightarrow> session \<times> daemon" where
  "hardStop s d = recordStop SIGKILL s d"

definition abortLaunch :: "answer \<Rightarrow> session \<Rightarrow> session" where
  "abortLaunch val s = (if s_launchResult s \<noteq> None \<or> s_committed s then s else s\<lparr>s_launchResult := Some val\<rparr>)"

text \<open>\<open>failure\<close>: the data of a failed spawn; \<open>Details\<close> of a child that has not ended is empty.\<close>

definition failure :: "ptr option \<Rightarrow> gostring \<Rightarrow> daemon \<Rightarrow> errdata" where
  "failure child message d =
     (case child of
        None \<Rightarrow> DSpawnFailed \<lparr>sf_ExitCode = None, sf_StderrTail = [message]\<rparr>
      | Some p \<Rightarrow>
          let c = h_child d p;
              (stderr, exit) = (if p_done c then (p_stderr c, p_exit c) else ([], - 1))
          in DSpawnFailed \<lparr>sf_ExitCode = (if exit \<ge> 0 then Some exit else None), sf_StderrTail = stderr @ [message]\<rparr>)"

section \<open>Requests routed to the session\<close>

text \<open>
  \<open>answerRouted\<close>: a request that was scheduled for a later run has been answered already; its
  outcome is only logged.
\<close>

definition scheduledEvent :: "routedRequest \<Rightarrow> DeliveryRequest \<Rightarrow> answer \<Rightarrow> session \<Rightarrow> daemon \<Rightarrow> Event" where
  "scheduledEvent request input val s d =
     (let from = dq_From input;
          ev = zeroEvent\<lparr>ev_Type := ''lifecycle'', ev_Method := ''message.deliver'', ev_MessageID := dq_MessageID input,
                 ev_RunID := q_runID request, ev_State := ''settled'',
                 ev_From := Some (endpoint (ds_SessionID from) (ds_Name from) (ds_Product from) (ds_Groups from)),
                 ev_To := Some (logCaller s d), ev_ErrorCode := an_code val\<rparr>
      in case an_value val of
           Some (VReceipt r) \<Rightarrow>
             ev\<lparr>ev_Type := ''receipt'',
                ev_Receipt := Some \<lparr>lc_DeliveryID = [], lc_Disposition = dr_Disposition r, lc_Reason = dr_Reason r\<rparr>\<rparr>
         | _ \<Rightarrow> ev\<lparr>ev_Outcome := (if q_runID request \<noteq> [] then ''no_receipt'' else ''not_submitted'')\<rparr>)"

definition answerRouted :: "routedRequest \<Rightarrow> answer \<Rightarrow> session \<Rightarrow> daemon \<Rightarrow> daemon" where
  "answerRouted request val s d =
     (if \<not> q_scheduled request then sendAnswer (q_reply request) val d
      else case q_params request of
             PDeliver input \<Rightarrow> logEvent (scheduledEvent request input val s d) d
           | _ \<Rightarrow> panic d)"

definition settleDeferredDeliveries :: "int \<Rightarrow> session \<Rightarrow> daemon \<Rightarrow> session \<times> daemon" where
  "settleDeferredDeliveries code s d =
     (s\<lparr>s_deferredDeliveries := []\<rparr>,
      fold (\<lambda>request. answerRouted request (codeAnswer code) s) (s_deferredDeliveries s) d)"

text \<open>One round of the loop of \<open>settlePending\<close>.\<close>

definition settleOne :: "int \<Rightarrow> session \<Rightarrow> routedRequest \<Rightarrow> daemon \<Rightarrow> daemon" where
  "settleOne code s request d =
     (let d1 = (if q_method request = ''turn.run'' then finishRun (s_identity s) (s_self s) d else d) in
      if (case s_closeCall s of None \<Rightarrow> False | Some c \<Rightarrow> q_reply request = q_reply c) then d1
      else answerRouted request (codeAnswer code) s d1)"

definition settlePending :: "int \<Rightarrow> session \<Rightarrow> daemon \<Rightarrow> session \<times> daemon" where
  "settlePending code s d =
     (let (s1, d1) = settleDeferredDeliveries code s d
      in (s1\<lparr>s_pending := []\<rparr>, fold (settleOne code s1) (map snd (s_pending s1)) d1))"

subsection \<open>Closing\<close>

definition writeDeferredClose :: "session \<Rightarrow> daemon \<Rightarrow> session \<times> daemon" where
  "writeDeferredClose s d =
     (case s_closeCall s of
        None \<Rightarrow> (s, d)
      | Some request \<Rightarrow>
          if s_closed s \<or> s_stopping s then (s, d)
          else if list_ex (\<lambda>(k, q). q_method q = ''session.close'' \<or> q_method q = ''turn.execute'' \<and> q_collect q) (s_pending s)
          then (s, d)
          else
            let n = s_nextOut s + 1;
                s1 = s\<lparr>s_nextOut := n\<rparr>;
                (ok, d1) = writeFrame (ORequest n ''session.close'' (q_params request)) s1 d
            in if \<not> ok then hardStop s1 d1
               else case s_identity s1 of
                      None \<Rightarrow> (s1, panic d1)
                    | Some p \<Rightarrow> (s1\<lparr>s_pending := gm_set n request (s_pending s1)\<rparr>, admitted p (q_method request) d1))"

definition beginClose :: "routedRequest \<Rightarrow> session \<Rightarrow> daemon \<Rightarrow> session \<times> daemon" where
  "beginClose request s d =
     (let (s1, d1) = settleDeferredDeliveries Busy (stopAutoClose s) d;
          s2 = s1\<lparr>s_closeCall := Some request, s_closeTimer := True\<rparr>
      in case q_params request of
           PClose c \<Rightarrow> writeDeferredClose (s2\<lparr>s_forget := sc_Forget c\<rparr>) d1
         | _ \<Rightarrow> (s2, panic d1))"

definition finishCloseResponse :: "Frame \<Rightarrow> session \<Rightarrow> daemon \<Rightarrow> session \<times> daemon" where
  "finishCloseResponse frame s d =
     (if fr_Error frame \<noteq> None then (s, closeWire (s_self s) d)
      else if DecodeResult ''session.close'' (fr_Result frame) = None then (s, closeWire (s_self s) d)
      else orderlyStop s d)"

definition policyClose :: "session \<Rightarrow> daemon \<Rightarrow> session \<times> daemon" where
  "policyClose s d =
     (if s_stopping s \<or> s_closeCall s \<noteq> None \<or> \<not> s_committed s then (s, d)
      else case s_identity s of
             None \<Rightarrow> (s, panic d)
           | Some p \<Rightarrow>
               let (reply, d1) = newChan d;
                   params = PClose \<lparr>sc_SessionID = r_SessionID (e_row (h_entry d1 p)), sc_Forget = False\<rparr>
               in beginClose ((newRequest ''session.close'' params reply)\<lparr>q_destination := Some p\<rparr>) (stopAutoClose s) d1)"

definition ownerEnded :: "ptr \<Rightarrow> session \<Rightarrow> daemon \<Rightarrow> session \<times> daemon" where
  "ownerEnded owner s d =
     (case s_identity s of
        None \<Rightarrow> (s, panic d)
      | Some p \<Rightarrow>
          if e_parent (h_entry d p) \<noteq> Some owner then (s, d)
          else case r_Policy (e_row (h_entry d p)) of
                 None \<Rightarrow> (s, panic d)
               | Some policy \<Rightarrow>
                   if lp_Persistent policy then (s, d)
                   else if ow_ended (h_owner d owner) then policyClose s d else (s, d))"

subsection \<open>Issuing a request\<close>

text \<open>The end of \<open>issue\<close>: writing the request and recording it as pending.\<close>

definition issueSend :: "routedRequest \<Rightarrow> session \<Rightarrow> daemon \<Rightarrow> session \<times> daemon" where
  "issueSend request s d =
     (let n = s_nextOut s + 1;
          s1 = s\<lparr>s_nextOut := n\<rparr>;
          (ok, d1) = writeFrame (ORequest n (q_method request) (q_params request)) s1 d
      in if \<not> ok
         then let (s2, d2) = (if q_runID request \<noteq> [] then refuseRun (q_runID request) s1 d1 else (s1, d1))
              in (s2, answerRouted request (codeAnswer NotConnected) s2 d2)
         else
           let d2 = (if q_runID request \<noteq> []
                     then logRun (q_method request) (q_runID request) ''running'' [] s1
                            (case s_identity s1 of None \<Rightarrow> panic d1 | Some p \<Rightarrow> admitted p ''turn.execute'' d1)
                     else d1)
           in (s1\<lparr>s_pending := gm_set n request (s_pending s1)\<rparr>, d2))"

text \<open>The worker sees its canonical identifier.\<close>

definition canonicalParams :: "gostring \<Rightarrow> params \<Rightarrow> params" where
  "canonicalParams sid ps =
     (case ps of
        PRead i \<Rightarrow> PRead (i\<lparr>rq_SessionID := sid\<rparr>)
      | PWait i \<Rightarrow> PWait (i\<lparr>wq_SessionID := sid\<rparr>)
      | PRunRef i \<Rightarrow> PRunRef (i\<lparr>rr_SessionID := sid\<rparr>)
      | _ \<Rightarrow> ps)"

definition issueCanonical :: "gostring \<Rightarrow> routedRequest \<Rightarrow> session \<Rightarrow> daemon \<Rightarrow> session \<times> daemon" where
  "issueCanonical sid request s d = issueSend (request\<lparr>q_params := canonicalParams sid (q_params request)\<rparr>) s d"

definition asExecute :: "routedRequest \<Rightarrow> routedRequest" where
  "asExecute request =
     (if q_method request = ''turn.start'' \<or> q_method request = ''turn.run''
      then request\<lparr>q_method := ''turn.execute'', q_collect := (q_method request = ''turn.run'')\<rparr> else request)"

definition issue :: "routedRequest \<Rightarrow> session \<Rightarrow> daemon \<Rightarrow> session \<times> daemon" where
  "issue request0 s d =
     (let busy = (s, answerRouted request0 (codeAnswer Busy) s d) in
      if s_closeCall s \<noteq> None \<and> \<not> q_collect request0 then busy
      else if length (s_pending s) + length (s_deferredDeliveries s) \<ge> 256 then busy
      else
        let request = asExecute request0; refused = \<lambda>code. (s, answerRouted request (codeAnswer code) s d) in
        case s_identity s of
          None \<Rightarrow> (s, panic d)
        | Some p \<Rightarrow>
            let code = admit p (s_self s) (q_method request) d;
                sid = r_SessionID (e_row (h_entry d p));
                seeds = (q_method request0 = ''message.deliver'' \<and> \<not> e_peer (h_entry d p) \<and> s_runID s = [])
            in if code \<noteq> 0 then refused code
               else if q_method request0 = ''session.close'' then beginClose request s d
               else if (q_method request = ''turn.execute'' \<or> seeds) \<and> \<not> hasRunCapacity s then refused Busy
               else if q_method request = ''turn.execute''
               then (case q_params request of
                       PRun input \<Rightarrow>
                         let (runID, s1, d1) = reserveRun s d
                         in issueCanonical sid (request\<lparr>q_runID := runID, q_params := PExecute
                              \<lparr>ex_SessionID = sid, ex_RunID = runID, ex_Input = tq_Input input\<rparr>\<rparr>) s1 d1
                     | _ \<Rightarrow> (s, panic d))
               else if seeds
               then (if s_closeCall s \<noteq> None then refused Busy
                     else case q_params request of
                            PDeliver input \<Rightarrow>
                              let (runID, s1, d1) = reserveRun s d
                              in issueCanonical sid
                                   (request\<lparr>q_runID := runID, q_params := PDeliver (input\<lparr>dq_RunID := runID\<rparr>)\<rparr>)
                                   (s1\<lparr>s_runFromTrace := q_traceCopy request, s_runFromCompletion := q_completion request\<rparr>) d1
                          | _ \<Rightarrow> (s, panic d))
               else issueCanonical sid request s d)"

text \<open>The outcomes of issuing a request, as rules to reason about it.\<close>

lemma issueSend_rule:
  assumes "\<And>d1 d2. writeFrame (ORequest (s_nextOut s + 1) (q_method q) (q_params q)) (s\<lparr>s_nextOut := s_nextOut s + 1\<rparr>) d = (True, d1) \<Longrightarrow>
      d2 = (if q_runID q \<noteq> []
            then logRun (q_method q) (q_runID q) ''running'' [] (s\<lparr>s_nextOut := s_nextOut s + 1\<rparr>)
                   (case s_identity s of None \<Rightarrow> panic d1 | Some p \<Rightarrow> admitted p ''turn.execute'' d1) else d1) \<Longrightarrow>
      P (s\<lparr>s_nextOut := s_nextOut s + 1, s_pending := gm_set (s_nextOut s + 1) q (s_pending s)\<rparr>, d2)"
    and "\<And>d1 s2 d2. writeFrame (ORequest (s_nextOut s + 1) (q_method q) (q_params q)) (s\<lparr>s_nextOut := s_nextOut s + 1\<rparr>) d = (False, d1) \<Longrightarrow>
      (s2, d2) = (if q_runID q \<noteq> [] then refuseRun (q_runID q) (s\<lparr>s_nextOut := s_nextOut s + 1\<rparr>) d1
                  else (s\<lparr>s_nextOut := s_nextOut s + 1\<rparr>, d1)) \<Longrightarrow>
      P (s2, answerRouted q (codeAnswer NotConnected) s2 d2)"
  shows "P (issueSend q s d)"
proof -
  let ?s1 = "s\<lparr>s_nextOut := s_nextOut s + 1\<rparr>"
  obtain ok d1 where w: "writeFrame (ORequest (s_nextOut s + 1) (q_method q) (q_params q)) ?s1 d = (ok, d1)"
    by (cases "writeFrame (ORequest (s_nextOut s + 1) (q_method q) (q_params q)) ?s1 d")
  show ?thesis
  proof (cases ok)
    case True
    from assms(1)[of d1, OF _ refl] w True show ?thesis
      by (cases "q_runID q = []") (simp_all add: issueSend_def Let_def)
  next
    case False
    obtain s2 d2 where r: "(s2, d2) = (if q_runID q \<noteq> [] then refuseRun (q_runID q) ?s1 d1 else (?s1, d1))"
      by (cases "if q_runID q \<noteq> [] then refuseRun (q_runID q) ?s1 d1 else (?s1, d1)") auto
    have "P (s2, answerRouted q (codeAnswer NotConnected) s2 d2)"
      using assms(2)[OF _ r] w False by simp
    moreover have "issueSend q s d = (s2, answerRouted q (codeAnswer NotConnected) s2 d2)"
      unfolding issueSend_def Let_def using w False r[symmetric] by simp
    ultimately show ?thesis by simp
  qed
qed

lemma asExecute_fields [simp]:
  "q_scheduled (asExecute q) = q_scheduled q" "q_reply (asExecute q) = q_reply q" "q_params (asExecute q) = q_params q"
  "q_runID (asExecute q) = q_runID q" "q_destination (asExecute q) = q_destination q"
  by (simp_all add: asExecute_def)

lemma answerRouted_asExecute [simp]: "answerRouted (asExecute q) val s d = answerRouted q val s d"
  unfolding answerRouted_def scheduledEvent_def asExecute_fields ..

definition seeding :: "routedRequest \<Rightarrow> session \<Rightarrow> daemon \<Rightarrow> bool" where
  "seeding q s d \<longleftrightarrow> q_method q = ''message.deliver'' \<and> s_runID s = []
     \<and> (case s_identity s of None \<Rightarrow> False | Some p \<Rightarrow> \<not> e_peer (h_entry d p))"

definition has_room :: "routedRequest \<Rightarrow> session \<Rightarrow> bool" where
  "has_room q s \<longleftrightarrow> length (s_pending s) + length (s_deferredDeliveries s) < 256 \<and> (s_closeCall s = None \<or> q_collect q)"

lemma issue_rule:
  assumes "\<And>c. c \<noteq> 0 \<Longrightarrow> P (s, answerRouted q (codeAnswer c) s d)"
    and "s_identity s = None \<or> q_method (asExecute q) = ''turn.execute'' \<and> (\<forall>i. q_params q \<noteq> PRun i)
        \<or> q_method q = ''message.deliver'' \<and> (\<forall>i. q_params q \<noteq> PDeliver i) \<Longrightarrow> P (s, panic d)"
    and "has_room q s \<Longrightarrow> q_method q = ''session.close'' \<Longrightarrow> P (beginClose q s d)"
    and "\<And>i sid runID s1 d1. has_room q s \<Longrightarrow> q_method (asExecute q) = ''turn.execute'' \<Longrightarrow> q_params q = PRun i \<Longrightarrow>
        hasRunCapacity s \<Longrightarrow> reserveRun s d = (runID, s1, d1) \<Longrightarrow>
        P (issueSend ((asExecute q)\<lparr>q_runID := runID,
             q_params := PExecute \<lparr>ex_SessionID = sid, ex_RunID = runID, ex_Input = tq_Input i\<rparr>\<rparr>) s1 d1)"
    and "\<And>i runID s1 d1. has_room q s \<Longrightarrow> seeding q s d \<Longrightarrow> q_params q = PDeliver i \<Longrightarrow> s_closeCall s = None \<Longrightarrow>
        hasRunCapacity s \<Longrightarrow> reserveRun s d = (runID, s1, d1) \<Longrightarrow>
        P (issueSend (q\<lparr>q_runID := runID, q_params := PDeliver (i\<lparr>dq_RunID := runID\<rparr>)\<rparr>)
             (s1\<lparr>s_runFromTrace := q_traceCopy q, s_runFromCompletion := q_completion q\<rparr>) d1)"
    and "\<And>sid. has_room q s \<Longrightarrow> q_method (asExecute q) \<noteq> ''turn.execute'' \<Longrightarrow> q_method q \<noteq> ''session.close'' \<Longrightarrow> \<not> seeding q s d \<Longrightarrow>
        P (issueSend (q\<lparr>q_params := canonicalParams sid (q_params q)\<rparr>) s d)"
  shows "P (issue q s d)"
proof (cases "(s_closeCall s \<noteq> None \<and> \<not> q_collect q) \<or> length (s_pending s) + length (s_deferredDeliveries s) \<ge> 256")
  case True
  then have "issue q s d = (s, answerRouted q (codeAnswer Busy) s d)" by (auto simp: issue_def Let_def)
  with assms(1)[of Busy] show ?thesis by simp
next
  case False
  then have room: "has_room q s" by (auto simp: has_room_def)
  from False have g: "\<not> (s_closeCall s \<noteq> None \<and> \<not> q_collect q)"
    "\<not> length (s_pending s) + length (s_deferredDeliveries s) \<ge> 256" by blast+
  note unfold = issue_def Let_def if_not_P[OF g(1)] if_not_P[OF g(2)]
  show ?thesis
  proof (cases "s_identity s")
    case None
    with assms(2) show ?thesis unfolding unfold by simp
  next
    case (Some p)
    have seed: "seeding q s d \<longleftrightarrow> q_method q = ''message.deliver'' \<and> \<not> e_peer (h_entry d p) \<and> s_runID s = []"
      using Some by (auto simp: seeding_def)
    let ?x = "q_method (asExecute q) = ''turn.execute''"
    have xs: "\<not> (?x \<and> seeding q s d)" by (auto simp: seed asExecute_def)
    have ex: "asExecute q = q" if "\<not> ?x" using that by (auto simp: asExecute_def split: if_splits)
    let ?code = "admit p (s_self s) (q_method (asExecute q)) d"
    let ?sid = "r_SessionID (e_row (h_entry d p))"
    consider (refused) c where "c \<noteq> 0" "issue q s d = (s, answerRouted q (codeAnswer c) s d)"
      | (close) "q_method q = ''session.close''" "issue q s d = beginClose q s d"
      | (run) "?code = 0" "q_method q \<noteq> ''session.close''" "?x" "hasRunCapacity s"
      | (deliver) "?code = 0" "q_method q \<noteq> ''session.close''" "\<not> ?x" "seeding q s d" "s_closeCall s = None" "hasRunCapacity s"
      | (plain) "?code = 0" "q_method q \<noteq> ''session.close''" "\<not> ?x" "\<not> seeding q s d"
    proof (cases "?code = 0")
      case c: False
      then have "issue q s d = (s, answerRouted q (codeAnswer ?code) s d)"
        using Some unfolding unfold by simp
      with c show thesis by (rule refused)
    next
      case c: True
      show thesis
      proof (cases "q_method q = ''session.close''")
        case True
        then have "asExecute q = q" by (simp add: asExecute_def)
        with True have "issue q s d = beginClose q s d" using Some c unfolding unfold by simp
        with True show thesis by (rule close)
      next
        case nc: False
        have busy: "issue q s d = (s, answerRouted q (codeAnswer Busy) s d)"
          if "(?x \<or> seeding q s d) \<and> \<not> hasRunCapacity s \<or> \<not> ?x \<and> seeding q s d \<and> s_closeCall s \<noteq> None"
          using that Some c nc unfolding unfold by (auto simp: seed)
        show thesis
        proof (cases "(?x \<or> seeding q s d) \<and> \<not> hasRunCapacity s \<or> \<not> ?x \<and> seeding q s d \<and> s_closeCall s \<noteq> None")
          case True
          from refused[of Busy] busy[OF True] show thesis by simp
        next
          case False
          then show thesis using run[OF c nc] deliver[OF c nc] plain[OF c nc] by blast
        qed
      qed
    qed
    then show ?thesis
    proof cases
      case refused
      then show ?thesis using assms(1) by simp
    next
      case close
      then show ?thesis using assms(3)[OF room] by simp
    next
      case run
      obtain runID s1 d1 where r: "reserveRun s d = (runID, s1, d1)" by (cases "reserveRun s d")
      show ?thesis
      proof (cases "q_params q")
        case (PRun i)
        then have "issue q s d = issueSend ((asExecute q)\<lparr>q_runID := runID,
             q_params := PExecute \<lparr>ex_SessionID = ?sid, ex_RunID = runID, ex_Input = tq_Input i\<rparr>\<rparr>) s1 d1"
          using Some run r unfolding unfold by (simp add: issueCanonical_def canonicalParams_def)
        then show ?thesis using assms(4)[OF room run(3) PRun run(4) r] by simp
      qed (unfold unfold, insert Some run assms(2), simp_all)
    next
      case deliver
      obtain runID s1 d1 where r: "reserveRun s d = (runID, s1, d1)" by (cases "reserveRun s d")
      from deliver(4) have m: "q_method q = ''message.deliver''" by (simp add: seeding_def)
      show ?thesis
      proof (cases "q_params q")
        case (PDeliver i)
        then have "issue q s d = issueSend (q\<lparr>q_runID := runID, q_params := PDeliver (i\<lparr>dq_RunID := runID\<rparr>)\<rparr>)
             (s1\<lparr>s_runFromTrace := q_traceCopy q, s_runFromCompletion := q_completion q\<rparr>) d1"
          using Some deliver r seed ex[OF deliver(3)] unfolding unfold by (simp add: issueCanonical_def canonicalParams_def)
        then show ?thesis using assms(5)[OF room deliver(4) PDeliver deliver(5,6) r] by simp
      qed (unfold unfold, insert Some deliver seed m assms(2) ex[OF deliver(3)], simp_all)
    next
      case plain
      then have "issue q s d = issueSend (q\<lparr>q_params := canonicalParams ?sid (q_params q)\<rparr>) s d"
        using Some ex[OF plain(3)] unfolding unfold by (simp add: issueCanonical_def flip: seed)
      then show ?thesis using assms(6)[OF room plain(3,2,4)] by simp
    qed
  qed
qed

text \<open>Issuing never queues a delivery, so the loop below ends.\<close>

lemma setDeadline_deferred [simp]: "s_deferredDeliveries (setDeadline at s d) = s_deferredDeliveries s"
  by (simp add: setDeadline_def stopAutoClose_def Let_def)

lemma refuseRun_deferred [simp]: "s_deferredDeliveries (fst (refuseRun r s d)) = s_deferredDeliveries s"
  by (simp add: refuseRun_def Let_def)

lemma reserveRun_deferred: "reserveRun s d = (r, s1, d1) \<Longrightarrow> s_deferredDeliveries s1 = s_deferredDeliveries s"
  by (auto simp: reserveRun_def Let_def split: prod.splits)

lemma issueSend_deferred [simp]: "s_deferredDeliveries (fst (issueSend q s d)) = s_deferredDeliveries s"
proof (rule issueSend_rule)
  fix d1 s2 d2
  let ?s1 = "s\<lparr>s_nextOut := s_nextOut s + 1\<rparr>"
  assume e: "(s2, d2) = (if q_runID q \<noteq> [] then refuseRun (q_runID q) ?s1 d1 else (?s1, d1))"
  have "s2 = fst (if q_runID q \<noteq> [] then refuseRun (q_runID q) ?s1 d1 else (?s1, d1))" by (simp flip: e)
  then show "s_deferredDeliveries (fst (s2, answerRouted q (codeAnswer NotConnected) s2 d2)) = s_deferredDeliveries s"
    by simp
qed simp

lemma writeDeferredClose_deferred [simp]:
  "s_deferredDeliveries (fst (writeDeferredClose s d)) = s_deferredDeliveries s"
  by (auto simp: writeDeferredClose_def hardStop_def recordStop_def Let_def split: option.splits prod.splits)

lemma beginClose_deferred: "s_deferredDeliveries (fst (beginClose q s d)) = []"
  by (auto simp: beginClose_def settleDeferredDeliveries_def Let_def split: params.splits)

lemma issue_deferred_le: "length (s_deferredDeliveries (fst (issue q s d))) \<le> length (s_deferredDeliveries s)"
  by (rule issue_rule) (simp_all add: beginClose_deferred reserveRun_deferred)

function startDeferredDelivery :: "session \<Rightarrow> daemon \<Rightarrow> session \<times> daemon" where
  "startDeferredDelivery s d =
     (if s_runID s \<noteq> [] then (s, d)
      else case s_deferredDeliveries s of
             [] \<Rightarrow> (s, d)
           | request # rest \<Rightarrow>
               let x = issue request (s\<lparr>s_deferredDeliveries := rest\<rparr>) d
               in startDeferredDelivery (fst x) (snd x))"
  by pat_completeness auto
termination
proof (relation "measure (\<lambda>(s, d). length (s_deferredDeliveries s))")
  show "wf (measure (\<lambda>(s, d). length (s_deferredDeliveries s)))" by simp
  fix s d request rest x
  assume "s_deferredDeliveries s = request # rest" "x = issue request (s\<lparr>s_deferredDeliveries := rest\<rparr>) d"
  then show "((fst x, snd x), s, d) \<in> measure (\<lambda>(s, d). length (s_deferredDeliveries s))"
    using issue_deferred_le[of request "s\<lparr>s_deferredDeliveries := rest\<rparr>" d] by (simp add: split_beta)
qed

declare startDeferredDelivery.simps [simp del]

subsection \<open>The worker's response\<close>

definition refusedResponse :: "routedRequest \<Rightarrow> RPCError \<Rightarrow> session \<Rightarrow> daemon \<Rightarrow> session \<times> daemon" where
  "refusedResponse request err s d =
     (let (s1, d1) = (if q_runID request \<noteq> [] \<and> (q_method request = ''turn.execute'' \<or> er_Code err \<noteq> Internal)
                      then refuseRun (q_runID request) s d else (s, d))
      in startDeferredDelivery s1 (answerRouted request (errorAnswer err) s1 d1))"

text \<open>A delivery the worker refuses before any native write waits for a run of its own.\<close>

definition queuedReceipt :: answer where
  "queuedReceipt = okAnswer (VReceipt \<lparr>dr_Disposition = ''queued_for_next_turn'', dr_Reason = []\<rparr>)"

definition deferDelivery :: "routedRequest \<Rightarrow> session \<Rightarrow> daemon \<Rightarrow> session \<times> daemon" where
  "deferDelivery request s d =
     (if s_runID s = [] then issue request s d
      else if \<not> hasRunCapacity s then (s, answerRouted request (codeAnswer Busy) s d)
      else (s\<lparr>s_deferredDeliveries := s_deferredDeliveries s @ [request\<lparr>q_scheduled := True, q_reply := None\<rparr>]\<rparr>,
            answerRouted request queuedReceipt s d))"

definition executeResponse :: "routedRequest \<Rightarrow> RunRef \<Rightarrow> session \<Rightarrow> daemon \<Rightarrow> session \<times> daemon" where
  "executeResponse request ref s d =
     (if rr_RunID ref \<noteq> q_runID request \<or> rr_SessionID ref \<noteq> r_SessionID (identityRow s d)
      then let d1 = closeWire (s_self s) d in (s, answerRouted request (codeAnswer NotConnected) s d1)
      else if q_collect request
      then issue (request\<lparr>q_method := ''turn.wait'', q_runID := [],
                          q_params := PWait \<lparr>wq_SessionID = rr_SessionID ref, wq_RunID = rr_RunID ref, wq_TimeoutMS = None\<rparr>\<rparr>) s d
      else (s, answerRouted request (okAnswer (VRunRef ref)) s d))"

definition valueResponse :: "routedRequest \<Rightarrow> result \<Rightarrow> session \<Rightarrow> daemon \<Rightarrow> session \<times> daemon" where
  "valueResponse request val s d =
     (if q_method request = ''turn.execute''
      then (case val of VRunRef ref \<Rightarrow> executeResponse request ref s d | _ \<Rightarrow> (s, panic d))
      else if q_method request = ''turn.ack''
      then (case q_params request of
              PRunRef ref \<Rightarrow> let s1 = recordAcknowledgment ref s d in (s1, answerRouted request (okAnswer val) s1 d)
            | _ \<Rightarrow> (s, panic d))
      else (s, answerRouted request (okAnswer val) s d))"

definition handleResponse :: "routedRequest \<Rightarrow> Frame \<Rightarrow> session \<Rightarrow> daemon \<Rightarrow> session \<times> daemon" where
  "handleResponse request frame s d =
     (if q_destination request \<noteq> s_identity s \<or> \<not> current (q_destination request) (s_self s) d
      then (s, answerRouted request (codeAnswer NotConnected) s d)
      else if q_method request = ''session.close'' then finishCloseResponse frame s d
      else case fr_Error frame of
        Some err \<Rightarrow>
          if er_Code err = NotRunning \<and> q_method request = ''message.deliver'' \<and> q_runID request = []
             \<and> (case s_identity s of None \<Rightarrow> False | Some p \<Rightarrow> \<not> e_peer (h_entry d p)) \<and> s_closeCall s = None
          then deferDelivery request s d
          else refusedResponse request err s d
      | None \<Rightarrow>
          (case DecodeResult (q_method request) (fr_Result frame) of
             None \<Rightarrow> let d1 = closeWire (s_self s) d in (s, answerRouted request (codeAnswer NotConnected) s d1)
           | Some val \<Rightarrow> valueResponse request val s d))"

definition receiveResponse :: "Frame \<Rightarrow> session \<Rightarrow> daemon \<Rightarrow> session \<times> daemon" where
  "receiveResponse frame s d =
     (case gm_get (s_pending s) (fr_ID frame) of
        None \<Rightarrow> (s\<lparr>s_stopping := True\<rparr>, closeWire (s_self s) d)
      | Some request \<Rightarrow>
          let s1 = s\<lparr>s_pending := gm_del (fr_ID frame) (s_pending s)\<rparr>;
              (s2, d2) = handleResponse request frame s1 d
          in if q_method request = ''turn.execute'' \<and> q_collect request then writeDeferredClose s2 d2 else (s2, d2))"

section \<open>The end of a connection\<close>

text \<open>The loops over the requests the session's peer is waiting for.\<close>

definition detachRequests :: "int \<Rightarrow> session \<Rightarrow> daemon \<Rightarrow> session \<times> daemon" where
  "detachRequests code s d =
     fold (\<lambda>(k, state) (s, d). error_reply (rt_frame state) code None (s\<lparr>s_requests := gm_del k (s_requests s)\<rparr>) d)
       (s_requests s) (s, d)"

definition dropRequests :: "session \<Rightarrow> daemon \<Rightarrow> session \<times> daemon" where
  "dropRequests s d =
     fold (\<lambda>(k, state) (s, d).
            let (s1, d1) = settleFrame (rt_frame state) None NotConnected s d
            in (s1\<lparr>s_requests := gm_del k (s_requests s1)\<rparr>, d1))
       (s_requests s) (s, d)"

definition connectionClosed :: "session \<Rightarrow> daemon \<Rightarrow> session \<times> daemon" where
  "connectionClosed s d =
     (if s_closed s then (s, d)
      else
        let d1 = logSession ''disconnected'' s d;
            s1 = stopAutoClose (s\<lparr>s_stopping := True, s_closed := True\<rparr>);
            d2 = upd_wire (s_self s1) OwnerClosed d1;
            d3 = detach (s_identity s1) (s_self s1) d2;
            (s4, d4) = settlePending NotConnected s1 d3
        in dropRequests s4 d4)"

definition supersede :: "session \<Rightarrow> daemon \<Rightarrow> session \<times> daemon" where
  "supersede s d =
     (if s_stopping s then (s, d)
      else
        let d1 = logSession ''superseded'' s d;
            (s2, d2) = detachRequests Superseded (s\<lparr>s_stopping := True\<rparr>) d1;
            n = s_nextOut s2 + 1;
            s3 = s2\<lparr>s_nextOut := n\<rparr>;
            frame = ORequest n ''session.superseded'' PEmpty;
            (ok, d3) = (if d_encodes d2 frame then finishWire s3 frame d2 else (False, d2))
        in (s3, if ok then d3 else closeWire (s_self s3) d3))"

section \<open>Opening a lane\<close>

definition newLaunch :: "gostring \<Rightarrow> bool \<Rightarrow> bool \<Rightarrow> daemon \<Rightarrow> ptr \<times> daemon" where
  "newLaunch product describe fresh d =
     (let (token, d1) = drawID ''token'' d;
          (reply, d2) = newChan d1
      in allocLaunch \<lparr>l_parent = None, l_input = None, l_previous = None, l_token = token, l_product = product,
            l_entry = None, l_owner = None, l_claimed = False, l_timerStopped = False, l_reply = reply,
            l_describe = describe, l_fresh = fresh\<rparr> d2)"

definition stopTimer :: "ptr \<Rightarrow> daemon \<Rightarrow> daemon" where
  "stopTimer start d = upd_launch start (\<lambda>l. l\<lparr>l_timerStopped := True\<rparr>) d"

definition finishUnclaimed :: "ptr \<Rightarrow> ptr option \<Rightarrow> answer \<Rightarrow> daemon \<Rightarrow> bool \<times> daemon" where
  "finishUnclaimed start child val d =
     (let (revoked, d1) = revokeLaunch start d in
      if \<not> revoked then (False, d1)
      else
        let d2 = signalChild child SIGKILL (signalChild child SIGTERM d1);
            d3 = releaseLaunch start d2
        in (True, sendAnswer (Some (l_reply (h_launch d3 start))) val d3))"

definition abortAnd :: "(session \<Rightarrow> daemon \<Rightarrow> session \<times> daemon) \<Rightarrow> answer \<Rightarrow> session \<Rightarrow> daemon \<Rightarrow> session \<times> daemon" where
  "abortAnd stop val s d = stop (abortLaunch val s) d"

definition openRequest :: "ptr \<Rightarrow> ptr \<Rightarrow> daemon \<Rightarrow> OpenRequest" where
  "openRequest start p d =
     (let r = e_row (h_entry d p) in
      \<lparr>oq_Policy = r_Policy r, oq_Name = r_Name r, oq_Groups = r_Groups r,
       oq_ResumeSessionID = (if l_fresh (h_launch d start) then [] else unqualify (r_SessionID r)), oq_Open = r_Open r\<rparr>)"

definition beginOpen :: "session \<Rightarrow> daemon \<Rightarrow> session \<times> daemon" where
  "beginOpen s d =
     (case s_launch s of
        None \<Rightarrow> (s, panic d)
      | Some start \<Rightarrow>
          (case l_entry (h_launch d start) of
             None \<Rightarrow> (s, panic d)
           | Some p \<Rightarrow>
               let n = s_nextOut s + 1;
                   s1 = s\<lparr>s_nextOut := n\<rparr>;
                   (ok, d1) = writeFrame (ORequest n ''session.open'' (POpen (openRequest start p d))) s1 d
               in if \<not> ok
                  then abortAnd hardStop (dataAnswer SpawnFailed (failure (s_child s1) ''worker closed before open'' d1)) s1 d1
                  else (s1\<lparr>s_openID := n\<rparr>, d1)))"

definition startLane :: "ptr \<Rightarrow> Frame \<Rightarrow> HelloDescription \<Rightarrow> session \<Rightarrow> daemon \<Rightarrow> session \<times> daemon" where
  "startLane start helloFrame hello s d =
     (let l = h_launch d start;
          s1 = s\<lparr>s_launch := Some start, s_identity := l_entry l, s_owned := 1\<rparr>
      in case l_entry l of
           None \<Rightarrow> (s1, panic d)
         | Some p \<Rightarrow>
             let unsupportedField =
                   (if \<not> l_describe l \<and> \<not> hd_SupportsMessageRun hello then ''idle_message''
                    else unsupported (r_Open (e_row (h_entry d p))) (hd_SupportedOpenFields hello))
             in if l_describe l \<or> unsupportedField \<noteq> []
                then let (ok, d1) = finishWire s1 (OResult (fr_ID helloFrame) (fr_Method helloFrame) VEmpty) d
                     in (s1\<lparr>s_launchResult := Some (if unsupportedField \<noteq> [] then codeAnswer UnsupportedOpen
                                                    else okAnswer (VHello hello)),
                            s_stopping := True\<rparr>, d1)
                else let (s2, d2) = result_reply helloFrame VEmpty s1 d in beginOpen s2 d2)"

text \<open>The end of a successful \<open>finishOpen\<close>.\<close>

definition commitOpen :: "ptr \<Rightarrow> ptr \<Rightarrow> session \<Rightarrow> daemon \<Rightarrow> session \<times> daemon" where
  "commitOpen start p s d =
     (let s1 = s\<lparr>s_identity := Some p, s_committed := True\<rparr>;
          d1 = stopTimer start (logSession ''connected'' s1 d)
      in case spawnResult start (s_self s1) d1 of
           None \<Rightarrow> (s1, panic d1)
         | Some r \<Rightarrow> (s1, sendAnswer (Some (l_reply (h_launch d1 start))) (okAnswer (VSpawn r)) d1))"

definition openFresh :: "ptr \<Rightarrow> ptr \<Rightarrow> gostring \<Rightarrow> session \<Rightarrow> daemon \<Rightarrow> session \<times> daemon" where
  "openFresh start p sid s d =
     (let qid = qualify sid (d_host d);
          d1 = upd_entry p (\<lambda>e. e\<lparr>e_row := (e_row e)\<lparr>r_SessionID := qid\<rparr>\<rparr>) d;
          (reserved, d2) = reserveID p qid d1
      in if \<not> reserved
         then abortAnd orderlyStop (dataAnswer SpawnFailed (failure (s_child s) ''session id already exists'' d2)) s d2
         else
           let persisted = (cloneRow (e_row (h_entry d2 p)))\<lparr>r_CreatedAt := d_now d2\<rparr>;
               (written, d3) = writeRow persisted d2
           in if \<not> written then abortAnd orderlyStop (dataAnswer Internal (DText ''write failed'')) s d3
              else
                let (published, d4) = publish start (s_self s) (r_CreatedAt persisted) d3 in
                if \<not> published
                then let (deleted, d5) = deleteRow (r_SessionID (e_row (h_entry d4 p))) d4
                     in abortAnd orderlyStop (dataAnswer Internal (DText ''session publication failed'')) s d5
                else commitOpen start p s d4)"

definition openResumed :: "ptr \<Rightarrow> ptr \<Rightarrow> session \<Rightarrow> daemon \<Rightarrow> session \<times> daemon" where
  "openResumed start p s d =
     (let (written, d1) = writeRow (e_row (h_entry d p)) d in
      if \<not> written then abortAnd orderlyStop (dataAnswer Internal (DText ''write failed'')) s d1
      else
        let (published, d2) = publish start (s_self s) 0 d1 in
        if published then commitOpen start p s d2
        else case l_previous (h_launch d2 start) of
               None \<Rightarrow> (s, panic d2)
             | Some q \<Rightarrow>
                 let (restored, d3) = writeRow (e_row (h_entry d2 q)) d2
                 in abortAnd orderlyStop
                      (if restored then codeAnswer AlreadyConnected else dataAnswer Internal (DText ''write failed'')) s d3)"

definition finishOpen :: "Frame \<Rightarrow> session \<Rightarrow> daemon \<Rightarrow> session \<times> daemon" where
  "finishOpen frame s0 d =
     (let s = s0\<lparr>s_openID := 0\<rparr> in
      case fr_Error frame of
        Some err \<Rightarrow> abortAnd orderlyStop (errorAnswer err) s d
      | None \<Rightarrow>
          (case (DecodeResult ''session.open'' (fr_Result frame), s_launch s) of
             (Some (VOpened opened), Some start) \<Rightarrow>
               (case l_entry (h_launch d start) of
                  None \<Rightarrow> (s, panic d)
                | Some p \<Rightarrow>
                    let fresh = l_fresh (h_launch d start) in
                    if \<not> validIDPart (d_hi d) (or_SessionID opened)
                       \<or> \<not> fresh \<and> or_SessionID opened \<noteq> unqualify (r_SessionID (e_row (h_entry d p)))
                    then abortAnd orderlyStop
                           (dataAnswer SpawnFailed (failure (s_child s) ''worker returned an invalid session id'' d)) s d
                    else if fresh then openFresh start p (or_SessionID opened) s d
                    else openResumed start p s d)
           | (None, Some start) \<Rightarrow>
               abortAnd hardStop (dataAnswer SpawnFailed (failure (s_child s) ''invalid open result'' d)) s d
           | _ \<Rightarrow> (s, panic d)))"

section \<open>The worker process and the end of a lane\<close>

definition handleProcess :: "ptr \<Rightarrow> ptr option \<Rightarrow> bool \<Rightarrow> gostring option \<Rightarrow> session \<Rightarrow> daemon \<Rightarrow> session \<times> daemon" where
  "handleProcess launch child exited err s d =
     (if Some launch \<noteq> s_launch s then (s, d)
      else if child \<noteq> None \<and> \<not> exited
      then let s1 = s\<lparr>s_child := child\<rparr>
           in (s1, if s_stopSignal s1 \<noteq> NoSignal then signalChild child (s_stopSignal s1) d else d)
      else if s_processExited s then (s, d)
      else
        let s1 = s\<lparr>s_processExited := True, s_owned := (if s_owned s > 0 then s_owned s - 1 else s_owned s)\<rparr>;
            s2 = (if s_committed s1 \<and> \<not> s_closed s1 \<and> \<not> s_closeTimer s1 then s1\<lparr>s_closeTimer := True\<rparr> else s1)
        in (case err of
              Some message \<Rightarrow>
                if s_launchResult s2 = None \<and> \<not> s_committed s2
                then abortLaunch (dataAnswer SpawnFailed (failure None message d)) s2 else s2
            | None \<Rightarrow> s2, d))"

text \<open>\<open>finishLane\<close>: the last thing a lane's session does.\<close>

definition offlineLane :: "session \<Rightarrow> daemon \<Rightarrow> session \<times> daemon" where
  "offlineLane s d =
     (case s_identity s of
        None \<Rightarrow> (s, panic d)
      | Some p \<Rightarrow>
          let (deleted, d1) = (if s_forget s then deleteRow (r_SessionID (e_row (h_entry d p))) d else (True, d));
              s1 = (if deleted then s
                    else s\<lparr>s_closeAnswer := dataAnswer Internal (DText ''remove failed''), s_forget := False\<rparr>)
          in (s1, offline p (s_self s1) (s_forget s1) d1))"

definition finishLane :: "session \<Rightarrow> daemon \<Rightarrow> session \<times> daemon" where
  "finishLane s0 d0 =
     (case s_launch s0 of
        None \<Rightarrow> (s0, panic d0)
      | Some start \<Rightarrow>
          let s = (stopAutoClose s0)\<lparr>s_closeTimer := False\<rparr>;
              d = stopTimer start d0;
              d1 = (if \<not> s_committed s then releaseLaunch start d else d);
              d2 = (case s_launchResult s of
                      None \<Rightarrow> d1
                    | Some val \<Rightarrow> sendAnswer (Some (l_reply (h_launch d1 start))) val d1);
              (s3, d3) = (if s_committed s then offlineLane s d2 else (s, d2))
          in case s_closeCall s3 of
               None \<Rightarrow> (s3, d3)
             | Some call \<Rightarrow>
                 let val = (if an_code (s_closeAnswer s3) = 0 \<and> an_value (s_closeAnswer s3) = None
                            then (s_closeAnswer s3)\<lparr>an_value := Some VEmpty\<rparr> else s_closeAnswer s3)
                 in (s3\<lparr>s_closeAnswer := val\<rparr>, sendAnswer (q_reply call) val d3))"

section \<open>A run ends\<close>

definition notifyText :: "TurnReady \<Rightarrow> gostring" where
  "notifyText v =
     ''Lane '' @ ty_SessionID v @ '' run '' @ ty_RunID v @ '' is '' @ ty_State v
     @ ''. Collect with the public wait action (session_id='' @ ty_SessionID v @ '', run_id='' @ ty_RunID v
     @ ''), then use the public ack action after collecting.''"

text \<open>
  \<open>turnReady\<close> up to the notification: the third result is the message to send, with its target and
  whether it may be traced.
\<close>

definition notification :: "LanePolicy \<Rightarrow> TurnReady \<Rightarrow> bool \<Rightarrow> bool \<Rightarrow> session \<Rightarrow> (MessageSendRequest \<times> bool) option" where
  "notification policy ready fromTrace fromCompletion s =
     (let target = (if lp_Persistent policy then lp_NotifyTarget policy else lp_OwnerSessionID policy) in
      if lp_Notify policy \<and> \<not> fromCompletion \<and> s_closeCall s = None \<and> target \<noteq> []
      then Some (\<lparr>ms_Target = target, ms_Targets = [], ms_Group = [], ms_Host = [], ms_Message = notifyText ready\<rparr>,
                 \<not> fromTrace)
      else None)"

definition turnSettled :: "Frame \<Rightarrow> TurnReady \<Rightarrow> session \<Rightarrow> daemon \<Rightarrow> session \<times> daemon \<times> (MessageSendRequest \<times> bool) option" where
  "turnSettled frame ready s d =
     (let s1 = s\<lparr>s_runID := [], s_runFromTrace := False, s_runFromCompletion := False\<rparr>;
          d1 = finishRun (s_identity s1) (s_self s1)
                 (logRun ''turn.ready'' (ty_RunID ready) ''settled'' (ty_Outcome ready) s d)
      in case r_Policy (identityRow s1 d1) of
           None \<Rightarrow> (s1, panic d1, None)
         | Some policy \<Rightarrow>
             let s2 = (if ty_State ready = ''done'' \<and> lp_AutoCloseMS policy > 0 \<and> s_closeCall s1 = None
                       then setDeadline (d_now d1 + nat (lp_AutoCloseMS policy) * 1000000) s1 d1 else s1);
                 (s3, d3) = result_reply frame VEmpty s2 d1;
                 (s4, d4) = startDeferredDelivery s3 d3
             in (s4, d4, notification policy ready (s_runFromTrace s) (s_runFromCompletion s) s4))"

definition turnReady :: "Frame \<Rightarrow> TurnReady \<Rightarrow> session \<Rightarrow> daemon \<Rightarrow> session \<times> daemon \<times> (MessageSendRequest \<times> bool) option" where
  "turnReady frame ready s d =
     (if s_launch s = None \<or> ty_SessionID ready \<noteq> r_SessionID (identityRow s d) \<or> s_runID s = []
         \<or> ty_RunID ready \<noteq> s_runID s
      then let (s1, d1) = reject frame InvalidFrame s d in (s1, d1, None)
      else turnSettled frame ready s d)"

section \<open>Events and timers of the session's loop\<close>

text \<open>\<open>handleEvent\<close> on a routed request and on the end of the connection.\<close>

definition handleRouted :: "routedRequest \<Rightarrow> session \<Rightarrow> daemon \<Rightarrow> session \<times> daemon" where
  "handleRouted q s d =
     (if s_stopping s \<or> q_destination q \<noteq> s_identity s \<or> s_launch s \<noteq> None \<and> \<not> s_committed s
      then (s, answerRouted q (codeAnswer NotConnected) s d)
      else issue q s d)"

definition handleClosed :: "session \<Rightarrow> daemon \<Rightarrow> session \<times> daemon" where
  "handleClosed s d =
     (let (s1, d1) = connectionClosed s d in
      if s_launch s1 = None then (s1, d1)
      else orderlyStop
             (if \<not> s_committed s1 \<and> s_launchResult s1 = None
              then abortLaunch (dataAnswer SpawnFailed (failure (s_child s1) ''worker exited before open'' d1)) s1
              else s1) d1)"

text \<open>The timers of \<open>run\<close>, the message that the spawn timed out, and the daemon's shutdown.\<close>

definition autoCloseDue :: "session \<Rightarrow> daemon \<Rightarrow> session \<times> daemon" where
  "autoCloseDue s d = policyClose (s\<lparr>s_autoClose := None\<rparr>) d"

definition closeExpired :: "session \<Rightarrow> daemon \<Rightarrow> session \<times> daemon" where
  "closeExpired s d = hardStop (s\<lparr>s_closeTimer := False\<rparr>) d"

definition spawnExpired :: "session \<Rightarrow> daemon \<Rightarrow> session \<times> daemon" where
  "spawnExpired s d = abortAnd hardStop (codeAnswer Timeout) s d"

definition handleSpawnTimeout :: "ptr \<Rightarrow> session \<Rightarrow> daemon \<Rightarrow> session \<times> daemon" where
  "handleSpawnTimeout start s d =
     (if s_launch s = Some start \<and> \<not> s_committed s then spawnExpired s d else (s, d))"

definition shutdownStop :: "session \<Rightarrow> daemon \<Rightarrow> session \<times> daemon" where
  "shutdownStop s d =
     orderlyStop (if s_launch s \<noteq> None \<and> \<not> s_committed s
                  then abortLaunch (dataAnswer Internal (DText ''daemon shutting down'')) s else s) d"

text \<open>\<open>run\<close> returns: the connection is closed, nothing is owned any more, a worker's process has ended.\<close>

definition mayReturn :: "session \<Rightarrow> bool" where
  "mayReturn s \<longleftrightarrow> s_closed s \<and> s_owned s = 0 \<and> (s_launch s = None \<or> s_processExited s)"

definition runReturn :: "session \<Rightarrow> daemon \<Rightarrow> session \<times> daemon" where
  "runReturn s d = (if s_launch s \<noteq> None then finishLane s d else (s, d))"

end
