(* ===== verification/Ledger.thy ===== *)
theory Ledger
  imports Session
begin

text \<open>
  Every request routed to a session is answered exactly once. The channels a session owes an answer
  on are those of its pending requests and of the close request that waits for the lane to end; the
  lemmas follow them through every operation of \<open>Session\<close>, and the system at the end runs one
  session against an arbitrary daemon and peer.
\<close>

section \<open>Operations that send no answer\<close>

definition keeps :: "daemon \<Rightarrow> daemon \<Rightarrow> bool" where
  "keeps d d' \<longleftrightarrow> d_answers d' = d_answers d \<and> n_chan d \<le> n_chan d' \<and> d_host d' = d_host d
     \<and> (\<forall>start. l_reply (h_launch d' start) = l_reply (h_launch d start) \<and> l_entry (h_launch d' start) = l_entry (h_launch d start))"

lemma keeps_refl [simp]: "keeps d d"
  by (simp add: keeps_def)

lemma keeps_trans: "keeps a b \<Longrightarrow> keeps b c \<Longrightarrow> keeps a c"
  by (auto simp: keeps_def)

lemma keeps_quiet: "quiet d d' \<Longrightarrow> keeps d d'"
  by (simp add: keeps_def quiet_fields)

lemma keeps_upd [simp]:
  "keeps d (upd_entry p f d)" "keeps d (upd_owner w g d)" "keeps d (upd_wire c h d)" "keeps d (panic d)"
  "keeps d (closeWire p d)" "keeps d (snd (newChan d))" "keeps d (snd (drawID pre d))" "keeps d (signalChild ch sig d)"
  "keeps d (snd (newEntry e d))" "keeps d (snd (newOwnership ow d))" "keeps d (stopTimer start d)"
  "keeps d (admitted q m d)" "keeps d (finishRun it s d)" "keeps d (logEvent ev d)"
  by (simp_all add: keeps_def upd_entry_def upd_owner_def upd_wire_def panic_def closeWire_def newChan_def drawID_def
      signalChild_def newEntry_def newOwnership_def stopTimer_def upd_launch_def admitted_def finishRun_def logEvent_def
      split: option.splits)

lemma keeps_table [simp]: "keeps d (snd (writeRow r d))" "keeps d (snd (deleteRow k d))"
  by (simp_all add: keeps_def writeRow_def deleteRow_def split_beta Let_def)

lemma keeps_wire [simp]: "keeps d (snd (postWire p ev d))" "keeps d (snd (sendWire s f d))"
  "keeps d (snd (finishWire s f d))" "keeps d (snd (writeFrame f s d))"
  by (simp_all add: postWire_def sendWire_def finishWire_def writeFrame_def)

lemma keeps_writeOrClose [simp]: "keeps d (writeOrClose f s d)"
proof -
  have "keeps d (snd (writeFrame f s d))" by simp
  then show ?thesis by (auto simp: writeOrClose_def split_beta Let_def intro: keeps_trans[OF _ keeps_upd(5)])
qed

lemma keeps_fold: "(\<And>x d. keeps d (f x d)) \<Longrightarrow> keeps d (fold f xs d)"
proof (induction xs arbitrary: d)
  case (Cons x xs)
  then show ?case using keeps_trans by fastforce
qed simp

lemma keeps_notifyChild: "keeps d (notifyChild w p d)"
proof -
  let ?d1 = "upd_entry p (\<lambda>e. e\<lparr>e_traceMode := [], e_traceVersion := []\<rparr>) d"
  have 1: "keeps d ?d1" by simp
  have 2: "keeps d (snd (postWire s (EvOwnerEnd w) ?d1))" for s by (rule keeps_trans[OF 1 keeps_wire(1)])
  have 3: "keeps d (closeWire s (snd (postWire s (EvOwnerEnd w) ?d1)))" for s by (rule keeps_trans[OF 2 keeps_upd(5)])
  show ?thesis using 1 2 3
    by (auto simp: notifyChild_def Let_def split_beta split: option.splits)
qed

lemma keeps_ownerEndTo: "keeps d (ownerEndTo w host d)"
  by (simp add: ownerEndTo_def newChan_def keeps_def Let_def split: option.split)

lemma keeps_endOwner [simp]: "keeps d (endOwner owner d)"
proof -
  have "keeps d (forwardOwnerEnd w (fold (notifyChild w) ps (upd_owner w f d)))" for w ps f
  proof -
    have "keeps e (forwardOwnerEnd w e)" for e
      by (simp add: forwardOwnerEnd_def keeps_fold keeps_ownerEndTo)
    then show ?thesis
      by (rule keeps_trans[OF keeps_trans[OF keeps_upd(2) keeps_fold[OF keeps_notifyChild]]])
  qed
  then show ?thesis by (simp add: endOwner_def Let_def split: option.split)
qed

lemma keeps_end_entry [simp]: "keeps d (end_entry p d)"
proof -
  have c: "keeps e (closeDone p e)" for e by (simp add: closeDone_def)
  show ?thesis unfolding end_entry_def Let_def
    by (rule keeps_trans[OF keeps_trans[OF keeps_trans[OF keeps_upd(1) keeps_endOwner] keeps_upd(1)] c])
qed

lemma keeps_fields [simp]:
  "keeps d (d'\<lparr>d_entries := x\<rparr>) = keeps d d'" "keeps d (d'\<lparr>d_names := y\<rparr>) = keeps d d'"
  "keeps d (d'\<lparr>d_tokens := z\<rparr>) = keeps d d'" "keeps d (d'\<lparr>d_fedReplies := v\<rparr>) = keeps d d'"
  by (simp_all add: keeps_def)

lemma keeps_detach [simp]: "keeps d (detach item owner d)"
proof -
  have "keeps d (upd_entry p f (end_entry p d))" for p f by (rule keeps_trans[OF keeps_end_entry keeps_upd(1)])
  then show ?thesis by (auto simp: detach_def Let_def split: option.split)
qed

lemma keeps_offline [simp]: "keeps d (offline p owner forget d)"
proof -
  have "keeps d (upd_entry p f (upd_entry p g d))" for f g by (rule keeps_trans[OF keeps_upd(1) keeps_upd(1)])
  then show ?thesis by (auto simp: offline_def Let_def)
qed

lemma keeps_releaseLaunch [simp]: "keeps d (releaseLaunch start d)"
proof -
  have "keeps d (end_entry p (upd_entry p f d'))" if "keeps d d'" for p f d'
    by (rule keeps_trans[OF keeps_trans[OF that keeps_upd(1)] keeps_end_entry])
  from this[of d] this[of "d\<lparr>d_tokens := t\<rparr>" for t] show ?thesis
    by (auto simp: releaseLaunch_def Let_def split: option.split)
qed

lemma keeps_reserveID [simp]: "keeps d (snd (reserveID p sid d))"
  by (simp add: reserveID_def)

lemma keeps_publish [simp]: "keeps d (snd (publish start owner at d))"
proof -
  have "keeps d (publishCommit start owner at p b d)" for p b
    by (auto simp: keeps_def publishCommit_def drawID_def newOwnership_def upd_entry_def Let_def split: option.split)
  then show ?thesis by (auto simp: publish_def Let_def split: option.split)
qed

lemma keeps_log [simp]: "keeps d (logSession st s d)" "keeps d (logRun m r st oc s d)"
  by (simp_all add: logSession_def logRun_def)

lemma keeps_finishTrace: "keeps d (snd (finishTrace frame val code extra s d))"
  using hushed_finishTrace[of s d frame val code extra] by (simp add: hushed_def keeps_quiet)

section \<open>The channels a session owes an answer on\<close>

definition claims :: "routedRequest \<Rightarrow> ptr option multiset" where
  "claims q = (if q_scheduled q \<or> q_method q = ''session.close'' then {#} else {#q_reply q#})"

definition owed :: "session \<Rightarrow> ptr option multiset" where
  "owed s = (\<Sum>x \<in># mset (s_pending s). claims (snd x))
     + (case s_closeCall s of None \<Rightarrow> {#} | Some c \<Rightarrow> {#q_reply c#})"

definition paid :: "daemon \<Rightarrow> ptr option multiset" where
  "paid d = image_mset (Some \<circ> fst) (mset (d_answers d))"

text \<open>No channel twice.\<close>

definition once :: "'a multiset \<Rightarrow> bool" where
  "once M \<longleftrightarrow> (\<forall>x. count M x \<le> 1)"

lemma once_mono: "M \<subseteq># N \<Longrightarrow> once N \<Longrightarrow> once M"
  unfolding once_def subseteq_mset_def by (meson order_trans)

lemma once_add: "once (add_mset x M) \<Longrightarrow> x \<notin># M"
  by (auto simp: once_def count_eq_zero_iff[symmetric] dest: spec[of _ x])

text \<open>
  A request as it is kept: one that is scheduled has been answered, another one has a channel; its
  parameters have the type its method needs.
\<close>

definition kept_ok :: "routedRequest \<Rightarrow> bool" where
  "kept_ok q \<longleftrightarrow>
     (if q_scheduled q then q_reply q = None \<and> q_method q = ''message.deliver'' else q_reply q \<noteq> None)
     \<and> (q_method q = ''message.deliver'' \<longrightarrow> (\<exists>i. q_params q = PDeliver i))
     \<and> (q_method q = ''turn.ack'' \<longrightarrow> (\<exists>i. q_params q = PRunRef i))"

definition issuable :: "routedRequest \<Rightarrow> bool" where
  "issuable q \<longleftrightarrow> kept_ok q
     \<and> (q_method (asExecute q) = ''turn.execute'' \<longrightarrow> (\<exists>i. q_params q = PRun i))
     \<and> (q_method q = ''session.close'' \<longrightarrow> \<not> q_collect q \<and> (\<exists>i. q_params q = PClose i))"

definition pending_ok :: "int \<Rightarrow> routedRequest option \<Rightarrow> (int, routedRequest) gomap \<Rightarrow> bool" where
  "pending_ok n call m \<longleftrightarrow> gm_ok m
     \<and> (\<forall>x \<in> set m. fst x \<le> n \<and> kept_ok (snd x) \<and> (q_method (snd x) = ''session.close'' \<longrightarrow> call = Some (snd x)))"

definition close_ok :: "routedRequest option \<Rightarrow> routedRequest list \<Rightarrow> bool" where
  "close_ok call deferred \<longleftrightarrow> (\<forall>q \<in> set deferred. q_scheduled q \<and> kept_ok q)
     \<and> (case call of None \<Rightarrow> True
        | Some c \<Rightarrow> \<not> q_scheduled c \<and> kept_ok c \<and> q_method c = ''session.close'' \<and> (\<exists>i. q_params c = PClose i)
            \<and> deferred = [])"

definition tidy :: "session \<Rightarrow> bool" where
  "tidy s \<longleftrightarrow> pending_ok (s_nextOut s) (s_closeCall s) (s_pending s)
     \<and> close_ok (s_closeCall s) (s_deferredDeliveries s) \<and> once (owed s)"

lemma pending_ok_mono: "pending_ok n c m \<Longrightarrow> n \<le> n' \<Longrightarrow> pending_ok n' c m"
  unfolding pending_ok_def by (meson order_trans)

lemma pending_ok_get: "pending_ok n c m \<Longrightarrow> gm_get m k = Some q \<Longrightarrow>
    k \<le> n \<and> kept_ok q \<and> (q_method q = ''session.close'' \<longrightarrow> c = Some q)"
  unfolding pending_ok_def by (metis fst_conv gm_get_in_set snd_conv)

lemma pending_ok_new: "pending_ok n c m \<Longrightarrow> k > n \<Longrightarrow> gm_get m k = None"
  using pending_ok_get[of n c m k] by (cases "gm_get m k") auto

lemma pending_ok_add:
  assumes "pending_ok n c m" "k > n" "kept_ok q" "q_method q = ''session.close'' \<longrightarrow> c = Some q"
  shows "pending_ok k c (gm_set k q m)"
proof -
  have k: "gm_get m k = None" by (rule pending_ok_new[OF assms(1,2)])
  have "gm_ok (gm_set k q m)" using assms(1) by (simp add: pending_ok_def)
  moreover have "fst x \<le> k \<and> kept_ok (snd x) \<and> (q_method (snd x) = ''session.close'' \<longrightarrow> c = Some (snd x))"
    if "x \<in> set (gm_set k q m)" for x
  proof (cases "x = (k, q)")
    case True
    with assms(3,4) show ?thesis by simp
  next
    case False
    with that have "x \<in> set m" by (simp add: gm_set_none[OF k])
    with assms(1,2) show ?thesis unfolding pending_ok_def by force
  qed
  ultimately show ?thesis unfolding pending_ok_def by blast
qed

lemma pending_ok_del: "pending_ok n c m \<Longrightarrow> pending_ok n c (gm_del k m)"
proof -
  have "set (gm_del k m) \<subseteq> set m" unfolding gm_del_def by (induction m) auto
  then show "pending_ok n c m \<Longrightarrow> ?thesis" unfolding pending_ok_def by (auto simp: gm.invar_del)
qed

text \<open>
  An operation conserves the ledger when the answers it sends are on channels the session owed or
  received (\<open>g\<close>) and it still owes the others.
\<close>

definition conserves :: "ptr option multiset \<Rightarrow> session \<times> daemon \<Rightarrow> session \<times> daemon \<Rightarrow> bool" where
  "conserves g x y \<longleftrightarrow> (tidy (fst x) \<and> once (owed (fst x) + g) \<longrightarrow>
     tidy (fst y) \<and> paid (snd y) + owed (fst y) = paid (snd x) + owed (fst x) + g \<and> paid (snd x) \<subseteq># paid (snd y)
     \<and> n_chan (snd x) \<le> n_chan (snd y)
     \<and> (\<forall>start. l_reply (h_launch (snd y) start) = l_reply (h_launch (snd x) start)))"

lemma conserves_owed:
  assumes "conserves g x y" "tidy (fst x)" "once (owed (fst x) + g)"
  shows "owed (fst y) \<subseteq># owed (fst x) + g"
proof -
  from assms have e: "paid (snd y) + owed (fst y) = paid (snd x) + owed (fst x) + g" and s: "paid (snd x) \<subseteq># paid (snd y)"
    by (auto simp: conserves_def)
  from s obtain a where "paid (snd y) = paid (snd x) + a" by (auto simp: mset_subset_eq_exists_conv)
  with e have "a + owed (fst y) = owed (fst x) + g" by (simp add: add.assoc)
  then show ?thesis by (metis mset_subset_eq_add_right)
qed

lemma conserves_trans:
  assumes "conserves g x y" "conserves h y z"
  shows "conserves (g + h) x z"
  unfolding conserves_def
proof (intro impI)
  assume a: "tidy (fst x) \<and> once (owed (fst x) + (g + h))"
  then have d: "once (owed (fst x) + g)"
    by (metis add.assoc once_mono mset_subset_eq_add_left)
  have "owed (fst y) + h \<subseteq># owed (fst x) + g + h" using conserves_owed[OF assms(1)] a d by simp
  with a have d2: "once (owed (fst y) + h)" by (metis add.assoc once_mono)
  from assms(1) a d have x: "tidy (fst y)" "paid (snd y) + owed (fst y) = paid (snd x) + owed (fst x) + g"
    "paid (snd x) \<subseteq># paid (snd y)" "n_chan (snd x) \<le> n_chan (snd y)"
    "\<forall>start. l_reply (h_launch (snd y) start) = l_reply (h_launch (snd x) start)" by (auto simp: conserves_def)
  from assms(2) x(1) d2 have y: "tidy (fst z)" "paid (snd z) + owed (fst z) = paid (snd y) + owed (fst y) + h"
    "paid (snd y) \<subseteq># paid (snd z)" "n_chan (snd y) \<le> n_chan (snd z)"
    "\<forall>start. l_reply (h_launch (snd z) start) = l_reply (h_launch (snd y) start)" by (auto simp: conserves_def)
  from x y show "tidy (fst z) \<and> paid (snd z) + owed (fst z) = paid (snd x) + owed (fst x) + (g + h)
    \<and> paid (snd x) \<subseteq># paid (snd z) \<and> n_chan (snd x) \<le> n_chan (snd z)
    \<and> (\<forall>start. l_reply (h_launch (snd z) start) = l_reply (h_launch (snd x) start))"
    by (auto simp: add.assoc intro: subset_mset.order_trans)
qed

lemma conserves_then: "conserves g x y \<Longrightarrow> conserves {#} y z \<Longrightarrow> conserves g x z"
  using conserves_trans[of g x y "{#}" z] by simp

lemma conserves_after: "conserves {#} x y \<Longrightarrow> conserves g y z \<Longrightarrow> conserves g x z"
  using conserves_trans[of "{#}" x y g z] by simp

text \<open>Operations on other fields of the session.\<close>

definition same_ledger :: "session \<Rightarrow> session \<Rightarrow> bool" where
  "same_ledger s s' \<longleftrightarrow> s_pending s' = s_pending s \<and> s_deferredDeliveries s' = s_deferredDeliveries s
     \<and> s_closeCall s' = s_closeCall s \<and> s_nextOut s \<le> s_nextOut s'"

lemma same_ledger_refl [simp]: "same_ledger s s"
  by (simp add: same_ledger_def)

lemma same_ledger_trans: "same_ledger a b \<Longrightarrow> same_ledger b c \<Longrightarrow> same_ledger a c"
  by (auto simp: same_ledger_def)

lemma same_ledger_quietS: "quietS s s' \<Longrightarrow> same_ledger s s'"
  by (simp add: same_ledger_def quietS_fields)

lemma same_ledger_owed: "same_ledger s s' \<Longrightarrow> owed s' = owed s"
  by (simp add: same_ledger_def owed_def)

lemma same_ledger_tidy: "same_ledger s s' \<Longrightarrow> tidy s \<Longrightarrow> tidy s'"
  using pending_ok_mono same_ledger_owed by (simp add: tidy_def same_ledger_def) metis

lemma keeps_paid: "keeps d d' \<Longrightarrow> paid d' = paid d"
  by (simp add: keeps_def paid_def)

lemma conserves_same: "same_ledger s s' \<Longrightarrow> keeps d d' \<Longrightarrow> conserves {#} (s, d) (s', d')"
  using keeps_paid[of d d'] by (auto simp: conserves_def same_ledger_owed same_ledger_tidy keeps_def)

lemma conserves_refl [simp]: "conserves {#} x x"
  by (simp add: conserves_def)

lemma conserves_hushed: "hushed x y \<Longrightarrow> conserves {#} x y"
  using conserves_same[of "fst x" "fst y" "snd x" "snd y"]
  by (simp add: hushed_def same_ledger_quietS keeps_quiet)

section \<open>Answering\<close>

lemma answerRouted_books:
  assumes "kept_ok q"
  shows "paid (answerRouted q val s d) = paid d + (if q_scheduled q then {#} else {#q_reply q#})"
    "n_chan (answerRouted q val s d) = n_chan d" "h_launch (answerRouted q val s d) = h_launch d"
  using assms
  by (auto simp: answerRouted_def kept_ok_def sendAnswer_def logEvent_def paid_def split: option.splits)

lemma conserves_answer:
  assumes "kept_ok q" "same_ledger s s'" "keeps d d'"
  shows "conserves (if q_scheduled q then {#} else {#q_reply q#}) (s, d) (s', answerRouted q val t d')"
  using assms answerRouted_books[OF assms(1), of val t d'] keeps_paid[OF assms(3)]
  by (auto simp: conserves_def same_ledger_owed same_ledger_tidy keeps_def)

lemma settle_scheduled:
  "\<forall>q \<in> set qs. q_scheduled q \<and> kept_ok q \<Longrightarrow> keeps d (fold (\<lambda>q. answerRouted q val s) qs d)"
proof (induction qs arbitrary: d)
  case (Cons q qs)
  have "keeps d (answerRouted q val s d)"
    using Cons.prems by (auto simp: answerRouted_def kept_ok_def split: params.splits)
  with Cons keeps_trans show ?case by fastforce
qed simp

section \<open>Issuing\<close>

lemma owed_add:
  assumes "tidy s" "n > s_nextOut s"
  shows "owed (s\<lparr>s_nextOut := n, s_pending := gm_set n q (s_pending s)\<rparr>) = owed s + claims q"
proof -
  have "gm_get (s_pending s) n = None" using assms pending_ok_new unfolding tidy_def by blast
  then show ?thesis by (simp add: owed_def gm_set_none)
qed

lemma tidy_add:
  assumes "tidy s" "n > s_nextOut s" "kept_ok q" "q_method q = ''session.close'' \<longrightarrow> s_closeCall s = Some q"
    "once (owed s + claims q)"
  shows "tidy (s\<lparr>s_nextOut := n, s_pending := gm_set n q (s_pending s)\<rparr>)"
proof -
  have "pending_ok n (s_closeCall s) (gm_set n q (s_pending s))"
    using assms(1) pending_ok_add[OF _ assms(2-4)] by (simp add: tidy_def)
  with assms(1,5) owed_add[OF assms(1,2), of q] show ?thesis by (simp add: tidy_def)
qed

lemma setDeadline_same [simp]: "same_ledger s (setDeadline at s d)"
  by (simp add: setDeadline_def stopAutoClose_def same_ledger_def Let_def)

lemma refuseRun_same: "same_ledger s (fst (refuseRun r s d)) \<and> keeps d (snd (refuseRun r s d))"
  by (simp add: refuseRun_def Let_def setDeadline_def stopAutoClose_def same_ledger_def)

lemma reserveRun_same: "reserveRun s d = (r, s1, d1) \<Longrightarrow> same_ledger s s1 \<and> keeps d d1"
  by (auto simp: reserveRun_def Let_def setDeadline_def stopAutoClose_def same_ledger_def drawID_def keeps_def
      split: prod.splits if_splits)

text \<open>What an issued request adds: its channel, unless it was answered before.\<close>

definition fee :: "routedRequest \<Rightarrow> ptr option multiset" where
  "fee q = (if q_scheduled q then {#} else {#q_reply q#})"

lemma claims_fee: "q_method q \<noteq> ''session.close'' \<Longrightarrow> claims q = fee q"
  by (simp add: claims_def fee_def)

lemma kept_ok_fee: "kept_ok q \<Longrightarrow> kept_ok (q\<lparr>q_runID := r\<rparr>)" "fee (q\<lparr>q_runID := r\<rparr>) = fee q"
  "fee (q\<lparr>q_params := ps\<rparr>) = fee q" "fee (asExecute q) = fee q"
  by (simp_all add: kept_ok_def fee_def)

lemma conserves_issueSend:
  assumes "kept_ok q" "q_method q \<noteq> ''session.close''"
  shows "conserves (fee q) (s, d) (issueSend q s d)"
proof (rule issueSend_rule)
  let ?n = "s_nextOut s + 1"
  let ?s1 = "s\<lparr>s_nextOut := ?n\<rparr>"
  let ?s2 = "s\<lparr>s_nextOut := ?n, s_pending := gm_set ?n q (s_pending s)\<rparr>"
  fix d1 d2
  assume w: "writeFrame (ORequest ?n (q_method q) (q_params q)) ?s1 d = (True, d1)"
    and d2: "d2 = (if q_runID q \<noteq> []
        then logRun (q_method q) (q_runID q) ''running'' [] ?s1
               (case s_identity s of None \<Rightarrow> panic d1 | Some p \<Rightarrow> admitted p ''turn.execute'' d1) else d1)"
  have k1: "keeps d d1" using keeps_wire(4)[of d "ORequest ?n (q_method q) (q_params q)" ?s1] w by simp
  have "keeps d1 (case s_identity s of None \<Rightarrow> panic d1 | Some p \<Rightarrow> admitted p ''turn.execute'' d1)"
    by (simp split: option.split)
  with keeps_trans[OF this keeps_log(2)] have "keeps d1 d2" unfolding d2 by simp
  with k1 have k: "keeps d d2" by (rule keeps_trans)
  show "conserves (fee q) (s, d) (?s2, d2)"
    using owed_add[of s ?n q] tidy_add[of s ?n q] keeps_paid[OF k] k assms claims_fee[OF assms(2)]
    by (auto simp: conserves_def keeps_def)
next
  let ?n = "s_nextOut s + 1"
  let ?s1 = "s\<lparr>s_nextOut := ?n\<rparr>"
  fix d1 s2 d2
  assume w: "writeFrame (ORequest ?n (q_method q) (q_params q)) ?s1 d = (False, d1)"
    and r: "(s2, d2) = (if q_runID q \<noteq> [] then refuseRun (q_runID q) ?s1 d1 else (?s1, d1))"
  have k1: "keeps d d1" using keeps_wire(4)[of d "ORequest ?n (q_method q) (q_params q)" ?s1] w by simp
  have s1: "same_ledger s ?s1" by (simp add: same_ledger_def)
  have "same_ledger ?s1 s2 \<and> keeps d1 d2"
    using refuseRun_same[of ?s1 "q_runID q" d1] r[symmetric] by (cases "q_runID q = []") auto
  with k1 s1 have "keeps d d2" "same_ledger s s2" using keeps_trans same_ledger_trans by blast+
  from conserves_answer[OF assms(1) this(2,1)] show "conserves (fee q) (s, d) (s2, answerRouted q (codeAnswer NotConnected) s2 d2)"
    by (simp add: fee_def)
qed

lemma recordStop_same: "same_ledger s (fst (recordStop sig s d)) \<and> keeps d (snd (recordStop sig s d))"
proof -
  have "keeps d (signalChild c g (closeWire p d))" for c g p by (rule keeps_trans[OF keeps_upd(5) keeps_upd(8)])
  then show ?thesis by (simp add: recordStop_def Let_def same_ledger_def)
qed

lemma orderlyStop_same: "same_ledger s (fst (orderlyStop s d)) \<and> keeps d (snd (orderlyStop s d))"
  using recordStop_same[of s SIGTERM d] by (simp add: orderlyStop_def Let_def split_beta same_ledger_def)

lemma conserves_stop: "conserves {#} (s, d) (hardStop s d)" "conserves {#} (s, d) (orderlyStop s d)"
  using recordStop_same[of s SIGKILL d] orderlyStop_same[of s d]
    conserves_same[of s "fst (recordStop SIGKILL s d)" d "snd (recordStop SIGKILL s d)"]
    conserves_same[of s "fst (orderlyStop s d)" d "snd (orderlyStop s d)"]
  by (simp_all add: hardStop_def)

lemma conserves_writeDeferredClose: "conserves {#} (s, d) (writeDeferredClose s d)"
proof (cases "s_closeCall s")
  case None
  then show ?thesis by (simp add: writeDeferredClose_def)
next
  case (Some c)
  let ?n = "s_nextOut s + 1"
  let ?s1 = "s\<lparr>s_nextOut := ?n\<rparr>"
  obtain ok d1 where w: "writeFrame (ORequest ?n ''session.close'' (q_params c)) ?s1 d = (ok, d1)"
    by (cases "writeFrame (ORequest ?n ''session.close'' (q_params c)) ?s1 d")
  have k1: "keeps d d1" using keeps_wire(4)[of d "ORequest ?n ''session.close'' (q_params c)" ?s1] w by simp
  have s1: "conserves {#} (s, d) (?s1, d1)" by (rule conserves_same[OF _ k1]) (simp add: same_ledger_def)
  have add: "conserves {#} (s, d) (s\<lparr>s_nextOut := ?n, s_pending := gm_set ?n c (s_pending s)\<rparr>, admitted p m d1)" for p m
  proof (cases "tidy s")
    case True
    then have c: "kept_ok c" "q_method c = ''session.close''" using Some by (simp_all add: tidy_def close_ok_def)
    then have cl: "claims c = {#}" by (simp add: claims_def)
    have k: "keeps d (admitted p m d1)" by (rule keeps_trans[OF k1 keeps_upd(12)])
    show ?thesis
      using owed_add[of s ?n c] tidy_add[of s ?n c] keeps_paid[OF k] k c cl Some
      by (auto simp: conserves_def keeps_def)
  qed (simp add: conserves_def)
  show ?thesis
    using conserves_after[OF s1 conserves_stop(1)] conserves_after[OF s1 conserves_same[OF same_ledger_refl keeps_upd(4)]] add w Some
    by (auto simp: writeDeferredClose_def Let_def split: option.split)
qed

lemma conserves_beginClose:
  assumes "kept_ok q" "\<not> q_scheduled q" "q_method q = ''session.close''" "q_params q = PClose i" "s_closeCall s = None"
  shows "conserves {#q_reply q#} (s, d) (beginClose q s d)"
proof -
  let ?d1 = "fold (\<lambda>request. answerRouted request (codeAnswer Busy) (stopAutoClose s)) (s_deferredDeliveries s) d"
  let ?s1 = "(stopAutoClose s)\<lparr>s_deferredDeliveries := [], s_closeCall := Some q, s_closeTimer := True, s_forget := sc_Forget i\<rparr>"
  have e: "beginClose q s d = writeDeferredClose ?s1 ?d1"
    using assms(4) by (simp add: beginClose_def settleDeferredDeliveries_def stopAutoClose_def)
  have "conserves {#q_reply q#} (s, d) (?s1, ?d1)"
  proof (cases "tidy s")
    case True
    then have "keeps d ?d1" by (intro settle_scheduled) (simp add: tidy_def close_ok_def stopAutoClose_def)
    moreover have "owed ?s1 = owed s + {#q_reply q#}" using assms(5) by (simp add: owed_def stopAutoClose_def)
    moreover have "pending_ok (s_nextOut s) (Some q) (s_pending s)"
      using True assms(5) by (fastforce simp: tidy_def pending_ok_def)
    ultimately show ?thesis using True assms keeps_paid[of d ?d1]
      by (simp add: conserves_def tidy_def close_ok_def keeps_def stopAutoClose_def)
  qed (simp add: conserves_def)
  from conserves_then[OF this conserves_writeDeferredClose] show ?thesis by (simp add: e)
qed

lemma kept_ok_canonical: "kept_ok q \<Longrightarrow> kept_ok (q\<lparr>q_params := canonicalParams sid (q_params q)\<rparr>)"
  by (cases "q_params q") (simp_all add: kept_ok_def canonicalParams_def)

lemma conserves_issue:
  assumes "issuable q" "s_identity s \<noteq> None"
  shows "conserves (fee q) (s, d) (issue q s d)"
proof (rule issue_rule)
  from assms(1) have k: "kept_ok q" by (simp add: issuable_def)
  fix c
  show "conserves (fee q) (s, d) (s, answerRouted q (codeAnswer c) s d)"
    using conserves_answer[OF k] by (simp add: fee_def)
next
  assume "s_identity s = None \<or> q_method (asExecute q) = ''turn.execute'' \<and> (\<forall>i. q_params q \<noteq> PRun i)
        \<or> q_method q = ''message.deliver'' \<and> (\<forall>i. q_params q \<noteq> PDeliver i)"
  with assms show "conserves (fee q) (s, d) (s, panic d)" by (auto simp: issuable_def kept_ok_def)
next
  assume r: "has_room q s" and m: "q_method q = ''session.close''"
  from assms(1) m obtain i where i: "kept_ok q" "q_params q = PClose i" "\<not> q_collect q" by (auto simp: issuable_def)
  moreover from i(1) m have "\<not> q_scheduled q" by (auto simp: kept_ok_def)
  moreover from r i(3) have "s_closeCall s = None" by (auto simp: has_room_def)
  ultimately show "conserves (fee q) (s, d) (beginClose q s d)" using conserves_beginClose[of q i s d] m by (simp add: fee_def)
next
  fix i sid runID s1 d1
  assume m: "q_method (asExecute q) = ''turn.execute''" and r: "reserveRun s d = (runID, s1, d1)"
  let ?q = "(asExecute q)\<lparr>q_runID := runID, q_params := PExecute \<lparr>ex_SessionID = sid, ex_RunID = runID, ex_Input = tq_Input i\<rparr>\<rparr>"
  have "q_method q \<noteq> ''message.deliver''" using m by (auto simp: asExecute_def)
  with assms(1) m have "kept_ok ?q" by (auto simp: issuable_def kept_ok_def)
  moreover have "q_method ?q \<noteq> ''session.close''" using m by simp
  ultimately have "conserves (fee ?q) (s1, d1) (issueSend ?q s1 d1)" by (rule conserves_issueSend)
  then have "conserves (fee q) (s1, d1) (issueSend ?q s1 d1)" by (simp add: kept_ok_fee)
  moreover have "conserves {#} (s, d) (s1, d1)" using reserveRun_same[OF r] conserves_same by blast
  ultimately show "conserves (fee q) (s, d) (issueSend ?q s1 d1)" by (rule conserves_after[rotated])
next
  fix i runID s1 d1
  assume m: "seeding q s d" and r: "reserveRun s d = (runID, s1, d1)" and p: "q_params q = PDeliver i"
  let ?q = "q\<lparr>q_runID := runID, q_params := PDeliver (i\<lparr>dq_RunID := runID\<rparr>)\<rparr>"
  let ?s = "s1\<lparr>s_runFromTrace := q_traceCopy q, s_runFromCompletion := q_completion q\<rparr>"
  have "kept_ok ?q" "q_method ?q \<noteq> ''session.close''"
    using assms(1) m by (auto simp: issuable_def kept_ok_def seeding_def)
  then have "conserves (fee ?q) (?s, d1) (issueSend ?q ?s d1)" by (rule conserves_issueSend)
  then have "conserves (fee q) (?s, d1) (issueSend ?q ?s d1)" by (simp add: kept_ok_fee)
  moreover have "same_ledger s ?s" "keeps d d1" using reserveRun_same[OF r] by (simp_all add: same_ledger_def)
  then have "conserves {#} (s, d) (?s, d1)" by (rule conserves_same)
  ultimately show "conserves (fee q) (s, d) (issueSend ?q ?s d1)" by (rule conserves_after[rotated])
next
  fix sid
  assume m: "q_method q \<noteq> ''session.close''"
  let ?q = "q\<lparr>q_params := canonicalParams sid (q_params q)\<rparr>"
  have "kept_ok ?q" using assms(1) kept_ok_canonical by (simp add: issuable_def)
  moreover have "q_method ?q \<noteq> ''session.close''" using m by simp
  ultimately have "conserves (fee ?q) (s, d) (issueSend ?q s d)" by (rule conserves_issueSend)
  then show "conserves (fee q) (s, d) (issueSend ?q s d)" by (simp add: kept_ok_fee)
qed

lemma setDeadline_identity [simp]: "s_identity (setDeadline at s d) = s_identity s"
  by (simp add: setDeadline_def stopAutoClose_def Let_def)

lemma refuseRun_identity [simp]: "s_identity (fst (refuseRun r s d)) = s_identity s"
  by (simp add: refuseRun_def Let_def)

lemma writeDeferredClose_identity [simp]: "s_identity (fst (writeDeferredClose s d)) = s_identity s"
  by (auto simp: writeDeferredClose_def hardStop_def recordStop_def Let_def split: option.splits prod.splits)

lemma beginClose_identity [simp]: "s_identity (fst (beginClose q s d)) = s_identity s"
  by (cases "q_params q") (simp_all add: beginClose_def settleDeferredDeliveries_def stopAutoClose_def)

lemma issueSend_identity [simp]: "s_identity (fst (issueSend q s d)) = s_identity s"
proof (rule issueSend_rule)
  fix d1 s2 d2
  let ?s1 = "s\<lparr>s_nextOut := s_nextOut s + 1\<rparr>"
  assume e: "(s2, d2) = (if q_runID q \<noteq> [] then refuseRun (q_runID q) ?s1 d1 else (?s1, d1))"
  have "s2 = fst (if q_runID q \<noteq> [] then refuseRun (q_runID q) ?s1 d1 else (?s1, d1))" by (simp flip: e)
  then show "s_identity (fst (s2, answerRouted q (codeAnswer NotConnected) s2 d2)) = s_identity s" by simp
qed simp

lemma reserveRun_identity: "reserveRun s d = (r, s1, d1) \<Longrightarrow> s_identity s1 = s_identity s"
  by (auto simp: reserveRun_def Let_def split: prod.splits)

lemma issue_identity [simp]: "s_identity (fst (issue q s d)) = s_identity s"
  by (rule issue_rule) (simp_all add: reserveRun_identity)

lemma deferred_issuable: "q_scheduled q \<Longrightarrow> kept_ok q \<Longrightarrow> issuable q \<and> fee q = {#}"
  by (auto simp: kept_ok_def issuable_def asExecute_def fee_def)

lemma conserves_pop:
  "s_deferredDeliveries s = q # rest \<Longrightarrow> conserves {#} (s, d) (s\<lparr>s_deferredDeliveries := rest\<rparr>, d)"
  by (auto simp: conserves_def tidy_def close_ok_def owed_def split: option.splits)

lemma conserves_startDeferredDelivery:
  "s_identity s \<noteq> None \<Longrightarrow> conserves {#} (s, d) (startDeferredDelivery s d)"
proof (induction s d rule: startDeferredDelivery.induct)
  case (1 s d)
  show ?case
  proof (cases "s_runID s \<noteq> [] \<or> s_deferredDeliveries s = [] \<or> \<not> tidy s")
    case True
    then show ?thesis by (auto simp: conserves_def startDeferredDelivery.simps[of s d])
  next
    case False
    then obtain q rest where q: "s_deferredDeliveries s = q # rest" by (cases "s_deferredDeliveries s") auto
    let ?s1 = "s\<lparr>s_deferredDeliveries := rest\<rparr>"
    from False q have "q_scheduled q" "kept_ok q" by (auto simp: tidy_def close_ok_def)
    then have i: "conserves {#} (?s1, d) (issue q ?s1 d)"
      using conserves_issue[of q ?s1 d] deferred_issuable 1(2) by simp
    have "conserves {#} (fst (issue q ?s1 d), snd (issue q ?s1 d)) (startDeferredDelivery (fst (issue q ?s1 d)) (snd (issue q ?s1 d)))"
      using 1(1)[OF _ q refl] False 1(2) by simp
    with conserves_then[OF conserves_after[OF conserves_pop[OF q] i]] show ?thesis
      using False q by (simp add: startDeferredDelivery.simps[of s d] Let_def)
  qed
qed

section \<open>The worker's responses\<close>

lemma owed_del:
  assumes "tidy s" "gm_get (s_pending s) k = Some q"
  shows "owed s = owed (s\<lparr>s_pending := gm_del k (s_pending s)\<rparr>) + claims q"
    "tidy (s\<lparr>s_pending := gm_del k (s_pending s)\<rparr>)"
proof -
  have ok: "gm_ok (s_pending s)" using assms(1) by (simp add: tidy_def pending_ok_def)
  show e: "owed s = owed (s\<lparr>s_pending := gm_del k (s_pending s)\<rparr>) + claims q"
    using mset_gm_del[OF ok assms(2)] by (simp add: owed_def)
  have "owed (s\<lparr>s_pending := gm_del k (s_pending s)\<rparr>) \<subseteq># owed s" unfolding e by simp
  then have "once (owed (s\<lparr>s_pending := gm_del k (s_pending s)\<rparr>))" using assms(1) once_mono by (auto simp: tidy_def)
  then show "tidy (s\<lparr>s_pending := gm_del k (s_pending s)\<rparr>)"
    using assms(1) pending_ok_del by (simp add: tidy_def)
qed

lemma conserves_del:
  assumes "tidy s \<Longrightarrow> conserves (claims q) (s\<lparr>s_pending := gm_del k (s_pending s)\<rparr>, d) y" "gm_get (s_pending s) k = Some q"
  shows "conserves {#} (s, d) y"
proof (cases "tidy s")
  case True
  have "once (owed s)" using True by (simp add: tidy_def)
  with assms(1)[OF True] owed_del[OF True assms(2)] show ?thesis
    unfolding conserves_def fst_conv snd_conv by (metis (no_types, lifting) add.assoc add.right_neutral)
qed (simp add: conserves_def)

lemma conserves_deferDelivery:
  assumes "kept_ok q" "q_method q = ''message.deliver''" "s_identity s \<noteq> None" "s_closeCall s = None"
  shows "conserves (fee q) (s, d) (deferDelivery q s d)"
proof -
  have i: "issuable q" using assms(1,2) by (simp add: issuable_def asExecute_def)
  let ?q = "q\<lparr>q_scheduled := True, q_reply := None\<rparr>"
  have "kept_ok ?q" using assms(1,2) by (simp add: kept_ok_def)
  then have "conserves (fee q) (s, d) (s\<lparr>s_deferredDeliveries := s_deferredDeliveries s @ [?q]\<rparr>, answerRouted q queuedReceipt s d)"
    using answerRouted_books[OF assms(1), of queuedReceipt s d] assms(4)
    by (auto simp: conserves_def tidy_def close_ok_def owed_def fee_def)
  with conserves_issue[OF i assms(3)] conserves_answer[OF assms(1) same_ledger_refl keeps_refl] show ?thesis
    by (simp add: deferDelivery_def fee_def)
qed

lemma conserves_refusedResponse:
  assumes "kept_ok q" "s_identity s \<noteq> None"
  shows "conserves (fee q) (s, d) (refusedResponse q err s d)"
proof -
  let ?x = "if q_runID q \<noteq> [] \<and> (q_method q = ''turn.execute'' \<or> er_Code err \<noteq> Internal) then refuseRun (q_runID q) s d else (s, d)"
  have s: "same_ledger s (fst ?x)" "keeps d (snd ?x)" "s_identity (fst ?x) = s_identity s"
    using refuseRun_same[of s "q_runID q" d] by simp_all
  have "conserves (fee q) (s, d) (fst ?x, answerRouted q (errorAnswer err) (fst ?x) (snd ?x))"
    using conserves_answer[OF assms(1) s(1,2)] by (simp add: fee_def)
  from conserves_then[OF this conserves_startDeferredDelivery] s(3) assms(2) show ?thesis
    by (simp add: refusedResponse_def split_beta Let_def)
qed

lemma conserves_executeResponse:
  assumes "kept_ok q" "q_method q = ''turn.execute''" "s_identity s \<noteq> None"
  shows "conserves (fee q) (s, d) (executeResponse q ref s d)"
proof -
  let ?q = "q\<lparr>q_method := ''turn.wait'', q_runID := [],
     q_params := PWait \<lparr>wq_SessionID = rr_SessionID ref, wq_RunID = rr_RunID ref, wq_TimeoutMS = None\<rparr>\<rparr>"
  have ns: "\<not> q_scheduled q" using assms(1,2) by (auto simp: kept_ok_def)
  then have "issuable ?q" "fee ?q = fee q" using assms(1) by (simp_all add: issuable_def kept_ok_def asExecute_def fee_def)
  then have i: "conserves (fee q) (s, d) (issue ?q s d)" using conserves_issue[of ?q s d] assms(3) by simp
  have a: "conserves (fee q) (s, d) (s, answerRouted q val s (closeWire (s_self s) d))"
    "conserves (fee q) (s, d) (s, answerRouted q val s d)" for val
    using conserves_answer[OF assms(1) same_ledger_refl keeps_upd(5)] conserves_answer[OF assms(1) same_ledger_refl keeps_refl]
    by (simp_all add: fee_def)
  show ?thesis unfolding executeResponse_def Let_def using i a by (simp only: if_split) blast
qed

lemma recordAcknowledgment_same [simp]: "same_ledger s (recordAcknowledgment ref s d)"
  by (simp add: recordAcknowledgment_def same_ledger_def Let_def split: prod.splits option.splits)

lemma decode_execute: "DecodeResult ''turn.execute'' r = Some v \<Longrightarrow> \<exists>ref. v = VRunRef ref"
  using DecodeResult_type[of "''turn.execute''" r v] by (cases v) (simp_all add: methodCodecs_def codec_def)

lemma conserves_valueResponse:
  assumes "kept_ok q" "s_identity s \<noteq> None" "DecodeResult (q_method q) r = Some v"
  shows "conserves (fee q) (s, d) (valueResponse q v s d)"
proof (cases "q_method q = ''turn.execute''")
  case True
  with decode_execute assms(3) obtain ref where "v = VRunRef ref" by metis
  with True conserves_executeResponse[OF assms(1) True assms(2)] show ?thesis by (simp add: valueResponse_def)
next
  case False
  show ?thesis
  proof (cases "q_method q = ''turn.ack''")
    case ack: True
    with assms(1) obtain i where "q_params q = PRunRef i" by (auto simp: kept_ok_def)
    with ack conserves_answer[OF assms(1) recordAcknowledgment_same keeps_refl] show ?thesis
      by (simp add: valueResponse_def fee_def Let_def)
  next
    case na: False
    with False conserves_answer[OF assms(1) same_ledger_refl keeps_refl] show ?thesis
      by (simp add: valueResponse_def fee_def)
  qed
qed

lemma conserves_finishCloseResponse: "conserves {#} (s, d) (finishCloseResponse frame s d)"
  using conserves_same[OF same_ledger_refl keeps_upd(5)] conserves_stop(2) by (simp add: finishCloseResponse_def)

lemma conserves_handleResponse:
  assumes "kept_ok q" "q_method q = ''session.close'' \<longrightarrow> q_destination q = s_identity s \<and> current (s_identity s) (s_self s) d"
  shows "conserves (claims q) (s, d) (handleResponse q frame s d)"
proof (cases "q_destination q \<noteq> s_identity s \<or> \<not> current (q_destination q) (s_self s) d")
  case True
  with assms(2) have "q_method q \<noteq> ''session.close''" by auto
  with True conserves_answer[OF assms(1) same_ledger_refl keeps_refl] show ?thesis
    by (simp add: handleResponse_def claims_fee fee_def)
next
  case here: False
  then have i: "s_identity s \<noteq> None" by (auto simp: current_def split: option.splits)
  show ?thesis
  proof (cases "q_method q = ''session.close''")
    case True
    with here conserves_finishCloseResponse[of s d frame] show ?thesis by (simp add: handleResponse_def claims_def)
  next
    case False
    then have c: "claims q = fee q" by (rule claims_fee)
    show ?thesis
    proof (cases "fr_Error frame")
      case (Some err)
      with here False c conserves_deferDelivery[OF assms(1) _ i] conserves_refusedResponse[OF assms(1) i] show ?thesis
        by (simp add: handleResponse_def)
    next
      case None
      show ?thesis
      proof (cases "DecodeResult (q_method q) (fr_Result frame)")
        case n: None
        with here False None c conserves_answer[OF assms(1) same_ledger_refl keeps_upd(5)] show ?thesis
          by (simp add: handleResponse_def fee_def Let_def)
      next
        case v: (Some v)
        with here False None c conserves_valueResponse[OF assms(1) i v] show ?thesis by (simp add: handleResponse_def)
      qed
    qed
  qed
qed

lemma conserves_receiveResponse:
  assumes "s_closeCall s \<noteq> None \<longrightarrow> q_destination (the (s_closeCall s)) = s_identity s \<and> current (s_identity s) (s_self s) d"
  shows "conserves {#} (s, d) (receiveResponse frame s d)"
proof (cases "gm_get (s_pending s) (fr_ID frame)")
  case None
  have "conserves {#} (s, d) (s\<lparr>s_stopping := True\<rparr>, closeWire (s_self s) d)"
    by (rule conserves_same) (simp_all add: same_ledger_def)
  with None show ?thesis by (simp add: receiveResponse_def)
next
  case (Some q)
  let ?s1 = "s\<lparr>s_pending := gm_del (fr_ID frame) (s_pending s)\<rparr>"
  have h: "conserves (claims q) (?s1, d) (handleResponse q frame ?s1 d)" if t: "tidy s"
  proof (rule conserves_handleResponse)
    have q: "kept_ok q" "q_method q = ''session.close'' \<longrightarrow> s_closeCall s = Some q"
      using t pending_ok_get[OF _ Some] unfolding tidy_def by blast+
    then show "kept_ok q" by simp
    show "q_method q = ''session.close'' \<longrightarrow> q_destination q = s_identity ?s1 \<and> current (s_identity ?s1) (s_self ?s1) d"
      using q(2) assms by auto
  qed
  from conserves_del[OF h Some] have e: "conserves {#} (s, d) (handleResponse q frame ?s1 d)" .
  have "conserves {#} (s, d) (writeDeferredClose (fst (handleResponse q frame ?s1 d)) (snd (handleResponse q frame ?s1 d)))"
    using conserves_then[OF e conserves_writeDeferredClose[of "fst (handleResponse q frame ?s1 d)" "snd (handleResponse q frame ?s1 d)", unfolded prod.collapse]] .
  with e Some show ?thesis by (simp add: receiveResponse_def Let_def split_beta)
qed

section \<open>Settling everything\<close>

lemma settleOne_books:
  assumes "kept_ok q" "q_method q = ''session.close'' \<longrightarrow> s_closeCall s = Some q"
    "claims q = {#} \<or> (\<forall>c. s_closeCall s = Some c \<longrightarrow> q_reply c \<noteq> q_reply q)"
    "\<forall>c. s_closeCall s = Some c \<longrightarrow> q_reply c \<noteq> None"
  shows "paid (settleOne code s q d) = paid d + claims q" "n_chan (settleOne code s q d) = n_chan d"
    "\<forall>start. l_reply (h_launch (settleOne code s q d) start) = l_reply (h_launch d start)"
proof -
  let ?d1 = "if q_method q = ''turn.run'' then finishRun (s_identity s) (s_self s) d else d"
  have k: "paid ?d1 = paid d" "n_chan ?d1 = n_chan d" "h_launch ?d1 = h_launch d"
    by (simp_all add: paid_def finishRun_def upd_entry_def split: option.split)
  note a = answerRouted_books[OF assms(1), of "codeAnswer code" s ?d1]
  consider "q_method q = ''session.close''" "s_closeCall s = Some q" | "q_scheduled q" | "\<not> q_scheduled q" "q_method q \<noteq> ''session.close''"
    using assms(2) by blast
  then have "paid (settleOne code s q d) = paid d + claims q \<and> n_chan (settleOne code s q d) = n_chan d
      \<and> h_launch (settleOne code s q d) = h_launch d"
  proof cases
    case 1
    then show ?thesis using k by (simp add: settleOne_def claims_def)
  next
    case 2
    then have r: "q_reply q = None" using assms(1) by (simp add: kept_ok_def)
    have "settleOne code s q d = answerRouted q (codeAnswer code) s ?d1"
      unfolding settleOne_def Let_def using r assms(4) by (auto split: option.splits)
    with 2 k a show ?thesis by (simp add: claims_def)
  next
    case 3
    then have "claims q \<noteq> {#}" by (simp add: claims_def)
    with assms(3) have "settleOne code s q d = answerRouted q (codeAnswer code) s ?d1"
      unfolding settleOne_def Let_def by (auto split: option.splits)
    with 3 k a show ?thesis by (simp add: claims_def)
  qed
  then show "paid (settleOne code s q d) = paid d + claims q" "n_chan (settleOne code s q d) = n_chan d"
    "\<forall>start. l_reply (h_launch (settleOne code s q d) start) = l_reply (h_launch d start)" by auto
qed

lemma settleAll_books:
  assumes "\<forall>x \<in> set m. kept_ok (snd x) \<and> (q_method (snd x) = ''session.close'' \<longrightarrow> s_closeCall s = Some (snd x))
      \<and> (claims (snd x) = {#} \<or> (\<forall>c. s_closeCall s = Some c \<longrightarrow> q_reply c \<noteq> q_reply (snd x)))"
    "\<forall>c. s_closeCall s = Some c \<longrightarrow> q_reply c \<noteq> None"
  shows "paid (fold (settleOne code s) (map snd m) d) = paid d + (\<Sum>x \<in># mset m. claims (snd x))
    \<and> n_chan (fold (settleOne code s) (map snd m) d) = n_chan d
    \<and> (\<forall>start. l_reply (h_launch (fold (settleOne code s) (map snd m) d) start) = l_reply (h_launch d start))"
  using assms(1)
proof (induction m arbitrary: d)
  case (Cons x m)
  from Cons.prems have x: "kept_ok (snd x)" "q_method (snd x) = ''session.close'' \<longrightarrow> s_closeCall s = Some (snd x)"
    "claims (snd x) = {#} \<or> (\<forall>c. s_closeCall s = Some c \<longrightarrow> q_reply c \<noteq> q_reply (snd x))" by simp_all
  from settleOne_books[OF x assms(2), of code d] Cons.IH[of "settleOne code s (snd x) d"] Cons.prems show ?case
    by (simp add: add_ac)
qed simp

lemma conserves_settlePending:
  "conserves {#} (s, d) (settlePending code s d)"
proof (cases "tidy s")
  case True
  let ?d1 = "fold (\<lambda>request. answerRouted request (codeAnswer code) s) (s_deferredDeliveries s) d"
  let ?s1 = "s\<lparr>s_deferredDeliveries := []\<rparr>"
  let ?d2 = "fold (settleOne code ?s1) (map snd (s_pending s)) ?d1"
  have e: "settlePending code s d = (?s1\<lparr>s_pending := []\<rparr>, ?d2)"
    by (simp add: settlePending_def settleDeferredDeliveries_def)
  have k: "keeps d ?d1" using True by (intro settle_scheduled) (simp add: tidy_def close_ok_def)
  have c: "\<forall>c. s_closeCall ?s1 = Some c \<longrightarrow> q_reply c \<noteq> None"
    using True by (auto simp: tidy_def close_ok_def kept_ok_def)
  have "claims (snd x) = {#} \<or> (\<forall>c. s_closeCall ?s1 = Some c \<longrightarrow> q_reply c \<noteq> q_reply (snd x))" if x: "x \<in> set (s_pending s)" for x
  proof (rule ccontr)
    assume "\<not> ?thesis"
    then obtain c where c: "claims (snd x) \<noteq> {#}" "s_closeCall s = Some c" "q_reply c = q_reply (snd x)" by auto
    then have cl: "claims (snd x) = {#q_reply c#}" by (simp add: claims_def split: if_splits)
    from x obtain M where "mset (s_pending s) = add_mset x M" by (metis multi_member_split set_mset_mset)
    then have "claims (snd x) \<subseteq># (\<Sum>x \<in># mset (s_pending s). claims (snd x))" by simp
    with cl have "q_reply c \<in># (\<Sum>x \<in># mset (s_pending s). claims (snd x))" by (simp add: single_subset_iff)
    moreover have "owed s = add_mset (q_reply c) (\<Sum>x \<in># mset (s_pending s). claims (snd x))" using c by (simp add: owed_def)
    moreover have "once (owed s)" using True by (simp add: tidy_def)
    ultimately show False using once_add by metis
  qed
  with True have m: "\<forall>x \<in> set (s_pending s). kept_ok (snd x) \<and> (q_method (snd x) = ''session.close'' \<longrightarrow> s_closeCall ?s1 = Some (snd x))
      \<and> (claims (snd x) = {#} \<or> (\<forall>c. s_closeCall ?s1 = Some c \<longrightarrow> q_reply c \<noteq> q_reply (snd x)))"
    by (simp add: tidy_def pending_ok_def)
  have o: "owed s = (\<Sum>x \<in># mset (s_pending s). claims (snd x)) + owed (?s1\<lparr>s_pending := []\<rparr>)" by (simp add: owed_def)
  then have "owed (?s1\<lparr>s_pending := []\<rparr>) \<subseteq># owed s" by simp
  with True have "tidy (?s1\<lparr>s_pending := []\<rparr>)"
    using once_mono by (auto simp: tidy_def pending_ok_def close_ok_def split: option.splits)
  with settleAll_books[OF m c, of code ?d1] keeps_paid[OF k] k o e show ?thesis
    by (simp add: conserves_def keeps_def add_ac)
qed (simp add: conserves_def)

section \<open>Replies, lanes and the end\<close>

text \<open>Everything that neither issues nor answers a routed request.\<close>

definition silent :: "session \<times> daemon \<Rightarrow> session \<times> daemon \<Rightarrow> bool" where
  "silent x y \<longleftrightarrow> same_ledger (fst x) (fst y) \<and> keeps (snd x) (snd y)"

lemma silent_refl [simp]: "silent x x"
  by (simp add: silent_def)

lemma silent_trans: "silent x y \<Longrightarrow> silent y z \<Longrightarrow> silent x z"
  by (auto simp: silent_def intro: same_ledger_trans keeps_trans)

lemma silent_fold: "(\<And>x y. silent x (f y x)) \<Longrightarrow> silent x (fold f ys x)"
proof (induction ys arbitrary: x)
  case (Cons y ys)
  from silent_trans[OF Cons.prems Cons.IH[OF Cons.prems]] show ?case by simp
qed simp

lemma silent_conserves: "silent x y \<Longrightarrow> conserves {#} x y"
  using conserves_same[of "fst x" "fst y" "snd x" "snd y"] by (simp add: silent_def)

lemma silent_hushed: "hushed x y \<Longrightarrow> silent x y"
  by (simp add: silent_def hushed_def same_ledger_quietS keeps_quiet)

lemma silent_logResult: "silent (s, d) (logResult frame val code s d)"
proof -
  obtain evs cs where "logResult frame val code s d = (s\<lparr>s_commsRequests := cs\<rparr>, d\<lparr>d_log := d_log d @ evs\<rparr>)"
    using logResult_effect[of frame val code s d] by blast
  then show ?thesis by (simp add: silent_def same_ledger_def keeps_def)
qed

lemma silent_settleFrame: "silent (s, d) (settleFrame frame val code s d)"
proof -
  obtain s1 d1 where l: "logResult frame val code s d = (s1, d1)" by (cases "logResult frame val code s d")
  have "silent (s1, d1) (finishTrace frame val code [] s1 d1)" by (rule silent_hushed[OF hushed_finishTrace])
  then show ?thesis using silent_trans[OF silent_logResult[of s d frame val code]] l
    by (simp add: settleFrame_def)
qed

lemma silent_releaseTraceTargets: "silent (s, d) (releaseTraceTargets s d)"
  by (simp add: releaseTraceTargets_def silent_def same_ledger_def releaseTrace_def keeps_def)

lemma silent_sendForwarded: "silent (s, d) (sendForwarded ch method val s d)"
proof -
  let ?d1 = "snd (rpcReply method val d)"
  have 1: "keeps d ?d1" by (auto simp: rpcReply_def rpcError_def Let_def)
  have 2: "silent (s, ?d1) (releaseTraceTargets s ?d1)" by (rule silent_releaseTraceTargets)
  have "silent (s, d) (releaseTraceTargets s ?d1)" by (rule silent_trans[OF _ 2]) (use 1 in \<open>simp add: silent_def\<close>)
  then show ?thesis by (simp add: sendForwarded_def traceReply_def Let_def split_beta silent_def)
qed

lemma silent_reject: "silent (s, d) (reject frame code s d)"
proof -
  obtain s1 d1 where l: "settleFrame frame None code s d = (s1, d1)" by (cases "settleFrame frame None code s d")
  have 0: "silent (s, d) (s1, d1)" using silent_settleFrame[of s d frame None code] l by simp
  have 1: "silent (s1, d1) (s1\<lparr>s_stopping := True\<rparr>, closeWire p (snd (finishWire t f d1)))" for p t f
    using keeps_trans[OF keeps_wire(3) keeps_upd(5)] by (simp add: silent_def same_ledger_def)
  have 2: "silent (s1, d1) (s1\<lparr>s_stopping := True\<rparr>, snd (finishWire t f d1))"
    "silent (s1, d1) (s1\<lparr>s_stopping := True\<rparr>, closeWire p d1)" for p t f
    by (simp_all add: silent_def same_ledger_def)
  show ?thesis using silent_trans[OF 0 1] silent_trans[OF 0 2(1)] silent_trans[OF 0 2(2)]
      silent_trans[OF 0 silent_sendForwarded] l
    by (auto simp: reject_def Let_def split_beta split: option.split)
qed

lemma silent_reply:
  "silent (s, d) (result_reply frame v s d)" "silent (s, d) (error_reply frame code data s d)"
proof -
  have w: "silent (s1, d1) (s1, writeOrClose f t d1)" for s1 d1 f t by (simp add: silent_def)
  show "silent (s, d) (result_reply frame v s d)"
    using silent_trans[OF silent_settleFrame silent_sendForwarded[of "fst (settleFrame frame (Some v) 0 s d)" "snd (settleFrame frame (Some v) 0 s d)", unfolded prod.collapse]]
      silent_trans[OF silent_settleFrame w[of "fst (settleFrame frame (Some v) 0 s d)" "snd (settleFrame frame (Some v) 0 s d)", unfolded prod.collapse]]
    by (simp add: result_reply_def Let_def split_beta split: option.split)
  show "silent (s, d) (error_reply frame code data s d)"
    using silent_trans[OF silent_settleFrame silent_sendForwarded[of "fst (settleFrame frame None code s d)" "snd (settleFrame frame None code s d)", unfolded prod.collapse]]
      silent_trans[OF silent_settleFrame w[of "fst (settleFrame frame None code s d)" "snd (settleFrame frame None code s d)", unfolded prod.collapse]]
    by (simp add: error_reply_def Let_def split_beta split: option.split)
qed

lemma silent_detachRequests: "silent (s, d) (detachRequests code s d)"
proof -
  let ?f = "\<lambda>(k, state) (s, d). error_reply (rt_frame state) code None (s\<lparr>s_requests := gm_del k (s_requests s)\<rparr>) d"
  have "silent x (?f y x)" for x y
  proof -
    obtain a b k st where e: "x = (a, b)" "y = (k, st)" by (cases x; cases y)
    have "silent (a, b) (a\<lparr>s_requests := gm_del k (s_requests a)\<rparr>, b)" by (simp add: silent_def same_ledger_def)
    from silent_trans[OF this silent_reply(2)] e show ?thesis by simp
  qed
  then show ?thesis unfolding detachRequests_def by (rule silent_fold)
qed

lemma silent_dropRequests: "silent (s, d) (dropRequests s d)"
proof -
  let ?f = "\<lambda>(k, state) (s, d). let (s1, d1) = settleFrame (rt_frame state) None NotConnected s d
            in (s1\<lparr>s_requests := gm_del k (s_requests s1)\<rparr>, d1)"
  have "silent x (?f y x)" for x y
  proof -
    obtain a b k st where e: "x = (a, b)" "y = (k, st)" by (cases x; cases y)
    show ?thesis using silent_settleFrame[of a b "rt_frame st" None NotConnected] e
      by (simp add: split_beta silent_def same_ledger_def)
  qed
  then show ?thesis unfolding dropRequests_def by (rule silent_fold)
qed

lemma silent_supersede: "silent (s, d) (supersede s d)"
proof (cases "s_stopping s")
  case False
  let ?x = "detachRequests Superseded (s\<lparr>s_stopping := True\<rparr>) (logSession ''superseded'' s d)"
  have "silent (s, d) (s\<lparr>s_stopping := True\<rparr>, logSession ''superseded'' s d)" by (simp add: silent_def same_ledger_def)
  from silent_trans[OF this silent_detachRequests] have 1: "silent (s, d) ?x" .
  let ?s3 = "(fst ?x)\<lparr>s_nextOut := s_nextOut (fst ?x) + 1\<rparr>"
  have 2: "silent ?x (?s3, d')" if "keeps (snd ?x) d'" for d' using that by (simp add: silent_def same_ledger_def)
  have 3: "silent (s, d) (?s3, d')" if "keeps (snd ?x) d'" for d' by (rule silent_trans[OF 1 2[OF that]])
  have k: "keeps (snd ?x) (snd (finishWire t f (snd ?x)))" "keeps (snd ?x) (closeWire p (snd (finishWire t f (snd ?x))))"
    "keeps (snd ?x) (closeWire p (snd ?x))" for t f p
    using keeps_trans[OF keeps_wire(3) keeps_upd(5)] by simp_all
  show ?thesis using False 3[OF k(1)] 3[OF k(2)] 3[OF k(3)]
    by (auto simp: supersede_def Let_def split_beta)
qed (simp add: supersede_def)

lemma conserves_connectionClosed: "conserves {#} (s, d) (connectionClosed s d)"
proof (cases "s_closed s")
  case False
  let ?s1 = "stopAutoClose (s\<lparr>s_stopping := True, s_closed := True\<rparr>)"
  let ?d3 = "detach (s_identity ?s1) (s_self ?s1) (upd_wire (s_self ?s1) OwnerClosed (logSession ''disconnected'' s d))"
  have "keeps d ?d3"
    by (rule keeps_trans[OF keeps_trans[OF keeps_log(1) keeps_upd(3)] keeps_detach])
  then have 1: "conserves {#} (s, d) (?s1, ?d3)"
    by (intro conserves_same) (simp_all add: same_ledger_def stopAutoClose_def)
  let ?y = "settlePending NotConnected ?s1 ?d3"
  have 2: "conserves {#} (s, d) ?y" by (rule conserves_then[OF 1 conserves_settlePending])
  have "conserves {#} ?y (dropRequests (fst ?y) (snd ?y))"
    using silent_conserves[OF silent_dropRequests[of "fst ?y" "snd ?y"]] by simp
  from conserves_then[OF 2 this] False show ?thesis by (simp add: connectionClosed_def Let_def split_beta)
qed (simp add: connectionClosed_def)

lemma connectionClosed_settles:
  assumes "\<not> s_closed s"
  shows "s_pending (fst (connectionClosed s d)) = []" "s_deferredDeliveries (fst (connectionClosed s d)) = []"
proof -
  let ?s1 = "stopAutoClose (s\<lparr>s_stopping := True, s_closed := True\<rparr>)"
  let ?d3 = "detach (s_identity ?s1) (s_self ?s1) (upd_wire (s_self ?s1) OwnerClosed (logSession ''disconnected'' s d))"
  let ?y = "settlePending NotConnected ?s1 ?d3"
  have y: "s_pending (fst ?y) = []" "s_deferredDeliveries (fst ?y) = []"
    by (simp_all add: settlePending_def settleDeferredDeliveries_def Let_def)
  have "same_ledger (fst ?y) (fst (dropRequests (fst ?y) (snd ?y)))"
    using silent_dropRequests[of "fst ?y" "snd ?y"] by (simp add: silent_def)
  with y assms show "s_pending (fst (connectionClosed s d)) = []" "s_deferredDeliveries (fst (connectionClosed s d)) = []"
    by (simp_all add: connectionClosed_def Let_def split_beta same_ledger_def)
qed

definition closing_channel :: "session \<Rightarrow> daemon \<Rightarrow> ptr option multiset" where
  "closing_channel s d =
     (if s_stopping s \<or> s_closeCall s \<noteq> None \<or> \<not> s_committed s \<or> s_identity s = None then {#} else {#Some (n_chan d)#})"

lemma conserves_policyClose: "conserves (closing_channel s d) (s, d) (policyClose s d)"
proof (cases "s_stopping s \<or> s_closeCall s \<noteq> None \<or> \<not> s_committed s")
  case True
  then show ?thesis by (auto simp: policyClose_def closing_channel_def)
next
  case False
  show ?thesis
  proof (cases "s_identity s")
    case None
    with False conserves_same[OF same_ledger_refl keeps_upd(4)] show ?thesis
      by (simp add: policyClose_def closing_channel_def)
  next
    case (Some p)
    let ?d1 = "snd (newChan d)"
    let ?i = "\<lparr>sc_SessionID = r_SessionID (e_row (h_entry ?d1 p)), sc_Forget = False\<rparr>"
    let ?q = "(newRequest ''session.close'' (PClose ?i) (n_chan d))\<lparr>q_destination := Some p\<rparr>"
    have e: "policyClose s d = beginClose ?q (stopAutoClose s) ?d1"
      using False Some by (simp add: policyClose_def newChan_def)
    have 1: "conserves {#} (s, d) (stopAutoClose s, ?d1)"
      by (rule conserves_same) (simp_all add: same_ledger_def stopAutoClose_def)
    have "conserves {#q_reply ?q#} (stopAutoClose s, ?d1) (beginClose ?q (stopAutoClose s) ?d1)"
      by (rule conserves_beginClose) (use False in \<open>simp_all add: newRequest_def kept_ok_def stopAutoClose_def\<close>)
    then have "conserves {#Some (n_chan d)#} (stopAutoClose s, ?d1) (beginClose ?q (stopAutoClose s) ?d1)"
      by (simp add: newRequest_def)
    with conserves_after[OF 1 this] False Some show ?thesis by (simp add: e closing_channel_def)
  qed
qed

lemma ownerEnded_cases: "ownerEnded w s d = (s, d) \<or> ownerEnded w s d = (s, panic d) \<or> ownerEnded w s d = policyClose s d"
  by (simp add: ownerEnded_def split: option.splits)

lemma abortLaunch_same [simp]: "same_ledger s (abortLaunch val s)"
  by (simp add: abortLaunch_def same_ledger_def)

lemma silent_abortAnd:
  "silent (s, d) (abortAnd orderlyStop val s d)" "silent (s, d) (abortAnd hardStop val s d)"
proof -
  have 0: "silent (s, d) (abortLaunch val s, d)" by (simp add: silent_def)
  have "silent (abortLaunch val s, d) (orderlyStop (abortLaunch val s) d)" "silent (abortLaunch val s, d) (hardStop (abortLaunch val s) d)"
    using orderlyStop_same[of "abortLaunch val s" d] recordStop_same[of "abortLaunch val s" SIGKILL d]
    by (simp_all add: silent_def hardStop_def)
  with silent_trans[OF 0] show "silent (s, d) (abortAnd orderlyStop val s d)" "silent (s, d) (abortAnd hardStop val s d)"
    by (simp_all add: abortAnd_def)
qed

lemma silent_beginOpen: "silent (s, d) (beginOpen s d)"
proof -
  have a: "silent (s, d) (abortAnd hardStop val (s\<lparr>s_nextOut := s_nextOut s + 1\<rparr>) (snd (writeFrame f t d)))" for val f t
    by (rule silent_trans[OF _ silent_abortAnd(2)]) (simp add: silent_def same_ledger_def)
  have b: "silent (s, d) (s\<lparr>s_nextOut := s_nextOut s + 1, s_openID := n\<rparr>, snd (writeFrame f t d))" for n f t
    by (simp add: silent_def same_ledger_def)
  show ?thesis using a b
    by (auto simp: beginOpen_def Let_def split_beta silent_def[of "(s, d)" "(s, panic d)"] split: option.split)
qed

lemma silent_startLane: "silent (s, d) (startLane start frame hello s d)"
proof -
  let ?s1 = "s\<lparr>s_launch := Some start, s_identity := l_entry (h_launch d start), s_owned := 1\<rparr>"
  have 0: "silent (s, d) (?s1, d)" by (simp add: silent_def same_ledger_def)
  let ?y = "result_reply frame VEmpty ?s1 d"
  have y: "silent (s, d) ?y" by (rule silent_trans[OF 0 silent_reply(1)])
  have b: "silent (s, d) (beginOpen (fst ?y) (snd ?y))"
    using silent_trans[OF y] silent_beginOpen[of "fst ?y" "snd ?y"] by simp
  have c: "silent (s, d) (?s1\<lparr>s_launchResult := r, s_stopping := True\<rparr>, snd (finishWire ?s1 f d))" for r f
    by (simp add: silent_def same_ledger_def)
  have p: "silent (s, d) (?s1, panic d)" by (simp add: silent_def same_ledger_def)
  show ?thesis using b c p by (auto simp: startLane_def Let_def split_beta split: option.split)
qed

lemma silent_handleProcess: "silent (s, d) (handleProcess l c ex err s d)"
  by (auto simp: handleProcess_def Let_def silent_def same_ledger_def abortLaunch_def split: option.split)

text \<open>A committed open answers the launch; every other end of an open is silent.\<close>

lemma conserves_pay:
  assumes "keeps d d'" "same_ledger s s'"
  shows "conserves {#Some ch#} (s, d) (s', sendAnswer (Some ch) val d')"
  using assms keeps_paid[OF assms(1)] same_ledger_owed[OF assms(2)] same_ledger_tidy[OF assms(2)]
  by (auto simp: conserves_def sendAnswer_def keeps_def paid_def)

section \<open>What the operations keep of a lane's state\<close>

definition same_lane :: "session \<Rightarrow> session \<Rightarrow> bool" where
  "same_lane s s' \<longleftrightarrow> s_launch s' = s_launch s \<and> s_committed s' = s_committed s \<and> s_launchResult s' = s_launchResult s
     \<and> s_openID s' = s_openID s \<and> s_closed s' = s_closed s \<and> s_identity s' = s_identity s \<and> s_self s' = s_self s
     \<and> (s_stopping s \<longrightarrow> s_stopping s')"

lemma same_lane_refl [simp]: "same_lane s s"
  by (simp add: same_lane_def)

lemma same_lane_trans: "same_lane a b \<Longrightarrow> same_lane b c \<Longrightarrow> same_lane a c"
  by (auto simp: same_lane_def)

lemma same_lane_quietS: "quietS s s' \<Longrightarrow> same_lane s s'"
  by (simp add: same_lane_def quietS_fields)

lemma same_lane_fold: "(\<And>x y. same_lane (fst x) (fst (f y x))) \<Longrightarrow> same_lane (fst x) (fst (fold f ys x))"
proof (induction ys arbitrary: x)
  case (Cons y ys)
  from same_lane_trans[OF Cons.prems Cons.IH[OF Cons.prems]] show ?case by simp
qed simp

lemma lane_setDeadline [simp]: "same_lane s (setDeadline at s d)"
  by (simp add: setDeadline_def stopAutoClose_def same_lane_def Let_def)

lemma lane_refuseRun: "same_lane s (fst (refuseRun r s d))"
  by (simp add: refuseRun_def Let_def setDeadline_def stopAutoClose_def same_lane_def)

lemma lane_reserveRun: "reserveRun s d = (r, s1, d1) \<Longrightarrow> same_lane s s1"
  by (auto simp: reserveRun_def Let_def setDeadline_def stopAutoClose_def same_lane_def split: prod.splits)

lemma lane_stop [simp]: "same_lane s (fst (hardStop s d))" "same_lane s (fst (orderlyStop s d))"
  by (simp_all add: hardStop_def orderlyStop_def recordStop_def Let_def same_lane_def)

lemma lane_writeDeferredClose [simp]: "same_lane s (fst (writeDeferredClose s d))"
proof -
  have "same_lane s (fst (hardStop (s\<lparr>s_nextOut := n\<rparr>) e))" for n e
    by (rule same_lane_trans[OF _ lane_stop(1)]) (simp add: same_lane_def)
  moreover have "same_lane s (s\<lparr>s_nextOut := n\<rparr>)" "same_lane s (s\<lparr>s_nextOut := n, s_pending := m\<rparr>)" for n m
    by (simp_all add: same_lane_def)
  ultimately show ?thesis by (simp add: writeDeferredClose_def Let_def split_beta split: option.split)
qed

lemma lane_beginClose [simp]: "same_lane s (fst (beginClose q s d))"
proof -
  let ?s2 = "(stopAutoClose s)\<lparr>s_deferredDeliveries := [], s_closeCall := Some q, s_closeTimer := True\<rparr>"
  have "same_lane s (fst (writeDeferredClose (?s2\<lparr>s_forget := b\<rparr>) e))" for b e
    by (rule same_lane_trans[OF _ lane_writeDeferredClose]) (simp add: same_lane_def stopAutoClose_def)
  moreover have "same_lane s ?s2" by (simp add: same_lane_def stopAutoClose_def)
  ultimately show ?thesis by (simp add: beginClose_def settleDeferredDeliveries_def Let_def split: params.split)
qed

lemma lane_policyClose [simp]: "same_lane s (fst (policyClose s d))"
proof -
  have "same_lane s (fst (beginClose q (stopAutoClose s) e))" for q e
    by (rule same_lane_trans[OF _ lane_beginClose]) (simp add: same_lane_def stopAutoClose_def)
  then show ?thesis by (simp add: policyClose_def Let_def split_beta split: option.split)
qed

lemma lane_ownerEnded [simp]: "same_lane s (fst (ownerEnded w s d))"
  using ownerEnded_cases[of w s d] by auto

lemma lane_issueSend: "same_lane s (fst (issueSend q s d))"
proof (rule issueSend_rule)
  fix d1 s2 d2
  let ?s1 = "s\<lparr>s_nextOut := s_nextOut s + 1\<rparr>"
  assume e: "(s2, d2) = (if q_runID q \<noteq> [] then refuseRun (q_runID q) ?s1 d1 else (?s1, d1))"
  have "s2 = fst (if q_runID q \<noteq> [] then refuseRun (q_runID q) ?s1 d1 else (?s1, d1))" by (simp flip: e)
  then have "same_lane ?s1 s2" by (simp add: lane_refuseRun)
  then show "same_lane s (fst (s2, answerRouted q (codeAnswer NotConnected) s2 d2))" by (simp add: same_lane_def)
qed (simp add: same_lane_def)

lemma lane_issue [simp]: "same_lane s (fst (issue q s d))"
proof (rule issue_rule)
  fix i sid runID s1 d1
  assume "reserveRun s d = (runID, s1, d1)"
  from same_lane_trans[OF lane_reserveRun[OF this] lane_issueSend]
  show "same_lane s (fst (issueSend ((asExecute q)\<lparr>q_runID := runID,
     q_params := PExecute \<lparr>ex_SessionID = sid, ex_RunID = runID, ex_Input = tq_Input i\<rparr>\<rparr>) s1 d1))" .
next
  fix i runID s1 d1
  assume r: "reserveRun s d = (runID, s1, d1)"
  let ?s = "s1\<lparr>s_runFromTrace := q_traceCopy q, s_runFromCompletion := q_completion q\<rparr>"
  have "same_lane s ?s" using lane_reserveRun[OF r] by (simp add: same_lane_def)
  from same_lane_trans[OF this lane_issueSend]
  show "same_lane s (fst (issueSend (q\<lparr>q_runID := runID, q_params := PDeliver (i\<lparr>dq_RunID := runID\<rparr>)\<rparr>) ?s d1))" .
qed (simp_all add: lane_issueSend)

lemma lane_startDeferredDelivery [simp]: "same_lane s (fst (startDeferredDelivery s d))"
proof (induction s d rule: startDeferredDelivery.induct)
  case (1 s d)
  show ?case
  proof (cases "s_runID s \<noteq> [] \<or> s_deferredDeliveries s = []")
    case False
    then obtain q rest where q: "s_deferredDeliveries s = q # rest" by (cases "s_deferredDeliveries s") auto
    let ?x = "issue q (s\<lparr>s_deferredDeliveries := rest\<rparr>) d"
    have "same_lane s (s\<lparr>s_deferredDeliveries := rest\<rparr>)" by (simp add: same_lane_def)
    from same_lane_trans[OF same_lane_trans[OF this lane_issue]] 1[OF _ q refl] False q show ?thesis
      by (simp add: startDeferredDelivery.simps[of s d] Let_def)
  qed (auto simp: startDeferredDelivery.simps[of s d])
qed

lemma lane_responses [simp]:
  "same_lane s (fst (deferDelivery q s d))" "same_lane s (fst (refusedResponse q err s d))"
  "same_lane s (fst (executeResponse q ref s d))" "same_lane s (fst (valueResponse q v s d))"
  "same_lane s (fst (finishCloseResponse frame s d))"
proof -
  show "same_lane s (fst (deferDelivery q s d))" by (simp add: deferDelivery_def) (simp add: same_lane_def)
  show "same_lane s (fst (refusedResponse q err s d))"
    using same_lane_trans[OF lane_refuseRun lane_startDeferredDelivery]
    by (simp add: refusedResponse_def Let_def split_beta)
  show ex: "same_lane s (fst (executeResponse q ref s d))" for ref by (simp add: executeResponse_def Let_def)
  have "same_lane s (recordAcknowledgment r s d)" for r
    by (simp add: recordAcknowledgment_def same_lane_def Let_def split: prod.splits option.splits)
  with ex show "same_lane s (fst (valueResponse q v s d))"
    by (simp add: valueResponse_def Let_def split: result.split params.split)
  show "same_lane s (fst (finishCloseResponse frame s d))" by (simp add: finishCloseResponse_def)
qed

lemma lane_handleResponse [simp]: "same_lane s (fst (handleResponse q frame s d))"
  by (simp add: handleResponse_def Let_def split: option.split)

lemma lane_receiveResponse [simp]: "same_lane s (fst (receiveResponse frame s d))"
proof (cases "gm_get (s_pending s) (fr_ID frame)")
  case None
  then show ?thesis by (simp add: receiveResponse_def same_lane_def)
next
  case (Some q)
  let ?s1 = "s\<lparr>s_pending := gm_del (fr_ID frame) (s_pending s)\<rparr>"
  have "same_lane s ?s1" by (simp add: same_lane_def)
  from same_lane_trans[OF this lane_handleResponse] have h: "same_lane s (fst (handleResponse q frame ?s1 d))" .
  from h same_lane_trans[OF h lane_writeDeferredClose] Some show ?thesis
    by (simp add: receiveResponse_def Let_def split_beta)
qed

lemma lane_settlePending [simp]: "same_lane s (fst (settlePending code s d))"
  by (simp add: settlePending_def settleDeferredDeliveries_def Let_def same_lane_def)

lemma lane_settleFrame: "same_lane s (fst (settleFrame frame val code s d))"
proof -
  obtain s1 d1 where l: "logResult frame val code s d = (s1, d1)" by (cases "logResult frame val code s d")
  then obtain cs where "s1 = s\<lparr>s_commsRequests := cs\<rparr>" using logResult_effect[of frame val code s d] by auto
  then have "same_lane s s1" by (simp add: same_lane_def)
  moreover have "same_lane s1 (fst (finishTrace frame val code [] s1 d1))"
    using hushed_finishTrace[of s1 d1 frame val code "[]"] same_lane_quietS by (simp add: hushed_def)
  ultimately show ?thesis using same_lane_trans l by (simp add: settleFrame_def)
qed

lemma lane_sendForwarded: "same_lane s (fst (sendForwarded ch m v s d))"
  by (simp add: sendForwarded_def traceReply_def releaseTraceTargets_def Let_def split_beta same_lane_def)

lemma lane_replies [simp]:
  "same_lane s (fst (reject frame code s d))" "same_lane s (fst (result_reply frame v s d))"
  "same_lane s (fst (error_reply frame code data s d))"
proof -
  have stop: "same_lane (s1\<lparr>s_stopping := True\<rparr>) s2 \<Longrightarrow> same_lane s1 s2" for s1 s2 by (simp add: same_lane_def)
  have settle: "same_lane s (fst (settleFrame frame w c s d))" for w c by (rule lane_settleFrame)
  have "same_lane s ((fst (settleFrame frame None code s d))\<lparr>s_stopping := True\<rparr>)"
    using settle[of None code] by (simp add: same_lane_def)
  with settle same_lane_trans[OF settle lane_sendForwarded]
  show "same_lane s (fst (reject frame code s d))" "same_lane s (fst (result_reply frame v s d))"
    "same_lane s (fst (error_reply frame code data s d))"
    by (simp_all add: reject_def result_reply_def error_reply_def Let_def split_beta split: option.split)
qed

lemma lane_dropRequests [simp]: "same_lane s (fst (dropRequests s d))"
proof -
  have "same_lane (fst x) (fst ((\<lambda>(k, state) (s, d).
            let (s1, d1) = settleFrame (rt_frame state) None NotConnected s d
            in (s1\<lparr>s_requests := gm_del k (s_requests s1)\<rparr>, d1)) y x))" for x y
    using lane_settleFrame[of "fst x" "rt_frame (snd y)" None NotConnected "snd x"]
    by (simp add: split_beta Let_def same_lane_def)
  from same_lane_fold[OF this, of "(s, d)"] show ?thesis unfolding dropRequests_def by simp
qed

lemma lane_supersede [simp]: "same_lane s (fst (supersede s d))"
proof -
  have d: "same_lane s (fst (detachRequests code s d))" for code s d
  proof -
    have "same_lane (fst x) (fst ((\<lambda>(k, state) (s, d).
        error_reply (rt_frame state) code None (s\<lparr>s_requests := gm_del k (s_requests s)\<rparr>) d) y x))" for x y
    proof -
      have "same_lane (fst x) ((fst x)\<lparr>s_requests := gm_del (fst y) (s_requests (fst x))\<rparr>)" by (simp add: same_lane_def)
      from same_lane_trans[OF this lane_replies(3)] show ?thesis by (simp add: split_beta)
    qed
    from same_lane_fold[OF this, of "(s, d)"] show ?thesis unfolding detachRequests_def by simp
  qed
  let ?x = "detachRequests Superseded (s\<lparr>s_stopping := True\<rparr>) (logSession ''superseded'' s d)"
  have "same_lane s (fst ?x)" using d[of "s\<lparr>s_stopping := True\<rparr>"] by (simp add: same_lane_def)
  then have "same_lane s ((fst ?x)\<lparr>s_nextOut := n\<rparr>)" for n by (simp add: same_lane_def)
  then show ?thesis by (simp add: supersede_def Let_def split_beta)
qed

lemma lane_turnReady [simp]: "same_lane s (fst (turnReady frame ready s d))"
proof -
  have "same_lane s (fst (turnSettled frame ready s d))"
  proof -
    let ?s1 = "s\<lparr>s_runID := [], s_runFromTrace := False, s_runFromCompletion := False\<rparr>"
    have 1: "same_lane s ?s1" by (simp add: same_lane_def)
    have 2: "same_lane s s2 \<Longrightarrow> same_lane s (fst (startDeferredDelivery (fst (result_reply frame VEmpty s2 e)) (snd (result_reply frame VEmpty s2 e))))" for s2 e
      using same_lane_trans[OF same_lane_trans[OF _ lane_replies(2)] lane_startDeferredDelivery] by blast
    show ?thesis using 1 2[OF 1] 2[OF same_lane_trans[OF 1 lane_setDeadline]]
      by (simp add: turnSettled_def Let_def split_beta split: option.split)
  qed
  then show ?thesis by (simp add: turnReady_def split_beta)
qed

lemma conserves_turnReady:
  assumes "s_identity s \<noteq> None"
  shows "conserves {#} (s, d) (fst (turnReady frame ready s d), fst (snd (turnReady frame ready s d)))"
proof -
  have "conserves {#} (s, d) (fst (turnSettled frame ready s d), fst (snd (turnSettled frame ready s d)))"
  proof -
    let ?s1 = "s\<lparr>s_runID := [], s_runFromTrace := False, s_runFromCompletion := False\<rparr>"
    let ?d1 = "finishRun (s_identity ?s1) (s_self ?s1) (logRun ''turn.ready'' (ty_RunID ready) ''settled'' (ty_Outcome ready) s d)"
    have k: "keeps d ?d1" by (rule keeps_trans[OF keeps_log(2) keeps_upd(13)])
    have 1: "silent (s, d) (?s1, ?d1)" using k by (simp add: silent_def same_ledger_def)
    have p: "conserves {#} (s, d) (?s1, panic ?d1)"
      by (rule silent_conserves, rule silent_trans[OF 1]) (simp add: silent_def)
    have 2: "conserves {#} (s, d) (startDeferredDelivery (fst (result_reply frame VEmpty s2 ?d1)) (snd (result_reply frame VEmpty s2 ?d1)))"
      if s2: "same_ledger ?s1 s2" "same_lane ?s1 s2" for s2
    proof -
      have "silent (?s1, ?d1) (s2, ?d1)" using s2(1) by (simp add: silent_def)
      from silent_trans[OF silent_trans[OF 1 this] silent_reply(1)]
      have a: "conserves {#} (s, d) (result_reply frame VEmpty s2 ?d1)" by (rule silent_conserves)
      have "same_lane s2 (fst (result_reply frame VEmpty s2 ?d1))" by simp
      with s2(2) assms have "s_identity (fst (result_reply frame VEmpty s2 ?d1)) \<noteq> None" by (simp add: same_lane_def)
      from conserves_then[OF a conserves_startDeferredDelivery[OF this, of "snd (result_reply frame VEmpty s2 ?d1)", unfolded prod.collapse]]
      show ?thesis .
    qed
    show ?thesis using p 2[OF same_ledger_refl same_lane_refl] 2[OF setDeadline_same lane_setDeadline]
      by (simp add: turnSettled_def Let_def split_beta split: option.split)
  qed
  with silent_conserves[OF silent_reject] show ?thesis by (simp add: turnReady_def split_beta)
qed

end
