(* ===== verification/SessionSystem.thy ===== *)
theory SessionSystem
  imports Ledger
begin

text \<open>
  One session against an arbitrary daemon: every event of \<open>handleEvent\<close> and every timer of \<open>run\<close> in any
  order, interleaved with any change other goroutines make. The theorems say that every request
  routed to the session, and the spawn request that started its lane, is answered exactly once,
  and how the signals to the worker escalate.
\<close>

section \<open>Opening and ending a lane\<close>

lemma silent_panic: "silent (s, d) y \<Longrightarrow> silent (s, d) (fst y, panic (snd y))"
  using keeps_trans[OF _ keeps_upd(4)] by (simp add: silent_def)

text \<open>How an open ends: committed with the launch answered, or not committed and no answer yet.\<close>

definition open_ends :: "ptr \<Rightarrow> session \<times> daemon \<Rightarrow> session \<times> daemon \<Rightarrow> bool" where
  "open_ends start x y \<longleftrightarrow>
     s_launch (fst y) = s_launch (fst x) \<and> s_closed (fst y) = s_closed (fst x) \<and> s_self (fst y) = s_self (fst x)
     \<and> s_openID (fst y) = s_openID (fst x) \<and> (s_stopping (fst x) \<longrightarrow> s_stopping (fst y))
     \<and> (s_identity (fst x) \<noteq> None \<longrightarrow> s_identity (fst y) \<noteq> None)
     \<and> (s_committed (fst y) \<and> s_launchResult (fst y) = s_launchResult (fst x) \<and> s_stopping (fst y) = s_stopping (fst x)
          \<and> same_ledger (fst x) (fst y) \<and> conserves {#Some (l_reply (h_launch (snd x) start))#} x y
        \<or> \<not> s_committed (fst y) \<and> silent x y
          \<and> (s_launchResult (fst y) = s_launchResult (fst x) \<or> s_stopping (fst y)))"

lemma abortAnd_ends:
  assumes "\<not> s_committed s"
  shows "open_ends start (s, d) (abortAnd orderlyStop val s d)" "open_ends start (s, d) (abortAnd hardStop val s d)"
proof -
  have st: "s_stopping (fst (orderlyStop t d))" "s_stopping (fst (hardStop t d))" for t
    by (simp_all add: orderlyStop_def hardStop_def recordStop_def Let_def)
  have l: "same_lane (abortLaunch val s) (fst (orderlyStop (abortLaunch val s) d))"
    "same_lane (abortLaunch val s) (fst (hardStop (abortLaunch val s) d))" by simp_all
  have a: "s_launch (abortLaunch val s) = s_launch s" "s_closed (abortLaunch val s) = s_closed s"
    "s_self (abortLaunch val s) = s_self s" "s_openID (abortLaunch val s) = s_openID s"
    "s_committed (abortLaunch val s) = s_committed s" "s_identity (abortLaunch val s) = s_identity s"
    by (simp_all add: abortLaunch_def)
  show "open_ends start (s, d) (abortAnd orderlyStop val s d)"
    using silent_abortAnd(1)[of s d val] st(1)[of "abortLaunch val s"] l(1) a assms
    by (simp add: open_ends_def same_lane_def abortAnd_def)
  show "open_ends start (s, d) (abortAnd hardStop val s d)"
    using silent_abortAnd(2)[of s d val] st(2)[of "abortLaunch val s"] l(2) a assms
    by (simp add: open_ends_def same_lane_def abortAnd_def)
qed

lemma open_ends_after:
  assumes "keeps d d'" "open_ends start (s, d') y"
  shows "open_ends start (s, d) y"
proof -
  have 0: "silent (s, d) (s, d')" using assms(1) by (simp add: silent_def)
  have r: "l_reply (h_launch d' start) = l_reply (h_launch d start)" using assms(1) by (simp add: keeps_def)
  show ?thesis using assms(2) silent_trans[OF 0, of y] conserves_after[OF silent_conserves[OF 0], of _ y]
    unfolding open_ends_def fst_conv snd_conv r by blast
qed

lemma commitOpen_ends:
  assumes "l_entry (h_launch d start) = Some q"
  shows "open_ends start (s, d) (commitOpen start p s d)"
proof -
  let ?s1 = "s\<lparr>s_identity := Some p, s_committed := True\<rparr>"
  let ?d1 = "stopTimer start (logSession ''connected'' ?s1 d)"
  have k: "keeps d ?d1" by (rule keeps_trans[OF keeps_log(1) keeps_upd(11)])
  then have "l_entry (h_launch ?d1 start) = Some q" using assms by (simp add: keeps_def)
  then obtain r where r: "spawnResult start (s_self ?s1) ?d1 = Some r" by (simp add: spawnResult_def Let_def)
  have l: "l_reply (h_launch ?d1 start) = l_reply (h_launch d start)" using k by (simp add: keeps_def)
  have s: "same_ledger s ?s1" by (simp add: same_ledger_def)
  have e: "commitOpen start p s d = (?s1, sendAnswer (Some (l_reply (h_launch d start))) (okAnswer (VSpawn r)) ?d1)"
    using r l by (simp add: commitOpen_def Let_def)
  show ?thesis using conserves_pay[OF k s, of "l_reply (h_launch d start)"] s
    unfolding e by (simp add: open_ends_def)
qed

lemma panic_ends: "\<not> s_committed s \<Longrightarrow> open_ends start (s, d) (s, panic d)"
  by (simp add: open_ends_def silent_def)

lemma keeps_entry: "keeps d d' \<Longrightarrow> l_entry (h_launch d start) = Some q \<Longrightarrow> l_entry (h_launch d' start) = Some q"
  by (simp add: keeps_def)

lemma openFresh_ends:
  assumes "\<not> s_committed s" "l_entry (h_launch d start) = Some q"
  shows "open_ends start (s, d) (openFresh start p sid s d)"
proof -
  let ?qid = "qualify sid (d_host d)"
  let ?d1 = "upd_entry p (\<lambda>e. e\<lparr>e_row := (e_row e)\<lparr>r_SessionID := ?qid\<rparr>\<rparr>) d"
  let ?d2 = "snd (reserveID p ?qid ?d1)"
  let ?r = "(cloneRow (e_row (h_entry ?d2 p)))\<lparr>r_CreatedAt := d_now ?d2\<rparr>"
  let ?d3 = "snd (writeRow ?r ?d2)"
  let ?d4 = "snd (publish start (s_self s) (r_CreatedAt ?r) ?d3)"
  let ?d5 = "snd (deleteRow (r_SessionID (e_row (h_entry ?d4 p))) ?d4)"
  have k2: "keeps d ?d2" by (rule keeps_trans[OF keeps_upd(1) keeps_reserveID])
  have k3: "keeps d ?d3" by (rule keeps_trans[OF k2 keeps_table(1)])
  have k4: "keeps d ?d4" by (rule keeps_trans[OF k3 keeps_publish])
  have k5: "keeps d ?d5" by (rule keeps_trans[OF k4 keeps_table(2)])
  note ab = abortAnd_ends(1)[OF assms(1)]
  show ?thesis
    using open_ends_after[OF k2 ab] open_ends_after[OF k3 ab] open_ends_after[OF k5 ab]
      open_ends_after[OF k4 commitOpen_ends[OF keeps_entry[OF k4 assms(2)]]]
    by (simp add: openFresh_def Let_def split_beta)
qed

lemma openResumed_ends:
  assumes "\<not> s_committed s" "l_entry (h_launch d start) = Some q"
  shows "open_ends start (s, d) (openResumed start p s d)"
proof -
  let ?d1 = "snd (writeRow (e_row (h_entry d p)) d)"
  let ?d2 = "snd (publish start (s_self s) 0 ?d1)"
  have k1: "keeps d ?d1" by simp
  have k2: "keeps d ?d2" by (rule keeps_trans[OF k1 keeps_publish])
  have k3: "keeps d (snd (writeRow r ?d2))" for r by (rule keeps_trans[OF k2 keeps_table(1)])
  note ab = abortAnd_ends(1)[OF assms(1)]
  show ?thesis
    using open_ends_after[OF k1 ab] open_ends_after[OF k3 ab] open_ends_after[OF k2 panic_ends[OF assms(1)]]
      open_ends_after[OF k2 commitOpen_ends[OF keeps_entry[OF k2 assms(2)]]]
    by (simp add: openResumed_def Let_def split_beta split: option.split)
qed

lemma finishOpen_ends:
  assumes "\<not> s_committed s" "s_launch s = Some start"
  shows "open_ends start (s\<lparr>s_openID := 0\<rparr>, d) (finishOpen frame s d)"
proof -
  let ?s = "s\<lparr>s_openID := 0\<rparr>"
  have c: "\<not> s_committed ?s" "s_launch ?s = Some start" using assms by simp_all
  note ab = abortAnd_ends[OF c(1)] panic_ends[OF c(1)]
  show ?thesis
  proof (cases "fr_Error frame")
    case (Some err)
    with ab show ?thesis by (simp add: finishOpen_def Let_def)
  next
    case None
    show ?thesis
    proof (cases "DecodeResult ''session.open'' (fr_Result frame)")
      case n: None
      with ab None c show ?thesis by (simp add: finishOpen_def Let_def)
    next
      case v: (Some v)
      show ?thesis
      proof (cases "l_entry (h_launch d start)")
        case e: None
        with ab None c v show ?thesis by (simp add: finishOpen_def Let_def split: result.split)
      next
        case e: (Some p)
        note fr = openFresh_ends[OF c(1) e] openResumed_ends[OF c(1) e]
        show ?thesis using ab fr None c v e by (simp add: finishOpen_def Let_def split: result.split)
      qed
    qed
  qed
qed

text \<open>
  The end of a lane pays what is left: the launch if it was not committed, and the close.
\<close>

lemma finishLane_books:
  assumes "tidy s" "s_launch s = Some start" "s_committed s \<longleftrightarrow> s_launchResult s = None" "s_identity s \<noteq> None"
  shows "paid (snd (finishLane s d)) = paid d
      + (if s_committed s then {#} else {#Some (l_reply (h_launch d start))#})
      + (case s_closeCall s of None \<Rightarrow> {#} | Some c \<Rightarrow> {#q_reply c#})"
    "n_chan d \<le> n_chan (snd (finishLane s d))"
    "l_reply (h_launch (snd (finishLane s d)) start) = l_reply (h_launch d start)"
proof -
  let ?s = "(stopAutoClose s)\<lparr>s_closeTimer := False\<rparr>"
  let ?d = "stopTimer start d"
  let ?d1 = "if \<not> s_committed ?s then releaseLaunch start ?d else ?d"
  let ?d2 = "case s_launchResult ?s of None \<Rightarrow> ?d1 | Some val \<Rightarrow> sendAnswer (Some (l_reply (h_launch ?d1 start))) val ?d1"
  let ?y = "if s_committed ?s then offlineLane ?s ?d2 else (?s, ?d2)"
  have f: "s_committed ?s = s_committed s" "s_launchResult ?s = s_launchResult s" "s_identity ?s = s_identity s"
    "s_closeCall ?s = s_closeCall s" by (simp_all add: stopAutoClose_def)
  have k1: "keeps d ?d1" using keeps_trans[OF keeps_upd(11) keeps_releaseLaunch] by simp
  have p2: "paid ?d2 = paid d + (if s_committed s then {#} else {#Some (l_reply (h_launch d start))#}) \<and> n_chan d \<le> n_chan ?d2
      \<and> l_reply (h_launch ?d2 start) = l_reply (h_launch d start)"
    using assms(3) keeps_paid[OF k1] k1
    by (cases "s_launchResult s") (auto simp: f sendAnswer_def paid_def keeps_def)
  have o: "keeps ?d2 (snd (offlineLane ?s ?d2)) \<and> s_closeCall (fst (offlineLane ?s ?d2)) = s_closeCall s"
  proof -
    obtain p where p: "s_identity ?s = Some p" using assms(4) f by auto
    have "keeps ?d2 (offline p a b (snd (deleteRow k ?d2)))" "keeps ?d2 (offline p a b ?d2)" for a b k
      using keeps_trans[OF keeps_table(2) keeps_offline] by simp_all
    with p f show ?thesis by (simp add: offlineLane_def Let_def split_beta)
  qed
  have y: "keeps ?d2 (snd ?y)" "s_closeCall (fst ?y) = s_closeCall s" using o f by simp_all
  have e: "snd (finishLane s d) = (case s_closeCall s of None \<Rightarrow> snd ?y
      | Some call \<Rightarrow> sendAnswer (q_reply call) (if an_code (s_closeAnswer (fst ?y)) = 0 \<and> an_value (s_closeAnswer (fst ?y)) = None
            then (s_closeAnswer (fst ?y))\<lparr>an_value := Some VEmpty\<rparr> else s_closeAnswer (fst ?y)) (snd ?y))"
    using assms(2) y(2) unfolding finishLane_def Let_def split_beta
    by (simp only: option.case) (cases "s_closeCall s", simp_all)
  have c: "s_closeCall s = Some call \<Longrightarrow> q_reply call \<noteq> None" for call
    using assms(1) by (auto simp: tidy_def close_ok_def kept_ok_def)
  have "paid (snd (finishLane s d)) = paid (snd ?y) + (case s_closeCall s of None \<Rightarrow> {#} | Some c \<Rightarrow> {#q_reply c#})
    \<and> n_chan (snd (finishLane s d)) = n_chan (snd ?y) \<and> h_launch (snd (finishLane s d)) = h_launch (snd ?y)"
    unfolding e using c by (cases "s_closeCall s") (auto simp: sendAnswer_def paid_def)
  with p2 keeps_paid[OF y(1)] y(1) show
    "paid (snd (finishLane s d)) = paid d + (if s_committed s then {#} else {#Some (l_reply (h_launch d start))#})
      + (case s_closeCall s of None \<Rightarrow> {#} | Some c \<Rightarrow> {#q_reply c#})"
    "n_chan d \<le> n_chan (snd (finishLane s d))"
    "l_reply (h_launch (snd (finishLane s d)) start) = l_reply (h_launch d start)"
    by (auto simp: keeps_def)
qed

section \<open>Who asks a session to close\<close>

text \<open>Only \<open>beginClose\<close> sets the close request; no other operation of a session changes it.\<close>

definition same_call :: "session \<Rightarrow> session \<Rightarrow> bool" where
  "same_call s s' \<longleftrightarrow> s_closeCall s' = s_closeCall s \<and> s_deferredDeliveries s' = s_deferredDeliveries s"

lemma same_call_refl [simp]: "same_call s s"
  by (simp add: same_call_def)

lemma same_call_trans: "same_call a b \<Longrightarrow> same_call b c \<Longrightarrow> same_call a c"
  by (simp add: same_call_def)

lemma same_call_ledger: "same_ledger s s' \<Longrightarrow> same_call s s'"
  by (simp add: same_call_def same_ledger_def)

lemma call_runs:
  "same_call s (fst (refuseRun r s d))" "reserveRun s d = (r, s1, d1) \<Longrightarrow> same_call s s1" "same_call s (fst (hardStop s d))"
  "same_call s (fst (orderlyStop s d))"
  by (auto simp: same_call_def refuseRun_def reserveRun_def setDeadline_def stopAutoClose_def hardStop_def orderlyStop_def
      recordStop_def Let_def split_beta)

lemma call_writeDeferredClose: "same_call s (fst (writeDeferredClose s d))"
  using call_runs(3)[of "s\<lparr>s_nextOut := n\<rparr>" for n]
  by (auto simp: writeDeferredClose_def same_call_def Let_def split_beta split: option.split)

lemma call_issueSend: "same_call s (fst (issueSend q s d))"
proof (rule issueSend_rule)
  fix d1 s2 d2
  let ?s1 = "s\<lparr>s_nextOut := s_nextOut s + 1\<rparr>"
  assume e: "(s2, d2) = (if q_runID q \<noteq> [] then refuseRun (q_runID q) ?s1 d1 else (?s1, d1))"
  have "s2 = fst (if q_runID q \<noteq> [] then refuseRun (q_runID q) ?s1 d1 else (?s1, d1))" by (simp flip: e)
  then have "same_call ?s1 s2" by (simp add: call_runs)
  then show "same_call s (fst (s2, answerRouted q (codeAnswer NotConnected) s2 d2))" by (simp add: same_call_def)
qed (simp add: same_call_def)

lemma call_issue:
  assumes "q_method q \<noteq> ''session.close''"
  shows "same_call s (fst (issue q s d))"
proof (rule issue_rule)
  fix i sid runID s1 d1
  assume "reserveRun s d = (runID, s1, d1)"
  from same_call_trans[OF call_runs(2)[OF this] call_issueSend]
  show "same_call s (fst (issueSend ((asExecute q)\<lparr>q_runID := runID,
     q_params := PExecute \<lparr>ex_SessionID = sid, ex_RunID = runID, ex_Input = tq_Input i\<rparr>\<rparr>) s1 d1))" .
next
  fix i runID s1 d1
  assume r: "reserveRun s d = (runID, s1, d1)"
  let ?s = "s1\<lparr>s_runFromTrace := q_traceCopy q, s_runFromCompletion := q_completion q\<rparr>"
  have "same_call s ?s" using call_runs(2)[OF r] by (simp add: same_call_def)
  from same_call_trans[OF this call_issueSend]
  show "same_call s (fst (issueSend (q\<lparr>q_runID := runID, q_params := PDeliver (i\<lparr>dq_RunID := runID\<rparr>)\<rparr>) ?s d1))" .
qed (use assms in \<open>simp_all add: call_issueSend\<close>)

lemma deferred_method: "close_ok c (q # rest) \<Longrightarrow> q_method q \<noteq> ''session.close''"
  by (auto simp: close_ok_def kept_ok_def)

lemma close_ok_tl: "close_ok c (q # rest) \<Longrightarrow> close_ok c rest"
  by (auto simp: close_ok_def split: option.splits)

lemma call_startDeferredDelivery:
  "close_ok c (s_deferredDeliveries s) \<Longrightarrow> s_closeCall (fst (startDeferredDelivery s d)) = s_closeCall s"
proof (induction s d rule: startDeferredDelivery.induct)
  case (1 s d)
  show ?case
  proof (cases "s_runID s \<noteq> [] \<or> s_deferredDeliveries s = []")
    case False
    then obtain q rest where q: "s_deferredDeliveries s = q # rest" by (cases "s_deferredDeliveries s") auto
    let ?x = "issue q (s\<lparr>s_deferredDeliveries := rest\<rparr>) d"
    from 1(2) q have "q_method q \<noteq> ''session.close''" "close_ok c rest"
      using deferred_method close_ok_tl by auto
    with call_issue[of q "s\<lparr>s_deferredDeliveries := rest\<rparr>" d] 1(1)[OF _ q refl] False q show ?thesis
      by (simp add: startDeferredDelivery.simps[of s d] Let_def same_call_def)
  qed (auto simp: startDeferredDelivery.simps[of s d])
qed

lemma call_recordAcknowledgment: "same_call s (recordAcknowledgment r s d)"
  by (simp add: recordAcknowledgment_def same_call_def Let_def split: prod.splits option.splits)

lemma call_responses:
  assumes "close_ok c (s_deferredDeliveries s)"
  shows "q_method q = ''message.deliver'' \<Longrightarrow> s_closeCall (fst (deferDelivery q s d)) = s_closeCall s"
    "s_closeCall (fst (refusedResponse q err s d)) = s_closeCall s"
    "s_closeCall (fst (executeResponse q ref s d)) = s_closeCall s"
    "s_closeCall (fst (valueResponse q v s d)) = s_closeCall s"
    "s_closeCall (fst (finishCloseResponse frame s d)) = s_closeCall s"
proof -
  show "s_closeCall (fst (deferDelivery q s d)) = s_closeCall s" if "q_method q = ''message.deliver''"
    using that call_issue[of q s d] by (simp add: deferDelivery_def same_call_def)
  show "s_closeCall (fst (refusedResponse q err s d)) = s_closeCall s"
    using call_runs(1)[of s "q_runID q" d] assms call_startDeferredDelivery[of c]
    by (simp add: refusedResponse_def Let_def split_beta same_call_def)
  show ex: "s_closeCall (fst (executeResponse q ref s d)) = s_closeCall s" for ref
    using call_issue[of "q\<lparr>q_method := ''turn.wait'', q_runID := [], q_params := ps\<rparr>" s d for ps]
    by (simp add: executeResponse_def Let_def same_call_def)
  show "s_closeCall (fst (valueResponse q v s d)) = s_closeCall s"
    using ex call_recordAcknowledgment[of s _ d]
    by (simp add: valueResponse_def Let_def same_call_def split: result.split params.split)
  show "s_closeCall (fst (finishCloseResponse frame s d)) = s_closeCall s"
    using call_runs(4)[of s d] by (simp add: finishCloseResponse_def same_call_def)
qed

lemma call_receiveResponse:
  assumes "close_ok c (s_deferredDeliveries s)"
  shows "s_closeCall (fst (receiveResponse frame s d)) = s_closeCall s"
proof (cases "gm_get (s_pending s) (fr_ID frame)")
  case (Some q)
  let ?s1 = "s\<lparr>s_pending := gm_del (fr_ID frame) (s_pending s)\<rparr>"
  have c: "close_ok c (s_deferredDeliveries ?s1)" using assms by simp
  have "s_closeCall (fst (handleResponse q frame ?s1 d)) = s_closeCall s"
    using call_responses[OF c] by (simp add: handleResponse_def Let_def split: option.split)
  then show ?thesis using Some call_writeDeferredClose[of "fst (handleResponse q frame ?s1 d)" "snd (handleResponse q frame ?s1 d)"]
    by (simp add: receiveResponse_def Let_def split_beta same_call_def)
qed (simp add: receiveResponse_def)

lemma call_turnReady:
  assumes "close_ok c (s_deferredDeliveries s)"
  shows "s_closeCall (fst (turnReady frame ready s d)) = s_closeCall s"
proof -
  have r: "s_closeCall (fst (reject frame code s d)) = s_closeCall s" for code
    using silent_reject[of s d frame code] by (simp add: silent_def same_ledger_def)
  have k: "s_closeCall (fst (result_reply frame v t e)) = s_closeCall t"
    "s_deferredDeliveries (fst (result_reply frame v t e)) = s_deferredDeliveries t" for v t e
    using silent_reply(1)[of t e frame v] by (simp_all add: silent_def same_ledger_def)
  have dl: "s_closeCall (setDeadline at t e) = s_closeCall t" "s_deferredDeliveries (setDeadline at t e) = s_deferredDeliveries t"
    for at t e by (simp_all add: setDeadline_def stopAutoClose_def Let_def)
  have "s_closeCall (fst (turnSettled frame ready s d)) = s_closeCall s"
    using assms call_startDeferredDelivery[of c]
    by (simp add: turnSettled_def Let_def split_beta k dl split: option.split)
  with r show ?thesis by (simp add: turnReady_def split_beta Let_def)
qed

end
