(* ===== verification/Answers.thy ===== *)
theory Answers
  imports SessionSystem
begin

text \<open>
  One session against everything else: every event of \<open>handleEvent\<close> and every timer of \<open>run\<close>, in any
  order and interleaved with any change other goroutines make, until \<open>run\<close> returns. Each request
  routed to the session, and the spawn request that started its lane, is answered exactly once.
\<close>

section \<open>The account of a session\<close>

text \<open>The channel of the launch is owed until the open is committed.\<close>

definition launch_debt :: "session \<Rightarrow> daemon \<Rightarrow> ptr option multiset" where
  "launch_debt s d =
     (case s_launch s of
        None \<Rightarrow> {#}
      | Some start \<Rightarrow> if s_committed s then {#} else {#Some (l_reply (h_launch d start))#})"

definition debt :: "session \<Rightarrow> daemon \<Rightarrow> ptr option multiset" where
  "debt s d = owed s + launch_debt s d"

definition acct :: "ptr list \<Rightarrow> session \<times> daemon \<Rightarrow> bool" where
  "acct got x \<longleftrightarrow> tidy (fst x)
     \<and> (\<forall>ch \<in> set got. count (paid (snd x)) (Some ch) + count (debt (fst x) (snd x)) (Some ch) = 1 \<and> ch < n_chan (snd x))
     \<and> set_mset (debt (fst x) (snd x)) \<subseteq> Some ` set got
     \<and> set_mset (paid (snd x)) \<subseteq> Some ` {..<n_chan (snd x)}"

definition fresh_for :: "ptr list \<Rightarrow> daemon \<Rightarrow> ptr list \<Rightarrow> bool" where
  "fresh_for got d new \<longleftrightarrow> distinct new \<and> (\<forall>c \<in> set new. c \<notin> set got \<and> Some c \<notin># paid d)"

lemma count_some: "distinct new \<Longrightarrow> count (mset (map Some new)) (Some c) = (if c \<in> set new then 1 else 0)"
  by (induction new) auto

lemma acct_move:
  assumes "acct got (s, d)" "tidy s'" "paid d' + debt s' d' = paid d + debt s d + mset (map Some new)"
    and "paid d \<subseteq># paid d'" "n_chan d \<le> n_chan d'" "fresh_for got d new" "\<forall>c \<in> set new. c < n_chan d'"
  shows "acct (new @ got) (s', d')"
proof -
  have c: "count (paid d') x + count (debt s' d') x = count (paid d) x + count (debt s d) x + count (mset (map Some new)) x" for x
    using arg_cong[OF assms(3), of "\<lambda>M. count M x"] by simp
  have n: "count (debt s d) (Some ch) = 0 \<and> count (paid d) (Some ch) = 0 \<and> ch \<notin> set got" if "ch \<in> set new" for ch
  proof -
    have "ch \<notin> set got" "Some ch \<notin># paid d" using assms(6) that by (auto simp: fresh_for_def)
    moreover from this assms(1) have "Some ch \<notin># debt s d" by (auto simp: acct_def)
    ultimately show ?thesis by (simp add: not_in_iff)
  qed
  have d: "distinct new" using assms(6) by (simp add: fresh_for_def)
  have 1: "count (paid d') (Some ch) + count (debt s' d') (Some ch) = 1 \<and> ch < n_chan d'" if "ch \<in> set (new @ got)" for ch
  proof (cases "ch \<in> set new")
    case True
    with n[OF True] c[of "Some ch"] count_some[OF d, of ch] assms(7) show ?thesis by simp
  next
    case False
    with that assms(1) have "count (paid d) (Some ch) + count (debt s d) (Some ch) = 1 \<and> ch < n_chan d" by (auto simp: acct_def)
    with False c[of "Some ch"] count_some[OF d, of ch] assms(5) show ?thesis by simp
  qed
  have 2: "x \<in> Some ` set (new @ got)" if "x \<in># debt s' d'" for x
  proof -
    have "count (paid d) x \<le> count (paid d') x" using assms(4) by (simp add: subseteq_mset_def)
    moreover have "0 < count (debt s' d') x" using that by simp
    ultimately have "0 < count (debt s d) x + count (mset (map Some new)) x" using c[of x] by linarith
    then have "x \<in># debt s d \<or> x \<in># mset (map Some new)" by (auto simp: count_greater_zero_iff)
    with assms(1) show ?thesis by (auto simp: acct_def)
  qed
  have 3: "x \<in> Some ` {..<n_chan d'}" if "x \<in># paid d'" for x
  proof -
    have "0 < count (paid d') x" using that by simp
    with c[of x] have "0 < count (paid d) x \<or> 0 < count (debt s d) x \<or> 0 < count (mset (map Some new)) x" by linarith
    then have "x \<in># paid d \<or> x \<in># debt s d \<or> x \<in># mset (map Some new)" by (auto simp: count_greater_zero_iff)
    moreover have "Some ` set got \<subseteq> Some ` {..<n_chan d'}" "Some ` {..<n_chan d} \<subseteq> Some ` {..<n_chan d'}"
      using assms(1,5) by (auto simp: acct_def)
    ultimately show ?thesis using assms(1,7) unfolding acct_def fst_conv snd_conv by auto
  qed
  show ?thesis using assms(2) 1 2 3 unfolding acct_def fst_conv snd_conv by blast
qed

lemma acct_owed: "acct got (s, d) \<Longrightarrow> fresh_for got d new \<Longrightarrow> once (owed s + mset (map Some new))"
proof -
  assume a: "acct got (s, d)" "fresh_for got d new"
  have o: "once (owed s)" using a(1) by (simp add: acct_def tidy_def)
  have "count (owed s) x + count (mset (map Some new)) x \<le> 1" for x
  proof (cases x)
    case None
    then have "count (mset (map Some new)) x = 0" by (simp add: count_eq_zero_iff)
    with o show ?thesis by (simp add: once_def)
  next
    case (Some c)
    show ?thesis
    proof (cases "c \<in> set new")
      case True
      with a have "Some c \<notin># debt s d" by (auto simp: acct_def fresh_for_def)
      then have "count (owed s) (Some c) = 0" by (simp add: debt_def not_in_iff)
      with Some True a(2) count_some[of new c] show ?thesis by (simp add: fresh_for_def)
    next
      case False
      with Some a(2) count_some[of new c] o show ?thesis by (simp add: fresh_for_def once_def)
    qed
  qed
  then show ?thesis by (simp add: once_def)
qed

lemma acct_conserves:
  assumes "acct got (s, d)" "conserves (mset (map Some new)) (s, d) y" "fresh_for got d new"
    and "\<forall>c \<in> set new. c < n_chan (snd y)" "s_launch (fst y) = s_launch s" "s_committed (fst y) = s_committed s"
  shows "acct (new @ got) y"
proof -
  have t: "tidy s" using assms(1) by (simp add: acct_def)
  from assms(2) t acct_owed[OF assms(1,3)] have
    y: "tidy (fst y)" "paid (snd y) + owed (fst y) = paid d + owed s + mset (map Some new)" "paid d \<subseteq># paid (snd y)"
      "n_chan d \<le> n_chan (snd y)" "\<forall>start. l_reply (h_launch (snd y) start) = l_reply (h_launch d start)"
    by (auto simp: conserves_def)
  have l: "launch_debt (fst y) (snd y) = launch_debt s d"
    using assms(5,6) y(5) by (simp add: launch_debt_def split: option.split)
  have "paid (snd y) + debt (fst y) (snd y) = paid d + debt s d + mset (map Some new)"
    using y(2) l by (simp add: debt_def add_ac)
  with acct_move[OF assms(1) y(1) _ y(3,4) assms(3,4)] show ?thesis by (cases y) simp
qed

lemma acct_quiet:
  assumes "acct got (s, d)" "conserves {#} (s, d) y" "s_launch (fst y) = s_launch s" "s_committed (fst y) = s_committed s"
  shows "acct got y"
  using acct_conserves[of got s d "[]" y] assms by (simp add: fresh_for_def)

section \<open>The flags of a session\<close>

definition flags :: "session \<Rightarrow> bool" where
  "flags s \<longleftrightarrow>
     (s_closed s \<longrightarrow> s_stopping s \<and> s_pending s = [] \<and> s_deferredDeliveries s = []
        \<and> (s_launch s \<noteq> None \<and> \<not> s_committed s \<longrightarrow> s_launchResult s \<noteq> None))
     \<and> (s_launchResult s \<noteq> None \<longrightarrow> s_stopping s \<and> \<not> s_committed s)
     \<and> (s_openID s \<noteq> 0 \<longrightarrow> \<not> s_committed s \<and> s_launch s \<noteq> None)
     \<and> (s_closeCall s \<noteq> None \<or> s_committed s \<longrightarrow> s_launch s \<noteq> None)
     \<and> (s_launch s \<noteq> None \<longrightarrow> s_identity s \<noteq> None)"

lemma flags_lane:
  assumes "flags s" "same_lane s s'" "s_closed s \<longrightarrow> same_ledger s s'" "s_closeCall s' = s_closeCall s \<or> s_launch s \<noteq> None"
  shows "flags s'"
proof -
  have e: "s_launch s' = s_launch s" "s_committed s' = s_committed s" "s_launchResult s' = s_launchResult s"
    "s_openID s' = s_openID s" "s_closed s' = s_closed s" "s_identity s' = s_identity s" and st: "s_stopping s \<longrightarrow> s_stopping s'"
    using assms(2) by (simp_all add: same_lane_def)
  have p: "s_closed s \<longrightarrow> s_pending s' = s_pending s \<and> s_deferredDeliveries s' = s_deferredDeliveries s"
    using assms(3) by (simp add: same_ledger_def)
  show ?thesis using assms(1,4) st p unfolding flags_def e by metis
qed

lemma lane_stopped:
  assumes "s_launch s' = s_launch s" "s_committed s' = s_committed s" "s_openID s' = s_openID s" "s_closed s' = s_closed s"
    "s_identity s' = s_identity s" "same_ledger s s'" "s_stopping s'" "s_launchResult s \<noteq> None \<longrightarrow> s_launchResult s' \<noteq> None"
    "s_launchResult s' \<noteq> None \<longrightarrow> s_launchResult s \<noteq> None \<or> \<not> s_committed s" "flags s"
  shows "flags s'"
proof -
  have l: "s_pending s' = s_pending s" "s_deferredDeliveries s' = s_deferredDeliveries s" "s_closeCall s' = s_closeCall s"
    using assms(6) by (simp_all add: same_ledger_def)
  show ?thesis using assms(7-10) unfolding flags_def assms(1-5) l by metis
qed

lemma flags_openID: "flags s \<Longrightarrow> flags (s\<lparr>s_openID := 0\<rparr>)"
proof -
  let ?s = "s\<lparr>s_openID := 0\<rparr>"
  have e: "s_launch ?s = s_launch s" "s_committed ?s = s_committed s" "s_launchResult ?s = s_launchResult s"
    "s_closed ?s = s_closed s" "s_identity ?s = s_identity s" "s_stopping ?s = s_stopping s" "s_pending ?s = s_pending s"
    "s_deferredDeliveries ?s = s_deferredDeliveries s" "s_closeCall ?s = s_closeCall s" "s_openID ?s = 0" by simp_all
  show "flags s \<Longrightarrow> flags ?s" unfolding flags_def e by blast
qed

section \<open>The steps of a session\<close>

definition close_channel :: "session \<Rightarrow> daemon \<Rightarrow> ptr list" where
  "close_channel s d =
     (if s_stopping s \<or> s_closeCall s \<noteq> None \<or> \<not> s_committed s \<or> s_identity s = None then [] else [n_chan d])"

text \<open>
  One turn of the loop with the channels it takes on: the launch of the worker that says hello, a
  request routed to the session, the channel of a close the daemon's own policy asks for. The
  guards are what the loop and the senders check: a frame is only handled while the session is not
  stopping, a routed request brings a channel of its own and parameters of its method, only a
  lane is asked for more than a delivery (\<open>admit\<close>), and the answer to a close arrives while the
  directory still has the lane. A start error belongs to a launch nobody claimed. \<open>lane_other\<close> is
  any work that leaves the routed requests alone.
\<close>

inductive lane_event :: "ptr list \<Rightarrow> session \<times> daemon \<Rightarrow> session \<times> daemon \<Rightarrow> bool" where
  lane_claim: "\<not> s_stopping s \<Longrightarrow> s_launch s = None \<Longrightarrow> l_entry (h_launch d start) \<noteq> None \<Longrightarrow>
     l_reply (h_launch d start) < n_chan d \<Longrightarrow>
     lane_event [l_reply (h_launch d start)] (s, d) (startLane start frame hello s d)"
| lane_routed: "issuable q \<Longrightarrow> \<not> q_scheduled q \<Longrightarrow> q_reply q = Some ch \<Longrightarrow> q_destination q \<noteq> None \<Longrightarrow>
     s_launch s = None \<longrightarrow> q_method q \<noteq> ''session.close'' \<Longrightarrow> ch < n_chan d \<Longrightarrow>
     lane_event [ch] (s, d) (handleRouted q s d)"
| lane_response: "\<not> s_stopping s \<Longrightarrow>
     s_closeCall s \<noteq> None \<longrightarrow> q_destination (the (s_closeCall s)) = s_identity s \<and> current (s_identity s) (s_self s) d \<Longrightarrow>
     lane_event [] (s, d) (receiveResponse frame s d)"
| lane_opened: "\<not> s_stopping s \<Longrightarrow> s_launch s \<noteq> None \<Longrightarrow> fr_ID frame = s_openID s \<Longrightarrow> fr_ID frame > 0 \<Longrightarrow>
     lane_event [] (s, d) (finishOpen frame s d)"
| lane_ready: "\<not> s_stopping s \<Longrightarrow> s_identity s \<noteq> None \<Longrightarrow>
     lane_event [] (s, d) (fst (turnReady frame ready s d), fst (snd (turnReady frame ready s d)))"
| lane_owner: "lane_event (if ownerEnded w s d = policyClose s d then close_channel s d else []) (s, d) (ownerEnded w s d)"
| lane_auto: "lane_event (close_channel s d) (s, d) (autoCloseDue s d)"
| lane_process: "err = None \<or> s_stopping s \<Longrightarrow> lane_event [] (s, d) (handleProcess start child exited err s d)"
| lane_spawn_timeout: "lane_event [] (s, d) (handleSpawnTimeout start s d)"
| lane_spawn_timer: "s_launch s \<noteq> None \<Longrightarrow> \<not> s_committed s \<Longrightarrow> lane_event [] (s, d) (spawnExpired s d)"
| lane_close_timer: "lane_event [] (s, d) (closeExpired s d)"
| lane_shutdown: "lane_event [] (s, d) (shutdownStop s d)"
| lane_closed: "lane_event [] (s, d) (handleClosed s d)"
| lane_superseded: "lane_event [] (s, d) (supersede s d)"
| lane_rehello: "\<not> s_stopping s \<Longrightarrow> s_launch s = None \<Longrightarrow>
     lane_event [] (s, d) ((fst (settlePending code s d))\<lparr>s_identity := Some p\<rparr>, snd (settlePending code s d))"
| lane_other: "same_ledger s s' \<Longrightarrow> same_lane s s' \<Longrightarrow> lane_event [] (s, d) (s', d)"

definition usable :: "ptr list \<Rightarrow> daemon \<Rightarrow> ptr list \<Rightarrow> bool" where
  "usable got d new \<longleftrightarrow> (\<forall>c \<in> set new. c < n_chan d \<longrightarrow> c \<notin> set got \<and> Some c \<notin># paid d)"

lemma usable_one:
  assumes "usable got d [c]" "acct got (s, d)"
  shows "fresh_for got d [c]"
proof (cases "c < n_chan d")
  case False
  then have "c \<notin> set got" "Some c \<notin># paid d" using assms(2) by (auto simp: acct_def)
  then show ?thesis by (simp add: fresh_for_def)
qed (use assms(1) in \<open>simp add: usable_def fresh_for_def\<close>)

text \<open>A worker's hello.\<close>

definition starts :: "ptr \<Rightarrow> session \<Rightarrow> session \<Rightarrow> bool" where
  "starts start s s' \<longleftrightarrow> s_launch s' = Some start \<and> s_committed s' = s_committed s \<and> s_closed s' = s_closed s
     \<and> s_identity s' \<noteq> None \<and> (s_launchResult s' \<noteq> None \<longrightarrow> s_stopping s')"

lemma starts_lane: "starts start s t \<Longrightarrow> same_lane t s' \<Longrightarrow> starts start s s'"
  by (simp add: starts_def same_lane_def)

lemma beginOpen_starts:
  assumes "starts start s t" "s_launchResult t = None"
  shows "starts start s (fst (beginOpen t e))"
proof -
  have "starts start s (fst (abortAnd hardStop val (t\<lparr>s_nextOut := n\<rparr>) e'))" for val n e'
    using assms by (simp add: starts_def abortAnd_def abortLaunch_def hardStop_def recordStop_def Let_def)
  with assms show ?thesis
    by (auto simp: beginOpen_def Let_def split_beta starts_def split: option.split)
qed

lemma startLane_starts:
  assumes "l_entry (h_launch d start) \<noteq> None" "s_launchResult s = None"
  shows "starts start s (fst (startLane start frame hello s d))"
proof -
  let ?s1 = "s\<lparr>s_launch := Some start, s_identity := l_entry (h_launch d start), s_owned := 1\<rparr>"
  have 1: "starts start s ?s1" using assms by (simp add: starts_def)
  let ?y = "result_reply frame VEmpty ?s1 d"
  have y: "starts start s (fst ?y)" by (rule starts_lane[OF 1]) simp
  have "s_launchResult (fst ?y) = None" using lane_replies(2)[of ?s1 frame VEmpty d] assms by (simp add: same_lane_def)
  from beginOpen_starts[OF y this] have b: "starts start s (fst (beginOpen (fst ?y) (snd ?y)))" .
  obtain p where p: "l_entry (h_launch d start) = Some p" using assms(1) by auto
  have c: "starts start s (?s1\<lparr>s_launchResult := Some v, s_stopping := True\<rparr>)" for v
    using assms by (simp add: starts_def)
  show ?thesis using b c unfolding p by (simp add: startLane_def Let_def split_beta p)
qed

text \<open>What a step has to keep.\<close>

definition good :: "ptr list \<Rightarrow> session \<times> daemon \<Rightarrow> bool" where
  "good got x \<longleftrightarrow> acct got x \<and> flags (fst x)"

lemma good_claim:
  assumes "good got (s, d)" "usable got d [l_reply (h_launch d start)]" "\<not> s_stopping s" "s_launch s = None"
    "l_entry (h_launch d start) \<noteq> None" "l_reply (h_launch d start) < n_chan d"
  shows "good (l_reply (h_launch d start) # got) (startLane start frame hello s d)"
proof -
  let ?y = "startLane start frame hello s d"
  have f: "s_launchResult s = None" "\<not> s_committed s" "\<not> s_closed s" "s_closeCall s = None"
    using assms by (auto simp: good_def flags_def)
  note st = startLane_starts[OF assms(5) f(1), of frame hello]
  have q: "same_ledger s (fst ?y)" "keeps d (snd ?y)" using silent_startLane[of s d] by (simp_all add: silent_def)
  have a: "acct got (s, d)" using assms(1) by (simp add: good_def)
  have t: "tidy (fst ?y)" using a same_ledger_tidy[OF q(1)] by (simp add: acct_def)
  have o: "owed (fst ?y) = owed s" by (rule same_ledger_owed[OF q(1)])
  have p: "paid (snd ?y) = paid d" by (rule keeps_paid[OF q(2)])
  have r: "l_reply (h_launch (snd ?y) start) = l_reply (h_launch d start)" "n_chan d \<le> n_chan (snd ?y)" using q(2) by (simp_all add: keeps_def)
  have ds: "debt s d = owed s" by (simp add: debt_def launch_debt_def assms(4))
  have dy: "debt (fst ?y) (snd ?y) = owed s + {#Some (l_reply (h_launch d start))#}"
    using st f(2) o r(1) by (simp add: debt_def launch_debt_def starts_def)
  have b: "paid (snd ?y) + debt (fst ?y) (snd ?y) = paid d + debt s d + mset (map Some [l_reply (h_launch d start)])"
    unfolding p ds dy by simp
  from acct_move[OF a t b _ r(2) usable_one[OF assms(2) a]] p r(2) assms(6)
  have "acct (l_reply (h_launch d start) # got) ?y" by (cases ?y) simp
  moreover have "flags (fst ?y)"
    using st f q(1) by (auto simp: flags_def starts_def same_ledger_def)
  ultimately show ?thesis by (simp add: good_def)
qed

lemma good_lane:
  assumes "good got (s, d)" "conserves (mset (map Some new)) (s, d) y" "fresh_for got d new" "\<forall>c \<in> set new. c < n_chan (snd y)"
    and "same_lane s (fst y)" "s_closed s \<longrightarrow> same_ledger s (fst y)" "s_closeCall (fst y) = s_closeCall s \<or> s_launch s \<noteq> None"
  shows "good (new @ got) y"
proof -
  have "s_launch (fst y) = s_launch s" "s_committed (fst y) = s_committed s" using assms(5) by (simp_all add: same_lane_def)
  with assms acct_conserves[of got s d new y] flags_lane[of s "fst y"] show ?thesis by (simp add: good_def)
qed

lemma good_quiet:
  assumes "good got (s, d)" "conserves {#} (s, d) y"
    and "same_lane s (fst y)" "s_closed s \<longrightarrow> same_ledger s (fst y)" "s_closeCall (fst y) = s_closeCall s \<or> s_launch s \<noteq> None"
  shows "good got y"
  using good_lane[of got s d "[]" y] assms by (simp add: fresh_for_def)

lemma good_silent: "good got (s, d) \<Longrightarrow> silent (s, d) y \<Longrightarrow> same_lane s (fst y) \<Longrightarrow> good got y"
  by (rule good_quiet) (auto simp: silent_conserves silent_def same_ledger_def)

lemma good_stopped:
  assumes "good got (s, d)" "silent (s, d) y" "s_launch (fst y) = s_launch s" "s_committed (fst y) = s_committed s"
    "s_openID (fst y) = s_openID s" "s_closed (fst y) = s_closed s" "s_identity (fst y) = s_identity s" "s_stopping (fst y)"
    "s_launchResult s \<noteq> None \<longrightarrow> s_launchResult (fst y) \<noteq> None"
    "s_launchResult (fst y) \<noteq> None \<longrightarrow> s_launchResult s \<noteq> None \<or> \<not> s_committed s"
  shows "good got y"
proof -
  have l: "same_ledger s (fst y)" using assms(2) by (simp add: silent_def)
  have "acct got y" using acct_quiet[OF _ silent_conserves[OF assms(2)]] assms(1,3,4) by (simp add: good_def)
  moreover have "flags (fst y)" using lane_stopped[OF assms(3-7) l assms(8-10)] assms(1) by (simp add: good_def)
  ultimately show ?thesis by (simp add: good_def)
qed

lemma good_routed:
  assumes "good got (s, d)" "usable got d [ch]" "issuable q" "\<not> q_scheduled q" "q_reply q = Some ch" "q_destination q \<noteq> None"
    "s_launch s = None \<longrightarrow> q_method q \<noteq> ''session.close''" "ch < n_chan d"
  shows "good (ch # got) (handleRouted q s d)"
proof -
  have k: "kept_ok q" using assms(3) by (simp add: issuable_def)
  have fee: "fee q = mset (map Some [ch])" using assms(4,5) by (simp add: fee_def)
  have a: "acct got (s, d)" using assms(1) by (simp add: good_def)
  have fr: "fresh_for got d [ch]" by (rule usable_one[OF assms(2) a])
  have tidy: "tidy s" using assms(1) by (simp add: good_def acct_def)
  have on: "once (owed s + fee q)" unfolding fee by (rule acct_owed[OF a fr])
  show ?thesis
  proof (cases "s_stopping s \<or> q_destination q \<noteq> s_identity s \<or> s_launch s \<noteq> None \<and> \<not> s_committed s")
    case True
    have c: "conserves (fee q) (s, d) (s, answerRouted q (codeAnswer NotConnected) s d)"
      unfolding fee_def by (rule conserves_answer[OF k]) simp_all
    have "n_chan (answerRouted q (codeAnswer NotConnected) s d) = n_chan d" by (rule answerRouted_books(2)[OF k])
    with good_lane[OF assms(1) _ fr, of "(s, answerRouted q (codeAnswer NotConnected) s d)"] c fee True assms(8) show ?thesis
      by (simp add: handleRouted_def)
  next
    case False
    then have i: "s_identity s \<noteq> None" using assms(6) by auto
    have c: "conserves (fee q) (s, d) (issue q s d)" by (rule conserves_issue[OF assms(3) i])
    then have n: "n_chan d \<le> n_chan (snd (issue q s d))" using tidy on by (simp add: conserves_def)
    have "s_closeCall (fst (issue q s d)) = s_closeCall s \<or> s_launch s \<noteq> None"
      using call_issue[of q s d] assms(7) by (auto simp: same_call_def)
    moreover have "\<not> s_closed s" using False assms(1) by (auto simp: good_def flags_def)
    ultimately have "good (ch # got) (issue q s d)"
      using good_lane[OF assms(1) _ fr, of "issue q s d"] c fee assms(8) n by simp
    moreover have "handleRouted q s d = issue q s d" unfolding handleRouted_def using False by (rule if_not_P)
    ultimately show ?thesis by simp
  qed
qed

lemma policyClose_chan:
  assumes "tidy s" "closing_channel s d \<noteq> {#}" "once (owed s + {#Some (n_chan d)#})"
  shows "n_chan d < n_chan (snd (policyClose s d))"
proof -
  have g: "\<not> (s_stopping s \<or> s_closeCall s \<noteq> None \<or> \<not> s_committed s)" and "s_identity s \<noteq> None"
    using assms(2) by (auto simp: closing_channel_def split: if_splits)
  then obtain p where p: "s_identity s = Some p" by auto
  let ?d1 = "snd (newChan d)"
  let ?i = "\<lparr>sc_SessionID = r_SessionID (e_row (h_entry ?d1 p)), sc_Forget = False\<rparr>"
  let ?q = "(newRequest ''session.close'' (PClose ?i) (n_chan d))\<lparr>q_destination := Some p\<rparr>"
  have e: "policyClose s d = beginClose ?q (stopAutoClose s) ?d1"
    using g p by (simp add: policyClose_def newChan_def)
  have c: "conserves {#q_reply ?q#} (stopAutoClose s, ?d1) (beginClose ?q (stopAutoClose s) ?d1)"
    by (rule conserves_beginClose) (use g in \<open>simp_all add: newRequest_def kept_ok_def stopAutoClose_def\<close>)
  have sl: "same_ledger s (stopAutoClose s)" by (simp add: same_ledger_def stopAutoClose_def)
  have "n_chan ?d1 \<le> n_chan (snd (beginClose ?q (stopAutoClose s) ?d1))"
    using c same_ledger_tidy[OF sl assms(1)] assms(3) same_ledger_owed[OF sl]
    by (simp add: conserves_def newRequest_def)
  then show ?thesis unfolding e by (simp add: newChan_def)
qed

lemma closing_list: "closing_channel s d = mset (map Some (close_channel s d))"
  by (simp add: closing_channel_def close_channel_def)

lemma good_policy:
  assumes "good got (s, d)"
  shows "good (close_channel s d @ got) (policyClose s d)"
proof -
  have a: "acct got (s, d)" and t: "tidy s" using assms by (simp_all add: good_def acct_def)
  have fr: "fresh_for got d (close_channel s d)"
    using usable_one[OF _ a, of "n_chan d"] by (auto simp: close_channel_def usable_def fresh_for_def)
  have c: "conserves (mset (map Some (close_channel s d))) (s, d) (policyClose s d)"
    using conserves_policyClose[of s d] by (simp add: closing_list)
  have n: "\<forall>c \<in> set (close_channel s d). c < n_chan (snd (policyClose s d))"
  proof
    fix c assume m: "c \<in> set (close_channel s d)"
    then have cc: "close_channel s d = [n_chan d]" "c = n_chan d" by (auto simp: close_channel_def split: if_splits)
    with policyClose_chan[OF t] acct_owed[OF a fr] closing_list[of s d] show "c < n_chan (snd (policyClose s d))" by simp
  qed
  have "s_closed s \<longrightarrow> s_stopping s" using assms by (simp add: good_def flags_def)
  then have "s_closed s \<longrightarrow> policyClose s d = (s, d)" by (simp add: policyClose_def)
  then have l: "s_closed s \<longrightarrow> same_ledger s (fst (policyClose s d))" by auto
  have "s_closeCall (fst (policyClose s d)) = s_closeCall s \<or> s_launch s \<noteq> None"
  proof (cases "s_committed s")
    case True
    with assms have "s_launch s \<noteq> None" by (simp add: good_def flags_def)
    then show ?thesis by simp
  qed (simp add: policyClose_def)
  from good_lane[OF assms c fr n lane_policyClose l this] show ?thesis .
qed

lemma good_auto: "good got (s, d) \<Longrightarrow> good (close_channel s d @ got) (autoCloseDue s d)"
proof -
  assume g: "good got (s, d)"
  let ?s = "s\<lparr>s_autoClose := None\<rparr>"
  have "good got (?s, d)" by (rule good_silent[OF g]) (simp_all add: silent_def same_ledger_def same_lane_def)
  from good_policy[OF this] show ?thesis by (simp add: autoCloseDue_def close_channel_def)
qed

lemma good_owner:
  "good got (s, d) \<Longrightarrow> good ((if ownerEnded w s d = policyClose s d then close_channel s d else []) @ got) (ownerEnded w s d)"
  using ownerEnded_cases[of w s d] good_policy[of got s d] good_silent[of got s d "(s, panic d)"]
  by (auto simp: silent_def)

lemma good_response:
  assumes "good got (s, d)" "\<not> s_stopping s"
    "s_closeCall s \<noteq> None \<longrightarrow> q_destination (the (s_closeCall s)) = s_identity s \<and> current (s_identity s) (s_self s) d"
  shows "good got (receiveResponse frame s d)"
proof -
  have c: "close_ok (s_closeCall s) (s_deferredDeliveries s)" using assms(1) by (simp add: good_def acct_def tidy_def)
  have "\<not> s_closed s" using assms(1,2) by (auto simp: good_def flags_def)
  with good_quiet[OF assms(1) conserves_receiveResponse[OF assms(3)]] call_receiveResponse[OF c] show ?thesis by simp
qed

lemma good_ready:
  assumes "good got (s, d)" "\<not> s_stopping s" "s_identity s \<noteq> None"
  shows "good got (fst (turnReady frame ready s d), fst (snd (turnReady frame ready s d)))"
proof -
  have c: "close_ok (s_closeCall s) (s_deferredDeliveries s)" using assms(1) by (simp add: good_def acct_def tidy_def)
  have "\<not> s_closed s" using assms(1,2) by (auto simp: good_def flags_def)
  with good_quiet[OF assms(1) conserves_turnReady[OF assms(3), of d frame ready]] call_turnReady[OF c] show ?thesis by simp
qed

lemma good_opened:
  assumes "good got (s, d)" "\<not> s_stopping s" "s_launch s \<noteq> None" "fr_ID frame = s_openID s" "fr_ID frame > 0"
  shows "good got (finishOpen frame s d)"
proof -
  obtain start where start: "s_launch s = Some start" using assms(3) by auto
  let ?s = "s\<lparr>s_openID := 0\<rparr>"
  let ?y = "finishOpen frame s d"
  have nc: "\<not> s_committed s" "\<not> s_closed s" "s_launchResult s = None" "s_identity s \<noteq> None"
    using assms(1,2,3,5) unfolding good_def flags_def fst_conv assms(4)[symmetric] by auto
  have "good got (?s, d)"
  proof -
    have sl: "same_ledger s ?s" by (simp add: same_ledger_def)
    have "acct got (?s, d)" using acct_quiet[OF _ conserves_same[OF sl keeps_refl], of got d] assms(1) by (simp add: good_def)
    moreover have "flags ?s" using assms(1) flags_openID by (simp add: good_def)
    ultimately show ?thesis by (simp add: good_def)
  qed
  note g = this
  have oe: "open_ends start (?s, d) ?y" by (rule finishOpen_ends[OF nc(1) start])
  from oe have l: "s_launch (fst ?y) = Some start" "s_closed (fst ?y) = False" "s_openID (fst ?y) = 0" "s_identity (fst ?y) \<noteq> None"
    using start nc unfolding open_ends_def by auto
  show ?thesis
  proof (cases "s_committed (fst ?y)")
    case True
    with oe have c: "same_ledger ?s (fst ?y)" "conserves {#Some (l_reply (h_launch d start))#} (?s, d) ?y"
      "s_launchResult (fst ?y) = None" using nc by (auto simp: open_ends_def)
    have t: "tidy ?s" and a: "acct got (?s, d)" using g by (simp_all add: good_def acct_def)
    have ds: "debt ?s d = owed ?s + {#Some (l_reply (h_launch d start))#}"
      using start nc by (simp add: debt_def launch_debt_def)
    have "Some (l_reply (h_launch d start)) \<in> Some ` set got" using a by (auto simp: acct_def ds)
    then have "l_reply (h_launch d start) \<in> set got" by auto
    then have "count (debt ?s d) (Some (l_reply (h_launch d start))) \<le> 1" using a unfolding acct_def fst_conv snd_conv by (metis le_add2)
    then have "count (owed ?s) (Some (l_reply (h_launch d start))) = 0" unfolding ds by simp
    then have "once (owed ?s + {#Some (l_reply (h_launch d start))#})"
      using t by (auto simp: once_def tidy_def not_in_iff)
    with c(2) t have y: "tidy (fst ?y)" "paid (snd ?y) + owed (fst ?y) = paid d + owed ?s + {#Some (l_reply (h_launch d start))#}"
      "paid d \<subseteq># paid (snd ?y)" "n_chan d \<le> n_chan (snd ?y)" by (auto simp: conserves_def)
    have "debt (fst ?y) (snd ?y) = owed (fst ?y)" using True by (simp add: debt_def launch_debt_def split: option.split)
    then have "paid (snd ?y) + debt (fst ?y) (snd ?y) = paid d + debt ?s d + mset (map Some [])" unfolding ds using y(2) by simp
    from acct_move[OF a y(1) this y(3,4)] have "acct got ?y" by (simp add: fresh_for_def)
    moreover have "flags (fst ?y)" using True l c(3) by (simp add: flags_def)
    ultimately show ?thesis by (simp add: good_def)
  next
    case False
    with oe nc have c: "silent (?s, d) ?y" "s_launchResult (fst ?y) = None \<or> s_stopping (fst ?y)" by (auto simp: open_ends_def)
    have "acct got ?y" using acct_quiet[OF _ silent_conserves[OF c(1)]] g l nc False start by (simp add: good_def)
    moreover have "flags (fst ?y)" using False l c(2) by (auto simp: flags_def)
    ultimately show ?thesis by (simp add: good_def)
  qed
qed

text \<open>Stopping.\<close>

lemma stop_fields:
  "s_launch (fst (recordStop sig s d)) = s_launch s" "s_committed (fst (recordStop sig s d)) = s_committed s"
  "s_openID (fst (recordStop sig s d)) = s_openID s" "s_closed (fst (recordStop sig s d)) = s_closed s"
  "s_identity (fst (recordStop sig s d)) = s_identity s" "s_stopping (fst (recordStop sig s d))"
  "s_launchResult (fst (recordStop sig s d)) = s_launchResult s"
  by (simp_all add: recordStop_def Let_def)

lemma stops_keep:
  assumes "stop = hardStop \<or> stop = orderlyStop"
  shows "s_launch (fst (stop s d)) = s_launch s" "s_committed (fst (stop s d)) = s_committed s"
    "s_openID (fst (stop s d)) = s_openID s" "s_closed (fst (stop s d)) = s_closed s"
    "s_identity (fst (stop s d)) = s_identity s" "s_stopping (fst (stop s d))" "s_launchResult (fst (stop s d)) = s_launchResult s"
    "silent (s, d) (stop s d)"
  using assms orderlyStop_same[of s d] recordStop_same[of s SIGKILL d]
  by (auto simp: hardStop_def orderlyStop_def stop_fields Let_def split_beta silent_def split: if_splits)

lemma abort_keep:
  "s_launch (abortLaunch val s) = s_launch s" "s_committed (abortLaunch val s) = s_committed s"
  "s_openID (abortLaunch val s) = s_openID s" "s_closed (abortLaunch val s) = s_closed s"
  "s_identity (abortLaunch val s) = s_identity s" "s_launchResult s \<noteq> None \<longrightarrow> s_launchResult (abortLaunch val s) \<noteq> None"
  "s_launchResult (abortLaunch val s) \<noteq> None \<longrightarrow> s_launchResult s \<noteq> None \<or> \<not> s_committed s"
  by (auto simp: abortLaunch_def)

lemma good_stop:
  assumes "good got (s, d)" "stop = hardStop \<or> stop = orderlyStop"
  shows "good got (stop s d)" "good got (stop (abortLaunch val s) d)"
proof -
  show "good got (stop s d)"
    by (rule good_stopped[OF assms(1) stops_keep(8)[OF assms(2)]]) (simp_all add: stops_keep(1-7)[OF assms(2)])
  have 0: "silent (s, d) (abortLaunch val s, d)" by (simp add: silent_def)
  show "good got (stop (abortLaunch val s) d)"
    by (rule good_stopped[OF assms(1) silent_trans[OF 0 stops_keep(8)[OF assms(2)]]])
      (use abort_keep in \<open>simp_all add: stops_keep(1-7)[OF assms(2)]\<close>)
qed

lemma good_timers:
  assumes "good got (s, d)"
  shows "good got (spawnExpired s d)" "good got (handleSpawnTimeout start s d)" "good got (closeExpired s d)" "good got (shutdownStop s d)"
proof -
  show x: "good got (spawnExpired s d)" using good_stop(2)[OF assms, of hardStop] by (simp add: spawnExpired_def abortAnd_def)
  then show "good got (handleSpawnTimeout start s d)" using assms by (simp add: handleSpawnTimeout_def)
  have "good got (s\<lparr>s_closeTimer := False\<rparr>, d)"
    by (rule good_silent[OF assms]) (simp_all add: silent_def same_ledger_def same_lane_def)
  from good_stop(1)[OF this, of hardStop] show "good got (closeExpired s d)" by (simp add: closeExpired_def)
  show "good got (shutdownStop s d)" using good_stop[OF assms, of orderlyStop] by (simp add: shutdownStop_def)
qed

lemma good_process:
  assumes "good got (s, d)" "err = None \<or> s_stopping s"
  shows "good got (handleProcess start child exited err s d)"
proof -
  let ?y = "handleProcess start child exited err s d"
  have e: "s_launch (fst ?y) = s_launch s" "s_committed (fst ?y) = s_committed s" "s_openID (fst ?y) = s_openID s"
    "s_closed (fst ?y) = s_closed s" "s_identity (fst ?y) = s_identity s" "s_stopping (fst ?y) = s_stopping s" "s_self (fst ?y) = s_self s"
    and r: "err = None \<Longrightarrow> s_launchResult (fst ?y) = s_launchResult s" "s_launchResult s \<noteq> None \<longrightarrow> s_launchResult (fst ?y) \<noteq> None"
    "s_launchResult (fst ?y) \<noteq> None \<longrightarrow> s_launchResult s \<noteq> None \<or> \<not> s_committed s"
    by (auto simp: handleProcess_def Let_def abortLaunch_def split: option.split)
  show ?thesis
  proof (cases "s_stopping s")
    case True
    with e r show ?thesis by (intro good_stopped[OF assms(1) silent_handleProcess]) simp_all
  next
    case False
    with assms(2) have "err = None" by simp
    from r(1)[OF this] e show ?thesis by (intro good_silent[OF assms(1) silent_handleProcess]) (simp add: same_lane_def)
  qed
qed

lemma connectionClosed_keep:
  "s_launch (fst (connectionClosed s d)) = s_launch s" "s_committed (fst (connectionClosed s d)) = s_committed s"
  "s_openID (fst (connectionClosed s d)) = s_openID s" "s_identity (fst (connectionClosed s d)) = s_identity s"
  "s_launchResult (fst (connectionClosed s d)) = s_launchResult s" "s_closed (fst (connectionClosed s d))"
  "s_closed s \<longrightarrow> s_stopping s \<Longrightarrow> s_stopping (fst (connectionClosed s d))"
  "s_closeCall (fst (connectionClosed s d)) = s_closeCall s"
proof -
  let ?s1 = "stopAutoClose (s\<lparr>s_stopping := True, s_closed := True\<rparr>)"
  let ?y = "settlePending NotConnected ?s1 (detach (s_identity ?s1) (s_self ?s1) (upd_wire (s_self ?s1) OwnerClosed (logSession ''disconnected'' s d)))"
  have e: "connectionClosed s d = (if s_closed s then (s, d) else dropRequests (fst ?y) (snd ?y))"
    by (simp add: connectionClosed_def Let_def split_beta)
  have l: "same_lane ?s1 (fst (dropRequests (fst ?y) (snd ?y)))" by (rule same_lane_trans[OF lane_settlePending lane_dropRequests])
  have "same_ledger (fst ?y) (fst (dropRequests (fst ?y) (snd ?y)))" using silent_dropRequests[of "fst ?y" "snd ?y"] by (simp add: silent_def)
  then have c: "s_closeCall (fst (dropRequests (fst ?y) (snd ?y))) = s_closeCall s"
    by (simp add: same_ledger_def settlePending_def settleDeferredDeliveries_def stopAutoClose_def Let_def)
  show "s_launch (fst (connectionClosed s d)) = s_launch s" "s_committed (fst (connectionClosed s d)) = s_committed s"
    "s_openID (fst (connectionClosed s d)) = s_openID s" "s_identity (fst (connectionClosed s d)) = s_identity s"
    "s_launchResult (fst (connectionClosed s d)) = s_launchResult s" "s_closed (fst (connectionClosed s d))"
    "s_closed s \<longrightarrow> s_stopping s \<Longrightarrow> s_stopping (fst (connectionClosed s d))"
    "s_closeCall (fst (connectionClosed s d)) = s_closeCall s"
    using l c unfolding e by (auto simp: same_lane_def stopAutoClose_def)
qed

lemma good_closed:
  assumes "good got (s, d)"
  shows "good got (handleClosed s d)"
proof -
  let ?x = "connectionClosed s d"
  let ?s1 = "fst ?x"
  let ?a = "abortLaunch (dataAnswer SpawnFailed (failure (s_child ?s1) ''worker exited before open'' (snd ?x))) ?s1"
  let ?t = "if \<not> s_committed ?s1 \<and> s_launchResult ?s1 = None then ?a else ?s1"
  have f: "flags s" and a: "acct got (s, d)" using assms by (simp_all add: good_def)
  have k: "s_launch ?s1 = s_launch s" "s_committed ?s1 = s_committed s" "s_openID ?s1 = s_openID s" "s_identity ?s1 = s_identity s"
    "s_launchResult ?s1 = s_launchResult s" "s_closed ?s1" "s_closeCall ?s1 = s_closeCall s"
    using connectionClosed_keep[of s d] by simp_all
  have st: "s_stopping ?s1" by (rule connectionClosed_keep(7)) (use f in \<open>simp add: flags_def\<close>)
  have em: "s_pending ?s1 = []" "s_deferredDeliveries ?s1 = []"
  proof -
    have "s_closed s \<Longrightarrow> s_pending s = [] \<and> s_deferredDeliveries s = []" using f by (simp add: flags_def)
    then show "s_pending ?s1 = []" "s_deferredDeliveries ?s1 = []"
      using connectionClosed_settles[of s d] by (cases "s_closed s"; simp add: connectionClosed_def)+
  qed
  have x: "acct got ?x" by (rule acct_quiet[OF a conserves_connectionClosed]) (simp_all add: k)
  show ?thesis
  proof (cases "s_launch s")
    case None
    have "flags ?s1" using f k st em None unfolding flags_def k em by simp
    with x None k(1) show ?thesis by (simp add: handleClosed_def good_def split_beta Let_def)
  next
    case (Some start)
    define t where "t = ?t"
    let ?y = "orderlyStop t (snd ?x)"
    have y: "handleClosed s d = ?y" using Some k(1) by (simp add: handleClosed_def split_beta Let_def t_def)
    have tl: "silent (?s1, snd ?x) (t, snd ?x)" by (simp add: silent_def t_def)
    have sil: "silent ?x ?y" using silent_trans[OF tl stops_keep(8)[of orderlyStop t "snd ?x"]] by simp
    have t: "s_launch t = s_launch ?s1" "s_committed t = s_committed ?s1" "s_openID t = s_openID ?s1"
      "s_closed t = s_closed ?s1" "s_identity t = s_identity ?s1"
      using abort_keep(1-5) by (simp_all add: t_def)
    have r: "s_launchResult t \<noteq> None \<longleftrightarrow> \<not> s_committed s"
    proof -
      have "s_launchResult s \<noteq> None \<longrightarrow> \<not> s_committed s" using f by (simp add: flags_def)
      then show ?thesis by (auto simp: abortLaunch_def k t_def)
    qed
    have e: "s_launch (fst ?y) = s_launch s" "s_committed (fst ?y) = s_committed s" "s_openID (fst ?y) = s_openID s"
      "s_closed (fst ?y)" "s_identity (fst ?y) = s_identity s" "s_stopping (fst ?y)"
      "s_launchResult (fst ?y) \<noteq> None \<longleftrightarrow> \<not> s_committed s"
      using stops_keep(1-7)[of orderlyStop t "snd ?x"] t k r by simp_all
    have sl: "s_pending (fst ?y) = []" "s_deferredDeliveries (fst ?y) = []" "s_closeCall (fst ?y) = s_closeCall s"
      using sil em k(7) by (simp_all add: silent_def same_ledger_def)
    have "acct got (?s1, snd ?x)" using x by simp
    from acct_quiet[OF this, of ?y] silent_conserves[OF sil] e(1,2) k(1,2) have "acct got ?y" by simp
    moreover have "flags (fst ?y)" using f e sl Some unfolding flags_def e(1,2,3,5) sl by auto
    ultimately show ?thesis unfolding y good_def by simp
  qed
qed

lemma good_rehello:
  assumes "good got (s, d)" "\<not> s_stopping s" "s_launch s = None"
  shows "good got ((fst (settlePending code s d))\<lparr>s_identity := Some p\<rparr>, snd (settlePending code s d))"
proof -
  let ?x = "settlePending code s d"
  let ?t = "(fst ?x)\<lparr>s_identity := Some p\<rparr>"
  have l: "same_lane s (fst ?x)" by simp
  have "same_ledger (fst ?x) ?t" by (simp add: same_ledger_def)
  from conserves_same[OF this, of "snd ?x" "snd ?x"] conserves_settlePending[of s d code]
  have c: "conserves {#} (s, d) (?t, snd ?x)" using conserves_then[of "{#}" "(s, d)" ?x "(?t, snd ?x)"] by simp
  have "acct got (?t, snd ?x)"
    by (rule acct_quiet[OF _ c]) (use assms l in \<open>simp_all add: good_def same_lane_def\<close>)
  moreover have "flags ?t"
  proof -
    have "s_closeCall (fst ?x) = s_closeCall s" by (simp add: settlePending_def settleDeferredDeliveries_def Let_def)
    moreover have f: "flags s" using assms(1) by (simp add: good_def)
    then have "\<not> s_closed s" "s_launchResult s = None" "s_openID s = 0" "s_closeCall s = None" "\<not> s_committed s"
      using assms(2,3) unfolding flags_def by auto
    ultimately show ?thesis using l assms(3) by (simp add: flags_def same_lane_def)
  qed
  ultimately show ?thesis by (simp add: good_def)
qed

theorem good_event:
  assumes "lane_event new (s, d) y" "good got (s, d)" "usable got d new"
  shows "good (new @ got) y"
  using assms
proof (induction new "(s, d)" y rule: lane_event.induct)
  case (lane_claim start frame hello)
  with good_claim[of got s d start frame hello] show ?case by simp
next
  case (lane_routed q ch)
  with good_routed[of got s d ch q] show ?case by simp
next
  case (lane_response frame)
  with good_response show ?case by simp
next
  case (lane_opened frame)
  with good_opened show ?case by simp
next
  case (lane_ready frame ready)
  with good_ready[of got s d frame ready] show ?case by simp
next
  case (lane_owner w)
  with good_owner show ?case by blast
next
  case lane_auto
  with good_auto show ?case by simp
next
  case (lane_process err start child exited)
  with good_process show ?case by simp
next
  case (lane_superseded)
  with good_silent[OF _ silent_supersede] show ?case by simp
next
  case (lane_rehello code p)
  with good_rehello show ?case by simp
next
  case (lane_other s')
  with good_silent[of got s d "(s', d)"] show ?case by (simp add: silent_def)
qed (use good_timers good_closed in auto)

section \<open>The system\<close>

text \<open>
  The state of the session, the daemon, the channels it has taken on so far, and whether its loop
  has returned. Other goroutines answer other channels.
\<close>

record lsys =
  ls_s :: session
  ls_d :: daemon
  ls_got :: "ptr list"
  ls_done :: bool

definition foreign :: "ptr list \<Rightarrow> daemon \<Rightarrow> daemon \<Rightarrow> bool" where
  "foreign got d d' \<longleftrightarrow> (\<forall>ch \<in> set got. count (paid d') (Some ch) = count (paid d) (Some ch)) \<and> n_chan d \<le> n_chan d'
     \<and> set_mset (paid d') \<subseteq> Some ` {..<n_chan d'} \<and> (\<forall>start. l_reply (h_launch d' start) = l_reply (h_launch d start))"

inductive lane_step :: "lsys \<Rightarrow> lsys \<Rightarrow> bool" where
  ls_event: "\<not> ls_done x \<Longrightarrow> lane_event new (ls_s x, ls_d x) (s', d') \<Longrightarrow> usable (ls_got x) (ls_d x) new \<Longrightarrow>
     lane_step x (x\<lparr>ls_s := s', ls_d := d', ls_got := new @ ls_got x\<rparr>)"
| ls_foreign: "foreign (ls_got x) (ls_d x) d' \<Longrightarrow> lane_step x (x\<lparr>ls_d := d'\<rparr>)"
| ls_return: "\<not> ls_done x \<Longrightarrow> mayReturn (ls_s x) \<Longrightarrow> runReturn (ls_s x) (ls_d x) = (s', d') \<Longrightarrow>
     lane_step x (x\<lparr>ls_s := s', ls_d := d', ls_done := True\<rparr>)"

definition lane_init :: "lsys \<Rightarrow> bool" where
  "lane_init x \<longleftrightarrow> (\<exists>p. ls_s x = newSession p) \<and> ls_got x = [] \<and> \<not> ls_done x
     \<and> set_mset (paid (ls_d x)) \<subseteq> Some ` {..<n_chan (ls_d x)}"

definition lane_inv :: "lsys \<Rightarrow> bool" where
  "lane_inv x \<longleftrightarrow>
     (if ls_done x then \<forall>ch \<in> set (ls_got x). count (paid (ls_d x)) (Some ch) = 1
      else good (ls_got x) (ls_s x, ls_d x))"

lemma lane_inv_init: "lane_init x \<Longrightarrow> lane_inv x"
  by (auto simp: lane_init_def lane_inv_def good_def acct_def flags_def newSession_def tidy_def pending_ok_def close_ok_def
      owed_def once_def debt_def launch_debt_def)

lemma good_foreign:
  assumes "good got (s, d)" "foreign got d d'"
  shows "good got (s, d')"
proof -
  have "launch_debt s d' = launch_debt s d" using assms(2) by (simp add: launch_debt_def foreign_def split: option.split)
  then have d: "debt s d' = debt s d" by (simp add: debt_def)
  have "acct got (s, d')" using assms unfolding good_def acct_def foreign_def fst_conv snd_conv d by force
  with assms(1) show ?thesis by (simp add: good_def)
qed

lemma good_return:
  assumes "good got (s, d)" "s_closed s"
  shows "\<forall>ch \<in> set got. count (paid (snd (runReturn s d))) (Some ch) = 1"
proof -
  have f: "flags s" and a: "acct got (s, d)" using assms(1) by (simp_all add: good_def)
  have p: "s_pending s = []" using f assms(2) by (simp add: flags_def)
  have "paid (snd (runReturn s d)) = paid d + debt s d"
  proof (cases "s_launch s")
    case None
    then have "s_closeCall s = None" using f by (auto simp: flags_def)
    with None p show ?thesis by (simp add: runReturn_def debt_def owed_def launch_debt_def)
  next
    case (Some start)
    have "s_launchResult s \<noteq> None \<longrightarrow> \<not> s_committed s" "\<not> s_committed s \<longrightarrow> s_launchResult s \<noteq> None" "s_identity s \<noteq> None"
      using f assms(2) Some unfolding flags_def by simp_all
    then have "s_committed s \<longleftrightarrow> s_launchResult s = None" "s_identity s \<noteq> None" by auto
    from finishLane_books(1)[OF _ Some this] a Some p show ?thesis
      by (simp add: acct_def runReturn_def debt_def launch_debt_def owed_def)
  qed
  with a show ?thesis by (simp add: acct_def)
qed

interpretation lanes: transition_system lane_init lane_step lane_inv
proof unfold_locales
  show "lane_init x \<Longrightarrow> lane_inv x" for x by (rule lane_inv_init)
  show "lane_inv y" if "lane_inv x" "lane_step x y" for x y
    using that(2,1)
  proof (induction rule: lane_step.induct)
    case (ls_event x new s' d')
    with good_event[of new "ls_s x" "ls_d x" "(s', d')" "ls_got x"] show ?case by (simp add: lane_inv_def)
  next
    case (ls_foreign x d')
    then show ?case using good_foreign[of "ls_got x" "ls_s x" "ls_d x" d']
      by (auto simp: lane_inv_def foreign_def)
  next
    case (ls_return x s' d')
    then show ?case using good_return[of "ls_got x" "ls_s x" "ls_d x"] by (simp add: lane_inv_def mayReturn_def)
  qed
qed

lemma paid_count: "count (paid d) (Some ch) = count_list (map fst (d_answers d)) ch"
proof -
  have "count (image_mset (Some \<circ> fst) (mset xs)) (Some ch) = count_list (map fst xs) ch" for xs :: "(ptr \<times> answer) list"
    by (induction xs) auto
  then show ?thesis by (simp add: paid_def)
qed

text \<open>
  C1: in every interleaving of a session's events and timers with the rest of the daemon, every
  channel the session took on, of a routed request, of the spawn request its worker belongs to or
  of its own automatic close, receives at most one answer; as long as it has received none the
  session still owes it; and when the session's loop has returned it has received exactly one.
\<close>

theorem requests_answered_once:
  assumes "reach lane_init lane_step x" "ch \<in> set (ls_got x)"
  shows "count_list (map fst (d_answers (ls_d x))) ch = 1
    \<or> \<not> ls_done x \<and> count_list (map fst (d_answers (ls_d x))) ch = 0 \<and> Some ch \<in># debt (ls_s x) (ls_d x)"
proof -
  have i: "lane_inv x" by (rule lanes.reach_inv[OF assms(1)])
  show ?thesis
  proof (cases "ls_done x")
    case True
    with i assms(2) show ?thesis by (simp add: lane_inv_def paid_count)
  next
    case False
    with i assms(2) have "count (paid (ls_d x)) (Some ch) + count (debt (ls_s x) (ls_d x)) (Some ch) = 1"
      by (simp add: lane_inv_def good_def acct_def)
    then show ?thesis using False by (cases "count (debt (ls_s x) (ls_d x)) (Some ch)") (auto simp: paid_count count_greater_zero_iff[symmetric])
  qed
qed

text \<open>A worker that only describes its product: it says hello, its connection ends, its process exits.\<close>

definition demo_launch :: launch where
  "demo_launch = \<lparr>l_parent = None, l_input = None, l_previous = None, l_token = ''t'', l_product = ''p'', l_entry = Some 0,
     l_owner = None, l_claimed = True, l_timerStopped = False, l_reply = 0, l_describe = True, l_fresh = False\<rparr>"

definition demo_daemon :: daemon where
  "demo_daemon = (emptyDaemon ''h'')\<lparr>n_chan := 1, h_launch := (\<lambda>p. demo_launch), h_entry := (\<lambda>p. zeroEntry)\<rparr>"

definition demo_hello :: "session \<times> daemon" where
  "demo_hello = startLane 0 demo_frame
     \<lparr>hd_SupportsMessageRun = True, hd_Product = ''p'', hd_Version = [], hd_SupportedOpenFields = [], hd_ExtraArguments = []\<rparr>
     (newSession 0) demo_daemon"

definition demo_closed :: "session \<times> daemon" where
  "demo_closed = handleClosed (fst demo_hello) (snd demo_hello)"

definition demo_exited :: "session \<times> daemon" where
  "demo_exited = handleProcess 0 None True None (fst demo_closed) (snd demo_closed)"

definition demo_end :: "session \<times> daemon" where
  "demo_end = runReturn (fst demo_exited) (snd demo_exited)"

lemma demo_hello_fields:
  "s_launch (fst demo_hello) = Some 0" "s_owned (fst demo_hello) = 1" "s_processExited (fst demo_hello) = False"
  "s_pending (fst demo_hello) = []" "s_deferredDeliveries (fst demo_hello) = []" "s_requests (fst demo_hello) = []"
  by (simp_all add: demo_hello_def startLane_def demo_daemon_def demo_launch_def newSession_def split_beta Let_def unsupported_def)

lemma demo_may_return: "mayReturn (fst demo_exited)"
proof -
  have "s_launch (fst demo_closed) = Some 0 \<and> s_owned (fst demo_closed) = 1 \<and> s_processExited (fst demo_closed) = False \<and> s_closed (fst demo_closed)"
    using demo_hello_fields
    by (auto simp: demo_closed_def handleClosed_def connectionClosed_def settlePending_def settleDeferredDeliveries_def
        dropRequests_def stopAutoClose_def orderlyStop_def recordStop_def abortLaunch_def Let_def split_beta)
  then show ?thesis by (auto simp: mayReturn_def demo_exited_def handleProcess_def Let_def)
qed

definition demo_lsys :: lsys where
  "demo_lsys = \<lparr>ls_s = fst demo_end, ls_d = snd demo_end, ls_got = [0], ls_done = True\<rparr>"

lemma demo_lsys_reach: "reach lane_init lane_step demo_lsys"
proof -
  let ?init = "\<lparr>ls_s = newSession 0, ls_d = demo_daemon, ls_got = [], ls_done = False\<rparr>"
  let ?at = "\<lambda>y. \<lparr>ls_s = fst y, ls_d = snd y, ls_got = [0], ls_done = False\<rparr>"
  have r: "l_reply (h_launch demo_daemon 0) = 0" "l_entry (h_launch demo_daemon 0) = Some 0" "n_chan demo_daemon = 1" "paid demo_daemon = {#}"
    by (simp_all add: demo_daemon_def demo_launch_def paid_def emptyDaemon_def)
  have 0: "reach lane_init lane_step ?init"
    by (rule reach_init) (auto simp: lane_init_def r)
  have "lane_event [l_reply (h_launch demo_daemon 0)] (newSession 0, demo_daemon) demo_hello"
    unfolding demo_hello_def by (rule lane_claim) (simp_all add: r newSession_def)
  then have "lane_event [0] (newSession 0, demo_daemon) (fst demo_hello, snd demo_hello)" by (simp add: r)
  with ls_event[of ?init "[0]" "fst demo_hello" "snd demo_hello"] have "lane_step ?init (?at demo_hello)"
    by (simp add: usable_def r)
  with 0 have 1: "reach lane_init lane_step (?at demo_hello)" by (rule reach_step)
  have q: "lane_event [] y z \<Longrightarrow> lane_step (?at y) (?at z)" for y z
    using ls_event[of "?at y" "[]" "fst z" "snd z"] by (simp add: usable_def)
  have "lane_event [] demo_hello demo_closed"
    using lane_closed[of "fst demo_hello" "snd demo_hello"] by (simp add: demo_closed_def)
  from reach_step[OF 1 q[OF this]] have 2: "reach lane_init lane_step (?at demo_closed)" .
  have "lane_event [] demo_closed demo_exited"
    using lane_process[of None "fst demo_closed" "snd demo_closed" 0 None True] by (simp add: demo_exited_def)
  from reach_step[OF 2 q[OF this]] have 3: "reach lane_init lane_step (?at demo_exited)" .
  have "lane_step (?at demo_exited) demo_lsys"
    using ls_return[of "?at demo_exited" "fst demo_end" "snd demo_end"] demo_may_return by (simp add: demo_lsys_def demo_end_def)
  with 3 show ?thesis by (rule reach_step)
qed

theorem requests_answered_once_witness:
  "0 \<in> set (ls_got demo_lsys) \<and> ls_done demo_lsys \<and> count_list (map fst (d_answers (ls_d demo_lsys))) 0 = 1"
  using requests_answered_once[OF demo_lsys_reach, of 0] by (simp add: demo_lsys_def)

end
