(* ===== verification/Capacity.thy ===== *)
theory Capacity
  imports SessionSystem
begin

text \<open>
  The retained records of a worker (\<open>delivery_queue.go\<close>): a worker keeps at most \<open>MaxOperations\<close> runs
  that were not acknowledged. Every queued delivery reserves one of them, so that a run started
  explicitly can never take the place promised to a delivery whose sender already has its receipt.
\<close>

definition reserved :: "session \<Rightarrow> nat" where
  "reserved s = unat (s_runSequence s - s_acknowledgedSequence s) + length (s_deferredDeliveries s)"

definition capacity_ok :: "session \<Rightarrow> bool" where
  "capacity_ok s \<longleftrightarrow> reserved s \<le> 256 \<and> (\<forall>q \<in> set (s_deferredDeliveries s). q_runID q = [] \<and> q_method q = ''message.deliver'')"

lemma unat_len: "n \<le> 256 \<Longrightarrow> unat (word_of_nat n :: 64 word) = n"
  by (simp add: unat_of_nat)

lemma hasRunCapacity_iff: "reserved s \<le> 256 \<Longrightarrow> hasRunCapacity s \<longleftrightarrow> reserved s < 256"
proof -
  assume a: "reserved s \<le> 256"
  let ?a = "s_runSequence s - s_acknowledgedSequence s" and ?n = "length (s_deferredDeliveries s)"
  have n: "unat (word_of_nat ?n :: 64 word) = ?n" by (rule unat_len) (use a in \<open>simp add: reserved_def\<close>)
  have "unat (?a + word_of_nat ?n) = unat ?a + ?n"
    using a n by (subst unat_plus_if') (simp add: reserved_def)
  then show ?thesis by (simp add: hasRunCapacity_def word_less_nat_alt reserved_def)
qed

lemma unat_inc: "unat (a :: 64 word) < 256 \<Longrightarrow> unat (a + 1) = unat a + 1"
  by (subst unat_plus_if') simp

lemma unat_dec: "unat (a :: 64 word) > 0 \<Longrightarrow> unat (a - 1) = unat a - 1"
  by (rule unat_minus_one) (auto simp: unat_eq_0)

lemma reserve_sequence:
  assumes "reserveRun s d = (runID, s1, d1)" "reserved s < 256"
  shows "reserved s1 = reserved s + 1" "unat (s_runSequence s1 - s_acknowledgedSequence s1) > 0"
    "s_deferredDeliveries s1 = s_deferredDeliveries s"
proof -
  from assms(1) have e: "s_runSequence s1 = s_runSequence s + 1" "s_acknowledgedSequence s1 = s_acknowledgedSequence s"
    and d: "s_deferredDeliveries s1 = s_deferredDeliveries s"
    by (auto simp: reserveRun_def setDeadline_def stopAutoClose_def Let_def split_beta)
  show "s_deferredDeliveries s1 = s_deferredDeliveries s" by (rule d)
  have "unat (s_runSequence s - s_acknowledgedSequence s) < 256" using assms(2) by (simp add: reserved_def)
  from unat_inc[OF this] have u: "unat (s_runSequence s1 - s_acknowledgedSequence s1) = unat (s_runSequence s - s_acknowledgedSequence s) + 1"
    unfolding e by (simp add: algebra_simps)
  then show "reserved s1 = reserved s + 1" "unat (s_runSequence s1 - s_acknowledgedSequence s1) > 0"
    by (simp_all add: reserved_def d)
qed

lemma refuse_sequence:
  assumes "unat (s_runSequence s - s_acknowledgedSequence s) > 0"
  shows "reserved (fst (refuseRun r s d)) \<le> reserved s" "s_deferredDeliveries (fst (refuseRun r s d)) = s_deferredDeliveries s"
proof -
  have "unat (s_runSequence s - s_acknowledgedSequence s - 1) = unat (s_runSequence s - s_acknowledgedSequence s) - 1"
    by (rule unat_dec[OF assms])
  then show "reserved (fst (refuseRun r s d)) \<le> reserved s"
    by (simp add: refuseRun_def reserved_def setDeadline_def stopAutoClose_def Let_def algebra_simps)
  show "s_deferredDeliveries (fst (refuseRun r s d)) = s_deferredDeliveries s"
    by (simp add: refuseRun_def setDeadline_def stopAutoClose_def Let_def)
qed

lemma issueSend_capacity:
  assumes "q_runID q = [] \<or> unat (s_runSequence s - s_acknowledgedSequence s) > 0"
  shows "reserved (fst (issueSend q s d)) \<le> reserved s \<and> s_deferredDeliveries (fst (issueSend q s d)) = s_deferredDeliveries s"
proof (rule issueSend_rule)
  fix d1 s2 d2
  let ?s1 = "s\<lparr>s_nextOut := s_nextOut s + 1\<rparr>"
  assume e: "(s2, d2) = (if q_runID q \<noteq> [] then refuseRun (q_runID q) ?s1 d1 else (?s1, d1))"
  have s2: "s2 = fst (if q_runID q \<noteq> [] then refuseRun (q_runID q) ?s1 d1 else (?s1, d1))" by (simp flip: e)
  have r: "reserved ?s1 = reserved s" by (simp add: reserved_def)
  show "reserved (fst (s2, answerRouted q (codeAnswer NotConnected) s2 d2)) \<le> reserved s
    \<and> s_deferredDeliveries (fst (s2, answerRouted q (codeAnswer NotConnected) s2 d2)) = s_deferredDeliveries s"
    using assms refuse_sequence[of ?s1 "q_runID q" d1] r unfolding s2 by auto
qed (simp add: reserved_def)

lemma issueSend_reserved:
  assumes "reserved s < 256" "reserved t = reserved s + 1" "unat (s_runSequence t - s_acknowledgedSequence t) > 0"
    "s_deferredDeliveries t = s_deferredDeliveries s"
  shows "reserved (fst (issueSend q t d)) \<le> 256 \<and> set (s_deferredDeliveries (fst (issueSend q t d))) \<subseteq> set (s_deferredDeliveries s)"
  using issueSend_capacity[OF disjI2[OF assms(3)], of q d] assms(1,2,4) by auto

lemma writeDeferredClose_runs:
  "s_runSequence (fst (writeDeferredClose s d)) = s_runSequence s"
  "s_acknowledgedSequence (fst (writeDeferredClose s d)) = s_acknowledgedSequence s"
  by (simp_all add: writeDeferredClose_def hardStop_def recordStop_def Let_def split_beta split: option.split)

lemma beginClose_runs:
  "s_runSequence (fst (beginClose q s d)) = s_runSequence s" "s_acknowledgedSequence (fst (beginClose q s d)) = s_acknowledgedSequence s"
  by (simp_all add: beginClose_def settleDeferredDeliveries_def stopAutoClose_def Let_def writeDeferredClose_runs split: params.split)

lemma issue_capacity:
  assumes "reserved s \<le> 256" "q_runID q = []"
  shows "reserved (fst (issue q s d)) \<le> 256
    \<and> set (s_deferredDeliveries (fst (issue q s d))) \<subseteq> set (s_deferredDeliveries s)"
proof (rule issue_rule)
  show "reserved (fst (beginClose q s d)) \<le> 256 \<and> set (s_deferredDeliveries (fst (beginClose q s d))) \<subseteq> set (s_deferredDeliveries s)"
    using assms(1) by (simp add: reserved_def beginClose_runs beginClose_deferred)
next
  fix i sid runID s1 d1
  assume "hasRunCapacity s" and r: "reserveRun s d = (runID, s1, d1)"
  then have c: "reserved s < 256" using hasRunCapacity_iff[OF assms(1)] by simp
  note rs = reserve_sequence[OF r c]
  show "reserved (fst (issueSend ((asExecute q)\<lparr>q_runID := runID,
        q_params := PExecute \<lparr>ex_SessionID = sid, ex_RunID = runID, ex_Input = tq_Input i\<rparr>\<rparr>) s1 d1)) \<le> 256
    \<and> set (s_deferredDeliveries (fst (issueSend ((asExecute q)\<lparr>q_runID := runID,
        q_params := PExecute \<lparr>ex_SessionID = sid, ex_RunID = runID, ex_Input = tq_Input i\<rparr>\<rparr>) s1 d1)))
      \<subseteq> set (s_deferredDeliveries s)"
    by (rule issueSend_reserved[OF c rs])
next
  fix i runID s1 d1
  assume "hasRunCapacity s" and r: "reserveRun s d = (runID, s1, d1)"
  then have c: "reserved s < 256" using hasRunCapacity_iff[OF assms(1)] by simp
  note rs = reserve_sequence[OF r c]
  let ?s = "s1\<lparr>s_runFromTrace := q_traceCopy q, s_runFromCompletion := q_completion q\<rparr>"
  have "unat (s_runSequence ?s - s_acknowledgedSequence ?s) > 0" "reserved ?s = reserved s + 1"
    "s_deferredDeliveries ?s = s_deferredDeliveries s" using rs by (simp_all add: reserved_def)
  from issueSend_reserved[OF c this(2,1,3)]
  show "reserved (fst (issueSend (q\<lparr>q_runID := runID, q_params := PDeliver (i\<lparr>dq_RunID := runID\<rparr>)\<rparr>) ?s d1)) \<le> 256
    \<and> set (s_deferredDeliveries (fst (issueSend (q\<lparr>q_runID := runID, q_params := PDeliver (i\<lparr>dq_RunID := runID\<rparr>)\<rparr>) ?s d1)))
      \<subseteq> set (s_deferredDeliveries s)"
    .
next
  fix sid
  show "reserved (fst (issueSend (q\<lparr>q_params := canonicalParams sid (q_params q)\<rparr>) s d)) \<le> 256
    \<and> set (s_deferredDeliveries (fst (issueSend (q\<lparr>q_params := canonicalParams sid (q_params q)\<rparr>) s d)))
      \<subseteq> set (s_deferredDeliveries s)"
    using issueSend_capacity[of "q\<lparr>q_params := canonicalParams sid (q_params q)\<rparr>" s d] assms by auto
qed (use assms in simp_all)

lemma popped_has_capacity:
  "capacity_ok s \<Longrightarrow> s_deferredDeliveries s = q # rest \<Longrightarrow> hasRunCapacity (s\<lparr>s_deferredDeliveries := rest\<rparr>)"
  using hasRunCapacity_iff[of "s\<lparr>s_deferredDeliveries := rest\<rparr>"] by (simp add: capacity_ok_def reserved_def)

lemma capacity_issue: "capacity_ok s \<Longrightarrow> q_runID q = [] \<Longrightarrow> capacity_ok (fst (issue q s d))"
  using issue_capacity[of s q d] unfolding capacity_ok_def by blast

lemma capacity_defer:
  assumes "capacity_ok s" "q_runID q = []" "q_method q = ''message.deliver''"
  shows "capacity_ok (fst (deferDelivery q s d))"
proof -
  have "reserved s \<le> 256" using assms(1) by (simp add: capacity_ok_def)
  with assms capacity_issue[OF assms(1,2), of d] hasRunCapacity_iff[OF this] show ?thesis
    by (auto simp: deferDelivery_def capacity_ok_def reserved_def)
qed

lemma capacity_start: "capacity_ok s \<Longrightarrow> capacity_ok (fst (startDeferredDelivery s d))"
proof (induction s d rule: startDeferredDelivery.induct)
  case (1 s d)
  show ?case
  proof (cases "s_runID s \<noteq> [] \<or> s_deferredDeliveries s = []")
    case False
    then obtain q rest where q: "s_deferredDeliveries s = q # rest" by (cases "s_deferredDeliveries s") auto
    let ?s = "s\<lparr>s_deferredDeliveries := rest\<rparr>"
    have "capacity_ok ?s" "q_runID q = []" using 1(2) q by (simp_all add: capacity_ok_def reserved_def)
    from capacity_issue[OF this] 1(1)[OF _ q refl] False q show ?thesis
      by (simp add: startDeferredDelivery.simps[of s d] Let_def)
  qed (use 1(2) in \<open>auto simp: startDeferredDelivery.simps[of s d]\<close>)
qed

lemma capacity_acknowledge: "capacity_ok s \<Longrightarrow> capacity_ok (recordAcknowledgment ref s d)"
proof -
  have u: "unat (n - b) \<le> unat (n - a)" if "b \<le> n" "a < b" for n a b :: "64 word"
    using that by (simp add: word_le_nat_alt word_less_nat_alt unat_sub_if')
  show "capacity_ok s \<Longrightarrow> ?thesis"
    using u[of _ "s_runSequence s" "s_acknowledgedSequence s"]
    by (fastforce simp: recordAcknowledgment_def capacity_ok_def reserved_def Let_def split: prod.splits option.splits)
qed

text \<open>
  C20: while at most \<open>MaxOperations\<close> records are unacknowledged or promised, issuing a request,
  queueing a delivery, starting the queued deliveries and recording an acknowledgment keep it so;
  and the next queued delivery always finds the place it was promised, whatever was issued since.
\<close>

theorem run_capacity_promised:
  assumes "capacity_ok s"
  shows "(q_runID q = [] \<longrightarrow> capacity_ok (fst (issue q s d))
      \<and> (q_method q = ''message.deliver'' \<longrightarrow> capacity_ok (fst (deferDelivery q s d))))
    \<and> capacity_ok (fst (startDeferredDelivery s d)) \<and> capacity_ok (recordAcknowledgment ref s d)
    \<and> (s_deferredDeliveries s \<noteq> [] \<longrightarrow> hasRunCapacity (s\<lparr>s_deferredDeliveries := tl (s_deferredDeliveries s)\<rparr>))"
proof -
  have "s_deferredDeliveries s \<noteq> [] \<Longrightarrow> hasRunCapacity (s\<lparr>s_deferredDeliveries := tl (s_deferredDeliveries s)\<rparr>)"
    using popped_has_capacity[OF assms] by (cases "s_deferredDeliveries s") auto
  with assms capacity_issue capacity_defer capacity_start capacity_acknowledge show ?thesis by blast
qed

text \<open>A lane with 255 unacknowledged runs and one delivery queued behind its current run.\<close>

definition demo_full :: session where
  "demo_full = (newSession 0)\<lparr>s_runID := ''r/255'', s_runSequence := 255, s_identity := Some 0,
     s_deferredDeliveries := [newRequest ''message.deliver'' PEmpty 0]\<rparr>"

theorem run_capacity_promised_witness:
  "capacity_ok demo_full \<and> \<not> hasRunCapacity demo_full \<and> hasRunCapacity (demo_full\<lparr>s_deferredDeliveries := []\<rparr>)"
proof -
  have c: "capacity_ok demo_full" by (simp add: capacity_ok_def reserved_def demo_full_def newSession_def newRequest_def)
  have "\<not> hasRunCapacity demo_full" by (simp add: hasRunCapacity_def demo_full_def newSession_def)
  with c run_capacity_promised[OF c] show ?thesis by (simp add: demo_full_def)
qed

end
