(* ===== verification/Collect.thy ===== *)
theory Collect
  imports SessionState
begin

text \<open>
  Requests that span hosts (\<open>bus/internal/daemon/federation.go\<close>): splitting the targets of a message
  by host, collecting the replies of the hosts into one result, and merging their session lists.
  These functions only compute; what a leg's wait returned is an argument, \<open>None\<close> when the request's
  session ended first.
\<close>

section \<open>Replies of other hosts\<close>

text \<open>
  \<open>remoteAnswer\<close>. A reply keeps its raw form (\<open>an_remote\<close>); one whose result is not of the method's
  type counts as lost.
\<close>

definition remoteAnswer :: "gostring \<Rightarrow> Reply \<Rightarrow> answer" where
  "remoteAnswer method reply =
     (let trace = (case rp_Trace reply of None \<Rightarrow> [] | Some t \<Rightarrow> t) in
      case rp_Error reply of
        Some e \<Rightarrow> \<lparr>an_trace = trace, an_value = None, an_code = er_Code e, an_data = er_Data e, an_remote = Some reply\<rparr>
      | None \<Rightarrow>
          (case DecodeResult method (rp_Result reply) of
             None \<Rightarrow> codeAnswer ForwardLost
           | Some v \<Rightarrow> \<lparr>an_trace = trace, an_value = Some v, an_code = 0, an_data = None, an_remote = Some reply\<rparr>))"

section \<open>Splitting targets by host\<close>

text \<open>
  The loop of \<open>sendFederated\<close> over the labels: groups in the order of their first label. \<open>None\<close> is a
  label that is not valid.
\<close>

fun addLabel :: "gostring \<Rightarrow> gostring \<Rightarrow> (gostring \<times> gostring list) list \<Rightarrow> (gostring \<times> gostring list) list" where
  "addLabel host label [] = [(host, [label])]"
| "addLabel host label ((h, ls) # ps) =
     (if h = host then (h, ls @ [label]) # ps else (h, ls) # addLabel host label ps)"

fun partitionLabels ::
    "(gostring \<Rightarrow> bool) \<Rightarrow> gostring \<Rightarrow> gostring list \<Rightarrow> (gostring \<times> gostring list) list \<Rightarrow>
     (gostring \<times> gostring list) list option" where
  "partitionLabels valid local [] ps = Some ps"
| "partitionLabels valid local (label # labels) ps =
     (case canonicalTarget label local valid of
        (_, host, code) \<Rightarrow>
          if code \<noteq> 0 then None else partitionLabels valid local labels (addLabel host label ps))"

definition targetHost :: "(gostring \<Rightarrow> bool) \<Rightarrow> gostring \<Rightarrow> gostring \<Rightarrow> gostring" where
  "targetHost valid local label = (case canonicalTarget label local valid of (_, host, _) \<Rightarrow> host)"

section \<open>Collecting the legs of a message\<close>

text \<open>What the loop over the legs ends with: an answer, a failed type assertion, or what it collected.\<close>

datatype collected =
    CFail answer
  | CPanic
  | CDone "TraceRecipient list" "MessageSendDelivery list"

definition rejected :: "int \<Rightarrow> gostring \<Rightarrow> MessageSendDelivery" where
  "rejected code label =
     \<lparr>md_Target = label, md_SessionID = [], md_DeliveryID = [], md_Disposition = ''rejected'',
      md_Reason = reason code ''no_receipt''\<rparr>"

definition failAnswer :: "int \<Rightarrow> TraceRecipient list \<Rightarrow> answer" where
  "failAnswer code refs = (codeAnswer code)\<lparr>an_trace := refs\<rparr>"

fun collectLegs ::
    "(messageLeg \<Rightarrow> Reply option) \<Rightarrow> int \<Rightarrow> messageLeg list \<Rightarrow> TraceRecipient list \<Rightarrow> MessageSendDelivery list \<Rightarrow>
     collected" where
  "collectLegs recv failure [] refs ds = CDone refs ds"
| "collectLegs recv failure (leg # legs) refs ds =
     (if lg_code leg \<noteq> 0
      then if lg_labels leg = [] then CFail (failAnswer (lg_code leg) refs)
           else collectLegs recv failure legs refs (ds @ map (rejected (lg_code leg)) (lg_labels leg))
      else case recv leg of
             None \<Rightarrow> CFail (failAnswer failure refs)
           | Some reply \<Rightarrow>
               let v = remoteAnswer ''message.send'' reply;
                   refs' = refs @ take (256 - length refs) (an_trace v)
               in if an_code v \<noteq> 0
                  then if lg_labels leg = [] then CFail (failAnswer (an_code v) refs')
                       else collectLegs recv failure legs refs' (ds @ map (rejected (an_code v)) (lg_labels leg))
                  else case an_value v of
                         Some (VSend r) \<Rightarrow> collectLegs recv failure legs refs' (ds @ mr_Deliveries r)
                       | _ \<Rightarrow> CPanic)"

text \<open>\<open>slices.Index\<close>.\<close>

fun sliceIndex :: "'a list \<Rightarrow> 'a \<Rightarrow> int" where
  "sliceIndex [] x = - 1"
| "sliceIndex (y # ys) x =
     (if y = x then 0 else (let i = sliceIndex ys x in if i < 0 then - 1 else i + 1))"

text \<open>
  \<open>collectMessageSend\<close>. With an order the sort is stable; without one the source's \<open>sort.Slice\<close> leaves
  the order of receipts with the same session open, and the model takes the stable one.
\<close>

definition orderDeliveries :: "gostring list option \<Rightarrow> MessageSendDelivery list \<Rightarrow> MessageSendDelivery list" where
  "orderDeliveries order ds =
     (case order of
        Some labels \<Rightarrow> sort_key (\<lambda>x. sliceIndex labels (md_Target x)) ds
      | None \<Rightarrow> sort_key md_SessionID ds)"

definition collectMessageSend ::
    "gostring \<Rightarrow> messageLeg list \<Rightarrow> gostring list option \<Rightarrow> (messageLeg \<Rightarrow> Reply option) \<Rightarrow> int \<Rightarrow> answer option" where
  "collectMessageSend messageID legs order recv failure =
     (case collectLegs recv failure legs [] [] of
        CFail a \<Rightarrow> Some a
      | CPanic \<Rightarrow> None
      | CDone refs ds \<Rightarrow>
          Some ((okAnswer (VSend \<lparr>mr_MessageID = messageID, mr_Deliveries = orderDeliveries order ds\<rparr>))\<lparr>an_trace := refs\<rparr>))"

section \<open>Merging session lists\<close>

text \<open>The end of \<open>collectFederatedList\<close>: the local list, then those of the other hosts.\<close>

fun mergeLists :: "SessionListResult \<Rightarrow> Reply option list \<Rightarrow> answer option + SessionListResult" where
  "mergeLists acc [] = Inr acc"
| "mergeLists acc (r # rs) =
     (case r of
        None \<Rightarrow> Inl (Some (codeAnswer NotConnected))
      | Some reply \<Rightarrow>
          let val = remoteAnswer ''session.list'' reply in
          if an_code val \<noteq> 0 then Inl (Some (codeAnswer ForwardLost))
          else case an_value val of
                 Some (VList listed) \<Rightarrow>
                   mergeLists (acc\<lparr>sr_Sessions := sr_Sessions acc @ sr_Sessions listed,
                                   sr_Hosts := sr_Hosts acc @ sr_Hosts listed\<rparr>) rs
               | _ \<Rightarrow> Inl None)"

definition sortedList :: "SessionListResult \<Rightarrow> SessionListResult" where
  "sortedList r = r\<lparr>sr_Sessions := sort_key ss_SessionID (sr_Sessions r), sr_Hosts := sort_key hp_Host (sr_Hosts r)\<rparr>"

definition collectLists :: "Caller \<Rightarrow> Reply option \<Rightarrow> Reply option list \<Rightarrow> answer option" where
  "collectLists caller local replies =
     (case local of
        None \<Rightarrow> Some (codeAnswer NotConnected)
      | Some reply \<Rightarrow>
          let val = remoteAnswer ''session.list'' reply in
          if an_code val \<noteq> 0 then Some val
          else case an_value val of
                 Some (VList r) \<Rightarrow>
                   (case mergeLists (r\<lparr>sr_SelfInfo := Some (listSelfInfo caller)\<rparr>) replies of
                      Inl a \<Rightarrow> a
                    | Inr merged \<Rightarrow> Some (okAnswer (VList (sortedList merged))))
               | _ \<Rightarrow> None)"

section \<open>The partition is exact\<close>

lemma unique_from_snoc:
  "unique_from acc (xs @ [x]) = (let u = unique_from acc xs in if x \<in> set u then u else u @ [x])"
  by (induction acc xs rule: unique_from.induct) (auto simp: Let_def)

lemma unique_snoc: "unique (xs @ [x]) = (if x \<in> set xs then unique xs else unique xs @ [x])"
  using unique_correct(2)[of xs] by (simp add: unique_def unique_from_snoc Let_def)

lemma addLabel_map:
  assumes "distinct hs"
  shows "addLabel host l (map (\<lambda>h. (h, F h)) hs) =
    (if host \<in> set hs then map (\<lambda>h. (h, if h = host then F h @ [l] else F h)) hs else map (\<lambda>h. (h, F h)) hs @ [(host, [l])])"
  using assms by (induction hs) (auto intro!: map_cong)

definition grouped :: "(gostring \<Rightarrow> gostring) \<Rightarrow> gostring list \<Rightarrow> (gostring \<times> gostring list) list" where
  "grouped host labels = map (\<lambda>h. (h, filter (\<lambda>l. host l = h) labels)) (unique (map host labels))"

lemma addLabel_grouped: "addLabel (host l) l (grouped host ls) = grouped host (ls @ [l])"
proof (cases "host l \<in> set (map host ls)")
  case True
  then show ?thesis unfolding grouped_def addLabel_map[OF unique_correct(1)]
    by (auto simp: unique_snoc unique_correct intro!: map_cong)
next
  case False
  then have "filter (\<lambda>x. host x = host l) ls = []" by (auto simp: filter_empty_conv image_iff dest: sym)
  with False show ?thesis unfolding grouped_def addLabel_map[OF unique_correct(1)]
    by (auto simp: unique_snoc unique_correct intro!: map_cong)
qed

lemma partition_grouped:
  "partitionLabels valid local labels (grouped (targetHost valid local) pre) =
     (if \<forall>l \<in> set labels. snd (snd (canonicalTarget l local valid)) = 0
      then Some (grouped (targetHost valid local) (pre @ labels)) else None)"
proof (induction labels arbitrary: pre)
  case (Cons l labels)
  obtain c host code where t: "canonicalTarget l local valid = (c, host, code)" by (cases "canonicalTarget l local valid") auto
  then have h: "host = targetHost valid local l" by (simp add: targetHost_def)
  show ?case
  proof (cases "code = 0")
    case True
    with Cons[of "pre @ [l]"] t show ?thesis by (simp add: h addLabel_grouped)
  qed (simp add: t)
qed simp

text \<open>
  C22: the targets of a message are split by host exactly: unless a target is not valid, which
  rejects the whole message, there is one group per host, in the order in which the hosts first
  appear, and it holds the targets on that host in the order the sender gave them.
\<close>

theorem targets_split_by_host:
  "partitionLabels valid local labels [] =
     (if \<forall>l \<in> set labels. snd (snd (canonicalTarget l local valid)) = 0
      then Some (map (\<lambda>h. (h, filter (\<lambda>l. targetHost valid local l = h) labels)) (unique (map (targetHost valid local) labels)))
      else None)"
  using partition_grouped[of valid local labels "[]"] by (simp add: grouped_def unique_def)

theorem targets_split_by_host_witness:
  "partitionLabels (\<lambda>x. x \<noteq> []) ''h'' [''a'', ''b@k'', ''c@h''] [] = Some [(''h'', [''a'', ''c@h'']), (''k'', [''b@k''])]"
  unfolding targets_split_by_host
  by (simp add: targetHost_def canonicalTarget_def validHost_def lowerAlnum_def unique_def qualify_def)

section \<open>Every leg is accounted for\<close>

text \<open>
  A decoded reply has an error code of the protocol (never 0), as \<open>DecodeError\<close> checks. The code a leg
  ends with, and what it contributes to the result: its own receipts, or a rejection per label.
\<close>

definition reply_ok :: "Reply \<Rightarrow> bool" where
  "reply_ok r \<longleftrightarrow> (\<forall>e. rp_Error r = Some e \<longrightarrow> er_Code e \<noteq> 0)"

definition legCode :: "(messageLeg \<Rightarrow> Reply option) \<Rightarrow> messageLeg \<Rightarrow> int" where
  "legCode recv leg =
     (if lg_code leg \<noteq> 0 then lg_code leg
      else case recv leg of None \<Rightarrow> 0 | Some reply \<Rightarrow> an_code (remoteAnswer ''message.send'' reply))"

definition legReceipts :: "(messageLeg \<Rightarrow> Reply option) \<Rightarrow> messageLeg \<Rightarrow> MessageSendDelivery list" where
  "legReceipts recv leg =
     (if legCode recv leg \<noteq> 0 then map (rejected (legCode recv leg)) (lg_labels leg)
      else case recv leg of
             Some reply \<Rightarrow> (case rp_Result reply of Some (VSend r) \<Rightarrow> mr_Deliveries r | _ \<Rightarrow> [])
           | None \<Rightarrow> [])"

definition legTrace :: "(messageLeg \<Rightarrow> Reply option) \<Rightarrow> messageLeg \<Rightarrow> TraceRecipient list" where
  "legTrace recv leg =
     (if lg_code leg \<noteq> 0 then []
      else case recv leg of Some reply \<Rightarrow> an_trace (remoteAnswer ''message.send'' reply) | None \<Rightarrow> [])"

lemma remote_send:
  assumes "reply_ok reply"
  shows "an_code (remoteAnswer ''message.send'' reply) \<noteq> 0 \<and> an_value (remoteAnswer ''message.send'' reply) = None
    \<or> an_code (remoteAnswer ''message.send'' reply) = 0
      \<and> (\<exists>r. rp_Result reply = Some (VSend r) \<and> an_value (remoteAnswer ''message.send'' reply) = Some (VSend r))"
proof (cases "rp_Error reply")
  case None
  have "\<exists>r. v = VSend r" if "rtype_of v = TrSend" for v using that by (cases v) auto
  with None show ?thesis
    by (auto simp: remoteAnswer_def codeAnswer_def DecodeResult_def methodCodecs_def codec_def Let_def split: option.splits)
qed (use assms in \<open>auto simp: remoteAnswer_def reply_ok_def Let_def\<close>)

lemma take_more: "take n xs @ take (n - length (take n xs)) ys = take n (xs @ ys)"
  by (cases "length xs \<le> n") simp_all

lemma collectLegs_done:
  assumes "\<forall>leg \<in> set legs. lg_code leg = 0 \<longrightarrow> (\<exists>reply. recv leg = Some reply \<and> reply_ok reply)"
    "\<forall>leg \<in> set legs. legCode recv leg \<noteq> 0 \<longrightarrow> lg_labels leg \<noteq> []"
  shows "collectLegs recv failure legs (take 256 refs) ds =
    CDone (take 256 (refs @ concat (map (legTrace recv) legs))) (ds @ concat (map (legReceipts recv) legs))"
  using assms
proof (induction legs arbitrary: refs ds)
  case (Cons leg legs)
  note IH = Cons.IH[of "refs @ legTrace recv leg" "ds @ legReceipts recv leg"]
  show ?case
  proof (cases "lg_code leg = 0")
    case False
    then have "legCode recv leg = lg_code leg" by (simp add: legCode_def)
    with False Cons.prems IH show ?thesis by (simp add: legReceipts_def legTrace_def)
  next
    case z: True
    with Cons.prems obtain reply where reply: "recv leg = Some reply" "reply_ok reply" by auto
    let ?v = "remoteAnswer ''message.send'' reply"
    have t: "take 256 refs @ take (256 - length (take 256 refs)) (an_trace ?v) = take 256 (refs @ legTrace recv leg)"
      using z reply by (simp only: take_more) (simp add: legTrace_def)
    have lc: "legCode recv leg = an_code ?v" using z reply by (simp add: legCode_def)
    have step: "collectLegs recv failure (leg # legs) (take 256 refs) ds =
      collectLegs recv failure legs (take 256 (refs @ legTrace recv leg)) (ds @ legReceipts recv leg)"
    proof (cases "an_code ?v = 0")
      case True
      with remote_send[OF reply(2)] obtain r where "rp_Result reply = Some (VSend r)" "an_value ?v = Some (VSend r)" by auto
      with True z reply lc show ?thesis by (simp only: collectLegs.simps t[symmetric]) (simp add: legReceipts_def Let_def)
    next
      case False
      with Cons.prems lc have "lg_labels leg \<noteq> []" by auto
      with False z reply lc show ?thesis by (simp only: collectLegs.simps t[symmetric]) (simp add: legReceipts_def Let_def)
    qed
    show ?thesis using IH Cons.prems unfolding step by simp
  qed
qed simp

text \<open>
  C21: when the message of a sender was split into legs, and every leg was refused at once or got a
  reply (the replies are decoded ones, and a leg without labels, which stands for a group, succeeded), the
  sender gets one result that accounts for every leg exactly: it holds the receipts in the replies of
  the legs that succeeded and, for a leg that failed, one rejection with that leg's reason for each of
  its targets, each as often as the legs do and nothing else. With targets the receipts are in the order of
  the targets, those of one target in the order of the legs; the trace recipients of the replies are
  kept in order up to 256.
\<close>

theorem every_leg_accounted_for:
  assumes "\<forall>leg \<in> set legs. lg_code leg = 0 \<longrightarrow> (\<exists>reply. recv leg = Some reply \<and> reply_ok reply)"
    and "\<forall>leg \<in> set legs. legCode recv leg \<noteq> 0 \<longrightarrow> lg_labels leg \<noteq> []"
  shows "\<exists>a r. collectMessageSend messageID legs order recv failure = Some a \<and> an_code a = 0
    \<and> an_value a = Some (VSend r) \<and> mr_MessageID r = messageID
    \<and> mset (mr_Deliveries r) = mset (concat (map (legReceipts recv) legs))
    \<and> (\<forall>labels. order = Some labels \<longrightarrow>
         sorted (map (\<lambda>x. sliceIndex labels (md_Target x)) (mr_Deliveries r))
         \<and> (\<forall>t. filter (\<lambda>x. md_Target x = t) (mr_Deliveries r)
               = filter (\<lambda>x. md_Target x = t) (concat (map (legReceipts recv) legs))))
    \<and> an_trace a = take 256 (concat (map (legTrace recv) legs))"
proof -
  let ?ds = "concat (map (legReceipts recv) legs)"
  have c: "collectLegs recv failure legs [] [] = CDone (take 256 (concat (map (legTrace recv) legs))) ?ds"
    using collectLegs_done[OF assms, of failure "[]" "[]"] by simp
  have "filter (\<lambda>x. md_Target x = t) (sort_key (\<lambda>x. sliceIndex labels (md_Target x)) ?ds) = filter (\<lambda>x. md_Target x = t) ?ds" for labels t
  proof -
    let ?k = "\<lambda>x. sliceIndex labels (md_Target x)"
    have f: "filter (\<lambda>x. md_Target x = t) xs = filter (\<lambda>x. md_Target x = t) (filter (\<lambda>x. ?k x = sliceIndex labels t) xs)" for xs
      by (simp add: conj_commute) (metis (mono_tags, lifting) filter_cong)
    show ?thesis using f[of "sort_key ?k ?ds"] f[of ?ds] sort_key_stable[of ?k "sliceIndex labels t" ?ds] by simp
  qed
  then show ?thesis using c
    by (auto simp: collectMessageSend_def okAnswer_def orderDeliveries_def split: option.split)
qed

definition demo_leg :: "gostring \<Rightarrow> int \<Rightarrow> messageLeg" where
  "demo_leg label code = \<lparr>lg_labels = [label], lg_wait = None, lg_reply = Some 0, lg_code = code\<rparr>"

definition demo_reply :: Reply where
  "demo_reply = \<lparr>rp_Result = Some (VSend \<lparr>mr_MessageID = ''m'', mr_Deliveries =
       [\<lparr>md_Target = ''b@k'', md_SessionID = ''b@k'', md_DeliveryID = ''d'', md_Disposition = ''written'', md_Reason = []\<rparr>]\<rparr>),
     rp_Error = None, rp_Trace = None\<rparr>"

theorem every_leg_accounted_for_witness:
  "\<exists>a r. collectMessageSend ''m'' [demo_leg ''b@k'' 0, demo_leg ''a@x'' UnknownHost] (Some [''a@x'', ''b@k''])
      (\<lambda>leg. if lg_labels leg = [''b@k''] then Some demo_reply else None) NotConnected = Some a
    \<and> an_value a = Some (VSend r) \<and> size (mset (mr_Deliveries r)) = 2 \<and> rejected UnknownHost ''a@x'' \<in># mset (mr_Deliveries r)"
proof -
  let ?recv = "\<lambda>leg. if lg_labels leg = [''b@k''] then Some demo_reply else None"
  let ?legs = "[demo_leg ''b@k'' 0, demo_leg ''a@x'' UnknownHost]"
  have 1: "\<forall>leg \<in> set ?legs. lg_code leg = 0 \<longrightarrow> (\<exists>reply. ?recv leg = Some reply \<and> reply_ok reply)"
    by (simp add: demo_leg_def reply_ok_def demo_reply_def)
  have 2: "\<forall>leg \<in> set ?legs. legCode ?recv leg \<noteq> 0 \<longrightarrow> lg_labels leg \<noteq> []"
    by (simp add: demo_leg_def)
  have l: "map (legReceipts ?recv) ?legs = [mr_Deliveries (case rp_Result demo_reply of Some (VSend r) \<Rightarrow> r), [rejected UnknownHost ''a@x'']]"
    by (simp add: legReceipts_def legCode_def demo_leg_def demo_reply_def remoteAnswer_def DecodeResult_def methodCodecs_def codec_def)
  from every_leg_accounted_for[OF 1 2, of "''m''" "Some [''a@x'', ''b@k'']" NotConnected] obtain a r where
    r: "collectMessageSend ''m'' ?legs (Some [''a@x'', ''b@k'']) ?recv NotConnected = Some a" "an_value a = Some (VSend r)"
      "mset (mr_Deliveries r) = mset (concat (map (legReceipts ?recv) ?legs))" by blast
  from r(3) have "size (mset (mr_Deliveries r)) = 2 \<and> rejected UnknownHost ''a@x'' \<in># mset (mr_Deliveries r)"
    unfolding l by (simp add: demo_reply_def)
  with r(1,2) show ?thesis by blast
qed

section \<open>Merged lists\<close>

definition listReply :: "SessionListResult \<Rightarrow> Reply" where
  "listReply l = \<lparr>rp_Result = Some (VList l), rp_Error = None, rp_Trace = None\<rparr>"

lemma remote_list [simp]: "an_code (remoteAnswer ''session.list'' (listReply l)) = 0"
  "an_value (remoteAnswer ''session.list'' (listReply l)) = Some (VList l)"
  by (simp_all add: remoteAnswer_def listReply_def DecodeResult_def methodCodecs_def codec_def)

lemma mergeLists_append:
  "mergeLists acc (map (Some \<circ> listReply) ls @ rest) =
     mergeLists (acc\<lparr>sr_Sessions := sr_Sessions acc @ concat (map sr_Sessions ls),
                     sr_Hosts := sr_Hosts acc @ concat (map sr_Hosts ls)\<rparr>) rest"
  by (induction ls arbitrary: acc) (simp_all add: Let_def)

text \<open>
  a list over all hosts holds exactly the sessions and products of the local and the remote
  lists, sorted, and names the asking session as itself, whatever the hosts said about it; a host
  whose list is lost or an error makes the whole list fail, and so does the end of the asker.
\<close>

theorem merged_list_complete:
  "collectLists caller (Some (listReply mine)) (map (Some \<circ> listReply) ls) =
     Some (okAnswer (VList \<lparr>sr_SelfInfo = Some (listSelfInfo caller),
       sr_Sessions = sort_key ss_SessionID (concat (map sr_Sessions (mine # ls))),
       sr_Hosts = sort_key hp_Host (concat (map sr_Hosts (mine # ls)))\<rparr>))
   \<and> collectLists caller (Some (listReply mine)) (map (Some \<circ> listReply) ls @ None # later) = Some (codeAnswer NotConnected)
   \<and> collectLists caller (Some (listReply mine)) (map (Some \<circ> listReply) ls @ Some (errorReply ForwardLost data) # later)
     = Some (codeAnswer ForwardLost)"
proof -
  have e: "an_code (remoteAnswer ''session.list'' (errorReply ForwardLost data)) \<noteq> 0"
    by (simp add: remoteAnswer_def errorReply_def Let_def)
  have m: "mergeLists acc (map (Some \<circ> listReply) ls) = Inr (acc\<lparr>sr_Sessions := sr_Sessions acc @ concat (map sr_Sessions ls),
      sr_Hosts := sr_Hosts acc @ concat (map sr_Hosts ls)\<rparr>)" for acc
    using mergeLists_append[of acc ls "[]"] by simp
  show ?thesis using e by (cases mine) (simp add: collectLists_def m mergeLists_append sortedList_def Let_def)
qed

end
