(* ===== verification/Handlers.thy ===== *)
theory Handlers
  imports Collect Session
begin

text \<open>
  The requests a session's peer makes (\<open>handlers.go\<close>, the session part of \<open>federation.go\<close>,
  \<open>configureTrace\<close> of \<open>trace.go\<close>) and the dispatch of frames and events (\<open>session.go\<close>).

  A request that concerns the local host can be run for another caller: \<open>forwardLocalTrace\<close> runs it on
  a session of its own, without connection, whose reply goes to a channel. Handlers that need it
  take it as their argument \<open>fwd\<close>; it returns the pointer of that session. Every handler returns, with its
  session and the daemon, the sessions it started this way. The goroutines it starts are
  in \<open>s_tasks\<close>.
\<close>

type_synonym hres = "session \<times> daemon \<times> session list"

abbreviation plain :: "session \<times> daemon \<Rightarrow> hres" where
  "plain x \<equiv> (fst x, snd x, [])"

record localCall =
  lc_from :: Caller
  lc_omit :: "ptr option"
  lc_method :: gostring
  lc_params :: params
  lc_messageID :: gostring
  lc_collect :: bool
  lc_copy :: "TraceDestination option"
  lc_completion :: bool

type_synonym forwarder = "localCall \<Rightarrow> daemon \<Rightarrow> ptr \<times> daemon \<times> session list"

section \<open>The hub link's queue\<close>

definition postFederation :: "fedcall \<Rightarrow> daemon \<Rightarrow> int \<times> daemon" where
  "postFederation call d =
     (case d_federation d of
        None \<Rightarrow> (UnknownHost, d)
      | Some link \<Rightarrow>
          let (link', ok) = offerFederation call link
          in (if ok then 0 else ForwardLost, d\<lparr>d_federation := Some link'\<rparr>))"

text \<open>\<open>settleFederationQueue\<close> when a link ends: what is still queued is lost.\<close>

definition lostReply :: Reply where
  "lostReply =
     \<lparr>rp_Result = None, rp_Error = Some \<lparr>er_Code = ForwardLost, er_Message = ''forward_lost'', er_Data = None\<rparr>, rp_Trace = None\<rparr>"

definition settleFederationQueue :: "daemon \<Rightarrow> daemon" where
  "settleFederationQueue d =
     (case d_federation d of
        None \<Rightarrow> d
      | Some link \<Rightarrow>
          d\<lparr>d_federation := None,
            d_fedReplies := d_fedReplies d @ map (\<lambda>call. (call_chan call, lostReply)) (fl_inbox link)\<rparr>)"

definition postAggregate :: "Frame \<Rightarrow> fedcall \<Rightarrow> session \<Rightarrow> daemon \<Rightarrow> int \<times> session \<times> daemon" where
  "postAggregate frame call s d =
     (let (code, d1) = postFederation call d in
      if code \<noteq> 0 \<and> code \<noteq> UnknownHost then (code, error_reply frame code None s d1) else (code, s, d1))"

definition postCallerForward :: "session \<Rightarrow> fedcall \<Rightarrow> gostring \<Rightarrow> gostring \<Rightarrow> daemon \<Rightarrow> int \<times> daemon" where
  "postCallerForward s call method target d =
     (if d_federation d = None then (UnknownHost, d)
      else if (method = ''lane.spawn'' \<or> method = ''trace.configure'') \<and> s_caller s = None
      then case s_identity s of
             None \<Rightarrow> (NotConnected, panic d)
           | Some p \<Rightarrow>
               (case e_lifetime (h_entry d p) of
                  None \<Rightarrow> (NotConnected, d)
                | Some w \<Rightarrow>
                    if ow_ended (h_owner d w) \<or> e_attachment (h_entry d p) \<noteq> Some (s_self s) then (NotConnected, d)
                    else
                      let (_, host, _) = canonicalTarget target (d_host d) (validIDPart (d_hi d));
                          d1 = upd_owner w (\<lambda>o'. o'\<lparr>ow_destinations := gm_set host True (ow_destinations o')\<rparr>) d
                      in postFederation call d1)
      else postFederation call d)"

section \<open>Waiting\<close>

definition start_task :: "task \<Rightarrow> session \<Rightarrow> session" where
  "start_task t s = s\<lparr>s_owned := s_owned s + 1, s_tasks := s_tasks s @ [t]\<rparr>"

definition await :: "int \<Rightarrow> nat \<Rightarrow> ptr \<Rightarrow> session \<Rightarrow> session" where
  "await k leg reply s = start_task (TAwait k leg reply (s_identity s)) s"

definition awaitRemote :: "int \<Rightarrow> nat \<Rightarrow> gostring \<Rightarrow> ptr \<Rightarrow> session \<Rightarrow> session" where
  "awaitRemote k leg method reply s = start_task (TAwaitRemote k leg method reply (s_identity s)) s"

definition newState :: "Frame \<Rightarrow> requestState" where
  "newState frame =
     \<lparr>rt_frame = frame, rt_target = None, rt_targetID = [], rt_held = None, rt_pending = 0, rt_deliveries = [],
      rt_messageID = [], rt_aggregate = False, rt_selfInfo = None\<rparr>"

definition register :: "Frame \<Rightarrow> requestState \<Rightarrow> session \<Rightarrow> session" where
  "register frame state s = s\<lparr>s_requests := gm_set (fr_ID frame) state (s_requests s)\<rparr>"

definition forward :: "Frame \<Rightarrow> gostring \<Rightarrow> session \<Rightarrow> daemon \<Rightarrow> session \<times> daemon" where
  "forward frame targetID s d =
     (let (reply, d1) = newChan d;
          caller = federationCaller s d1;
          call = OutgoingCall \<lparr>fw_From = caller, fw_Request = \<lparr>pr_Completion = False, pr_Method = fr_Method frame,
                   pr_Params = fr_Params frame, pr_MessageID = [], pr_Trace = False, pr_TraceCopy = None\<rparr>\<rparr> reply;
          (code, d2) = postCallerForward s call (fr_Method frame) targetID d1
      in if code \<noteq> 0 then error_reply frame code None s d2
         else
           let state = (newState frame)\<lparr>rt_targetID := targetID,
                 rt_selfInfo := (if fr_Method frame = ''session.list'' then Some (listSelfInfo caller) else None)\<rparr>
           in (awaitRemote (fr_ID frame) 0 (fr_Method frame) reply (register frame state s), d2))"

definition remoteResponse :: "Frame \<Rightarrow> Reply \<Rightarrow> session \<Rightarrow> daemon \<Rightarrow> daemon" where
  "remoteResponse frame reply s d =
     (case s_forwarded s of
        Some ch \<Rightarrow> d\<lparr>d_fedReplies := d_fedReplies d @ [(ch, reply)]\<rparr>
      | None \<Rightarrow> writeOrClose (ORemote (fr_ID frame) reply) s d)"

section \<open>Lists\<close>

definition localList :: "Caller \<Rightarrow> ptr option \<Rightarrow> daemon \<Rightarrow> localCall" where
  "localList caller omit d =
     \<lparr>lc_from = caller, lc_omit = omit, lc_method = ''session.list'',
      lc_params = PList \<lparr>sl_SessionID = [], sl_Host = d_host d\<rparr>, lc_messageID = [], lc_collect = True, lc_copy = None,
      lc_completion = False\<rparr>"

definition listFederated :: "forwarder \<Rightarrow> Frame \<Rightarrow> session \<Rightarrow> daemon \<Rightarrow> bool \<times> hres" where
  "listFederated fwd frame s d =
     (let (hosts, d1) = newChan d;
          (code, s2, d2) = postAggregate frame (HostsCall hosts) s d1
      in if code \<noteq> 0 then (code \<noteq> UnknownHost, s2, d2, [])
         else
           let caller = federationCaller s2 d2;
               (local, d3, subs) = fwd (localList caller (s_identity s2) d2) d2;
               s3 = register frame (newState frame) s2
           in (True, start_task (TList (fr_ID frame) caller local hosts (s_identity s2)) s3, d3, subs))"

definition listLocal :: "Frame \<Rightarrow> SessionListRequest \<Rightarrow> session \<Rightarrow> daemon \<Rightarrow> session \<times> daemon" where
  "listLocal frame input s d =
     (let caller = federationCaller s d;
          labels = (if sl_SessionID input \<noteq> [] then Some [sl_SessionID input] else None);
          ((items, code), d1) = selectEntries (fc_Groups caller) labels [] False None None d
      in if code = InvalidFrame then reject frame code s d1
         else if labels \<noteq> None
                 \<and> (case items of [] \<Rightarrow> True | x # _ \<Rightarrow> sx_code x \<noteq> 0 \<or> sx_item x = None \<or> sx_ambiguous x)
         then error_reply frame (case items of [] \<Rightarrow> UnknownSession | x # _ \<Rightarrow> if sx_code x \<noteq> 0 then sx_code x else UnknownSession)
                None s d1
         else result_reply frame
                (VList \<lparr>sr_SelfInfo = Some (listSelfInfo caller), sr_Sessions = List.map_filter sx_summary items,
                        sr_Hosts = (case d_products d1 of None \<Rightarrow> []
                                    | Some ps \<Rightarrow> [\<lparr>hp_Host = d_host d1, hp_Products = ps\<rparr>])\<rparr>) s d1)"

definition list_req :: "forwarder \<Rightarrow> Frame \<Rightarrow> SessionListRequest \<Rightarrow> session \<Rightarrow> daemon \<Rightarrow> hres" where
  "list_req fwd frame input s d =
     (let (can, host, code) = (if sl_SessionID input \<noteq> [] then canonicalTarget (sl_SessionID input) (d_host d) (validIDPart (d_hi d))
                               else ([], d_host d, 0))
      in if code = InvalidFrame then plain (reject frame code s d)
         else if host \<noteq> d_host d then plain (forward frame can s d)
         else if sl_Host input \<noteq> [] \<and> sl_Host input \<noteq> d_host d
         then if sl_Host input = ''local'' then plain (error_reply frame UnknownHost None s d)
              else plain (forward frame (''list@'' @ sl_Host input) s d)
         else if sl_SessionID input = [] \<and> sl_Host input = []
         then let (handled, s1, d1, subs) = listFederated fwd frame s d in
              if handled then (s1, d1, subs)
              else let (s2, d2) = listLocal frame input s1 d1 in (s2, d2, subs)
         else plain (listLocal frame input s d))"

section \<open>Routing to one session\<close>

definition route_req :: "Frame \<Rightarrow> gostring \<Rightarrow> params \<Rightarrow> session \<Rightarrow> daemon \<Rightarrow> session \<times> daemon" where
  "route_req frame label ps s d =
     (let caller = federationCaller s d;
          (can, host, code) = canonicalTarget label (d_host d) (validIDPart (d_hi d))
      in if code = InvalidFrame then reject frame code s d
         else if host \<noteq> d_host d then forward frame can s d
         else
           let (reply, d1) = newChan d;
               request = newRequest (fr_Method frame) ps reply;
               ((items, code2), d2) = selectEntries (fc_Groups caller) (Some [label]) [] False None (Some request) d1
           in if code2 = InvalidFrame then reject frame code2 s d2
              else case items of
                     [] \<Rightarrow> (s, panic d2)
                   | x # _ \<Rightarrow>
                       if sx_item x = None \<or> sx_ambiguous x
                       then error_reply frame (if sx_code x = 0 then UnknownSession else sx_code x) None s d2
                       else if sx_code x \<noteq> 0 then error_reply frame (sx_code x) None s d2
                       else (await (fr_ID frame) 0 reply
                               (register frame ((newState frame)\<lparr>rt_target := sx_item x, rt_pending := 1\<rparr>) s), d2))"

section \<open>Lanes\<close>

text \<open>
  The last call of \<open>launchRequest\<close>, \<open>startProduct\<close>, only starts the goroutine that runs the product and
  ends in \<open>finishUnclaimed\<close> or in the events of a claimed launch; the reservation counted it.
\<close>

definition launchRequest :: "Frame \<Rightarrow> ptr \<Rightarrow> session \<Rightarrow> daemon \<Rightarrow> session \<times> daemon" where
  "launchRequest frame start s d =
     (await (fr_ID frame) 0 (l_reply (h_launch d start)) (register frame ((newState frame)\<lparr>rt_pending := 1\<rparr>) s), d)"

definition refuseLaunch :: "Frame \<Rightarrow> int \<Rightarrow> ptr \<Rightarrow> session \<Rightarrow> daemon \<Rightarrow> session \<times> daemon" where
  "refuseLaunch frame code start s d =
     error_reply frame code (map_option DText (internalData code)) s (stopTimer start d)"

definition describe :: "Frame \<Rightarrow> LaneDescribeRequest \<Rightarrow> session \<Rightarrow> daemon \<Rightarrow> session \<times> daemon" where
  "describe frame input s d =
     (if ld_Host input \<noteq> [] \<and> ld_Host input \<noteq> d_host d
      then if ld_Host input \<noteq> ''local'' then forward frame (''describe@'' @ ld_Host input) s d
           else error_reply frame UnknownHost None s d
      else if \<not> validHost (ld_Product input) then error_reply frame UnknownProduct None s d
      else
        let (start, d1) = newLaunch (ld_Product input) True False d;
            (item, d2) = newEntry (zeroEntry\<lparr>e_row := (e_row zeroEntry)\<lparr>r_Product := ld_Product input\<rparr>, e_claimed := True\<rparr>) d1;
            d3 = upd_launch start (\<lambda>l. l\<lparr>l_entry := Some item\<rparr>) d2;
            (code, d4) = reserveDescribe start d3
        in if code \<noteq> 0 then refuseLaunch frame code start s d4 else launchRequest frame start s d4)"

definition spawnResume :: "Frame \<Rightarrow> LaneSpawnRequest \<Rightarrow> gostring \<Rightarrow> ptr \<Rightarrow> Caller \<Rightarrow> session \<Rightarrow> daemon \<Rightarrow> session \<times> daemon" where
  "spawnResume frame input resumeID parent caller s d =
     (let (start, d1) = newLaunch [] False False d;
          d2 = upd_launch start (\<lambda>l. l\<lparr>l_parent := Some parent, l_input := Some input\<rparr>) d1;
          ((_, code), d3) = reserveResume resumeID (fc_Groups caller) start d2
      in if code \<noteq> 0 then refuseLaunch frame code start s d3 else launchRequest frame start s d3)"

definition spawnFresh :: "Frame \<Rightarrow> LaneSpawnRequest \<Rightarrow> ptr \<Rightarrow> Caller \<Rightarrow> session \<Rightarrow> daemon \<Rightarrow> session \<times> daemon" where
  "spawnFresh frame input parent caller s d =
     (if \<not> validHost (ls_Product input) then error_reply frame UnknownProduct None s d
      else
        let composedName = unqualify (fc_Name caller) @ CHR ''/'' # ls_Name input in
        if \<not> validNamePart (d_hi d) (ls_Name input) \<or> \<not> validNamePart (d_hi d) composedName \<or> ls_Open input = None
        then reject frame InvalidFrame s d
        else
          let parentGroup = fc_PrivateGroup caller;
              private = parentGroup @ CHR ''/'' # ls_Name input;
              groups = unique (parentGroup # private # ls_ExtraGroups input)
          in case normalizePolicy input None (fc_SessionID caller) of
               Inl err \<Rightarrow> error_reply frame UnsupportedOpen None s d
             | Inr policy \<Rightarrow>
                 let val = (e_row zeroEntry)\<lparr>r_Policy := Some policy, r_Product := ls_Product input,
                       r_Name := qualify composedName (d_host d), r_Groups := groups, r_Open := the (ls_Open input)\<rparr>;
                     (start, d1) = newLaunch (ls_Product input) False True d;
                     d2 = upd_launch start (\<lambda>l. l\<lparr>l_parent := Some parent, l_input := Some input\<rparr>) d1;
                     ((_, code), d3) = reserveFresh val start d2
                 in if code \<noteq> 0 then refuseLaunch frame code start s d3 else launchRequest frame start s d3)"

definition spawn :: "Frame \<Rightarrow> LaneSpawnRequest \<Rightarrow> session \<Rightarrow> daemon \<Rightarrow> session \<times> daemon" where
  "spawn frame input s d =
     (case callerOwner (s_caller s) (s_identity s) (s_self s) d of
        (None, d1) \<Rightarrow> error_reply frame NotConnected None s d1
      | (Some parent, d1) \<Rightarrow>
          let caller = federationCaller s d1 in
          if ls_Host input \<noteq> [] \<and> ls_Host input \<noteq> d_host d1
          then if ls_Host input \<noteq> ''local'' then forward frame (''spawn@'' @ ls_Host input) s d1
               else error_reply frame UnknownHost None s d1
          else if ls_ResumeSessionID input \<noteq> []
          then let (sid, host, code) = canonicalTarget (ls_ResumeSessionID input) (d_host d1) (validIDPart (d_hi d1)) in
               if code \<noteq> 0 then reject frame code s d1
               else if host \<noteq> d_host d1 then forward frame sid s d1
               else spawnResume frame input sid parent caller s d1
          else spawnFresh frame input parent caller s d1)"

text \<open>\<open>configureTrace\<close> (\<open>trace.go\<close>).\<close>

definition configureTrace :: "Frame \<Rightarrow> TraceConfigureRequest \<Rightarrow> session \<Rightarrow> daemon \<Rightarrow> session \<times> daemon" where
  "configureTrace frame input s d =
     (let (sid, host, code) = canonicalTarget (tc_SessionID input) (d_host d) (validIDPart (d_hi d)) in
      if code \<noteq> 0 then error_reply frame code None s d
      else if host \<noteq> d_host d then forward frame sid s d
      else
        let (owner, d1) = callerOwner (s_caller s) (s_identity s) (s_self s) d in
        if d_closing d1 \<or> ownerGone owner d1 then error_reply frame NotConnected None s d1
        else case gm_get (d_entries d1) sid of
               None \<Rightarrow> error_reply frame UnknownSession None s d1
             | Some p \<Rightarrow>
                 if e_peer (h_entry d1 p) \<or> e_parent (h_entry d1 p) \<noteq> owner then error_reply frame UnknownSession None s d1
                 else if e_claimed (h_entry d1 p) then error_reply frame Busy None s d1
                 else
                   let (version, d2) = drawID ''policy'' d1;
                       d3 = upd_entry p (\<lambda>e. e\<lparr>e_traceMode := tc_Mode input, e_traceVersion := version\<rparr>) d2
                   in result_reply frame (VTrace \<lparr>tg_SessionID = sid, tg_Mode = tc_Mode input\<rparr>) s d3)"

section \<open>Messages\<close>

definition collectTraceLeg :: "session \<Rightarrow> bool" where
  "collectTraceLeg s \<longleftrightarrow> s_traceCopy s = None \<and> (s_forwarded s = None \<or> s_traceCollect s)"

definition localSend :: "Caller \<Rightarrow> MessageSendRequest \<Rightarrow> gostring \<Rightarrow> session \<Rightarrow> localCall" where
  "localSend caller input messageID s =
     \<lparr>lc_from = caller, lc_omit = s_identity s, lc_method = ''message.send'', lc_params = PSend input, lc_messageID = messageID,
      lc_collect = collectTraceLeg s, lc_copy = s_traceCopy s, lc_completion = s_completion s\<rparr>"

definition newMessageLeg ::
    "forwarder \<Rightarrow> Caller \<Rightarrow> gostring \<Rightarrow> gostring \<Rightarrow> MessageSendRequest \<Rightarrow> gostring list \<Rightarrow> session \<Rightarrow> daemon \<Rightarrow>
     messageLeg \<times> daemon \<times> session list" where
  "newMessageLeg fwd caller messageID host input labels s d =
     (if host = d_host d
      then let (p, d1, subs) = fwd (localSend caller input messageID s) d
           in (\<lparr>lg_labels = labels, lg_wait = Some p, lg_reply = None, lg_code = 0\<rparr>, d1, subs)
      else if host = ''local'' then (\<lparr>lg_labels = labels, lg_wait = None, lg_reply = None, lg_code = UnknownHost\<rparr>, d, [])
      else
        let sent = (case s_traceCopy s of
                      None \<Rightarrow> input
                    | Some copy \<Rightarrow> \<lparr>ms_Target = td_SessionID copy, ms_Targets = [], ms_Group = [], ms_Host = [],
                                    ms_Message = ms_Message input\<rparr>);
            (reply, d1) = newChan d;
            (code, d2) = postFederation (OutgoingCall \<lparr>fw_From = caller, fw_Request =
               \<lparr>pr_Completion = s_completion s, pr_Method = ''message.send'', pr_Params = Some (PSend sent),
                pr_MessageID = messageID, pr_Trace = collectTraceLeg s, pr_TraceCopy = s_traceCopy s\<rparr>\<rparr> reply) d1
        in (\<lparr>lg_labels = labels, lg_wait = None, lg_reply = Some reply, lg_code = code\<rparr>, d2, []))"

text \<open>\<open>startWork\<close>: the request is registered as an aggregate and its collector started.\<close>

definition startWork :: "Frame \<Rightarrow> task \<Rightarrow> session \<Rightarrow> session" where
  "startWork frame t s = start_task t (register frame ((newState frame)\<lparr>rt_aggregate := True\<rparr>) s)"

definition sendLabels :: "MessageSendRequest \<Rightarrow> gostring list" where
  "sendLabels input = (if ms_Target input \<noteq> [] then [ms_Target input] else ms_Targets input)"

fun sendLegs ::
    "forwarder \<Rightarrow> Caller \<Rightarrow> gostring \<Rightarrow> gostring \<Rightarrow> (gostring \<times> gostring list) list \<Rightarrow> session \<Rightarrow> daemon \<Rightarrow>
     messageLeg list \<times> daemon \<times> session list" where
  "sendLegs fwd caller messageID message [] s d = ([], d, [])"
| "sendLegs fwd caller messageID message ((host, labels) # ps) s d =
     (let input = \<lparr>ms_Target = [], ms_Targets = labels, ms_Group = [], ms_Host = [], ms_Message = message\<rparr>;
          (leg, d1, subs1) = newMessageLeg fwd caller messageID host input labels s d;
          (legs, d2, subs2) = sendLegs fwd caller messageID message ps s d1
      in (leg # legs, d2, subs1 @ subs2))"

definition sendGroup :: "forwarder \<Rightarrow> Frame \<Rightarrow> MessageSendRequest \<Rightarrow> gostring \<Rightarrow> Caller \<Rightarrow> session \<Rightarrow> daemon \<Rightarrow> bool \<times> hres" where
  "sendGroup fwd frame input messageID caller s d =
     (if ms_Host input \<noteq> []
      then if ms_Host input = d_host d then (False, s, d, [])
           else let (leg, d1, subs) = newMessageLeg fwd caller messageID (ms_Host input) input [] s d
                in (True, startWork frame (TCollect (fr_ID frame) messageID [leg] None ForwardLost (s_identity s)) s, d1, subs)
      else
        let (hosts, d1) = newChan d;
            (code, s2, d2) = postAggregate frame (HostsCall hosts) s d1
        in if code \<noteq> 0 then (code \<noteq> UnknownHost, s2, d2, [])
           else
             let (local, d3, subs) = fwd ((localSend caller (input\<lparr>ms_Host := d_host d2\<rparr>) messageID s2)\<lparr>lc_method := fr_Method frame\<rparr>) d2
             in (True, startWork frame (TGroup (fr_ID frame) caller input messageID local hosts (s_identity s2)) s2, d3, subs))"

definition sendFederated :: "forwarder \<Rightarrow> Frame \<Rightarrow> MessageSendRequest \<Rightarrow> gostring \<Rightarrow> session \<Rightarrow> daemon \<Rightarrow> bool \<times> hres" where
  "sendFederated fwd frame input messageID s d =
     (let labels = sendLabels input; caller = federationCaller s d in
      if ms_Group input \<noteq> [] then sendGroup fwd frame input messageID caller s d
      else case partitionLabels (validNamePart (d_hi d)) (d_host d) labels [] of
             None \<Rightarrow> (True, plain (reject frame InvalidFrame s d))
           | Some ps \<Rightarrow>
               if \<forall>(host, ls) \<in> set ps. host = d_host d then (False, s, d, [])
               else let (legs, d1, subs) = sendLegs fwd caller messageID (ms_Message input) ps s d
                    in (True, startWork frame (TCollect (fr_ID frame) messageID legs (Some labels) NotConnected (s_identity s)) s,
                        d1, subs))"

text \<open>The receipts of a local send before it is dispatched: one per selected session, rejected ones with their reason.\<close>

fun prepareDeliveries :: "selected list \<Rightarrow> ptr list \<Rightarrow> (MessageSendDelivery \<times> ptr option) list" where
  "prepareDeliveries [] seen = []"
| "prepareDeliveries (x # xs) seen =
     (let delivery = \<lparr>md_Target = sx_label x, md_SessionID = [], md_DeliveryID = [], md_Disposition = [], md_Reason = []\<rparr> in
      if sx_ambiguous x
      then (delivery\<lparr>md_Disposition := ''rejected'', md_Reason := ''ambiguous''\<rparr>, sx_item x) # prepareDeliveries xs seen
      else if sx_code x \<noteq> 0 \<or> sx_item x = None
      then (delivery\<lparr>md_Disposition := ''rejected'', md_Reason := reason (sx_code x) ''unknown_session''\<rparr>, sx_item x)
             # prepareDeliveries xs seen
      else if the (sx_item x) \<in> set seen then prepareDeliveries xs seen
      else (delivery, sx_item x) # prepareDeliveries xs (the (sx_item x) # seen))"

definition deliverTo ::
    "Frame \<Rightarrow> DeliveryRequest \<Rightarrow> nat \<Rightarrow> MessageSendDelivery \<times> ptr option \<Rightarrow> session \<Rightarrow> daemon \<Rightarrow>
     MessageSendDelivery \<times> int \<times> session \<times> daemon" where
  "deliverTo frame delivery index x s d =
     (case snd x of
        None \<Rightarrow> (fst x, 0, s, d)
      | Some p \<Rightarrow>
          let (s1, d1) = traceTarget (fr_ID frame) (Some p) (md_Target (fst x)) s d;
              (reply, d2) = newChan d1;
              request = (newRequest ''message.deliver'' (PDeliver delivery) reply)\<lparr>q_traceCopy := s_traceCopy s1 \<noteq> None,
                 q_completion := s_completion s1,
                 q_traceLifetime := (case s_traceCopy s1 of None \<Rightarrow> [] | Some copy \<Rightarrow> td_Lifetime copy)\<rparr>;
              (code, d3) = route_dir (Some p) ''message.deliver'' request d2
          in if code \<noteq> 0
             then ((fst x)\<lparr>md_Disposition := ''rejected'',
                           md_Reason := (if code = NotConnected then ''not_submitted'' else reason code ''no_receipt'')\<rparr>, 0, s1, d3)
             else
               let (deliveryID, d4) = drawID ''delivery'' d3;
                   sid = r_SessionID (e_row (h_entry d3 p));
                   d5 = logDispatch (dq_MessageID delivery) deliveryID (md_Target (fst x)) sid s1 d4
               in ((fst x)\<lparr>md_SessionID := sid, md_DeliveryID := deliveryID\<rparr>, 1, await (fr_ID frame) index reply s1, d5))"

fun deliverAll ::
    "Frame \<Rightarrow> DeliveryRequest \<Rightarrow> nat \<Rightarrow> (MessageSendDelivery \<times> ptr option) list \<Rightarrow> session \<Rightarrow> daemon \<Rightarrow>
     MessageSendDelivery list \<times> int \<times> session \<times> daemon" where
  "deliverAll frame delivery index [] s d = ([], 0, s, d)"
| "deliverAll frame delivery index (x # xs) s d =
     (let (y, n, s1, d1) = deliverTo frame delivery index x s d;
          (ys, m, s2, d2) = deliverAll frame delivery (Suc index) xs s1 d1
      in (y # ys, n + m, s2, d2))"

text \<open>An absent list of targets is nil: without a group it selects every visible session.\<close>

definition sendLocal :: "Frame \<Rightarrow> MessageSendRequest \<Rightarrow> gostring \<Rightarrow> session \<Rightarrow> daemon \<Rightarrow> session \<times> daemon" where
  "sendLocal frame input messageID s d =
     (let caller = federationCaller s d;
          labels = (if ms_Group input \<noteq> [] \<or> sendLabels input = [] then None else Some (sendLabels input));
          ((items, code), d1) = selectEntries (fc_Groups caller) labels (ms_Group input) True (deliveryOmit s) None d
      in if code = InvalidFrame then reject frame code s d1
         else
           let delivery = \<lparr>dq_RunID = [], dq_MessageID = messageID,
                 dq_From = \<lparr>ds_SessionID = fc_SessionID caller, ds_Name = fc_Name caller, ds_Product = fc_Product caller,
                            ds_Groups = fc_Groups caller\<rparr>, dq_Body = ms_Message input\<rparr>;
               (deliveries, pending, s2, d2) = deliverAll frame delivery 0 (prepareDeliveries items []) s d1
           in if pending = 0
              then result_reply frame (VSend \<lparr>mr_MessageID = messageID, mr_Deliveries = deliveries\<rparr>) s2 d2
              else (register frame ((newState frame)\<lparr>rt_messageID := messageID, rt_deliveries := deliveries,
                                       rt_pending := pending\<rparr>) s2, d2))"

definition drawMessageID :: "session \<Rightarrow> daemon \<Rightarrow> gostring \<times> daemon" where
  "drawMessageID s d = (if s_messageID s = [] then drawID ''message'' d else (s_messageID s, d))"

definition send_req :: "forwarder \<Rightarrow> Frame \<Rightarrow> MessageSendRequest \<Rightarrow> session \<Rightarrow> daemon \<Rightarrow> hres" where
  "send_req fwd frame input s d =
     (if \<not> validTraceCopy input s then plain (error_reply frame NotConnected None s d)
      else
        let (messageID, d1) = drawMessageID s d;
            (s2, d2) = beginTrace frame (PSend input) messageID s d1;
            (s3, d3) = logRequest frame (PSend input) messageID s2 d2;
            (handled, s4, d4, subs) = sendFederated fwd frame input messageID s3 d3
        in if handled then (s4, d4, subs)
           else let (s5, d5) = sendLocal frame input messageID s4 d4 in (s5, d5, subs))"

section \<open>Replies to the session's own requests\<close>

definition sameTarget :: "ptr option \<Rightarrow> gostring \<Rightarrow> requestState \<Rightarrow> bool" where
  "sameTarget target targetID state \<longleftrightarrow>
     target \<noteq> None \<and> rt_target state = target \<or> targetID \<noteq> [] \<and> rt_targetID state = targetID"

definition runPending :: "ptr option \<Rightarrow> gostring \<Rightarrow> session \<Rightarrow> bool" where
  "runPending target targetID s \<longleftrightarrow>
     list_ex (\<lambda>(k, state). fr_Method (rt_frame state) = ''turn.run'' \<and> sameTarget target targetID state) (s_requests s)"

text \<open>\<open>result\<close> with a nil value: no schema accepts it, so a connection is closed.\<close>

definition resultNil :: "Frame \<Rightarrow> session \<Rightarrow> daemon \<Rightarrow> session \<times> daemon" where
  "resultNil frame s d =
     (let (s1, d1) = settleFrame frame None 0 s d in
      case s_forwarded s1 of
        Some ch \<Rightarrow> sendForwarded ch (fr_Method frame) (codeAnswer 0) s1 d1
      | None \<Rightarrow> (s1, closeWire (s_self s1) d1))"

text \<open>\<open>finishRequest\<close> up to the answer of the request itself.\<close>

definition settleRequest :: "int \<Rightarrow> requestState \<Rightarrow> answer \<Rightarrow> session \<Rightarrow> daemon \<Rightarrow> session \<times> daemon" where
  "settleRequest k state a s d =
     (let frame = rt_frame state;
          (s1, d1) = logResult frame (an_value a) (an_code a) (s\<lparr>s_requests := gm_del k (s_requests s)\<rparr>) d;
          (s2, d2) = finishTrace frame (an_value a) (an_code a) (an_trace a) s1 d1
      in if an_code a \<noteq> 0
         then (case an_remote a of
                 Some reply \<Rightarrow> (s2, remoteResponse frame reply s2 d2)
               | None \<Rightarrow> error_reply frame (an_code a) (an_data a) s2 d2)
         else case rt_selfInfo state of
                Some info \<Rightarrow>
                  (case an_value a of
                     Some (VList listed) \<Rightarrow> result_reply frame (VList (listed\<lparr>sr_SelfInfo := Some info\<rparr>)) s2 d2
                   | _ \<Rightarrow> (s2, panic d2))
              | None \<Rightarrow>
                  (case an_remote a of
                     Some reply \<Rightarrow> (s2, remoteResponse frame reply s2 d2)
                   | None \<Rightarrow>
                       (case an_value a of
                          Some v \<Rightarrow> result_reply frame v s2 d2
                        | None \<Rightarrow> resultNil frame s2 d2)))"

text \<open>
  A close that was answered while a run on the same target was still open is held back and
  answered after the run. The inner \<open>finishRequest\<close> is for a close, so it ends there.
\<close>

definition heldClose :: "requestState \<Rightarrow> int \<times> requestState \<Rightarrow> bool" where
  "heldClose state x \<longleftrightarrow> fr_Method (rt_frame (snd x)) = ''session.close''
     \<and> sameTarget (rt_target state) (rt_targetID state) (snd x) \<and> rt_held (snd x) \<noteq> None"

definition finishRequest :: "int \<Rightarrow> requestState \<Rightarrow> answer \<Rightarrow> session \<Rightarrow> daemon \<Rightarrow> session \<times> daemon" where
  "finishRequest k state a s d =
     (let (s1, d1) = settleRequest k state a s d in
      if fr_Method (rt_frame state) \<noteq> ''turn.run'' \<or> runPending (rt_target state) (rt_targetID state) s1 then (s1, d1)
      else case filter (heldClose state) (s_requests s1) of
             [] \<Rightarrow> (s1, d1)
           | (k', state') # _ \<Rightarrow> settleRequest k' state' (the (rt_held state')) s1 d1)"

definition receiptOf :: "answer \<Rightarrow> MessageSendDelivery \<Rightarrow> MessageSendDelivery" where
  "receiptOf a delivery =
     (if an_code a \<noteq> 0 then delivery\<lparr>md_Disposition := ''rejected'', md_Reason := reason (an_code a) ''no_receipt''\<rparr>
      else case an_value a of
             Some (VReceipt r) \<Rightarrow> delivery\<lparr>md_Disposition := dr_Disposition r, md_Reason := dr_Reason r\<rparr>
           | _ \<Rightarrow> delivery\<lparr>md_Disposition := ''rejected'', md_Reason := ''no_receipt''\<rparr>)"

definition consumeReply :: "int \<Rightarrow> nat \<Rightarrow> answer \<Rightarrow> session \<Rightarrow> daemon \<Rightarrow> session \<times> daemon" where
  "consumeReply k leg a s d =
     (let s0 = s\<lparr>s_owned := (if s_owned s > 0 then s_owned s - 1 else s_owned s)\<rparr> in
      case gm_get (s_requests s0) k of
        None \<Rightarrow> (s0, d)
      | Some state \<Rightarrow>
          if fr_Method (rt_frame state) = ''message.send'' \<and> \<not> rt_aggregate state
          then if leg \<ge> length (rt_deliveries state) then (s0, panic d)
               else
                 let state1 = state\<lparr>rt_deliveries := (rt_deliveries state)[leg := receiptOf a (rt_deliveries state ! leg)],
                                    rt_pending := rt_pending state - 1\<rparr>
                 in if rt_pending state1 \<noteq> 0 then (s0\<lparr>s_requests := gm_set k state1 (s_requests s0)\<rparr>, d)
                    else result_reply (rt_frame state1)
                           (VSend \<lparr>mr_MessageID = rt_messageID state1, mr_Deliveries = rt_deliveries state1\<rparr>)
                           (s0\<lparr>s_requests := gm_del k (s_requests s0)\<rparr>) d
          else if fr_Method (rt_frame state) = ''session.close'' \<and> an_code a = 0 \<and> runPending (rt_target state) (rt_targetID state) s0
          then (s0\<lparr>s_requests := gm_set k (state\<lparr>rt_held := Some a\<rparr>) (s_requests s0)\<rparr>, d)
          else finishRequest k state a s0 d)"

section \<open>Dispatch\<close>

definition turnReady_req :: "forwarder \<Rightarrow> Frame \<Rightarrow> TurnReady \<Rightarrow> session \<Rightarrow> daemon \<Rightarrow> hres" where
  "turnReady_req fwd frame ready s d =
     (case turnReady frame ready s d of
        (s1, d1, None) \<Rightarrow> (s1, d1, [])
      | (s1, d1, Some (input, traced)) \<Rightarrow>
          let call = \<lparr>lc_from = federationCaller s1 d1, lc_omit = s_identity s1, lc_method = ''message.send'', lc_params = PSend input,
                      lc_messageID = [], lc_collect = traced, lc_copy = None, lc_completion = True\<rparr>;
              (p, d2, subs) = fwd call d1
          in (start_task (TNotify p (s_identity s1)) s1, d2, subs))"

definition dispatchBusy :: "Frame \<Rightarrow> params \<Rightarrow> session \<Rightarrow> daemon \<Rightarrow> session \<times> daemon" where
  "dispatchBusy frame ps s d =
     (let (messageID, d1) = (if fr_Method frame = ''message.send'' then drawMessageID s d else ([], d));
          (s2, d2) = beginTrace frame ps messageID s d1;
          (s3, d3) = logRequest frame ps messageID s2 d2
      in error_reply frame Busy None s3 d3)"

text \<open>The method and the type of the parameters decide; another type would be a failed assertion.\<close>

definition dispatchMethod :: "forwarder \<Rightarrow> Frame \<Rightarrow> params \<Rightarrow> session \<Rightarrow> daemon \<Rightarrow> hres" where
  "dispatchMethod fwd frame ps s d =
     (let m = fr_Method frame in
      if m = ''session.list'' then (case ps of PList i \<Rightarrow> list_req fwd frame i s d | _ \<Rightarrow> (s, panic d, []))
      else if m = ''message.send'' then (case ps of PSend i \<Rightarrow> send_req fwd frame i s d | _ \<Rightarrow> (s, panic d, []))
      else if m = ''lane.describe'' then (case ps of PDescribe i \<Rightarrow> plain (describe frame i s d) | _ \<Rightarrow> (s, panic d, []))
      else if m = ''trace.configure'' then (case ps of PTrace i \<Rightarrow> plain (configureTrace frame i s d) | _ \<Rightarrow> (s, panic d, []))
      else if m = ''lane.spawn'' then (case ps of PSpawn i \<Rightarrow> plain (spawn frame i s d) | _ \<Rightarrow> (s, panic d, []))
      else if m = ''turn.run'' \<or> m = ''turn.start''
      then (case ps of PRun i \<Rightarrow> plain (route_req frame (tq_SessionID i) ps s d) | _ \<Rightarrow> (s, panic d, []))
      else if m = ''turn.status'' then (case ps of PRead i \<Rightarrow> plain (route_req frame (rq_SessionID i) ps s d) | _ \<Rightarrow> (s, panic d, []))
      else if m = ''turn.wait'' then (case ps of PWait i \<Rightarrow> plain (route_req frame (wq_SessionID i) ps s d) | _ \<Rightarrow> (s, panic d, []))
      else if m = ''turn.ack'' then (case ps of PRunRef i \<Rightarrow> plain (route_req frame (rr_SessionID i) ps s d) | _ \<Rightarrow> (s, panic d, []))
      else if m = ''turn.ready'' then (case ps of PReady i \<Rightarrow> turnReady_req fwd frame i s d | _ \<Rightarrow> (s, panic d, []))
      else if m = ''turn.interrupt'' then (case ps of PTarget i \<Rightarrow> plain (route_req frame (st_SessionID i) ps s d) | _ \<Rightarrow> (s, panic d, []))
      else if m = ''session.close'' then (case ps of PClose i \<Rightarrow> plain (route_req frame (sc_SessionID i) ps s d) | _ \<Rightarrow> (s, panic d, []))
      else plain (reject frame InvalidFrame s d))"

definition dispatchWith :: "forwarder \<Rightarrow> Frame \<Rightarrow> params \<Rightarrow> session \<Rightarrow> daemon \<Rightarrow> hres" where
  "dispatchWith fwd frame ps s d =
     (if length (s_requests s) \<ge> 256 \<and> fr_Method frame \<noteq> ''turn.ready'' then plain (dispatchBusy frame ps s d)
      else
        let (s1, d1) = (if fr_Method frame \<noteq> ''message.send'' then logRequest frame ps [] s d else (s, d))
        in dispatchMethod fwd frame ps s1 d1)"

section \<open>Requests run locally for another caller\<close>

definition localFrame :: "gostring \<Rightarrow> Frame" where
  "localFrame method =
     \<lparr>fr_ID = 1, fr_Method = method, fr_Params = None, fr_Result = None, fr_Error = None, fr_Request = True\<rparr>"

definition localSession :: "localCall \<Rightarrow> ptr \<Rightarrow> ptr \<Rightarrow> ptr \<Rightarrow> session" where
  "localSession c self item reply =
     (newSession self)\<lparr>s_identity := Some item, s_caller := Some (lc_from c), s_omit := lc_omit c, s_forwarded := Some reply,
        s_messageID := lc_messageID c, s_traceCollect := lc_collect c, s_traceCopy := lc_copy c, s_completion := lc_completion c\<rparr>"

definition forwardLocalTrace :: "(Frame \<Rightarrow> params \<Rightarrow> session \<Rightarrow> daemon \<Rightarrow> hres) \<Rightarrow> forwarder" where
  "forwardLocalTrace dispatch c d =
     (let (reply, d1) = newChan d;
          self = n_session d1;
          (item, d2) = newEntry (zeroEntry\<lparr>e_peer := True, e_row := (e_row zeroEntry)\<lparr>r_SessionID := fc_SessionID (lc_from c),
             r_Name := fc_Name (lc_from c), r_Product := fc_Product (lc_from c), r_Groups := fc_Groups (lc_from c)\<rparr>\<rparr>)
             (d1\<lparr>n_session := Suc self\<rparr>);
          (s1, d3, subs) = dispatch (localFrame (lc_method c)) (lc_params c) (localSession c self item reply) d2
      in (self, d3, s1 # subs))"

text \<open>
  \<open>dispatchRequest\<close>: a request forwarded to a session of its own is dispatched in turn. The nesting
  is bounded by the argument; \<open>dispatch_nesting\<close> below shows that two levels are all there is.
\<close>

fun dispatchN :: "nat \<Rightarrow> Frame \<Rightarrow> params \<Rightarrow> session \<Rightarrow> daemon \<Rightarrow> hres" where
  "dispatchN 0 frame ps s d = (s, panic d, [])"
| "dispatchN (Suc n) frame ps s d = dispatchWith (forwardLocalTrace (dispatchN n)) frame ps s d"

definition dispatchRequest :: "Frame \<Rightarrow> params \<Rightarrow> session \<Rightarrow> daemon \<Rightarrow> hres" where
  "dispatchRequest = dispatchN 2"

section \<open>Hellos, frames and events\<close>

definition peerHello :: "Frame \<Rightarrow> PeerHello \<Rightarrow> session \<Rightarrow> daemon \<Rightarrow> session \<times> daemon" where
  "peerHello frame hello s d =
     (if (case s_identity s of None \<Rightarrow> False | Some p \<Rightarrow> \<not> e_peer (h_entry d p))
         \<or> \<not> validIDPart (d_hi d) (ph_SessionID hello) \<or> ph_Name hello \<noteq> [] \<and> \<not> validNamePart (d_hi d) (ph_Name hello)
         \<or> \<not> validHost (ph_Product hello)
      then reject frame InvalidHello s d
      else case installPeer (s_self s) (s_identity s) hello (d_host d) d of
             (None, d1) \<Rightarrow> reject frame InvalidHello s d1
           | (Some (item, displaced, ended), d1) \<Rightarrow>
               let (s2, d2) = (if ended \<noteq> None
                               then let (s', d') = settlePending NotConnected s d1 in detachRequests Superseded s' d'
                               else (s, d1));
                   s3 = s2\<lparr>s_identity := Some item\<rparr>;
                   d3 = logSession ''connected'' s3 d2;
                   d4 = (case displaced of
                           None \<Rightarrow> d3
                         | Some other \<Rightarrow>
                             let (ok, d') = postWire other EvSupersede d3 in if ok then d' else closeWire other d')
               in result_reply frame VEmpty s3 d4)"

definition firstHello :: "Frame \<Rightarrow> session \<Rightarrow> daemon \<Rightarrow> session \<times> daemon" where
  "firstHello frame s d =
     (if \<not> fr_Request frame \<or> fr_ID frame \<le> s_lastIn s \<or> fr_Method frame \<noteq> ''session.hello'' then reject frame InvalidHello s d
      else
        let s1 = s\<lparr>s_lastIn := fr_ID frame\<rparr> in
        case DecodeParams (fr_Method frame) (fr_Params frame) of
          Some (PHello hello) \<Rightarrow> peerHello frame hello s1 d
        | Some (PWorker hello) \<Rightarrow>
            (case claimWorker (s_self s1) (wh_LaunchToken hello) (hd_Product (wh_HelloDescription hello)) d of
               (None, d1) \<Rightarrow> reject frame InvalidHello s1 d1
             | (Some start, d1) \<Rightarrow>
                 startLane start frame (wh_HelloDescription hello) s1 (upd_launch start (\<lambda>l. l\<lparr>l_claimed := True\<rparr>) d1))
        | _ \<Rightarrow> reject frame InvalidHello s1 d)"

definition handleRequest :: "Frame \<Rightarrow> params \<Rightarrow> session \<Rightarrow> daemon \<Rightarrow> hres" where
  "handleRequest frame ps s d =
     (if \<not> current (s_identity s) (s_self s) d then plain (supersede s d) else dispatchRequest frame ps s d)"

definition acceptRequest :: "Frame \<Rightarrow> session \<Rightarrow> daemon \<Rightarrow> hres" where
  "acceptRequest frame s d =
     (let s1 = s\<lparr>s_lastIn := fr_ID frame\<rparr>;
          hello = (fr_Method frame = ''session.hello'')
      in if hello \<and> s_launch s1 \<noteq> None then plain (reject frame InvalidHello s1 d)
         else if s_launch s1 \<noteq> None \<and> \<not> s_committed s1 then plain (error_reply frame NotCommitted None s1 d)
         else case DecodeParams (fr_Method frame) (fr_Params frame) of
                None \<Rightarrow> plain (reject frame (if hello then InvalidHello else InvalidFrame) s1 d)
              | Some ps \<Rightarrow>
                  if \<not> Allows (fr_Method frame) True
                  then plain (reject frame (if hello then InvalidHello else InvalidFrame) s1 d)
                  else if hello
                  then (case ps of PHello h \<Rightarrow> plain (peerHello frame h s1 d) | _ \<Rightarrow> plain (reject frame InvalidHello s1 d))
                  else handleRequest frame ps s1 d)"

definition handleFrame :: "Frame \<Rightarrow> bool \<Rightarrow> session \<Rightarrow> daemon \<Rightarrow> hres" where
  "handleFrame frame bad s d =
     (if bad then plain (reject frame (if s_identity s = None then InvalidHello else InvalidFrame) s d)
      else if s_identity s = None then plain (firstHello frame s d)
      else if \<not> fr_Request frame
      then if s_launch s \<noteq> None \<and> fr_ID frame = s_openID s then plain (finishOpen frame s d)
           else plain (receiveResponse frame s d)
      else if fr_ID frame \<le> s_lastIn s then plain (reject frame InvalidFrame s d)
      else acceptRequest frame s d)"

definition handleEvent :: "event \<Rightarrow> session \<Rightarrow> daemon \<Rightarrow> hres" where
  "handleEvent ev s d =
     (case ev of
        EvOwnerEnd w \<Rightarrow> plain (ownerEnded w s d)
      | EvFrame frame bad \<Rightarrow> if s_stopping s then (s, d, []) else handleFrame frame bad s d
      | EvClosed \<Rightarrow> plain (handleClosed s d)
      | EvRouted q \<Rightarrow> plain (handleRouted q s d)
      | EvReply k leg a \<Rightarrow> plain (consumeReply k leg a s d)
      | EvSupersede \<Rightarrow> plain (supersede s d)
      | EvProcess start child exited err \<Rightarrow> plain (handleProcess start child exited err s d)
      | EvSpawnTimeout start \<Rightarrow> plain (handleSpawnTimeout start s d))"

section \<open>Incoming requests of other hosts, and the collectors' own requests\<close>

definition admitFederation :: "Caller \<Rightarrow> PublicRequest \<Rightarrow> daemon \<Rightarrow> (ptr \<times> daemon \<times> session list) option" where
  "admitFederation from req d =
     (case DecodeParams (pr_Method req) (pr_Params req) of
        None \<Rightarrow> None
      | Some ps \<Rightarrow>
          Some (forwardLocalTrace dispatchRequest
            \<lparr>lc_from = from, lc_omit = None, lc_method = pr_Method req, lc_params = ps, lc_messageID = pr_MessageID req,
             lc_collect = pr_Trace req, lc_copy = pr_TraceCopy req, lc_completion = pr_Completion req\<rparr> d))"

text \<open>\<open>collectGroupSend\<close> once the hosts are known: a leg per host after the local one.\<close>

fun groupLegs ::
    "forwarder \<Rightarrow> Caller \<Rightarrow> gostring \<Rightarrow> MessageSendRequest \<Rightarrow> gostring list \<Rightarrow> session \<Rightarrow> daemon \<Rightarrow>
     messageLeg list \<times> daemon \<times> session list" where
  "groupLegs fwd caller messageID input [] s d = ([], d, [])"
| "groupLegs fwd caller messageID input (host # hosts) s d =
     (let request = \<lparr>ms_Target = [], ms_Targets = [], ms_Group = ms_Group input, ms_Host = host, ms_Message = ms_Message input\<rparr>;
          (leg, d1, subs1) = newMessageLeg fwd caller messageID host request [] s d;
          (legs, d2, subs2) = groupLegs fwd caller messageID input hosts s d1
      in (leg # legs, d2, subs1 @ subs2))"

definition collectGroupSend ::
    "Caller \<Rightarrow> MessageSendRequest \<Rightarrow> gostring \<Rightarrow> ptr \<Rightarrow> gostring list option \<Rightarrow> session \<Rightarrow> daemon \<Rightarrow>
     (answer + messageLeg list) \<times> daemon \<times> session list" where
  "collectGroupSend caller input messageID local names s d =
     (case names of
        None \<Rightarrow> (Inl (codeAnswer ForwardLost), d, [])
      | Some hosts \<Rightarrow>
          let (legs, d1, subs) = groupLegs (forwardLocalTrace dispatchRequest) caller messageID input hosts s d
          in (Inr (\<lparr>lg_labels = [], lg_wait = Some local, lg_reply = None, lg_code = 0\<rparr> # legs), d1, subs))"

text \<open>\<open>collectFederatedList\<close> once the hosts are known: a request per host, or the loss of all of them.\<close>

fun listRemotes :: "Caller \<Rightarrow> gostring list \<Rightarrow> daemon \<Rightarrow> ptr list option \<times> daemon" where
  "listRemotes caller [] d = (Some [], d)"
| "listRemotes caller (host # hosts) d =
     (let (reply, d1) = newChan d;
          (code, d2) = postFederation (OutgoingCall \<lparr>fw_From = caller, fw_Request =
             \<lparr>pr_Completion = False, pr_Method = ''session.list'', pr_Params = Some (PList \<lparr>sl_SessionID = [], sl_Host = host\<rparr>),
              pr_MessageID = [], pr_Trace = False, pr_TraceCopy = None\<rparr>\<rparr> reply) d1
      in if code \<noteq> 0 then (None, d2)
         else let (rest, d3) = listRemotes caller hosts d2 in (map_option (\<lambda>cs. reply # cs) rest, d3))"

end
