(* ===== verification/Forwarded.thy ===== *)
theory Forwarded
  imports Handlers Ledger
begin

text \<open>
  Requests that the daemon runs for another caller (\<open>forwardLocalTrace\<close>). Such a request runs on a
  session without connection whose answer goes to a channel of capacity one: a second answer would
  block for ever, none would hang the caller. The theorems show that dispatching it and consuming
  the replies it waits for send exactly one answer, and that forwarding nests at most once.
\<close>

section \<open>Operations that send no reply on an older channel\<close>

definition sent :: "ptr \<Rightarrow> daemon \<Rightarrow> nat" where
  "sent c d = count_list (map fst (d_fedReplies d)) c"

definition calm :: "daemon \<Rightarrow> daemon \<Rightarrow> bool" where
  "calm d d' \<longleftrightarrow> n_chan d \<le> n_chan d' \<and> d_host d' = d_host d \<and> d_hi d' = d_hi d \<and> (\<forall>c < n_chan d. sent c d' = sent c d)"

lemma calm_refl [simp]: "calm d d"
  by (simp add: calm_def)

lemma calm_trans: "calm a b \<Longrightarrow> calm b c \<Longrightarrow> calm a c"
  by (simp add: calm_def)

lemma calmI: "d_fedReplies d' = d_fedReplies d \<Longrightarrow> n_chan d \<le> n_chan d' \<Longrightarrow> d_host d' = d_host d \<Longrightarrow> d_hi d' = d_hi d \<Longrightarrow> calm d d'"
  by (simp add: calm_def sent_def)

lemma calm_quiet: "quiet d d' \<Longrightarrow> calm d d'"
  by (rule calmI) (simp_all add: quiet_fields)

lemma calm_upd [simp]:
  "calm d (upd_entry p f d)" "calm d (upd_owner w g d)" "calm d (upd_wire c h d)" "calm d (upd_launch l k d)" "calm d (panic d)"
  "calm d (closeWire p d)" "calm d (snd (newChan d))" "calm d (snd (drawID pre d))" "calm d (snd (newEntry e d))"
  "calm d (snd (newOwnership ow d))" "calm d (stopTimer start d)" "calm d (logEvent ev d)" "calm d (sendAnswer ch val d)"
  "calm d (snd (allocLaunch la d))"
  by (rule calmI; simp add: upd_entry_def upd_owner_def upd_wire_def upd_launch_def panic_def closeWire_def newChan_def drawID_def
      newEntry_def newOwnership_def stopTimer_def logEvent_def sendAnswer_def allocLaunch_def split: option.split)+

lemma calm_more [simp]:
  "calm d (snd (writeRow r d))" "calm d (snd (deleteRow k d))" "calm d (snd (postWire p ev d))" "calm d (snd (postFederation call d))"
  "calm d (snd (addLaunch start d))" "calm d (logDispatch m i t rc s d)"
  by (rule calmI; simp add: writeRow_def deleteRow_def postWire_def upd_wire_def postFederation_def addLaunch_def logDispatch_def
      logEvent_def split_beta Let_def split: option.split)+

lemma calm_fields [simp]:
  "calm d (d'\<lparr>d_entries := x\<rparr>) = calm d d'" "calm d (d'\<lparr>d_names := y\<rparr>) = calm d d'" "calm d (d'\<lparr>d_tokens := z\<rparr>) = calm d d'"
  "calm d (d'\<lparr>d_remoteOwners := v\<rparr>) = calm d d'" "calm d (d'\<lparr>d_group := u\<rparr>) = calm d d'" "calm d (d'\<lparr>n_session := t\<rparr>) = calm d d'"
  by (simp_all add: calm_def sent_def)

lemma calm_newLaunch [simp]: "calm d (snd (newLaunch product desc fresh d))"
proof -
  have "calm d (snd (allocLaunch l (snd (newChan (snd (drawID pre d))))))" for l pre
    by (rule calm_trans[OF calm_trans[OF calm_upd(8) calm_upd(7)] calm_upd(14)])
  then show ?thesis by (simp add: newLaunch_def Let_def split_beta)
qed

lemma calm_callerOwner [simp]: "calm d (snd (callerOwner caller item self d))"
proof -
  have "calm d (snd (remoteOwnerLocked c d))" for c
    using calm_upd(10) by (auto simp: remoteOwnerLocked_def Let_def split_beta split: option.split)
  then show ?thesis by (simp add: callerOwner_def split: option.split)
qed

lemma calm_reserve [simp]:
  "calm d (snd (reserveFresh r start d))" "calm d (snd (reserveResume sid groups start d))" "calm d (snd (reserveDescribe start d))"
proof -
  have a: "calm d (upd_launch start f (snd (newEntry e (snd (addLaunch start d)))))" for f e
    by (rule calm_trans[OF calm_trans[OF calm_more(5) calm_upd(9)] calm_upd(4)])
  show "calm d (snd (reserveFresh r start d))" using a by (simp add: reserveFresh_def Let_def split_beta)
  show "calm d (snd (reserveResume sid groups start d))"
    using a by (auto simp: reserveResume_def Let_def split_beta split: option.split sum.split)
  show "calm d (snd (reserveDescribe start d))" by (simp add: reserveDescribe_def)
qed

lemma calm_route [simp]: "calm d (snd (routeLocked item m q d))" "calm d (snd (route_dir item m q d))"
  by (auto simp: routeLocked_def route_dir_def Let_def split_beta split: option.split)

lemma calm_finishOfflineClose [simp]: "calm d (finishOfflineClose p q d)"
proof -
  have 1: "calm d (snd (offlineDelete p f d))" for f by (simp add: offlineDelete_def)
  have 2: "calm e (snd (offlineCommit p f x e))" for f x e by (simp add: offlineCommit_def Let_def)
  have "calm d (offlineReply q c x (snd (offlineCommit p f y (snd (offlineDelete p f d)))))" for c x f y
    unfolding offlineReply_def by (rule calm_trans[OF calm_trans[OF 1 2] calm_upd(13)])
  then show ?thesis by (simp add: finishOfflineClose_def Let_def split_beta split: option.split)
qed

lemma calm_selectEntries [simp]: "calm d (snd (selectEntries groups labels grp names omit q d))"
proof -
  have 1: "calm d (snd (selectLocked groups labels grp names omit q d))"
    by (auto simp: selectLocked_def Let_def split_beta split: option.split list.split)
  have 2: "calm d (finishOfflineClose p r (snd (selectLocked groups labels grp names omit q d)))" for p r
    by (rule calm_trans[OF 1 calm_finishOfflineClose])
  show ?thesis using 1 2 by (auto simp: selectEntries_def split_beta Let_def split: option.split)
qed

section \<open>Sessions\<close>

definition near :: "session \<times> daemon \<Rightarrow> session \<times> daemon \<Rightarrow> bool" where
  "near x y \<longleftrightarrow> s_requests (fst y) = s_requests (fst x) \<and> s_forwarded (fst y) = s_forwarded (fst x)
     \<and> s_launch (fst y) = s_launch (fst x) \<and> calm (snd x) (snd y)"

definition still :: "session \<times> daemon \<Rightarrow> session \<times> daemon \<Rightarrow> bool" where
  "still x y \<longleftrightarrow> near x y \<and> s_tasks (fst y) = s_tasks (fst x)"

text \<open>
  The request and the leg a goroutine will report on. A request that waits has a goroutine for every
  pending leg when it is a local send, and exactly one otherwise.
\<close>

fun task_key :: "task \<Rightarrow> (int \<times> nat) option" where
  "task_key (TAwait k leg ch p) = Some (k, leg)"
| "task_key (TAwaitRemote k leg m ch p) = Some (k, leg)"
| "task_key (TCollect k m legs order code p) = Some (k, 0)"
| "task_key (TGroup k caller input m local hosts p) = Some (k, 0)"
| "task_key (TList k caller local hosts p) = Some (k, 0)"
| "task_key (TNotify local p) = None"

definition waits :: "int \<Rightarrow> requestState \<Rightarrow> task list \<Rightarrow> bool" where
  "waits k st ts \<longleftrightarrow> ts \<noteq> [] \<and> (\<forall>t \<in> set ts. \<exists>leg. task_key t = Some (k, leg)
       \<and> (fr_Method (rt_frame st) = ''message.send'' \<and> \<not> rt_aggregate st \<longrightarrow> leg < length (rt_deliveries st)))
     \<and> (if fr_Method (rt_frame st) = ''message.send'' \<and> \<not> rt_aggregate st then rt_pending st = int (length ts) else length ts = 1)
     \<and> (rt_selfInfo st \<noteq> None \<longrightarrow> fr_Method (rt_frame st) = ''session.list'' \<and> (\<exists>leg ch p. ts = [TAwaitRemote k leg ''session.list'' ch p]))"

text \<open>
  A forwarded request is settled when it has sent its reply, or has been registered to wait.
\<close>

definition settles :: "Frame \<Rightarrow> ptr \<Rightarrow> session \<times> daemon \<Rightarrow> session \<times> daemon \<Rightarrow> bool" where
  "settles frame ch x y \<longleftrightarrow> s_forwarded (fst y) = Some ch \<and> s_launch (fst y) = s_launch (fst x)
     \<and> n_chan (snd x) \<le> n_chan (snd y) \<and> d_host (snd y) = d_host (snd x) \<and> d_hi (snd y) = d_hi (snd x)
     \<and> (\<forall>c < n_chan (snd x). c \<noteq> ch \<longrightarrow> sent c (snd y) = sent c (snd x))
     \<and> (sent ch (snd y) = Suc (sent ch (snd x)) \<and> s_requests (fst y) = s_requests (fst x) \<and> s_tasks (fst y) = s_tasks (fst x)
        \<or> sent ch (snd y) = sent ch (snd x)
          \<and> (\<exists>st ts. rt_frame st = frame \<and> s_requests (fst y) = gm_set (fr_ID frame) st (s_requests (fst x))
               \<and> s_tasks (fst y) = s_tasks (fst x) @ ts \<and> waits (fr_ID frame) st ts))"

lemma near_refl [simp]: "near x x"
  by (simp add: near_def)

lemma near_trans: "near x y \<Longrightarrow> near y z \<Longrightarrow> near x z"
  by (auto simp: near_def intro: calm_trans)

lemma still_near: "still x y \<Longrightarrow> near x y"
  by (simp add: still_def near_def)

lemma still_refl [simp]: "still x x"
  by (simp add: still_def near_def)

lemma still_trans: "still x y \<Longrightarrow> still y z \<Longrightarrow> still x z"
  by (auto simp: still_def near_def intro: calm_trans)

lemma still_calm: "calm d d' \<Longrightarrow> still (s, d) (s, d')"
  by (simp add: still_def near_def)

lemma quietS_tasks: "quietS s s' \<Longrightarrow> s_tasks s' = s_tasks s"
  unfolding quietS_def muteS_def by (drule arg_cong[of _ _ s_tasks]) simp

lemma still_hushed: "hushed x y \<Longrightarrow> still x y"
  by (auto simp: still_def near_def hushed_def quietS_fields calm_quiet quietS_tasks)

lemma still_logResult: "still (s, d) (logResult frame val code s d)"
proof -
  obtain evs cs where "logResult frame val code s d = (s\<lparr>s_commsRequests := cs\<rparr>, d\<lparr>d_log := d_log d @ evs\<rparr>)"
    using logResult_effect[of frame val code s d] by blast
  then show ?thesis by (simp add: still_def near_def calm_def sent_def)
qed

lemma still_logRequest: "still (s, d) (logRequest frame ps m s d)"
  by (auto simp: logRequest_def still_def near_def Let_def split: option.split)

lemma still_beginTrace: "still (s, d) (beginTrace frame ps m s d)"
proof -
  have q: "quiet d (snd (reserveTrace n d))" for n by simp
  have a: "hushed (s, d) (s\<lparr>s_traceRequests := r\<rparr>, snd (reserveTrace n d))" for r n
    using q by (simp add: hushed_def quietS_def muteS_def)
  have "hushed (s, d) (addTraceRef k ref (s\<lparr>s_traceRequests := r\<rparr>) (snd (reserveTrace n d)))" for k ref r n
    by (rule hushed_trans[OF a hushed_addTraceRef])
  with a q show ?thesis
    by (intro still_hushed) (auto simp: beginTrace_def Let_def split_beta hushed_def split: params.split option.split)
qed

lemma still_traceTarget: "still (s, d) (traceTarget k item target s d)"
  using still_hushed[OF hushed_addTraceRef] by (auto simp: traceTarget_def split: option.split)

lemma still_settleFrame: "still (s, d) (settleFrame frame val code s d)"
  using still_trans[OF still_logResult still_hushed[OF hushed_finishTrace[of "fst (logResult frame val code s d)" "snd (logResult frame val code s d)", unfolded prod.collapse]]]
  by (simp add: settleFrame_def split_beta)

lemma settles_after:
  assumes "still x y" "settles frame ch y z" "ch < n_chan (snd x)"
  shows "settles frame ch x z"
  using assms by (auto simp: still_def near_def settles_def calm_def)

text \<open>The first of the two: an operation that answers.\<close>

definition replied :: "ptr \<Rightarrow> session \<times> daemon \<Rightarrow> session \<times> daemon \<Rightarrow> bool" where
  "replied ch x y \<longleftrightarrow> s_forwarded (fst y) = Some ch \<and> s_launch (fst y) = s_launch (fst x) \<and> n_chan (snd x) \<le> n_chan (snd y)
     \<and> d_host (snd y) = d_host (snd x) \<and> d_hi (snd y) = d_hi (snd x)
     \<and> (\<forall>c < n_chan (snd x). sent c (snd y) = sent c (snd x) + (if c = ch then 1 else 0))
     \<and> s_requests (fst y) = s_requests (fst x) \<and> s_tasks (fst y) = s_tasks (fst x)"

lemma replied_settles: "replied ch x y \<Longrightarrow> ch < n_chan (snd x) \<Longrightarrow> settles frame ch x y"
  by (auto simp: replied_def settles_def)

lemma replied_after: "still x y \<Longrightarrow> replied ch y z \<Longrightarrow> replied ch x z"
  by (auto simp: still_def near_def replied_def calm_def)

lemma replied_sendForwarded:
  assumes "s_forwarded s = Some ch"
  shows "replied ch (s, d) (sendForwarded ch method val s d)"
proof -
  have r: "d_fedReplies (snd (rpcReply method val d)) = d_fedReplies d" "n_chan (snd (rpcReply method val d)) = n_chan d"
    "d_host (snd (rpcReply method val d)) = d_host d" "d_hi (snd (rpcReply method val d)) = d_hi d"
    by (simp_all add: rpcReply_def rpcError_def panic_def Let_def)
  show ?thesis using assms r
    by (simp add: sendForwarded_def traceReply_def releaseTraceTargets_def releaseTrace_def replied_def sent_def Let_def split_beta)
qed

lemma replied_replies:
  assumes "s_forwarded s = Some ch"
  shows "replied ch (s, d) (reject frame code s d)" "replied ch (s, d) (result_reply frame v s d)"
    "replied ch (s, d) (error_reply frame code data s d)" "replied ch (s, d) (resultNil frame s d)"
proof -
  have *: "replied ch (s, d) (sendForwarded ch m a (fst (settleFrame frame val c s d)) (snd (settleFrame frame val c s d)))"
    and f: "s_forwarded (fst (settleFrame frame val c s d)) = Some ch" for m a val c
  proof -
    have st: "still (s, d) (settleFrame frame val c s d)" by (rule still_settleFrame)
    then show f: "s_forwarded (fst (settleFrame frame val c s d)) = Some ch" using assms by (simp add: still_def near_def)
    from replied_after[OF st] replied_sendForwarded[OF f, of "snd (settleFrame frame val c s d)" m a]
    show "replied ch (s, d) (sendForwarded ch m a (fst (settleFrame frame val c s d)) (snd (settleFrame frame val c s d)))"
      by simp
  qed
  show "replied ch (s, d) (reject frame code s d)" "replied ch (s, d) (result_reply frame v s d)"
    "replied ch (s, d) (error_reply frame code data s d)" "replied ch (s, d) (resultNil frame s d)"
    using * f by (simp_all add: reject_def result_reply_def error_reply_def resultNil_def split_beta Let_def)
qed

lemma settles_replies:
  assumes "s_forwarded s = Some ch" "ch < n_chan d"
  shows "settles frame ch (s, d) (reject frame code s d)" "settles frame ch (s, d) (result_reply frame v s d)"
    "settles frame ch (s, d) (error_reply frame code data s d)" "settles frame ch (s, d) (resultNil frame s d)"
  using replied_settles[OF replied_replies(1)[OF assms(1)]] replied_settles[OF replied_replies(2)[OF assms(1)]]
    replied_settles[OF replied_replies(3)[OF assms(1)]] replied_settles[OF replied_replies(4)[OF assms(1)]] assms(2)
  by simp_all

lemma settles_register:
  assumes "s_forwarded s = Some ch" "calm d d'" "ch < n_chan d" "rt_frame st = frame" "task_key t = Some (fr_ID frame, leg)"
    "fr_Method frame \<noteq> ''message.send'' \<or> rt_aggregate st"
    "rt_selfInfo st = None \<or> fr_Method frame = ''session.list'' \<and> (\<exists>leg ch p. t = TAwaitRemote (fr_ID frame) leg ''session.list'' ch p)"
  shows "settles frame ch (s, d) (start_task t (register frame st s), d')"
proof -
  have "waits (fr_ID frame) st [t]" using assms(4-7) by (auto simp: waits_def)
  with assms show ?thesis by (auto simp: settles_def start_task_def register_def calm_def)
qed

lemma settles_calm:
  assumes "calm d d'" "ch < n_chan d" "settles frame ch (s, d') y"
  shows "settles frame ch (s, d) y"
  by (rule settles_after[OF still_calm[OF assms(1)] assms(3)]) (simp add: assms(2))

lemma calm_chan: "calm d d' \<Longrightarrow> ch < n_chan d \<Longrightarrow> ch < n_chan d'"
  by (simp add: calm_def)

section \<open>Handlers that forward nothing\<close>

lemma calm_postCallerForward [simp]: "calm d (snd (postCallerForward s call m target d))"
proof -
  have "calm d (snd (postFederation call (upd_owner w f d)))" for w f by (rule calm_trans[OF calm_upd(2) calm_more(4)])
  then show ?thesis by (auto simp: postCallerForward_def split_beta Let_def split: option.split)
qed

lemma settles_forward:
  assumes "s_forwarded s = Some ch" "ch < n_chan d" "fr_Method frame \<noteq> ''message.send''"
  shows "settles frame ch (s, d) (forward frame target s d)"
proof -
  let ?d1 = "snd (newChan d)"
  have c: "calm d (snd (postCallerForward s call m target ?d1))" for call m
    by (rule calm_trans[OF calm_upd(7) calm_postCallerForward])
  note e = settles_calm[OF c assms(2) settles_replies(3)[OF assms(1) calm_chan[OF c assms(2)]]]
  have r: "settles frame ch (s, d) (awaitRemote (fr_ID frame) 0 (fr_Method frame) reply (register frame st s), snd (postCallerForward s call m' target ?d1))"
    if "rt_frame st = frame" "rt_selfInfo st = None \<or> fr_Method frame = ''session.list''" for m' reply st call
    unfolding awaitRemote_def by (rule settles_register[OF assms(1) c assms(2) that(1)]) (use that(2) in \<open>auto simp: assms(3)\<close>)
  show ?thesis using e r
    by (simp add: forward_def Let_def split_beta newState_def)
qed

lemma settles_launch:
  assumes "s_forwarded s = Some ch" "ch < n_chan d" "fr_Method frame \<noteq> ''message.send''"
  shows "settles frame ch (s, d) (launchRequest frame start s d)" "settles frame ch (s, d) (refuseLaunch frame code start s d)"
proof -
  show "settles frame ch (s, d) (launchRequest frame start s d)"
    unfolding launchRequest_def await_def
    by (rule settles_register[OF assms(1) calm_refl assms(2)]) (simp_all add: newState_def assms(3))
  show "settles frame ch (s, d) (refuseLaunch frame code start s d)"
    unfolding refuseLaunch_def
    by (rule settles_calm[OF calm_upd(11) assms(2) settles_replies(3)[OF assms(1) calm_chan[OF calm_upd(11) assms(2)]]])
qed

lemma settles_describe:
  assumes "s_forwarded s = Some ch" "ch < n_chan d" "fr_Method frame \<noteq> ''message.send''"
  shows "settles frame ch (s, d) (describe frame input s d)"
proof -
  have c: "calm d (snd (reserveDescribe start (upd_launch l f (snd (newEntry e (snd (newLaunch p a b d)))))))" for start l f e p a b
    by (rule calm_trans[OF calm_trans[OF calm_trans[OF calm_newLaunch calm_upd(9)] calm_upd(4)] calm_reserve(3)])
  note l = settles_calm[OF c assms(2) settles_launch(1)[OF assms(1) calm_chan[OF c assms(2)] assms(3)]]
    settles_calm[OF c assms(2) settles_launch(2)[OF assms(1) calm_chan[OF c assms(2)] assms(3)]]
  show ?thesis using l settles_forward[OF assms] settles_replies(3)[OF assms(1,2)]
    by (simp add: describe_def Let_def split_beta)
qed

lemma settles_spawn:
  assumes "s_forwarded s = Some ch" "ch < n_chan d" "fr_Method frame \<noteq> ''message.send''"
  shows "settles frame ch (s, d) (spawn frame input s d)"
proof -
  let ?x = "callerOwner (s_caller s) (s_identity s) (s_self s) d"
  let ?d1 = "snd ?x"
  have c: "calm d ?d1" by simp
  have n: "ch < n_chan ?d1" by (rule calm_chan[OF c assms(2)])
  have l: "settles frame ch (s, ?d1) (launchRequest frame start s d')" "settles frame ch (s, ?d1) (refuseLaunch frame code start s d')"
    if "calm ?d1 d'" for d' start code
    by (rule settles_calm[OF that n settles_launch(1)[OF assms(1) calm_chan[OF that n] assms(3)]])
      (rule settles_calm[OF that n settles_launch(2)[OF assms(1) calm_chan[OF that n] assms(3)]])
  have r: "settles frame ch (s, ?d1) (spawnResume frame input sid parent caller s ?d1)" for sid parent caller
  proof -
    have "calm ?d1 (snd (reserveResume sid g start (upd_launch l f (snd (newLaunch p a b ?d1)))))" for g start l f p a b
      by (rule calm_trans[OF calm_trans[OF calm_newLaunch calm_upd(4)] calm_reserve(2)])
    with l show ?thesis by (simp add: spawnResume_def Let_def split_beta)
  qed
  have f: "settles frame ch (s, ?d1) (spawnFresh frame input parent caller s ?d1)" for parent caller
  proof -
    have "calm ?d1 (snd (reserveFresh g start (upd_launch l f (snd (newLaunch p a b ?d1)))))" for g start l f p a b
      by (rule calm_trans[OF calm_trans[OF calm_newLaunch calm_upd(4)] calm_reserve(1)])
    with l settles_replies[OF assms(1) n] show ?thesis by (simp add: spawnFresh_def Let_def split_beta split: sum.split)
  qed
  have "settles frame ch (s, ?d1) (spawn frame input s d)"
    using r f settles_forward[OF assms(1) n assms(3)] settles_replies[OF assms(1) n]
    by (cases ?x) (simp add: spawn_def Let_def split_beta split: option.split)
  then show ?thesis by (rule settles_calm[OF c assms(2)])
qed

lemma settles_configureTrace:
  assumes "s_forwarded s = Some ch" "ch < n_chan d" "fr_Method frame \<noteq> ''message.send''"
  shows "settles frame ch (s, d) (configureTrace frame input s d)"
proof -
  let ?x = "callerOwner (s_caller s) (s_identity s) (s_self s) d"
  let ?d1 = "snd ?x"
  have c: "calm d ?d1" by simp
  have n: "ch < n_chan ?d1" by (rule calm_chan[OF c assms(2)])
  have u: "calm d (upd_entry p f (snd (drawID pre ?d1)))" for p f pre
    by (rule calm_trans[OF calm_trans[OF c calm_upd(8)] calm_upd(1)])
  note a = settles_calm[OF c assms(2) settles_replies(3)[OF assms(1) n]]
    settles_calm[OF u assms(2) settles_replies(2)[OF assms(1) calm_chan[OF u assms(2)]]]
  show ?thesis using a settles_forward[OF assms] settles_replies(3)[OF assms(1,2)]
    by (simp add: configureTrace_def Let_def split_beta split: option.split)
qed

lemma select_one:
  "snd (fst (selectEntries groups (Some [label]) grp names omit q d)) = InvalidFrame
    \<or> fst (fst (selectEntries groups (Some [label]) grp names omit q d)) \<noteq> []"
  by (auto simp: selectEntries_def selectLocked_def split_beta Let_def split: option.split list.split)

lemma settles_route:
  assumes "s_forwarded s = Some ch" "ch < n_chan d" "fr_Method frame \<noteq> ''message.send''"
  shows "settles frame ch (s, d) (route_req frame label ps s d)"
proof -
  obtain can host code where t: "canonicalTarget label (d_host d) (validIDPart (d_hi d)) = (can, host, code)"
    by (cases "canonicalTarget label (d_host d) (validIDPart (d_hi d))") auto
  obtain reply d1 where nc: "newChan d = (reply, d1)" by (cases "newChan d")
  obtain items code2 d2 where x: "selectEntries (fc_Groups (federationCaller s d)) (Some [label]) [] False None
      (Some (newRequest (fr_Method frame) ps reply)) d1 = ((items, code2), d2)" by (metis prod.exhaust_sel)
  have c: "calm d d2"
    using calm_trans[OF calm_upd(7)[of d]] calm_selectEntries[of d1 "fc_Groups (federationCaller s d)" "Some [label]" "[]" False None
      "Some (newRequest (fr_Method frame) ps reply)"] nc x by simp
  have n: "ch < n_chan d2" by (rule calm_chan[OF c assms(2)])
  have ne: "code2 = InvalidFrame \<or> items \<noteq> []"
    using select_one[of "fc_Groups (federationCaller s d)" label "[]" False None "Some (newRequest (fr_Method frame) ps reply)" d1] x by simp
  have e: "settles frame ch (s, d) (reject frame cd s d2)" "settles frame ch (s, d) (error_reply frame cd dt s d2)" for cd dt
    using settles_calm[OF c assms(2)] settles_replies[OF assms(1) n] by blast+
  have g: "settles frame ch (s, d) (await (fr_ID frame) l r (register frame st s), d2)" if "rt_frame st = frame" "rt_selfInfo st = None" for l r st
    unfolding await_def by (rule settles_register[OF assms(1) c assms(2) that(1)]) (simp_all add: assms(3) that(2))
  show ?thesis
  proof (cases "code = InvalidFrame \<or> host \<noteq> d_host d")
    case True
    with settles_replies(1)[OF assms(1,2)] settles_forward[OF assms] t show ?thesis by (auto simp: route_req_def)
  next
    case False
    with e g ne x t nc show ?thesis by (cases items) (auto simp: route_req_def Let_def newState_def)
  qed
qed

lemma settles_listLocal:
  assumes "s_forwarded s = Some ch" "ch < n_chan d"
  shows "settles frame ch (s, d) (listLocal frame input s d)"
proof -
  have c: "calm d (snd (selectEntries g l a b e q d))" for g l a b e q by simp
  note n = calm_chan[OF c assms(2)]
  note e = settles_calm[OF c assms(2) settles_replies(1)[OF assms(1) n]] settles_calm[OF c assms(2) settles_replies(2)[OF assms(1) n]]
    settles_calm[OF c assms(2) settles_replies(3)[OF assms(1) n]]
  show ?thesis using e by (simp add: listLocal_def Let_def split_beta)
qed

section \<open>Messages to local sessions\<close>

definition added :: "int \<Rightarrow> nat \<Rightarrow> nat \<Rightarrow> session \<Rightarrow> session \<Rightarrow> task list \<Rightarrow> bool" where
  "added k i j s s' ts \<longleftrightarrow> s_tasks s' = s_tasks s @ ts \<and> (\<forall>t \<in> set ts. \<exists>leg. task_key t = Some (k, leg) \<and> i \<le> leg \<and> leg < j)"

lemma deliverTo_tasks:
  assumes "deliverTo frame delivery index x s d = (y, n, s1, d1)"
  shows "near (s, d) (s1, d1) \<and> (\<exists>ts. added (fr_ID frame) index (Suc index) s s1 ts \<and> n = int (length ts))"
proof (cases "snd x")
  case None
  with assms show ?thesis by (auto simp: deliverTo_def added_def)
next
  case (Some p)
  obtain t e where te: "traceTarget (fr_ID frame) (Some p) (md_Target (fst x)) s d = (t, e)"
    by (cases "traceTarget (fr_ID frame) (Some p) (md_Target (fst x)) s d")
  have 1: "still (s, d) (t, e)" using still_traceTarget[of s d "fr_ID frame" "Some p" "md_Target (fst x)"] te by simp
  have 2: "calm e (snd (route_dir i m q (snd (newChan e))))" for i m q by (rule calm_trans[OF calm_upd(7) calm_route(2)])
  have 3: "calm e (logDispatch a b f g r (snd (drawID pre (snd (route_dir i m q (snd (newChan e)))))))"
    for a b f g r pre i m q by (rule calm_trans[OF calm_trans[OF 2 calm_upd(8)] calm_more(6)])
  have 4: "near (s, d) (t, d')" if "calm e d'" for d' using 1 that calm_trans[of d e d'] by (simp add: still_def near_def)
  have 5: "near (s, d) (await a b c t, d')" if "calm e d'" for a b c d' using 4[OF that] by (simp add: near_def await_def start_task_def)
  have 6: "added k index (Suc index) s t []" "added k index (Suc index) s (await k index r t) [TAwait k index r (s_identity t)]" for k r
    using 1 by (simp_all add: added_def still_def near_def await_def start_task_def)
  have n: "\<exists>ts. added k index (Suc index) s t ts \<and> 0 = int (length ts)"
      "\<exists>ts. added k index (Suc index) s (await k index r t) ts \<and> 1 = int (length ts)" for k r
    by (rule exI[of _ "[]"], simp add: 6) (rule exI[of _ "[TAwait k index r (s_identity t)]"], simp add: 6)
  show ?thesis using assms Some te 4[OF 2] 5[OF 3] n by (auto simp: deliverTo_def Let_def split_beta split: if_splits)
qed

lemma deliverAll_tasks:
  assumes "deliverAll frame delivery index xs s d = (ys, n, s1, d1)"
  shows "near (s, d) (s1, d1) \<and> length ys = length xs
    \<and> (\<exists>ts. added (fr_ID frame) index (index + length xs) s s1 ts \<and> n = int (length ts))"
  using assms
proof (induction xs arbitrary: index s d ys n)
  case Nil
  then show ?case by (auto simp: added_def)
next
  case (Cons x xs)
  obtain y k t e where y: "deliverTo frame delivery index x s d = (y, k, t, e)"
    by (cases "deliverTo frame delivery index x s d") auto
  obtain zs m where z: "deliverAll frame delivery (Suc index) xs t e = (zs, m, s1, d1)" "ys = y # zs" "n = k + m"
    using Cons.prems y by (auto simp: Let_def split_beta prod_eq_iff)
  obtain ts where ts: "near (s, d) (t, e)" "added (fr_ID frame) index (Suc index) s t ts" "k = int (length ts)"
    using deliverTo_tasks[OF y] by blast
  obtain us where us: "near (t, e) (s1, d1)" "length zs = length xs" "added (fr_ID frame) (Suc index) (Suc index + length xs) t s1 us"
      "m = int (length us)"
    using Cons.IH[OF z(1)] by blast
  have a: "added (fr_ID frame) index (index + length (x # xs)) s s1 (ts @ us)" using ts(2) us(3) by (fastforce simp: added_def)
  have "\<exists>vs. added (fr_ID frame) index (index + length (x # xs)) s s1 vs \<and> n = int (length vs)"
    using a by (intro exI[of _ "ts @ us"]) (simp add: z ts us)
  with near_trans[OF ts(1) us(1)] us(2) z(2) show ?case by simp
qed

lemma settles_sendLocal:
  assumes "s_forwarded s = Some ch" "ch < n_chan d" "fr_Method frame = ''message.send''"
  shows "settles frame ch (s, d) (sendLocal frame input messageID s d)"
proof -
  obtain items code d1 where x: "selectEntries (fc_Groups (federationCaller s d))
      (if ms_Group input \<noteq> [] \<or> sendLabels input = [] then None else Some (sendLabels input)) (ms_Group input) True (deliveryOmit s) None d
      = ((items, code), d1)" by (metis prod.exhaust_sel)
  have c: "calm d d1" using calm_selectEntries[of d] x by (metis snd_conv)
  define delivery where "delivery = \<lparr>dq_RunID = [], dq_MessageID = messageID,
     dq_From = \<lparr>ds_SessionID = fc_SessionID (federationCaller s d), ds_Name = fc_Name (federationCaller s d),
       ds_Product = fc_Product (federationCaller s d), ds_Groups = fc_Groups (federationCaller s d)\<rparr>, dq_Body = ms_Message input\<rparr>"
  obtain ys n s2 d2 where y: "deliverAll frame delivery 0 (prepareDeliveries items []) s d1 = (ys, n, s2, d2)"
    by (cases "deliverAll frame delivery 0 (prepareDeliveries items []) s d1") auto
  obtain ts where ts: "near (s, d1) (s2, d2)" "length ys = length (prepareDeliveries items [])"
      "added (fr_ID frame) 0 (length ys) s s2 ts" "n = int (length ts)"
    using deliverAll_tasks[OF y] by auto
  have st: "near (s, d) (s2, d2)" using near_trans[OF still_near[OF still_calm[OF c]] ts(1)] .
  then have f: "s_forwarded s2 = Some ch" "ch < n_chan d2" using assms by (auto simp: near_def calm_def)
  have n: "ch < n_chan d1" by (rule calm_chan[OF c assms(2)])
  have 1: "settles frame ch (s, d) (reject frame c s d1)" for c by (rule settles_calm[OF c assms(2) settles_replies(1)[OF assms(1) n]])
  have 2: "settles frame ch (s, d) (result_reply frame v s2 d2)" if "n = 0" for v
    by (rule settles_after[OF _ settles_replies(2)[OF f]]) (use assms st ts that in \<open>simp_all add: still_def near_def added_def\<close>)
  have 3: "settles frame ch (s, d) (register frame rs s2, d2)"
    if "rt_frame rs = frame" "rt_deliveries rs = ys" "rt_pending rs = n" "\<not> rt_aggregate rs" "n \<noteq> 0" "rt_selfInfo rs = None" for rs
  proof -
    have "waits (fr_ID frame) rs ts" "s_tasks s2 = s_tasks s @ ts" using ts that assms(3) unfolding waits_def added_def by auto
    then show ?thesis using st assms f that(1) by (auto simp: settles_def register_def near_def calm_def)
  qed
  show ?thesis using 1 2 3 assms(3) unfolding sendLocal_def Let_def x split_beta
    by (simp add: x y delivery_def[symmetric] newState_def)
qed

section \<open>Calls that forward nothing in turn\<close>

definition flat_send :: "MessageSendRequest \<Rightarrow> daemon \<Rightarrow> bool" where
  "flat_send input d \<longleftrightarrow>
     (if ms_Group input \<noteq> [] then ms_Host input = d_host d \<and> d_host d \<noteq> []
      else \<exists>h. \<forall>l \<in> set (sendLabels input). targetHost (validNamePart (d_hi d)) (d_host d) l = h)"

definition flat :: "localCall \<Rightarrow> daemon \<Rightarrow> bool" where
  "flat c d \<longleftrightarrow>
     lc_method c = ''session.list'' \<and> lc_params c = PList \<lparr>sl_SessionID = [], sl_Host = d_host d\<rparr> \<and> d_host d \<noteq> []
     \<or> lc_method c = ''message.send'' \<and> (\<exists>i. lc_params c = PSend i \<and> flat_send i d)"

lemma calm_same: "calm d d' \<Longrightarrow> d_host d' = d_host d \<and> d_hi d' = d_hi d"
  by (simp add: calm_def)

lemma flat_calm: "calm d d' \<Longrightarrow> flat c d \<Longrightarrow> flat c d'"
proof -
  assume k: "calm d d'"
  have "flat_send i d' = flat_send i d" for i using calm_same[OF k] by (simp add: flat_send_def)
  then show "flat c d \<Longrightarrow> flat c d'" using calm_same[OF k] by (simp add: flat_def)
qed

lemma partition_Some:
  "partitionLabels valid local labels [] = Some ps \<Longrightarrow> ps = grouped (targetHost valid local) labels"
  using partition_grouped[of valid local labels "[]"] by (auto simp: grouped_def unique_def split: if_splits)

lemma unique_const: "\<forall>x \<in> set xs. x = h \<Longrightarrow> unique xs = [] \<or> unique xs = [h]"
proof -
  assume a: "\<forall>x \<in> set xs. x = h"
  have s: "set (unique xs) \<subseteq> {h}" "distinct (unique xs)" using a unique_correct[of xs] by auto
  then show ?thesis by (cases "unique xs" rule: list.exhaust[case_product list.exhaust[of "tl (unique xs)"]]) auto
qed

lemma flat_send_indep:
  assumes "flat_send input d"
  shows "sendFederated fwd1 frame input m s d = sendFederated fwd2 frame input m s d"
proof (cases "ms_Group input = []")
  case False
  with assms show ?thesis by (simp add: sendFederated_def sendGroup_def flat_send_def)
next
  case True
  let ?th = "targetHost (validNamePart (d_hi d)) (d_host d)"
  from assms True obtain h where h: "\<forall>l \<in> set (sendLabels input). ?th l = h" by (auto simp: flat_send_def)
  show ?thesis
  proof (cases "partitionLabels (validNamePart (d_hi d)) (d_host d) (sendLabels input) []")
    case None
    with True show ?thesis by (simp add: sendFederated_def)
  next
    case (Some ps)
    have g: "ps = grouped ?th (sendLabels input)" by (rule partition_Some[OF Some])
    have "ps = [] \<or> (\<exists>ls. ps = [(h, ls)])"
      using unique_const[of "map ?th (sendLabels input)" h] h unfolding g grouped_def by auto
    with True Some show ?thesis by (auto simp: sendFederated_def newMessageLeg_def Let_def split_beta)
  qed
qed

lemma still_prepare:
  "still (s, d) (logRequest frame ps m (fst (beginTrace frame ps m s (snd (drawMessageID s d)))) (snd (beginTrace frame ps m s (snd (drawMessageID s d)))))"
proof -
  have "calm d (snd (drawMessageID s d))" by (simp add: drawMessageID_def)
  from still_trans[OF still_trans[OF still_calm[OF this] still_beginTrace] still_logRequest[of "fst (beginTrace frame ps m s (snd (drawMessageID s d)))" "snd (beginTrace frame ps m s (snd (drawMessageID s d)))", unfolded prod.collapse]]
  show ?thesis by (simp add: drawMessageID_def)
qed

lemma flat_forward:
  assumes "flat c d"
  shows "forwardLocalTrace (dispatchWith fwd1) c d = forwardLocalTrace (dispatchWith fwd2) c d"
proof -
  have *: "dispatchWith fwd1 (localFrame (lc_method c)) (lc_params c) t e = dispatchWith fwd2 (localFrame (lc_method c)) (lc_params c) t e"
    if k: "calm d e" and t: "s_requests t = []" for t e
  proof -
    have f: "flat c e" by (rule flat_calm[OF k assms])
    show ?thesis
    proof (cases "lc_method c = ''session.list''")
      case True
      with f have p: "lc_params c = PList \<lparr>sl_SessionID = [], sl_Host = d_host e\<rparr>" "d_host e \<noteq> []" by (auto simp: flat_def)
      have "calm e (snd (logRequest (localFrame ''session.list'') (PList \<lparr>sl_SessionID = [], sl_Host = d_host e\<rparr>) [] t e))"
        using still_logRequest[of t e] by (simp add: still_def near_def)
      then have "d_host (snd (logRequest (localFrame ''session.list'') (PList \<lparr>sl_SessionID = [], sl_Host = d_host e\<rparr>) [] t e)) = d_host e"
        by (simp add: calm_def)
      with True p t show ?thesis
        by (simp add: dispatchWith_def dispatchMethod_def list_req_def localFrame_def Let_def split_beta)
    next
      case False
      with f obtain i where p: "lc_method c = ''message.send''" "lc_params c = PSend i" "flat_send i e" by (auto simp: flat_def)
      let ?x = "\<lambda>m. logRequest (localFrame ''message.send'') (PSend i) m
          (fst (beginTrace (localFrame ''message.send'') (PSend i) m t (snd (drawMessageID t e))))
          (snd (beginTrace (localFrame ''message.send'') (PSend i) m t (snd (drawMessageID t e))))"
      have "calm e (snd (?x m))" for m
        using still_prepare[of t e "localFrame ''message.send''" "PSend i" m] by (simp add: still_def near_def)
      then have "flat_send i (snd (?x m))" for m using p(3) calm_same[of e "snd (?x m)"] by (simp add: flat_send_def)
      from flat_send_indep[OF this, of fwd1 _ _ _ _ fwd2] p t show ?thesis
        by (simp add: dispatchWith_def dispatchMethod_def send_req_def localFrame_def Let_def split_beta)
    qed
  qed
  have "calm d (snd (newEntry x ((snd (newChan d))\<lparr>n_session := k\<rparr>)))" for x k
    using calm_trans[of d "(snd (newChan d))\<lparr>n_session := k\<rparr>"] calm_upd(7)[of d] calm_upd(9) by simp
  from *[OF this] show ?thesis
    by (simp add: forwardLocalTrace_def Let_def split_beta localSession_def newSession_def)
qed

section \<open>Handlers that forward\<close>

definition fwd_ok :: "forwarder \<Rightarrow> bool" where
  "fwd_ok fwd \<longleftrightarrow> (\<forall>c d. flat c d \<and> d_host d \<noteq> [] \<longrightarrow> calm d (fst (snd (fwd c d))))"

definition fwd_eq :: "forwarder \<Rightarrow> forwarder \<Rightarrow> bool" where
  "fwd_eq f g \<longleftrightarrow> (\<forall>c d. flat c d \<longrightarrow> f c d = g c d)"

lemma flat_localSend: "flat_send input d \<Longrightarrow> flat (localSend caller input m s) d"
  by (simp add: flat_def localSend_def)

lemma leg_calm:
  assumes "fwd_ok fwd" "host = d_host d \<longrightarrow> flat_send input d" "d_host d \<noteq> []"
  shows "calm d (fst (snd (newMessageLeg fwd caller m host input labels s d)))"
proof -
  have "calm d (snd (postFederation call (snd (newChan d))))" for call by (rule calm_trans[OF calm_upd(7) calm_more(4)])
  moreover have "host = d_host d \<Longrightarrow> calm d (fst (snd (fwd (localSend caller input m s) d)))"
    using assms flat_localSend by (auto simp: fwd_ok_def)
  ultimately show ?thesis by (simp add: newMessageLeg_def Let_def split_beta)
qed

lemma leg_eq:
  assumes "fwd_eq f g" "host = d_host d \<longrightarrow> flat_send input d"
  shows "newMessageLeg f caller m host input labels s d = newMessageLeg g caller m host input labels s d"
  using assms flat_localSend[of input d caller m s] by (simp add: newMessageLeg_def fwd_eq_def)

lemma legs_ok:
  assumes "fwd_ok f" "\<forall>(h, ls) \<in> set ps. \<forall>l \<in> set ls. targetHost (validNamePart (d_hi d)) (d_host d) l = h" "d_host d \<noteq> []"
  shows "calm d (fst (snd (sendLegs f caller m message ps s d)))
    \<and> (fwd_eq f g \<longrightarrow> sendLegs f caller m message ps s d = sendLegs g caller m message ps s d)"
  using assms(2,3)
proof (induction ps arbitrary: d)
  case (Cons p ps)
  obtain h ls where p: "p = (h, ls)" by (cases p)
  let ?i = "\<lparr>ms_Target = [], ms_Targets = ls, ms_Group = [], ms_Host = [], ms_Message = message\<rparr>"
  have fl: "flat_send ?i d" using Cons.prems p by (auto simp: flat_send_def sendLabels_def)
  let ?x = "newMessageLeg f caller m h ?i ls s d"
  have c: "calm d (fst (snd ?x))" by (rule leg_calm[OF assms(1)]) (simp_all add: fl Cons.prems)
  have ih: "calm (fst (snd ?x)) (fst (snd (sendLegs f caller m message ps s (fst (snd ?x)))))
      \<and> (fwd_eq f g \<longrightarrow> sendLegs f caller m message ps s (fst (snd ?x)) = sendLegs g caller m message ps s (fst (snd ?x)))"
    by (rule Cons.IH) (use Cons.prems calm_same[OF c] in simp_all)
  have e: "fwd_eq f g \<Longrightarrow> newMessageLeg g caller m h ?i ls s d = ?x" using leg_eq[of f g h d ?i] fl by simp
  show ?case using ih e calm_trans[OF c] by (auto simp: p Let_def split_beta)
qed simp

lemma group_flat: "ms_Group input \<noteq> [] \<Longrightarrow> d_host d \<noteq> [] \<Longrightarrow> flat_send (input\<lparr>ms_Host := d_host d\<rparr>) d"
  by (simp add: flat_send_def)

lemma aggregate_cases:
  assumes "s_forwarded s = Some ch" "ch < n_chan d" "postAggregate frame call s (snd (newChan d)) = (code, s2, d2)"
  shows "code = 0 \<or> code = UnknownHost \<Longrightarrow> s2 = s \<and> calm d d2"
    "code \<noteq> 0 \<Longrightarrow> code \<noteq> UnknownHost \<Longrightarrow> settles frame ch (s, d) (s2, d2)"
proof -
  have c: "calm d (snd (postFederation call (snd (newChan d))))" by (rule calm_trans[OF calm_upd(7) calm_more(4)])
  from assms(3) c show "code = 0 \<or> code = UnknownHost \<Longrightarrow> s2 = s \<and> calm d d2"
    by (auto simp: postAggregate_def split_beta Let_def split: if_splits)
  have "settles frame ch (s, d) (error_reply frame code None s (snd (postFederation call (snd (newChan d)))))"
    by (rule settles_calm[OF c assms(2) settles_replies(3)[OF assms(1) calm_chan[OF c assms(2)]]])
  with assms(3) show "code \<noteq> 0 \<Longrightarrow> code \<noteq> UnknownHost \<Longrightarrow> settles frame ch (s, d) (s2, d2)"
    by (auto simp: postAggregate_def split_beta Let_def split: if_splits)
qed

text \<open>A handler that may handle the request: settled if it did, untouched if it did not.\<close>

definition tries :: "Frame \<Rightarrow> ptr \<Rightarrow> session \<times> daemon \<Rightarrow> bool \<times> hres \<Rightarrow> bool" where
  "tries frame ch x r \<longleftrightarrow>
     (if fst r then settles frame ch x (fst (snd r), fst (snd (snd r))) else still x (fst (snd r), fst (snd (snd r))))"

lemma tries_listFederated:
  assumes "s_forwarded s = Some ch" "ch < n_chan d" "fwd_ok fwd" "d_host d \<noteq> []" "fr_Method frame \<noteq> ''message.send''"
  shows "tries frame ch (s, d) (listFederated fwd frame s d)"
proof -
  obtain hosts d1 where nc: "newChan d = (hosts, d1)" by (cases "newChan d")
  obtain code s2 d2 where x: "postAggregate frame (HostsCall hosts) s d1 = (code, s2, d2)"
    by (cases "postAggregate frame (HostsCall hosts) s d1") auto
  have x': "postAggregate frame (HostsCall hosts) s (snd (newChan d)) = (code, s2, d2)" using x nc by simp
  note ag = aggregate_cases[OF assms(1,2) x']
  show ?thesis
  proof (cases "code = 0")
    case True
    then have s2: "s2 = s" and c: "calm d d2" using ag(1) by auto
    have "flat (localList (federationCaller s d2) (s_identity s) d2) d2"
      using assms(4) calm_same[OF c] by (simp add: flat_def localList_def)
    with assms(3,4) calm_same[OF c] have "calm d2 (fst (snd (fwd (localList (federationCaller s d2) (s_identity s) d2) d2)))" by (simp add: fwd_ok_def)
    from settles_register[OF assms(1) calm_trans[OF c this] assms(2), of "newState frame" frame] assms(5) True s2 x nc show ?thesis
      by (simp add: listFederated_def tries_def split_beta Let_def newState_def)
  next
    case False
    with ag x nc show ?thesis by (auto simp: listFederated_def tries_def still_def near_def)
  qed
qed

lemma tries_sendGroup:
  assumes "s_forwarded s = Some ch" "ch < n_chan d" "fwd_ok fwd" "d_host d \<noteq> []" "ms_Group input \<noteq> []" "fr_Method frame = ''message.send''"
  shows "tries frame ch (s, d) (sendGroup fwd frame input m caller s d)"
proof (cases "ms_Host input = []")
  case False
  have c: "calm d (fst (snd (newMessageLeg fwd caller m (ms_Host input) input [] s d)))" if "ms_Host input \<noteq> d_host d"
    by (rule leg_calm[OF assms(3)]) (use that assms(4) in simp_all)
  show ?thesis using settles_register[OF assms(1) c assms(2)] False
    by (auto simp: sendGroup_def tries_def startWork_def newState_def split_beta Let_def)
next
  case True
  obtain hosts d1 where nc: "newChan d = (hosts, d1)" by (cases "newChan d")
  obtain code s2 d2 where x: "postAggregate frame (HostsCall hosts) s d1 = (code, s2, d2)"
    by (cases "postAggregate frame (HostsCall hosts) s d1") auto
  have x': "postAggregate frame (HostsCall hosts) s (snd (newChan d)) = (code, s2, d2)" using x nc by simp
  note ag = aggregate_cases[OF assms(1,2) x']
  show ?thesis
  proof (cases "code = 0")
    case z: True
    then have s2: "s2 = s" and c: "calm d d2" using ag(1) by auto
    let ?c = "(localSend caller (input\<lparr>ms_Host := d_host d2\<rparr>) m s)\<lparr>lc_method := fr_Method frame\<rparr>"
    have "flat ?c d2" using group_flat[OF assms(5), of d2] assms(4,6) calm_same[OF c] by (simp add: flat_def localSend_def)
    with assms(3,4) calm_same[OF c] have "calm d2 (fst (snd (fwd ?c d2)))" by (simp add: fwd_ok_def)
    from settles_register[OF assms(1) calm_trans[OF c this] assms(2)] z s2 x nc True show ?thesis
      by (simp add: sendGroup_def tries_def startWork_def newState_def split_beta Let_def)
  next
    case False
    with ag x nc True show ?thesis by (auto simp: sendGroup_def tries_def still_def near_def)
  qed
qed

lemma grouped_hosts: "\<forall>(h, ls) \<in> set (grouped th labels). \<forall>l \<in> set ls. th l = h"
  by (auto simp: grouped_def)

lemma tries_sendFederated:
  assumes "s_forwarded s = Some ch" "ch < n_chan d" "fwd_ok fwd" "d_host d \<noteq> []" "fr_Method frame = ''message.send''"
  shows "tries frame ch (s, d) (sendFederated fwd frame input m s d)"
proof (cases "ms_Group input = []")
  case False
  with tries_sendGroup[OF assms(1-4) False assms(5)] show ?thesis by (simp add: sendFederated_def)
next
  case True
  show ?thesis
  proof (cases "partitionLabels (validNamePart (d_hi d)) (d_host d) (sendLabels input) []")
    case None
    with True settles_replies(1)[OF assms(1,2)] show ?thesis by (simp add: sendFederated_def tries_def)
  next
    case (Some ps)
    have c: "calm d (fst (snd (sendLegs fwd caller m message ps s d)))" for caller message
      using legs_ok[OF assms(3), of ps d caller m message s] grouped_hosts partition_Some[OF Some] assms(4) by blast
    from settles_register[OF assms(1) c assms(2)] True Some show ?thesis
      by (simp add: sendFederated_def tries_def startWork_def newState_def split_beta Let_def)
  qed
qed

definition hpair :: "hres \<Rightarrow> session \<times> daemon" where
  "hpair r = (fst r, fst (snd r))"

lemma hpair_plain [simp]: "hpair (plain x) = x"
  by (simp add: hpair_def)

lemma still_chan: "still (s, d) (s', d') \<Longrightarrow> s_forwarded s = Some ch \<Longrightarrow> ch < n_chan d \<Longrightarrow>
    s_forwarded s' = Some ch \<and> ch < n_chan d' \<and> d_host d' = d_host d \<and> s_launch s' = s_launch s"
  by (auto simp: still_def near_def calm_def)

lemma settles_list:
  assumes "s_forwarded s = Some ch" "ch < n_chan d" "fwd_ok fwd" "d_host d \<noteq> []" "fr_Method frame \<noteq> ''message.send''"
  shows "settles frame ch (s, d) (hpair (list_req fwd frame input s d))"
proof -
  obtain h s1 d1 subs where x: "listFederated fwd frame s d = (h, s1, d1, subs)" by (cases "listFederated fwd frame s d") auto
  have t: "if h then settles frame ch (s, d) (s1, d1) else still (s, d) (s1, d1)"
    using tries_listFederated[OF assms] unfolding x tries_def by (cases h) simp_all
  have l: "settles frame ch (s, d) (listLocal frame input s1 d1)" if "\<not> h"
    using settles_after[of "(s, d)" "(s1, d1)" frame ch] settles_listLocal[of s1 ch d1 frame input] still_chan[of s d s1 d1 ch] t that assms(1,2)
    by simp
  show ?thesis using t l settles_listLocal[OF assms(1,2), of frame input] settles_forward[OF assms(1,2,5)] settles_replies[OF assms(1,2)]
    by (simp add: list_req_def split_beta Let_def x hpair_def)
qed

lemma settles_send:
  assumes "s_forwarded s = Some ch" "ch < n_chan d" "fwd_ok fwd" "d_host d \<noteq> []" "fr_Method frame = ''message.send''"
  shows "settles frame ch (s, d) (hpair (send_req fwd frame input s d))"
proof (cases "validTraceCopy input s")
  case True
  obtain m d1 where m: "drawMessageID s d = (m, d1)" by (cases "drawMessageID s d")
  obtain s2 d2 where b: "beginTrace frame (PSend input) m s d1 = (s2, d2)" by (cases "beginTrace frame (PSend input) m s d1")
  obtain s3 d3 where l: "logRequest frame (PSend input) m s2 d2 = (s3, d3)" by (cases "logRequest frame (PSend input) m s2 d2")
  obtain h s4 d4 subs where x: "sendFederated fwd frame input m s3 d3 = (h, s4, d4, subs)" by (cases "sendFederated fwd frame input m s3 d3") auto
  have st: "still (s, d) (s3, d3)" using still_prepare[of s d frame "PSend input" m] m b l by simp
  note c = still_chan[OF st assms(1,2)]
  have t: "if h then settles frame ch (s3, d3) (s4, d4) else still (s3, d3) (s4, d4)"
    using tries_sendFederated[of s3 ch d3 fwd frame input m] c assms(3-5) unfolding x tries_def by (cases h) simp_all
  have "settles frame ch (s3, d3) (hpair (if h then (s4, d4, subs) else (fst (sendLocal frame input m s4 d4), snd (sendLocal frame input m s4 d4), subs)))"
  proof (cases h)
    case True
    with t show ?thesis by (simp add: hpair_def)
  next
    case False
    with t have st4: "still (s3, d3) (s4, d4)" by simp
    have c4: "s_forwarded s4 = Some ch" "ch < n_chan d4" using still_chan[OF st4] c by simp_all
    show ?thesis using settles_after[OF st4 settles_sendLocal[OF c4 assms(5), of input m]] c False by (simp add: hpair_def)
  qed
  from settles_after[OF st this] True assms(2) show ?thesis
    by (cases h) (simp_all add: send_req_def m b l x Let_def split_beta hpair_def)
next
  case False
  with settles_replies(3)[OF assms(1,2)] show ?thesis by (simp add: send_req_def)
qed

lemma settles_ready:
  assumes "s_forwarded s = Some ch" "ch < n_chan d" "s_launch s = None"
  shows "settles frame ch (s, d) (hpair (turnReady_req fwd frame ready s d))"
  using settles_replies(1)[OF assms(1,2)] assms(3) by (simp add: turnReady_req_def turnReady_def split_beta Let_def hpair_def)

text \<open>Parameters as \<open>DecodeParams\<close> returns them for the method.\<close>

definition typed :: "gostring \<Rightarrow> params \<Rightarrow> bool" where
  "typed method ps \<longleftrightarrow> DecodeParams method (Some ps) = Some ps"

lemma typed_codec: "typed m ps \<longleftrightarrow> (\<exists>spec. map_of methodCodecs m = Some spec \<and> ptype_of ps = mc_params spec)"
  by (auto simp: typed_def DecodeParams_def split: option.splits)

lemma codec_params:
  "map_option mc_params (map_of methodCodecs ''session.list'') = Some TpList" "map_option mc_params (map_of methodCodecs ''message.send'') = Some TpSend"
  "map_option mc_params (map_of methodCodecs ''lane.describe'') = Some TpDescribe" "map_option mc_params (map_of methodCodecs ''trace.configure'') = Some TpTrace"
  "map_option mc_params (map_of methodCodecs ''lane.spawn'') = Some TpSpawn" "map_option mc_params (map_of methodCodecs ''turn.run'') = Some TpRun"
  "map_option mc_params (map_of methodCodecs ''turn.start'') = Some TpRun" "map_option mc_params (map_of methodCodecs ''turn.status'') = Some TpRead"
  "map_option mc_params (map_of methodCodecs ''turn.wait'') = Some TpWait" "map_option mc_params (map_of methodCodecs ''turn.ack'') = Some TpRunRef"
  "map_option mc_params (map_of methodCodecs ''turn.ready'') = Some TpReady" "map_option mc_params (map_of methodCodecs ''turn.interrupt'') = Some TpTarget"
  "map_option mc_params (map_of methodCodecs ''session.close'') = Some TpClose"
  by (simp_all add: methodCodecs_def codec_def)

lemma typed_params: "typed m ps \<Longrightarrow> map_option mc_params (map_of methodCodecs m) = Some (ptype_of ps)"
  by (auto simp: typed_codec)

lemma settles_method:
  assumes "s_forwarded s = Some ch" "ch < n_chan d" "fwd_ok fwd" "d_host d \<noteq> []" "s_launch s = None" "typed (fr_Method frame) ps"
  shows "settles frame ch (s, d) (hpair (dispatchMethod fwd frame ps s d))"
proof -
  note t = typed_params[OF assms(6)]
  have 1: "settles frame ch (s, d) (hpair (case ps of PList i \<Rightarrow> list_req fwd frame i s d | _ \<Rightarrow> (s, panic d, [])))" if "fr_Method frame = ''session.list''"
    using t that codec_params(1) settles_list[OF assms(1-4)] by (cases ps) auto
  have 2: "settles frame ch (s, d) (hpair (case ps of PSend i \<Rightarrow> send_req fwd frame i s d | _ \<Rightarrow> (s, panic d, [])))" if "fr_Method frame = ''message.send''"
    using t that codec_params(2) settles_send[OF assms(1-4) that] by (cases ps) auto
  have 3: "settles frame ch (s, d) (hpair (case ps of PDescribe i \<Rightarrow> plain (describe frame i s d) | _ \<Rightarrow> (s, panic d, [])))" if "fr_Method frame = ''lane.describe''"
    using t that codec_params(3) settles_describe[OF assms(1,2)] by (cases ps) auto
  have 4: "settles frame ch (s, d) (hpair (case ps of PTrace i \<Rightarrow> plain (configureTrace frame i s d) | _ \<Rightarrow> (s, panic d, [])))" if "fr_Method frame = ''trace.configure''"
    using t that codec_params(4) settles_configureTrace[OF assms(1,2)] by (cases ps) auto
  have 5: "settles frame ch (s, d) (hpair (case ps of PSpawn i \<Rightarrow> plain (spawn frame i s d) | _ \<Rightarrow> (s, panic d, [])))" if "fr_Method frame = ''lane.spawn''"
    using t that codec_params(5) settles_spawn[OF assms(1,2)] by (cases ps) auto
  have 6: "settles frame ch (s, d) (hpair (case ps of PRun i \<Rightarrow> plain (route_req frame (tq_SessionID i) ps s d) | _ \<Rightarrow> (s, panic d, [])))" if "fr_Method frame = ''turn.run''"
    using t that codec_params(6) settles_route[OF assms(1,2)] by (cases ps) auto
  have 7: "settles frame ch (s, d) (hpair (case ps of PRun i \<Rightarrow> plain (route_req frame (tq_SessionID i) ps s d) | _ \<Rightarrow> (s, panic d, [])))" if "fr_Method frame = ''turn.start''"
    using t that codec_params(7) settles_route[OF assms(1,2)] by (cases ps) auto
  have 8: "settles frame ch (s, d) (hpair (case ps of PRead i \<Rightarrow> plain (route_req frame (rq_SessionID i) ps s d) | _ \<Rightarrow> (s, panic d, [])))" if "fr_Method frame = ''turn.status''"
    using t that codec_params(8) settles_route[OF assms(1,2)] by (cases ps) auto
  have 9: "settles frame ch (s, d) (hpair (case ps of PWait i \<Rightarrow> plain (route_req frame (wq_SessionID i) ps s d) | _ \<Rightarrow> (s, panic d, [])))" if "fr_Method frame = ''turn.wait''"
    using t that codec_params(9) settles_route[OF assms(1,2)] by (cases ps) auto
  have 10: "settles frame ch (s, d) (hpair (case ps of PRunRef i \<Rightarrow> plain (route_req frame (rr_SessionID i) ps s d) | _ \<Rightarrow> (s, panic d, [])))" if "fr_Method frame = ''turn.ack''"
    using t that codec_params(10) settles_route[OF assms(1,2)] by (cases ps) auto
  have 11: "settles frame ch (s, d) (hpair (case ps of PReady i \<Rightarrow> turnReady_req fwd frame i s d | _ \<Rightarrow> (s, panic d, [])))" if "fr_Method frame = ''turn.ready''"
    using t that codec_params(11) settles_ready[OF assms(1,2,5)] by (cases ps) auto
  have 12: "settles frame ch (s, d) (hpair (case ps of PTarget i \<Rightarrow> plain (route_req frame (st_SessionID i) ps s d) | _ \<Rightarrow> (s, panic d, [])))" if "fr_Method frame = ''turn.interrupt''"
    using t that codec_params(12) settles_route[OF assms(1,2)] by (cases ps) auto
  have 13: "settles frame ch (s, d) (hpair (case ps of PClose i \<Rightarrow> plain (route_req frame (sc_SessionID i) ps s d) | _ \<Rightarrow> (s, panic d, [])))" if "fr_Method frame = ''session.close''"
    using t that codec_params(13) settles_route[OF assms(1,2)] by (cases ps) auto
  note r = settles_replies(1)[OF assms(1,2), of frame InvalidFrame]
  show ?thesis unfolding dispatchMethod_def Let_def
    using 1 2 3 4 5 6 7 8 9 10 11 12 13 r by (simp split del: if_split split: if_split cong: if_weak_cong)
qed

lemma settles_dispatch:
  assumes "s_forwarded s = Some ch" "ch < n_chan d" "fwd_ok fwd" "d_host d \<noteq> []" "s_launch s = None" "typed (fr_Method frame) ps"
  shows "settles frame ch (s, d) (hpair (dispatchWith fwd frame ps s d))"
proof -
  have b: "settles frame ch (s, d) (dispatchBusy frame ps s d)"
  proof -
    obtain m d1 where m: "(if fr_Method frame = ''message.send'' then drawMessageID s d else ([], d)) = (m, d1)"
      by (cases "if fr_Method frame = ''message.send'' then drawMessageID s d else ([], d)")
    have "calm d (snd (if fr_Method frame = ''message.send'' then drawMessageID s d else ([], d)))" by (simp add: drawMessageID_def)
    then have k: "calm d d1" by (simp add: m)
    obtain s2 d2 where t: "beginTrace frame ps m s d1 = (s2, d2)" by (cases "beginTrace frame ps m s d1")
    obtain s3 d3 where l: "logRequest frame ps m s2 d2 = (s3, d3)" by (cases "logRequest frame ps m s2 d2")
    have st: "still (s, d) (s3, d3)"
      using still_trans[OF still_trans[OF still_calm[OF k] still_beginTrace[of s d1 frame ps m, unfolded t]] still_logRequest[of s2 d2 frame ps m, unfolded l]] .
    have c: "s_forwarded s3 = Some ch" "ch < n_chan d3" using still_chan[OF st assms(1,2)] by simp_all
    show ?thesis using settles_after[OF st settles_replies(3)[OF c, of frame Busy None]] assms(2)
      by (simp add: dispatchBusy_def m t l Let_def)
  qed
  obtain s1 d1 where x: "(if fr_Method frame \<noteq> ''message.send'' then logRequest frame ps [] s d else (s, d)) = (s1, d1)"
    by (cases "if fr_Method frame \<noteq> ''message.send'' then logRequest frame ps [] s d else (s, d)")
  have "still (s, d) (if fr_Method frame \<noteq> ''message.send'' then logRequest frame ps [] s d else (s, d))"
    using still_logRequest by simp
  then have st: "still (s, d) (s1, d1)" by (simp add: x)
  note c = still_chan[OF st assms(1,2)]
  have "settles frame ch (s1, d1) (hpair (dispatchMethod fwd frame ps s1 d1))"
    by (rule settles_method) (use c assms in simp_all)
  from settles_after[OF st this] assms(2) b show ?thesis unfolding dispatchWith_def x Let_def by simp
qed

section \<open>Forwarding nests at most once\<close>

lemma dispatchN_Suc: "dispatchN (Suc n) = dispatchWith (forwardLocalTrace (dispatchN n))"
  by (intro ext) simp

lemma forward_start:
  "calm d (snd (newEntry x ((snd (newChan d))\<lparr>n_session := k\<rparr>)))"
  "n_chan (snd (newEntry x ((snd (newChan d))\<lparr>n_session := k\<rparr>))) = Suc (n_chan d)"
proof -
  show "calm d (snd (newEntry x ((snd (newChan d))\<lparr>n_session := k\<rparr>)))" by (rule calm_trans[OF _ calm_upd(9)]) simp
  show "n_chan (snd (newEntry x ((snd (newChan d))\<lparr>n_session := k\<rparr>))) = Suc (n_chan d)" by (simp add: newEntry_def newChan_def)
qed

lemma flat_typed: "flat c d \<Longrightarrow> typed (lc_method c) (lc_params c)"
  using codec_params(1,2) by (auto simp: flat_def typed_codec)

lemma forward_calm:
  assumes "fwd_ok fwd" "d_host d \<noteq> []" "typed (lc_method c) (lc_params c)"
  shows "calm d (fst (snd (forwardLocalTrace (dispatchWith fwd) c d)))"
    "settles (localFrame (lc_method c)) (n_chan d)
       (localSession c (n_session d) (n_entry d) (n_chan d),
        snd (newEntry (zeroEntry\<lparr>e_peer := True, e_row := (e_row zeroEntry)\<lparr>r_SessionID := fc_SessionID (lc_from c),
             r_Name := fc_Name (lc_from c), r_Product := fc_Product (lc_from c), r_Groups := fc_Groups (lc_from c)\<rparr>\<rparr>)
             ((snd (newChan d))\<lparr>n_session := Suc (n_session d)\<rparr>)))
       (hd (snd (snd (forwardLocalTrace (dispatchWith fwd) c d))), fst (snd (forwardLocalTrace (dispatchWith fwd) c d)))"
proof -
  define e where "e = snd (newEntry (zeroEntry\<lparr>e_peer := True, e_row := (e_row zeroEntry)\<lparr>r_SessionID := fc_SessionID (lc_from c),
       r_Name := fc_Name (lc_from c), r_Product := fc_Product (lc_from c), r_Groups := fc_Groups (lc_from c)\<rparr>\<rparr>)
       ((snd (newChan d))\<lparr>n_session := Suc (n_session d)\<rparr>))"
  have k: "calm d e" "n_chan e = Suc (n_chan d)" unfolding e_def by (rule forward_start)+
  let ?s = "localSession c (n_session d) (n_entry d) (n_chan d)"
  have s: "s_forwarded ?s = Some (n_chan d)" "s_launch ?s = None" by (simp_all add: localSession_def newSession_def)
  have st: "settles (localFrame (lc_method c)) (n_chan d) (?s, e) (hpair (dispatchWith fwd (localFrame (lc_method c)) (lc_params c) ?s e))"
    by (rule settles_dispatch) (use s k assms calm_same[OF k(1)] in \<open>simp_all add: localFrame_def\<close>)
  have f: "forwardLocalTrace (dispatchWith fwd) c d = (n_session d,
      fst (snd (dispatchWith fwd (localFrame (lc_method c)) (lc_params c) ?s e)),
      fst (dispatchWith fwd (localFrame (lc_method c)) (lc_params c) ?s e) # snd (snd (dispatchWith fwd (localFrame (lc_method c)) (lc_params c) ?s e)))"
    by (simp add: forwardLocalTrace_def Let_def split_beta e_def newChan_def newEntry_def)
  have "calm e' (fst (snd (dispatchWith fwd (localFrame (lc_method c)) (lc_params c) ?s e)))" if "e' = d" for e'
    using st k that by (auto simp: settles_def calm_def hpair_def)
  then show "calm d (fst (snd (forwardLocalTrace (dispatchWith fwd) c d)))" unfolding f by simp
  show "settles (localFrame (lc_method c)) (n_chan d) (?s, snd (newEntry (zeroEntry\<lparr>e_peer := True, e_row := (e_row zeroEntry)\<lparr>r_SessionID := fc_SessionID (lc_from c),
             r_Name := fc_Name (lc_from c), r_Product := fc_Product (lc_from c), r_Groups := fc_Groups (lc_from c)\<rparr>\<rparr>)
             ((snd (newChan d))\<lparr>n_session := Suc (n_session d)\<rparr>)))
       (hd (snd (snd (forwardLocalTrace (dispatchWith fwd) c d))), fst (snd (forwardLocalTrace (dispatchWith fwd) c d)))"
    using st unfolding f e_def[symmetric] by (simp add: hpair_def)
qed

lemma aggregate_quiet:
  assumes "postAggregate frame call s (snd (newChan d)) = (code, s2, d2)" "code = 0"
  shows "calm d d2"
proof -
  have "calm d (snd (postFederation call (snd (newChan d))))" by (rule calm_trans[OF calm_upd(7) calm_more(4)])
  with assms show ?thesis by (auto simp: postAggregate_def split_beta Let_def split: if_splits)
qed

lemma aggregate_result:
  "\<exists>hosts d1 code s2 d2. newChan d = (hosts, d1) \<and> postAggregate frame (HostsCall hosts) s d1 = (code, s2, d2) \<and> (code = 0 \<longrightarrow> calm d d2)"
proof -
  obtain hosts d1 where nc: "newChan d = (hosts, d1)" by (cases "newChan d")
  obtain code s2 d2 where x: "postAggregate frame (HostsCall hosts) s (snd (newChan d)) = (code, s2, d2)"
    by (cases "postAggregate frame (HostsCall hosts) s (snd (newChan d))") auto
  from aggregate_quiet[OF x] x nc show ?thesis by auto
qed

lemma listFederated_eq:
  assumes "fwd_eq f g" "d_host d \<noteq> []"
  shows "listFederated f frame s d = listFederated g frame s d"
proof -
  obtain hosts d1 code s2 d2 where nc: "newChan d = (hosts, d1)"
    and x: "postAggregate frame (HostsCall hosts) s d1 = (code, s2, d2)" and c: "code = 0 \<Longrightarrow> calm d d2"
    using aggregate_result[of d frame s] by blast
  have "f (localList (federationCaller s2 d2) (s_identity s2) d2) d2 = g (localList (federationCaller s2 d2) (s_identity s2) d2) d2" if "code = 0"
    using assms calm_same[OF c[OF that]] by (simp add: fwd_eq_def flat_def localList_def)
  then show ?thesis by (simp add: listFederated_def nc x Let_def split_beta)
qed

lemma sendGroup_eq:
  assumes "fwd_eq f g" "d_host d \<noteq> []" "ms_Group input \<noteq> []" "fr_Method frame = ''message.send''"
  shows "sendGroup f frame input m caller s d = sendGroup g frame input m caller s d"
proof (cases "ms_Host input = []")
  case False
  with leg_eq[OF assms(1), of "ms_Host input" d input] show ?thesis by (simp add: sendGroup_def)
next
  case True
  obtain hosts d1 code s2 d2 where nc: "newChan d = (hosts, d1)"
    and x: "postAggregate frame (HostsCall hosts) s d1 = (code, s2, d2)" and c: "code = 0 \<Longrightarrow> calm d d2"
    using aggregate_result[of d frame s] by blast
  let ?c = "(localSend caller (input\<lparr>ms_Host := d_host d2\<rparr>) m s2)\<lparr>lc_method := ''message.send''\<rparr>"
  have "f ?c d2 = g ?c d2" if "code = 0"
    using assms group_flat[OF assms(3), of d2] calm_same[OF c[OF that]] by (simp add: fwd_eq_def flat_def localSend_def)
  then show ?thesis using True assms(4) by (simp add: sendGroup_def nc x Let_def split_beta)
qed

lemma sendFederated_eq:
  assumes "fwd_eq f g" "fwd_ok f" "d_host d \<noteq> []" "fr_Method frame = ''message.send''"
  shows "sendFederated f frame input m s d = sendFederated g frame input m s d"
proof (cases "ms_Group input = []")
  case False
  with sendGroup_eq[OF assms(1,3) False assms(4)] show ?thesis by (simp add: sendFederated_def)
next
  case True
  show ?thesis
  proof (cases "partitionLabels (validNamePart (d_hi d)) (d_host d) (sendLabels input) []")
    case (Some ps)
    have "sendLegs f caller m message ps s d = sendLegs g caller m message ps s d" for caller message
      using legs_ok[OF assms(2), of ps d caller m message s g] grouped_hosts partition_Some[OF Some] assms(1,3) by blast
    with True Some show ?thesis by (simp add: sendFederated_def)
  qed (simp add: True sendFederated_def)
qed

lemma ready_flat:
  assumes "turnReady frame ready s d = (s1, d1, Some (input, tr))"
  shows "flat_send input d'"
proof -
  have "ms_Group input = [] \<and> sendLabels input = [ms_Target input]"
    using assms by (auto simp: turnReady_def turnSettled_def notification_def sendLabels_def split_beta Let_def split: if_splits option.splits)
  then show ?thesis by (auto simp: flat_send_def)
qed

lemma dispatchWith_eq:
  assumes "fwd_eq f g" "fwd_ok f" "d_host d \<noteq> []"
  shows "dispatchWith f frame ps s d = dispatchWith g frame ps s d"
proof -
  have h: "d_host (snd (logRequest frame ps m t e)) = d_host e" "d_host (snd (beginTrace frame ps m t e)) = d_host e"
    "d_host (snd (drawMessageID t e)) = d_host e" for t e m
    using still_logRequest[of t e frame ps m] still_beginTrace[of t e frame ps m]
    by (simp_all add: still_def near_def calm_def drawMessageID_def drawID_def)
  have l: "list_req f frame i t e = list_req g frame i t e" if "d_host e \<noteq> []" for i t e
    unfolding list_req_def listFederated_eq[OF assms(1) that] by (rule refl)
  have sd: "send_req f frame i t e = send_req g frame i t e" if "fr_Method frame = ''message.send''" "d_host e \<noteq> []" "ps = PSend i" for i t e
    using sendFederated_eq[OF assms(1,2) _ that(1)] h that by (simp add: send_req_def Let_def split_beta)
  have r: "turnReady_req f frame i t e = turnReady_req g frame i t e" for i t e
  proof -
    obtain t1 e1 o' where o: "turnReady frame i t e = (t1, e1, o')" by (cases "turnReady frame i t e") auto
    show ?thesis
    proof (cases o')
      case (Some p)
      obtain input tr where p: "p = (input, tr)" by (cases p)
      have "flat_send input e1" using ready_flat o Some p by blast
      with assms(1) o Some p show ?thesis by (simp add: turnReady_req_def fwd_eq_def flat_def)
    qed (simp add: turnReady_req_def o)
  qed
  have m: "dispatchMethod f frame ps t e = dispatchMethod g frame ps t e" if "d_host e \<noteq> []" for t e
  proof -
    have "fr_Method frame = ''message.send'' \<Longrightarrow> (case ps of PSend i \<Rightarrow> send_req f frame i t e | _ \<Rightarrow> (t, panic e, []))
        = (case ps of PSend i \<Rightarrow> send_req g frame i t e | _ \<Rightarrow> (t, panic e, []))"
      using sd[OF _ that] by (cases ps) simp_all
    then show ?thesis unfolding dispatchMethod_def l[OF that] r Let_def by (simp cong: if_cong)
  qed
  show ?thesis using m h assms(3) by (simp add: dispatchWith_def split_beta Let_def)
qed

lemma forward_ok: "fwd_ok (forwardLocalTrace (dispatchN (Suc n)))" "fwd_eq (forwardLocalTrace (dispatchN (Suc n))) (forwardLocalTrace (dispatchN 1))"
proof -
  let ?none = "\<lambda>c d. (0, d, []) :: ptr \<times> daemon \<times> session list"
  have n: "fwd_ok ?none" by (simp add: fwd_ok_def)
  have e: "forwardLocalTrace (dispatchN (Suc k)) c d = forwardLocalTrace (dispatchWith ?none) c d" if "flat c d" for k c d
    unfolding dispatchN_Suc by (rule flat_forward[OF that])
  show "fwd_ok (forwardLocalTrace (dispatchN (Suc n)))"
    unfolding fwd_ok_def using forward_calm(1)[OF n _ flat_typed] e by metis
  show "fwd_eq (forwardLocalTrace (dispatchN (Suc n))) (forwardLocalTrace (dispatchN 1))"
    using e[of _ _ n] e[of _ _ 0] by (simp add: fwd_eq_def)
qed

text \<open>
  C26: a request the daemon forwards to a session of its own never forwards twice: on a daemon with
  a host name the dispatch of any request with a nesting bound of two gives the result of every
  larger bound, so the recursion of \<open>dispatchRequest\<close> through \<open>forwardLocalTrace\<close> ends.
\<close>

theorem dispatch_nesting:
  assumes "d_host d \<noteq> []"
  shows "dispatchN (n + 2) frame ps s d = dispatchRequest frame ps s d"
  using dispatchWith_eq[OF forward_ok(2,1)[of n] assms, of frame ps s]
  by (simp add: dispatchRequest_def numeral_2_eq_2)

theorem dispatch_nesting_witness:
  "d_host (emptyDaemon ''h'') \<noteq> [] \<and> dispatchN 7 demo_frame (PSend demo_message) (newSession 0) (emptyDaemon ''h'')
     = dispatchRequest demo_frame (PSend demo_message) (newSession 0) (emptyDaemon ''h'')"
  using dispatch_nesting[of "emptyDaemon ''h''" 5 demo_frame "PSend demo_message" "newSession 0"] by (simp add: emptyDaemon_def)

end
