(* ===== verification/Relay.thy ===== *)
theory Relay
  imports Forwarded
begin

text \<open>
  A forwarded request from its start (\<open>forwardLocalTrace\<close>) to its end (the loop of the function it
  returns): the session, the daemon and the goroutines that have not reported yet. Every goroutine
  reports once; \<open>consumeReply\<close> takes the reports in any order while other goroutines
  use other channels.
\<close>

section \<open>Reports\<close>

text \<open>
  What a goroutine can report: the schema of errors has no code zero, so a remote answer with code
  zero has a result of its method's type.
\<close>

fun report :: "task \<Rightarrow> answer \<Rightarrow> bool" where
  "report (TAwaitRemote k leg m ch p) a \<longleftrightarrow>
     a = codeAnswer NotConnected \<or> (\<exists>reply. a = remoteAnswer m reply \<and> (\<forall>e. rp_Error reply = Some e \<longrightarrow> er_Code e \<noteq> 0))"
| "report t a \<longleftrightarrow> True"

lemma report_list:
  assumes "report (TAwaitRemote k leg ''session.list'' ch p) a" "an_code a = 0"
  shows "\<exists>l. an_value a = Some (VList l)"
proof -
  obtain reply where a: "a = remoteAnswer ''session.list'' reply" and e: "\<forall>e. rp_Error reply = Some e \<longrightarrow> er_Code e \<noteq> 0"
    using assms by (auto simp: codeAnswer_def )
  have "rp_Error reply = None" using assms(2) e unfolding a by (auto simp: remoteAnswer_def Let_def split: option.splits)
  moreover have "DecodeResult ''session.list'' (rp_Result reply) \<noteq> None"
    using assms(2) calculation unfolding a by (auto simp: remoteAnswer_def codeAnswer_def  split: option.splits)
  ultimately obtain v where v: "an_value a = Some v" "DecodeResult ''session.list'' (rp_Result reply) = Some v"
    unfolding a by (auto simp: remoteAnswer_def)
  have "rtype_of v = rtype_of (VList l)" for l
    using DecodeResult_type[OF v(2)] by (auto simp: methodCodecs_def codec_def)
  with v(1) show ?thesis by (cases v) auto
qed

section \<open>Consuming a report\<close>

lemma gm_single [simp]: "gm_get [(k, st)] k = Some st" "gm_del k [(k, st)] = []" "gm_set k st' [(k, st)] = [(k, st')]"
  by (simp_all add: gm_get_def gm_del_def gm_set_def)

lemma replied_remote: "s_forwarded s = Some ch \<Longrightarrow> replied ch (s, d) (s, remoteResponse frame reply s d)"
  by (simp add: replied_def remoteResponse_def sent_def)

lemma replied_settleRequest:
  assumes "s_forwarded s = Some ch" "an_code a = 0 \<and> rt_selfInfo st \<noteq> None \<longrightarrow> (\<exists>l. an_value a = Some (VList l))"
  shows "replied ch (s\<lparr>s_requests := gm_del k (s_requests s)\<rparr>, d) (settleRequest k st a s d)"
proof -
  let ?f = "rt_frame st" and ?s0 = "s\<lparr>s_requests := gm_del k (s_requests s)\<rparr>"
  obtain s1 d1 where l: "logResult ?f (an_value a) (an_code a) ?s0 d = (s1, d1)" by (cases "logResult ?f (an_value a) (an_code a) ?s0 d")
  obtain s2 d2 where t: "finishTrace ?f (an_value a) (an_code a) (an_trace a) s1 d1 = (s2, d2)"
    by (cases "finishTrace ?f (an_value a) (an_code a) (an_trace a) s1 d1")
  have "still (?s0, d) (s1, d1)" "still (s1, d1) (s2, d2)"
    using still_logResult[of ?s0 d ?f "an_value a" "an_code a"] still_hushed[OF hushed_finishTrace[of s1 d1 ?f "an_value a" "an_code a" "an_trace a"]]
    by (simp_all add: l t)
  then have st: "still (?s0, d) (s2, d2)" by (rule still_trans)
  then have f: "s_forwarded s2 = Some ch" using assms(1) by (simp add: still_def near_def)
  have "replied ch (s2, d2) (settleRequest k st a s d)"
    using assms(2) replied_remote[OF f] replied_replies[OF f] unfolding settleRequest_def Let_def l t
    by (auto simp: l t split: option.split result.split)
  then show ?thesis by (rule replied_after[OF st])
qed

text \<open>
  The one request of a forwarded session is answered by the report that completes it, and the others
  only take their goroutine off.
\<close>

definition reported :: "ptr \<Rightarrow> int \<Rightarrow> task list \<Rightarrow> daemon \<Rightarrow> session \<times> daemon \<Rightarrow> bool" where
  "reported ch k ts d y \<longleftrightarrow> s_forwarded (fst y) = Some ch \<and> n_chan d \<le> n_chan (snd y)
     \<and> (s_requests (fst y) = [] \<and> sent ch (snd y) = Suc (sent ch d) \<and> ts = []
        \<or> (\<exists>st. s_requests (fst y) = [(k, st)] \<and> sent ch (snd y) = sent ch d \<and> waits k st ts))"

lemma reported_replied:
  assumes "replied ch (s, d) y" "s_requests s = []" "ch < n_chan d"
  shows "reported ch k [] d y"
  using assms by (auto simp: replied_def reported_def)

lemma reported_settle:
  assumes "s_forwarded s = Some ch" "ch < n_chan d" "s_requests s = [(k, st)]"
    "an_code a = 0 \<and> rt_selfInfo st \<noteq> None \<longrightarrow> (\<exists>l. an_value a = Some (VList l))"
  shows "reported ch k [] d (settleRequest k st a s d)" "s_requests (fst (settleRequest k st a s d)) = []"
proof -
  have r: "replied ch (s\<lparr>s_requests := []\<rparr>, d) (settleRequest k st a s d)"
    using replied_settleRequest[OF assms(1,4), of k d] assms(3) by simp
  show "reported ch k [] d (settleRequest k st a s d)" by (rule reported_replied[OF r]) (simp_all add: assms(2))
  show "s_requests (fst (settleRequest k st a s d)) = []" using r by (simp add: replied_def)
qed

lemma reported_finish:
  assumes "s_forwarded s = Some ch" "ch < n_chan d" "s_requests s = [(k, st)]"
    "an_code a = 0 \<and> rt_selfInfo st \<noteq> None \<longrightarrow> (\<exists>l. an_value a = Some (VList l))"
  shows "reported ch k [] d (finishRequest k st a s d)"
  using reported_settle[OF assms] by (simp add: finishRequest_def split_beta Let_def)

lemma waits_rest:
  assumes "waits k st ts" "t \<in> set ts" "fr_Method (rt_frame st) = ''message.send''" "\<not> rt_aggregate st" "rt_pending st \<noteq> 1"
    "length ds = length (rt_deliveries st)"
  shows "waits k (st\<lparr>rt_deliveries := ds, rt_pending := rt_pending st - 1\<rparr>) (remove1 t ts)"
proof -
  have p: "rt_pending st = int (length ts)" "rt_selfInfo st = None" using assms(1,3,4) by (auto simp: waits_def)
  have l: "int (length (remove1 t ts)) = int (length ts) - 1" "0 < length ts" using assms(2) length_remove1[of t ts] by (cases ts; auto)+
  then have "remove1 t ts \<noteq> []" using p assms(5) by (cases ts) auto
  then show ?thesis using assms(1,3,4,6) p l set_remove1_subset[of t ts] by (auto simp: waits_def)
qed

lemma consume_report:
  assumes "s_forwarded s = Some ch" "ch < n_chan d" "s_requests s = [(k, st)]" "waits k st ts" "t \<in> set ts"
    "task_key t = Some (k, leg)" "report t a"
  shows "reported ch k (remove1 t ts) d (consumeReply k leg a s d)"
proof (cases "fr_Method (rt_frame st) = ''message.send'' \<and> \<not> rt_aggregate st")
  case True
  have leg: "leg < length (rt_deliveries st)" and p: "rt_pending st = int (length ts)" using assms(4-6) True by (auto simp: waits_def)
  have l: "length (remove1 t ts) = length ts - 1" "0 < length ts" using assms(5) length_remove1[of t ts] by auto
  show ?thesis
  proof (cases "rt_pending st = 1")
    case one: True
    let ?s = "s\<lparr>s_owned := (if s_owned s > 0 then s_owned s - 1 else s_owned s), s_requests := []\<rparr>"
    have "reported ch k [] d (result_reply f v ?s d)" for f v
      by (rule reported_replied[OF replied_replies(2)]) (simp_all add: assms(1,2))
    moreover have "remove1 t ts = []" using one p l by simp
    ultimately show ?thesis using True leg one assms(3) by (simp add: consumeReply_def Let_def)
  next
    case False
    with True leg assms(1,3) waits_rest[OF assms(4,5) _ _ False] show ?thesis
      by (simp add: consumeReply_def Let_def reported_def)
  qed
next
  case False
  have one: "remove1 t ts = []" using assms(4,5) False by (auto simp: waits_def length_Suc_conv)
  have v: "an_code a = 0 \<and> rt_selfInfo st \<noteq> None \<longrightarrow> (\<exists>l. an_value a = Some (VList l))"
    using assms(4,5,7) report_list by (auto simp: waits_def)
  let ?s = "s\<lparr>s_owned := (if s_owned s > 0 then s_owned s - 1 else s_owned s)\<rparr>"
  have "reported ch k [] d (finishRequest k st a ?s d)" by (rule reported_finish) (use assms(1-3) v in simp_all)
  moreover have "\<not> runPending (rt_target st) (rt_targetID st) ?s" if "fr_Method (rt_frame st) = ''session.close''"
    using that assms(3) by (simp add: runPending_def)
  ultimately show ?thesis using False assms(3) one by (auto simp: consumeReply_def Let_def)
qed

section \<open>The system\<close>

record relay =
  ry_s :: session
  ry_d :: daemon
  ry_tasks :: "task list"

text \<open>It starts with the request of any caller, dispatched on a daemon with a host name; \<open>ch\<close> is its reply channel.\<close>

definition relay_init :: "ptr \<Rightarrow> relay \<Rightarrow> bool" where
  "relay_init ch x \<longleftrightarrow> (\<exists>c d. d_host d \<noteq> [] \<and> typed (lc_method c) (lc_params c) \<and> ch = n_chan d \<and> sent ch d = 0
     \<and> (\<exists>p subs. forwardLocalTrace dispatchRequest c d = (p, ry_d x, ry_s x # subs)) \<and> ry_tasks x = s_tasks (ry_s x))"

inductive relay_step :: "ptr \<Rightarrow> relay \<Rightarrow> relay \<Rightarrow> bool" for ch :: ptr where
  ry_report: "t \<in> set (ry_tasks x) \<Longrightarrow> task_key t = Some (k, leg) \<Longrightarrow> report t a \<Longrightarrow> consumeReply k leg a (ry_s x) (ry_d x) = (s', d') \<Longrightarrow>
     relay_step ch x (x\<lparr>ry_s := s', ry_d := d', ry_tasks := remove1 t (ry_tasks x)\<rparr>)"
| ry_other: "n_chan (ry_d x) \<le> n_chan d' \<Longrightarrow> sent ch d' = sent ch (ry_d x) \<Longrightarrow> relay_step ch x (x\<lparr>ry_d := d'\<rparr>)"

definition relay_inv :: "ptr \<Rightarrow> relay \<Rightarrow> bool" where
  "relay_inv ch x \<longleftrightarrow> s_forwarded (ry_s x) = Some ch \<and> ch < n_chan (ry_d x)
     \<and> (s_requests (ry_s x) = [] \<and> sent ch (ry_d x) = 1 \<and> ry_tasks x = []
        \<or> (\<exists>st. s_requests (ry_s x) = [(1, st)] \<and> sent ch (ry_d x) = 0 \<and> waits 1 st (ry_tasks x)))"

lemma relay_inv_init:
  assumes "relay_init ch x"
  shows "relay_inv ch x"
proof -
  obtain c d p subs where h: "d_host d \<noteq> []" "typed (lc_method c) (lc_params c)" "ch = n_chan d" "sent ch d = 0"
    and r: "forwardLocalTrace dispatchRequest c d = (p, ry_d x, ry_s x # subs)" and ts: "ry_tasks x = s_tasks (ry_s x)"
    using assms by (auto simp: relay_init_def)
  have D: "dispatchRequest = dispatchWith (forwardLocalTrace (dispatchN 1))"
    by (simp add: dispatchRequest_def numeral_2_eq_2 dispatchN_Suc)
  have ok: "fwd_ok (forwardLocalTrace (dispatchN 1))" using forward_ok(1)[of 0] by simp
  define s0 where "s0 = localSession c (n_session d) (n_entry d) (n_chan d)"
  define e where "e = snd (newEntry (zeroEntry\<lparr>e_peer := True, e_row := (e_row zeroEntry)\<lparr>r_SessionID := fc_SessionID (lc_from c),
       r_Name := fc_Name (lc_from c), r_Product := fc_Product (lc_from c), r_Groups := fc_Groups (lc_from c)\<rparr>\<rparr>)
       ((snd (newChan d))\<lparr>n_session := Suc (n_session d)\<rparr>))"
  have e: "n_chan e = Suc (n_chan d)" "sent c e = sent c d" for c
    by (simp_all add: e_def newEntry_def newChan_def sent_def)
  have st: "settles (localFrame (lc_method c)) (n_chan d) (s0, e) (ry_s x, ry_d x)"
    using forward_calm(2)[OF ok h(1,2)] r unfolding D s0_def e_def by simp
  have "s_requests s0 = []" "s_tasks s0 = []" by (simp_all add: s0_def localSession_def newSession_def)
  then show ?thesis using st e h(3,4) ts by (auto simp: settles_def relay_inv_def localFrame_def gm_set_def)
qed

interpretation relays: transition_system "relay_init ch" "relay_step ch" "relay_inv ch" for ch
proof unfold_locales
  show "relay_init ch x \<Longrightarrow> relay_inv ch x" for x by (rule relay_inv_init)
  show "relay_inv ch y" if "relay_inv ch x" "relay_step ch x y" for x y
    using that(2,1)
  proof (induction rule: relay_step.induct)
    case (ry_report t x k leg a s' d')
    then obtain st where st: "s_requests (ry_s x) = [(1, st)]" "sent ch (ry_d x) = 0" "waits 1 st (ry_tasks x)"
      by (auto simp: relay_inv_def)
    have "k = 1" using st(3) ry_report(1,2) by (auto simp: waits_def)
    then have "reported ch 1 (remove1 t (ry_tasks x)) (ry_d x) (s', d')"
      using consume_report[OF _ _ st(1,3) ry_report(1), of ch "ry_d x" leg a] ry_report by (simp add: relay_inv_def)
    with ry_report(5) st(2) show ?case by (auto simp: relay_inv_def reported_def)
  next
    case (ry_other x d')
    then show ?case by (auto simp: relay_inv_def)
  qed
qed

text \<open>
  C5: a request run for another caller, whatever its method and however the reports of the goroutines
  it waits for interleave with the rest of the daemon, has sent no reply while a goroutine is still to
  report and exactly one reply on its channel once all have reported.
\<close>

theorem forwarded_answered_once:
  assumes "reach (relay_init ch) (relay_step ch) x"
  shows "count_list (map fst (d_fedReplies (ry_d x))) ch = (if ry_tasks x = [] then 1 else 0)"
  using relays.reach_inv[OF assms] by (auto simp: relay_inv_def waits_def sent_def)

definition demo_call :: localCall where
  "demo_call = \<lparr>lc_from = \<lparr>fc_OwnerLifetime = ''o'', fc_SourceAttachment = [], fc_SessionID = ''a@g'', fc_Name = ''n@g'', fc_Product = ''p'',
      fc_PrivateGroup = [], fc_Groups = []\<rparr>, lc_omit = None, lc_method = ''session.list'', lc_params = PList \<lparr>sl_SessionID = [], sl_Host = ''x''\<rparr>,
      lc_messageID = [], lc_collect = False, lc_copy = None, lc_completion = False\<rparr>"

definition demo_linked :: daemon where
  "demo_linked = (emptyDaemon ''h'')\<lparr>d_federation := Some \<lparr>fl_roster = True, fl_inbox = [], fl_cancelled = False\<rparr>\<rparr>"

definition demo_relay :: relay where
  "demo_relay = (let r = forwardLocalTrace dispatchRequest demo_call demo_linked
     in \<lparr>ry_s = hd (snd (snd r)), ry_d = fst (snd r), ry_tasks = s_tasks (hd (snd (snd r)))\<rparr>)"

definition demo_answered :: relay where
  "demo_answered = (let y = consumeReply 1 0 (codeAnswer NotConnected) (ry_s demo_relay) (ry_d demo_relay)
     in demo_relay\<lparr>ry_s := fst y, ry_d := snd y, ry_tasks := tl (ry_tasks demo_relay)\<rparr>)"

lemma demo_relay_tasks: "ry_tasks demo_relay = [TAwaitRemote 1 0 ''session.list'' 1 (Some 0)]"
  by (simp add: demo_relay_def demo_call_def demo_linked_def forwardLocalTrace_def dispatchRequest_def numeral_2_eq_2 dispatchWith_def dispatchMethod_def list_req_def
    forward_def postCallerForward_def postFederation_def offerFederation_def localFrame_def localSession_def newSession_def newChan_def newEntry_def emptyDaemon_def
    logRequest_def awaitRemote_def start_task_def register_def Let_def federationCaller_def)

lemma demo_relay_init: "relay_init 0 demo_relay"
proof -
  have h: "d_host demo_linked \<noteq> []" "n_chan demo_linked = 0" "sent 0 demo_linked = 0" by (simp_all add: demo_linked_def emptyDaemon_def sent_def)
  have t: "typed (lc_method demo_call) (lc_params demo_call)" using codec_params(1) by (force simp: typed_codec demo_call_def)
  have "snd (snd (forwardLocalTrace dispatchRequest demo_call demo_linked)) \<noteq> []" by (simp add: forwardLocalTrace_def Let_def split_beta)
  then have "\<exists>p subs. forwardLocalTrace dispatchRequest demo_call demo_linked = (p, ry_d demo_relay, ry_s demo_relay # subs)"
    by (cases "forwardLocalTrace dispatchRequest demo_call demo_linked") (auto simp: demo_relay_def neq_Nil_conv)
  moreover have "ry_tasks demo_relay = s_tasks (ry_s demo_relay)" by (simp add: demo_relay_def Let_def)
  ultimately show ?thesis unfolding relay_init_def using h t by metis
qed

theorem forwarded_answered_once_witness:
  "reach (relay_init 0) (relay_step 0) demo_answered \<and> count_list (map fst (d_fedReplies (ry_d demo_relay))) 0 = 0
     \<and> count_list (map fst (d_fedReplies (ry_d demo_answered))) 0 = 1"
proof -
  have r: "reach (relay_init 0) (relay_step 0) demo_relay" by (rule reach_init) (rule demo_relay_init)
  obtain s' d' where y: "consumeReply 1 0 (codeAnswer NotConnected) (ry_s demo_relay) (ry_d demo_relay) = (s', d')"
    by (cases "consumeReply 1 0 (codeAnswer NotConnected) (ry_s demo_relay) (ry_d demo_relay)")
  have "relay_step 0 demo_relay (demo_relay\<lparr>ry_s := s', ry_d := d', ry_tasks := remove1 (TAwaitRemote 1 0 ''session.list'' 1 (Some 0)) (ry_tasks demo_relay)\<rparr>)"
    by (rule ry_report[OF _ _ _ y]) (simp_all add: demo_relay_tasks)
  then have a: "reach (relay_init 0) (relay_step 0) demo_answered" "ry_tasks demo_answered = []"
    using reach_step[OF r] by (simp_all add: demo_answered_def y demo_relay_tasks)
  show ?thesis using forwarded_answered_once[OF r] forwarded_answered_once[OF a(1)] a by (simp add: demo_relay_tasks)
qed

end
