(* ===== verification/Schema.thy ===== *)
theory Schema
  imports Complex_Main Naming
begin

text \<open>
  The validator of the wire schema (\<open>bus/sdk/go/protocol/validate.go\<close>): every frame a daemon,
  a peer or the hub decodes or encodes passes it. A schema is itself a decoded JSON value, so rules
  are looked up by keyword in a map. \<open>schemaIssue\<close> follows references of the schema, so its
  recursion is bounded by fuel; \<open>fits\<close> says when the fuel is enough, whatever the value.
\<close>

section \<open>Decoded JSON\<close>

text \<open>
  What \<open>json.Unmarshal\<close> puts into an \<open>any\<close>. A number is a \<open>float64\<close>, which is a rational.
\<close>

datatype jany =
    ANull
  | ABool bool
  | ANum rat
  | AStr gostring
  | AArr "jany list"
  | AObj "(gostring \<times> jany) list"

type_synonym schemaNode = "(gostring, jany) gomap"

text \<open>\<open>reflect.DeepEqual\<close>: maps are compared without order.\<close>

fun deepEqual :: "jany \<Rightarrow> jany \<Rightarrow> bool" where
  "deepEqual (AArr xs) w = (case w of AArr ys \<Rightarrow> list_all2 deepEqual xs ys | _ \<Rightarrow> False)"
| "deepEqual (AObj m) w =
     (case w of AObj m' \<Rightarrow> length m = length m'
        \<and> list_all (\<lambda>(k, v). case gm_get m' k of None \<Rightarrow> False | Some v' \<Rightarrow> deepEqual v v') m
      | _ \<Rightarrow> False)"
| "deepEqual v w \<longleftrightarrow> v = w"

section \<open>Reading a rule\<close>

definition node :: "jany \<Rightarrow> schemaNode" where
  "node v = (case v of AObj m \<Rightarrow> m | _ \<Rightarrow> [])"

definition number :: "schemaNode \<Rightarrow> gostring \<Rightarrow> rat" where
  "number rule name = (case gm_get rule name of Some (ANum n) \<Rightarrow> n | _ \<Rightarrow> 0)"

definition has :: "schemaNode \<Rightarrow> gostring \<Rightarrow> bool" where
  "has rule name \<longleftrightarrow> gm_get rule name \<noteq> None"

definition contains :: "jany list \<Rightarrow> jany \<Rightarrow> bool" where
  "contains values target = list_ex (\<lambda>v. deepEqual v target) values"

definition stringsOf :: "jany option \<Rightarrow> gostring list" where
  "stringsOf v = (case v of Some (AArr xs) \<Rightarrow> map (\<lambda>x. case x of AStr s \<Rightarrow> s | _ \<Rightarrow> []) xs | _ \<Rightarrow> [])"

definition validType :: "gostring \<Rightarrow> jany \<Rightarrow> bool" where
  "validType kind value =
     (if kind = ''object'' then (case value of AObj _ \<Rightarrow> True | _ \<Rightarrow> False)
      else if kind = ''array'' then (case value of AArr _ \<Rightarrow> True | _ \<Rightarrow> False)
      else if kind = ''string'' then (case value of AStr _ \<Rightarrow> True | _ \<Rightarrow> False)
      else if kind = ''boolean'' then (case value of ABool _ \<Rightarrow> True | _ \<Rightarrow> False)
      else if kind = ''integer'' then (case value of ANum n \<Rightarrow> of_int \<lfloor>n\<rfloor> = n | _ \<Rightarrow> False)
      else False)"

definition childPath :: "gostring \<Rightarrow> gostring \<Rightarrow> gostring" where
  "childPath path name = (if path = [] then name else path @ CHR ''.'' # name)"

definition indexPath :: "gostring \<Rightarrow> nat \<Rightarrow> gostring" where
  "indexPath path i = path @ CHR ''['' # formatUint i @ '']''"

text \<open>
  \<open>regexp.MatchString\<close> for the two patterns of the schema: a host name, and a name of letters,
  marks, numbers, punctuation, symbols and spaces. The printable runes are the letters, marks,
  numbers, punctuation and symbols with the ASCII space.
\<close>

definition hostPattern :: gostring where
  "hostPattern = ''^[a-z0-9][a-z0-9-]{0,31}$''"

definition namePattern :: gostring where
  "namePattern =
     ''^['' @ concat (map (\<lambda>c. CHR 0x5C # ''p{'' @ c @ ''}'') [''L'', ''M'', ''N'', ''P'', ''S'', ''Zs'']) @ '']+$''"

definition spaceSeparator :: "nat \<Rightarrow> bool" where
  "spaceSeparator r \<longleftrightarrow> r = 32 \<or> r = 160 \<or> r = 5760 \<or> (8192 \<le> r \<and> r \<le> 8202) \<or> r = 8239 \<or> r = 8287 \<or> r = 12288"

definition matchString :: "(nat \<Rightarrow> bool) \<Rightarrow> gostring \<Rightarrow> gostring \<Rightarrow> bool" where
  "matchString hi pattern s =
     (if pattern = hostPattern then validHost s
      else if pattern = namePattern then s \<noteq> [] \<and> (\<forall>r \<in> set (runes s). isPrint hi r \<or> spaceSeparator r)
      else False)"

text \<open>\<open>utf8.ValidString\<close>: no byte decodes to the error rune of width one.\<close>

fun validBytes :: "nat list \<Rightarrow> bool" where
  "validBytes [] = True"
| "validBytes (b # bs) = (let (r, k) = decodeRune b bs in (b < 128 \<or> k \<noteq> 0) \<and> validBytes (drop k bs))"

definition validString :: "gostring \<Rightarrow> bool" where
  "validString s = validBytes (map of_char s)"

section \<open>The validator\<close>

text \<open>The message of an issue, as the values it is printed from; the first argument is the location.\<close>

datatype complaint =
    MustBe gostring gostring
  | MustEqual gostring jany
  | NotOneOf gostring
  | NotUTF8 gostring
  | TooShort gostring rat
  | TooLong gostring rat
  | NoMatch gostring gostring
  | TooSmall gostring rat
  | TooLarge gostring rat
  | NotGreater gostring rat
  | IsRequired gostring
  | FewProperties gostring rat
  | NotAllowed gostring
  | Duplicate gostring
  | NotAllowedWith gostring gostring
  | Excluded gostring

text \<open>
  \<open>verdict\<close>: \<open>None\<close> is no result (fuel), \<open>Some None\<close> the empty string, \<open>Some (Some i)\<close> an issue. The
  checks of \<open>schemaIssue\<close> run in order and the first issue ends it.
\<close>

type_synonym verdict = "complaint option option"

definition orElse :: "verdict \<Rightarrow> verdict \<Rightarrow> verdict" where
  "orElse a b = (case a of None \<Rightarrow> None | Some (Some i) \<Rightarrow> Some (Some i) | Some None \<Rightarrow> b)"

fun firstIssue :: "verdict list \<Rightarrow> verdict" where
  "firstIssue [] = Some None"
| "firstIssue (v # vs) = orElse v (firstIssue vs)"

definition check_that :: "bool \<Rightarrow> complaint \<Rightarrow> verdict" where
  "check_that ok i = Some (if ok then None else Some i)"

definition basicIssue :: "schemaNode \<Rightarrow> jany \<Rightarrow> gostring \<Rightarrow> verdict" where
  "basicIssue rule value path = firstIssue
     [case gm_get rule ''type'' of Some (AStr kind) \<Rightarrow> check_that (validType kind value) (MustBe path kind) | _ \<Rightarrow> Some None,
      case gm_get rule ''const'' of Some expected \<Rightarrow> check_that (deepEqual value expected) (MustEqual path expected) | None \<Rightarrow> Some None,
      case gm_get rule ''enum'' of Some (AArr vs) \<Rightarrow> check_that (contains vs value) (NotOneOf path) | _ \<Rightarrow> Some None]"

definition stringIssue :: "(nat \<Rightarrow> bool) \<Rightarrow> schemaNode \<Rightarrow> jany \<Rightarrow> gostring \<Rightarrow> verdict" where
  "stringIssue hi rule value path =
     (case value of
        AStr s \<Rightarrow>
          let len = rat_of_nat (runeCount s) in firstIssue
            [check_that (validString s) (NotUTF8 path),
             check_that (\<not> len < number rule ''minLength'') (TooShort path (number rule ''minLength'')),
             check_that (\<not> (has rule ''maxLength'' \<and> len > number rule ''maxLength'')) (TooLong path (number rule ''maxLength'')),
             case gm_get rule ''pattern'' of Some (AStr p) \<Rightarrow> check_that (matchString hi p s) (NoMatch path p) | _ \<Rightarrow> Some None]
      | _ \<Rightarrow> Some None)"

definition numberIssue :: "schemaNode \<Rightarrow> jany \<Rightarrow> gostring \<Rightarrow> verdict" where
  "numberIssue rule value path =
     (case value of
        ANum n \<Rightarrow> firstIssue
          [check_that (\<not> (has rule ''minimum'' \<and> n < number rule ''minimum'')) (TooSmall path (number rule ''minimum'')),
           check_that (\<not> (has rule ''maximum'' \<and> n > number rule ''maximum'')) (TooLarge path (number rule ''maximum'')),
           check_that (\<not> (has rule ''exclusiveMinimum'' \<and> n \<le> number rule ''exclusiveMinimum''))
             (NotGreater path (number rule ''exclusiveMinimum''))]
      | _ \<Rightarrow> Some None)"

definition requiredIssue :: "schemaNode \<Rightarrow> (gostring, jany) gomap \<Rightarrow> gostring \<Rightarrow> verdict" where
  "requiredIssue rule obj path = orElse
     (firstIssue (map (\<lambda>name. check_that (gm_get obj name \<noteq> None) (IsRequired (childPath path name))) (stringsOf (gm_get rule ''required''))))
     (check_that (\<not> rat_of_nat (length obj) < number rule ''minProperties'') (FewProperties path (number rule ''minProperties'')))"

definition uniqueIssue :: "schemaNode \<Rightarrow> jany list \<Rightarrow> gostring \<Rightarrow> verdict" where
  "uniqueIssue rule xs path =
     (if gm_get rule ''uniqueItems'' = Some (ABool True)
      then firstIssue (map (\<lambda>i. check_that (\<not> contains (take i xs) (xs ! i)) (Duplicate (indexPath path i))) [0..<length xs])
      else Some None)"

definition excludedIssue :: "schemaNode \<Rightarrow> gostring \<Rightarrow> gostring \<Rightarrow> complaint" where
  "excludedIssue child path with' =
     (case stringsOf (gm_get child ''required'') of
        [name] \<Rightarrow> if with' \<noteq> [] then NotAllowedWith (childPath path name) with' else NotAllowed (childPath path name)
      | _ \<Rightarrow> Excluded path)"

text \<open>\<open>strings.TrimPrefix (ref, "#/$defs/")\<close> and the lookup of the definition.\<close>

definition refName :: "gostring \<Rightarrow> gostring" where
  "refName ref = (if take 8 ref = ''#/$defs/'' then drop 8 ref else ref)"

definition refNode :: "schemaNode \<Rightarrow> gostring \<Rightarrow> schemaNode" where
  "refNode defs ref = (case gm_get defs (refName ref) of None \<Rightarrow> [] | Some v \<Rightarrow> node v)"

text \<open>The keywords that apply other rules take the recursive call as their first argument.\<close>

type_synonym validator = "schemaNode \<Rightarrow> jany \<Rightarrow> gostring \<Rightarrow> gostring \<Rightarrow> verdict"

definition property :: "schemaNode \<Rightarrow> gostring \<Rightarrow> jany option" where
  "property rule name = gm_get (case gm_get rule ''properties'' of Some (AObj ps) \<Rightarrow> ps | _ \<Rightarrow> []) name"

definition memberIssue :: "validator \<Rightarrow> schemaNode \<Rightarrow> gostring \<Rightarrow> gostring \<Rightarrow> gostring \<times> jany \<Rightarrow> verdict" where
  "memberIssue check rule path with' member =
     (let (name, child) = member in
      case property rule name of
        None \<Rightarrow> check_that (gm_get rule ''additionalProperties'' \<noteq> Some (ABool False)) (NotAllowed (childPath path name))
      | Some schema \<Rightarrow> check (node schema) child (childPath path name) with')"

definition objectIssue :: "validator \<Rightarrow> validator" where
  "objectIssue check rule value path with' =
     (case value of
        AObj obj \<Rightarrow> orElse (requiredIssue rule obj path) (firstIssue (map (memberIssue check rule path with') obj))
      | _ \<Rightarrow> Some None)"

definition itemsIssue :: "validator \<Rightarrow> schemaNode \<Rightarrow> jany list \<Rightarrow> gostring \<Rightarrow> gostring \<Rightarrow> verdict" where
  "itemsIssue check rule xs path with' =
     (case gm_get rule ''items'' of
        None \<Rightarrow> Some None
      | Some item \<Rightarrow> firstIssue (map (\<lambda>i. check (node item) (xs ! i) (indexPath path i) with') [0..<length xs]))"

definition arrayIssue :: "validator \<Rightarrow> validator" where
  "arrayIssue check rule value path with' =
     (case value of AArr xs \<Rightarrow> orElse (itemsIssue check rule xs path with') (uniqueIssue rule xs path) | _ \<Rightarrow> Some None)"

definition allOfIssue :: "validator \<Rightarrow> validator" where
  "allOfIssue check rule value path with' =
     (case gm_get rule ''allOf'' of
        Some (AArr children) \<Rightarrow> firstIssue (map (\<lambda>child. check (node child) value path with') children)
      | _ \<Rightarrow> Some None)"

definition notIssue :: "validator \<Rightarrow> validator" where
  "notIssue check rule value path with' =
     (case gm_get rule ''not'' of
        None \<Rightarrow> Some None
      | Some child \<Rightarrow>
          (case check (node child) value path [] of
             None \<Rightarrow> None
           | Some None \<Rightarrow> Some (Some (excludedIssue (node child) path with'))
           | Some (Some _) \<Rightarrow> Some None))"

definition branchIssue :: "validator \<Rightarrow> gostring \<Rightarrow> validator" where
  "branchIssue check branch rule value path relation =
     (case gm_get rule branch of None \<Rightarrow> Some None | Some child \<Rightarrow> check (node child) value path relation)"

definition ifIssue :: "validator \<Rightarrow> validator" where
  "ifIssue check rule value path with' =
     (case gm_get rule ''if'' of
        None \<Rightarrow> Some None
      | Some condition \<Rightarrow>
          (case check (node condition) value path [] of
             None \<Rightarrow> None
           | Some None \<Rightarrow>
               branchIssue check ''then'' rule value path
                 (case stringsOf (gm_get (node condition) ''required'') of [name] \<Rightarrow> name | _ \<Rightarrow> with')
           | Some (Some _) \<Rightarrow> branchIssue check ''else'' rule value path with'))"

definition keywordIssue :: "(nat \<Rightarrow> bool) \<Rightarrow> validator \<Rightarrow> validator" where
  "keywordIssue hi check rule value path with' = firstIssue
     [basicIssue rule value path, stringIssue hi rule value path, numberIssue rule value path, objectIssue check rule value path with',
      arrayIssue check rule value path with', allOfIssue check rule value path with', notIssue check rule value path with',
      ifIssue check rule value path with']"

fun schemaIssue :: "(nat \<Rightarrow> bool) \<Rightarrow> schemaNode \<Rightarrow> nat \<Rightarrow> validator" where
  "schemaIssue hi defs 0 rule value path with' = None"
| "schemaIssue hi defs (Suc n) rule value path with' =
     (case gm_get rule ''$ref'' of
        Some (AStr ref) \<Rightarrow> schemaIssue hi defs n (refNode defs ref) value path with'
      | _ \<Rightarrow> keywordIssue hi (schemaIssue hi defs n) rule value path with')"

end
