(* ===== verification/SessionSchema.thy ===== *)
theory SessionSchema
  imports Schema
begin

text \<open>
  The definitions of the wire schema, \<open>bus/sdk/go/protocol/session.schema.json\<close>, as the decoded JSON
  the validator works on: one constant per definition, with its keywords in the order of the file.
\<close>

definition schema_SessionHelloRequest :: jany where
  "schema_SessionHelloRequest =
     AObj [(''type'', AStr ''object''), (''additionalProperties'', ABool False), (''required'', AArr [AStr ''protocol'', AStr ''product'']),
     (''properties'', AObj [(''protocol'', AObj [(''type'', AStr ''integer''), (''const'', ANum 1)]), (''product'', AObj [(''type'',
     AStr ''string''), (''minLength'', ANum 1)]), (''session_id'', AObj [(''type'', AStr ''string''), (''minLength'', ANum 1), (''maxLength'',
     ANum 128)]), (''name'', AObj [(''type'', AStr ''string''), (''minLength'', ANum 1), (''maxLength'', ANum 128), (''pattern'',
     AStr namePattern)]), (''groups'', AObj [(''type'', AStr ''array''), (''uniqueItems'', ABool True), (''items'', AObj [(''type'',
     AStr ''string''), (''minLength'', ANum 1)])]), (''info'', AObj [(''type'', AStr ''object''), (''additionalProperties'', ABool True)]),
     (''launch_token'', AObj [(''type'', AStr ''string''), (''minLength'', ANum 1)]), (''supported_open_fields'', AObj [(''type'', AStr ''array''),
     (''uniqueItems'', ABool True), (''items'', AObj [(''enum'', AArr [AStr ''cwd'', AStr ''permission_mode'', AStr ''model'',
     AStr ''reasoning_effort'', AStr ''arguments''])])]), (''extra_arguments'', AObj [(''type'', AStr ''array''), (''items'', AObj [(''$ref'',
     AStr ''#/$defs/ExtraArgument'')])]), (''version'', AObj [(''type'', AStr ''string''), (''minLength'', ANum 1)]), (''supports_message_run'',
     AObj [(''type'', AStr ''boolean'')])]), (''allOf'', AArr [AObj [(''if'', AObj [(''required'', AArr [AStr ''launch_token''])]), (''then'',
     AObj [(''allOf'', AArr [AObj [(''required'', AArr [AStr ''launch_token'', AStr ''supported_open_fields'', AStr ''extra_arguments''])],
     AObj [(''not'', AObj [(''required'', AArr [AStr ''session_id''])])], AObj [(''not'', AObj [(''required'', AArr [AStr ''name''])])],
     AObj [(''not'', AObj [(''required'', AArr [AStr ''groups''])])], AObj [(''not'', AObj [(''required'', AArr [AStr ''info''])])]])]), (''else'',
     AObj [(''allOf'', AArr [AObj [(''required'', AArr [AStr ''session_id'', AStr ''groups'', AStr ''info''])], AObj [(''not'', AObj [(''required'',
     AArr [AStr ''supported_open_fields''])])], AObj [(''not'', AObj [(''required'', AArr [AStr ''supports_message_run''])])], AObj [(''not'',
     AObj [(''required'', AArr [AStr ''extra_arguments''])])], AObj [(''not'', AObj [(''required'', AArr [AStr ''version''])])]])])]])]"

definition schema_SessionHelloResult :: jany where
  "schema_SessionHelloResult =
     AObj [(''type'', AStr ''object''), (''additionalProperties'', ABool False)]"

definition schema_SessionSupersededRequest :: jany where
  "schema_SessionSupersededRequest =
     AObj [(''type'', AStr ''object''), (''additionalProperties'', ABool False)]"

definition schema_SessionSupersededResult :: jany where
  "schema_SessionSupersededResult =
     AObj [(''type'', AStr ''object''), (''additionalProperties'', ABool False)]"

definition schema_SessionListRequest :: jany where
  "schema_SessionListRequest =
     AObj [(''type'', AStr ''object''), (''additionalProperties'', ABool False), (''properties'', AObj [(''session_id'', AObj [(''type'',
     AStr ''string''), (''minLength'', ANum 1)]), (''host'', AObj [(''type'', AStr ''string''), (''pattern'', AStr hostPattern)])]), (''allOf'',
     AArr [AObj [(''if'', AObj [(''required'', AArr [AStr ''session_id''])]), (''then'', AObj [(''not'', AObj [(''required'',
     AArr [AStr ''host''])])])]])]"

definition schema_SessionListResult :: jany where
  "schema_SessionListResult =
     AObj [(''type'', AStr ''object''), (''additionalProperties'', ABool False), (''required'', AArr [AStr ''sessions'']), (''properties'',
     AObj [(''self_info'', AObj [(''$ref'', AStr ''#/$defs/SessionSelfInfo'')]), (''sessions'', AObj [(''type'', AStr ''array''), (''items'',
     AObj [(''$ref'', AStr ''#/$defs/SessionSummary'')])]), (''hosts'', AObj [(''type'', AStr ''array''), (''items'', AObj [(''$ref'',
     AStr ''#/$defs/HostProducts'')])])])]"

definition schema_SessionSelfInfo :: jany where
  "schema_SessionSelfInfo =
     AObj [(''$ref'', AStr ''#/$defs/DeliverySource'')]"

definition schema_HostProducts :: jany where
  "schema_HostProducts =
     AObj [(''type'', AStr ''object''), (''additionalProperties'', ABool False), (''required'', AArr [AStr ''host'', AStr ''products'']),
     (''properties'', AObj [(''host'', AObj [(''type'', AStr ''string''), (''minLength'', ANum 1)]), (''products'', AObj [(''type'', AStr ''array''),
     (''uniqueItems'', ABool True), (''items'', AObj [(''type'', AStr ''string''), (''minLength'', ANum 1)])])])]"

definition schema_SessionSummary :: jany where
  "schema_SessionSummary =
     AObj [(''type'', AStr ''object''), (''additionalProperties'', ABool False), (''required'', AArr [AStr ''session_id'', AStr ''kind'',
     AStr ''product'', AStr ''groups'', AStr ''connected'', AStr ''running'']), (''properties'', AObj [(''session_id'', AObj [(''type'',
     AStr ''string''), (''minLength'', ANum 1), (''maxLength'', ANum 161)]), (''kind'', AObj [(''enum'', AArr [AStr ''peer'', AStr ''lane''])]),
     (''product'', AObj [(''type'', AStr ''string''), (''minLength'', ANum 1)]), (''name'', AObj [(''type'', AStr ''string''), (''minLength'',
     ANum 1), (''maxLength'', ANum 161), (''pattern'', AStr namePattern)]), (''groups'', AObj [(''type'', AStr ''array''), (''uniqueItems'',
     ABool True), (''items'', AObj [(''type'', AStr ''string''), (''minLength'', ANum 1)])]), (''connected'', AObj [(''type'', AStr ''boolean'')]),
     (''running'', AObj [(''type'', AStr ''boolean'')]), (''info'', AObj [(''type'', AStr ''object''), (''additionalProperties'', ABool True)]),
     (''policy'', AObj [(''$ref'', AStr ''#/$defs/LanePolicy'')])]), (''allOf'', AArr [AObj [(''if'', AObj [(''properties'', AObj [(''kind'',
     AObj [(''const'', AStr ''lane'')])])]), (''then'', AObj [(''required'', AArr [AStr ''name''])])], AObj [(''if'', AObj [(''properties'',
     AObj [(''connected'', AObj [(''const'', ABool False)])]), (''required'', AArr [AStr ''connected''])]), (''then'', AObj [(''properties'',
     AObj [(''running'', AObj [(''const'', ABool False)])])])]])]"

definition schema_MessageSendRequest :: jany where
  "schema_MessageSendRequest =
     AObj [(''type'', AStr ''object''), (''additionalProperties'', ABool False), (''required'', AArr [AStr ''message'']), (''properties'',
     AObj [(''target'', AObj [(''type'', AStr ''string''), (''minLength'', ANum 1)]), (''targets'', AObj [(''type'', AStr ''array''),
     (''uniqueItems'', ABool True), (''items'', AObj [(''type'', AStr ''string''), (''minLength'', ANum 1)]), (''allOf'', AArr [AObj [(''not'',
     AObj [(''const'', AArr [])])]])]), (''group'', AObj [(''type'', AStr ''string''), (''minLength'', ANum 1)]), (''host'', AObj [(''type'',
     AStr ''string''), (''pattern'', AStr hostPattern)]), (''message'', AObj [(''type'', AStr ''string''), (''minLength'', ANum 1), (''maxLength'',
     ANum 262144)])]), (''allOf'', AArr [AObj [(''if'', AObj [(''required'', AArr [AStr ''target''])]), (''then'', AObj [(''allOf'',
     AArr [AObj [(''not'', AObj [(''required'', AArr [AStr ''targets''])])], AObj [(''not'', AObj [(''required'', AArr [AStr ''group''])])]])]),
     (''else'', AObj [(''if'', AObj [(''required'', AArr [AStr ''targets''])]), (''then'', AObj [(''not'', AObj [(''required'',
     AArr [AStr ''group''])])]), (''else'', AObj [(''required'', AArr [AStr ''group''])])])], AObj [(''if'', AObj [(''required'',
     AArr [AStr ''host''])]), (''then'', AObj [(''required'', AArr [AStr ''group''])])]])]"

definition schema_MessageSendResult :: jany where
  "schema_MessageSendResult =
     AObj [(''type'', AStr ''object''), (''additionalProperties'', ABool False), (''required'', AArr [AStr ''message_id'', AStr ''deliveries'']),
     (''properties'', AObj [(''message_id'', AObj [(''type'', AStr ''string''), (''minLength'', ANum 1)]), (''deliveries'', AObj [(''type'',
     AStr ''array''), (''items'', AObj [(''$ref'', AStr ''#/$defs/MessageSendDelivery'')])])])]"

definition schema_MessageSendDelivery :: jany where
  "schema_MessageSendDelivery =
     AObj [(''type'', AStr ''object''), (''additionalProperties'', ABool False), (''required'', AArr [AStr ''target'', AStr ''disposition'']),
     (''properties'', AObj [(''target'', AObj [(''type'', AStr ''string''), (''minLength'', ANum 1)]), (''session_id'', AObj [(''type'',
     AStr ''string''), (''minLength'', ANum 1)]), (''delivery_id'', AObj [(''type'', AStr ''string''), (''minLength'', ANum 1)]), (''disposition'',
     AObj [(''enum'', AArr [AStr ''written'', AStr ''injected'', AStr ''queued_for_next_turn'', AStr ''rejected''])]), (''reason'', AObj [(''type'',
     AStr ''string''), (''minLength'', ANum 1)])]), (''allOf'', AArr [AObj [(''if'', AObj [(''properties'', AObj [(''disposition'', AObj [(''const'',
     AStr ''rejected'')])]), (''required'', AArr [AStr ''disposition''])]), (''then'', AObj [(''required'', AArr [AStr ''reason''])]), (''else'',
     AObj [(''allOf'', AArr [AObj [(''required'', AArr [AStr ''session_id'', AStr ''delivery_id''])], AObj [(''not'', AObj [(''required'',
     AArr [AStr ''reason''])])]])])], AObj [(''if'', AObj [(''properties'', AObj [(''reason'', AObj [(''const'', AStr ''ambiguous'')])]),
     (''required'', AArr [AStr ''reason''])]), (''then'', AObj [(''allOf'', AArr [AObj [(''not'', AObj [(''required'',
     AArr [AStr ''session_id''])])], AObj [(''not'', AObj [(''required'', AArr [AStr ''delivery_id''])])]])])]])]"

definition schema_MessageDeliverRequest :: jany where
  "schema_MessageDeliverRequest =
     AObj [(''type'', AStr ''object''), (''additionalProperties'', ABool False), (''required'', AArr [AStr ''message_id'', AStr ''from'',
     AStr ''body'']), (''properties'', AObj [(''message_id'', AObj [(''type'', AStr ''string''), (''minLength'', ANum 1)]), (''from'',
     AObj [(''$ref'', AStr ''#/$defs/DeliverySource'')]), (''body'', AObj [(''type'', AStr ''string''), (''maxLength'', ANum 262144)]), (''run_id'',
     AObj [(''type'', AStr ''string''), (''minLength'', ANum 1)])])]"

definition schema_MessageDeliverResult :: jany where
  "schema_MessageDeliverResult =
     AObj [(''$ref'', AStr ''#/$defs/DeliveryReceipt'')]"

definition schema_DeliverySource :: jany where
  "schema_DeliverySource =
     AObj [(''type'', AStr ''object''), (''additionalProperties'', ABool False), (''required'', AArr [AStr ''session_id'', AStr ''product'',
     AStr ''groups'']), (''properties'', AObj [(''session_id'', AObj [(''type'', AStr ''string''), (''minLength'', ANum 1)]), (''name'',
     AObj [(''type'', AStr ''string''), (''minLength'', ANum 1), (''maxLength'', ANum 161), (''pattern'', AStr namePattern)]), (''product'',
     AObj [(''type'', AStr ''string''), (''minLength'', ANum 1)]), (''groups'', AObj [(''type'', AStr ''array''), (''uniqueItems'', ABool True),
     (''items'', AObj [(''type'', AStr ''string''), (''minLength'', ANum 1)])])])]"

definition schema_DeliveryReceipt :: jany where
  "schema_DeliveryReceipt =
     AObj [(''type'', AStr ''object''), (''additionalProperties'', ABool False), (''required'', AArr [AStr ''disposition'']), (''properties'',
     AObj [(''disposition'', AObj [(''enum'', AArr [AStr ''written'', AStr ''injected'', AStr ''queued_for_next_turn'', AStr ''rejected''])]),
     (''reason'', AObj [(''type'', AStr ''string''), (''minLength'', ANum 1)])]), (''allOf'', AArr [AObj [(''if'', AObj [(''properties'',
     AObj [(''disposition'', AObj [(''const'', AStr ''rejected'')])]), (''required'', AArr [AStr ''disposition''])]), (''then'', AObj [(''required'',
     AArr [AStr ''reason''])]), (''else'', AObj [(''not'', AObj [(''required'', AArr [AStr ''reason''])])])]])]"

definition schema_LaneDescribeRequest :: jany where
  "schema_LaneDescribeRequest =
     AObj [(''type'', AStr ''object''), (''additionalProperties'', ABool False), (''required'', AArr [AStr ''product'']), (''properties'',
     AObj [(''product'', AObj [(''type'', AStr ''string''), (''minLength'', ANum 1)]), (''host'', AObj [(''type'', AStr ''string''), (''minLength'',
     ANum 1)])])]"

definition schema_LaneDescribeResult :: jany where
  "schema_LaneDescribeResult =
     AObj [(''type'', AStr ''object''), (''additionalProperties'', ABool False), (''required'', AArr [AStr ''product'',
     AStr ''supported_open_fields'', AStr ''extra_arguments'']), (''properties'', AObj [(''product'', AObj [(''type'', AStr ''string''),
     (''minLength'', ANum 1)]), (''supported_open_fields'', AObj [(''type'', AStr ''array''), (''uniqueItems'', ABool True), (''items'',
     AObj [(''enum'', AArr [AStr ''cwd'', AStr ''permission_mode'', AStr ''model'', AStr ''reasoning_effort'', AStr ''arguments''])])]),
     (''extra_arguments'', AObj [(''type'', AStr ''array''), (''items'', AObj [(''$ref'', AStr ''#/$defs/ExtraArgument'')])]), (''version'',
     AObj [(''type'', AStr ''string''), (''minLength'', ANum 1)]), (''supports_message_run'', AObj [(''type'', AStr ''boolean'')])])]"

definition schema_ExtraArgument :: jany where
  "schema_ExtraArgument =
     AObj [(''type'', AStr ''object''), (''additionalProperties'', ABool False), (''required'', AArr [AStr ''name'', AStr ''description'',
     AStr ''takes_value'']), (''properties'', AObj [(''name'', AObj [(''type'', AStr ''string''), (''minLength'', ANum 1)]), (''description'',
     AObj [(''type'', AStr ''string''), (''minLength'', ANum 1)]), (''takes_value'', AObj [(''type'', AStr ''boolean'')])])]"

definition schema_SessionOpenOptions :: jany where
  "schema_SessionOpenOptions =
     AObj [(''type'', AStr ''object''), (''additionalProperties'', ABool False), (''properties'', AObj [(''cwd'', AObj [(''type'', AStr ''string''),
     (''minLength'', ANum 1)]), (''permission_mode'', AObj [(''type'', AStr ''string''), (''minLength'', ANum 1)]), (''model'', AObj [(''type'',
     AStr ''string''), (''minLength'', ANum 1)]), (''reasoning_effort'', AObj [(''type'', AStr ''string''), (''minLength'', ANum 1)]),
     (''arguments'', AObj [(''type'', AStr ''array''), (''items'', AObj [(''type'', AStr ''string'')])])])]"

definition schema_LaneSpawnRequest :: jany where
  "schema_LaneSpawnRequest =
     AObj [(''type'', AStr ''object''), (''additionalProperties'', ABool False), (''properties'', AObj [(''name'', AObj [(''type'', AStr ''string''),
     (''minLength'', ANum 1), (''maxLength'', ANum 128), (''pattern'', AStr namePattern)]), (''product'', AObj [(''type'', AStr ''string''),
     (''minLength'', ANum 1)]), (''host'', AObj [(''type'', AStr ''string''), (''minLength'', ANum 1)]), (''resume_session_id'', AObj [(''type'',
     AStr ''string''), (''minLength'', ANum 1)]), (''extra_groups'', AObj [(''type'', AStr ''array''), (''uniqueItems'', ABool True), (''items'',
     AObj [(''type'', AStr ''string''), (''minLength'', ANum 1)])]), (''open'', AObj [(''$ref'', AStr ''#/$defs/SessionOpenOptions'')]),
     (''persistent'', AObj [(''type'', AStr ''boolean'')]), (''auto_close_ms'', AObj [(''type'', AStr ''integer''), (''minimum'', ANum 0),
     (''maximum'', ANum 9223372036854)]), (''idle_message'', AObj [(''enum'', AArr [AStr ''stage'', AStr ''run''])]), (''notify'', AObj [(''type'',
     AStr ''boolean'')]), (''notify_target'', AObj [(''type'', AStr ''string''), (''minLength'', ANum 1)]), (''trace'', AObj [(''enum'',
     AArr [AStr ''off'', AStr ''events'', AStr ''content''])])]), (''allOf'', AArr [AObj [(''if'', AObj [(''required'',
     AArr [AStr ''resume_session_id''])]), (''then'', AObj [(''allOf'', AArr [AObj [(''not'', AObj [(''required'', AArr [AStr ''product''])])],
     AObj [(''not'', AObj [(''required'', AArr [AStr ''name''])])], AObj [(''not'', AObj [(''required'', AArr [AStr ''extra_groups''])])],
     AObj [(''not'', AObj [(''required'', AArr [AStr ''open''])])], AObj [(''not'', AObj [(''required'', AArr [AStr ''host''])])]])]), (''else'',
     AObj [(''required'', AArr [AStr ''name'', AStr ''product'', AStr ''open''])])]])]"

definition schema_LaneSpawnResult :: jany where
  "schema_LaneSpawnResult =
     AObj [(''type'', AStr ''object''), (''additionalProperties'', ABool False), (''required'', AArr [AStr ''session_id'']), (''properties'',
     AObj [(''session_id'', AObj [(''type'', AStr ''string''), (''minLength'', ANum 1)]), (''policy'', AObj [(''$ref'',
     AStr ''#/$defs/LanePolicy'')])])]"

definition schema_TraceConfigureRequest :: jany where
  "schema_TraceConfigureRequest =
     AObj [(''type'', AStr ''object''), (''additionalProperties'', ABool False), (''required'', AArr [AStr ''session_id'', AStr ''mode'']),
     (''properties'', AObj [(''session_id'', AObj [(''type'', AStr ''string''), (''minLength'', ANum 1)]), (''mode'', AObj [(''enum'',
     AArr [AStr ''off'', AStr ''events'', AStr ''content''])])])]"

definition schema_TraceConfigureResult :: jany where
  "schema_TraceConfigureResult =
     AObj [(''type'', AStr ''object''), (''additionalProperties'', ABool False), (''required'', AArr [AStr ''session_id'', AStr ''mode'']),
     (''properties'', AObj [(''session_id'', AObj [(''type'', AStr ''string''), (''minLength'', ANum 1)]), (''mode'', AObj [(''enum'',
     AArr [AStr ''off'', AStr ''events'', AStr ''content''])])])]"

definition schema_SessionOpenRequest :: jany where
  "schema_SessionOpenRequest =
     AObj [(''type'', AStr ''object''), (''additionalProperties'', ABool False), (''required'', AArr [AStr ''name'', AStr ''groups'',
     AStr ''open'']), (''properties'', AObj [(''name'', AObj [(''type'', AStr ''string''), (''minLength'', ANum 1), (''maxLength'', ANum 161),
     (''pattern'', AStr namePattern)]), (''groups'', AObj [(''type'', AStr ''array''), (''uniqueItems'', ABool True), (''items'', AObj [(''type'',
     AStr ''string''), (''minLength'', ANum 1)])]), (''resume_session_id'', AObj [(''type'', AStr ''string''), (''minLength'', ANum 1)]), (''open'',
     AObj [(''$ref'', AStr ''#/$defs/SessionOpenOptions'')]), (''policy'', AObj [(''$ref'', AStr ''#/$defs/LanePolicy'')])])]"

definition schema_SessionOpenResult :: jany where
  "schema_SessionOpenResult =
     AObj [(''type'', AStr ''object''), (''additionalProperties'', ABool False), (''required'', AArr [AStr ''session_id'']), (''properties'',
     AObj [(''session_id'', AObj [(''type'', AStr ''string''), (''minLength'', ANum 1), (''maxLength'', ANum 128)])])]"

definition schema_TurnRunRequest :: jany where
  "schema_TurnRunRequest =
     AObj [(''type'', AStr ''object''), (''additionalProperties'', ABool False), (''required'', AArr [AStr ''session_id'', AStr ''input'']),
     (''properties'', AObj [(''session_id'', AObj [(''type'', AStr ''string''), (''minLength'', ANum 1)]), (''input'', AObj [(''type'',
     AStr ''string''), (''minLength'', ANum 1), (''maxLength'', ANum 262144)])])]"

definition schema_TurnRunResult :: jany where
  "schema_TurnRunResult =
     AObj [(''type'', AStr ''object''), (''additionalProperties'', ABool False), (''required'', AArr [AStr ''outcome'', AStr ''result'']),
     (''properties'', AObj [(''outcome'', AObj [(''enum'', AArr [AStr ''completed'', AStr ''interrupted'', AStr ''failed''])]), (''result'',
     AObj [(''type'', AStr ''string''), (''maxLength'', ANum 262144)]), (''truncated'', AObj [(''type'', AStr ''boolean'')]),
     (''native_stop_reason'', AObj [(''type'', AStr ''string''), (''minLength'', ANum 1)])])]"

definition schema_TurnInterruptRequest :: jany where
  "schema_TurnInterruptRequest =
     AObj [(''type'', AStr ''object''), (''additionalProperties'', ABool False), (''required'', AArr [AStr ''session_id'']), (''properties'',
     AObj [(''session_id'', AObj [(''type'', AStr ''string''), (''minLength'', ANum 1)])])]"

definition schema_TurnInterruptResult :: jany where
  "schema_TurnInterruptResult =
     AObj [(''type'', AStr ''object''), (''additionalProperties'', ABool False)]"

definition schema_SessionCloseRequest :: jany where
  "schema_SessionCloseRequest =
     AObj [(''type'', AStr ''object''), (''additionalProperties'', ABool False), (''required'', AArr [AStr ''session_id'']), (''properties'',
     AObj [(''session_id'', AObj [(''type'', AStr ''string''), (''minLength'', ANum 1)]), (''forget'', AObj [(''type'', AStr ''boolean'')])])]"

definition schema_SessionCloseResult :: jany where
  "schema_SessionCloseResult =
     AObj [(''type'', AStr ''object''), (''additionalProperties'', ABool False)]"

definition schema_RPCErrorResponse :: jany where
  "schema_RPCErrorResponse =
     AObj [(''type'', AStr ''object''), (''additionalProperties'', ABool False), (''required'', AArr [AStr ''jsonrpc'', AStr ''id'',
     AStr ''error'']), (''properties'', AObj [(''jsonrpc'', AObj [(''const'', AStr ''2.0'')]), (''id'', AObj [(''type'', AStr ''integer''),
     (''minimum'', ANum 1)]), (''error'', AObj [(''$ref'', AStr ''#/$defs/RPCError'')])])]"

definition schema_RPCError :: jany where
  "schema_RPCError =
     AObj [(''type'', AStr ''object''), (''additionalProperties'', ABool False), (''required'', AArr [AStr ''code'', AStr ''message'']),
     (''properties'', AObj [(''code'', AObj [(''enum'', AArr [ANum (-32600), ANum (-32602), ANum (-32603), ANum (-32001), ANum (-32002),
     ANum (-32003), ANum (-32004), ANum (-32005), ANum (-32007), ANum (-32008), ANum (-32009), ANum (-32010), ANum (-32011), ANum (-32012),
     ANum (-32013), ANum (-32014), ANum (-32015), ANum (-32016)])]), (''message'', AObj [(''enum'', AArr [AStr ''invalid_frame'',
     AStr ''invalid_hello'', AStr ''internal'', AStr ''unknown_session'', AStr ''not_connected'', AStr ''busy'', AStr ''not_running'',
     AStr ''already_connected'', AStr ''unknown_product'', AStr ''unsupported_open_field'', AStr ''spawn_failed'', AStr ''timeout'',
     AStr ''not_committed'', AStr ''superseded'', AStr ''name_taken'', AStr ''unknown_host'', AStr ''forward_lost'', AStr ''unsupported_trace''])]),
     (''data'', AObj [])]), (''allOf'', AArr [AObj [(''if'', AObj [(''properties'', AObj [(''code'', AObj [(''const'', ANum (-32600))])])]),
     (''then'', AObj [(''properties'', AObj [(''message'', AObj [(''const'', AStr ''invalid_frame'')])])])], AObj [(''if'', AObj [(''properties'',
     AObj [(''code'', AObj [(''const'', ANum (-32602))])])]), (''then'', AObj [(''properties'', AObj [(''message'', AObj [(''const'',
     AStr ''invalid_hello'')])])])], AObj [(''if'', AObj [(''properties'', AObj [(''code'', AObj [(''const'', ANum (-32001))])])]), (''then'',
     AObj [(''properties'', AObj [(''message'', AObj [(''const'', AStr ''unknown_session'')])])])], AObj [(''if'', AObj [(''properties'',
     AObj [(''code'', AObj [(''const'', ANum (-32002))])])]), (''then'', AObj [(''properties'', AObj [(''message'', AObj [(''const'',
     AStr ''not_connected'')])])])], AObj [(''if'', AObj [(''properties'', AObj [(''code'', AObj [(''const'', ANum (-32003))])])]), (''then'',
     AObj [(''properties'', AObj [(''message'', AObj [(''const'', AStr ''busy'')])])])], AObj [(''if'', AObj [(''properties'', AObj [(''code'',
     AObj [(''const'', ANum (-32004))])])]), (''then'', AObj [(''properties'', AObj [(''message'', AObj [(''const'', AStr ''not_running'')])])])],
     AObj [(''if'', AObj [(''properties'', AObj [(''code'', AObj [(''const'', ANum (-32005))])])]), (''then'', AObj [(''properties'',
     AObj [(''message'', AObj [(''const'', AStr ''already_connected'')])])])], AObj [(''if'', AObj [(''properties'', AObj [(''code'',
     AObj [(''const'', ANum (-32007))])])]), (''then'', AObj [(''properties'', AObj [(''message'', AObj [(''const'',
     AStr ''unknown_product'')])])])], AObj [(''if'', AObj [(''properties'', AObj [(''code'', AObj [(''const'', ANum (-32008))])])]), (''then'',
     AObj [(''properties'', AObj [(''message'', AObj [(''const'', AStr ''unsupported_open_field'')])])])], AObj [(''if'', AObj [(''properties'',
     AObj [(''code'', AObj [(''const'', ANum (-32009))])])]), (''then'', AObj [(''properties'', AObj [(''message'', AObj [(''const'',
     AStr ''spawn_failed'')])])])], AObj [(''if'', AObj [(''properties'', AObj [(''code'', AObj [(''const'', ANum (-32010))])])]), (''then'',
     AObj [(''properties'', AObj [(''message'', AObj [(''const'', AStr ''timeout'')])])])], AObj [(''if'', AObj [(''properties'', AObj [(''code'',
     AObj [(''const'', ANum (-32011))])])]), (''then'', AObj [(''properties'', AObj [(''message'', AObj [(''const'', AStr ''not_committed'')])])])],
     AObj [(''if'', AObj [(''properties'', AObj [(''code'', AObj [(''const'', ANum (-32012))])])]), (''then'', AObj [(''properties'',
     AObj [(''message'', AObj [(''const'', AStr ''superseded'')])])])], AObj [(''if'', AObj [(''properties'', AObj [(''code'', AObj [(''const'',
     ANum (-32013))])])]), (''then'', AObj [(''properties'', AObj [(''message'', AObj [(''const'', AStr ''name_taken'')])])])], AObj [(''if'',
     AObj [(''properties'', AObj [(''code'', AObj [(''const'', ANum (-32014))])])]), (''then'', AObj [(''properties'', AObj [(''message'',
     AObj [(''const'', AStr ''unknown_host'')])])])], AObj [(''if'', AObj [(''properties'', AObj [(''code'', AObj [(''const'', ANum (-32015))])])]),
     (''then'', AObj [(''properties'', AObj [(''message'', AObj [(''const'', AStr ''forward_lost'')])])])], AObj [(''if'', AObj [(''properties'',
     AObj [(''code'', AObj [(''const'', ANum (-32016))])])]), (''then'', AObj [(''properties'', AObj [(''message'', AObj [(''const'',
     AStr ''unsupported_trace'')])])])], AObj [(''if'', AObj [(''properties'', AObj [(''code'', AObj [(''const'', ANum (-32603))])])]), (''then'',
     AObj [(''properties'', AObj [(''message'', AObj [(''const'', AStr ''internal'')])])])], AObj [(''if'', AObj [(''properties'', AObj [(''code'',
     AObj [(''const'', ANum (-32009))])]), (''required'', AArr [AStr ''code''])]), (''then'', AObj [(''required'', AArr [AStr ''data'']),
     (''properties'', AObj [(''data'', AObj [(''$ref'', AStr ''#/$defs/SpawnFailedData'')])])]), (''else'', AObj [(''if'', AObj [(''properties'',
     AObj [(''code'', AObj [(''const'', ANum (-32603))])]), (''required'', AArr [AStr ''code''])]), (''then'', AObj [(''required'',
     AArr [AStr ''data'']), (''properties'', AObj [(''data'', AObj [(''type'', AStr ''string''), (''minLength'', ANum 1)])])]), (''else'',
     AObj [(''not'', AObj [(''required'', AArr [AStr ''data''])])])])]])]"

definition schema_SpawnFailedData :: jany where
  "schema_SpawnFailedData =
     AObj [(''type'', AStr ''object''), (''additionalProperties'', ABool False), (''required'', AArr [AStr ''stderr_tail'']), (''properties'',
     AObj [(''exit_code'', AObj [(''type'', AStr ''integer'')]), (''stderr_tail'', AObj [(''type'', AStr ''array''), (''items'', AObj [(''type'',
     AStr ''string'')])])])]"

definition schema_LanePolicy :: jany where
  "schema_LanePolicy =
     AObj [(''type'', AStr ''object''), (''additionalProperties'', ABool False), (''required'', AArr [AStr ''persistent'', AStr ''auto_close_ms'',
     AStr ''idle_message'', AStr ''notify'']), (''properties'', AObj [(''persistent'', AObj [(''type'', AStr ''boolean'')]), (''auto_close_ms'',
     AObj [(''type'', AStr ''integer''), (''minimum'', ANum 0), (''maximum'', ANum 9223372036854)]), (''idle_message'', AObj [(''enum'',
     AArr [AStr ''stage'', AStr ''run''])]), (''notify'', AObj [(''type'', AStr ''boolean'')]), (''notify_target'', AObj [(''type'',
     AStr ''string''), (''minLength'', ANum 1)]), (''owner_session_id'', AObj [(''type'', AStr ''string''), (''minLength'', ANum 1)]), (''trace'',
     AObj [(''enum'', AArr [AStr ''off'', AStr ''events'', AStr ''content''])])])]"

definition schema_RunRef :: jany where
  "schema_RunRef =
     AObj [(''type'', AStr ''object''), (''additionalProperties'', ABool False), (''required'', AArr [AStr ''session_id'', AStr ''run_id'']),
     (''properties'', AObj [(''session_id'', AObj [(''type'', AStr ''string''), (''minLength'', ANum 1)]), (''run_id'', AObj [(''type'',
     AStr ''string''), (''minLength'', ANum 1)])])]"

definition schema_ReadRequest :: jany where
  "schema_ReadRequest =
     AObj [(''type'', AStr ''object''), (''additionalProperties'', ABool False), (''required'', AArr [AStr ''session_id'']), (''properties'',
     AObj [(''session_id'', AObj [(''type'', AStr ''string''), (''minLength'', ANum 1)]), (''run_id'', AObj [(''type'', AStr ''string''),
     (''minLength'', ANum 1)])])]"

definition schema_WaitRequest :: jany where
  "schema_WaitRequest =
     AObj [(''type'', AStr ''object''), (''additionalProperties'', ABool False), (''required'', AArr [AStr ''session_id'']), (''properties'',
     AObj [(''session_id'', AObj [(''type'', AStr ''string''), (''minLength'', ANum 1)]), (''run_id'', AObj [(''type'', AStr ''string''),
     (''minLength'', ANum 1)]), (''timeout_ms'', AObj [(''type'', AStr ''integer''), (''minimum'', ANum 0), (''maximum'', ANum 9223372036854)])])]"

definition schema_RunStatus :: jany where
  "schema_RunStatus =
     AObj [(''type'', AStr ''object''), (''additionalProperties'', ABool False), (''required'', AArr [AStr ''session_id'', AStr ''run_id'',
     AStr ''state'']), (''properties'', AObj [(''session_id'', AObj [(''type'', AStr ''string''), (''minLength'', ANum 1)]), (''run_id'',
     AObj [(''type'', AStr ''string''), (''minLength'', ANum 1)]), (''state'', AObj [(''enum'', AArr [AStr ''running'', AStr ''done'',
     AStr ''unavailable''])]), (''result'', AObj [(''$ref'', AStr ''#/$defs/TurnRunResult'')]), (''reason'', AObj [(''type'', AStr ''string''),
     (''minLength'', ANum 1)])]), (''allOf'', AArr [AObj [(''if'', AObj [(''properties'', AObj [(''state'', AObj [(''const'', AStr ''done'')])])]),
     (''then'', AObj [(''required'', AArr [AStr ''result''])]), (''else'', AObj [(''not'', AObj [(''required'', AArr [AStr ''result''])])])],
     AObj [(''if'', AObj [(''properties'', AObj [(''state'', AObj [(''const'', AStr ''unavailable'')])])]), (''then'', AObj [(''required'',
     AArr [AStr ''reason''])]), (''else'', AObj [(''not'', AObj [(''required'', AArr [AStr ''reason''])])])]])]"

definition schema_ExecuteRequest :: jany where
  "schema_ExecuteRequest =
     AObj [(''type'', AStr ''object''), (''additionalProperties'', ABool False), (''required'', AArr [AStr ''session_id'', AStr ''run_id'',
     AStr ''input'']), (''properties'', AObj [(''session_id'', AObj [(''type'', AStr ''string''), (''minLength'', ANum 1)]), (''run_id'',
     AObj [(''type'', AStr ''string''), (''minLength'', ANum 1)]), (''input'', AObj [(''type'', AStr ''string''), (''minLength'', ANum 1),
     (''maxLength'', ANum 262144)])])]"

definition schema_TurnReady :: jany where
  "schema_TurnReady =
     AObj [(''type'', AStr ''object''), (''additionalProperties'', ABool False), (''required'', AArr [AStr ''session_id'', AStr ''run_id'',
     AStr ''state'']), (''properties'', AObj [(''session_id'', AObj [(''type'', AStr ''string''), (''minLength'', ANum 1)]), (''run_id'',
     AObj [(''type'', AStr ''string''), (''minLength'', ANum 1)]), (''state'', AObj [(''enum'', AArr [AStr ''done'', AStr ''unavailable''])]),
     (''outcome'', AObj [(''enum'', AArr [AStr ''completed'', AStr ''failed'', AStr ''interrupted''])]), (''reason'', AObj [(''type'',
     AStr ''string''), (''minLength'', ANum 1)])]), (''allOf'', AArr [AObj [(''if'', AObj [(''properties'', AObj [(''state'', AObj [(''const'',
     AStr ''done'')])])]), (''then'', AObj [(''required'', AArr [AStr ''outcome'']), (''not'', AObj [(''required'', AArr [AStr ''reason''])])]),
     (''else'', AObj [(''required'', AArr [AStr ''reason'']), (''not'', AObj [(''required'', AArr [AStr ''outcome''])])])]])]"

definition schemaDefinitions :: schemaNode where
  "schemaDefinitions =
     [(''SessionHelloRequest'', schema_SessionHelloRequest),
      (''SessionHelloResult'', schema_SessionHelloResult),
      (''SessionSupersededRequest'', schema_SessionSupersededRequest),
      (''SessionSupersededResult'', schema_SessionSupersededResult),
      (''SessionListRequest'', schema_SessionListRequest),
      (''SessionListResult'', schema_SessionListResult),
      (''SessionSelfInfo'', schema_SessionSelfInfo),
      (''HostProducts'', schema_HostProducts),
      (''SessionSummary'', schema_SessionSummary),
      (''MessageSendRequest'', schema_MessageSendRequest),
      (''MessageSendResult'', schema_MessageSendResult),
      (''MessageSendDelivery'', schema_MessageSendDelivery),
      (''MessageDeliverRequest'', schema_MessageDeliverRequest),
      (''MessageDeliverResult'', schema_MessageDeliverResult),
      (''DeliverySource'', schema_DeliverySource),
      (''DeliveryReceipt'', schema_DeliveryReceipt),
      (''LaneDescribeRequest'', schema_LaneDescribeRequest),
      (''LaneDescribeResult'', schema_LaneDescribeResult),
      (''ExtraArgument'', schema_ExtraArgument),
      (''SessionOpenOptions'', schema_SessionOpenOptions),
      (''LaneSpawnRequest'', schema_LaneSpawnRequest),
      (''LaneSpawnResult'', schema_LaneSpawnResult),
      (''TraceConfigureRequest'', schema_TraceConfigureRequest),
      (''TraceConfigureResult'', schema_TraceConfigureResult),
      (''SessionOpenRequest'', schema_SessionOpenRequest),
      (''SessionOpenResult'', schema_SessionOpenResult),
      (''TurnRunRequest'', schema_TurnRunRequest),
      (''TurnRunResult'', schema_TurnRunResult),
      (''TurnInterruptRequest'', schema_TurnInterruptRequest),
      (''TurnInterruptResult'', schema_TurnInterruptResult),
      (''SessionCloseRequest'', schema_SessionCloseRequest),
      (''SessionCloseResult'', schema_SessionCloseResult),
      (''RPCErrorResponse'', schema_RPCErrorResponse),
      (''RPCError'', schema_RPCError),
      (''SpawnFailedData'', schema_SpawnFailedData),
      (''LanePolicy'', schema_LanePolicy),
      (''RunRef'', schema_RunRef),
      (''ReadRequest'', schema_ReadRequest),
      (''WaitRequest'', schema_WaitRequest),
      (''RunStatus'', schema_RunStatus),
      (''ExecuteRequest'', schema_ExecuteRequest),
      (''TurnReady'', schema_TurnReady)]"

lemmas schema_defs_only = schema_SessionHelloRequest_def schema_SessionHelloResult_def schema_SessionSupersededRequest_def schema_SessionSupersededResult_def schema_SessionListRequest_def schema_SessionListResult_def schema_SessionSelfInfo_def schema_HostProducts_def schema_SessionSummary_def schema_MessageSendRequest_def schema_MessageSendResult_def schema_MessageSendDelivery_def schema_MessageDeliverRequest_def schema_MessageDeliverResult_def schema_DeliverySource_def schema_DeliveryReceipt_def schema_LaneDescribeRequest_def schema_LaneDescribeResult_def schema_ExtraArgument_def schema_SessionOpenOptions_def schema_LaneSpawnRequest_def schema_LaneSpawnResult_def schema_TraceConfigureRequest_def schema_TraceConfigureResult_def schema_SessionOpenRequest_def schema_SessionOpenResult_def schema_TurnRunRequest_def schema_TurnRunResult_def schema_TurnInterruptRequest_def schema_TurnInterruptResult_def schema_SessionCloseRequest_def schema_SessionCloseResult_def schema_RPCErrorResponse_def schema_RPCError_def schema_SpawnFailedData_def schema_LanePolicy_def schema_RunRef_def schema_ReadRequest_def schema_WaitRequest_def schema_RunStatus_def schema_ExecuteRequest_def schema_TurnReady_def

end
