(* ===== verification/Validate.thy ===== *)
theory Validate
  imports SessionSchema FedTypes
begin

text \<open>
  The validator of \<open>Schema\<close> on the session schema: it always ends, it accepts exactly
  the values that satisfy every keyword of the rule, and the error objects of the protocol.
\<close>

section \<open>Enough fuel\<close>

text \<open>A schema fits into \<open>n\<close> levels when its JSON, references replaced by what they name, is at most \<open>n\<close> deep.\<close>

fun fits :: "schemaNode \<Rightarrow> nat \<Rightarrow> jany \<Rightarrow> bool" where
  "fits defs 0 v = False"
| "fits defs (Suc n) v =
     (case v of
        AObj m \<Rightarrow> list_all (\<lambda>x. fits defs n (snd x)) m
          \<and> (case gm_get m ''$ref'' of Some (AStr ref) \<Rightarrow> fits defs n (AObj (refNode defs ref)) | _ \<Rightarrow> True)
      | AArr vs \<Rightarrow> list_all (fits defs n) vs
      | _ \<Rightarrow> True)"

lemma fits_mono: "fits defs n v \<Longrightarrow> n \<le> m \<Longrightarrow> fits defs m v"
proof (induction n arbitrary: m v)
  case (Suc n)
  then obtain k where k: "m = Suc k" "n \<le> k" by (cases m) auto
  show ?case
  proof (cases v)
    case (AArr vs)
    with Suc k show ?thesis by (auto simp: list_all_iff)
  next
    case (AObj o')
    have "list_all (\<lambda>x. fits defs k (snd x)) o'" using Suc k AObj by (auto simp: list_all_iff)
    moreover have "case gm_get o' ''$ref'' of Some (AStr ref) \<Rightarrow> fits defs k (AObj (refNode defs ref)) | _ \<Rightarrow> True"
      using Suc k AObj by (auto split: option.splits jany.splits)
    ultimately show ?thesis by (simp add: AObj k)
  qed (simp_all add: k)
qed simp

lemma fits_child:
  assumes "fits defs (Suc n) (AObj m)" "gm_get m k = Some c"
  shows "fits defs n c"
proof -
  have "(k, c) \<in> set m" using assms(2) by (simp add: gm_get_def map_of_SomeD)
  with assms(1) show ?thesis by (force simp: list_all_iff)
qed

lemma fits_ref: "fits defs (Suc n) (AObj m) \<Longrightarrow> gm_get m ''$ref'' = Some (AStr ref) \<Longrightarrow> fits defs n (AObj (refNode defs ref))"
  by simp

lemma fits_node: "fits defs n c \<Longrightarrow> fits defs n (AObj (node c))"
  by (cases n; cases c) (simp_all add: node_def gm_get_def)

lemma fits_node_child: "fits defs (Suc n) (AObj m) \<Longrightarrow> gm_get m k = Some c \<Longrightarrow> fits defs n (AObj (node c))"
  by (rule fits_node[OF fits_child])

lemma fits_list:
  assumes "fits defs n (AArr vs)" "c \<in> set vs"
  shows "fits defs n (AObj (node c))"
proof (cases n)
  case (Suc k)
  with assms have "fits defs k c" by (simp add: list_all_iff)
  then show ?thesis using fits_mono[OF fits_node, of defs k c n] Suc by simp
qed (use assms in simp)

lemma fits_property:
  assumes "fits defs n (AObj m)" "gm_get m k = Some c"
  shows "fits defs n (AObj (node c))"
proof (cases n)
  case (Suc k')
  with assms have "fits defs k' (AObj (node c))" using fits_node_child by blast
  then show ?thesis using fits_mono[of defs k' "AObj (node c)" n] Suc by linarith
qed (use assms in simp)

section \<open>What a rule means\<close>

text \<open>The keywords that look at the value alone.\<close>

definition basic_ok :: "schemaNode \<Rightarrow> jany \<Rightarrow> bool" where
  "basic_ok rule v \<longleftrightarrow>
     (\<forall>kind. gm_get rule ''type'' = Some (AStr kind) \<longrightarrow> validType kind v)
     \<and> (\<forall>e. gm_get rule ''const'' = Some e \<longrightarrow> deepEqual v e)
     \<and> (\<forall>vs. gm_get rule ''enum'' = Some (AArr vs) \<longrightarrow> (\<exists>e \<in> set vs. deepEqual e v))"

definition string_ok :: "(nat \<Rightarrow> bool) \<Rightarrow> schemaNode \<Rightarrow> gostring \<Rightarrow> bool" where
  "string_ok hi rule s \<longleftrightarrow> validString s \<and> number rule ''minLength'' \<le> rat_of_nat (runeCount s)
     \<and> (has rule ''maxLength'' \<longrightarrow> rat_of_nat (runeCount s) \<le> number rule ''maxLength'')
     \<and> (\<forall>p. gm_get rule ''pattern'' = Some (AStr p) \<longrightarrow> matchString hi p s)"

definition number_ok :: "schemaNode \<Rightarrow> rat \<Rightarrow> bool" where
  "number_ok rule x \<longleftrightarrow> (has rule ''minimum'' \<longrightarrow> number rule ''minimum'' \<le> x) \<and> (has rule ''maximum'' \<longrightarrow> x \<le> number rule ''maximum'')
     \<and> (has rule ''exclusiveMinimum'' \<longrightarrow> number rule ''exclusiveMinimum'' < x)"

definition fields_ok :: "schemaNode \<Rightarrow> (gostring, jany) gomap \<Rightarrow> bool" where
  "fields_ok rule obj \<longleftrightarrow> (\<forall>name \<in> set (stringsOf (gm_get rule ''required'')). gm_get obj name \<noteq> None)
     \<and> number rule ''minProperties'' \<le> rat_of_nat (length obj)
     \<and> (gm_get rule ''additionalProperties'' = Some (ABool False) \<longrightarrow> (\<forall>name \<in> fst ` set obj. property rule name \<noteq> None))"

definition unique_ok :: "schemaNode \<Rightarrow> jany list \<Rightarrow> bool" where
  "unique_ok rule xs \<longleftrightarrow>
     (gm_get rule ''uniqueItems'' = Some (ABool True) \<longrightarrow> (\<forall>j < length xs. \<forall>i < j. \<not> deepEqual (xs ! i) (xs ! j)))"

text \<open>
  The reference: a value is accepted when every keyword of the rule holds; no keyword comes
  before another, and the order of an object's members plays no part.
\<close>

definition keywords_ok :: "(nat \<Rightarrow> bool) \<Rightarrow> (schemaNode \<Rightarrow> jany \<Rightarrow> bool) \<Rightarrow> schemaNode \<Rightarrow> jany \<Rightarrow> bool" where
  "keywords_ok hi sat rule v \<longleftrightarrow>
     basic_ok rule v \<and> (\<forall>s. v = AStr s \<longrightarrow> string_ok hi rule s) \<and> (\<forall>x. v = ANum x \<longrightarrow> number_ok rule x)
     \<and> (\<forall>obj. v = AObj obj \<longrightarrow> fields_ok rule obj
          \<and> (\<forall>(name, child) \<in> set obj. \<forall>p. property rule name = Some p \<longrightarrow> sat (node p) child))
     \<and> (\<forall>xs. v = AArr xs \<longrightarrow> unique_ok rule xs
          \<and> (\<forall>item. gm_get rule ''items'' = Some item \<longrightarrow> (\<forall>x \<in> set xs. sat (node item) x)))
     \<and> (\<forall>cs. gm_get rule ''allOf'' = Some (AArr cs) \<longrightarrow> (\<forall>c \<in> set cs. sat (node c) v))
     \<and> (\<forall>c. gm_get rule ''not'' = Some c \<longrightarrow> \<not> sat (node c) v)
     \<and> (\<forall>c. gm_get rule ''if'' = Some c \<longrightarrow>
          (if sat (node c) v then \<forall>t. gm_get rule ''then'' = Some t \<longrightarrow> sat (node t) v
           else \<forall>e. gm_get rule ''else'' = Some e \<longrightarrow> sat (node e) v))"

fun accepts :: "(nat \<Rightarrow> bool) \<Rightarrow> schemaNode \<Rightarrow> nat \<Rightarrow> schemaNode \<Rightarrow> jany \<Rightarrow> bool" where
  "accepts hi defs 0 rule v = False"
| "accepts hi defs (Suc n) rule v =
     (case gm_get rule ''$ref'' of
        Some (AStr ref) \<Rightarrow> accepts hi defs n (refNode defs ref) v
      | _ \<Rightarrow> keywords_ok hi (accepts hi defs n) rule v)"

section \<open>The validator decides it\<close>

definition agrees :: "verdict \<Rightarrow> bool \<Rightarrow> bool" where
  "agrees r ok \<longleftrightarrow> r \<noteq> None \<and> (r = Some None \<longleftrightarrow> ok)"

lemma agrees_simps [simp]:
  "agrees (Some None) ok = ok" "agrees (Some (Some i)) ok = (\<not> ok)" "agrees (check_that b i) ok = (b = ok)"
  by (auto simp: agrees_def check_that_def)

lemma agrees_orElse: "agrees a p \<Longrightarrow> agrees b q \<Longrightarrow> agrees (orElse a b) (p \<and> q)"
  by (auto simp: agrees_def orElse_def split: option.splits)

lemma agrees_last: "agrees a p \<Longrightarrow> agrees (orElse a (Some None)) p"
  by (auto simp: agrees_def orElse_def split: option.splits)

lemma agrees_first:
  assumes "\<And>x. x \<in> set xs \<Longrightarrow> agrees (f x) (P x)"
  shows "agrees (firstIssue (map f xs)) (\<forall>x \<in> set xs. P x)"
  using assms
proof (induction xs)
  case (Cons x xs)
  have "agrees (orElse (f x) (firstIssue (map f xs))) (P x \<and> (\<forall>x \<in> set xs. P x))"
    by (rule agrees_orElse) (use Cons in simp_all)
  then show ?case by simp
qed simp

lemma agrees_list: "list_all2 agrees vs ps \<Longrightarrow> agrees (firstIssue vs) (list_all (\<lambda>p. p) ps)"
proof (induction vs ps rule: list_all2_induct)
  case (Cons v vs p ps)
  then show ?case using agrees_orElse[of v p "firstIssue vs" "list_all (\<lambda>p. p) ps"] by simp
qed simp

lemma agrees_basic: "agrees (basicIssue rule v path) (basic_ok rule v)"
proof -
  have "list_all2 agrees
     [case gm_get rule ''type'' of Some (AStr kind) \<Rightarrow> check_that (validType kind v) (MustBe path kind) | _ \<Rightarrow> Some None,
      case gm_get rule ''const'' of Some expected \<Rightarrow> check_that (deepEqual v expected) (MustEqual path expected) | None \<Rightarrow> Some None,
      case gm_get rule ''enum'' of Some (AArr vs) \<Rightarrow> check_that (contains vs v) (NotOneOf path) | _ \<Rightarrow> Some None]
     [\<forall>kind. gm_get rule ''type'' = Some (AStr kind) \<longrightarrow> validType kind v,
      \<forall>e. gm_get rule ''const'' = Some e \<longrightarrow> deepEqual v e,
      \<forall>vs. gm_get rule ''enum'' = Some (AArr vs) \<longrightarrow> (\<exists>e \<in> set vs. deepEqual e v)]"
    by (simp add: contains_def list_ex_iff split: option.split jany.split)
  from agrees_list[OF this] show ?thesis by (simp add: basicIssue_def basic_ok_def)
qed

lemma agrees_string: "agrees (stringIssue hi rule v path) (\<forall>s. v = AStr s \<longrightarrow> string_ok hi rule s)"
proof (cases v)
  case (AStr s)
  let ?len = "rat_of_nat (runeCount s)"
  have "list_all2 agrees
     [check_that (validString s) (NotUTF8 path),
      check_that (\<not> ?len < number rule ''minLength'') (TooShort path (number rule ''minLength'')),
      check_that (\<not> (has rule ''maxLength'' \<and> ?len > number rule ''maxLength'')) (TooLong path (number rule ''maxLength'')),
      case gm_get rule ''pattern'' of Some (AStr p) \<Rightarrow> check_that (matchString hi p s) (NoMatch path p) | _ \<Rightarrow> Some None]
     [validString s, number rule ''minLength'' \<le> ?len, has rule ''maxLength'' \<longrightarrow> ?len \<le> number rule ''maxLength'',
      \<forall>p. gm_get rule ''pattern'' = Some (AStr p) \<longrightarrow> matchString hi p s]"
    by (auto split: option.split jany.split)
  from agrees_list[OF this] AStr show ?thesis by (simp add: stringIssue_def string_ok_def Let_def)
qed (simp_all add: stringIssue_def)

lemma agrees_number: "agrees (numberIssue rule v path) (\<forall>x. v = ANum x \<longrightarrow> number_ok rule x)"
proof (cases v)
  case (ANum x)
  have "list_all2 agrees
     [check_that (\<not> (has rule ''minimum'' \<and> x < number rule ''minimum'')) (TooSmall path (number rule ''minimum'')),
      check_that (\<not> (has rule ''maximum'' \<and> x > number rule ''maximum'')) (TooLarge path (number rule ''maximum'')),
      check_that (\<not> (has rule ''exclusiveMinimum'' \<and> x \<le> number rule ''exclusiveMinimum'')) (NotGreater path (number rule ''exclusiveMinimum''))]
     [has rule ''minimum'' \<longrightarrow> number rule ''minimum'' \<le> x, has rule ''maximum'' \<longrightarrow> x \<le> number rule ''maximum'',
      has rule ''exclusiveMinimum'' \<longrightarrow> number rule ''exclusiveMinimum'' < x]"
    by auto
  from agrees_list[OF this] ANum show ?thesis by (simp add: numberIssue_def number_ok_def)
qed (simp_all add: numberIssue_def)

lemma agrees_required:
  "agrees (requiredIssue rule obj path) ((\<forall>name \<in> set (stringsOf (gm_get rule ''required'')). gm_get obj name \<noteq> None)
     \<and> number rule ''minProperties'' \<le> rat_of_nat (length obj))"
  unfolding requiredIssue_def by (rule agrees_orElse) (auto intro!: agrees_first)

lemma agrees_unique: "agrees (uniqueIssue rule xs path) (unique_ok rule xs)"
proof -
  have c: "contains (take j xs) y \<longleftrightarrow> (\<exists>i < j. deepEqual (xs ! i) y)" if "j < length xs" for j y
  proof -
    have "set (take j xs) = (\<lambda>i. xs ! i) ` {..<j}" using that by (simp add: nth_image lessThan_atLeast0)
    then show ?thesis by (auto simp: contains_def list_ex_iff)
  qed
  have "agrees (firstIssue (map (\<lambda>i. check_that (\<not> contains (take i xs) (xs ! i)) (Duplicate (indexPath path i))) [0..<length xs]))
      (\<forall>j \<in> set [0..<length xs]. \<forall>i < j. \<not> deepEqual (xs ! i) (xs ! j))"
    by (rule agrees_first) (simp add: c)
  then show ?thesis by (simp add: uniqueIssue_def unique_ok_def Ball_def)
qed

lemma fits_prop:
  assumes "fits defs (Suc n) (AObj rule)" "property rule name = Some p"
  shows "fits defs n (AObj (node p))"
proof -
  obtain ps where ps: "gm_get rule ''properties'' = Some (AObj ps)" "gm_get ps name = Some p"
    using assms(2) by (auto simp: property_def gm_get_def split: option.splits jany.splits)
  from fits_property[OF fits_child[OF assms(1) ps(1)] ps(2)] show ?thesis .
qed

text \<open>One keyword at a time: \<open>check\<close> agrees with \<open>sat\<close> on the rules that occur in \<open>rule\<close>.\<close>

lemma agrees_object:
  assumes "\<And>name p c q w. property rule name = Some p \<Longrightarrow> agrees (check (node p) c q w) (sat (node p) c)"
  shows "agrees (objectIssue check rule v path with') (\<forall>obj. v = AObj obj \<longrightarrow> fields_ok rule obj
          \<and> (\<forall>(name, child) \<in> set obj. \<forall>p. property rule name = Some p \<longrightarrow> sat (node p) child))"
proof (cases v)
  case (AObj obj)
  define ok where "ok x = (case property rule (fst x) of None \<Rightarrow> gm_get rule ''additionalProperties'' \<noteq> Some (ABool False)
     | Some p \<Rightarrow> sat (node p) (snd x))" for x
  have "agrees (memberIssue check rule path with' x) (ok x)" for x
    using assms by (cases x; cases "property rule (fst x)") (simp_all add: memberIssue_def ok_def)
  from agrees_orElse[OF agrees_required[of rule obj path] agrees_first[of obj, OF this]]
  have "agrees (objectIssue check rule v path with') (((\<forall>name \<in> set (stringsOf (gm_get rule ''required'')). gm_get obj name \<noteq> None)
     \<and> number rule ''minProperties'' \<le> rat_of_nat (length obj)) \<and> (\<forall>x \<in> set obj. ok x))"
    by (simp add: AObj objectIssue_def)
  moreover have "(\<forall>x \<in> set obj. ok x) \<longleftrightarrow> (gm_get rule ''additionalProperties'' = Some (ABool False) \<longrightarrow> (\<forall>name \<in> fst ` set obj. property rule name \<noteq> None))
      \<and> (\<forall>(name, child) \<in> set obj. \<forall>p. property rule name = Some p \<longrightarrow> sat (node p) child)"
    unfolding ok_def by (fastforce split: option.splits)
  ultimately show ?thesis by (simp add: AObj fields_ok_def)
qed (simp_all add: objectIssue_def)

lemma agrees_array:
  assumes "\<And>item c q w. gm_get rule ''items'' = Some item \<Longrightarrow> agrees (check (node item) c q w) (sat (node item) c)"
  shows "agrees (arrayIssue check rule v path with') (\<forall>xs. v = AArr xs \<longrightarrow> unique_ok rule xs
          \<and> (\<forall>item. gm_get rule ''items'' = Some item \<longrightarrow> (\<forall>x \<in> set xs. sat (node item) x)))"
proof (cases v)
  case (AArr xs)
  have "agrees (itemsIssue check rule xs path with') (\<forall>item. gm_get rule ''items'' = Some item \<longrightarrow> (\<forall>x \<in> set xs. sat (node item) x))"
  proof (cases "gm_get rule ''items''")
    case (Some item)
    have "agrees (firstIssue (map (\<lambda>i. check (node item) (xs ! i) (indexPath path i) with') [0..<length xs])) (\<forall>i \<in> set [0..<length xs]. sat (node item) (xs ! i))"
      by (rule agrees_first) (rule assms[OF Some])
    moreover have "(\<forall>i \<in> set [0..<length xs]. sat (node item) (xs ! i)) = (\<forall>x \<in> set xs. sat (node item) x)"
      by (auto simp: all_set_conv_all_nth)
    ultimately show ?thesis using Some by (simp add: itemsIssue_def)
  qed (simp add: itemsIssue_def)
  from agrees_orElse[OF this agrees_unique[of rule xs path]] show ?thesis
    by (simp add: AArr arrayIssue_def conj_commute)
qed (simp_all add: arrayIssue_def)

lemma agrees_allOf:
  assumes "\<And>cs c q w. gm_get rule ''allOf'' = Some (AArr cs) \<Longrightarrow> c \<in> set cs \<Longrightarrow> agrees (check (node c) v q w) (sat (node c) v)"
  shows "agrees (allOfIssue check rule v path with') (\<forall>cs. gm_get rule ''allOf'' = Some (AArr cs) \<longrightarrow> (\<forall>c \<in> set cs. sat (node c) v))"
  using assms by (auto simp: allOfIssue_def intro: agrees_first split: option.split jany.split)

lemma agrees_not:
  assumes "\<And>c q w. gm_get rule ''not'' = Some c \<Longrightarrow> agrees (check (node c) v q w) (sat (node c) v)"
  shows "agrees (notIssue check rule v path with') (\<forall>c. gm_get rule ''not'' = Some c \<longrightarrow> \<not> sat (node c) v)"
proof (cases "gm_get rule ''not''")
  case (Some c)
  with assms[OF Some, of path "[]"] show ?thesis by (cases "sat (node c) v") (auto simp: notIssue_def agrees_def split: option.split)
qed (simp add: notIssue_def)

lemma agrees_branch:
  assumes "\<And>c q w. gm_get rule b = Some c \<Longrightarrow> agrees (check (node c) v q w) (sat (node c) v)"
  shows "agrees (branchIssue check b rule v path r) (\<forall>c. gm_get rule b = Some c \<longrightarrow> sat (node c) v)"
  using assms by (simp add: branchIssue_def split: option.split)

lemma agrees_if:
  assumes "\<And>k c q w. k \<in> {''if'', ''then'', ''else''} \<Longrightarrow> gm_get rule k = Some c \<Longrightarrow> agrees (check (node c) v q w) (sat (node c) v)"
  shows "agrees (ifIssue check rule v path with') (\<forall>c. gm_get rule ''if'' = Some c \<longrightarrow>
          (if sat (node c) v then \<forall>t. gm_get rule ''then'' = Some t \<longrightarrow> sat (node t) v
           else \<forall>e. gm_get rule ''else'' = Some e \<longrightarrow> sat (node e) v))"
proof (cases "gm_get rule ''if''")
  case (Some c)
  have c: "agrees (check (node c) v path []) (sat (node c) v)" by (rule assms[OF _ Some]) simp
  have t: "agrees (branchIssue check ''then'' rule v path r) (\<forall>t. gm_get rule ''then'' = Some t \<longrightarrow> sat (node t) v)" for r
    by (rule agrees_branch, rule assms) simp_all
  have e: "agrees (branchIssue check ''else'' rule v path r) (\<forall>t. gm_get rule ''else'' = Some t \<longrightarrow> sat (node t) v)" for r
    by (rule agrees_branch, rule assms) simp_all
  show ?thesis
  proof (cases "sat (node c) v")
    case True
    then have "check (node c) v path [] = Some None" using c by (simp add: agrees_def)
    with True t Some show ?thesis by (simp add: ifIssue_def)
  next
    case False
    then obtain i where "check (node c) v path [] = Some (Some i)" using c by (auto simp: agrees_def)
    with False e Some show ?thesis by (simp add: ifIssue_def)
  qed
qed (simp add: ifIssue_def)

lemma schema_agrees:
  assumes "fits defs n (AObj rule)"
  shows "agrees (schemaIssue hi defs n rule v path with') (accepts hi defs n rule v)"
  using assms
proof (induction n arbitrary: rule v path with')
  case (Suc n)
  show ?case
  proof (cases "\<exists>ref. gm_get rule ''$ref'' = Some (AStr ref)")
    case True
    then obtain ref where r: "gm_get rule ''$ref'' = Some (AStr ref)" ..
    from Suc.IH[OF fits_ref[OF Suc.prems r]] r show ?thesis by simp
  next
    case False
    let ?i = "schemaIssue hi defs n" and ?a = "accepts hi defs n"
    have ih: "agrees (?i (node c) w q x) (?a (node c) w)" if "gm_get rule k = Some c" for k c w q x
      by (rule Suc.IH[OF fits_node_child[OF Suc.prems that]])
    have props: "agrees (?i (node p) w q x) (?a (node p) w)" if "property rule name = Some p" for name p w q x
      by (rule Suc.IH[OF fits_prop[OF Suc.prems that]])
    have alls: "agrees (?i (node c) w q x) (?a (node c) w)" if "gm_get rule ''allOf'' = Some (AArr cs)" "c \<in> set cs" for cs c w q x
      by (rule Suc.IH[OF fits_list[OF fits_child[OF Suc.prems that(1)] that(2)]])
    have "agrees (keywordIssue hi ?i rule v path with') (keywords_ok hi ?a rule v)"
      unfolding keywordIssue_def keywords_ok_def firstIssue.simps
      by (rule agrees_orElse[OF agrees_basic agrees_orElse[OF agrees_string agrees_orElse[OF agrees_number agrees_orElse[OF agrees_object
        agrees_orElse[OF agrees_array agrees_orElse[OF agrees_allOf agrees_orElse[OF agrees_not agrees_last[OF agrees_if]]]]]]]])
        (auto intro: ih props alls)
    with False show ?thesis by (auto split: option.splits jany.splits)
  qed
qed simp

section \<open>The session schema\<close>

lemma gm_get_Cons [simp]: "gm_get [] k = None" "gm_get ((a, b) # m) k = (if a = k then Some b else gm_get m k)"
  by (simp_all add: gm_get_def)

lemma fits_numeral [simp]:
  "fits defs (numeral k) (AObj (x # m)) \<longleftrightarrow> list_all (\<lambda>x. fits defs (pred_numeral k) (snd x)) (x # m)
     \<and> (case gm_get (x # m) ''$ref'' of Some (AStr ref) \<Rightarrow> fits defs (pred_numeral k) (AObj (refNode defs ref)) | _ \<Rightarrow> True)"
  "fits defs (numeral k) (AObj [])" "fits defs (numeral k) (AArr vs) = list_all (fits defs (pred_numeral k)) vs"
  "fits defs (numeral k) (AStr s)" "fits defs (numeral k) (ANum q)" "fits defs (numeral k) (ABool b)" "fits defs (numeral k) ANull"
  by (simp_all add: numeral_eq_Suc)

text \<open>The definitions other definitions refer to.\<close>

lemma ref_SpawnFailedData: "refNode schemaDefinitions ''#/$defs/SpawnFailedData'' = node schema_SpawnFailedData"
  by (simp add: refNode_def refName_def schemaDefinitions_def)

lemma ref_ExtraArgument: "refNode schemaDefinitions ''#/$defs/ExtraArgument'' = node schema_ExtraArgument"
  by (simp add: refNode_def refName_def schemaDefinitions_def)

lemma ref_DeliverySource: "refNode schemaDefinitions ''#/$defs/DeliverySource'' = node schema_DeliverySource"
  by (simp add: refNode_def refName_def schemaDefinitions_def)

lemma ref_LanePolicy: "refNode schemaDefinitions ''#/$defs/LanePolicy'' = node schema_LanePolicy"
  by (simp add: refNode_def refName_def schemaDefinitions_def)

lemma ref_HostProducts: "refNode schemaDefinitions ''#/$defs/HostProducts'' = node schema_HostProducts"
  by (simp add: refNode_def refName_def schemaDefinitions_def)

lemma ref_MessageSendDelivery: "refNode schemaDefinitions ''#/$defs/MessageSendDelivery'' = node schema_MessageSendDelivery"
  by (simp add: refNode_def refName_def schemaDefinitions_def)

lemma ref_DeliveryReceipt: "refNode schemaDefinitions ''#/$defs/DeliveryReceipt'' = node schema_DeliveryReceipt"
  by (simp add: refNode_def refName_def schemaDefinitions_def)

lemma ref_SessionOpenOptions: "refNode schemaDefinitions ''#/$defs/SessionOpenOptions'' = node schema_SessionOpenOptions"
  by (simp add: refNode_def refName_def schemaDefinitions_def)

lemma ref_TurnRunResult: "refNode schemaDefinitions ''#/$defs/TurnRunResult'' = node schema_TurnRunResult"
  by (simp add: refNode_def refName_def schemaDefinitions_def)

lemma ref_SessionSummary: "refNode schemaDefinitions ''#/$defs/SessionSummary'' = node schema_SessionSummary"
  by (simp add: refNode_def refName_def schemaDefinitions_def)

lemma ref_SessionSelfInfo: "refNode schemaDefinitions ''#/$defs/SessionSelfInfo'' = node schema_SessionSelfInfo"
  by (simp add: refNode_def refName_def schemaDefinitions_def)

lemma ref_RPCError: "refNode schemaDefinitions ''#/$defs/RPCError'' = node schema_RPCError"
  by (simp add: refNode_def refName_def schemaDefinitions_def)

lemmas schema_refs = ref_SpawnFailedData ref_ExtraArgument ref_DeliverySource ref_LanePolicy ref_HostProducts ref_MessageSendDelivery ref_DeliveryReceipt ref_SessionOpenOptions ref_TurnRunResult ref_SessionSummary ref_SessionSelfInfo ref_RPCError

lemma session_schema_fits: "list_all (\<lambda>x. fits schemaDefinitions 14 (snd x)) schemaDefinitions"
  by (subst (2) schemaDefinitions_def) (simp add: schema_defs_only schema_refs node_def)

lemma schema_member:
  assumes "gm_get schemaDefinitions name = Some d"
  shows "fits schemaDefinitions 14 (AObj (node d))"
proof -
  have "(name, d) \<in> set schemaDefinitions" using assms by (simp add: gm_get_def map_of_SomeD)
  then have "fits schemaDefinitions 14 d" using session_schema_fits by (force simp: list_all_iff)
  then show ?thesis by (rule fits_node)
qed

datatype schemaError = UnknownDefinition | NotJSON | Issue complaint

text \<open>
  \<open>validateDefinition\<close>, after the bytes have been parsed: \<open>None\<close> stands for bytes that are not JSON. The
  fuel is the depth of the schema. The result is an error or none.
\<close>

definition validateDefinition :: "(nat \<Rightarrow> bool) \<Rightarrow> gostring \<Rightarrow> jany option \<Rightarrow> schemaError option option" where
  "validateDefinition hi name raw =
     (case gm_get schemaDefinitions name of
        None \<Rightarrow> Some (Some UnknownDefinition)
      | Some d \<Rightarrow>
          (case raw of
             None \<Rightarrow> Some (Some NotJSON)
           | Some v \<Rightarrow> map_option (map_option Issue) (schemaIssue hi schemaDefinitions 14 (node d) v [] [])))"

lemma validate_accepts:
  assumes "gm_get schemaDefinitions name = Some d"
  shows "validateDefinition hi name (Some v) \<noteq> None"
    "validateDefinition hi name (Some v) = Some None \<longleftrightarrow> accepts hi schemaDefinitions 14 (node d) v"
  using schema_agrees[OF schema_member[OF assms], of hi v "[]" "[]"] assms
  by (auto simp: validateDefinition_def agrees_def)

section \<open>Error objects\<close>

definition errorValue :: "int \<Rightarrow> gostring \<Rightarrow> jany option \<Rightarrow> jany" where
  "errorValue code message data =
     AObj ([(''code'', ANum (of_int code)), (''message'', AStr message)] @ (case data of None \<Rightarrow> [] | Some x \<Rightarrow> [(''data'', x)]))"

text \<open>What the shapes of rules in the schema mean.\<close>

lemmas keyword_defs = keywords_ok_def basic_ok_def string_ok_def number_ok_def fields_ok_def unique_ok_def property_def stringsOf_def number_def
  has_def node_def

lemma shape_const: "accepts hi defs (Suc n) (node (AObj [(''const'', e)])) v \<longleftrightarrow> deepEqual v e \<and> (\<forall>s. v = AStr s \<longrightarrow> validString s)"
  by (auto simp: keyword_defs)

lemma shape_required: "accepts hi defs (Suc n) (node (AObj [(''required'', AArr [AStr k])])) (AObj obj) \<longleftrightarrow> gm_get obj k \<noteq> None"
  by (simp add: keyword_defs)

lemma shape_not: "accepts hi defs (Suc n) (node (AObj [(''not'', r)])) (AObj obj) \<longleftrightarrow> \<not> accepts hi defs n (node r) (AObj obj)"
  by (simp add: keyword_defs)

lemma shape_properties:
  "accepts hi defs (Suc n) (node (AObj [(''properties'', AObj [(k, r)])])) (AObj obj) \<longleftrightarrow> (\<forall>(name, c) \<in> set obj. name = k \<longrightarrow> accepts hi defs n (node r) c)"
  by (auto simp: keyword_defs split: if_splits)

lemma shape_properties_required:
  "accepts hi defs (Suc n) (node (AObj [(''properties'', AObj [(k, r)]), (''required'', AArr [AStr k'])])) (AObj obj)
     \<longleftrightarrow> gm_get obj k' \<noteq> None \<and> (\<forall>(name, c) \<in> set obj. name = k \<longrightarrow> accepts hi defs n (node r) c)"
  "accepts hi defs (Suc n) (node (AObj [(''required'', AArr [AStr k']), (''properties'', AObj [(k, r)])])) (AObj obj)
     \<longleftrightarrow> gm_get obj k' \<noteq> None \<and> (\<forall>(name, c) \<in> set obj. name = k \<longrightarrow> accepts hi defs n (node r) c)"
  by (auto simp: keyword_defs split: if_splits)

lemma shape_if:
  "accepts hi defs (Suc n) (node (AObj [(''if'', c), (''then'', t)])) (AObj obj)
     \<longleftrightarrow> (accepts hi defs n (node c) (AObj obj) \<longrightarrow> accepts hi defs n (node t) (AObj obj))"
  "accepts hi defs (Suc n) (node (AObj [(''if'', c), (''then'', t), (''else'', e)])) (AObj obj)
     \<longleftrightarrow> (if accepts hi defs n (node c) (AObj obj) then accepts hi defs n (node t) (AObj obj) else accepts hi defs n (node e) (AObj obj))"
  by (simp_all add: keyword_defs)

lemma shape_enum:
  "accepts hi defs (Suc n) (node (AObj [(''enum'', AArr vs)])) v \<longleftrightarrow> (\<exists>e \<in> set vs. deepEqual e v) \<and> (\<forall>s. v = AStr s \<longrightarrow> validString s)"
  by (auto simp: keyword_defs)

lemma shape_any: "accepts hi defs (Suc n) (node (AObj [])) v \<longleftrightarrow> (\<forall>s. v = AStr s \<longrightarrow> validString s)"
  by (auto simp: keyword_defs)

lemma shape_ref: "accepts hi defs (Suc n) (node (AObj [(''$ref'', AStr ref)])) v \<longleftrightarrow> accepts hi defs n (refNode defs ref) v"
  by (simp add: node_def)

lemma shape_string: "accepts hi defs (Suc n) (node (AObj [(''type'', AStr ''string''), (''minLength'', ANum 1)])) v \<longleftrightarrow> (\<exists>s. v = AStr s \<and> s \<noteq> [] \<and> validString s)"
proof (cases v)
  case (AStr s)
  have "(1 :: rat) \<le> rat_of_nat (runeCount s) \<longleftrightarrow> s \<noteq> []" using runeCount_bounds(2)[of s] by (cases "runeCount s") auto
  then show ?thesis using AStr by (auto simp: keyword_defs validType_def)
qed (simp_all add: keyword_defs validType_def)

lemma shape_object:
  "accepts hi defs (Suc n) (node (AObj [(''type'', AStr ''object''), (''additionalProperties'', ABool False), (''required'', AArr req),
       (''properties'', AObj ps), (''allOf'', AArr cs)])) (AObj obj)
     \<longleftrightarrow> (\<forall>name \<in> set (stringsOf (Some (AArr req))). gm_get obj name \<noteq> None) \<and> (\<forall>name \<in> fst ` set obj. gm_get ps name \<noteq> None)
       \<and> (\<forall>(name, c) \<in> set obj. \<forall>p. gm_get ps name = Some p \<longrightarrow> accepts hi defs n (node p) c)
       \<and> (\<forall>c \<in> set cs. accepts hi defs n (node c) (AObj obj))"
  by (auto simp: keyword_defs validType_def)

lemmas shapes = shape_const shape_required shape_not shape_properties shape_properties_required shape_if shape_enum shape_any shape_ref shape_string

lemma validString_ascii: "list_all (\<lambda>c. of_char c < (128 :: nat)) s \<Longrightarrow> validString s"
proof -
  have "list_all (\<lambda>b. b < 128) bs \<Longrightarrow> validBytes bs" for bs
    by (induction bs) (simp_all add: decodeRune_def)
  then show "list_all (\<lambda>c. of_char c < (128 :: nat)) s \<Longrightarrow> validString s" by (simp add: validString_def list_all_iff)
qed

lemma error_messages_valid: "map_of errorMessages code = Some message \<Longrightarrow> validString message"
proof (rule validString_ascii)
  assume "map_of errorMessages code = Some message"
  then have "message \<in> set (map snd errorMessages)" by (force dest: map_of_SomeD)
  then show "list_all (\<lambda>c. of_char c < (128 :: nat)) message" by (auto simp: errorMessages_def)
qed

lemma keywords_cong:
  assumes "\<And>k c w. gm_get rule k = Some c \<Longrightarrow> f (node c) w = g (node c) w"
    "\<And>name p w. property rule name = Some p \<Longrightarrow> f (node p) w = g (node p) w"
    "\<And>cs c w. gm_get rule ''allOf'' = Some (AArr cs) \<Longrightarrow> c \<in> set cs \<Longrightarrow> f (node c) w = g (node c) w"
  shows "keywords_ok hi f rule v = keywords_ok hi g rule v"
proof -
  have 1: "(\<forall>(name, child) \<in> set obj. \<forall>p. property rule name = Some p \<longrightarrow> f (node p) child)
      = (\<forall>(name, child) \<in> set obj. \<forall>p. property rule name = Some p \<longrightarrow> g (node p) child)" for obj
    using assms(2) by auto
  have 2: "(\<forall>item. gm_get rule ''items'' = Some item \<longrightarrow> (\<forall>x \<in> set xs. f (node item) x))
      = (\<forall>item. gm_get rule ''items'' = Some item \<longrightarrow> (\<forall>x \<in> set xs. g (node item) x))" for xs
    using assms(1) by auto
  have 3: "(\<forall>cs. gm_get rule ''allOf'' = Some (AArr cs) \<longrightarrow> (\<forall>c \<in> set cs. f (node c) v))
      = (\<forall>cs. gm_get rule ''allOf'' = Some (AArr cs) \<longrightarrow> (\<forall>c \<in> set cs. g (node c) v))"
    using assms(3) by auto
  have 4: "(\<forall>c. gm_get rule ''not'' = Some c \<longrightarrow> \<not> f (node c) v) = (\<forall>c. gm_get rule ''not'' = Some c \<longrightarrow> \<not> g (node c) v)"
    using assms(1) by auto
  have 5: "(\<forall>c. gm_get rule ''if'' = Some c \<longrightarrow> (if f (node c) v then \<forall>t. gm_get rule ''then'' = Some t \<longrightarrow> f (node t) v
           else \<forall>e. gm_get rule ''else'' = Some e \<longrightarrow> f (node e) v))
      = (\<forall>c. gm_get rule ''if'' = Some c \<longrightarrow> (if g (node c) v then \<forall>t. gm_get rule ''then'' = Some t \<longrightarrow> g (node t) v
           else \<forall>e. gm_get rule ''else'' = Some e \<longrightarrow> g (node e) v))"
    using assms(1) by auto
  show ?thesis unfolding keywords_ok_def 1 2 3 4 5 ..
qed

lemma accepts_fuel:
  assumes "fits defs n (AObj rule)" "n \<le> m"
  shows "accepts hi defs m rule v = accepts hi defs n rule v"
  using assms
proof (induction n arbitrary: m rule v)
  case (Suc n)
  obtain k where k: "m = Suc k" "n \<le> k" using Suc.prems(2) by (cases m) auto
  have ih: "accepts hi defs k (node c) w = accepts hi defs n (node c) w" if "gm_get rule a = Some c" for a c w
    by (rule Suc.IH[OF fits_node_child[OF Suc.prems(1) that] k(2)])
  have "keywords_ok hi (accepts hi defs k) rule v = keywords_ok hi (accepts hi defs n) rule v"
    by (rule keywords_cong)
      (erule ih, rule Suc.IH[OF fits_prop[OF Suc.prems(1)] k(2)], assumption, rule Suc.IH[OF fits_list[OF fits_child[OF Suc.prems(1)]] k(2)])
  moreover have "accepts hi defs k (refNode defs ref) v = accepts hi defs n (refNode defs ref) v" if "gm_get rule ''$ref'' = Some (AStr ref)" for ref
    by (rule Suc.IH[OF fits_ref[OF Suc.prems(1) that] k(2)])
  ultimately show ?case by (simp add: k split: option.split jany.split)
qed simp

lemma spawn_data_fuel:
  assumes "5 \<le> n"
  shows "accepts hi schemaDefinitions n (node schema_SpawnFailedData) x \<longleftrightarrow> validateDefinition hi ''SpawnFailedData'' (Some x) = Some None"
proof -
  have f: "fits schemaDefinitions 5 (AObj (node schema_SpawnFailedData))" by (simp add: schema_SpawnFailedData_def node_def)
  have d: "gm_get schemaDefinitions ''SpawnFailedData'' = Some schema_SpawnFailedData" by (simp add: schemaDefinitions_def)
  have "accepts hi schemaDefinitions 14 (node schema_SpawnFailedData) x = accepts hi schemaDefinitions 5 (node schema_SpawnFailedData) x"
    by (rule accepts_fuel[OF f]) simp
  then show ?thesis using validate_accepts(2)[OF d] accepts_fuel[OF f assms] by simp
qed

lemma rat_code: "rat_of_int code = - numeral k \<longleftrightarrow> code = - numeral k"
  by (metis of_int_eq_iff of_int_minus of_int_numeral)

definition error_ok :: "(nat \<Rightarrow> bool) \<Rightarrow> int \<Rightarrow> gostring \<Rightarrow> jany option \<Rightarrow> bool" where
  "error_ok hi code message data \<longleftrightarrow> map_of errorMessages code = Some message
     \<and> (if code = SpawnFailed then \<exists>x. data = Some x \<and> validateDefinition hi ''SpawnFailedData'' (Some x) = Some None
        else if code = Internal then \<exists>s. data = Some (AStr s) \<and> s \<noteq> [] \<and> validString s
        else data = None)"

text \<open>The definition of errors, with its lists written as lists over the table of messages.\<close>

definition codeRule :: "int \<times> gostring \<Rightarrow> jany" where
  "codeRule x = AObj [(''if'', AObj [(''properties'', AObj [(''code'', AObj [(''const'', ANum (of_int (fst x)))])])]),
     (''then'', AObj [(''properties'', AObj [(''message'', AObj [(''const'', AStr (snd x))])])])]"

definition codeCondition :: "int \<Rightarrow> jany" where
  "codeCondition c = AObj [(''properties'', AObj [(''code'', AObj [(''const'', ANum (of_int c))])]), (''required'', AArr [AStr ''code''])]"

definition dataRule :: jany where
  "dataRule = AObj [(''if'', codeCondition SpawnFailed),
     (''then'', AObj [(''required'', AArr [AStr ''data'']), (''properties'', AObj [(''data'', AObj [(''$ref'', AStr ''#/$defs/SpawnFailedData'')])])]),
     (''else'', AObj [(''if'', codeCondition Internal),
       (''then'', AObj [(''required'', AArr [AStr ''data'']), (''properties'', AObj [(''data'', AObj [(''type'', AStr ''string''), (''minLength'', ANum 1)])])]),
       (''else'', AObj [(''not'', AObj [(''required'', AArr [AStr ''data''])])])])]"

definition ruleOrder :: "(int \<times> gostring) list" where
  "ruleOrder = filter (\<lambda>x. fst x \<noteq> Internal) errorMessages @ [(Internal, ''internal'')]"

lemma rpc_rule:
  "schema_RPCError = AObj [(''type'', AStr ''object''), (''additionalProperties'', ABool False), (''required'', AArr [AStr ''code'', AStr ''message'']),
     (''properties'', AObj [(''code'', AObj [(''enum'', AArr (map (\<lambda>x. ANum (of_int (fst x))) errorMessages))]),
        (''message'', AObj [(''enum'', AArr (map (\<lambda>x. AStr (snd x)) errorMessages))]), (''data'', AObj [])]),
     (''allOf'', AArr (map codeRule ruleOrder @ [dataRule]))]"
  by (simp add: schema_RPCError_def errorMessages_def ruleOrder_def codeRule_def dataRule_def codeCondition_def)

lemma set_ruleOrder: "set ruleOrder = set errorMessages"
  by (auto simp: ruleOrder_def errorMessages_def)

lemma error_codes_distinct: "distinct (map fst errorMessages)"
  by (simp add: errorMessages_def)

lemma map_of_unique:
  assumes "distinct (map fst xs)"
  shows "map_of xs k = Some v \<longleftrightarrow> (\<exists>x \<in> set xs. fst x = k) \<and> (\<forall>x \<in> set xs. k = fst x \<longrightarrow> v = snd x)"
  using assms by (metis (no_types, lifting) eq_key_imp_eq_value map_of_SomeD map_of_is_SomeI prod.collapse fst_conv snd_conv)

lemma spawn_data_object: "validateDefinition hi ''SpawnFailedData'' (Some (AStr s)) \<noteq> Some None"
proof -
  have d: "gm_get schemaDefinitions ''SpawnFailedData'' = Some schema_SpawnFailedData" by (simp add: schemaDefinitions_def)
  obtain n where n: "14 = Suc n" by (rule that[of 13]) simp
  have "\<not> accepts hi schemaDefinitions (Suc n) (node schema_SpawnFailedData) (AStr s)"
    by (simp add: schema_SpawnFailedData_def node_def keywords_ok_def basic_ok_def validType_def)
  then show ?thesis using validate_accepts(2)[OF d] n by simp
qed

lemma accepts_codeRule:
  "accepts hi defs (Suc (Suc (Suc n))) (node (codeRule x)) (errorValue code message data)
     \<longleftrightarrow> (code = fst x \<longrightarrow> message = snd x \<and> validString message)"
  by (auto simp: codeRule_def errorValue_def shapes split: option.splits simp del: accepts.simps)

lemma accepts_dataRule:
  "accepts hi schemaDefinitions (Suc (Suc (Suc (Suc (Suc n))))) (node dataRule) (errorValue code message data)
     \<longleftrightarrow> (if code = SpawnFailed then \<exists>x. data = Some x \<and> accepts hi schemaDefinitions (Suc (Suc n)) (node schema_SpawnFailedData) x
         else if code = Internal then \<exists>s. data = Some (AStr s) \<and> s \<noteq> [] \<and> validString s
         else data = None)"
  by (auto simp: dataRule_def codeCondition_def errorValue_def shapes schema_refs rat_code split: option.splits simp del: accepts.simps)

lemma rpc_error_shape:
  "accepts hi schemaDefinitions 14 (node schema_RPCError) (errorValue code message data) \<longleftrightarrow> error_ok hi code message data"
proof -
  obtain n where n: "14 = Suc (Suc (Suc (Suc (Suc (Suc n)))))" "5 \<le> Suc (Suc n)" by (rule that[of 8]) simp_all
  let ?V = "errorValue code message data"
  have top: "accepts hi schemaDefinitions 14 (node schema_RPCError) ?V \<longleftrightarrow>
      (\<exists>x \<in> set errorMessages. fst x = code) \<and> (\<exists>x \<in> set errorMessages. snd x = message) \<and> validString message
      \<and> (\<forall>s. data = Some (AStr s) \<longrightarrow> validString s)
      \<and> (\<forall>x \<in> set errorMessages. accepts hi schemaDefinitions (Suc (Suc (Suc (Suc (Suc n))))) (node (codeRule x)) ?V)
      \<and> accepts hi schemaDefinitions (Suc (Suc (Suc (Suc (Suc n))))) (node dataRule) ?V"
    unfolding rpc_rule n(1) errorValue_def shape_object
    by (auto simp: shape_enum shape_any stringsOf_def set_ruleOrder simp del: accepts.simps split: option.splits)
  note m = map_of_unique[OF error_codes_distinct, of code message]
  have m2: "(\<exists>x \<in> set errorMessages. snd x = message) \<and> validString message" if "map_of errorMessages code = Some message"
    using error_messages_valid[OF that] map_of_SomeD[OF that] by (metis snd_conv)
  have s: "accepts hi schemaDefinitions (Suc (Suc n)) (node schema_SpawnFailedData) x \<longleftrightarrow> validateDefinition hi ''SpawnFailedData'' (Some x) = Some None" for x
    by (rule spawn_data_fuel[OF n(2)])
  define dok where "dok \<longleftrightarrow> (if code = SpawnFailed then \<exists>x. data = Some x \<and> validateDefinition hi ''SpawnFailedData'' (Some x) = Some None
      else if code = Internal then \<exists>s. data = Some (AStr s) \<and> s \<noteq> [] \<and> validString s else data = None)"
  have d: "\<forall>s. data = Some (AStr s) \<longrightarrow> validString s" if dok
    using that spawn_data_object unfolding dok_def by (auto split: if_splits)
  have e: "error_ok hi code message data \<longleftrightarrow> map_of errorMessages code = Some message \<and> dok" by (simp add: error_ok_def dok_def)
  show ?thesis unfolding top accepts_codeRule accepts_dataRule s e dok_def[symmetric] m using m2[unfolded m] d by blast
qed

section \<open>Properties\<close>

text \<open>
  C24: validating a parsed value against any definition of the session schema ends, and it finds no issue exactly
  when the value satisfies every keyword of the definition, references included, in whatever order
  the members of its objects come.
\<close>

theorem validator_decides_schema:
  assumes "gm_get schemaDefinitions name = Some d"
  shows "\<exists>e. validateDefinition hi name (Some v) = Some e \<and> (e = None \<longleftrightarrow> accepts hi schemaDefinitions 14 (node d) v)"
  using validate_accepts[OF assms, of hi v] by fastforce

theorem validator_decides_schema_witness:
  "gm_get schemaDefinitions ''SessionCloseResult'' = Some schema_SessionCloseResult
    \<and> (\<exists>e. validateDefinition (\<lambda>r. False) ''SessionCloseResult'' (Some (AObj [(''x'', ANull)])) = Some e
         \<and> (e = None) = accepts (\<lambda>r. False) schemaDefinitions 14 (node schema_SessionCloseResult) (AObj [(''x'', ANull)]))"
proof -
  have "gm_get schemaDefinitions ''SessionCloseResult'' = Some schema_SessionCloseResult" by (simp add: schemaDefinitions_def)
  from this validator_decides_schema[OF this, of "\<lambda>r. False" "AObj [(''x'', ANull)]"] show ?thesis by blast
qed

text \<open>
  C23: an error object passes the schema, when it is written and when it is read, exactly when its message is the one of its
  code and it has data for \<open>spawn_failed\<close> (of the type of that error) and \<open>internal\<close> (a
  text that is not empty) and for no other code.
\<close>

theorem error_objects_accepted:
  "validateDefinition hi ''RPCError'' (Some (errorValue code message data)) = Some None \<longleftrightarrow>
     map_of errorMessages code = Some message
     \<and> (if code = SpawnFailed then \<exists>x. data = Some x \<and> validateDefinition hi ''SpawnFailedData'' (Some x) = Some None
        else if code = Internal then \<exists>s. data = Some (AStr s) \<and> s \<noteq> [] \<and> validString s
        else data = None)"
proof -
  have "gm_get schemaDefinitions ''RPCError'' = Some schema_RPCError" by (simp add: schemaDefinitions_def)
  from validate_accepts(2)[OF this] rpc_error_shape show ?thesis by (simp add: error_ok_def)
qed

text \<open>
  The error the federation answers a request with that does not fit a frame has data, so the peer
  that reads it refuses the frame.
\<close>

lemma limit_error_refused:
  "rp_Error (errorReply InvalidFrame (Some (DText t))) = Some \<lparr>er_Code = InvalidFrame, er_Message = ''invalid_frame'', er_Data = Some (DText t)\<rparr>
    \<and> validateDefinition hi ''RPCError'' (Some (errorValue InvalidFrame ''invalid_frame'' (Some (AStr t)))) \<noteq> Some None"
proof -
  have "gm_get schemaDefinitions ''RPCError'' = Some schema_RPCError" by (simp add: schemaDefinitions_def)
  from validate_accepts(2)[OF this] rpc_error_shape show ?thesis by (simp add: error_ok_def errorReply_def errorMessages_def)
qed

end
