(* ===== verification/FedCheck.thy ===== *)
theory FedCheck
  imports Validate Naming
begin

text \<open>
  The checks of the federation package on what crosses the hub: which host a request is for
  (\<open>forward.go\<close>), who may ask what in whose name, the rules of traces and completions (\<open>trace.go\<close>,
  \<open>wake.go\<close>), the trace envelope of a reply, and the size limit of a frame (\<open>frame.go\<close>).

  A raw JSON value is the value it decodes to together with what the sources look at in the text:
  whether a key is present, and what its text decodes to. The length of a JSON text, the JSON
  parser on the \<open>data\<close> of a received error and the Unicode table are the environment \<open>fedEnv\<close>.
\<close>

section \<open>Protocols of a link (\<open>roster.go\<close>, \<open>trace.go\<close>, \<open>wake.go\<close>)\<close>

abbreviation RosterALPN :: gostring where "RosterALPN \<equiv> ''sessionbus-roster/1''"
abbreviation TraceALPN :: gostring where "TraceALPN \<equiv> ''sessionbus-trace/1''"
abbreviation WakeALPN :: gostring where "WakeALPN \<equiv> ''sessionbus-wake/1''"

abbreviation hostsMethod :: gostring where "hostsMethod \<equiv> ''federation.hosts''"
abbreviation forwardMethod :: gostring where "forwardMethod \<equiv> ''federation.forward''"
abbreviation rosterMethod :: gostring where "rosterMethod \<equiv> ''federation.roster''"
abbreviation ownerEndMethod :: gostring where "ownerEndMethod \<equiv> ''federation.owner_end''"
abbreviation hostEndMethod :: gostring where "hostEndMethod \<equiv> ''federation.host_end''"

text \<open>The argument is the negotiated protocol of the connection; a connection without TLS has none.\<close>

definition SupportsRoster :: "gostring \<Rightarrow> bool" where
  "SupportsRoster alpn \<longleftrightarrow> alpn = WakeALPN \<or> alpn = TraceALPN \<or> alpn = RosterALPN"

definition SupportsTrace :: "gostring \<Rightarrow> bool" where
  "SupportsTrace alpn \<longleftrightarrow> alpn = WakeALPN \<or> alpn = TraceALPN"

definition SupportsWake :: "gostring \<Rightarrow> bool" where
  "SupportsWake alpn \<longleftrightarrow> alpn = WakeALPN"

section \<open>Raw values\<close>

text \<open>
  A forwarded request as received: the decoded value, whether \<open>from\<close> has the key \<open>name\<close>, and per
  optional key of \<open>request\<close> whether it is present and what it holds (\<open>Some None\<close> is a value that is
  not a Boolean, a null copy is \<open>Some True\<close>).
\<close>

record rawForward =
  rf_value :: Forward
  rf_name :: bool
  rf_trace :: "bool option option"
  rf_copyNull :: "bool option"
  rf_completion :: "bool option option"

datatype fedparams =
    FPEmpty
  | FPForward rawForward
  | FPOwnerEnd OwnerEnd
  | FPHostEnd HostEnd
  | FPOther

text \<open>A recipient in an envelope: its value and whether its owner has the key \<open>name\<close>.\<close>

datatype rawRecipient = RawRecipient TraceRecipient bool | BadRecipient

record traceReplyEnvelope =
  te_Result :: "result option"
  te_Error :: "RPCError option"
  te_Trace :: "rawRecipient list option"

text \<open>The result of a response: an ordinary value, or an envelope.\<close>

datatype fedresult = FResult result | FTrace traceReplyEnvelope | FOther

record fedframe =
  ff_ID :: int
  ff_Method :: gostring
  ff_Params :: fedparams
  ff_Result :: "fedresult option"
  ff_Error :: "RPCError option"
  ff_Request :: bool

text \<open>A frame as it is sent.\<close>

datatype fedout =
    FRequest int gostring fedparams
  | FResultOut int fedresult
  | FErrorOut int RPCError

record fedEnv =
  ev_hi :: "nat \<Rightarrow> bool"
  ev_parse :: "gostring \<Rightarrow> jany"
  ev_len :: "fedout \<Rightarrow> nat"
  ev_resultLen :: "result \<Rightarrow> nat"
  ev_hostLen :: "Host \<Rightarrow> nat"

section \<open>Requests (\<open>forward.go\<close>)\<close>

definition validCaller :: "(nat \<Rightarrow> bool) \<Rightarrow> Caller \<Rightarrow> gostring \<Rightarrow> bool" where
  "validCaller hi caller host \<longleftrightarrow>
     ownedPart hi (fc_SessionID caller) host False
     \<and> (fc_Name caller = [] \<or> ownedPart hi (fc_Name caller) host True)
     \<and> validToken (fc_Product caller)
     \<and> take 8 (fc_PrivateGroup caller) = ''session:''
     \<and> fc_PrivateGroup caller \<in> set (fc_Groups caller)
     \<and> uniqueStrings (fc_Groups caller)"

definition hostField :: "gostring \<Rightarrow> gostring option" where
  "hostField host = (if fedValidHost host then Some host else None)"

text \<open>The host of the first label, if every other label names the same.\<close>

definition labelsHost :: "gostring list \<Rightarrow> gostring option" where
  "labelsHost labels =
     (case labels of
        [] \<Rightarrow> None
      | first # rest \<Rightarrow>
          let host = suffix first in
          if \<exists>label \<in> set rest. suffix label = None \<or> suffix label \<noteq> host then None else host)"

definition fedTargetHost :: "PublicRequest \<Rightarrow> gostring option" where
  "fedTargetHost request =
     (case DecodeParams (pr_Method request) (pr_Params request) of
        None \<Rightarrow> None
      | Some (PList v) \<Rightarrow> if sl_SessionID v \<noteq> [] then suffix (sl_SessionID v) else hostField (sl_Host v)
      | Some (PSend v) \<Rightarrow>
          if ms_Group v \<noteq> [] then hostField (ms_Host v)
          else labelsHost (if ms_Target v \<noteq> [] then [ms_Target v] else ms_Targets v)
      | Some (PDescribe v) \<Rightarrow> hostField (ld_Host v)
      | Some (PSpawn v) \<Rightarrow> if ls_ResumeSessionID v \<noteq> [] then suffix (ls_ResumeSessionID v) else hostField (ls_Host v)
      | Some (PTrace v) \<Rightarrow> suffix (tc_SessionID v)
      | Some (PRun v) \<Rightarrow> suffix (tq_SessionID v)
      | Some (PRead v) \<Rightarrow> suffix (rq_SessionID v)
      | Some (PWait v) \<Rightarrow> suffix (wq_SessionID v)
      | Some (PRunRef v) \<Rightarrow> suffix (rr_SessionID v)
      | Some (PTarget v) \<Rightarrow> suffix (st_SessionID v)
      | Some (PClose v) \<Rightarrow> suffix (sc_SessionID v)
      | Some _ \<Rightarrow> None)"

section \<open>Traces and completions of a request (\<open>trace.go\<close>, \<open>wake.go\<close>)\<close>

abbreviation MaxTraceRecipients :: nat where "MaxTraceRecipients \<equiv> 256"

definition requestRequiresTrace :: "PublicRequest \<Rightarrow> bool" where
  "requestRequiresTrace request =
     (if pr_TraceCopy request \<noteq> None \<or> pr_Method request = ''trace.configure'' then True
      else if pr_Method request = ''lane.spawn'' then
        (case pr_Params request of Some (PSpawn v) \<Rightarrow> ls_Trace v \<noteq> [] | _ \<Rightarrow> False)
      else False)"

definition validTraceDestination :: "TraceDestination \<Rightarrow> bool" where
  "validTraceDestination v \<longleftrightarrow>
     td_Lifetime v \<noteq> [] \<and> length (td_Lifetime v) \<le> 1024 \<and> td_SessionID v \<noteq> [] \<and> length (td_SessionID v) \<le> 1024"

text \<open>The checks return whether the request is valid.\<close>

definition validateTraceRequest :: "PublicRequest \<Rightarrow> rawForward \<Rightarrow> bool" where
  "validateTraceRequest request raw =
     (if (case rf_trace raw of None \<Rightarrow> False | Some enabled \<Rightarrow> enabled \<noteq> Some True \<or> \<not> pr_Trace request) then False
      else if (case rf_copyNull raw of None \<Rightarrow> False | Some isnull \<Rightarrow> isnull \<or> pr_TraceCopy request = None) then False
      else if pr_Trace request \<and> (pr_Method request \<noteq> ''message.send'' \<or> pr_TraceCopy request \<noteq> None) then False
      else case pr_TraceCopy request of
             None \<Rightarrow> True
           | Some copy \<Rightarrow>
               if pr_Method request \<noteq> ''message.send'' \<or> pr_Trace request then False
               else if \<not> validTraceDestination copy then False
               else case DecodeParams (pr_Method request) (pr_Params request) of
                      Some (PSend message) \<Rightarrow>
                        \<not> (ms_Target message \<noteq> td_SessionID copy \<or> ms_Group message \<noteq> [] \<or> length (ms_Targets message) \<noteq> 0)
                    | _ \<Rightarrow> False)"

definition validateCompletionRequest :: "PublicRequest \<Rightarrow> rawForward \<Rightarrow> bool" where
  "validateCompletionRequest request raw =
     (case rf_completion raw of
        None \<Rightarrow> \<not> pr_Completion request
      | Some enabled \<Rightarrow>
          if enabled \<noteq> Some True \<or> \<not> pr_Completion request \<or> pr_Method request \<noteq> ''message.send'' \<or> pr_TraceCopy request \<noteq> None
          then False
          else case DecodeParams (pr_Method request) (pr_Params request) of
                 Some (PSend message) \<Rightarrow> \<not> (ms_Group message \<noteq> [] \<or> (ms_Target message = [] \<and> length (ms_Targets message) \<noteq> 1))
               | _ \<Rightarrow> False)"

text \<open>\<open>decodeForward\<close>: the value and its target host, or an error.\<close>

definition decodeForward :: "(nat \<Rightarrow> bool) \<Rightarrow> fedparams \<Rightarrow> gostring \<Rightarrow> (Forward \<times> gostring) option" where
  "decodeForward hi params source =
     (case params of
        FPForward raw \<Rightarrow>
          let v = rf_value raw; request = fw_Request v in
          if \<not> validCaller hi (fw_From v) source \<or> (pr_Method request = ''message.send'') \<noteq> (pr_MessageID request \<noteq> []) then None
          else if rf_name raw \<and> fc_Name (fw_From v) = [] \<or> \<not> validateTraceRequest request raw \<or> \<not> validateCompletionRequest request raw then None
          else (case fedTargetHost request of
                  None \<Rightarrow> None
                | Some host \<Rightarrow> if host = source then None else Some (v, host))
      | _ \<Rightarrow> None)"

text \<open>\<open>sourceHost\<close> reads the sender's host from its session identifier.\<close>

definition sourceHost :: "fedparams \<Rightarrow> gostring option" where
  "sourceHost params =
     (case params of FPForward raw \<Rightarrow> suffix (fc_SessionID (fw_From (rf_value raw))) | _ \<Rightarrow> suffix [])"

text \<open>The JSON of a \<open>Forward\<close>: a key with \<open>omitempty\<close> is present when its value is not empty.\<close>

definition encodeForward :: "Forward \<Rightarrow> fedparams" where
  "encodeForward v =
     (let r = fw_Request v in
      FPForward \<lparr>rf_value = v, rf_name = (fc_Name (fw_From v) \<noteq> []),
        rf_trace = (if pr_Trace r then Some (Some True) else None),
        rf_copyNull = (if pr_TraceCopy r \<noteq> None then Some False else None),
        rf_completion = (if pr_Completion r then Some (Some True) else None)\<rparr>)"

section \<open>Trace envelopes of replies (\<open>trace.go\<close>)\<close>

definition traceRecipientKey :: "TraceRecipient \<Rightarrow> gostring" where
  "traceRecipientKey r =
     (let z = [CHR 0x00] in
      tt_Child r @ z @ tt_Target r @ z @ tt_Mode r @ z @ tt_Version r @ z @ fc_SessionID (tt_Owner r) @ z
      @ fc_OwnerLifetime (tt_Owner r) @ z @ fc_SourceAttachment (tt_Owner r))"

definition validTraceRecipient :: "(nat \<Rightarrow> bool) \<Rightarrow> TraceRecipient \<Rightarrow> gostring \<Rightarrow> bool" where
  "validTraceRecipient hi v target =
     (case suffix (tt_Child v) of
        None \<Rightarrow> False
      | Some childHost \<Rightarrow>
          if \<not> ownedPart hi (tt_Child v) childHost False \<or> target \<noteq> [] \<and> childHost \<noteq> target \<or> length (tt_Target v) > 1024
             \<or> tt_Mode v \<noteq> ''events'' \<and> tt_Mode v \<noteq> ''content'' \<or> tt_Version v = [] \<or> length (tt_Version v) > 1024
          then False
          else (case suffix (fc_SessionID (tt_Owner v)) of
                  None \<Rightarrow> False
                | Some ownerHost \<Rightarrow>
                    if \<not> validCaller hi (tt_Owner v) ownerHost \<or> fc_OwnerLifetime (tt_Owner v) = []
                       \<or> length (fc_OwnerLifetime (tt_Owner v)) > 1024 \<or> length (fc_SourceAttachment (tt_Owner v)) > 1024
                    then False
                    else if ownerHost = childHost then fc_SourceAttachment (tt_Owner v) = []
                    else fc_SourceAttachment (tt_Owner v) \<noteq> []))"

text \<open>The loop of \<open>encodeTraceReply\<close>: every recipient valid and none seen before.\<close>

fun encodeRecipients :: "(nat \<Rightarrow> bool) \<Rightarrow> gostring set \<Rightarrow> TraceRecipient list \<Rightarrow> rawRecipient list option" where
  "encodeRecipients hi seen [] = Some []"
| "encodeRecipients hi seen (r # rs) =
     (if \<not> validTraceRecipient hi r [] then None
      else if traceRecipientKey r \<in> seen then None
      else map_option (\<lambda>raws. RawRecipient r (fc_Name (tt_Owner r) \<noteq> []) # raws)
             (encodeRecipients hi (insert (traceRecipientKey r) seen) rs))"

definition encodeTraceReply :: "(nat \<Rightarrow> bool) \<Rightarrow> Reply \<Rightarrow> traceReplyEnvelope option" where
  "encodeTraceReply hi reply =
     (case rp_Trace reply of
        None \<Rightarrow> None
      | Some trace \<Rightarrow>
          if (rp_Result reply = None) = (rp_Error reply = None) \<or> length trace > MaxTraceRecipients then None
          else map_option
                 (\<lambda>raws. \<lparr>te_Result = (if rp_Error reply \<noteq> None then None else rp_Result reply), te_Error = rp_Error reply, te_Trace = Some raws\<rparr>)
                 (encodeRecipients hi {} trace))"

text \<open>\<open>DecodeError\<close> (\<open>validate.go\<close>): an error the schema accepts.\<close>

definition spawnFailedValue :: "SpawnFailedData \<Rightarrow> jany" where
  "spawnFailedValue v =
     AObj ((case sf_ExitCode v of None \<Rightarrow> [] | Some c \<Rightarrow> [(''exit_code'', ANum (of_int c))])
           @ [(''stderr_tail'', AArr (map AStr (sf_StderrTail v)))])"

fun dataValue :: "fedEnv \<Rightarrow> errdata \<Rightarrow> jany" where
  "dataValue E (DText s) = AStr s"
| "dataValue E (DSpawnFailed v) = spawnFailedValue v"
| "dataValue E (DRaw t) = ev_parse E t"

definition DecodeError :: "fedEnv \<Rightarrow> RPCError \<Rightarrow> RPCError option" where
  "DecodeError E e =
     (if validateDefinition (ev_hi E) ''RPCError'' (Some (errorValue (er_Code e) (er_Message e) (map_option (dataValue E) (er_Data e)))) = Some None
      then Some e else None)"

fun decodeTraceRecipient :: "(nat \<Rightarrow> bool) \<Rightarrow> rawRecipient \<Rightarrow> gostring \<Rightarrow> TraceRecipient option" where
  "decodeTraceRecipient hi BadRecipient target = None"
| "decodeTraceRecipient hi (RawRecipient v named) target =
     (if named \<and> fc_Name (tt_Owner v) = [] then None
      else if \<not> validTraceRecipient hi v target then None
      else Some v)"

fun decodeRecipients :: "(nat \<Rightarrow> bool) \<Rightarrow> gostring \<Rightarrow> gostring set \<Rightarrow> rawRecipient list \<Rightarrow> TraceRecipient list option" where
  "decodeRecipients hi target seen [] = Some []"
| "decodeRecipients hi target seen (raw # raws) =
     (case decodeTraceRecipient hi raw target of
        None \<Rightarrow> None
      | Some r \<Rightarrow>
          if traceRecipientKey r \<in> seen then None
          else map_option (\<lambda>rs. r # rs) (decodeRecipients hi target (insert (traceRecipientKey r) seen) raws))"

definition decodeTraceReply :: "fedEnv \<Rightarrow> gostring \<Rightarrow> fedresult \<Rightarrow> gostring \<Rightarrow> Reply option" where
  "decodeTraceReply E method raw target =
     (case raw of
        FTrace envelope \<Rightarrow>
          (case te_Trace envelope of
             None \<Rightarrow> None
           | Some raws \<Rightarrow>
               if length raws > MaxTraceRecipients \<or> (te_Result envelope = None) = (te_Error envelope = None) then None
               else if te_Result envelope \<noteq> None \<and> DecodeResult method (te_Result envelope) = None then None
               else if te_Result envelope = None \<and> DecodeError E (the (te_Error envelope)) = None then None
               else map_option
                      (\<lambda>rs. \<lparr>rp_Result = te_Result envelope, rp_Error = (if te_Result envelope \<noteq> None then None else te_Error envelope), rp_Trace = Some rs\<rparr>)
                      (decodeRecipients (ev_hi E) target {} raws))
      | _ \<Rightarrow> None)"

definition traceUnsupported :: Reply where
  "traceUnsupported = errorReply UnsupportedTrace None"

section \<open>Frames (\<open>frame.go\<close>, \<open>lifetime.go\<close>)\<close>

definition withinFrame :: "fedEnv \<Rightarrow> fedout \<Rightarrow> fedout option" where
  "withinFrame E f = (if ev_len E f + 1 > MaxFrameBytes then None else Some f)"

definition requestBytes :: "fedEnv \<Rightarrow> int \<Rightarrow> gostring \<Rightarrow> fedparams \<Rightarrow> fedout option" where
  "requestBytes E i method params = withinFrame E (FRequest i method params)"

text \<open>\<open>forwardRequestBytes\<close>: the request, or the request without the collection of recipients.\<close>

definition forwardRequestBytes :: "fedEnv \<Rightarrow> int \<Rightarrow> Forward \<Rightarrow> fedout option \<times> Forward" where
  "forwardRequestBytes E i v =
     (let body = requestBytes E i forwardMethod (encodeForward v) in
      if body \<noteq> None \<or> \<not> pr_Trace (fw_Request v) then (body, v)
      else let v' = v\<lparr>fw_Request := (fw_Request v)\<lparr>pr_Trace := False\<rparr>\<rparr>
           in (requestBytes E i forwardMethod (encodeForward v'), v'))"

text \<open>\<open>responseBytes\<close> for a client (\<open>internal\<close> is false): no envelope.\<close>

definition plainResponse :: "fedEnv \<Rightarrow> int \<Rightarrow> Reply \<Rightarrow> fedout option" where
  "plainResponse E i reply =
     (case rp_Error reply of
        Some e \<Rightarrow> withinFrame E (FErrorOut i e)
      | None \<Rightarrow> (case rp_Result reply of None \<Rightarrow> None | Some v \<Rightarrow> withinFrame E (FResultOut i (FResult v))))"

definition responseBytes :: "fedEnv \<Rightarrow> int \<Rightarrow> Reply \<Rightarrow> bool \<Rightarrow> fedout option" where
  "responseBytes E i reply internal =
     (if internal \<and> rp_Trace reply \<noteq> None then
        (case encodeTraceReply (ev_hi E) reply of
           None \<Rightarrow> None
         | Some envelope \<Rightarrow>
             (case withinFrame E (FResultOut i (FTrace envelope)) of
                Some body \<Rightarrow> Some body
              | None \<Rightarrow>
                  (case encodeTraceReply (ev_hi E) (reply\<lparr>rp_Trace := Some []\<rparr>) of
                     None \<Rightarrow> None
                   | Some bare \<Rightarrow>
                       (case withinFrame E (FResultOut i (FTrace bare)) of
                          Some body \<Rightarrow> Some body
                        | None \<Rightarrow> plainResponse E i reply))))
      else plainResponse E i reply)"

definition emptyReply :: Reply where
  "emptyReply = \<lparr>rp_Result = Some VEmpty, rp_Error = None, rp_Trace = None\<rparr>"

definition validControlReply :: "fedframe \<Rightarrow> bool" where
  "validControlReply frame \<longleftrightarrow> ff_Error frame \<noteq> None \<or> ff_Result frame = Some (FResult VEmpty)"

section \<open>Replies to what was asked (\<open>hub.go\<close>, \<open>daemon_link.go\<close>)\<close>

record pendingCall =
  pc_method :: gostring
  pc_reply :: ptr
  pc_trace :: bool
  pc_target :: gostring

text \<open>
  The text of an empty list of hosts is the text of an empty roster: both readings are tried.
\<close>

fun hostsOf :: "result \<Rightarrow> gostring list option" where
  "hostsOf (VHosts hosts) = hosts"
| "hostsOf (VRoster remote) = (if re_Hosts remote = Some [] then Some [] else None)"
| "hostsOf _ = None"

fun remoteOf :: "result \<Rightarrow> Remote option" where
  "remoteOf (VRoster remote) = Some remote"
| "remoteOf (VHosts hosts) = (if hosts = Some [] then Some \<lparr>re_Hosts = Some []\<rparr> else None)"
| "remoteOf _ = None"

definition DecodeHosts :: "Reply \<Rightarrow> gostring list option" where
  "DecodeHosts reply =
     (if rp_Error reply \<noteq> None then None
      else case rp_Result reply of
             None \<Rightarrow> None
           | Some raw \<Rightarrow>
               (case hostsOf raw of
                  None \<Rightarrow> None
                | Some hosts \<Rightarrow>
                    if \<not> uniqueStrings hosts then None
                    else if \<exists>host \<in> set hosts. \<not> fedValidHost host then None
                    else Some hosts))"

definition decodeRosterReply :: "fedEnv \<Rightarrow> result \<Rightarrow> Remote option" where
  "decodeRosterReply E raw = DecodeRemote (remoteOf raw) (ev_resultLen E raw)"

definition rawReply :: "result \<Rightarrow> Reply" where
  "rawReply raw = \<lparr>rp_Result = Some raw, rp_Error = None, rp_Trace = None\<rparr>"

text \<open>
  \<open>decodePendingReply\<close>: the reply a response is, if it is a valid one for the call. A result that
  is not of the method's type is refused on every branch.
\<close>

definition decodePendingReply :: "fedEnv \<Rightarrow> pendingCall \<Rightarrow> fedframe \<Rightarrow> Reply option" where
  "decodePendingReply E call frame =
     (case ff_Error frame of
        Some e \<Rightarrow> Some \<lparr>rp_Result = None, rp_Error = Some e, rp_Trace = None\<rparr>
      | None \<Rightarrow>
          (case ff_Result frame of
             None \<Rightarrow> None
           | Some raw \<Rightarrow>
               if pc_trace call then
                 (case decodeTraceReply E (pc_method call) raw (pc_target call) of
                    Some reply \<Rightarrow> Some reply
                  | None \<Rightarrow>
                      (case raw of
                         FResult v \<Rightarrow>
                           if DecodeResult (pc_method call) (Some v) \<noteq> None then Some ((rawReply v)\<lparr>rp_Trace := Some []\<rparr>) else None
                       | _ \<Rightarrow> None))
               else
                 (case raw of
                    FResult v \<Rightarrow>
                      if (if pc_method call = ownerEndMethod \<or> pc_method call = hostEndMethod then validControlReply frame
                          else if pc_method call = rosterMethod then decodeRosterReply E v \<noteq> None
                          else if pc_method call = hostsMethod then DecodeHosts (rawReply v) \<noteq> None
                          else DecodeResult (pc_method call) (Some v) \<noteq> None)
                      then Some (rawReply v) else None
                  | _ \<Rightarrow> None)))"

text \<open>An environment in which every frame fits; used by the witnesses.\<close>

definition plainEnv :: fedEnv where
  "plainEnv = \<lparr>ev_hi = (\<lambda>_. False), ev_parse = (\<lambda>_. ANull), ev_len = (\<lambda>_. 0), ev_resultLen = (\<lambda>_. 0), ev_hostLen = (\<lambda>_. 0)\<rparr>"

end
