(* ===== verification/Hub.thy ===== *)
theory Hub
  imports FedCheck Conn
begin

text \<open>
  The hub (\<open>bus/internal/federation/hub.go\<close>, \<open>roster.go\<close>): a registry goroutine that owns the table
  of hosts, a loop per host link, and goroutines that wait for the reply of another host.

  The objects are in one state: the registry's table and inbox, the links, the reply channels and
  the goroutines. A reply channel is a number; \<open>u_sent\<close> holds what was sent on it (its capacity
  is one), and \<open>u_for\<close> says for which link, and whether for a roster, it was made. A link's \<open>hl_asked\<close>
  lists the identifiers of the requests its loop handed to the registry, \<open>hl_answered\<close> those it
  put a response for on its outbox; both are written and never read.
\<close>

section \<open>State\<close>

record originReply =
  og_origin :: ptr
  og_destination :: "ptr option"
  og_id :: int
  og_value :: Reply
  og_collect :: bool

record incomingForward =
  if_id :: int
  if_value :: Forward
  if_host :: gostring

record incomingOwnerEnd =
  io_ID :: int
  io_Value :: OwnerEnd

datatype registryEvent =
    RAccept nat
  | RRetire nat
  | RReady ptr
  | RClosed ptr
  | RHosts ptr int
  | RForward ptr incomingForward
  | RReply originReply
  | ROwnerEnd ptr incomingOwnerEnd
  | RRoster ptr int

text \<open>What reaches a link's inbox; a frame comes with whether it failed to decode.\<close>

datatype linkEvent =
    HRoster ptr
  | HLifetime gostring fedparams ptr
  | HForward Forward ptr
  | HReply originReply
  | HFrame fedframe bool
  | HClosed

text \<open>\<open>run\<close> has not been called, takes events, waits for the registry's acknowledgment, has returned.\<close>

datatype phase = Waiting | Running | Closing | Returned

record hostLink =
  hl_attachment :: gostring
  hl_rosterSlots :: nat
  hl_host :: gostring
  hl_raw :: nat
  hl_alpn :: gostring
  hl_wire :: "(linkEvent, fedout) conn"
  hl_done :: bool
  hl_failed :: bool
  hl_nextID :: int
  hl_lastIn :: int
  hl_pending :: "(int, pendingCall) gomap"
  hl_phase :: phase
  hl_ready :: "bool option"
  hl_closedAck :: bool
  hl_readerDone :: bool
  hl_asked :: "int list"
  hl_answered :: "int list"

text \<open>
  The goroutines: one that waits for a reply, and one that collects the rosters of the hosts; the
  latter has the hosts left, the leg it waits for, the rosters so far and their length.
\<close>

datatype htask =
    TWait ptr ptr ptr int bool
  | TCollect ptr int "(gostring \<times> ptr) list" "(gostring \<times> ptr \<times> ptr) option" "Host list" nat

record hub =
  u_links :: "(gostring, ptr) gomap"
  u_sockets :: "(nat, bool) gomap"
  u_auth :: "nat list"
  u_link :: "ptr \<Rightarrow> hostLink"
  u_nlink :: ptr
  u_inbox :: "registryEvent list"
  u_sent :: "ptr \<Rightarrow> Reply list"
  u_for :: "ptr \<Rightarrow> ptr \<times> bool"
  u_nchan :: ptr
  u_tasks :: "htask list"
  u_cancelled :: bool
  u_stopped :: bool

section \<open>Links and channels\<close>

definition upd_link :: "ptr \<Rightarrow> (hostLink \<Rightarrow> hostLink) \<Rightarrow> hub \<Rightarrow> hub" where
  "upd_link p f h = h\<lparr>u_link := heap_upd p f (u_link h)\<rparr>"

definition closeLink :: "hostLink \<Rightarrow> hostLink" where
  "closeLink l = l\<lparr>hl_wire := CloseConn (hl_wire l)\<rparr>"

definition newReply :: "ptr \<Rightarrow> bool \<Rightarrow> hub \<Rightarrow> ptr \<times> hub" where
  "newReply p roster h =
     (u_nchan h, h\<lparr>u_nchan := Suc (u_nchan h), u_for := (u_for h)(u_nchan h := (p, roster))\<rparr>)"

definition sendReply :: "ptr \<times> Reply \<Rightarrow> hub \<Rightarrow> hub" where
  "sendReply x h = h\<lparr>u_sent := (u_sent h)(fst x := u_sent h (fst x) @ [snd x])\<rparr>"

text \<open>
  \<open>wire.Post\<close> by another goroutine. Its check of \<open>done\<close> and its send are two steps, so the check
  may not see that the reader has ended in between: \<open>seen\<close> says whether it does.
\<close>

definition postLink :: "bool \<Rightarrow> linkEvent \<Rightarrow> hostLink \<Rightarrow> hostLink \<times> bool" where
  "postLink seen ev l =
     (let w = hl_wire l; (w', ok) = Post ev (w\<lparr>c_done := c_done w \<and> seen\<rparr>)
      in (l\<lparr>hl_wire := w'\<lparr>c_done := c_done w\<rparr>\<rparr>, ok))"

definition postTo :: "(ptr \<Rightarrow> bool) \<Rightarrow> ptr \<Rightarrow> linkEvent \<Rightarrow> hub \<Rightarrow> bool \<times> hub" where
  "postTo seen p ev h =
     (snd (postLink (seen p) ev (u_link h p)), upd_link p (\<lambda>l. fst (postLink (seen p) ev l)) h)"

text \<open>\<open>newHostLink\<close>: the attachment is the hexadecimal form of random bytes, the argument.\<close>

definition hexDigits :: gostring where
  "hexDigits = ''0123456789abcdef''"

definition hexEncode :: "nat list \<Rightarrow> gostring" where
  "hexEncode bytes = concat (map (\<lambda>b. [hexDigits ! (b div 16 mod 16), hexDigits ! (b mod 16)]) bytes)"

definition newHostLink :: "nat list \<Rightarrow> gostring \<Rightarrow> nat \<Rightarrow> gostring \<Rightarrow> hostLink" where
  "newHostLink identity host raw alpn =
     \<lparr>hl_attachment = hexEncode identity, hl_rosterSlots = 0, hl_host = host, hl_raw = raw, hl_alpn = alpn, hl_wire = StartConn,
      hl_done = False, hl_failed = False, hl_nextID = 0, hl_lastIn = 0, hl_pending = [], hl_phase = Waiting,
      hl_ready = None, hl_closedAck = False, hl_readerDone = False, hl_asked = [], hl_answered = []\<rparr>"

section \<open>The registry\<close>

text \<open>\<open>s.links[link.host] == link\<close>.\<close>

definition registered :: "hub \<Rightarrow> ptr \<Rightarrow> bool" where
  "registered h p \<longleftrightarrow> gm_get (u_links h) (hl_host (u_link h p)) = Some p"

text \<open>\<open>remove\<close>: the link leaves the table and every other host learns of its end.\<close>

definition hostEnded :: "(ptr \<Rightarrow> bool) \<Rightarrow> HostEnd \<Rightarrow> ptr \<Rightarrow> hub \<Rightarrow> hub" where
  "hostEnded seen ended other h =
     (let (ch, h1) = newReply other False h;
          (ok, h2) = postTo seen other (HLifetime hostEndMethod (FPHostEnd ended) ch) h1
      in if ok then h2 else upd_link other closeLink h2)"

definition removeLink :: "(ptr \<Rightarrow> bool) \<Rightarrow> ptr \<Rightarrow> hub \<Rightarrow> hub" where
  "removeLink seen p h =
     (if registered h p then
        let l = u_link h p;
            h1 = upd_link p closeLink (h\<lparr>u_links := gm_del (hl_host l) (u_links h)\<rparr>)
        in fold (\<lambda>x. hostEnded seen \<lparr>he_Host = hl_host l, he_Attachment = hl_attachment l\<rparr> (snd x)) (u_links h1) h1
      else h)"

definition liveTraceRecipients :: "hub \<Rightarrow> ptr option \<Rightarrow> TraceRecipient list \<Rightarrow> TraceRecipient list" where
  "liveTraceRecipients h destination values =
     (case destination of
        None \<Rightarrow> []
      | Some q \<Rightarrow>
          if \<not> registered h q then []
          else filter
                 (\<lambda>v. case suffix (fc_SessionID (tt_Owner v)) of
                         None \<Rightarrow> False
                       | Some ownerHost \<Rightarrow>
                           ownerHost = hl_host (u_link h q)
                           \<or> (case gm_get (u_links h) ownerHost of
                                None \<Rightarrow> False
                              | Some owner \<Rightarrow> hl_attachment (u_link h owner) = fc_SourceAttachment (tt_Owner v)))
                 values)"

definition hubReply :: "(ptr \<Rightarrow> bool) \<Rightarrow> originReply \<Rightarrow> hub \<Rightarrow> hub" where
  "hubReply seen event h =
     (let event = (if og_collect event then
                     (let v = og_value event in
                      event\<lparr>og_value := v\<lparr>rp_Trace :=
                        Some (case rp_Trace v of None \<Rightarrow> [] | Some values \<Rightarrow> liveTraceRecipients h (og_destination event) values)\<rparr>\<rparr>)
                   else event);
          origin = og_origin event
      in if \<not> registered h origin then removeLink seen origin h
         else let (ok, h1) = postTo seen origin (HReply event) h
              in if ok then h1 else removeLink seen origin h1)"

definition answerOrigin :: "ptr \<Rightarrow> int \<Rightarrow> Reply \<Rightarrow> originReply" where
  "answerOrigin origin i v = \<lparr>og_origin = origin, og_destination = None, og_id = i, og_value = v, og_collect = False\<rparr>"

text \<open>\<open>forward\<close> once the origin's rules are met and the destination is known.\<close>

definition forwardTo :: "(ptr \<Rightarrow> bool) \<Rightarrow> ptr \<Rightarrow> int \<Rightarrow> Forward \<Rightarrow> ptr \<Rightarrow> hub \<Rightarrow> hub" where
  "forwardTo seen origin i v destination h =
     (let r = fw_Request v; alpn = hl_alpn (u_link h destination) in
      if pr_Completion r \<and> \<not> SupportsWake alpn then hubReply seen (answerOrigin origin i (errorReply ForwardLost None)) h
      else if requestRequiresTrace r \<and> \<not> SupportsTrace alpn then hubReply seen (answerOrigin origin i traceUnsupported) h
      else
        let collect = pr_Trace r \<and> SupportsTrace (hl_alpn (u_link h origin));
            r1 = (if collect \<and> \<not> SupportsTrace alpn then r\<lparr>pr_Trace := False\<rparr> else r);
            v1 = v\<lparr>fw_Request := r1, fw_From := (fw_From v)\<lparr>fc_SourceAttachment := hl_attachment (u_link h origin)\<rparr>\<rparr>;
            (ch, h1) = newReply destination False h;
            (ok, h2) = postTo seen destination (HForward v1 ch) h1;
            h3 = (if ok then h2 else removeLink seen destination (sendReply (ch, errorReply ForwardLost None) h2))
        in h3\<lparr>u_tasks := TWait ch origin destination i collect # u_tasks h3\<rparr>)"

definition hubForward :: "(ptr \<Rightarrow> bool) \<Rightarrow> ptr \<Rightarrow> incomingForward \<Rightarrow> hub \<Rightarrow> hub" where
  "hubForward seen origin call h =
     (if \<not> registered h origin then h
      else
        let v = if_value call; r = fw_Request v; alpn = hl_alpn (u_link h origin) in
        if pr_Completion r \<and> \<not> SupportsWake alpn then hubReply seen (answerOrigin origin (if_id call) (errorReply ForwardLost None)) h
        else if requestRequiresTrace r \<and> \<not> SupportsTrace alpn then hubReply seen (answerOrigin origin (if_id call) traceUnsupported) h
        else
          let v1 = (if pr_Trace r \<and> \<not> SupportsTrace alpn then v\<lparr>fw_Request := r\<lparr>pr_Trace := False\<rparr>\<rparr> else v) in
          case gm_get (u_links h) (if_host call) of
            None \<Rightarrow> hubReply seen (answerOrigin origin (if_id call) (errorReply UnknownHost None)) h
          | Some destination \<Rightarrow> forwardTo seen origin (if_id call) v1 destination h)"

definition hubOwnerEnd :: "(ptr \<Rightarrow> bool) \<Rightarrow> ptr \<Rightarrow> incomingOwnerEnd \<Rightarrow> hub \<Rightarrow> hub" where
  "hubOwnerEnd seen origin call h =
     (if \<not> registered h origin then h
      else case gm_get (u_links h) (oe_Host (io_Value call)) of
             None \<Rightarrow> hubReply seen (answerOrigin origin (io_ID call) (errorReply UnknownHost None)) h
           | Some destination \<Rightarrow>
               let v = (io_Value call)\<lparr>oe_Source := hl_host (u_link h origin), oe_Attachment := hl_attachment (u_link h origin)\<rparr>;
                   (ch, h1) = newReply destination False h;
                   (ok, h2) = postTo seen destination (HLifetime ownerEndMethod (FPOwnerEnd v) ch) h1
               in if \<not> ok then hubReply seen (answerOrigin origin (io_ID call) (errorReply ForwardLost None)) (removeLink seen destination h2)
                  else h2\<lparr>u_tasks := TWait ch origin destination (io_ID call) False # u_tasks h2\<rparr>)"

text \<open>The hosts other than one, sorted, with their links.\<close>

definition otherHosts :: "gostring \<Rightarrow> hub \<Rightarrow> (gostring \<times> ptr) list" where
  "otherHosts host h = sort_key fst (filter (\<lambda>x. fst x \<noteq> host) (u_links h))"

definition hubHosts :: "(ptr \<Rightarrow> bool) \<Rightarrow> ptr \<Rightarrow> int \<Rightarrow> hub \<Rightarrow> hub" where
  "hubHosts seen p i h =
     (if registered h p
      then hubReply seen (answerOrigin p i (rawReply (VHosts (Some (map fst (otherHosts (hl_host (u_link h p)) h)))))) h
      else h)"

definition hubRoster :: "(ptr \<Rightarrow> bool) \<Rightarrow> ptr \<Rightarrow> int \<Rightarrow> hub \<Rightarrow> hub" where
  "hubRoster seen origin i h =
     (if \<not> registered h origin then h
      else if hl_rosterSlots (u_link h origin) \<ge> 8 then hubReply seen (answerOrigin origin i (errorReply ForwardLost None)) h
      else
        let legs = otherHosts (hl_host (u_link h origin)) h in
        if length legs > MaxRows then hubReply seen (answerOrigin origin i (errorReply ForwardLost None)) h
        else (upd_link origin (\<lambda>l. l\<lparr>hl_rosterSlots := hl_rosterSlots l + 1\<rparr>) h)
               \<lparr>u_tasks := TCollect origin i legs None [] 0 # u_tasks h\<rparr>)"

definition hubReady :: "ptr \<Rightarrow> hub \<Rightarrow> hub" where
  "hubReady p h0 =
     (let h = h0\<lparr>u_sockets := gm_del (hl_raw (u_link h0 p)) (u_sockets h0)\<rparr>;
          accepted = (gm_get (u_links h) (hl_host (u_link h p)) = None);
          h1 = (if accepted then h\<lparr>u_links := gm_set (hl_host (u_link h p)) p (u_links h)\<rparr> else upd_link p closeLink h)
      in upd_link p (\<lambda>l. l\<lparr>hl_ready := Some accepted\<rparr>) h1)"

definition hubClosed :: "(ptr \<Rightarrow> bool) \<Rightarrow> ptr \<Rightarrow> hub \<Rightarrow> hub" where
  "hubClosed seen p h = upd_link p (\<lambda>l. l\<lparr>hl_closedAck := True\<rparr>) (if registered h p then removeLink seen p h else h)"

definition handleRegistry :: "(ptr \<Rightarrow> bool) \<Rightarrow> registryEvent \<Rightarrow> hub \<Rightarrow> hub" where
  "handleRegistry seen event h =
     (case event of
        RAccept fd \<Rightarrow> h\<lparr>u_sockets := gm_set fd True (u_sockets h), u_auth := fd # u_auth h\<rparr>
      | RRetire fd \<Rightarrow> h\<lparr>u_sockets := gm_del fd (u_sockets h)\<rparr>
      | RReady p \<Rightarrow> hubReady p h
      | RClosed p \<Rightarrow> hubClosed seen p h
      | RHosts p i \<Rightarrow> hubHosts seen p i h
      | RRoster p i \<Rightarrow> hubRoster seen p i h
      | RForward p call \<Rightarrow> hubForward seen p call h
      | ROwnerEnd p call \<Rightarrow> hubOwnerEnd seen p call h
      | RReply r \<Rightarrow> hubReply seen r h)"

section \<open>The loop of a link\<close>

text \<open>
  \<open>hostLink.run\<close> touches its own link, reply channels and the registry's inbox: a turn of the loop maps
  the link and an event to the link, the replies it sends and the event it posts to the registry.
\<close>

type_synonym turn = "hostLink \<times> (ptr \<times> Reply) list \<times> registryEvent option"

abbreviation maxPendingForwardedPerHost :: nat where "maxPendingForwardedPerHost \<equiv> 256"

definition lost :: Reply where
  "lost = errorReply ForwardLost None"

definition failLink :: "hostLink \<Rightarrow> hostLink" where
  "failLink l = (closeLink l)\<lparr>hl_failed := True\<rparr>"

definition sendFrame :: "fedout \<Rightarrow> hostLink \<Rightarrow> hostLink \<times> bool" where
  "sendFrame body l = (let (w, ok) = Send body (hl_wire l) in (l\<lparr>hl_wire := w\<rparr>, ok))"

definition addPending :: "pendingCall \<Rightarrow> hostLink \<Rightarrow> hostLink" where
  "addPending call l = l\<lparr>hl_pending := gm_set (hl_nextID l) call (hl_pending l)\<rparr>"

definition linkRoster :: "fedEnv \<Rightarrow> ptr \<Rightarrow> hostLink \<Rightarrow> turn" where
  "linkRoster E ch l =
     (if hl_failed l \<or> length (hl_pending l) \<ge> maxPendingForwardedPerHost then (l, [(ch, lost)], None)
      else
        let l1 = l\<lparr>hl_nextID := hl_nextID l + 1\<rparr> in
        case requestBytes E (hl_nextID l1) rosterMethod FPEmpty of
          None \<Rightarrow> (l1, [(ch, lost)], None)
        | Some body \<Rightarrow>
            let (l2, ok) = sendFrame body l1 in
            if \<not> ok then (l2, [(ch, lost)], None)
            else (addPending \<lparr>pc_method = rosterMethod, pc_reply = ch, pc_trace = False, pc_target = []\<rparr> l2, [], None))"

definition linkLifetime :: "fedEnv \<Rightarrow> gostring \<Rightarrow> fedparams \<Rightarrow> ptr \<Rightarrow> hostLink \<Rightarrow> turn" where
  "linkLifetime E method params ch l =
     (if hl_failed l \<or> length (hl_pending l) \<ge> maxPendingForwardedPerHost then (failLink l, [(ch, lost)], None)
      else
        let l1 = l\<lparr>hl_nextID := hl_nextID l + 1\<rparr> in
        case requestBytes E (hl_nextID l1) method params of
          None \<Rightarrow> (failLink l1, [(ch, lost)], None)
        | Some body \<Rightarrow>
            let (l2, ok) = sendFrame body l1 in
            if \<not> ok then (failLink l2, [(ch, lost)], None)
            else (addPending \<lparr>pc_method = method, pc_reply = ch, pc_trace = False, pc_target = []\<rparr> l2, [], None))"

definition linkForward :: "fedEnv \<Rightarrow> Forward \<Rightarrow> ptr \<Rightarrow> hostLink \<Rightarrow> turn" where
  "linkForward E v0 ch l =
     (let r0 = fw_Request v0; alpn = hl_alpn l in
      if pr_Completion r0 \<and> \<not> SupportsWake alpn then (l, [(ch, lost)], None)
      else if requestRequiresTrace r0 \<and> \<not> SupportsTrace alpn then (l, [(ch, traceUnsupported)], None)
      else
        let v1 = (if pr_Trace r0 \<and> \<not> SupportsTrace alpn then v0\<lparr>fw_Request := r0\<lparr>pr_Trace := False\<rparr>\<rparr> else v0) in
        if hl_failed l \<or> length (hl_pending l) \<ge> maxPendingForwardedPerHost
        then (if length (hl_pending l) \<ge> maxPendingForwardedPerHost then failLink l else l, [(ch, lost)], None)
        else
          let l1 = l\<lparr>hl_nextID := hl_nextID l + 1\<rparr>;
              (bytes, v) = forwardRequestBytes E (hl_nextID l1) v1;
              r = fw_Request v
          in case (fedTargetHost r, bytes) of
               (Some target, Some body) \<Rightarrow>
                 let (l2, ok) = sendFrame body l1 in
                 if \<not> ok then (l2\<lparr>hl_failed := True\<rparr>, [(ch, lost)], None)
                 else (addPending \<lparr>pc_method = pr_Method r, pc_reply = ch, pc_trace = pr_Trace r, pc_target = target\<rparr> l2, [], None)
             | _ \<Rightarrow> (l1, [(ch, errorReply InvalidFrame (Some (DText ''forwarded request exceeds the frame limit'')))], None))"

definition linkReply :: "fedEnv \<Rightarrow> originReply \<Rightarrow> hostLink \<Rightarrow> turn" where
  "linkReply E r l =
     (if hl_failed l then (l, [], None)
      else case responseBytes E (og_id r) (og_value r) True of
             None \<Rightarrow> (failLink l, [], None)
           | Some body \<Rightarrow>
               let (l1, ok) = sendFrame body l in
               if ok then (l1\<lparr>hl_answered := og_id r # hl_answered l1\<rparr>, [], None) else (failLink l1, [], None))"

text \<open>A response: the call it answers gets the reply, or the link fails.\<close>

definition linkResponse :: "fedEnv \<Rightarrow> fedframe \<Rightarrow> hostLink \<Rightarrow> turn option" where
  "linkResponse E frame l =
     (case gm_get (hl_pending l) (ff_ID frame) of
        None \<Rightarrow> None
      | Some call \<Rightarrow>
          (case decodePendingReply E call frame of
             None \<Rightarrow> None
           | Some reply \<Rightarrow>
               Some (l\<lparr>hl_pending := gm_del (ff_ID frame) (hl_pending l)\<rparr>, [(pc_reply call, reply)], None)))"

text \<open>A request: what the registry is asked, or an error.\<close>

definition requestEvent :: "fedEnv \<Rightarrow> ptr \<Rightarrow> fedframe \<Rightarrow> hostLink \<Rightarrow> registryEvent option" where
  "requestEvent E p frame l =
     (if ff_Method frame = rosterMethod then
        (if \<not> SupportsRoster (hl_alpn l) \<or> ff_Params frame \<noteq> FPEmpty then None else Some (RRoster p (ff_ID frame)))
      else if ff_Method frame = hostsMethod then
        (if ff_Params frame \<noteq> FPEmpty then None else Some (RHosts p (ff_ID frame)))
      else if ff_Method frame = ownerEndMethod then
        (case ff_Params frame of
           FPOwnerEnd v \<Rightarrow>
             if \<not> fedValidHost (oe_Host v) \<or> \<not> ownedPart (ev_hi E) (oe_SessionID v) (hl_host l) False \<or> oe_Lifetime v = []
                \<or> oe_Source v \<noteq> [] \<or> oe_Attachment v \<noteq> []
             then None
             else Some (ROwnerEnd p \<lparr>io_ID = ff_ID frame, io_Value = v\<rparr>)
         | _ \<Rightarrow> None)
      else if ff_Method frame \<noteq> forwardMethod then None
      else case decodeForward (ev_hi E) (ff_Params frame) (hl_host l) of
             None \<Rightarrow> None
           | Some (v, host) \<Rightarrow>
               if fc_SourceAttachment (fw_From v) \<noteq> [] then None
               else Some (RForward p \<lparr>if_id = ff_ID frame, if_value = v, if_host = host\<rparr>))"

definition linkFrame :: "fedEnv \<Rightarrow> ptr \<Rightarrow> fedframe \<Rightarrow> bool \<Rightarrow> hostLink \<Rightarrow> turn" where
  "linkFrame E p frame bad l =
     (if hl_failed l then (l, [], None)
      else if bad then (failLink l, [], None)
      else if \<not> ff_Request frame then
        (case linkResponse E frame l of None \<Rightarrow> (failLink l, [], None) | Some t \<Rightarrow> t)
      else if ff_ID frame \<le> hl_lastIn l then (failLink l, [], None)
      else
        let l1 = l\<lparr>hl_lastIn := ff_ID frame\<rparr> in
        case requestEvent E p frame l1 of
          None \<Rightarrow> (failLink l1, [], None)
        | Some event \<Rightarrow> (l1\<lparr>hl_asked := ff_ID frame # hl_asked l1\<rparr>, [], Some event))"

definition linkTurn :: "fedEnv \<Rightarrow> ptr \<Rightarrow> linkEvent \<Rightarrow> hostLink \<Rightarrow> turn" where
  "linkTurn E p event l =
     (case event of
        HRoster ch \<Rightarrow> linkRoster E ch l
      | HLifetime method params ch \<Rightarrow> linkLifetime E method params ch l
      | HForward v ch \<Rightarrow> linkForward E v ch l
      | HReply r \<Rightarrow> linkReply E r l
      | HFrame frame bad \<Rightarrow> linkFrame E p frame bad l
      | HClosed \<Rightarrow> (l\<lparr>hl_phase := Closing\<rparr>, [], Some (RClosed p)))"

fun event_chan :: "linkEvent \<Rightarrow> ptr option" where
  "event_chan (HRoster ch) = Some ch"
| "event_chan (HLifetime m v ch) = Some ch"
| "event_chan (HForward v ch) = Some ch"
| "event_chan _ = None"

text \<open>\<open>settlePending\<close> and \<open>settleQueued\<close>: every call that is pending or queued is lost.\<close>

definition settleAll :: "(int, pendingCall) gomap \<Rightarrow> (ptr \<times> Reply) list" where
  "settleAll pending = map (\<lambda>x. (pc_reply (snd x), lost)) pending"

definition settleQueued :: "linkEvent list \<Rightarrow> (ptr \<times> Reply) list" where
  "settleQueued events = map (\<lambda>ch. (ch, lost)) (List.map_filter event_chan events)"

definition linkReturn :: "hostLink \<Rightarrow> hostLink \<times> (ptr \<times> Reply) list" where
  "linkReturn l =
     (let l1 = closeLink l in
      (l1\<lparr>hl_pending := [], hl_wire := (hl_wire l1)\<lparr>c_inbox := []\<rparr>, hl_phase := Returned\<rparr>,
       settleAll (hl_pending l) @ settleQueued (c_inbox (hl_wire l))))"

section \<open>The goroutine that collects the rosters (\<open>roster.go\<close>)\<close>

definition rosterStub :: "gostring \<Rightarrow> gostring \<Rightarrow> Host" where
  "rosterStub host problem = \<lparr>ho_Host = host, ho_Products = Some [], ho_Sessions = Some [], ho_Error = problem\<rparr>"

definition RosterReply :: "fedEnv \<Rightarrow> Host \<Rightarrow> Reply" where
  "RosterReply E host =
     (let raw = VRoster \<lparr>re_Hosts = Some [host]\<rparr> in
      case Encode raw (ev_resultLen E raw) of None \<Rightarrow> lost | Some v \<Rightarrow> rawReply v)"

text \<open>Asking the host of a leg; \<open>late\<close> says that the deadline has passed.\<close>

definition askLeg :: "fedEnv \<Rightarrow> (ptr \<Rightarrow> bool) \<Rightarrow> bool \<Rightarrow> gostring \<Rightarrow> ptr \<Rightarrow> hub \<Rightarrow> ptr \<times> hub" where
  "askLeg E seen late host destination h =
     (let (ch, h1) = newReply destination True h in
      if late then (ch, sendReply (ch, lost) h1)
      else if \<not> SupportsRoster (hl_alpn (u_link h destination))
      then (ch, sendReply (ch, RosterReply E (rosterStub host ''upgrade_host_for_roster'')) h1)
      else let (ok, h2) = postTo seen destination (HRoster ch) h1
           in (ch, if ok then h2 else sendReply (ch, lost) h2))"

text \<open>The host's roster, from its answer or, without one, as unavailable.\<close>

definition legHost :: "fedEnv \<Rightarrow> gostring \<Rightarrow> Reply option \<Rightarrow> Host" where
  "legHost E host answer =
     (let unavailable = rosterStub host ''host_roster_unavailable'' in
      case answer of
        None \<Rightarrow> unavailable
      | Some v \<Rightarrow>
          if rp_Error v \<noteq> None then unavailable
          else (case rp_Result v of
                  None \<Rightarrow> unavailable
                | Some raw \<Rightarrow>
                    (case map_option re_Hosts (decodeRosterReply E raw) of
                       Some (Some [x]) \<Rightarrow> if ho_Host x = host then x else unavailable
                     | _ \<Rightarrow> unavailable)))"

text \<open>The end of a leg: the roster so far with the host's, or the reply that it is too large.\<close>

definition keepLeg :: "fedEnv \<Rightarrow> Host \<Rightarrow> Host list \<Rightarrow> nat \<Rightarrow> Reply + Host list \<times> nat" where
  "keepLeg E host result retained =
     (let n = retained + ev_hostLen E host + 1 in
      if Encode host (ev_hostLen E host) = None \<or> n > MaxBytes - 1024
      then Inl (errorReply ForwardLost (Some (DText ''roster_too_large'')))
      else Inr (result @ [host], n))"

definition rosterResult :: "fedEnv \<Rightarrow> Host list \<Rightarrow> Reply" where
  "rosterResult E result =
     (let raw = VRoster \<lparr>re_Hosts = Some result\<rparr> in
      case Encode raw (ev_resultLen E raw) of None \<Rightarrow> lost | Some v \<Rightarrow> rawReply v)"

end
