(* ===== verification/HubSystem.thy ===== *)
theory HubSystem
  imports Hub
begin

text \<open>
  The goroutines of the hub together: the registry, the loop, reader and writer of every link, the
  goroutines that wait for replies, connections that come and go, and the end of the context, in any
  order.
\<close>

section \<open>Steps\<close>

text \<open>
  The TLS handshake (\<open>authenticate\<close>) ends with a link or without one. \<open>ServerTLS\<close> refuses a
  configuration with a host name that is not valid and answers only to the configured names
  (\<open>tls.go\<close>), so the name of an authenticated host is valid.
\<close>

text \<open>\<open>postRegistry\<close>: the event is queued when there is room, and may be dropped once the context is done.\<close>

fun posted :: "registryEvent option \<Rightarrow> hub \<Rightarrow> hub \<Rightarrow> bool" where
  "posted None h h' \<longleftrightarrow> h' = h"
| "posted (Some ev) h h' \<longleftrightarrow>
     length (u_inbox h) < OutboxSize \<and> h' = h\<lparr>u_inbox := u_inbox h @ [ev]\<rparr> \<or> u_cancelled h \<and> h' = h"

definition dropTask :: "htask \<Rightarrow> hub \<Rightarrow> hub" where
  "dropTask t h = h\<lparr>u_tasks := remove1 t (u_tasks h)\<rparr>"

text \<open>The deferred release of the slot when the collector ends.\<close>

definition freeSlot :: "ptr \<Rightarrow> hub \<Rightarrow> hub" where
  "freeSlot origin h = upd_link origin (\<lambda>l. l\<lparr>hl_rosterSlots := hl_rosterSlots l - 1\<rparr>) h"

definition startRun :: "bool \<Rightarrow> hostLink \<Rightarrow> hostLink" where
  "startRun accepted l =
     (if accepted then l else closeLink l)\<lparr>hl_phase := Running, hl_failed := \<not> accepted\<rparr>"

definition readerPosts :: "linkEvent \<Rightarrow> hostLink \<Rightarrow> hostLink" where
  "readerPosts ev l = l\<lparr>hl_wire := (hl_wire l)\<lparr>c_inbox := c_inbox (hl_wire l) @ [ev]\<rparr>\<rparr>"

definition stopHub :: "hub \<Rightarrow> hub" where
  "stopHub h = (fold (\<lambda>x. upd_link (snd x) closeLink) (u_links h) h)\<lparr>u_stopped := True\<rparr>"

inductive hub_step :: "fedEnv \<Rightarrow> hub \<Rightarrow> hub \<Rightarrow> bool" for E :: fedEnv where
  connect: "posted (Some (RAccept fd)) h h' \<Longrightarrow> hub_step E h h'"
| registry: "\<lbrakk>\<not> u_stopped h; u_inbox h = ev # evs\<rbrakk> \<Longrightarrow> hub_step E h (handleRegistry seen ev (h\<lparr>u_inbox := evs\<rparr>))"
| cancel: "hub_step E h (h\<lparr>u_cancelled := True\<rparr>)"
| stop: "u_cancelled h \<Longrightarrow> hub_step E h (stopHub h)"
| auth_failed: "\<lbrakk>fd \<in> set (u_auth h); posted (Some (RRetire fd)) (h\<lparr>u_auth := remove1 fd (u_auth h)\<rparr>) h'\<rbrakk> \<Longrightarrow> hub_step E h h'"
| auth_done: "\<lbrakk>fd \<in> set (u_auth h); p = u_nlink h; fedValidHost host; length identity = 16;
      posted (Some (RReady p)) (upd_link p (\<lambda>_. newHostLink identity host fd alpn) (h\<lparr>u_auth := remove1 fd (u_auth h), u_nlink := Suc p\<rparr>)) h'\<rbrakk>
      \<Longrightarrow> hub_step E h h'"
| link_start: "\<lbrakk>p < u_nlink h; hl_phase (u_link h p) = Waiting; hl_ready (u_link h p) = Some accepted \<or> u_cancelled h \<and> \<not> accepted\<rbrakk>
      \<Longrightarrow> hub_step E h (upd_link p (startRun accepted) h)"
| link_turn: "\<lbrakk>p < u_nlink h; hl_phase (u_link h p) = Running; c_inbox (hl_wire (u_link h p)) = ev # evs;
      linkTurn E p ev ((u_link h p)\<lparr>hl_wire := (hl_wire (u_link h p))\<lparr>c_inbox := evs\<rparr>\<rparr>) = (l, sends, out);
      posted out (fold sendReply sends (upd_link p (\<lambda>_. l) h)) h'\<rbrakk> \<Longrightarrow> hub_step E h h'"
| link_stopping: "\<lbrakk>p < u_nlink h; u_cancelled h; hl_phase (u_link h p) = Running\<rbrakk> \<Longrightarrow> hub_step E h (upd_link p failLink h)"
| link_return: "\<lbrakk>p < u_nlink h; hl_phase (u_link h p) = Closing; hl_closedAck (u_link h p) \<or> u_cancelled h;
      linkReturn (u_link h p) = (l, sends)\<rbrakk> \<Longrightarrow> hub_step E h (fold sendReply sends (upd_link p (\<lambda>_. l) h))"
| link_done: "\<lbrakk>p < u_nlink h; hl_phase (u_link h p) = Returned; hl_readerDone (u_link h p)\<rbrakk>
      \<Longrightarrow> hub_step E h (upd_link p (\<lambda>l. l\<lparr>hl_done := True\<rparr>) h)"
| reader_frame: "\<lbrakk>p < u_nlink h; \<not> c_done (hl_wire (u_link h p)); length (c_inbox (hl_wire (u_link h p))) < OutboxSize\<rbrakk>
      \<Longrightarrow> hub_step E h (upd_link p (readerPosts (HFrame frame bad)) h)"
| reader_fails: "\<lbrakk>p < u_nlink h; \<not> c_done (hl_wire (u_link h p))\<rbrakk>
      \<Longrightarrow> hub_step E h (upd_link p (\<lambda>l. l\<lparr>hl_wire := readFailed (hl_wire l)\<rparr>) h)"
| reader_closed: "\<lbrakk>p < u_nlink h; c_done (hl_wire (u_link h p)); \<not> hl_readerDone (u_link h p); length (c_inbox (hl_wire (u_link h p))) < OutboxSize\<rbrakk>
      \<Longrightarrow> hub_step E h (upd_link p (\<lambda>l. (readerPosts HClosed l)\<lparr>hl_readerDone := True\<rparr>) h)"
| writer: "p < u_nlink h \<Longrightarrow> hub_step E h (upd_link p (\<lambda>l. l\<lparr>hl_wire := fst (writeStep (hl_wire l))\<rparr>) h)"
| wait_reply: "\<lbrakk>TWait ch origin destination i collect \<in> set (u_tasks h); u_sent h ch = v # vs;
      posted (Some (RReply \<lparr>og_origin = origin, og_destination = Some destination, og_id = i, og_value = v, og_collect = collect\<rparr>))
        (dropTask (TWait ch origin destination i collect) h) h'\<rbrakk> \<Longrightarrow> hub_step E h h'"
| wait_gone: "\<lbrakk>TWait ch origin destination i collect \<in> set (u_tasks h); hl_done (u_link h origin) \<or> u_cancelled h\<rbrakk>
      \<Longrightarrow> hub_step E h (dropTask (TWait ch origin destination i collect) h)"
| roster_ask: "\<lbrakk>TCollect origin i ((host, destination) # legs) None result retained \<in> set (u_tasks h);
      askLeg E seen late host destination h = (ch, h1)\<rbrakk>
      \<Longrightarrow> hub_step E h ((dropTask (TCollect origin i ((host, destination) # legs) None result retained) h1)
             \<lparr>u_tasks := TCollect origin i legs (Some (host, destination, ch)) result retained
                # u_tasks (dropTask (TCollect origin i ((host, destination) # legs) None result retained) h1)\<rparr>)"
| roster_leg: "\<lbrakk>TCollect origin i legs (Some (host, destination, ch)) result retained \<in> set (u_tasks h);
      answer = None \<or> (\<exists>vs. u_sent h ch = the answer # vs);
      keepLeg E (legHost E host answer) result retained = Inr (result', retained')\<rbrakk>
      \<Longrightarrow> hub_step E h ((dropTask (TCollect origin i legs (Some (host, destination, ch)) result retained) h)
             \<lparr>u_tasks := TCollect origin i legs None result' retained'
                # u_tasks (dropTask (TCollect origin i legs (Some (host, destination, ch)) result retained) h)\<rparr>)"
| roster_large: "\<lbrakk>TCollect origin i legs (Some (host, destination, ch)) result retained \<in> set (u_tasks h);
      answer = None \<or> (\<exists>vs. u_sent h ch = the answer # vs);
      keepLeg E (legHost E host answer) result retained = Inl v;
      posted (Some (RReply (answerOrigin origin i v)))
        (freeSlot origin (dropTask (TCollect origin i legs (Some (host, destination, ch)) result retained) h)) h'\<rbrakk> \<Longrightarrow> hub_step E h h'"
| roster_gone: "\<lbrakk>TCollect origin i legs (Some x) result retained \<in> set (u_tasks h); hl_done (u_link h origin)\<rbrakk>
      \<Longrightarrow> hub_step E h (freeSlot origin (dropTask (TCollect origin i legs (Some x) result retained) h))"
| roster_end: "\<lbrakk>TCollect origin i [] None result retained \<in> set (u_tasks h);
      posted (Some (RReply (answerOrigin origin i (rosterResult E result))))
        (freeSlot origin (dropTask (TCollect origin i [] None result retained) h)) h'\<rbrakk> \<Longrightarrow> hub_step E h h'"

definition emptyHub :: hub where
  "emptyHub = \<lparr>u_links = [], u_sockets = [], u_auth = [], u_link = (\<lambda>_. newHostLink [] [] 0 []), u_nlink = 0, u_inbox = [],
     u_sent = (\<lambda>_. []), u_for = (\<lambda>_. (0, False)), u_nchan = 0, u_tasks = [], u_cancelled = False, u_stopped = False\<rparr>"

section \<open>The invariant\<close>

text \<open>The reply channels a link holds: in its inbox and among its pending calls.\<close>

definition calls :: "hostLink \<Rightarrow> ptr multiset" where
  "calls l = mset (List.map_filter event_chan (c_inbox (hl_wire l))) + mset (map (\<lambda>x. pc_reply (snd x)) (hl_pending l))"

text \<open>The requests of a link that are on their way: their identifiers, wherever they are.\<close>

fun event_owes :: "ptr \<Rightarrow> registryEvent \<Rightarrow> int option" where
  "event_owes p (RHosts q i) = (if q = p then Some i else None)"
| "event_owes p (RRoster q i) = (if q = p then Some i else None)"
| "event_owes p (RForward q call) = (if q = p then Some (if_id call) else None)"
| "event_owes p (ROwnerEnd q call) = (if q = p then Some (io_ID call) else None)"
| "event_owes p (RReply r) = (if og_origin r = p then Some (og_id r) else None)"
| "event_owes p _ = None"

fun task_owes :: "ptr \<Rightarrow> htask \<Rightarrow> int option" where
  "task_owes p (TWait ch origin destination i collect) = (if origin = p then Some i else None)"
| "task_owes p (TCollect origin i legs x result retained) = (if origin = p then Some i else None)"

fun reply_id :: "linkEvent \<Rightarrow> int option" where
  "reply_id (HReply r) = Some (og_id r)"
| "reply_id _ = None"

definition replies :: "hostLink \<Rightarrow> int multiset" where
  "replies l = mset (List.map_filter reply_id (c_inbox (hl_wire l))) + mset (hl_answered l)"

definition owed :: "hub \<Rightarrow> ptr \<Rightarrow> int multiset" where
  "owed h p = mset (List.map_filter (event_owes p) (u_inbox h)) + mset (List.map_filter (task_owes p) (u_tasks h))
     + replies (u_link h p)"

text \<open>A link on its own.\<close>

fun sealed :: "linkEvent \<Rightarrow> bool" where
  "sealed (HForward v ch) = False"
| "sealed (HLifetime m v ch) = False"
| "sealed _ = True"

definition link_ok :: "hostLink \<Rightarrow> bool" where
  "link_ok l \<longleftrightarrow> conn_ok (hl_wire l) \<and> gm_ok (hl_pending l) \<and> length (hl_pending l) \<le> maxPendingForwardedPerHost
     \<and> 0 \<le> hl_nextID l \<and> (\<forall>x \<in> set (hl_pending l). 0 < fst x \<and> fst x \<le> hl_nextID l)
     \<and> distinct (hl_asked l) \<and> (\<forall>i \<in> set (hl_asked l). i \<le> hl_lastIn l)
     \<and> (hl_phase l = Waiting \<longrightarrow> hl_asked l = [] \<and> \<not> hl_failed l)"

definition links_ok :: "hub \<Rightarrow> bool" where
  "links_ok h \<longleftrightarrow> gm_ok (u_links h) \<and> (\<forall>host p. gm_get (u_links h) host = Some p \<longrightarrow> hl_host (u_link h p) = host \<and> p < u_nlink h)
     \<and> (\<forall>p. link_ok (u_link h p)) \<and> (\<forall>p \<ge> u_nlink h. u_link h p = newHostLink [] [] 0 [])
     \<and> (\<forall>p. RReady p \<in> set (u_inbox h) \<or> RClosed p \<in> set (u_inbox h) \<longrightarrow> p < u_nlink h)"

definition chans_ok :: "hub \<Rightarrow> bool" where
  "chans_ok h \<longleftrightarrow>
     (\<forall>p c. c \<in># calls (u_link h p) \<longrightarrow> fst (u_for h c) = p \<and> c < u_nchan h)
     \<and> (\<forall>c. count (calls (u_link h (fst (u_for h c)))) c + length (u_sent h c) \<le> 1)
     \<and> (\<forall>c \<ge> u_nchan h. u_sent h c = [])
     \<and> (\<forall>p. \<forall>ev \<in> set (c_inbox (hl_wire (u_link h p))). \<forall>c. event_chan ev = Some c \<longrightarrow> snd (u_for h c) = sealed ev)"

definition wait_ok :: "hub \<Rightarrow> htask \<Rightarrow> bool" where
  "wait_ok h t = (case t of
     TWait c origin q i collect \<Rightarrow> u_for h c = (q, False) \<and> c < u_nchan h \<and> count (calls (u_link h q)) c + length (u_sent h c) = 1
   | TCollect origin i legs leg result retained \<Rightarrow> \<forall>x \<in> set legs. snd x < u_nlink h)"

definition life_link :: "hub \<Rightarrow> ptr \<Rightarrow> hostLink \<Rightarrow> bool" where
  "life_link h p l \<longleftrightarrow> (registered h p \<longrightarrow> hl_ready l \<noteq> None \<and> \<not> hl_closedAck l)
     \<and> (RReady p \<in> set (u_inbox h) \<longrightarrow> hl_ready l = None)
     \<and> (RClosed p \<in> set (u_inbox h) \<longrightarrow> hl_phase l = Closing \<and> \<not> hl_closedAck l)
     \<and> (hl_closedAck l \<longrightarrow> hl_phase l \<in> {Closing, Returned})
     \<and> (hl_phase l \<noteq> Waiting \<longrightarrow> hl_ready l \<noteq> None)
     \<and> (hl_phase l = Returned \<longrightarrow> hl_closedAck l \<and> hl_pending l = [] \<and> (\<forall>ev \<in> set (c_inbox (hl_wire l)). sealed ev))
     \<and> (hl_done l \<longrightarrow> hl_phase l = Returned)"

definition life_ok :: "hub \<Rightarrow> bool" where
  "life_ok h \<longleftrightarrow> (\<forall>p. life_link h p (u_link h p)) \<and> (\<forall>p. count_list (u_inbox h) (RReady p) \<le> 1 \<and> count_list (u_inbox h) (RClosed p) \<le> 1)"

definition owed_ok :: "(ptr \<Rightarrow> int multiset) \<Rightarrow> hub \<Rightarrow> bool" where
  "owed_ok X h \<longleftrightarrow> (\<forall>p. owed h p + X p \<subseteq># mset (hl_asked (u_link h p))
     \<and> (\<not> u_cancelled h \<and> registered h p \<and> \<not> hl_failed (u_link h p) \<longrightarrow> owed h p + X p = mset (hl_asked (u_link h p))))"

text \<open>The invariant, while the registry has requests \<open>X\<close> in hand.\<close>

definition hub_inv :: "(ptr \<Rightarrow> int multiset) \<Rightarrow> hub \<Rightarrow> bool" where
  "hub_inv X h \<longleftrightarrow> links_ok h \<and> chans_ok h \<and> list_all (wait_ok h) (u_tasks h) \<and> (u_cancelled h \<or> life_ok h) \<and> owed_ok X h"

lemma calls_blank [simp]: "calls (newHostLink a b c d) = {#}" "replies (newHostLink a b c d) = {#}"
  by (simp_all add: calls_def replies_def newHostLink_def StartConn_def)

lemma map_filter_simps [simp]:
  "List.map_filter f [] = []" "List.map_filter f (x # xs) = (case f x of None \<Rightarrow> List.map_filter f xs | Some y \<Rightarrow> y # List.map_filter f xs)"
  "List.map_filter f (xs @ ys) = List.map_filter f xs @ List.map_filter f ys"
  by (simp_all add: List.map_filter_def split: option.split)

lemma link_ok_blank: "link_ok (newHostLink a b c d)"
  using conn_ok_start by (simp add: link_ok_def newHostLink_def)

lemma hub_inv_init: "hub_inv (\<lambda>_. {#}) emptyHub"
  unfolding hub_inv_def
proof (intro conjI disjI2)
  show "links_ok emptyHub" using link_ok_blank by (simp add: links_ok_def emptyHub_def)
  show "chans_ok emptyHub" by (simp add: chans_ok_def emptyHub_def) (simp add: newHostLink_def StartConn_def)
  show "list_all (wait_ok emptyHub) (u_tasks emptyHub)" by (simp add: emptyHub_def)
  show "life_ok emptyHub" by (simp add: life_ok_def life_link_def emptyHub_def registered_def newHostLink_def)
  show "owed_ok (\<lambda>_. {#}) emptyHub" by (simp add: owed_ok_def emptyHub_def owed_def registered_def) 
qed

section \<open>Keeping the invariant\<close>

lemma upd_link_simps [simp]:
  "u_links (upd_link p f h) = u_links h" "u_sockets (upd_link p f h) = u_sockets h" "u_auth (upd_link p f h) = u_auth h"
  "u_nlink (upd_link p f h) = u_nlink h" "u_inbox (upd_link p f h) = u_inbox h" "u_sent (upd_link p f h) = u_sent h"
  "u_for (upd_link p f h) = u_for h" "u_nchan (upd_link p f h) = u_nchan h" "u_tasks (upd_link p f h) = u_tasks h"
  "u_cancelled (upd_link p f h) = u_cancelled h" "u_stopped (upd_link p f h) = u_stopped h"
  "u_link (upd_link p f h) q = (if q = p then f (u_link h q) else u_link h q)"
  by (simp_all add: upd_link_def)

lemma hub_invD:
  assumes "hub_inv X h"
  shows "links_ok h" "chans_ok h" "list_all (wait_ok h) (u_tasks h)" "u_cancelled h \<or> life_ok h" "owed_ok X h"
  using assms by (auto simp: hub_inv_def)

text \<open>Updates that no part of the invariant looks at.\<close>

definition quiet :: "hostLink \<Rightarrow> hostLink \<Rightarrow> bool" where
  "quiet l l' \<longleftrightarrow> hl_host l' = hl_host l \<and> hl_failed l' = hl_failed l \<and> hl_nextID l' = hl_nextID l \<and> hl_lastIn l' = hl_lastIn l
     \<and> hl_pending l' = hl_pending l \<and> hl_phase l' = hl_phase l \<and> hl_ready l' = hl_ready l \<and> hl_closedAck l' = hl_closedAck l
     \<and> hl_done l' = hl_done l \<and> hl_asked l' = hl_asked l \<and> hl_answered l' = hl_answered l
     \<and> c_inbox (hl_wire l') = c_inbox (hl_wire l) \<and> (conn_ok (hl_wire l) \<longrightarrow> conn_ok (hl_wire l'))"

lemma closeLink_fields [simp]:
  "hl_host (closeLink l) = hl_host l" "hl_phase (closeLink l) = hl_phase l" "hl_pending (closeLink l) = hl_pending l"
  "hl_asked (closeLink l) = hl_asked l" "hl_answered (closeLink l) = hl_answered l" "c_inbox (hl_wire (closeLink l)) = c_inbox (hl_wire l)"
  "hl_nextID (closeLink l) = hl_nextID l" "hl_lastIn (closeLink l) = hl_lastIn l" "hl_failed (closeLink l) = hl_failed l"
  "hl_ready (closeLink l) = hl_ready l" "hl_closedAck (closeLink l) = hl_closedAck l" "hl_done (closeLink l) = hl_done l"
  by (simp_all add: closeLink_def CloseConn_def)

lemma quiet_same_link [simp]: "quiet l l"
  by (simp add: quiet_def)

lemma quiet_closeLink [simp]: "quiet l (closeLink l)"
  using conn_ok_ops(5)[of "hl_wire l"] by (simp add: quiet_def closeLink_def) (simp add: CloseConn_def)

lemma quiet_eqs:
  assumes "quiet l l'"
  shows "calls l' = calls l" "replies l' = replies l" "link_ok l \<Longrightarrow> link_ok l'"
  using assms by (auto simp: quiet_def calls_def replies_def link_ok_def)

lemma inv_quiet:
  assumes "hub_inv X h" "quiet (u_link h p) (f (u_link h p))" "p < u_nlink h"
  shows "hub_inv X (upd_link p f h)"
proof -
  let ?h = "upd_link p f h"
  have q: "quiet (u_link h q) (u_link ?h q)" for q using assms(2) by simp
  have f: "hl_host (u_link ?h q) = hl_host (u_link h q)" "hl_failed (u_link ?h q) = hl_failed (u_link h q)"
    "hl_phase (u_link ?h q) = hl_phase (u_link h q)" "hl_ready (u_link ?h q) = hl_ready (u_link h q)"
    "hl_closedAck (u_link ?h q) = hl_closedAck (u_link h q)" "hl_done (u_link ?h q) = hl_done (u_link h q)"
    "hl_asked (u_link ?h q) = hl_asked (u_link h q)" "hl_pending (u_link ?h q) = hl_pending (u_link h q)"
    "c_inbox (hl_wire (u_link ?h q)) = c_inbox (hl_wire (u_link h q))"
    "calls (u_link ?h q) = calls (u_link h q)" "replies (u_link ?h q) = replies (u_link h q)" for q
    using q[of q] quiet_eqs(1,2)[OF q[of q]] by (auto simp: quiet_def)
  have r: "registered ?h = registered h" by (rule ext) (simp only: registered_def f upd_link_simps(1))
  note fs = f upd_link_simps(1-11)
  note d = hub_invD[OF assms(1)]
  have "link_ok (u_link ?h q)" for q using d(1) quiet_eqs(3)[OF q] by (simp add: links_ok_def)
  moreover have "u_link ?h q = newHostLink [] [] 0 []" if "u_nlink h \<le> q" for q
    using d(1) that assms(3) by (simp add: links_ok_def)
  ultimately have lk: "links_ok ?h" using d(1) unfolding links_ok_def fs by blast
  have ch: "chans_ok ?h" using d(2) unfolding chans_ok_def fs .
  have w: "wait_ok ?h = wait_ok h" by (rule ext) (simp only: wait_ok_def fs)
  have li: "u_cancelled ?h \<or> life_ok ?h" using d(4) unfolding life_ok_def life_link_def fs r .
  have o: "owed ?h = owed h" by (rule ext) (simp only: owed_def fs)
  have ow: "owed_ok X ?h" using d(5) unfolding owed_ok_def o fs r .
  show ?thesis unfolding hub_inv_def w fs using lk ch d(3) li ow by simp
qed

lemma inv_unlink: "hub_inv X h \<Longrightarrow> hub_inv X (h\<lparr>u_links := gm_del host (u_links h)\<rparr>)"
proof -
  let ?h = "h\<lparr>u_links := gm_del host (u_links h)\<rparr>"
  assume "hub_inv X h"
  note d = hub_invD[OF this]
  have r: "registered ?h p \<Longrightarrow> registered h p" for p by (simp add: registered_def split: if_splits)
  have w: "wait_ok ?h = wait_ok h" by (rule ext) (simp add: wait_ok_def split: htask.split)
  have o: "owed ?h = owed h" by (rule ext) (simp add: owed_def)
  have "links_ok ?h" using d(1) by (simp add: links_ok_def)
  moreover have "chans_ok ?h" using d(2) by (simp add: chans_ok_def)
  moreover have "u_cancelled ?h \<or> life_ok ?h" using d(4) r unfolding life_ok_def life_link_def by auto
  moreover have "owed_ok X ?h" using d(5) r unfolding owed_ok_def o by auto
  ultimately show ?thesis using d(3) unfolding hub_inv_def w by simp
qed

text \<open>Events appended to the inbox of a link.\<close>

definition unused :: "ptr \<Rightarrow> hub \<Rightarrow> bool" where
  "unused c h \<longleftrightarrow> c < u_nchan h \<and> count (calls (u_link h (fst (u_for h c)))) c = 0 \<and> u_sent h c = []"

lemma calls_posts: "calls (readerPosts ev l) = (case event_chan ev of None \<Rightarrow> calls l | Some c \<Rightarrow> add_mset c (calls l))"
  by (simp add: calls_def readerPosts_def split: option.split)

lemma replies_posts: "replies (readerPosts ev l) = (case reply_id ev of None \<Rightarrow> replies l | Some i \<Rightarrow> add_mset i (replies l))"
  by (simp add: replies_def readerPosts_def split: option.split)

lemma link_ok_posts: "link_ok l \<Longrightarrow> length (c_inbox (hl_wire l)) < OutboxSize \<Longrightarrow> link_ok (readerPosts ev l)"
  by (auto simp: link_ok_def readerPosts_def conn_ok_def)

lemma posts_fields [simp]:
  "hl_host (readerPosts ev l) = hl_host l" "hl_failed (readerPosts ev l) = hl_failed l" "hl_phase (readerPosts ev l) = hl_phase l"
  "hl_ready (readerPosts ev l) = hl_ready l" "hl_closedAck (readerPosts ev l) = hl_closedAck l" "hl_done (readerPosts ev l) = hl_done l"
  "hl_asked (readerPosts ev l) = hl_asked l" "hl_pending (readerPosts ev l) = hl_pending l"
  "c_inbox (hl_wire (readerPosts ev l)) = c_inbox (hl_wire l) @ [ev]" "hl_alpn (readerPosts ev l) = hl_alpn l"
  by (simp_all add: readerPosts_def)

definition hand :: "ptr \<Rightarrow> int \<Rightarrow> ptr \<Rightarrow> int multiset" where
  "hand p i = (\<lambda>q. if q = p then {#i#} else {#})"

definition mine :: "ptr \<Rightarrow> int option \<Rightarrow> ptr \<Rightarrow> int multiset" where
  "mine p x = (case x of None \<Rightarrow> (\<lambda>_. {#}) | Some i \<Rightarrow> hand p i)"

lemma registered_upd:
  "hl_host (f (u_link h p)) = hl_host (u_link h p) \<Longrightarrow> registered (upd_link p f h) = registered h"
  by (rule ext) (simp add: registered_def)

lemma inv_append:
  assumes "hub_inv (\<lambda>p. X p + mine q (reply_id ev) p) h" "q < u_nlink h" "length (c_inbox (hl_wire (u_link h q))) < OutboxSize"
    "\<forall>c. event_chan ev = Some c \<longrightarrow> unused c h \<and> u_for h c = (q, sealed ev)" "sealed ev \<or> registered h q"
  shows "hub_inv X (upd_link q (readerPosts ev) h)"
proof -
  let ?h = "upd_link q (readerPosts ev) h"
  note d = hub_invD[OF assms(1)]
  have r: "registered ?h = registered h" by (rule registered_upd) simp
  have "links_ok ?h" using d(1) assms(2,3) link_ok_posts by (auto simp: links_ok_def)
  moreover have "chans_ok ?h"
    unfolding chans_ok_def
  proof (intro conjI allI impI ballI)
    fix p c assume "c \<in># calls (u_link ?h p)"
    then show "fst (u_for ?h c) = p" "c < u_nchan ?h"
      using d(2) assms(4) by (auto simp: chans_ok_def calls_posts unused_def split: option.splits if_splits)
  next
    fix c
    have "count (calls (u_link h (fst (u_for h c)))) c + length (u_sent h c) \<le> 1" using d(2) by (simp add: chans_ok_def)
    then show "count (calls (u_link ?h (fst (u_for ?h c)))) c + length (u_sent ?h c) \<le> 1"
      using assms(4) by (auto simp: calls_posts unused_def split: option.splits)
  next
    fix c assume "c \<ge> u_nchan ?h" then show "u_sent ?h c = []" using d(2) by (simp add: chans_ok_def)
  next
    fix p e c assume "e \<in> set (c_inbox (hl_wire (u_link ?h p)))" "event_chan e = Some c"
    then show "snd (u_for ?h c) = sealed e" using d(2) assms(4) by (auto simp: chans_ok_def split: if_splits)
  qed
  moreover have "list_all (wait_ok ?h) (u_tasks ?h)"
  proof -
    have "wait_ok h t \<Longrightarrow> wait_ok ?h t" for t
      using assms(4) by (auto simp: wait_ok_def calls_posts unused_def split: htask.splits option.splits)
    then show ?thesis using d(3) by (auto simp: list_all_iff)
  qed
  moreover have "u_cancelled ?h \<or> life_ok ?h"
    using d(4) assms(5) r unfolding life_ok_def life_link_def by auto
  moreover have "owed_ok X ?h"
  proof -
    have e: "owed ?h p + X p = owed h p + (X p + mine q (reply_id ev) p)" for p
      by (simp add: owed_def replies_posts mine_def hand_def split: option.split)
    have f: "hl_asked (u_link ?h p) = hl_asked (u_link h p)" "hl_failed (u_link ?h p) = hl_failed (u_link h p)" for p by simp_all
    show ?thesis using d(5) unfolding owed_ok_def r e f upd_link_simps(10) .
  qed
  ultimately show ?thesis by (simp add: hub_inv_def)
qed

text \<open>Reply channels: making one, and a send on one that nobody holds.\<close>

lemma newReply_unused:
  assumes "hub_inv X h" "newReply q b h = (c, h')"
  shows "hub_inv X h'" "unused c h'" "u_for h' c = (q, b)" "u_links h' = u_links h" "u_link h' = u_link h" "u_nlink h' = u_nlink h"
    "u_tasks h' = u_tasks h" "u_cancelled h' = u_cancelled h" "u_inbox h' = u_inbox h"
proof -
  note d = hub_invD[OF assms(1)]
  have c: "c = u_nchan h" and h': "h' = h\<lparr>u_nchan := Suc (u_nchan h), u_for := (u_for h)(u_nchan h := (q, b))\<rparr>"
    using assms(2) by (auto simp: newReply_def)
  have fresh: "c \<notin># calls (u_link h p)" for p using d(2) c by (auto simp: chans_ok_def)
  have fc: "u_for h' x = (if x = c then (q, b) else u_for h x)" for x by (simp add: h' c)
  have s: "u_sent h c = []" using d(2) c by (simp add: chans_ok_def)
  show "unused c h'" using fresh s by (simp add: unused_def fc) (simp add: h' c not_in_iff)
  show "u_for h' c = (q, b)" by (simp add: fc)
  show fs: "u_links h' = u_links h" "u_link h' = u_link h" "u_nlink h' = u_nlink h" "u_tasks h' = u_tasks h"
    "u_cancelled h' = u_cancelled h" "u_inbox h' = u_inbox h" by (simp_all add: h')
  have n: "u_sent h' = u_sent h" "u_nchan h' = Suc (u_nchan h)" by (simp_all add: h')
  have ev: "event_chan e \<noteq> Some c" if "e \<in> set (c_inbox (hl_wire (u_link h p)))" for e p
  proof
    assume "event_chan e = Some c"
    with that have "c \<in># calls (u_link h p)" by (force simp: calls_def List.map_filter_def)
    with fresh show False by blast
  qed
  have "links_ok h'" using d(1) by (simp add: links_ok_def fs)
  moreover have "chans_ok h'"
    unfolding chans_ok_def fs n
  proof (intro conjI allI impI ballI)
    fix p x assume "x \<in># calls (u_link h p)"
    then have "fst (u_for h x) = p \<and> x < u_nchan h" "x \<noteq> c" using d(2) fresh by (auto simp: chans_ok_def)
    then show "fst (u_for h' x) = p" "x < Suc (u_nchan h)" by (simp_all add: fc)
  next
    fix x
    show "count (calls (u_link h (fst (u_for h' x)))) x + length (u_sent h x) \<le> 1"
      using d(2) fresh s by (auto simp: chans_ok_def fc not_in_iff)
  next
    fix x assume "Suc (u_nchan h) \<le> x" then show "u_sent h x = []" using d(2) by (simp add: chans_ok_def)
  next
    fix p e x assume "e \<in> set (c_inbox (hl_wire (u_link h p)))" "event_chan e = Some x"
    then show "snd (u_for h' x) = sealed e" using d(2) ev by (auto simp: chans_ok_def fc)
  qed
  moreover have "wait_ok h t \<Longrightarrow> wait_ok h' t" for t using c by (auto simp: wait_ok_def fs n fc split: htask.splits)
  then have "list_all (wait_ok h') (u_tasks h')" using d(3) by (auto simp: list_all_iff fs)
  moreover have "registered h' = registered h" by (rule ext) (simp add: registered_def fs)
  then have "u_cancelled h' \<or> life_ok h'" "owed_ok X h'" using d(4,5) by (auto simp: life_ok_def life_link_def owed_ok_def owed_def fs)
  ultimately show "hub_inv X h'" by (simp add: hub_inv_def)
qed

lemma sendReply_simps [simp]:
  "u_links (sendReply x h) = u_links h" "u_link (sendReply x h) = u_link h" "u_nlink (sendReply x h) = u_nlink h"
  "u_inbox (sendReply x h) = u_inbox h" "u_for (sendReply x h) = u_for h" "u_nchan (sendReply x h) = u_nchan h"
  "u_tasks (sendReply x h) = u_tasks h" "u_cancelled (sendReply x h) = u_cancelled h" "registered (sendReply x h) = registered h"
  "u_sent (sendReply x h) c = u_sent h c @ (if c = fst x then [snd x] else [])"
  by (simp_all add: sendReply_def registered_def fun_eq_iff)

lemma sends_simps [simp]:
  "u_links (fold sendReply xs h) = u_links h" "u_link (fold sendReply xs h) = u_link h" "u_nlink (fold sendReply xs h) = u_nlink h"
  "u_inbox (fold sendReply xs h) = u_inbox h" "u_for (fold sendReply xs h) = u_for h" "u_nchan (fold sendReply xs h) = u_nchan h"
  "u_tasks (fold sendReply xs h) = u_tasks h" "u_cancelled (fold sendReply xs h) = u_cancelled h" "registered (fold sendReply xs h) = registered h"
  by (induction xs arbitrary: h) simp_all

lemma sends_count: "length (u_sent (fold sendReply xs h) c) = length (u_sent h c) + count (mset (map fst xs)) c"
  by (induction xs arbitrary: h) simp_all

lemma inv_send:
  assumes "hub_inv X h" "unused c h"
  shows "hub_inv X (sendReply (c, v) h)"
proof -
  let ?h = "sendReply (c, v) h"
  note d = hub_invD[OF assms(1)]
  have "links_ok ?h" using d(1) by (simp add: links_ok_def)
  moreover have "chans_ok ?h" using d(2) assms(2) unfolding chans_ok_def unused_def by auto
  moreover have "wait_ok h t \<Longrightarrow> wait_ok ?h t" for t using assms(2) by (auto simp: wait_ok_def unused_def split: htask.splits)
  then have "list_all (wait_ok ?h) (u_tasks ?h)" using d(3) by (auto simp: list_all_iff)
  moreover have "u_cancelled ?h \<or> life_ok ?h" "owed_ok X ?h" using d(4,5) by (auto simp: life_ok_def life_link_def owed_ok_def owed_def)
  ultimately show ?thesis by (simp add: hub_inv_def)
qed

section \<open>The registry's operations\<close>

lemma postLink_cases:
  "postLink s ev l = (readerPosts ev l, True) \<and> length (c_inbox (hl_wire l)) < OutboxSize \<or> postLink s ev l = (l, False)"
  by (cases l, cases "hl_wire l") (simp add: postLink_def Post_def readerPosts_def Let_def)

lemma upd_link_id: "f (u_link h p) = u_link h p \<Longrightarrow> upd_link p f h = h"
  by (simp add: upd_link_def heap_upd_def)

lemma upd_link_cong: "f (u_link h p) = g (u_link h p) \<Longrightarrow> upd_link p f h = upd_link p g h"
  by (simp add: upd_link_def heap_upd_def)

lemma postTo_cases:
  obtains "postTo seen p ev h = (True, upd_link p (readerPosts ev) h)" "length (c_inbox (hl_wire (u_link h p))) < OutboxSize"
  | "postTo seen p ev h = (False, h)"
proof (cases "postLink (seen p) ev (u_link h p) = (u_link h p, False)")
  case True
  with that(2) upd_link_id[of "\<lambda>l. fst (postLink (seen p) ev l)" h p] show ?thesis by (simp add: postTo_def)
next
  case False
  with postLink_cases[of "seen p" ev "u_link h p"]
  have "postLink (seen p) ev (u_link h p) = (readerPosts ev (u_link h p), True)" "length (c_inbox (hl_wire (u_link h p))) < OutboxSize" by auto
  with that(1) upd_link_cong[of "\<lambda>l. fst (postLink (seen p) ev l)" h p "readerPosts ev"] show ?thesis by (simp add: postTo_def)
qed

text \<open>What the registry's operations leave alone.\<close>

definition keeps_rest :: "hub \<Rightarrow> hub \<Rightarrow> bool" where
  "keeps_rest h h' \<longleftrightarrow> u_tasks h' = u_tasks h \<and> u_inbox h' = u_inbox h \<and> u_cancelled h' = u_cancelled h \<and> u_nlink h' = u_nlink h
     \<and> u_nchan h \<le> u_nchan h' \<and> (\<forall>p. hl_phase (u_link h' p) = hl_phase (u_link h p))
     \<and> (\<forall>c < u_nchan h. u_for h' c = u_for h c \<and> u_sent h' c = u_sent h c \<and> (\<forall>p. count (calls (u_link h' p)) c = count (calls (u_link h p)) c))"

lemma keeps_rest_refl [simp]: "keeps_rest h h"
  by (simp add: keeps_rest_def)

lemma keeps_rest_trans: "keeps_rest a b \<Longrightarrow> keeps_rest b c \<Longrightarrow> keeps_rest a c"
  unfolding keeps_rest_def by auto

lemma registered_lt: "hub_inv X h \<Longrightarrow> registered h p \<Longrightarrow> p < u_nlink h"
  using hub_invD(1) by (auto simp: links_ok_def registered_def)

lemma hostEnded_inv:
  assumes "hub_inv X h" "registered h q"
  shows "hub_inv X (hostEnded seen e q h) \<and> keeps_rest h (hostEnded seen e q h) \<and> registered (hostEnded seen e q h) = registered h
    \<and> u_links (hostEnded seen e q h) = u_links h"
proof -
  obtain c h1 where n: "newReply q False h = (c, h1)" by (cases "newReply q False h")
  note nu = newReply_unused[OF assms(1) n]
  have c: "c = u_nchan h" "u_nchan h1 = Suc c" "\<forall>x < c. u_for h1 x = u_for h x" "u_sent h1 = u_sent h" using n by (auto simp: newReply_def)
  have r1: "registered h1 = registered h" by (rule ext) (simp add: registered_def nu)
  have q: "q < u_nlink h1" using registered_lt[OF assms] nu by simp
  let ?ev = "HLifetime hostEndMethod (FPHostEnd e) c"
  have k1: "keeps_rest h h1" using nu c by (simp add: keeps_rest_def)
  show ?thesis
  proof (cases rule: postTo_cases[of seen q ?ev h1])
    case 1
    have "hub_inv X (upd_link q (readerPosts ?ev) h1)"
      by (rule inv_append) (use nu q 1 assms(2) r1 in \<open>simp_all add: mine_def\<close>)
    moreover have "keeps_rest h (upd_link q (readerPosts ?ev) h1)"
      using k1 c by (auto simp: keeps_rest_def calls_posts)
    moreover have "registered (upd_link q (readerPosts ?ev) h1) = registered h" using r1 registered_upd[of "readerPosts ?ev" h1 q] by simp
    ultimately show ?thesis using 1 n nu(4) by (simp add: hostEnded_def)
  next
    case 2
    have "hub_inv X (upd_link q closeLink h1)" by (intro inv_quiet[OF nu(1)] q) simp
    moreover have "keeps_rest h (upd_link q closeLink h1)"
      using k1 quiet_eqs(1)[OF quiet_closeLink] by (auto simp: keeps_rest_def)
    moreover have "registered (upd_link q closeLink h1) = registered h" using r1 registered_upd[of closeLink h1 q] by (simp add: closeLink_def)
    ultimately show ?thesis using 2 n nu(4) by (simp add: hostEnded_def)
  qed
qed

lemma hostEnded_fold:
  assumes "hub_inv X h" "\<forall>x \<in> set xs. registered h (snd x)"
  shows "hub_inv X (fold (\<lambda>x. hostEnded seen e (snd x)) xs h) \<and> keeps_rest h (fold (\<lambda>x. hostEnded seen e (snd x)) xs h)
    \<and> registered (fold (\<lambda>x. hostEnded seen e (snd x)) xs h) = registered h"
  using assms
proof (induction xs arbitrary: h)
  case (Cons x xs)
  have s: "hub_inv X (hostEnded seen e (snd x) h)" "keeps_rest h (hostEnded seen e (snd x) h)"
    "registered (hostEnded seen e (snd x) h) = registered h"
    using hostEnded_inv[OF Cons.prems(1), of "snd x" seen e] Cons.prems(2) by simp_all
  then show ?case using Cons.IH[OF s(1)] Cons.prems(2) keeps_rest_trans[OF s(2)] by simp
qed simp

lemma registered_all: "hub_inv X h \<Longrightarrow> x \<in> set (u_links h) \<Longrightarrow> registered h (snd x)"
  using hub_invD(1)[of X h] gm_set_get[of "u_links h" "fst x" "snd x"] by (auto simp: links_ok_def registered_def)

lemma removeLink_inv:
  assumes "hub_inv X h"
  shows "hub_inv X (removeLink seen p h)" "keeps_rest h (removeLink seen p h)" "\<not> registered (removeLink seen p h) p"
    "registered (removeLink seen p h) q \<Longrightarrow> registered h q"
proof -
  let ?l = "u_link h p" and ?h0 = "h\<lparr>u_links := gm_del (hl_host (u_link h p)) (u_links h)\<rparr>"
  let ?h1 = "upd_link p closeLink ?h0"
  have cl: "hl_host (closeLink l) = hl_host l" "hl_phase (closeLink l) = hl_phase l" for l by (simp_all add: closeLink_def)
  have "hub_inv X (removeLink seen p h) \<and> keeps_rest h (removeLink seen p h) \<and> \<not> registered (removeLink seen p h) p
    \<and> (registered (removeLink seen p h) q \<longrightarrow> registered h q)"
  proof (cases "registered h p")
    case True
    have i0: "hub_inv X ?h0" by (rule inv_unlink[OF assms])
    have "p < u_nlink ?h0" using registered_lt[OF assms True] by simp
    then have i1: "hub_inv X ?h1" by (intro inv_quiet[OF i0]) simp_all
    have k: "keeps_rest h ?h1" using quiet_eqs(1)[OF quiet_closeLink] cl by (auto simp: keeps_rest_def)
    have r: "registered ?h1 = registered ?h0" by (rule registered_upd) (rule cl(1))
    have "\<not> registered ?h0 p" "registered ?h0 q \<longrightarrow> registered h q" by (auto simp: registered_def split: if_splits)
    moreover have "removeLink seen p h = fold (\<lambda>x. hostEnded seen \<lparr>he_Host = hl_host ?l, he_Attachment = hl_attachment ?l\<rparr> (snd x)) (u_links ?h1) ?h1"
      using True by (simp add: removeLink_def Let_def)
    ultimately show ?thesis
      using hostEnded_fold[OF i1, of "u_links ?h1" seen] registered_all[OF i1] keeps_rest_trans[OF k] r by metis
  qed (use assms in \<open>simp add: removeLink_def\<close>)
  then show "hub_inv X (removeLink seen p h)" "keeps_rest h (removeLink seen p h)" "\<not> registered (removeLink seen p h) p"
    "registered (removeLink seen p h) q \<Longrightarrow> registered h q" by blast+
qed

abbreviation nothing :: "ptr \<Rightarrow> int multiset" where
  "nothing \<equiv> \<lambda>_. {#}"

lemma inv_release:
  assumes "hub_inv X h" "\<forall>p. Y p \<subseteq># X p \<and> (Y p \<noteq> X p \<longrightarrow> u_cancelled h \<or> \<not> registered h p \<or> hl_failed (u_link h p))"
  shows "hub_inv Y h"
proof -
  note d = hub_invD[OF assms(1)]
  have "owed_ok Y h"
    unfolding owed_ok_def
  proof (intro allI conjI impI)
    fix p
    have "owed h p + Y p \<subseteq># owed h p + X p" using assms(2) by simp
    also have "\<dots> \<subseteq># mset (hl_asked (u_link h p))" using d(5) by (simp add: owed_ok_def)
    finally show "owed h p + Y p \<subseteq># mset (hl_asked (u_link h p))" .
  next
    fix p assume "\<not> u_cancelled h \<and> registered h p \<and> \<not> hl_failed (u_link h p)"
    moreover from this assms(2) have "Y p = X p" by blast
    ultimately show "owed h p + Y p = mset (hl_asked (u_link h p))" using d(5) by (simp add: owed_ok_def)
  qed
  with d show ?thesis by (simp add: hub_inv_def)
qed

lemma inv_drop: "hub_inv (hand p i) h \<Longrightarrow> \<not> registered h p \<or> u_cancelled h \<Longrightarrow> hub_inv nothing h"
  by (erule inv_release) (auto simp: hand_def)

lemma hubReply_inv:
  assumes "hub_inv (hand (og_origin r) (og_id r)) h"
  shows "hub_inv nothing (hubReply seen r h)"
proof (cases "registered h (og_origin r)")
  case False
  then have "removeLink seen (og_origin r) h = h" by (simp add: removeLink_def)
  moreover have "hub_inv nothing h" using inv_drop[OF assms] False by simp
  ultimately show ?thesis using False by (simp add: hubReply_def Let_def)
next
  case True
  define r' where "r' = (if og_collect r then
      r\<lparr>og_value := (og_value r)\<lparr>rp_Trace := Some (case rp_Trace (og_value r) of None \<Rightarrow> [] | Some values \<Rightarrow> liveTraceRecipients h (og_destination r) values)\<rparr>\<rparr>
    else r)"
  have f: "og_origin r' = og_origin r" "og_id r' = og_id r" by (simp_all add: r'_def)
  have e: "hubReply seen r h = (let (ok, h1) = postTo seen (og_origin r) (HReply r') h in if ok then h1 else removeLink seen (og_origin r) h1)"
    using True f unfolding hubReply_def Let_def r'_def by (cases "og_collect r") (simp_all split: prod.split)
  show ?thesis
  proof (cases rule: postTo_cases[of seen "og_origin r" "HReply r'" h])
    case 1
    have "hub_inv nothing (upd_link (og_origin r) (readerPosts (HReply r')) h)"
      by (rule inv_append) (use assms f 1 registered_lt[OF assms True] in \<open>simp_all add: mine_def\<close>)
    with 1 e show ?thesis by simp
  next
    case 2
    from inv_drop[OF removeLink_inv(1)[OF assms]] removeLink_inv(3)[OF assms]
    have "hub_inv nothing (removeLink seen (og_origin r) h)" by blast
    with 2 e show ?thesis by simp
  qed
qed

lemma hubReply_answer: "hub_inv (hand p i) h \<Longrightarrow> hub_inv nothing (hubReply seen (answerOrigin p i v) h)"
  using hubReply_inv[of "answerOrigin p i v"] by (simp add: answerOrigin_def)

lemma inv_task:
  assumes "hub_inv (\<lambda>p. X p + mine p (task_owes p t) p) h" "wait_ok h t"
  shows "hub_inv X (h\<lparr>u_tasks := t # u_tasks h\<rparr>)"
proof -
  let ?h = "h\<lparr>u_tasks := t # u_tasks h\<rparr>"
  note d = hub_invD[OF assms(1)]
  have w: "wait_ok ?h = wait_ok h" by (rule ext) (simp add: wait_ok_def split: htask.split)
  have r: "registered ?h = registered h" by (rule ext) (simp add: registered_def)
  have "owed ?h p + X p = owed h p + (X p + mine p (task_owes p t) p)" for p
    by (simp add: owed_def mine_def hand_def split: option.split)
  then have "owed_ok X ?h" using d(5) unfolding owed_ok_def r by (simp add: add_ac)
  then show ?thesis using d assms(2) unfolding hub_inv_def w by (simp add: links_ok_def chans_ok_def life_ok_def life_link_def r)
qed

lemma inv_wait:
  assumes "hub_inv (hand origin i) h" "u_for h c = (q, False)" "c < u_nchan h" "count (calls (u_link h q)) c + length (u_sent h c) = 1"
  shows "hub_inv nothing (h\<lparr>u_tasks := TWait c origin q i b # u_tasks h\<rparr>)"
proof (rule inv_task)
  have "(\<lambda>p. {#} + mine p (task_owes p (TWait c origin q i b)) p) = hand origin i"
    by (rule ext) (simp add: mine_def hand_def)
  with assms(1) show "hub_inv (\<lambda>p. {#} + mine p (task_owes p (TWait c origin q i b)) p) h" by simp
qed (use assms(2-4) in \<open>simp add: wait_ok_def\<close>)

lemma forwardTo_inv:
  assumes "hub_inv (hand origin i) h" "registered h q"
  shows "hub_inv nothing (forwardTo seen origin i v q h)"
proof -
  define r where "r = fw_Request v"
  define collect where "collect \<longleftrightarrow> pr_Trace r \<and> SupportsTrace (hl_alpn (u_link h origin))"
  define v1 where "v1 = v\<lparr>fw_Request := (if collect \<and> \<not> SupportsTrace (hl_alpn (u_link h q)) then r\<lparr>pr_Trace := False\<rparr> else r),
     fw_From := (fw_From v)\<lparr>fc_SourceAttachment := hl_attachment (u_link h origin)\<rparr>\<rparr>"
  obtain c h1 where n: "newReply q False h = (c, h1)" by (cases "newReply q False h")
  note nu = newReply_unused[OF assms(1) n]
  have r1: "registered h1 q" using assms(2) by (simp add: registered_def nu)
  then have q: "q < u_nlink h1" using registered_lt[OF nu(1)] by simp
  have main: "hub_inv nothing (let (ok, h2) = postTo seen q (HForward v1 c) h1;
      h3 = (if ok then h2 else removeLink seen q (sendReply (c, errorReply ForwardLost None) h2))
      in h3\<lparr>u_tasks := TWait c origin q i collect # u_tasks h3\<rparr>)"
  proof (cases rule: postTo_cases[of seen q "HForward v1 c" h1])
    case 1
    let ?h2 = "upd_link q (readerPosts (HForward v1 c)) h1"
    have "hub_inv (hand origin i) ?h2" by (rule inv_append) (use nu q 1 r1 in \<open>simp_all add: mine_def\<close>)
    then have "hub_inv nothing (?h2\<lparr>u_tasks := TWait c origin q i collect # u_tasks ?h2\<rparr>)"
      by (rule inv_wait) (use nu(2,3) in \<open>auto simp: unused_def calls_posts\<close>)
    with 1 show ?thesis by simp
  next
    case 2
    let ?h2 = "sendReply (c, errorReply ForwardLost None) h1" and ?h3 = "removeLink seen q (sendReply (c, errorReply ForwardLost None) h1)"
    note i2 = inv_send[OF nu(1,2), of "errorReply ForwardLost None"]
    note rm = removeLink_inv(1,2)[OF i2, of seen q]
    have "c < u_nchan ?h2" using nu(2) by (simp add: unused_def)
    then have "u_for ?h3 c = (q, False)" "c < u_nchan ?h3" "count (calls (u_link ?h3 q)) c + length (u_sent ?h3 c) = 1"
      using rm(2) nu(2,3) by (auto simp: keeps_rest_def unused_def)
    from inv_wait[OF rm(1) this] 2 show ?thesis by (simp add: Let_def)
  qed
  show ?thesis
    using main hubReply_answer[OF assms(1), of seen] n unfolding v1_def collect_def r_def forwardTo_def Let_def by simp
qed

lemma get_registered: "hub_inv X h \<Longrightarrow> gm_get (u_links h) host = Some q \<Longrightarrow> registered h q"
  using hub_invD(1)[of X h] by (auto simp: links_ok_def registered_def)

lemma hubForward_inv:
  assumes "hub_inv (hand origin (if_id call)) h"
  shows "hub_inv nothing (hubForward seen origin call h)"
  using hubReply_answer[OF assms, of seen] forwardTo_inv[OF assms get_registered[OF assms], of _ _ seen] inv_drop[OF assms]
  unfolding hubForward_def Let_def by (simp split: option.split)

lemma hubOwnerEnd_inv:
  assumes "hub_inv (hand origin (io_ID call)) h"
  shows "hub_inv nothing (hubOwnerEnd seen origin call h)"
proof (cases "gm_get (u_links h) (oe_Host (io_Value call))")
  case None
  then show ?thesis using hubReply_answer[OF assms, of seen] inv_drop[OF assms] by (simp add: hubOwnerEnd_def)
next
  case (Some q)
  define v where "v = (io_Value call)\<lparr>oe_Source := hl_host (u_link h origin), oe_Attachment := hl_attachment (u_link h origin)\<rparr>"
  obtain c h1 where n: "newReply q False h = (c, h1)" by (cases "newReply q False h")
  note nu = newReply_unused[OF assms n]
  have r1: "registered h1 q" using get_registered[OF assms Some] by (simp add: registered_def nu)
  then have q: "q < u_nlink h1" using registered_lt[OF nu(1)] by simp
  let ?ev = "HLifetime ownerEndMethod (FPOwnerEnd v) c"
  have "hub_inv nothing (let (ok, h2) = postTo seen q ?ev h1 in
      if \<not> ok then hubReply seen (answerOrigin origin (io_ID call) (errorReply ForwardLost None)) (removeLink seen q h2)
      else h2\<lparr>u_tasks := TWait c origin q (io_ID call) False # u_tasks h2\<rparr>)"
  proof (cases rule: postTo_cases[of seen q ?ev h1])
    case 1
    let ?h2 = "upd_link q (readerPosts ?ev) h1"
    have "hub_inv (hand origin (io_ID call)) ?h2" by (rule inv_append) (use nu q 1 r1 in \<open>simp_all add: mine_def\<close>)
    then have "hub_inv nothing (?h2\<lparr>u_tasks := TWait c origin q (io_ID call) False # u_tasks ?h2\<rparr>)"
      by (rule inv_wait) (use nu(2,3) in \<open>auto simp: unused_def calls_posts\<close>)
    with 1 show ?thesis by simp
  next
    case 2
    then show ?thesis using hubReply_answer[OF removeLink_inv(1)[OF nu(1)], of seen] by simp
  qed
  then show ?thesis using Some n inv_drop[OF assms] by (simp add: hubOwnerEnd_def v_def)
qed

lemma hubHosts_inv: "hub_inv (hand p i) h \<Longrightarrow> hub_inv nothing (hubHosts seen p i h)"
  using hubReply_answer inv_drop by (simp add: hubHosts_def)

lemma hubRoster_inv:
  assumes "hub_inv (hand origin i) h"
  shows "hub_inv nothing (hubRoster seen origin i h)"
proof (cases "registered h origin \<and> hl_rosterSlots (u_link h origin) < 8")
  case True
  let ?h = "upd_link origin (\<lambda>l. l\<lparr>hl_rosterSlots := hl_rosterSlots l + 1\<rparr>) h"
  let ?legs = "otherHosts (hl_host (u_link h origin)) h" let ?t = "TCollect origin i ?legs None [] 0"
  have "hub_inv (hand origin i) ?h" using True by (intro inv_quiet[OF assms] registered_lt[OF assms]) (simp_all add: quiet_def)
  moreover have "(\<lambda>p. {#} + mine p (task_owes p ?t) p) = hand origin i" by (rule ext) (simp add: mine_def hand_def)
  moreover have "\<forall>x \<in> set ?legs. snd x < u_nlink h" using registered_all[OF assms] registered_lt[OF assms] by (auto simp: otherHosts_def)
  then have "wait_ok ?h ?t" by (simp add: wait_ok_def)
  ultimately have "hub_inv nothing (?h\<lparr>u_tasks := ?t # u_tasks ?h\<rparr>)" by (intro inv_task) simp_all
  with True hubReply_answer[OF assms, of seen] show ?thesis by (simp add: hubRoster_def Let_def)
next
  case False
  then show ?thesis using hubReply_answer[OF assms, of seen] inv_drop[OF assms] by (auto simp: hubRoster_def)
qed

end
