(* ===== verification/HubLinks.thy ===== *)
theory HubLinks
  imports HubSystem
begin

text \<open>
  The hub's invariant on the steps of its links and goroutines, and what it means: every request of
  a host is answered once, no reply channel is written twice, and a forwarded request whose
  destination is gone has its answer.
\<close>

section \<open>Steps of a link\<close>

text \<open>
  A link that turns into another: the replies it sent come from the calls it held, and what it owes
  is what it owed, what it newly asks (\<open>N\<close>) and what the registry has in hand.
\<close>

lemma inv_turn:
  assumes inv: "hub_inv X h" and p: "p < u_nlink h" and ok: "link_ok l" and host: "hl_host l = hl_host (u_link h p)"
    and calls: "calls l + mset (map fst sends) = calls (u_link h p)"
    and inbox: "set (c_inbox (hl_wire l)) \<subseteq> set (c_inbox (hl_wire (u_link h p)))"
    and asked: "mset (hl_asked l) = mset (hl_asked (u_link h p)) + N"
    and owe: "replies l + Y p \<subseteq># replies (u_link h p) + X p + N"
    and all: "\<not> u_cancelled h \<Longrightarrow> registered h p \<Longrightarrow> \<not> hl_failed l \<Longrightarrow>
       \<not> hl_failed (u_link h p) \<and> replies l + Y p = replies (u_link h p) + X p + N"
    and others: "\<forall>q. q \<noteq> p \<longrightarrow> Y q = X q"
    and life: "\<not> u_cancelled h \<Longrightarrow> life_link h p l"
  shows "hub_inv Y (fold sendReply sends (upd_link p (\<lambda>_. l) h))"
proof -
  let ?h = "fold sendReply sends (upd_link p (\<lambda>_. l) h)"
  note d = hub_invD[OF inv]
  have r: "registered ?h = registered h" using registered_upd[of "\<lambda>_. l" h p] host by simp
  have own: "fst (u_for h c) = p" if "c \<in># mset (map fst sends)" for c
  proof -
    have "c \<in># calls l + mset (map fst sends)" using that by simp
    then show ?thesis using d(2) unfolding calls chans_ok_def by blast
  qed
  have held: "c \<in># calls (u_link h p)" if "c \<in># calls l" for c
    using that unfolding calls[symmetric] by simp
  have cnt: "count (calls (u_link ?h (fst (u_for h c)))) c + length (u_sent ?h c) = count (calls (u_link h (fst (u_for h c)))) c + length (u_sent h c)" for c
  proof (cases "fst (u_for h c) = p")
    case True
    have "count (calls l) c + count (mset (map fst sends)) c = count (calls (u_link h p)) c" using calls by (metis count_union)
    with True show ?thesis by (simp add: sends_count)
  next
    case False
    then have "c \<notin># mset (map fst sends)" using own[of c] by blast
    then have "count (mset (map fst sends)) c = 0" by (simp only: not_in_iff)
    with False show ?thesis by (simp add: sends_count)
  qed
  have "links_ok ?h" using d(1) p ok host by (auto simp: links_ok_def)
  moreover have "chans_ok ?h"
    unfolding chans_ok_def
  proof (intro conjI allI impI ballI)
    fix q c assume "c \<in># calls (u_link ?h q)"
    then have "c \<in># calls (u_link h q)" using held by (simp split: if_splits)
    then show "fst (u_for ?h c) = q" "c < u_nchan ?h" using d(2) by (auto simp: chans_ok_def)
  next
    fix c show "count (calls (u_link ?h (fst (u_for ?h c)))) c + length (u_sent ?h c) \<le> 1"
      using cnt[of c] d(2) by (simp add: chans_ok_def)
  next
    fix c assume c: "c \<ge> u_nchan ?h"
    then have "c \<notin># calls (u_link h (fst (u_for h c)))" using d(2) unfolding chans_ok_def by fastforce
    then have "length (u_sent ?h c) = 0" using cnt[of c] c d(2) by (simp add: chans_ok_def not_in_iff)
    then show "u_sent ?h c = []" by simp
  next
    fix q e c assume "e \<in> set (c_inbox (hl_wire (u_link ?h q)))" "event_chan e = Some c"
    then show "snd (u_for ?h c) = sealed e" using d(2) inbox by (auto simp: chans_ok_def split: if_splits)
  qed
  moreover have "wait_ok h t \<Longrightarrow> wait_ok ?h t" for t
  proof (cases t)
    case (TWait c origin q i collect)
    assume "wait_ok h t" then show ?thesis using cnt[of c] TWait by (simp add: wait_ok_def)
  qed (simp add: wait_ok_def)
  then have "list_all (wait_ok ?h) (u_tasks ?h)" using d(3) by (auto simp: list_all_iff)
  moreover have "u_cancelled ?h \<or> life_ok ?h"
  proof -
    have e: "life_link ?h q m = life_link h q m" for q m by (simp add: life_link_def r del: sends_simps(9))
    show ?thesis using d(4) life unfolding life_ok_def e by auto
  qed
  moreover have "owed_ok Y ?h"
    unfolding owed_ok_def r
  proof
    fix q
    show "owed ?h q + Y q \<subseteq># mset (hl_asked (u_link ?h q))
      \<and> (\<not> u_cancelled ?h \<and> registered h q \<and> \<not> hl_failed (u_link ?h q) \<longrightarrow> owed ?h q + Y q = mset (hl_asked (u_link ?h q)))"
    proof (cases "q = p")
      case True
      define R0 where "R0 = mset (List.map_filter (event_owes p) (u_inbox h)) + mset (List.map_filter (task_owes p) (u_tasks h))"
      have o: "owed h p = R0 + replies (u_link h p)" "owed ?h p = R0 + replies l" by (simp_all add: owed_def R0_def)
      have sub: "R0 + replies (u_link h p) + X p \<subseteq># mset (hl_asked (u_link h p))" using d(5) unfolding owed_ok_def o(1)[symmetric] by blast
      have "R0 + (replies l + Y p) \<subseteq># R0 + (replies (u_link h p) + X p + N)" using owe by simp
      also have "\<dots> = (R0 + replies (u_link h p) + X p) + N" by (simp add: add_ac)
      also have "\<dots> \<subseteq># mset (hl_asked l)" using sub asked by simp
      finally have "owed ?h p + Y p \<subseteq># mset (hl_asked l)" by (simp add: o add_ac)
      moreover have "owed ?h p + Y p = mset (hl_asked l)" if "\<not> u_cancelled h" "registered h p" "\<not> hl_failed l"
      proof -
        from all[OF that] that d(5) have "replies l + Y p = replies (u_link h p) + X p + N" "R0 + replies (u_link h p) + X p = mset (hl_asked (u_link h p))"
          unfolding owed_ok_def o(1)[symmetric] by blast+
        then show ?thesis using asked by (simp add: o add_ac)
      qed
      ultimately show ?thesis using True by simp
    next
      case False
      then have "owed ?h q = owed h q" by (simp add: owed_def)
      with False d(5) others show ?thesis by (simp add: owed_ok_def)
    qed
  qed
  ultimately show ?thesis by (simp add: hub_inv_def)
qed

text \<open>Turns that leave the link as it is but for its socket, its counter and its failure.\<close>

definition mild :: "hostLink \<Rightarrow> hostLink \<Rightarrow> bool" where
  "mild l l' \<longleftrightarrow> hl_host l' = hl_host l \<and> hl_asked l' = hl_asked l \<and> hl_answered l' = hl_answered l \<and> hl_phase l' = hl_phase l
     \<and> hl_ready l' = hl_ready l \<and> hl_closedAck l' = hl_closedAck l \<and> hl_done l' = hl_done l \<and> hl_lastIn l' = hl_lastIn l
     \<and> c_inbox (hl_wire l') = c_inbox (hl_wire l) \<and> (conn_ok (hl_wire l) \<longrightarrow> conn_ok (hl_wire l'))
     \<and> hl_nextID l \<le> hl_nextID l' \<and> (hl_failed l \<longrightarrow> hl_failed l') \<and> hl_pending l' = hl_pending l"

lemma mild_refl: "mild l l"
  by (simp add: mild_def)

lemma mild_trans: "mild a b \<Longrightarrow> mild b c \<Longrightarrow> mild a c"
  unfolding mild_def by auto

lemma mild_intros:
  "mild l (closeLink l)" "mild l (failLink l)" "mild l (l\<lparr>hl_nextID := hl_nextID l + 1\<rparr>)" "mild l (l\<lparr>hl_failed := True\<rparr>)"
  "mild l (fst (sendFrame body l))"
proof -
  show c: "mild l (closeLink l)" for l using quiet_closeLink[of l] by (simp add: mild_def quiet_def)
  then show "mild l (failLink l)" unfolding failLink_def mild_def by simp
  show "mild l (l\<lparr>hl_nextID := hl_nextID l + 1\<rparr>)" "mild l (l\<lparr>hl_failed := True\<rparr>)" by (simp_all add: mild_def)
  have "c_inbox (fst (Send body (hl_wire l))) = c_inbox (hl_wire l)" by (simp add: Send_def outboxPut_def CloseConn_def)
  then show "mild l (fst (sendFrame body l))"
    using conn_ok_ops(2)[of "hl_wire l" body] by (simp add: mild_def sendFrame_def split_beta)
qed

lemma link_ok_mild:
  assumes "link_ok l" "mild l l'" "hl_phase l = Running"
  shows "link_ok l'"
  using assms unfolding link_ok_def mild_def by fastforce

lemma mild_eqs: "mild l l' \<Longrightarrow> calls l' = calls l \<and> replies l' = replies l"
  by (simp add: mild_def calls_def replies_def)

text \<open>Turns that take a call and either keep it pending or answer it.\<close>

definition carries :: "ptr \<Rightarrow> hostLink \<Rightarrow> turn \<Rightarrow> bool" where
  "carries ch l t \<longleftrightarrow> (case t of (l', sends, out) \<Rightarrow>
     out = None \<and> link_ok l' \<and> calls l' + mset (map fst sends) = add_mset ch (calls l)
     \<and> mild (l\<lparr>hl_pending := hl_pending l'\<rparr>) l')"

lemma carries_lost:
  assumes "link_ok l" "hl_phase l = Running" "mild l l'"
  shows "carries ch l (l', [(ch, v)], None)"
  using link_ok_mild[OF assms(1,3,2)] mild_eqs[OF assms(3)] assms(3) by (simp add: carries_def mild_def)

lemma carries_asked:
  assumes "link_ok l" "hl_phase l = Running" "length (hl_pending l) < maxPendingForwardedPerHost"
    "mild (l\<lparr>hl_nextID := hl_nextID l + 1\<rparr>) l'" "pc_reply call = ch" "hl_nextID l' = hl_nextID l + 1"
  shows "carries ch l (addPending call l', [], None)"
proof -
  have m: "mild l l'" by (rule mild_trans[OF mild_intros(3) assms(4)])
  have none: "gm_get (hl_pending l) (hl_nextID l + 1) = None"
    using assms(1) gm_get_in_set[of "hl_pending l" "hl_nextID l + 1"] by (cases "gm_get (hl_pending l) (hl_nextID l + 1)") (fastforce simp: link_ok_def)+
  have pend: "hl_pending (addPending call l') = hl_pending l @ [(hl_nextID l + 1, call)]"
    using m assms(6) gm_set_none[OF none] by (simp add: addPending_def mild_def)
  have ok: "gm_ok (hl_pending l @ [(hl_nextID l + 1, call)])"
    using assms(1) gm.invar_put[of "hl_pending l" "hl_nextID l + 1" call] unfolding gm_set_none[OF none] by (simp add: link_ok_def)
  have l': "link_ok l'" by (rule link_ok_mild[OF assms(1) m assms(2)])
  have ids: "\<forall>x \<in> set (hl_pending l). 0 < fst x \<and> fst x \<le> hl_nextID l'" using l' m by (simp add: link_ok_def mild_def)
  have "0 < hl_nextID l'" using assms(1,6) by (simp add: link_ok_def)
  with ids have "\<forall>x \<in> set (hl_pending (addPending call l')). 0 < fst x \<and> fst x \<le> hl_nextID l'" unfolding pend using assms(6) by auto
  moreover have "hl_wire (addPending call l') = hl_wire l'" "hl_nextID (addPending call l') = hl_nextID l'" "hl_asked (addPending call l') = hl_asked l'"
    "hl_lastIn (addPending call l') = hl_lastIn l'" "hl_phase (addPending call l') = hl_phase l'" "hl_failed (addPending call l') = hl_failed l'"
    by (simp_all add: addPending_def)
  moreover have "length (hl_pending (addPending call l')) \<le> maxPendingForwardedPerHost" unfolding pend using assms(3) by simp
  ultimately have "link_ok (addPending call l')"
    using ok l' unfolding link_ok_def pend by simp
  moreover have "calls (addPending call l') = add_mset ch (calls l)"
    using m pend assms(5) by (simp add: calls_def mild_def) (simp add: addPending_def)
  ultimately show ?thesis using m by (simp add: carries_def mild_def addPending_def)
qed

lemma sendFrame_nextID [simp]: "hl_nextID (fst (sendFrame body l)) = hl_nextID l"
  by (simp add: sendFrame_def split_beta)

lemma linkRoster_carries:
  assumes "link_ok l" "hl_phase l = Running"
  shows "carries ch l (linkRoster E ch l)"
proof -
  let ?l1 = "l\<lparr>hl_nextID := hl_nextID l + 1\<rparr>"
  note cl = carries_lost[OF assms]
  have m: "mild l (fst (sendFrame body ?l1))" for body by (rule mild_trans[OF mild_intros(3,5)])
  have a: "length (hl_pending l) < maxPendingForwardedPerHost \<Longrightarrow> carries ch l (addPending call (fst (sendFrame body ?l1)), [], None)"
    if "pc_reply call = ch" for body call
    by (rule carries_asked[OF assms]) (use that mild_intros(5) in simp_all)
  show ?thesis
    using cl[OF mild_refl] cl[OF mild_intros(3)] cl[OF m] a
    by (auto simp: linkRoster_def Let_def split_beta split: option.split)
qed

lemma linkLifetime_carries:
  assumes "link_ok l" "hl_phase l = Running"
  shows "carries ch l (linkLifetime E method params ch l)"
proof -
  let ?l1 = "l\<lparr>hl_nextID := hl_nextID l + 1\<rparr>"
  note cl = carries_lost[OF assms]
  have m: "mild l (failLink (fst (sendFrame body ?l1)))" for body by (rule mild_trans[OF mild_trans[OF mild_intros(3,5)] mild_intros(2)])
  have m1: "mild l (failLink ?l1)" by (rule mild_trans[OF mild_intros(3,2)])
  have a: "length (hl_pending l) < maxPendingForwardedPerHost \<Longrightarrow> carries ch l (addPending call (fst (sendFrame body ?l1)), [], None)"
    if "pc_reply call = ch" for body call
    by (rule carries_asked[OF assms]) (use that mild_intros(5) in simp_all)
  show ?thesis
    using cl[OF mild_intros(2)] cl[OF m1] cl[OF m] a
    by (auto simp: linkLifetime_def Let_def split_beta split: option.split)
qed

lemma linkForward_carries:
  assumes "link_ok l" "hl_phase l = Running"
  shows "carries ch l (linkForward E v ch l)"
proof -
  let ?l1 = "l\<lparr>hl_nextID := hl_nextID l + 1\<rparr>"
  note cl = carries_lost[OF assms]
  have m: "mild l ((fst (sendFrame body ?l1))\<lparr>hl_failed := True\<rparr>)" for body by (rule mild_trans[OF mild_trans[OF mild_intros(3,5)] mild_intros(4)])
  have a: "length (hl_pending l) < maxPendingForwardedPerHost \<Longrightarrow> carries ch l (addPending call (fst (sendFrame body ?l1)), [], None)"
    if "pc_reply call = ch" for body call
    by (rule carries_asked[OF assms]) (use that mild_intros(5) in simp_all)
  show ?thesis
    using cl[OF mild_refl] cl[OF mild_intros(2)] cl[OF mild_intros(3)] cl[OF m] a
    unfolding linkForward_def Let_def by (auto simp: split_beta split: option.split)
qed

text \<open>What a turn of the loop does with an event of its inbox.\<close>

definition own :: "ptr \<Rightarrow> registryEvent option \<Rightarrow> int multiset" where
  "own q out = (case out of None \<Rightarrow> {#} | Some e \<Rightarrow> mine q (event_owes q e) q)"

definition turn_ok :: "ptr \<Rightarrow> hostLink \<Rightarrow> turn \<Rightarrow> bool" where
  "turn_ok p l t \<longleftrightarrow> (case t of (l', sends, out) \<Rightarrow>
     link_ok l' \<and> hl_host l' = hl_host l \<and> calls l' + mset (map fst sends) = calls l
     \<and> set (c_inbox (hl_wire l')) \<subseteq> set (c_inbox (hl_wire l)) \<and> mset (hl_asked l') = mset (hl_asked l) + own p out
     \<and> replies l' \<subseteq># replies l \<and> (\<not> hl_failed l' \<longrightarrow> \<not> hl_failed l \<and> replies l' = replies l)
     \<and> hl_ready l' = hl_ready l \<and> hl_closedAck l' = hl_closedAck l \<and> hl_done l' = hl_done l
     \<and> hl_phase l' = (if out = Some (RClosed p) then Closing else Running)
     \<and> (\<forall>q. q \<noteq> p \<longrightarrow> own q out = {#} \<and> out \<noteq> Some (RClosed q)) \<and> (\<forall>q. out \<noteq> Some (RReady q)))"

definition popped :: "linkEvent list \<Rightarrow> hostLink \<Rightarrow> hostLink" where
  "popped evs l = l\<lparr>hl_wire := (hl_wire l)\<lparr>c_inbox := evs\<rparr>\<rparr>"

lemma popped_fields [simp]:
  "hl_host (popped evs l) = hl_host l" "hl_asked (popped evs l) = hl_asked l" "hl_answered (popped evs l) = hl_answered l"
  "hl_phase (popped evs l) = hl_phase l" "hl_ready (popped evs l) = hl_ready l" "hl_closedAck (popped evs l) = hl_closedAck l"
  "hl_done (popped evs l) = hl_done l" "hl_pending (popped evs l) = hl_pending l" "hl_failed (popped evs l) = hl_failed l"
  "hl_lastIn (popped evs l) = hl_lastIn l" "hl_nextID (popped evs l) = hl_nextID l" "c_inbox (hl_wire (popped evs l)) = evs"
  by (simp_all add: popped_def)

lemma popped_ok: "link_ok l \<Longrightarrow> c_inbox (hl_wire l) = ev # evs \<Longrightarrow> link_ok (popped evs l)"
  by (auto simp: link_ok_def conn_ok_def popped_def)

lemma turn_carries:
  assumes "carries ch (popped evs l) t" "c_inbox (hl_wire l) = ev # evs" "event_chan ev = Some ch" "hl_phase l = Running"
  shows "turn_ok p l t"
proof -
  obtain l' sends out where t: "t = (l', sends, out)" by (cases t) auto
  have m: "mild ((popped evs l)\<lparr>hl_pending := hl_pending l'\<rparr>) l'" "out = None" "link_ok l'" "calls l' + mset (map fst sends) = add_mset ch (calls (popped evs l))"
    using assms(1) by (simp_all add: carries_def t)
  have r: "reply_id ev = None" using assms(3) by (cases ev) auto
  then have "replies l' = replies l" using m(1) assms(2) by (simp add: replies_def mild_def)
  moreover have "add_mset ch (calls (popped evs l)) = calls l" using assms(2,3) by (simp add: calls_def)
  ultimately show ?thesis using m assms(2,4) by (auto simp: t turn_ok_def mild_def own_def)
qed

lemma turn_mild:
  assumes "mild (popped evs l) l'" "link_ok l" "hl_phase l = Running" "c_inbox (hl_wire l) = ev # evs" "event_chan ev = None"
    "reply_id ev = None \<or> hl_failed l'"
  shows "turn_ok p l (l', [], None)"
proof -
  have "link_ok l'" using link_ok_mild[OF popped_ok[OF assms(2,4)] assms(1)] assms(3) by simp
  moreover have "calls l' = calls l" using assms(1,4,5) by (simp add: calls_def mild_def)
  moreover have "replies l' \<subseteq># replies l" using assms(1,4) by (auto simp: replies_def mild_def split: option.split)
  moreover have "\<not> hl_failed l' \<longrightarrow> \<not> hl_failed l \<and> replies l' = replies l" using assms(1,4,6) by (auto simp: replies_def mild_def)
  ultimately show ?thesis using assms(1,3,4) by (auto simp: turn_ok_def mild_def own_def)
qed

lemma turn_reply:
  assumes "link_ok l" "hl_phase l = Running" "c_inbox (hl_wire l) = HReply r # evs"
  shows "turn_ok p l (linkReply E r (popped evs l))"
proof -
  let ?l = "popped evs l"
  have lost: "turn_ok p l (l', [], None)" if "mild ?l l'" "hl_failed l'" for l'
    by (rule turn_mild[OF that(1) assms]) (use that(2) in simp_all)
  have f: "hl_failed (failLink x)" for x by (simp add: failLink_def)
  have sent: "turn_ok p l ((fst (sendFrame body ?l))\<lparr>hl_answered := og_id r # hl_answered (fst (sendFrame body ?l))\<rparr>, [], None)" if "\<not> hl_failed l" for body
  proof -
    let ?s = "fst (sendFrame body ?l)"
    let ?l' = "?s\<lparr>hl_answered := og_id r # hl_answered ?s\<rparr>"
    have m: "mild ?l ?s" by (rule mild_intros)
    have "link_ok ?s" using link_ok_mild[OF popped_ok[OF assms(1,3)] m] assms(2) by simp
    then have "link_ok ?l'" by (simp add: link_ok_def)
    moreover have "replies ?l' = replies l" using m assms(3) by (simp add: replies_def mild_def)
    moreover have "calls ?l' = calls l" using m assms(3) by (simp add: calls_def mild_def)
    ultimately show ?thesis using m assms(2,3) that by (auto simp: turn_ok_def mild_def own_def)
  qed
  show ?thesis
    using lost[OF mild_refl] lost[OF mild_intros(2) f] lost[OF mild_trans[OF mild_intros(5,2)] f] sent
    by (auto simp: linkReply_def Let_def split_beta split: option.split)
qed

lemma requestEvent_own:
  assumes "requestEvent E p frame l = Some ev"
  shows "own p (Some ev) = {#ff_ID frame#}" "q \<noteq> p \<Longrightarrow> own q (Some ev) = {#}" "ev \<noteq> RClosed q" "ev \<noteq> RReady q"
  using assms unfolding requestEvent_def
  by (auto simp: own_def mine_def hand_def split: if_splits option.splits fedparams.splits)

lemma turn_response:
  assumes "link_ok l" "hl_phase l = Running" "c_inbox (hl_wire l) = HFrame frame bad # evs"
    "linkResponse E frame (popped evs l) = Some t" "\<not> hl_failed l"
  shows "turn_ok p l t"
proof -
  obtain call reply where c: "gm_get (hl_pending l) (ff_ID frame) = Some call"
    and t: "t = ((popped evs l)\<lparr>hl_pending := gm_del (ff_ID frame) (hl_pending l)\<rparr>, [(pc_reply call, reply)], None)"
    using assms(4) by (auto simp: linkResponse_def split: option.splits)
  have ok: "gm_ok (hl_pending l)" using assms(1) by (simp add: link_ok_def)
  note ms = mset_gm_del[OF ok c]
  have sub: "set (gm_del (ff_ID frame) (hl_pending l)) \<subseteq> set (hl_pending l)" using ms by (metis set_mset_mset set_mset_add_mset_insert subset_insertI)
  have len: "length (gm_del (ff_ID frame) (hl_pending l)) \<le> length (hl_pending l)" using arg_cong[OF ms, of "size"] by simp
  let ?l' = "(popped evs l)\<lparr>hl_pending := gm_del (ff_ID frame) (hl_pending l)\<rparr>"
  have "link_ok ?l'" using popped_ok[OF assms(1,3)] ok sub len by (auto simp: link_ok_def)
  moreover have "calls ?l' + {#pc_reply call#} = calls l"
    using arg_cong[OF ms, of "image_mset (\<lambda>x. pc_reply (snd x))"] assms(3) by (simp add: calls_def)
  moreover have "replies ?l' = replies l" using assms(3) by (simp add: replies_def)
  ultimately show ?thesis using assms(2,3,5) by (auto simp: t turn_ok_def own_def)
qed

lemma turn_frame:
  assumes "link_ok l" "hl_phase l = Running" "c_inbox (hl_wire l) = HFrame frame bad # evs"
  shows "turn_ok p l (linkFrame E p frame bad (popped evs l))"
proof -
  let ?l = "popped evs l"
  have mild: "turn_ok p l (l', [], None)" if "mild ?l l'" for l' by (rule turn_mild[OF that assms]) simp_all
  have refused: "turn_ok p l (failLink (?l\<lparr>hl_lastIn := i\<rparr>), [], None)" if "hl_lastIn l < i" for i
  proof -
    have "link_ok (?l\<lparr>hl_lastIn := i\<rparr>)" using popped_ok[OF assms(1,3)] that by (fastforce simp: link_ok_def)
    then have "link_ok (failLink (?l\<lparr>hl_lastIn := i\<rparr>))" by (rule link_ok_mild[OF _ mild_intros(2)]) (simp add: assms(2))
    moreover have "hl_failed (failLink x)" for x by (simp add: failLink_def)
    ultimately show ?thesis using mild_intros(2)[of "?l\<lparr>hl_lastIn := i\<rparr>"] assms(2,3)
      by (auto simp: turn_ok_def mild_def own_def calls_def replies_def)
  qed
  have asked: "turn_ok p l (?l\<lparr>hl_lastIn := ff_ID frame, hl_asked := ff_ID frame # hl_asked l\<rparr>, [], Some ev)"
    if "requestEvent E p frame (?l\<lparr>hl_lastIn := ff_ID frame\<rparr>) = Some ev" "hl_lastIn l < ff_ID frame" for ev
  proof -
    let ?l' = "?l\<lparr>hl_lastIn := ff_ID frame, hl_asked := ff_ID frame # hl_asked l\<rparr>"
    have "link_ok ?l'" using popped_ok[OF assms(1,3)] that(2) assms(2) by (fastforce simp: link_ok_def)
    then show ?thesis using requestEvent_own[OF that(1)] assms(2,3) by (auto simp: turn_ok_def calls_def replies_def)
  qed
  show ?thesis
    using mild[OF mild_refl] mild[OF mild_intros(2)] refused asked turn_response[OF assms(1-3)]
    unfolding linkFrame_def Let_def by (auto split: option.split)
qed

lemma linkTurn_ok:
  assumes "link_ok l" "hl_phase l = Running" "c_inbox (hl_wire l) = ev # evs"
  shows "turn_ok p l (linkTurn E p ev (popped evs l))"
proof (cases ev)
  case HClosed
  have "link_ok ((popped evs l)\<lparr>hl_phase := Closing\<rparr>)" using popped_ok[OF assms(1,3)] by (simp add: link_ok_def)
  then show ?thesis using HClosed assms(2,3) by (auto simp: linkTurn_def turn_ok_def own_def mine_def calls_def replies_def)
next
  case (HReply r)
  then show ?thesis using turn_reply assms by (simp add: linkTurn_def)
next
  case (HFrame frame bad)
  then show ?thesis using turn_frame assms by (simp add: linkTurn_def)
next
  case (HRoster ch)
  show ?thesis using turn_carries[OF linkRoster_carries[OF popped_ok[OF assms(1,3)]] assms(3)] assms(2) HRoster by (simp add: linkTurn_def)
next
  case (HLifetime m v ch)
  show ?thesis using turn_carries[OF linkLifetime_carries[OF popped_ok[OF assms(1,3)]] assms(3)] assms(2) HLifetime by (simp add: linkTurn_def)
next
  case (HForward v ch)
  show ?thesis using turn_carries[OF linkForward_carries[OF popped_ok[OF assms(1,3)]] assms(3)] assms(2) HForward by (simp add: linkTurn_def)
qed

section \<open>Goroutines and the registry's inbox\<close>

lemma inv_posted:
  assumes "hub_inv X h" "X = (\<lambda>q. own q out)" "posted out h h'"
    "\<forall>p. out = Some (RReady p) \<longrightarrow> p < u_nlink h \<and> (\<not> u_cancelled h \<longrightarrow> hl_ready (u_link h p) = None \<and> RReady p \<notin> set (u_inbox h))"
    "\<forall>p. out = Some (RClosed p) \<longrightarrow> p < u_nlink h \<and> (\<not> u_cancelled h \<longrightarrow> hl_phase (u_link h p) = Closing \<and> \<not> hl_closedAck (u_link h p) \<and> RClosed p \<notin> set (u_inbox h))"
  shows "hub_inv nothing h'"
proof (cases out)
  case None
  with assms show ?thesis by (simp add: own_def)
next
  case (Some ev)
  show ?thesis
  proof (cases "h' = h")
    case True
    have "u_cancelled h"
    proof (rule ccontr)
      assume "\<not> u_cancelled h"
      with assms(3) Some True have "u_inbox h = u_inbox h @ [ev]" by (metis (mono_tags) posted.simps(2) hub.select_convs(6) hub.surjective hub.update_convs(6))
      then show False by simp
    qed
    then show ?thesis using True inv_release[OF assms(1), of nothing] by simp
  next
    case False
    with assms(3) Some have h': "h' = h\<lparr>u_inbox := u_inbox h @ [ev]\<rparr>" by auto
    note d = hub_invD[OF assms(1)]
    have r: "registered h' = registered h" by (rule ext) (simp add: registered_def h')
    have w: "wait_ok h' = wait_ok h" by (rule ext) (simp add: wait_ok_def h' split: htask.split)
    have "links_ok h'" using d(1) assms(4,5) Some by (auto simp: links_ok_def h')
    moreover have "chans_ok h'" using d(2) by (simp add: chans_ok_def h')
    moreover have "u_cancelled h' \<or> life_ok h'"
      using d(4) assms(4,5) Some unfolding life_ok_def life_link_def r by (auto simp: h' count_list_append count_notin count_list_0_iff)
    moreover have "owed h' p = owed h p + X p" for p
      using assms(2) Some by (simp add: owed_def own_def h' mine_def hand_def split: option.split)
    then have "owed_ok nothing h'" using d(5) unfolding owed_ok_def r by (simp add: h')
    ultimately show ?thesis using d(3) unfolding hub_inv_def w by (simp add: h')
  qed
qed

lemma inv_pop:
  assumes "hub_inv nothing h" "u_inbox h = ev # evs"
  shows "hub_inv (\<lambda>q. own q (Some ev)) (h\<lparr>u_inbox := evs\<rparr>)"
proof -
  let ?h = "h\<lparr>u_inbox := evs\<rparr>"
  note d = hub_invD[OF assms(1)]
  have r: "registered ?h = registered h" by (rule ext) (simp add: registered_def)
  have w: "wait_ok ?h = wait_ok h" by (rule ext) (simp add: wait_ok_def split: htask.split)
  have "links_ok ?h" using d(1) assms(2) by (auto simp: links_ok_def)
  moreover have "chans_ok ?h" using d(2) by (simp add: chans_ok_def)
  moreover have "u_cancelled ?h \<or> life_ok ?h"
  proof -
    have c: "count_list evs e \<le> count_list (u_inbox h) e" for e by (simp add: assms(2))
    have "life_link h p l \<Longrightarrow> life_link ?h p l" for p l using assms(2) unfolding life_link_def r by auto
    then show ?thesis using d(4) le_trans[OF c] unfolding life_ok_def by auto
  qed
  moreover have "owed ?h p + own p (Some ev) = owed h p" for p
    using assms(2) by (simp add: owed_def own_def mine_def hand_def split: option.split)
  then have "owed_ok (\<lambda>q. own q (Some ev)) ?h" using d(5) unfolding owed_ok_def r by simp
  ultimately show ?thesis using d(3) unfolding hub_inv_def w by simp
qed

text \<open>A link that changes without a reply being sent.\<close>

lemma inv_update:
  assumes "hub_inv X h" "p < u_nlink h" "link_ok (f (u_link h p))" "hl_host (f (u_link h p)) = hl_host (u_link h p)"
    "calls (f (u_link h p)) = calls (u_link h p)" "set (c_inbox (hl_wire (f (u_link h p)))) \<subseteq> set (c_inbox (hl_wire (u_link h p)))"
    "hl_asked (f (u_link h p)) = hl_asked (u_link h p)" "replies (f (u_link h p)) = replies (u_link h p)"
    "\<not> u_cancelled h \<Longrightarrow> registered h p \<Longrightarrow> hl_failed (u_link h p) \<Longrightarrow> hl_failed (f (u_link h p))"
    "\<not> u_cancelled h \<Longrightarrow> life_link h p (f (u_link h p))"
  shows "hub_inv X (upd_link p f h)"
proof -
  have "hub_inv X (fold sendReply [] (upd_link p (\<lambda>_. f (u_link h p)) h))"
    by (rule inv_turn[where N = "{#}", OF assms(1,2,3,4)]) (use assms(5-10) in auto)
  moreover have "upd_link p (\<lambda>_. f (u_link h p)) h = upd_link p f h" by (rule upd_link_cong) simp
  ultimately show ?thesis by simp
qed

lemma life_at: "hub_inv X h \<Longrightarrow> \<not> u_cancelled h \<Longrightarrow> life_link h p (u_link h p)"
  using hub_invD(4) by (auto simp: life_ok_def)

lemma inv_register:
  assumes "hub_inv nothing h" "p < u_nlink h" "gm_get (u_links h) (hl_host (u_link h p)) = None"
    "\<not> u_cancelled h \<Longrightarrow> hl_ready (u_link h p) \<noteq> None \<and> \<not> hl_closedAck (u_link h p) \<and> hl_asked (u_link h p) = []"
  shows "hub_inv nothing (h\<lparr>u_links := gm_set (hl_host (u_link h p)) p (u_links h)\<rparr>)"
proof -
  let ?h = "h\<lparr>u_links := gm_set (hl_host (u_link h p)) p (u_links h)\<rparr>"
  note d = hub_invD[OF assms(1)]
  have r: "registered ?h q \<longleftrightarrow> registered h q \<or> q = p" for q using assms(3) by (auto simp: registered_def)
  have w: "wait_ok ?h = wait_ok h" by (rule ext) (simp add: wait_ok_def split: htask.split)
  have "links_ok ?h" using d(1) assms(2,3) by (auto simp: links_ok_def)
  moreover have "chans_ok ?h" using d(2) by (simp add: chans_ok_def)
  moreover have "u_cancelled ?h \<or> life_ok ?h"
  proof -
    have "life_link ?h q (u_link h q)" if "life_link h q (u_link h q)" "\<not> u_cancelled h" for q
      using that assms(4) unfolding life_link_def r by auto
    then show ?thesis using d(4) unfolding life_ok_def by auto
  qed
  moreover have "owed_ok nothing ?h"
  proof -
    have o: "owed ?h q = owed h q" for q by (simp add: owed_def)
    have "owed h p \<subseteq># mset (hl_asked (u_link h p))" using d(5) by (simp add: owed_ok_def)
    then have "owed h p = mset (hl_asked (u_link h p))" if "\<not> u_cancelled h" using assms(4)[OF that] by simp
    then show ?thesis using d(5) unfolding owed_ok_def r o by auto
  qed
  ultimately show ?thesis using d(3) unfolding hub_inv_def w by simp
qed

lemma hubReady_inv:
  assumes "hub_inv nothing h" "p < u_nlink h" "\<not> u_cancelled h \<Longrightarrow> hl_ready (u_link h p) = None \<and> RReady p \<notin> set (u_inbox h)"
  shows "hub_inv nothing (hubReady p h)"
proof -
  let ?acc = "gm_get (u_links h) (hl_host (u_link h p)) = None"
  let ?s = "h\<lparr>u_sockets := gm_del (hl_raw (u_link h p)) (u_sockets h)\<rparr>"
  let ?h1 = "upd_link p (\<lambda>l. (if ?acc then l else closeLink l)\<lparr>hl_ready := Some ?acc\<rparr>) ?s"
  have "links_ok ?s = links_ok h" "chans_ok ?s = chans_ok h" "life_ok ?s = life_ok h" "owed_ok nothing ?s = owed_ok nothing h"
    by (simp_all add: links_ok_def chans_ok_def life_ok_def life_link_def owed_ok_def owed_def registered_def)
  moreover have "wait_ok ?s = wait_ok h" by (rule ext) (simp add: wait_ok_def split: htask.split)
  ultimately have s: "hub_inv nothing ?s" using assms(1) by (simp add: hub_inv_def)
  have reg: "registered ?s = registered h" by (rule ext) (simp add: registered_def)
  have un: "\<not> u_cancelled h \<Longrightarrow> \<not> registered h p \<and> hl_phase (u_link h p) = Waiting \<and> \<not> hl_closedAck (u_link h p)"
    using life_at[OF assms(1), of p] assms(3) by (auto simp: life_link_def)
  have lo: "link_ok (u_link h p)" using hub_invD(1)[OF assms(1)] by (simp add: links_ok_def)
  then have "link_ok (closeLink (u_link h p))" using quiet_eqs(3)[OF quiet_closeLink] by blast
  with lo have lo': "link_ok (l\<lparr>hl_ready := r\<rparr>)" if "l = u_link h p \<or> l = closeLink (u_link h p)" for l r
    using that unfolding link_ok_def by (elim disjE) simp_all
  have i1: "hub_inv nothing ?h1"
  proof (rule inv_update[OF s])
    show "life_link ?s p ((if ?acc then u_link ?s p else closeLink (u_link ?s p))\<lparr>hl_ready := Some ?acc\<rparr>)" if "\<not> u_cancelled ?s"
      using un that life_at[OF assms(1), of p] assms(3) unfolding life_link_def reg by auto
  qed (use assms(2) lo'[of "u_link h p"] lo'[of "closeLink (u_link h p)"] in \<open>auto simp: calls_def replies_def\<close>)
  show ?thesis
  proof (cases ?acc)
    case False
    then obtain y where "gm_get (u_links h) (hl_host (u_link h p)) = Some y" by blast
    then have "hubReady p h = ?h1" by (simp add: hubReady_def Let_def upd_link_def heap_upd_def)
    with i1 show ?thesis by simp
  next
    case True
    let ?h2 = "?h1\<lparr>u_links := gm_set (hl_host (u_link h p)) p (u_links h)\<rparr>"
    have "hub_inv nothing (?h1\<lparr>u_links := gm_set (hl_host (u_link ?h1 p)) p (u_links ?h1)\<rparr>)"
      by (rule inv_register[OF i1]) (use assms(2) True un lo in \<open>auto simp: link_ok_def\<close>)
    moreover have "hubReady p h = ?h2" using True by (simp add: hubReady_def Let_def upd_link_def heap_upd_def)
    ultimately show ?thesis using True by simp
  qed
qed

lemma hubClosed_inv:
  assumes "hub_inv nothing h" "p < u_nlink h" "\<not> u_cancelled h \<Longrightarrow> hl_phase (u_link h p) = Closing \<and> RClosed p \<notin> set (u_inbox h)"
  shows "hub_inv nothing (hubClosed seen p h)"
proof -
  let ?h = "if registered h p then removeLink seen p h else h"
  have i: "hub_inv nothing ?h" and k: "keeps_rest h ?h" and nr: "\<not> registered ?h p"
    using assms(1) removeLink_inv[OF assms(1), of seen p] by auto
  have ph: "\<not> u_cancelled ?h \<Longrightarrow> hl_phase (u_link ?h p) = Closing \<and> RClosed p \<notin> set (u_inbox ?h)" using k assms(3) unfolding keeps_rest_def by metis
  have pn: "p < u_nlink ?h" using k assms(2) unfolding keeps_rest_def by metis
  have lo: "link_ok (u_link ?h p)" using hub_invD(1)[OF i] unfolding links_ok_def by blast
  define h2 where "h2 = ?h"
  have "hub_inv nothing (upd_link p (\<lambda>l. l\<lparr>hl_closedAck := True\<rparr>) h2)"
  proof (rule inv_update)
    show "hub_inv nothing h2" using i by (simp only: h2_def)
    show "p < u_nlink h2" using pn by (simp only: h2_def)
    show "link_ok ((u_link h2 p)\<lparr>hl_closedAck := True\<rparr>)" using lo unfolding h2_def[symmetric] by (simp add: link_ok_def)
    show "life_link h2 p ((u_link h2 p)\<lparr>hl_closedAck := True\<rparr>)" if "\<not> u_cancelled h2"
      using that ph nr life_at[of nothing h2 p] i unfolding h2_def[symmetric] by (auto simp: life_link_def)
  qed (simp_all add: calls_def replies_def)
  then show ?thesis by (simp only: hubClosed_def h2_def)
qed

section \<open>Every step keeps the invariant\<close>

lemma own_hand:
  "(\<lambda>q. own q (Some (RHosts p i))) = hand p i" "(\<lambda>q. own q (Some (RRoster p i))) = hand p i"
  "(\<lambda>q. own q (Some (RForward p call))) = hand p (if_id call)" "(\<lambda>q. own q (Some (ROwnerEnd p oe))) = hand p (io_ID oe)"
  "(\<lambda>q. own q (Some (RReply r))) = hand (og_origin r) (og_id r)" "(\<lambda>q. own q (Some (RReady p))) = nothing"
  "(\<lambda>q. own q (Some (RClosed p))) = nothing" "(\<lambda>q. own q (Some (RAccept fd))) = nothing" "(\<lambda>q. own q (Some (RRetire fd))) = nothing"
  by (rule ext, simp add: own_def mine_def hand_def)+

lemma inv_rest:
  "hub_inv X h \<Longrightarrow> hub_inv X (h\<lparr>u_sockets := x\<rparr>)" "hub_inv X h \<Longrightarrow> hub_inv X (h\<lparr>u_auth := y\<rparr>)"
  "hub_inv X h \<Longrightarrow> hub_inv X (h\<lparr>u_stopped := z\<rparr>)" "hub_inv X h \<Longrightarrow> hub_inv X (h\<lparr>u_cancelled := True\<rparr>)"
  unfolding hub_inv_def links_ok_def chans_ok_def life_ok_def life_link_def owed_ok_def owed_def registered_def wait_ok_def
  by simp_all

lemma handle_inv:
  assumes "hub_inv nothing h" "u_inbox h = ev # evs"
  shows "hub_inv nothing (handleRegistry seen ev (h\<lparr>u_inbox := evs\<rparr>))"
proof -
  note pop = inv_pop[OF assms]
  note d = hub_invD[OF assms(1)]
  show ?thesis
  proof (cases ev)
    case (RReady p)
    have "p < u_nlink h" using d(1) assms(2) RReady by (simp add: links_ok_def)
    moreover have "hl_ready (u_link h p) = None \<and> RReady p \<notin> set evs" if "\<not> u_cancelled h"
    proof -
      have "life_link h p (u_link h p)" "count_list (u_inbox h) (RReady p) \<le> 1" using d(4) that by (auto simp: life_ok_def)
      then show ?thesis using assms(2) RReady by (simp add: life_link_def count_list_0_iff)
    qed
    ultimately show ?thesis using hubReady_inv[OF pop[unfolded RReady own_hand], of p] RReady by (simp add: handleRegistry_def)
  next
    case (RClosed p)
    have "p < u_nlink h" using d(1) assms(2) RClosed by (simp add: links_ok_def)
    moreover have "hl_phase (u_link h p) = Closing \<and> RClosed p \<notin> set evs" if "\<not> u_cancelled h"
    proof -
      have "life_link h p (u_link h p)" "count_list (u_inbox h) (RClosed p) \<le> 1" using d(4) that by (auto simp: life_ok_def)
      then show ?thesis using assms(2) RClosed by (simp add: life_link_def count_list_0_iff)
    qed
    ultimately show ?thesis using hubClosed_inv[OF pop[unfolded RClosed own_hand], of p seen] RClosed by (simp add: handleRegistry_def)
  next
    case (RAccept fd)
    show ?thesis using inv_rest(1,2)[OF pop[unfolded RAccept own_hand]] inv_rest(2)[OF inv_rest(1)[OF pop[unfolded RAccept own_hand]]] RAccept
      by (simp add: handleRegistry_def)
  next
    case (RRetire fd)
    show ?thesis using inv_rest(1)[OF pop[unfolded RRetire own_hand]] RRetire by (simp add: handleRegistry_def)
  next
    case (RHosts p i)
    show ?thesis using hubHosts_inv[OF pop[unfolded RHosts own_hand]] RHosts by (simp add: handleRegistry_def)
  next
    case (RRoster p i)
    show ?thesis using hubRoster_inv[OF pop[unfolded RRoster own_hand]] RRoster by (simp add: handleRegistry_def)
  next
    case (RForward p call)
    show ?thesis using hubForward_inv[OF pop[unfolded RForward own_hand]] RForward by (simp add: handleRegistry_def)
  next
    case (ROwnerEnd p call)
    show ?thesis using hubOwnerEnd_inv[OF pop[unfolded ROwnerEnd own_hand]] ROwnerEnd by (simp add: handleRegistry_def)
  next
    case (RReply r)
    show ?thesis using hubReply_inv[OF pop[unfolded RReply own_hand]] RReply by (simp add: handleRegistry_def)
  qed
qed

lemma stop_inv: "hub_inv nothing h \<Longrightarrow> hub_inv nothing (stopHub h)"
proof -
  have "hub_inv nothing (fold (\<lambda>x. upd_link (snd x) closeLink) xs h)" if "hub_inv nothing h" "\<forall>x \<in> set xs. snd x < u_nlink h" for xs h
    using that
  proof (induction xs arbitrary: h)
    case (Cons x xs)
    have "hub_inv nothing (upd_link (snd x) closeLink h)" using Cons.prems by (intro inv_quiet) simp_all
    with Cons show ?case by simp
  qed simp
  moreover assume i: "hub_inv nothing h"
  moreover have "\<forall>x \<in> set (u_links h). snd x < u_nlink h" using registered_all[OF i] registered_lt[OF i] by blast
  ultimately show ?thesis unfolding stopHub_def by (intro inv_rest(3)) blast
qed

lemma inv_done:
  assumes "hub_inv nothing h" "t \<in> set (u_tasks h)"
  shows "hub_inv (\<lambda>q. mine q (task_owes q t) q) (dropTask t h)"
proof -
  let ?h = "dropTask t h"
  note d = hub_invD[OF assms(1)]
  have f: "u_tasks ?h = remove1 t (u_tasks h)" "u_link ?h = u_link h" "u_links ?h = u_links h" "u_nlink ?h = u_nlink h" "u_inbox ?h = u_inbox h"
    "u_sent ?h = u_sent h" "u_for ?h = u_for h" "u_nchan ?h = u_nchan h" "u_cancelled ?h = u_cancelled h" by (simp_all add: dropTask_def)
  have r: "registered ?h = registered h" by (rule ext) (simp add: registered_def f)
  have w: "wait_ok ?h = wait_ok h" by (rule ext) (simp add: wait_ok_def f split: htask.split)
  have "mset (List.map_filter g xs) = mset (List.map_filter g (remove1 t xs)) + (case g t of None \<Rightarrow> {#} | Some i \<Rightarrow> {#i#})"
    if "t \<in> set xs" for g :: "htask \<Rightarrow> int option" and xs
    using that by (induction xs) (auto split: option.splits)
  from this[OF assms(2)] have o: "owed ?h q + mine q (task_owes q t) q = owed h q" for q
    by (simp add: owed_def f mine_def hand_def split: option.split)
  have "owed_ok (\<lambda>q. mine q (task_owes q t) q) ?h" using d(5) unfolding owed_ok_def o r f by simp
  moreover have "list_all (wait_ok h) (remove1 t (u_tasks h))" using d(3) by (auto simp: list_all_iff dest: notin_set_remove1)
  ultimately show ?thesis using d unfolding hub_inv_def w by (simp add: links_ok_def chans_ok_def life_ok_def life_link_def f r)
qed

lemma task_hand:
  "(\<lambda>q. mine q (task_owes q (TWait c p d i b)) q) = hand p i" "(\<lambda>q. mine q (task_owes q (TCollect p i legs x res n)) q) = hand p i"
  by (rule ext, simp add: mine_def hand_def)+

lemma hand_lt: "hub_inv (hand p i) h \<Longrightarrow> p < u_nlink h"
proof (rule ccontr)
  assume i: "hub_inv (hand p i) h" and "\<not> p < u_nlink h"
  then have "hl_asked (u_link h p) = []" using hub_invD(1)[OF i] by (simp add: links_ok_def newHostLink_def)
  moreover have "owed h p + {#i#} \<subseteq># mset (hl_asked (u_link h p))"
    using hub_invD(5)[OF i] unfolding owed_ok_def by (metis hand_def)
  ultimately show False by simp
qed

lemma freeSlot_inv: "hub_inv (hand p i) h \<Longrightarrow> hub_inv (hand p i) (freeSlot p h)"
  unfolding freeSlot_def by (rule inv_quiet) (simp_all add: quiet_def hand_lt)

lemma inv_newLink:
  assumes "hub_inv nothing h" "p = u_nlink h"
  shows "hub_inv nothing (upd_link p (\<lambda>_. newHostLink identity host fd alpn) (h\<lparr>u_auth := x, u_nlink := Suc p\<rparr>))"
proof -
  let ?l = "newHostLink identity host fd alpn"
  let ?h = "upd_link p (\<lambda>_. ?l) (h\<lparr>u_auth := x, u_nlink := Suc p\<rparr>)"
  note d = hub_invD[OF assms(1)]
  have b: "u_link h p = newHostLink [] [] 0 []" using d(1) assms(2) by (simp add: links_ok_def)
  have g: "gm_get (u_links h) k \<noteq> Some p" for k using d(1) assms(2) by (auto simp: links_ok_def)
  have r: "registered ?h = registered h" by (rule ext) (simp add: registered_def g)
  have c: "calls (u_link ?h q) = calls (u_link h q)" "replies (u_link ?h q) = replies (u_link h q)"
    "hl_asked (u_link ?h q) = hl_asked (u_link h q)" "hl_failed (u_link ?h q) = hl_failed (u_link h q)" for q
    by (simp_all add: b) (simp_all add: newHostLink_def)
  have i: "c_inbox (hl_wire (u_link ?h q)) = c_inbox (hl_wire (u_link h q))" for q by (simp add: b) (simp add: newHostLink_def)
  have w: "wait_ok h t \<Longrightarrow> wait_ok ?h t" for t unfolding wait_ok_def c using assms(2) by (auto split: htask.splits)
  have f: "u_links ?h = u_links h" "u_inbox ?h = u_inbox h" "u_sent ?h = u_sent h" "u_for ?h = u_for h" "u_nchan ?h = u_nchan h"
    "u_tasks ?h = u_tasks h" "u_cancelled ?h = u_cancelled h" by simp_all
  have "links_ok ?h" using d(1) link_ok_blank g assms(2) by (auto simp: links_ok_def less_SucI)
  moreover have "chans_ok ?h" using d(2) unfolding chans_ok_def c i f .
  moreover have "list_all (wait_ok ?h) (u_tasks ?h)" using d(3) w unfolding f by (auto simp: list_all_iff)
  moreover have "u_cancelled ?h \<or> life_ok ?h"
  proof -
    have "life_link ?h q (u_link ?h q) = life_link h q (u_link h q)" for q
      unfolding life_link_def r f i by (simp add: b) (simp add: newHostLink_def)
    then show ?thesis using d(4) unfolding life_ok_def f by simp
  qed
  moreover have "owed ?h q = owed h q" for q unfolding owed_def c f ..
  then have "owed_ok nothing ?h" using d(5) unfolding owed_ok_def c f r by simp
  ultimately show ?thesis by (simp add: hub_inv_def)
qed

lemma askLeg_inv:
  assumes "hub_inv X h" "q < u_nlink h" "askLeg E seen late host q h = (ch, h')"
  shows "hub_inv X h' \<and> u_tasks h' = u_tasks h \<and> u_nlink h' = u_nlink h"
proof -
  obtain c h1 where n: "newReply q True h = (c, h1)" by (cases "newReply q True h")
  note nu = newReply_unused[OF assms(1) n]
  note send = inv_send[OF nu(1,2)]
  show ?thesis
  proof (cases rule: postTo_cases[of seen q "HRoster c" h1])
    case 1
    have "hub_inv X (upd_link q (readerPosts (HRoster c)) h1)"
      by (rule inv_append) (use nu assms(2) 1 in \<open>simp_all add: mine_def\<close>)
    then show ?thesis using 1 n assms(3) send nu by (auto simp: askLeg_def split: if_splits)
  next
    case 2
    then show ?thesis using n assms(3) send nu by (auto simp: askLeg_def split: if_splits)
  qed
qed

lemma link_step_inv:
  assumes inv: "hub_inv nothing h" and p: "p < u_nlink h" and t: "turn_ok p (u_link h p) (l, sends, out)"
    and run: "hl_phase (u_link h p) = Running"
  shows "hub_inv (\<lambda>q. own q out) (fold sendReply sends (upd_link p (\<lambda>_. l) h))"
proof (rule inv_turn[OF inv p, where N = "own p out"])
  show "life_link h p l" if "\<not> u_cancelled h"
    using t run life_at[OF inv that, of p] unfolding life_link_def turn_ok_def by auto
qed (use t in \<open>auto simp: turn_ok_def\<close>)

lemma return_inv:
  assumes inv: "hub_inv nothing h" and p: "p < u_nlink h" and ph: "hl_phase (u_link h p) = Closing"
    and ack: "hl_closedAck (u_link h p) \<or> u_cancelled h" and r: "linkReturn (u_link h p) = (l, sends)"
  shows "hub_inv nothing (fold sendReply sends (upd_link p (\<lambda>_. l) h))"
proof -
  let ?l = "u_link h p"
  have l: "l = (closeLink ?l)\<lparr>hl_pending := [], hl_wire := (hl_wire (closeLink ?l))\<lparr>c_inbox := []\<rparr>, hl_phase := Returned\<rparr>"
    and s: "sends = settleAll (hl_pending ?l) @ settleQueued (c_inbox (hl_wire ?l))"
    using r by (auto simp: linkReturn_def Let_def)
  have ok: "link_ok (closeLink ?l)" using hub_invD(1)[OF inv] quiet_eqs(3)[OF quiet_closeLink] by (simp add: links_ok_def)
  show ?thesis
  proof (rule inv_turn[OF inv p, where N = "{#}"])
    show "link_ok l" using ok unfolding l by (simp add: link_ok_def conn_ok_def)
    have "map (fst \<circ> (\<lambda>x. (pc_reply (snd x), lost))) m = map (\<lambda>x. pc_reply (snd x)) m" for m :: "(int, pendingCall) gomap" by simp
    then show "calls l + mset (map fst sends) = calls ?l"
      by (simp add: calls_def l s settleAll_def settleQueued_def comp_def)
    show "replies l + {#} \<subseteq># replies ?l + {#} + {#}" by (simp add: replies_def l)
    show "life_link h p l" if "\<not> u_cancelled h"
      using life_at[OF inv that, of p] ph ack that unfolding life_link_def l
      by auto
    show "\<not> hl_failed ?l \<and> replies l + {#} = replies ?l + {#} + {#}" if "\<not> u_cancelled h" "registered h p" "\<not> hl_failed l"
      using life_at[OF inv that(1), of p] that ack by (auto simp: life_link_def)
  qed (simp_all add: l)
qed

lemma start_inv:
  assumes "hub_inv nothing h" "p < u_nlink h" "hl_phase (u_link h p) = Waiting" "hl_ready (u_link h p) = Some accepted \<or> u_cancelled h \<and> \<not> accepted"
  shows "hub_inv nothing (upd_link p (startRun accepted) h)"
proof (rule inv_update[OF assms(1,2)])
  let ?l = "u_link h p"
  have ok: "link_ok ?l" using hub_invD(1)[OF assms(1)] by (simp add: links_ok_def)
  then have "link_ok (closeLink ?l)" using quiet_eqs(3)[OF quiet_closeLink] by blast
  with ok show "link_ok (startRun accepted ?l)" unfolding startRun_def link_ok_def by simp
  show "hl_failed (startRun accepted ?l)" if "hl_failed ?l" using ok assms(3) that by (simp add: link_ok_def)
  show "life_link h p (startRun accepted ?l)" if "\<not> u_cancelled h"
    using life_at[OF assms(1) that, of p] assms(3,4) that unfolding life_link_def startRun_def by auto
qed (simp_all add: startRun_def calls_def replies_def)

lemma done_unregistered: "hub_inv X h \<Longrightarrow> hl_done (u_link h p) \<Longrightarrow> \<not> registered h p \<or> u_cancelled h"
  using life_at[of X h p] by (auto simp: life_link_def)

lemma inv_collect:
  assumes "hub_inv (hand origin i) h" "\<forall>x \<in> set legs. snd x < u_nlink h"
  shows "hub_inv nothing (h\<lparr>u_tasks := TCollect origin i legs x result n # u_tasks h\<rparr>)"
proof (rule inv_task)
  have "(\<lambda>p. {#} + mine p (task_owes p (TCollect origin i legs x result n)) p) = hand origin i"
    by (rule ext) (simp add: mine_def hand_def)
  with assms(1) show "hub_inv (\<lambda>p. {#} + mine p (task_owes p (TCollect origin i legs x result n)) p) h" by simp
qed (use assms(2) in \<open>simp add: wait_ok_def\<close>)

lemma task_legs:
  "hub_inv nothing h \<Longrightarrow> TCollect origin i legs x result n \<in> set (u_tasks h) \<Longrightarrow> \<forall>y \<in> set legs. snd y < u_nlink h"
  using hub_invD(3)[of nothing h] by (force simp: list_all_iff wait_ok_def)

lemma dropTask_simps [simp]: "u_nlink (dropTask t h) = u_nlink h" "u_link (dropTask t h) = u_link h" "registered (dropTask t h) = registered h"
  "u_cancelled (dropTask t h) = u_cancelled h"
  by (simp_all add: dropTask_def registered_def fun_eq_iff)

lemma freeSlot_simps [simp]: "registered (freeSlot p h) = registered h" "u_cancelled (freeSlot p h) = u_cancelled h"
  by (simp_all add: freeSlot_def registered_upd)

lemma inv_answer:
  assumes "hub_inv (hand p i) h" "posted (Some (RReply (answerOrigin p i v))) h h'"
  shows "hub_inv nothing h'"
  by (rule inv_posted[OF assms(1) _ assms(2)]) (simp_all add: own_hand answerOrigin_def)

lemma hub_step_inv:
  assumes "hub_inv nothing h" "hub_step E h h'"
  shows "hub_inv nothing h'"
  using assms(2,1)
proof (cases rule: hub_step.cases)
  case (connect fd)
  show ?thesis by (rule inv_posted[OF assms(1) _ connect]) (simp_all add: own_hand)
next
  case (registry ev evs seen)
  then show ?thesis using handle_inv[OF assms(1)] by simp
next
  case cancel
  then show ?thesis using inv_rest(4)[OF assms(1)] by simp
next
  case stop
  then show ?thesis using stop_inv[OF assms(1)] by simp
next
  case (auth_failed fd)
  show ?thesis by (rule inv_posted[OF inv_rest(2)[OF assms(1)] _ auth_failed(2)]) (simp_all add: own_hand)
next
  case (auth_done fd p identity host alpn)
  have "RReady p \<notin> set (u_inbox h)" using hub_invD(1)[OF assms(1)] auth_done(2) unfolding links_ok_def by blast
  then show ?thesis
    by (intro inv_posted[OF inv_newLink[OF assms(1) auth_done(2)] _ auth_done(5)]) (simp_all add: own_hand newHostLink_def)
next
  case (link_start p accepted)
  then show ?thesis using start_inv[OF assms(1)] by simp
next
  case (link_turn p ev evs l sends out)
  have "link_ok (u_link h p)" using hub_invD(1)[OF assms(1)] by (simp add: links_ok_def)
  from linkTurn_ok[OF this link_turn(2,3), of p E] have t: "turn_ok p (u_link h p) (l, sends, out)"
    using link_turn(4) by (simp add: popped_def)
  show ?thesis
  proof (rule inv_posted[OF link_step_inv[OF assms(1) link_turn(1) t link_turn(2)] _ link_turn(5)])
    show "\<forall>q. out = Some (RReady q) \<longrightarrow> q < u_nlink (fold sendReply sends (upd_link p (\<lambda>_. l) h)) \<and>
        (\<not> u_cancelled (fold sendReply sends (upd_link p (\<lambda>_. l) h)) \<longrightarrow>
         hl_ready (u_link (fold sendReply sends (upd_link p (\<lambda>_. l) h)) q) = None \<and> RReady q \<notin> set (u_inbox (fold sendReply sends (upd_link p (\<lambda>_. l) h))))"
      using t by (simp add: turn_ok_def)
    show "\<forall>q. out = Some (RClosed q) \<longrightarrow> q < u_nlink (fold sendReply sends (upd_link p (\<lambda>_. l) h)) \<and>
        (\<not> u_cancelled (fold sendReply sends (upd_link p (\<lambda>_. l) h)) \<longrightarrow>
         hl_phase (u_link (fold sendReply sends (upd_link p (\<lambda>_. l) h)) q) = Closing \<and>
         \<not> hl_closedAck (u_link (fold sendReply sends (upd_link p (\<lambda>_. l) h)) q) \<and>
         RClosed q \<notin> set (u_inbox (fold sendReply sends (upd_link p (\<lambda>_. l) h))))"
      using t life_at[OF assms(1), of p] link_turn(1,2) by (auto simp: turn_ok_def life_link_def)
  qed simp
next
  case (link_stopping p)
  have ok: "link_ok (u_link h p)" using hub_invD(1)[OF assms(1)] by (simp add: links_ok_def)
  show ?thesis unfolding link_stopping(1)
    by (rule inv_update[OF assms(1)]) (use link_stopping ok link_ok_mild[OF ok mild_intros(2)] in \<open>auto simp: failLink_def calls_def replies_def\<close>)
next
  case (link_return p l sends)
  then show ?thesis using return_inv[OF assms(1)] by simp
next
  case (link_done p)
  have ok: "link_ok (u_link h p)" using hub_invD(1)[OF assms(1)] by (simp add: links_ok_def)
  show ?thesis unfolding link_done(1)
    by (rule inv_update[OF assms(1)]) (use link_done ok life_at[OF assms(1), of p] in \<open>auto simp: link_ok_def calls_def replies_def life_link_def\<close>)
next
  case (reader_frame p frame bad)
  show ?thesis unfolding reader_frame(1) by (rule inv_append) (use assms(1) reader_frame in \<open>simp_all add: mine_def\<close>)
next
  case (reader_fails p)
  have "conn_ok w \<Longrightarrow> conn_ok (readFailed w)" "c_inbox (readFailed w) = c_inbox w" for w :: "(linkEvent, fedout) conn"
    using conn_ok_ops(7) by (simp_all add: readFailed_def CloseConn_def)
  then show ?thesis unfolding reader_fails(1) by (intro inv_quiet[OF assms(1)] reader_fails(2)) (simp add: quiet_def)
next
  case (reader_closed p)
  let ?h1 = "upd_link p (readerPosts HClosed) h"
  have "hub_inv nothing ?h1" by (rule inv_append) (use assms(1) reader_closed in \<open>simp_all add: mine_def\<close>)
  then have "hub_inv nothing (upd_link p (\<lambda>l. l\<lparr>hl_readerDone := True\<rparr>) ?h1)" by (rule inv_quiet) (use reader_closed in \<open>simp_all add: quiet_def\<close>)
  moreover have "upd_link p (\<lambda>l. l\<lparr>hl_readerDone := True\<rparr>) ?h1 = h'" unfolding reader_closed(1) by (simp add: upd_link_def heap_upd_def)
  ultimately show ?thesis by simp
next
  case (writer p)
  have "c_inbox (fst (writeStep w)) = c_inbox w" for w :: "(linkEvent, fedout) conn"
    by (simp add: writeStep_def CloseConn_def split: list.split)
  then show ?thesis using conn_ok_ops(6)[of "hl_wire (u_link h p)"] unfolding writer(1) by (intro inv_quiet[OF assms(1)] writer(2)) (simp add: quiet_def)
next
  case (wait_reply ch origin destination i collect v vs)
  show ?thesis
    by (rule inv_posted[OF inv_done[OF assms(1) wait_reply(1), unfolded task_hand] _ wait_reply(3)]) (simp_all add: own_hand)
next
  case (wait_gone ch origin destination i collect)
  show ?thesis unfolding wait_gone(1)
    using inv_drop[OF inv_done[OF assms(1) wait_gone(2), unfolded task_hand]] done_unregistered[OF assms(1)] wait_gone(3) by auto
next
  case (roster_ask origin i host destination legs result retained seen late ch h1)
  let ?t = "TCollect origin i ((host, destination) # legs) None result retained"
  have lt: "destination < u_nlink h" "\<forall>x \<in> set legs. snd x < u_nlink h" using task_legs[OF assms(1) roster_ask(2)] by auto
  note ask = askLeg_inv[OF assms(1) lt(1) roster_ask(3)]
  then have "hub_inv (hand origin i) (dropTask ?t h1)" using inv_done[of h1 ?t, unfolded task_hand] roster_ask(2) by simp
  from inv_collect[OF this, of legs] lt(2) ask show ?thesis unfolding roster_ask(1) by simp
next
  case (roster_leg origin i legs host destination ch result retained answer result' retained')
  show ?thesis unfolding roster_leg(1)
    by (rule inv_collect[OF inv_done[OF assms(1) roster_leg(2), unfolded task_hand]]) (use task_legs[OF assms(1) roster_leg(2)] in simp)
next
  case (roster_large origin i legs host destination ch result retained answer v)
  show ?thesis by (rule inv_answer[OF freeSlot_inv[OF inv_done[OF assms(1) roster_large(1), unfolded task_hand]] roster_large(4)])
next
  case (roster_gone origin i legs x result retained)
  have "hub_inv (hand origin i) (freeSlot origin (dropTask (TCollect origin i legs (Some x) result retained) h))"
    by (rule freeSlot_inv[OF inv_done[OF assms(1) roster_gone(2), unfolded task_hand]])
  from inv_drop[OF this] done_unregistered[OF assms(1) roster_gone(3)] show ?thesis unfolding roster_gone(1) by simp
next
  case (roster_end origin i result retained)
  show ?thesis by (rule inv_answer[OF freeSlot_inv[OF inv_done[OF assms(1) roster_end(1), unfolded task_hand]] roster_end(2)])
qed

interpretation hub_sys: transition_system "\<lambda>h. h = emptyHub" "hub_step E" "hub_inv nothing" for E
proof unfold_locales
  show "h = emptyHub \<Longrightarrow> hub_inv nothing h" for h using hub_inv_init by simp
  show "hub_inv nothing h \<Longrightarrow> hub_step E h h' \<Longrightarrow> hub_inv nothing h'" for h h' by (rule hub_step_inv)
qed

section \<open>What the hub promises\<close>

lemma hub_reach_inv: "reach (\<lambda>h. h = emptyHub) (hub_step E) h \<Longrightarrow> hub_inv nothing h"
  by (rule hub_sys.reach_inv)

text \<open>
  C6: the hub answers a request of a host at most once, whatever the order in which its goroutines
  run and hosts come and go, and never answers what was not asked. While the hub is not cancelled, the host is
  registered and its link has not failed, every request it has asked is in exactly one place: with the registry,
  with a goroutine that waits for another host, queued as a reply, or answered.
\<close>

theorem hub_answers_once:
  assumes "reach (\<lambda>h. h = emptyHub) (hub_step E) h"
  shows "distinct (hl_answered (u_link h p)) \<and> set (hl_answered (u_link h p)) \<subseteq> set (hl_asked (u_link h p))
    \<and> (\<not> u_cancelled h \<and> registered h p \<and> \<not> hl_failed (u_link h p) \<longrightarrow>
         distinct (hl_asked (u_link h p)) \<and> mset (hl_asked (u_link h p)) = owed h p)"
proof -
  let ?l = "u_link h p"
  note d = hub_invD[OF hub_reach_inv[OF assms]]
  have a: "distinct (hl_asked ?l)" using d(1) by (simp add: links_ok_def link_ok_def)
  have o: "owed h p \<subseteq># mset (hl_asked ?l)" "\<not> u_cancelled h \<and> registered h p \<and> \<not> hl_failed ?l \<longrightarrow> owed h p = mset (hl_asked ?l)"
    using d(5) by (simp_all add: owed_ok_def)
  have s: "mset (hl_answered ?l) \<subseteq># mset (hl_asked ?l)"
    using o(1) by (rule subset_mset.trans[rotated]) (simp add: owed_def replies_def)
  have "distinct (hl_answered ?l)" by (rule distinct_sub_mset[OF s a])
  then show ?thesis using a o(2) set_mset_mono[OF s] by simp
qed

text \<open>
  C7: no reply channel of the hub is ever written twice, so a link's loop never blocks on one, and
  the reply a goroutine waits for is never lost: as long as it has not been sent, the link of the
  destination holds the call, and, unless the hub is cancelled, once the loop of that link has returned the reply has been sent.
\<close>

theorem hub_replies_never_lost:
  assumes "reach (\<lambda>h. h = emptyHub) (hub_step E) h"
  shows "length (u_sent h c) \<le> 1
    \<and> (TWait c origin q i collect \<in> set (u_tasks h) \<longrightarrow>
        (if c \<in># calls (u_link h q) then u_sent h c = [] else \<exists>v. u_sent h c = [v])
        \<and> (\<not> u_cancelled h \<and> hl_phase (u_link h q) = Returned \<longrightarrow> (\<exists>v. u_sent h c = [v])))"
proof -
  note i = hub_reach_inv[OF assms]
  note d = hub_invD[OF i]
  have len: "length (u_sent h c) \<le> 1" using d(2) by (metis chans_ok_def add_leD2)
  have one: "\<exists>v. u_sent h c = [v]" if "length (u_sent h c) = 1" using that by (metis length_Suc_conv length_0_conv One_nat_def)
  {
    assume t: "TWait c origin q i collect \<in> set (u_tasks h)"
    then have w: "u_for h c = (q, False)" "count (calls (u_link h q)) c + length (u_sent h c) = 1"
      using d(3) by (auto simp: list_all_iff wait_ok_def)
    have a: "if c \<in># calls (u_link h q) then u_sent h c = [] else \<exists>v. u_sent h c = [v]"
    proof (cases "c \<in># calls (u_link h q)")
      case True
      then have "0 < count (calls (u_link h q)) c" by (simp only: count_greater_zero_iff)
      with w(2) have "length (u_sent h c) = 0" by linarith
      with True show ?thesis by simp
    next
      case False
      then have "length (u_sent h c) = 1" using w(2) by (simp add: not_in_iff)
      with False one show ?thesis by simp
    qed
    have "c \<notin># calls (u_link h q)" if r: "\<not> u_cancelled h" "hl_phase (u_link h q) = Returned"
    proof
      assume "c \<in># calls (u_link h q)"
      moreover have l: "hl_pending (u_link h q) = []" "\<forall>ev \<in> set (c_inbox (hl_wire (u_link h q))). sealed ev"
        using life_at[OF i r(1), of q] r(2) by (simp_all add: life_link_def)
      ultimately obtain ev where "ev \<in> set (c_inbox (hl_wire (u_link h q)))" "event_chan ev = Some c"
        by (auto simp: calls_def List.map_filter_def)
      then have "snd (u_for h c) = sealed ev" "sealed ev" using d(2) l(2) by (auto simp: chans_ok_def)
      with w(1) show False by simp
    qed
    with a have "(if c \<in># calls (u_link h q) then u_sent h c = [] else \<exists>v. u_sent h c = [v])
        \<and> (\<not> u_cancelled h \<and> hl_phase (u_link h q) = Returned \<longrightarrow> (\<exists>v. u_sent h c = [v]))" by auto
  }
  with len show ?thesis by blast
qed

text \<open>
  C27: the hub's state is well formed in every reachable state: the table has one entry per host and
  every entry is a link of that host; a link has at most 256 calls pending, each with an identifier
  of its own that it has sent; its queues are within their capacity and no closed channel is used.
\<close>

theorem hub_state_typed:
  assumes "reach (\<lambda>h. h = emptyHub) (hub_step E) h"
  shows "distinct (map fst (u_links h)) \<and> list_all (\<lambda>(host, p). hl_host (u_link h p) = host \<and> p < u_nlink h) (u_links h)
    \<and> length (hl_pending (u_link h p)) \<le> maxPendingForwardedPerHost \<and> distinct (map fst (hl_pending (u_link h p)))
    \<and> list_all (\<lambda>x. 0 < fst x \<and> fst x \<le> hl_nextID (u_link h p)) (hl_pending (u_link h p)) \<and> conn_ok (hl_wire (u_link h p))"
proof -
  have l: "links_ok h" by (rule hub_invD(1)[OF hub_reach_inv[OF assms]])
  then have "list_all (\<lambda>(host, p). hl_host (u_link h p) = host \<and> p < u_nlink h) (u_links h)"
    using gm_set_get[of "u_links h"] by (auto simp: list_all_iff links_ok_def)
  moreover have "link_ok (u_link h p)" using l by (simp add: links_ok_def)
  ultimately show ?thesis using l by (simp add: links_ok_def link_ok_def gm_ok_def list_all_iff)
qed

section \<open>A run of the hub\<close>

text \<open>
  One host \<open>a\<close> connects. The state with its link, events for the registry and what a call of its own
  leaves behind.
\<close>

definition linkA :: hostLink where
  "linkA = (newHostLink (replicate 16 0) ''a'' 7 [])\<lparr>hl_ready := Some True, hl_phase := Running\<rparr>"

definition oneHost :: "hostLink \<Rightarrow> registryEvent list \<Rightarrow> htask list \<Rightarrow> ptr \<Rightarrow> hub" where
  "oneHost l evs ts n = emptyHub\<lparr>u_links := [(''a'', 0)], u_nlink := 1, u_link := (\<lambda>_. newHostLink [] [] 0 [])(0 := l), u_inbox := evs,
     u_tasks := ts, u_nchan := n\<rparr>"

abbreviation reachable :: "hub \<Rightarrow> bool" where
  "reachable \<equiv> reach (\<lambda>h. h = emptyHub) (hub_step plainEnv)"

lemma reach_oneHost: "reachable (oneHost linkA [] [] 0)"
proof -
  have "reachable emptyHub" by (rule reach_init) simp
  then have "reachable (emptyHub\<lparr>u_inbox := [RAccept 7]\<rparr>)"
    by (rule reach_step) (rule hub_step.connect[of 7], simp add: emptyHub_def)
  then have "reachable (handleRegistry (\<lambda>_. True) (RAccept 7) (emptyHub\<lparr>u_inbox := []\<rparr>))"
    by (rule reach_step) (use hub_step.registry[of "emptyHub\<lparr>u_inbox := [RAccept 7]\<rparr>" "RAccept 7" "[]" plainEnv "\<lambda>_. True"] in \<open>simp add: emptyHub_def\<close>)
  then have a: "reachable (emptyHub\<lparr>u_sockets := [(7, True)], u_auth := [7]\<rparr>)"
    by (simp add: handleRegistry_def emptyHub_def gm_set_def)
  let ?b = "emptyHub\<lparr>u_sockets := [(7, True)], u_nlink := 1, u_link := (\<lambda>_. newHostLink [] [] 0 [])(0 := newHostLink (replicate 16 0) ''a'' 7 []), u_inbox := [RReady 0]\<rparr>"
  from a have b: "reachable ?b"
    by (rule reach_step) (rule hub_step.auth_done[of 7 _ 0 "''a''" "replicate 16 0" "[]"], simp_all add: emptyHub_def upd_link_def heap_upd_def fedValidHost_def validToken_def lowerAlnum_def)
  then have "reachable (handleRegistry (\<lambda>_. True) (RReady 0) (?b\<lparr>u_inbox := []\<rparr>))"
    by (rule reach_step) (use hub_step.registry[of ?b "RReady 0" "[]" plainEnv "\<lambda>_. True"] in \<open>simp add: emptyHub_def\<close>)
  then have "reachable (oneHost ((newHostLink (replicate 16 0) ''a'' 7 [])\<lparr>hl_ready := Some True\<rparr>) [] [] 0)"
    by (simp add: handleRegistry_def hubReady_def Let_def emptyHub_def oneHost_def upd_link_def heap_upd_def newHostLink_def gm_set_def gm_del_def)
  then have "reachable (upd_link 0 (startRun True) (oneHost ((newHostLink (replicate 16 0) ''a'' 7 [])\<lparr>hl_ready := Some True\<rparr>) [] [] 0))"
    by (rule reach_step) (rule hub_step.link_start, simp_all add: oneHost_def emptyHub_def newHostLink_def)
  then show ?thesis by (simp add: oneHost_def linkA_def startRun_def upd_link_def heap_upd_def newHostLink_def emptyHub_def)
qed

lemma oneHost_fields [simp]:
  "u_links (oneHost l evs ts n) = [(''a'', 0)]" "u_nlink (oneHost l evs ts n) = 1" "u_link (oneHost l evs ts n) 0 = l"
  "u_inbox (oneHost l evs ts n) = evs" "u_tasks (oneHost l evs ts n) = ts" "u_nchan (oneHost l evs ts n) = n"
  "u_cancelled (oneHost l evs ts n) = False" "u_stopped (oneHost l evs ts n) = False"
  "u_for (oneHost l evs ts n) = (\<lambda>_. (0, False))" "u_sent (oneHost l evs ts n) = (\<lambda>_. [])"
  "upd_link 0 f (oneHost l evs ts n) = oneHost (f l) evs ts n" "(oneHost l evs ts n)\<lparr>u_inbox := es\<rparr> = oneHost l es ts n"
  by (simp_all add: oneHost_def emptyHub_def upd_link_def heap_upd_def)

lemma run_frame:
  "reachable (oneHost l evs ts n) \<Longrightarrow> \<not> c_done (hl_wire l) \<Longrightarrow> length (c_inbox (hl_wire l)) < OutboxSize \<Longrightarrow>
   reachable (oneHost (readerPosts (HFrame frame bad) l) evs ts n)"
  by (erule reach_step) (use hub_step.reader_frame[of 0 "oneHost l evs ts n"] in simp)

lemma run_turn:
  "reachable (oneHost l evs ts n) \<Longrightarrow> hl_phase l = Running \<Longrightarrow> c_inbox (hl_wire l) = ev # es \<Longrightarrow>
   linkTurn plainEnv 0 ev (popped es l) = (l', [], out) \<Longrightarrow> length evs < OutboxSize \<Longrightarrow>
   reachable (oneHost l' (evs @ (case out of None \<Rightarrow> [] | Some e \<Rightarrow> [e])) ts n)"
  by (erule reach_step, rule hub_step.link_turn[of 0 _ ev es _ l' "[]" out]) (simp_all add: popped_def split: option.split)

lemma run_registry:
  "reachable (oneHost l (ev # evs) ts n) \<Longrightarrow> reachable (handleRegistry seen ev (oneHost l evs ts n))"
  by (erule reach_step) (use hub_step.registry[of "oneHost l (ev # evs) ts n" ev evs] in simp)

definition askedHosts :: fedframe where
  "askedHosts = \<lparr>ff_ID = 1, ff_Method = hostsMethod, ff_Params = FPEmpty, ff_Result = None, ff_Error = None, ff_Request = True\<rparr>"

definition answeredA :: hostLink where
  "answeredA = linkA\<lparr>hl_lastIn := 1, hl_asked := [1], hl_answered := [1],
     hl_wire := StartConn\<lparr>c_outbox := [FResultOut 1 (FResult (VHosts (Some [])))]\<rparr>\<rparr>"

lemma reach_answered: "reachable (oneHost answeredA [] [] 0)"
proof -
  let ?l1 = "readerPosts (HFrame askedHosts False) linkA" let ?l2 = "linkA\<lparr>hl_lastIn := 1, hl_asked := [1]\<rparr>"
  let ?r = "answerOrigin 0 1 (rawReply (VHosts (Some [])))"
  have "reachable (oneHost ?l1 [] [] 0)"
    by (rule run_frame[OF reach_oneHost]) (simp_all add: linkA_def newHostLink_def StartConn_def)
  then have "reachable (oneHost ?l2 ([] @ (case Some (RHosts 0 1) of None \<Rightarrow> [] | Some e \<Rightarrow> [e])) [] 0)"
    by (rule run_turn[where ev = "HFrame askedHosts False" and es = "[]"])
      (simp_all add: linkA_def newHostLink_def StartConn_def readerPosts_def popped_def linkTurn_def linkFrame_def requestEvent_def askedHosts_def)
  then have "reachable (handleRegistry (\<lambda>_. True) (RHosts 0 1) (oneHost ?l2 [] [] 0))" by (intro run_registry) simp
  then have "reachable (oneHost (readerPosts (HReply ?r) ?l2) [] [] 0)"
    by (simp add: handleRegistry_def hubHosts_def registered_def hubReply_def answerOrigin_def otherHosts_def postTo_def
        postLink_def Post_def linkA_def newHostLink_def StartConn_def gm_get_def readerPosts_def Let_def)
  then have "reachable (oneHost answeredA ([] @ (case None of None \<Rightarrow> [] | Some e \<Rightarrow> [e])) [] 0)"
    by (rule run_turn[where ev = "HReply ?r" and es = "[]"])
      (simp_all add: linkA_def newHostLink_def StartConn_def readerPosts_def popped_def linkTurn_def linkReply_def responseBytes_def
        rawReply_def plainResponse_def withinFrame_def plainEnv_def sendFrame_def Send_def outboxPut_def answeredA_def answerOrigin_def)
  then show ?thesis by simp
qed

theorem hub_answers_once_witness:
  "registered (oneHost answeredA [] [] 0) 0 \<and> owed (oneHost answeredA [] [] 0) 0 = {#1#}
   \<and> distinct (hl_answered (u_link (oneHost answeredA [] [] 0) 0)) \<and> hl_answered (u_link (oneHost answeredA [] [] 0) 0) = [1]"
  using hub_answers_once[OF reach_answered, of 0]
  by (simp add: registered_def gm_get_def answeredA_def linkA_def newHostLink_def)

theorem hub_state_typed_witness:
  "hl_pending (u_link (oneHost answeredA [] [] 0) 0) = [] \<and> conn_ok (hl_wire (u_link (oneHost answeredA [] [] 0) 0))"
  using hub_state_typed[OF reach_answered, of 0] by (simp add: answeredA_def linkA_def newHostLink_def)

text \<open>
  The host asks for the end of an owner on itself, and its connection ends before the registry has
  posted the call: the registry's \<open>Post\<close> did not see the end, and the loop finds the call behind the
  closing event.
\<close>

definition ownerEnds :: OwnerEnd where
  "ownerEnds = \<lparr>oe_Host = ''a'', oe_SessionID = ''s@a'', oe_Lifetime = ''t'', oe_Source = [], oe_Attachment = []\<rparr>"

definition askedEnd :: fedframe where
  "askedEnd = \<lparr>ff_ID = 1, ff_Method = ownerEndMethod, ff_Params = FPOwnerEnd ownerEnds, ff_Result = None, ff_Error = None, ff_Request = True\<rparr>"

definition endedA :: "linkEvent list \<Rightarrow> hostLink" where
  "endedA evs = linkA\<lparr>hl_lastIn := 1, hl_asked := [1], hl_readerDone := True,
     hl_wire := (readFailed StartConn)\<lparr>c_inbox := evs\<rparr>\<rparr>"

lemmas run_defs = linkA_def newHostLink_def StartConn_def readerPosts_def popped_def readFailed_def CloseConn_def endedA_def

lemma reach_askedEnd: "reachable (oneHost (linkA\<lparr>hl_lastIn := 1, hl_asked := [1]\<rparr>) [ROwnerEnd 0 \<lparr>io_ID = 1, io_Value = ownerEnds\<rparr>] [] 0)"
proof -
  let ?l1 = "readerPosts (HFrame askedEnd False) linkA" let ?l2 = "linkA\<lparr>hl_lastIn := 1, hl_asked := [1]\<rparr>"
  let ?e = "ROwnerEnd 0 \<lparr>io_ID = 1, io_Value = ownerEnds\<rparr>"
  have v: "fedValidHost ''a''" "ownedPart (\<lambda>_. False) ''s@a'' ''a'' False"
    by (simp_all add: fedValidHost_def validToken_def lowerAlnum_def ownedPart_def runeCount_def runes_def decodeRune_def isPrint_def isSpace_def)
  have "reachable (oneHost ?l1 [] [] 0)"
    by (rule run_frame[OF reach_oneHost]) (simp_all add: linkA_def newHostLink_def StartConn_def)
  then have "reachable (oneHost ?l2 ([] @ (case Some ?e of None \<Rightarrow> [] | Some e \<Rightarrow> [e])) [] 0)"
    by (rule run_turn[where ev = "HFrame askedEnd False" and es = "[]"])
      (use v in \<open>simp_all add: run_defs linkTurn_def linkFrame_def requestEvent_def askedEnd_def ownerEnds_def plainEnv_def\<close>)
  then show ?thesis by simp
qed

lemma reach_ended: "reachable (oneHost (endedA [HClosed]) [ROwnerEnd 0 \<lparr>io_ID = 1, io_Value = ownerEnds\<rparr>] [] 0)"
proof -
  let ?l2 = "linkA\<lparr>hl_lastIn := 1, hl_asked := [1]\<rparr>" let ?e = "ROwnerEnd 0 \<lparr>io_ID = 1, io_Value = ownerEnds\<rparr>"
  have "reachable (oneHost ?l2 [?e] [] 0)" by (rule reach_askedEnd)
  then have "reachable (oneHost (?l2\<lparr>hl_wire := readFailed (hl_wire ?l2)\<rparr>) [?e] [] 0)"
    by (rule reach_step) (use hub_step.reader_fails[of 0 "oneHost ?l2 [?e] [] 0"] in \<open>simp add: linkA_def newHostLink_def StartConn_def\<close>)
  then have "reachable (oneHost ((readerPosts HClosed (?l2\<lparr>hl_wire := readFailed (hl_wire ?l2)\<rparr>))\<lparr>hl_readerDone := True\<rparr>) [?e] [] 0)"
    by (rule reach_step) (use hub_step.reader_closed[of 0 "oneHost (?l2\<lparr>hl_wire := readFailed (hl_wire ?l2)\<rparr>) [?e] [] 0"] in \<open>simp add: run_defs\<close>)
  then show ?thesis by (simp add: run_defs)
qed

definition lostEnd :: hub where
  "lostEnd = (oneHost ((endedA [])\<lparr>hl_phase := Returned, hl_closedAck := True\<rparr>) [] [TWait 0 0 0 1 False] 1)
     \<lparr>u_links := [], u_sent := (\<lambda>_. [])(0 := [lost])\<rparr>"

lemma reach_lostEnd: "reachable lostEnd"
proof -
  let ?e = "ROwnerEnd 0 \<lparr>io_ID = 1, io_Value = ownerEnds\<rparr>"
  let ?c = "HLifetime ownerEndMethod (FPOwnerEnd (ownerEnds\<lparr>oe_Source := ''a'', oe_Attachment := hexEncode (replicate 16 0)\<rparr>)) 0"
  let ?t = "[TWait 0 0 0 1 False]"
  have "reachable (handleRegistry (\<lambda>_. False) ?e (oneHost (endedA [HClosed]) [] [] 0))" by (rule run_registry[OF reach_ended])
  moreover have "handleRegistry (\<lambda>_. False) ?e (oneHost (endedA [HClosed]) [] [] 0) = oneHost (endedA [HClosed, ?c]) [] ?t 1"
    by (simp add: handleRegistry_def hubOwnerEnd_def registered_def gm_get_def newReply_def postTo_def postLink_def Post_def run_defs Let_def
        ownerEnds_def) (simp add: oneHost_def emptyHub_def upd_link_def heap_upd_def run_defs fun_upd_idem)
  ultimately have "reachable (oneHost (endedA [HClosed, ?c]) [] ?t 1)" by simp
  then have "reachable (oneHost ((endedA [?c])\<lparr>hl_phase := Closing\<rparr>) ([] @ (case Some (RClosed 0) of None \<Rightarrow> [] | Some e \<Rightarrow> [e])) ?t 1)"
    by (rule run_turn[where ev = HClosed and es = "[?c]"]) (simp_all add: run_defs linkTurn_def)
  then have "reachable (handleRegistry (\<lambda>_. True) (RClosed 0) (oneHost ((endedA [?c])\<lparr>hl_phase := Closing\<rparr>) [] ?t 1))" by (intro run_registry) simp
  moreover have "handleRegistry (\<lambda>_. True) (RClosed 0) (oneHost ((endedA [?c])\<lparr>hl_phase := Closing\<rparr>) [] ?t 1)
      = (oneHost ((endedA [?c])\<lparr>hl_phase := Closing, hl_closedAck := True\<rparr>) [] ?t 1)\<lparr>u_links := []\<rparr>"
    by (simp add: handleRegistry_def hubClosed_def registered_def removeLink_def gm_get_def gm_del_def closeLink_def run_defs Let_def)
      (simp add: oneHost_def emptyHub_def upd_link_def heap_upd_def run_defs closeLink_def fun_eq_iff)
  ultimately have "reachable ((oneHost ((endedA [?c])\<lparr>hl_phase := Closing, hl_closedAck := True\<rparr>) [] ?t 1)\<lparr>u_links := []\<rparr>)" by simp
  then show ?thesis
    by (rule reach_step) (use hub_step.link_return[of 0 "(oneHost ((endedA [?c])\<lparr>hl_phase := Closing, hl_closedAck := True\<rparr>) [] ?t 1)\<lparr>u_links := []\<rparr>"
        "(endedA [])\<lparr>hl_phase := Returned, hl_closedAck := True\<rparr>" "[(0, lost)]" plainEnv]
      in \<open>simp add: linkReturn_def settleAll_def settleQueued_def closeLink_def run_defs lostEnd_def sendReply_def oneHost_def emptyHub_def upd_link_def heap_upd_def\<close>)
qed

theorem hub_replies_never_lost_witness:
  "TWait 0 0 0 1 False \<in> set (u_tasks lostEnd) \<and> hl_phase (u_link lostEnd 0) = Returned \<and> (\<exists>v. u_sent lostEnd 0 = [v])"
proof -
  have "TWait 0 0 0 1 False \<in> set (u_tasks lostEnd)" "hl_phase (u_link lostEnd 0) = Returned" "\<not> u_cancelled lostEnd"
    by (simp_all add: lostEnd_def)
  with hub_replies_never_lost[OF reach_lostEnd, of 0 0 0 1 False] show ?thesis by simp
qed

end
