(* ===== verification/DaemonLink.thy ===== *)
theory DaemonLink
  imports FedCheck Conn
begin

text \<open>
  The daemon's side of its link to the hub (\<open>bus/internal/federation/daemon_link.go\<close>): the loop of
  \<open>ServeDaemon\<close>, what it does with a frame of the hub, the goroutines that wait for an admitted
  request, and the end of the link (\<open>startFederation\<close> and \<open>settleFederationQueue\<close> in
  \<open>bus/internal/daemon/federation.go\<close>).

  What the daemon answers to an admitted request is the environment's choice: \<open>admit\<close> says whether a
  request is admitted, \<open>roster\<close> is the daemon's own roster. The lists \<open>dl_asked\<close> and \<open>dl_answered\<close> record the
  identifiers of admitted requests and of the responses sent; they are written and never read.
\<close>

section \<open>State\<close>

datatype dlEvent =
    DCall fedcall
  | DReply int Reply
  | DFrame fedframe bool
  | DClosed

record dlink =
  dl_host :: gostring
  dl_alpn :: gostring
  dl_wire :: "(dlEvent, fedout) conn"
  dl_nextID :: int
  dl_lastIn :: int
  dl_pending :: "(int, pendingCall) gomap"
  dl_cause :: bool
  dl_running :: bool
  dl_readerDone :: bool
  dl_helpers :: "int list"
  dl_applied :: "LifetimeEvent list"
  dl_asked :: "int list"
  dl_answered :: "int list"

definition newLink :: "gostring \<Rightarrow> gostring \<Rightarrow> dlink" where
  "newLink host alpn =
     \<lparr>dl_host = host, dl_alpn = alpn, dl_wire = StartConn, dl_nextID = 0, dl_lastIn = 0, dl_pending = [], dl_cause = False,
      dl_running = True, dl_readerDone = False, dl_helpers = [], dl_applied = [], dl_asked = [], dl_answered = []\<rparr>"

record IncomingCall =
  ic_From :: "Caller option"
  ic_Request :: "PublicRequest option"

type_synonym dlTurn = "dlink \<times> (ptr \<times> Reply) list"

definition lostCall :: Reply where
  "lostCall = errorReply ForwardLost None"

definition shutWire :: "dlink \<Rightarrow> dlink" where
  "shutWire l = l\<lparr>dl_wire := CloseConn (dl_wire l)\<rparr>"

definition failWire :: "dlink \<Rightarrow> dlink" where
  "failWire l = (shutWire l)\<lparr>dl_cause := True\<rparr>"

section \<open>Calls to the hub\<close>

text \<open>
  The next request: \<open>None\<close> if the link has failed, the request is too long or the outbox does not take it.
\<close>

definition bumpID :: "dlink \<Rightarrow> dlink" where
  "bumpID l = l\<lparr>dl_nextID := dl_nextID l + 1\<rparr>"

definition sendRequest :: "fedout option \<Rightarrow> dlink \<Rightarrow> dlink \<times> bool" where
  "sendRequest body l =
     (if dl_cause l then (l, False)
      else case body of
             None \<Rightarrow> (l, False)
           | Some f \<Rightarrow> (let (w, ok) = Send f (dl_wire l) in (l\<lparr>dl_wire := w\<rparr>, ok)))"

definition keepCall :: "pendingCall \<Rightarrow> dlink \<Rightarrow> dlink" where
  "keepCall call l = l\<lparr>dl_pending := gm_set (dl_nextID l) call (dl_pending l)\<rparr>"

definition plainCall :: "gostring \<Rightarrow> ptr \<Rightarrow> pendingCall" where
  "plainCall method ch = \<lparr>pc_method = method, pc_reply = ch, pc_trace = False, pc_target = []\<rparr>"

definition callOwnerEnd :: "fedEnv \<Rightarrow> OwnerEnd \<Rightarrow> ptr \<Rightarrow> dlink \<Rightarrow> dlTurn" where
  "callOwnerEnd E v ch l =
     (if length (dl_pending l) \<ge> MaxOperations then (shutWire l, [(ch, lostCall)])
      else
        let l1 = bumpID l; (l2, ok) = sendRequest (requestBytes E (dl_nextID l1) ownerEndMethod (FPOwnerEnd v)) l1 in
        if \<not> ok then (shutWire l2, [(ch, lostCall)])
        else (keepCall (plainCall ownerEndMethod ch) l2, []))"

definition callForward :: "fedEnv \<Rightarrow> Forward \<Rightarrow> ptr \<Rightarrow> dlink \<Rightarrow> dlTurn" where
  "callForward E v0 ch l =
     (let r0 = fw_Request v0; trace = SupportsTrace (dl_alpn l) in
      if pr_Completion r0 \<and> \<not> SupportsWake (dl_alpn l) then (l, [(ch, lostCall)])
      else if requestRequiresTrace r0 \<and> \<not> trace then (l, [(ch, traceUnsupported)])
      else
        let v1 = (if pr_Trace r0 \<and> \<not> trace then v0\<lparr>fw_Request := r0\<lparr>pr_Trace := False\<rparr>\<rparr> else v0);
            l1 = bumpID l;
            (body, v) = forwardRequestBytes E (dl_nextID l1) v1;
            r = fw_Request v
        in case fedTargetHost r of
             None \<Rightarrow> (l1, [(ch, errorReply InvalidFrame (Some (DText ''forwarded request exceeds the frame limit'')))])
           | Some target \<Rightarrow>
               if body = None then (l1, [(ch, errorReply InvalidFrame (Some (DText ''forwarded request exceeds the frame limit'')))])
               else
                 let (l2, ok) = sendRequest body l1 in
                 if \<not> ok then (failWire l2, [(ch, lostCall)])
                 else (keepCall \<lparr>pc_method = pr_Method r, pc_reply = ch, pc_trace = pr_Trace r, pc_target = target\<rparr> l2, []))"

definition callRoster :: "fedEnv \<Rightarrow> ptr \<Rightarrow> dlink \<Rightarrow> dlTurn" where
  "callRoster E ch l =
     (let l1 = bumpID l; (l2, ok) = sendRequest (requestBytes E (dl_nextID l1) rosterMethod FPEmpty) l1 in
      if \<not> ok then (l2, [(ch, lostCall)]) else (keepCall (plainCall rosterMethod ch) l2, []))"

definition callHosts :: "fedEnv \<Rightarrow> ptr \<Rightarrow> dlink \<Rightarrow> dlTurn" where
  "callHosts E ch l =
     (let l1 = bumpID l; (l2, ok) = sendRequest (requestBytes E (dl_nextID l1) hostsMethod FPEmpty) l1 in
      if \<not> ok then (failWire l2, [(ch, lostCall)]) else (keepCall (plainCall hostsMethod ch) l2, []))"

fun callHub :: "fedEnv \<Rightarrow> fedcall \<Rightarrow> dlink \<Rightarrow> dlTurn" where
  "callHub E (OwnerEndCall v ch) l = callOwnerEnd E v ch l"
| "callHub E (OutgoingCall v ch) l = callForward E v ch l"
| "callHub E (RosterCall ch) l = callRoster E ch l"
| "callHub E (HostsCall ch) l = callHosts E ch l"

section \<open>Frames of the hub\<close>

text \<open>What a request of the hub asks of the daemon, or that it breaks the protocol.\<close>

datatype daemonAct =
    ActRefuse
  | ActRoster
  | ActApply LifetimeEvent
  | ActAnswer Reply
  | ActAdmit Caller PublicRequest

definition lifetimeOf :: "fedEnv \<Rightarrow> gostring \<Rightarrow> gostring \<Rightarrow> fedparams \<Rightarrow> LifetimeEvent option" where
  "lifetimeOf E host method params =
     (if method = ownerEndMethod then
        (case params of
           FPOwnerEnd v \<Rightarrow>
             if oe_Host v \<noteq> host \<or> \<not> fedValidHost (oe_Source v) \<or> \<not> ownedPart (ev_hi E) (oe_SessionID v) (oe_Source v) False
                \<or> oe_Lifetime v = [] \<or> oe_Attachment v = []
             then None else Some \<lparr>le_Owner = Some v, le_Host = None\<rparr>
         | _ \<Rightarrow> None)
      else
        (case params of
           FPHostEnd v \<Rightarrow> if \<not> fedValidHost (he_Host v) \<or> he_Attachment v = [] then None else Some \<lparr>le_Owner = None, le_Host = Some v\<rparr>
         | _ \<Rightarrow> None))"

definition daemonRequest :: "fedEnv \<Rightarrow> gostring \<Rightarrow> gostring \<Rightarrow> gostring \<Rightarrow> fedparams \<Rightarrow> daemonAct" where
  "daemonRequest E host alpn method params =
     (if method = rosterMethod then (if params = FPEmpty then ActRoster else ActRefuse)
      else if method = ownerEndMethod \<or> method = hostEndMethod then
        (case lifetimeOf E host method params of None \<Rightarrow> ActRefuse | Some e \<Rightarrow> ActApply e)
      else if method \<noteq> forwardMethod then ActRefuse
      else case sourceHost params of
             None \<Rightarrow> ActRefuse
           | Some source \<Rightarrow>
               (case decodeForward (ev_hi E) params source of
                  None \<Rightarrow> ActRefuse
                | Some (v, target) \<Rightarrow>
                    let r = fw_Request v in
                    if target \<noteq> host then ActRefuse
                    else if pr_Completion r \<and> \<not> SupportsWake alpn then ActAnswer (errorReply ForwardLost None)
                    else if requestRequiresTrace r \<and> \<not> SupportsTrace alpn then ActAnswer traceUnsupported
                    else ActAdmit (fw_From v) (if pr_Trace r \<and> \<not> SupportsTrace alpn then r\<lparr>pr_Trace := False\<rparr> else r)))"

text \<open>Sending a response; the result says whether the link goes on.\<close>

definition respond :: "int \<Rightarrow> fedout option \<Rightarrow> dlink \<Rightarrow> dlink \<times> bool" where
  "respond i body l =
     (case body of
        None \<Rightarrow> (l, False)
      | Some f \<Rightarrow>
          let (w, ok) = Send f (dl_wire l);
              l1 = l\<lparr>dl_wire := w\<rparr>
          in (if ok then l1\<lparr>dl_answered := i # dl_answered l1\<rparr> else l1, ok))"

text \<open>A request, once its identifier is found to be new; the flag says whether the link goes on.\<close>

definition actOn :: "fedEnv \<Rightarrow> (Caller \<Rightarrow> PublicRequest \<Rightarrow> bool) \<Rightarrow> Reply option \<Rightarrow> int \<Rightarrow> daemonAct \<Rightarrow> dlink \<Rightarrow> dlink \<times> bool" where
  "actOn E admit roster i act l =
     (case act of
        ActRefuse \<Rightarrow> (l, False)
      | ActRoster \<Rightarrow>
          (case roster of
             None \<Rightarrow> (l, False)
           | Some v \<Rightarrow> respond i (responseBytes E i v False) (l\<lparr>dl_asked := i # dl_asked l\<rparr>))
      | ActApply e \<Rightarrow>
          respond i (responseBytes E i emptyReply False) (l\<lparr>dl_asked := i # dl_asked l, dl_applied := dl_applied l @ [e]\<rparr>)
      | ActAnswer v \<Rightarrow> respond i (responseBytes E i v True) (l\<lparr>dl_asked := i # dl_asked l\<rparr>)
      | ActAdmit caller request \<Rightarrow>
          if admit caller request then (l\<lparr>dl_asked := i # dl_asked l, dl_helpers := i # dl_helpers l\<rparr>, True) else (l, False))"

definition daemonFrame :: "fedEnv \<Rightarrow> (Caller \<Rightarrow> PublicRequest \<Rightarrow> bool) \<Rightarrow> Reply option \<Rightarrow> fedframe \<Rightarrow> bool \<Rightarrow> dlink \<Rightarrow> dlink \<times> (ptr \<times> Reply) list \<times> bool" where
  "daemonFrame E admit roster frame bad l =
     (if bad then (l, [], False)
      else if \<not> ff_Request frame then
        (case gm_get (dl_pending l) (ff_ID frame) of
           None \<Rightarrow> (l, [], False)
         | Some call \<Rightarrow>
             (case decodePendingReply E call frame of
                None \<Rightarrow> (l, [], False)
              | Some reply \<Rightarrow> (l\<lparr>dl_pending := gm_del (ff_ID frame) (dl_pending l)\<rparr>, [(pc_reply call, reply)], True)))
      else if ff_ID frame \<le> dl_lastIn l then (l, [], False)
      else if ff_Method frame \<notin> {rosterMethod, ownerEndMethod, hostEndMethod, forwardMethod} then (l, [], False)
      else
        let (l1, ok) = actOn E admit roster (ff_ID frame) (daemonRequest E (dl_host l) (dl_alpn l) (ff_Method frame) (ff_Params frame))
                         (l\<lparr>dl_lastIn := ff_ID frame\<rparr>)
        in (l1, [], ok))"

section \<open>The loop\<close>

definition settleCalls :: "(int, pendingCall) gomap \<Rightarrow> (ptr \<times> Reply) list" where
  "settleCalls pending = map (\<lambda>x. (pc_reply (snd x), lostCall)) pending"

definition serveTurn :: "fedEnv \<Rightarrow> (Caller \<Rightarrow> PublicRequest \<Rightarrow> bool) \<Rightarrow> Reply option \<Rightarrow> dlEvent \<Rightarrow> dlink \<Rightarrow> dlTurn" where
  "serveTurn E admit roster event l =
     (case event of
        DCall call \<Rightarrow> callHub E call l
      | DReply i v \<Rightarrow>
          if dl_cause l then (l, [])
          else let (l1, ok) = respond i (responseBytes E i v True) l in (if ok then l1 else failWire l1, [])
      | DFrame frame bad \<Rightarrow>
          if dl_cause l then (l, [])
          else let (l1, sends, ok) = daemonFrame E admit roster frame bad l in (if ok then l1 else failWire l1, sends)
      | DClosed \<Rightarrow> (l\<lparr>dl_pending := [], dl_running := False, dl_wire := CloseConn (dl_wire l)\<rparr>, settleCalls (dl_pending l)))"

text \<open>
  The goroutine of an admitted request posts its reply to the loop, or closes the connection; its
  check that the reader has not ended may be outdated when it posts (\<open>seen\<close>).
\<close>

definition helperPosts :: "bool \<Rightarrow> int \<Rightarrow> Reply \<Rightarrow> dlink \<Rightarrow> dlink" where
  "helperPosts seen i v l =
     (let w0 = dl_wire l;
          (w, ok) = Post (DReply i v) (w0\<lparr>c_done := c_done w0 \<and> seen\<rparr>);
          l1 = l\<lparr>dl_wire := w\<lparr>c_done := c_done w0\<rparr>, dl_helpers := remove1 i (dl_helpers l)\<rparr>
      in if ok then l1 else shutWire l1)"

fun queued_chan :: "dlEvent \<Rightarrow> ptr option" where
  "queued_chan (DCall call) = Some (call_chan call)"
| "queued_chan _ = None"

definition settleLinkQueue :: "dlEvent list \<Rightarrow> (ptr \<times> Reply) list" where
  "settleLinkQueue events = map (\<lambda>ch. (ch, lostCall)) (List.map_filter queued_chan events)"

end
