(* ===== verification/DaemonServe.thy ===== *)
theory DaemonServe
  imports DaemonLink
begin

text \<open>
  The daemon's hub link in time: the daemon posts calls while the link is attached, the loop takes
  events, the hub's frames arrive, admitted requests are answered by their goroutines, and the
  link ends, in any order.
\<close>

record dserve =
  ds_link :: dlink
  ds_attached :: bool
  ds_posted :: "ptr list"
  ds_sent :: "ptr \<Rightarrow> Reply list"

definition putReply :: "ptr \<times> Reply \<Rightarrow> (ptr \<Rightarrow> Reply list) \<Rightarrow> ptr \<Rightarrow> Reply list" where
  "putReply x sent = sent(fst x := sent (fst x) @ [snd x])"

definition inboxOf :: "dlink \<Rightarrow> dlEvent list" where
  "inboxOf l = c_inbox (dl_wire l)"

definition setInbox :: "dlEvent list \<Rightarrow> dlink \<Rightarrow> dlink" where
  "setInbox evs l = l\<lparr>dl_wire := (dl_wire l)\<lparr>c_inbox := evs\<rparr>\<rparr>"

inductive serve_step :: "fedEnv \<Rightarrow> (Caller \<Rightarrow> PublicRequest \<Rightarrow> bool) \<Rightarrow> dserve \<Rightarrow> dserve \<Rightarrow> bool"
  for E :: fedEnv and admit :: "Caller \<Rightarrow> PublicRequest \<Rightarrow> bool" where
  post: "\<lbrakk>ds_attached s; call_chan call \<notin> set (ds_posted s); length (inboxOf (ds_link s)) < OutboxSize\<rbrakk>
     \<Longrightarrow> serve_step E admit s (s\<lparr>ds_link := setInbox (inboxOf (ds_link s) @ [DCall call]) (ds_link s), ds_posted := call_chan call # ds_posted s\<rparr>)"
| turn: "\<lbrakk>dl_running (ds_link s); inboxOf (ds_link s) = ev # evs; serveTurn E admit roster ev (setInbox evs (ds_link s)) = (l, sends)\<rbrakk>
     \<Longrightarrow> serve_step E admit s (s\<lparr>ds_link := l, ds_sent := fold putReply sends (ds_sent s)\<rparr>)"
| cancel: "dl_running (ds_link s) \<Longrightarrow> serve_step E admit s (s\<lparr>ds_link := failWire (ds_link s)\<rparr>)"
| reader_frame: "\<lbrakk>\<not> c_done (dl_wire (ds_link s)); length (inboxOf (ds_link s)) < OutboxSize\<rbrakk>
     \<Longrightarrow> serve_step E admit s (s\<lparr>ds_link := setInbox (inboxOf (ds_link s) @ [DFrame frame bad]) (ds_link s)\<rparr>)"
| reader_fails: "\<not> c_done (dl_wire (ds_link s))
     \<Longrightarrow> serve_step E admit s (s\<lparr>ds_link := (ds_link s)\<lparr>dl_wire := readFailed (dl_wire (ds_link s))\<rparr>\<rparr>)"
| reader_closed: "\<lbrakk>c_done (dl_wire (ds_link s)); \<not> dl_readerDone (ds_link s); length (inboxOf (ds_link s)) < OutboxSize\<rbrakk>
     \<Longrightarrow> serve_step E admit s (s\<lparr>ds_link := (setInbox (inboxOf (ds_link s) @ [DClosed]) (ds_link s))\<lparr>dl_readerDone := True\<rparr>\<rparr>)"
| writer: "serve_step E admit s (s\<lparr>ds_link := (ds_link s)\<lparr>dl_wire := fst (writeStep (dl_wire (ds_link s)))\<rparr>\<rparr>)"
| helper_reply: "i \<in> set (dl_helpers (ds_link s)) \<Longrightarrow> serve_step E admit s (s\<lparr>ds_link := helperPosts seen i v (ds_link s)\<rparr>)"
| helper_gone: "\<lbrakk>i \<in> set (dl_helpers (ds_link s)); c_done (dl_wire (ds_link s))\<rbrakk>
     \<Longrightarrow> serve_step E admit s (s\<lparr>ds_link := (ds_link s)\<lparr>dl_helpers := remove1 i (dl_helpers (ds_link s))\<rparr>\<rparr>)"
| finish: "\<lbrakk>ds_attached s; \<not> dl_running (ds_link s); dl_readerDone (ds_link s); dl_helpers (ds_link s) = []\<rbrakk>
     \<Longrightarrow> serve_step E admit s (s\<lparr>ds_attached := False, ds_link := setInbox [] (ds_link s),
            ds_sent := fold putReply (settleLinkQueue (inboxOf (ds_link s))) (ds_sent s)\<rparr>)"

definition startServe :: "gostring \<Rightarrow> gostring \<Rightarrow> dserve" where
  "startServe host alpn = \<lparr>ds_link = newLink host alpn, ds_attached = True, ds_posted = [], ds_sent = (\<lambda>_. [])\<rparr>"

section \<open>The invariant\<close>

text \<open>The channels of the calls the link holds, and the requests of the hub it owes a response.\<close>

definition heldCalls :: "dlink \<Rightarrow> ptr multiset" where
  "heldCalls l = mset (List.map_filter queued_chan (inboxOf l)) + mset (map (\<lambda>x. pc_reply (snd x)) (dl_pending l))"

fun queued_reply :: "dlEvent \<Rightarrow> int option" where
  "queued_reply (DReply i v) = Some i"
| "queued_reply _ = None"

definition owedReplies :: "dlink \<Rightarrow> int multiset" where
  "owedReplies l = mset (List.map_filter queued_reply (inboxOf l)) + mset (dl_helpers l) + mset (dl_answered l)"

definition link_inv :: "dlink \<Rightarrow> bool" where
  "link_inv l \<longleftrightarrow> conn_ok (dl_wire l) \<and> gm_ok (dl_pending l) \<and> (\<forall>x \<in> set (dl_pending l). fst x \<le> dl_nextID l)
     \<and> (c_done (dl_wire l) \<longrightarrow> c_fdClosed (dl_wire l))
     \<and> distinct (dl_asked l) \<and> (\<forall>i \<in> set (dl_asked l). i \<le> dl_lastIn l)
     \<and> owedReplies l \<subseteq># mset (dl_asked l)
     \<and> (dl_running l \<and> \<not> dl_cause l \<and> \<not> c_fdClosed (dl_wire l) \<longrightarrow> owedReplies l = mset (dl_asked l))"

definition serve_inv :: "dserve \<Rightarrow> bool" where
  "serve_inv s \<longleftrightarrow> link_inv (ds_link s) \<and> distinct (ds_posted s)
     \<and> (\<forall>c. count (heldCalls (ds_link s)) c + length (ds_sent s c) = count_list (ds_posted s) c)
     \<and> (\<not> dl_running (ds_link s) \<longrightarrow> dl_pending (ds_link s) = [])
     \<and> (\<not> ds_attached s \<longrightarrow> \<not> dl_running (ds_link s) \<and> heldCalls (ds_link s) = {#})"

text \<open>A turn keeps the link's part and sends the replies of the calls it no longer holds.\<close>

definition serves :: "ptr multiset \<Rightarrow> dlink \<Rightarrow> dlTurn \<Rightarrow> bool" where
  "serves M l t \<longleftrightarrow> (case t of (l', sends) \<Rightarrow> link_inv l' \<and> heldCalls l' + mset (map fst sends) = M + heldCalls l
     \<and> (dl_running l' = dl_running l \<or> \<not> dl_running l' \<and> dl_pending l' = []))"

lemmas inbox_defs = inboxOf_def setInbox_def

lemma map_filter_cons [simp]:
  "List.map_filter f [] = []" "List.map_filter f (x # xs) = (case f x of None \<Rightarrow> List.map_filter f xs | Some y \<Rightarrow> y # List.map_filter f xs)"
  "List.map_filter f (xs @ ys) = List.map_filter f xs @ List.map_filter f ys"
  by (simp_all add: List.map_filter_def split: option.split)

text \<open>Changes of the counter, the socket and the failure only.\<close>

definition calm :: "dlink \<Rightarrow> dlink \<Rightarrow> bool" where
  "calm l l' \<longleftrightarrow> dl_pending l' = dl_pending l \<and> inboxOf l' = inboxOf l \<and> dl_helpers l' = dl_helpers l \<and> dl_answered l' = dl_answered l
     \<and> dl_asked l' = dl_asked l \<and> dl_lastIn l \<le> dl_lastIn l' \<and> dl_nextID l \<le> dl_nextID l' \<and> dl_running l' = dl_running l
     \<and> (dl_cause l \<longrightarrow> dl_cause l') \<and> (c_fdClosed (dl_wire l) \<longrightarrow> c_fdClosed (dl_wire l'))
     \<and> c_done (dl_wire l') = c_done (dl_wire l) \<and> (conn_ok (dl_wire l) \<longrightarrow> conn_ok (dl_wire l'))"

lemma calm_same_link: "calm l l"
  by (simp add: calm_def)

lemma calm_then: "calm a b \<Longrightarrow> calm b c \<Longrightarrow> calm a c"
  unfolding calm_def by auto

lemma calm_intros:
  "calm l (shutWire l)" "calm l (failWire l)" "calm l (bumpID l)" "calm l (fst (sendRequest body l))"
proof -
  show c: "calm l (shutWire l)" using conn_ok_ops(5)[of "dl_wire l"] by (simp add: calm_def shutWire_def inboxOf_def) (simp add: CloseConn_def)
  then show "calm l (failWire l)" by (simp add: calm_def failWire_def inboxOf_def)
  show "calm l (bumpID l)" by (simp add: calm_def bumpID_def inboxOf_def)
  have "c_inbox (fst (Send f w)) = c_inbox w" "c_done (fst (Send f w)) = c_done w" "c_fdClosed w \<longrightarrow> c_fdClosed (fst (Send f w))"
    for f and w :: "(dlEvent, fedout) conn" by (simp_all add: Send_def outboxPut_def CloseConn_def)
  then show "calm l (fst (sendRequest body l))"
    using conn_ok_ops(2)[of "dl_wire l"] by (simp add: calm_def sendRequest_def inboxOf_def split_beta split: option.split)
qed

lemma link_inv_calm: "link_inv l \<Longrightarrow> calm l l' \<Longrightarrow> link_inv l'"
proof -
  assume l: "link_inv l" and c: "calm l l'"
  have f: "dl_pending l' = dl_pending l" "dl_asked l' = dl_asked l" "dl_running l' = dl_running l" "owedReplies l' = owedReplies l"
    "c_done (dl_wire l') = c_done (dl_wire l)" and n: "dl_lastIn l \<le> dl_lastIn l'" "dl_nextID l \<le> dl_nextID l'"
    "conn_ok (dl_wire l) \<Longrightarrow> conn_ok (dl_wire l')" "dl_cause l \<Longrightarrow> dl_cause l'" "c_fdClosed (dl_wire l) \<Longrightarrow> c_fdClosed (dl_wire l')"
    using c by (simp_all add: calm_def owedReplies_def)
  show "link_inv l'" using l n order_trans[OF _ n(1)] order_trans[OF _ n(2)] unfolding link_inv_def f by blast
qed

lemma calm_held: "calm l l' \<Longrightarrow> heldCalls l' = heldCalls l"
  by (simp add: calm_def heldCalls_def)

lemma serves_lost: "link_inv l \<Longrightarrow> calm l l' \<Longrightarrow> serves {#ch#} l (l', [(ch, v)])"
  using link_inv_calm[of l l'] calm_held[of l l'] by (simp add: serves_def calm_def)

lemma serves_kept:
  assumes "link_inv l" "calm (bumpID l) l'" "dl_nextID l' = dl_nextID l + 1" "pc_reply call = ch"
  shows "serves {#ch#} l (keepCall call l', [])"
proof -
  have c: "calm l l'" by (rule calm_then[OF calm_intros(3) assms(2)])
  note i = link_inv_calm[OF assms(1) c]
  have none: "gm_get (dl_pending l') (dl_nextID l') = None"
  proof (cases "gm_get (dl_pending l') (dl_nextID l')")
    case (Some x)
    then have "dl_nextID l' \<le> dl_nextID l" using gm_get_in_set[OF Some] assms(1) c by (force simp: link_inv_def calm_def)
    with assms(3) show ?thesis by simp
  qed simp
  have p: "dl_pending (keepCall call l') = dl_pending l' @ [(dl_nextID l', call)]" by (simp add: keepCall_def gm_set_none[OF none])
  have ok: "gm_ok (dl_pending (keepCall call l'))" using i by (simp add: keepCall_def link_inv_def)
  have "link_inv (keepCall call l')" using i ok unfolding link_inv_def p
    by (simp add: keepCall_def owedReplies_def inboxOf_def)
  moreover have "heldCalls (keepCall call l') = add_mset ch (heldCalls l)"
    using p assms(4) calm_held[OF c] by (simp add: heldCalls_def) (simp add: keepCall_def inboxOf_def)
  ultimately show ?thesis using c by (simp add: serves_def calm_def keepCall_def)
qed

lemma sendRequest_nextID [simp]: "dl_nextID (fst (sendRequest body l)) = dl_nextID l"
  by (simp add: sendRequest_def split_beta split: option.split)

lemma bumpID_nextID [simp]: "dl_nextID (bumpID l) = dl_nextID l + 1"
  by (simp add: bumpID_def)

lemma callHub_serves:
  assumes "link_inv l"
  shows "serves {#call_chan call#} l (callHub E call l)"
proof -
  let ?s = "\<lambda>body. fst (sendRequest body (bumpID l))"
  have m: "calm l (?s body)" "calm l (shutWire (?s body))" "calm l (failWire (?s body))" for body
    using calm_then[OF calm_intros(3,4)] calm_then[OF calm_then[OF calm_intros(3,4)] calm_intros(1)]
      calm_then[OF calm_then[OF calm_intros(3,4)] calm_intros(2)] by blast+
  note lost = serves_lost[OF assms]
  have kept: "serves {#ch#} l (keepCall c (?s body), [])" if "pc_reply c = ch" for c ch body
    by (rule serves_kept[OF assms calm_intros(4)]) (use that in simp_all)
  show ?thesis
  proof (cases call)
    case (OwnerEndCall v ch)
    then show ?thesis using lost[OF calm_intros(1)] lost[OF m(2)] kept
      by (simp add: callOwnerEnd_def plainCall_def Let_def split_beta)
  next
    case (OutgoingCall v ch)
    show ?thesis using lost[OF calm_same_link] lost[OF calm_intros(3)] lost[OF m(3)] kept
      unfolding OutgoingCall callHub.simps call_chan.simps callForward_def Let_def by (auto simp: split_beta split: option.split)
  next
    case (RosterCall ch)
    then show ?thesis using lost[OF m(1)] kept by (simp add: callRoster_def plainCall_def Let_def split_beta)
  next
    case (HostsCall ch)
    then show ?thesis using lost[OF m(3)] kept by (simp add: callHosts_def plainCall_def Let_def split_beta)
  qed
qed

text \<open>A response takes its request from what is owed; on failure the link fails.\<close>

definition owing :: "int \<Rightarrow> dlink \<Rightarrow> bool" where
  "owing i l \<longleftrightarrow> conn_ok (dl_wire l) \<and> gm_ok (dl_pending l) \<and> (\<forall>x \<in> set (dl_pending l). fst x \<le> dl_nextID l)
     \<and> (c_done (dl_wire l) \<longrightarrow> c_fdClosed (dl_wire l))
     \<and> distinct (dl_asked l) \<and> (\<forall>j \<in> set (dl_asked l). j \<le> dl_lastIn l)
     \<and> add_mset i (owedReplies l) \<subseteq># mset (dl_asked l)
     \<and> (dl_running l \<and> \<not> dl_cause l \<and> \<not> c_fdClosed (dl_wire l) \<longrightarrow> add_mset i (owedReplies l) = mset (dl_asked l))"

lemma owing_fails:
  assumes "owing i l" "calm l l'" "dl_cause l'"
  shows "link_inv l'"
proof -
  have f: "dl_pending l' = dl_pending l" "dl_asked l' = dl_asked l" "owedReplies l' = owedReplies l" "c_done (dl_wire l') = c_done (dl_wire l)"
    and n: "dl_lastIn l \<le> dl_lastIn l'" "dl_nextID l \<le> dl_nextID l'"
    "conn_ok (dl_wire l) \<Longrightarrow> conn_ok (dl_wire l')" "c_fdClosed (dl_wire l) \<Longrightarrow> c_fdClosed (dl_wire l')"
    using assms(2) by (simp_all add: calm_def owedReplies_def)
  have "owedReplies l \<subseteq># mset (dl_asked l)" using assms(1) unfolding owing_def
    by (metis add_mset_add_single mset_subset_eq_add_left subset_mset.trans)
  then show ?thesis using assms(1,3) n order_trans[OF _ n(1)] order_trans[OF _ n(2)] unfolding link_inv_def owing_def f by blast
qed

lemma respond_serves:
  assumes "owing i l" "\<not> dl_cause l" "respond i body l = (l', ok)"
  shows "link_inv (if ok then l' else failWire l') \<and> heldCalls l' = heldCalls l \<and> dl_running l' = dl_running l"
proof -
  have se: "c_inbox (fst (Send f w)) = c_inbox w" "c_done (fst (Send f w)) = c_done w" "c_fdClosed w \<longrightarrow> c_fdClosed (fst (Send f w))"
    "snd (Send f w) \<longrightarrow> c_fdClosed (fst (Send f w)) = c_fdClosed w"
    for f and w :: "(dlEvent, fedout) conn" by (simp_all add: Send_def outboxPut_def CloseConn_def)
  have cm: "calm l (l\<lparr>dl_wire := fst (Send f (dl_wire l))\<rparr>)" for f
    using se conn_ok_ops(2)[of "dl_wire l" f] by (simp add: calm_def inboxOf_def)
  show ?thesis
  proof (cases body)
    case None
    then have "l' = l" "\<not> ok" using assms(3) by (simp_all add: respond_def)
    then show ?thesis using owing_fails[OF assms(1) calm_intros(2)] by (simp add: failWire_def)
  next
    case (Some f)
    let ?l1 = "l\<lparr>dl_wire := fst (Send f (dl_wire l))\<rparr>"
    show ?thesis
    proof (cases ok)
      case True
      then have l': "l' = ?l1\<lparr>dl_answered := i # dl_answered l\<rparr>" and s: "snd (Send f (dl_wire l))"
        using assms(3) Some by (auto simp: respond_def Let_def split_beta split: if_splits)
      have "owedReplies l' = add_mset i (owedReplies l)" by (simp add: l' owedReplies_def inboxOf_def se)
      moreover have "conn_ok (dl_wire l) \<longrightarrow> conn_ok (dl_wire l')" using conn_ok_ops(2)[of "dl_wire l" f] by (simp add: l')
      ultimately have "link_inv l'" using assms(1) s se(2,4)[of f "dl_wire l"] by (simp add: link_inv_def owing_def l')
      then show ?thesis using True by (simp add: l' heldCalls_def inboxOf_def se)
    next
      case False
      then have l': "l' = ?l1" using assms(3) Some by (auto simp: respond_def Let_def split_beta split: if_splits)
      have "link_inv (failWire l')" using owing_fails[OF assms(1) calm_then[OF cm calm_intros(2)], of f] by (simp add: l' failWire_def)
      then show ?thesis using False calm_held[OF cm] by (simp add: l')
    qed
  qed
qed

lemma owing_asked:
  assumes "link_inv l" "dl_lastIn l < i" "dl_running l" "\<not> dl_cause l"
  shows "owing i (l\<lparr>dl_lastIn := i, dl_asked := i # dl_asked l, dl_applied := x\<rparr>)"
proof -
  have "\<forall>j \<in> set (dl_asked l). j < i" using assms(1,2) by (fastforce simp: link_inv_def)
  then have "\<forall>j \<in> set (i # dl_asked l). j \<le> i" "distinct (i # dl_asked l)" using assms(1) by (auto simp: link_inv_def)
  moreover have "owedReplies (l\<lparr>dl_lastIn := i, dl_asked := i # dl_asked l, dl_applied := x\<rparr>) = owedReplies l" by (simp add: owedReplies_def inboxOf_def)
  ultimately show ?thesis using assms(1) by (simp add: owing_def link_inv_def)
qed

lemma seen_inv: "link_inv l \<Longrightarrow> dl_lastIn l < i \<Longrightarrow> link_inv (l\<lparr>dl_lastIn := i\<rparr>)"
  by (rule link_inv_calm) (auto simp: calm_def inboxOf_def)

text \<open>What every branch of a frame leaves: the link's part, and the calls held.\<close>

definition lasting :: "dlink \<Rightarrow> dlink \<times> bool \<Rightarrow> bool" where
  "lasting l x \<longleftrightarrow> link_inv (if snd x then fst x else failWire (fst x)) \<and> heldCalls (fst x) = heldCalls l \<and> dl_running (fst x) = dl_running l"

lemma actOn_lasting:
  assumes "link_inv l" "dl_lastIn l < i" "dl_running l" "\<not> dl_cause l"
  shows "lasting l (actOn E admit roster i act (l\<lparr>dl_lastIn := i\<rparr>))"
proof -
  let ?l = "l\<lparr>dl_lastIn := i\<rparr>"
  have ref: "lasting l (?l, False)" using link_inv_calm[OF seen_inv[OF assms(1,2)] calm_intros(2)]
    by (simp add: lasting_def heldCalls_def inboxOf_def)
  have resp: "lasting l (respond i body (?l\<lparr>dl_asked := i # dl_asked l, dl_applied := x\<rparr>))" for body x
  proof -
    let ?m = "l\<lparr>dl_lastIn := i, dl_asked := i # dl_asked l, dl_applied := x\<rparr>"
    obtain l' ok where r: "respond i body ?m = (l', ok)" by (cases "respond i body ?m")
    have "link_inv (if ok then l' else failWire l') \<and> heldCalls l' = heldCalls ?m \<and> dl_running l' = dl_running ?m"
      by (rule respond_serves[OF owing_asked[OF assms] _ r]) (simp add: assms(4))
    then show ?thesis using r by (cases ok) (simp_all add: lasting_def heldCalls_def inboxOf_def)
  qed
  have adm: "lasting l (?l\<lparr>dl_asked := i # dl_asked l, dl_helpers := i # dl_helpers l\<rparr>, True)"
    using owing_asked[OF assms, of "dl_applied l"] by (simp add: lasting_def link_inv_def owing_def owedReplies_def heldCalls_def inboxOf_def)
  show ?thesis
  proof (cases act)
    case ActRoster
    then show ?thesis using ref resp[of _ "dl_applied l"] by (simp add: actOn_def split: option.split)
  next
    case (ActAnswer v)
    then show ?thesis using resp[of _ "dl_applied l"] by (simp add: actOn_def)
  qed (use ref resp adm in \<open>simp_all add: actOn_def\<close>)
qed

lemma serveTurn_serves:
  assumes "link_inv (setInbox evs l)" "inboxOf l = ev # evs" "dl_running l" "queued_reply ev = None"
  shows "serves (case queued_chan ev of None \<Rightarrow> {#} | Some c \<Rightarrow> {#c#}) (setInbox evs l) (serveTurn E admit roster ev (setInbox evs l))"
proof (cases ev)
  case (DCall call)
  then show ?thesis using callHub_serves[OF assms(1)] by (simp add: serveTurn_def)
next
  case (DReply i v)
  then show ?thesis using assms(4) by simp
next
  case DClosed
  let ?l = "setInbox evs l"
  let ?l' = "?l\<lparr>dl_pending := [], dl_running := False, dl_wire := CloseConn (dl_wire ?l)\<rparr>"
  have cl: "c_inbox (CloseConn w) = c_inbox w" for w :: "(dlEvent, fedout) conn" by (simp add: CloseConn_def)
  have "link_inv ?l'" using assms(1) conn_ok_ops(5)[of "dl_wire ?l"] by (simp add: link_inv_def owedReplies_def inboxOf_def cl) (simp add: CloseConn_def)
  moreover have "map fst (settleCalls m) = map (\<lambda>x. pc_reply (snd x)) m" for m by (simp add: settleCalls_def)
  then have "heldCalls ?l' + mset (map fst (settleCalls (dl_pending ?l))) = heldCalls ?l" by (simp add: heldCalls_def inboxOf_def cl)
  ultimately show ?thesis using DClosed by (simp add: serveTurn_def serves_def)
next
  case (DFrame frame bad)
  let ?l = "setInbox evs l"
  have run: "dl_running ?l" using assms(3) by (simp add: setInbox_def)
  have fail: "serves {#} ?l (failWire ?l, [])" using link_inv_calm[OF assms(1) calm_intros(2)] calm_held[OF calm_intros(2)[of ?l]]
    by (simp add: serves_def failWire_def shutWire_def)
  have same: "serves {#} ?l (?l, [])" using assms(1) by (simp add: serves_def)
  have resp: "serves {#} ?l (?l\<lparr>dl_pending := gm_del i (dl_pending ?l)\<rparr>, [(pc_reply call, reply)])" if "gm_get (dl_pending ?l) i = Some call" for i call reply
  proof -
    have ok: "gm_ok (dl_pending ?l)" using assms(1) by (simp add: link_inv_def)
    note ms = mset_gm_del[OF ok that]
    have "set (gm_del i (dl_pending ?l)) \<subseteq> set (dl_pending ?l)" using ms by (metis set_mset_mset set_mset_add_mset_insert subset_insertI)
    then have "link_inv (?l\<lparr>dl_pending := gm_del i (dl_pending ?l)\<rparr>)"
      using assms(1) ok by (auto simp: link_inv_def owedReplies_def inboxOf_def)
    moreover have "heldCalls (?l\<lparr>dl_pending := gm_del i (dl_pending ?l)\<rparr>) + {#pc_reply call#} = heldCalls ?l"
      using arg_cong[OF ms, of "image_mset (\<lambda>x. pc_reply (snd x))"] by (simp add: heldCalls_def inboxOf_def)
    ultimately show ?thesis by (simp add: serves_def)
  qed
  define x where "x = actOn E admit roster (ff_ID frame) (daemonRequest E (dl_host ?l) (dl_alpn ?l) (ff_Method frame) (ff_Params frame))
    (?l\<lparr>dl_lastIn := ff_ID frame\<rparr>)"
  have act: "serves {#} ?l (if snd x then fst x else failWire (fst x), [])" if "dl_lastIn ?l < ff_ID frame" "\<not> dl_cause ?l"
  proof -
    have "lasting ?l x" unfolding x_def by (rule actOn_lasting[OF assms(1) that(1) run that(2)])
    then show ?thesis using calm_held[OF calm_intros(2)[of "fst x"]] by (simp add: lasting_def serves_def failWire_def shutWire_def)
  qed
  have e: "serveTurn E admit roster ev ?l = (if dl_cause ?l then (?l, [])
      else let (l1, sends, ok) = daemonFrame E admit roster frame bad ?l in (if ok then l1 else failWire l1, sends))"
    by (simp add: DFrame serveTurn_def)
  have d: "daemonFrame E admit roster frame bad ?l =
     (if bad then (?l, [], False)
      else if \<not> ff_Request frame then
        (case gm_get (dl_pending ?l) (ff_ID frame) of
           None \<Rightarrow> (?l, [], False)
         | Some call \<Rightarrow>
             (case decodePendingReply E call frame of
                None \<Rightarrow> (?l, [], False)
              | Some reply \<Rightarrow> (?l\<lparr>dl_pending := gm_del (ff_ID frame) (dl_pending ?l)\<rparr>, [(pc_reply call, reply)], True)))
      else if ff_ID frame \<le> dl_lastIn ?l then (?l, [], False)
      else if ff_Method frame \<notin> {rosterMethod, ownerEndMethod, hostEndMethod, forwardMethod} then (?l, [], False)
      else (fst x, [], snd x))"
    unfolding daemonFrame_def x_def by (simp add: split_beta)
  have q: "queued_chan ev = None" by (simp add: DFrame)
  have s: "serves {#} ?l (serveTurn E admit roster ev ?l)"
  proof (cases "dl_cause ?l")
    case True
    then show ?thesis using same unfolding e by simp
  next
    case False
    then show ?thesis using fail resp act unfolding e d by (auto split: option.split)
  qed
  show ?thesis using s unfolding q by simp
qed

section \<open>Every step keeps the invariant\<close>

lemma setInbox_simps [simp]:
  "inboxOf (setInbox evs l) = evs" "dl_pending (setInbox evs l) = dl_pending l" "dl_helpers (setInbox evs l) = dl_helpers l"
  "dl_answered (setInbox evs l) = dl_answered l" "dl_asked (setInbox evs l) = dl_asked l" "dl_running (setInbox evs l) = dl_running l"
  "dl_cause (setInbox evs l) = dl_cause l" "dl_lastIn (setInbox evs l) = dl_lastIn l" "dl_nextID (setInbox evs l) = dl_nextID l"
  "c_done (dl_wire (setInbox evs l)) = c_done (dl_wire l)" "c_fdClosed (dl_wire (setInbox evs l)) = c_fdClosed (dl_wire l)"
  by (simp_all add: setInbox_def inboxOf_def)

lemma conn_setInbox: "conn_ok (dl_wire l) \<Longrightarrow> length evs \<le> OutboxSize \<Longrightarrow> conn_ok (dl_wire (setInbox evs l))"
  by (simp add: setInbox_def conn_ok_def)

lemma inbox_length: "link_inv l \<Longrightarrow> length (inboxOf l) \<le> OutboxSize"
  by (simp add: link_inv_def conn_ok_def inboxOf_def)

lemma link_inv_pop:
  assumes "link_inv l" "inboxOf l = ev # evs" "queued_reply ev = None"
  shows "link_inv (setInbox evs l)"
  using assms conn_setInbox[of l evs] inbox_length[OF assms(1)] by (simp add: link_inv_def owedReplies_def)

lemma link_inv_push:
  assumes "link_inv l" "length (inboxOf l) < OutboxSize" "queued_reply ev = None"
  shows "link_inv (setInbox (inboxOf l @ [ev]) l)"
  using assms conn_setInbox[of l "inboxOf l @ [ev]"] by (simp add: link_inv_def owedReplies_def)

lemma reply_serves:
  assumes "link_inv l" "inboxOf l = DReply i v # evs"
  shows "serves {#} (setInbox evs l) (serveTurn E admit roster (DReply i v) (setInbox evs l))"
proof -
  let ?l = "setInbox evs l"
  have o: "owing i ?l"
    using assms conn_setInbox[of l evs] inbox_length[OF assms(1)] by (simp add: link_inv_def owing_def owedReplies_def)
  show ?thesis
  proof (cases "dl_cause ?l")
    case True
    then have "link_inv ?l" by (intro owing_fails[OF o calm_same_link]) simp
    then show ?thesis using True by (simp add: serveTurn_def serves_def)
  next
    case False
    obtain l' ok where r: "respond i (responseBytes E i v True) ?l = (l', ok)" by (cases "respond i (responseBytes E i v True) ?l")
    from respond_serves[OF o False r] have "link_inv (if ok then l' else failWire l')" "heldCalls l' = heldCalls ?l" "dl_running l' = dl_running ?l" by blast+
    then show ?thesis using False r calm_held[OF calm_intros(2)[of l']] calm_intros(2)[of l'] by (simp add: serveTurn_def serves_def calm_def)
  qed
qed

lemma turn_serves:
  assumes "link_inv l" "inboxOf l = ev # evs" "dl_running l" "serveTurn E admit roster ev (setInbox evs l) = (l', sends)"
  shows "link_inv l'" "heldCalls l' + mset (map fst sends) = heldCalls l" "dl_running l' \<or> dl_pending l' = []"
proof -
  let ?M = "case queued_chan ev of None \<Rightarrow> {#} | Some c \<Rightarrow> {#c#}"
  have "serves ?M (setInbox evs l) (l', sends)"
  proof (cases ev)
    case (DReply i v)
    with reply_serves[OF assms(1), of i v evs E admit roster] assms(2,4) show ?thesis by simp
  qed (use serveTurn_serves[OF link_inv_pop[OF assms(1,2)] assms(2,3), of E admit roster] assms(4) in auto)
  moreover have "?M + heldCalls (setInbox evs l) = heldCalls l" using assms(2) by (simp add: heldCalls_def split: option.split)
  ultimately show "link_inv l'" "heldCalls l' + mset (map fst sends) = heldCalls l" "dl_running l' \<or> dl_pending l' = []"
    using assms(3) by (auto simp: serves_def)
qed

lemma putReply_length: "length (fold putReply xs sent c) = length (sent c) + count (mset (map fst xs)) c"
  by (induction xs arbitrary: sent) (simp_all add: putReply_def)

lemma inv_calm_step:
  assumes "serve_inv s" "calm (ds_link s) l"
  shows "serve_inv (s\<lparr>ds_link := l\<rparr>)"
  using assms link_inv_calm[OF _ assms(2)] calm_held[OF assms(2)] by (simp add: serve_inv_def calm_def)

lemma inv_push_step:
  assumes "serve_inv s" "length (inboxOf (ds_link s)) < OutboxSize" "queued_reply ev = None" "queued_chan ev = None"
  shows "serve_inv (s\<lparr>ds_link := setInbox (inboxOf (ds_link s) @ [ev]) (ds_link s)\<rparr>)"
  using assms link_inv_push[OF _ assms(2,3)] by (simp add: serve_inv_def heldCalls_def)

lemma helper_inv:
  assumes "serve_inv s" "i \<in> set (dl_helpers (ds_link s))"
  shows "serve_inv (s\<lparr>ds_link := helperPosts seen i v (ds_link s)\<rparr>)"
proof -
  let ?l = "ds_link s"
  have i: "link_inv ?l" using assms(1) by (simp add: serve_inv_def)
  have h: "mset (dl_helpers ?l) = add_mset i (mset (remove1 i (dl_helpers ?l)))" using assms(2) by simp
  obtain w0 where w0: "dl_wire ?l = w0" by simp
  have "helperPosts seen i v ?l = setInbox (inboxOf ?l @ [DReply i v]) (?l\<lparr>dl_helpers := remove1 i (dl_helpers ?l)\<rparr>)
        \<and> length (inboxOf ?l) < OutboxSize
      \<or> helperPosts seen i v ?l = shutWire (?l\<lparr>dl_helpers := remove1 i (dl_helpers ?l)\<rparr>)"
    by (cases ?l, cases "dl_wire ?l") (simp add: helperPosts_def Post_def setInbox_def inboxOf_def Let_def)
  then have "link_inv (helperPosts seen i v ?l) \<and> heldCalls (helperPosts seen i v ?l) = heldCalls ?l
      \<and> dl_running (helperPosts seen i v ?l) = dl_running ?l \<and> dl_pending (helperPosts seen i v ?l) = dl_pending ?l"
  proof
    let ?m = "setInbox (inboxOf ?l @ [DReply i v]) (?l\<lparr>dl_helpers := remove1 i (dl_helpers ?l)\<rparr>)"
    assume a: "helperPosts seen i v ?l = ?m \<and> length (inboxOf ?l) < OutboxSize"
    have "owedReplies ?m = owedReplies ?l" using h by (simp add: owedReplies_def)
    moreover have "conn_ok (dl_wire ?m)" using conn_setInbox[of ?l "inboxOf ?l @ [DReply i v]"] i a by (simp add: link_inv_def setInbox_def)
    ultimately have "link_inv ?m" using i by (simp add: link_inv_def)
    then show ?thesis using a by (simp add: heldCalls_def)
  next
    let ?m = "?l\<lparr>dl_helpers := remove1 i (dl_helpers ?l)\<rparr>"
    assume a: "helperPosts seen i v ?l = shutWire ?m"
    have "owedReplies (shutWire ?m) \<subseteq># owedReplies ?l" using calm_intros(1)[of ?m] h by (simp add: owedReplies_def calm_def inboxOf_def)
    moreover have "conn_ok (dl_wire (shutWire ?m))" using i conn_ok_ops(5)[of "dl_wire ?l"] by (simp add: link_inv_def shutWire_def)
    moreover have "c_fdClosed (dl_wire (shutWire ?m))" by (simp add: shutWire_def CloseConn_def)
    moreover have "owedReplies ?l \<subseteq># mset (dl_asked ?l)" using i by (simp add: link_inv_def)
    ultimately have "owedReplies (shutWire ?m) \<subseteq># mset (dl_asked ?l)" "conn_ok (dl_wire (shutWire ?m))" "c_fdClosed (dl_wire (shutWire ?m))"
      using subset_mset.trans by blast+
    then have "link_inv (shutWire ?m)" using i by (simp add: link_inv_def shutWire_def)
    then show ?thesis using a calm_held[OF calm_intros(1)[of ?m]] by (simp add: heldCalls_def inboxOf_def shutWire_def)
  qed
  then show ?thesis using assms(1) by (simp add: serve_inv_def)
qed

lemma inv_turn_step:
  assumes "serve_inv s" "dl_running (ds_link s)" "inboxOf (ds_link s) = ev # evs"
    "serveTurn E admit roster ev (setInbox evs (ds_link s)) = (l, sends)"
  shows "serve_inv (s\<lparr>ds_link := l, ds_sent := fold putReply sends (ds_sent s)\<rparr>)"
proof -
  have "link_inv (ds_link s)" using assms(1) by (simp add: serve_inv_def)
  note t = turn_serves[OF this assms(3,2,4)]
  have "count (heldCalls l) c + length (fold putReply sends (ds_sent s) c) = count (heldCalls (ds_link s)) c + length (ds_sent s c)" for c
    unfolding t(2)[symmetric] putReply_length by simp
  then show ?thesis using assms(1,2) t by (auto simp: serve_inv_def)
qed

lemma inv_finish_step:
  assumes "serve_inv s" "\<not> dl_running (ds_link s)"
  shows "serve_inv (s\<lparr>ds_attached := False, ds_link := setInbox [] (ds_link s),
     ds_sent := fold putReply (settleLinkQueue (inboxOf (ds_link s))) (ds_sent s)\<rparr>)"
proof -
  let ?l = "ds_link s"
  have p: "dl_pending ?l = []" using assms by (simp add: serve_inv_def)
  have i: "link_inv ?l" using assms(1) by (simp add: serve_inv_def)
  have o: "owedReplies (setInbox [] ?l) \<subseteq># owedReplies ?l" by (simp add: owedReplies_def)
  moreover have "owedReplies ?l \<subseteq># mset (dl_asked ?l)" using i by (simp add: link_inv_def)
  ultimately have "owedReplies (setInbox [] ?l) \<subseteq># mset (dl_asked ?l)" using subset_mset.trans by blast
  then have "link_inv (setInbox [] ?l)" using i assms(2) conn_setInbox[of ?l "[]"] by (simp add: link_inv_def)
  moreover have "map fst (settleLinkQueue q) = List.map_filter queued_chan q" for q by (simp add: settleLinkQueue_def comp_def)
  then have "mset (map fst (settleLinkQueue (inboxOf ?l))) = heldCalls ?l" "heldCalls (setInbox [] ?l) = {#}"
    using p by (simp_all add: heldCalls_def)
  ultimately show ?thesis using assms p by (simp add: serve_inv_def putReply_length add.commute)
qed

lemma serve_step_inv:
  assumes "serve_inv s" "serve_step E admit s t"
  shows "serve_inv t"
  using assms(2)
proof (cases rule: serve_step.cases)
  case (post call)
  have "link_inv (setInbox (inboxOf (ds_link s) @ [DCall call]) (ds_link s))"
    using link_inv_push[of "ds_link s" "DCall call"] assms(1) post by (simp add: serve_inv_def)
  moreover have "heldCalls (setInbox (inboxOf (ds_link s) @ [DCall call]) (ds_link s)) = add_mset (call_chan call) (heldCalls (ds_link s))"
    by (simp add: heldCalls_def)
  ultimately show ?thesis using assms(1) post by (auto simp: serve_inv_def)
next
  case (turn ev evs roster l sends)
  then show ?thesis using inv_turn_step[OF assms(1)] by simp
next
  case cancel
  then show ?thesis using inv_calm_step[OF assms(1) calm_intros(2)] by simp
next
  case (reader_frame frame bad)
  then show ?thesis using inv_push_step[OF assms(1), of "DFrame frame bad"] by simp
next
  case reader_fails
  let ?l = "ds_link s"
  have "conn_ok (dl_wire ?l) \<longrightarrow> conn_ok (readFailed (dl_wire ?l))" using conn_ok_ops(7) by blast
  then have "link_inv (?l\<lparr>dl_wire := readFailed (dl_wire ?l)\<rparr>)"
    using assms(1) by (simp add: serve_inv_def link_inv_def owedReplies_def inboxOf_def) (simp add: readFailed_def CloseConn_def)
  moreover have "heldCalls (?l\<lparr>dl_wire := readFailed (dl_wire ?l)\<rparr>) = heldCalls ?l"
    by (simp add: heldCalls_def inboxOf_def readFailed_def CloseConn_def)
  ultimately show ?thesis using assms(1) reader_fails by (simp add: serve_inv_def)
next
  case reader_closed
  let ?l = "setInbox (inboxOf (ds_link s) @ [DClosed]) (ds_link s)"
  have i: "serve_inv (s\<lparr>ds_link := ?l\<rparr>)" using inv_push_step[OF assms(1), of DClosed] reader_closed by simp
  have "calm ?l (?l\<lparr>dl_readerDone := True\<rparr>)" by (simp add: calm_def inboxOf_def)
  with inv_calm_step[OF i] reader_closed show ?thesis by simp
next
  case writer
  let ?l = "ds_link s"
  have "c_inbox (fst (writeStep w)) = c_inbox w" "c_done (fst (writeStep w)) = c_done w" "c_fdClosed w \<longrightarrow> c_fdClosed (fst (writeStep w))"
    for w :: "(dlEvent, fedout) conn" by (simp_all add: writeStep_def CloseConn_def split: list.split)
  then have "calm ?l (?l\<lparr>dl_wire := fst (writeStep (dl_wire ?l))\<rparr>)" using conn_ok_ops(6)[of "dl_wire ?l"] by (simp add: calm_def inboxOf_def)
  with inv_calm_step[OF assms(1)] writer show ?thesis by simp
next
  case (helper_reply i seen v)
  then show ?thesis using helper_inv[OF assms(1)] by simp
next
  case (helper_gone i)
  let ?l = "ds_link s"
  have sub: "mset (remove1 i (dl_helpers ?l)) \<subseteq># mset (dl_helpers ?l)" by simp
  have l: "link_inv ?l" using assms(1) by (simp add: serve_inv_def)
  have "owedReplies (?l\<lparr>dl_helpers := remove1 i (dl_helpers ?l)\<rparr>) \<subseteq># owedReplies ?l" using sub by (simp add: owedReplies_def inboxOf_def)
  moreover have "owedReplies ?l \<subseteq># mset (dl_asked ?l)" using l by (simp add: link_inv_def)
  ultimately have "owedReplies (?l\<lparr>dl_helpers := remove1 i (dl_helpers ?l)\<rparr>) \<subseteq># mset (dl_asked ?l)" using subset_mset.trans by blast
  then have "link_inv (?l\<lparr>dl_helpers := remove1 i (dl_helpers ?l)\<rparr>)" using l helper_gone by (simp add: link_inv_def)
  then show ?thesis using assms(1) helper_gone by (simp add: serve_inv_def heldCalls_def inboxOf_def)
next
  case finish
  then show ?thesis using inv_finish_step[OF assms(1)] by simp
qed

lemma start_serves: "serve_inv (startServe host alpn)"
  using conn_ok_start
  by (simp add: serve_inv_def link_inv_def startServe_def newLink_def heldCalls_def owedReplies_def inboxOf_def) (simp add: StartConn_def)

interpretation serve_sys: transition_system "\<lambda>s. s = startServe host alpn" "serve_step E admit" serve_inv for host alpn E admit
proof unfold_locales
  show "s = startServe host alpn \<Longrightarrow> serve_inv s" for s using start_serves by simp
  show "serve_inv s \<Longrightarrow> serve_step E admit s t \<Longrightarrow> serve_inv t" for s t by (rule serve_step_inv)
qed

lemma count_list_distinct: "distinct xs \<Longrightarrow> count_list xs c = (if c \<in> set xs then 1 else 0)"
  by (induction xs) auto

text \<open>
  C9: a call the daemon posts to its hub link is answered at most once, and exactly once by the
  time the link is gone, whatever the hub sends, whichever of its own goroutines are still at work
  and wherever in the queue the call was when the connection ended. A request of the hub is
  answered at most once, and only one that was asked; while the connection is open every request
  it admitted is answered, queued or with its goroutine.
\<close>

theorem daemon_calls_answered:
  assumes "reach (\<lambda>s. s = startServe host alpn) (serve_step E admit) s"
  shows "length (ds_sent s c) \<le> 1 \<and> (c \<notin> set (ds_posted s) \<longrightarrow> ds_sent s c = [])
    \<and> (c \<in> set (ds_posted s) \<and> \<not> ds_attached s \<longrightarrow> (\<exists>v. ds_sent s c = [v]))
    \<and> (let l = ds_link s in distinct (dl_asked l) \<and> mset (dl_answered l) \<subseteq># mset (dl_asked l)
       \<and> (dl_running l \<and> \<not> dl_cause l \<and> \<not> c_fdClosed (dl_wire l) \<longrightarrow> owedReplies l = mset (dl_asked l)))"
proof -
  have i: "serve_inv s" by (rule serve_sys.reach_inv[OF assms])
  have d: "distinct (ds_posted s)" and e: "count (heldCalls (ds_link s)) c + length (ds_sent s c) = count_list (ds_posted s) c"
    using i by (simp_all add: serve_inv_def)
  have one: "count_list (ds_posted s) c = (if c \<in> set (ds_posted s) then 1 else 0)"
    using d by (rule count_list_distinct)
  have a: "length (ds_sent s c) \<le> 1" "c \<notin> set (ds_posted s) \<longrightarrow> ds_sent s c = []" using e one by (simp_all split: if_splits)
  have b: "\<exists>v. ds_sent s c = [v]" if "c \<in> set (ds_posted s)" "\<not> ds_attached s"
  proof -
    have "heldCalls (ds_link s) = {#}" using i that(2) by (simp add: serve_inv_def)
    then have "length (ds_sent s c) = 1" using e one that(1) by simp
    then show ?thesis by (metis One_nat_def length_0_conv length_Suc_conv)
  qed
  have l: "link_inv (ds_link s)" using i by (simp add: serve_inv_def)
  have "mset (dl_answered (ds_link s)) \<subseteq># owedReplies (ds_link s)" by (simp add: owedReplies_def)
  moreover have "owedReplies (ds_link s) \<subseteq># mset (dl_asked (ds_link s))" using l by (simp add: link_inv_def)
  ultimately have "mset (dl_answered (ds_link s)) \<subseteq># mset (dl_asked (ds_link s))" using subset_mset.trans by blast
  then show ?thesis using a b l by (simp add: link_inv_def Let_def)
qed

theorem daemon_calls_answered_witness:
  "\<exists>s. reach (\<lambda>s. s = startServe ''a'' []) (serve_step plainEnv (\<lambda>c r. True)) s \<and> 3 \<in> set (ds_posted s) \<and> \<not> ds_attached s \<and> (\<exists>v. ds_sent s 3 = [v])"
proof -
  let ?E = plainEnv
  let ?reach = "reach (\<lambda>s. s = startServe ''a'' []) (serve_step ?E (\<lambda>c r. True))"
  let ?w = "StartConn\<lparr>c_done := True, c_fdClosed := True\<rparr> :: (dlEvent, fedout) conn"
  let ?l = "\<lambda>evs. (newLink ''a'' [])\<lparr>dl_wire := ?w\<lparr>c_inbox := evs\<rparr>, dl_readerDone := True\<rparr>"
  let ?s = "\<lambda>l p. \<lparr>ds_link = l, ds_attached = True, ds_posted = p, ds_sent = (\<lambda>_. [])\<rparr>"
  have d: "newLink ''a'' [] = (newLink ''a'' [])\<lparr>dl_wire := StartConn\<rparr>" by (simp add: newLink_def)
  have "?reach (startServe ''a'' [])" by (rule reach_init) simp
  then have "?reach (?s ((newLink ''a'' [])\<lparr>dl_wire := ?w\<rparr>) [])"
    by (rule reach_step) (use serve_step.reader_fails[of "startServe ''a'' []" ?E "\<lambda>c r. True"] in
      \<open>simp add: startServe_def newLink_def readFailed_def CloseConn_def StartConn_def\<close>)
  then have "?reach (?s (?l [DClosed]) [])"
    by (rule reach_step) (use serve_step.reader_closed[of "?s ((newLink ''a'' [])\<lparr>dl_wire := ?w\<rparr>) []" ?E "\<lambda>c r. True"] in
      \<open>simp add: newLink_def StartConn_def inboxOf_def setInbox_def\<close>)
  then have "?reach (?s (?l [DClosed, DCall (HostsCall 3)]) [3])"
    by (rule reach_step) (use serve_step.post[of "?s (?l [DClosed]) []" "HostsCall 3" ?E "\<lambda>c r. True"] in
      \<open>simp add: newLink_def StartConn_def inboxOf_def setInbox_def\<close>)
  then have r: "?reach (?s ((?l [DCall (HostsCall 3)])\<lparr>dl_running := False\<rparr>) [3])"
    by (rule reach_step) (use serve_step.turn[of "?s (?l [DClosed, DCall (HostsCall 3)]) [3]" DClosed "[DCall (HostsCall 3)]" ?E "\<lambda>c r. True" None] in
      \<open>simp add: newLink_def StartConn_def inboxOf_def setInbox_def serveTurn_def settleCalls_def CloseConn_def\<close>)
  define t where "t = (?s ((?l [DCall (HostsCall 3)])\<lparr>dl_running := False\<rparr>) [3])\<lparr>ds_attached := False, ds_link := setInbox [] ((?l [DCall (HostsCall 3)])\<lparr>dl_running := False\<rparr>),
     ds_sent := fold putReply (settleLinkQueue (inboxOf ((?l [DCall (HostsCall 3)])\<lparr>dl_running := False\<rparr>))) (\<lambda>_. [])\<rparr>"
  have rt: "?reach t" by (rule reach_step[OF r])
      (use serve_step.finish[of "?s ((?l [DCall (HostsCall 3)])\<lparr>dl_running := False\<rparr>) [3]" ?E "\<lambda>c r. True"] in \<open>simp add: t_def newLink_def\<close>)
  from daemon_calls_answered[OF rt, of 3] have "\<exists>v. ds_sent t 3 = [v]" by (simp add: t_def)
  then show ?thesis using rt by (intro exI[of _ t]) (simp add: t_def)
qed

end
