(* ===== verification/Federation.thy ===== *)
theory Federation
  imports HubLinks DaemonLink
begin

text \<open>
  The hub and the daemons together: every request the hub sends to a host is one the daemon of that
  host accepts, and a caller it hands to a daemon belongs to the host whose link asked.
\<close>

section \<open>Requests survive the hub\<close>

lemma validCaller_attachment [simp]: "validCaller hi (c\<lparr>fc_SourceAttachment := a\<rparr>) host = validCaller hi c host"
  by (simp add: validCaller_def)

definition relayed :: "gostring \<Rightarrow> bool \<Rightarrow> Forward \<Rightarrow> Forward" where
  "relayed attachment trace v =
     v\<lparr>fw_From := (fw_From v)\<lparr>fc_SourceAttachment := attachment\<rparr>, fw_Request := (fw_Request v)\<lparr>pr_Trace := pr_Trace (fw_Request v) \<and> trace\<rparr>\<rparr>"

lemma fedTargetHost_trace [simp]: "fedTargetHost (r\<lparr>pr_Trace := b\<rparr>) = fedTargetHost r"
  by (simp add: fedTargetHost_def)

lemma decode_relayed:
  assumes "decodeForward hi params source = Some (v, host)"
  shows "decodeForward hi (encodeForward (relayed a b v)) source = Some (relayed a b v, host)"
proof -
  obtain raw where p: "params = FPForward raw" and v: "rf_value raw = v"
    and c: "validCaller hi (fw_From v) source" "(pr_Method (fw_Request v) = ''message.send'') = (pr_MessageID (fw_Request v) \<noteq> [])"
    and t: "validateTraceRequest (fw_Request v) raw" "validateCompletionRequest (fw_Request v) raw"
    and h: "fedTargetHost (fw_Request v) = Some host" "host \<noteq> source"
    using assms by (auto simp: decodeForward_def Let_def split: fedparams.splits if_splits option.splits)
  define raw' where "raw' = \<lparr>rf_value = relayed a b v, rf_name = (fc_Name (fw_From v) \<noteq> []),
    rf_trace = (if pr_Trace (fw_Request v) \<and> b then Some (Some True) else None),
    rf_copyNull = (if pr_TraceCopy (fw_Request v) \<noteq> None then Some False else None),
    rf_completion = (if pr_Completion (fw_Request v) then Some (Some True) else None)\<rparr>"
  have r': "encodeForward (relayed a b v) = FPForward raw'" by (simp add: encodeForward_def relayed_def raw'_def Let_def)
  have n: "rf_value raw' = relayed a b v" "rf_name raw' = (fc_Name (fw_From v) \<noteq> [])"
    "rf_trace raw' = (if pr_Trace (fw_Request v) \<and> b then Some (Some True) else None)"
    "rf_copyNull raw' = (if pr_TraceCopy (fw_Request v) \<noteq> None then Some False else None)"
    "rf_completion raw' = (if pr_Completion (fw_Request v) then Some (Some True) else None)"
    by (simp_all add: raw'_def)
  let ?r = "fw_Request (relayed a b v)"
  have f: "?r = (fw_Request v)\<lparr>pr_Trace := pr_Trace (fw_Request v) \<and> b\<rparr>" "fw_From (relayed a b v) = (fw_From v)\<lparr>fc_SourceAttachment := a\<rparr>"
    by (simp_all add: relayed_def)
  have "validateTraceRequest ?r raw'"
    using t(1) unfolding validateTraceRequest_def f n by (auto split: option.splits if_splits)
  moreover have "validateCompletionRequest ?r raw'"
    using t(2) unfolding validateCompletionRequest_def f n by (auto split: option.splits if_splits)
  moreover have "fedTargetHost ?r = Some host" using h(1) by (simp add: f)
  ultimately show ?thesis using c h(2) n f unfolding r' decodeForward_def by (simp add: Let_def)
qed

lemma source_of:
  assumes "decodeForward hi (encodeForward v) source = Some (v, host)" "fedValidHost source"
  shows "sourceHost (encodeForward v) = Some source" "ownedPart hi (fc_SessionID (fw_From v)) source False"
proof -
  show o: "ownedPart hi (fc_SessionID (fw_From v)) source False"
    using assms(1) by (auto simp: decodeForward_def encodeForward_def validCaller_def Let_def split: if_splits option.splits)
  have h: "validHost source" "source \<noteq> ''local''" using assms(2) by (simp_all add: fedValidHost_def validHost_validToken)
  then obtain p where "fc_SessionID (fw_From v) = qualify p source" "validIDPart hi p" using o ownedPart_iff[OF h(1)] by auto
  moreover from this have "p \<noteq> []" using validIDPart_empty by auto
  ultimately show "sourceHost (encodeForward v) = Some source"
    using suffix_qualify[OF h] by (simp add: sourceHost_def encodeForward_def Let_def)
qed

section \<open>What is on its way to a host\<close>

text \<open>A forward for link \<open>q\<close>, of a caller of the host whose link has the attachment it names.\<close>

definition genuine :: "fedEnv \<Rightarrow> hub \<Rightarrow> ptr \<Rightarrow> Forward \<Rightarrow> bool" where
  "genuine E h q v \<longleftrightarrow> (\<exists>p < u_nlink h. fedValidHost (hl_host (u_link h p))
     \<and> fc_SourceAttachment (fw_From v) = hl_attachment (u_link h p)
     \<and> decodeForward (ev_hi E) (encodeForward v) (hl_host (u_link h p)) = Some (v, hl_host (u_link h q)))"

definition event_ok :: "fedEnv \<Rightarrow> hub \<Rightarrow> ptr \<Rightarrow> linkEvent \<Rightarrow> bool" where
  "event_ok E h q ev = (case ev of
     HForward v ch \<Rightarrow> genuine E h q v
   | HLifetime m params ch \<Rightarrow> (m = ownerEndMethod \<or> m = hostEndMethod) \<and> lifetimeOf E (hl_host (u_link h q)) m params \<noteq> None
   | _ \<Rightarrow> True)"

definition out_ok :: "fedEnv \<Rightarrow> hub \<Rightarrow> ptr \<Rightarrow> fedout \<Rightarrow> bool" where
  "out_ok E h q f = (case f of
     FRequest i m params \<Rightarrow>
       (\<exists>v. m = forwardMethod \<and> params = encodeForward v \<and> genuine E h q v)
       \<or> (m = ownerEndMethod \<or> m = hostEndMethod) \<and> lifetimeOf E (hl_host (u_link h q)) m params \<noteq> None
       \<or> m = rosterMethod \<and> params = FPEmpty
   | _ \<Rightarrow> True)"

definition asked_ok :: "fedEnv \<Rightarrow> hub \<Rightarrow> registryEvent \<Rightarrow> bool" where
  "asked_ok E h ev = (case ev of
     RForward p call \<Rightarrow> decodeForward (ev_hi E) (encodeForward (if_value call)) (hl_host (u_link h p)) = Some (if_value call, if_host call)
   | ROwnerEnd p call \<Rightarrow> ownedPart (ev_hi E) (oe_SessionID (io_Value call)) (hl_host (u_link h p)) False \<and> oe_Lifetime (io_Value call) \<noteq> []
   | _ \<Rightarrow> True)"

definition traffic_ok :: "fedEnv \<Rightarrow> hub \<Rightarrow> bool" where
  "traffic_ok E h \<longleftrightarrow>
     (\<forall>p < u_nlink h. fedValidHost (hl_host (u_link h p)) \<and> hl_attachment (u_link h p) \<noteq> [])
     \<and> (\<forall>q. (\<forall>ev \<in> set (c_inbox (hl_wire (u_link h q))). event_ok E h q ev) \<and> (\<forall>f \<in> set (c_outbox (hl_wire (u_link h q))). out_ok E h q f))
     \<and> (\<forall>ev \<in> set (u_inbox h). asked_ok E h ev)"

text \<open>Steps that only add traffic that is in order.\<close>

definition same_ids :: "hub \<Rightarrow> hub \<Rightarrow> bool" where
  "same_ids h h' \<longleftrightarrow> u_nlink h' = u_nlink h
     \<and> (\<forall>p. hl_host (u_link h' p) = hl_host (u_link h p) \<and> hl_attachment (u_link h' p) = hl_attachment (u_link h p))"

definition grows :: "fedEnv \<Rightarrow> hub \<Rightarrow> hub \<Rightarrow> bool" where
  "grows E h h' \<longleftrightarrow> same_ids h h'
     \<and> (\<forall>q. (\<forall>ev \<in> set (c_inbox (hl_wire (u_link h' q))). ev \<in> set (c_inbox (hl_wire (u_link h q))) \<or> event_ok E h q ev)
          \<and> (\<forall>f \<in> set (c_outbox (hl_wire (u_link h' q))). f \<in> set (c_outbox (hl_wire (u_link h q))) \<or> out_ok E h q f))
     \<and> (\<forall>ev \<in> set (u_inbox h'). ev \<in> set (u_inbox h) \<or> asked_ok E h ev)"

lemma same_ids_ok:
  assumes "same_ids h h'"
  shows "event_ok E h' = event_ok E h" "out_ok E h' = out_ok E h" "asked_ok E h' = asked_ok E h" "genuine E h' = genuine E h"
proof -
  have f: "u_nlink h' = u_nlink h" "hl_host (u_link h' p) = hl_host (u_link h p)" "hl_attachment (u_link h' p) = hl_attachment (u_link h p)" for p
    using assms by (simp_all add: same_ids_def)
  show g: "genuine E h' = genuine E h" by (intro ext) (simp add: genuine_def f)
  show "event_ok E h' = event_ok E h" by (intro ext) (simp add: event_ok_def f g split: linkEvent.split)
  show "out_ok E h' = out_ok E h" by (intro ext) (simp add: out_ok_def f g split: fedout.split)
  show "asked_ok E h' = asked_ok E h" by (intro ext) (simp add: asked_ok_def f split: registryEvent.split)
qed

lemma grows_refl [simp]: "grows E h h"
  by (simp add: grows_def same_ids_def)

lemma grows_trans:
  assumes "grows E a b" "grows E b c"
  shows "grows E a c"
proof -
  have s: "same_ids a b" "same_ids a c" using assms by (auto simp: grows_def same_ids_def)
  show ?thesis using assms s(2) unfolding grows_def same_ids_ok[OF s(1)] by blast
qed

lemma traffic_grows:
  assumes "traffic_ok E h" "grows E h h'"
  shows "traffic_ok E h'"
proof -
  have s: "same_ids h h'" using assms(2) by (simp add: grows_def)
  have "\<forall>p < u_nlink h'. fedValidHost (hl_host (u_link h' p)) \<and> hl_attachment (u_link h' p) \<noteq> []"
    using assms(1) s by (simp add: traffic_ok_def same_ids_def)
  then show ?thesis using assms unfolding traffic_ok_def grows_def same_ids_ok[OF s] by blast
qed

section \<open>The registry\<close>

lemma grows_fields [simp]:
  "grows E h (h\<lparr>u_links := x\<rparr>)" "grows E h (h\<lparr>u_tasks := ts\<rparr>)" "grows E h (h\<lparr>u_sockets := sk\<rparr>)" "grows E h (h\<lparr>u_auth := au\<rparr>)"
  "grows E h (h\<lparr>u_stopped := st\<rparr>)" "grows E h (h\<lparr>u_cancelled := ca\<rparr>)" "grows E h (sendReply y h)" "grows E h (snd (newReply q b h))"
  by (simp_all add: grows_def same_ids_def newReply_def)

lemma grows_upd:
  assumes "hl_host (f (u_link h p)) = hl_host (u_link h p)" "hl_attachment (f (u_link h p)) = hl_attachment (u_link h p)"
    "\<forall>ev \<in> set (c_inbox (hl_wire (f (u_link h p)))). ev \<in> set (c_inbox (hl_wire (u_link h p))) \<or> event_ok E h p ev"
    "\<forall>x \<in> set (c_outbox (hl_wire (f (u_link h p)))). x \<in> set (c_outbox (hl_wire (u_link h p))) \<or> out_ok E h p x"
  shows "grows E h (upd_link p f h)"
  using assms by (simp add: grows_def same_ids_def)

lemma grows_close: "grows E h (upd_link p closeLink h)"
  by (rule grows_upd) (simp_all add: closeLink_def CloseConn_def)

lemma grows_post:
  assumes "event_ok E h q ev"
  shows "grows E h (snd (postTo seen q ev h))"
proof (cases rule: postTo_cases[of seen q ev h])
  case 1
  have "grows E h (upd_link q (readerPosts ev) h)" by (rule grows_upd) (use assms in \<open>auto simp: readerPosts_def\<close>)
  with 1 show ?thesis by simp
next
  case 2
  then show ?thesis by simp
qed

lemma grows_ended:
  assumes "traffic_ok E h" "fedValidHost (he_Host e)" "he_Attachment e \<noteq> []"
  shows "grows E h (hostEnded seen e q h)"
proof -
  obtain c h1 where n: "newReply q False h = (c, h1)" by (cases "newReply q False h")
  have g1: "grows E h h1" using grows_fields(8)[of E h q False] n by simp
  have "event_ok E h1 q (HLifetime hostEndMethod (FPHostEnd e) c)" using assms(2,3) by (simp add: event_ok_def lifetimeOf_def)
  from grows_post[OF this, of seen] have g2: "grows E h1 (snd (postTo seen q (HLifetime hostEndMethod (FPHostEnd e) c) h1))" .
  show ?thesis using grows_trans[OF g1 g2] grows_trans[OF grows_trans[OF g1 g2] grows_close] n
    by (simp add: hostEnded_def Let_def split_beta)
qed

lemma grows_fold:
  assumes "traffic_ok E h" "fedValidHost (he_Host e)" "he_Attachment e \<noteq> []"
  shows "grows E h (fold (\<lambda>x. hostEnded seen e (snd x)) xs h)"
  using assms(1)
proof (induction xs arbitrary: h)
  case (Cons x xs)
  have g: "grows E h (hostEnded seen e (snd x) h)" by (rule grows_ended[OF Cons.prems assms(2,3)])
  from grows_trans[OF g Cons.IH[OF traffic_grows[OF Cons.prems g]]] show ?case by simp
qed simp

lemma grows_remove:
  assumes "traffic_ok E h" "hub_inv X h"
  shows "grows E h (removeLink seen p h)"
proof (cases "registered h p")
  case True
  let ?h1 = "upd_link p closeLink (h\<lparr>u_links := gm_del (hl_host (u_link h p)) (u_links h)\<rparr>)"
  have g: "grows E h ?h1" by (rule grows_trans[OF grows_fields(1) grows_close])
  have "p < u_nlink h" by (rule registered_lt[OF assms(2) True])
  then have "fedValidHost (hl_host (u_link h p))" "hl_attachment (u_link h p) \<noteq> []" using assms(1) by (simp_all add: traffic_ok_def)
  then have "grows E ?h1 (fold (\<lambda>x. hostEnded seen \<lparr>he_Host = hl_host (u_link h p), he_Attachment = hl_attachment (u_link h p)\<rparr> (snd x)) (u_links ?h1) ?h1)"
    by (intro grows_fold[OF traffic_grows[OF assms(1) g]]) simp_all
  then show ?thesis using True grows_trans[OF g] by (simp add: removeLink_def Let_def)
qed (simp add: removeLink_def)

lemma grows_reply:
  assumes "traffic_ok E h" "hub_inv X h"
  shows "grows E h (hubReply seen r h)"
proof -
  have p: "grows E h (snd (postTo seen q (HReply r') h))" for q r' by (rule grows_post) (simp add: event_ok_def)
  have "snd (postTo seen q (HReply r') h) = h" if "\<not> fst (postTo seen q (HReply r') h)" for q r'
    by (cases rule: postTo_cases[of seen q "HReply r'" h]) (use that in simp_all)
  then have "grows E h (let (ok, h1) = postTo seen q (HReply r') h in if ok then h1 else removeLink seen q h1)" for q r'
    using p[of q r'] grows_remove[OF assms, of seen q] by (simp add: split_beta)
  then show ?thesis using grows_remove[OF assms] by (simp add: hubReply_def Let_def)
qed

lemma relayed_forms:
  "v\<lparr>fw_Request := (fw_Request v)\<lparr>pr_Trace := False\<rparr>\<rparr> = relayed (fc_SourceAttachment (fw_From v)) False v"
  "v\<lparr>fw_Request := (if b then (fw_Request v)\<lparr>pr_Trace := False\<rparr> else fw_Request v), fw_From := (fw_From v)\<lparr>fc_SourceAttachment := a\<rparr>\<rparr> = relayed a (\<not> b) v"
  by (cases v, cases "fw_From v", cases "fw_Request v", simp add: relayed_def)+

lemma grows_forwardTo:
  assumes "traffic_ok E h" "hub_inv (hand origin i) h" "registered h q" "origin < u_nlink h"
    "decodeForward (ev_hi E) (encodeForward v) (hl_host (u_link h origin)) = Some (v, hl_host (u_link h q))"
  shows "grows E h (forwardTo seen origin i v q h)"
proof -
  define collect where "collect \<longleftrightarrow> pr_Trace (fw_Request v) \<and> SupportsTrace (hl_alpn (u_link h origin))"
  define v1 where "v1 = v\<lparr>fw_Request := (if collect \<and> \<not> SupportsTrace (hl_alpn (u_link h q)) then (fw_Request v)\<lparr>pr_Trace := False\<rparr> else fw_Request v),
     fw_From := (fw_From v)\<lparr>fc_SourceAttachment := hl_attachment (u_link h origin)\<rparr>\<rparr>"
  obtain c h1 where n: "newReply q False h = (c, h1)" by (cases "newReply q False h")
  note nu = newReply_unused[OF assms(2) n]
  have g1: "grows E h h1" using grows_fields(8)[of E h q False] n by simp
  have "fedValidHost (hl_host (u_link h origin))" using assms(1,4) by (simp add: traffic_ok_def)
  then have "genuine E h q v1" using decode_relayed[OF assms(5)] assms(4) unfolding genuine_def v1_def relayed_forms
    by (intro exI[of _ origin]) (simp add: relayed_def)
  then have "genuine E h1 q v1" using g1 same_ids_ok(4)[of h h1 E] by (simp add: grows_def)
  then have ev: "event_ok E h1 q (HForward v1 c)" by (simp add: event_ok_def)
  have "grows E h (let (ok, h2) = postTo seen q (HForward v1 c) h1;
      h3 = (if ok then h2 else removeLink seen q (sendReply (c, errorReply ForwardLost None) h2))
      in h3\<lparr>u_tasks := TWait c origin q i collect # u_tasks h3\<rparr>)"
  proof (cases rule: postTo_cases[of seen q "HForward v1 c" h1])
    case 1
    have "grows E h1 (upd_link q (readerPosts (HForward v1 c)) h1)" using grows_post[OF ev, of seen] 1 by simp
    from grows_trans[OF grows_trans[OF g1 this] grows_fields(2)] 1 show ?thesis by simp
  next
    case 2
    let ?h2 = "sendReply (c, errorReply ForwardLost None) h1"
    have g2: "grows E h ?h2" by (rule grows_trans[OF g1 grows_fields(7)])
    have "grows E ?h2 (removeLink seen q ?h2)" by (rule grows_remove[OF traffic_grows[OF assms(1) g2] inv_send[OF nu(1,2)]])
    from grows_trans[OF grows_trans[OF g2 this] grows_fields(2)] 2 show ?thesis by (simp add: Let_def)
  qed
  then show ?thesis using grows_reply[OF assms(1,2)] n unfolding v1_def collect_def forwardTo_def Let_def by simp
qed

lemma grows_forward:
  assumes "traffic_ok E h" "hub_inv (hand origin (if_id call)) h"
    "decodeForward (ev_hi E) (encodeForward (if_value call)) (hl_host (u_link h origin)) = Some (if_value call, if_host call)"
  shows "grows E h (hubForward seen origin call h)"
proof (cases "registered h origin")
  case True
  have lt: "origin < u_nlink h" by (rule registered_lt[OF assms(2) True])
  have fw: "grows E h (forwardTo seen origin (if_id call) (if b then v\<lparr>fw_Request := (fw_Request v)\<lparr>pr_Trace := False\<rparr>\<rparr> else v) q h)"
    if "gm_get (u_links h) (if_host call) = Some q" "v = if_value call" for q v b
  proof (rule grows_forwardTo[OF assms(1,2) get_registered[OF assms(2) that(1)] lt])
    have "hl_host (u_link h q) = if_host call" using hub_invD(1)[OF assms(2)] that(1) by (simp add: links_ok_def)
    then show "decodeForward (ev_hi E) (encodeForward (if b then v\<lparr>fw_Request := (fw_Request v)\<lparr>pr_Trace := False\<rparr>\<rparr> else v)) (hl_host (u_link h origin))
        = Some (if b then v\<lparr>fw_Request := (fw_Request v)\<lparr>pr_Trace := False\<rparr>\<rparr> else v, hl_host (u_link h q))"
      using assms(3) decode_relayed[OF assms(3)] that(2) by (simp add: relayed_forms(1))
  qed
  have fw1: "grows E h (forwardTo seen origin (if_id call) ((if_value call)\<lparr>fw_Request := (fw_Request (if_value call))\<lparr>pr_Trace := False\<rparr>\<rparr>) q h)"
    and fw2: "grows E h (forwardTo seen origin (if_id call) (if_value call) q h)" if "gm_get (u_links h) (if_host call) = Some q" for q
    using fw[OF that refl, of True] fw[OF that refl, of False] by simp_all
  show ?thesis
  proof (cases "gm_get (u_links h) (if_host call)")
    case None
    then show ?thesis using grows_reply[OF assms(1,2)] True by (simp add: hubForward_def Let_def)
  next
    case (Some q)
    show ?thesis using grows_reply[OF assms(1,2)] fw1[OF Some] fw2[OF Some] True Some by (simp add: hubForward_def Let_def)
  qed
qed (simp add: hubForward_def)

lemma grows_ownerEnd:
  assumes "traffic_ok E h" "hub_inv (hand origin (io_ID call)) h"
    "ownedPart (ev_hi E) (oe_SessionID (io_Value call)) (hl_host (u_link h origin)) False" "oe_Lifetime (io_Value call) \<noteq> []"
  shows "grows E h (hubOwnerEnd seen origin call h)"
proof (cases "registered h origin \<and> gm_get (u_links h) (oe_Host (io_Value call)) \<noteq> None")
  case True
  then obtain q where q: "gm_get (u_links h) (oe_Host (io_Value call)) = Some q" and o: "registered h origin" by blast
  define v where "v = (io_Value call)\<lparr>oe_Source := hl_host (u_link h origin), oe_Attachment := hl_attachment (u_link h origin)\<rparr>"
  obtain c h1 where n: "newReply q False h = (c, h1)" by (cases "newReply q False h")
  note nu = newReply_unused[OF assms(2) n]
  have g1: "grows E h h1" using grows_fields(8)[of E h q False] n by simp
  have "fedValidHost (hl_host (u_link h origin))" "hl_attachment (u_link h origin) \<noteq> []"
    using assms(1) registered_lt[OF assms(2) o] by (simp_all add: traffic_ok_def)
  moreover have "hl_host (u_link h q) = oe_Host (io_Value call)" using hub_invD(1)[OF assms(2)] q by (simp add: links_ok_def)
  ultimately have ev: "event_ok E h1 q (HLifetime ownerEndMethod (FPOwnerEnd v) c)"
    using assms(3,4) nu(5) by (simp add: event_ok_def lifetimeOf_def v_def)
  have "grows E h (let (ok, h2) = postTo seen q (HLifetime ownerEndMethod (FPOwnerEnd v) c) h1 in
      if \<not> ok then hubReply seen (answerOrigin origin (io_ID call) (errorReply ForwardLost None)) (removeLink seen q h2)
      else h2\<lparr>u_tasks := TWait c origin q (io_ID call) False # u_tasks h2\<rparr>)"
  proof (cases rule: postTo_cases[of seen q "HLifetime ownerEndMethod (FPOwnerEnd v) c" h1])
    case 1
    have "grows E h1 (upd_link q (readerPosts (HLifetime ownerEndMethod (FPOwnerEnd v) c)) h1)" using grows_post[OF ev, of seen] 1 by simp
    from grows_trans[OF grows_trans[OF g1 this] grows_fields(2)] 1 show ?thesis by simp
  next
    case 2
    have t1: "traffic_ok E h1" by (rule traffic_grows[OF assms(1) g1])
    have g2: "grows E h1 (removeLink seen q h1)" by (rule grows_remove[OF t1 nu(1)])
    have "grows E (removeLink seen q h1) (hubReply seen (answerOrigin origin (io_ID call) (errorReply ForwardLost None)) (removeLink seen q h1))"
      by (rule grows_reply[OF traffic_grows[OF t1 g2] removeLink_inv(1)[OF nu(1)]])
    from grows_trans[OF grows_trans[OF g1 g2] this] 2 show ?thesis by simp
  qed
  then show ?thesis using o q n by (simp add: hubOwnerEnd_def v_def)
next
  case False
  then show ?thesis using grows_reply[OF assms(1,2)] by (auto simp: hubOwnerEnd_def split: option.split)
qed

lemma grows_handle:
  assumes "traffic_ok E h" "hub_inv nothing h" "u_inbox h = ev # evs"
  shows "grows E h (handleRegistry seen ev (h\<lparr>u_inbox := evs\<rparr>))"
proof -
  let ?h = "h\<lparr>u_inbox := evs\<rparr>"
  have g: "grows E h ?h" using assms(3) by (simp add: grows_def same_ids_def)
  note t = traffic_grows[OF assms(1) g]
  note pop = inv_pop[OF assms(2,3)]
  have ok: "asked_ok E h ev" using assms(1,3) by (simp add: traffic_ok_def)
  have up: "grows E ?h (upd_link p (\<lambda>l. l\<lparr>hl_ready := r\<rparr>) k)" "grows E ?h (upd_link p (\<lambda>l. l\<lparr>hl_closedAck := True\<rparr>) k)"
    "grows E ?h (upd_link p (\<lambda>l. l\<lparr>hl_rosterSlots := hl_rosterSlots l + 1\<rparr>) k)" if "grows E ?h k" for k p r
    by (rule grows_trans[OF that], rule grows_upd; simp)+
  have "grows E ?h (handleRegistry seen ev ?h)"
  proof (cases ev)
    case (RReady p)
    have a: "grows E ?h (?h\<lparr>u_sockets := x, u_links := y\<rparr>)" for x y by (simp add: grows_def same_ids_def)
    have b: "grows E ?h (upd_link p closeLink (?h\<lparr>u_sockets := x\<rparr>))" for x by (rule grows_trans[OF grows_fields(3) grows_close])
    show ?thesis using up(1)[OF a] up(1)[OF b] RReady by (simp add: handleRegistry_def hubReady_def Let_def)
  next
    case (RClosed p)
    show ?thesis using up(2)[OF grows_remove[OF t pop]] up(2)[OF grows_refl] RClosed by (simp add: handleRegistry_def hubClosed_def)
  next
    case (RAccept fd)
    have "grows E ?h (?h\<lparr>u_sockets := x, u_auth := y\<rparr>)" for x y by (simp add: grows_def same_ids_def)
    then show ?thesis using RAccept by (simp add: handleRegistry_def)
  next
    case (RRetire fd)
    then show ?thesis using grows_fields(3)[of E ?h] by (simp add: handleRegistry_def)
  next
    case (RHosts p i)
    show ?thesis using grows_reply[OF t pop] RHosts by (simp add: handleRegistry_def hubHosts_def)
  next
    case (RRoster p i)
    show ?thesis using grows_reply[OF t pop] grows_trans[OF up(3)[OF grows_refl] grows_fields(2)] RRoster
      by (simp add: handleRegistry_def hubRoster_def Let_def)
  next
    case (RForward p call)
    have "decodeForward (ev_hi E) (encodeForward (if_value call)) (hl_host (u_link ?h p)) = Some (if_value call, if_host call)"
      using ok RForward by (simp add: asked_ok_def)
    from grows_forward[OF t pop[unfolded RForward own_hand] this] RForward show ?thesis by (simp add: handleRegistry_def)
  next
    case (ROwnerEnd p call)
    have "ownedPart (ev_hi E) (oe_SessionID (io_Value call)) (hl_host (u_link ?h p)) False" "oe_Lifetime (io_Value call) \<noteq> []"
      using ok ROwnerEnd by (simp_all add: asked_ok_def)
    from grows_ownerEnd[OF t pop[unfolded ROwnerEnd own_hand] this] ROwnerEnd show ?thesis by (simp add: handleRegistry_def)
  next
    case (RReply r)
    show ?thesis using grows_reply[OF t pop] RReply by (simp add: handleRegistry_def)
  qed
  then show ?thesis by (rule grows_trans[OF g])
qed

section \<open>The links\<close>

text \<open>A turn of a link keeps who it is and what is queued, and sends frames that are in order.\<close>

definition sends_only :: "(fedout \<Rightarrow> bool) \<Rightarrow> hostLink \<Rightarrow> hostLink \<Rightarrow> bool" where
  "sends_only P l l' \<longleftrightarrow> hl_host l' = hl_host l \<and> hl_attachment l' = hl_attachment l \<and> c_inbox (hl_wire l') = c_inbox (hl_wire l)
     \<and> (\<forall>f \<in> set (c_outbox (hl_wire l')). f \<in> set (c_outbox (hl_wire l)) \<or> P f)"

lemma sends_only_simps [simp]:
  "sends_only P l l" "sends_only P l (l\<lparr>hl_nextID := i\<rparr>)" "sends_only P l (l\<lparr>hl_lastIn := i\<rparr>)" "sends_only P l (l\<lparr>hl_pending := m\<rparr>)"
  "sends_only P l (l'\<lparr>hl_failed := b\<rparr>) = sends_only P l l'" "sends_only P l (l'\<lparr>hl_answered := x\<rparr>) = sends_only P l l'"
  "sends_only P l (l'\<lparr>hl_asked := x\<rparr>) = sends_only P l l'" "sends_only P l (l'\<lparr>hl_phase := y\<rparr>) = sends_only P l l'"
  "sends_only P l (addPending call l') = sends_only P l l'" "sends_only P l (failLink l') = sends_only P l l'"
  by (auto simp: sends_only_def addPending_def failLink_def closeLink_def CloseConn_def)

lemma sends_frame:
  assumes "sendFrame body (l\<lparr>hl_nextID := i\<rparr>) = (l', ok) \<or> sendFrame body l = (l', ok)" "P body"
  shows "sends_only P l l'"
  using assms by (auto simp: sends_only_def sendFrame_def Let_def conn_defs split: if_splits prod.splits)

lemma requestBytes_form: "requestBytes E i m params = Some f \<Longrightarrow> f = FRequest i m params"
  by (auto simp: requestBytes_def withinFrame_def split: if_splits)

lemma responseBytes_form:
  assumes "responseBytes E i v b = Some f"
  shows "out_ok E h q f"
  using assms by (auto simp: responseBytes_def plainResponse_def withinFrame_def out_ok_def split: if_splits option.splits)

lemma genuine_relayed:
  assumes "genuine E h q v"
  shows "genuine E h q (v\<lparr>fw_Request := (fw_Request v)\<lparr>pr_Trace := False\<rparr>\<rparr>)"
proof -
  obtain p where p: "p < u_nlink h" "fedValidHost (hl_host (u_link h p))" "fc_SourceAttachment (fw_From v) = hl_attachment (u_link h p)"
    and d: "decodeForward (ev_hi E) (encodeForward v) (hl_host (u_link h p)) = Some (v, hl_host (u_link h q))"
    using assms by (auto simp: genuine_def)
  show ?thesis unfolding genuine_def relayed_forms(1) using p decode_relayed[OF d, of "fc_SourceAttachment (fw_From v)" False]
    by (intro exI[of _ p]) (simp add: relayed_def)
qed

lemma forwardRequestBytes_form:
  assumes "forwardRequestBytes E i v = (Some f, v')" "genuine E h q v"
  shows "out_ok E h q f"
proof -
  have "f = FRequest i forwardMethod (encodeForward v') \<and> genuine E h q v'"
    using assms genuine_relayed[OF assms(2)] by (auto simp: forwardRequestBytes_def Let_def dest!: requestBytes_form split: if_splits)
  then show ?thesis by (auto simp: out_ok_def)
qed

lemma roster_sends: "sends_only (out_ok E h q) l (fst (linkRoster E ch l))"
  by (auto simp: linkRoster_def Let_def out_ok_def split: option.split prod.split dest!: requestBytes_form elim!: sends_frame[OF disjI1])

lemma lifetime_sends:
  assumes "event_ok E h q (HLifetime m params ch)"
  shows "sends_only (out_ok E h q) l (fst (linkLifetime E m params ch l))"
  using assms by (auto simp: linkLifetime_def Let_def out_ok_def event_ok_def split: option.split prod.split dest!: requestBytes_form elim!: sends_frame[OF disjI1])

lemma forward_sends:
  assumes "event_ok E h q (HForward v ch)"
  shows "sends_only (out_ok E h q) l (fst (linkForward E v ch l))"
proof -
  have g: "genuine E h q v" using assms by (simp add: event_ok_def)
  note ok = forwardRequestBytes_form[OF _ g] forwardRequestBytes_form[OF _ genuine_relayed[OF g]]
  show ?thesis by (auto simp: linkForward_def Let_def split: option.split prod.split elim!: sends_frame[OF disjI1] dest: ok)
qed

lemma reply_sends: "sends_only (out_ok E h q) l (fst (linkReply E r l))"
  by (auto simp: linkReply_def Let_def split: option.split prod.split elim!: sends_frame[OF disjI2] dest: responseBytes_form)

lemma frame_sends: "sends_only P l (fst (linkFrame E p frame bad l))"
  by (auto simp: linkFrame_def linkResponse_def Let_def split: option.split)

lemma turn_sends:
  assumes "event_ok E h q ev" "linkTurn E p ev l = (l', sends, out)"
  shows "sends_only (out_ok E h q) l l'"
proof -
  have "sends_only (out_ok E h q) l (fst (linkTurn E p ev l))"
    using assms(1) roster_sends lifetime_sends forward_sends reply_sends frame_sends by (cases ev) (simp_all add: linkTurn_def)
  then show ?thesis using assms(2) by simp
qed

lemma turn_asks:
  assumes "linkTurn E p ev l = (l', sends, Some out)" "hl_host l = hl_host (u_link h p)"
  shows "asked_ok E h out"
proof (cases ev)
  case (HFrame frame bad)
  then have "requestEvent E p frame (l\<lparr>hl_lastIn := ff_ID frame\<rparr>) = Some out"
    using assms(1) by (auto simp: linkTurn_def linkFrame_def linkResponse_def Let_def split: if_splits option.splits)
  moreover have "decodeForward (ev_hi E) (encodeForward v) s = Some (v, host)" if "decodeForward (ev_hi E) x s = Some (v, host)" for x v s host
    using decode_relayed[OF that, of "fc_SourceAttachment (fw_From v)" True] by (simp add: relayed_def)
  ultimately show ?thesis using assms(2)
    by (auto simp: requestEvent_def asked_ok_def split: if_splits option.splits fedparams.splits prod.splits)
qed (use assms(1) in \<open>auto simp: linkTurn_def linkRoster_def linkLifetime_def linkForward_def linkReply_def asked_ok_def Let_def
    split: if_splits option.splits prod.splits\<close>)

lemma grows_posted:
  assumes "grows E h k" "posted out k h'" "\<And>ev. out = Some ev \<Longrightarrow> asked_ok E h ev"
  shows "grows E h h'"
proof (cases out)
  case None
  then show ?thesis using assms(1,2) by simp
next
  case (Some ev)
  have "grows E h (k\<lparr>u_inbox := u_inbox k @ [ev]\<rparr>)" using assms(1,3) Some by (auto simp: grows_def same_ids_def)
  then show ?thesis using assms(1,2) Some by auto
qed

lemma grows_sends: "grows E h (fold sendReply xs h)"
  by (induction xs arbitrary: h) (auto intro: grows_trans grows_fields(7))

lemma grows_turn:
  assumes "traffic_ok E h" "c_inbox (hl_wire (u_link h p)) = ev # evs"
    "linkTurn E p ev ((u_link h p)\<lparr>hl_wire := (hl_wire (u_link h p))\<lparr>c_inbox := evs\<rparr>\<rparr>) = (l, sends, out)"
    "posted out (fold sendReply sends (upd_link p (\<lambda>_. l) h)) h'"
  shows "grows E h h'"
proof (rule grows_posted[OF _ assms(4)])
  have "event_ok E h p ev" using assms(1,2) by (simp add: traffic_ok_def)
  from turn_sends[OF this assms(3)] assms(2) have "grows E h (upd_link p (\<lambda>_. l) h)"
    by (intro grows_upd) (auto simp: sends_only_def)
  then show "grows E h (fold sendReply sends (upd_link p (\<lambda>_. l) h))" by (rule grows_trans[OF _ grows_sends])
  show "asked_ok E h e" if "out = Some e" for e using turn_asks[OF assms(3)[unfolded that]] by simp
qed

lemma grows_return:
  assumes "linkReturn (u_link h p) = (l, sends)"
  shows "grows E h (fold sendReply sends (upd_link p (\<lambda>_. l) h))"
proof -
  have "grows E h (upd_link p (\<lambda>_. l) h)"
    by (rule grows_upd) (use assms in \<open>auto simp: linkReturn_def Let_def closeLink_def CloseConn_def\<close>)
  then show ?thesis by (rule grows_trans[OF _ grows_sends])
qed

lemma grows_tasks: "grows E h (dropTask t h)" "grows E h (freeSlot p (dropTask t h))"
proof -
  show d: "grows E h (dropTask t h)" by (simp add: dropTask_def)
  have "grows E (dropTask t h) (freeSlot p (dropTask t h))" unfolding freeSlot_def by (rule grows_upd) simp_all
  from grows_trans[OF d this] show "grows E h (freeSlot p (dropTask t h))" .
qed

lemma grows_stop: "grows E h (stopHub h)"
proof -
  have "grows E k (fold (\<lambda>x. upd_link (snd x) closeLink) xs k)" for k and xs :: "(gostring \<times> ptr) list"
    by (induction xs arbitrary: k) (auto intro: grows_trans grows_close)
  then show ?thesis unfolding stopHub_def by (rule grows_trans[OF _ grows_fields(5)])
qed

lemma grows_ask:
  assumes "askLeg E seen late host q h = (ch, h')"
  shows "grows E h h'"
proof -
  obtain c h1 where n: "newReply q True h = (c, h1)" by (cases "newReply q True h")
  have g1: "grows E h h1" using grows_fields(8)[of E h q True] n by simp
  have "grows E h (snd (postTo seen q (HRoster c) h1))" by (rule grows_trans[OF g1 grows_post]) (simp add: event_ok_def)
  then show ?thesis using assms n grows_trans[OF g1 grows_fields(7)] grows_trans[OF _ grows_fields(7)]
    by (auto simp: askLeg_def Let_def split: if_splits prod.splits)
qed

section \<open>Every step\<close>

lemma hexEncode_empty [simp]: "hexEncode xs = [] \<longleftrightarrow> xs = []"
  by (cases xs) (simp_all add: hexEncode_def)

lemma genuine_new:
  assumes "genuine E h q v" "hub_inv X h" "u_nlink h' = Suc (u_nlink h)" "\<And>p. p \<noteq> u_nlink h \<Longrightarrow> u_link h' p = u_link h p" "q \<noteq> u_nlink h"
  shows "genuine E h' q v"
proof -
  obtain p where "p < u_nlink h" "fedValidHost (hl_host (u_link h p))" "fc_SourceAttachment (fw_From v) = hl_attachment (u_link h p)"
    "decodeForward (ev_hi E) (encodeForward v) (hl_host (u_link h p)) = Some (v, hl_host (u_link h q))"
    using assms(1) by (auto simp: genuine_def)
  then show ?thesis unfolding genuine_def using assms(3-5) by (intro exI[of _ p]) simp
qed

text \<open>No request is on its way from a link that does not exist yet.\<close>

lemma inbox_old:
  assumes "hub_inv nothing h" "e \<in> set (u_inbox h)" "u_nlink h \<le> p"
  shows "event_owes p e = None"
proof (rule ccontr)
  assume "event_owes p e \<noteq> None"
  then obtain i where "event_owes p e = Some i" by blast
  then have "i \<in> set (List.map_filter (event_owes p) (u_inbox h))" using assms(2) by (force simp: List.map_filter_def)
  then have "i \<in># owed h p" by (simp add: owed_def)
  moreover have "owed h p + {#} \<subseteq># mset (hl_asked (u_link h p))" using hub_invD(5)[OF assms(1)] by (simp add: owed_ok_def)
  moreover have "hl_asked (u_link h p) = []" using hub_invD(1)[OF assms(1)] assms(3) by (simp add: links_ok_def newHostLink_def)
  ultimately show False by simp
qed

lemma traffic_new:
  assumes "traffic_ok E h" "hub_inv nothing h" "p = u_nlink h" "fedValidHost host" "length identity = 16"
  shows "traffic_ok E (upd_link p (\<lambda>_. newHostLink identity host fd alpn) (h\<lparr>u_auth := au, u_nlink := Suc p\<rparr>))"
proof -
  let ?h = "upd_link p (\<lambda>_. newHostLink identity host fd alpn) (h\<lparr>u_auth := au, u_nlink := Suc p\<rparr>)"
  have id: "identity \<noteq> []" using assms(5) by auto
  have ids: "\<forall>r < u_nlink ?h. fedValidHost (hl_host (u_link ?h r)) \<and> hl_attachment (u_link ?h r) \<noteq> []"
    using assms(1,3,4) id by (auto simp: traffic_ok_def newHostLink_def less_Suc_eq)
  have new: "c_inbox (hl_wire (u_link ?h p)) = []" "c_outbox (hl_wire (u_link ?h p)) = []" by (simp_all add: newHostLink_def StartConn_def)
  have g: "genuine E ?h q v" if "genuine E h q v" "q \<noteq> p" for q v
    using genuine_new[OF that(1) assms(2), of ?h] that(2) assms(3) by simp
  have ev: "event_ok E ?h q e" if "event_ok E h q e" "q \<noteq> p" for q e
    using that g by (auto simp: event_ok_def split: linkEvent.split)
  have out: "out_ok E ?h q f" if "out_ok E h q f" "q \<noteq> p" for q f
  proof (cases f)
    case (FRequest i m params)
    have "u_link ?h q = u_link h q" using that(2) by simp
    then show ?thesis using that(1) g[OF _ that(2)] unfolding out_ok_def FRequest fedout.case by metis
  qed (simp_all add: out_ok_def)
  have boxes: "(\<forall>e \<in> set (c_inbox (hl_wire (u_link ?h q))). event_ok E ?h q e) \<and> (\<forall>f \<in> set (c_outbox (hl_wire (u_link ?h q))). out_ok E ?h q f)" for q
  proof (cases "q = p")
    case True
    then show ?thesis using new by simp
  next
    case False
    then show ?thesis using assms(1) ev out by (simp add: traffic_ok_def)
  qed
  have no: "event_owes p e = None" if "e \<in> set (u_inbox h)" for e by (rule inbox_old[OF assms(2) that]) (simp add: assms(3))
  have "asked_ok E ?h e" if "e \<in> set (u_inbox h)" for e
  proof -
    have "asked_ok E h e" using assms(1) that by (simp add: traffic_ok_def)
    then show ?thesis using no[OF that] by (cases e) (simp_all add: asked_ok_def split: if_splits)
  qed
  with ids boxes show ?thesis by (simp add: traffic_ok_def)
qed

lemma hub_step_traffic:
  assumes "traffic_ok E h" "hub_inv nothing h" "hub_step E h h'"
  shows "traffic_ok E h'"
proof -
  have by_grows: "traffic_ok E h'" if "grows E h h'" by (rule traffic_grows[OF assms(1) that])
  have upd: "grows E h (upd_link p f h)" if "\<And>l. hl_host (f l) = hl_host l \<and> hl_attachment (f l) = hl_attachment l
      \<and> set (c_inbox (hl_wire (f l))) \<subseteq> set (c_inbox (hl_wire l)) \<and> set (c_outbox (hl_wire (f l))) \<subseteq> set (c_outbox (hl_wire l))" for p f
    by (rule grows_upd) (use that[of "u_link h p"] in auto)
  have reply: "grows E h h'" if "posted (Some (RReply r)) k h'" "grows E h k" for r k
    by (rule grows_posted[OF that(2,1)]) (simp add: asked_ok_def)
  show ?thesis using assms(3)
  proof cases
    case (connect fd)
    show ?thesis by (rule by_grows, rule grows_posted[OF grows_refl connect(1)]) (simp add: asked_ok_def)
  next
    case (registry ev evs seen)
    then show ?thesis using grows_handle[OF assms(1,2) registry(3)] by (intro by_grows) simp
  next
    case cancel
    then show ?thesis using grows_fields(6) by (intro by_grows) simp
  next
    case stop
    then show ?thesis using grows_stop by (intro by_grows) simp
  next
    case (auth_failed fd)
    show ?thesis by (rule by_grows, rule grows_posted[OF grows_fields(4) auth_failed(2)]) (simp add: asked_ok_def)
  next
    case (auth_done fd p host identity alpn)
    show ?thesis
      by (rule traffic_grows[OF traffic_new[OF assms(1,2) auth_done(2-4)] grows_posted[OF grows_refl auth_done(5)]]) (simp add: asked_ok_def)
  next
    case (link_start p accepted)
    then show ?thesis by (intro by_grows) (simp, intro upd, simp add: startRun_def closeLink_def CloseConn_def)
  next
    case (link_turn p ev evs l sends out)
    show ?thesis by (rule by_grows, rule grows_turn[OF assms(1) link_turn(3,4,5)])
  next
    case (link_stopping p)
    then show ?thesis by (intro by_grows) (simp, intro upd, simp add: failLink_def closeLink_def CloseConn_def)
  next
    case (link_return p l sends)
    then show ?thesis using grows_return[OF link_return(5)] by (intro by_grows) simp
  next
    case (link_done p)
    then show ?thesis by (intro by_grows) (simp, intro upd, simp)
  next
    case (reader_frame p frame bad)
    then show ?thesis by (intro by_grows) (simp, intro grows_upd, auto simp: readerPosts_def event_ok_def)
  next
    case (reader_fails p)
    then show ?thesis by (intro by_grows) (simp, intro upd, simp add: readFailed_def CloseConn_def)
  next
    case (reader_closed p)
    then show ?thesis by (intro by_grows) (simp, intro grows_upd, auto simp: readerPosts_def event_ok_def)
  next
    case (writer p)
    then show ?thesis by (intro by_grows) (simp, intro upd, auto simp: conn_defs split: list.splits if_splits)
  next
    case (wait_reply ch origin destination i collect v vs)
    show ?thesis by (rule by_grows[OF reply[OF wait_reply(3) grows_tasks(1)]])
  next
    case (wait_gone ch origin destination i collect)
    then show ?thesis using grows_tasks(1) by (intro by_grows) simp
  next
    case (roster_ask origin i host destination legs result retained seen late ch h1)
    show ?thesis unfolding roster_ask(1)
      by (intro by_grows[unfolded roster_ask(1)] grows_trans[OF grows_trans[OF grows_ask[OF roster_ask(3)] grows_tasks(1)] grows_fields(2)])
  next
    case (roster_leg origin i legs host destination ch result retained answer result' retained')
    show ?thesis unfolding roster_leg(1) by (intro by_grows[unfolded roster_leg(1)] grows_trans[OF grows_tasks(1) grows_fields(2)])
  next
    case (roster_large origin i legs host destination ch result retained answer v)
    show ?thesis by (rule by_grows[OF reply[OF roster_large(4) grows_tasks(2)]])
  next
    case (roster_gone origin i legs x result retained)
    then show ?thesis using grows_tasks(2) by (intro by_grows) simp
  next
    case (roster_end origin i result retained)
    show ?thesis by (rule by_grows[OF reply[OF roster_end(2) grows_tasks(2)]])
  qed
qed

lemma traffic_init: "traffic_ok E emptyHub"
  by (simp add: traffic_ok_def emptyHub_def newHostLink_def StartConn_def)

interpretation traffic_sys: transition_system "\<lambda>h. h = emptyHub" "hub_step E" "\<lambda>h. hub_inv nothing h \<and> traffic_ok E h" for E
proof unfold_locales
  show "h = emptyHub \<Longrightarrow> hub_inv nothing h \<and> traffic_ok E h" for h using hub_inv_init traffic_init by simp
  show "hub_inv nothing h \<and> traffic_ok E h \<Longrightarrow> hub_step E h h' \<Longrightarrow> hub_inv nothing h' \<and> traffic_ok E h'" for h h'
    using hub_step_inv hub_step_traffic by blast
qed

section \<open>What the hosts receive\<close>

lemma request_accepted:
  assumes "traffic_ok E h" "out_ok E h q (FRequest i m params)"
  shows "daemonRequest E (hl_host (u_link h q)) alpn m params \<noteq> ActRefuse
    \<and> (\<forall>c r. daemonRequest E (hl_host (u_link h q)) alpn m params = ActAdmit c r \<longrightarrow>
         (\<exists>p < u_nlink h. fc_SourceAttachment c = hl_attachment (u_link h p) \<and> ownedPart (ev_hi E) (fc_SessionID c) (hl_host (u_link h p)) False))"
proof -
  consider (forward) v where "m = forwardMethod" "params = encodeForward v" "genuine E h q v"
    | (lifetime) "m = ownerEndMethod \<or> m = hostEndMethod" "lifetimeOf E (hl_host (u_link h q)) m params \<noteq> None"
    | (roster) "m = rosterMethod" "params = FPEmpty" using assms(2) by (auto simp: out_ok_def)
  then show ?thesis
  proof cases
    case forward
    then obtain p where p: "p < u_nlink h" "fedValidHost (hl_host (u_link h p))" "fc_SourceAttachment (fw_From v) = hl_attachment (u_link h p)"
      and d: "decodeForward (ev_hi E) (encodeForward v) (hl_host (u_link h p)) = Some (v, hl_host (u_link h q))" by (auto simp: genuine_def)
    show ?thesis using forward(1,2) p d source_of[OF d p(2)]
      by (auto simp: daemonRequest_def Let_def)
  next
    case lifetime
    then show ?thesis by (auto simp: daemonRequest_def split: option.split)
  next
    case roster
    then show ?thesis by (simp add: daemonRequest_def)
  qed
qed

text \<open>
  C8: (the hub and its hosts) Whatever the hosts send and in whatever order the goroutines of the hub run, a
  request in the outbox of a link is one that the daemon of that host does not refuse (a refusal ends its link),
  whatever protocol version the two agreed on.
  When it admits a forwarded request, the caller it admits has the attachment of a link of the hub and a session
  owned by the host of that link: no host can speak for the sessions of another.
\<close>

theorem hub_requests_accepted:
  assumes "reach (\<lambda>h. h = emptyHub) (hub_step E) h" "FRequest i m params \<in> set (c_outbox (hl_wire (u_link h q)))"
  shows "daemonRequest E (hl_host (u_link h q)) alpn m params \<noteq> ActRefuse
    \<and> (\<forall>c r. daemonRequest E (hl_host (u_link h q)) alpn m params = ActAdmit c r \<longrightarrow>
         (\<exists>p < u_nlink h. fc_SourceAttachment c = hl_attachment (u_link h p) \<and> ownedPart (ev_hi E) (fc_SessionID c) (hl_host (u_link h p)) False))"
proof -
  have t: "traffic_ok E h" using traffic_sys.reach_inv[OF assms(1)] by simp
  then have "out_ok E h q (FRequest i m params)" using assms(2) by (auto simp: traffic_ok_def)
  from request_accepted[OF t this] show ?thesis .
qed

text \<open>A host that asks for the end of an owner on itself gets the request on its own link.\<close>

definition endSent :: hub where
  "endSent = oneHost (linkA\<lparr>hl_lastIn := 1, hl_asked := [1], hl_nextID := 1,
       hl_pending := [(1, \<lparr>pc_method = ownerEndMethod, pc_reply = 0, pc_trace = False, pc_target = []\<rparr>)],
       hl_wire := StartConn\<lparr>c_outbox := [FRequest 1 ownerEndMethod (FPOwnerEnd (ownerEnds\<lparr>oe_Source := ''a'', oe_Attachment := hexEncode (replicate 16 0)\<rparr>))]\<rparr>\<rparr>)
     [] [TWait 0 0 0 1 False] 1"

lemma reach_endSent: "reachable endSent"
proof -
  let ?e = "ROwnerEnd 0 \<lparr>io_ID = 1, io_Value = ownerEnds\<rparr>" let ?l = "linkA\<lparr>hl_lastIn := 1, hl_asked := [1]\<rparr>"
  let ?c = "HLifetime ownerEndMethod (FPOwnerEnd (ownerEnds\<lparr>oe_Source := ''a'', oe_Attachment := hexEncode (replicate 16 0)\<rparr>)) 0"
  have "reachable (handleRegistry (\<lambda>_. False) ?e (oneHost ?l [] [] 0))" by (rule run_registry[OF reach_askedEnd])
  moreover have "handleRegistry (\<lambda>_. False) ?e (oneHost ?l [] [] 0) = oneHost (readerPosts ?c ?l) [] [TWait 0 0 0 1 False] 1"
    by (simp add: handleRegistry_def hubOwnerEnd_def registered_def gm_get_def newReply_def postTo_def postLink_def Post_def run_defs Let_def
        ownerEnds_def) (simp add: oneHost_def emptyHub_def upd_link_def heap_upd_def run_defs fun_upd_idem)
  ultimately have "reachable (oneHost (readerPosts ?c ?l) [] [TWait 0 0 0 1 False] 1)" by simp
  from run_turn[where ev = ?c and es = "[]" and out = None, OF this] show ?thesis
    by (simp add: endSent_def run_defs linkTurn_def linkLifetime_def Let_def requestBytes_def withinFrame_def plainEnv_def sendFrame_def conn_defs
        addPending_def gm_set_def gm_del_def)
qed

theorem hub_requests_accepted_witness:
  "\<exists>m params. FRequest 1 m params \<in> set (c_outbox (hl_wire (u_link endSent 0))) \<and> daemonRequest plainEnv ''a'' [] m params \<noteq> ActRefuse"
proof -
  let ?m = ownerEndMethod let ?p = "FPOwnerEnd (ownerEnds\<lparr>oe_Source := ''a'', oe_Attachment := hexEncode (replicate 16 0)\<rparr>)"
  have f: "FRequest 1 ?m ?p \<in> set (c_outbox (hl_wire (u_link endSent 0)))" "hl_host (u_link endSent 0) = ''a''"
    by (simp_all add: endSent_def linkA_def newHostLink_def)
  have "daemonRequest plainEnv ''a'' [] ?m ?p \<noteq> ActRefuse" using hub_requests_accepted[OF reach_endSent f(1), of "[]"] f(2) by simp
  with f(1) show ?thesis by blast
qed

end
