(* ===== verification/Rpc.thy ===== *)
theory Rpc
  imports Protocol
begin

text \<open>
  The client library's connection (\<open>bus/sdk/go/internal/rpc/rpc.go\<close>): calls with their identifiers and pending
  responses, cancellation, requests of the daemon and the end of the connection. Every call of a client
  program, a peer or a worker goes through it.
\<close>

section \<open>The connection\<close>

datatype callFailure = ErrClosed | ErrExhausted | ErrInvalid | ErrIO | ErrCancelled | ErrRemote RPCError | ErrObserver gostring

text \<open>The \<open>done\<close> channel of a call is a pointer; its result variable is addressed by the same pointer.\<close>

record rpcPending =
  pn_method :: gostring
  pn_result :: bool
  pn_done :: ptr
  pn_seen :: bool
  pn_drain :: bool

record Request =
  rq_ID :: int
  rq_Method :: gostring
  rq_Params :: params

datatype rpcOut = OutRequest int gostring params | OutResult int result | OutError int int "errdata option"

text \<open>
  The state behind \<open>stateMu\<close>, with two ghosts: the frames written to the socket and the requests given to
  the handler, in order.
\<close>

record rpcConn =
  rc_client :: bool
  rc_closed :: bool
  rc_next :: int
  rc_last :: int
  rc_pending :: "(int, rpcPending) gomap"
  rc_written :: "rpcOut list"
  rc_handled :: "Request list"

definition newRpc :: "bool \<Rightarrow> rpcConn" where
  "newRpc client = \<lparr>rc_client = client, rc_closed = False, rc_next = 0, rc_last = 0, rc_pending = [], rc_written = [], rc_handled = []\<rparr>"

text \<open>\<open>close\<close>: the connection and the channels that get the cause.\<close>

definition closeRpc :: "rpcConn \<Rightarrow> rpcConn \<times> ptr list" where
  "closeRpc c =
     (if rc_closed c then (c, [])
      else (c\<lparr>rc_closed := True, rc_pending := []\<rparr>, map (\<lambda>x. pn_done (snd x)) (rc_pending c)))"

text \<open>\<open>send\<close>; \<open>ok\<close> says whether the socket takes the whole frame.\<close>

definition sendRpc :: "bool \<Rightarrow> rpcOut \<Rightarrow> rpcConn \<Rightarrow> rpcConn \<times> ptr list \<times> callFailure option" where
  "sendRpc ok body c =
     (if rc_closed c then (c, [], Some ErrClosed)
      else if ok then (c\<lparr>rc_written := rc_written c @ [body]\<rparr>, [], None)
      else let (c1, calls) = closeRpc c in (c1, calls, Some ErrIO))"

text \<open>\<open>begin\<close>, the part under \<open>stateMu\<close>: an identifier for the call, or an error.\<close>

definition allotCall :: "rpcPending \<Rightarrow> rpcConn \<Rightarrow> rpcConn \<times> (callFailure + int)" where
  "allotCall p c =
     (if rc_closed c then (c, Inl ErrClosed)
      else if rc_next c = MaxRequestID then (c, Inl ErrExhausted)
      else if length (rc_pending c) \<ge> MaxOperations then (c, Inl (ErrRemote \<lparr>er_Code = Busy, er_Message = ''busy'', er_Data = None\<rparr>))
      else let i = rc_next c + 1 in (c\<lparr>rc_next := i, rc_pending := gm_set i p (rc_pending c)\<rparr>, Inr i))"

text \<open>\<open>begin\<close>, the part that writes; \<open>fits\<close> says whether \<open>EncodeRequest\<close> stays within a frame.\<close>

definition writeCall :: "bool \<Rightarrow> bool \<Rightarrow> int \<Rightarrow> gostring \<Rightarrow> params \<Rightarrow> rpcConn \<Rightarrow> rpcConn \<times> ptr list \<times> callFailure option" where
  "writeCall fits ok i method params c =
     (if \<not> fits then (c, [], Some ErrInvalid) else sendRpc ok (OutRequest i method params) c)"

definition dropCall :: "int \<Rightarrow> ptr \<Rightarrow> rpcConn \<Rightarrow> rpcConn \<times> bool" where
  "dropCall i d c =
     (case gm_get (rc_pending c) i of
        None \<Rightarrow> (c, False)
      | Some p \<Rightarrow> if pn_done p = d then (c\<lparr>rc_pending := gm_del i (rc_pending c)\<rparr>, True) else (c, False))"

definition abandon :: "int \<Rightarrow> ptr \<Rightarrow> rpcConn \<Rightarrow> rpcConn \<times> bool" where
  "abandon i d c =
     (case gm_get (rc_pending c) i of
        None \<Rightarrow> (c, False)
      | Some p \<Rightarrow>
          if pn_done p \<noteq> d then (c, False)
          else (c\<lparr>rc_pending := gm_set i (p\<lparr>pn_result := False, pn_seen := False, pn_drain := True\<rparr>) (rc_pending c)\<rparr>, True))"

section \<open>The reader\<close>

text \<open>\<open>Error\<close> and \<open>Result\<close> of a request: \<open>fits\<close> says that the response is valid and within a frame.\<close>

definition answerRpc :: "bool \<Rightarrow> bool \<Rightarrow> rpcOut \<Rightarrow> rpcConn \<Rightarrow> rpcConn \<times> ptr list \<times> callFailure option" where
  "answerRpc fits ok body c = (if \<not> fits then (c, [], Some ErrInvalid) else sendRpc ok body c)"

definition rejectFrame :: "bool \<Rightarrow> bool \<Rightarrow> Frame \<Rightarrow> int \<Rightarrow> rpcConn \<Rightarrow> rpcConn \<times> ptr list" where
  "rejectFrame fits ok frame code c =
     (let (c1, calls1, e) = answerRpc fits ok (OutError (fr_ID frame) code None) c;
          (c2, calls2) = closeRpc c1
      in (c2, calls1 @ calls2))"

definition receiveRequest :: "bool \<Rightarrow> bool \<Rightarrow> Frame \<Rightarrow> rpcConn \<Rightarrow> rpcConn \<times> ptr list" where
  "receiveRequest fits ok frame c =
     (if fr_ID frame \<le> rc_last c then rejectFrame fits ok frame InvalidFrame c
      else
        let c1 = c\<lparr>rc_last := fr_ID frame\<rparr> in
        case DecodeParams (fr_Method frame) (fr_Params frame) of
          Some p \<Rightarrow>
            if Allows (fr_Method frame) (\<not> rc_client c)
            then (c1\<lparr>rc_handled := rc_handled c1 @ [\<lparr>rq_ID = fr_ID frame, rq_Method = fr_Method frame, rq_Params = p\<rparr>]\<rparr>, [])
            else rejectFrame fits ok frame (if fr_Method frame = ''session.hello'' then InvalidHello else InvalidFrame) c1
        | None \<Rightarrow> rejectFrame fits ok frame (if fr_Method frame = ''session.hello'' then InvalidHello else InvalidFrame) c1)"

text \<open>\<open>receiveResponse\<close>, the part under \<open>stateMu\<close>: the call that the response belongs to, which is no longer pending.\<close>

definition takeCall :: "Frame \<Rightarrow> rpcConn \<Rightarrow> rpcConn \<times> ptr list \<times> rpcPending option" where
  "takeCall frame c =
     (case gm_get (rc_pending c) (fr_ID frame) of
        None \<Rightarrow> (let (c1, calls) = closeRpc c in (c1, calls, None))
      | Some p \<Rightarrow> (c\<lparr>rc_pending := gm_del (fr_ID frame) (rc_pending c)\<rparr>, [], Some p))"

text \<open>
  The rest of \<open>receiveResponse\<close>: the result for the caller's variable, the error for its channel and the
  channels of the other calls when the connection ends here. \<open>seen\<close> is what the observer returns.
\<close>

definition settleCall :: "gostring option \<Rightarrow> Frame \<Rightarrow> rpcPending \<Rightarrow> rpcConn \<Rightarrow> rpcConn \<times> ptr list \<times> result option \<times> callFailure option" where
  "settleCall seen frame p c =
     (case fr_Error frame of
        Some e \<Rightarrow> (c, [], None, Some (ErrRemote e))
      | None \<Rightarrow>
          (case DecodeResult (pn_method p) (fr_Result frame) of
             None \<Rightarrow> (let (c1, calls) = closeRpc c in (c1, calls, None, Some ErrInvalid))
           | Some v \<Rightarrow>
               if \<not> pn_drain p \<and> \<not> pn_result p then (let (c1, calls) = closeRpc c in (c1, calls, None, Some ErrInvalid))
               else
                 let target = (if pn_drain p then None else Some v) in
                 if pn_seen p then
                   (case seen of
                      None \<Rightarrow> (c, [], target, None)
                    | Some e \<Rightarrow> (let (c1, calls) = closeRpc c in (c1, calls, target, Some (ErrObserver e))))
                 else (c, [], target, None)))"

section \<open>The goroutines of a connection\<close>

text \<open>
  Where a call is: between the allotment of its identifier and the write (holding \<open>writeMu\<close>), failed before
  its call was dropped, waiting for a result or the end of its context, bound to wait for the result,
  returned with the error of its context, or returned with a result.
\<close>

datatype callPhase = CSending int gostring params | CFailed int callFailure | CWaiting int | CBound | CGone | CBack "callFailure option"

record rpcSys =
  ry_conn :: rpcConn
  ry_mutex :: "ptr option"
  ry_hand :: "(Frame \<times> rpcPending) option"
  ry_reading :: bool
  ry_phase :: "ptr \<Rightarrow> callPhase option"
  ry_sent :: "ptr \<Rightarrow> callFailure option list"
  ry_target :: "ptr \<Rightarrow> result option"
  ry_calls :: ptr

definition notify :: "callFailure \<Rightarrow> ptr list \<Rightarrow> (ptr \<Rightarrow> callFailure option list) \<Rightarrow> ptr \<Rightarrow> callFailure option list" where
  "notify e calls sent = fold (\<lambda>d f. f(d := f d @ [Some e])) calls sent"

definition EncodeParams :: "gostring \<Rightarrow> params \<Rightarrow> bool" where
  "EncodeParams method params \<longleftrightarrow> DecodeParams method (Some params) \<noteq> None"

definition newPending :: "gostring \<Rightarrow> bool \<Rightarrow> ptr \<Rightarrow> rpcPending" where
  "newPending method seen d = \<lparr>pn_method = method, pn_result = True, pn_done = d, pn_seen = seen, pn_drain = False\<rparr>"

inductive rpc_step :: "rpcSys \<Rightarrow> rpcSys \<Rightarrow> bool" where
  call_invalid: "\<lbrakk>d = ry_calls s; \<not> EncodeParams method params\<rbrakk> \<Longrightarrow>
     rpc_step s (s\<lparr>ry_calls := Suc d, ry_phase := (ry_phase s)(d \<mapsto> CWaiting 0), ry_sent := (ry_sent s)(d := ry_sent s d @ [Some ErrInvalid])\<rparr>)"
| call_refused: "\<lbrakk>d = ry_calls s; EncodeParams method params; ry_mutex s = None; allotCall (newPending method seen d) (ry_conn s) = (c, Inl e)\<rbrakk> \<Longrightarrow>
     rpc_step s (s\<lparr>ry_conn := c, ry_calls := Suc d, ry_phase := (ry_phase s)(d \<mapsto> CWaiting 0), ry_sent := (ry_sent s)(d := ry_sent s d @ [Some e])\<rparr>)"
| call_allotted: "\<lbrakk>d = ry_calls s; EncodeParams method params; ry_mutex s = None; allotCall (newPending method seen d) (ry_conn s) = (c, Inr i)\<rbrakk> \<Longrightarrow>
     rpc_step s (s\<lparr>ry_conn := c, ry_mutex := Some d, ry_calls := Suc d, ry_phase := (ry_phase s)(d \<mapsto> CSending i method params)\<rparr>)"
| call_written: "\<lbrakk>ry_mutex s = Some d; ry_phase s d = Some (CSending i method params); writeCall fits ok i method params (ry_conn s) = (c, calls, e)\<rbrakk> \<Longrightarrow>
     rpc_step s (s\<lparr>ry_conn := c, ry_sent := notify ErrIO calls (ry_sent s), ry_mutex := None,
       ry_phase := (ry_phase s)(d \<mapsto> (case e of None \<Rightarrow> CWaiting i | Some e \<Rightarrow> CFailed i e))\<rparr>)"
| call_dropped: "\<lbrakk>ry_phase s d = Some (CFailed i e); dropCall i d (ry_conn s) = (c, ok)\<rbrakk> \<Longrightarrow>
     rpc_step s (s\<lparr>ry_conn := c, ry_sent := (if ok then (ry_sent s)(d := ry_sent s d @ [Some e]) else ry_sent s),
       ry_phase := (ry_phase s)(d \<mapsto> CWaiting i)\<rparr>)"
| call_returns: "\<lbrakk>ry_phase s d = Some (CWaiting i) \<or> ry_phase s d = Some CBound; ry_sent s d = r # rs\<rbrakk> \<Longrightarrow>
     rpc_step s (s\<lparr>ry_phase := (ry_phase s)(d \<mapsto> CBack r)\<rparr>)"
| call_cancelled: "\<lbrakk>ry_phase s d = Some (CWaiting i); abandon i d (ry_conn s) = (c, ok)\<rbrakk> \<Longrightarrow>
     rpc_step s (s\<lparr>ry_conn := c, ry_phase := (ry_phase s)(d \<mapsto> (if ok then CGone else CBound))\<rparr>)"
| answers: "\<lbrakk>ry_mutex s = None; body = OutResult i v \<or> body = OutError i code data; answerRpc fits ok body (ry_conn s) = (c, calls, e)\<rbrakk> \<Longrightarrow>
     rpc_step s (s\<lparr>ry_conn := c, ry_sent := notify ErrIO calls (ry_sent s)\<rparr>)"
| closes: "closeRpc (ry_conn s) = (c, calls) \<Longrightarrow>
     rpc_step s (s\<lparr>ry_conn := c, ry_sent := notify ErrClosed calls (ry_sent s)\<rparr>)"
| reader_ends: "\<lbrakk>ry_reading s; ry_hand s = None; closeRpc (ry_conn s) = (c, calls)\<rbrakk> \<Longrightarrow>
     rpc_step s (s\<lparr>ry_conn := c, ry_sent := notify ErrIO calls (ry_sent s), ry_reading := False\<rparr>)"
| reader_refuses: "\<lbrakk>ry_reading s; ry_hand s = None; ry_mutex s = None; fr_ID frame > 0; fr_Request frame;
      rejectFrame fits ok frame InvalidFrame (ry_conn s) = (c, calls)\<rbrakk> \<Longrightarrow>
     rpc_step s (s\<lparr>ry_conn := c, ry_sent := notify (if fits \<and> \<not> ok then ErrIO else ErrInvalid) calls (ry_sent s), ry_reading := False\<rparr>)"
| reader_request: "\<lbrakk>ry_reading s; ry_hand s = None; fr_Request frame; receiveRequest fits ok frame (ry_conn s) = (c, calls);
      ry_mutex s = None \<or> rc_handled c \<noteq> rc_handled (ry_conn s)\<rbrakk> \<Longrightarrow>
     rpc_step s (s\<lparr>ry_conn := c, ry_sent := notify (if fits \<and> \<not> ok then ErrIO else ErrInvalid) calls (ry_sent s)\<rparr>)"
| reader_unmatched: "\<lbrakk>ry_reading s; ry_hand s = None; \<not> fr_Request frame; takeCall frame (ry_conn s) = (c, calls, None)\<rbrakk> \<Longrightarrow>
     rpc_step s (s\<lparr>ry_conn := c, ry_sent := notify ErrInvalid calls (ry_sent s)\<rparr>)"
| reader_takes: "\<lbrakk>ry_reading s; ry_hand s = None; \<not> fr_Request frame; takeCall frame (ry_conn s) = (c, calls, Some p)\<rbrakk> \<Longrightarrow>
     rpc_step s (s\<lparr>ry_conn := c, ry_hand := Some (frame, p)\<rparr>)"
| reader_settles: "\<lbrakk>ry_hand s = Some (frame, p); d = pn_done p; settleCall seen frame p (ry_conn s) = (c, calls, v, e);
      sent = (case e of None \<Rightarrow> ry_sent s | Some x \<Rightarrow> notify x calls (ry_sent s))\<rbrakk> \<Longrightarrow>
     rpc_step s (s\<lparr>ry_conn := c, ry_hand := None, ry_sent := sent(d := sent d @ [e]),
       ry_target := (if v = None then ry_target s else (ry_target s)(d := v))\<rparr>)"

definition startRpc :: "bool \<Rightarrow> rpcSys" where
  "startRpc client = \<lparr>ry_conn = newRpc client, ry_mutex = None, ry_hand = None, ry_reading = True, ry_phase = (\<lambda>_. None),
     ry_sent = (\<lambda>_. []), ry_target = (\<lambda>_. None), ry_calls = 0\<rparr>"

section \<open>The invariant\<close>

definition dones :: "rpcConn \<Rightarrow> ptr multiset" where
  "dones c = mset (map (\<lambda>x. pn_done (snd x)) (rc_pending c))"

fun request_id :: "rpcOut \<Rightarrow> int option" where
  "request_id (OutRequest i m p) = Some i"
| "request_id _ = None"

definition requestIDs :: "rpcConn \<Rightarrow> int list" where
  "requestIDs c = List.map_filter request_id (rc_written c)"

definition in_hand :: "rpcSys \<Rightarrow> ptr \<Rightarrow> nat" where
  "in_hand s d = (case ry_hand s of Some (f, p) \<Rightarrow> if pn_done p = d then 1 else 0 | None \<Rightarrow> 0)"

definition tokens :: "rpcSys \<Rightarrow> ptr \<Rightarrow> nat" where
  "tokens s d = count (dones (ry_conn s)) d + in_hand s d + length (ry_sent s d)"

definition table_ok :: "rpcConn \<Rightarrow> bool" where
  "table_ok c \<longleftrightarrow> gm_ok (rc_pending c) \<and> length (rc_pending c) \<le> MaxOperations \<and> 0 \<le> rc_next c \<and> rc_next c \<le> MaxRequestID
     \<and> (rc_closed c \<longrightarrow> rc_pending c = []) \<and> (\<forall>x \<in> set (rc_pending c). 0 < fst x \<and> fst x \<le> rc_next c)"

definition ordered :: "rpcConn \<Rightarrow> bool" where
  "ordered c \<longleftrightarrow> sorted_wrt (<) (requestIDs c) \<and> (\<forall>i \<in> set (requestIDs c). 0 < i \<and> i \<le> rc_next c)
     \<and> sorted_wrt (<) (map rq_ID (rc_handled c)) \<and> (\<forall>r \<in> set (rc_handled c). rq_ID r \<le> rc_last c)"

text \<open>The call that holds \<open>writeMu\<close> has the last identifier and no request with it is written.\<close>

definition order_ok :: "rpcSys \<Rightarrow> bool" where
  "order_ok s \<longleftrightarrow> ordered (ry_conn s)
     \<and> (\<forall>d i m p. ry_phase s d = Some (CSending i m p) \<longrightarrow>
          ry_mutex s = Some d \<and> i = rc_next (ry_conn s) \<and> 0 < i \<and> (\<forall>j \<in> set (requestIDs (ry_conn s)). j < i))"

definition held :: "rpcSys \<Rightarrow> rpcPending set" where
  "held s = snd ` set (rc_pending (ry_conn s)) \<union> (case ry_hand s of Some (f, p) \<Rightarrow> {p} | None \<Rightarrow> {})"

definition calls_ok :: "rpcSys \<Rightarrow> bool" where
  "calls_ok s \<longleftrightarrow> (\<forall>d. tokens s d = (if d < ry_calls s then 1 else 0))
     \<and> (\<forall>d \<ge> ry_calls s. ry_phase s d = None)
     \<and> (\<forall>d. ry_target s d \<noteq> None \<longrightarrow> ry_sent s d \<noteq> [] \<and> ry_phase s d \<noteq> Some CGone)
     \<and> (\<forall>p \<in> held s. ry_phase s (pn_done p) = Some CGone \<longrightarrow> pn_drain p)
     \<and> (\<forall>d r. ry_phase s d = Some (CBack r) \<longrightarrow> ry_sent s d = [r])"

definition rpc_inv :: "rpcSys \<Rightarrow> bool" where
  "rpc_inv s \<longleftrightarrow> table_ok (ry_conn s) \<and> order_ok s \<and> calls_ok s"

section \<open>The operations\<close>

text \<open>Operations that may end the connection and write no request: what they take out of the table is what they return.\<close>

definition sheds :: "rpcConn \<Rightarrow> rpcConn \<Rightarrow> ptr list \<Rightarrow> bool" where
  "sheds c c' calls \<longleftrightarrow> dones c = dones c' + mset calls \<and> set (rc_pending c') \<subseteq> set (rc_pending c) \<and> (table_ok c \<longrightarrow> table_ok c')
     \<and> rc_next c' = rc_next c \<and> requestIDs c' = requestIDs c \<and> rc_handled c' = rc_handled c \<and> rc_last c' = rc_last c"

lemma sheds_refl [simp]: "sheds c c []"
  by (simp add: sheds_def)

lemma sheds_trans: "sheds a b xs \<Longrightarrow> sheds b c ys \<Longrightarrow> sheds a c (xs @ ys)"
  by (auto simp: sheds_def)

lemma sheds_close: "closeRpc c = (c', calls) \<Longrightarrow> sheds c c' calls"
  by (auto simp: closeRpc_def sheds_def dones_def table_ok_def requestIDs_def split: if_splits)

lemma map_filter_snoc: "List.map_filter f (xs @ [x]) = List.map_filter f xs @ (case f x of None \<Rightarrow> [] | Some y \<Rightarrow> [y])"
  by (simp add: List.map_filter_def split: option.split)

lemma sendRpc_cases:
  assumes "sendRpc ok body c = (c', calls, e)"
  shows "e = None \<and> c' = c\<lparr>rc_written := rc_written c @ [body]\<rparr> \<and> calls = [] \<and> \<not> rc_closed c \<or> e \<noteq> None \<and> sheds c c' calls"
  using assms sheds_close[of c] by (auto simp: sendRpc_def split: if_splits prod.splits)

lemma sheds_written: "request_id body = None \<Longrightarrow> sheds c (c\<lparr>rc_written := rc_written c @ [body]\<rparr>) []"
  by (simp add: sheds_def dones_def table_ok_def requestIDs_def map_filter_snoc)

lemma sheds_answer:
  assumes "answerRpc fits ok body c = (c', calls, e)" "request_id body = None"
  shows "sheds c c' calls"
proof (cases fits)
  case True
  then have "sendRpc ok body c = (c', calls, e)" using assms(1) by (simp add: answerRpc_def)
  from sendRpc_cases[OF this] show ?thesis using sheds_written[OF assms(2)] by auto
qed (use assms in \<open>simp add: answerRpc_def\<close>)

lemma sheds_reject:
  assumes "rejectFrame fits ok frame code c = (c', calls)"
  shows "sheds c c' calls"
proof -
  obtain c1 calls1 e where a: "answerRpc fits ok (OutError (fr_ID frame) code None) c = (c1, calls1, e)" by (metis prod_cases3)
  obtain calls2 where b: "closeRpc c1 = (c', calls2)" and c: "calls = calls1 @ calls2"
    using assms a by (auto simp: rejectFrame_def split: prod.splits)
  show ?thesis unfolding c by (rule sheds_trans[OF sheds_answer[OF a] sheds_close[OF b]]) simp
qed

text \<open>What a request of the daemon changes besides: the last identifier and the handler's list.\<close>

lemma receiveRequest_cases:
  assumes "receiveRequest fits ok frame c = (c', calls)"
  obtains "sheds c c' calls"
    | "fr_ID frame > rc_last c" "sheds (c\<lparr>rc_last := fr_ID frame\<rparr>) c' calls"
    | p where "fr_ID frame > rc_last c" "calls = []"
        "c' = c\<lparr>rc_last := fr_ID frame, rc_handled := rc_handled c @ [\<lparr>rq_ID = fr_ID frame, rq_Method = fr_Method frame, rq_Params = p\<rparr>]\<rparr>"
proof (cases "fr_ID frame \<le> rc_last c")
  case True
  then have "rejectFrame fits ok frame InvalidFrame c = (c', calls)" using assms by (simp add: receiveRequest_def)
  then show ?thesis by (rule that(1)[OF sheds_reject])
next
  case False
  let ?c = "c\<lparr>rc_last := fr_ID frame\<rparr>" let ?code = "if fr_Method frame = ''session.hello'' then InvalidHello else InvalidFrame"
  show ?thesis
  proof (cases "\<exists>p. DecodeParams (fr_Method frame) (fr_Params frame) = Some p \<and> Allows (fr_Method frame) (\<not> rc_client c)")
    case True
    then obtain p where "DecodeParams (fr_Method frame) (fr_Params frame) = Some p" "Allows (fr_Method frame) (\<not> rc_client c)" by blast
    then show ?thesis using that(3)[of p] assms False by (simp add: receiveRequest_def Let_def)
  next
    case no: False
    then have "rejectFrame fits ok frame ?code ?c = (c', calls)" using assms False
      by (cases "DecodeParams (fr_Method frame) (fr_Params frame)") (simp_all add: receiveRequest_def Let_def split del: if_split)
    from that(2)[OF _ sheds_reject[OF this]] False show ?thesis by simp
  qed
qed

lemma notify_length: "length (notify e calls sent d) = length (sent d) + count (mset calls) d"
  unfolding notify_def by (induction calls arbitrary: sent) auto

lemma notify_other: "d \<notin> set calls \<Longrightarrow> notify e calls sent d = sent d"
  unfolding notify_def by (induction calls arbitrary: sent) auto

lemma notify_grows: "sent d \<noteq> [] \<Longrightarrow> notify e calls sent d \<noteq> []"
  using notify_length[of e calls sent d] by auto

lemma tokensD:
  assumes "calls_ok s"
  shows "tokens s d \<le> 1" "length (ry_sent s d) \<le> 1" "count (dones (ry_conn s)) d + length (ry_sent s d) \<le> 1"
proof -
  show "tokens s d \<le> 1" using assms by (simp add: calls_ok_def)
  then show "length (ry_sent s d) \<le> 1" "count (dones (ry_conn s)) d + length (ry_sent s d) \<le> 1" by (simp_all add: tokens_def)
qed

lemma in_hand_conn [simp]: "in_hand (s\<lparr>ry_conn := c\<rparr>) = in_hand s" "in_hand (s\<lparr>ry_sent := x\<rparr>) = in_hand s" "in_hand (s\<lparr>ry_phase := y\<rparr>) = in_hand s"
  "in_hand (s\<lparr>ry_calls := n\<rparr>) = in_hand s" "in_hand (s\<lparr>ry_mutex := m\<rparr>) = in_hand s" "in_hand (s\<lparr>ry_reading := b\<rparr>) = in_hand s"
  by (auto simp: in_hand_def)

text \<open>Ending the connection, an answer or a refusal keep the invariant.\<close>

lemma inv_shed:
  assumes "rpc_inv s" "sheds (ry_conn s) c calls"
  shows "rpc_inv (s\<lparr>ry_conn := c, ry_sent := notify e calls (ry_sent s)\<rparr>)"
proof -
  let ?s = "s\<lparr>ry_conn := c, ry_sent := notify e calls (ry_sent s)\<rparr>"
  have k: "calls_ok s" and o: "order_ok s" and t: "table_ok (ry_conn s)" using assms(1) by (simp_all add: rpc_inv_def)
  note sh = assms(2)[unfolded sheds_def]
  have "table_ok c" using sh t by simp
  moreover have "order_ok ?s" using o sh by (simp add: order_ok_def ordered_def)
  moreover have "calls_ok ?s"
    unfolding calls_ok_def
  proof (intro conjI allI impI ballI)
    show "tokens ?s d = (if d < ry_calls ?s then 1 else 0)" for d
    proof -
      have "tokens ?s d = tokens s d" using sh by (simp add: tokens_def notify_length)
      then show ?thesis using k by (simp add: calls_ok_def)
    qed
    show "ry_phase ?s d = None" if "ry_calls ?s \<le> d" for d using k that by (simp add: calls_ok_def)
    show "ry_sent ?s d \<noteq> []" "ry_phase ?s d \<noteq> Some CGone" if "ry_target ?s d \<noteq> None" for d
      using k that notify_grows[of "ry_sent s" d] by (auto simp: calls_ok_def)
    have "held ?s \<subseteq> held s" using sh by (auto simp: held_def)
    then show "pn_drain p" if "p \<in> held ?s" "ry_phase ?s (pn_done p) = Some CGone" for p using k that by (auto simp: calls_ok_def)
    show "ry_sent ?s d = [r]" if "ry_phase ?s d = Some (CBack r)" for d r
    proof -
      have a: "ry_sent s d = [r]" using k that by (simp add: calls_ok_def)
      then have "count (dones (ry_conn s)) d = 0" using tokensD(3)[OF k, of d] by simp
      then have "d \<notin> set calls" using sh by (metis count_mset_0_iff add_is_0 count_union)
      then show ?thesis using a by (simp add: notify_other)
    qed
  qed
  ultimately show ?thesis by (simp add: rpc_inv_def)
qed

lemma inv_reading [simp]: "rpc_inv (s\<lparr>ry_reading := b\<rparr>) = rpc_inv s"
  by (simp add: rpc_inv_def order_ok_def calls_ok_def tokens_def held_def)

section \<open>The steps\<close>

lemma rpc_invD:
  assumes "rpc_inv s"
  shows "table_ok (ry_conn s)" "order_ok s" "calls_ok s"
  using assms by (simp_all add: rpc_inv_def)

lemma phase_old: "rpc_inv s \<Longrightarrow> ry_phase s d \<noteq> None \<Longrightarrow> d < ry_calls s"
  using rpc_invD(3)[of s] unfolding calls_ok_def by (meson not_le)

lemma sendingD:
  assumes "order_ok s" "ry_phase s d = Some (CSending i m p)"
  shows "ry_mutex s = Some d" "i = rc_next (ry_conn s)" "0 < i" "\<forall>j \<in> set (requestIDs (ry_conn s)). j < i"
  using assms unfolding order_ok_def by blast+

lemma order_okI:
  assumes "ordered (ry_conn s)"
    "\<And>d i m p. ry_phase s d = Some (CSending i m p) \<Longrightarrow> ry_mutex s = Some d \<and> i = rc_next (ry_conn s) \<and> 0 < i \<and> (\<forall>j \<in> set (requestIDs (ry_conn s)). j < i)"
  shows "order_ok s"
  using assms unfolding order_ok_def by blast

text \<open>A call that changes its phase, other than by leaving before its result.\<close>

lemma inv_phase:
  assumes "rpc_inv s" "d < ry_calls s" "ph \<noteq> CGone" "\<And>i m p. ph \<noteq> CSending i m p" "\<And>r. ph = CBack r \<Longrightarrow> ry_sent s d = [r]"
    "ry_mutex s = Some d \<or> m = ry_mutex s"
  shows "rpc_inv (s\<lparr>ry_mutex := m, ry_phase := (ry_phase s)(d \<mapsto> ph)\<rparr>)"
proof -
  let ?s = "s\<lparr>ry_mutex := m, ry_phase := (ry_phase s)(d \<mapsto> ph)\<rparr>"
  have "order_ok ?s"
  proof (rule order_okI)
    show "ordered (ry_conn ?s)" using rpc_invD(2)[OF assms(1)] by (simp add: order_ok_def)
    fix x i a b
    assume "ry_phase ?s x = Some (CSending i a b)"
    then have x: "x \<noteq> d" "ry_phase s x = Some (CSending i a b)" using assms(4) by (auto split: if_splits)
    then show "ry_mutex ?s = Some x \<and> i = rc_next (ry_conn ?s) \<and> 0 < i \<and> (\<forall>j \<in> set (requestIDs (ry_conn ?s)). j < i)"
      using sendingD[OF rpc_invD(2)[OF assms(1)] x(2)] assms(6) by auto
  qed
  moreover have "calls_ok ?s"
    using rpc_invD(3)[OF assms(1)] assms(2,3,5) by (auto simp: calls_ok_def tokens_def held_def)
  ultimately show ?thesis using rpc_invD(1)[OF assms(1)] by (simp add: rpc_inv_def)
qed

lemma inv_refused:
  assumes "rpc_inv s" "d = ry_calls s"
  shows "rpc_inv (s\<lparr>ry_calls := Suc d, ry_phase := (ry_phase s)(d \<mapsto> CWaiting 0), ry_sent := (ry_sent s)(d := ry_sent s d @ [Some e])\<rparr>)"
proof -
  let ?s = "s\<lparr>ry_calls := Suc d, ry_phase := (ry_phase s)(d \<mapsto> CWaiting 0), ry_sent := (ry_sent s)(d := ry_sent s d @ [Some e])\<rparr>"
  note k = rpc_invD(3)[OF assms(1)]
  have t: "tokens ?s x = (if x < ry_calls ?s then 1 else 0)" for x
    using k assms(2) by (auto simp: calls_ok_def tokens_def less_Suc_eq)
  have "order_ok ?s" using rpc_invD(2)[OF assms(1)] by (auto simp: order_ok_def)
  moreover have "calls_ok ?s" using t k assms(2) by (auto simp: calls_ok_def held_def)
  ultimately show ?thesis using rpc_invD(1)[OF assms(1)] by (simp add: rpc_inv_def)
qed

lemma allot_refused: "allotCall p c = (c', Inl e) \<Longrightarrow> c' = c"
  by (auto simp: allotCall_def Let_def split: if_splits)

lemma allot_Inr:
  assumes "allotCall p c = (c', Inr i)"
  shows "i = rc_next c + 1" "c' = c\<lparr>rc_next := i, rc_pending := gm_set i p (rc_pending c)\<rparr>" "\<not> rc_closed c" "rc_next c \<noteq> MaxRequestID"
    "length (rc_pending c) < MaxOperations"
  using assms by (auto simp: allotCall_def Let_def split: if_splits)

lemma fresh_key: "table_ok c \<Longrightarrow> gm_get (rc_pending c) (rc_next c + 1) = None"
proof (rule ccontr)
  assume t: "table_ok c" and "gm_get (rc_pending c) (rc_next c + 1) \<noteq> None"
  then obtain p where "(rc_next c + 1, p) \<in> set (rc_pending c)" by (meson gm_get_in_set not_None_eq)
  then show False using t by (auto simp: table_ok_def)
qed

lemma inv_allotted:
  assumes "rpc_inv s" "d = ry_calls s" "ry_mutex s = None" "allotCall p (ry_conn s) = (c, Inr i)" "pn_done p = d"
  shows "rpc_inv (s\<lparr>ry_conn := c, ry_mutex := Some d, ry_calls := Suc d, ry_phase := (ry_phase s)(d \<mapsto> CSending i m ps)\<rparr>)"
proof -
  let ?s = "s\<lparr>ry_conn := c, ry_mutex := Some d, ry_calls := Suc d, ry_phase := (ry_phase s)(d \<mapsto> CSending i m ps)\<rparr>"
  note a = allot_Inr[OF assms(4)] and d = rpc_invD[OF assms(1)]
  have "gm_get (rc_pending (ry_conn s)) i = None" using fresh_key[OF d(1)] a(1) by simp
  then have new: "rc_pending c = rc_pending (ry_conn s) @ [(i, p)]" using a(2) by (simp add: gm_set_none)
  have same: "requestIDs c = requestIDs (ry_conn s)" "rc_handled c = rc_handled (ry_conn s)" "rc_last c = rc_last (ry_conn s)" "rc_next c = i"
    using a(2) by (simp_all add: requestIDs_def)
  have gm: "gm_ok (rc_pending c)" using d(1) a(2) by (simp add: table_ok_def)
  have tab: "table_ok c" unfolding table_ok_def
    using gm d(1) a new same by (auto simp: table_ok_def)
  have dn: "dones c = dones (ry_conn s) + {#d#}" using new assms(5) by (simp add: dones_def)
  have tok: "tokens ?s x = (if x < ry_calls ?s then 1 else 0)" for x
    using d(3) assms(2) dn by (auto simp: calls_ok_def tokens_def less_Suc_eq)
  have none: "ry_phase s x \<noteq> Some (CSending j m' p')" for x j m' p' using sendingD(1)[OF d(2)] assms(3) by (metis option.distinct(1))
  have o: "ordered (ry_conn s)" "0 \<le> rc_next (ry_conn s)" using d(1,2) by (simp_all add: order_ok_def table_ok_def)
  have "order_ok ?s"
  proof (rule order_okI)
    show "ordered (ry_conn ?s)" using o same a(1) by (force simp: ordered_def)
    show "ry_mutex ?s = Some x \<and> j = rc_next (ry_conn ?s) \<and> 0 < j \<and> (\<forall>k \<in> set (requestIDs (ry_conn ?s)). k < j)"
      if "ry_phase ?s x = Some (CSending j m' p')" for x j m' p'
      using that none o same a(1) by (force simp: ordered_def split: if_splits)
  qed
  moreover have "calls_ok ?s" using tok d(3) assms(2,5) new by (auto simp: calls_ok_def held_def)
  ultimately show ?thesis using tab by (simp add: rpc_inv_def)
qed

lemma inv_written:
  assumes "rpc_inv s" "ry_mutex s = Some d" "ry_phase s d = Some (CSending i m ps)" "\<not> rc_closed (ry_conn s)"
  shows "rpc_inv (s\<lparr>ry_conn := (ry_conn s)\<lparr>rc_written := rc_written (ry_conn s) @ [OutRequest i m ps]\<rparr>, ry_mutex := None, ry_phase := (ry_phase s)(d \<mapsto> CWaiting i)\<rparr>)"
proof -
  let ?c = "(ry_conn s)\<lparr>rc_written := rc_written (ry_conn s) @ [OutRequest i m ps]\<rparr>"
  let ?s1 = "s\<lparr>ry_mutex := None, ry_phase := (ry_phase s)(d \<mapsto> CWaiting i)\<rparr>"
  have i: "rpc_inv ?s1" by (rule inv_phase[OF assms(1) phase_old[OF assms(1)]]) (use assms in simp_all)
  have n: "i = rc_next (ry_conn s)" "0 < i" "\<forall>j \<in> set (requestIDs (ry_conn s)). j < i" using sendingD[OF rpc_invD(2)[OF assms(1)] assms(3)] by simp_all
  have r: "requestIDs ?c = requestIDs (ry_conn s) @ [i]" by (simp add: requestIDs_def map_filter_snoc)
  let ?s = "s\<lparr>ry_conn := ?c, ry_mutex := None, ry_phase := (ry_phase s)(d \<mapsto> CWaiting i)\<rparr>"
  have none: "ry_phase ?s1 x \<noteq> Some (CSending j m' p')" for x j m' p' using sendingD(1)[OF rpc_invD(2)[OF i], of x j m' p'] by auto
  have "order_ok ?s"
  proof (rule order_okI)
    show "ordered (ry_conn ?s)" using rpc_invD(2)[OF i] n r by (auto simp: order_ok_def ordered_def sorted_wrt_append)
  qed (use none in simp)
  moreover have "calls_ok ?s" using rpc_invD(3)[OF i] by (simp add: calls_ok_def tokens_def dones_def held_def)
  moreover have "table_ok ?c" using rpc_invD(1)[OF i] by (simp add: table_ok_def)
  ultimately show ?thesis unfolding rpc_inv_def by simp
qed

lemma table_del:
  assumes "table_ok c" "gm_get (rc_pending c) i = Some p"
  shows "table_ok (c\<lparr>rc_pending := gm_del i (rc_pending c)\<rparr>)" "dones c = dones (c\<lparr>rc_pending := gm_del i (rc_pending c)\<rparr>) + {#pn_done p#}"
    "set (gm_del i (rc_pending c)) \<subseteq> set (rc_pending c)"
proof -
  have ok: "gm_ok (rc_pending c)" using assms(1) by (simp add: table_ok_def)
  note m = mset_gm_del[OF ok assms(2)]
  show sub: "set (gm_del i (rc_pending c)) \<subseteq> set (rc_pending c)" using arg_cong[OF m, of set_mset] by auto
  have "length (rc_pending c) = Suc (length (gm_del i (rc_pending c)))" using arg_cong[OF m, of size] by simp
  then show "table_ok (c\<lparr>rc_pending := gm_del i (rc_pending c)\<rparr>)" using assms(1) ok sub by (auto simp: table_ok_def)
  show "dones c = dones (c\<lparr>rc_pending := gm_del i (rc_pending c)\<rparr>) + {#pn_done p#}"
    using arg_cong[OF m, of "image_mset (\<lambda>x. pn_done (snd x))"] by (simp add: dones_def)
qed

lemma table_set:
  assumes "table_ok c" "gm_get (rc_pending c) i = Some p" "pn_done q = pn_done p"
  shows "table_ok (c\<lparr>rc_pending := gm_set i q (rc_pending c)\<rparr>)" "dones (c\<lparr>rc_pending := gm_set i q (rc_pending c)\<rparr>) = dones c"
    "set (gm_set i q (rc_pending c)) \<subseteq> insert (i, q) (set (rc_pending c))"
proof -
  have ok: "gm_ok (rc_pending c)" using assms(1) by (simp add: table_ok_def)
  note m = mset_gm_del[OF ok assms(2)] mset_gm_set[OF ok, of i q]
  have e: "mset (gm_set i q (rc_pending c)) + {#(i, p)#} = mset (rc_pending c) + {#(i, q)#}" using m by simp
  have "set_mset (mset (gm_set i q (rc_pending c)) + {#(i, p)#}) = set_mset (mset (rc_pending c) + {#(i, q)#})" unfolding e ..
  then show sub: "set (gm_set i q (rc_pending c)) \<subseteq> insert (i, q) (set (rc_pending c))" by auto
  have "size (mset (gm_set i q (rc_pending c)) + {#(i, p)#}) = size (mset (rc_pending c) + {#(i, q)#})" unfolding e ..
  then have "length (gm_set i q (rc_pending c)) = length (rc_pending c)" by simp
  moreover have "(i, p) \<in> set (rc_pending c)" by (rule gm_get_in_set[OF assms(2)])
  ultimately show "table_ok (c\<lparr>rc_pending := gm_set i q (rc_pending c)\<rparr>)" using assms(1) ok sub by (fastforce simp: table_ok_def)
  have "image_mset (\<lambda>x. pn_done (snd x)) (mset (gm_set i q (rc_pending c)) + {#(i, p)#}) = image_mset (\<lambda>x. pn_done (snd x)) (mset (rc_pending c) + {#(i, q)#})"
    unfolding e ..
  then show "dones (c\<lparr>rc_pending := gm_set i q (rc_pending c)\<rparr>) = dones c" using assms(3) by (simp add: dones_def)
qed

lemma order_pending: "order_ok (s\<lparr>ry_conn := (ry_conn s)\<lparr>rc_pending := m\<rparr>\<rparr>) = order_ok s"
  by (simp add: order_ok_def ordered_def requestIDs_def)

lemma inv_dropped:
  assumes "rpc_inv s" "dropCall i d (ry_conn s) = (c, True)"
  shows "rpc_inv (s\<lparr>ry_conn := c, ry_sent := (ry_sent s)(d := ry_sent s d @ [e])\<rparr>)"
proof -
  obtain p where p: "gm_get (rc_pending (ry_conn s)) i = Some p" "pn_done p = d" "c = (ry_conn s)\<lparr>rc_pending := gm_del i (rc_pending (ry_conn s))\<rparr>"
    using assms(2) by (auto simp: dropCall_def split: option.splits if_splits)
  note t = table_del[OF rpc_invD(1)[OF assms(1)] p(1)]
  let ?s = "s\<lparr>ry_conn := c, ry_sent := (ry_sent s)(d := ry_sent s d @ [e])\<rparr>"
  note k = rpc_invD(3)[OF assms(1)]
  have one: "ry_sent s d = []" using tokensD(3)[OF k, of d] t(2) p(2) by simp
  have tok: "tokens ?s x = tokens s x" for x using t(2) p(2,3) by (simp add: tokens_def)
  have "held ?s \<subseteq> held s" using t(3) p(3) by (auto simp: held_def)
  then have "calls_ok ?s" using k one tok by (auto simp: calls_ok_def)
  moreover have "order_ok ?s" using rpc_invD(2)[OF assms(1)] p(3) by (simp add: order_ok_def ordered_def requestIDs_def)
  ultimately show ?thesis using t(1) p(3) by (simp add: rpc_inv_def)
qed

lemma done_unique:
  assumes "count (dones c) d \<le> 1" "x \<in> set (rc_pending c)" "y \<in> set (rc_pending c)" "pn_done (snd x) = d" "pn_done (snd y) = d"
  shows "x = y"
proof (rule ccontr)
  assume "x \<noteq> y"
  then have two: "{#x, y#} \<subseteq># mset (rc_pending c)" using assms(2,3) by (simp add: insert_subset_eq_iff in_diff_count)
  have "{#d, d#} \<subseteq># dones c" using image_mset_subseteq_mono[OF two, of "\<lambda>x. pn_done (snd x)"] assms(4,5) by (simp add: dones_def)
  then show False using assms(1) mset_subset_eq_count[of "{#d, d#}" "dones c" d] by simp
qed

lemma inv_abandoned:
  assumes "rpc_inv s" "abandon i d (ry_conn s) = (c, True)" "ry_phase s d = Some (CWaiting j)"
  shows "rpc_inv (s\<lparr>ry_conn := c, ry_phase := (ry_phase s)(d \<mapsto> CGone)\<rparr>)"
proof -
  obtain p where p: "gm_get (rc_pending (ry_conn s)) i = Some p" "pn_done p = d"
    and c: "c = (ry_conn s)\<lparr>rc_pending := gm_set i (p\<lparr>pn_result := False, pn_seen := False, pn_drain := True\<rparr>) (rc_pending (ry_conn s))\<rparr>"
    using assms(2) by (auto simp: abandon_def split: option.splits if_splits)
  let ?q = "p\<lparr>pn_result := False, pn_seen := False, pn_drain := True\<rparr>"
  note t = table_set[OF rpc_invD(1)[OF assms(1)] p(1), of ?q]
  note k = rpc_invD(3)[OF assms(1)]
  let ?s = "s\<lparr>ry_conn := c, ry_phase := (ry_phase s)(d \<mapsto> CGone)\<rparr>"
  have m: "(i, p) \<in> set (rc_pending (ry_conn s))" by (rule gm_get_in_set[OF p(1)])
  then have "d \<in># dones (ry_conn s)" using p(2) by (force simp: dones_def)
  then have "0 < count (dones (ry_conn s)) d" by simp
  then have "count (dones (ry_conn s)) d = 1 \<and> in_hand s d = 0 \<and> length (ry_sent s d) = 0"
    using tokensD(1)[OF k, of d] unfolding tokens_def by linarith
  then have one: "count (dones (ry_conn s)) d = 1" "in_hand s d = 0" "ry_sent s d = []" by simp_all
  have hand: "pn_done x \<noteq> d" if "ry_hand s = Some (f, x)" for f x using one(2) that by (auto simp: in_hand_def split: if_splits)
  have new: "(i, ?q) \<in> set (rc_pending c)" using mset_gm_set[of "rc_pending (ry_conn s)" i ?q] rpc_invD(1)[OF assms(1)] c
    by (auto simp: table_ok_def dest: arg_cong[of _ _ set_mset])
  have other: "x = (i, ?q)" if "x \<in> set (rc_pending c)" "pn_done (snd x) = d" for x
    by (rule done_unique[OF _ that(1) new that(2)]) (use one(1) t(2) c p(2) in simp_all)
  have "pn_drain x" if "x \<in> held ?s" "ry_phase ?s (pn_done x) = Some CGone" for x
  proof (cases "pn_done x = d")
    case True
    then have "x \<in> snd ` set (rc_pending c)" using that(1) hand by (auto simp: held_def split: option.splits)
    then obtain y where "y \<in> set (rc_pending c)" "x = snd y" by blast
    then show ?thesis using other[of y] True by simp
  next
    case False
    then have "x \<in> held s" using that(1) t(3) c p(2) by (fastforce simp: held_def split: option.splits)
    then show ?thesis using k that(2) False by (simp add: calls_ok_def)
  qed
  moreover have "tokens ?s x = tokens s x" for x using t(2) c by (simp add: tokens_def)
  ultimately have "calls_ok ?s" using k one(3) phase_old[OF assms(1), of d] assms(3) by (auto simp: calls_ok_def)
  moreover have "order_ok ?s"
  proof (rule order_okI)
    show "ordered (ry_conn ?s)" using rpc_invD(2)[OF assms(1)] c by (simp add: order_ok_def ordered_def requestIDs_def)
    fix x j a b
    assume "ry_phase ?s x = Some (CSending j a b)"
    then have "ry_phase s x = Some (CSending j a b)" by (auto split: if_splits)
    from sendingD[OF rpc_invD(2)[OF assms(1)] this] c
    show "ry_mutex ?s = Some x \<and> j = rc_next (ry_conn ?s) \<and> 0 < j \<and> (\<forall>k \<in> set (requestIDs (ry_conn ?s)). k < j)" by (simp add: requestIDs_def)
  qed
  ultimately show ?thesis using t(1) c by (simp add: rpc_inv_def)
qed

lemma inv_taken:
  assumes "rpc_inv s" "ry_hand s = None" "gm_get (rc_pending (ry_conn s)) i = Some p"
  shows "rpc_inv (s\<lparr>ry_conn := (ry_conn s)\<lparr>rc_pending := gm_del i (rc_pending (ry_conn s))\<rparr>, ry_hand := Some (frame, p)\<rparr>)"
proof -
  note t = table_del[OF rpc_invD(1)[OF assms(1)] assms(3)] and k = rpc_invD(3)[OF assms(1)]
  let ?s = "s\<lparr>ry_conn := (ry_conn s)\<lparr>rc_pending := gm_del i (rc_pending (ry_conn s))\<rparr>, ry_hand := Some (frame, p)\<rparr>"
  have "tokens ?s x = tokens s x" for x using t(2) assms(2) by (simp add: tokens_def in_hand_def)
  moreover have "held ?s \<subseteq> held s" using t(3) gm_get_in_set[OF assms(3)] by (force simp: held_def)
  ultimately have "calls_ok ?s" using k by (auto simp: calls_ok_def)
  moreover have "order_ok ?s" using rpc_invD(2)[OF assms(1)] by (simp add: order_ok_def ordered_def requestIDs_def)
  ultimately show ?thesis using t(1) by (simp add: rpc_inv_def)
qed

lemma settleCall_sheds:
  assumes "settleCall seen frame p c = (c', calls, v, e)"
  shows "sheds c c' calls" "e = None \<longrightarrow> calls = []" "pn_drain p \<longrightarrow> v = None"
  using assms sheds_close[of c] by (auto simp: settleCall_def Let_def split: option.splits if_splits prod.splits)

text \<open>The reader's last step: the call in its hand gets its result.\<close>

lemma inv_settled:
  assumes "rpc_inv s" "ry_hand s = Some (frame, p)" "v = None \<or> \<not> pn_drain p"
  shows "rpc_inv (s\<lparr>ry_hand := None, ry_sent := (ry_sent s)(pn_done p := ry_sent s (pn_done p) @ [e]),
    ry_target := (if v = None then ry_target s else (ry_target s)(pn_done p := v))\<rparr>)"
proof -
  let ?d = "pn_done p"
  let ?s = "s\<lparr>ry_hand := None, ry_sent := (ry_sent s)(?d := ry_sent s ?d @ [e]), ry_target := (if v = None then ry_target s else (ry_target s)(?d := v))\<rparr>"
  note k = rpc_invD(3)[OF assms(1)]
  have h: "in_hand s ?d = 1" using assms(2) by (simp add: in_hand_def)
  then have one: "ry_sent s ?d = []" using tokensD(1)[OF k, of ?d] by (simp add: tokens_def)
  have "tokens ?s x = tokens s x" for x using assms(2) by (simp add: tokens_def in_hand_def)
  moreover have "held ?s \<subseteq> held s" by (auto simp: held_def)
  moreover have "ry_phase s ?d \<noteq> Some CGone" if "v \<noteq> None" using k assms(2,3) that by (auto simp: calls_ok_def held_def)
  ultimately have "calls_ok ?s" using k one by (auto simp: calls_ok_def)
  moreover have "order_ok ?s" using rpc_invD(2)[OF assms(1)] by (simp add: order_ok_def)
  ultimately show ?thesis using rpc_invD(1)[OF assms(1)] by (simp add: rpc_inv_def)
qed

lemma inv_last: "rpc_inv s \<Longrightarrow> rc_last (ry_conn s) < i \<Longrightarrow> rpc_inv (s\<lparr>ry_conn := (ry_conn s)\<lparr>rc_last := i\<rparr>\<rparr>)"
  by (force simp: rpc_inv_def order_ok_def ordered_def calls_ok_def tokens_def dones_def held_def table_ok_def requestIDs_def)

lemma inv_handled:
  assumes "rpc_inv s" "rc_last (ry_conn s) < rq_ID r"
  shows "rpc_inv (s\<lparr>ry_conn := (ry_conn s)\<lparr>rc_last := rq_ID r, rc_handled := rc_handled (ry_conn s) @ [r]\<rparr>\<rparr>)"
  using assms by (force simp: rpc_inv_def order_ok_def ordered_def calls_ok_def tokens_def dones_def held_def table_ok_def requestIDs_def sorted_wrt_append)

lemma rpc_step_inv:
  assumes "rpc_inv s" "rpc_step s s'"
  shows "rpc_inv s'"
  using assms(2)
proof cases
  case (call_invalid d m params)
  then show ?thesis using inv_refused[OF assms(1)] by simp
next
  case (call_refused d m params seen c e)
  then show ?thesis using inv_refused[OF assms(1)] allot_refused[OF call_refused(5)] by simp
next
  case (call_allotted d m params seen c i)
  then show ?thesis using inv_allotted[OF assms(1) call_allotted(2,4,5)] by (simp add: newPending_def)
next
  case (call_written d i m params fits ok c calls e)
  have old: "d < ry_calls s" using phase_old[OF assms(1)] call_written(3) by simp
  from call_written(4) consider "e = None" "c = (ry_conn s)\<lparr>rc_written := rc_written (ry_conn s) @ [OutRequest i m params]\<rparr>" "calls = []" "\<not> rc_closed (ry_conn s)"
    | x where "e = Some x" "sheds (ry_conn s) c calls"
    using sendRpc_cases[of ok "OutRequest i m params" "ry_conn s" c calls e] by (auto simp: writeCall_def split: if_splits)
  then show ?thesis
  proof cases
    case 1
    then show ?thesis using call_written(1) inv_written[OF assms(1) call_written(2,3)] by (simp add: notify_def)
  next
    case 2
    let ?s = "s\<lparr>ry_conn := c, ry_sent := notify ErrIO calls (ry_sent s)\<rparr>"
    have "rpc_inv (?s\<lparr>ry_mutex := None, ry_phase := (ry_phase ?s)(d \<mapsto> CFailed i x)\<rparr>)"
      by (rule inv_phase[OF inv_shed[OF assms(1) 2(2)]]) (use old call_written(2) in simp_all)
    then show ?thesis using call_written(1) 2(1) by simp
  qed
next
  case (call_dropped d i e c ok)
  have old: "d < ry_calls s" using phase_old[OF assms(1)] call_dropped(2) by simp
  have "rpc_inv (s\<lparr>ry_conn := c, ry_sent := (if ok then (ry_sent s)(d := ry_sent s d @ [Some e]) else ry_sent s)\<rparr>)"
    using inv_dropped[OF assms(1), of i d c "Some e"] call_dropped(3) assms(1) by (cases ok) (auto simp: dropCall_def split: option.splits if_splits)
  from inv_phase[OF this, of d "CWaiting i" "ry_mutex s"] old call_dropped(1) show ?thesis by simp
next
  case (call_returns d i r rs)
  have old: "d < ry_calls s" using phase_old[OF assms(1)] call_returns(2) by auto
  have "ry_sent s d = [r]" using tokensD(2)[OF rpc_invD(3)[OF assms(1)], of d] call_returns(3) by simp
  then show ?thesis using inv_phase[OF assms(1) old, of "CBack r" "ry_mutex s"] call_returns(1) by simp
next
  case (call_cancelled d i c ok)
  have old: "d < ry_calls s" using phase_old[OF assms(1)] call_cancelled(2) by simp
  show ?thesis
  proof (cases ok)
    case True
    then show ?thesis using inv_abandoned[OF assms(1) _ call_cancelled(2), of i c] call_cancelled(1,3) by simp
  next
    case False
    then have "c = ry_conn s" using call_cancelled(3) by (auto simp: abandon_def split: option.splits if_splits)
    then show ?thesis using inv_phase[OF assms(1) old, of CBound "ry_mutex s"] call_cancelled(1) False by simp
  qed
next
  case (answers body i v code data fits ok c calls e)
  then show ?thesis using inv_shed[OF assms(1) sheds_answer[OF answers(4)]] by auto
next
  case (closes c calls)
  then show ?thesis using inv_shed[OF assms(1) sheds_close] by simp
next
  case (reader_ends c calls)
  have "rpc_inv ((s\<lparr>ry_conn := c, ry_sent := notify ErrIO calls (ry_sent s)\<rparr>)\<lparr>ry_reading := False\<rparr>)"
    using inv_shed[OF assms(1) sheds_close[OF reader_ends(4)]] by (simp only: inv_reading)
  then show ?thesis using reader_ends(1) by simp
next
  case (reader_refuses frame fits ok c calls)
  have "rpc_inv ((s\<lparr>ry_conn := c, ry_sent := notify e calls (ry_sent s)\<rparr>)\<lparr>ry_reading := False\<rparr>)" for e
    using inv_shed[OF assms(1) sheds_reject[OF reader_refuses(7)]] by (simp only: inv_reading)
  then show ?thesis by (simp add: reader_refuses(1))
next
  case (reader_request frame fits ok c calls)
  from reader_request(5) show ?thesis
  proof (cases rule: receiveRequest_cases)
    case 1
    then show ?thesis using inv_shed[OF assms(1)] reader_request(1) by simp
  next
    case 2
    have "rpc_inv (s\<lparr>ry_conn := (ry_conn s)\<lparr>rc_last := fr_ID frame\<rparr>\<rparr>)" by (rule inv_last[OF assms(1) 2(1)])
    from inv_shed[OF this, of c calls] 2(2) show ?thesis using reader_request(1) by simp
  next
    case (3 p)
    then show ?thesis using inv_handled[OF assms(1), of "\<lparr>rq_ID = fr_ID frame, rq_Method = fr_Method frame, rq_Params = p\<rparr>"] reader_request(1)
      by (simp add: notify_def)
  qed
next
  case (reader_unmatched frame c calls)
  then have "sheds (ry_conn s) c calls" using sheds_close by (auto simp: takeCall_def split: prod.splits option.splits)
  then show ?thesis using inv_shed[OF assms(1)] reader_unmatched(1) by simp
next
  case (reader_takes frame c calls p)
  then have "gm_get (rc_pending (ry_conn s)) (fr_ID frame) = Some p" "c = (ry_conn s)\<lparr>rc_pending := gm_del (fr_ID frame) (rc_pending (ry_conn s))\<rparr>"
    by (auto simp: takeCall_def split: prod.splits option.splits)
  then show ?thesis using inv_taken[OF assms(1) reader_takes(3)] reader_takes(1) by simp
next
  case (reader_settles frame p d seen c calls v e sent)
  note st = settleCall_sheds[OF reader_settles(4)]
  let ?s = "s\<lparr>ry_conn := c, ry_sent := sent\<rparr>"
  have "rpc_inv ?s" using reader_settles(5) inv_shed[OF assms(1) st(1)] st(2) by (cases e) (auto simp: notify_def dest: inv_shed[OF assms(1), of c "[]"])
  from inv_settled[OF this, of frame p v e] show ?thesis using reader_settles(1-3) st(3) by auto
qed

lemma rpc_inv_start: "rpc_inv (startRpc b)"
  by (simp add: rpc_inv_def startRpc_def newRpc_def table_ok_def order_ok_def ordered_def calls_ok_def tokens_def dones_def in_hand_def held_def requestIDs_def)

interpretation rpc_sys: transition_system "\<lambda>s. \<exists>b. s = startRpc b" rpc_step rpc_inv
proof unfold_locales
  show "\<exists>b. s = startRpc b \<Longrightarrow> rpc_inv s" for s using rpc_inv_start by auto
  show "rpc_inv s \<Longrightarrow> rpc_step s t \<Longrightarrow> rpc_inv t" for s t by (rule rpc_step_inv)
qed

section \<open>What callers rely on\<close>

text \<open>
  C10: (client library) Whatever the daemon sends, whenever calls are cancelled and whoever closes the connection, the
  channel of a call gets at most one result. A call without one is still in the table or in the reader's
  hands, and once the connection is closed and the reader holds nothing every call has its result, so no
  caller waits for ever. A caller returns the result that was sent, and after a caller has returned with the
  error of its context the reader never writes to its result variable.
\<close>

theorem rpc_calls_settle_once:
  assumes "reach (\<lambda>s. \<exists>b. s = startRpc b) rpc_step s" "d < ry_calls s"
  shows "length (ry_sent s d) \<le> 1 \<and> (ry_sent s d = [] \<longrightarrow> d \<in># dones (ry_conn s) \<or> in_hand s d = 1)
    \<and> (rc_closed (ry_conn s) \<and> ry_hand s = None \<longrightarrow> length (ry_sent s d) = 1)
    \<and> (\<forall>r. ry_phase s d = Some (CBack r) \<longrightarrow> ry_sent s d = [r])
    \<and> (ry_phase s d = Some CGone \<longrightarrow> ry_target s d = None)"
proof -
  note i = rpc_invD[OF rpc_sys.reach_inv[OF assms(1)]]
  have t: "tokens s d = 1" using i(3) assms(2) by (simp add: calls_ok_def)
  have "ry_sent s d = [] \<longrightarrow> d \<in># dones (ry_conn s) \<or> in_hand s d = 1"
  proof
    assume "ry_sent s d = []"
    then have "0 < count (dones (ry_conn s)) d \<or> in_hand s d = 1" using t unfolding tokens_def by (metis add_cancel_left_left add.right_neutral gr0I list.size(3))
    then show "d \<in># dones (ry_conn s) \<or> in_hand s d = 1" by simp
  qed
  moreover have "rc_closed (ry_conn s) \<and> ry_hand s = None \<longrightarrow> length (ry_sent s d) = 1"
    using i(1) t by (auto simp: table_ok_def tokens_def dones_def in_hand_def)
  ultimately show ?thesis using i(3) tokensD(2)[OF i(3), of d] unfolding calls_ok_def by blast
qed

text \<open>
  C14: (client library) The requests on the wire carry strictly increasing identifiers between 1 and
  \<open>MaxRequestID\<close>, which is what the daemon demands of a connection, although calls begin concurrently and may
  fail at any point; at most \<open>MaxOperations\<close> calls are open, and the handler sees the daemon's requests in
  strictly increasing order of theirs.
\<close>

theorem rpc_requests_ordered:
  assumes "reach (\<lambda>s. \<exists>b. s = startRpc b) rpc_step s"
  shows "sorted_wrt (<) (requestIDs (ry_conn s)) \<and> list_all (\<lambda>i. 0 < i \<and> i \<le> MaxRequestID) (requestIDs (ry_conn s))
    \<and> length (rc_pending (ry_conn s)) \<le> MaxOperations \<and> sorted_wrt (<) (map rq_ID (rc_handled (ry_conn s)))"
proof -
  note i = rpc_invD[OF rpc_sys.reach_inv[OF assms]]
  have "list_all (\<lambda>i. 0 < i \<and> i \<le> MaxRequestID) (requestIDs (ry_conn s))"
    using i(1,2) by (force simp: list_all_iff order_ok_def ordered_def table_ok_def)
  then show ?thesis using i(1,2) by (simp add: order_ok_def ordered_def table_ok_def)
qed

text \<open>A client asks for the sessions and reads the answer.\<close>

abbreviation askList :: params where "askList \<equiv> PList \<lparr>sl_SessionID = [], sl_Host = []\<rparr>"

definition listedReply :: result where
  "listedReply = VList \<lparr>sr_SelfInfo = None, sr_Sessions = [], sr_Hosts = []\<rparr>"

definition listAnswer :: Frame where
  "listAnswer = \<lparr>fr_ID = 1, fr_Method = [], fr_Params = None, fr_Result = Some listedReply, fr_Error = None, fr_Request = False\<rparr>"

definition askedState :: rpcSys where
  "askedState = (startRpc True)\<lparr>ry_conn := (newRpc True)\<lparr>rc_next := 1, rc_pending := [(1, newPending ''session.list'' False 0)],
     rc_written := [OutRequest 1 ''session.list'' askList]\<rparr>, ry_calls := 1, ry_phase := [0 \<mapsto> CWaiting 1]\<rparr>"

lemma reach_asked: "reach (\<lambda>s. \<exists>b. s = startRpc b) rpc_step askedState"
proof -
  let ?p = "newPending ''session.list'' False 0" let ?m = "''session.list''"
  let ?c = "(newRpc True)\<lparr>rc_next := 1, rc_pending := [(1, ?p)]\<rparr>"
  let ?s = "(startRpc True)\<lparr>ry_conn := ?c, ry_mutex := Some 0, ry_calls := 1, ry_phase := [0 \<mapsto> CSending 1 ?m askList]\<rparr>"
  have "reach (\<lambda>s. \<exists>b. s = startRpc b) rpc_step (startRpc True)" by (rule reach_init) blast
  moreover have "rpc_step (startRpc True) ?s"
    using rpc_step.call_allotted[of 0 "startRpc True" ?m askList False ?c 1]
    by (simp add: startRpc_def newRpc_def allotCall_def EncodeParams_def DecodeParams_def methodCodecs_def codec_def gm_set_def)
  ultimately have "reach (\<lambda>s. \<exists>b. s = startRpc b) rpc_step ?s" by (rule reach_step)
  moreover have "rpc_step ?s askedState"
    using rpc_step.call_written[of ?s 0 1 ?m askList True True "?c\<lparr>rc_written := [OutRequest 1 ?m askList]\<rparr>" "[]" None]
    by (simp add: startRpc_def newRpc_def askedState_def writeCall_def sendRpc_def notify_def)
  ultimately show ?thesis by (rule reach_step)
qed

definition answeredState :: rpcSys where
  "answeredState = askedState\<lparr>ry_conn := (newRpc True)\<lparr>rc_next := 1, rc_written := [OutRequest 1 ''session.list'' askList]\<rparr>, ry_sent := (\<lambda>_. [])(0 := [None]),
     ry_target := [0 \<mapsto> listedReply]\<rparr>"

lemma reach_answered_call: "reach (\<lambda>s. \<exists>b. s = startRpc b) rpc_step answeredState"
proof -
  let ?c = "(newRpc True)\<lparr>rc_next := 1, rc_written := [OutRequest 1 ''session.list'' askList]\<rparr>" let ?p = "newPending ''session.list'' False 0"
  let ?s = "askedState\<lparr>ry_conn := ?c, ry_hand := Some (listAnswer, ?p)\<rparr>"
  have "rpc_step askedState ?s"
    by (rule rpc_step.reader_takes[where calls = "[]"])
      (simp_all add: askedState_def startRpc_def newRpc_def listAnswer_def takeCall_def gm_get_def gm_del_def)
  with reach_asked have "reach (\<lambda>s. \<exists>b. s = startRpc b) rpc_step ?s" by (rule reach_step)
  moreover have "rpc_step ?s answeredState"
    using rpc_step.reader_settles[of ?s listAnswer ?p 0 None ?c "[]" "Some listedReply" None "ry_sent ?s"]
    by (simp add: askedState_def startRpc_def newRpc_def newPending_def listAnswer_def listedReply_def settleCall_def DecodeResult_def methodCodecs_def codec_def
        answeredState_def)
  ultimately show ?thesis by (rule reach_step)
qed

theorem rpc_calls_settle_once_witness:
  "ry_sent answeredState 0 = [None] \<and> ry_target answeredState 0 = Some listedReply \<and> ry_phase answeredState 0 \<noteq> Some CGone
   \<and> length (ry_sent answeredState 0) \<le> 1"
proof -
  have f: "ry_sent answeredState 0 = [None]" "ry_target answeredState 0 = Some listedReply" "0 < ry_calls answeredState"
    by (simp_all add: answeredState_def askedState_def)
  from rpc_calls_settle_once[OF reach_answered_call f(3)] f(1,2) show ?thesis by auto
qed

theorem rpc_requests_ordered_witness:
  "requestIDs (ry_conn askedState) = [1] \<and> sorted_wrt (<) (requestIDs (ry_conn askedState)) \<and> length (rc_pending (ry_conn askedState)) \<le> MaxOperations"
proof -
  have "requestIDs (ry_conn askedState) = [1]" by (simp add: askedState_def newRpc_def requestIDs_def List.map_filter_def)
  with rpc_requests_ordered[OF reach_asked] show ?thesis by simp
qed

end
