(* ===== verification/Worker.thy ===== *)
theory Worker
  imports Rpc "HOL-Library.Word"
begin

text \<open>
  The worker of the client library (\<open>bus/sdk/go/worker.go\<close>, \<open>runs.go\<close>): it opens one product session, runs one turn at a
  time, keeps the outcome of every turn until the daemon acknowledges it, and closes the product once. The
  product's callbacks and the socket are the environment.
\<close>

section \<open>Data\<close>

record workerRecord =
  wr_status :: RunStatus
  wr_sequence :: "64 word"

text \<open>
  A \<open>Run\<close>. \<open>ru_live\<close> is false for the placeholder that \<open>session.close\<close> installs, whose context and \<open>done\<close> are nil;
  \<open>ru_cancelled\<close> and \<open>ru_done\<close> are its contexts, \<open>ru_seed\<close> the request of the delivery that started it and
  \<open>ru_reported\<close> its \<open>receiptOnce\<close>.
\<close>

record Run =
  ru_live :: bool
  ru_cancelled :: bool
  ru_done :: bool
  ru_interrupted :: bool
  ru_seed :: "Request option"
  ru_reported :: bool

text \<open>What is written for a request: its result or an error.\<close>

datatype wout = AResult result | AError int

text \<open>
  The goroutines a worker starts for a request: an answer, the product's \<open>Open\<close>, a turn before its
  acceptance is written, a turn in the product, a turn whose \<open>turn.ready\<close> is on its way, a reader, an
  interrupt, a delivery to the running turn, and the close in its three stages:
  while the turn ends, while readers leave, and with the product.
\<close>

datatype wtask =
    KAnswer Request wout
  | KOpen Request
  | KAccept Request RunRef ptr "64 word"
  | KTurn ptr "64 word"
  | KReady ptr "64 word" RunStatus
  | KRead Request ReadRequest bool
  | KInterrupt Request ptr bool
  | KDeliver Request "ptr option"
  | KClose Request "ptr option"
  | KDrain Request
  | KCloseProduct Request
  | KSuperseded Request

record Worker =
  w_supportsWake :: bool
  w_sessionID :: gostring
  w_records :: "workerRecord list"
  w_generation :: gostring
  w_lastSequence :: "64 word"
  w_acknowledged :: "64 word"
  w_waiters :: nat
  w_run :: "ptr option"
  w_closeRequest :: SessionCloseRequest
  w_opened :: bool
  w_openDone :: "bool option"
  w_once :: bool
  w_cancelled :: bool
  w_closed :: bool
  w_slot :: "ptr \<Rightarrow> Run"
  w_slots :: ptr
  w_tasks :: "wtask list"
  w_received :: "int list"
  w_answered :: "(int \<times> wout) list"
  w_productClosed :: nat
  w_panic :: bool

definition zeroRun :: Run where
  "zeroRun = \<lparr>ru_live = False, ru_cancelled = False, ru_done = False, ru_interrupted = False, ru_seed = None, ru_reported = False\<rparr>"

definition NewWorker :: "bool \<Rightarrow> Worker" where
  "NewWorker wake = \<lparr>w_supportsWake = wake, w_sessionID = [], w_records = [], w_generation = [], w_lastSequence = 0, w_acknowledged = 0,
     w_waiters = 0, w_run = None, w_closeRequest = \<lparr>sc_SessionID = [], sc_Forget = False\<rparr>, w_opened = False, w_openDone = None,
     w_once = False, w_cancelled = False, w_closed = False, w_slot = (\<lambda>_. zeroRun), w_slots = 0, w_tasks = [], w_received = [], w_answered = [],
     w_productClosed = 0, w_panic = False\<rparr>"

definition upd_slot :: "ptr \<Rightarrow> (Run \<Rightarrow> Run) \<Rightarrow> Worker \<Rightarrow> Worker" where
  "upd_slot p f w = w\<lparr>w_slot := heap_upd p f (w_slot w)\<rparr>"

definition goTask :: "wtask \<Rightarrow> Worker \<Rightarrow> Worker" where
  "goTask t w = w\<lparr>w_tasks := t # w_tasks w\<rparr>"

definition newSlot :: "Run \<Rightarrow> Worker \<Rightarrow> ptr \<times> Worker" where
  "newSlot r w = (w_slots w, w\<lparr>w_slot := (w_slot w)(w_slots w := r), w_slots := Suc (w_slots w)\<rparr>)"

text \<open>\<open>w.run != nil && w.run.done == nil\<close>: the worker is closing.\<close>

definition closingSlot :: "Worker \<Rightarrow> bool" where
  "closingSlot w = (case w_run w of None \<Rightarrow> False | Some p \<Rightarrow> \<not> ru_live (w_slot w p))"

text \<open>\<open>slot.context.Err() != nil\<close>: the context of a run ends with the run, with the worker's and with the connection's.\<close>

definition runEnded :: "ptr \<Rightarrow> Worker \<Rightarrow> bool" where
  "runEnded p w \<longleftrightarrow> ru_cancelled (w_slot w p) \<or> w_cancelled w \<or> w_closed w"

section \<open>Runs (\<open>runs.go\<close>)\<close>

definition workerRunSequence :: "gostring \<Rightarrow> gostring \<times> 64 word \<times> bool" where
  "workerRunSequence i =
     (let (prefix, tail, ok) = cut i (CHR ''/'')
      in case parseUint tail of
           None \<Rightarrow> (prefix, 0, False)
         | Some n \<Rightarrow> (prefix, word_of_nat n, ok \<and> prefix \<noteq> [] \<and> n > 0 \<and> formatUint n = tail))"

text \<open>The run of an \<open>turn.execute\<close> or of a delivery that starts one.\<close>

definition runRef :: "params \<Rightarrow> Worker \<Rightarrow> RunRef" where
  "runRef params w =
     (case params of
        PExecute input \<Rightarrow> \<lparr>rr_SessionID = ex_SessionID input, rr_RunID = ex_RunID input\<rparr>
      | PDeliver d \<Rightarrow> \<lparr>rr_SessionID = w_sessionID w, rr_RunID = dq_RunID d\<rparr>
      | _ \<Rightarrow> \<lparr>rr_SessionID = [], rr_RunID = []\<rparr>)"

definition executeCode :: "RunRef \<Rightarrow> Worker \<Rightarrow> int" where
  "executeCode ref w =
     (let (prefix, sequence, valid) = workerRunSequence (rr_RunID ref)
      in if \<not> w_opened w \<or> w_run w \<noteq> None \<or> length (w_records w) \<ge> MaxOperations then Busy
         else if rr_SessionID ref \<noteq> w_sessionID w \<or> \<not> valid \<or> (w_generation w \<noteq> [] \<and> w_generation w \<noteq> prefix) \<or> sequence \<noteq> w_lastSequence w + 1
         then InvalidFrame
         else 0)"

definition execute :: "Request \<Rightarrow> bool \<Rightarrow> Worker \<Rightarrow> Worker" where
  "execute request delivery w =
     (if \<not> w_opened w then goTask (KAnswer request (AError Busy)) w
      else
        let ref = runRef (rq_Params request) w;
            code = executeCode ref w;
            (prefix, sequence, valid) = workerRunSequence (rr_RunID ref)
        in if code \<noteq> 0 then goTask (KAnswer request (AError code)) w
           else
             let (slot, w1) = newSlot (zeroRun\<lparr>ru_live := True, ru_seed := (if delivery then Some request else None)\<rparr>)
                    (w\<lparr>w_generation := prefix, w_lastSequence := sequence\<rparr>);
                 record = \<lparr>wr_status = \<lparr>rs_SessionID = rr_SessionID ref, rs_RunID = rr_RunID ref, rs_State = ''running'', rs_Result = None, rs_Reason = []\<rparr>,
                           wr_sequence = sequence\<rparr>;
                 w2 = w1\<lparr>w_records := w_records w1 @ [record], w_run := Some slot\<rparr>
             in goTask (if delivery then KTurn slot sequence else KAccept request ref slot sequence) w2)"

text \<open>
  The status of a turn that the product has finished (\<open>runTurn\<close>). \<open>outcome\<close> is what \<open>Run\<close> returned, \<open>valid\<close>
  whether the result satisfies its schema, \<open>fits\<close> whether the status does and fits a frame.
\<close>

definition runOutcome :: "TurnResult + gostring \<Rightarrow> bool \<Rightarrow> (RunStatus \<Rightarrow> bool) \<Rightarrow> RunStatus \<Rightarrow> RunStatus" where
  "runOutcome outcome valid fits status =
     (let s1 = (case outcome of
                  Inl result \<Rightarrow> status\<lparr>rs_State := ''done'', rs_Result := Some result\<rparr>
                | Inr reason \<Rightarrow> status\<lparr>rs_State := ''unavailable'', rs_Result := None, rs_Reason := reason\<rparr>);
          failed = (case outcome of Inl result \<Rightarrow> \<not> valid | Inr reason \<Rightarrow> True)
      in if \<not> fits s1 \<or> (failed \<and> rs_State s1 = ''done'')
         then s1\<lparr>rs_State := ''unavailable'', rs_Result := None, rs_Reason := ''native result failed validation''\<rparr>
         else s1)"

definition turnReadyOf :: "RunStatus \<Rightarrow> TurnReady" where
  "turnReadyOf status = \<lparr>ty_SessionID = rs_SessionID status, ty_RunID = rs_RunID status, ty_State = rs_State status,
     ty_Outcome = (case rs_Result status of None \<Rightarrow> [] | Some r \<Rightarrow> tr_Outcome r), ty_Reason = rs_Reason status\<rparr>"

text \<open>The observer of the acknowledged \<open>turn.ready\<close>.\<close>

definition publishRun :: "ptr \<Rightarrow> 64 word \<Rightarrow> RunStatus \<Rightarrow> Worker \<Rightarrow> Worker" where
  "publishRun slot sequence status w =
     (let w1 = w\<lparr>w_records := map (\<lambda>r. if wr_sequence r = sequence then r\<lparr>wr_status := status\<rparr> else r) (w_records w)\<rparr>;
          w2 = (if w_run w1 = Some slot then w1\<lparr>w_run := None\<rparr> else w1)
      in upd_slot slot (\<lambda>r. r\<lparr>ru_done := True\<rparr>) w2)"

definition findRun :: "ReadRequest \<Rightarrow> Worker \<Rightarrow> workerRecord option" where
  "findRun request w =
     List.find (\<lambda>r. (rq_RunID request = [] \<or> rq_RunID request = rs_RunID (wr_status r)) \<and> rq_SessionID request = rs_SessionID (wr_status r)) (w_records w)"

definition readInput :: "params \<Rightarrow> ReadRequest" where
  "readInput params =
     (case params of
        PWait wait \<Rightarrow> \<lparr>rq_SessionID = wq_SessionID wait, rq_RunID = wq_RunID wait\<rparr>
      | PRead input \<Rightarrow> input
      | _ \<Rightarrow> \<lparr>rq_SessionID = [], rq_RunID = []\<rparr>)"

definition readRun :: "Request \<Rightarrow> Worker \<Rightarrow> Worker" where
  "readRun request w =
     (if w_waiters w \<ge> MaxOperations \<or> closingSlot w then goTask (KAnswer request (AError Busy)) w
      else goTask (KRead request (readInput (rq_Params request)) (rq_Method request = ''turn.wait'')) (w\<lparr>w_waiters := w_waiters w + 1\<rparr>))"

text \<open>A look of the reader at the records: its answer, or none while it has to wait.\<close>

definition readLook :: "ReadRequest \<Rightarrow> bool \<Rightarrow> bool \<Rightarrow> Worker \<Rightarrow> wout option" where
  "readLook input waits deadline w =
     (case findRun input w of
        None \<Rightarrow> Some (AError UnknownSession)
      | Some record \<Rightarrow>
          if \<not> waits \<or> rs_State (wr_status record) \<noteq> ''running'' \<or> deadline then Some (AResult (VStatus (wr_status record))) else None)"

definition ackRun :: "RunRef \<Rightarrow> Worker \<Rightarrow> Worker \<times> int" where
  "ackRun input w =
     (let (prefix, sequence, valid) = workerRunSequence (rr_RunID input)
      in if valid \<and> prefix = w_generation w \<and> rr_SessionID input = w_sessionID w then
           (if sequence \<le> w_acknowledged w then (w, 0)
            else (case w_records w of
                    [] \<Rightarrow> (w, UnknownSession)
                  | r # rs \<Rightarrow>
                      if rs_RunID (wr_status r) = rr_RunID input \<and> rs_State (wr_status r) \<noteq> ''running''
                      then (w\<lparr>w_acknowledged := sequence, w_records := rs\<rparr>, 0)
                      else (w, Busy)))
         else (w, UnknownSession))"

section \<open>Requests (\<open>worker.go\<close>)\<close>

definition panicWorker :: "Worker \<Rightarrow> Worker" where
  "panicWorker w = w\<lparr>w_panic := True\<rparr>"

definition handleOpen :: "Request \<Rightarrow> Worker \<Rightarrow> Worker" where
  "handleOpen request w =
     (if w_openDone w \<noteq> None \<or> w_closed w \<or> closingSlot w then goTask (KAnswer request (AError InvalidFrame)) w
      else goTask (KOpen request) (w\<lparr>w_openDone := Some False\<rparr>))"

definition handleAck :: "Request \<Rightarrow> Worker \<Rightarrow> Worker" where
  "handleAck request w =
     (case rq_Params request of
        PRunRef input \<Rightarrow>
          let (w1, code) = ackRun input w in goTask (KAnswer request (if code = 0 then AResult VEmpty else AError code)) w1
      | _ \<Rightarrow> panicWorker w)"

definition handleInterrupt :: "Request \<Rightarrow> Worker \<Rightarrow> Worker" where
  "handleInterrupt request w =
     (case w_run w of
        None \<Rightarrow> goTask (KAnswer request (AError NotRunning)) w
      | Some p \<Rightarrow>
          let slot = w_slot w p in
          if ru_live slot \<and> runEnded p w then goTask (KAnswer request (AError NotRunning)) w
          else goTask (KInterrupt request p (ru_live slot \<and> \<not> ru_interrupted slot))
                 (if ru_live slot then upd_slot p (\<lambda>r. r\<lparr>ru_interrupted := True\<rparr>) w else w))"

definition handleDeliver :: "Request \<Rightarrow> Worker \<Rightarrow> Worker" where
  "handleDeliver request w =
     (case rq_Params request of
        PDeliver delivery \<Rightarrow>
          if dq_RunID delivery \<noteq> [] then execute request True w
          else if closingSlot w then goTask (KAnswer request (AResult (VReceipt \<lparr>dr_Disposition = ''rejected'', dr_Reason = ''closing''\<rparr>))) w
          else goTask (KDeliver request (w_run w)) w
      | _ \<Rightarrow> panicWorker w)"

definition handleClose :: "Request \<Rightarrow> Worker \<Rightarrow> Worker" where
  "handleClose request w =
     (if closingSlot w then w\<lparr>w_closed := True\<rparr>
      else case rq_Params request of
             PClose input \<Rightarrow>
               let (p, w1) = newSlot (zeroRun\<lparr>ru_interrupted := True\<rparr>) w;
                   w2 = w1\<lparr>w_run := Some p, w_closeRequest := input\<rparr>;
                   w3 = (case w_run w of
                           None \<Rightarrow> w2
                         | Some q \<Rightarrow> if runEnded q w then w2 else upd_slot q (\<lambda>r. r\<lparr>ru_interrupted := True\<rparr>) w2)
               in goTask (KClose request (w_run w)) w3
           | _ \<Rightarrow> panicWorker w)"

definition handleWorker :: "Request \<Rightarrow> Worker \<Rightarrow> Worker" where
  "handleWorker request w0 =
     (let w = w0\<lparr>w_received := rq_ID request # w_received w0\<rparr>; method = rq_Method request in
      if method = ''session.superseded'' then goTask (KSuperseded request) w
      else if method = ''session.open'' then handleOpen request w
      else if method = ''turn.execute'' then execute request False w
      else if method = ''turn.status'' \<or> method = ''turn.wait'' then readRun request w
      else if method = ''turn.ack'' then handleAck request w
      else if method = ''turn.interrupt'' then handleInterrupt request w
      else if method = ''message.deliver'' then handleDeliver request w
      else if method = ''session.close'' then handleClose request w
      else w)"

section \<open>Goroutines\<close>

text \<open>\<open>conn.Result\<close> or \<open>conn.Error\<close> with \<open>reply\<close>: a failed write closes the connection.\<close>

definition answerWorker :: "bool \<Rightarrow> Request \<Rightarrow> wout \<Rightarrow> Worker \<Rightarrow> Worker" where
  "answerWorker ok request out w =
     (if w_closed w \<or> \<not> ok then w\<lparr>w_closed := True\<rparr> else w\<lparr>w_answered := (rq_ID request, out) # w_answered w\<rparr>)"

definition endTask :: "wtask \<Rightarrow> Worker \<Rightarrow> Worker" where
  "endTask t w = w\<lparr>w_tasks := remove1 t (w_tasks w)\<rparr>"

definition openName :: "gostring \<Rightarrow> gostring \<Rightarrow> gostring" where
  "openName sid name = (case lastIndexByte name (CHR ''@'') of None \<Rightarrow> sid | Some at \<Rightarrow> sid @ List.drop at name)"

text \<open>\<open>open\<close>; \<open>outcome\<close> is what the product's \<open>Open\<close> returned.\<close>

definition openProduct :: "OpenResult + gostring \<Rightarrow> bool \<Rightarrow> Request \<Rightarrow> Worker \<Rightarrow> Worker" where
  "openProduct outcome ok request w =
     (case rq_Params request of
        POpen input \<Rightarrow>
          if (case oq_Policy input of None \<Rightarrow> False | Some p \<Rightarrow> lp_IdleMessage p = ''run'' \<and> \<not> w_supportsWake w)
          then (answerWorker ok request (AError UnsupportedOpen) w)\<lparr>w_openDone := Some True\<rparr>
          else (case outcome of
                  Inr e \<Rightarrow> (answerWorker ok request (AError SpawnFailed) w)\<lparr>w_openDone := Some True\<rparr>
                | Inl result \<Rightarrow>
                    (answerWorker ok request (AResult (VOpened result))
                       (w\<lparr>w_sessionID := openName (or_SessionID result) (oq_Name input), w_opened := True\<rparr>))\<lparr>w_openDone := Some True\<rparr>)
      | _ \<Rightarrow> panicWorker w)"

text \<open>What is written for a delivery; \<open>outcome\<close> is the product's receipt or error.\<close>

datatype deliverError = DNotRunning | DInternal | DFailed gostring

fun deliveryReply :: "DeliveryReceipt + deliverError \<Rightarrow> wout" where
  "deliveryReply (Inl receipt) = AResult (VReceipt receipt)"
| "deliveryReply (Inr DNotRunning) = AError NotRunning"
| "deliveryReply (Inr DInternal) = AError Internal"
| "deliveryReply (Inr (DFailed e)) = AResult (VReceipt \<lparr>dr_Disposition = ''rejected'', dr_Reason = e\<rparr>)"

definition ReportDelivery :: "bool \<Rightarrow> DeliveryReceipt + deliverError \<Rightarrow> ptr \<Rightarrow> Worker \<Rightarrow> Worker" where
  "ReportDelivery ok outcome p w =
     (case ru_seed (w_slot w p) of
        None \<Rightarrow> w
      | Some request \<Rightarrow>
          if ru_reported (w_slot w p) then w
          else answerWorker ok request (deliveryReply outcome) (upd_slot p (\<lambda>r. r\<lparr>ru_reported := True\<rparr>) w))"

text \<open>The end of the product's \<open>Run\<close>: the turn's context ends and a delivery without a receipt is answered as uncertain.\<close>

definition endTurn :: "bool \<Rightarrow> ptr \<Rightarrow> 64 word \<Rightarrow> (RunStatus \<Rightarrow> RunStatus) \<Rightarrow> Worker \<Rightarrow> Worker" where
  "endTurn ok p sequence final w =
     (case List.find (\<lambda>r. wr_sequence r = sequence) (w_records w) of
        None \<Rightarrow> panicWorker w
      | Some record \<Rightarrow>
          goTask (KReady p sequence (final (wr_status record)))
            (ReportDelivery ok (Inr DInternal) p (upd_slot p (\<lambda>r. r\<lparr>ru_cancelled := True\<rparr>) w)))"

definition deliverRun :: "bool \<Rightarrow> DeliveryReceipt + deliverError \<Rightarrow> Request \<Rightarrow> ptr option \<Rightarrow> Worker \<Rightarrow> Worker" where
  "deliverRun ok outcome request run w =
     (case run of
        None \<Rightarrow> answerWorker ok request (AError NotRunning) w
      | Some p \<Rightarrow>
          if \<not> ru_live (w_slot w p) then panicWorker w
          else if runEnded p w then answerWorker ok request (AError NotRunning) w
          else answerWorker ok request (deliveryReply outcome) w)"

definition closeProduct :: "Worker \<Rightarrow> Worker" where
  "closeProduct w =
     (if w_once w then w else w\<lparr>w_once := True, w_productClosed := w_productClosed w + (if w_opened w then 1 else 0)\<rparr>)"

definition finishSlot :: "ptr option \<Rightarrow> Worker \<Rightarrow> Worker" where
  "finishSlot run w =
     (case run of None \<Rightarrow> w | Some p \<Rightarrow> if ru_live (w_slot w p) then upd_slot p (\<lambda>r. r\<lparr>ru_done := True\<rparr>) w else w)"

definition admissible :: "Request \<Rightarrow> bool" where
  "admissible request \<longleftrightarrow> Allows (rq_Method request) False \<and> DecodeParams (rq_Method request) (Some (rq_Params request)) \<noteq> None"

definition timed :: "Request \<Rightarrow> bool" where
  "timed request = (case rq_Params request of PWait wait \<Rightarrow> wq_TimeoutMS wait \<noteq> None | _ \<Rightarrow> False)"

inductive worker_step :: "Worker \<Rightarrow> Worker \<Rightarrow> bool" where
  receives: "\<lbrakk>admissible request; \<forall>i \<in> set (w_received w). i < rq_ID request\<rbrakk> \<Longrightarrow> worker_step w (handleWorker request w)"
| disconnects: "worker_step w (w\<lparr>w_closed := True\<rparr>)"
| answers: "\<lbrakk>KAnswer request out \<in> set (w_tasks w)\<rbrakk> \<Longrightarrow>
     worker_step w (answerWorker ok request out (endTask (KAnswer request out) w))"
| superseded: "KSuperseded request \<in> set (w_tasks w) \<Longrightarrow>
     worker_step w ((answerWorker ok request (AResult VEmpty) (endTask (KSuperseded request) w))\<lparr>w_closed := True\<rparr>)"
| opens: "KOpen request \<in> set (w_tasks w) \<Longrightarrow> worker_step w (openProduct outcome ok request (endTask (KOpen request) w))"
| accepts: "KAccept request ref p sequence \<in> set (w_tasks w) \<Longrightarrow> \<not> w_closed w \<Longrightarrow>
     worker_step w (goTask (KTurn p sequence) (answerWorker True request (AResult (VRunRef ref)) (endTask (KAccept request ref p sequence) w)))"
| accept_fails: "KAccept request ref p sequence \<in> set (w_tasks w) \<Longrightarrow>
     worker_step w (answerWorker False request (AResult (VRunRef ref)) (endTask (KAccept request ref p sequence) w))"
| reports: "KTurn p sequence \<in> set (w_tasks w) \<Longrightarrow> worker_step w (ReportDelivery ok outcome p w)"
| turn_ends: "KTurn p sequence \<in> set (w_tasks w) \<Longrightarrow>
     worker_step w (endTurn ok p sequence (runOutcome outcome valid fits) (endTask (KTurn p sequence) w))"
| ready_seen: "KReady p sequence status \<in> set (w_tasks w) \<Longrightarrow> worker_step w (publishRun p sequence status (endTask (KReady p sequence status) w))"
| ready_fails: "KReady p sequence status \<in> set (w_tasks w) \<Longrightarrow> worker_step w ((endTask (KReady p sequence status) w)\<lparr>w_closed := True\<rparr>)"
| reads: "\<lbrakk>KRead request input waits \<in> set (w_tasks w); deadline \<longrightarrow> timed request; readLook input waits deadline w = Some out\<rbrakk> \<Longrightarrow>
     worker_step w ((answerWorker ok request out (endTask (KRead request input waits) w))\<lparr>w_waiters := w_waiters w - 1\<rparr>)"
| read_ends: "\<lbrakk>KRead request input waits \<in> set (w_tasks w); w_cancelled w \<or> w_closed w\<rbrakk> \<Longrightarrow>
     worker_step w ((endTask (KRead request input waits) w)\<lparr>w_waiters := w_waiters w - 1\<rparr>)"
| interrupts: "KInterrupt request p call \<in> set (w_tasks w) \<Longrightarrow>
     worker_step w (answerWorker ok request (AResult VEmpty) (endTask (KInterrupt request p call) w))"
| delivers: "KDeliver request run \<in> set (w_tasks w) \<Longrightarrow> worker_step w (deliverRun ok outcome request run (endTask (KDeliver request run) w))"
| close_turn: "\<lbrakk>KClose request run \<in> set (w_tasks w); run = None \<or> ru_done (w_slot w (the run))\<rbrakk> \<Longrightarrow>
     worker_step w (goTask (KDrain request) (endTask (KClose request run) w))"
| close_lost: "\<lbrakk>KClose request run \<in> set (w_tasks w); run \<noteq> None; w_closed w\<rbrakk> \<Longrightarrow>
     worker_step w (finishSlot run (endTask (KClose request run) w))"
| close_drained: "\<lbrakk>KDrain request \<in> set (w_tasks w); w_waiters w = 0\<rbrakk> \<Longrightarrow>
     worker_step w ((goTask (KCloseProduct request) (endTask (KDrain request) w))\<lparr>w_cancelled := True\<rparr>)"
| drain_lost: "\<lbrakk>KDrain request \<in> set (w_tasks w); w_closed w\<rbrakk> \<Longrightarrow>
     worker_step w ((endTask (KDrain request) w)\<lparr>w_cancelled := True\<rparr>)"
| close_product: "\<lbrakk>KCloseProduct request \<in> set (w_tasks w); w_openDone w \<noteq> Some False\<rbrakk> \<Longrightarrow>
     worker_step w ((answerWorker ok request (AResult VEmpty) (closeProduct (endTask (KCloseProduct request) w)))\<lparr>w_closed := True\<rparr>)"
| serve_ends: "w_closed w \<Longrightarrow> worker_step w (finishSlot (w_run w) w)"
| serve_returns: "\<lbrakk>w_closed w; w_openDone w \<noteq> Some False\<rbrakk> \<Longrightarrow> worker_step w (closeProduct w)"

end
