(* ===== verification/WorkerSystem.thy ===== *)
theory WorkerSystem
  imports Worker "HOL-Library.Multiset"
begin

text \<open>
  The worker against any order of requests, callbacks and failures: the ledger of runs is consecutive with at
  most one run in progress, every request has one answer, and the product is closed once.
\<close>

section \<open>The ledger of runs\<close>

abbreviation running :: "RunStatus \<Rightarrow> bool" where
  "running st \<equiv> rs_State st = ''running''"

fun seqs :: "64 word \<Rightarrow> nat \<Rightarrow> 64 word list" where
  "seqs a 0 = []"
| "seqs a (Suc n) = (a + 1) # seqs (a + 1) n"

lemma seqs_snoc: "seqs a (Suc n) = seqs a n @ [a + of_nat n + 1]"
proof (induction n arbitrary: a)
  case (Suc n)
  have "seqs a (Suc (Suc n)) = (a + 1) # seqs (a + 1) n @ [a + 1 + of_nat n + 1]" using Suc.IH[of "a + 1"] by simp
  then show ?case by (simp add: algebra_simps)
qed simp

lemma seqs_nth: "k < n \<Longrightarrow> seqs a n ! k = a + 1 + of_nat k"
proof (induction n arbitrary: a k)
  case (Suc n)
  then show ?case by (cases k) (simp_all add: algebra_simps)
qed simp

lemma length_seqs [simp]: "length (seqs a n) = n"
  by (induction n arbitrary: a) simp_all

lemma distinct_seqs:
  assumes "n \<le> 256"
  shows "distinct (seqs a n)"
proof (rule iffD2[OF distinct_conv_nth], intro allI impI)
  fix i j
  assume *: "i < length (seqs a n)" "j < length (seqs a n)" "i \<noteq> j"
  then have "(of_nat i :: 64 word) \<noteq> of_nat j" using assms by (simp add: word_of_nat_eq_iff take_bit_nat_eq_self)
  then show "seqs a n ! i \<noteq> seqs a n ! j" using * by (simp add: seqs_nth)
qed

definition ledger_ok :: "Worker \<Rightarrow> bool" where
  "ledger_ok w \<longleftrightarrow> unat (w_acknowledged w) + length (w_records w) = unat (w_lastSequence w) \<and> length (w_records w) \<le> MaxOperations
     \<and> map wr_sequence (w_records w) = seqs (w_acknowledged w) (length (w_records w))
     \<and> (\<forall>r \<in> set (w_records w). rs_SessionID (wr_status r) = w_sessionID w \<and> workerRunSequence (rs_RunID (wr_status r)) = (w_generation w, wr_sequence r, True))
     \<and> (\<forall>r \<in> set (butlast (w_records w)). \<not> running (wr_status r))
     \<and> (w_run w = None \<longrightarrow> (\<forall>r \<in> set (w_records w). \<not> running (wr_status r)))
     \<and> (\<not> w_opened w \<longrightarrow> w_records w = []) \<and> (w_opened w \<longrightarrow> w_openDone w = Some True)
     \<and> (\<forall>p. w_run w = Some p \<longrightarrow> p < w_slots w) \<and> (\<forall>p \<ge> w_slots w. w_slot w p = zeroRun) \<and> \<not> w_panic w"

text \<open>The turn of slot \<open>p\<close> is the last record, and the worker is busy with it or closing.\<close>

definition running_turn_ok :: "Worker \<Rightarrow> ptr \<Rightarrow> 64 word \<Rightarrow> bool" where
  "running_turn_ok w p q \<longleftrightarrow> w_records w \<noteq> [] \<and> wr_sequence (last (w_records w)) = q \<and> running (wr_status (last (w_records w)))
     \<and> p < w_slots w \<and> ru_live (w_slot w p) \<and> w_run w \<noteq> None \<and> (\<forall>p'. w_run w = Some p' \<and> ru_live (w_slot w p') \<longrightarrow> p' = p)"

fun is_run :: "wtask \<Rightarrow> bool" where
  "is_run (KAccept r f p q) = True"
| "is_run (KTurn p q) = True"
| "is_run (KReady p q st) = True"
| "is_run _ = False"

fun is_open :: "wtask \<Rightarrow> bool" where
  "is_open (KOpen r) = True"
| "is_open _ = False"

fun task_ok :: "Worker \<Rightarrow> wtask \<Rightarrow> bool" where
  "task_ok w (KOpen r) = ((\<exists>x. rq_Params r = POpen x) \<and> w_openDone w = Some False)"
| "task_ok w (KAccept r f p q) = (running_turn_ok w p q \<and> ru_seed (w_slot w p) = None)"
| "task_ok w (KTurn p q) = running_turn_ok w p q"
| "task_ok w (KReady p q st) = (running_turn_ok w p q \<and> \<not> running st \<and> rs_SessionID st = w_sessionID w \<and> rs_RunID st = rs_RunID (wr_status (last (w_records w))))"
| "task_ok w (KDeliver r (Some p)) = (ru_live (w_slot w p) \<and> p < w_slots w)"
| "task_ok w _ = True"

fun hot :: "wtask \<Rightarrow> bool" where
  "hot (KDeliver r (Some p)) = True"
| "hot t = (is_run t \<or> is_open t)"

lemma cold_ok: "\<not> hot t \<Longrightarrow> task_ok w t"
  by (cases "(w, t)" rule: task_ok.cases) simp_all

lemma hot_run: "is_run t \<Longrightarrow> hot t" "is_open t \<Longrightarrow> hot t"
  by (cases t rule: hot.cases; simp)+

definition tasks_ok :: "Worker \<Rightarrow> bool" where
  "tasks_ok w \<longleftrightarrow> length (filter is_run (w_tasks w)) \<le> 1 \<and> length (filter is_open (w_tasks w)) \<le> 1 \<and> (\<forall>t \<in> set (w_tasks w). task_ok w t)"

text \<open>Steps that leave the ledger alone and add no task that matters to it.\<close>

definition steady :: "Worker \<Rightarrow> Worker \<Rightarrow> bool" where
  "steady w w' \<longleftrightarrow> w_records w' = w_records w \<and> w_generation w' = w_generation w \<and> w_lastSequence w' = w_lastSequence w
     \<and> w_acknowledged w' = w_acknowledged w \<and> w_run w' = w_run w \<and> w_slots w' = w_slots w \<and> w_opened w' = w_opened w
     \<and> w_openDone w' = w_openDone w \<and> w_sessionID w' = w_sessionID w \<and> w_panic w' = w_panic w
     \<and> (\<forall>p. ru_live (w_slot w' p) = ru_live (w_slot w p) \<and> ru_seed (w_slot w' p) = ru_seed (w_slot w p)) \<and> (\<forall>p \<ge> w_slots w. w_slot w p = zeroRun \<longrightarrow> w_slot w' p = zeroRun)"

definition shrinks :: "Worker \<Rightarrow> Worker \<Rightarrow> bool" where
  "shrinks w w' \<longleftrightarrow> mset (filter hot (w_tasks w')) \<subseteq># mset (filter hot (w_tasks w))"

lemma steady_refl [simp]: "steady w w"
  by (simp add: steady_def)

lemma steady_trans: "steady a b \<Longrightarrow> steady b c \<Longrightarrow> steady a c"
  by (simp add: steady_def)

lemma shrinks_refl [simp]: "shrinks w w"
  by (simp add: shrinks_def)

lemma shrinks_trans: "shrinks a b \<Longrightarrow> shrinks b c \<Longrightarrow> shrinks a c"
  by (auto simp: shrinks_def intro: subset_mset.order_trans)

lemma steady_ledger: "steady w w' \<Longrightarrow> ledger_ok w \<Longrightarrow> ledger_ok w'"
  by (simp add: steady_def ledger_ok_def)

lemma steady_task: "steady w w' \<Longrightarrow> task_ok w t \<Longrightarrow> task_ok w' t"
  by (cases "(w, t)" rule: task_ok.cases) (simp_all add: steady_def running_turn_ok_def)

lemma filter_hot: "filter is_run xs = filter is_run (filter hot xs)" "filter is_open xs = filter is_open (filter hot xs)"
  by (simp_all add: conj_absorb hot_run cong: filter_cong) (metis hot_run)+

lemma shrinks_tasks:
  assumes "tasks_ok w" "steady w w'" "shrinks w w'"
  shows "tasks_ok w'"
proof -
  have m: "length (filter P (filter hot (w_tasks w'))) \<le> length (filter P (filter hot (w_tasks w)))" for P
    using size_mset_mono[OF multiset_filter_mono[OF assms(3)[unfolded shrinks_def], of P]] by (simp only: size_mset flip: mset_filter)
  have "length (filter is_run (w_tasks w')) \<le> 1" "length (filter is_open (w_tasks w')) \<le> 1"
    using m[of is_run] m[of is_open] assms(1) unfolding tasks_ok_def filter_hot[symmetric] by linarith+
  moreover have "task_ok w' t" if "t \<in> set (w_tasks w')" for t
  proof (cases "hot t")
    case True
    then have "t \<in># mset (filter hot (w_tasks w'))" using that by simp
    then have "t \<in> set (w_tasks w)" using mset_subset_eqD[OF assms(3)[unfolded shrinks_def]] by (auto simp: set_filter)
    then show ?thesis using assms(1) steady_task[OF assms(2)] by (simp add: tasks_ok_def)
  qed (rule cold_ok)
  ultimately show ?thesis by (simp add: tasks_ok_def)
qed

definition runs_inv :: "Worker \<Rightarrow> bool" where
  "runs_inv w \<longleftrightarrow> ledger_ok w \<and> tasks_ok w"

lemma inv_steady: "runs_inv w \<Longrightarrow> steady w w' \<Longrightarrow> shrinks w w' \<Longrightarrow> runs_inv w'"
  using steady_ledger shrinks_tasks unfolding runs_inv_def by blast

section \<open>The operations\<close>

lemma steady_ops [simp]:
  "steady w (goTask t w') = steady w w'" "steady w (endTask t w') = steady w w'" "steady w (answerWorker ok r out w') = steady w w'"
  "steady w (w'\<lparr>w_closed := b\<rparr>) = steady w w'" "steady w (w'\<lparr>w_cancelled := b\<rparr>) = steady w w'" "steady w (w'\<lparr>w_waiters := n\<rparr>) = steady w w'"
  "steady w (w'\<lparr>w_received := x\<rparr>) = steady w w'" "steady w (closeProduct w') = steady w w'"
  by (simp_all add: steady_def goTask_def endTask_def answerWorker_def closeProduct_def)

lemma shrinks_ops [simp]:
  "\<not> hot t \<Longrightarrow> shrinks w (goTask t w') = shrinks w w'" "shrinks w (answerWorker ok r out w') = shrinks w w'"
  "shrinks w (w'\<lparr>w_closed := b\<rparr>) = shrinks w w'" "shrinks w (w'\<lparr>w_cancelled := b\<rparr>) = shrinks w w'" "shrinks w (w'\<lparr>w_waiters := n\<rparr>) = shrinks w w'"
  "shrinks w (w'\<lparr>w_received := x\<rparr>) = shrinks w w'" "shrinks w (closeProduct w') = shrinks w w'" "shrinks w (upd_slot p f w') = shrinks w w'"
  by (simp_all add: shrinks_def goTask_def answerWorker_def closeProduct_def upd_slot_def)

lemma shrinks_end: "shrinks w w' \<Longrightarrow> shrinks w (endTask t w')"
proof -
  assume a: "shrinks w w'"
  have "filter hot (remove1 t xs) = remove1 t (filter hot xs)" for xs by (induction xs) auto
  then have "mset (filter hot (w_tasks (endTask t w'))) \<subseteq># mset (filter hot (w_tasks w'))"
    by (simp add: endTask_def del: mset_filter)
  with a show ?thesis by (auto simp: shrinks_def intro: subset_mset.order_trans)
qed

text \<open>A change to a slot that exists which keeps its context.\<close>

lemma steady_slot:
  assumes "steady w w'" "\<And>r. ru_live (f r) = ru_live r \<and> ru_seed (f r) = ru_seed r" "p < w_slots w \<or> f (w_slot w' p) = w_slot w' p"
  shows "steady w (upd_slot p f w')"
  using assms by (auto simp: steady_def upd_slot_def)

lemma report_steady:
  assumes "p < w_slots w" "steady w w'"
  shows "steady w (ReportDelivery ok out p w')" "shrinks w (ReportDelivery ok out p w') = shrinks w w'"
  using steady_slot[OF assms(2), of "\<lambda>r. r\<lparr>ru_reported := True\<rparr>" p] assms by (auto simp: ReportDelivery_def split: option.split)

lemma runs_invD:
  assumes "runs_inv w"
  shows "ledger_ok w" "tasks_ok w"
  using assms by (simp_all add: runs_inv_def)

lemma run_sequence_positive: "workerRunSequence i = (prefix, q, True) \<Longrightarrow> q \<noteq> 0"
proof -
  assume "workerRunSequence i = (prefix, q, True)"
  then obtain n tail where n: "parseUint tail = Some n" "n > 0" "q = word_of_nat n"
    by (auto simp: workerRunSequence_def split: prod.splits option.splits)
  then have "n < 2 ^ 64" by (auto simp: parseUint_def split: if_splits option.splits)
  then show ?thesis using n by (simp add: word_of_nat_eq_0_iff) (metis dvd_imp_le not_le)
qed

lemma run_sequence_prefix: "workerRunSequence i = (prefix, q, True) \<Longrightarrow> prefix \<noteq> []"
  by (auto simp: workerRunSequence_def split: prod.splits option.splits)

text \<open>Adding a task that is in order and of which there is no other.\<close>

lemma winv_task:
  assumes "runs_inv w" "task_ok w t" "is_run t \<Longrightarrow> filter is_run (w_tasks w) = []" "is_open t \<Longrightarrow> filter is_open (w_tasks w) = []"
  shows "runs_inv (goTask t w)"
proof -
  have s: "steady w (goTask t w)" by simp
  have "tasks_ok (goTask t w)"
    using runs_invD(2)[OF assms(1)] assms(2-4) steady_task[OF s] by (auto simp: tasks_ok_def goTask_def[of t w])
  then show ?thesis using steady_ledger[OF s runs_invD(1)[OF assms(1)]] by (simp add: runs_inv_def)
qed

lemma inv_cold: "runs_inv w \<Longrightarrow> \<not> hot t \<Longrightarrow> runs_inv (goTask t w)"
  by (rule inv_steady[of w]) simp_all

text \<open>While a turn is in progress no other can start.\<close>

lemma idle_runs:
  assumes "tasks_ok w" "w_run w = None"
  shows "filter is_run (w_tasks w) = []"
proof (rule ccontr)
  assume "filter is_run (w_tasks w) \<noteq> []"
  then obtain t where t: "t \<in> set (w_tasks w)" "is_run t" by (auto simp: filter_empty_conv)
  then have "task_ok w t" using assms(1) by (simp add: tasks_ok_def)
  with t(2) assms(2) show False by (elim is_run.elims) (simp_all add: running_turn_ok_def)
qed

text \<open>The worker with a new run, the last of the ledger.\<close>

definition withRun :: "gostring \<Rightarrow> Run \<Rightarrow> workerRecord \<Rightarrow> Worker \<Rightarrow> Worker" where
  "withRun prefix slot r w = w\<lparr>w_generation := prefix, w_lastSequence := wr_sequence r, w_slot := (w_slot w)(w_slots w := slot), w_slots := Suc (w_slots w),
     w_records := w_records w @ [r], w_run := Some (w_slots w)\<rparr>"

lemma withRun_ledger:
  assumes "ledger_ok w" "w_opened w" "w_run w = None" "length (w_records w) < MaxOperations" "wr_sequence r = w_lastSequence w + 1"
    "workerRunSequence (rs_RunID (wr_status r)) = (prefix, wr_sequence r, True)" "w_generation w \<noteq> [] \<longrightarrow> w_generation w = prefix"
    "rs_SessionID (wr_status r) = w_sessionID w"
  shows "ledger_ok (withRun prefix slot r w)"
proof -
  let ?w = "withRun prefix slot r w"
  note l = assms(1)[unfolded ledger_ok_def]
  have u: "unat (wr_sequence r) = Suc (unat (w_lastSequence w))"
    using unatSuc[of "w_lastSequence w"] run_sequence_positive[OF assms(6)] assms(5) by (simp add: add.commute)
  have gen: "w_generation w = prefix" if "x \<in> set (w_records w)" for x
    using assms(7) l that run_sequence_prefix[of "rs_RunID (wr_status x)"] by blast
  have a: "w_acknowledged w + of_nat (length (w_records w)) = w_lastSequence w"
    using arg_cong[OF conjunct1[OF l], of "of_nat :: nat \<Rightarrow> 64 word"] by simp
  show ?thesis unfolding ledger_ok_def
  proof (intro conjI)
    show "map wr_sequence (w_records ?w) = seqs (w_acknowledged ?w) (length (w_records ?w))"
      using l a assms(5) by (simp add: withRun_def seqs_snoc del: seqs.simps)
    show "\<forall>x \<in> set (w_records ?w). rs_SessionID (wr_status x) = w_sessionID ?w \<and> workerRunSequence (rs_RunID (wr_status x)) = (w_generation ?w, wr_sequence x, True)"
      using l gen assms(6,8) by (auto simp: withRun_def)
    show "\<forall>x \<in> set (butlast (w_records ?w)). \<not> running (wr_status x)" using l assms(3) by (simp add: withRun_def)
  qed (use l u assms(2,4) in \<open>simp_all add: withRun_def\<close>)
qed

lemma withRun_tasks:
  assumes "tasks_ok w" "w_run w = None"
  shows "tasks_ok (withRun prefix slot r w)"
proof -
  have "task_ok (withRun prefix slot r w) x" if "x \<in> set (w_tasks w)" for x
  proof -
    have "task_ok w x" "\<not> is_run x" using assms(1) that idle_runs[OF assms] by (auto simp: tasks_ok_def filter_empty_conv)
    then show ?thesis by (cases "(w, x)" rule: task_ok.cases) (auto simp: withRun_def)
  qed
  then show ?thesis using assms(1) by (simp add: tasks_ok_def) (simp add: withRun_def)
qed

lemma execute_cases:
  obtains c where "execute request delivery w = goTask (KAnswer request (AError c)) w"
  | prefix slot r ref where "w_opened w" "w_run w = None" "length (w_records w) < MaxOperations" "wr_sequence r = w_lastSequence w + 1"
      "workerRunSequence (rs_RunID (wr_status r)) = (prefix, wr_sequence r, True)" "w_generation w \<noteq> [] \<longrightarrow> w_generation w = prefix"
      "rs_SessionID (wr_status r) = w_sessionID w" "running (wr_status r)" "slot = zeroRun\<lparr>ru_live := True, ru_seed := (if delivery then Some request else None)\<rparr>"
      "execute request delivery w = goTask (if delivery then KTurn (w_slots w) (wr_sequence r) else KAccept request ref (w_slots w) (wr_sequence r)) (withRun prefix slot r w)"
proof -
  define ref where "ref = runRef (rq_Params request) w"
  obtain prefix q valid where sq: "workerRunSequence (rr_RunID ref) = (prefix, q, valid)" by (metis prod_cases3)
  show ?thesis
  proof (cases "w_opened w \<and> executeCode ref w = 0")
    case False
    then have "execute request delivery w = goTask (KAnswer request (AError (if w_opened w then executeCode ref w else Busy))) w"
      using sq by (simp add: execute_def Let_def ref_def)
    then show ?thesis by (rule that(1))
  next
    case True
    define r where "r = \<lparr>wr_status = \<lparr>rs_SessionID = rr_SessionID ref, rs_RunID = rr_RunID ref, rs_State = ''running'', rs_Result = None, rs_Reason = []\<rparr>, wr_sequence = q\<rparr>"
    from True have g: "w_run w = None" "length (w_records w) < MaxOperations" "rr_SessionID ref = w_sessionID w" "valid"
      "w_generation w \<noteq> [] \<longrightarrow> w_generation w = prefix" "q = w_lastSequence w + 1"
      using sq by (auto simp: executeCode_def Let_def split: if_splits)
    define slot where "slot = zeroRun\<lparr>ru_live := True, ru_seed := (if delivery then Some request else None)\<rparr>"
    define t where "t = (if delivery then KTurn (w_slots w) q else KAccept request ref (w_slots w) q)"
    have "execute request delivery w = goTask t (withRun prefix slot r w)"
      using True sq by (simp add: execute_def Let_def ref_def withRun_def r_def slot_def newSlot_def t_def)
    then show ?thesis by (intro that(2)[of r prefix slot ref]) (use True g sq in \<open>simp_all add: r_def slot_def t_def\<close>)
  qed
qed

lemma inv_execute:
  assumes "runs_inv w"
  shows "runs_inv (execute request delivery w)"
proof (cases rule: execute_cases[of request delivery w])
  case (1 c)
  then show ?thesis using inv_cold[OF assms] by simp
next
  case (2 prefix slot r ref)
  let ?v = "withRun prefix slot r w" let ?t = "if delivery then KTurn (w_slots w) (wr_sequence r) else KAccept request ref (w_slots w) (wr_sequence r)"
  have i: "runs_inv ?v" using withRun_ledger[OF runs_invD(1)[OF assms] 2(1-7)] withRun_tasks[OF runs_invD(2)[OF assms] 2(2)] by (simp add: runs_inv_def)
  have "running_turn_ok ?v (w_slots w) (wr_sequence r)" using 2(8,9) by (simp add: running_turn_ok_def withRun_def)
  then have k: "task_ok ?v ?t" "\<not> is_open ?t" using 2(9) by (auto simp: withRun_def zeroRun_def)
  have "filter is_run (w_tasks ?v) = []" using idle_runs[OF runs_invD(2)[OF assms] 2(2)] by (simp add: withRun_def)
  then show ?thesis unfolding 2(10) using winv_task[OF i k(1)] k(2) by simp
qed

text \<open>Acknowledging the first record of the ledger.\<close>

lemma inv_ack:
  assumes "runs_inv w" "ackRun input w = (w', code)"
  shows "runs_inv w'"
proof (cases "w' = w")
  case False
  obtain prefix q where sq: "workerRunSequence (rr_RunID input) = (prefix, q, True)" "prefix = w_generation w"
    using assms(2) False by (auto simp: ackRun_def Let_def split: if_splits prod.splits list.splits)
  obtain r rs where rec: "w_records w = r # rs" "rs_RunID (wr_status r) = rr_RunID input" "\<not> running (wr_status r)"
    and w': "w' = w\<lparr>w_acknowledged := q, w_records := rs\<rparr>"
    using assms(2) False sq by (auto simp: ackRun_def split: if_splits list.splits)
  note l = runs_invD(1)[OF assms(1), unfolded ledger_ok_def]
  have q: "q = wr_sequence r" "wr_sequence r = w_acknowledged w + 1" "map wr_sequence rs = seqs (w_acknowledged w + 1) (length rs)"
    using l rec sq by auto
  have "w_acknowledged w + 1 \<noteq> 0" using run_sequence_positive[OF sq(1)] q by simp
  then have u: "unat (w_acknowledged w + 1) = Suc (unat (w_acknowledged w))" using unatSuc[of "w_acknowledged w"] by (simp add: add.commute)
  have "ledger_ok w'" unfolding ledger_ok_def w' using l rec q u by (auto dest: in_set_butlastD split: if_splits)
  moreover have "task_ok w' t" if "task_ok w t" for t
  proof -
    have "running_turn_ok w' p x" if "running_turn_ok w p x" for p x using that rec w' by (auto simp: running_turn_ok_def split: if_splits)
    moreover have "last (w_records w') = last (w_records w)" if "running_turn_ok w p x" for p x using that rec w' by (auto simp: running_turn_ok_def split: if_splits)
    ultimately show ?thesis using that by (cases "(w, t)" rule: task_ok.cases) (auto simp: w')
  qed
  then have "tasks_ok w'" using runs_invD(2)[OF assms(1)] by (simp add: tasks_ok_def) (simp add: w')
  ultimately show ?thesis by (simp add: runs_inv_def)
qed (use assms in simp)

text \<open>The placeholder of a closing worker.\<close>

definition withStop :: "SessionCloseRequest \<Rightarrow> Worker \<Rightarrow> Worker" where
  "withStop input w = w\<lparr>w_slot := (w_slot w)(w_slots w := zeroRun\<lparr>ru_interrupted := True\<rparr>), w_slots := Suc (w_slots w), w_run := Some (w_slots w), w_closeRequest := input\<rparr>"

lemma inv_stop:
  assumes "runs_inv w"
  shows "runs_inv (withStop input w)"
proof -
  let ?w = "withStop input w"
  have "ledger_ok ?w" using runs_invD(1)[OF assms] by (auto simp: ledger_ok_def withStop_def)
  moreover have "task_ok ?w t" if "task_ok w t" for t
  proof -
    have "running_turn_ok ?w p q" if "running_turn_ok w p q" for p q using that by (auto simp: running_turn_ok_def withStop_def zeroRun_def)
    then show ?thesis using that by (cases "(w, t)" rule: task_ok.cases) (auto simp: withStop_def zeroRun_def)
  qed
  then have "tasks_ok ?w" using runs_invD(2)[OF assms] by (simp add: tasks_ok_def) (simp add: withStop_def)
  ultimately show ?thesis by (simp add: runs_inv_def)
qed

lemma run_slot: "runs_inv w \<Longrightarrow> w_run w = Some p \<Longrightarrow> p < w_slots w"
  using runs_invD(1)[of w] by (simp add: ledger_ok_def)

lemma inv_slot:
  assumes "runs_inv w" "p < w_slots w" "\<And>r. ru_live (f r) = ru_live r \<and> ru_seed (f r) = ru_seed r"
  shows "runs_inv (upd_slot p f w)"
  by (rule inv_steady[OF assms(1) steady_slot]) (use assms in simp_all)

lemma inv_received: "runs_inv (w\<lparr>w_received := x\<rparr>) = runs_inv w"
  by (auto intro: inv_steady[of w] inv_steady[of "w\<lparr>w_received := x\<rparr>"] simp: steady_def shrinks_def)

lemma inv_handleClose:
  assumes "runs_inv w" "rq_Params request = PClose input"
  shows "runs_inv (handleClose request w)"
proof (cases "closingSlot w")
  case True
  then show ?thesis using inv_steady[OF assms(1), of "w\<lparr>w_closed := True\<rparr>"] by (simp add: handleClose_def)
next
  case False
  define w3 where "w3 = (case w_run w of None \<Rightarrow> withStop input w
    | Some q \<Rightarrow> if runEnded q w then withStop input w else upd_slot q (\<lambda>r. r\<lparr>ru_interrupted := True\<rparr>) (withStop input w))"
  have e: "handleClose request w = goTask (KClose request (w_run w)) w3"
    using False assms(2) by (simp add: handleClose_def newSlot_def Let_def w3_def withStop_def split: option.split)
  have "runs_inv w3" using inv_stop[OF assms(1), of input] inv_slot[OF inv_stop[OF assms(1), of input]] run_slot[OF assms(1)]
    by (auto simp: w3_def less_SucI withStop_def split: option.split)
  then show ?thesis unfolding e by (rule inv_cold) simp
qed

lemma inv_handleOpen:
  assumes "runs_inv w" "rq_Params request = POpen x"
  shows "runs_inv (handleOpen request w)"
proof (cases "w_openDone w \<noteq> None \<or> w_closed w \<or> closingSlot w")
  case True
  then show ?thesis using inv_cold[OF assms(1)] by (simp add: handleOpen_def)
next
  case False
  let ?w = "w\<lparr>w_openDone := Some False\<rparr>"
  have none: "filter is_open (w_tasks w) = []"
  proof (rule ccontr)
    assume "filter is_open (w_tasks w) \<noteq> []"
    then obtain t where t: "t \<in> set (w_tasks w)" "is_open t" by (auto simp: filter_empty_conv)
    then have "task_ok w t" using runs_invD(2)[OF assms(1)] by (simp add: tasks_ok_def)
    with t(2) False show False by (elim is_open.elims) simp_all
  qed
  have "ledger_ok ?w" using runs_invD(1)[OF assms(1)] False by (auto simp: ledger_ok_def)
  moreover have "task_ok ?w t" if "task_ok w t" for t
    using that by (cases "(w, t)" rule: task_ok.cases) (simp_all add: running_turn_ok_def)
  then have "tasks_ok ?w" using runs_invD(2)[OF assms(1)] by (simp add: tasks_ok_def)
  ultimately have "runs_inv (goTask (KOpen request) ?w)" using none assms(2) by (intro winv_task) (simp_all add: runs_inv_def)
  then show ?thesis using False by (simp add: handleOpen_def)
qed

lemma inv_handleInterrupt: "runs_inv w \<Longrightarrow> runs_inv (handleInterrupt request w)"
  using inv_cold[of w] inv_cold[OF inv_slot[of w]] run_slot[of w]
  by (auto simp: handleInterrupt_def Let_def split: option.split)

lemma inv_handleDeliver:
  assumes "runs_inv w" "rq_Params request = PDeliver d"
  shows "runs_inv (handleDeliver request w)"
proof -
  have "runs_inv (goTask (KDeliver request (w_run w)) w)" if "\<not> closingSlot w"
    by (rule winv_task[OF assms(1)]) (use that run_slot[OF assms(1)] in \<open>auto simp: closingSlot_def split: option.splits\<close>)
  then show ?thesis using assms inv_execute inv_cold[OF assms(1)] by (simp add: handleDeliver_def)
qed

lemma inv_readRun: "runs_inv w \<Longrightarrow> runs_inv (readRun request w)"
  by (rule inv_steady[of w]) (auto simp: readRun_def)

text \<open>What a request of a method the daemon may send carries.\<close>

lemma admissible_params:
  assumes "admissible request"
  shows "rq_Method request = ''session.open'' \<Longrightarrow> \<exists>x. rq_Params request = POpen x"
    "rq_Method request = ''turn.ack'' \<Longrightarrow> \<exists>x. rq_Params request = PRunRef x"
    "rq_Method request = ''message.deliver'' \<Longrightarrow> \<exists>x. rq_Params request = PDeliver x"
    "rq_Method request = ''session.close'' \<Longrightarrow> \<exists>x. rq_Params request = PClose x"
  using assms by (auto simp: admissible_def DecodeParams_def methodCodecs_def codec_def elim: ptype_of.elims split: if_splits)

lemma inv_handle:
  assumes "runs_inv w" "admissible request"
  shows "runs_inv (handleWorker request w)"
proof -
  let ?w = "w\<lparr>w_received := rq_ID request # w_received w\<rparr>"
  have i: "runs_inv ?w" using assms(1) by (simp add: inv_received)
  have ack: "runs_inv (handleAck request ?w)" if "rq_Params request = PRunRef x" for x
    using inv_ack[OF i] inv_cold that by (auto simp: handleAck_def split: prod.split)
  note p = admissible_params[OF assms(2)]
  show ?thesis unfolding handleWorker_def Let_def
    using inv_cold[OF i, of "KSuperseded request"] inv_handleOpen[OF i] inv_execute[OF i] inv_readRun[OF i] ack inv_handleInterrupt[OF i]
      inv_handleDeliver[OF i] inv_handleClose[OF i] p i by (simp split del: if_split) (auto split: if_split)
qed

section \<open>The goroutines\<close>

lemma inv_end: "runs_inv w \<Longrightarrow> runs_inv (endTask t w)"
  by (rule inv_steady[of w]) (simp_all add: shrinks_end)

lemma filter_remove1_single:
  assumes "t \<in> set xs" "P t" "length (filter P xs) \<le> 1"
  shows "filter P (remove1 t xs) = []"
proof -
  have "filter P (remove1 t xs) = remove1 t (filter P xs)" by (induction xs) auto
  moreover have "t \<in> set (filter P xs)" using assms(1,2) by simp
  then have "filter P xs = [t]" using assms(3) by (cases "filter P xs") auto
  ultimately show ?thesis by simp
qed

text \<open>With a run or an opening taken out there is none left.\<close>

lemma end_only:
  assumes "runs_inv w" "t \<in> set (w_tasks w)"
  shows "is_run t \<Longrightarrow> filter is_run (w_tasks (endTask t w)) = []" "is_open t \<Longrightarrow> filter is_open (w_tasks (endTask t w)) = []"
  using filter_remove1_single[OF assms(2)] runs_invD(2)[OF assms(1)] by (simp_all add: endTask_def tasks_ok_def)

lemma task_at: "runs_inv w \<Longrightarrow> t \<in> set (w_tasks w) \<Longrightarrow> task_ok w t"
  using runs_invD(2)[of w] by (simp add: tasks_ok_def)

lemma winv_answer: "runs_inv w \<Longrightarrow> runs_inv (answerWorker ok r out w)"
  by (rule inv_steady[of w]) simp_all

lemma inv_opened:
  assumes "runs_inv w" "filter is_open (w_tasks w) = []" "\<not> w_opened w \<or> sid = w_sessionID w \<and> b"
  shows "runs_inv (w\<lparr>w_sessionID := sid, w_opened := b, w_openDone := Some True\<rparr>)"
proof -
  let ?w = "w\<lparr>w_sessionID := sid, w_opened := b, w_openDone := Some True\<rparr>"
  have r: "\<not> w_opened w \<Longrightarrow> w_records w = []" using runs_invD(1)[OF assms(1)] by (simp add: ledger_ok_def)
  have "ledger_ok ?w" using runs_invD(1)[OF assms(1)] assms(3) r by (auto simp: ledger_ok_def)
  moreover have "task_ok ?w t" if "t \<in> set (w_tasks w)" for t
  proof -
    have "task_ok w t" "\<not> is_open t" using task_at[OF assms(1) that] assms(2) that by (auto simp: filter_empty_conv)
    then show ?thesis using assms(3) r by (cases "(w, t)" rule: task_ok.cases) (auto simp: running_turn_ok_def)
  qed
  then have "tasks_ok ?w" using runs_invD(2)[OF assms(1)] by (simp add: tasks_ok_def)
  ultimately show ?thesis by (simp add: runs_inv_def)
qed

lemma inv_openProduct:
  assumes "runs_inv w" "KOpen request \<in> set (w_tasks w)"
  shows "runs_inv (openProduct outcome ok request (endTask (KOpen request) w))"
proof -
  let ?w = "endTask (KOpen request) w"
  obtain x where x: "rq_Params request = POpen x" "w_openDone w = Some False" using task_at[OF assms] by auto
  have o: "\<not> w_opened ?w" using runs_invD(1)[OF assms(1)] x(2) by (auto simp: ledger_ok_def endTask_def)
  note opened = inv_opened[OF inv_end[OF assms(1)] end_only(2)[OF assms] disjI1[OF o]]
  have "?w\<lparr>w_sessionID := w_sessionID ?w, w_opened := w_opened ?w, w_openDone := Some True\<rparr> = ?w\<lparr>w_openDone := Some True\<rparr>" by (cases ?w) simp
  then have plain: "runs_inv (?w\<lparr>w_openDone := Some True\<rparr>)" using opened[of "w_opened ?w" "w_sessionID ?w"] by simp
  have same': "(answerWorker ok request out v)\<lparr>w_openDone := Some True\<rparr> = answerWorker ok request out (v\<lparr>w_openDone := Some True\<rparr>)" for out v
    by (simp add: answerWorker_def)
  show ?thesis using x(1) winv_answer[OF opened] winv_answer[OF plain] by (simp add: openProduct_def same' split: sum.split option.split)
qed

lemma inv_accepts:
  assumes "runs_inv w" "KAccept request ref p q \<in> set (w_tasks w)"
  shows "runs_inv (goTask (KTurn p q) (answerWorker ok request out (endTask (KAccept request ref p q) w)))"
proof (rule winv_task[OF winv_answer[OF inv_end[OF assms(1)]]])
  have "steady w (answerWorker ok request out (endTask (KAccept request ref p q) w))" by simp
  from steady_task[OF this task_at[OF assms]] show "task_ok (answerWorker ok request out (endTask (KAccept request ref p q) w)) (KTurn p q)"
    by (simp add: steady_def running_turn_ok_def)
  show "filter is_run (w_tasks (answerWorker ok request out (endTask (KAccept request ref p q) w))) = []"
    using end_only(1)[OF assms] by (simp add: answerWorker_def)
qed simp

lemma runOutcome_terminal:
  "\<not> running (runOutcome outcome valid fits status)" "rs_SessionID (runOutcome outcome valid fits status) = rs_SessionID status"
  "rs_RunID (runOutcome outcome valid fits status) = rs_RunID status"
  by (auto simp: runOutcome_def Let_def split: sum.split)

lemma ledger_distinct: "ledger_ok w \<Longrightarrow> distinct (map wr_sequence (w_records w))"
  using distinct_seqs by (simp add: ledger_ok_def)

lemma find_last:
  assumes "distinct (map f xs)" "xs \<noteq> []" "f (last xs) = q"
  shows "List.find (\<lambda>r. f r = q) xs = Some (last xs)"
  using assms by (induction xs) auto

lemma map_last:
  assumes "distinct (map f xs)" "xs \<noteq> []" "f (last xs) = q"
  shows "map (\<lambda>r. if f r = q then g r else r) xs = butlast xs @ [g (last xs)]"
  using assms
proof (induction xs)
  case (Cons x xs)
  show ?case
  proof (cases "xs = []")
    case False
    then have "f x \<noteq> q" using Cons.prems by force
    with Cons False show ?thesis by simp
  qed (use Cons in simp)
qed simp

lemma inv_endTurn:
  assumes "runs_inv w" "KTurn p q \<in> set (w_tasks w)"
  shows "runs_inv (endTurn ok p q (runOutcome outcome valid fits) (endTask (KTurn p q) w))"
proof -
  let ?w = "endTask (KTurn p q) w"
  have t: "running_turn_ok w p q" using task_at[OF assms] by simp
  then have p: "p < w_slots w" and rec: "w_records w \<noteq> []" "wr_sequence (last (w_records w)) = q" by (simp_all add: running_turn_ok_def)
  have f: "List.find (\<lambda>r. wr_sequence r = q) (w_records ?w) = Some (last (w_records w))"
    using find_last[OF ledger_distinct[OF runs_invD(1)[OF assms(1)]] rec] by (simp add: endTask_def)
  define v where "v = ReportDelivery ok (Inr DInternal) p (upd_slot p (\<lambda>r. r\<lparr>ru_cancelled := True\<rparr>) ?w)"
  have s1: "steady w (upd_slot p (\<lambda>r. r\<lparr>ru_cancelled := True\<rparr>) ?w)" by (rule steady_slot) (use p in simp_all)
  have sv: "steady w v" "shrinks ?w v = shrinks ?w ?w" "w_tasks v = w_tasks ?w"
    using report_steady[OF p s1] by (simp_all add: v_def) (auto simp: shrinks_def ReportDelivery_def answerWorker_def upd_slot_def split: option.split)
  have iv: "runs_inv v" by (rule inv_steady[OF inv_end[OF assms(1), of "KTurn p q"]]) (use sv in \<open>simp_all add: steady_def endTask_def\<close>)
  have "running_turn_ok v p q" using steady_task[OF sv(1), of "KTurn p q"] t by simp
  moreover have "rs_SessionID (wr_status (last (w_records w))) = w_sessionID w" using runs_invD(1)[OF assms(1)] rec(1) by (simp add: ledger_ok_def)
  ultimately have k: "task_ok v (KReady p q (runOutcome outcome valid fits (wr_status (last (w_records w)))))"
    using sv(1) by (simp add: runOutcome_terminal steady_def)
  have "runs_inv (goTask (KReady p q (runOutcome outcome valid fits (wr_status (last (w_records w))))) v)"
    by (rule winv_task[OF iv k]) (use end_only(1)[OF assms] sv(3) in simp_all)
  then show ?thesis using f by (simp add: endTurn_def v_def)
qed

lemma inv_publish:
  assumes "runs_inv w" "KReady p q st \<in> set (w_tasks w)"
  shows "runs_inv (publishRun p q st (endTask (KReady p q st) w))"
proof -
  let ?w = "endTask (KReady p q st) w" let ?v = "publishRun p q st ?w" let ?r = "last (w_records w)"
  have t: "running_turn_ok w p q" "\<not> running st" "rs_SessionID st = w_sessionID w" "rs_RunID st = rs_RunID (wr_status ?r)" using task_at[OF assms] by simp_all
  then have p: "p < w_slots w" and rec: "w_records w \<noteq> []" "wr_sequence ?r = q" by (simp_all add: running_turn_ok_def)
  note l = runs_invD(1)[OF assms(1)]
  have records: "w_records ?v = butlast (w_records w) @ [?r\<lparr>wr_status := st\<rparr>]"
    using map_last[OF ledger_distinct[OF l] rec, of "\<lambda>r. r\<lparr>wr_status := st\<rparr>"] by (simp add: publishRun_def Let_def upd_slot_def endTask_def)
  have old: "w_records w = butlast (w_records w) @ [?r]" using rec(1) by simp
  have same: "w_sessionID ?v = w_sessionID w" "w_generation ?v = w_generation w" "w_acknowledged ?v = w_acknowledged w" "w_lastSequence ?v = w_lastSequence w"
    "w_slots ?v = w_slots w" "w_opened ?v = w_opened w" "w_openDone ?v = w_openDone w" "w_panic ?v = w_panic w" "w_tasks ?v = w_tasks ?w"
    "\<And>x. w_run ?v = Some x \<Longrightarrow> w_run w = Some x" "\<And>x. ru_live (w_slot ?v x) = ru_live (w_slot w x)" "\<And>x. x \<noteq> p \<Longrightarrow> w_slot ?v x = w_slot w x"
    by (auto simp: publishRun_def Let_def upd_slot_def endTask_def split: if_splits)
  have len: "length (w_records ?v) = length (w_records w)" "map wr_sequence (w_records ?v) = map wr_sequence (w_records w)"
    using records arg_cong[OF old, of length] arg_cong[OF old, of "map wr_sequence"] by simp_all
  have in_old: "?r \<in> set (w_records w)" "\<And>x. x \<in> set (butlast (w_records w)) \<Longrightarrow> x \<in> set (w_records w)" using rec(1) by (auto dest: in_set_butlastD)
  have "ledger_ok ?v" unfolding ledger_ok_def same(1-8) len
  proof (intro conjI)
    show "\<forall>r \<in> set (w_records ?v). rs_SessionID (wr_status r) = w_sessionID w \<and> workerRunSequence (rs_RunID (wr_status r)) = (w_generation w, wr_sequence r, True)"
      using l in_old t(3,4) by (auto simp: records ledger_ok_def)
    show "\<forall>r \<in> set (butlast (w_records ?v)). \<not> running (wr_status r)" using l by (simp add: records ledger_ok_def)
    show "w_run ?v = None \<longrightarrow> (\<forall>r \<in> set (w_records ?v). \<not> running (wr_status r))" using l t(2) by (simp add: records ledger_ok_def)
    show "\<forall>x. w_run ?v = Some x \<longrightarrow> x < w_slots w" using l same(10) by (simp add: ledger_ok_def)
    show "\<forall>x \<ge> w_slots w. w_slot ?v x = zeroRun" using l p same(12) by (auto simp: ledger_ok_def)
  qed (use l rec in \<open>auto simp: ledger_ok_def\<close>)
  moreover have "task_ok ?v x" if "x \<in> set (w_tasks ?w)" for x
  proof -
    have "task_ok ?w x" "\<not> is_run x" using task_at[OF inv_end[OF assms(1)] that] end_only(1)[OF assms] that by (auto simp: filter_empty_conv)
    then show ?thesis using same(5,7,11) by (cases "(?w, x)" rule: task_ok.cases) (auto simp: endTask_def)
  qed
  then have "tasks_ok ?v" using runs_invD(2)[OF inv_end[OF assms(1), of "KReady p q st"]] same(9) by (simp add: tasks_ok_def)
  ultimately show ?thesis by (simp add: runs_inv_def)
qed

lemma inv_report:
  assumes "runs_inv w" "KTurn p q \<in> set (w_tasks w)"
  shows "runs_inv (ReportDelivery ok out p w)"
proof (rule inv_steady[OF assms(1)])
  have p: "p < w_slots w" using task_at[OF assms] by (simp add: running_turn_ok_def)
  show "steady w (ReportDelivery ok out p w)" "shrinks w (ReportDelivery ok out p w)" using report_steady[OF p steady_refl] by simp_all
qed

lemma inv_finishSlot: "runs_inv w \<Longrightarrow> run = None \<or> the run < w_slots w \<or> \<not> ru_live (w_slot w (the run)) \<Longrightarrow> runs_inv (finishSlot run w)"
  using inv_slot[of w "the run" "\<lambda>r. r\<lparr>ru_done := True\<rparr>"] by (auto simp: finishSlot_def split: option.split)

lemma live_slot: "runs_inv w \<Longrightarrow> ru_live (w_slot w p) \<Longrightarrow> p < w_slots w"
  using runs_invD(1)[of w] by (auto simp: ledger_ok_def zeroRun_def not_less[symmetric])

lemma runs_step:
  assumes "runs_inv w" "worker_step w w'"
  shows "runs_inv w'"
  using assms(2)
proof cases
  case (receives request)
  then show ?thesis using inv_handle[OF assms(1)] by simp
next
  case (opens request outcome ok)
  then show ?thesis using inv_openProduct[OF assms(1)] by simp
next
  case (accepts request ref p q)
  then show ?thesis using inv_accepts[OF assms(1)] by simp
next
  case (reports p q ok outcome)
  then show ?thesis using inv_report[OF assms(1)] by simp
next
  case (turn_ends p q ok outcome valid fits)
  then show ?thesis using inv_endTurn[OF assms(1)] by simp
next
  case (ready_seen p q st)
  then show ?thesis using inv_publish[OF assms(1)] by simp
next
  case (delivers request run ok outcome)
  have "ru_live (w_slot w p)" if "run = Some p" for p using task_at[OF assms(1) delivers(2)] that by simp
  then have "deliverRun ok outcome request run (endTask (KDeliver request run) w)
      = answerWorker ok request (if run = None \<or> runEnded (the run) w then AError NotRunning else deliveryReply outcome) (endTask (KDeliver request run) w)"
    by (auto simp: deliverRun_def endTask_def runEnded_def split: option.split)
  then show ?thesis using delivers(1) winv_answer[OF inv_end[OF assms(1)]] by simp
next
  case (close_lost request run)
  show ?thesis unfolding close_lost(1)
    by (rule inv_finishSlot[OF inv_end[OF assms(1)]]) (use live_slot[OF assms(1)] in \<open>auto simp: endTask_def\<close>)
next
  case serve_ends
  show ?thesis unfolding serve_ends(1) by (rule inv_finishSlot[OF assms(1)]) (use run_slot[OF assms(1)] in auto)
qed (rule inv_steady[OF assms(1)]; simp add: shrinks_end)+

lemma runs_inv_new: "runs_inv (NewWorker wake)"
  by (simp add: runs_inv_def ledger_ok_def tasks_ok_def NewWorker_def)

end
