(* ===== verification/WorkerBooks.thy ===== *)
theory WorkerBooks
  imports WorkerSystem
begin

text \<open>
  The answers of the worker: which request every goroutine owes an answer to, and that each gets one unless
  the connection ends first. Readers leave before the product is closed.
\<close>

section \<open>What the goroutines owe\<close>

fun owes :: "Worker \<Rightarrow> wtask \<Rightarrow> int option" where
  "owes w (KAnswer r out) = Some (rq_ID r)"
| "owes w (KOpen r) = Some (rq_ID r)"
| "owes w (KAccept r f p q) = Some (rq_ID r)"
| "owes w (KTurn p q) = (if ru_reported (w_slot w p) then None else map_option rq_ID (ru_seed (w_slot w p)))"
| "owes w (KReady p q st) = None"
| "owes w (KRead r i b) = Some (rq_ID r)"
| "owes w (KInterrupt r p b) = Some (rq_ID r)"
| "owes w (KDeliver r p) = Some (rq_ID r)"
| "owes w (KClose r p) = Some (rq_ID r)"
| "owes w (KDrain r) = Some (rq_ID r)"
| "owes w (KCloseProduct r) = Some (rq_ID r)"
| "owes w (KSuperseded r) = Some (rq_ID r)"

fun due :: "int option \<Rightarrow> int multiset" where
  "due None = {#}"
| "due (Some i) = {#i#}"

definition debts :: "Worker \<Rightarrow> int multiset" where
  "debts w = sum_list (map (\<lambda>t. due (owes w t)) (w_tasks w))"

definition paidIDs :: "Worker \<Rightarrow> int multiset" where
  "paidIDs w = mset (map fst (w_answered w))"

text \<open>Nothing is answered that was not owed, and while the connection lasts nothing that is owed is forgotten.\<close>

definition pays :: "Worker \<Rightarrow> Worker \<Rightarrow> bool" where
  "pays w w' \<longleftrightarrow> w_received w' = w_received w \<and> (w_closed w \<longrightarrow> w_closed w') \<and> debts w' + paidIDs w' \<subseteq># debts w + paidIDs w
     \<and> (\<not> w_closed w' \<longrightarrow> debts w' + paidIDs w' = debts w + paidIDs w)"

definition worker_books_ok :: "Worker \<Rightarrow> bool" where
  "worker_books_ok w \<longleftrightarrow> distinct (w_received w) \<and> debts w + paidIDs w \<subseteq># mset (w_received w)
     \<and> (\<not> w_closed w \<longrightarrow> debts w + paidIDs w = mset (w_received w))"

lemma pays_refl [simp]: "pays w w"
  by (simp add: pays_def)

lemma pays_trans: "pays a b \<Longrightarrow> pays b c \<Longrightarrow> pays a c"
  by (auto simp: pays_def intro: subset_mset.order_trans)

lemma books_pays: "worker_books_ok w \<Longrightarrow> pays w w' \<Longrightarrow> worker_books_ok w'"
  by (auto simp: worker_books_ok_def pays_def intro: subset_mset.order_trans)

lemma sum_list_remove1: "x \<in> set xs \<Longrightarrow> f x + sum_list (map f (remove1 x xs)) = sum_list (map f xs)" for f :: "'a \<Rightarrow> 'b::comm_monoid_add"
  by (induction xs) (auto simp: ac_simps)

lemma debts_end: "t \<in> set (w_tasks w) \<Longrightarrow> debts w = due (owes w t) + debts (endTask t w)"
proof -
  assume t: "t \<in> set (w_tasks w)"
  have o: "owes (endTask t w) x = owes w x" for x by (cases x) (simp_all add: endTask_def)
  show ?thesis using sum_list_remove1[OF t, of "\<lambda>t. due (owes w t)"] by (simp add: debts_def o) (simp add: endTask_def)
qed

lemma debts_go: "debts (goTask t w) = due (owes w t) + debts w"
proof -
  have o: "owes (goTask t w) x = owes w x" for x by (cases x) (simp_all add: goTask_def)
  show ?thesis by (simp add: debts_def o) (simp add: goTask_def)
qed

lemma debts_cong:
  assumes "w_tasks w' = w_tasks w" "\<And>p. ru_seed (w_slot w' p) = ru_seed (w_slot w p)" "\<And>p. ru_reported (w_slot w' p) = ru_reported (w_slot w p)"
  shows "debts w' = debts w"
proof -
  have "owes w' x = owes w x" for x by (cases x) (simp_all add: assms)
  then show ?thesis by (simp add: debts_def assms(1))
qed

lemma pays_cong:
  assumes "debts w' = debts w" "w_answered w' = w_answered w" "w_received w' = w_received w" "w_closed w \<longrightarrow> w_closed w'"
  shows "pays w w'"
  using assms by (simp add: pays_def paidIDs_def)

lemma fields_go [simp]:
  "w_answered (goTask t w) = w_answered w" "w_received (goTask t w) = w_received w" "w_closed (goTask t w) = w_closed w"
  "w_answered (endTask t w) = w_answered w" "w_received (endTask t w) = w_received w" "w_closed (endTask t w) = w_closed w"
  "w_slot (goTask t w) = w_slot w" "w_slot (endTask t w) = w_slot w" "w_run (goTask t w) = w_run w" "w_run (endTask t w) = w_run w"
  "w_waiters (goTask t w) = w_waiters w" "w_waiters (endTask t w) = w_waiters w" "w_cancelled (goTask t w) = w_cancelled w" "w_cancelled (endTask t w) = w_cancelled w"
  by (simp_all add: goTask_def endTask_def)

lemma fields_answer [simp]:
  "w_tasks (answerWorker ok r out w) = w_tasks w" "w_waiters (answerWorker ok r out w) = w_waiters w" "w_cancelled (answerWorker ok r out w) = w_cancelled w"
  "w_once (answerWorker ok r out w) = w_once w" "w_productClosed (answerWorker ok r out w) = w_productClosed w" "w_slot (answerWorker ok r out w) = w_slot w"
  "w_received (answerWorker ok r out w) = w_received w" "w_closed w \<longrightarrow> w_closed (answerWorker ok r out w)"
  by (simp_all add: answerWorker_def)

lemma debts_answer [simp]: "debts (answerWorker ok r out w) = debts w"
  by (rule debts_cong) (simp_all add: answerWorker_def)

text \<open>A goroutine that ends by answering the request it owes.\<close>

lemma pays_answer:
  assumes "debts w = add_mset (rq_ID r) (debts v)" "w_answered v = w_answered w" "w_received v = w_received w" "w_closed v = w_closed w"
  shows "pays w (answerWorker ok r out v)"
  using assms by (auto simp: pays_def paidIDs_def answerWorker_def debts_cong[of "v\<lparr>w_closed := True\<rparr>" v] debts_cong[of "v\<lparr>w_answered := x\<rparr>" v for x])

lemma pays_task:
  assumes "t \<in> set (w_tasks w)" "owes w t = Some (rq_ID r)"
  shows "pays w (answerWorker ok r out (endTask t w))"
  by (rule pays_answer) (use debts_end[OF assms(1)] assms(2) in simp_all)

text \<open>A goroutine that hands its debt on.\<close>

lemma pays_next:
  assumes "t \<in> set (w_tasks w)" "owes w t' = owes w t"
  shows "pays w (goTask t' (endTask t w))"
proof (rule pays_cong)
  have "owes (endTask t w) t' = owes w t'" by (cases t') simp_all
  then show "debts (goTask t' (endTask t w)) = debts w" using debts_end[OF assms(1)] assms(2) by (simp add: debts_go)
qed simp_all

lemma pays_drop:
  assumes "t \<in> set (w_tasks w)" "owes w t = None \<or> w_closed w"
  shows "pays w (endTask t w)"
  using debts_end[OF assms(1)] assms(2) by (auto simp: pays_def paidIDs_def)

lemma pays_closed: "pays w w' \<Longrightarrow> pays w (w'\<lparr>w_closed := True\<rparr>)"
  using debts_cong[of "w'\<lparr>w_closed := True\<rparr>" w'] by (simp add: pays_def paidIDs_def)

lemma debts_same:
  assumes "w_tasks w' = w_tasks w" "\<And>t. t \<in> set (w_tasks w) \<Longrightarrow> owes w' t = owes w t"
  shows "debts w' = debts w"
proof -
  have "map (\<lambda>t. due (owes w' t)) (w_tasks w) = map (\<lambda>t. due (owes w t)) (w_tasks w)" by (rule map_cong) (simp_all add: assms(2))
  then show ?thesis unfolding debts_def assms(1) by (rule arg_cong)
qed

lemma owes_idle: "\<not> is_run t \<Longrightarrow> owes w' t = owes w t"
  by (cases t) simp_all

lemma debts_idle: "w_tasks w' = w_tasks w \<Longrightarrow> filter is_run (w_tasks w) = [] \<Longrightarrow> debts w' = debts w"
  by (rule debts_same) (auto simp: filter_empty_conv owes_idle)

section \<open>Turns\<close>

lemma pays_report:
  assumes "runs_inv w" "KTurn p q \<in> set (w_tasks w)"
  shows "pays w (ReportDelivery ok out p w)"
proof (cases "ru_seed (w_slot w p) = None \<or> ru_reported (w_slot w p)")
  case True
  then show ?thesis by (auto simp: ReportDelivery_def split: option.split)
next
  case False
  then obtain r where r: "ru_seed (w_slot w p) = Some r" "\<not> ru_reported (w_slot w p)" by auto
  let ?v = "upd_slot p (\<lambda>x. x\<lparr>ru_reported := True\<rparr>) w"
  have t: "w_tasks ?v = w_tasks w" by (simp add: upd_slot_def)
  have "w_tasks (endTask (KTurn p q) ?v) = w_tasks (endTask (KTurn p q) w)" by (simp add: endTask_def upd_slot_def)
  from debts_idle[OF this end_only(1)[OF assms]] have "debts (endTask (KTurn p q) ?v) = debts (endTask (KTurn p q) w)" by simp
  moreover have "debts ?v = debts (endTask (KTurn p q) ?v)" using debts_end[of "KTurn p q" ?v] assms(2) t by (simp add: upd_slot_def)
  moreover have "debts w = add_mset (rq_ID r) (debts (endTask (KTurn p q) w))" using debts_end[OF assms(2)] r by simp
  ultimately have "pays w (answerWorker ok r (deliveryReply out) ?v)" by (intro pays_answer) (simp_all add: upd_slot_def)
  then show ?thesis using r by (simp add: ReportDelivery_def)
qed

lemma pays_endTurn:
  assumes "runs_inv w" "KTurn p q \<in> set (w_tasks w)"
  shows "pays w (endTurn ok p q final (endTask (KTurn p q) w))"
proof -
  let ?e = "endTask (KTurn p q) w" let ?v = "upd_slot p (\<lambda>r. r\<lparr>ru_cancelled := True\<rparr>) ?e"
  have turn: "running_turn_ok w p q" using task_at[OF assms] by simp
  then have f: "List.find (\<lambda>r. wr_sequence r = q) (w_records ?e) = Some (last (w_records w))"
    using find_last[OF ledger_distinct[OF runs_invD(1)[OF assms(1)]]] by (simp add: running_turn_ok_def endTask_def)
  have dv: "debts (upd_slot p g ?e) = debts ?e" for g
    by (rule debts_idle) (use end_only(1)[OF assms] in \<open>simp_all add: upd_slot_def\<close>)
  have du: "upd_slot p (\<lambda>r. r\<lparr>ru_reported := True\<rparr>) ?v = upd_slot p (\<lambda>r. r\<lparr>ru_cancelled := True, ru_reported := True\<rparr>) ?e" by (simp add: upd_slot_def heap_upd_def)
  have d: "debts w = due (owes w (KTurn p q)) + debts ?e" by (rule debts_end[OF assms(2)])
  have "pays w (ReportDelivery ok (Inr DInternal) p ?v)"
  proof (cases "ru_reported (w_slot w p) \<or> ru_seed (w_slot w p) = None")
    case True
    then have "pays w ?v" using d dv by (intro pays_cong) (auto simp: upd_slot_def)
    then show ?thesis using True by (auto simp: ReportDelivery_def upd_slot_def split: option.split)
  next
    case False
    then obtain r where r: "ru_seed (w_slot w p) = Some r" "\<not> ru_reported (w_slot w p)" by auto
    then have "pays w (answerWorker ok r (deliveryReply (Inr DInternal)) (upd_slot p (\<lambda>r. r\<lparr>ru_cancelled := True, ru_reported := True\<rparr>) ?e))"
      using d dv by (intro pays_answer) (simp_all add: upd_slot_def)
    then show ?thesis using r du by (simp add: ReportDelivery_def) (simp add: upd_slot_def)
  qed
  moreover have "pays x (goTask (KReady p q st) x)" for x st by (rule pays_cong) (simp_all add: debts_go)
  ultimately show ?thesis using f by (auto simp: endTurn_def intro: pays_trans)
qed

lemma pays_publish: 
  assumes "KReady p q st \<in> set (w_tasks w)"
  shows "pays w (publishRun p q st (endTask (KReady p q st) w))"
proof (rule pays_trans[OF pays_drop[OF assms]])
  show "pays (endTask (KReady p q st) w) (publishRun p q st (endTask (KReady p q st) w))"
    by (rule pays_cong[OF debts_cong]) (simp_all add: publishRun_def Let_def upd_slot_def)
qed simp

lemma pays_open:
  assumes "runs_inv w" "KOpen r \<in> set (w_tasks w)"
  shows "pays w (openProduct outcome ok r (endTask (KOpen r) w))"
proof -
  obtain x where x: "rq_Params r = POpen x" using task_at[OF assms] by auto
  have a: "pays w (answerWorker ok r out (v\<lparr>w_sessionID := s, w_opened := b\<rparr>))" "pays w (answerWorker ok r out v)" if "v = endTask (KOpen r) w" for out v s b
    by (rule pays_answer; use debts_end[OF assms(2)] that debts_cong[of "v\<lparr>w_sessionID := s, w_opened := b\<rparr>" v] in simp)+
  have b: "pays w (v\<lparr>w_openDone := o'\<rparr>)" if "pays w v" for v o'
    by (rule pays_trans[OF that], rule pays_cong[OF debts_cong]) simp_all
  show ?thesis using x a[OF refl] by (auto simp: openProduct_def intro!: b split: sum.split option.split)
qed

lemma debts_product [simp]: "debts (closeProduct w) = debts w"
  by (rule debts_cong) (simp_all add: closeProduct_def)

lemma fields_product [simp]:
  "w_answered (closeProduct w) = w_answered w" "w_received (closeProduct w) = w_received w" "w_closed (closeProduct w) = w_closed w"
  "w_tasks (closeProduct w) = w_tasks w" "w_run (closeProduct w) = w_run w" "w_slot (closeProduct w) = w_slot w"
  "w_waiters (closeProduct w) = w_waiters w" "w_cancelled (closeProduct w) = w_cancelled w"
  by (simp_all add: closeProduct_def)

lemma pays_finish: "pays w (finishSlot run w)"
  by (rule pays_cong[OF debts_cong]) (simp_all add: finishSlot_def upd_slot_def split: option.split)

section \<open>Requests\<close>

text \<open>A new request is one more debt.\<close>

definition accrues :: "int \<Rightarrow> Worker \<Rightarrow> Worker \<Rightarrow> bool" where
  "accrues i w w' \<longleftrightarrow> w_received w' = w_received w \<and> paidIDs w' = paidIDs w \<and> (w_closed w \<longrightarrow> w_closed w')
     \<and> (debts w' = add_mset i (debts w) \<or> debts w' = debts w \<and> w_closed w')"

lemma accrues_go:
  assumes "owes v t = Some i" "debts v = debts w" "w_received v = w_received w" "w_answered v = w_answered w" "w_closed w \<longrightarrow> w_closed v"
  shows "accrues i w (goTask t v)"
  using assms by (simp add: accrues_def debts_go paidIDs_def)

lemma accrues_execute:
  assumes "runs_inv w"
  shows "accrues (rq_ID r) w (execute r delivery w)"
proof (cases rule: execute_cases[of r delivery w])
  case (1 c)
  then show ?thesis by (auto intro!: accrues_go)
next
  case (2 prefix slot x ref)
  have "debts (withRun prefix slot x w) = debts w"
    by (rule debts_idle[OF _ idle_runs[OF runs_invD(2)[OF assms] 2(2)]]) (simp add: withRun_def)
  then show ?thesis unfolding 2(10) by (intro accrues_go) (auto simp: withRun_def 2(9) zeroRun_def)
qed

lemma fields_ack:
  assumes "ackRun input w = (w', code)"
  shows "debts w' = debts w" "w_received w' = w_received w" "w_answered w' = w_answered w" "w_closed w' = w_closed w" "w_run w' = w_run w"
    "w_slot w' = w_slot w" "w_tasks w' = w_tasks w" "w_waiters w' = w_waiters w" "w_cancelled w' = w_cancelled w"
proof -
  have "w' = w \<or> (\<exists>a rs. w' = w\<lparr>w_acknowledged := a, w_records := rs\<rparr>)"
    using assms by (auto simp: ackRun_def Let_def split: prod.splits if_splits list.splits)
  moreover have "debts (w\<lparr>w_acknowledged := a, w_records := rs\<rparr>) = debts w" for a rs by (rule debts_cong) simp_all
  ultimately show "debts w' = debts w" "w_received w' = w_received w" "w_answered w' = w_answered w" "w_closed w' = w_closed w" "w_run w' = w_run w"
    "w_slot w' = w_slot w" "w_tasks w' = w_tasks w" "w_waiters w' = w_waiters w" "w_cancelled w' = w_cancelled w" by auto
qed

lemma admissible_method:
  assumes "admissible r"
  shows "rq_Method r \<in> {''session.superseded'', ''session.open'', ''turn.execute'', ''turn.status'', ''turn.wait'', ''turn.ack'', ''turn.interrupt'',
    ''message.deliver'', ''session.close''}"
  using assms by (auto simp: admissible_def Allows_def methodCodecs_def codec_def split: if_splits)

lemma accrues_handlers:
  assumes "runs_inv w"
  shows "accrues (rq_ID r) w (handleOpen r w)" "accrues (rq_ID r) w (handleInterrupt r w)" "accrues (rq_ID r) w (readRun r w)"
    "rq_Params r = PRunRef x \<Longrightarrow> accrues (rq_ID r) w (handleAck r w)" "rq_Params r = PDeliver y \<Longrightarrow> accrues (rq_ID r) w (handleDeliver r w)"
    "rq_Params r = PClose z \<Longrightarrow> accrues (rq_ID r) w (handleClose r w)"
proof -
  have d: "debts (w\<lparr>w_openDone := o'\<rparr>) = debts w" "debts (w\<lparr>w_waiters := n\<rparr>) = debts w" "debts (w\<lparr>w_closed := b\<rparr>) = debts w" for o' n b
    by (rule debts_cong; simp)+
  have u: "debts (upd_slot p (\<lambda>r. r\<lparr>ru_interrupted := True\<rparr>) v) = debts v" for p v by (rule debts_cong) (simp_all add: upd_slot_def)
  show "accrues (rq_ID r) w (handleOpen r w)" by (auto simp: handleOpen_def d intro!: accrues_go)
  show "accrues (rq_ID r) w (handleInterrupt r w)"
    by (auto simp: handleInterrupt_def Let_def u intro!: accrues_go split: option.split) (simp_all add: upd_slot_def)
  show "accrues (rq_ID r) w (readRun r w)" by (auto simp: readRun_def d intro!: accrues_go)
  show "accrues (rq_ID r) w (handleAck r w)" if "rq_Params r = PRunRef x"
    using that by (auto simp: handleAck_def intro!: accrues_go dest: fields_ack split: prod.split)
  show "accrues (rq_ID r) w (handleDeliver r w)" if "rq_Params r = PDeliver y"
    using that accrues_execute[OF assms] by (auto simp: handleDeliver_def intro!: accrues_go)
  show "accrues (rq_ID r) w (handleClose r w)" if "rq_Params r = PClose z"
  proof (cases "closingSlot w")
    case True
    then show ?thesis by (simp add: handleClose_def accrues_def paidIDs_def d)
  next
    case False
    have old: "task_ok w t" if "t \<in> set (w_tasks w)" for t by (rule task_at[OF assms that])
    have "owes (withStop z w) t = owes w t" if "t \<in> set (w_tasks w)" for t
      using old[OF that] by (cases t) (auto simp: withStop_def running_turn_ok_def)
    then have s: "debts (withStop z w) = debts w" by (intro debts_same) (simp_all add: withStop_def)
    define v where "v = (case w_run w of None \<Rightarrow> withStop z w
      | Some q \<Rightarrow> if runEnded q w then withStop z w else upd_slot q (\<lambda>r. r\<lparr>ru_interrupted := True\<rparr>) (withStop z w))"
    have "handleClose r w = goTask (KClose r (w_run w)) v"
      using False that by (simp add: handleClose_def newSlot_def Let_def v_def withStop_def split: option.split)
    moreover have "debts v = debts w" "w_received v = w_received w" "w_answered v = w_answered w" "w_closed v = w_closed w"
      using s u by (auto simp: v_def split: option.split) (auto simp: withStop_def upd_slot_def)
    ultimately show ?thesis by (auto intro!: accrues_go)
  qed
qed

lemma books_handle:
  assumes "worker_books_ok w" "runs_inv w" "admissible r" "\<forall>i \<in> set (w_received w). i < rq_ID r"
  shows "worker_books_ok (handleWorker r w)"
proof -
  let ?w = "w\<lparr>w_received := rq_ID r # w_received w\<rparr>"
  have i: "runs_inv ?w" using assms(2) by (simp add: inv_received)
  have sup: "accrues (rq_ID r) ?w (goTask (KSuperseded r) ?w)" by (rule accrues_go) simp_all
  have "accrues (rq_ID r) ?w (handleWorker r w)"
    using admissible_method[OF assms(3)] admissible_params[OF assms(3)] sup accrues_handlers[OF i] accrues_execute[OF i]
    by (auto simp: handleWorker_def Let_def)
  moreover have "debts ?w = debts w" by (rule debts_cong) simp_all
  ultimately have a: "w_received (handleWorker r w) = rq_ID r # w_received w" "paidIDs (handleWorker r w) = paidIDs w" "w_closed w \<longrightarrow> w_closed (handleWorker r w)"
    "debts (handleWorker r w) = add_mset (rq_ID r) (debts w) \<or> debts (handleWorker r w) = debts w \<and> w_closed (handleWorker r w)"
    by (simp_all add: accrues_def paidIDs_def)
  have b: "distinct (w_received w)" "debts w + paidIDs w \<subseteq># mset (w_received w)" "\<not> w_closed w \<longrightarrow> debts w + paidIDs w = mset (w_received w)"
    using assms(1) by (simp_all add: worker_books_ok_def)
  from a(4) show ?thesis
  proof
    assume "debts (handleWorker r w) = add_mset (rq_ID r) (debts w)"
    then show ?thesis using a(1-3) b assms(4) by (auto simp: worker_books_ok_def)
  next
    assume "debts (handleWorker r w) = debts w \<and> w_closed (handleWorker r w)"
    then show ?thesis using a(1-3) b assms(4) by (auto simp: worker_books_ok_def intro: subset_mset.order_trans)
  qed
qed

section \<open>Readers and the close\<close>

fun is_read :: "wtask \<Rightarrow> bool" where
  "is_read (KRead r i b) = True"
| "is_read _ = False"

fun is_close :: "wtask \<Rightarrow> bool" where
  "is_close (KClose r p) = True"
| "is_close (KDrain r) = True"
| "is_close (KCloseProduct r) = True"
| "is_close _ = False"

definition readers_ok :: "Worker \<Rightarrow> bool" where
  "readers_ok w \<longleftrightarrow> w_waiters w = length (filter is_read (w_tasks w)) \<and> w_waiters w \<le> MaxOperations
     \<and> (\<forall>t \<in> set (w_tasks w). is_close t \<longrightarrow> closingSlot w) \<and> (w_cancelled w \<longrightarrow> closingSlot w \<and> (w_waiters w = 0 \<or> w_closed w))
     \<and> w_productClosed w \<le> 1 \<and> (\<not> w_once w \<longrightarrow> w_productClosed w = 0)"

lemma readersD:
  assumes "readers_ok w"
  shows "w_waiters w = length (filter is_read (w_tasks w))" "w_waiters w \<le> MaxOperations" "\<And>t. t \<in> set (w_tasks w) \<Longrightarrow> is_close t \<Longrightarrow> closingSlot w"
    "w_cancelled w \<Longrightarrow> closingSlot w" "w_cancelled w \<Longrightarrow> w_waiters w = 0 \<or> w_closed w" "w_productClosed w \<le> 1" "\<not> w_once w \<Longrightarrow> w_productClosed w = 0"
  using assms unfolding readers_ok_def by blast+

lemma readersI:
  assumes "w_waiters w = length (filter is_read (w_tasks w))" "w_waiters w \<le> MaxOperations" "\<And>t. t \<in> set (w_tasks w) \<Longrightarrow> is_close t \<Longrightarrow> closingSlot w"
    "w_cancelled w \<Longrightarrow> closingSlot w" "w_cancelled w \<Longrightarrow> w_waiters w = 0 \<or> w_closed w" "w_productClosed w \<le> 1" "\<not> w_once w \<Longrightarrow> w_productClosed w = 0"
  shows "readers_ok w"
  using assms unfolding readers_ok_def by blast

text \<open>Steps that start no reader and no close.\<close>

definition leaves :: "Worker \<Rightarrow> Worker \<Rightarrow> bool" where
  "leaves w w' \<longleftrightarrow> w_waiters w' = w_waiters w \<and> length (filter is_read (w_tasks w')) = length (filter is_read (w_tasks w))
     \<and> (\<forall>t \<in> set (w_tasks w'). is_close t \<longrightarrow> t \<in> set (w_tasks w) \<or> closingSlot w') \<and> (closingSlot w \<longrightarrow> closingSlot w')
     \<and> w_cancelled w' = w_cancelled w \<and> (w_closed w \<longrightarrow> w_closed w') \<and> w_productClosed w' = w_productClosed w \<and> w_once w' = w_once w"

lemma readers_leaves: "readers_ok w \<Longrightarrow> leaves w w' \<Longrightarrow> readers_ok w'"
  by (auto simp: readers_ok_def leaves_def)

lemma closing_steady: "steady w w' \<Longrightarrow> closingSlot w' = closingSlot w"
  by (simp add: steady_def closingSlot_def split: option.split)

lemma closing_ops [simp]:
  "closingSlot (goTask t w) = closingSlot w" "closingSlot (endTask t w) = closingSlot w" "closingSlot (answerWorker ok r out w) = closingSlot w"
  "closingSlot (w\<lparr>w_closed := b\<rparr>) = closingSlot w" "closingSlot (w\<lparr>w_received := x\<rparr>) = closingSlot w" "closingSlot (w\<lparr>w_waiters := n\<rparr>) = closingSlot w"
  "closingSlot (w\<lparr>w_cancelled := c\<rparr>) = closingSlot w" "closingSlot (closeProduct w) = closingSlot w"
  by (simp_all add: closingSlot_def answerWorker_def split: option.split)

lemma leaves_refl [simp]: "leaves w w"
  by (simp add: leaves_def)

lemma leaves_trans: "leaves a b \<Longrightarrow> leaves b c \<Longrightarrow> leaves a c"
  by (auto simp: leaves_def)

lemma leaves_go: "\<not> is_read t \<Longrightarrow> is_close t \<longrightarrow> closingSlot w \<Longrightarrow> leaves w (goTask t w)"
  by (auto simp: leaves_def) (auto simp: goTask_def)

lemma leaves_end: "\<not> is_read t \<Longrightarrow> leaves w (endTask t w)"
proof -
  assume t: "\<not> is_read t"
  have "filter is_read (remove1 t xs) = filter is_read xs" for xs using t by (induction xs) auto
  then show ?thesis by (auto simp: leaves_def) (auto simp: endTask_def dest: set_remove1_subset[THEN subsetD])
qed

lemma leaves_answer: "leaves w (answerWorker ok r out w)"
  by (simp add: leaves_def)

lemma leaves_closed: "leaves w (w\<lparr>w_closed := True\<rparr>)"
  by (simp add: leaves_def)

lemma leaves_slot: "(\<And>r. ru_live (f r) = ru_live r) \<Longrightarrow> leaves w (upd_slot p f w)"
  by (auto simp: leaves_def upd_slot_def closingSlot_def split: option.splits)

lemma leaves_report: "leaves w (ReportDelivery ok out p w)"
  using leaves_trans[OF leaves_slot leaves_answer, of "\<lambda>r. r\<lparr>ru_reported := True\<rparr>"] by (auto simp: ReportDelivery_def split: option.split)

lemma leaves_execute: "leaves w (execute r delivery w)"
proof (cases rule: execute_cases[of r delivery w])
  case (1 c)
  then show ?thesis by (auto intro!: leaves_go)
next
  case (2 prefix slot x ref)
  have "leaves w (withRun prefix slot x w)" using 2(2) by (simp add: leaves_def withRun_def closingSlot_def)
  from leaves_trans[OF this leaves_go] show ?thesis unfolding 2(10) by simp
qed

lemma leaves_handlers:
  "leaves w (handleOpen r w)" "leaves w (handleInterrupt r w)" "leaves w (handleAck r w)" "leaves w (handleDeliver r w)" "leaves w (handleClose r w)"
proof -
  have "leaves w (w\<lparr>w_openDone := o'\<rparr>)" for o' by (simp add: leaves_def closingSlot_def split: option.split)
  from leaves_trans[OF this leaves_go] show "leaves w (handleOpen r w)" by (simp add: handleOpen_def leaves_go)
  have "leaves w (goTask (KInterrupt r p b) (upd_slot p (\<lambda>r. r\<lparr>ru_interrupted := True\<rparr>) w))" for p b by (rule leaves_trans[OF leaves_slot leaves_go]) simp_all
  then show "leaves w (handleInterrupt r w)" by (simp add: handleInterrupt_def Let_def leaves_go split: option.split)
  have panic: "leaves w (panicWorker w)" by (simp add: leaves_def panicWorker_def closingSlot_def split: option.split)
  have "leaves w v" if "ackRun x w = (v, c)" for x v c
  proof -
    have "v = w \<or> (\<exists>a rs. v = w\<lparr>w_acknowledged := a, w_records := rs\<rparr>)"
      using that by (auto simp: ackRun_def Let_def split: prod.splits if_splits list.splits)
    then show ?thesis by (auto simp: leaves_def closingSlot_def split: option.split)
  qed
  from leaves_trans[OF this leaves_go] show "leaves w (handleAck r w)" using panic by (auto simp: handleAck_def split: params.split prod.split)
  show "leaves w (handleDeliver r w)" using leaves_execute panic by (simp add: handleDeliver_def leaves_go split: params.split)
  show "leaves w (handleClose r w)"
  proof (cases "\<exists>z. rq_Params r = PClose z \<and> \<not> closingSlot w")
    case True
    then obtain z where z: "rq_Params r = PClose z" "\<not> closingSlot w" by blast
    have stop: "leaves w (withStop z w)" "closingSlot (withStop z w)" by (simp_all add: leaves_def withStop_def closingSlot_def zeroRun_def)
    have slot: "closingSlot (upd_slot q (\<lambda>r. r\<lparr>ru_interrupted := True\<rparr>) v) = closingSlot v" for q v by (simp add: closingSlot_def upd_slot_def split: option.split)
    have "leaves w (goTask (KClose r c) (withStop z w))" "leaves w (goTask (KClose r c) (upd_slot q (\<lambda>r. r\<lparr>ru_interrupted := True\<rparr>) (withStop z w)))" for c q
      by (rule leaves_trans[OF stop(1) leaves_go], simp_all add: stop(2))
        (rule leaves_trans[OF leaves_trans[OF stop(1) leaves_slot] leaves_go], simp_all add: stop(2) slot)
    then show ?thesis using z by (simp add: handleClose_def newSlot_def Let_def withStop_def split: option.split)
  next
    case False
    then show ?thesis using panic leaves_closed by (cases "closingSlot w") (auto simp: handleClose_def split: params.split)
  qed
qed

lemma readers_handle:
  assumes "readers_ok w"
  shows "readers_ok (handleWorker r w)"
proof -
  let ?w = "w\<lparr>w_received := rq_ID r # w_received w\<rparr>"
  have i: "readers_ok ?w" by (rule readers_leaves[OF assms]) (simp add: leaves_def)
  have "readers_ok (readRun r ?w)" using i by (simp add: readRun_def readers_ok_def) (auto simp: goTask_def)
  then show ?thesis using i readers_leaves[OF i leaves_go] readers_leaves[OF i leaves_execute] readers_leaves[OF i leaves_handlers(1)]
      readers_leaves[OF i leaves_handlers(2)] readers_leaves[OF i leaves_handlers(3)] readers_leaves[OF i leaves_handlers(4)] readers_leaves[OF i leaves_handlers(5)]
    by (simp add: handleWorker_def Let_def)
qed

section \<open>Every step\<close>

definition worker_inv :: "Worker \<Rightarrow> bool" where
  "worker_inv w \<longleftrightarrow> runs_inv w \<and> worker_books_ok w \<and> readers_ok w"

lemma length_filter_remove1: "t \<in> set xs \<Longrightarrow> P t \<Longrightarrow> length (filter P xs) = Suc (length (filter P (remove1 t xs)))"
  by (induction xs) auto

lemma readers_read:
  assumes "readers_ok w" "KRead r i b \<in> set (w_tasks w)"
  shows "readers_ok ((endTask (KRead r i b) w)\<lparr>w_waiters := w_waiters w - 1\<rparr>)"
proof -
  have "length (filter is_read (w_tasks w)) = Suc (length (filter is_read (remove1 (KRead r i b) (w_tasks w))))"
    by (rule length_filter_remove1[OF assms(2)]) simp
  then have n: "length (filter is_read (w_tasks (endTask (KRead r i b) w))) = w_waiters w - 1" using readersD(1)[OF assms(1)] by (simp add: endTask_def)
  have sub: "t \<in> set (w_tasks w)" if "t \<in> set (w_tasks (endTask (KRead r i b) w))" for t
    using that set_remove1_subset[of "KRead r i b" "w_tasks w"] by (auto simp: endTask_def)
  have f: "w_productClosed (endTask (KRead r i b) w) = w_productClosed w" "w_once (endTask (KRead r i b) w) = w_once w" by (simp_all add: endTask_def)
  note d = readersD[OF assms(1)]
  show ?thesis
  proof (rule readersI)
    show "w_waiters (endTask (KRead r i b) w\<lparr>w_waiters := w_waiters w - 1\<rparr>) = 0 \<or> w_closed (endTask (KRead r i b) w\<lparr>w_waiters := w_waiters w - 1\<rparr>)"
      if "w_cancelled (endTask (KRead r i b) w\<lparr>w_waiters := w_waiters w - 1\<rparr>)" using d(5) that by auto
  qed (use n f d(2-7) sub in \<open>simp_all, blast\<close>)
qed

lemma readers_waiters_answer:
  assumes "readers_ok (w\<lparr>w_waiters := n\<rparr>)"
  shows "readers_ok ((answerWorker ok r out w)\<lparr>w_waiters := n\<rparr>)"
  using readersD[OF assms] by (intro readersI) auto

lemma pays_waiters [simp]: "pays w (w'\<lparr>w_waiters := n\<rparr>) = pays w w'" "pays w (w'\<lparr>w_cancelled := b\<rparr>) = pays w w'"
  using debts_cong[of "w'\<lparr>w_waiters := n\<rparr>" w'] debts_cong[of "w'\<lparr>w_cancelled := b\<rparr>" w'] by (simp_all add: pays_def paidIDs_def)

lemma worker_books_step:
  assumes "worker_books_ok w" "runs_inv w" "readers_ok w" "worker_step w w'"
  shows "worker_books_ok w'"
  using assms(4)
proof cases
  case (receives r)
  then show ?thesis using books_handle[OF assms(1,2)] by simp
next
  case disconnects
  then show ?thesis using books_pays[OF assms(1) pays_closed[OF pays_refl]] by simp
next
  case (answers r out ok)
  then show ?thesis using books_pays[OF assms(1) pays_task] by simp
next
  case (superseded r ok)
  then show ?thesis using books_pays[OF assms(1) pays_closed[OF pays_task]] by simp
next
  case (opens r outcome ok)
  then show ?thesis using books_pays[OF assms(1) pays_open[OF assms(2)]] by simp
next
  case (accepts r ref p q)
  let ?v = "answerWorker True r (AResult (VRunRef ref)) (endTask (KAccept r ref p q) w)"
  have "owes ?v (KTurn p q) = None" using task_at[OF assms(2) accepts(2)] by simp
  then have "pays ?v (goTask (KTurn p q) ?v)" by (intro pays_cong) (simp_all add: debts_go)
  from books_pays[OF assms(1) pays_trans[OF pays_task[OF accepts(2)] this]] accepts(1) show ?thesis by simp
next
  case (accept_fails r ref p q)
  then show ?thesis using books_pays[OF assms(1) pays_task] by simp
next
  case (reports p q ok outcome)
  then show ?thesis using books_pays[OF assms(1) pays_report[OF assms(2)]] by simp
next
  case (turn_ends p q ok outcome valid fits)
  then show ?thesis using books_pays[OF assms(1) pays_endTurn[OF assms(2)]] by simp
next
  case (ready_seen p q st)
  then show ?thesis using books_pays[OF assms(1) pays_publish] by simp
next
  case (ready_fails p q st)
  then show ?thesis using books_pays[OF assms(1) pays_closed[OF pays_drop]] by simp
next
  case (reads r input waits deadline out ok)
  have "pays w (answerWorker ok r out (endTask (KRead r input waits) w))" by (rule pays_task[OF reads(2)]) simp
  then show ?thesis using books_pays[OF assms(1)] reads(1) by simp
next
  case (read_ends r input waits)
  have "KRead r input waits \<in> set (filter is_read (w_tasks w))" using read_ends(2) by simp
  then have "filter is_read (w_tasks w) \<noteq> []" by force
  then have "w_closed w" using read_ends(3) readersD(1,5)[OF assms(3)] by auto
  then have "pays w (endTask (KRead r input waits) w)" using pays_drop[OF read_ends(2)] by simp
  then show ?thesis using books_pays[OF assms(1)] read_ends(1) by simp
next
  case (interrupts r p call ok)
  then show ?thesis using books_pays[OF assms(1) pays_task] by simp
next
  case (delivers r run ok outcome)
  have "ru_live (w_slot w p)" if "run = Some p" for p using task_at[OF assms(2) delivers(2)] that by simp
  then have "\<exists>out. w' = answerWorker ok r out (endTask (KDeliver r run) w)" using delivers(1) by (auto simp: deliverRun_def split: option.split)
  then show ?thesis using books_pays[OF assms(1) pays_task[OF delivers(2)]] by auto
next
  case (close_turn r run)
  then show ?thesis using books_pays[OF assms(1) pays_next] by simp
next
  case (close_lost r run)
  then show ?thesis using books_pays[OF assms(1) pays_trans[OF pays_drop pays_finish]] by simp
next
  case (close_drained r)
  have "pays w (goTask (KCloseProduct r) (endTask (KDrain r) w))" by (rule pays_next[OF close_drained(2)]) simp
  then show ?thesis using books_pays[OF assms(1)] close_drained(1) by simp
next
  case (drain_lost r)
  have "pays w (endTask (KDrain r) w)" using pays_drop[OF drain_lost(2)] drain_lost(3) by simp
  then show ?thesis using books_pays[OF assms(1)] drain_lost(1) by simp
next
  case (close_product r ok)
  have "pays w (answerWorker ok r (AResult VEmpty) (closeProduct (endTask (KCloseProduct r) w)))"
    by (rule pays_answer) (use debts_end[OF close_product(2)] in simp_all)
  then show ?thesis using books_pays[OF assms(1) pays_closed] close_product(1) by simp
next
  case serve_ends
  then show ?thesis using books_pays[OF assms(1) pays_finish] by simp
next
  case serve_returns
  have "pays w (closeProduct w)" by (rule pays_cong) simp_all
  then show ?thesis using books_pays[OF assms(1)] serve_returns(1) by simp
qed

lemma leaves_open: "leaves w (openProduct outcome ok r w)"
proof -
  have c: "closingSlot (w\<lparr>w_sessionID := a, w_opened := b\<rparr>) = closingSlot w" "closingSlot (v\<lparr>w_openDone := c\<rparr>) = closingSlot v" "closingSlot (panicWorker w) = closingSlot w" for a b c v
    by (simp_all add: closingSlot_def panicWorker_def split: option.split)
  show ?thesis by (simp add: openProduct_def leaves_def c split: params.split option.split sum.split) (simp add: panicWorker_def)
qed

lemma leaves_endTurn: "leaves w (endTurn ok p q final w)"
proof -
  have "leaves w (goTask (KReady p q st) (ReportDelivery ok out p (upd_slot p (\<lambda>r. r\<lparr>ru_cancelled := True\<rparr>) w)))" for st out
    by (rule leaves_trans[OF leaves_trans[OF leaves_slot leaves_report] leaves_go]) simp_all
  moreover have "leaves w (panicWorker w)" by (simp add: leaves_def panicWorker_def closingSlot_def split: option.split)
  ultimately show ?thesis by (simp add: endTurn_def split: option.split)
qed

lemma leaves_publish:
  assumes "ru_live (w_slot w p)"
  shows "leaves w (publishRun p q st w)"
  using assms by (auto simp: leaves_def publishRun_def Let_def upd_slot_def closingSlot_def split: option.splits if_splits)

lemma leaves_finish: "leaves w (finishSlot run w)"
  using leaves_slot by (simp add: finishSlot_def split: option.split)

lemma readers_product: "readers_ok w \<Longrightarrow> readers_ok (closeProduct w)"
proof (rule readersI)
  assume r: "readers_ok w"
  note d = readersD[OF r]
  show "w_productClosed (closeProduct w) \<le> 1" "\<not> w_once (closeProduct w) \<Longrightarrow> w_productClosed (closeProduct w) = 0"
    using d(6,7) by (auto simp: closeProduct_def split: if_splits)
qed (use readersD(1-5)[of w] in simp_all)

lemma readers_cancel:
  assumes "readers_ok w" "closingSlot w" "w_waiters w = 0 \<or> w_closed w"
  shows "readers_ok (w\<lparr>w_cancelled := True\<rparr>)"
  using readersD[OF assms(1)] assms(2,3) by (intro readersI) auto

lemma readers_step:
  assumes "readers_ok w" "runs_inv w" "worker_step w w'"
  shows "readers_ok w'"
proof -
  note step = readers_leaves[OF assms(1)]
  have ended: "readers_ok (answerWorker ok r out (endTask t w))" if "\<not> is_read t" for ok r out t
    by (rule step[OF leaves_trans[OF leaves_end[OF that] leaves_answer]])
  show ?thesis using assms(3)
  proof cases
    case (receives r)
    then show ?thesis using readers_handle[OF assms(1)] by simp
  next
    case disconnects
    then show ?thesis using step[OF leaves_closed] by simp
  next
    case (superseded r ok)
    then show ?thesis using readers_leaves[OF ended leaves_closed] by simp
  next
    case (opens r outcome ok)
    then show ?thesis using step[OF leaves_trans[OF leaves_end leaves_open]] by simp
  next
    case (accepts r ref p q)
    then show ?thesis using readers_leaves[OF ended leaves_go] by simp
  next
    case (reports p q ok outcome)
    then show ?thesis using step[OF leaves_report] by simp
  next
    case (turn_ends p q ok outcome valid fits)
    then show ?thesis using step[OF leaves_trans[OF leaves_end leaves_endTurn]] by simp
  next
    case (ready_seen p q st)
    have "ru_live (w_slot w p)" using task_at[OF assms(2) ready_seen(2)] by (simp add: running_turn_ok_def)
    then show ?thesis using step[OF leaves_trans[OF leaves_end leaves_publish]] ready_seen(1) by simp
  next
    case (ready_fails p q st)
    then show ?thesis using step[OF leaves_trans[OF leaves_end leaves_closed]] by simp
  next
    case (reads r input waits deadline out ok)
    then show ?thesis using readers_waiters_answer[OF readers_read[OF assms(1) reads(2)]] by simp
  next
    case (read_ends r input waits)
    then show ?thesis using readers_read[OF assms(1)] by simp
  next
    case (delivers r run ok outcome)
    have "ru_live (w_slot w p)" if "run = Some p" for p using task_at[OF assms(2) delivers(2)] that by simp
    then have "\<exists>out. w' = answerWorker ok r out (endTask (KDeliver r run) w)" using delivers(1) by (auto simp: deliverRun_def split: option.split)
    then show ?thesis using ended by auto
  next
    case (close_turn r run)
    have "closingSlot w" using readersD(3)[OF assms(1) close_turn(2)] by simp
    then show ?thesis using step[OF leaves_trans[OF leaves_end leaves_go]] close_turn(1) by simp
  next
    case (close_lost r run)
    then show ?thesis using step[OF leaves_trans[OF leaves_end leaves_finish]] by simp
  next
    case (close_drained r)
    have c: "closingSlot w" using readersD(3)[OF assms(1) close_drained(2)] by simp
    then have "readers_ok (goTask (KCloseProduct r) (endTask (KDrain r) w))" by (intro step[OF leaves_trans[OF leaves_end leaves_go]]) simp_all
    from readers_cancel[OF this] c close_drained show ?thesis by simp
  next
    case (drain_lost r)
    have c: "closingSlot w" using readersD(3)[OF assms(1) drain_lost(2)] by simp
    have "readers_ok (endTask (KDrain r) w)" by (rule step[OF leaves_end]) simp
    from readers_cancel[OF this] c drain_lost show ?thesis by simp
  next
    case (close_product r ok)
    have "readers_ok (endTask (KCloseProduct r) w)" by (rule step[OF leaves_end]) simp
    from readers_leaves[OF readers_product[OF this] leaves_trans[OF leaves_answer leaves_closed]] close_product(1) show ?thesis by simp
  next
    case serve_ends
    then show ?thesis using step[OF leaves_finish] by simp
  next
    case serve_returns
    then show ?thesis using readers_product[OF assms(1)] by simp
  qed (use ended in simp_all)
qed

lemma worker_inv_new: "worker_inv (NewWorker wake)"
  using runs_inv_new by (simp add: worker_inv_def worker_books_ok_def readers_ok_def debts_def paidIDs_def NewWorker_def)

interpretation worker_sys: transition_system "\<lambda>w. \<exists>wake. w = NewWorker wake" worker_step worker_inv
proof unfold_locales
  show "\<exists>wake. w = NewWorker wake \<Longrightarrow> worker_inv w" for w using worker_inv_new by auto
  show "worker_inv w \<Longrightarrow> worker_step w w' \<Longrightarrow> worker_inv w'" for w w'
    using runs_step worker_books_step readers_step unfolding worker_inv_def by blast
qed

abbreviation worker_reach :: "Worker \<Rightarrow> bool" where
  "worker_reach \<equiv> reach (\<lambda>w. \<exists>wake. w = NewWorker wake) worker_step"

section \<open>What the daemon relies on\<close>

text \<open>
  C12: (client library) In every state of a worker the runs it keeps are exactly those after the last acknowledged one up to the
  last one started, consecutively and without gaps, at most \<open>MaxOperations\<close> of them and all of its session and
  generation; only the last may be in progress, and none is when the worker is idle. Nothing the daemon sends
  makes the worker panic.
\<close>

theorem worker_runs_consecutive:
  assumes "worker_reach w"
  shows "unat (w_acknowledged w) + length (w_records w) = unat (w_lastSequence w) \<and> length (w_records w) \<le> MaxOperations
    \<and> map wr_sequence (w_records w) = seqs (w_acknowledged w) (length (w_records w))
    \<and> list_all (\<lambda>r. rs_SessionID (wr_status r) = w_sessionID w \<and> workerRunSequence (rs_RunID (wr_status r)) = (w_generation w, wr_sequence r, True)) (w_records w)
    \<and> list_all (\<lambda>r. rs_State (wr_status r) \<noteq> ''running'') (if w_run w = None then w_records w else butlast (w_records w)) \<and> \<not> w_panic w"
proof -
  have "ledger_ok w" using worker_sys.reach_inv[OF assms] by (simp add: worker_inv_def runs_inv_def)
  then show ?thesis unfolding ledger_ok_def list_all_iff by simp
qed

text \<open>
  C11: (client library) A worker answers every request of the daemon once. While the connection lasts each request it has read is
  either answered or owed by exactly one goroutine, deliveries that start a turn included, whose receipt is
  reported once whatever the product does; when no goroutine is left every request has its answer. At most
  \<open>MaxOperations\<close> readers wait, and the product is closed at most once.
\<close>

theorem worker_answers_once:
  assumes "worker_reach w"
  shows "distinct (map fst (w_answered w)) \<and> set (map fst (w_answered w)) \<subseteq> set (w_received w)
    \<and> (\<not> w_closed w \<longrightarrow> mset (w_received w) = mset (map fst (w_answered w)) + debts w)
    \<and> (\<not> w_closed w \<and> w_tasks w = [] \<longrightarrow> set (map fst (w_answered w)) = set (w_received w))
    \<and> w_waiters w \<le> MaxOperations \<and> w_productClosed w \<le> 1"
proof -
  have b: "worker_books_ok w" and r: "readers_ok w" using worker_sys.reach_inv[OF assms] by (simp_all add: worker_inv_def)
  have s: "mset (map fst (w_answered w)) \<subseteq># mset (w_received w)"
  proof (rule subset_mset.order_trans)
    show "mset (map fst (w_answered w)) \<subseteq># debts w + paidIDs w" unfolding paidIDs_def by (rule mset_subset_eq_add_right)
    show "debts w + paidIDs w \<subseteq># mset (w_received w)" using b by (simp add: worker_books_ok_def)
  qed
  have d: "distinct (w_received w)" using b by (simp add: worker_books_ok_def)
  have "distinct (map fst (w_answered w))" by (rule distinct_sub_mset[OF s d])
  moreover have "set (map fst (w_answered w)) \<subseteq> set (w_received w)" using s by (metis set_mset_mono set_mset_mset)
  moreover have open_: "\<not> w_closed w \<longrightarrow> mset (w_received w) = mset (map fst (w_answered w)) + debts w"
    using b by (simp add: worker_books_ok_def paidIDs_def add.commute)
  moreover have "set (map fst (w_answered w)) = set (w_received w)" if "\<not> w_closed w" "w_tasks w = []"
    using open_ that mset_eq_setD[of "w_received w" "map fst (w_answered w)"] by (simp add: debts_def)
  ultimately show ?thesis using readersD(2,6)[OF r] by blast
qed

section \<open>A run of a worker\<close>

text \<open>The daemon opens the session and starts a turn, which the product ends; its result waits for the acknowledgment.\<close>

definition demoOpen :: Request where
  "demoOpen = \<lparr>rq_ID = 1, rq_Method = ''session.open'', rq_Params = POpen \<lparr>oq_Policy = None, oq_Name = ''n'', oq_Groups = [], oq_ResumeSessionID = [],
     oq_Open = \<lparr>oo_Cwd = [], oo_PermissionMode = [], oo_Model = [], oo_ReasoningEffort = [], oo_Arguments = []\<rparr>\<rparr>\<rparr>"

definition demoRef :: RunRef where
  "demoRef = \<lparr>rr_SessionID = ''s'', rr_RunID = ''g/1''\<rparr>"

definition demoExecute :: Request where
  "demoExecute = \<lparr>rq_ID = 2, rq_Method = ''turn.execute'', rq_Params = PExecute \<lparr>ex_SessionID = ''s'', ex_RunID = ''g/1'', ex_Input = []\<rparr>\<rparr>"

definition demoResult :: TurnResult where
  "demoResult = \<lparr>tr_Outcome = ''completed'', tr_Result = [], tr_Truncated = False, tr_NativeStopReason = []\<rparr>"

definition demoStatus :: RunStatus where
  "demoStatus = \<lparr>rs_SessionID = ''s'', rs_RunID = ''g/1'', rs_State = ''done'', rs_Result = Some demoResult, rs_Reason = []\<rparr>"

definition demoRunning :: Worker where
  "demoRunning = (NewWorker False)\<lparr>w_sessionID := ''s'', w_records := [\<lparr>wr_status = \<lparr>rs_SessionID = ''s'', rs_RunID = ''g/1'', rs_State = ''running'', rs_Result = None, rs_Reason = []\<rparr>, wr_sequence = 1\<rparr>],
     w_generation := ''g'', w_lastSequence := 1, w_run := Some 0, w_opened := True, w_openDone := Some True,
     w_slot := (\<lambda>_. zeroRun)(0 := zeroRun\<lparr>ru_live := True\<rparr>), w_slots := 1, w_tasks := [KAccept demoExecute demoRef 0 1], w_received := [2, 1],
     w_answered := [(1, AResult (VOpened \<lparr>or_SessionID = ''s''\<rparr>))]\<rparr>"

definition demoDone :: Worker where
  "demoDone = demoRunning\<lparr>w_records := [\<lparr>wr_status = demoStatus, wr_sequence = 1\<rparr>], w_run := None,
     w_slot := (\<lambda>_. zeroRun)(0 := zeroRun\<lparr>ru_live := True, ru_cancelled := True, ru_done := True\<rparr>), w_tasks := [],
     w_answered := [(2, AResult (VRunRef demoRef)), (1, AResult (VOpened \<lparr>or_SessionID = ''s''\<rparr>))]\<rparr>"

lemma demo_sequence: "workerRunSequence ''g/1'' = (''g'', 1, True)"
proof -
  have f: "formatUint 1 = ''1''" by code_simp
  have "parseUint ''1'' = Some 1" using parseUint_formatUint[of 1] unfolding f by simp
  moreover have "cut ''g/1'' (CHR ''/'') = (''g'', ''1'', True)" by (simp add: cut_def)
  ultimately show ?thesis using f by (simp add: workerRunSequence_def)
qed

lemmas worker_run_defs = NewWorker_def zeroRun_def goTask_def endTask_def answerWorker_def newSlot_def upd_slot_def heap_upd_def

lemma demo_admissible: "admissible demoOpen" "admissible demoExecute"
  by (simp_all add: admissible_def demoOpen_def demoExecute_def Allows_def DecodeParams_def methodCodecs_def codec_def)

lemma reach_running: "worker_reach demoRunning"
proof -
  let ?w1 = "(NewWorker False)\<lparr>w_openDone := Some False, w_tasks := [KOpen demoOpen], w_received := [1]\<rparr>"
  let ?w2 = "(NewWorker False)\<lparr>w_sessionID := ''s'', w_opened := True, w_openDone := Some True, w_received := [1], w_answered := [(1, AResult (VOpened \<lparr>or_SessionID = ''s''\<rparr>))]\<rparr>"
  have "worker_reach (NewWorker False)" by (rule reach_init) blast
  moreover have "worker_step (NewWorker False) ?w1"
    using worker_step.receives[OF demo_admissible(1), of "NewWorker False"]
    by (simp add: handleWorker_def handleOpen_def demoOpen_def closingSlot_def worker_run_defs)
  ultimately have "worker_reach ?w1" by (rule reach_step)
  moreover have "worker_step ?w1 ?w2"
    using worker_step.opens[of demoOpen ?w1 "Inl \<lparr>or_SessionID = ''s''\<rparr>" True]
    by (simp add: openProduct_def demoOpen_def openName_def worker_run_defs)
  ultimately have "worker_reach ?w2" by (rule reach_step)
  moreover have "worker_step ?w2 demoRunning"
    using worker_step.receives[OF demo_admissible(2), of ?w2] demo_sequence
    by (simp add: handleWorker_def execute_def executeCode_def runRef_def Let_def demoExecute_def demoRef_def demoRunning_def worker_run_defs)
  ultimately show ?thesis by (rule reach_step)
qed

lemma reach_done: "worker_reach demoDone"
proof -
  let ?w1 = "demoRunning\<lparr>w_tasks := [KTurn 0 1], w_answered := w_answered demoDone\<rparr>"
  let ?w2 = "?w1\<lparr>w_tasks := [KReady 0 1 demoStatus], w_slot := (\<lambda>_. zeroRun)(0 := zeroRun\<lparr>ru_live := True, ru_cancelled := True\<rparr>)\<rparr>"
  have "worker_step demoRunning ?w1"
    using worker_step.accepts[of demoExecute demoRef 0 1 demoRunning]
    by (simp add: demoRunning_def demoDone_def demoExecute_def worker_run_defs)
  with reach_running have "worker_reach ?w1" by (rule reach_step)
  moreover have "worker_step ?w1 ?w2"
    using worker_step.turn_ends[of 0 1 ?w1 True "Inl demoResult" True "\<lambda>_. True"]
    by (simp add: demoRunning_def demoDone_def endTurn_def ReportDelivery_def runOutcome_def demoStatus_def worker_run_defs)
  ultimately have "worker_reach ?w2" by (rule reach_step)
  moreover have "worker_step ?w2 demoDone"
    using worker_step.ready_seen[of 0 1 demoStatus ?w2]
    by (simp add: demoRunning_def demoDone_def publishRun_def Let_def worker_run_defs)
  ultimately show ?thesis by (rule reach_step)
qed

theorem worker_runs_consecutive_witness:
  "length (w_records demoRunning) = 1 \<and> unat (w_acknowledged demoRunning) + 1 = unat (w_lastSequence demoRunning) \<and> \<not> w_panic demoRunning"
proof -
  have "length (w_records demoRunning) = 1" by (simp add: demoRunning_def)
  with worker_runs_consecutive[OF reach_running] show ?thesis by simp
qed

theorem worker_answers_once_witness:
  "\<not> w_closed demoDone \<and> w_tasks demoDone = [] \<and> set (map fst (w_answered demoDone)) = {1, 2}"
proof -
  have f: "\<not> w_closed demoDone" "w_tasks demoDone = []" "set (w_received demoDone) = {1, 2}" by (auto simp: demoDone_def demoRunning_def NewWorker_def)
  with worker_answers_once[OF reach_done] show ?thesis by blast
qed

end
