(* ===== verification/WorkerResults.thy ===== *)
theory WorkerResults
  imports WorkerBooks
begin

text \<open>
  Results of the worker: a finished turn stays in the worker's ledger until it is acknowledged, and its notice
  names a final state.
\<close>

section \<open>Results are kept\<close>

definition keeps_results :: "Worker \<Rightarrow> Worker \<Rightarrow> bool" where
  "keeps_results w w' \<longleftrightarrow> (\<forall>r \<in> set (w_records w). \<not> running (wr_status r) \<longrightarrow> r \<in> set (w_records w') \<or> wr_sequence r \<le> w_acknowledged w')"

lemma kept_same: "w_records w' = w_records w \<Longrightarrow> keeps_results w w'"
  by (simp add: keeps_results_def)

lemma records_ops [simp]:
  "w_records (goTask t w) = w_records w" "w_records (endTask t w) = w_records w" "w_records (answerWorker ok r out w) = w_records w"
  "w_records (upd_slot p f w) = w_records w" "w_records (closeProduct w) = w_records w" "w_records (panicWorker w) = w_records w"
  by (simp_all add: goTask_def endTask_def answerWorker_def upd_slot_def closeProduct_def panicWorker_def)

lemma records_report [simp]: "w_records (ReportDelivery ok out p w) = w_records w" "w_records (finishSlot run w) = w_records w"
  "w_records (deliverRun ok outcome r run w) = w_records w"
  by (simp_all add: ReportDelivery_def finishSlot_def deliverRun_def split: option.split)

lemma records_handlers [simp]:
  "w_records (handleOpen r w) = w_records w" "w_records (handleInterrupt r w) = w_records w" "w_records (readRun r w) = w_records w"
  "w_records (handleClose r w) = w_records w" "w_records (openProduct outcome ok r w) = w_records w" "w_records (endTurn ok p q final w) = w_records w"
  by (simp_all add: handleOpen_def handleInterrupt_def readRun_def handleClose_def openProduct_def endTurn_def newSlot_def Let_def
      split: option.split params.split sum.split)

lemma kept_execute: "keeps_results w (execute r delivery w)"
  by (cases rule: execute_cases[of r delivery w]) (auto simp: keeps_results_def withRun_def)

lemma kept_ack:
  assumes "runs_inv w"
  shows "keeps_results w (handleAck r w)"
proof (cases "\<exists>input. rq_Params r = PRunRef input")
  case True
  then obtain input where i: "rq_Params r = PRunRef input" by blast
  obtain v code where a: "ackRun input w = (v, code)" by (cases "ackRun input w")
  have v: "w_records (handleAck r w) = w_records v" "w_acknowledged (handleAck r w) = w_acknowledged v" using i a by (simp_all add: handleAck_def goTask_def)
  show ?thesis
  proof (cases "v = w")
    case False
    obtain prefix q where sq: "workerRunSequence (rr_RunID input) = (prefix, q, True)"
      using a False by (auto simp: ackRun_def Let_def split: if_splits prod.splits list.splits)
    obtain x rs where rec: "w_records w = x # rs" "rs_RunID (wr_status x) = rr_RunID input" "v = w\<lparr>w_acknowledged := q, w_records := rs\<rparr>"
      using a False sq by (auto simp: ackRun_def split: if_splits list.splits)
    then have "wr_sequence x = q" using runs_invD(1)[OF assms] sq by (auto simp: ledger_ok_def)
    then show ?thesis using rec v by (auto simp: keeps_results_def)
  qed (use v in \<open>simp add: kept_same\<close>)
qed (auto simp: handleAck_def intro!: kept_same split: params.split)

lemma kept_publish:
  assumes "runs_inv w" "KReady p q st \<in> set (w_tasks w)"
  shows "keeps_results w (publishRun p q st (endTask (KReady p q st) w))"
proof -
  have t: "running_turn_ok w p q" using task_at[OF assms] by simp
  then have rec: "w_records w \<noteq> []" "wr_sequence (last (w_records w)) = q" "running (wr_status (last (w_records w)))" by (simp_all add: running_turn_ok_def)
  have "w_records (publishRun p q st (endTask (KReady p q st) w)) = butlast (w_records w) @ [(last (w_records w))\<lparr>wr_status := st\<rparr>]"
    using map_last[OF ledger_distinct[OF runs_invD(1)[OF assms(1)]] rec(1,2), of "\<lambda>r. r\<lparr>wr_status := st\<rparr>"] by (simp add: publishRun_def Let_def)
  moreover have "r \<in> set (butlast (w_records w))" if "r \<in> set (w_records w)" "\<not> running (wr_status r)" for r
    using that rec(1,3) append_butlast_last_id[OF rec(1)] by (metis (no_types) UnE set_append singletonD list.set(1,2) set_ConsD)
  ultimately show ?thesis by (auto simp: keeps_results_def)
qed

lemma kept_handle:
  assumes "runs_inv w"
  shows "keeps_results w (handleWorker r w)"
proof -
  let ?w = "w\<lparr>w_received := rq_ID r # w_received w\<rparr>"
  have i: "runs_inv ?w" using assms by (simp add: inv_received)
  have lift: "keeps_results w v" if "keeps_results ?w v" for v using that by (simp add: keeps_results_def)
  have deliver: "keeps_results ?w (handleDeliver r ?w)" using kept_execute[of ?w] by (auto simp: handleDeliver_def intro: kept_same split: params.split)
  have "keeps_results ?w (handleWorker r w)"
    using kept_execute[of ?w] kept_ack[OF i] deliver by (simp add: handleWorker_def Let_def kept_same)
  then show ?thesis by (rule lift)
qed

text \<open>
  C13: (client library) A worker never loses or changes the outcome of a finished turn: whatever it does next, the record stays in its
  ledger as it is until its run is acknowledged.
\<close>

theorem worker_keeps_results:
  assumes "worker_reach w" "worker_step w w'" "r \<in> set (w_records w)" "rs_State (wr_status r) \<noteq> ''running''"
  shows "r \<in> set (w_records w') \<or> wr_sequence r \<le> w_acknowledged w'"
proof -
  have i: "runs_inv w" using worker_sys.reach_inv[OF assms(1)] by (simp add: worker_inv_def)
  have "keeps_results w w'" using assms(2)
  proof cases
    case (receives r)
    then show ?thesis using kept_handle[OF i] by simp
  next
    case (ready_seen p q st)
    then show ?thesis using kept_publish[OF i] by simp
  qed (simp_all add: kept_same)
  then show ?thesis using assms(3,4) by (simp add: keeps_results_def)
qed

definition demoAck :: Request where
  "demoAck = \<lparr>rq_ID = 3, rq_Method = ''turn.ack'', rq_Params = PRunRef demoRef\<rparr>"

theorem worker_keeps_results_witness:
  "w_records (handleWorker demoAck demoDone) = [] \<and> (1 :: 64 word) \<le> w_acknowledged (handleWorker demoAck demoDone)"
proof -
  have a: "admissible demoAck" by (simp add: admissible_def demoAck_def Allows_def DecodeParams_def methodCodecs_def codec_def)
  have s: "worker_step demoDone (handleWorker demoAck demoDone)"
    by (rule worker_step.receives[OF a]) (simp add: demoDone_def demoRunning_def demoAck_def)
  have r: "\<lparr>wr_status = demoStatus, wr_sequence = 1\<rparr> \<in> set (w_records demoDone)" by (simp add: demoDone_def)
  have "w_records (handleWorker demoAck demoDone) = []"
    using demo_sequence by (simp add: handleWorker_def handleAck_def ackRun_def demoAck_def demoDone_def demoRunning_def demoRef_def demoStatus_def NewWorker_def goTask_def)
  with worker_keeps_results[OF reach_done s r] show ?thesis by (simp add: demoStatus_def)
qed

text \<open>The notice of a finished turn: it names a final state, and reports an outcome only for a turn with a result.\<close>

lemma ready_notice:
  "rs_State st = ''running'' \<Longrightarrow> ty_State (turnReadyOf (runOutcome outcome valid fits st)) \<in> {''done'', ''unavailable''}"
  "ty_State (turnReadyOf (runOutcome outcome valid fits st)) = ''done'' \<longleftrightarrow> rs_Result (runOutcome outcome valid fits st) \<noteq> None"
  by (auto simp: turnReadyOf_def runOutcome_def Let_def split: sum.split)

end
