(* ===== verification/Peer.thy ===== *)
theory Peer
  imports Rpc "HOL-Library.Word"
begin

text \<open>
  The peer of the client library (\<open>bus/sdk/go/peer.go\<close>): a client that registers its identity with the daemon, changes
  its name or its whole identity, receives messages, and connects again after a loss. Connections are
  numbered in the order they are dialled; the calls on them are those of \<open>Rpc\<close>, of which only the hello and its observer matter here.
\<close>

section \<open>Data\<close>

text \<open>The goroutine \<open>connect\<close>: dialling, in the hello of a connection, serving it, pausing, returned.\<close>

datatype connectPhase = LDial | LHello ptr | LServe ptr | LPause | LReturned

datatype helloKind = HConnect | HRehello | HReplace

text \<open>A running \<open>helloObserved\<close>: its connection, its caller, and the identity it has sent last.\<close>

record helloCall =
  hc_wire :: ptr
  hc_kind :: helloKind
  hc_identity :: PeerHello
  hc_generation :: "64 word"

text \<open>A context made for an identity; its parent is the context of a connection.\<close>

record identityContext =
  ix_wire :: ptr
  ix_stopped :: bool

datatype peerTask = TDelivery ptr Request "(PeerHello \<times> ptr) option" | TSuperseded ptr Request | TShutdown

datatype peerError = PeerSuperseded | PeerInvalid | PeerSameSession | PeerNotConnected

text \<open>
  \<open>pe_done\<close> says that the peer's context is cancelled. Ghosts: the number of changes of identity, whether a hello
  failed on a connection, and whether an acknowledgement has installed a connection that was no longer the last one dialled.
\<close>

record Peer =
  pe_identity :: PeerHello
  pe_admitted :: PeerHello
  pe_generation :: "64 word"
  pe_wire :: "ptr option"
  pe_done :: bool
  pe_identityCtx :: "ptr option"
  pe_identityStop :: "ptr option"
  pe_ready :: bool
  pe_terminal :: "int option"
  pe_phase :: connectPhase
  pe_hellos :: "helloCall list"
  pe_tasks :: "peerTask list"
  pe_wireClosed :: "ptr \<Rightarrow> bool"
  pe_wires :: ptr
  pe_ctx :: "ptr \<Rightarrow> identityContext"
  pe_ctxs :: ptr
  pe_desires :: nat
  pe_failed :: "ptr \<Rightarrow> bool"
  pe_late :: bool

section \<open>Operations\<close>

text \<open>\<open>valid\<close> is the schema check of \<open>EncodeParams\<close>; decoding what was encoded gives the value back.\<close>

definition snapshotIdentity :: "(PeerHello \<Rightarrow> bool) \<Rightarrow> PeerHello \<Rightarrow> PeerHello option" where
  "snapshotIdentity valid identity = (let i = identity\<lparr>ph_Protocol := 1\<rparr> in if valid i then Some i else None)"

definition ConnectPeer :: "(PeerHello \<Rightarrow> bool) \<Rightarrow> PeerHello \<Rightarrow> Peer option" where
  "ConnectPeer valid identity =
     map_option (\<lambda>i. \<lparr>pe_identity = i, pe_admitted = \<lparr>ph_Protocol = 0, ph_Product = [], ph_SessionID = [], ph_Name = [], ph_Groups = [], ph_Info = []\<rparr>,
       pe_generation = 0, pe_wire = None, pe_done = False, pe_identityCtx = None, pe_identityStop = None, pe_ready = False, pe_terminal = None,
       pe_phase = LDial, pe_hellos = [], pe_tasks = [], pe_wireClosed = (\<lambda>_. False), pe_wires = 0, pe_ctx = (\<lambda>_. \<lparr>ix_wire = 0, ix_stopped = False\<rparr>),
       pe_ctxs = 0, pe_desires = 0, pe_failed = (\<lambda>_. False), pe_late = False\<rparr>) (snapshotIdentity valid identity)"

definition stopIdentity :: "Peer \<Rightarrow> Peer" where
  "stopIdentity p =
     (case pe_identityStop p of None \<Rightarrow> p | Some c \<Rightarrow> p\<lparr>pe_ctx := heap_upd c (\<lambda>x. x\<lparr>ix_stopped := True\<rparr>) (pe_ctx p)\<rparr>)"

definition closePeerWire :: "ptr \<Rightarrow> Peer \<Rightarrow> Peer" where
  "closePeerWire w p = p\<lparr>pe_wireClosed := (pe_wireClosed p)(w := True)\<rparr>"

text \<open>\<open>reflect.DeepEqual\<close>: the information is a map, whose order does not count.\<close>

definition sameIdentity :: "PeerHello \<Rightarrow> PeerHello \<Rightarrow> bool" where
  "sameIdentity i j \<longleftrightarrow> i\<lparr>ph_Info := []\<rparr> = j\<lparr>ph_Info := []\<rparr> \<and> set (ph_Info i) = set (ph_Info j)"

text \<open>\<open>desire\<close>: an error, or the identity to send, the connection for it, its generation and whether nothing changed.\<close>

definition desire ::
    "(PeerHello \<Rightarrow> bool) \<Rightarrow> PeerHello \<Rightarrow> bool \<Rightarrow> Peer \<Rightarrow> (peerError + (PeerHello \<times> ptr option \<times> 64 word \<times> bool)) \<times> Peer" where
  "desire valid wish replacement p =
     (if pe_done p then (Inl PeerSuperseded, p)
      else
        let wish1 = (if replacement then wish
                     else wish\<lparr>ph_Product := ph_Product (pe_identity p), ph_SessionID := ph_SessionID (pe_identity p), ph_Groups := ph_Groups (pe_identity p)\<rparr>)
        in case snapshotIdentity valid wish1 of
             None \<Rightarrow> (Inl PeerInvalid, p)
           | Some identity \<Rightarrow>
               if replacement \<and> ph_SessionID identity = ph_SessionID (pe_identity p) then (Inl PeerSameSession, p)
               else if \<not> replacement \<and> sameIdentity identity (pe_identity p) then (Inr (identity, pe_wire p, pe_generation p, True), p)
               else
                 let p1 = p\<lparr>pe_identity := identity, pe_generation := pe_generation p + 1, pe_desires := pe_desires p + 1\<rparr>;
                     p2 = (if replacement then (stopIdentity p1)\<lparr>pe_wire := None\<rparr> else p1)
                 in (Inr (identity, pe_wire p, pe_generation p1, False), p2))"

definition goHello :: "helloCall \<Rightarrow> Peer \<Rightarrow> Peer" where
  "goHello h p = p\<lparr>pe_hellos := h # pe_hellos p\<rparr>"

text \<open>The parts of \<open>Rehello\<close> and \<open>Replace\<close> before they wait for their hello.\<close>

definition startHello :: "helloKind \<Rightarrow> (peerError + (PeerHello \<times> ptr option \<times> 64 word \<times> bool)) \<times> Peer \<Rightarrow> peerError option \<times> Peer" where
  "startHello kind r =
     (case r of
        (Inl e, p) \<Rightarrow> (Some e, p)
      | (Inr (identity, wire, generation, unchanged), p) \<Rightarrow>
          if unchanged then (None, p)
          else (case wire of
                  None \<Rightarrow> (Some PeerNotConnected, p)
                | Some w \<Rightarrow> (None, goHello \<lparr>hc_wire = w, hc_kind = kind, hc_identity = identity, hc_generation = generation\<rparr> p)))"

definition Rehello :: "(PeerHello \<Rightarrow> bool) \<Rightarrow> gostring \<Rightarrow> (gostring \<times> gostring) list \<Rightarrow> Peer \<Rightarrow> peerError option \<times> Peer" where
  "Rehello valid name info p = startHello HRehello
     (desire valid \<lparr>ph_Protocol = 0, ph_Product = [], ph_SessionID = [], ph_Name = name, ph_Groups = [], ph_Info = info\<rparr> False p)"

definition Replace :: "(PeerHello \<Rightarrow> bool) \<Rightarrow> PeerHello \<Rightarrow> Peer \<Rightarrow> peerError option \<times> Peer" where
  "Replace valid identity p = startHello HReplace (desire valid identity True p)"

text \<open>\<open>failHello\<close>; \<open>err\<close> is the code of a protocol error.\<close>

definition failHello :: "int option \<Rightarrow> Peer \<Rightarrow> bool \<times> Peer" where
  "failHello err p =
     (if err = Some InvalidHello then (True, p\<lparr>pe_terminal := err, pe_done := True\<rparr>) else (False, p))"

text \<open>The observer of an acknowledged hello: it ends the connection, installs the identity, or sends the newer one.\<close>

datatype helloResult = HClosed | HInstalled | HAgain helloCall

definition newContext :: "ptr \<Rightarrow> Peer \<Rightarrow> Peer" where
  "newContext w p = p\<lparr>pe_identityCtx := Some (pe_ctxs p), pe_identityStop := Some (pe_ctxs p),
     pe_ctx := (pe_ctx p)(pe_ctxs p := \<lparr>ix_wire = w, ix_stopped = False\<rparr>), pe_ctxs := Suc (pe_ctxs p)\<rparr>"

definition observeHello :: "helloCall \<Rightarrow> Peer \<Rightarrow> helloResult \<times> Peer" where
  "observeHello h p =
     (if pe_done p then (HClosed, p)
      else if hc_generation h = pe_generation p then
        let p1 = (if pe_wire p \<noteq> Some (hc_wire h) then newContext (hc_wire h) p else p)
        in (HInstalled, p1\<lparr>pe_admitted := hc_identity h, pe_wire := Some (hc_wire h)\<rparr>)
      else (HAgain (h\<lparr>hc_identity := pe_identity p, hc_generation := pe_generation p\<rparr>), p))"

definition endHello :: "helloCall \<Rightarrow> Peer \<Rightarrow> Peer" where
  "endHello h p = p\<lparr>pe_hellos := remove1 h (pe_hellos p)\<rparr>"

text \<open>After \<open>connect\<close> has lost its connection: it returns or pauses.\<close>

definition afterWire :: "bool \<Rightarrow> Peer \<Rightarrow> Peer" where
  "afterWire stop p = p\<lparr>pe_phase := (if stop \<or> pe_done p then LReturned else LPause)\<rparr>"

text \<open>What the caller of a hello does when it succeeds and when it fails.\<close>

definition helloDone :: "helloCall \<Rightarrow> Peer \<Rightarrow> Peer" where
  "helloDone h p = (if hc_kind h = HConnect then p\<lparr>pe_phase := LServe (hc_wire h), pe_ready := True\<rparr> else p)"

definition helloFailed :: "helloCall \<Rightarrow> int option \<Rightarrow> Peer \<Rightarrow> Peer" where
  "helloFailed h err p0 =
     (let p = p0\<lparr>pe_failed := (pe_failed p0)(hc_wire h := True)\<rparr> in
      case hc_kind h of
        HConnect \<Rightarrow> (let (stop, p1) = failHello err (closePeerWire (hc_wire h) p) in afterWire stop p1)
      | HRehello \<Rightarrow> snd (failHello err p)
      | HReplace \<Rightarrow> closePeerWire (hc_wire h) (snd (failHello err p)))"

text \<open>\<open>connect\<close> when the connection it served is closed.\<close>

definition lostWire :: "ptr \<Rightarrow> Peer \<Rightarrow> Peer" where
  "lostWire w p =
     (if pe_wire p = Some w then (stopIdentity p)\<lparr>pe_wire := None, pe_identityStop := None, pe_identityCtx := None\<rparr> else p)"

definition handlePeer :: "(PeerHello \<Rightarrow> bool) \<Rightarrow> ptr \<Rightarrow> Request \<Rightarrow> Peer \<Rightarrow> Peer" where
  "handlePeer valid w request p =
     (if rq_Method request = ''session.superseded'' then
        let p1 = (if pe_wire p = Some w then stopIdentity (p\<lparr>pe_wire := None, pe_terminal := Some Superseded\<rparr>) else p)
        in p1\<lparr>pe_tasks := TSuperseded w request # pe_tasks p1\<rparr>
      else if rq_Method request = ''message.deliver'' then
        let current = (if pe_wire p = Some w then
                         (case (pe_identityCtx p, snapshotIdentity valid (pe_admitted p)) of (Some c, Some i) \<Rightarrow> Some (i, c) | _ \<Rightarrow> None)
                       else None)
        in p\<lparr>pe_tasks := TDelivery w request current # pe_tasks p\<rparr>
      else p)"

section \<open>Goroutines\<close>

text \<open>
  The observer of a hello runs in the reader of its connection, at any time: nothing orders it before \<open>connect\<close>
  dials again, which it does after a pause of \<open>peerReconnectInterval\<close>, so it may install a connection that is closed
  and no longer the last one. \<open>pe_late\<close> records that this has happened.
\<close>

definition observed :: "helloCall \<Rightarrow> Peer \<Rightarrow> Peer" where
  "observed h p =
     (case observeHello h p of
        (HInstalled, p1) \<Rightarrow> helloDone h (endHello h (p1\<lparr>pe_late := pe_late p1 \<or> Suc (hc_wire h) \<noteq> pe_wires p1\<rparr>))
      | (HAgain h1, p1) \<Rightarrow> goHello h1 (endHello h p1)
      | (HClosed, p1) \<Rightarrow> helloFailed h None (closePeerWire (hc_wire h) (endHello h p1)))"

inductive peer_step :: "(PeerHello \<Rightarrow> bool) \<Rightarrow> Peer \<Rightarrow> Peer \<Rightarrow> bool" for valid where
  rehello: "peer_step valid p (snd (Rehello valid name info p))"
| replaces: "peer_step valid p (snd (Replace valid identity p))"
| shutdown: "peer_step valid p (p\<lparr>pe_done := True, pe_tasks := TShutdown # pe_tasks p\<rparr>)"
| shutdown_closes: "TShutdown \<in> set (pe_tasks p) \<Longrightarrow>
     peer_step valid p (let q = p\<lparr>pe_tasks := remove1 TShutdown (pe_tasks p)\<rparr> in case pe_wire p of None \<Rightarrow> q | Some w \<Rightarrow> closePeerWire w q)"
| dials: "pe_phase p = LDial \<Longrightarrow>
     peer_step valid p (goHello \<lparr>hc_wire = pe_wires p, hc_kind = HConnect, hc_identity = pe_identity p, hc_generation = pe_generation p\<rparr>
       (p\<lparr>pe_phase := LHello (pe_wires p), pe_wires := Suc (pe_wires p)\<rparr>))"
| dial_fails: "pe_phase p = LDial \<Longrightarrow> peer_step valid p (afterWire False p)"
| pause_over: "pe_phase p = LPause \<Longrightarrow> peer_step valid p (p\<lparr>pe_phase := LDial\<rparr>)"
| pause_cancelled: "pe_phase p = LPause \<Longrightarrow> pe_done p \<Longrightarrow> peer_step valid p (p\<lparr>pe_phase := LReturned\<rparr>)"
| hello_observed: "h \<in> set (pe_hellos p) \<Longrightarrow> peer_step valid p (observed h p)"
| hello_fails: "h \<in> set (pe_hellos p) \<Longrightarrow> peer_step valid p (helloFailed h err (endHello h p))"
| wire_closes: "w < pe_wires p \<Longrightarrow> peer_step valid p (closePeerWire w p)"
| serve_ends: "\<lbrakk>pe_phase p = LServe w; pe_wireClosed p w\<rbrakk> \<Longrightarrow> peer_step valid p (afterWire False (lostWire w p))"
| receives: "w < pe_wires p \<Longrightarrow> peer_step valid p (handlePeer valid w request p)"
| delivery_ends: "TDelivery w request current \<in> set (pe_tasks p) \<Longrightarrow>
     peer_step valid p (p\<lparr>pe_tasks := remove1 (TDelivery w request current) (pe_tasks p)\<rparr>)"
| superseded_ends: "TSuperseded w request \<in> set (pe_tasks p) \<Longrightarrow>
     peer_step valid p (closePeerWire w (p\<lparr>pe_done := True, pe_tasks := remove1 (TSuperseded w request) (pe_tasks p)\<rparr>))"

section \<open>The invariant\<close>

definition samePerson :: "PeerHello \<Rightarrow> PeerHello \<Rightarrow> bool" where
  "samePerson i j \<longleftrightarrow> ph_SessionID i = ph_SessionID j \<and> ph_Product i = ph_Product j \<and> ph_Groups i = ph_Groups j"

text \<open>A context that is not cancelled.\<close>

definition live :: "Peer \<Rightarrow> ptr \<Rightarrow> bool" where
  "live p c \<longleftrightarrow> c < pe_ctxs p \<and> \<not> ix_stopped (pe_ctx p c) \<and> \<not> pe_wireClosed p (ix_wire (pe_ctx p c))"

definition gen_ok :: "Peer \<Rightarrow> bool" where
  "gen_ok p \<longleftrightarrow> unat (pe_generation p) = pe_desires p
     \<and> (\<forall>h \<in> set (pe_hellos p). unat (hc_generation h) \<le> pe_desires p \<and> (hc_generation h = pe_generation p \<longrightarrow> hc_identity h = pe_identity p))"

definition wires_ok :: "Peer \<Rightarrow> bool" where
  "wires_ok p \<longleftrightarrow> (\<forall>w < pe_wires p. \<not> pe_wireClosed p w \<longrightarrow> (pe_phase p = LHello w \<or> pe_phase p = LServe w) \<and> Suc w = pe_wires p)
     \<and> (\<forall>h \<in> set (pe_hellos p). hc_wire h < pe_wires p \<and> (hc_kind h = HConnect \<longrightarrow> pe_phase p = LHello (hc_wire h)))
     \<and> length (filter (\<lambda>h. hc_kind h = HConnect) (pe_hellos p)) \<le> 1
     \<and> (\<forall>w. pe_wire p = Some w \<longrightarrow> w < pe_wires p) \<and> (\<forall>c < pe_ctxs p. ix_wire (pe_ctx p c) < pe_wires p)"

text \<open>The contexts and the identities are accounted for until a late acknowledgement.\<close>

definition ctx_ok :: "Peer \<Rightarrow> bool" where
  "ctx_ok p \<longleftrightarrow> pe_late p \<or> pe_identityStop p = pe_identityCtx p \<and> (\<forall>c. pe_identityCtx p = Some c \<longrightarrow> c < pe_ctxs p)
     \<and> (\<forall>w. pe_wire p = Some w \<longrightarrow> (\<exists>c. pe_identityCtx p = Some c \<and> ix_wire (pe_ctx p c) = w))
     \<and> (\<forall>c. live p c \<longrightarrow> pe_identityCtx p = Some c \<and> pe_wire p = Some (ix_wire (pe_ctx p c)))"

definition person_ok :: "Peer \<Rightarrow> bool" where
  "person_ok p \<longleftrightarrow> pe_late p \<or> (pe_wire p \<noteq> None \<longrightarrow> samePerson (pe_admitted p) (pe_identity p))
     \<and> (\<forall>w r i c. TDelivery w r (Some (i, c)) \<in> set (pe_tasks p) \<longrightarrow> c < pe_ctxs p \<and> (live p c \<longrightarrow> samePerson i (pe_identity p)))"

definition conv_ok :: "Peer \<Rightarrow> bool" where
  "conv_ok p \<longleftrightarrow> (\<forall>w. pe_wire p = Some w \<and> \<not> pe_wireClosed p w \<and> \<not> pe_failed p w \<longrightarrow>
     pe_admitted p = pe_identity p \<or> (\<exists>h \<in> set (pe_hellos p). hc_wire h = w))"

definition good :: "Peer \<Rightarrow> bool" where
  "good p \<longleftrightarrow> gen_ok p \<and> wires_ok p \<and> ctx_ok p \<and> person_ok p \<and> conv_ok p"

lemma goodD: "good p \<Longrightarrow> gen_ok p" "good p \<Longrightarrow> wires_ok p" "good p \<Longrightarrow> ctx_ok p" "good p \<Longrightarrow> person_ok p" "good p \<Longrightarrow> conv_ok p"
  by (simp_all add: good_def)

section \<open>Operations keep it\<close>

lemma live_close: "live (closePeerWire w p) c \<Longrightarrow> live p c"
  by (auto simp: live_def closePeerWire_def split: if_splits)

lemma good_close:
  assumes "good p"
  shows "good (closePeerWire w p)"
proof -
  let ?q = "closePeerWire w p"
  have f: "pe_identity ?q = pe_identity p" "pe_admitted ?q = pe_admitted p" "pe_generation ?q = pe_generation p" "pe_wire ?q = pe_wire p"
    "pe_identityCtx ?q = pe_identityCtx p" "pe_identityStop ?q = pe_identityStop p" "pe_phase ?q = pe_phase p" "pe_hellos ?q = pe_hellos p"
    "pe_tasks ?q = pe_tasks p" "pe_wires ?q = pe_wires p" "pe_ctx ?q = pe_ctx p" "pe_ctxs ?q = pe_ctxs p" "pe_desires ?q = pe_desires p"
    "pe_failed ?q = pe_failed p" "pe_late ?q = pe_late p" "\<not> pe_wireClosed ?q x \<Longrightarrow> \<not> pe_wireClosed p x" for x by (auto simp: closePeerWire_def split: if_splits)
  have "gen_ok ?q" using goodD(1)[OF assms] by (simp add: gen_ok_def f)
  moreover have "wires_ok ?q" using goodD(2)[OF assms] f(16) unfolding wires_ok_def f(1-15) by blast
  moreover have "ctx_ok ?q" using goodD(3)[OF assms] live_close unfolding ctx_ok_def f(1-15) by blast
  moreover have "person_ok ?q" using goodD(4)[OF assms] live_close unfolding person_ok_def f(1-15) by blast
  moreover have "conv_ok ?q" using goodD(5)[OF assms] f(16) unfolding conv_ok_def f(1-15) by blast
  ultimately show ?thesis by (simp add: good_def)
qed

text \<open>The end of the connection's identity: every context is cancelled.\<close>

lemma stopIdentity_fields [simp]:
  "pe_identity (stopIdentity p) = pe_identity p" "pe_admitted (stopIdentity p) = pe_admitted p" "pe_generation (stopIdentity p) = pe_generation p"
  "pe_wire (stopIdentity p) = pe_wire p" "pe_done (stopIdentity p) = pe_done p" "pe_identityCtx (stopIdentity p) = pe_identityCtx p"
  "pe_identityStop (stopIdentity p) = pe_identityStop p" "pe_phase (stopIdentity p) = pe_phase p" "pe_hellos (stopIdentity p) = pe_hellos p"
  "pe_tasks (stopIdentity p) = pe_tasks p" "pe_wireClosed (stopIdentity p) = pe_wireClosed p" "pe_wires (stopIdentity p) = pe_wires p"
  "pe_ctxs (stopIdentity p) = pe_ctxs p" "pe_desires (stopIdentity p) = pe_desires p" "pe_failed (stopIdentity p) = pe_failed p"
  "ix_wire (pe_ctx (stopIdentity p) c) = ix_wire (pe_ctx p c)" "pe_late (stopIdentity p) = pe_late p"
  by (simp_all add: stopIdentity_def heap_upd_def split: option.split)

lemma stop_live:
  assumes "ctx_ok p" "\<not> pe_late p"
  shows "\<not> live (stopIdentity p) c"
proof
  assume l: "live (stopIdentity p) c"
  then have "live p c" by (auto simp: live_def stopIdentity_def heap_upd_def split: option.splits if_splits)
  then have "pe_identityStop p = Some c" using assms unfolding ctx_ok_def by metis
  with l show False by (simp add: live_def stopIdentity_def heap_upd_def)
qed

text \<open>A state in which no context lives and no connection is installed.\<close>

definition detached :: "Peer \<Rightarrow> Peer \<Rightarrow> bool" where
  "detached p q \<longleftrightarrow> pe_wire q = None \<and> pe_late q = pe_late p
     \<and> (pe_late p \<or> (\<forall>c. \<not> live q c) \<and> pe_identityStop q = pe_identityCtx q \<and> pe_identityCtx q \<in> {None, pe_identityCtx p})
     \<and> pe_ctxs q = pe_ctxs p \<and> (\<forall>c. ix_wire (pe_ctx q c) = ix_wire (pe_ctx p c)) \<and> pe_phase q = pe_phase p \<and> pe_hellos q = pe_hellos p
     \<and> pe_wireClosed q = pe_wireClosed p \<and> pe_wires q = pe_wires p
     \<and> (\<forall>w r i c. TDelivery w r (Some (i, c)) \<in> set (pe_tasks q) \<longrightarrow> TDelivery w r (Some (i, c)) \<in> set (pe_tasks p))"

lemma good_detached:
  assumes "good p" "detached p q" "gen_ok q"
  shows "good q"
proof -
  have "wires_ok q" using goodD(2)[OF assms(1)] assms(2) by (simp add: wires_ok_def detached_def)
  moreover have "ctx_ok q" using goodD(3)[OF assms(1)] assms(2) by (auto simp: ctx_ok_def detached_def)
  moreover have "person_ok q" using goodD(4)[OF assms(1)] assms(2) unfolding person_ok_def detached_def by metis
  moreover have "conv_ok q" using assms(2) by (simp add: conv_ok_def detached_def)
  ultimately show ?thesis using assms(3) by (simp add: good_def)
qed

lemma detach_stop:
  assumes "good p"
  shows "detached p ((stopIdentity (p\<lparr>pe_wire := None, pe_terminal := t\<rparr>))\<lparr>pe_tasks := TSuperseded w r # pe_tasks p\<rparr>)"
    "detached p ((stopIdentity (p\<lparr>pe_identity := i, pe_generation := g, pe_desires := n\<rparr>))\<lparr>pe_wire := None\<rparr>)"
    "detached p ((stopIdentity p)\<lparr>pe_wire := None, pe_identityStop := None, pe_identityCtx := None\<rparr>)"
proof -
  have c: "\<not> live (stopIdentity p) x" if "\<not> pe_late p" for x using stop_live[OF goodD(3)[OF assms] that] .
  have l: "live ((stopIdentity (p\<lparr>pe_wire := None, pe_terminal := t\<rparr>))\<lparr>pe_tasks := TSuperseded w r # pe_tasks p\<rparr>) x = live (stopIdentity p) x"
    "live ((stopIdentity (p\<lparr>pe_identity := i, pe_generation := g, pe_desires := n\<rparr>))\<lparr>pe_wire := None\<rparr>) x = live (stopIdentity p) x"
    "live ((stopIdentity p)\<lparr>pe_wire := None, pe_identityStop := None, pe_identityCtx := None\<rparr>) x = live (stopIdentity p) x" for x
    by (simp_all add: live_def stopIdentity_def split: option.split)
  have s: "pe_late p \<or> pe_identityStop p = pe_identityCtx p" using goodD(3)[OF assms] by (auto simp: ctx_ok_def)
  show "detached p ((stopIdentity (p\<lparr>pe_wire := None, pe_terminal := t\<rparr>))\<lparr>pe_tasks := TSuperseded w r # pe_tasks p\<rparr>)"
    "detached p ((stopIdentity (p\<lparr>pe_identity := i, pe_generation := g, pe_desires := n\<rparr>))\<lparr>pe_wire := None\<rparr>)"
    "detached p ((stopIdentity p)\<lparr>pe_wire := None, pe_identityStop := None, pe_identityCtx := None\<rparr>)"
    using s c by (auto simp: detached_def l)
qed

lemma good_flags [simp]:
  "good (p\<lparr>pe_done := x\<rparr>) = good p" "good (p\<lparr>pe_ready := x\<rparr>) = good p" "good (p\<lparr>pe_terminal := t\<rparr>) = good p"
  by (simp_all add: good_def gen_ok_def wires_ok_def ctx_ok_def person_ok_def conv_ok_def live_def)

lemma good_tasks:
  assumes "good p" "\<And>w r i c. TDelivery w r (Some (i, c)) \<in> set ts \<Longrightarrow>
    TDelivery w r (Some (i, c)) \<in> set (pe_tasks p) \<or> pe_late p \<or> pe_identityCtx p = Some c \<and> samePerson i (pe_identity p)"
  shows "good (p\<lparr>pe_tasks := ts\<rparr>)"
proof -
  have l: "live (p\<lparr>pe_tasks := ts\<rparr>) c = live p c" for c by (simp add: live_def)
  have "pe_late p \<or> c < pe_ctxs p" if "pe_identityCtx p = Some c" for c using goodD(3)[OF assms(1)] that unfolding ctx_ok_def by blast
  then have "person_ok (p\<lparr>pe_tasks := ts\<rparr>)" using goodD(4)[OF assms(1)] assms(2) unfolding person_ok_def l by simp blast
  then show ?thesis using assms(1) by (simp add: good_def gen_ok_def wires_ok_def ctx_ok_def conv_ok_def l)
qed

lemma good_phase:
  assumes "good p" "\<And>w. w < pe_wires p \<Longrightarrow> pe_wireClosed p w" "\<And>h. h \<in> set (pe_hellos p) \<Longrightarrow> hc_kind h \<noteq> HConnect"
  shows "good (p\<lparr>pe_phase := ph\<rparr>)"
proof -
  let ?q = "p\<lparr>pe_phase := ph\<rparr>"
  have "live ?q = live p" by (simp add: live_def fun_eq_iff)
  then have "ctx_ok ?q = ctx_ok p" "person_ok ?q = person_ok p" by (simp_all add: ctx_ok_def person_ok_def)
  then show ?thesis using assms by (simp add: good_def gen_ok_def wires_ok_def conv_ok_def)
qed

text \<open>While \<open>connect\<close> neither says hello nor serves, every connection is closed.\<close>

lemma idle_wires:
  assumes "good p" "\<And>w. pe_phase p \<noteq> LHello w" "\<And>w. pe_phase p \<noteq> LServe w"
  shows "w < pe_wires p \<Longrightarrow> pe_wireClosed p w" "h \<in> set (pe_hellos p) \<Longrightarrow> hc_kind h \<noteq> HConnect"
  using goodD(2)[OF assms(1)] assms(2,3) unfolding wires_ok_def by blast+

lemma good_dial:
  assumes "good p" "pe_phase p = LDial"
  shows "good (goHello \<lparr>hc_wire = pe_wires p, hc_kind = HConnect, hc_identity = pe_identity p, hc_generation = pe_generation p\<rparr>
    (p\<lparr>pe_phase := LHello (pe_wires p), pe_wires := Suc (pe_wires p)\<rparr>))" (is "good ?q")
proof -
  note idle = idle_wires[OF assms(1)]
  have l: "live ?q c = live p c" for c by (simp add: live_def goHello_def)
  have "filter (\<lambda>h. hc_kind h = HConnect) (pe_hellos p) = []" using idle(2) assms(2) by (simp add: filter_empty_conv)
  then have "wires_ok ?q" using goodD(2)[OF assms(1)] idle assms(2) by (auto simp: wires_ok_def goHello_def less_Suc_eq)
  moreover have "gen_ok ?q" using goodD(1)[OF assms(1)] by (simp add: gen_ok_def goHello_def)
  moreover have "ctx_ok ?q" using goodD(3)[OF assms(1)] unfolding ctx_ok_def l by (simp add: goHello_def)
  moreover have "person_ok ?q" using goodD(4)[OF assms(1)] unfolding person_ok_def l by (simp add: goHello_def)
  moreover have "conv_ok ?q" using goodD(5)[OF assms(1)] by (auto simp: conv_ok_def goHello_def)
  ultimately show ?thesis by (simp add: good_def)
qed

section \<open>Changes of the identity\<close>

lemma gen_next:
  assumes "gen_ok p" "pe_desires p + 1 < 2 ^ 64"
  shows "gen_ok (p\<lparr>pe_identity := i, pe_generation := pe_generation p + 1, pe_desires := pe_desires p + 1\<rparr>)"
proof -
  have "unat (pe_generation p + 1) = pe_desires p + 1" using assms by (simp add: gen_ok_def unat_word_ariths)
  moreover have "h \<in> set (pe_hellos p) \<Longrightarrow> hc_generation h \<noteq> pe_generation p + 1" for h using assms(1) calculation by (auto simp: gen_ok_def)
  ultimately show ?thesis using assms(1) by (auto simp: gen_ok_def le_SucI)
qed

text \<open>A hello for the identity just wished for.\<close>

lemma good_rename:
  assumes "good p" "pe_desires p + 1 < 2 ^ 64" "samePerson i (pe_identity p)"
    and q: "q = p\<lparr>pe_identity := i, pe_generation := pe_generation p + 1, pe_desires := pe_desires p + 1\<rparr>"
    and r: "r = (case pe_wire p of None \<Rightarrow> q | Some w \<Rightarrow> goHello \<lparr>hc_wire = w, hc_kind = HRehello, hc_identity = i, hc_generation = pe_generation p + 1\<rparr> q)"
  shows "good r"
proof -
  have l: "live r c = live p c" for c by (simp add: live_def r q goHello_def split: option.split)
  have f: "pe_wire r = pe_wire p" "pe_wires r = pe_wires p" "pe_phase r = pe_phase p" "pe_wireClosed r = pe_wireClosed p" "pe_ctxs r = pe_ctxs p" "pe_ctx r = pe_ctx p"
    "pe_identityStop r = pe_identityStop p" "pe_identityCtx r = pe_identityCtx p" "pe_admitted r = pe_admitted p" "pe_identity r = i" "pe_tasks r = pe_tasks p"
    "pe_late r = pe_late p"
    by (simp_all add: r q goHello_def split: option.split)
  have "gen_ok q" using gen_next[OF goodD(1)[OF assms(1)] assms(2)] by (simp add: q)
  then have "gen_ok r" by (auto simp: r gen_ok_def goHello_def q split: option.split)
  moreover have "wires_ok r" using goodD(2)[OF assms(1)] unfolding wires_ok_def f by (auto simp: r q goHello_def split: option.split)
  moreover have "ctx_ok r" using goodD(3)[OF assms(1)] unfolding ctx_ok_def l f .
  moreover have "person_ok r" using goodD(4)[OF assms(1)] assms(3) unfolding person_ok_def l f samePerson_def by metis
  moreover have "conv_ok r" unfolding conv_ok_def f by (auto simp: r goHello_def)
  ultimately show ?thesis by (simp add: good_def)
qed

lemma Rehello_cases:
  obtains "snd (Rehello valid name info p) = p"
  | i where "samePerson i (pe_identity p)" "snd (Rehello valid name info p) =
      (let q = p\<lparr>pe_identity := i, pe_generation := pe_generation p + 1, pe_desires := pe_desires p + 1\<rparr> in
       case pe_wire p of None \<Rightarrow> q | Some w \<Rightarrow> goHello \<lparr>hc_wire = w, hc_kind = HRehello, hc_identity = i, hc_generation = pe_generation p + 1\<rparr> q)"
proof -
  define wish where "wish = \<lparr>ph_Protocol = 0, ph_Product = ph_Product (pe_identity p), ph_SessionID = ph_SessionID (pe_identity p), ph_Name = name,
    ph_Groups = ph_Groups (pe_identity p), ph_Info = info\<rparr>"
  show ?thesis
  proof (cases "pe_done p \<or> snapshotIdentity valid wish = None \<or> sameIdentity (the (snapshotIdentity valid wish)) (pe_identity p)")
    case True
    then have "snd (Rehello valid name info p) = p"
      by (auto simp: Rehello_def desire_def startHello_def wish_def Let_def split: option.split)
    then show ?thesis by (rule that(1))
  next
    case False
    then obtain i where i: "snapshotIdentity valid wish = Some i" "\<not> sameIdentity i (pe_identity p)" "\<not> pe_done p" by auto
    moreover have "samePerson i (pe_identity p)" using i(1) by (auto simp: snapshotIdentity_def samePerson_def wish_def Let_def split: if_splits)
    ultimately show ?thesis
      by (intro that(2)[of i]) (auto simp: Rehello_def desire_def startHello_def wish_def[symmetric] Let_def split: option.split)
  qed
qed

lemma good_goHello:
  assumes "good p" "hc_kind h \<noteq> HConnect" "hc_wire h < pe_wires p" "hc_generation h = pe_generation p" "hc_identity h = pe_identity p"
  shows "good (goHello h p)"
proof -
  have "live (goHello h p) = live p" by (simp add: live_def goHello_def fun_eq_iff)
  then have "ctx_ok (goHello h p) = ctx_ok p" "person_ok (goHello h p) = person_ok p" by (simp_all add: ctx_ok_def person_ok_def goHello_def)
  then show ?thesis using assms by (auto simp: good_def gen_ok_def wires_ok_def conv_ok_def goHello_def)
qed

lemma Replace_cases:
  obtains "snd (Replace valid wish p) = p"
  | i where "snd (Replace valid wish p) =
      (let q = (stopIdentity (p\<lparr>pe_identity := i, pe_generation := pe_generation p + 1, pe_desires := pe_desires p + 1\<rparr>))\<lparr>pe_wire := None\<rparr> in
       case pe_wire p of None \<Rightarrow> q | Some w \<Rightarrow> goHello \<lparr>hc_wire = w, hc_kind = HReplace, hc_identity = i, hc_generation = pe_generation p + 1\<rparr> q)"
proof (cases "pe_done p \<or> snapshotIdentity valid wish = None \<or> ph_SessionID (the (snapshotIdentity valid wish)) = ph_SessionID (pe_identity p)")
  case True
  then have "snd (Replace valid wish p) = p" by (auto simp: Replace_def desire_def startHello_def Let_def split: option.split)
  then show ?thesis by (rule that(1))
next
  case False
  then obtain i where "snapshotIdentity valid wish = Some i" "ph_SessionID i \<noteq> ph_SessionID (pe_identity p)" "\<not> pe_done p" by auto
  then show ?thesis by (intro that(2)[of i]) (simp add: Replace_def desire_def startHello_def Let_def split: option.split)
qed

lemma good_replace:
  assumes "good p" "pe_desires p + 1 < 2 ^ 64"
    and q: "q = (stopIdentity (p\<lparr>pe_identity := i, pe_generation := pe_generation p + 1, pe_desires := pe_desires p + 1\<rparr>))\<lparr>pe_wire := None\<rparr>"
  shows "good (case pe_wire p of None \<Rightarrow> q | Some w \<Rightarrow> goHello \<lparr>hc_wire = w, hc_kind = HReplace, hc_identity = i, hc_generation = pe_generation p + 1\<rparr> q)"
proof -
  have "gen_ok q" using gen_next[OF goodD(1)[OF assms(1)] assms(2), of i] by (simp add: gen_ok_def q)
  then have g: "good q" using good_detached[OF assms(1) detach_stop(2)[OF assms(1)]] by (simp add: q)
  have "w < pe_wires q" if "pe_wire p = Some w" for w using goodD(2)[OF assms(1)] that by (simp add: wires_ok_def q)
  then show ?thesis using g good_goHello[OF g] by (simp add: q split: option.split)
qed

section \<open>Hellos\<close>

lemma connect_only:
  assumes "good p" "h \<in> set (pe_hellos p)" "hc_kind h = HConnect"
  shows "pe_phase p = LHello (hc_wire h)" "x \<in> set (remove1 h (pe_hellos p)) \<Longrightarrow> hc_kind x \<noteq> HConnect"
proof -
  note w = goodD(2)[OF assms(1), unfolded wires_ok_def]
  show "pe_phase p = LHello (hc_wire h)" using w assms(2,3) by blast
  have "length (filter (\<lambda>h. hc_kind h = HConnect) (pe_hellos p)) \<le> 1" using w by blast
  moreover have "h \<in> set (filter (\<lambda>h. hc_kind h = HConnect) (pe_hellos p))" using assms(2,3) by simp
  ultimately have "filter (\<lambda>h. hc_kind h = HConnect) (pe_hellos p) = [h]"
    by (cases "filter (\<lambda>h. hc_kind h = HConnect) (pe_hellos p)") (auto simp: le_Suc_eq)
  then have "filter (\<lambda>h. hc_kind h = HConnect) (remove1 h (pe_hellos p)) = []" by (simp add: filter_remove1)
  then show "x \<in> set (remove1 h (pe_hellos p)) \<Longrightarrow> hc_kind x \<noteq> HConnect" by (simp add: filter_empty_conv)
qed

lemma good_endHello:
  assumes "good p" "h \<in> set (pe_hellos p)" "pe_admitted p = pe_identity p \<or> pe_failed p (hc_wire h)"
  shows "good (endHello h p)"
proof -
  let ?q = "endHello h p"
  have "live ?q = live p" by (simp add: live_def endHello_def fun_eq_iff)
  then have "ctx_ok ?q = ctx_ok p" "person_ok ?q = person_ok p" by (simp_all add: ctx_ok_def person_ok_def endHello_def)
  moreover have sub: "set (remove1 h (pe_hellos p)) \<subseteq> set (pe_hellos p)" by (rule set_remove1_subset)
  have "gen_ok ?q" using goodD(1)[OF assms(1)] sub by (auto simp: gen_ok_def endHello_def)
  moreover have "length (filter P (remove1 h (pe_hellos p))) \<le> length (filter P (pe_hellos p))" for P
    by (simp add: filter_remove1 length_remove1)
  then have "wires_ok ?q" using goodD(2)[OF assms(1)] sub unfolding wires_ok_def endHello_def by simp (meson order_trans subsetD)
  moreover have "conv_ok ?q" using goodD(5)[OF assms(1)] assms(3) by (auto simp: conv_ok_def endHello_def) (metis in_set_remove1)
  ultimately show ?thesis using assms(1) by (simp add: good_def)
qed

lemma good_failed: "good p \<Longrightarrow> good (p\<lparr>pe_failed := (pe_failed p)(w := True)\<rparr>)"
proof -
  let ?q = "p\<lparr>pe_failed := (pe_failed p)(w := True)\<rparr>"
  have "live ?q = live p" by (simp add: live_def fun_eq_iff)
  then have "ctx_ok ?q = ctx_ok p" "person_ok ?q = person_ok p" by (simp_all add: ctx_ok_def person_ok_def)
  then show "good p \<Longrightarrow> good ?q" by (auto simp: good_def gen_ok_def wires_ok_def conv_ok_def)
qed

lemma failHello_good: "good p \<Longrightarrow> good (snd (failHello err p))"
  by (simp add: failHello_def)

lemma failHello_fields [simp]:
  "pe_wires (snd (failHello err p)) = pe_wires p" "pe_wireClosed (snd (failHello err p)) = pe_wireClosed p" "pe_hellos (snd (failHello err p)) = pe_hellos p"
  by (simp_all add: failHello_def)

lemma good_helloFailed:
  assumes "good p" "h \<in> set (pe_hellos p)"
  shows "good (helloFailed h err (endHello h p))"
proof -
  let ?f = "p\<lparr>pe_failed := (pe_failed p)(hc_wire h := True)\<rparr>"
  define q where "q = endHello h ?f"
  have q: "(endHello h p)\<lparr>pe_failed := (pe_failed (endHello h p))(hc_wire h := True)\<rparr> = q" by (simp add: q_def endHello_def)
  have g: "good q" unfolding q_def using good_endHello[OF good_failed[OF assms(1), of "hc_wire h"], of h] assms(2) by simp
  show ?thesis
  proof (cases "hc_kind h")
    case HConnect
    note c = connect_only[OF assms HConnect]
    let ?r = "snd (failHello err (closePeerWire (hc_wire h) q))"
    have f: "pe_wires q = pe_wires p" "pe_wireClosed q = pe_wireClosed p" "pe_hellos q = remove1 h (pe_hellos p)" by (simp_all add: q_def endHello_def)
    have "good ?r" by (rule failHello_good[OF good_close[OF g]])
    moreover have "pe_wireClosed ?r w" if "w < pe_wires ?r" for w
      using goodD(2)[OF assms(1)] c(1) that by (auto simp: wires_ok_def closePeerWire_def f)
    moreover have "hc_kind x \<noteq> HConnect" if "x \<in> set (pe_hellos ?r)" for x using that c(2) by (simp add: closePeerWire_def f)
    ultimately have "good (?r\<lparr>pe_phase := ph\<rparr>)" for ph by (rule good_phase)
    then show ?thesis using HConnect by (simp add: helloFailed_def q Let_def afterWire_def case_prod_beta)
  qed (use g failHello_good good_close in \<open>simp_all add: helloFailed_def q Let_def\<close>)
qed

text \<open>The installation of an acknowledged identity.\<close>

lemma good_install:
  assumes "good p" "h \<in> set (pe_hellos p)" "hc_generation h = pe_generation p"
    and p1: "p1 = (if pe_wire p \<noteq> Some (hc_wire h) then newContext (hc_wire h) p else p)"
  shows "good (p1\<lparr>pe_admitted := hc_identity h, pe_wire := Some (hc_wire h), pe_late := pe_late p \<or> Suc (hc_wire h) \<noteq> pe_wires p\<rparr>)" (is "good ?q")
proof -
  have id: "hc_identity h = pe_identity p" using goodD(1)[OF assms(1)] assms(2,3) by (simp add: gen_ok_def)
  note w = goodD(2)[OF assms(1), unfolded wires_ok_def] and c = goodD(3)[OF assms(1), unfolded ctx_ok_def]
  have hw: "hc_wire h < pe_wires p" using w assms(2) by blast
  have f: "pe_identity ?q = pe_identity p" "pe_generation ?q = pe_generation p" "pe_hellos ?q = pe_hellos p" "pe_desires ?q = pe_desires p" "pe_wires ?q = pe_wires p"
    "pe_phase ?q = pe_phase p" "pe_wireClosed ?q = pe_wireClosed p" "pe_tasks ?q = pe_tasks p" "pe_admitted ?q = pe_identity p" "pe_wire ?q = Some (hc_wire h)"
    "pe_late ?q = (pe_late p \<or> Suc (hc_wire h) \<noteq> pe_wires p)"
    by (simp_all add: p1 newContext_def id)
  have last: "pe_wire p = Some (hc_wire h)" if "live p x" "\<not> pe_late ?q" for x
  proof -
    have "pe_wire p = Some (ix_wire (pe_ctx p x))" "\<not> pe_wireClosed p (ix_wire (pe_ctx p x))"
      using c that unfolding live_def f by blast+
    moreover from this have "Suc (ix_wire (pe_ctx p x)) = pe_wires p" using w by blast
    ultimately show ?thesis using that(2) unfolding f by simp
  qed
  have old: "live ?q x \<Longrightarrow> x < pe_ctxs p \<Longrightarrow> live p x" for x by (auto simp: live_def p1 newContext_def split: if_splits)
  have "gen_ok ?q" using goodD(1)[OF assms(1)] by (simp add: gen_ok_def f)
  moreover have "wires_ok ?q" using goodD(2)[OF assms(1)] hw unfolding wires_ok_def f by (auto simp: p1 newContext_def less_Suc_eq)
  moreover have "ctx_ok ?q"
  proof (cases "pe_wire p = Some (hc_wire h) \<or> pe_late ?q")
    case True
    then show ?thesis
    proof (cases "pe_late ?q")
      case False
      have "live ?q = live p" using True False by (simp add: live_def p1 fun_eq_iff)
      then show ?thesis using goodD(3)[OF assms(1)] True False by (auto simp: ctx_ok_def p1)
    qed (simp add: ctx_ok_def)
  next
    case False
    have "live ?q x \<Longrightarrow> x < Suc (pe_ctxs p)" for x using False by (simp add: live_def p1 newContext_def)
    then have "live ?q x \<Longrightarrow> x = pe_ctxs p" for x using last old[of x] False less_Suc_eq by metis
    moreover have "ix_wire (pe_ctx ?q (pe_ctxs p)) = hc_wire h" "pe_identityCtx ?q = Some (pe_ctxs p)" "pe_identityStop ?q = Some (pe_ctxs p)" "pe_ctxs ?q = Suc (pe_ctxs p)"
      using False by (simp_all add: p1 newContext_def)
    ultimately show ?thesis unfolding ctx_ok_def f by auto
  qed
  moreover have "person_ok ?q"
  proof -
    have "x < pe_ctxs ?q" if "x < pe_ctxs p" for x using that by (simp add: p1 newContext_def)
    then show ?thesis using goodD(4)[OF assms(1)] old unfolding person_ok_def f by (auto simp: samePerson_def)
  qed
  moreover have "conv_ok ?q" unfolding conv_ok_def f by simp
  ultimately show ?thesis by (simp add: good_def)
qed

lemma good_served:
  assumes "good p" "pe_phase p = LHello w" "\<And>h. h \<in> set (pe_hellos p) \<Longrightarrow> hc_kind h \<noteq> HConnect"
  shows "good (p\<lparr>pe_phase := LServe w\<rparr>)"
proof -
  let ?q = "p\<lparr>pe_phase := LServe w\<rparr>"
  have "live ?q = live p" by (simp add: live_def fun_eq_iff)
  then have "ctx_ok ?q = ctx_ok p" "person_ok ?q = person_ok p" by (simp_all add: ctx_ok_def person_ok_def)
  then show ?thesis using assms by (auto simp: good_def gen_ok_def wires_ok_def conv_ok_def)
qed

lemma good_observed:
  assumes "good p" "h \<in> set (pe_hellos p)"
  shows "good (observed h p)"
proof -
  consider "pe_done p" | "\<not> pe_done p" "hc_generation h = pe_generation p" | "\<not> pe_done p" "hc_generation h \<noteq> pe_generation p" by blast
  then show ?thesis
  proof cases
    case 1
    have "closePeerWire (hc_wire h) (endHello h p) = endHello h (closePeerWire (hc_wire h) p)" by (simp add: closePeerWire_def endHello_def)
    then show ?thesis using 1 good_helloFailed[OF good_close[OF assms(1), of "hc_wire h"], of h None] assms(2)
      by (simp add: observed_def observeHello_def closePeerWire_def)
  next
    case 2
    define p1 where "p1 = (if pe_wire p \<noteq> Some (hc_wire h) then newContext (hc_wire h) p else p)"
    define q where "q = p1\<lparr>pe_admitted := hc_identity h, pe_wire := Some (hc_wire h), pe_late := pe_late p \<or> Suc (hc_wire h) \<noteq> pe_wires p\<rparr>"
    have f: "pe_hellos q = pe_hellos p" "pe_identity q = pe_identity p" "pe_phase q = pe_phase p" by (simp_all add: q_def p1_def newContext_def)
    have g: "good q" unfolding q_def by (rule good_install[OF assms 2(2) p1_def])
    have "pe_admitted q = pe_identity q" using goodD(1)[OF assms(1)] assms(2) 2(2) f(2) by (simp add: q_def gen_ok_def)
    then have e: "good (endHello h q)" using good_endHello[OF g] assms(2) f(1) by simp
    have "good (helloDone h (endHello h q))"
    proof (cases "hc_kind h = HConnect")
      case True
      have "good ((endHello h q)\<lparr>pe_phase := LServe (hc_wire h)\<rparr>)"
        using good_served[OF e, of "hc_wire h"] connect_only[OF assms(1,2) True] by (simp add: endHello_def f)
      then show ?thesis using True by (simp add: helloDone_def)
    qed (use e in \<open>simp add: helloDone_def\<close>)
    then show ?thesis using 2
      by (cases "pe_wire p = Some (hc_wire h)") (simp_all add: observed_def observeHello_def q_def p1_def newContext_def Let_def)
  next
    case 3
    let ?h = "h\<lparr>hc_identity := pe_identity p, hc_generation := pe_generation p\<rparr>"
    let ?q = "goHello ?h (endHello h p)"
    have sub: "set (remove1 h (pe_hellos p)) \<subseteq> set (pe_hellos p)" by (rule set_remove1_subset)
    have "live ?q = live p" by (simp add: live_def goHello_def endHello_def fun_eq_iff)
    then have "ctx_ok ?q = ctx_ok p" "person_ok ?q = person_ok p" by (simp_all add: ctx_ok_def person_ok_def goHello_def endHello_def)
    moreover have "gen_ok ?q" using goodD(1)[OF assms(1)] sub by (auto simp: gen_ok_def goHello_def endHello_def)
    moreover have "wires_ok ?q"
    proof -
      note w = goodD(2)[OF assms(1), unfolded wires_ok_def]
      have "length (filter (\<lambda>h. hc_kind h = HConnect) (pe_hellos ?q)) \<le> 1"
        using w assms(2) connect_only(2)[OF assms(1,2)] by (auto simp: goHello_def endHello_def filter_remove1 length_remove1 filter_empty_conv)
      then show ?thesis using w assms(2) sub unfolding wires_ok_def by (auto simp: goHello_def endHello_def)
    qed
    moreover have "conv_ok ?q" using goodD(5)[OF assms(1)] by (auto simp: conv_ok_def goHello_def endHello_def) (metis in_set_remove1)
    ultimately show ?thesis using 3 assms(1) by (simp add: observed_def observeHello_def good_def)
  qed
qed

section \<open>Every step\<close>

lemma good_lostWire: "good p \<Longrightarrow> good (lostWire w p)"
  using good_detached[OF _ detach_stop(3)] by (simp add: lostWire_def gen_ok_def good_def)

lemma good_handlePeer:
  assumes "good p"
  shows "good (handlePeer valid w request p)"
proof (cases "rq_Method request = ''session.superseded''")
  case True
  have "good ((stopIdentity (p\<lparr>pe_wire := None, pe_terminal := Some Superseded\<rparr>))\<lparr>pe_tasks := TSuperseded w request # pe_tasks p\<rparr>)"
    using good_detached[OF assms detach_stop(1)[OF assms]] goodD(1)[OF assms] by (simp add: gen_ok_def)
  then show ?thesis using True good_tasks[OF assms, of "TSuperseded w request # pe_tasks p"] by (auto simp: handlePeer_def Let_def)
next
  case False
  have "pe_late p \<or> samePerson i (pe_identity p)" if "pe_wire p = Some w" "snapshotIdentity valid (pe_admitted p) = Some i" for i
    using goodD(4)[OF assms] that by (auto simp: person_ok_def samePerson_def snapshotIdentity_def Let_def split: if_splits)
  then have "good (p\<lparr>pe_tasks := TDelivery w request x # pe_tasks p\<rparr>)"
    if "x = None \<or> (\<exists>i c. x = Some (i, c) \<and> pe_wire p = Some w \<and> snapshotIdentity valid (pe_admitted p) = Some i \<and> pe_identityCtx p = Some c)" for x
    using that by (intro good_tasks[OF assms]) auto
  then show ?thesis using False assms by (auto simp: handlePeer_def Let_def split: option.splits if_splits)
qed

definition peer_inv :: "Peer \<Rightarrow> bool" where
  "peer_inv p \<longleftrightarrow> (pe_desires p < 2 ^ 64 \<longrightarrow> good p)"

lemma desires_ops [simp]:
  "pe_desires (closePeerWire w p) = pe_desires p" "pe_desires (goHello h p) = pe_desires p" "pe_desires (endHello h p) = pe_desires p"
  "pe_desires (afterWire b p) = pe_desires p" "pe_desires (helloDone h p) = pe_desires p" "pe_desires (newContext w p) = pe_desires p"
  "pe_desires (snd (failHello err p)) = pe_desires p" "pe_desires (lostWire w p) = pe_desires p"
  by (simp_all add: closePeerWire_def goHello_def endHello_def afterWire_def helloDone_def newContext_def failHello_def lostWire_def)

lemma desires_hello [simp]: "pe_desires (helloFailed h err p) = pe_desires p" "pe_desires (observed h p) = pe_desires p"
  "pe_desires (handlePeer valid w request p) = pe_desires p"
proof -
  show f: "pe_desires (helloFailed h err p) = pe_desires p" for p err by (simp add: helloFailed_def Let_def case_prod_beta split: helloKind.split)
  show "pe_desires (observed h p) = pe_desires p" by (simp add: observed_def observeHello_def Let_def f)
  show "pe_desires (handlePeer valid w request p) = pe_desires p" by (simp add: handlePeer_def Let_def)
qed

lemma good_idle: "good p \<Longrightarrow> pe_phase p = LDial \<or> pe_phase p = LPause \<Longrightarrow> good (p\<lparr>pe_phase := ph\<rparr>)"
  using idle_wires[of p] good_phase[of p ph] by fastforce

lemma peer_step_good:
  assumes "peer_inv p" "peer_step valid p q"
  shows "peer_inv q"
  using assms(2)
proof cases
  case (rehello name info)
  show ?thesis unfolding peer_inv_def
  proof
    assume d: "pe_desires q < 2 ^ 64"
    show "good q"
    proof (cases rule: Rehello_cases[of valid name info p])
      case 1
      then show ?thesis using assms(1) rehello d by (simp add: peer_inv_def)
    next
      case (2 i)
      then have "pe_desires p + 1 < 2 ^ 64" using d rehello by (simp add: Let_def goHello_def split: option.splits)
      then have "good p" "pe_desires p + 1 < 2 ^ 64" using assms(1) by (simp_all add: peer_inv_def)
      from good_rename[OF this 2(1) refl refl] show ?thesis unfolding rehello 2(2) Let_def .
    qed
  qed
next
  case (replaces wish)
  show ?thesis unfolding peer_inv_def
  proof
    assume d: "pe_desires q < 2 ^ 64"
    show "good q"
    proof (cases rule: Replace_cases[of valid wish p])
      case 1
      then show ?thesis using assms(1) replaces d by (simp add: peer_inv_def)
    next
      case (2 i)
      then have "pe_desires p + 1 < 2 ^ 64" using d replaces by (simp add: Let_def goHello_def split: option.splits)
      then have "good p" "pe_desires p + 1 < 2 ^ 64" using assms(1) by (simp_all add: peer_inv_def)
      from good_replace[OF this refl] show ?thesis unfolding replaces 2 Let_def .
    qed
  qed
next
  case shutdown
  then show ?thesis using assms(1) good_tasks[of "p\<lparr>pe_done := True\<rparr>" "TShutdown # pe_tasks p"] by (auto simp: peer_inv_def)
next
  case shutdown_closes
  have "good (p\<lparr>pe_tasks := remove1 TShutdown (pe_tasks p)\<rparr>)" if "good p" by (rule good_tasks[OF that]) (meson notin_set_remove1)
  then show ?thesis using assms(1) shutdown_closes(1) good_close by (auto simp: peer_inv_def Let_def split: option.splits)
next
  case dials
  then show ?thesis using assms(1) good_dial by (auto simp: peer_inv_def)
next
  case dial_fails
  then show ?thesis using assms(1) good_idle by (simp add: peer_inv_def afterWire_def)
next
  case pause_over
  then show ?thesis using assms(1) good_idle by (simp add: peer_inv_def)
next
  case pause_cancelled
  then show ?thesis using assms(1) good_idle by (simp add: peer_inv_def)
next
  case (hello_observed h)
  then show ?thesis using assms(1) good_observed by (auto simp: peer_inv_def)
next
  case (hello_fails h err)
  then show ?thesis using assms(1) good_helloFailed by (auto simp: peer_inv_def)
next
  case (wire_closes w)
  then show ?thesis using assms(1) good_close by (auto simp: peer_inv_def)
next
  case (serve_ends w)
  have "good (afterWire False (lostWire w p))" if g: "good p"
  proof -
    have f: "pe_wires (lostWire w p) = pe_wires p" "pe_wireClosed (lostWire w p) = pe_wireClosed p" "pe_hellos (lostWire w p) = pe_hellos p"
      by (simp_all add: lostWire_def)
    show ?thesis unfolding afterWire_def
      by (rule good_phase[OF good_lostWire[OF g]]) (use goodD(2)[OF g] serve_ends(2,3) f in \<open>auto simp: wires_ok_def\<close>)
  qed
  then show ?thesis using assms(1) serve_ends(1) by (simp add: peer_inv_def)
next
  case (receives w request)
  then show ?thesis using assms(1) good_handlePeer by (auto simp: peer_inv_def)
next
  case (delivery_ends w request current)
  then show ?thesis using assms(1) good_tasks[of p "remove1 (TDelivery w request current) (pe_tasks p)"] set_remove1_subset by (fastforce simp: peer_inv_def)
next
  case (superseded_ends w request)
  then show ?thesis using assms(1) good_close good_tasks[of "p\<lparr>pe_done := True\<rparr>" "remove1 (TSuperseded w request) (pe_tasks p)"] set_remove1_subset
    by (fastforce simp: peer_inv_def)
qed

definition peer_init :: "(PeerHello \<Rightarrow> bool) \<Rightarrow> Peer \<Rightarrow> bool" where
  "peer_init valid p \<longleftrightarrow> (\<exists>identity. ConnectPeer valid identity = Some p)"

lemma peer_init_good: "peer_init valid p \<Longrightarrow> peer_inv p"
  by (auto simp: peer_init_def ConnectPeer_def peer_inv_def good_def gen_ok_def wires_ok_def ctx_ok_def person_ok_def conv_ok_def live_def)

interpretation peer_sys: transition_system "peer_init valid" "peer_step valid" peer_inv for valid
  by unfold_locales (rule peer_init_good, assumption, rule peer_step_good)

abbreviation peer_reach :: "(PeerHello \<Rightarrow> bool) \<Rightarrow> Peer \<Rightarrow> bool" where
  "peer_reach valid \<equiv> reach (peer_init valid) (peer_step valid)"

section \<open>Properties\<close>

text \<open>
  C15: (client library) A message is handed to the client in the name of the session the client is: after any sequence of renames,
  replacements, losses and reconnections in which no acknowledgement of a hello was observed so late that it installed a connection other
  than the last one dialled, and with fewer than 2^64 changes of identity, a delivery whose context is not cancelled carries the session,
  product and groups of the identity wished for last, and its context is the current one of the connection in use. A replaced or
  superseded identity, or a lost connection, cancels the deliveries made for it.
\<close>

theorem peer_deliveries_current:
  assumes "peer_reach valid p" "\<not> pe_late p" "pe_desires p < 2 ^ 64" "TDelivery w r (Some (i, c)) \<in> set (pe_tasks p)" "live p c"
  shows "ph_SessionID i = ph_SessionID (pe_identity p) \<and> ph_Product i = ph_Product (pe_identity p) \<and> ph_Groups i = ph_Groups (pe_identity p)
    \<and> pe_identityCtx p = Some c \<and> pe_wire p = Some (ix_wire (pe_ctx p c))"
proof -
  have g: "good p" using peer_sys.reach_inv[OF assms(1)] assms(3) by (simp add: peer_inv_def)
  have "samePerson i (pe_identity p)" using goodD(4)[OF g] assms(2,4,5) unfolding person_ok_def by blast
  then show ?thesis using goodD(3)[OF g] assms(2,5) unfolding ctx_ok_def samePerson_def by metis
qed

text \<open>
  C17: (client library) Renames converge: on an open connection on which no hello has failed, as soon as no hello is under way the identity the daemon acknowledged
  is the one wished for last, however renames overlapped, as long as there were fewer than 2^64 changes of identity (the generation is a \<open>uint64\<close>).
\<close>

theorem peer_identity_converges:
  assumes "peer_reach valid p" "pe_desires p < 2 ^ 64" "pe_wire p = Some w" "\<not> pe_wireClosed p w" "\<not> pe_failed p w"
    "\<forall>h \<in> set (pe_hellos p). hc_wire h \<noteq> w"
  shows "pe_admitted p = pe_identity p"
proof -
  have "good p" using peer_sys.reach_inv[OF assms(1)] assms(2) by (simp add: peer_inv_def)
  then show ?thesis using goodD(5) assms(3-) unfolding conv_ok_def by blast
qed

section \<open>A peer that is renamed\<close>

definition demoSelf :: "gostring \<Rightarrow> PeerHello" where
  "demoSelf name = \<lparr>ph_Protocol = 1, ph_Product = ''x'', ph_SessionID = ''s'', ph_Name = name, ph_Groups = [], ph_Info = []\<rparr>"

definition demoHello :: "helloKind \<Rightarrow> gostring \<Rightarrow> 64 word \<Rightarrow> helloCall" where
  "demoHello kind name g = \<lparr>hc_wire = 0, hc_kind = kind, hc_identity = demoSelf name, hc_generation = g\<rparr>"

definition demoStart :: Peer where
  "demoStart = the (ConnectPeer (\<lambda>_. True) (demoSelf ''n''))"

definition demoJoined :: Peer where
  "demoJoined = observed (demoHello HConnect ''n'' 0) (goHello (demoHello HConnect ''n'' 0) (demoStart\<lparr>pe_phase := LHello 0, pe_wires := 1\<rparr>))"

definition demoMessage :: Request where
  "demoMessage = \<lparr>rq_ID = 1, rq_Method = ''message.deliver'', rq_Params = PEmpty\<rparr>"

lemmas demo_peer_defs = demoStart_def ConnectPeer_def snapshotIdentity_def demoSelf_def demoHello_def goHello_def observed_def observeHello_def newContext_def endHello_def helloDone_def

lemma demoJoined_eq:
  "demoJoined = \<lparr>pe_identity = demoSelf ''n'', pe_admitted = demoSelf ''n'', pe_generation = 0, pe_wire = Some 0, pe_done = False, pe_identityCtx = Some 0,
     pe_identityStop = Some 0, pe_ready = True, pe_terminal = None, pe_phase = LServe 0, pe_hellos = [], pe_tasks = [], pe_wireClosed = (\<lambda>_. False), pe_wires = 1,
     pe_ctx = (\<lambda>_. \<lparr>ix_wire = 0, ix_stopped = False\<rparr>), pe_ctxs = 1, pe_desires = 0, pe_failed = (\<lambda>_. False), pe_late = False\<rparr>"
  by (simp add: demoJoined_def demo_peer_defs Let_def fun_upd_idem)

lemma reach_joined: "peer_reach (\<lambda>_. True) demoJoined"
proof -
  let ?h = "demoHello HConnect ''n'' 0" let ?p = "goHello ?h (demoStart\<lparr>pe_phase := LHello 0, pe_wires := 1\<rparr>)"
  have "peer_init (\<lambda>_. True) demoStart" unfolding peer_init_def by (rule exI[of _ "demoSelf ''n''"]) (simp add: demoStart_def ConnectPeer_def snapshotIdentity_def Let_def)
  then have "peer_reach (\<lambda>_. True) demoStart" by (rule reach_init)
  moreover have "peer_step (\<lambda>_. True) demoStart ?p"
    using peer_step.dials[of demoStart "\<lambda>_. True"] by (simp add: demo_peer_defs Let_def)
  ultimately have "peer_reach (\<lambda>_. True) ?p" by (rule reach_step)
  moreover have "peer_step (\<lambda>_. True) ?p (observed ?h ?p)" by (rule peer_step.hello_observed) (simp_all add: goHello_def demoHello_def)
  ultimately show ?thesis unfolding demoJoined_def by (rule reach_step)
qed

theorem peer_deliveries_current_witness:
  "TDelivery 0 demoMessage (Some (demoSelf ''n'', 0)) \<in> set (pe_tasks (handlePeer (\<lambda>_. True) 0 demoMessage demoJoined))
   \<and> ph_SessionID (demoSelf ''n'') = ph_SessionID (pe_identity (handlePeer (\<lambda>_. True) 0 demoMessage demoJoined))"
proof -
  let ?p = "handlePeer (\<lambda>_. True) 0 demoMessage demoJoined"
  have p: "?p = demoJoined\<lparr>pe_tasks := [TDelivery 0 demoMessage (Some (demoSelf ''n'', 0))]\<rparr>"
    by (simp add: handlePeer_def demoMessage_def demoJoined_eq snapshotIdentity_def demoSelf_def Let_def)
  have "peer_step (\<lambda>_. True) demoJoined ?p" by (rule peer_step.receives) (simp add: demoJoined_eq)
  with reach_joined have r: "peer_reach (\<lambda>_. True) ?p" by (rule reach_step)
  have t: "TDelivery 0 demoMessage (Some (demoSelf ''n'', 0)) \<in> set (pe_tasks ?p)" "live ?p 0" "pe_desires ?p < 2 ^ 64" "\<not> pe_late ?p"
    unfolding p by (simp_all add: live_def demoJoined_eq)
  show ?thesis using peer_deliveries_current[OF r t(4,3,1,2)] t(1) by blast
qed

theorem peer_identity_converges_witness:
  "pe_admitted (observed (demoHello HRehello ''m'' 1) (snd (Rehello (\<lambda>_. True) ''m'' [] demoJoined))) = demoSelf ''m''"
proof -
  let ?h = "demoHello HRehello ''m'' 1" let ?p = "snd (Rehello (\<lambda>_. True) ''m'' [] demoJoined)"
  have p: "?p = demoJoined\<lparr>pe_identity := demoSelf ''m'', pe_generation := 1, pe_desires := 1, pe_hellos := [?h]\<rparr>"
    by (simp add: Rehello_def desire_def startHello_def snapshotIdentity_def sameIdentity_def demoSelf_def demoHello_def goHello_def demoJoined_eq Let_def)
  have q: "observed ?h ?p = demoJoined\<lparr>pe_identity := demoSelf ''m'', pe_generation := 1, pe_desires := 1, pe_admitted := demoSelf ''m''\<rparr>"
    unfolding p by (simp add: observed_def observeHello_def endHello_def helloDone_def demoHello_def demoJoined_eq)
  have "peer_step (\<lambda>_. True) ?p (observed ?h ?p)" by (rule peer_step.hello_observed) (simp_all only: p, simp_all add: demoHello_def demoJoined_eq)
  with reach_step[OF reach_joined peer_step.rehello] have r: "peer_reach (\<lambda>_. True) (observed ?h ?p)" by (rule reach_step)
  have "pe_admitted (observed ?h ?p) = pe_identity (observed ?h ?p)"
    by (rule peer_identity_converges[OF r, of 0]) (simp_all only: q, simp_all add: demoJoined_eq)
  then show ?thesis unfolding q by simp
qed

section \<open>An acknowledgement observed too late\<close>









end
