(* ===== verification/Caller.thy ===== *)
theory Caller
  imports Rpc
begin

text \<open>
  The typed calls of the client library (\<open>bus/sdk/go/caller.go\<close>) and the actions by name (\<open>action.go\<close>). The call itself is a parameter:
  a peer, a worker or a plain client passes its connection.
\<close>

type_synonym callFunc = "gostring \<Rightarrow> params \<Rightarrow> callFailure + result"

text \<open>\<open>NewCaller\<close>: the result of a raw call has to decode as the method's result.\<close>

definition NewCaller :: "callFunc \<Rightarrow> callFunc" where
  "NewCaller call method params =
     (case call method params of
        Inl e \<Rightarrow> Inl e
      | Inr raw \<Rightarrow> (case DecodeResult method (Some raw) of None \<Rightarrow> Inl ErrInvalid | Some v \<Rightarrow> Inr v))"

definition callAs :: "callFunc \<Rightarrow> gostring \<Rightarrow> params \<Rightarrow> callFailure + result" where
  "callAs call method params = (if EncodeParams method params then call method params else Inl ErrInvalid)"

text \<open>The methods of \<open>Caller\<close>, with the request each makes.\<close>

datatype callerOp =
    CallList SessionListRequest
  | CallSend MessageSendRequest
  | CallDescribe LaneDescribeRequest
  | CallSpawn LaneSpawnRequest
  | CallTrace TraceConfigureRequest
  | CallResume gostring
  | CallRun TurnRunRequest
  | CallInterrupt SessionTarget
  | CallClose SessionCloseRequest
  | CallStart TurnRunRequest
  | CallStatus ReadRequest
  | CallWait WaitRequest
  | CallAck RunRef

definition resumeRequest :: "gostring \<Rightarrow> LaneSpawnRequest" where
  "resumeRequest sid = \<lparr>ls_Persistent = None, ls_AutoCloseMS = None, ls_IdleMessage = [], ls_Notify = None, ls_NotifyTarget = [], ls_Name = [],
     ls_Product = [], ls_Host = [], ls_ResumeSessionID = sid, ls_ExtraGroups = [], ls_Open = None, ls_Trace = []\<rparr>"

fun callerRequest :: "callerOp \<Rightarrow> gostring \<times> params" where
  "callerRequest (CallList r) = (''session.list'', PList r)"
| "callerRequest (CallSend r) = (''message.send'', PSend r)"
| "callerRequest (CallDescribe r) = (''lane.describe'', PDescribe r)"
| "callerRequest (CallSpawn r) = (''lane.spawn'', PSpawn r)"
| "callerRequest (CallTrace r) = (''trace.configure'', PTrace r)"
| "callerRequest (CallResume sid) = (''lane.spawn'', PSpawn (resumeRequest sid))"
| "callerRequest (CallRun r) = (''turn.run'', PRun r)"
| "callerRequest (CallInterrupt r) = (''turn.interrupt'', PTarget r)"
| "callerRequest (CallClose r) = (''session.close'', PClose r)"
| "callerRequest (CallStart r) = (''turn.start'', PRun r)"
| "callerRequest (CallStatus r) = (''turn.status'', PRead r)"
| "callerRequest (CallWait r) = (''turn.wait'', PWait r)"
| "callerRequest (CallAck r) = (''turn.ack'', PRunRef r)"

definition perform :: "callFunc \<Rightarrow> callerOp \<Rightarrow> callFailure + result" where
  "perform call opn = (let (method, params) = callerRequest opn in callAs call method params)"

definition Actions :: "gostring list" where
  "Actions = [''list'', ''send'', ''spawn'', ''describe'', ''trace'', ''run'', ''start'', ''wait'', ''status'', ''interrupt'', ''close'', ''forget'', ''ack'']"

definition actionMethods :: "(gostring \<times> gostring) list" where
  "actionMethods =
     [(''list'', ''session.list''), (''send'', ''message.send''), (''spawn'', ''lane.spawn''), (''describe'', ''lane.describe''),
      (''trace'', ''trace.configure''), (''run'', ''turn.run''), (''start'', ''turn.start''), (''status'', ''turn.status''), (''wait'', ''turn.wait''),
      (''interrupt'', ''turn.interrupt''), (''close'', ''session.close'')]"

datatype actionResult = UnknownAction | BadArguments | Called "callFailure + result"

text \<open>\<open>Action\<close>; the arguments are the value their JSON stands for.\<close>

definition Action :: "callFunc \<Rightarrow> gostring \<Rightarrow> params option \<Rightarrow> actionResult" where
  "Action call action args =
     (case map_of actionMethods action of
        Some method \<Rightarrow>
          (case DecodeParams method args of None \<Rightarrow> BadArguments | Some params \<Rightarrow> Called (call method params))
      | None \<Rightarrow>
          if action = ''ack'' then (case args of Some (PRunRef request) \<Rightarrow> Called (perform call (CallAck request)) | _ \<Rightarrow> BadArguments)
          else if action = ''forget'' then
            (case args of Some (PClose request) \<Rightarrow> Called (perform call (CallClose (request\<lparr>sc_Forget := True\<rparr>))) | _ \<Rightarrow> BadArguments)
          else UnknownAction)"

section \<open>Every typed call is one the daemon admits\<close>

lemmas caller_codecs = EncodeParams_def Allows_def DecodeParams_def methodCodecs_def codec_def

lemma caller_codec: "case_prod (\<lambda>m p. Allows m True \<and> EncodeParams m p) (callerRequest opn)"
  by (cases opn) (simp_all add: caller_codecs)

lemma caller_admitted:
  assumes "callerRequest opn = (m, p)"
  shows "Allows m True" "EncodeParams m p" "perform call opn = call m p"
  using caller_codec[of opn] assms by (simp_all add: perform_def callAs_def)

text \<open>The frame of a typed call reaches the handler of the other end.\<close>

lemma caller_received:
  assumes "callerRequest opn = (m, p)" "\<not> rc_client c" "rc_last c < i"
  shows "rc_handled (fst (receiveRequest fits ok \<lparr>fr_ID = i, fr_Method = m, fr_Params = Some p, fr_Result = None, fr_Error = None, fr_Request = True\<rparr> c))
    = rc_handled c @ [\<lparr>rq_ID = i, rq_Method = m, rq_Params = p\<rparr>]"
proof -
  have a: "Allows m True" "EncodeParams m p" by (rule caller_admitted[OF assms(1)])+
  then obtain q where "DecodeParams m (Some p) = Some q" "q = p" using DecodeParams_type[of m "Some p"] by (auto simp: EncodeParams_def)
  then show ?thesis using a(1) assms(2,3) by (simp add: receiveRequest_def Let_def)
qed

text \<open>The listed actions are exactly the known ones, and each makes an admitted call.\<close>

lemma actions_listed: "set Actions = set (map fst actionMethods @ [''ack'', ''forget''])"
  by code_simp

lemma action_known: "Action call action args = UnknownAction \<longleftrightarrow> action \<notin> set Actions"
  unfolding actions_listed Action_def using map_of_eq_None_iff[of actionMethods action]
  by (cases "map_of actionMethods action") (auto split: option.split params.split)

lemma action_admitted:
  assumes "map_of actionMethods action = Some m"
  shows "Allows m True"
proof -
  have "list_all (\<lambda>x. Allows (snd x) True) actionMethods" by code_simp
  then show ?thesis using map_of_SomeD[OF assms] by (auto simp: list_all_iff)
qed

end
