(* ===== verification/Operator.thy ===== *)
theory Operator
  imports Hub Handlers Lifecycle
begin

text \<open>
  The operator's view of a daemon (\<open>bus/internal/daemon/roster.go\<close>): the rows of the local directory, the report
  that joins them with the rosters of other hosts, and how a report that is too large is cut. The daemon
  answers the hub's roster request with the same local rows.
\<close>

section \<open>The local rows\<close>

definition shown :: "entry \<Rightarrow> bool" where
  "shown item \<longleftrightarrow> e_peer item \<or> r_CreatedAt (e_row item) \<noteq> 0"

definition localRow :: "entry \<Rightarrow> Row" where
  "localRow item =
     (let row = e_row item in
      \<lparr>rw_PermissionMode = oo_PermissionMode (r_Open row), rw_SessionID = r_SessionID row, rw_Name = r_Name row,
       rw_Kind = (if e_peer item then ''peer'' else ''lane''), rw_Product = r_Product row, rw_Groups = Some (r_Groups row),
       rw_Connected = (e_attachment item \<noteq> None), rw_Running = e_running item,
       rw_Owner = (case r_Policy row of None \<Rightarrow> [] | Some p \<Rightarrow> lp_OwnerSessionID p),
       rw_Persistent = (case r_Policy row of None \<Rightarrow> False | Some p \<Rightarrow> lp_Persistent p)\<rparr>)"

text \<open>
  The loop over the entries, in the order the map yields them: the rows so far and their bytes. \<open>len\<close> is the length of the JSON text of a row;
  nothing is kept when the rows are too many or too long.
\<close>

fun localRows :: "(Row \<Rightarrow> nat) \<Rightarrow> entry list \<Rightarrow> Row list \<Rightarrow> nat \<Rightarrow> Row list option" where
  "localRows len [] rows n = Some rows"
| "localRows len (item # items) rows n =
     (if \<not> e_peer item \<and> r_CreatedAt (e_row item) = 0 then localRows len items rows n
      else if length rows \<ge> MaxRows then None
      else
        let row = localRow item; n1 = n + len row + 1 in
        if n1 > MaxBytes div 2 then None else localRows len items (rows @ [row]) n1)"

definition entriesOf :: "daemon \<Rightarrow> entry list" where
  "entriesOf d = map (\<lambda>x. h_entry d (snd x)) (d_entries d)"

definition localRoster :: "(Row \<Rightarrow> nat) \<Rightarrow> daemon \<Rightarrow> Host" where
  "localRoster len d =
     (let products = (case d_products d of None \<Rightarrow> [] | Some ps \<Rightarrow> ps) in
      case localRows len (entriesOf d) [] 0 of
        None \<Rightarrow> \<lparr>ho_Host = d_host d, ho_Products = Some products, ho_Sessions = Some [], ho_Error = ''roster_too_large''\<rparr>
      | Some rows \<Rightarrow> \<lparr>ho_Host = d_host d, ho_Products = Some products, ho_Sessions = Some (sort_key rw_SessionID rows), ho_Error = []\<rparr>)"

section \<open>The report\<close>

record Report =
  op_Schema :: gostring
  op_Federation :: gostring
  op_Complete :: bool
  op_Local :: Host
  op_Remote :: "Host list option"
  op_Error :: gostring

definition rosterSchema :: gostring where
  "rosterSchema = ''sessionbus.roster.v1''"

definition incomplete :: "gostring \<Rightarrow> Report \<Rightarrow> Report" where
  "incomplete problem r = r\<lparr>op_Complete := False, op_Error := problem\<rparr>"

text \<open>
  The first part of \<open>operatorRoster\<close>, with the hub link it sees: the report so far and, when the hub has to be
  asked, whether its link carries rosters. \<open>configured\<close> says that the daemon has a hub address.
\<close>

definition rosterLook :: "bool \<Rightarrow> bool \<Rightarrow> Host \<Rightarrow> daemon \<Rightarrow> Report \<times> bool option" where
  "rosterLook configured local host d =
     (let result = \<lparr>op_Schema = rosterSchema, op_Federation = ''not_configured'', op_Complete = (ho_Error host = []), op_Local = host,
                    op_Remote = Some [], op_Error = []\<rparr>
      in case d_federation d of
           None \<Rightarrow>
             if configured then (result\<lparr>op_Federation := ''disconnected'', op_Complete := (op_Complete result \<and> local)\<rparr>, None)
             else (result, None)
         | Some link \<Rightarrow> (result\<lparr>op_Federation := ''connected''\<rparr>, if local then None else Some (fl_roster link)))"

text \<open>
  The call to the hub, posted only on the link seen before (\<open>same\<close> compares the two) and only when its queue
  has room; unlike the calls of sessions it does not end a link whose queue is full.
\<close>

definition rosterPost :: "bool \<Rightarrow> bool \<Rightarrow> Report \<Rightarrow> daemon \<Rightarrow> (Report + ptr) \<times> daemon" where
  "rosterPost same carries result d =
     (case d_federation d of
        None \<Rightarrow> (Inl (incomplete ''federation_changed'' result), d)
      | Some link \<Rightarrow>
          if \<not> same then (Inl (incomplete ''federation_changed'' result), d)
          else if length (fl_inbox link) < OutboxSize then
            let (reply, d1) = newChan d
            in (Inr reply, d1\<lparr>d_federation := Some (link\<lparr>fl_inbox := fl_inbox link @ [if carries then RosterCall reply else HostsCall reply]\<rparr>)\<rparr>)
          else (Inl (incomplete ''federation_busy'' result), d))"

definition hostList :: "Host list option \<Rightarrow> Host list" where
  "hostList hosts = (case hosts of None \<Rightarrow> [] | Some hs \<Rightarrow> hs)"

definition withRemote :: "Host list option \<Rightarrow> Report \<Rightarrow> Report" where
  "withRemote hosts result =
     result\<lparr>op_Remote := hosts,
       op_Complete := (op_Complete result \<and> (\<forall>h \<in> set (hostList hosts). ho_Error h = []))\<rparr>"

text \<open>The answer of the hub, or none before the deadline.\<close>

definition rosterAnswer :: "fedEnv \<Rightarrow> bool \<Rightarrow> Reply option \<Rightarrow> Report \<Rightarrow> Report" where
  "rosterAnswer E carries answer result =
     (case answer of
        None \<Rightarrow> incomplete ''federation_roster_timeout'' result
      | Some v \<Rightarrow>
          if rp_Error v \<noteq> None then incomplete ''federation_roster_unavailable'' result
          else if \<not> carries then
            (case DecodeHosts v of
               None \<Rightarrow> incomplete ''federation_roster_unavailable'' result
             | Some hosts \<Rightarrow> withRemote (Some (map (\<lambda>h. rosterStub h ''upgrade_hub_for_roster'') hosts)) result)
          else
            (case Option.bind (rp_Result v) (decodeRosterReply E) of
               None \<Rightarrow> incomplete ''invalid_federation_roster'' result
             | Some remote \<Rightarrow> withRemote (re_Hosts remote) result))"

text \<open>\<open>operatorRoster\<close>; the three daemons are the states under its three locks.\<close>

definition operatorRoster ::
    "fedEnv \<Rightarrow> (Row \<Rightarrow> nat) \<Rightarrow> bool \<Rightarrow> bool \<Rightarrow> bool \<Rightarrow> Reply option \<Rightarrow> daemon \<Rightarrow> daemon \<Rightarrow> daemon \<Rightarrow> Report \<times> daemon" where
  "operatorRoster E len configured local same answer d1 d2 d3 =
     (let (result, ask) = rosterLook configured local (localRoster len d1) d2 in
      case ask of
        None \<Rightarrow> (result, d3)
      | Some carries \<Rightarrow>
          (case rosterPost same carries result d3 of
             (Inl failed, d) \<Rightarrow> (failed, d)
           | (Inr reply, d) \<Rightarrow> (rosterAnswer E carries answer result, d)))"

text \<open>\<open>encodeOperatorRoster\<close>: the report that is written; \<open>rlen\<close> is the length of a report's JSON text.\<close>

definition tooLarge :: "Report \<Rightarrow> Report" where
  "tooLarge r = r\<lparr>op_Complete := False, op_Error := ''roster_too_large'',
     op_Remote := Some (map (\<lambda>h. rosterStub (ho_Host h) ''roster_too_large'') (hostList (op_Remote r)))\<rparr>"

definition emptyReport :: Report where
  "emptyReport = \<lparr>op_Schema = rosterSchema, op_Federation = [], op_Complete = False,
     op_Local = \<lparr>ho_Host = [], ho_Products = None, ho_Sessions = None, ho_Error = []\<rparr>, op_Remote = None, op_Error = ''roster_too_large''\<rparr>"

definition encodeOperatorRoster :: "(Report \<Rightarrow> nat) \<Rightarrow> Report \<Rightarrow> Report" where
  "encodeOperatorRoster rlen r =
     (case Encode r (rlen r) of
        Some body \<Rightarrow> body
      | None \<Rightarrow>
          let stubs = tooLarge r in
          (case Encode stubs (rlen stubs) of
             Some body \<Rightarrow> body
           | None \<Rightarrow>
               let bare = stubs\<lparr>op_Remote := Some []\<rparr> in
               (case Encode bare (rlen bare) of Some body \<Rightarrow> body | None \<Rightarrow> emptyReport)))"

text \<open>What the daemon answers to the hub: its roster, or the work of a forwarded request.\<close>

definition admitFederationWithRoster ::
    "fedEnv \<Rightarrow> (Row \<Rightarrow> nat) \<Rightarrow> Caller \<Rightarrow> PublicRequest \<Rightarrow> daemon \<Rightarrow> (Reply + (ptr \<times> daemon \<times> session list)) option" where
  "admitFederationWithRoster E len from req d =
     (if pr_Method req = rosterMethod then Some (Inl (RosterReply E (localRoster len d)))
      else map_option Inr (admitFederation from req d))"

section \<open>The loop collects all rows or none\<close>

abbreviation rowsOf :: "daemon \<Rightarrow> Row list" where
  "rowsOf d \<equiv> map localRow (filter shown (entriesOf d))"

definition rowsFit :: "(Row \<Rightarrow> nat) \<Rightarrow> Row list \<Rightarrow> bool" where
  "rowsFit len rows \<longleftrightarrow> length rows \<le> MaxRows \<and> (\<Sum>r\<leftarrow>rows. len r + 1) \<le> MaxBytes div 2"

lemma localRows_spec:
  "length rows \<le> MaxRows \<Longrightarrow> n \<le> MaxBytes div 2 \<Longrightarrow>
   localRows len items rows n =
     (let new = map localRow (filter shown items) in
      if length rows + length new \<le> MaxRows \<and> n + (\<Sum>r\<leftarrow>new. len r + 1) \<le> MaxBytes div 2 then Some (rows @ new) else None)"
  by (induction len items rows n rule: localRows.induct) (auto simp: shown_def Let_def)

lemma localRoster_spec:
  "localRoster len d =
     \<lparr>ho_Host = d_host d, ho_Products = Some (case d_products d of None \<Rightarrow> [] | Some ps \<Rightarrow> ps),
      ho_Sessions = Some (if rowsFit len (rowsOf d) then sort_key rw_SessionID (rowsOf d) else []),
      ho_Error = (if rowsFit len (rowsOf d) then [] else ''roster_too_large'')\<rparr>"
  by (simp add: localRoster_def localRows_spec rowsFit_def Let_def)

section \<open>A report that says it is complete\<close>

lemma encode_complete: "op_Complete (encodeOperatorRoster rlen r) \<Longrightarrow> encodeOperatorRoster rlen r = r"
  by (auto simp: encodeOperatorRoster_def Encode_def tooLarge_def emptyReport_def Let_def split: if_splits)

lemma look_complete:
  assumes "rosterLook configured local host d = (r, ask)"
  shows "op_Local r = host" "op_Complete r \<Longrightarrow> ho_Error host = []" "op_Remote r = Some []" "op_Error r = []"
    "ask = None \<Longrightarrow> op_Complete r \<Longrightarrow> \<not> local \<Longrightarrow> d_federation d = None \<and> \<not> configured"
  using assms by (auto simp: rosterLook_def Let_def split: option.splits if_splits)

text \<open>What the hub's answer says of the other hosts.\<close>

definition hubHostsAre :: "fedEnv \<Rightarrow> Reply \<Rightarrow> Host list \<Rightarrow> bool" where
  "hubHostsAre E v hosts \<longleftrightarrow> rp_Error v = None
     \<and> (hosts = [] \<and> DecodeHosts v = Some [] \<or> Option.bind (rp_Result v) (decodeRosterReply E) = Some \<lparr>re_Hosts = Some hosts\<rparr>)"

lemma DecodeRemote_hosts: "DecodeRemote decoded n = Some remote \<Longrightarrow> \<exists>hosts. remote = \<lparr>re_Hosts = Some hosts\<rparr>"
  by (cases remote; cases decoded) (auto simp: DecodeRemote_def split: option.splits if_splits)

lemma decoded_hosts:
  assumes "Option.bind (rp_Result v) (decodeRosterReply E) = Some remote"
  shows "\<exists>hosts. remote = \<lparr>re_Hosts = Some hosts\<rparr>"
proof -
  obtain raw where "decodeRosterReply E raw = Some remote" using assms by (cases "rp_Result v") auto
  then show ?thesis unfolding decodeRosterReply_def by (rule DecodeRemote_hosts)
qed

lemma answer_complete:
  assumes "op_Complete (rosterAnswer E carries answer r)"
  shows "op_Complete r" "op_Local (rosterAnswer E carries answer r) = op_Local r"
    "\<exists>v hosts. answer = Some v \<and> hubHostsAre E v hosts \<and> op_Remote (rosterAnswer E carries answer r) = Some hosts \<and> (\<forall>h \<in> set hosts. ho_Error h = [])"
proof -
  obtain v where v: "answer = Some v" "rp_Error v = None" using assms by (cases answer) (auto simp: rosterAnswer_def incomplete_def split: if_splits)
  obtain hosts where h: "rosterAnswer E carries answer r = withRemote (Some hosts) r" "hubHostsAre E v hosts \<or> (\<exists>h \<in> set hosts. ho_Error h \<noteq> [])"
  proof (cases carries)
    case True
    then obtain remote where "Option.bind (rp_Result v) (decodeRosterReply E) = Some remote" "rosterAnswer E carries answer r = withRemote (re_Hosts remote) r"
      using assms v by (auto simp: rosterAnswer_def incomplete_def split: option.splits)
    then show ?thesis using that decoded_hosts[of v E remote] v(2) by (auto simp: hubHostsAre_def)
  next
    case False
    then obtain hs where "DecodeHosts v = Some hs" "rosterAnswer E carries answer r = withRemote (Some (map (\<lambda>h. rosterStub h ''upgrade_hub_for_roster'') hs)) r"
      using assms v by (auto simp: rosterAnswer_def incomplete_def split: option.splits)
    then show ?thesis using that[of "map (\<lambda>h. rosterStub h ''upgrade_hub_for_roster'') hs"] v(2) by (cases hs) (auto simp: hubHostsAre_def rosterStub_def)
  qed
  then show "op_Complete r" "op_Local (rosterAnswer E carries answer r) = op_Local r"
    "\<exists>v hosts. answer = Some v \<and> hubHostsAre E v hosts \<and> op_Remote (rosterAnswer E carries answer r) = Some hosts \<and> (\<forall>h \<in> set hosts. ho_Error h = [])"
    using assms v by (auto simp: withRemote_def hostList_def)
qed

text \<open>
  C16: (operator's roster) A report marked complete is: whatever happened between the locks, its local part lists every session of the
  directory exactly once, in order, with no error; and unless only the local part was asked for, either the daemon has no
  hub, or the hub answered and the report holds exactly the hosts of that answer, all without an error. Cutting a report that is too large never leaves it marked complete.
\<close>

theorem operator_report_honest:
  assumes "encodeOperatorRoster rlen (fst (operatorRoster E len configured local same answer d1 d2 d3)) = r" "op_Complete r"
  shows "ho_Error (op_Local r) = [] \<and> ho_Host (op_Local r) = d_host d1
    \<and> (\<exists>rows. ho_Sessions (op_Local r) = Some rows \<and> sorted (map rw_SessionID rows) \<and> mset rows = mset (rowsOf d1))
    \<and> (\<not> local \<longrightarrow> d_federation d2 = None \<and> \<not> configured \<and> op_Remote r = Some []
         \<or> (\<exists>v hosts. answer = Some v \<and> hubHostsAre E v hosts \<and> op_Remote r = Some hosts \<and> (\<forall>h \<in> set hosts. ho_Error h = [])))"
proof -
  have r: "fst (operatorRoster E len configured local same answer d1 d2 d3) = r" using encode_complete[of rlen] assms by metis
  obtain q ask where look: "rosterLook configured local (localRoster len d1) d2 = (q, ask)" by (cases "rosterLook configured local (localRoster len d1) d2")
  note l = look_complete[OF look]
  have c: "op_Complete q \<and> op_Local r = localRoster len d1
    \<and> (\<not> local \<longrightarrow> d_federation d2 = None \<and> \<not> configured \<and> op_Remote r = Some []
         \<or> (\<exists>v hosts. answer = Some v \<and> hubHostsAre E v hosts \<and> op_Remote r = Some hosts \<and> (\<forall>h \<in> set hosts. ho_Error h = [])))"
  proof (cases ask)
    case None
    then have "r = q" using r look by (simp add: operatorRoster_def)
    then show ?thesis using l None assms(2) by simp
  next
    case (Some carries)
    then have a: "r = rosterAnswer E carries answer q"
      using r look assms(2) by (auto simp: operatorRoster_def rosterPost_def incomplete_def Let_def split: sum.splits prod.splits option.splits if_splits)
    then show ?thesis using answer_complete[of E carries answer q] assms(2) l(1) by simp
  qed
  then have "rowsFit len (rowsOf d1)" using l(2) by (simp add: localRoster_spec split: if_splits)
  then have "localRoster len d1 = \<lparr>ho_Host = d_host d1, ho_Products = ho_Products (localRoster len d1), ho_Sessions = Some (sort_key rw_SessionID (rowsOf d1)), ho_Error = []\<rparr>"
    by (simp add: localRoster_spec)
  with c show ?thesis by (metis (no_types, lifting) Host.select_convs(1,3,4) mset_sort sorted_sort_key)
qed

section \<open>The hub accepts the roster of a daemon\<close>

lemma row_ids:
  assumes "life_ok S"
  shows "distinct (map rw_SessionID (rowsOf (sy_d S))) \<and> [] \<notin> set (map rw_SessionID (rowsOf (sy_d S)))"
proof -
  let ?d = "sy_d S"
  have ids: "map (\<lambda>e. r_SessionID (e_row e)) (entriesOf ?d) = map fst (d_entries ?d)"
    using entryAtD(1)[OF assms] gm_set_get[OF life_okD(6)[OF assms]] by (auto simp: entriesOf_def)
  have "map rw_SessionID (rowsOf ?d) = map (\<lambda>e. r_SessionID (e_row e)) (filter shown (entriesOf ?d))" by (simp add: localRow_def Let_def)
  moreover have "distinct (map (\<lambda>e. r_SessionID (e_row e)) (entriesOf ?d))" using life_okD(6)[OF assms] by (simp add: ids gm_ok_def)
  moreover have "[] \<notin> set (map (\<lambda>e. r_SessionID (e_row e)) (entriesOf ?d))"
    using entryAtD(2)[OF assms] gm_set_get[OF life_okD(6)[OF assms]] unfolding ids by fastforce
  ultimately show ?thesis by (simp only: distinct_map_filter) auto
qed

lemma sorted_ids: "distinct (map f (sort_key f xs)) = distinct (map f xs)"
  by (rule mset_eq_imp_distinct_iff) simp

lemma row_form: "r \<in> set (rowsOf d) \<Longrightarrow> rw_Groups r \<noteq> None \<and> rw_Kind r \<in> {''peer'', ''lane''}"
  by (auto simp: localRow_def Let_def split: if_splits)

text \<open>
  C19: (operator's roster across hosts) In every reachable state of the directory the daemon's answer to the hub's roster request, when it fits its limit, passes the
  hub's checks, and the hub's report for that host is the roster the daemon has, unchanged.
\<close>

theorem hub_accepts_local_roster:
  assumes "reach dir_init dir_step S" "d_host (sy_d S) \<noteq> []" "pr_Method req = rosterMethod"
    "ev_resultLen E (VRoster \<lparr>re_Hosts = Some [localRoster len (sy_d S)]\<rparr>) \<le> MaxBytes"
  shows "\<exists>v. admitFederationWithRoster E len from req (sy_d S) = Some (Inl v) \<and> legHost E (d_host (sy_d S)) (Some v) = localRoster len (sy_d S)"
proof -
  let ?h = "localRoster len (sy_d S)"
  have ok: "life_ok S" by (rule directory.reach_inv[OF assms(1)])
  have v: "RosterReply E ?h = rawReply (VRoster \<lparr>re_Hosts = Some [?h]\<rparr>)" using assms(4) by (simp add: RosterReply_def Encode_def Let_def)
  have rows: "validRows {} (sort_key rw_SessionID (rowsOf (sy_d S)))"
    unfolding validRows_iff sorted_ids set_map set_sort using row_ids[OF ok] row_form[of _ "sy_d S"] by (simp only: set_map) (metis image_eqI inf_bot_right)
  have "validHosts {} [?h]" using assms(2) rows by (auto simp: localRoster_spec rowsFit_def)
  then have "decodeRosterReply E (VRoster \<lparr>re_Hosts = Some [?h]\<rparr>) = Some \<lparr>re_Hosts = Some [?h]\<rparr>"
    using assms(4) by (simp add: decodeRosterReply_def DecodeRemote_def MaxRows_def)
  moreover have "ho_Host ?h = d_host (sy_d S)" by (simp add: localRoster_spec)
  ultimately have "legHost E (d_host (sy_d S)) (Some (RosterReply E ?h)) = ?h" unfolding v by (simp add: legHost_def rawReply_def)
  then show ?thesis using assms(3) by (simp add: admitFederationWithRoster_def)
qed

section \<open>A report with a remote host\<close>

definition demo_hubbed :: daemon where
  "demo_hubbed = demo_directory\<lparr>d_federation := Some \<lparr>fl_roster = True, fl_inbox = [], fl_cancelled = False\<rparr>\<rparr>"

definition demo_remote :: Reply where
  "demo_remote = rawReply (VRoster \<lparr>re_Hosts = Some [rosterStub ''b'' []]\<rparr>)"

definition demo_report :: Report where
  "demo_report = fst (operatorRoster plainEnv (\<lambda>_. 0) True False True (Some demo_remote) demo_hubbed demo_hubbed demo_hubbed)"

lemma demo_rows: "rowsFit (\<lambda>_. 0) (rowsOf demo_hubbed) \<and> length (rowsOf demo_hubbed) = 1"
  by (simp add: rowsFit_def MaxRows_def MaxBytes_def entriesOf_def shown_def demo_hubbed_def demo_directory_simps)

lemma demo_report_complete: "op_Complete demo_report"
proof -
  have "decodeRosterReply plainEnv (VRoster \<lparr>re_Hosts = Some [rosterStub ''b'' []]\<rparr>) = Some \<lparr>re_Hosts = Some [rosterStub ''b'' []]\<rparr>"
    by (simp add: decodeRosterReply_def DecodeRemote_def plainEnv_def MaxRows_def rosterStub_def)
  moreover have "ho_Error (localRoster (\<lambda>_. 0) demo_hubbed) = []" using demo_rows by (simp add: localRoster_spec)
  moreover have "d_federation demo_hubbed = Some \<lparr>fl_roster = True, fl_inbox = [], fl_cancelled = False\<rparr>" by (simp add: demo_hubbed_def)
  ultimately show ?thesis
    by (simp add: demo_report_def operatorRoster_def rosterLook_def rosterPost_def rosterAnswer_def withRemote_def hostList_def demo_remote_def rawReply_def
        newChan_def rosterStub_def Let_def)
qed

theorem operator_report_honest_witness:
  "op_Complete demo_report \<and> length (rowsOf demo_hubbed) = 1 \<and> (\<exists>rows. ho_Sessions (op_Local demo_report) = Some rows \<and> mset rows = mset (rowsOf demo_hubbed))"
proof -
  have "encodeOperatorRoster (\<lambda>_. 0) demo_report = demo_report" by (simp add: encodeOperatorRoster_def Encode_def)
  from operator_report_honest[OF this[unfolded demo_report_def], folded demo_report_def] show ?thesis using demo_report_complete demo_rows by blast
qed

theorem hub_accepts_local_roster_witness:
  "\<exists>v. admitFederationWithRoster plainEnv (\<lambda>_. 0) \<lparr>fc_OwnerLifetime = [], fc_SourceAttachment = [], fc_SessionID = [], fc_Name = [], fc_Product = [], fc_PrivateGroup = [], fc_Groups = []\<rparr>
       \<lparr>pr_Completion = False, pr_Method = rosterMethod, pr_Params = None, pr_MessageID = [], pr_Trace = False, pr_TraceCopy = None\<rparr> (sy_d demo_sys) = Some (Inl v)
     \<and> legHost plainEnv ''h'' (Some v) = localRoster (\<lambda>_. 0) (sy_d demo_sys)"
proof -
  have "d_host (sy_d demo_sys) = ''h''" by (simp add: demo_sys_def demo_directory_simps)
  with hub_accepts_local_roster[OF demo_sys_reach, of _ plainEnv "\<lambda>_. 0"] show ?thesis by (simp add: plainEnv_def)
qed

end
