(* ===== verification/FrameCodec.thy ===== *)
theory FrameCodec
  imports Validate
begin

text \<open>
  Frames and the load of the schema (\<open>bus/sdk/go/protocol/frame.go\<close>, \<open>validate.go\<close>), over JSON values: the members of an object are in
  the order of the text and may repeat. \<open>Protocol\<close> starts from the frames decoded here.
\<close>

section \<open>Decoding\<close>

definition asciiLower :: "char \<Rightarrow> char" where
  "asciiLower c = (let n = of_char c :: nat in if 65 \<le> n \<and> n \<le> 90 then char_of (n + 32) else c)"

text \<open>
  How \<open>encoding/json\<close> compares the names of struct fields: without case, where the long s and the Kelvin sign
  are the only other runes that fold to ASCII letters.
\<close>

function foldName :: "gostring \<Rightarrow> gostring" where
  "foldName s =
     (case s of
        [] \<Rightarrow> []
      | c # r \<Rightarrow>
          if take 2 s = [CHR 0xC5, CHR 0xBF] then CHR ''s'' # foldName (drop 2 s)
          else if take 3 s = [CHR 0xE2, CHR 0x84, CHR 0xAA] then CHR ''k'' # foldName (drop 3 s)
          else asciiLower c # foldName r)"
  by auto
termination by (relation "measure length") auto

declare foldName.simps [simp del]

record wireFrame =
  wf_JSONRPC :: "jany option"
  wf_ID :: "jany option"
  wf_Method :: "jany option"
  wf_Params :: "jany option"
  wf_Result :: "jany option"
  wf_Error :: "jany option"

definition emptyWire :: wireFrame where
  "emptyWire = \<lparr>wf_JSONRPC = None, wf_ID = None, wf_Method = None, wf_Params = None, wf_Result = None, wf_Error = None\<rparr>"

definition setField :: "gostring \<Rightarrow> jany \<Rightarrow> wireFrame \<Rightarrow> wireFrame option" where
  "setField key v w =
     (let name = foldName key in
      if name = ''jsonrpc'' then Some (w\<lparr>wf_JSONRPC := Some v\<rparr>)
      else if name = ''id'' then Some (w\<lparr>wf_ID := Some v\<rparr>)
      else if name = ''method'' then Some (w\<lparr>wf_Method := Some v\<rparr>)
      else if name = ''params'' then Some (w\<lparr>wf_Params := Some v\<rparr>)
      else if name = ''result'' then Some (w\<lparr>wf_Result := Some v\<rparr>)
      else if name = ''error'' then Some (w\<lparr>wf_Error := Some v\<rparr>)
      else None)"

fun setFields :: "(gostring \<times> jany) list \<Rightarrow> wireFrame \<Rightarrow> wireFrame option" where
  "setFields [] w = Some w"
| "setFields ((key, v) # m) w = (case setField key v w of None \<Rightarrow> None | Some w1 \<Rightarrow> setFields m w1)"

text \<open>\<open>DecodeJSON\<close> into a \<open>wireFrame\<close>: no unknown fields.\<close>

definition decodeWire :: "jany option \<Rightarrow> wireFrame option" where
  "decodeWire body = (case body of Some (AObj m) \<Rightarrow> setFields m emptyWire | Some ANull \<Rightarrow> Some emptyWire | _ \<Rightarrow> None)"

text \<open>The conversion of a \<open>float64\<close> to \<open>int64\<close>: outside the range its value is the implementation's.\<close>

definition toInt64 :: "(rat \<Rightarrow> int) \<Rightarrow> rat \<Rightarrow> int" where
  "toInt64 wild v = (if - (2 ^ 63) \<le> v \<and> v < 2 ^ 63 then (if 0 \<le> v then \<lfloor>v\<rfloor> else \<lceil>v\<rceil>) else wild v)"

definition numericID :: "(rat \<Rightarrow> int) \<Rightarrow> jany option \<Rightarrow> int \<times> bool" where
  "numericID wild raw =
     (case raw of
        Some (ANum v) \<Rightarrow> (toInt64 wild v, 1 \<le> v \<and> v \<le> of_int MaxRequestID \<and> of_int \<lfloor>v\<rfloor> = v)
      | _ \<Rightarrow> (0, False))"

record rawFrame =
  rf_ID :: int
  rf_Method :: gostring
  rf_Params :: "jany option"
  rf_Result :: "jany option"
  rf_ErrorRaw :: "jany option"
  rf_Request :: bool

text \<open>What is read of a body before it is checked: the last member of each name.\<close>

definition peekFrame :: "(rat \<Rightarrow> int) \<Rightarrow> jany option \<Rightarrow> rawFrame" where
  "peekFrame wild body =
     (let fields = (case body of Some (AObj m) \<Rightarrow> map_of (rev m) | _ \<Rightarrow> (\<lambda>_. None))
      in \<lparr>rf_ID = fst (numericID wild (fields ''id'')),
          rf_Method = (case fields ''method'' of Some (AStr s) \<Rightarrow> s | _ \<Rightarrow> []),
          rf_Params = None, rf_Result = None, rf_ErrorRaw = None,
          rf_Request = (fields ''method'' \<noteq> None \<or> fields ''params'' \<noteq> None)\<rparr>)"

definition decodeMethod :: "wireFrame \<Rightarrow> jany \<Rightarrow> rawFrame \<Rightarrow> rawFrame \<times> bool" where
  "decodeMethod wire method frame =
     (if wf_Params wire = Some ANull \<or> wf_Result wire \<noteq> None \<or> wf_Error wire \<noteq> None then (frame, False)
      else case method of
             AStr s \<Rightarrow> if s = [] then (frame\<lparr>rf_Method := []\<rparr>, False) else (frame\<lparr>rf_Method := s, rf_Params := wf_Params wire\<rparr>, True)
           | _ \<Rightarrow> (frame, False))"

definition decodeResponse :: "(nat \<Rightarrow> bool) \<Rightarrow> wireFrame \<Rightarrow> rawFrame \<Rightarrow> rawFrame \<times> bool" where
  "decodeResponse hi wire frame =
     (if wf_Params wire \<noteq> None \<or> (wf_Result wire = None) = (wf_Error wire = None) \<or> wf_Result wire = Some ANull \<or> wf_Error wire = Some ANull
      then (frame, False)
      else if wf_Result wire \<noteq> None then (frame\<lparr>rf_Result := wf_Result wire\<rparr>, True)
      else (frame\<lparr>rf_ErrorRaw := wf_Error wire\<rparr>, validateDefinition hi ''RPCError'' (wf_Error wire) = Some None))"

text \<open>\<open>DecodeFrame\<close>; \<open>utf8\<close> says that the bytes are valid UTF-8. The second component is the absence of an error.\<close>

definition DecodeFrame :: "(nat \<Rightarrow> bool) \<Rightarrow> (rat \<Rightarrow> int) \<Rightarrow> bool \<Rightarrow> jany option \<Rightarrow> rawFrame \<times> bool" where
  "DecodeFrame hi wild utf8 body =
     (let frame = peekFrame wild body in
      case decodeWire body of
        None \<Rightarrow> (frame, False)
      | Some wire \<Rightarrow>
          if \<not> utf8 \<or> wf_JSONRPC wire \<noteq> Some (AStr ''2.0'') \<or> wf_ID wire = Some ANull then (frame, False)
          else
            let (i, ok) = numericID wild (wf_ID wire); frame1 = frame\<lparr>rf_ID := i\<rparr> in
            if \<not> ok then (frame1, False)
            else (case wf_Method wire of Some method \<Rightarrow> decodeMethod wire method frame1 | None \<Rightarrow> decodeResponse hi wire frame1))"

section \<open>Encoding\<close>

text \<open>\<open>encodeFrame\<close> of a value whose JSON text has \<open>len\<close> bytes.\<close>

definition encodeFrame :: "(jany \<Rightarrow> nat) \<Rightarrow> jany \<Rightarrow> jany option" where
  "encodeFrame len v = (if len v + 1 > MaxFrameBytes then None else Some v)"

definition EncodeRequest :: "(jany \<Rightarrow> nat) \<Rightarrow> int \<Rightarrow> gostring \<Rightarrow> jany \<Rightarrow> jany option" where
  "EncodeRequest len i method params =
     encodeFrame len (AObj [(''id'', ANum (of_int i)), (''jsonrpc'', AStr ''2.0''), (''method'', AStr method), (''params'', params)])"

text \<open>\<open>ResultBytes\<close>; \<open>name\<close> is the schema definition of the method's result.\<close>

definition ResultBytes :: "(nat \<Rightarrow> bool) \<Rightarrow> gostring \<Rightarrow> (jany \<Rightarrow> nat) \<Rightarrow> int \<Rightarrow> jany \<Rightarrow> jany option" where
  "ResultBytes hi name len i raw =
     (if validateDefinition hi name (Some raw) \<noteq> Some None then None
      else encodeFrame len (AObj [(''id'', ANum (of_int i)), (''jsonrpc'', AStr ''2.0''), (''result'', raw)]))"

definition ErrorBytes :: "(nat \<Rightarrow> bool) \<Rightarrow> (jany \<Rightarrow> nat) \<Rightarrow> int \<Rightarrow> int \<Rightarrow> jany option \<Rightarrow> jany option" where
  "ErrorBytes hi len i code data =
     (let v = errorValue code (case map_of errorMessages code of Some m \<Rightarrow> m | None \<Rightarrow> []) data in
      if validateDefinition hi ''RPCError'' (Some v) \<noteq> Some None then None
      else encodeFrame len (AObj [(''error'', v), (''id'', ANum (of_int i)), (''jsonrpc'', AStr ''2.0'')]))"

section \<open>What a decoded frame is\<close>

lemma fold_names: "foldName ''jsonrpc'' = ''jsonrpc''" "foldName ''id'' = ''id''" "foldName ''method'' = ''method''" "foldName ''params'' = ''params''"
  "foldName ''result'' = ''result''" "foldName ''error'' = ''error''"
  by code_simp+

lemma set_names:
  "setField ''jsonrpc'' v w = Some (w\<lparr>wf_JSONRPC := Some v\<rparr>)" "setField ''id'' v w = Some (w\<lparr>wf_ID := Some v\<rparr>)"
  "setField ''method'' v w = Some (w\<lparr>wf_Method := Some v\<rparr>)" "setField ''params'' v w = Some (w\<lparr>wf_Params := Some v\<rparr>)"
  "setField ''result'' v w = Some (w\<lparr>wf_Result := Some v\<rparr>)" "setField ''error'' v w = Some (w\<lparr>wf_Error := Some v\<rparr>)"
  by (simp_all add: setField_def fold_names)

lemma numericID_int: "1 \<le> i \<Longrightarrow> i \<le> MaxRequestID \<Longrightarrow> numericID wild (Some (ANum (of_int i))) = (i, True)"
proof -
  assume i: "1 \<le> i" "i \<le> MaxRequestID"
  have "(of_int i :: rat) \<le> of_int MaxRequestID" using i(2) by (simp only: of_int_le_iff)
  moreover have "(1 :: rat) \<le> of_int i" using i(1) by simp
  ultimately show ?thesis by (simp add: numericID_def toInt64_def)
qed

lemma numericID_range: "numericID wild raw = (i, True) \<Longrightarrow> 1 \<le> i \<and> i \<le> MaxRequestID"
proof -
  assume a: "numericID wild raw = (i, True)"
  then obtain v where v: "1 \<le> v" "v \<le> of_int MaxRequestID" "of_int \<lfloor>v\<rfloor> = v" "i = toInt64 wild v"
    by (auto simp: numericID_def split: option.splits jany.splits)
  have "v < 2 ^ 63" "- (2 ^ 63) \<le> v" "0 \<le> v" using v(1,2) by simp_all
  then have "i = \<lfloor>v\<rfloor>" using v(4) by (simp add: toInt64_def)
  moreover have "1 \<le> \<lfloor>v\<rfloor>" "\<lfloor>v\<rfloor> \<le> MaxRequestID" using v(1,2) by (simp_all add: le_floor_iff floor_le_iff)
  ultimately show ?thesis by simp
qed

lemma numericID_outside: "\<not> (1 \<le> i \<and> i \<le> MaxRequestID) \<Longrightarrow> \<not> snd (numericID wild (Some (ANum (of_int i))))"
proof -
  assume "\<not> (1 \<le> i \<and> i \<le> MaxRequestID)"
  then have "\<not> ((1 :: rat) \<le> of_int i \<and> (of_int i :: rat) \<le> of_int MaxRequestID)" by (simp only: of_int_le_iff of_int_1_le_iff simp_thms)
  then show ?thesis by (auto simp: numericID_def)
qed

text \<open>
  C25: (wire format) Frames survive the wire: a request that \<open>EncodeRequest\<close> has encoded decodes to a request with the same
  identifier, method and parameters if the identifier is between 1 and \<open>MaxRequestID\<close>, the method is not empty and the parameters are not null,
  and is refused by \<open>DecodeFrame\<close> otherwise (the encoder checks none of this); what \<open>ResultBytes\<close> has encoded decodes to that result if
  the identifier is in range and the result is not null, and is refused otherwise; what \<open>ErrorBytes\<close> has encoded decodes to an error
  with its code, the protocol's message for that code and its data if the identifier is in range, and is refused otherwise. The JSON text of
  a value is taken to be the value.
\<close>

theorem frame_round_trip:
  "(EncodeRequest len i m params = Some body \<longrightarrow>
      (if 1 \<le> i \<and> i \<le> MaxRequestID \<and> m \<noteq> [] \<and> params \<noteq> ANull
       then DecodeFrame hi wild True (Some body) = (\<lparr>rf_ID = i, rf_Method = m, rf_Params = Some params, rf_Result = None, rf_ErrorRaw = None, rf_Request = True\<rparr>, True)
       else \<not> snd (DecodeFrame hi wild True (Some body))))
    \<and> (ResultBytes hi name len i raw = Some body \<longrightarrow>
      (if 1 \<le> i \<and> i \<le> MaxRequestID \<and> raw \<noteq> ANull
       then DecodeFrame hi wild True (Some body) = (\<lparr>rf_ID = i, rf_Method = [], rf_Params = None, rf_Result = Some raw, rf_ErrorRaw = None, rf_Request = False\<rparr>, True)
       else \<not> snd (DecodeFrame hi wild True (Some body))))
    \<and> (ErrorBytes hi len i code data = Some body \<longrightarrow>
      (if 1 \<le> i \<and> i \<le> MaxRequestID
       then DecodeFrame hi wild True (Some body) = (\<lparr>rf_ID = i, rf_Method = [], rf_Params = None, rf_Result = None,
         rf_ErrorRaw = Some (errorValue code (case map_of errorMessages code of Some message \<Rightarrow> message | None \<Rightarrow> []) data), rf_Request = False\<rparr>, True)
       else \<not> snd (DecodeFrame hi wild True (Some body))))"
proof -
  note d = DecodeFrame_def decodeWire_def peekFrame_def set_names emptyWire_def decodeMethod_def decodeResponse_def encodeFrame_def Let_def
  have out: "\<not> snd (DecodeFrame hi wild True (Some (AObj ms)))"
    if "\<not> (1 \<le> i \<and> i \<le> MaxRequestID)" "setFields ms emptyWire = Some w" "wf_ID w = Some (ANum (of_int i))" for ms w
    using numericID_outside[OF that(1), of wild] that(2,3) by (auto simp: DecodeFrame_def decodeWire_def Let_def split: prod.splits)
  show ?thesis
  proof (intro conjI impI)
    assume "EncodeRequest len i m params = Some body"
    then have b: "body = AObj [(''id'', ANum (of_int i)), (''jsonrpc'', AStr ''2.0''), (''method'', AStr m), (''params'', params)]"
      by (auto simp: EncodeRequest_def encodeFrame_def split: if_splits)
    show "if 1 \<le> i \<and> i \<le> MaxRequestID \<and> m \<noteq> [] \<and> params \<noteq> ANull
       then DecodeFrame hi wild True (Some body) = (\<lparr>rf_ID = i, rf_Method = m, rf_Params = Some params, rf_Result = None, rf_ErrorRaw = None, rf_Request = True\<rparr>, True)
       else \<not> snd (DecodeFrame hi wild True (Some body))"
    proof (cases "1 \<le> i \<and> i \<le> MaxRequestID")
      case True
      then show ?thesis using numericID_int[of i wild] unfolding b by (auto simp: d)
    next
      case False
      then show ?thesis using out[OF False, of "[(''id'', ANum (of_int i)), (''jsonrpc'', AStr ''2.0''), (''method'', AStr m), (''params'', params)]"]
        unfolding b by (auto simp: set_names emptyWire_def)
    qed
  next
    assume "ResultBytes hi name len i raw = Some body"
    then have b: "body = AObj [(''id'', ANum (of_int i)), (''jsonrpc'', AStr ''2.0''), (''result'', raw)]"
      by (auto simp: ResultBytes_def encodeFrame_def split: if_splits)
    show "if 1 \<le> i \<and> i \<le> MaxRequestID \<and> raw \<noteq> ANull
       then DecodeFrame hi wild True (Some body) = (\<lparr>rf_ID = i, rf_Method = [], rf_Params = None, rf_Result = Some raw, rf_ErrorRaw = None, rf_Request = False\<rparr>, True)
       else \<not> snd (DecodeFrame hi wild True (Some body))"
    proof (cases "1 \<le> i \<and> i \<le> MaxRequestID")
      case True
      then show ?thesis using numericID_int[of i wild] unfolding b by (auto simp: d)
    next
      case False
      then show ?thesis using out[OF False, of "[(''id'', ANum (of_int i)), (''jsonrpc'', AStr ''2.0''), (''result'', raw)]"]
        unfolding b by (auto simp: set_names emptyWire_def)
    qed
  next
    assume e: "ErrorBytes hi len i code data = Some body"
    define v where "v = errorValue code (case map_of errorMessages code of Some message \<Rightarrow> message | None \<Rightarrow> []) data"
    have v: "v \<noteq> ANull" by (simp add: v_def errorValue_def)
    have b: "validateDefinition hi ''RPCError'' (Some v) = Some None" "body = AObj [(''error'', v), (''id'', ANum (of_int i)), (''jsonrpc'', AStr ''2.0'')]"
      using e by (auto simp: ErrorBytes_def v_def encodeFrame_def Let_def split: if_splits)
    have "if 1 \<le> i \<and> i \<le> MaxRequestID
       then DecodeFrame hi wild True (Some body) = (\<lparr>rf_ID = i, rf_Method = [], rf_Params = None, rf_Result = None, rf_ErrorRaw = Some v, rf_Request = False\<rparr>, True)
       else \<not> snd (DecodeFrame hi wild True (Some body))"
    proof (cases "1 \<le> i \<and> i \<le> MaxRequestID")
      case True
      then show ?thesis using numericID_int[of i wild] v b by (simp add: d)
    next
      case False
      then show ?thesis using out[OF False, of "[(''error'', v), (''id'', ANum (of_int i)), (''jsonrpc'', AStr ''2.0'')]"]
        unfolding b(2) by (auto simp: set_names emptyWire_def)
    qed
    then show "if 1 \<le> i \<and> i \<le> MaxRequestID
       then DecodeFrame hi wild True (Some body) = (\<lparr>rf_ID = i, rf_Method = [], rf_Params = None, rf_Result = None,
         rf_ErrorRaw = Some (errorValue code (case map_of errorMessages code of Some message \<Rightarrow> message | None \<Rightarrow> []) data), rf_Request = False\<rparr>, True)
       else \<not> snd (DecodeFrame hi wild True (Some body))" unfolding v_def .
  qed
qed

theorem frame_round_trip_witness:
  "DecodeFrame (\<lambda>_. False) (\<lambda>_. 0) True (EncodeRequest (\<lambda>_. 0) 7 ''turn.ack'' (AObj []))
   = (\<lparr>rf_ID = 7, rf_Method = ''turn.ack'', rf_Params = Some (AObj []), rf_Result = None, rf_ErrorRaw = None, rf_Request = True\<rparr>, True)
   \<and> \<not> snd (DecodeFrame (\<lambda>_. False) (\<lambda>_. 0) True (EncodeRequest (\<lambda>_. 0) 0 ''turn.ack'' (AObj [])))"
proof -
  obtain b1 b2 where b: "EncodeRequest (\<lambda>_. 0) 7 ''turn.ack'' (AObj []) = Some b1" "EncodeRequest (\<lambda>_. 0) 0 ''turn.ack'' (AObj []) = Some b2"
    by (simp add: EncodeRequest_def encodeFrame_def)
  note r = frame_round_trip[where hi = "\<lambda>_. False" and wild = "\<lambda>_. 0", THEN conjunct1, rule_format]
  show ?thesis using r[OF b(1)] r[OF b(2)] unfolding b by simp
qed

text \<open>The members named \<open>method\<close> and \<open>params\<close> set their fields.\<close>

lemma setFields_keeps: "setFields m w = Some w' \<Longrightarrow> (\<exists>v. (''method'', v) \<in> set m) \<or> wf_Method w \<noteq> None \<Longrightarrow> wf_Method w' \<noteq> None"
  "setFields m w = Some w' \<Longrightarrow> (\<exists>v. (''params'', v) \<in> set m) \<or> wf_Params w \<noteq> None \<Longrightarrow> wf_Params w' \<noteq> None"
proof -
  have m1: "wf_Method w1 \<noteq> None" if "setField k v w = Some w1" "k = ''method'' \<or> wf_Method w \<noteq> None" for k v w and w1 :: wireFrame
    using that fold_names(3) by (auto simp: setField_def Let_def split: if_splits)
  have p1: "wf_Params w1 \<noteq> None" if "setField k v w = Some w1" "k = ''params'' \<or> wf_Params w \<noteq> None" for k v w and w1 :: wireFrame
    using that fold_names(4) by (auto simp: setField_def Let_def split: if_splits)
  show "setFields m w = Some w' \<Longrightarrow> (\<exists>v. (''method'', v) \<in> set m) \<or> wf_Method w \<noteq> None \<Longrightarrow> wf_Method w' \<noteq> None"
    by (induction m w rule: setFields.induct) (use m1 in \<open>fastforce split: option.splits\<close>)+
  show "setFields m w = Some w' \<Longrightarrow> (\<exists>v. (''params'', v) \<in> set m) \<or> wf_Params w \<noteq> None \<Longrightarrow> wf_Params w' \<noteq> None"
    by (induction m w rule: setFields.induct) (use p1 in \<open>fastforce split: option.splits\<close>)+
qed

lemma response_unmarked:
  assumes "decodeWire body = Some wire" "wf_Method wire = None" "wf_Params wire = None"
  shows "\<not> rf_Request (peekFrame wild body)"
proof (cases "\<exists>m. body = Some (AObj m)")
  case True
  then obtain m where m: "body = Some (AObj m)" "setFields m emptyWire = Some wire" using assms(1) by (auto simp: decodeWire_def)
  have "(''method'', v) \<notin> set m" "(''params'', v) \<notin> set m" for v using setFields_keeps[OF m(2)] assms(2,3) by blast+
  then have "map_of (rev m) ''method'' = None" "map_of (rev m) ''params'' = None" by (auto simp: map_of_eq_None_iff)
  then show ?thesis using m(1) by (simp add: peekFrame_def)
qed (auto simp: peekFrame_def split: option.splits jany.splits)

text \<open>
  A frame that decodes is a request or a response, never both: its identifier is in range, a request carries neither result nor
  error, a response has no parameters and exactly one of a result and an error that satisfies its schema. A
  frame marked as a request is one.
\<close>


lemma decoded_frame_forms:
  assumes "DecodeFrame hi wild utf8 body = (f, True)"
  shows "1 \<le> rf_ID f \<and> rf_ID f \<le> MaxRequestID
    \<and> (rf_Method f \<noteq> [] \<and> rf_Result f = None \<and> rf_ErrorRaw f = None \<and> rf_Params f \<noteq> Some ANull
      \<or> \<not> rf_Request f \<and> rf_Params f = None \<and> rf_ErrorRaw f = None \<and> rf_Result f \<noteq> None \<and> rf_Result f \<noteq> Some ANull
      \<or> \<not> rf_Request f \<and> rf_Params f = None \<and> rf_Result f = None \<and> (\<exists>e. rf_ErrorRaw f = Some e \<and> validateDefinition hi ''RPCError'' (Some e) = Some None))"
proof -
  obtain wire i where w: "decodeWire body = Some wire" "numericID wild (wf_ID wire) = (i, True)"
    and f: "(case wf_Method wire of Some m \<Rightarrow> decodeMethod wire m ((peekFrame wild body)\<lparr>rf_ID := i\<rparr>)
       | None \<Rightarrow> decodeResponse hi wire ((peekFrame wild body)\<lparr>rf_ID := i\<rparr>)) = (f, True)"
    using assms by (auto simp: DecodeFrame_def Let_def split: option.splits prod.splits if_splits)
  have p: "rf_Params (peekFrame wild body) = None" "rf_Result (peekFrame wild body) = None" "rf_ErrorRaw (peekFrame wild body) = None" by (simp_all add: peekFrame_def Let_def)
  note r = numericID_range[OF w(2)]
  show ?thesis
  proof (cases "wf_Method wire")
    case None
    then show ?thesis using f r p response_unmarked[OF w(1) None, of wild]
      by (cases "wf_Error wire") (auto simp: decodeResponse_def split: if_splits)
  next
    case (Some m)
    then show ?thesis using f r p by (cases m) (auto simp: decodeMethod_def split: if_splits)
  qed
qed

text \<open>
  The mark is set by the exact names only: a request whose members are spelled with capitals decodes but is taken for
  a response.
\<close>

lemma capital_request_unmarked:
  "DecodeFrame hi wild True (Some (AObj [(''id'', ANum 1), (''jsonrpc'', AStr ''2.0''), (''Method'', AStr ''turn.ack''), (''Params'', AObj [])]))
   = (\<lparr>rf_ID = 1, rf_Method = ''turn.ack'', rf_Params = Some (AObj []), rf_Result = None, rf_ErrorRaw = None, rf_Request = False\<rparr>, True)"
proof -
  have "foldName ''Method'' = ''method''" "foldName ''Params'' = ''params''" by code_simp+
  then have "setField ''Method'' v w = Some (w\<lparr>wf_Method := Some v\<rparr>)" "setField ''Params'' v w = Some (w\<lparr>wf_Params := Some v\<rparr>)" for v w
    by (simp_all add: setField_def)
  then show ?thesis using numericID_int[of 1 wild]
    by (simp add: DecodeFrame_def decodeWire_def peekFrame_def set_names emptyWire_def decodeMethod_def Let_def)
qed

section \<open>Loading the schema\<close>

definition schemaKeywords :: "gostring list" where
  "schemaKeywords = [''$ref'', ''const'', ''enum'', ''type'', ''required'', ''additionalProperties'', ''minProperties'', ''properties'', ''items'', ''uniqueItems'',
     ''minLength'', ''maxLength'', ''pattern'', ''minimum'', ''maximum'', ''exclusiveMinimum'', ''allOf'', ''if'', ''then'', ''else'', ''not'']"

definition refKnown :: "schemaNode \<Rightarrow> jany \<Rightarrow> bool" where
  "refKnown defs raw =
     (case raw of
        AStr s \<Rightarrow> take 8 s = ''#/$defs/'' \<and> (case gm_get defs (drop 8 s) of None \<Rightarrow> False | Some v \<Rightarrow> v \<noteq> ANull)
      | _ \<Rightarrow> False)"

text \<open>
  \<open>checkSchemaNode\<close>; \<open>compiles\<close> says which patterns \<open>regexp.Compile\<close> accepts. A failed type assertion is a panic, as
  every refusal is one in \<open>loadSchema\<close>.
\<close>

fun checkSchemaNode :: "(gostring \<Rightarrow> bool) \<Rightarrow> schemaNode \<Rightarrow> jany \<Rightarrow> bool" where
  "checkSchemaNode compiles defs (AObj m) =
     list_all (\<lambda>(key, raw). key \<in> set schemaKeywords
       \<and> (key = ''$ref'' \<longrightarrow> refKnown defs raw)
       \<and> (key = ''pattern'' \<longrightarrow> (case raw of AStr s \<Rightarrow> compiles s | _ \<Rightarrow> False))
       \<and> (key = ''properties'' \<longrightarrow> (case raw of AObj children \<Rightarrow> list_all (\<lambda>(k, child). checkSchemaNode compiles defs child) children | _ \<Rightarrow> False))
       \<and> (key \<in> set [''items'', ''if'', ''then'', ''else'', ''not''] \<longrightarrow> checkSchemaNode compiles defs raw)
       \<and> (key = ''allOf'' \<longrightarrow> (case raw of AArr children \<Rightarrow> list_all (checkSchemaNode compiles defs) children | _ \<Rightarrow> False))) m"
| "checkSchemaNode compiles defs _ = False"

definition loadSchema :: "(gostring \<Rightarrow> bool) \<Rightarrow> jany \<Rightarrow> schemaNode option" where
  "loadSchema compiles document =
     (case document of
        AObj r \<Rightarrow>
          if length r \<noteq> 3 \<or> \<not> list_all (\<lambda>(key, v). key \<in> set [''$schema'', ''$id'', ''$defs'']) r then None
          else (case gm_get r ''$defs'' of
                  Some (AObj defs) \<Rightarrow> if defs = [] \<or> \<not> list_all (\<lambda>(name, v). checkSchemaNode compiles defs v) defs then None else Some defs
                | _ \<Rightarrow> None)
      | _ \<Rightarrow> None)"

definition sessionSchemaDocument :: jany where
  "sessionSchemaDocument = AObj [(''$schema'', AStr ''https://json-schema.org/draft/2020-12/schema''), (''$id'', AStr ''urn:sessionbus:session:v1''),
     (''$defs'', AObj schemaDefinitions)]"

text \<open>The check of one member, keyword by keyword.\<close>

definition memberChecked :: "(gostring \<Rightarrow> bool) \<Rightarrow> schemaNode \<Rightarrow> gostring \<times> jany \<Rightarrow> bool" where
  "memberChecked compiles defs x \<longleftrightarrow> checkSchemaNode compiles defs (AObj [x])"

lemma check_members: "checkSchemaNode compiles defs (AObj m) \<longleftrightarrow> list_all (memberChecked compiles defs) m"
  by (induction m) (simp_all add: memberChecked_def)

lemma member_plain:
  "memberChecked c d (''const'', v)" "memberChecked c d (''enum'', v)" "memberChecked c d (''type'', v)" "memberChecked c d (''required'', v)"
  "memberChecked c d (''additionalProperties'', v)" "memberChecked c d (''minProperties'', v)" "memberChecked c d (''uniqueItems'', v)"
  "memberChecked c d (''minLength'', v)" "memberChecked c d (''maxLength'', v)" "memberChecked c d (''minimum'', v)" "memberChecked c d (''maximum'', v)"
  "memberChecked c d (''exclusiveMinimum'', v)"
  by (simp_all add: memberChecked_def schemaKeywords_def)

lemma member_nested:
  "memberChecked c d (''$ref'', v) = refKnown d v" "memberChecked c d (''pattern'', AStr s) = c s"
  "memberChecked c d (''properties'', AObj cs) = list_all (\<lambda>x. checkSchemaNode c d (snd x)) cs"
  "memberChecked c d (''items'', v) = checkSchemaNode c d v" "memberChecked c d (''if'', v) = checkSchemaNode c d v"
  "memberChecked c d (''then'', v) = checkSchemaNode c d v" "memberChecked c d (''else'', v) = checkSchemaNode c d v"
  "memberChecked c d (''not'', v) = checkSchemaNode c d v" "memberChecked c d (''allOf'', AArr vs) = list_all (checkSchemaNode c d) vs"
  by (simp_all add: memberChecked_def schemaKeywords_def case_prod_unfold)

lemmas member_rules = check_members member_plain member_nested list.pred_inject snd_conv

lemma refKnown_node: "take 8 s = ''#/$defs/'' \<Longrightarrow> refNode defs s \<noteq> [] \<Longrightarrow> refKnown defs (AStr s)"
  by (auto simp: refKnown_def refNode_def refName_def node_def split: option.splits)

lemma known_refs:
  "refKnown schemaDefinitions (AStr ''#/$defs/SpawnFailedData'')" "refKnown schemaDefinitions (AStr ''#/$defs/ExtraArgument'')"
  "refKnown schemaDefinitions (AStr ''#/$defs/DeliverySource'')" "refKnown schemaDefinitions (AStr ''#/$defs/LanePolicy'')"
  "refKnown schemaDefinitions (AStr ''#/$defs/HostProducts'')" "refKnown schemaDefinitions (AStr ''#/$defs/MessageSendDelivery'')"
  "refKnown schemaDefinitions (AStr ''#/$defs/DeliveryReceipt'')" "refKnown schemaDefinitions (AStr ''#/$defs/SessionOpenOptions'')"
  "refKnown schemaDefinitions (AStr ''#/$defs/TurnRunResult'')" "refKnown schemaDefinitions (AStr ''#/$defs/SessionSummary'')"
  "refKnown schemaDefinitions (AStr ''#/$defs/SessionSelfInfo'')" "refKnown schemaDefinitions (AStr ''#/$defs/RPCError'')"
  by (rule refKnown_node; simp add: schema_refs node_def schema_SpawnFailedData_def schema_ExtraArgument_def schema_DeliverySource_def schema_LanePolicy_def schema_HostProducts_def schema_MessageSendDelivery_def schema_DeliveryReceipt_def schema_SessionOpenOptions_def schema_TurnRunResult_def schema_SessionSummary_def schema_SessionSelfInfo_def schema_RPCError_def)+

lemma schema_checked:
  assumes "compiles hostPattern" "compiles namePattern"
  shows "list_all (\<lambda>x. checkSchemaNode compiles schemaDefinitions (snd x)) schemaDefinitions"
  by (subst (2) schemaDefinitions_def) (simp only: schema_defs_only member_rules known_refs assms simp_thms)

text \<open>
  The embedded schema loads: the document has the three expected members, every
  keyword is one the validator knows, every reference has a definition, and every other place the loader
  inspects has the form it asserts, provided the two patterns of the schema are regular expressions.
\<close>

theorem schema_loads:
  assumes "compiles hostPattern" "compiles namePattern"
  shows "loadSchema compiles sessionSchemaDocument = Some schemaDefinitions"
proof -
  have "list_all (\<lambda>(name, v). checkSchemaNode compiles schemaDefinitions v) schemaDefinitions"
    using schema_checked[of compiles, OF assms] by (simp only: case_prod_unfold)
  moreover have "schemaDefinitions \<noteq> []" by (simp add: schemaDefinitions_def)
  ultimately show ?thesis by (simp add: loadSchema_def sessionSchemaDocument_def gm_get_def)
qed

theorem schema_loads_witness: "loadSchema (\<lambda>p. p = hostPattern \<or> p = namePattern) sessionSchemaDocument = Some schemaDefinitions"
  by (rule schema_loads) simp_all

end
